(* ===== verification/Fw_Base.thy ===== *)
theory Fw_Base
  imports Main "HOL-Library.Word" "HOL-Library.Monad_Syntax"
begin

text \<open>
  Shared ground of the development: the machine integers of the target (a 32-bit little-endian
  Cortex-M4), bounds-checked access to C arrays, the counted loop, and the word and list facts
  every component uses.

  C arrays are lists. An access outside an array is undefined behaviour in C; here it is the
  value \<open>None\<close> of the option monad, so that memory safety is a theorem (the result is
  \<open>Some\<close>) and never an assumption.
\<close>

unbundle bit_operations_syntax

named_theorems fw_defs \<open>definitions of straight-line code, to be unfolded together\<close>
named_theorems fw_word \<open>facts about the byte and register arithmetic\<close>

type_synonym u8 = "8 word"
type_synonym u16 = "16 word"
type_synonym u32 = "32 word"

section \<open>Arrays with checked bounds\<close>

definition arr_get :: "'a list \<Rightarrow> nat \<Rightarrow> 'a option" where
  "arr_get xs i = (if i < length xs then Some (xs ! i) else None)"

definition arr_set :: "'a list \<Rightarrow> nat \<Rightarrow> 'a \<Rightarrow> 'a list option" where
  "arr_set xs i v = (if i < length xs then Some (xs[i := v]) else None)"

lemma arr_get_Some [simp]: "i < length xs \<Longrightarrow> arr_get xs i = Some (xs ! i)"
  by (simp add: arr_get_def)

lemma arr_set_Some [simp]: "i < length xs \<Longrightarrow> arr_set xs i v = Some (xs[i := v])"
  by (simp add: arr_set_def)

lemma arr_get_None [simp]: "length xs \<le> i \<Longrightarrow> arr_get xs i = None"
  by (simp add: arr_get_def)

lemma arr_set_None [simp]: "length xs \<le> i \<Longrightarrow> arr_set xs i v = None"
  by (simp add: arr_set_def)

lemma arr_get_eq_Some: "arr_get xs i = Some v \<longleftrightarrow> i < length xs \<and> v = xs ! i"
  by (auto simp: arr_get_def)

lemma arr_set_eq_Some: "arr_set xs i v = Some ys \<longleftrightarrow> i < length xs \<and> ys = xs[i := v]"
  by (auto simp: arr_set_def)

section \<open>The counted loop\<close>

text \<open>
  \<open>for_range i n f s\<close> is \<open>for (; i < n; i++) s = f(i, s)\<close>; a fault of the body ends it.
\<close>

function for_range :: "nat \<Rightarrow> nat \<Rightarrow> (nat \<Rightarrow> 's \<Rightarrow> 's option) \<Rightarrow> 's \<Rightarrow> 's option" where
  "for_range i n f s =
     (if i < n then (case f i s of None \<Rightarrow> None | Some s' \<Rightarrow> for_range (Suc i) n f s') else Some s)"
  by pat_completeness auto
termination
  by (relation "measure (\<lambda>(i, n, f, s). n - i)") auto

declare for_range.simps [simp del]

lemma for_range_done [simp]: "n \<le> i \<Longrightarrow> for_range i n f s = Some s"
  by (simp add: for_range.simps)

lemma for_range_step:
  "i < n \<Longrightarrow> for_range i n f s = (case f i s of None \<Rightarrow> None | Some s' \<Rightarrow> for_range (Suc i) n f s')"
  by (subst for_range.simps) simp

text \<open>
  The loop rule: a property of the counter and the state that holds at the start and that every
  round keeps, without a fault, holds of the result, and there is a result.
\<close>

lemma for_range_inv:
  assumes "i \<le> n" and "P i s"
    and "\<And>j t. i \<le> j \<Longrightarrow> j < n \<Longrightarrow> P j t \<Longrightarrow> \<exists>t'. f j t = Some t' \<and> P (Suc j) t'"
  shows "\<exists>t. for_range i n f s = Some t \<and> P n t"
  using assms
proof (induction i n f s rule: for_range.induct)
  case (1 i n f s)
  show ?case
  proof (cases "i < n")
    case True
    with "1.prems" obtain s' where s': "f i s = Some s'" "P (Suc i) s'" by blast
    have "\<exists>t. for_range (Suc i) n f s' = Some t \<and> P n t"
      by (rule "1.IH" [OF True s'(1)]) (use True s'(2) "1.prems"(3) in auto)
    with True s'(1) show ?thesis by (simp add: for_range_step)
  next
    case False
    with "1.prems" show ?thesis by simp
  qed
qed

section \<open>Memory blocks\<close>

text \<open>Writing \<open>ys\<close> over \<open>xs\<close> from position \<open>s\<close> on, at once or one element per round.\<close>

definition splice :: "'a list \<Rightarrow> nat \<Rightarrow> 'a list \<Rightarrow> 'a list" where
  "splice xs s ys = take s xs @ ys @ drop (s + length ys) xs"

lemma splice_Nil [simp]: "splice xs s [] = xs"
  by (simp add: splice_def)

lemma length_splice [simp]: "s + length ys \<le> length xs \<Longrightarrow> length (splice xs s ys) = length xs"
  by (simp add: splice_def)

lemma nth_splice:
  "s + length ys \<le> length xs \<Longrightarrow> i < length xs \<Longrightarrow>
   splice xs s ys ! i = (if s \<le> i \<and> i < s + length ys then ys ! (i - s) else xs ! i)"
  by (auto simp: splice_def nth_append min_def)

lemma splice_update:
  "s + length ys < length xs \<Longrightarrow> (splice xs s ys)[s + length ys := v] = splice xs s (ys @ [v])"
  by (rule nth_equalityI) (auto simp: nth_splice nth_list_update nth_append)

lemma for_range_fill:
  assumes "s + n \<le> length xs"
    and "\<And>i ys. i < n \<Longrightarrow> length ys = length xs \<Longrightarrow> f i ys = arr_set ys (s + i) (g i)"
  shows "for_range 0 n f xs = Some (splice xs s (map g [0..<n]))"
proof -
  have "\<exists>t. for_range 0 n f xs = Some t \<and> t = splice xs s (map g [0..<n])"
  proof (rule for_range_inv [where P = "\<lambda>i t. t = splice xs s (map g [0..<i])"])
    fix j t
    assume j: "j < n" and t: "t = splice xs s (map g [0..<j])"
    with assms have "f j t = Some (t[s + j := g j])" by simp
    moreover have "t[s + j := g j] = splice xs s (map g [0..<Suc j])"
      using splice_update [of s "map g [0..<j]" xs "g j"] j assms(1) t by simp
    ultimately show "\<exists>t'. f j t = Some t' \<and> t' = splice xs s (map g [0..<Suc j])" by simp
  qed simp_all
  then show ?thesis by simp
qed

text \<open>\<open>memcpy\<close> to and from offset \<open>o\<close> of a block, which must lie inside it.\<close>

definition mem_load :: "'a list \<Rightarrow> int \<Rightarrow> nat \<Rightarrow> 'a list option" where
  "mem_load xs off n = (if 0 \<le> off \<and> nat off + n \<le> length xs then Some (take n (drop (nat off) xs)) else None)"

definition mem_store :: "'a list \<Rightarrow> int \<Rightarrow> 'a list \<Rightarrow> 'a list option" where
  "mem_store xs off ys = (if 0 \<le> off \<and> nat off + length ys \<le> length xs then Some (splice xs (nat off) ys) else None)"

text \<open>A block of \<open>n\<close> slots of \<open>w\<close> elements each.\<close>

definition slot :: "nat \<Rightarrow> 'a list \<Rightarrow> nat \<Rightarrow> 'a list" where
  "slot w xs i = take w (drop (i * w) xs)"

lemma slot_bound: "i < n \<Longrightarrow> i * w + w \<le> n * (w :: nat)"
  by (metis Suc_leI add.commute mult_Suc mult_le_mono1)

lemma mem_load_slot: "length xs = n * w \<Longrightarrow> i < n \<Longrightarrow> mem_load xs (int (i * w)) w = Some (slot w xs i)"
  using slot_bound [of i n w] by (simp add: mem_load_def slot_def del: of_nat_mult)

lemma mem_store_slot:
  "length xs = n * w \<Longrightarrow> i < n \<Longrightarrow> length ys = w \<Longrightarrow> mem_store xs (int (i * w)) ys = Some (splice xs (i * w) ys)"
  using slot_bound [of i n w] by (simp add: mem_store_def del: of_nat_mult)

lemma slot_splice:
  assumes "length xs = n * w" and "i < n" and "j < n" and "length ys = w"
  shows "slot w (splice xs (i * w) ys) j = (if j = i then ys else slot w xs j)"
proof (cases "j = i")
  case True
  then show ?thesis using assms slot_bound [of i n w] by (simp add: slot_def splice_def)
next
  case False
  have bi: "i * w + w \<le> length xs" and bj: "j * w + w \<le> length xs" using assms slot_bound by simp_all
  have "j * w + w \<le> i * w \<or> i * w + w \<le> j * w"
    using False slot_bound [of j i w] slot_bound [of i j w] by linarith
  then have "splice xs (i * w) ys ! (j * w + k) = xs ! (j * w + k)" if "k < w" for k
    using that bi bj assms(4) by (subst nth_splice) auto
  then show ?thesis
    using False bi bj assms(4) by (intro nth_equalityI) (simp_all add: slot_def)
qed

section \<open>Bytes of a 16-bit value\<close>

definition be16 :: "u8 \<Rightarrow> u8 \<Rightarrow> u16" where
  "be16 hi lo = (push_bit 8 (ucast hi)) OR ucast lo"

definition hi8 :: "u16 \<Rightarrow> u8" where
  "hi8 w = ucast (drop_bit 8 w)"

definition lo8 :: "u16 \<Rightarrow> u8" where
  "lo8 w = ucast (w AND 0xFF)"

lemma bit_be16:
  "bit (be16 h l) n \<longleftrightarrow> (if n < 8 then bit l n else n < 16 \<and> bit h (n - 8))"
  by (auto simp: be16_def bit_simps not_less dest: bit_imp_le_length)

lemma bit_hi8 [simp]: "bit (hi8 w) n \<longleftrightarrow> n < 8 \<and> bit w (n + 8)"
  by (auto simp: hi8_def bit_simps ac_simps)

lemma bit_255_int [simp]: "bit (0xFF :: int) n \<longleftrightarrow> n < 8"
proof -
  have "(0xFF :: int) = mask 8" by (simp add: mask_eq_exp_minus_1)
  then show ?thesis by (simp only: bit_mask_iff) simp
qed

lemma bit_lo8 [simp]: "bit (lo8 w) n \<longleftrightarrow> n < 8 \<and> bit w n"
  by (auto simp: lo8_def bit_simps)

lemma unat_and_255 [simp]: "unat (w AND 0xFF :: u16) < 256"
proof -
  have "unat (w AND 0xFF) \<le> unat (0xFF :: u16)"
    by (rule word_and_le1 [THEN word_le_nat_alt [THEN iffD1]])
  then show ?thesis by simp
qed

lemma xor_right_cancel [simp]: "(a XOR c = b XOR c) \<longleftrightarrow> (a = (b :: 'a::len word))"
proof
  assume "a XOR c = b XOR c"
  then have "(a XOR c) XOR c = (b XOR c) XOR c" by simp
  then show "a = b" by (simp only: xor.assoc xor_self_eq xor.right_neutral)
qed simp

lemma xor_left_cancel [simp]: "(c XOR a = c XOR b) \<longleftrightarrow> (a = (b :: 'a::len word))"
  by (simp only: xor.commute [of c] xor_right_cancel)

lemma xor_eq_zero [simp]: "a XOR b = 0 \<longleftrightarrow> a = (b :: 'a::len word)"
  by (metis xor_left_cancel xor_self_eq)

lemma ucast_of_nat_u8 [simp]: "(ucast (of_nat n :: u16) :: u8) = of_nat n"
  by (rule bit_word_eqI) (simp add: bit_ucast_iff bit_of_nat_iff_bit bit_simps)

lemma xor_transpose:
  fixes a b c d :: "'a::len word"
  assumes "a XOR c = b XOR d"
  shows "a XOR b = c XOR d"
proof (rule bit_word_eqI)
  fix n
  assume "n < LENGTH('a)"
  have "bit (a XOR c) n = bit (b XOR d) n" using assms by simp
  then show "bit (a XOR b) n = bit (c XOR d) n" by (simp add: bit_xor_iff) blast
qed

lemma u8_less_256 [simp]: "unat (b :: u8) < 256"
proof -
  have "unat b < 2 ^ LENGTH(8)" by (rule unsigned_less)
  then show ?thesis by simp
qed

lemma u16_less_65536 [simp]: "unat (w :: u16) < 65536"
proof -
  have "unat w < 2 ^ LENGTH(16)" by (rule unsigned_less)
  then show ?thesis by simp
qed

lemma unat_ucast_u8_u16 [simp]: "unat (ucast (b :: u8) :: u16) = unat b"
  using less_trans [OF u8_less_256 [of b], of 65536]
  by (simp add: unsigned_ucast_eq take_bit_nat_eq_self_iff)

lemma ucast_u8_inject [simp]: "(ucast a :: u16) = ucast b \<longleftrightarrow> a = (b :: u8)"
  by (metis unat_ucast_u8_u16 word_unat_eq_iff)

lemma be16_hi8_lo8 [simp, fw_word]: "be16 (hi8 w) (lo8 w) = w"
  by (rule bit_word_eqI) (auto simp: bit_be16)

lemma hi8_be16 [simp, fw_word]: "hi8 (be16 h l) = h"
  by (rule bit_word_eqI) (auto simp: bit_be16)

lemma lo8_be16 [simp, fw_word]: "lo8 (be16 h l) = l"
  by (rule bit_word_eqI) (auto simp: bit_be16)

lemma be16_inject [simp]: "be16 h l = be16 h' l' \<longleftrightarrow> h = h' \<and> l = l'"
  by (metis hi8_be16 lo8_be16)

text \<open>The simplifier reads a bit of a numeral off the integer.\<close>

lemma bit_ones_int [simp]:
  "bit (31 :: int) n \<longleftrightarrow> n < 5" "bit (1023 :: int) n \<longleftrightarrow> n < 10" "bit (65535 :: int) n \<longleftrightarrow> n < 16"
proof -
  have m: "bit (mask k :: int) n \<longleftrightarrow> n < k" for k by (simp add: bit_mask_iff)
  show "bit (31 :: int) n \<longleftrightarrow> n < 5" using m [of 5] by (simp add: mask_eq_exp_minus_1)
  show "bit (1023 :: int) n \<longleftrightarrow> n < 10" using m [of 10] by (simp add: mask_eq_exp_minus_1)
  show "bit (65535 :: int) n \<longleftrightarrow> n < 16" using m [of 16] by (simp add: mask_eq_exp_minus_1)
qed

lemma bit_bounded:
  assumes "unat (w :: 'a::len word) < 2 ^ k" and "bit w n"
  shows "n < k"
proof -
  have "bit (unat w) n"
    using assms(2) by (simp add: bit_unsigned_iff)
  then have "bit (take_bit k (unat w)) n"
    using assms(1) by (simp add: take_bit_nat_eq_self)
  then show ?thesis by (simp add: bit_take_bit_iff)
qed

section \<open>Bit fields of a register\<close>

text \<open>
  \<open>BIT\<close> and \<open>BITS\<close> of \<open>gd32f30x.h\<close> (lines 298 and 299) on 32-bit values.
\<close>

definition BIT :: "nat \<Rightarrow> u32" where
  "BIT x = push_bit x 1"

definition BITS :: "nat \<Rightarrow> nat \<Rightarrow> u32" where
  "BITS a b = push_bit a 0xFFFFFFFF AND drop_bit (31 - b) 0xFFFFFFFF"

end
