(* ===== verification/Gd32_Mmio.thy ===== *)
theory Gd32_Mmio
  imports Fw_Base
begin

text \<open>
  The memory-mapped peripherals as the drivers see them: \<open>REG32(addr)\<close> of
  \<open>gd32f30x.h\<close> read and written as volatile 32-bit objects. The state is the value each address
  reads as, and the accesses so far in order (a volatile access is an effect: reading the status
  and data registers of a USART acknowledges a flag, a write of a set or clear register moves a
  pin). What the hardware does on its own is a step of the environment, in the theories that
  need it.
\<close>

datatype reg_access = Rd u32 | Wr u32 u32

record mmio =
  regs :: "u32 \<Rightarrow> u32"
  accesses :: "reg_access list"

definition rd :: "u32 \<Rightarrow> mmio \<Rightarrow> u32 \<times> mmio" where
  "rd a m = (regs m a, m\<lparr>accesses := accesses m @ [Rd a]\<rparr>)"

definition wr :: "u32 \<Rightarrow> u32 \<Rightarrow> mmio \<Rightarrow> mmio" where
  "wr a v m = m\<lparr>regs := (regs m)(a := v), accesses := accesses m @ [Wr a v]\<rparr>"

text \<open>\<open>REG |= v\<close> and \<open>REG &= ~v\<close>: one read and one write.\<close>

definition reg_or :: "u32 \<Rightarrow> u32 \<Rightarrow> mmio \<Rightarrow> mmio" where
  "reg_or a v m = (let (x, m) = rd a m in wr a (x OR v) m)"

definition reg_clr :: "u32 \<Rightarrow> u32 \<Rightarrow> mmio \<Rightarrow> mmio" where
  "reg_clr a v m = (let (x, m) = rd a m in wr a (x AND NOT v) m)"

lemma fst_rd [simp]: "fst (rd a m) = regs m a"
  by (simp add: rd_def)

lemma regs_rd [simp]: "regs (snd (rd a m)) = regs m"
  by (simp add: rd_def)

lemma regs_wr [simp]: "regs (wr a v m) = (regs m)(a := v)"
  by (simp add: wr_def)

lemma regs_reg_or [simp]: "regs (reg_or a v m) = (regs m)(a := regs m a OR v)"
  by (simp add: reg_or_def case_prod_beta)

lemma regs_reg_clr [simp]: "regs (reg_clr a v m) = (regs m)(a := regs m a AND NOT v)"
  by (simp add: reg_clr_def case_prod_beta)

lemma accesses_rd [simp]: "accesses (snd (rd a m)) = accesses m @ [Rd a]"
  by (simp add: rd_def)

lemma accesses_wr [simp]: "accesses (wr a v m) = accesses m @ [Wr a v]"
  by (simp add: wr_def)

lemma accesses_reg_or [simp]:
  "accesses (reg_or a v m) = accesses m @ [Rd a, Wr a (regs m a OR v)]"
  by (simp add: reg_or_def case_prod_beta)

lemma accesses_reg_clr [simp]:
  "accesses (reg_clr a v m) = accesses m @ [Rd a, Wr a (regs m a AND NOT v)]"
  by (simp add: reg_clr_def case_prod_beta)

text \<open>\<open>FlagStatus\<close> and \<open>ErrStatus\<close> (\<open>gd32f30x.h\<close>).\<close>

datatype FlagStatus = RESET | SET

datatype ErrStatus = ERROR | SUCCESS

text \<open>Bit facts about fields.\<close>

lemma bit_BIT [simp]: "bit (BIT k) n \<longleftrightarrow> n = k \<and> k < 32"
  by (auto simp: BIT_def bit_simps)

lemma bit_BITS [simp]: "b < 32 \<Longrightarrow> bit (BITS a b) n \<longleftrightarrow> a \<le> n \<and> n \<le> b"
proof -
  assume b: "b < 32"
  have ones: "(0xFFFFFFFF :: u32) = - 1" by simp
  show ?thesis
    using b unfolding BITS_def ones by (auto simp: bit_simps)
qed

lemma and_BIT_eq_0 [simp]: "x AND BIT k = 0 \<longleftrightarrow> \<not> bit x k"
proof
  assume z: "x AND BIT k = 0"
  show "\<not> bit x k"
  proof
    assume "bit x k"
    moreover from this have "k < 32" by (auto dest: bit_imp_le_length)
    ultimately have "bit (x AND BIT k) k" by (simp add: bit_and_iff)
    with z show False by simp
  qed
next
  assume "\<not> bit x k"
  then show "x AND BIT k = 0" by (intro bit_eqI) (auto simp: bit_and_iff)
qed

end
