(* ===== verification/Gd32_Dma.thy ===== *)
theory Gd32_Dma
  imports Gd32_Mmio
begin

text \<open>
  \<open>gd32f30x_dma.c\<close>: the DMA driver, one definition per function. A call with a channel the
  controller does not have ends in the loop \<open>DMA_WRONG_HANDLE\<close>, which never returns: the
  result is \<open>None\<close>.
\<close>

section \<open>Registers\<close>

abbreviation DMA0 :: u32 where "DMA0 \<equiv> 0x40020000"
abbreviation DMA1 :: u32 where "DMA1 \<equiv> 0x40020400"

type_synonym dma_channel_enum = u32

abbreviation DMA_CH3 :: dma_channel_enum where "DMA_CH3 \<equiv> 3"
abbreviation DMA_CH4 :: dma_channel_enum where "DMA_CH4 \<equiv> 4"

definition DMA_INTF :: "u32 \<Rightarrow> u32" where "DMA_INTF dma = dma + 0x00"
definition DMA_INTC :: "u32 \<Rightarrow> u32" where "DMA_INTC dma = dma + 0x04"
definition DMA_CHCTL :: "u32 \<Rightarrow> dma_channel_enum \<Rightarrow> u32" where "DMA_CHCTL dma ch = (dma + 0x08) + 0x14 * ch"
definition DMA_CHCNT :: "u32 \<Rightarrow> dma_channel_enum \<Rightarrow> u32" where "DMA_CHCNT dma ch = (dma + 0x0C) + 0x14 * ch"
definition DMA_CHPADDR :: "u32 \<Rightarrow> dma_channel_enum \<Rightarrow> u32" where "DMA_CHPADDR dma ch = (dma + 0x10) + 0x14 * ch"
definition DMA_CHMADDR :: "u32 \<Rightarrow> dma_channel_enum \<Rightarrow> u32" where "DMA_CHMADDR dma ch = (dma + 0x14) + 0x14 * ch"

lemmas dma_reg_defs = DMA_INTF_def DMA_INTC_def DMA_CHCTL_def DMA_CHCNT_def DMA_CHPADDR_def DMA_CHMADDR_def

abbreviation DMA_CHXCTL_CHEN :: u32 where "DMA_CHXCTL_CHEN \<equiv> BIT 0"
abbreviation DMA_CHXCTL_FTFIE :: u32 where "DMA_CHXCTL_FTFIE \<equiv> BIT 1"
abbreviation DMA_CHXCTL_HTFIE :: u32 where "DMA_CHXCTL_HTFIE \<equiv> BIT 2"
abbreviation DMA_CHXCTL_ERRIE :: u32 where "DMA_CHXCTL_ERRIE \<equiv> BIT 3"
abbreviation DMA_CHXCTL_DIR :: u32 where "DMA_CHXCTL_DIR \<equiv> BIT 4"
abbreviation DMA_CHXCTL_CMEN :: u32 where "DMA_CHXCTL_CMEN \<equiv> BIT 5"
abbreviation DMA_CHXCTL_PNAGA :: u32 where "DMA_CHXCTL_PNAGA \<equiv> BIT 6"
abbreviation DMA_CHXCTL_MNAGA :: u32 where "DMA_CHXCTL_MNAGA \<equiv> BIT 7"
abbreviation DMA_CHXCTL_PWIDTH :: u32 where "DMA_CHXCTL_PWIDTH \<equiv> BITS 8 9"
abbreviation DMA_CHXCTL_MWIDTH :: u32 where "DMA_CHXCTL_MWIDTH \<equiv> BITS 10 11"
abbreviation DMA_CHXCTL_PRIO :: u32 where "DMA_CHXCTL_PRIO \<equiv> BITS 12 13"
abbreviation DMA_CHXCTL_M2M :: u32 where "DMA_CHXCTL_M2M \<equiv> BIT 14"
abbreviation DMA_CHANNEL_CNT_MASK :: u32 where "DMA_CHANNEL_CNT_MASK \<equiv> BITS 0 15"
abbreviation DMA_CHINTF_RESET_VALUE :: u32 where
  "DMA_CHINTF_RESET_VALUE \<equiv> BIT 0 OR BIT 1 OR BIT 2 OR BIT 3"

definition CHCTL_PWIDTH :: "u32 \<Rightarrow> u32" where "CHCTL_PWIDTH r = BITS 8 9 AND push_bit 8 r"
definition CHCTL_MWIDTH :: "u32 \<Rightarrow> u32" where "CHCTL_MWIDTH r = BITS 10 11 AND push_bit 10 r"
definition CHCTL_PRIO :: "u32 \<Rightarrow> u32" where "CHCTL_PRIO r = BITS 12 13 AND push_bit 12 r"

definition DMA_FLAG_ADD :: "u32 \<Rightarrow> u32 \<Rightarrow> u32" where
  "DMA_FLAG_ADD flag shift = push_bit (unat (shift * 4)) flag"

abbreviation DMA_PERIPHERAL_TO_MEMORY :: u8 where "DMA_PERIPHERAL_TO_MEMORY \<equiv> 0"
abbreviation DMA_MEMORY_TO_PERIPHERAL :: u8 where "DMA_MEMORY_TO_PERIPHERAL \<equiv> 1"
abbreviation DMA_PERIPH_INCREASE_DISABLE :: u8 where "DMA_PERIPH_INCREASE_DISABLE \<equiv> 0"
abbreviation DMA_PERIPH_INCREASE_ENABLE :: u8 where "DMA_PERIPH_INCREASE_ENABLE \<equiv> 1"
abbreviation DMA_MEMORY_INCREASE_DISABLE :: u8 where "DMA_MEMORY_INCREASE_DISABLE \<equiv> 0"
abbreviation DMA_MEMORY_INCREASE_ENABLE :: u8 where "DMA_MEMORY_INCREASE_ENABLE \<equiv> 1"

record dma_parameter_struct =
  periph_addr :: u32
  periph_width :: u32
  memory_addr :: u32
  memory_width :: u32
  number :: u32
  priority :: u32
  periph_inc :: u8
  memory_inc :: u8
  direction :: u8

section \<open>Functions\<close>

definition dma_periph_and_channel_check :: "u32 \<Rightarrow> dma_channel_enum \<Rightarrow> ErrStatus" where
  "dma_periph_and_channel_check dma ch = (if DMA1 = dma then if ch > DMA_CH4 then ERROR else SUCCESS else SUCCESS)"

definition checked :: "u32 \<Rightarrow> dma_channel_enum \<Rightarrow> 'a \<Rightarrow> 'a option" where
  "checked dma ch r = (if ERROR = dma_periph_and_channel_check dma ch then None else Some r)"

definition dma_deinit :: "u32 \<Rightarrow> dma_channel_enum \<Rightarrow> mmio \<Rightarrow> mmio option" where
  "dma_deinit dma ch m = checked dma ch (
     let m = reg_clr (DMA_CHCTL dma ch) DMA_CHXCTL_CHEN m;
         m = wr (DMA_CHCTL dma ch) 0 m;
         m = wr (DMA_CHCNT dma ch) 0 m;
         m = wr (DMA_CHPADDR dma ch) 0 m;
         m = wr (DMA_CHMADDR dma ch) 0 m
     in reg_or (DMA_INTC dma) (DMA_FLAG_ADD DMA_CHINTF_RESET_VALUE ch) m)"

definition dma_struct_para_init :: dma_parameter_struct where
  "dma_struct_para_init = \<lparr>periph_addr = 0, periph_width = 0, memory_addr = 0, memory_width = 0,
     number = 0, priority = CHCTL_PRIO 0, periph_inc = DMA_PERIPH_INCREASE_DISABLE,
     memory_inc = DMA_MEMORY_INCREASE_DISABLE, direction = DMA_PERIPHERAL_TO_MEMORY\<rparr>"

definition dma_init :: "u32 \<Rightarrow> dma_channel_enum \<Rightarrow> dma_parameter_struct \<Rightarrow> mmio \<Rightarrow> mmio option" where
  "dma_init dma ch s m = checked dma ch (
     let m = wr (DMA_CHPADDR dma ch) (periph_addr s) m;
         m = wr (DMA_CHMADDR dma ch) (memory_addr s) m;
         m = wr (DMA_CHCNT dma ch) (number s AND DMA_CHANNEL_CNT_MASK) m;
         (ctl, m) = rd (DMA_CHCTL dma ch) m;
         ctl = ctl AND NOT (DMA_CHXCTL_PWIDTH OR DMA_CHXCTL_MWIDTH OR DMA_CHXCTL_PRIO);
         ctl = ctl OR (periph_width s OR memory_width s OR priority s);
         m = wr (DMA_CHCTL dma ch) ctl m;
         m = (if DMA_PERIPH_INCREASE_ENABLE = periph_inc s
              then reg_or (DMA_CHCTL dma ch) DMA_CHXCTL_PNAGA m
              else reg_clr (DMA_CHCTL dma ch) DMA_CHXCTL_PNAGA m);
         m = (if DMA_MEMORY_INCREASE_ENABLE = memory_inc s
              then reg_or (DMA_CHCTL dma ch) DMA_CHXCTL_MNAGA m
              else reg_clr (DMA_CHCTL dma ch) DMA_CHXCTL_MNAGA m)
     in if DMA_PERIPHERAL_TO_MEMORY = direction s
        then reg_clr (DMA_CHCTL dma ch) DMA_CHXCTL_DIR m
        else reg_or (DMA_CHCTL dma ch) DMA_CHXCTL_DIR m)"

definition dma_circulation_enable :: "u32 \<Rightarrow> dma_channel_enum \<Rightarrow> mmio \<Rightarrow> mmio option" where
  "dma_circulation_enable dma ch m = checked dma ch (reg_or (DMA_CHCTL dma ch) DMA_CHXCTL_CMEN m)"

definition dma_circulation_disable :: "u32 \<Rightarrow> dma_channel_enum \<Rightarrow> mmio \<Rightarrow> mmio option" where
  "dma_circulation_disable dma ch m = checked dma ch (reg_clr (DMA_CHCTL dma ch) DMA_CHXCTL_CMEN m)"

definition dma_memory_to_memory_enable :: "u32 \<Rightarrow> dma_channel_enum \<Rightarrow> mmio \<Rightarrow> mmio option" where
  "dma_memory_to_memory_enable dma ch m = checked dma ch (reg_or (DMA_CHCTL dma ch) DMA_CHXCTL_M2M m)"

definition dma_memory_to_memory_disable :: "u32 \<Rightarrow> dma_channel_enum \<Rightarrow> mmio \<Rightarrow> mmio option" where
  "dma_memory_to_memory_disable dma ch m = checked dma ch (reg_clr (DMA_CHCTL dma ch) DMA_CHXCTL_M2M m)"

definition dma_channel_enable :: "u32 \<Rightarrow> dma_channel_enum \<Rightarrow> mmio \<Rightarrow> mmio option" where
  "dma_channel_enable dma ch m = checked dma ch (reg_or (DMA_CHCTL dma ch) DMA_CHXCTL_CHEN m)"

definition dma_channel_disable :: "u32 \<Rightarrow> dma_channel_enum \<Rightarrow> mmio \<Rightarrow> mmio option" where
  "dma_channel_disable dma ch m = checked dma ch (reg_clr (DMA_CHCTL dma ch) DMA_CHXCTL_CHEN m)"

definition dma_periph_address_config :: "u32 \<Rightarrow> dma_channel_enum \<Rightarrow> u32 \<Rightarrow> mmio \<Rightarrow> mmio option" where
  "dma_periph_address_config dma ch address m = checked dma ch (wr (DMA_CHPADDR dma ch) address m)"

definition dma_memory_address_config :: "u32 \<Rightarrow> dma_channel_enum \<Rightarrow> u32 \<Rightarrow> mmio \<Rightarrow> mmio option" where
  "dma_memory_address_config dma ch address m = checked dma ch (wr (DMA_CHMADDR dma ch) address m)"

definition dma_transfer_number_config :: "u32 \<Rightarrow> dma_channel_enum \<Rightarrow> u32 \<Rightarrow> mmio \<Rightarrow> mmio option" where
  "dma_transfer_number_config dma ch n m =
     checked dma ch (wr (DMA_CHCNT dma ch) (n AND DMA_CHANNEL_CNT_MASK) m)"

definition dma_transfer_number_get :: "u32 \<Rightarrow> dma_channel_enum \<Rightarrow> mmio \<Rightarrow> (u32 \<times> mmio) option" where
  "dma_transfer_number_get dma ch m = checked dma ch (rd (DMA_CHCNT dma ch) m)"

text \<open>The functions that replace one field: read, clear the field, insert, write.\<close>

definition ctl_field :: "u32 \<Rightarrow> u32 \<Rightarrow> u32 \<Rightarrow> mmio \<Rightarrow> mmio" where
  "ctl_field a fld v m = (let (ctl, m) = rd a m; ctl = ctl AND NOT fld; ctl = ctl OR v in wr a ctl m)"

definition dma_priority_config :: "u32 \<Rightarrow> dma_channel_enum \<Rightarrow> u32 \<Rightarrow> mmio \<Rightarrow> mmio option" where
  "dma_priority_config dma ch prio m = checked dma ch (ctl_field (DMA_CHCTL dma ch) DMA_CHXCTL_PRIO prio m)"

definition dma_memory_width_config :: "u32 \<Rightarrow> dma_channel_enum \<Rightarrow> u32 \<Rightarrow> mmio \<Rightarrow> mmio option" where
  "dma_memory_width_config dma ch mwidth m = checked dma ch (ctl_field (DMA_CHCTL dma ch) DMA_CHXCTL_MWIDTH mwidth m)"

definition dma_periph_width_config :: "u32 \<Rightarrow> dma_channel_enum \<Rightarrow> u32 \<Rightarrow> mmio \<Rightarrow> mmio option" where
  "dma_periph_width_config dma ch pwidth m = checked dma ch (ctl_field (DMA_CHCTL dma ch) DMA_CHXCTL_PWIDTH pwidth m)"

definition dma_memory_increase_enable :: "u32 \<Rightarrow> dma_channel_enum \<Rightarrow> mmio \<Rightarrow> mmio option" where
  "dma_memory_increase_enable dma ch m = checked dma ch (reg_or (DMA_CHCTL dma ch) DMA_CHXCTL_MNAGA m)"

definition dma_memory_increase_disable :: "u32 \<Rightarrow> dma_channel_enum \<Rightarrow> mmio \<Rightarrow> mmio option" where
  "dma_memory_increase_disable dma ch m = checked dma ch (reg_clr (DMA_CHCTL dma ch) DMA_CHXCTL_MNAGA m)"

definition dma_periph_increase_enable :: "u32 \<Rightarrow> dma_channel_enum \<Rightarrow> mmio \<Rightarrow> mmio option" where
  "dma_periph_increase_enable dma ch m = checked dma ch (reg_or (DMA_CHCTL dma ch) DMA_CHXCTL_PNAGA m)"

definition dma_periph_increase_disable :: "u32 \<Rightarrow> dma_channel_enum \<Rightarrow> mmio \<Rightarrow> mmio option" where
  "dma_periph_increase_disable dma ch m = checked dma ch (reg_clr (DMA_CHCTL dma ch) DMA_CHXCTL_PNAGA m)"

definition dma_transfer_direction_config :: "u32 \<Rightarrow> dma_channel_enum \<Rightarrow> u32 \<Rightarrow> mmio \<Rightarrow> mmio option" where
  "dma_transfer_direction_config dma ch dir m = checked dma ch (
     if ucast DMA_PERIPHERAL_TO_MEMORY = dir then reg_clr (DMA_CHCTL dma ch) DMA_CHXCTL_DIR m
     else reg_or (DMA_CHCTL dma ch) DMA_CHXCTL_DIR m)"

definition dma_flag_get :: "u32 \<Rightarrow> dma_channel_enum \<Rightarrow> u32 \<Rightarrow> mmio \<Rightarrow> FlagStatus \<times> mmio" where
  "dma_flag_get dma ch flag m = (let (x, m) = rd (DMA_INTF dma) m in
     (if 0 \<noteq> x AND DMA_FLAG_ADD flag ch then SET else RESET, m))"

definition dma_flag_clear :: "u32 \<Rightarrow> dma_channel_enum \<Rightarrow> u32 \<Rightarrow> mmio \<Rightarrow> mmio" where
  "dma_flag_clear dma ch flag m = reg_or (DMA_INTC dma) (DMA_FLAG_ADD flag ch) m"

text \<open>A flag that is none of the three ends in \<open>DMA_WRONG_HANDLE\<close>.\<close>

definition dma_interrupt_flag_get :: "u32 \<Rightarrow> dma_channel_enum \<Rightarrow> u32 \<Rightarrow> mmio \<Rightarrow> (FlagStatus \<times> mmio) option" where
  "dma_interrupt_flag_get dma ch flag m =
     (if flag = BIT 1 \<or> flag = BIT 2 \<or> flag = BIT 3 then
        let (x, m) = rd (DMA_INTF dma) m;
            interrupt_flag = x AND DMA_FLAG_ADD flag ch;
            (y, m) = rd (DMA_CHCTL dma ch) m;
            interrupt_enable = y AND (if flag = BIT 1 then DMA_CHXCTL_FTFIE
              else if flag = BIT 2 then DMA_CHXCTL_HTFIE else DMA_CHXCTL_ERRIE)
        in Some (if interrupt_flag \<noteq> 0 \<and> interrupt_enable \<noteq> 0 then SET else RESET, m)
      else None)"

definition dma_interrupt_flag_clear :: "u32 \<Rightarrow> dma_channel_enum \<Rightarrow> u32 \<Rightarrow> mmio \<Rightarrow> mmio" where
  "dma_interrupt_flag_clear dma ch flag m = reg_or (DMA_INTC dma) (DMA_FLAG_ADD flag ch) m"

definition dma_interrupt_enable :: "u32 \<Rightarrow> dma_channel_enum \<Rightarrow> u32 \<Rightarrow> mmio \<Rightarrow> mmio option" where
  "dma_interrupt_enable dma ch source m = checked dma ch (reg_or (DMA_CHCTL dma ch) source m)"

definition dma_interrupt_disable :: "u32 \<Rightarrow> dma_channel_enum \<Rightarrow> u32 \<Rightarrow> mmio \<Rightarrow> mmio option" where
  "dma_interrupt_disable dma ch source m = checked dma ch (reg_clr (DMA_CHCTL dma ch) source m)"

lemmas dma_defs = dma_circulation_enable_def dma_circulation_disable_def dma_memory_to_memory_enable_def
  dma_memory_to_memory_disable_def dma_channel_enable_def dma_channel_disable_def
  dma_periph_address_config_def dma_memory_address_config_def dma_transfer_number_config_def
  dma_priority_config_def dma_memory_width_config_def dma_periph_width_config_def
  dma_memory_increase_enable_def dma_memory_increase_disable_def dma_periph_increase_enable_def
  dma_periph_increase_disable_def dma_transfer_direction_config_def dma_flag_clear_def
  dma_interrupt_flag_clear_def dma_interrupt_enable_def dma_interrupt_disable_def

section \<open>Address map\<close>

definition dma_channel :: "u32 \<Rightarrow> dma_channel_enum \<Rightarrow> bool" where
  "dma_channel dma ch \<longleftrightarrow> dma = DMA0 \<and> ch \<le> 6 \<or> dma = DMA1 \<and> ch \<le> 4"

lemma checked_channel [simp]: "dma_channel dma ch \<Longrightarrow> checked dma ch r = Some r"
  by (auto simp: dma_channel_def checked_def dma_periph_and_channel_check_def)

lemma checked_Some: "checked dma ch r = Some r' \<Longrightarrow> r' = r"
  by (simp add: checked_def split: if_splits)

text \<open>The four registers of a channel, by number.\<close>

definition chan_reg :: "u32 \<Rightarrow> dma_channel_enum \<Rightarrow> nat \<Rightarrow> nat" where
  "chan_reg dma ch k = (if dma = DMA0 then 0 else 0x400) + 8 + 20 * unat ch + 4 * k"

lemma chan_reg_addr:
  assumes "dma_channel dma ch" and "k < 4"
  shows "unat ((dma + (8 + 4 * of_nat k)) + 0x14 * ch) = 0x40020000 + chan_reg dma ch k"
proof -
  have ch: "unat ch \<le> 6" using assms(1) by (auto simp: dma_channel_def word_le_nat_alt)
  have k: "k \<in> {0, 1, 2, 3}" using assms(2) by auto
  have m: "unat (0x14 * ch) = 20 * unat ch" using ch by (simp add: unat_word_ariths)
  show ?thesis
    using k ch assms(1) by (auto simp: dma_channel_def chan_reg_def unat_word_ariths m)
qed

lemma chan_addrs:
  assumes "dma_channel dma ch"
  shows "unat (DMA_CHCTL dma ch) = 0x40020000 + chan_reg dma ch 0"
    and "unat (DMA_CHCNT dma ch) = 0x40020000 + chan_reg dma ch 1"
    and "unat (DMA_CHPADDR dma ch) = 0x40020000 + chan_reg dma ch 2"
    and "unat (DMA_CHMADDR dma ch) = 0x40020000 + chan_reg dma ch 3"
  using chan_reg_addr [OF assms, of 0] chan_reg_addr [OF assms, of 1]
    chan_reg_addr [OF assms, of 2] chan_reg_addr [OF assms, of 3]
  by (simp_all add: dma_reg_defs)

lemma chan_reg_inject:
  assumes "dma_channel dma ch" and "dma_channel dma' ch'" and "k < 4" and "k' < 4"
  shows "chan_reg dma ch k = chan_reg dma' ch' k' \<longleftrightarrow> dma = dma' \<and> ch = ch' \<and> k = k'"
proof -
  have "unat ch \<le> 6" "unat ch' \<le> 6"
    using assms(1,2) by (auto simp: dma_channel_def word_le_nat_alt)
  then show ?thesis
    using assms by (auto simp: chan_reg_def dma_channel_def word_unat_eq_iff; presburger)
qed

text \<open>The registers of a channel differ from each other, from those of every other channel, and
  from the flag registers.\<close>

definition chan_regs :: "u32 \<Rightarrow> dma_channel_enum \<Rightarrow> u32 set" where
  "chan_regs dma ch = {DMA_CHCTL dma ch, DMA_CHCNT dma ch, DMA_CHPADDR dma ch, DMA_CHMADDR dma ch}"

lemma chan_distinct [simp]:
  "DMA_CHCTL dma ch \<noteq> DMA_CHCNT dma ch" "DMA_CHCTL dma ch \<noteq> DMA_CHPADDR dma ch"
  "DMA_CHCTL dma ch \<noteq> DMA_CHMADDR dma ch" "DMA_CHCNT dma ch \<noteq> DMA_CHPADDR dma ch"
  "DMA_CHCNT dma ch \<noteq> DMA_CHMADDR dma ch" "DMA_CHPADDR dma ch \<noteq> DMA_CHMADDR dma ch"
  "DMA_CHCNT dma ch \<noteq> DMA_CHCTL dma ch" "DMA_CHPADDR dma ch \<noteq> DMA_CHCTL dma ch"
  "DMA_CHMADDR dma ch \<noteq> DMA_CHCTL dma ch" "DMA_CHPADDR dma ch \<noteq> DMA_CHCNT dma ch"
  "DMA_CHMADDR dma ch \<noteq> DMA_CHCNT dma ch" "DMA_CHMADDR dma ch \<noteq> DMA_CHPADDR dma ch"
  by (simp_all add: dma_reg_defs)

lemma chan_regs_unat:
  "dma_channel dma ch \<Longrightarrow> unat ` chan_regs dma ch = (\<lambda>k. 0x40020000 + chan_reg dma ch k) ` {0, 1, 2, 3}"
  by (simp add: chan_regs_def chan_addrs)

lemma chan_regs_disjoint:
  assumes "dma_channel dma ch" and "dma_channel dma' ch'" and "(dma, ch) \<noteq> (dma', ch')"
  shows "chan_regs dma ch \<inter> chan_regs dma' ch' = {}"
proof -
  have "unat ` chan_regs dma ch \<inter> unat ` chan_regs dma' ch' = {}"
    using assms by (auto simp: chan_regs_unat chan_reg_inject)
  then show ?thesis by blast
qed

lemma INTC_not_chan:
  assumes "dma_channel dma ch" and "dma_channel dma' ch'"
  shows "DMA_INTC dma' \<notin> chan_regs dma ch"
proof -
  have "unat ch \<le> 6" using assms(1) by (auto simp: dma_channel_def word_le_nat_alt)
  then have "unat (DMA_INTC dma') \<notin> unat ` chan_regs dma ch"
    using assms by (auto simp: chan_regs_unat chan_reg_def dma_channel_def DMA_INTC_def)
  then show ?thesis by blast
qed

section \<open>What the functions do to the registers\<close>

lemma regs_ctl_field [simp]:
  "regs (ctl_field a fld v m) = (regs m)(a := regs m a AND NOT fld OR v)"
  by (simp add: ctl_field_def case_prod_beta)

lemma regs_dma_deinit:
  "dma_channel dma ch \<Longrightarrow> \<exists>m'. dma_deinit dma ch m = Some m' \<and>
     regs m' = (regs m)(DMA_CHCTL dma ch := 0, DMA_CHCNT dma ch := 0, DMA_CHPADDR dma ch := 0,
       DMA_CHMADDR dma ch := 0,
       DMA_INTC dma := regs m (DMA_INTC dma) OR DMA_FLAG_ADD DMA_CHINTF_RESET_VALUE ch)"
  using INTC_not_chan [of dma ch dma ch]
  by (auto simp: dma_deinit_def chan_regs_def intro!: ext)

definition dma_init_ctl :: "dma_parameter_struct \<Rightarrow> u32 \<Rightarrow> u32" where
  "dma_init_ctl s ctl =
     (let c = ctl AND NOT (DMA_CHXCTL_PWIDTH OR DMA_CHXCTL_MWIDTH OR DMA_CHXCTL_PRIO)
                OR (periph_width s OR memory_width s OR priority s);
          c = (if periph_inc s = 1 then c OR DMA_CHXCTL_PNAGA else c AND NOT DMA_CHXCTL_PNAGA);
          c = (if memory_inc s = 1 then c OR DMA_CHXCTL_MNAGA else c AND NOT DMA_CHXCTL_MNAGA)
      in if direction s = 0 then c AND NOT DMA_CHXCTL_DIR else c OR DMA_CHXCTL_DIR)"

lemma regs_dma_init:
  "dma_channel dma ch \<Longrightarrow> \<exists>m'. dma_init dma ch s m = Some m' \<and>
     regs m' = (regs m)(DMA_CHPADDR dma ch := periph_addr s, DMA_CHMADDR dma ch := memory_addr s,
       DMA_CHCNT dma ch := number s AND DMA_CHANNEL_CNT_MASK,
       DMA_CHCTL dma ch := dma_init_ctl s (regs m (DMA_CHCTL dma ch)))"
  by (auto simp: dma_init_def dma_init_ctl_def Let_def case_prod_beta intro!: ext)

text \<open>Every register operation of the driver on a channel, as data.\<close>

datatype dma_op =
    Op_deinit | Op_init dma_parameter_struct | Op_circulation bool | Op_memory_to_memory bool
  | Op_channel bool | Op_periph_address u32 | Op_memory_address u32 | Op_transfer_number u32
  | Op_priority u32 | Op_memory_width u32 | Op_periph_width u32 | Op_memory_increase bool
  | Op_periph_increase bool | Op_direction u32 | Op_flag_clear u32 | Op_interrupt_flag_clear u32
  | Op_interrupt bool u32

fun dma_exec :: "dma_op \<Rightarrow> u32 \<Rightarrow> dma_channel_enum \<Rightarrow> mmio \<Rightarrow> mmio option" where
  "dma_exec Op_deinit dma ch = dma_deinit dma ch"
| "dma_exec (Op_init s) dma ch = dma_init dma ch s"
| "dma_exec (Op_circulation b) dma ch = (if b then dma_circulation_enable dma ch else dma_circulation_disable dma ch)"
| "dma_exec (Op_memory_to_memory b) dma ch =
     (if b then dma_memory_to_memory_enable dma ch else dma_memory_to_memory_disable dma ch)"
| "dma_exec (Op_channel b) dma ch = (if b then dma_channel_enable dma ch else dma_channel_disable dma ch)"
| "dma_exec (Op_periph_address a) dma ch = dma_periph_address_config dma ch a"
| "dma_exec (Op_memory_address a) dma ch = dma_memory_address_config dma ch a"
| "dma_exec (Op_transfer_number n) dma ch = dma_transfer_number_config dma ch n"
| "dma_exec (Op_priority p) dma ch = dma_priority_config dma ch p"
| "dma_exec (Op_memory_width w) dma ch = dma_memory_width_config dma ch w"
| "dma_exec (Op_periph_width w) dma ch = dma_periph_width_config dma ch w"
| "dma_exec (Op_memory_increase b) dma ch =
     (if b then dma_memory_increase_enable dma ch else dma_memory_increase_disable dma ch)"
| "dma_exec (Op_periph_increase b) dma ch =
     (if b then dma_periph_increase_enable dma ch else dma_periph_increase_disable dma ch)"
| "dma_exec (Op_direction d) dma ch = dma_transfer_direction_config dma ch d"
| "dma_exec (Op_flag_clear f) dma ch = (\<lambda>m. Some (dma_flag_clear dma ch f m))"
| "dma_exec (Op_interrupt_flag_clear f) dma ch = (\<lambda>m. Some (dma_interrupt_flag_clear dma ch f m))"
| "dma_exec (Op_interrupt b src) dma ch =
     (if b then dma_interrupt_enable dma ch src else dma_interrupt_disable dma ch src)"

text \<open>An operation returns, and changes only its channel's registers and the flag-clear register.\<close>

lemma dma_exec_effect:
  assumes "dma_channel dma ch"
  shows "\<exists>m'. dma_exec op dma ch m = Some m' \<and>
    (\<forall>a. a \<notin> chan_regs dma ch \<longrightarrow> a \<noteq> DMA_INTC dma \<longrightarrow> regs m' a = regs m a)"
proof (cases op)
  case Op_deinit
  with regs_dma_deinit [OF assms, of m] show ?thesis by (auto simp: chan_regs_def)
next
  case (Op_init s)
  with regs_dma_init [OF assms, of s m] show ?thesis by (auto simp: chan_regs_def)
qed (use assms in \<open>auto simp: dma_defs chan_regs_def\<close>)

section \<open>Properties\<close>

text \<open>
  Every operation of the DMA driver on an existing channel returns, and leaves all four
  registers of every other channel, on either controller, as they were.
\<close>
theorem dma_channels_independent:
  assumes "dma_channel dma ch" and "dma_channel dma' ch'" and "(dma, ch) \<noteq> (dma', ch')"
  shows "\<exists>m'. dma_exec op dma ch m = Some m' \<and> (\<forall>a \<in> chan_regs dma' ch'. regs m' a = regs m a)"
proof -
  have "a \<notin> chan_regs dma ch \<and> a \<noteq> DMA_INTC dma" if "a \<in> chan_regs dma' ch'" for a
    using that chan_regs_disjoint [OF assms] INTC_not_chan [OF assms(2,1)] by auto
  with dma_exec_effect [OF assms(1), of op m] show ?thesis by blast
qed

definition sample_mmio :: mmio where
  "sample_mmio = \<lparr>regs = (\<lambda>_. 0), accesses = []\<rparr>"

lemma dma_channels_independent_witness:
  "\<exists>m'. dma_exec Op_deinit DMA0 DMA_CH4 sample_mmio = Some m'
    \<and> (\<forall>a \<in> chan_regs DMA0 DMA_CH3. regs m' a = regs sample_mmio a)"
  by (rule dma_channels_independent) (simp_all add: dma_channel_def)

text \<open>
  \<open>dma_init\<close> programs exactly what its structure says. The addresses and the 16-bit count
  are stored; of the control register the width and priority fields are those of the structure,
  the increment and direction bits follow their selectors, and every other bit (the enable, the
  interrupt enables, circular and memory-to-memory mode) is kept.
\<close>
theorem dma_init_programs_channel:
  assumes "dma_channel dma ch"
    and "\<And>n. bit (periph_width s OR memory_width s OR priority s) n \<Longrightarrow> 8 \<le> n \<and> n \<le> 13"
  shows "\<exists>m'. dma_init dma ch s m = Some m' \<and>
    regs m' (DMA_CHPADDR dma ch) = periph_addr s \<and> regs m' (DMA_CHMADDR dma ch) = memory_addr s \<and>
    regs m' (DMA_CHCNT dma ch) = take_bit 16 (number s) \<and>
    (\<forall>n. bit (regs m' (DMA_CHCTL dma ch)) n \<longleftrightarrow>
       (if n = 4 then direction s \<noteq> DMA_PERIPHERAL_TO_MEMORY
        else if n = 6 then periph_inc s = DMA_PERIPH_INCREASE_ENABLE
        else if n = 7 then memory_inc s = DMA_MEMORY_INCREASE_ENABLE
        else if 8 \<le> n \<and> n \<le> 13 then bit (periph_width s OR memory_width s OR priority s) n
        else bit (regs m (DMA_CHCTL dma ch)) n))"
proof -
  obtain m' where m': "dma_init dma ch s m = Some m'"
    "regs m' = (regs m)(DMA_CHPADDR dma ch := periph_addr s, DMA_CHMADDR dma ch := memory_addr s,
       DMA_CHCNT dma ch := number s AND DMA_CHANNEL_CNT_MASK,
       DMA_CHCTL dma ch := dma_init_ctl s (regs m (DMA_CHCTL dma ch)))"
    using regs_dma_init [OF assms(1)] by blast
  have cnt: "number s AND DMA_CHANNEL_CNT_MASK = take_bit 16 (number s)"
    by (rule bit_eqI) (auto simp: bit_simps)
  have low: "\<not> bit (periph_width s OR memory_width s OR priority s) n" if "n < 8 \<or> 13 < n" for n
    using assms(2) [of n] that by linarith
  have "bit (dma_init_ctl s c) n \<longleftrightarrow>
       (if n = 4 then direction s \<noteq> DMA_PERIPHERAL_TO_MEMORY
        else if n = 6 then periph_inc s = DMA_PERIPH_INCREASE_ENABLE
        else if n = 7 then memory_inc s = DMA_MEMORY_INCREASE_ENABLE
        else if 8 \<le> n \<and> n \<le> 13 then bit (periph_width s OR memory_width s OR priority s) n
        else bit c n)" for c n
    using low [of n] unfolding dma_init_ctl_def Let_def
    by (auto simp: bit_simps not_le dest: bit_imp_le_length)
  with m' cnt show ?thesis by simp
qed

lemma dma_init_programs_channel_witness:
  "\<exists>m'. dma_init DMA0 DMA_CH4 (dma_struct_para_init\<lparr>memory_inc := 1, number := 0x10100\<rparr>) sample_mmio = Some m' \<and>
    regs m' (DMA_CHPADDR DMA0 DMA_CH4) = periph_addr (dma_struct_para_init\<lparr>memory_inc := 1, number := 0x10100\<rparr>) \<and>
    regs m' (DMA_CHMADDR DMA0 DMA_CH4) = memory_addr (dma_struct_para_init\<lparr>memory_inc := 1, number := 0x10100\<rparr>) \<and>
    regs m' (DMA_CHCNT DMA0 DMA_CH4)
      = take_bit 16 (number (dma_struct_para_init\<lparr>memory_inc := 1, number := 0x10100\<rparr>)) \<and>
    (\<forall>n. bit (regs m' (DMA_CHCTL DMA0 DMA_CH4)) n \<longleftrightarrow>
       (if n = 4 then direction (dma_struct_para_init\<lparr>memory_inc := 1, number := 0x10100\<rparr>) \<noteq> DMA_PERIPHERAL_TO_MEMORY
        else if n = 6 then periph_inc (dma_struct_para_init\<lparr>memory_inc := 1, number := 0x10100\<rparr>) = DMA_PERIPH_INCREASE_ENABLE
        else if n = 7 then memory_inc (dma_struct_para_init\<lparr>memory_inc := 1, number := 0x10100\<rparr>) = DMA_MEMORY_INCREASE_ENABLE
        else if 8 \<le> n \<and> n \<le> 13 then
          bit (periph_width (dma_struct_para_init\<lparr>memory_inc := 1, number := 0x10100\<rparr>)
            OR memory_width (dma_struct_para_init\<lparr>memory_inc := 1, number := 0x10100\<rparr>)
            OR priority (dma_struct_para_init\<lparr>memory_inc := 1, number := 0x10100\<rparr>)) n
        else bit (regs sample_mmio (DMA_CHCTL DMA0 DMA_CH4)) n))"
  by (rule dma_init_programs_channel) (auto simp: dma_channel_def dma_struct_para_init_def CHCTL_PRIO_def)

end
