(* ===== verification/Gd32_Rcu.thy ===== *)
theory Gd32_Rcu
  imports Gd32_Mmio
begin

text \<open>
  The part of \<open>gd32f30x_rcu.c\<close> the application uses, in the configuration the project builds
  (\<open>GD32F30X_HD\<close>, an 8 MHz crystal): enabling a peripheral clock and computing a bus clock
  from the clock configuration registers. Reading those registers has no effect, so these reads
  are not recorded.
\<close>

abbreviation RCU :: u32 where "RCU \<equiv> 0x40021000"
abbreviation RCU_CFG0 :: u32 where "RCU_CFG0 \<equiv> RCU + 0x04"
abbreviation RCU_CFG1 :: u32 where "RCU_CFG1 \<equiv> RCU + 0x2C"

definition RCU_REGIDX_BIT :: "u32 \<Rightarrow> u32 \<Rightarrow> u32" where
  "RCU_REGIDX_BIT regidx bitpos = push_bit 6 regidx OR bitpos"

definition RCU_REG_VAL :: "u32 \<Rightarrow> u32" where
  "RCU_REG_VAL periph = RCU + drop_bit 6 periph"

definition RCU_BIT_POS :: "u32 \<Rightarrow> nat" where
  "RCU_BIT_POS val = unat (val AND 0x1F)"

abbreviation RCU_DMA0 :: u32 where "RCU_DMA0 \<equiv> RCU_REGIDX_BIT 0x14 0"
abbreviation RCU_AF :: u32 where "RCU_AF \<equiv> RCU_REGIDX_BIT 0x18 0"
abbreviation RCU_GPIOA :: u32 where "RCU_GPIOA \<equiv> RCU_REGIDX_BIT 0x18 2"
abbreviation RCU_USART0 :: u32 where "RCU_USART0 \<equiv> RCU_REGIDX_BIT 0x18 14"

definition rcu_periph_clock_enable :: "u32 \<Rightarrow> mmio \<Rightarrow> mmio" where
  "rcu_periph_clock_enable periph m = reg_or (RCU_REG_VAL periph) (BIT (RCU_BIT_POS periph)) m"

section \<open>Clock frequencies\<close>

definition GET_BITS :: "u32 \<Rightarrow> nat \<Rightarrow> nat \<Rightarrow> u32" where
  "GET_BITS regval a b = drop_bit a (regval AND BITS a b)"

datatype rcu_clock_freq_enum = CK_SYS | CK_AHB | CK_APB1 | CK_APB2

definition IRC8M_VALUE :: u32 where "IRC8M_VALUE = 8000000"
definition HXTAL_VALUE :: u32 where "HXTAL_VALUE = 8000000"
definition IRC48M_VALUE :: u32 where "IRC48M_VALUE = 48000000"

definition ahb_exp :: "nat list" where
  "ahb_exp = [0, 0, 0, 0, 0, 0, 0, 0, 1, 2, 3, 4, 6, 7, 8, 9]"

definition apb_exp :: "nat list" where
  "apb_exp = [0, 0, 0, 0, 1, 2, 3, 4]"

text \<open>The branch \<open>SEL_PLL\<close> of the switch: source selection, then the multiplication factor.\<close>

definition pll_ck_src :: "mmio \<Rightarrow> u32" where
  "pll_ck_src m =
     (if regs m RCU_CFG0 AND BIT 16 = BIT 16 then
        let ck_src = (if regs m RCU_CFG1 AND BIT 30 = 0 then HXTAL_VALUE else IRC48M_VALUE)
        in if regs m RCU_CFG0 AND BIT 17 = BIT 17 then ck_src div 2 else ck_src
      else IRC8M_VALUE div 2)"

definition pll_mf :: "mmio \<Rightarrow> u32" where
  "pll_mf m =
     (let pllmf = GET_BITS (regs m RCU_CFG0) 18 21;
          pllmf = (if regs m RCU_CFG0 AND BIT 27 \<noteq> 0 then pllmf OR 0x10 else pllmf);
          pllmf = (if regs m RCU_CFG0 AND BIT 30 \<noteq> 0 then pllmf OR 0x20 else pllmf)
      in if pllmf < 15 then pllmf + 2 else if 15 \<le> pllmf \<and> pllmf \<le> 62 then pllmf + 1 else 63)"

definition rcu_clock_freq_get :: "rcu_clock_freq_enum \<Rightarrow> mmio \<Rightarrow> u32" where
  "rcu_clock_freq_get clock m =
     (let sws = GET_BITS (regs m RCU_CFG0) 2 3;
          cksys_freq = (if sws = 0 then IRC8M_VALUE else if sws = 1 then HXTAL_VALUE
                        else if sws = 2 then pll_ck_src m * pll_mf m else IRC8M_VALUE);
          ahb_freq = drop_bit (ahb_exp ! unat (GET_BITS (regs m RCU_CFG0) 4 7)) cksys_freq;
          apb1_freq = drop_bit (apb_exp ! unat (GET_BITS (regs m RCU_CFG0) 8 10)) ahb_freq;
          apb2_freq = drop_bit (apb_exp ! unat (GET_BITS (regs m RCU_CFG0) 11 13)) ahb_freq
      in case clock of CK_SYS \<Rightarrow> cksys_freq | CK_AHB \<Rightarrow> ahb_freq
           | CK_APB1 \<Rightarrow> apb1_freq | CK_APB2 \<Rightarrow> apb2_freq)"

text \<open>No lookup of an exponent leaves its table, whatever the register holds.\<close>

lemma unat_GET_BITS:
  assumes "a \<le> b" and "b < 32"
  shows "unat (GET_BITS v a b) < 2 ^ (b + 1 - a)"
proof -
  have "GET_BITS v a b = take_bit (b + 1 - a) (GET_BITS v a b)"
    using assms by (intro bit_eqI) (auto simp: GET_BITS_def bit_simps)
  then have "unat (GET_BITS v a b) = take_bit (b + 1 - a) (unat (GET_BITS v a b))"
    by (metis unsigned_take_bit_eq)
  then show ?thesis by (metis take_bit_nat_less_exp)
qed

lemma exp_lookups:
  "unat (GET_BITS v 4 7) < length ahb_exp" "unat (GET_BITS v 8 10) < length apb_exp"
  "unat (GET_BITS v 11 13) < length apb_exp"
  using unat_GET_BITS [of 4 7 v] unat_GET_BITS [of 8 10 v] unat_GET_BITS [of 11 13 v]
  by (simp_all add: ahb_exp_def apb_exp_def)

text \<open>
  The value \<open>system_clock_120m_hxtal\<close> (\<open>system_gd32f30x.c\<close>) leaves in \<open>RCU_CFG0\<close>
  when it started from the reset value: PLL from HXTAL/2 times 30, AHB and APB2 undivided, APB1 by 2.
\<close>

definition cfg0_120m :: u32 where
  "cfg0_120m = BIT 16 OR BIT 17 OR BIT 27 OR push_bit 18 13 OR push_bit 8 4 OR 2 OR push_bit 2 2"

lemma clock_120m:
  assumes "regs m RCU_CFG0 = cfg0_120m" and "regs m RCU_CFG1 = 0"
  shows "rcu_clock_freq_get CK_APB2 m = 120000000" and "rcu_clock_freq_get CK_APB1 m = 60000000"
  using assms unfolding rcu_clock_freq_get_def pll_ck_src_def pll_mf_def cfg0_120m_def GET_BITS_def
    BIT_def BITS_def IRC8M_VALUE_def HXTAL_VALUE_def IRC48M_VALUE_def ahb_exp_def apb_exp_def
  by (simp_all add: Let_def)

end
