(* ===== verification/Gd32_Usart.thy ===== *)
theory Gd32_Usart
  imports Gd32_Rcu
begin

text \<open>
  \<open>gd32f30x_usart.c\<close>: the USART driver, one definition per function, and the encoding of
  flags and interrupts as a register offset and a bit position
  (\<open>gd32f30x_usart.h\<close>). Only \<open>usart_deinit\<close> (a reset through the RCU) is left out.
\<close>

section \<open>Registers\<close>

abbreviation USART0 :: u32 where "USART0 \<equiv> 0x40013800"
abbreviation USART1 :: u32 where "USART1 \<equiv> 0x40004400"
abbreviation USART2 :: u32 where "USART2 \<equiv> 0x40004800"
abbreviation UART3 :: u32 where "UART3 \<equiv> 0x40004C00"
abbreviation UART4 :: u32 where "UART4 \<equiv> 0x40005000"

abbreviation USART_STAT0 :: "u32 \<Rightarrow> u32" where "USART_STAT0 u \<equiv> u + 0x00"
abbreviation USART_DATA :: "u32 \<Rightarrow> u32" where "USART_DATA u \<equiv> u + 0x04"
abbreviation USART_BAUD :: "u32 \<Rightarrow> u32" where "USART_BAUD u \<equiv> u + 0x08"
abbreviation USART_CTL0 :: "u32 \<Rightarrow> u32" where "USART_CTL0 u \<equiv> u + 0x0C"
abbreviation USART_CTL1 :: "u32 \<Rightarrow> u32" where "USART_CTL1 u \<equiv> u + 0x10"
abbreviation USART_CTL2 :: "u32 \<Rightarrow> u32" where "USART_CTL2 u \<equiv> u + 0x14"
abbreviation USART_GP :: "u32 \<Rightarrow> u32" where "USART_GP u \<equiv> u + 0x18"
abbreviation USART_CTL3 :: "u32 \<Rightarrow> u32" where "USART_CTL3 u \<equiv> u + 0x80"
abbreviation USART_RT :: "u32 \<Rightarrow> u32" where "USART_RT u \<equiv> u + 0x84"

section \<open>Flags and interrupts as numbers\<close>

definition USART_REGIDX_BIT :: "u32 \<Rightarrow> u32 \<Rightarrow> u32" where
  "USART_REGIDX_BIT regidx bitpos = push_bit 6 regidx OR bitpos"

definition USART_REG_VAL :: "u32 \<Rightarrow> u32 \<Rightarrow> u32" where
  "USART_REG_VAL usartx offset = usartx + drop_bit 6 (offset AND 0xFFFF)"

definition USART_BIT_POS :: "u32 \<Rightarrow> nat" where
  "USART_BIT_POS val = unat (val AND 0x1F)"

definition USART_REGIDX_BIT2 :: "u32 \<Rightarrow> u32 \<Rightarrow> u32 \<Rightarrow> u32 \<Rightarrow> u32" where
  "USART_REGIDX_BIT2 regidx bitpos regidx2 bitpos2 =
     push_bit 22 regidx2 OR push_bit 16 bitpos2 OR (push_bit 6 regidx OR bitpos)"

definition USART_REG_VAL2 :: "u32 \<Rightarrow> u32 \<Rightarrow> u32" where
  "USART_REG_VAL2 usartx offset = usartx + drop_bit 22 offset"

definition USART_BIT_POS2 :: "u32 \<Rightarrow> nat" where
  "USART_BIT_POS2 val = unat (drop_bit 16 (val AND 0x1F0000))"

abbreviation USART_FLAG_TC :: u32 where "USART_FLAG_TC \<equiv> USART_REGIDX_BIT 0x00 6"
abbreviation USART_INT_IDLE :: u32 where "USART_INT_IDLE \<equiv> USART_REGIDX_BIT 0x0C 4"
abbreviation USART_INT_TC :: u32 where "USART_INT_TC \<equiv> USART_REGIDX_BIT 0x0C 6"
abbreviation USART_INT_FLAG_IDLE :: u32 where "USART_INT_FLAG_IDLE \<equiv> USART_REGIDX_BIT2 0x0C 4 0x00 4"
abbreviation USART_INT_FLAG_TC :: u32 where "USART_INT_FLAG_TC \<equiv> USART_REGIDX_BIT2 0x0C 6 0x00 6"

definition usart_flag_get :: "u32 \<Rightarrow> u32 \<Rightarrow> mmio \<Rightarrow> FlagStatus \<times> mmio" where
  "usart_flag_get u flag m = (let (x, m) = rd (USART_REG_VAL u flag) m in
     (if 0 \<noteq> x AND BIT (USART_BIT_POS flag) then SET else RESET, m))"

definition usart_flag_clear :: "u32 \<Rightarrow> u32 \<Rightarrow> mmio \<Rightarrow> mmio" where
  "usart_flag_clear u flag m = wr (USART_REG_VAL u flag) (NOT (BIT (USART_BIT_POS flag))) m"

definition usart_interrupt_enable :: "u32 \<Rightarrow> u32 \<Rightarrow> mmio \<Rightarrow> mmio" where
  "usart_interrupt_enable u interrupt m = reg_or (USART_REG_VAL u interrupt) (BIT (USART_BIT_POS interrupt)) m"

definition usart_interrupt_disable :: "u32 \<Rightarrow> u32 \<Rightarrow> mmio \<Rightarrow> mmio" where
  "usart_interrupt_disable u interrupt m = reg_clr (USART_REG_VAL u interrupt) (BIT (USART_BIT_POS interrupt)) m"

definition usart_interrupt_flag_get :: "u32 \<Rightarrow> u32 \<Rightarrow> mmio \<Rightarrow> FlagStatus \<times> mmio" where
  "usart_interrupt_flag_get u int_flag m =
     (let (x, m) = rd (USART_REG_VAL u int_flag) m;
          intenable = x AND BIT (USART_BIT_POS int_flag);
          (y, m) = rd (USART_REG_VAL2 u int_flag) m;
          flagstatus = y AND BIT (USART_BIT_POS2 int_flag)
      in (if 0 \<noteq> flagstatus \<and> 0 \<noteq> intenable then SET else RESET, m))"

definition usart_interrupt_flag_clear :: "u32 \<Rightarrow> u32 \<Rightarrow> mmio \<Rightarrow> mmio" where
  "usart_interrupt_flag_clear u int_flag m = wr (USART_REG_VAL2 u int_flag) (NOT (BIT (USART_BIT_POS2 int_flag))) m"

section \<open>Baud rate\<close>

text \<open>Division by a zero baud rate is undefined behaviour: \<open>None\<close>.\<close>

definition usart_baudrate_set :: "u32 \<Rightarrow> u32 \<Rightarrow> mmio \<Rightarrow> mmio option" where
  "usart_baudrate_set u baudval m =
     (let uclk = (if u = USART0 then rcu_clock_freq_get CK_APB2 m
                  else if u = USART1 \<or> u = USART2 \<or> u = UART3 \<or> u = UART4 then rcu_clock_freq_get CK_APB1 m
                  else 0)
      in if baudval = 0 then None
         else let udiv = (uclk + baudval div 2) div baudval;
                  intdiv = udiv AND 0xFFF0;
                  fradiv = udiv AND 0xF
              in Some (wr (USART_BAUD u) ((BITS 0 3 OR BITS 4 15) AND (intdiv OR fradiv)) m))"

section \<open>Configuration\<close>

text \<open>\<open>REG &= ~(mask); REG |= v;\<close>\<close>

definition reg_field :: "u32 \<Rightarrow> u32 \<Rightarrow> u32 \<Rightarrow> mmio \<Rightarrow> mmio" where
  "reg_field a fld v m = reg_or a v (reg_clr a fld m)"

definition usart_parity_config :: "u32 \<Rightarrow> u32 \<Rightarrow> mmio \<Rightarrow> mmio" where
  "usart_parity_config u v m = reg_field (USART_CTL0 u) (BIT 9 OR BIT 10) (v) m"

definition usart_word_length_set :: "u32 \<Rightarrow> u32 \<Rightarrow> mmio \<Rightarrow> mmio" where
  "usart_word_length_set u v m = reg_field (USART_CTL0 u) (BIT 12) (v) m"

definition usart_stop_bit_set :: "u32 \<Rightarrow> u32 \<Rightarrow> mmio \<Rightarrow> mmio" where
  "usart_stop_bit_set u v m = reg_field (USART_CTL1 u) (BITS 12 13) (v) m"

definition usart_enable :: "u32 \<Rightarrow> mmio \<Rightarrow> mmio" where
  "usart_enable u m = reg_or (USART_CTL0 u) (BIT 13) m"

definition usart_disable :: "u32 \<Rightarrow> mmio \<Rightarrow> mmio" where
  "usart_disable u m = reg_clr (USART_CTL0 u) (BIT 13) m"

definition usart_transmit_config :: "u32 \<Rightarrow> u32 \<Rightarrow> mmio \<Rightarrow> mmio" where
  "usart_transmit_config u v m = reg_field (USART_CTL0 u) (BIT 3) (BIT 3 AND v) m"

definition usart_receive_config :: "u32 \<Rightarrow> u32 \<Rightarrow> mmio \<Rightarrow> mmio" where
  "usart_receive_config u v m = reg_field (USART_CTL0 u) (BIT 2) (BIT 2 AND v) m"

definition usart_data_first_config :: "u32 \<Rightarrow> u32 \<Rightarrow> mmio \<Rightarrow> mmio" where
  "usart_data_first_config u v m = reg_field (USART_CTL3 u) (BIT 11) (v) m"

datatype usart_invert_enum = USART_DINV_ENABLE | USART_DINV_DISABLE | USART_TXPIN_ENABLE
  | USART_TXPIN_DISABLE | USART_RXPIN_ENABLE | USART_RXPIN_DISABLE

fun usart_invert_config :: "u32 \<Rightarrow> usart_invert_enum \<Rightarrow> mmio \<Rightarrow> mmio" where
  "usart_invert_config u USART_DINV_ENABLE m = reg_or (USART_CTL3 u) (BIT 10) m"
| "usart_invert_config u USART_TXPIN_ENABLE m = reg_or (USART_CTL3 u) (BIT 9) m"
| "usart_invert_config u USART_RXPIN_ENABLE m = reg_or (USART_CTL3 u) (BIT 8) m"
| "usart_invert_config u USART_DINV_DISABLE m = reg_clr (USART_CTL3 u) (BIT 10) m"
| "usart_invert_config u USART_TXPIN_DISABLE m = reg_clr (USART_CTL3 u) (BIT 9) m"
| "usart_invert_config u USART_RXPIN_DISABLE m = reg_clr (USART_CTL3 u) (BIT 8) m"

definition usart_receiver_timeout_enable :: "u32 \<Rightarrow> mmio \<Rightarrow> mmio" where
  "usart_receiver_timeout_enable u m = reg_or (USART_CTL3 u) (BIT 0) m"

definition usart_receiver_timeout_disable :: "u32 \<Rightarrow> mmio \<Rightarrow> mmio" where
  "usart_receiver_timeout_disable u m = reg_clr (USART_CTL3 u) (BIT 0) m"

definition usart_receiver_timeout_threshold_config :: "u32 \<Rightarrow> u32 \<Rightarrow> mmio \<Rightarrow> mmio" where
  "usart_receiver_timeout_threshold_config u v m = reg_field (USART_RT u) (BITS 0 23) (v) m"

definition usart_data_transmit :: "u32 \<Rightarrow> u16 \<Rightarrow> mmio \<Rightarrow> mmio" where
  "usart_data_transmit u data m = wr (USART_DATA u) (BITS 0 8 AND ucast data) m"

definition usart_data_receive :: "u32 \<Rightarrow> mmio \<Rightarrow> u16 \<times> mmio" where
  "usart_data_receive u m = (let (x, m) = rd (USART_DATA u) m in (ucast (GET_BITS x 0 8), m))"

definition usart_address_config :: "u32 \<Rightarrow> u8 \<Rightarrow> mmio \<Rightarrow> mmio" where
  "usart_address_config u v m = reg_field (USART_CTL1 u) (BITS 0 3) (BITS 0 3 AND ucast v) m"

definition usart_mute_mode_enable :: "u32 \<Rightarrow> mmio \<Rightarrow> mmio" where
  "usart_mute_mode_enable u m = reg_or (USART_CTL0 u) (BIT 1) m"

definition usart_mute_mode_disable :: "u32 \<Rightarrow> mmio \<Rightarrow> mmio" where
  "usart_mute_mode_disable u m = reg_clr (USART_CTL0 u) (BIT 1) m"

definition usart_mute_mode_wakeup_config :: "u32 \<Rightarrow> u32 \<Rightarrow> mmio \<Rightarrow> mmio" where
  "usart_mute_mode_wakeup_config u v m = reg_field (USART_CTL0 u) (BIT 11) (v) m"

definition usart_lin_mode_enable :: "u32 \<Rightarrow> mmio \<Rightarrow> mmio" where
  "usart_lin_mode_enable u m = reg_or (USART_CTL1 u) (BIT 14) m"

definition usart_lin_mode_disable :: "u32 \<Rightarrow> mmio \<Rightarrow> mmio" where
  "usart_lin_mode_disable u m = reg_clr (USART_CTL1 u) (BIT 14) m"

definition usart_lin_break_detection_length_config :: "u32 \<Rightarrow> u32 \<Rightarrow> mmio \<Rightarrow> mmio" where
  "usart_lin_break_detection_length_config u v m = reg_field (USART_CTL1 u) (BIT 5) (BIT 5 AND v) m"

definition usart_send_break :: "u32 \<Rightarrow> mmio \<Rightarrow> mmio" where
  "usart_send_break u m = reg_or (USART_CTL0 u) (BIT 0) m"

definition usart_halfduplex_enable :: "u32 \<Rightarrow> mmio \<Rightarrow> mmio" where
  "usart_halfduplex_enable u m = reg_or (USART_CTL2 u) (BIT 3) m"

definition usart_halfduplex_disable :: "u32 \<Rightarrow> mmio \<Rightarrow> mmio" where
  "usart_halfduplex_disable u m = reg_clr (USART_CTL2 u) (BIT 3) m"

definition usart_synchronous_clock_enable :: "u32 \<Rightarrow> mmio \<Rightarrow> mmio" where
  "usart_synchronous_clock_enable u m = reg_or (USART_CTL1 u) (BIT 11) m"

definition usart_synchronous_clock_disable :: "u32 \<Rightarrow> mmio \<Rightarrow> mmio" where
  "usart_synchronous_clock_disable u m = reg_clr (USART_CTL1 u) (BIT 11) m"

definition usart_synchronous_clock_config :: "u32 \<Rightarrow> u32 \<Rightarrow> u32 \<Rightarrow> u32 \<Rightarrow> mmio \<Rightarrow> mmio" where
  "usart_synchronous_clock_config u clen cph cpl m =
     reg_field (USART_CTL1 u) (BIT 8 OR BIT 9 OR BIT 10)
       ((BIT 8 AND clen) OR (BIT 9 AND cph) OR (BIT 10 AND cpl)) m"

definition usart_guard_time_config :: "u32 \<Rightarrow> u8 \<Rightarrow> mmio \<Rightarrow> mmio" where
  "usart_guard_time_config u v m = reg_field (USART_GP u) (BITS 8 15) (BITS 8 15 AND push_bit 8 (ucast v)) m"

definition usart_smartcard_mode_enable :: "u32 \<Rightarrow> mmio \<Rightarrow> mmio" where
  "usart_smartcard_mode_enable u m = reg_or (USART_CTL2 u) (BIT 5) m"

definition usart_smartcard_mode_disable :: "u32 \<Rightarrow> mmio \<Rightarrow> mmio" where
  "usart_smartcard_mode_disable u m = reg_clr (USART_CTL2 u) (BIT 5) m"

definition usart_smartcard_mode_nack_enable :: "u32 \<Rightarrow> mmio \<Rightarrow> mmio" where
  "usart_smartcard_mode_nack_enable u m = reg_or (USART_CTL2 u) (BIT 4) m"

definition usart_smartcard_mode_nack_disable :: "u32 \<Rightarrow> mmio \<Rightarrow> mmio" where
  "usart_smartcard_mode_nack_disable u m = reg_clr (USART_CTL2 u) (BIT 4) m"

definition usart_smartcard_autoretry_config :: "u32 \<Rightarrow> u8 \<Rightarrow> mmio \<Rightarrow> mmio" where
  "usart_smartcard_autoretry_config u v m = reg_field (USART_CTL3 u) (BITS 1 3) (BITS 1 3 AND push_bit 1 (ucast v)) m"

definition usart_block_length_config :: "u32 \<Rightarrow> u8 \<Rightarrow> mmio \<Rightarrow> mmio" where
  "usart_block_length_config u v m = reg_field (USART_RT u) (BITS 24 31) (BITS 24 31 AND push_bit 24 (ucast v)) m"

definition usart_irda_mode_enable :: "u32 \<Rightarrow> mmio \<Rightarrow> mmio" where
  "usart_irda_mode_enable u m = reg_or (USART_CTL2 u) (BIT 1) m"

definition usart_irda_mode_disable :: "u32 \<Rightarrow> mmio \<Rightarrow> mmio" where
  "usart_irda_mode_disable u m = reg_clr (USART_CTL2 u) (BIT 1) m"

definition usart_prescaler_config :: "u32 \<Rightarrow> u8 \<Rightarrow> mmio \<Rightarrow> mmio" where
  "usart_prescaler_config u v m = reg_field (USART_GP u) (BITS 0 7) (ucast v) m"

definition usart_irda_lowpower_config :: "u32 \<Rightarrow> u32 \<Rightarrow> mmio \<Rightarrow> mmio" where
  "usart_irda_lowpower_config u v m = reg_field (USART_CTL2 u) (BIT 2) (BIT 2 AND v) m"

definition usart_hardware_flow_rts_config :: "u32 \<Rightarrow> u32 \<Rightarrow> mmio \<Rightarrow> mmio" where
  "usart_hardware_flow_rts_config u v m = reg_field (USART_CTL2 u) (BIT 8) (BIT 8 AND v) m"

definition usart_hardware_flow_cts_config :: "u32 \<Rightarrow> u32 \<Rightarrow> mmio \<Rightarrow> mmio" where
  "usart_hardware_flow_cts_config u v m = reg_field (USART_CTL2 u) (BIT 9) (BIT 9 AND v) m"

definition usart_dma_receive_config :: "u32 \<Rightarrow> u8 \<Rightarrow> mmio \<Rightarrow> mmio" where
  "usart_dma_receive_config u v m = reg_field (USART_CTL2 u) (BIT 6) (BIT 6 AND ucast v) m"

definition usart_dma_transmit_config :: "u32 \<Rightarrow> u8 \<Rightarrow> mmio \<Rightarrow> mmio" where
  "usart_dma_transmit_config u v m = reg_field (USART_CTL2 u) (BIT 7) (BIT 7 AND ucast v) m"

lemmas usart_defs [fw_defs] = reg_field_def usart_parity_config_def usart_word_length_set_def usart_stop_bit_set_def usart_enable_def usart_disable_def usart_transmit_config_def usart_receive_config_def usart_dma_receive_config_def usart_dma_transmit_config_def
  usart_interrupt_enable_def usart_interrupt_disable_def

section \<open>Properties\<close>

text \<open>The offset and the position come back out of the numbers they were packed into.\<close>

lemma bits_16_20 [simp]: "bit (0x1F0000 :: int) n \<longleftrightarrow> 16 \<le> n \<and> n < 21"
proof -
  have "(0x1F0000 :: int) = push_bit 16 31" by simp
  then show ?thesis by (simp only: bit_push_bit_iff bit_ones_int) auto
qed

lemma regidx_bit:
  assumes "unat r < 2 ^ 8" and "unat b < 2 ^ 5"
  shows "USART_REG_VAL u (USART_REGIDX_BIT r b) = u + r" and "USART_BIT_POS (USART_REGIDX_BIT r b) = unat b"
proof -
  note r = bit_bounded [OF assms(1)] and b = bit_bounded [OF assms(2)]
  have "drop_bit 6 (USART_REGIDX_BIT r b AND 0xFFFF) = r"
    by (rule bit_word_eqI)
      (auto simp: USART_REGIDX_BIT_def bit_simps dest: r b)
  then show "USART_REG_VAL u (USART_REGIDX_BIT r b) = u + r"
    by (simp add: USART_REG_VAL_def)
  have "USART_REGIDX_BIT r b AND 0x1F = b"
    by (rule bit_word_eqI) (auto simp: USART_REGIDX_BIT_def bit_simps dest: r b)
  then show "USART_BIT_POS (USART_REGIDX_BIT r b) = unat b"
    by (simp add: USART_BIT_POS_def)
qed

lemma regidx_bit2:
  assumes "unat r < 2 ^ 8" and "unat b < 2 ^ 5" and "unat r2 < 2 ^ 8" and "unat b2 < 2 ^ 5"
  shows "USART_REG_VAL u (USART_REGIDX_BIT2 r b r2 b2) = u + r"
    and "USART_BIT_POS (USART_REGIDX_BIT2 r b r2 b2) = unat b"
    and "USART_REG_VAL2 u (USART_REGIDX_BIT2 r b r2 b2) = u + r2"
    and "USART_BIT_POS2 (USART_REGIDX_BIT2 r b r2 b2) = unat b2"
proof -
  note bnd = bit_bounded [OF assms(1)] bit_bounded [OF assms(2)]
    bit_bounded [OF assms(3)] bit_bounded [OF assms(4)]
  let ?x = "USART_REGIDX_BIT2 r b r2 b2"
  have "drop_bit 6 (?x AND 0xFFFF) = r"
    by (rule bit_word_eqI) (auto simp: USART_REGIDX_BIT2_def bit_simps dest: bnd)
  then show "USART_REG_VAL u ?x = u + r" by (simp add: USART_REG_VAL_def)
  have "?x AND 0x1F = b"
    by (rule bit_word_eqI) (auto simp: USART_REGIDX_BIT2_def bit_simps dest: bnd)
  then show "USART_BIT_POS ?x = unat b" by (simp add: USART_BIT_POS_def)
  have "drop_bit 22 ?x = r2"
    by (rule bit_word_eqI) (auto simp: USART_REGIDX_BIT2_def bit_simps dest: bnd)
  then show "USART_REG_VAL2 u ?x = u + r2" by (simp add: USART_REG_VAL2_def)
  have "drop_bit 16 (?x AND 0x1F0000) = b2"
    by (rule bit_word_eqI) (auto simp: USART_REGIDX_BIT2_def bit_simps dest: bnd)
  then show "USART_BIT_POS2 ?x = unat b2" by (simp add: USART_BIT_POS2_def)
qed

text \<open>
  An interrupt-flag number packs two registers and two bit positions, and
  \<open>usart_interrupt_flag_get\<close> unpacks them: it reports SET exactly when the status bit is set
  in the status register and the enable bit is set in the control register.
\<close>
theorem interrupt_flag_get_correct:
  assumes "unat ctl < 2 ^ 8" and "unat en < 2 ^ 5" and "unat stat < 2 ^ 8" and "unat flag < 2 ^ 5"
  shows "fst (usart_interrupt_flag_get u (USART_REGIDX_BIT2 ctl en stat flag) m) = SET \<longleftrightarrow>
    bit (regs m (u + ctl)) (unat en) \<and> bit (regs m (u + stat)) (unat flag)"
  by (auto simp: usart_interrupt_flag_get_def case_prod_beta regidx_bit2 [OF assms] eq_commute [of 0])

definition usart_mmio :: mmio where
  "usart_mmio = \<lparr>regs = (\<lambda>_. 0)(USART0 + 0x0C := 0x10, USART0 + 0x88 := 0x1000), accesses = []\<rparr>"

lemma interrupt_flag_get_correct_witness:
  "fst (usart_interrupt_flag_get USART0 (USART_REGIDX_BIT2 0x0C 4 0x88 12) usart_mmio) = SET \<longleftrightarrow>
    bit (regs usart_mmio (USART0 + 0x0C)) (unat (4 :: u32)) \<and> bit (regs usart_mmio (USART0 + 0x88)) (unat (12 :: u32))"
  by (rule interrupt_flag_get_correct) simp_all

lemma and_mod_16: "x AND 0xFFF0 OR x AND 0xF = x AND (0xFFFF :: u32)"
proof -
  have "(0xFFFF :: u32) = 0xFFF0 OR 0xF" by simp
  then show ?thesis by (simp only: bit.conj_disj_distrib)
qed

text \<open>
  C39: the divider \<open>usart_baudrate_set\<close> writes is the nearest one, for each of the five serial
  ports with the clock of its bus, APB2 for USART0 and APB1 for the others. When the sum of the clock
  and half the rate does not overflow and the rounded quotient fits the 16 bits of the register,
  the bit time it gives differs from the requested one by at most half a clock
  period: |divider * baud - clock| <= baud / 2.
\<close>
theorem baudrate_nearest:
  assumes "(u, bus) \<in> {(USART0, CK_APB2), (USART1, CK_APB1), (USART2, CK_APB1), (UART3, CK_APB1), (UART4, CK_APB1)}"
    and "0 < unat baud"
    and "unat (rcu_clock_freq_get bus m) + unat baud div 2 < 2 ^ 32"
    and "(unat (rcu_clock_freq_get bus m) + unat baud div 2) div unat baud < 2 ^ 16"
  shows "\<exists>m'. usart_baudrate_set u baud m = Some m' \<and>
    2 * \<bar>int (unat (regs m' (USART_BAUD u))) * int (unat baud)
        - int (unat (rcu_clock_freq_get bus m))\<bar> \<le> int (unat baud)"
proof -
  let ?c = "rcu_clock_freq_get bus m"
  let ?q = "(?c + baud div 2) div baud"
  have q: "unat ?q = (unat ?c + unat baud div 2) div unat baud"
    using assms(3) by (simp add: unat_div unat_word_ariths)
  have fits: "?q AND 0xFFFF = ?q"
  proof (rule bit_word_eqI)
    fix n
    show "bit (?q AND 0xFFFF) n = bit ?q n"
      using bit_bounded [of ?q 16 n] q assms(4) by (auto simp: bit_and_iff)
  qed
  have mask: "(BITS 0 3 OR BITS 4 15) AND x = x AND 0xFFFF" for x
    by (rule bit_word_eqI) (auto simp: bit_simps)
  have "baud \<noteq> 0" using assms(2) by auto
  with assms(1) fits have eq: "usart_baudrate_set u baud m = Some (wr (USART_BAUD u) ?q m)"
    by (auto simp: usart_baudrate_set_def Let_def mask and_mod_16 and.assoc)
  have near: "2 * \<bar>int ((a + b div 2) div b) * int b - int a\<bar> \<le> int b" if "0 < b" for a b :: nat
  proof -
    have "(a + b div 2) div b * b + (a + b div 2) mod b = a + b div 2" by simp
    moreover have "(a + b div 2) mod b < b" using that by simp
    ultimately have "2 * ((a + b div 2) div b * b) \<le> 2 * a + b" "2 * a \<le> 2 * ((a + b div 2) div b * b) + b"
      by linarith+
    moreover have "2 * \<bar>int p - int a\<bar> \<le> int b" if "2 * p \<le> 2 * a + b" "2 * a \<le> 2 * p + b" for p
    proof -
      have "int (2 * p) \<le> int (2 * a + b)" "int (2 * a) \<le> int (2 * p + b)"
        using that by (simp_all only: of_nat_le_iff)
      then show ?thesis unfolding of_nat_add of_nat_mult of_nat_numeral by arith
    qed
    ultimately show ?thesis by (metis of_nat_mult)
  qed
  have "2 * \<bar>int (unat ?q) * int (unat baud) - int (unat ?c)\<bar> \<le> int (unat baud)"
    unfolding q by (rule near [OF assms(2)])
  then show ?thesis by (simp add: eq)
qed

definition clock_mmio :: mmio where
  "clock_mmio = \<lparr>regs = (\<lambda>_. 0)(RCU_CFG0 := cfg0_120m), accesses = []\<rparr>"

lemma clock_mmio_freq: "rcu_clock_freq_get CK_APB1 clock_mmio = 60000000"
  by (rule clock_120m) (simp_all add: clock_mmio_def)

lemma baudrate_nearest_witness:
  "\<exists>m'. usart_baudrate_set UART3 115200 clock_mmio = Some m' \<and>
    2 * \<bar>int (unat (regs m' (USART_BAUD UART3))) * int (unat (115200 :: u32)) - 60000000\<bar> \<le> int (unat (115200 :: u32))"
  using baudrate_nearest [of UART3 CK_APB1 115200 clock_mmio] by (simp add: clock_mmio_freq)

end
