(* ===== verification/Gd32_Gpio.thy ===== *)
theory Gd32_Gpio
  imports Gd32_Mmio
begin

text \<open>
  \<open>gd32f30x_gpio.c\<close>: pin configuration and pin access. Writing a pin goes through the
  set register \<open>GPIO_BOP\<close> and the clear register \<open>GPIO_BC\<close>; the level a pin ends up
  with is read off the recorded accesses.
\<close>

abbreviation GPIOA :: u32 where "GPIOA \<equiv> 0x40010800"

definition GPIO_CTL0 :: "u32 \<Rightarrow> u32" where "GPIO_CTL0 g = g + 0x00"
definition GPIO_CTL1 :: "u32 \<Rightarrow> u32" where "GPIO_CTL1 g = g + 0x04"
definition GPIO_ISTAT :: "u32 \<Rightarrow> u32" where "GPIO_ISTAT g = g + 0x08"
definition GPIO_OCTL :: "u32 \<Rightarrow> u32" where "GPIO_OCTL g = g + 0x0C"
definition GPIO_BOP :: "u32 \<Rightarrow> u32" where "GPIO_BOP g = g + 0x10"
definition GPIO_BC :: "u32 \<Rightarrow> u32" where "GPIO_BC g = g + 0x14"
definition GPIO_LOCK :: "u32 \<Rightarrow> u32" where "GPIO_LOCK g = g + 0x18"
definition GPIOx_SPD :: "u32 \<Rightarrow> u32" where "GPIOx_SPD g = g + 0x3C"

lemmas gpio_reg_defs = GPIO_CTL0_def GPIO_CTL1_def GPIO_ISTAT_def GPIO_OCTL_def GPIO_BOP_def
  GPIO_BC_def GPIO_LOCK_def GPIOx_SPD_def

abbreviation GPIO_MODE_IN_FLOATING :: u32 where "GPIO_MODE_IN_FLOATING \<equiv> 0x04"
abbreviation GPIO_MODE_IPD :: u32 where "GPIO_MODE_IPD \<equiv> 0x28"
abbreviation GPIO_MODE_IPU :: u32 where "GPIO_MODE_IPU \<equiv> 0x48"
abbreviation GPIO_MODE_OUT_PP :: u32 where "GPIO_MODE_OUT_PP \<equiv> 0x10"
abbreviation GPIO_MODE_AF_PP :: u32 where "GPIO_MODE_AF_PP \<equiv> 0x18"
abbreviation GPIO_OSPEED_50MHZ :: u32 where "GPIO_OSPEED_50MHZ \<equiv> 0x03"
abbreviation GPIO_OSPEED_MAX :: u32 where "GPIO_OSPEED_MAX \<equiv> 0x04"

section \<open>Pin configuration\<close>

text \<open>\<open>temp_mode\<close>, and the speed register in the very-high-speed case.\<close>

definition gpio_temp_mode :: "u32 \<Rightarrow> u32 \<Rightarrow> u32" where
  "gpio_temp_mode mode speed =
     (let temp_mode = mode AND 0x0F
      in if 0 \<noteq> mode AND 0x10 then
           if GPIO_OSPEED_MAX = speed then temp_mode OR 0x03 else temp_mode OR speed
         else temp_mode)"

text \<open>One round of a configuration loop; \<open>ctl\<close> is the control register, \<open>base\<close> its first pin.\<close>

definition gpio_pin_config :: "u32 \<Rightarrow> u32 \<Rightarrow> u32 \<Rightarrow> u32 \<Rightarrow> u32 \<Rightarrow> nat \<Rightarrow> nat \<Rightarrow> mmio \<Rightarrow> mmio" where
  "gpio_pin_config g mode temp_mode pin ctl base i m =
     (if push_bit i 1 AND pin \<noteq> 0 then
        let (reg, m) = rd ctl m;
            reg = reg AND NOT (push_bit (4 * (i - base)) 0xF);
            reg = reg OR push_bit (4 * (i - base)) temp_mode;
            m = (if GPIO_MODE_IPD = mode then wr (GPIO_BC g) (push_bit i 1 AND pin) m
                 else if GPIO_MODE_IPU = mode then wr (GPIO_BOP g) (push_bit i 1 AND pin) m
                 else m)
        in wr ctl reg m
      else m)"

definition gpio_init :: "u32 \<Rightarrow> u32 \<Rightarrow> u32 \<Rightarrow> u32 \<Rightarrow> mmio \<Rightarrow> mmio" where
  "gpio_init g mode speed pin m =
     (let temp_mode = gpio_temp_mode mode speed;
          m = (if 0 \<noteq> mode AND 0x10 \<and> GPIO_OSPEED_MAX = speed then reg_or (GPIOx_SPD g) pin m else m);
          m = fold (gpio_pin_config g mode temp_mode pin (GPIO_CTL0 g) 0) [0..<8] m
      in fold (gpio_pin_config g mode temp_mode pin (GPIO_CTL1 g) 8) [8..<16] m)"

section \<open>Pin access\<close>

definition gpio_bit_set :: "u32 \<Rightarrow> u32 \<Rightarrow> mmio \<Rightarrow> mmio" where
  "gpio_bit_set g pin m = wr (GPIO_BOP g) pin m"

definition gpio_bit_reset :: "u32 \<Rightarrow> u32 \<Rightarrow> mmio \<Rightarrow> mmio" where
  "gpio_bit_reset g pin m = wr (GPIO_BC g) pin m"

definition gpio_bit_write :: "u32 \<Rightarrow> u32 \<Rightarrow> FlagStatus \<Rightarrow> mmio \<Rightarrow> mmio" where
  "gpio_bit_write g pin bit_value m =
     (if RESET \<noteq> bit_value then wr (GPIO_BOP g) pin m else wr (GPIO_BC g) pin m)"

definition gpio_port_write :: "u32 \<Rightarrow> u16 \<Rightarrow> mmio \<Rightarrow> mmio" where
  "gpio_port_write g data m = wr (GPIO_OCTL g) (ucast data) m"

definition gpio_input_bit_get :: "u32 \<Rightarrow> u32 \<Rightarrow> mmio \<Rightarrow> FlagStatus \<times> mmio" where
  "gpio_input_bit_get g pin m = (let (x, m) = rd (GPIO_ISTAT g) m in
     (if 0 \<noteq> x AND pin then SET else RESET, m))"

definition gpio_input_port_get :: "u32 \<Rightarrow> mmio \<Rightarrow> u16 \<times> mmio" where
  "gpio_input_port_get g m = (let (x, m) = rd (GPIO_ISTAT g) m in (ucast x, m))"

definition gpio_output_bit_get :: "u32 \<Rightarrow> u32 \<Rightarrow> mmio \<Rightarrow> FlagStatus \<times> mmio" where
  "gpio_output_bit_get g pin m = (let (x, m) = rd (GPIO_OCTL g) m in
     (if 0 \<noteq> x AND pin then SET else RESET, m))"

definition gpio_output_port_get :: "u32 \<Rightarrow> mmio \<Rightarrow> u16 \<times> mmio" where
  "gpio_output_port_get g m = (let (x, m) = rd (GPIO_OCTL g) m in (ucast x, m))"

definition gpio_pin_lock :: "u32 \<Rightarrow> u32 \<Rightarrow> mmio \<Rightarrow> mmio" where
  "gpio_pin_lock g pin m =
     (let lock = 0x00010000 OR pin;
          m = wr (GPIO_LOCK g) lock m;
          m = wr (GPIO_LOCK g) pin m;
          m = wr (GPIO_LOCK g) lock m;
          m = snd (rd (GPIO_LOCK g) m)
      in snd (rd (GPIO_LOCK g) m))"

text \<open>The level a pin is driven to by a sequence of accesses, starting from \<open>l\<close>.\<close>

fun pin_level :: "u32 \<Rightarrow> nat \<Rightarrow> bool \<Rightarrow> reg_access list \<Rightarrow> bool" where
  "pin_level g k l [] = l"
| "pin_level g k l (Rd a # as) = pin_level g k l as"
| "pin_level g k l (Wr a v # as) =
     pin_level g k (if a = GPIO_BOP g \<and> bit v k then True
                    else if a = GPIO_BC g \<and> bit v k then False else l) as"

lemma pin_level_append [simp]:
  "pin_level g k l (xs @ ys) = pin_level g k (pin_level g k l xs) ys"
proof (induction xs arbitrary: l)
  case (Cons x xs)
  then show ?case by (cases x) auto
qed simp

section \<open>What configuration does\<close>

lemma gpio_distinct [simp]:
  "GPIO_CTL0 g \<noteq> GPIO_CTL1 g" "GPIO_CTL1 g \<noteq> GPIO_CTL0 g"
  "GPIO_CTL0 g \<noteq> GPIO_BC g" "GPIO_CTL0 g \<noteq> GPIO_BOP g" "GPIO_CTL1 g \<noteq> GPIO_BC g" "GPIO_CTL1 g \<noteq> GPIO_BOP g"
  "GPIO_CTL0 g \<noteq> GPIOx_SPD g" "GPIO_CTL1 g \<noteq> GPIOx_SPD g" "GPIO_BC g \<noteq> GPIO_BOP g" "GPIO_BOP g \<noteq> GPIO_BC g"
  by (simp_all add: gpio_reg_defs)

lemma one_pin [simp]: "2 ^ i AND pin = (0 :: u32) \<longleftrightarrow> \<not> bit pin i"
  using and_BIT_eq_0 [of pin i] by (simp add: BIT_def and.commute)

text \<open>\<open>pin_field c pin tm lo n\<close>: bit \<open>n\<close> of a control register after the pins were configured.\<close>

lemma field_insert:
  assumes "unat tm < 2 ^ 4" and "k < 8" and "n < 32"
  shows "bit ((c AND NOT (push_bit (4 * k) 0xF)) OR push_bit (4 * k) (tm :: u32)) n
    \<longleftrightarrow> (if n div 4 = k then bit tm (n mod 4) else bit c n)"
proof -
  have F: "bit (15 :: u32) j \<longleftrightarrow> j < 4" for j
  proof -
    have "(15 :: u32) = mask 4" by (simp add: mask_eq_exp_minus_1)
    then show ?thesis by (simp only: bit_mask_iff) auto
  qed
  have n: "n = 4 * (n div 4) + n mod 4" by simp
  show ?thesis
  proof (cases "n div 4 = k")
    case True
    then have "4 * k \<le> n" "n - 4 * k = n mod 4" "n mod 4 < 4" using n by auto
    with True assms(3) show ?thesis
      by (simp only: bit_or_iff bit_and_iff bit_not_iff bit_push_bit_iff F) auto
  next
    case False
    then have "n < 4 * k \<or> 4 \<le> n - 4 * k \<and> 4 * k \<le> n" using n by linarith
    with False assms bit_bounded [OF assms(1), of "n - 4 * k"] show ?thesis
      by (simp only: bit_or_iff bit_and_iff bit_not_iff bit_push_bit_iff F) (auto simp: not_le)
  qed
qed

lemma pin_config_regs:
  assumes "ctl = GPIO_CTL0 g \<or> ctl = GPIO_CTL1 g"
  shows "regs (gpio_pin_config g mode tm pin ctl base i m) ctl
      = (if bit pin i then (regs m ctl AND NOT (push_bit (4 * (i - base)) 0xF)) OR push_bit (4 * (i - base)) tm
         else regs m ctl)"
    and "a \<noteq> ctl \<Longrightarrow> a \<noteq> GPIO_BC g \<Longrightarrow> a \<noteq> GPIO_BOP g \<Longrightarrow>
      regs (gpio_pin_config g mode tm pin ctl base i m) a = regs m a"
  using assms by (auto simp: gpio_pin_config_def case_prod_beta Let_def)

text \<open>The loop: after \<open>k\<close> rounds the fields of the first \<open>k\<close> pins are done.\<close>

lemma pin_config_loop:
  assumes "ctl = GPIO_CTL0 g \<or> ctl = GPIO_CTL1 g" and "unat tm < 2 ^ 4" and "k \<le> 8"
  shows "(\<forall>n < 32. bit (regs (fold (gpio_pin_config g mode tm pin ctl base) [base..<base + k] m) ctl) n
      \<longleftrightarrow> (if n div 4 < k \<and> bit pin (base + n div 4) then bit tm (n mod 4) else bit (regs m ctl) n))
    \<and> (\<forall>a. a \<noteq> ctl \<longrightarrow> a \<noteq> GPIO_BC g \<longrightarrow> a \<noteq> GPIO_BOP g \<longrightarrow>
      regs (fold (gpio_pin_config g mode tm pin ctl base) [base..<base + k] m) a = regs m a)"
  using assms(3)
proof (induction k)
  case (Suc k)
  then show ?case
    by (auto simp: pin_config_regs [OF assms(1)] field_insert [OF assms(2)] less_Suc_eq)
qed simp

lemma temp_mode_4_bits:
  assumes "unat speed < 2 ^ 4"
  shows "unat (gpio_temp_mode mode speed) < 2 ^ 4"
proof -
  have F: "bit (15 :: int) j \<longleftrightarrow> j < 4" for j
  proof -
    have "(15 :: int) = mask 4" by (simp add: mask_eq_exp_minus_1)
    then show ?thesis by (simp only: bit_mask_iff) auto
  qed
  have T: "bit (3 :: int) j \<Longrightarrow> j < 4" for j
  proof -
    have "(3 :: int) = mask 2" by (simp add: mask_eq_exp_minus_1)
    then show "bit (3 :: int) j \<Longrightarrow> j < 4" by (simp only: bit_mask_iff) auto
  qed
  have "gpio_temp_mode mode speed = take_bit 4 (gpio_temp_mode mode speed)"
    by (rule bit_word_eqI)
      (auto simp: gpio_temp_mode_def Let_def bit_simps F dest: T bit_bounded [OF assms])
  then have "unat (gpio_temp_mode mode speed) = take_bit 4 (unat (gpio_temp_mode mode speed))"
    by (metis unsigned_take_bit_eq)
  then show ?thesis by (metis take_bit_nat_less_exp)
qed

section \<open>Properties\<close>

text \<open>
  \<open>gpio_init\<close> gives every selected pin its four mode bits and leaves the mode of every
  other pin of the port as it was. The eight low pins have their fields in \<open>GPIO_CTL0\<close>, the
  eight high pins in \<open>GPIO_CTL1\<close>.
\<close>
theorem gpio_init_sets_selected_pins:
  assumes "unat speed < 2 ^ 4" and "n < 32"
  shows "bit (regs (gpio_init g mode speed pin m) (GPIO_CTL0 g)) n
      = (if bit pin (n div 4) then bit (gpio_temp_mode mode speed) (n mod 4) else bit (regs m (GPIO_CTL0 g)) n)
    \<and> bit (regs (gpio_init g mode speed pin m) (GPIO_CTL1 g)) n
      = (if bit pin (8 + n div 4) then bit (gpio_temp_mode mode speed) (n mod 4) else bit (regs m (GPIO_CTL1 g)) n)"
proof -
  let ?tm = "gpio_temp_mode mode speed"
  let ?m0 = "if 0 \<noteq> mode AND 0x10 \<and> GPIO_OSPEED_MAX = speed then reg_or (GPIOx_SPD g) pin m else m"
  let ?m1 = "fold (gpio_pin_config g mode ?tm pin (GPIO_CTL0 g) 0) [0..<8] ?m0"
  have 8: "n div 4 < 8" using assms(2) by simp
  note tm = temp_mode_4_bits [OF assms(1)]
  have m0: "regs ?m0 (GPIO_CTL0 g) = regs m (GPIO_CTL0 g)" "regs ?m0 (GPIO_CTL1 g) = regs m (GPIO_CTL1 g)"
    by simp_all
  have low: "bit (regs ?m1 (GPIO_CTL0 g)) n
      = (if bit pin (n div 4) then bit ?tm (n mod 4) else bit (regs m (GPIO_CTL0 g)) n)"
    "regs ?m1 (GPIO_CTL1 g) = regs m (GPIO_CTL1 g)"
    using pin_config_loop [of "GPIO_CTL0 g" g ?tm 8 mode pin 0 ?m0] 8 assms(2) tm m0 by auto
  have high: "bit (regs (fold (gpio_pin_config g mode ?tm pin (GPIO_CTL1 g) 8) [8..<16] ?m1) (GPIO_CTL1 g)) n
      = (if bit pin (8 + n div 4) then bit ?tm (n mod 4) else bit (regs ?m1 (GPIO_CTL1 g)) n)"
    "regs (fold (gpio_pin_config g mode ?tm pin (GPIO_CTL1 g) 8) [8..<16] ?m1) (GPIO_CTL0 g)
      = regs ?m1 (GPIO_CTL0 g)"
    using pin_config_loop [of "GPIO_CTL1 g" g ?tm 8 mode pin 8 ?m1] 8 assms(2) tm by auto
  have "gpio_init g mode speed pin m = fold (gpio_pin_config g mode ?tm pin (GPIO_CTL1 g) 8) [8..<16] ?m1"
    by (simp only: gpio_init_def Let_def)
  with low high show ?thesis by (simp only: if_cancel)
qed

definition gpio_mmio :: mmio where
  "gpio_mmio = \<lparr>regs = (\<lambda>_. 0x44444444), accesses = []\<rparr>"

lemma gpio_init_sets_selected_pins_witness:
  "bit (regs (gpio_init GPIOA GPIO_MODE_AF_PP GPIO_OSPEED_50MHZ (BIT 9) gpio_mmio) (GPIO_CTL0 GPIOA)) 5
      = (if bit (BIT 9) (5 div 4) then bit (gpio_temp_mode GPIO_MODE_AF_PP GPIO_OSPEED_50MHZ) (5 mod 4)
         else bit (regs gpio_mmio (GPIO_CTL0 GPIOA)) 5)
    \<and> bit (regs (gpio_init GPIOA GPIO_MODE_AF_PP GPIO_OSPEED_50MHZ (BIT 9) gpio_mmio) (GPIO_CTL1 GPIOA)) 5
      = (if bit (BIT 9) (8 + 5 div 4) then bit (gpio_temp_mode GPIO_MODE_AF_PP GPIO_OSPEED_50MHZ) (5 mod 4)
         else bit (regs gpio_mmio (GPIO_CTL1 GPIOA)) 5)"
  by (rule gpio_init_sets_selected_pins) simp_all

end
