(* ===== verification/Gd32_Misc.thy ===== *)
theory Gd32_Misc
  imports Gd32_Mmio
begin

text \<open>
  \<open>gd32f30x_misc.c\<close> and the interrupt controller functions of \<open>core_cm4.h\<close>: priority grouping,
  interrupt priorities and enabling. Priorities are bytes; a byte register is a byte of the 32-bit
  register that holds it.
\<close>

abbreviation NVIC_BASE :: u32 where "NVIC_BASE \<equiv> 0xE000E100"
abbreviation SCB_BASE :: u32 where "SCB_BASE \<equiv> 0xE000ED00"
abbreviation SysTick_BASE :: u32 where "SysTick_BASE \<equiv> 0xE000E010"
abbreviation (input) SCB_AIRCR :: u32 where "SCB_AIRCR \<equiv> SCB_BASE + 0x0C"
abbreviation (input) NVIC_ISER :: "nat \<Rightarrow> u32" where "NVIC_ISER n \<equiv> NVIC_BASE + of_nat (4 * n)"
abbreviation (input) NVIC_ICER :: "nat \<Rightarrow> u32" where "NVIC_ICER n \<equiv> NVIC_BASE + 0x080 + of_nat (4 * n)"
abbreviation (input) NVIC_ISPR :: "nat \<Rightarrow> u32" where "NVIC_ISPR n \<equiv> NVIC_BASE + 0x100 + of_nat (4 * n)"
abbreviation (input) NVIC_ICPR :: "nat \<Rightarrow> u32" where "NVIC_ICPR n \<equiv> NVIC_BASE + 0x180 + of_nat (4 * n)"
abbreviation (input) NVIC_IP :: u32 where "NVIC_IP \<equiv> NVIC_BASE + 0x300"
abbreviation (input) SCB_SHP :: u32 where "SCB_SHP \<equiv> SCB_BASE + 0x018"
abbreviation NVIC_PRIO_BITS :: nat where "NVIC_PRIO_BITS \<equiv> 4"

text \<open>Byte \<open>n\<close> of the bytes from \<open>a\<close> on (\<open>a\<close> is a multiple of 4).\<close>

definition rd8 :: "u32 \<Rightarrow> nat \<Rightarrow> mmio \<Rightarrow> u8" where
  "rd8 a n m = ucast (drop_bit (8 * (n mod 4)) (regs m (a + of_nat (4 * (n div 4)))))"

definition wr8 :: "u32 \<Rightarrow> nat \<Rightarrow> u8 \<Rightarrow> mmio \<Rightarrow> mmio" where
  "wr8 a n v m = (let r = a + of_nat (4 * (n div 4)); s = 8 * (n mod 4)
     in wr r (regs m r AND NOT (push_bit s 0xFF) OR push_bit s (ucast v)) m)"

section \<open>Interrupt controller\<close>

text \<open>Interrupt numbers are signed: system exceptions are negative.\<close>

definition NVIC_SetPriorityGrouping :: "u32 \<Rightarrow> mmio \<Rightarrow> mmio" where
  "NVIC_SetPriorityGrouping PriorityGroup m =
     (let tmp = PriorityGroup AND 0x07;
          (reg_value, m) = rd SCB_AIRCR m;
          reg_value = reg_value AND NOT (push_bit 16 0xFFFF OR push_bit 8 7);
          reg_value = reg_value OR push_bit 16 0x5FA OR push_bit 8 tmp
      in wr SCB_AIRCR reg_value m)"

definition NVIC_GetPriorityGrouping :: "mmio \<Rightarrow> u32 \<times> mmio" where
  "NVIC_GetPriorityGrouping m = (let (x, m) = rd SCB_AIRCR m in (drop_bit 8 (x AND push_bit 8 7), m))"

definition NVIC_EnableIRQ :: "nat \<Rightarrow> mmio \<Rightarrow> mmio" where
  "NVIC_EnableIRQ IRQn m = wr (NVIC_ISER (IRQn div 32)) (BIT (IRQn mod 32)) m"

definition NVIC_DisableIRQ :: "nat \<Rightarrow> mmio \<Rightarrow> mmio" where
  "NVIC_DisableIRQ IRQn m = wr (NVIC_ICER (IRQn div 32)) (BIT (IRQn mod 32)) m"

definition NVIC_GetPendingIRQ :: "nat \<Rightarrow> mmio \<Rightarrow> u32 \<times> mmio" where
  "NVIC_GetPendingIRQ IRQn m = (let (x, m) = rd (NVIC_ISPR (IRQn div 32)) m in
     (if x AND BIT (IRQn mod 32) \<noteq> 0 then 1 else 0, m))"

definition NVIC_SetPendingIRQ :: "nat \<Rightarrow> mmio \<Rightarrow> mmio" where
  "NVIC_SetPendingIRQ IRQn m = wr (NVIC_ISPR (IRQn div 32)) (BIT (IRQn mod 32)) m"

definition NVIC_ClearPendingIRQ :: "nat \<Rightarrow> mmio \<Rightarrow> mmio" where
  "NVIC_ClearPendingIRQ IRQn m = wr (NVIC_ICPR (IRQn div 32)) (BIT (IRQn mod 32)) m"

text \<open>The index of a system exception: its number modulo 16, less 4.\<close>

definition NVIC_SetPriority :: "int \<Rightarrow> u32 \<Rightarrow> mmio \<Rightarrow> mmio" where
  "NVIC_SetPriority IRQn priority m =
     (let v = ucast (push_bit (8 - NVIC_PRIO_BITS) priority AND 0xFF)
      in if IRQn < 0 then wr8 SCB_SHP (nat (IRQn mod 16 - 4)) v m else wr8 NVIC_IP (nat IRQn) v m)"

definition NVIC_GetPriority :: "int \<Rightarrow> mmio \<Rightarrow> u32" where
  "NVIC_GetPriority IRQn m =
     ucast (drop_bit (8 - NVIC_PRIO_BITS) (if IRQn < 0 then rd8 SCB_SHP (nat (IRQn mod 16 - 4)) m else rd8 NVIC_IP (nat IRQn) m))"

definition PreemptPriorityBits :: "u32 \<Rightarrow> nat" where
  "PreemptPriorityBits grp = (let g = unat (grp AND 7) in if 7 - g > NVIC_PRIO_BITS then NVIC_PRIO_BITS else 7 - g)"

definition SubPriorityBits :: "u32 \<Rightarrow> nat" where
  "SubPriorityBits grp = (let g = unat (grp AND 7) in if g + NVIC_PRIO_BITS < 7 then 0 else g + NVIC_PRIO_BITS - 7)"

definition NVIC_EncodePriority :: "u32 \<Rightarrow> u32 \<Rightarrow> u32 \<Rightarrow> u32" where
  "NVIC_EncodePriority PriorityGroup PreemptPriority SubPriority =
     push_bit (SubPriorityBits PriorityGroup) (PreemptPriority AND mask (PreemptPriorityBits PriorityGroup))
     OR (SubPriority AND mask (SubPriorityBits PriorityGroup))"

definition NVIC_DecodePriority :: "u32 \<Rightarrow> u32 \<Rightarrow> u32 \<times> u32" where
  "NVIC_DecodePriority Priority PriorityGroup =
     (drop_bit (SubPriorityBits PriorityGroup) Priority AND mask (PreemptPriorityBits PriorityGroup),
      Priority AND mask (SubPriorityBits PriorityGroup))"

text \<open>The result is 1 when the value does not fit the 24-bit counter.\<close>

definition SysTick_Config :: "u32 \<Rightarrow> mmio \<Rightarrow> u32 \<times> mmio" where
  "SysTick_Config ticks m =
     (if ticks - 1 > 0xFFFFFF then (1, m)
      else let m = wr (SysTick_BASE + 4) (ticks - 1) m;
               m = NVIC_SetPriority (-1) (push_bit NVIC_PRIO_BITS 1 - 1) m;
               m = wr (SysTick_BASE + 8) 0 m;
               m = wr SysTick_BASE (BIT 2 OR BIT 1 OR BIT 0) m
           in (0, m))"

section \<open>Library functions\<close>

abbreviation NVIC_PRIGROUP_PRE0_SUB4 :: u32 where "NVIC_PRIGROUP_PRE0_SUB4 \<equiv> 0x700"
abbreviation NVIC_PRIGROUP_PRE1_SUB3 :: u32 where "NVIC_PRIGROUP_PRE1_SUB3 \<equiv> 0x600"
abbreviation NVIC_PRIGROUP_PRE2_SUB2 :: u32 where "NVIC_PRIGROUP_PRE2_SUB2 \<equiv> 0x500"
abbreviation NVIC_PRIGROUP_PRE3_SUB1 :: u32 where "NVIC_PRIGROUP_PRE3_SUB1 \<equiv> 0x400"
abbreviation NVIC_PRIGROUP_PRE4_SUB0 :: u32 where "NVIC_PRIGROUP_PRE4_SUB0 \<equiv> 0x300"

definition nvic_priority_group_set :: "u32 \<Rightarrow> mmio \<Rightarrow> mmio" where
  "nvic_priority_group_set nvic_prigroup m = wr SCB_AIRCR (0x05FA0000 OR nvic_prigroup) m"

definition nvic_irq_enable :: "nat \<Rightarrow> u8 \<Rightarrow> u8 \<Rightarrow> mmio \<Rightarrow> mmio" where
  "nvic_irq_enable nvic_irq pre_priority sub_priority m =
     (let (aircr, m) = rd SCB_AIRCR m;
          m = (if aircr AND push_bit 8 7 \<in> {NVIC_PRIGROUP_PRE0_SUB4, NVIC_PRIGROUP_PRE1_SUB3, NVIC_PRIGROUP_PRE2_SUB2,
                   NVIC_PRIGROUP_PRE3_SUB1, NVIC_PRIGROUP_PRE4_SUB0} then m
               else nvic_priority_group_set NVIC_PRIGROUP_PRE2_SUB2 m);
          (nvic_prigroup, m) = NVIC_GetPriorityGrouping m;
          m = NVIC_SetPriority (int nvic_irq) (NVIC_EncodePriority nvic_prigroup (ucast pre_priority) (ucast sub_priority)) m
      in NVIC_EnableIRQ nvic_irq m)"

definition nvic_irq_disable :: "nat \<Rightarrow> mmio \<Rightarrow> mmio" where
  "nvic_irq_disable nvic_irq m = NVIC_DisableIRQ nvic_irq m"

definition nvic_vector_table_set :: "u32 \<Rightarrow> u32 \<Rightarrow> mmio \<Rightarrow> mmio" where
  "nvic_vector_table_set nvic_vect_tab offset m = wr (SCB_BASE + 8) (nvic_vect_tab OR (offset AND 0x1FFFFF80)) m"

definition system_lowpower_set :: "u8 \<Rightarrow> mmio \<Rightarrow> mmio" where
  "system_lowpower_set lowpower_mode m = reg_or (SCB_BASE + 0x10) (ucast lowpower_mode) m"

definition system_lowpower_reset :: "u8 \<Rightarrow> mmio \<Rightarrow> mmio" where
  "system_lowpower_reset lowpower_mode m = reg_clr (SCB_BASE + 0x10) (ucast lowpower_mode) m"

definition systick_clksource_set :: "u32 \<Rightarrow> mmio \<Rightarrow> mmio" where
  "systick_clksource_set systick_clksource m =
     (if 0x00000004 = systick_clksource then reg_or SysTick_BASE 0x00000004 m
      else let (x, m) = rd SysTick_BASE m in wr SysTick_BASE (x AND 0xFFFFFFFB) m)"

section \<open>Properties\<close>

lemma rd8_wr8 [simp]: "rd8 a n (wr8 a n v m) = v"
  by (rule bit_word_eqI) (auto simp: rd8_def wr8_def Let_def bit_simps)

text \<open>The fields of a priority come back out of its encoding, cut to their widths.\<close>

lemma priority_bits: "PreemptPriorityBits g + SubPriorityBits g = 4"
proof -
  have "unat (g AND 7) \<le> unat (7 :: u32)" by (rule word_and_le1 [THEN word_le_nat_alt [THEN iffD1]])
  then show ?thesis by (auto simp: PreemptPriorityBits_def SubPriorityBits_def Let_def)
qed

lemma decode_encode:
  "NVIC_DecodePriority (NVIC_EncodePriority g p s) g = (p AND mask (PreemptPriorityBits g), s AND mask (SubPriorityBits g))"
proof -
  have "drop_bit (SubPriorityBits g) (NVIC_EncodePriority g p s) AND mask (PreemptPriorityBits g) = p AND mask (PreemptPriorityBits g)"
    using priority_bits [of g] by (intro bit_word_eqI) (auto simp: NVIC_EncodePriority_def bit_simps)
  moreover have "NVIC_EncodePriority g p s AND mask (SubPriorityBits g) = s AND mask (SubPriorityBits g)"
    by (intro bit_word_eqI) (auto simp: NVIC_EncodePriority_def bit_simps)
  ultimately show ?thesis by (simp add: NVIC_DecodePriority_def)
qed

end
