(* ===== verification/Rtos_List.thy ===== *)
theory Rtos_List
  imports Fw_Base
begin

text \<open>
  \<open>FreeRTOS-Kernel-main/list.c\<close> and the list macros of \<open>include/list.h\<close>: circular
  doubly linked lists of items with a marker \<open>xListEnd\<close>, in an explicit store. The lemmas
  show that the pointer operations implement operations on plain lists.
\<close>

section \<open>The store\<close>

text \<open>
  A pointer to a list item is the marker of a list or an item; lists and items are named by
  elements of any two types. The fields of the structures are functions of the pointer.
\<close>

datatype ('l, 'i) lptr = End 'l | Item 'i

type_synonym tick = "64 word"

abbreviation portMAX_DELAY :: tick where "portMAX_DELAY \<equiv> - 1"

record ('l, 'i) list_store =
  pxNext :: "('l, 'i) lptr \<Rightarrow> ('l, 'i) lptr"
  pxPrevious :: "('l, 'i) lptr \<Rightarrow> ('l, 'i) lptr"
  xItemValue :: "('l, 'i) lptr \<Rightarrow> tick"
  pxContainer :: "'i \<Rightarrow> 'l option"
  pxIndex :: "'l \<Rightarrow> ('l, 'i) lptr"
  uxNumberOfItems :: "'l \<Rightarrow> u32"

definition set_next :: "('l, 'i) lptr \<Rightarrow> ('l, 'i) lptr \<Rightarrow> ('l, 'i) list_store \<Rightarrow> ('l, 'i) list_store" where
  "set_next p q st = st\<lparr>pxNext := (pxNext st)(p := q)\<rparr>"

definition set_prev :: "('l, 'i) lptr \<Rightarrow> ('l, 'i) lptr \<Rightarrow> ('l, 'i) list_store \<Rightarrow> ('l, 'i) list_store" where
  "set_prev p q st = st\<lparr>pxPrevious := (pxPrevious st)(p := q)\<rparr>"

lemma set_next_simps [simp]:
  "pxNext (set_next p q st) = (pxNext st)(p := q)" "pxPrevious (set_next p q st) = pxPrevious st"
  "xItemValue (set_next p q st) = xItemValue st" "pxContainer (set_next p q st) = pxContainer st"
  "pxIndex (set_next p q st) = pxIndex st" "uxNumberOfItems (set_next p q st) = uxNumberOfItems st"
  by (simp_all add: set_next_def)

lemma set_prev_simps [simp]:
  "pxPrevious (set_prev p q st) = (pxPrevious st)(p := q)" "pxNext (set_prev p q st) = pxNext st"
  "xItemValue (set_prev p q st) = xItemValue st" "pxContainer (set_prev p q st) = pxContainer st"
  "pxIndex (set_prev p q st) = pxIndex st" "uxNumberOfItems (set_prev p q st) = uxNumberOfItems st"
  by (simp_all add: set_prev_def)

section \<open>Operations\<close>

definition vListInitialise :: "'l \<Rightarrow> ('l, 'i) list_store \<Rightarrow> ('l, 'i) list_store" where
  "vListInitialise l st = st\<lparr>
     pxIndex := (pxIndex st)(l := End l),
     xItemValue := (xItemValue st)(End l := portMAX_DELAY),
     pxNext := (pxNext st)(End l := End l),
     pxPrevious := (pxPrevious st)(End l := End l),
     uxNumberOfItems := (uxNumberOfItems st)(l := 0)\<rparr>"

definition vListInitialiseItem :: "'i \<Rightarrow> ('l, 'i) list_store \<Rightarrow> ('l, 'i) list_store" where
  "vListInitialiseItem i st = st\<lparr>pxContainer := (pxContainer st)(i := None)\<rparr>"

definition join :: "'l \<Rightarrow> 'i \<Rightarrow> ('l, 'i) list_store \<Rightarrow> ('l, 'i) list_store" where
  "join l i st = st\<lparr>pxContainer := (pxContainer st)(i := Some l),
     uxNumberOfItems := (uxNumberOfItems st)(l := uxNumberOfItems st l + 1)\<rparr>"

definition vListInsertEnd :: "'l \<Rightarrow> 'i \<Rightarrow> ('l, 'i) list_store \<Rightarrow> ('l, 'i) list_store" where
  "vListInsertEnd l i st =
     (let ix = pxIndex st l;
          st = set_next (Item i) ix st;
          st = set_prev (Item i) (pxPrevious st ix) st;
          st = set_next (pxPrevious st ix) (Item i) st;
          st = set_prev ix (Item i) st
      in join l i st)"

text \<open>The search loop of \<open>vListInsert\<close>; a walk that does not end is \<open>None\<close>.\<close>

partial_function (option) insert_walk :: "('l, 'i) list_store \<Rightarrow> tick \<Rightarrow> ('l, 'i) lptr \<Rightarrow> ('l, 'i) lptr option" where
  "insert_walk st v it = (if xItemValue st (pxNext st it) \<le> v then insert_walk st v (pxNext st it) else Some it)"

definition vListInsert :: "'l \<Rightarrow> 'i \<Rightarrow> ('l, 'i) list_store \<Rightarrow> ('l, 'i) list_store option" where
  "vListInsert l i st =
     (let v = xItemValue st (Item i) in do {
        it \<leftarrow> if v = portMAX_DELAY then Some (pxPrevious st (End l)) else insert_walk st v (End l);
        let st = set_next (Item i) (pxNext st it) st;
        let st = set_prev (pxNext st (Item i)) (Item i) st;
        let st = set_prev (Item i) it st;
        let st = set_next it (Item i) st;
        Some (join l i st)
      })"

text \<open>\<open>uxListRemove\<close>; an item that is in no list dereferences a null pointer.\<close>

definition uxListRemove :: "'i \<Rightarrow> ('l, 'i) list_store \<Rightarrow> (u32 \<times> ('l, 'i) list_store) option" where
  "uxListRemove i st = do {
     l \<leftarrow> pxContainer st i;
     let st = set_prev (pxNext st (Item i)) (pxPrevious st (Item i)) st;
     let st = set_next (pxPrevious st (Item i)) (pxNext st (Item i)) st;
     let st = (if pxIndex st l = Item i then st\<lparr>pxIndex := (pxIndex st)(l := pxPrevious st (Item i))\<rparr> else st);
     let st = st\<lparr>pxContainer := (pxContainer st)(i := None),
       uxNumberOfItems := (uxNumberOfItems st)(l := uxNumberOfItems st l - 1)\<rparr>;
     Some (uxNumberOfItems st l, st)
   }"

definition listGET_OWNER_OF_NEXT_ENTRY :: "'l \<Rightarrow> ('l, 'i) list_store \<Rightarrow> ('l, 'i) lptr \<times> ('l, 'i) list_store" where
  "listGET_OWNER_OF_NEXT_ENTRY l st =
     (let st = st\<lparr>pxIndex := (pxIndex st)(l := pxNext st (pxIndex st l))\<rparr>;
          st = (if pxIndex st l = End l then st\<lparr>pxIndex := (pxIndex st)(l := pxNext st (End l))\<rparr> else st)
      in (pxIndex st l, st))"

section \<open>Doubly linked paths\<close>

fun dpath :: "('l, 'i) list_store \<Rightarrow> ('l, 'i) lptr \<Rightarrow> ('l, 'i) lptr list \<Rightarrow> ('l, 'i) lptr \<Rightarrow> bool" where
  "dpath st p [] q \<longleftrightarrow> pxNext st p = q \<and> pxPrevious st q = p"
| "dpath st p (x # xs) q \<longleftrightarrow> pxNext st p = x \<and> pxPrevious st x = p \<and> dpath st x xs q"

lemma dpath_append:
  "dpath st p (xs @ y # ys) q \<longleftrightarrow> dpath st p xs y \<and> dpath st y ys q"
  by (induction xs arbitrary: p) auto

lemma dpath_frame:
  "dpath st p xs q \<Longrightarrow> (\<And>x. x \<in> insert p (set xs) \<Longrightarrow> pxNext st' x = pxNext st x) \<Longrightarrow>
   (\<And>x. x \<in> insert q (set xs) \<Longrightarrow> pxPrevious st' x = pxPrevious st x) \<Longrightarrow> dpath st' p xs q"
  by (induction xs arbitrary: p) auto

lemma dpath_next_cong:
  "pxNext st' = pxNext st \<Longrightarrow> pxPrevious st' = pxPrevious st \<Longrightarrow> dpath st' p xs q = dpath st p xs q"
  by (induction xs arbitrary: p) auto

lemma dpath_first: "dpath st p xs q \<Longrightarrow> pxNext st p = (case xs of [] \<Rightarrow> q | x # _ \<Rightarrow> x)"
  by (cases xs) auto

lemma dpath_last: "dpath st p xs q \<Longrightarrow> pxPrevious st q = (if xs = [] then p else last xs)"
  by (induction xs arbitrary: p) auto

text \<open>Linking a fresh node in before \<open>q\<close>: the four assignments, on any path that ends at \<open>q\<close>.\<close>

definition linked :: "('l, 'i) list_store \<Rightarrow> ('l, 'i) lptr \<Rightarrow> ('l, 'i) lptr \<Rightarrow> ('l, 'i) lptr \<Rightarrow> ('l, 'i) list_store \<Rightarrow> bool" where
  "linked st a n b st' \<longleftrightarrow> pxNext st' = (pxNext st)(n := b, a := n) \<and> pxPrevious st' = (pxPrevious st)(n := a, b := n)"

lemma dpath_link:
  assumes "dpath st p xs a" and "dpath st a ys q" and "ys = [] \<longrightarrow> b = q" and "ys \<noteq> [] \<longrightarrow> b = hd ys"
    and "n \<notin> {p, a, q} \<union> set xs \<union> set ys" and "distinct (xs @ a # ys)" and "p \<notin> set (xs @ a # ys)"
    and "q \<notin> set (xs @ a # ys)" and "linked st a n b st'"
  shows "dpath st' p (xs @ a # n # ys) q"
proof -
  have "dpath st' p xs a"
    by (rule dpath_frame [OF assms(1)]) (use assms(3-) in \<open>auto simp: linked_def\<close>)
  moreover have "dpath st' a (n # ys) q"
  proof (cases ys)
    case Nil
    with assms show ?thesis by (auto simp: linked_def)
  next
    case (Cons y zs)
    have "dpath st' y zs q"
      by (rule dpath_frame [of st]) (use assms Cons in \<open>auto simp: linked_def\<close>)
    with assms Cons show ?thesis by (auto simp: linked_def)
  qed
  ultimately show ?thesis by (simp add: dpath_append)
qed

text \<open>The same when the node before the new one is the start of the path.\<close>

lemma dpath_link_first:
  assumes "dpath st p ys q" and "ys = [] \<longrightarrow> b = q" and "ys \<noteq> [] \<longrightarrow> b = hd ys"
    and "n \<notin> {p, q} \<union> set ys" and "distinct ys" and "p \<notin> set ys" and "q \<notin> set ys"
    and "linked st p n b st'"
  shows "dpath st' p (n # ys) q"
proof (cases ys)
  case Nil
  with assms show ?thesis by (auto simp: linked_def)
next
  case (Cons y zs)
  have "dpath st' y zs q"
    by (rule dpath_frame [of st]) (use assms Cons in \<open>auto simp: linked_def\<close>)
  with assms Cons show ?thesis by (auto simp: linked_def)
qed

text \<open>Unlinking an inner node.\<close>

lemma dpath_unlink:
  assumes "dpath st p (xs @ n # ys) q" and "distinct (xs @ n # ys)" and "p \<notin> set (xs @ n # ys)"
    and "q \<notin> set (xs @ n # ys)"
    and "pxNext st' = (pxNext st)(pxPrevious st n := pxNext st n)"
    and "pxPrevious st' = (pxPrevious st)(pxNext st n := pxPrevious st n)"
  shows "dpath st' p (xs @ ys) q"
proof -
  have xs: "dpath st p xs n" and ys: "dpath st n ys q" using assms(1) by (simp_all add: dpath_append)
  have pn: "pxPrevious st n = (if xs = [] then p else last xs)" using dpath_last [OF xs] .
  have nn: "pxNext st n = (case ys of [] \<Rightarrow> q | y # _ \<Rightarrow> y)" using dpath_first [OF ys] .
  have tail: "dpath st' a ys q" if "a = pxPrevious st n" for a
  proof (cases ys)
    case Nil
    with that nn assms(5,6) show ?thesis by simp
  next
    case (Cons y zs)
    have "dpath st' y zs q"
      by (rule dpath_frame [of st]) (use ys Cons assms pn nn in \<open>auto split: if_splits dest: last_in_set\<close>)
    with Cons that nn assms(5,6) show ?thesis by simp
  qed
  show ?thesis
  proof (cases xs rule: rev_cases)
    case Nil
    with tail [of p] pn show ?thesis by simp
  next
    case (snoc zs a)
    have "dpath st p zs a" using xs snoc by (simp add: dpath_append)
    then have "dpath st' p zs a"
      by (rule dpath_frame) (use snoc assms pn nn in \<open>auto split: list.splits\<close>)
    with tail [of a] pn snoc show ?thesis by (simp add: dpath_append)
  qed
qed

section \<open>Well-formed lists\<close>

definition list_ok :: "('l, 'i) list_store \<Rightarrow> 'l \<Rightarrow> 'i list \<Rightarrow> bool" where
  "list_ok st l xs \<longleftrightarrow> dpath st (End l) (map Item xs) (End l) \<and> distinct xs
     \<and> (\<forall>i. pxContainer st i = Some l \<longleftrightarrow> i \<in> set xs) \<and> uxNumberOfItems st l = of_nat (length xs)
     \<and> (pxIndex st l = End l \<or> pxIndex st l \<in> Item ` set xs) \<and> xItemValue st (End l) = portMAX_DELAY"

lemma list_ok_mem: "list_ok st l xs \<Longrightarrow> i \<in> set xs \<longleftrightarrow> pxContainer st i = Some l"
  by (simp add: list_ok_def)

text \<open>The node before and the node after the gap between \<open>ys\<close> and \<open>zs\<close>.\<close>

definition gap_prev :: "'l \<Rightarrow> 'i list \<Rightarrow> ('l, 'i) lptr" where
  "gap_prev l ys = (if ys = [] then End l else Item (last ys))"

definition gap_next :: "'l \<Rightarrow> 'i list \<Rightarrow> ('l, 'i) lptr" where
  "gap_next l zs = (if zs = [] then End l else Item (hd zs))"

lemma list_ok_gap:
  assumes "list_ok st l (ys @ zs)"
  shows "pxNext st (gap_prev l ys) = gap_next l zs" and "pxPrevious st (gap_next l zs) = gap_prev l ys"
proof -
  have p: "dpath st (End l) (map Item (ys @ zs)) (End l)" using assms by (simp add: list_ok_def)
  have "dpath st (gap_prev l ys) (map Item zs) (End l) \<and> pxPrevious st (gap_next l zs) = gap_prev l ys"
  proof (cases ys rule: rev_cases)
    case Nil
    with p show ?thesis
      by (cases zs) (auto simp: gap_prev_def gap_next_def)
  next
    case (snoc ws a)
    with p have "dpath st (Item a) (map Item zs) (End l)" by (simp add: dpath_append)
    with snoc show ?thesis by (cases zs) (auto simp: gap_prev_def gap_next_def)
  qed
  then show "pxNext st (gap_prev l ys) = gap_next l zs" "pxPrevious st (gap_next l zs) = gap_prev l ys"
    by (cases zs; auto simp: gap_next_def)+
qed

lemma ring_link:
  assumes "list_ok st l (ys @ zs)" and "i \<notin> set (ys @ zs)"
    and "linked st (gap_prev l ys) (Item i) (gap_next l zs) st'"
  shows "dpath st' (End l) (map Item (ys @ i # zs)) (End l)"
proof -
  have p: "dpath st (End l) (map Item (ys @ zs)) (End l)" and d: "distinct (ys @ zs)"
    using assms(1) by (simp_all add: list_ok_def)
  have inj: "distinct (map Item ws) \<longleftrightarrow> distinct ws" for ws
    by (simp add: distinct_map inj_on_def)
  have b: "map Item zs = [] \<longrightarrow> gap_next l zs = End l" "map Item zs \<noteq> [] \<longrightarrow> gap_next l zs = hd (map Item zs)"
    by (simp_all add: gap_next_def hd_map)
  show ?thesis
  proof (cases ys rule: rev_cases)
    case Nil
    have "dpath st' (End l) (Item i # map Item zs) (End l)"
      by (rule dpath_link_first [OF _ b]) (use assms(2,3) p d inj [of zs] Nil in \<open>auto simp: gap_prev_def\<close>)
    with Nil show ?thesis by simp
  next
    case (snoc ws a)
    have "dpath st' (End l) (map Item ws @ Item a # Item i # map Item zs) (End l)"
    proof (rule dpath_link [OF _ _ b])
      show "dpath st (End l) (map Item ws) (Item a)" "dpath st (Item a) (map Item zs) (End l)"
        using p snoc by (simp_all add: dpath_append)
      show "distinct (map Item ws @ Item a # map Item zs)"
        using d snoc inj [of "ws @ a # zs"] by simp
      show "linked st (Item a) (Item i) (gap_next l zs) st'"
        using assms(3) snoc by (simp add: gap_prev_def)
    qed (use assms(2) snoc in auto)
    with snoc show ?thesis by simp
  qed
qed

text \<open>Inserting a free item at a gap of a list, with the bookkeeping of both insertions.\<close>

definition inserted :: "('l, 'i) list_store \<Rightarrow> 'l \<Rightarrow> 'i list \<Rightarrow> 'i \<Rightarrow> 'i list \<Rightarrow> ('l, 'i) list_store \<Rightarrow> bool" where
  "inserted st l ys i zs st' \<longleftrightarrow> linked st (gap_prev l ys) (Item i) (gap_next l zs) st'
     \<and> xItemValue st' = xItemValue st \<and> pxContainer st' = (pxContainer st)(i := Some l)
     \<and> pxIndex st' = pxIndex st \<and> uxNumberOfItems st' = (uxNumberOfItems st)(l := uxNumberOfItems st l + 1)"

lemma inserted_list_ok:
  assumes "list_ok st l (ys @ zs)" and "pxContainer st i = None" and "inserted st l ys i zs st'"
  shows "list_ok st' l (ys @ i # zs)"
proof -
  have "i \<notin> set (ys @ zs)" using list_ok_mem [OF assms(1), of i] assms(2) by simp
  moreover have "linked st (gap_prev l ys) (Item i) (gap_next l zs) st'"
    using assms(3) by (simp add: inserted_def)
  ultimately have "dpath st' (End l) (map Item (ys @ i # zs)) (End l)"
    using ring_link [OF assms(1)] by blast
  with assms \<open>i \<notin> _\<close> show ?thesis by (auto simp: list_ok_def inserted_def)
qed

text \<open>Every other list is left alone.\<close>

lemma inserted_frame:
  assumes "list_ok st l (ys @ zs)" and "pxContainer st i = None" and "inserted st l ys i zs st'"
    and "m \<noteq> l" and "list_ok st m ws"
  shows "list_ok st' m ws"
proof -
  have "i \<notin> set ws" using list_ok_mem [OF assms(5), of i] assms(2) by simp
  moreover have "j \<notin> set ws" if "j \<in> set (ys @ zs)" for j
    using that list_ok_mem [OF assms(1), of j] list_ok_mem [OF assms(5), of j] assms(4) by simp
  ultimately have ne: "x \<noteq> gap_prev l ys \<and> x \<noteq> gap_next l zs \<and> x \<noteq> Item i"
    if "x \<in> insert (End m) (set (map Item ws))" for x
    using that assms(4) by (auto simp: gap_prev_def gap_next_def)
  have "dpath st (End m) (map Item ws) (End m)" using assms(5) by (simp add: list_ok_def)
  then have "dpath st' (End m) (map Item ws) (End m)"
    by (rule dpath_frame) (use assms(3) ne in \<open>auto simp: inserted_def linked_def\<close>)
  with assms \<open>i \<notin> set ws\<close> show ?thesis by (auto simp: list_ok_def inserted_def)
qed

lemma gap_distinct:
  assumes "list_ok st l (ys @ zs)" and "pxContainer st i = None"
  shows "gap_prev l ys \<noteq> Item i" and "gap_next l zs \<noteq> Item i"
  using list_ok_mem [OF assms(1), of i] assms(2) by (auto simp: gap_prev_def gap_next_def)

section \<open>Insertion before the index\<close>

definition index_split :: "('l, 'i) lptr \<Rightarrow> 'i list \<Rightarrow> 'i list \<times> 'i list" where
  "index_split ix xs = (case ix of End _ \<Rightarrow> (xs, []) | Item k \<Rightarrow> (takeWhile (\<lambda>j. j \<noteq> k) xs, dropWhile (\<lambda>j. j \<noteq> k) xs))"

lemma index_split_append: "fst (index_split ix xs) @ snd (index_split ix xs) = xs"
  by (simp add: index_split_def split: lptr.split)

lemma index_split_gap:
  "list_ok st l xs \<Longrightarrow> gap_next l (snd (index_split (pxIndex st l) xs)) = pxIndex st l"
proof -
  assume ok: "list_ok st l xs"
  have "hd (dropWhile (\<lambda>j. j \<noteq> k) xs) = k \<and> dropWhile (\<lambda>j. j \<noteq> k) xs \<noteq> []" if "k \<in> set xs" for k
    using that by (induction xs) auto
  then show ?thesis
    using ok by (auto simp: list_ok_def index_split_def gap_next_def split: lptr.splits)
qed

lemma vListInsertEnd_inserted:
  assumes "list_ok st l xs" and "pxContainer st i = None" and "(ys, zs) = index_split (pxIndex st l) xs"
  shows "inserted st l ys i zs (vListInsertEnd l i st)"
proof -
  have xs: "xs = ys @ zs" using index_split_append [of "pxIndex st l" xs] assms(3) by (metis fst_conv snd_conv)
  have ix: "pxIndex st l = gap_next l zs" using index_split_gap [OF assms(1)] assms(3) by (metis snd_conv)
  note ok = assms(1) [unfolded xs]
  have "linked st (gap_prev l ys) (Item i) (gap_next l zs) (vListInsertEnd l i st)"
    using gap_distinct [OF ok assms(2)] list_ok_gap [OF ok]
    by (auto simp: vListInsertEnd_def Let_def ix linked_def join_def)
  then show ?thesis
    by (simp add: inserted_def) (simp add: vListInsertEnd_def Let_def join_def)
qed

section \<open>Sorted insertion\<close>

text \<open>Where the search stops: after every item whose value is at most \<open>v\<close>, when the list is sorted.\<close>

definition value_of :: "('l, 'i) list_store \<Rightarrow> 'i \<Rightarrow> tick" where
  "value_of st i = xItemValue st (Item i)"

definition list_sorted :: "('l, 'i) list_store \<Rightarrow> 'i list \<Rightarrow> bool" where
  "list_sorted st xs \<longleftrightarrow> sorted (map (value_of st) xs)"

definition up_to :: "('l, 'i) list_store \<Rightarrow> tick \<Rightarrow> 'i list \<Rightarrow> 'i list \<times> 'i list" where
  "up_to st v xs = (takeWhile (\<lambda>j. value_of st j \<le> v) xs, dropWhile (\<lambda>j. value_of st j \<le> v) xs)"

lemma not_max_le: "v \<noteq> portMAX_DELAY \<Longrightarrow> \<not> portMAX_DELAY \<le> v"
  by (auto dest: word_order.extremum_uniqueI)

lemma insert_walk_path:
  assumes "dpath st p (map Item xs) (End l)" and "xItemValue st (End l) = portMAX_DELAY"
    and "v \<noteq> portMAX_DELAY"
  shows "insert_walk st v p
    = Some (if takeWhile (\<lambda>j. value_of st j \<le> v) xs = [] then p
            else Item (last (takeWhile (\<lambda>j. value_of st j \<le> v) xs)))"
  using assms(1)
proof (induction xs arbitrary: p)
  case Nil
  then show ?case
    using assms(2) not_max_le [OF assms(3)] by (simp add: insert_walk.simps)
next
  case (Cons x xs)
  then show ?case
    by (subst insert_walk.simps) (auto simp: value_of_def)
qed

lemma insert_walk_ok:
  assumes "list_ok st l xs" and "v \<noteq> portMAX_DELAY"
  shows "insert_walk st v (End l) = Some (gap_prev l (fst (up_to st v xs)))"
  using insert_walk_path [of st "End l" xs l v] assms by (simp add: list_ok_def gap_prev_def up_to_def)

text \<open>The position \<open>vListInsert\<close> chooses.\<close>

definition insert_split :: "('l, 'i) list_store \<Rightarrow> 'i \<Rightarrow> 'i list \<Rightarrow> 'i list \<times> 'i list" where
  "insert_split st i xs = (if value_of st i = portMAX_DELAY then (xs, []) else up_to st (value_of st i) xs)"

lemma insert_split_append: "fst (insert_split st i xs) @ snd (insert_split st i xs) = xs"
  by (simp add: insert_split_def up_to_def)

lemma vListInsert_inserted:
  assumes "list_ok st l xs" and "pxContainer st i = None" and "(ys, zs) = insert_split st i xs"
  shows "\<exists>st'. vListInsert l i st = Some st' \<and> inserted st l ys i zs st'"
proof -
  have xs: "xs = ys @ zs" using insert_split_append [of st i xs] assms(3) by (metis fst_conv snd_conv)
  note ok = assms(1) [unfolded xs]
  have "(if xItemValue st (Item i) = portMAX_DELAY then Some (pxPrevious st (End l))
      else insert_walk st (xItemValue st (Item i)) (End l)) = Some (gap_prev l ys)"
    using insert_walk_ok [OF assms(1), of "value_of st i"] assms(3) list_ok_gap(2) [OF ok]
    by (auto simp: insert_split_def value_of_def gap_next_def split: if_splits dest: arg_cong [where f = fst])
  then have "vListInsert l i st = Some (join l i (set_next (gap_prev l ys) (Item i)
      (set_prev (Item i) (gap_prev l ys) (set_prev (gap_next l zs) (Item i) (set_next (Item i) (gap_next l zs) st)))))"
    using gap_distinct [OF ok assms(2)] list_ok_gap [OF ok]
    by (simp add: vListInsert_def Let_def)
  moreover have "inserted st l ys i zs (join l i (set_next (gap_prev l ys) (Item i)
      (set_prev (Item i) (gap_prev l ys) (set_prev (gap_next l zs) (Item i) (set_next (Item i) (gap_next l zs) st)))))"
    using gap_distinct [OF ok assms(2)]
    by (auto simp: inserted_def linked_def join_def)
  ultimately show ?thesis by blast
qed

lemma sorted_split_insert:
  assumes "list_sorted st xs" and "(ys, zs) = insert_split st i xs"
  shows "list_sorted st (ys @ i # zs)"
proof (cases "value_of st i = portMAX_DELAY")
  case True
  with assms show ?thesis
    by (auto simp: insert_split_def list_sorted_def sorted_append)
next
  case False
  have "value_of st i < value_of st (hd zs)" if "zs \<noteq> []"
    using that assms(2) False hd_dropWhile [of "\<lambda>j. value_of st j \<le> value_of st i" xs]
    by (simp add: insert_split_def up_to_def not_le)
  moreover have "sorted (map (value_of st) (ys @ zs))"
    using assms insert_split_append [of st i xs] by (metis list_sorted_def fst_conv snd_conv)
  moreover have "\<forall>j \<in> set ys. value_of st j \<le> value_of st i"
    using assms(2) False by (auto simp: insert_split_def up_to_def dest: set_takeWhileD)
  ultimately show ?thesis
    by (cases zs) (auto simp: list_sorted_def sorted_append intro: less_imp_le order_trans)
qed

section \<open>Removal\<close>

lemma list_ok_items:
  assumes "list_ok st l (ys @ i # zs)"
  shows "pxPrevious st (Item i) = gap_prev l ys" and "pxNext st (Item i) = gap_next l zs"
  using list_ok_gap(2) [of st l ys "i # zs"] list_ok_gap(1) [of st l "ys @ [i]" zs] assms
  by (simp_all add: gap_prev_def gap_next_def)

definition removed :: "('l, 'i) list_store \<Rightarrow> 'l \<Rightarrow> 'i list \<Rightarrow> 'i \<Rightarrow> 'i list \<Rightarrow> ('l, 'i) list_store \<Rightarrow> bool" where
  "removed st l ys i zs st' \<longleftrightarrow>
     pxNext st' = (pxNext st)(gap_prev l ys := gap_next l zs)
     \<and> pxPrevious st' = (pxPrevious st)(gap_next l zs := gap_prev l ys)
     \<and> xItemValue st' = xItemValue st \<and> pxContainer st' = (pxContainer st)(i := None)
     \<and> pxIndex st' = (if pxIndex st l = Item i then (pxIndex st)(l := gap_prev l ys) else pxIndex st)
     \<and> uxNumberOfItems st' = (uxNumberOfItems st)(l := of_nat (length (ys @ zs)))"

lemma uxListRemove_removed:
  assumes "list_ok st l (ys @ i # zs)"
  shows "\<exists>st'. uxListRemove i st = Some (of_nat (length (ys @ zs)), st') \<and> removed st l ys i zs st'"
proof -
  have c: "pxContainer st i = Some l" using list_ok_mem [OF assms, of i] by simp
  have n: "uxNumberOfItems st l - 1 = of_nat (length (ys @ zs))"
    using assms by (simp add: list_ok_def)
  have "gap_next l zs \<noteq> Item i" "gap_prev l ys \<noteq> Item i"
    using assms by (auto simp: list_ok_def gap_next_def gap_prev_def)
  then show ?thesis
    using list_ok_items [OF assms] n
    by (auto simp: uxListRemove_def removed_def c Let_def)
qed

lemma removed_list_ok:
  assumes "list_ok st l (ys @ i # zs)" and "removed st l ys i zs st'"
  shows "list_ok st' l (ys @ zs)"
proof -
  have p: "dpath st (End l) (map Item ys @ Item i # map Item zs) (End l)" and d: "distinct (ys @ i # zs)"
    using assms(1) by (simp_all add: list_ok_def)
  have "distinct (map Item ys @ Item i # map Item zs)"
    using d distinct_map [of Item "ys @ i # zs"] by (simp add: inj_on_def)
  then have "dpath st' (End l) (map Item ys @ map Item zs) (End l)"
    by (rule dpath_unlink [OF p]) (use assms(2) list_ok_items [OF assms(1)] in \<open>auto simp: removed_def\<close>)
  moreover have "pxIndex st' l = End l \<or> pxIndex st' l \<in> Item ` set (ys @ zs)"
    using assms by (auto simp: list_ok_def removed_def gap_prev_def)
  moreover have "\<forall>j. pxContainer st' j = Some l \<longleftrightarrow> j \<in> set (ys @ zs)"
    using list_ok_mem [OF assms(1)] assms(2) d by (auto simp: removed_def)
  ultimately show ?thesis
    using assms d by (simp add: list_ok_def removed_def)
qed

lemma removed_frame:
  assumes "list_ok st l (ys @ i # zs)" and "removed st l ys i zs st'" and "m \<noteq> l" and "list_ok st m ws"
  shows "list_ok st' m ws"
proof -
  have out: "j \<notin> set ws" if "j \<in> set (ys @ i # zs)" for j
    using that list_ok_mem [OF assms(1), of j] list_ok_mem [OF assms(4), of j] assms(3) by simp
  then have ne: "x \<noteq> gap_prev l ys \<and> x \<noteq> gap_next l zs" if "x \<in> insert (End m) (set (map Item ws))" for x
    using that assms(3) by (auto simp: gap_prev_def gap_next_def)
  have "dpath st (End m) (map Item ws) (End m)" using assms(4) by (simp add: list_ok_def)
  then have "dpath st' (End m) (map Item ws) (End m)"
    by (rule dpath_frame) (use assms(2) ne in \<open>auto simp: removed_def\<close>)
  with assms out [of i] show ?thesis by (auto simp: list_ok_def removed_def)
qed

section \<open>Going round the list\<close>

lemma next_entry_step:
  assumes "list_ok st l (ys @ z # zs)" and "pxIndex st l = gap_prev l ys"
  shows "\<exists>st'. listGET_OWNER_OF_NEXT_ENTRY l st = (Item z, st') \<and> list_ok st' l (ys @ z # zs)
    \<and> pxIndex st' l = gap_prev l (ys @ [z])"
proof -
  have "pxNext st (gap_prev l ys) = Item z"
    using list_ok_gap(1) [OF assms(1)] by (simp add: gap_next_def)
  then have "listGET_OWNER_OF_NEXT_ENTRY l st = (Item z, st\<lparr>pxIndex := (pxIndex st)(l := Item z)\<rparr>)"
    by (simp add: listGET_OWNER_OF_NEXT_ENTRY_def Let_def assms(2))
  moreover have "list_ok (st\<lparr>pxIndex := (pxIndex st)(l := Item z)\<rparr>) l (ys @ z # zs)"
    using assms(1) dpath_next_cong [of "st\<lparr>pxIndex := (pxIndex st)(l := Item z)\<rparr>" st]
    by (simp add: list_ok_def)
  ultimately show ?thesis by (simp add: gap_prev_def)
qed

text \<open>At the end of the list the marker is skipped.\<close>

lemma next_entry_wrap:
  assumes "list_ok st l (x # xs)" and "pxIndex st l = gap_prev l (x # xs)"
  shows "\<exists>st'. listGET_OWNER_OF_NEXT_ENTRY l st = (Item x, st') \<and> list_ok st' l (x # xs)
    \<and> pxIndex st' l = gap_prev l [x]"
proof -
  have "pxNext st (gap_prev l (x # xs)) = End l" "pxNext st (End l) = Item x"
    using list_ok_gap(1) [of st l "x # xs" "[]"] list_ok_gap(1) [of st l "[]" "x # xs"] assms(1)
    by (simp_all add: gap_next_def gap_prev_def)
  then have "listGET_OWNER_OF_NEXT_ENTRY l st = (Item x, st\<lparr>pxIndex := (pxIndex st)(l := Item x)\<rparr>)"
    by (simp add: listGET_OWNER_OF_NEXT_ENTRY_def Let_def assms(2))
  moreover have "list_ok (st\<lparr>pxIndex := (pxIndex st)(l := Item x)\<rparr>) l (x # xs)"
    using assms(1) dpath_next_cong [of "st\<lparr>pxIndex := (pxIndex st)(l := Item x)\<rparr>" st]
    by (simp add: list_ok_def)
  ultimately show ?thesis by (simp add: gap_prev_def)
qed

fun next_entries :: "nat \<Rightarrow> 'l \<Rightarrow> ('l, 'i) list_store \<Rightarrow> ('l, 'i) lptr list \<times> ('l, 'i) list_store" where
  "next_entries 0 l st = ([], st)"
| "next_entries (Suc n) l st =
     (let (p, st) = listGET_OWNER_OF_NEXT_ENTRY l st; (ps, st) = next_entries n l st in (p # ps, st))"

lemma next_entries_add:
  "next_entries (m + n) l st =
    (let (ps, st) = next_entries m l st; (qs, st) = next_entries n l st in (ps @ qs, st))"
  by (induction m arbitrary: st) (auto simp: case_prod_beta Let_def)

lemma next_entries_path:
  assumes "list_ok st l (ys @ zs @ ws)" and "pxIndex st l = gap_prev l ys"
  shows "\<exists>st'. next_entries (length zs) l st = (map Item zs, st') \<and> list_ok st' l (ys @ zs @ ws)
    \<and> pxIndex st' l = gap_prev l (ys @ zs)"
  using assms
proof (induction zs arbitrary: ys st)
  case (Cons z zs)
  obtain st1 where 1: "listGET_OWNER_OF_NEXT_ENTRY l st = (Item z, st1)"
      "list_ok st1 l (ys @ z # zs @ ws)" "pxIndex st1 l = gap_prev l (ys @ [z])"
    using next_entry_step [of st l ys z "zs @ ws"] Cons.prems by auto
  with Cons.IH [of st1 "ys @ [z]"] show ?case by auto
qed simp

lemma next_entries_from_end:
  assumes "list_ok st l (zs @ ws)" and "pxIndex st l = gap_prev l (zs @ ws)"
  shows "\<exists>st'. next_entries (length zs) l st = (map Item zs, st') \<and> list_ok st' l (zs @ ws)"
proof (cases zs)
  case Nil
  with assms show ?thesis by simp
next
  case (Cons z zs')
  obtain st1 where 1: "listGET_OWNER_OF_NEXT_ENTRY l st = (Item z, st1)"
      "list_ok st1 l (z # zs' @ ws)" "pxIndex st1 l = gap_prev l [z]"
    using next_entry_wrap [of st l z "zs' @ ws"] assms Cons by auto
  obtain st2 where "next_entries (length zs') l st1 = (map Item zs', st2)" "list_ok st2 l ([z] @ zs' @ ws)"
    using next_entries_path [of st1 l "[z]" zs' ws] 1 by auto
  with 1 Cons show ?thesis by simp
qed

section \<open>Properties\<close>

text \<open>
  \<open>vListInsert\<close> terminates and implements stable sorted insertion: a free item goes into a
  sorted list after every item with a smaller or equal value and before every item with a larger
  one, the list stays sorted and well formed, and every other list keeps its contents. (An item
  with the largest value goes to the end.)
\<close>
theorem vListInsert_sorted_insertion:
  assumes "list_ok st l xs" and "list_sorted st xs" and "pxContainer st i = None"
  shows "\<exists>ys zs st'. vListInsert l i st = Some st' \<and> xs = ys @ zs \<and> list_ok st' l (ys @ i # zs)
    \<and> list_sorted st' (ys @ i # zs) \<and> (\<forall>j \<in> set ys. value_of st j \<le> value_of st i)
    \<and> (value_of st i \<noteq> portMAX_DELAY \<longrightarrow> (\<forall>j \<in> set zs. value_of st i < value_of st j))
    \<and> (value_of st i = portMAX_DELAY \<longrightarrow> zs = [])
    \<and> (\<forall>m ws. m \<noteq> l \<longrightarrow> list_ok st m ws \<longrightarrow> list_ok st' m ws)"
proof -
  obtain ys zs where sp: "(ys, zs) = insert_split st i xs" by (metis surj_pair)
  then have xs: "xs = ys @ zs" using insert_split_append [of st i xs] by (metis fst_conv snd_conv)
  obtain st' where st': "vListInsert l i st = Some st'" "inserted st l ys i zs st'"
    using vListInsert_inserted [OF assms(1,3) sp] by blast
  have srt: "list_sorted st (ys @ i # zs)" by (rule sorted_split_insert [OF assms(2) sp])
  have vals: "value_of st' = value_of st" using st'(2) by (simp add: inserted_def value_of_def fun_eq_iff)
  have "value_of st i < value_of st j" if "value_of st i \<noteq> portMAX_DELAY" "j \<in> set zs" for j
  proof -
    have "zs \<noteq> []" using that by auto
    then have "value_of st i < value_of st (hd zs)"
      using sp that(1) hd_dropWhile [of "\<lambda>j. value_of st j \<le> value_of st i" xs]
      by (simp add: insert_split_def up_to_def not_le)
    moreover have "value_of st (hd zs) \<le> value_of st j"
      using srt that(2) by (cases zs) (auto simp: list_sorted_def sorted_append)
    ultimately show ?thesis by simp
  qed
  moreover have "\<forall>j \<in> set ys. value_of st j \<le> value_of st i"
    using srt by (auto simp: list_sorted_def sorted_append)
  moreover have "value_of st i = portMAX_DELAY \<longrightarrow> zs = []"
    using sp by (auto simp: insert_split_def split: if_splits)
  moreover have "list_sorted st' (ys @ i # zs)" using srt vals by (simp add: list_sorted_def)
  ultimately show ?thesis
    using st' xs inserted_list_ok [OF assms(1) [unfolded xs] assms(3) st'(2)]
      inserted_frame [OF assms(1) [unfolded xs] assms(3) st'(2)] by blast
qed

text \<open>A concrete list: items 1 and 2 with values 10 and 20, and the free item 3 with value 10.\<close>

definition empty_store :: "(nat, nat) list_store" where
  "empty_store = \<lparr>pxNext = (\<lambda>p. p), pxPrevious = (\<lambda>p. p), xItemValue = (\<lambda>_. portMAX_DELAY),
     pxContainer = (\<lambda>_. None), pxIndex = End, uxNumberOfItems = (\<lambda>_. 0)\<rparr>"

definition sample_store :: "(nat, nat) list_store" where
  "sample_store = vListInsertEnd 0 2 (vListInsertEnd 0 1
     (empty_store\<lparr>xItemValue := (\<lambda>_. portMAX_DELAY)(Item 1 := 10, Item 2 := 20, Item 3 := 10)\<rparr>))"

lemma sample_store_ok: "list_ok sample_store 0 [1, 2]"
  by (auto simp: list_ok_def sample_store_def empty_store_def vListInsertEnd_def Let_def join_def
      split: if_splits)

lemma vListInsert_sorted_insertion_witness:
  "\<exists>ys zs st'. vListInsert 0 3 sample_store = Some st' \<and> [1, 2] = ys @ zs \<and> list_ok st' 0 (ys @ 3 # zs)
    \<and> list_sorted st' (ys @ 3 # zs) \<and> (\<forall>j \<in> set ys. value_of sample_store j \<le> value_of sample_store 3)
    \<and> (value_of sample_store 3 \<noteq> portMAX_DELAY \<longrightarrow> (\<forall>j \<in> set zs. value_of sample_store 3 < value_of sample_store j))
    \<and> (value_of sample_store 3 = portMAX_DELAY \<longrightarrow> zs = [])
    \<and> (\<forall>m ws. m \<noteq> 0 \<longrightarrow> list_ok sample_store m ws \<longrightarrow> list_ok st' m ws)"
  by (rule vListInsert_sorted_insertion [OF sample_store_ok])
    (simp_all add: list_sorted_def value_of_def sample_store_def empty_store_def vListInsertEnd_def Let_def join_def)

text \<open>
  \<open>uxListRemove\<close> takes exactly its item out, returns the number of items left, keeps the
  order of the others and the well-formedness of the list (its index moves back when it stood on
  the item), and leaves every other list alone.
\<close>
theorem uxListRemove_removes:
  assumes "list_ok st l (ys @ i # zs)"
  shows "\<exists>st'. uxListRemove i st = Some (of_nat (length (ys @ zs)), st') \<and> list_ok st' l (ys @ zs)
    \<and> pxContainer st' i = None \<and> (\<forall>m ws. m \<noteq> l \<longrightarrow> list_ok st m ws \<longrightarrow> list_ok st' m ws)"
proof -
  obtain st' where "uxListRemove i st = Some (of_nat (length (ys @ zs)), st')" "removed st l ys i zs st'"
    using uxListRemove_removed [OF assms] by blast
  with removed_list_ok [OF assms] removed_frame [OF assms] show ?thesis
    by (auto simp: removed_def)
qed

lemma uxListRemove_removes_witness:
  "\<exists>st'. uxListRemove 2 sample_store = Some (of_nat (length ([1 :: nat] @ [])), st') \<and> list_ok st' 0 ([1] @ [])
    \<and> pxContainer st' 2 = None \<and> (\<forall>m ws. m \<noteq> 0 \<longrightarrow> list_ok sample_store m ws \<longrightarrow> list_ok st' m ws)"
  by (rule uxListRemove_removes) (use sample_store_ok in simp)

text \<open>
  Round robin is fair. From any index, as many calls of
  \<open>listGET_OWNER_OF_NEXT_ENTRY\<close> as the list has items return every item exactly once, in the
  order of the list from the index on, and the list is unchanged.
\<close>
theorem next_entry_round_robin:
  assumes "list_ok st l xs" and "xs \<noteq> []"
  shows "\<exists>ys zs st'. xs = ys @ zs \<and> next_entries (length xs) l st = (map Item (zs @ ys), st') \<and> list_ok st' l xs"
proof -
  have "\<exists>ys zs. xs = ys @ zs \<and> pxIndex st l = gap_prev l ys"
  proof (cases "pxIndex st l = End l")
    case True
    then show ?thesis by (intro exI [of _ "[]"] exI [of _ xs]) (simp add: gap_prev_def)
  next
    case False
    then obtain k where k: "pxIndex st l = Item k" "k \<in> set xs" using assms(1) by (auto simp: list_ok_def)
    then obtain as bs where "xs = as @ k # bs" by (meson split_list)
    with k show ?thesis
      by (intro exI [of _ "as @ [k]"] exI [of _ bs]) (simp add: gap_prev_def)
  qed
  then obtain ys zs where yz: "xs = ys @ zs" "pxIndex st l = gap_prev l ys" by blast
  obtain st1 where 1: "next_entries (length zs) l st = (map Item zs, st1)" "list_ok st1 l (ys @ zs)"
      "pxIndex st1 l = gap_prev l (ys @ zs)"
    using next_entries_path [of st l ys zs "[]"] assms(1) yz by auto
  obtain st2 where 2: "next_entries (length ys) l st1 = (map Item ys, st2)" "list_ok st2 l (ys @ zs)"
    using next_entries_from_end [of st1 l ys zs] 1 by auto
  have "next_entries (length xs) l st = (map Item (zs @ ys), st2)"
    using 1(1) 2(1) next_entries_add [of "length zs" "length ys" l st] yz(1) by (simp add: add.commute)
  with yz(1) 2(2) show ?thesis by blast
qed

lemma next_entry_round_robin_witness:
  "\<exists>ys zs st'. [1, 2] = ys @ zs \<and> next_entries (length [1 :: nat, 2]) 0 sample_store = (map Item (zs @ ys), st')
    \<and> list_ok st' 0 [1, 2]"
  by (rule next_entry_round_robin [OF sample_store_ok]) simp

end
