(* ===== verification/Rtos_Xlist.thy ===== *)
theory Rtos_Xlist
  imports Rtos_List
begin

text \<open>
  Lists of the kernel as plain sequences with the position of \<open>pxIndex\<close>: what the pointer
  operations of \<open>list.c\<close> compute. The scheduler and the queues are modelled on these; the
  refinement below links them to the pointer operations.
\<close>

section \<open>Sequences with an index\<close>

text \<open>Index 0 is the end marker, index \<open>k + 1\<close> the item at position \<open>k\<close>.\<close>

record 'i xlist =
  xl_items :: "'i list"
  xl_idx :: nat

definition xl_empty :: "'i xlist" where
  "xl_empty = \<lparr>xl_items = [], xl_idx = 0\<rparr>"

definition xl_insert_end :: "'i \<Rightarrow> 'i xlist \<Rightarrow> 'i xlist" where
  "xl_insert_end i L =
     (if xl_idx L = 0 then L\<lparr>xl_items := xl_items L @ [i]\<rparr>
      else L\<lparr>xl_items := take (xl_idx L - 1) (xl_items L) @ i # drop (xl_idx L - 1) (xl_items L),
             xl_idx := Suc (xl_idx L)\<rparr>)"

text \<open>Sorted insertion by the values \<open>val\<close>, after equal values; the largest value goes last.\<close>

definition xl_split :: "('i \<Rightarrow> tick) \<Rightarrow> 'i \<Rightarrow> 'i list \<Rightarrow> 'i list \<times> 'i list" where
  "xl_split val i xs =
     (if val i = portMAX_DELAY then (xs, [])
      else (takeWhile (\<lambda>j. val j \<le> val i) xs, dropWhile (\<lambda>j. val j \<le> val i) xs))"

definition xl_insert :: "('i \<Rightarrow> tick) \<Rightarrow> 'i \<Rightarrow> 'i xlist \<Rightarrow> 'i xlist" where
  "xl_insert val i L =
     (let (ys, zs) = xl_split val i (xl_items L)
      in L\<lparr>xl_items := ys @ i # zs, xl_idx := (if length ys < xl_idx L then Suc (xl_idx L) else xl_idx L)\<rparr>)"

definition xl_remove :: "'i \<Rightarrow> 'i xlist \<Rightarrow> 'i xlist" where
  "xl_remove i L =
     L\<lparr>xl_items := remove1 i (xl_items L),
       xl_idx := (if length (takeWhile (\<lambda>j. j \<noteq> i) (xl_items L)) < xl_idx L then xl_idx L - 1 else xl_idx L)\<rparr>"

text \<open>The next entry; the marker of an empty list has no owner.\<close>

definition xl_next :: "'i xlist \<Rightarrow> ('i \<times> 'i xlist) option" where
  "xl_next L =
     (if xl_items L = [] then None
      else let k = (if xl_idx L < length (xl_items L) then Suc (xl_idx L) else 1)
           in Some (xl_items L ! (k - 1), L\<lparr>xl_idx := k\<rparr>))"

lemma xl_items_insert_end [simp]: "set (xl_items (xl_insert_end i L)) = insert i (set (xl_items L))"
  by (auto simp: xl_insert_end_def dest: in_set_takeD in_set_dropD)
    (metis Un_iff append_take_drop_id set_append)

lemma xl_split_append: "fst (xl_split val i xs) @ snd (xl_split val i xs) = xs"
  by (simp add: xl_split_def)

lemma xl_items_insert [simp]: "set (xl_items (xl_insert val i L)) = insert i (set (xl_items L))"
proof -
  have "set (xl_items L) = set (fst (xl_split val i (xl_items L))) \<union> set (snd (xl_split val i (xl_items L)))"
    by (metis xl_split_append set_append)
  then show ?thesis by (auto simp: xl_insert_def case_prod_beta)
qed

lemma xl_items_remove [simp]: "xl_items (xl_remove i L) = remove1 i (xl_items L)"
  by (simp add: xl_remove_def)

lemma xl_items_next: "xl_next L = Some (i, L') \<Longrightarrow> xl_items L' = xl_items L \<and> i \<in> set (xl_items L)"
  by (auto simp: xl_next_def Let_def split: if_splits)

lemma distinct_insert_end [simp]:
  "i \<notin> set (xl_items L) \<Longrightarrow> distinct (xl_items L) \<Longrightarrow> distinct (xl_items (xl_insert_end i L))"
  by (auto simp: xl_insert_end_def set_take_disj_set_drop_if_distinct dest: in_set_takeD in_set_dropD)

lemma distinct_insert [simp]:
  assumes "i \<notin> set (xl_items L)" and "distinct (xl_items L)"
  shows "distinct (xl_items (xl_insert val i L))"
proof -
  have "distinct (fst (xl_split val i (xl_items L)) @ snd (xl_split val i (xl_items L)))"
    "set (fst (xl_split val i (xl_items L)) @ snd (xl_split val i (xl_items L))) = set (xl_items L)"
    by (simp_all only: xl_split_append assms(2))
  with assms(1) show ?thesis by (auto simp: xl_insert_def case_prod_beta)
qed

section \<open>Refinement\<close>

definition represents :: "('l, 'i) list_store \<Rightarrow> 'l \<Rightarrow> 'i xlist \<Rightarrow> bool" where
  "represents st l L \<longleftrightarrow> list_ok st l (xl_items L) \<and> xl_idx L \<le> length (xl_items L)
     \<and> pxIndex st l = gap_prev l (take (xl_idx L) (xl_items L))"

lemma takeWhile_neq_nth:
  "distinct xs \<Longrightarrow> k < length xs \<Longrightarrow>
   takeWhile (\<lambda>j. j \<noteq> xs ! k) xs = take k xs \<and> dropWhile (\<lambda>j. j \<noteq> xs ! k) xs = drop k xs"
proof (induction xs arbitrary: k)
  case (Cons x xs)
  then show ?case by (cases k) auto
qed simp

lemma last_take: "0 < k \<Longrightarrow> k \<le> length xs \<Longrightarrow> last (take k xs) = xs ! (k - 1)"
  by (subst last_conv_nth) (auto simp: min_def)

lemma index_split_represents:
  assumes "represents st l L"
  shows "index_split (pxIndex st l) (xl_items L)
    = (if xl_idx L = 0 then (xl_items L, []) else (take (xl_idx L - 1) (xl_items L), drop (xl_idx L - 1) (xl_items L)))"
proof (cases "xl_idx L = 0")
  case True
  with assms show ?thesis by (simp add: represents_def gap_prev_def index_split_def)
next
  case False
  then have "pxIndex st l = Item (xl_items L ! (xl_idx L - 1))"
    using assms by (auto simp: represents_def gap_prev_def last_take)
  moreover have "distinct (xl_items L)" "xl_idx L - 1 < length (xl_items L)"
    using assms False by (auto simp: represents_def list_ok_def)
  ultimately show ?thesis
    using False takeWhile_neq_nth by (simp add: index_split_def)
qed

lemma vListInsertEnd_refines:
  assumes "represents st l L" and "pxContainer st i = None"
  shows "represents (vListInsertEnd l i st) l (xl_insert_end i L)"
proof -
  have ok: "list_ok st l (xl_items L)" using assms(1) by (simp add: represents_def)
  obtain ys zs where sp: "(ys, zs) = index_split (pxIndex st l) (xl_items L)" by (metis surj_pair)
  have ins: "inserted st l ys i zs (vListInsertEnd l i st)"
    by (rule vListInsertEnd_inserted [OF ok assms(2) sp])
  have app: "xl_items L = ys @ zs" using index_split_append [of "pxIndex st l" "xl_items L"] sp by (metis fst_conv snd_conv)
  have "list_ok (vListInsertEnd l i st) l (ys @ i # zs)"
    by (rule inserted_list_ok [OF ok [unfolded app] assms(2) ins])
  moreover have "pxIndex (vListInsertEnd l i st) l = pxIndex st l"
    using ins by (simp add: inserted_def)
  moreover have "xl_items (xl_insert_end i L) = ys @ i # zs"
    using sp index_split_represents [OF assms(1)] by (simp add: xl_insert_end_def split: if_splits)
  moreover have "take (xl_idx (xl_insert_end i L)) (ys @ i # zs) = (if xl_idx L = 0 then [] else ys @ i # [hd zs])"
    "xl_idx L \<noteq> 0 \<Longrightarrow> zs \<noteq> [] \<and> hd zs = xl_items L ! (xl_idx L - 1)"
    using sp index_split_represents [OF assms(1)] assms(1)
    by (auto simp: xl_insert_end_def represents_def take_Suc hd_drop_conv_nth split: if_splits)
  ultimately show ?thesis
    using assms(1) arg_cong [OF app, of length]
    by (auto simp: represents_def gap_prev_def last_take xl_insert_end_def)
qed

lemma vListInsert_refines:
  assumes "represents st l L" and "pxContainer st i = None"
  shows "\<exists>st'. vListInsert l i st = Some st' \<and> represents st' l (xl_insert (value_of st) i L)"
proof -
  have ok: "list_ok st l (xl_items L)" using assms(1) by (simp add: represents_def)
  obtain ys zs where sp: "(ys, zs) = insert_split st i (xl_items L)" by (metis surj_pair)
  obtain st' where st': "vListInsert l i st = Some st'" "inserted st l ys i zs st'"
    using vListInsert_inserted [OF ok assms(2) sp] by blast
  have app: "xl_items L = ys @ zs" using insert_split_append [of st i "xl_items L"] sp by (metis fst_conv snd_conv)
  have ok': "list_ok st' l (ys @ i # zs)"
    by (rule inserted_list_ok [OF ok [unfolded app] assms(2) st'(2)])
  have "xl_split (value_of st) i (xl_items L) = (ys, zs)"
    using sp by (simp add: xl_split_def insert_split_def up_to_def)
  then have L': "xl_insert (value_of st) i L = L\<lparr>xl_items := ys @ i # zs,
      xl_idx := (if length ys < xl_idx L then Suc (xl_idx L) else xl_idx L)\<rparr>"
    by (simp add: xl_insert_def)
  have "pxIndex st' l = gap_prev l (take (xl_idx L) (ys @ zs))"
    using st'(2) assms(1) app by (simp add: inserted_def represents_def)
  moreover have "gap_prev l (take (xl_idx L) (ys @ zs))
      = gap_prev l (take (if length ys < xl_idx L then Suc (xl_idx L) else xl_idx L) (ys @ i # zs))"
  proof (cases "length ys < xl_idx L")
    case True
    then obtain k where k: "xl_idx L = length ys + Suc k" using less_imp_Suc_add by auto
    then have "k < length zs" using assms(1) app by (auto simp: represents_def)
    with k show ?thesis by (auto simp: gap_prev_def)
  qed simp
  ultimately show ?thesis
    using st'(1) ok' assms(1) app by (auto simp: represents_def L')
qed

lemma remove1_append_distinct: "i \<notin> set ys \<Longrightarrow> remove1 i (ys @ i # zs) = ys @ zs"
  by (simp add: remove1_append)

lemma gap_prev_Item: "gap_prev l ws = Item j \<Longrightarrow> j \<in> set ws"
  by (auto simp: gap_prev_def split: if_splits)

lemma uxListRemove_refines:
  assumes "represents st l L" and "i \<in> set (xl_items L)"
  shows "\<exists>st'. uxListRemove i st = Some (of_nat (length (xl_items (xl_remove i L))), st')
    \<and> represents st' l (xl_remove i L)"
proof -
  obtain ys zs where sp: "xl_items L = ys @ i # zs" "i \<notin> set ys" using assms(2) by (meson split_list_first)
  have ok: "list_ok st l (ys @ i # zs)" using assms(1) sp by (simp add: represents_def)
  obtain st' where st': "uxListRemove i st = Some (of_nat (length (ys @ zs)), st')" "removed st l ys i zs st'"
    using uxListRemove_removed [OF ok] by blast
  have tw: "takeWhile (\<lambda>j. j \<noteq> i) (xl_items L) = ys"
    unfolding sp(1) using sp(2) by (induction ys) auto
  have items: "xl_items (xl_remove i L) = ys @ zs" using sp by (simp add: remove1_append_distinct)
  have d: "distinct (ys @ i # zs)" using ok by (simp add: list_ok_def)
  have ix: "pxIndex st l = gap_prev l (take (xl_idx L) (ys @ i # zs))" "xl_idx L \<le> length (ys @ i # zs)"
    using assms(1) sp by (simp_all add: represents_def)
  have "pxIndex st' l = gap_prev l (take (if length ys < xl_idx L then xl_idx L - 1 else xl_idx L) (ys @ zs))"
  proof (cases "xl_idx L = Suc (length ys)")
    case True
    with ix st'(2) show ?thesis by (simp add: removed_def gap_prev_def)
  next
    case False
    show ?thesis
    proof (cases "length ys < xl_idx L")
      case True
      then obtain k where k: "xl_idx L = length ys + Suc (Suc k)"
        using False by (metis add_Suc_right less_imp_Suc_add old.nat.exhaust add.right_neutral)
      then have "k < length zs" using ix(2) by simp
      then have "pxIndex st l = Item (zs ! k)" "zs ! k \<noteq> i"
        using ix(1) k d by (auto simp: gap_prev_def last_take in_set_conv_nth)
      with st'(2) k \<open>k < length zs\<close> True show ?thesis
        by (auto simp: removed_def gap_prev_def last_take take_Suc_conv_app_nth)
    next
      case F: False
      then have "pxIndex st l \<noteq> Item i"
        using ix(1) sp(2) gap_prev_Item [of l "take (xl_idx L) ys" i] by (auto dest: in_set_takeD)
      with st'(2) F ix show ?thesis by (simp add: removed_def)
    qed
  qed
  moreover have "(if length ys < xl_idx L then xl_idx L - 1 else xl_idx L) \<le> length (ys @ zs)"
    using ix(2) by auto
  moreover have "xl_idx (xl_remove i L) = (if length ys < xl_idx L then xl_idx L - 1 else xl_idx L)"
    by (simp add: xl_remove_def tw)
  ultimately show ?thesis
    using st' removed_list_ok [OF ok st'(2)] items by (auto simp: represents_def)
qed

lemma next_entry_refines:
  assumes "represents st l L" and "xl_items L \<noteq> []"
  shows "\<exists>st' i L'. xl_next L = Some (i, L') \<and> listGET_OWNER_OF_NEXT_ENTRY l st = (Item i, st') \<and> represents st' l L'"
proof (cases "xl_idx L < length (xl_items L)")
  case True
  let ?ys = "take (xl_idx L) (xl_items L)" and ?z = "xl_items L ! xl_idx L" and ?zs = "drop (Suc (xl_idx L)) (xl_items L)"
  have sp: "xl_items L = ?ys @ ?z # ?zs" using True by (simp add: id_take_nth_drop)
  have "list_ok st l (?ys @ ?z # ?zs)" "pxIndex st l = gap_prev l ?ys"
    using assms(1) sp by (simp_all add: represents_def)
  from next_entry_step [OF this] obtain st' where st': "listGET_OWNER_OF_NEXT_ENTRY l st = (Item ?z, st')"
      "list_ok st' l (?ys @ ?z # ?zs)" "pxIndex st' l = gap_prev l (?ys @ [?z])" by blast
  moreover have "xl_next L = Some (?z, L\<lparr>xl_idx := Suc (xl_idx L)\<rparr>)"
    using True assms(2) by (simp add: xl_next_def)
  moreover have "represents st' l (L\<lparr>xl_idx := Suc (xl_idx L)\<rparr>)"
    using st' sp True by (simp add: represents_def take_Suc_conv_app_nth)
  ultimately show ?thesis by blast
next
  case False
  then obtain x xs where xs: "xl_items L = x # xs" using assms(2) by (cases "xl_items L") auto
  have "list_ok st l (x # xs)" "pxIndex st l = gap_prev l (x # xs)"
    using assms(1) False xs by (auto simp: represents_def)
  from next_entry_wrap [OF this] obtain st' where st': "listGET_OWNER_OF_NEXT_ENTRY l st = (Item x, st')"
      "list_ok st' l (x # xs)" "pxIndex st' l = gap_prev l [x]" by blast
  moreover have "xl_next L = Some (x, L\<lparr>xl_idx := 1\<rparr>)" using False xs by (simp add: xl_next_def)
  moreover have "represents st' l (L\<lparr>xl_idx := 1\<rparr>)" using st' xs by (simp add: represents_def)
  ultimately show ?thesis by blast
qed

section \<open>Properties\<close>

text \<open>
  C38: the pointer code of \<open>list.c\<close> and the list macros compute the list operations the
  scheduler model uses, from any well-formed list and with the index wherever it stands: inserting
  at the end (just before the index), sorted insertion, removal with its returned length, and
  advancing the index to the next owner.
\<close>
theorem list_code_refines_sequences:
  assumes "represents st l L"
  shows "(pxContainer st i = None \<longrightarrow> represents (vListInsertEnd l i st) l (xl_insert_end i L))
    \<and> (pxContainer st i = None \<longrightarrow>
        (\<exists>st'. vListInsert l i st = Some st' \<and> represents st' l (xl_insert (value_of st) i L)))
    \<and> (pxContainer st i = Some l \<longrightarrow>
        (\<exists>st'. uxListRemove i st = Some (of_nat (length (xl_items (xl_remove i L))), st')
          \<and> represents st' l (xl_remove i L)))
    \<and> (xl_items L \<noteq> [] \<longrightarrow>
        (\<exists>st' j L'. xl_next L = Some (j, L') \<and> listGET_OWNER_OF_NEXT_ENTRY l st = (Item j, st')
          \<and> represents st' l L'))"
proof -
  have "pxContainer st i = Some l \<Longrightarrow> i \<in> set (xl_items L)"
    using assms list_ok_mem [of st l "xl_items L" i] by (simp add: represents_def)
  then show ?thesis
    using vListInsertEnd_refines [OF assms] vListInsert_refines [OF assms]
      uxListRemove_refines [OF assms] next_entry_refines [OF assms] by blast
qed

definition sample_xlist :: "nat xlist" where
  "sample_xlist = \<lparr>xl_items = [1, 2], xl_idx = 0\<rparr>"

lemma list_code_refines_sequences_witness:
  "represents (vListInsertEnd 0 3 sample_store) 0 (xl_insert_end 3 sample_xlist)
    \<and> (\<exists>st'. vListInsert 0 3 sample_store = Some st'
          \<and> represents st' 0 (xl_insert (value_of sample_store) 3 sample_xlist))
    \<and> (\<exists>st'. uxListRemove 1 sample_store = Some (1, st')
          \<and> represents st' 0 (xl_remove 1 sample_xlist))
    \<and> (\<exists>st' j L'. xl_next sample_xlist = Some (j, L')
          \<and> listGET_OWNER_OF_NEXT_ENTRY 0 sample_store = (Item j, st') \<and> represents st' 0 L')"
proof -
  have "pxIndex sample_store 0 = End 0" "pxContainer sample_store 3 = None" "pxContainer sample_store 1 = Some 0"
    by (simp_all add: sample_store_def empty_store_def vListInsertEnd_def Let_def join_def)
  moreover from this have "represents sample_store 0 sample_xlist"
    using sample_store_ok by (simp add: represents_def sample_xlist_def gap_prev_def)
  ultimately show ?thesis
    using list_code_refines_sequences [of sample_store 0 sample_xlist 3]
      list_code_refines_sequences [of sample_store 0 sample_xlist 1]
    by (simp add: sample_xlist_def)
qed

end
