(* ===== verification/Rtos_Kernel.thy ===== *)
theory Rtos_Kernel
  imports Rtos_Xlist "HOL-Library.Monad_Syntax"
begin

text \<open>
  The scheduler of \<open>FreeRTOS-Kernel-main/tasks.c\<close> in the configuration of
  \<open>APP/FreeRTOSConfig.h\<close> (one core, preemption, no time slicing, generic task selection,
  64-bit ticks, mutexes, \<open>vTaskSuspend\<close>, no abort of delays): ready, delayed, pending-ready,
  suspended and event lists, context switch, tick, blocking with a timeout, unblocking, scheduler
  suspension and priority inheritance. A failing \<open>configASSERT\<close> and a null dereference are
  \<open>None\<close>.
\<close>

section \<open>State\<close>

text \<open>A task control block is named by a number; each holds two list items.\<close>

datatype litem = StateItem nat | EventItem nat

fun owner :: "litem \<Rightarrow> nat" where
  "owner (StateItem t) = t"
| "owner (EventItem t) = t"

datatype list_id = ReadyList nat | DelayedTaskList1 | DelayedTaskList2 | PendingReadyList
  | SuspendedTaskList | TasksWaitingTermination | EventList nat

definition configMAX_PRIORITIES :: nat where
  "configMAX_PRIORITIES = 5"

abbreviation (input) configMAX_SYSCALL_INTERRUPT_PRIORITY :: u8 where "configMAX_SYSCALL_INTERRUPT_PRIORITY \<equiv> 0"

record kernel =
  lists :: "list_id \<Rightarrow> litem xlist"
  container :: "litem \<Rightarrow> list_id option"
  item_value :: "litem \<Rightarrow> tick"
  uxPriority :: "nat \<Rightarrow> nat"
  uxBasePriority :: "nat \<Rightarrow> nat"
  uxMutexesHeld :: "nat \<Rightarrow> nat"
  pxCurrentTCB :: nat
  pxDelayedTaskList :: list_id
  pxOverflowDelayedTaskList :: list_id
  uxTopReadyPriority :: nat
  xTickCount :: tick
  xPendedTicks :: tick
  xNextTaskUnblockTime :: tick
  xYieldPending :: bool
  uxSchedulerSuspended :: nat
  xNumOfOverflows :: u32
  uxCurrentNumberOfTasks :: nat
  pendsv :: bool

abbreviation entries :: "kernel \<Rightarrow> list_id \<Rightarrow> litem list" where
  "entries k l \<equiv> xl_items (lists k l)"

section \<open>List operations on kernel items\<close>

text \<open>\<open>uxListRemove\<close> and \<open>listREMOVE_ITEM\<close>: the item knows its list.\<close>

definition list_remove :: "litem \<Rightarrow> kernel \<Rightarrow> kernel option" where
  "list_remove it k = do {
     l \<leftarrow> container k it;
     Some (k\<lparr>lists := (lists k)(l := xl_remove it (lists k l)), container := (container k)(it := None)\<rparr>)
   }"

definition list_insert_end :: "list_id \<Rightarrow> litem \<Rightarrow> kernel \<Rightarrow> kernel" where
  "list_insert_end l it k =
     k\<lparr>lists := (lists k)(l := xl_insert_end it (lists k l)), container := (container k)(it \<mapsto> l)\<rparr>"

definition list_insert :: "list_id \<Rightarrow> litem \<Rightarrow> kernel \<Rightarrow> kernel" where
  "list_insert l it k =
     k\<lparr>lists := (lists k)(l := xl_insert (item_value k) it (lists k l)), container := (container k)(it \<mapsto> l)\<rparr>"

definition set_item_value :: "litem \<Rightarrow> tick \<Rightarrow> kernel \<Rightarrow> kernel" where
  "set_item_value it v k = k\<lparr>item_value := (item_value k)(it := v)\<rparr>"

definition list_is_empty :: "list_id \<Rightarrow> kernel \<Rightarrow> bool" where
  "list_is_empty l k \<longleftrightarrow> entries k l = []"

text \<open>\<open>listGET_OWNER_OF_HEAD_ENTRY\<close>; the marker of an empty list has no owner.\<close>

definition head_entry :: "list_id \<Rightarrow> kernel \<Rightarrow> litem option" where
  "head_entry l k = (case entries k l of [] \<Rightarrow> None | it # _ \<Rightarrow> Some it)"

section \<open>Ready lists and context switch\<close>

definition prvAddTaskToReadyList :: "nat \<Rightarrow> kernel \<Rightarrow> kernel" where
  "prvAddTaskToReadyList t k =
     (let p = uxPriority k t;
          k = (if p > uxTopReadyPriority k then k\<lparr>uxTopReadyPriority := p\<rparr> else k)
      in list_insert_end (ReadyList p) (StateItem t) k)"

text \<open>The search of \<open>taskSELECT_HIGHEST_PRIORITY_TASK\<close>; running below 0 fails the assertion.\<close>

fun top_ready :: "kernel \<Rightarrow> nat \<Rightarrow> nat option" where
  "top_ready k 0 = (if list_is_empty (ReadyList 0) k then None else Some 0)"
| "top_ready k (Suc p) = (if list_is_empty (ReadyList (Suc p)) k then top_ready k p else Some (Suc p))"

definition taskSELECT_HIGHEST_PRIORITY_TASK :: "kernel \<Rightarrow> kernel option" where
  "taskSELECT_HIGHEST_PRIORITY_TASK k = do {
     p \<leftarrow> top_ready k (uxTopReadyPriority k);
     (it, L) \<leftarrow> xl_next (lists k (ReadyList p));
     Some (k\<lparr>pxCurrentTCB := owner it, lists := (lists k)(ReadyList p := L), uxTopReadyPriority := p\<rparr>)
   }"

definition vTaskSwitchContext :: "kernel \<Rightarrow> kernel option" where
  "vTaskSwitchContext k =
     (if uxSchedulerSuspended k \<noteq> 0 then Some (k\<lparr>xYieldPending := True\<rparr>)
      else taskSELECT_HIGHEST_PRIORITY_TASK (k\<lparr>xYieldPending := False\<rparr>))"

text \<open>\<open>portYIELD\<close> pends the context-switch interrupt, whose handler switches.\<close>

definition portYIELD :: "kernel \<Rightarrow> kernel" where
  "portYIELD k = k\<lparr>pendsv := True\<rparr>"

definition xPortPendSVHandler :: "kernel \<Rightarrow> kernel option" where
  "xPortPendSVHandler k = vTaskSwitchContext (k\<lparr>pendsv := False\<rparr>)"

section \<open>Time\<close>

definition prvResetNextTaskUnblockTime :: "kernel \<Rightarrow> kernel" where
  "prvResetNextTaskUnblockTime k =
     k\<lparr>xNextTaskUnblockTime := (case head_entry (pxDelayedTaskList k) k of None \<Rightarrow> portMAX_DELAY
        | Some it \<Rightarrow> item_value k it)\<rparr>"

definition taskSWITCH_DELAYED_LISTS :: "kernel \<Rightarrow> kernel option" where
  "taskSWITCH_DELAYED_LISTS k =
     (if list_is_empty (pxDelayedTaskList k) k then
        Some (prvResetNextTaskUnblockTime (k\<lparr>pxDelayedTaskList := pxOverflowDelayedTaskList k,
          pxOverflowDelayedTaskList := pxDelayedTaskList k, xNumOfOverflows := xNumOfOverflows k + 1\<rparr>))
      else None)"

text \<open>The loop that wakes the tasks whose time has come; the flag is \<open>xSwitchRequired\<close>.\<close>

partial_function (option) wake_delayed :: "tick \<Rightarrow> bool \<Rightarrow> kernel \<Rightarrow> (bool \<times> kernel) option" where
  "wake_delayed now sw k =
     (case head_entry (pxDelayedTaskList k) k of
        None \<Rightarrow> Some (sw, k\<lparr>xNextTaskUnblockTime := portMAX_DELAY\<rparr>)
      | Some it \<Rightarrow>
          (let t = owner it; v = item_value k (StateItem t)
           in if now < v then Some (sw, k\<lparr>xNextTaskUnblockTime := v\<rparr>)
              else do {
                k \<leftarrow> list_remove (StateItem t) k;
                k \<leftarrow> (if container k (EventItem t) \<noteq> None then list_remove (EventItem t) k else Some k);
                let k = prvAddTaskToReadyList t k;
                wake_delayed now (sw \<or> uxPriority k t > uxPriority k (pxCurrentTCB k)) k
              }))"

definition xTaskIncrementTick :: "kernel \<Rightarrow> (bool \<times> kernel) option" where
  "xTaskIncrementTick k =
     (if uxSchedulerSuspended k = 0 then do {
        let now = xTickCount k + 1;
        let k = k\<lparr>xTickCount := now\<rparr>;
        k \<leftarrow> (if now = 0 then taskSWITCH_DELAYED_LISTS k else Some k);
        (sw, k) \<leftarrow> (if now \<ge> xNextTaskUnblockTime k then wake_delayed now False k else Some (False, k));
        Some (sw \<or> xYieldPending k, k)
      }
      else Some (False, k\<lparr>xPendedTicks := xPendedTicks k + 1\<rparr>))"

section \<open>Suspending the scheduler\<close>

definition vTaskSuspendAll :: "kernel \<Rightarrow> kernel" where
  "vTaskSuspendAll k = k\<lparr>uxSchedulerSuspended := uxSchedulerSuspended k + 1\<rparr>"

text \<open>The loop over \<open>xPendingReadyList\<close>; the flag is whether it moved a task.\<close>

partial_function (option) move_pending :: "bool \<Rightarrow> kernel \<Rightarrow> (bool \<times> kernel) option" where
  "move_pending moved k =
     (case head_entry PendingReadyList k of
        None \<Rightarrow> Some (moved, k)
      | Some it \<Rightarrow> do {
          let t = owner it;
          k \<leftarrow> list_remove (EventItem t) k;
          k \<leftarrow> list_remove (StateItem t) k;
          let k = prvAddTaskToReadyList t k;
          let k = (if uxPriority k t > uxPriority k (pxCurrentTCB k) then k\<lparr>xYieldPending := True\<rparr> else k);
          move_pending True k
        })"

fun pended_ticks :: "nat \<Rightarrow> kernel \<Rightarrow> kernel option" where
  "pended_ticks 0 k = Some k"
| "pended_ticks (Suc n) k = do {
     (sw, k) \<leftarrow> xTaskIncrementTick k;
     pended_ticks n (if sw then k\<lparr>xYieldPending := True\<rparr> else k)
   }"

definition xTaskResumeAll :: "kernel \<Rightarrow> (bool \<times> kernel) option" where
  "xTaskResumeAll k =
     (if uxSchedulerSuspended k = 0 then None
      else let k = k\<lparr>uxSchedulerSuspended := uxSchedulerSuspended k - 1\<rparr>
        in if uxSchedulerSuspended k = 0 \<and> uxCurrentNumberOfTasks k > 0 then do {
             (moved, k) \<leftarrow> move_pending False k;
             let k = (if moved then prvResetNextTaskUnblockTime k else k);
             k \<leftarrow> (if xPendedTicks k > 0 then do {
                     k \<leftarrow> pended_ticks (unat (xPendedTicks k)) k;
                     Some (k\<lparr>xPendedTicks := 0\<rparr>)
                   } else Some k);
             if xYieldPending k then Some (True, portYIELD k) else Some (False, k)
           }
           else Some (False, k))"

section \<open>Blocking and unblocking\<close>

definition prvAddCurrentTaskToDelayedList :: "tick \<Rightarrow> bool \<Rightarrow> kernel \<Rightarrow> kernel option" where
  "prvAddCurrentTaskToDelayedList ticks canBlockIndefinitely k = do {
     let cur = StateItem (pxCurrentTCB k);
     let now = xTickCount k;
     k \<leftarrow> list_remove cur k;
     if ticks = portMAX_DELAY \<and> canBlockIndefinitely then Some (list_insert_end SuspendedTaskList cur k)
     else do {
       let wake = now + ticks;
       let k = set_item_value cur wake k;
       if wake < now then Some (list_insert (pxOverflowDelayedTaskList k) cur k)
       else do {
         let k = list_insert (pxDelayedTaskList k) cur k;
         Some (if wake < xNextTaskUnblockTime k then k\<lparr>xNextTaskUnblockTime := wake\<rparr> else k)
       }
     }
   }"

definition vTaskPlaceOnEventList :: "list_id \<Rightarrow> tick \<Rightarrow> kernel \<Rightarrow> kernel option" where
  "vTaskPlaceOnEventList l ticks k =
     prvAddCurrentTaskToDelayedList ticks True (list_insert l (EventItem (pxCurrentTCB k)) k)"

definition xTaskRemoveFromEventList :: "list_id \<Rightarrow> kernel \<Rightarrow> (bool \<times> kernel) option" where
  "xTaskRemoveFromEventList l k = do {
     it \<leftarrow> head_entry l k;
     let t = owner it;
     k \<leftarrow> list_remove (EventItem t) k;
     k \<leftarrow> (if uxSchedulerSuspended k = 0 then do {
             k \<leftarrow> list_remove (StateItem t) k;
             Some (prvAddTaskToReadyList t k)
           } else Some (list_insert_end PendingReadyList (EventItem t) k));
     if uxPriority k t > uxPriority k (pxCurrentTCB k) then Some (True, k\<lparr>xYieldPending := True\<rparr>)
     else Some (False, k)
   }"

record TimeOut_t =
  xOverflowCount :: u32
  xTimeOnEntering :: tick

definition vTaskInternalSetTimeOutState :: "kernel \<Rightarrow> TimeOut_t" where
  "vTaskInternalSetTimeOutState k = \<lparr>xOverflowCount = xNumOfOverflows k, xTimeOnEntering = xTickCount k\<rparr>"

text \<open>The result, and the updated \<open>*pxTimeOut\<close> and \<open>*pxTicksToWait\<close>.\<close>

definition xTaskCheckForTimeOut :: "TimeOut_t \<Rightarrow> tick \<Rightarrow> kernel \<Rightarrow> bool \<times> TimeOut_t \<times> tick" where
  "xTaskCheckForTimeOut to ticks k =
     (let now = xTickCount k; elapsed = now - xTimeOnEntering to
      in if ticks = portMAX_DELAY then (False, to, ticks)
         else if xNumOfOverflows k \<noteq> xOverflowCount to \<and> now \<ge> xTimeOnEntering to then (True, to, 0)
         else if elapsed < ticks then (False, vTaskInternalSetTimeOutState k, ticks - elapsed)
         else (True, to, 0))"

definition vTaskMissedYield :: "kernel \<Rightarrow> kernel" where
  "vTaskMissedYield k = k\<lparr>xYieldPending := True\<rparr>"

definition vTaskDelay :: "tick \<Rightarrow> kernel \<Rightarrow> kernel option" where
  "vTaskDelay ticks k = do {
     (yielded, k) \<leftarrow> (if ticks > 0 then do {
         let k = vTaskSuspendAll k;
         if uxSchedulerSuspended k \<noteq> 1 then None else do {
           k \<leftarrow> prvAddCurrentTaskToDelayedList ticks False k;
           xTaskResumeAll k
         }
       } else Some (False, k));
     Some (if yielded then k else portYIELD k)
   }"

section \<open>Priority inheritance\<close>

text \<open>The value of an event item is not a priority while its top bit is set (event groups).\<close>

definition event_value_in_use :: "nat \<Rightarrow> kernel \<Rightarrow> bool" where
  "event_value_in_use t k \<longleftrightarrow> item_value k (EventItem t) AND 0x8000000000000000 \<noteq> 0"

definition set_priority_value :: "nat \<Rightarrow> nat \<Rightarrow> kernel \<Rightarrow> kernel" where
  "set_priority_value t p k = set_item_value (EventItem t) (of_nat configMAX_PRIORITIES - of_nat p) k"

text \<open>A handle is an optional task, \<open>NULL\<close> being none.\<close>

definition xTaskPriorityInherit :: "nat option \<Rightarrow> kernel \<Rightarrow> (bool \<times> kernel) option" where
  "xTaskPriorityInherit holder k =
     (case holder of None \<Rightarrow> Some (False, k)
      | Some h \<Rightarrow>
          let cp = uxPriority k (pxCurrentTCB k) in
          if uxPriority k h < cp then do {
            let k = (if \<not> event_value_in_use h k then set_priority_value h cp k else k);
            k \<leftarrow> (if container k (StateItem h) = Some (ReadyList (uxPriority k h)) then do {
                    k \<leftarrow> list_remove (StateItem h) k;
                    Some (prvAddTaskToReadyList h (k\<lparr>uxPriority := (uxPriority k)(h := cp)\<rparr>))
                  } else Some (k\<lparr>uxPriority := (uxPriority k)(h := cp)\<rparr>));
            Some (True, k)
          }
          else Some (uxBasePriority k h < cp, k))"

definition xTaskPriorityDisinherit :: "nat option \<Rightarrow> kernel \<Rightarrow> (bool \<times> kernel) option" where
  "xTaskPriorityDisinherit holder k =
     (case holder of None \<Rightarrow> Some (False, k)
      | Some h \<Rightarrow>
          if h \<noteq> pxCurrentTCB k \<or> uxMutexesHeld k h = 0 then None
          else let k = k\<lparr>uxMutexesHeld := (uxMutexesHeld k)(h := uxMutexesHeld k h - 1)\<rparr>
            in if uxPriority k h \<noteq> uxBasePriority k h \<and> uxMutexesHeld k h = 0 then do {
                 k \<leftarrow> list_remove (StateItem h) k;
                 let k = k\<lparr>uxPriority := (uxPriority k)(h := uxBasePriority k h)\<rparr>;
                 Some (True, prvAddTaskToReadyList h (set_priority_value h (uxPriority k h) k))
               }
               else Some (False, k))"

definition vTaskPriorityDisinheritAfterTimeout :: "nat option \<Rightarrow> nat \<Rightarrow> kernel \<Rightarrow> kernel option" where
  "vTaskPriorityDisinheritAfterTimeout holder highestWaiting k =
     (case holder of None \<Rightarrow> Some k
      | Some h \<Rightarrow>
          if uxMutexesHeld k h = 0 then None
          else let use = (if uxBasePriority k h < highestWaiting then highestWaiting else uxBasePriority k h)
            in if uxPriority k h \<noteq> use \<and> uxMutexesHeld k h = 1 then
                 if h = pxCurrentTCB k then None
                 else let onEntry = uxPriority k h;
                          k = k\<lparr>uxPriority := (uxPriority k)(h := use)\<rparr>;
                          k = (if \<not> event_value_in_use h k then set_priority_value h use k else k)
                   in if container k (StateItem h) = Some (ReadyList onEntry) then do {
                        k \<leftarrow> list_remove (StateItem h) k;
                        Some (prvAddTaskToReadyList h k)
                      } else Some k
               else Some k)"

definition pvTaskIncrementMutexHeldCount :: "kernel \<Rightarrow> nat \<times> kernel" where
  "pvTaskIncrementMutexHeldCount k =
     (let t = pxCurrentTCB k in (t, k\<lparr>uxMutexesHeld := (uxMutexesHeld k)(t := uxMutexesHeld k t + 1)\<rparr>))"

section \<open>Well-formed kernels\<close>

text \<open>Every item is in the one list its container field names, once.\<close>

definition lists_ok :: "kernel \<Rightarrow> bool" where
  "lists_ok k \<longleftrightarrow>
     (\<forall>l. distinct (entries k l)) \<and> (\<forall>it l. container k it = Some l \<longleftrightarrow> it \<in> set (entries k l))"

text \<open>What may stand in which list, and that the top-priority hint is an upper bound.\<close>

fun item_fits :: "kernel \<Rightarrow> list_id \<Rightarrow> litem \<Rightarrow> bool" where
  "item_fits k (ReadyList p) (StateItem t) \<longleftrightarrow> uxPriority k t = p"
| "item_fits k (ReadyList p) (EventItem t) \<longleftrightarrow> False"
| "item_fits k DelayedTaskList1 it \<longleftrightarrow> it = StateItem (owner it)"
| "item_fits k DelayedTaskList2 it \<longleftrightarrow> it = StateItem (owner it)"
| "item_fits k SuspendedTaskList it \<longleftrightarrow> it = StateItem (owner it)"
| "item_fits k TasksWaitingTermination it \<longleftrightarrow> it = StateItem (owner it)"
| "item_fits k PendingReadyList it \<longleftrightarrow> it = EventItem (owner it)"
| "item_fits k (EventList n) it \<longleftrightarrow> it = EventItem (owner it)"

definition kernel_ok :: "kernel \<Rightarrow> bool" where
  "kernel_ok k \<longleftrightarrow> lists_ok k \<and> (\<forall>it l. container k it = Some l \<longrightarrow> item_fits k l it)
     \<and> (\<forall>p. entries k (ReadyList p) \<noteq> [] \<longrightarrow> p \<le> uxTopReadyPriority k)
     \<and> {pxDelayedTaskList k, pxOverflowDelayedTaskList k} = {DelayedTaskList1, DelayedTaskList2}"

lemma item_fits_cong: "uxPriority k' = uxPriority k \<Longrightarrow> item_fits k' l it = item_fits k l it"
  by (cases "(k, l, it)" rule: item_fits.cases) auto

lemma lists_ok_container: "lists_ok k \<Longrightarrow> it \<in> set (entries k l) \<longleftrightarrow> container k it = Some l"
  by (simp add: lists_ok_def)

lemma head_entry_container: "lists_ok k \<Longrightarrow> head_entry l k = Some it \<Longrightarrow> container k it = Some l"
  by (auto simp: head_entry_def lists_ok_def split: list.splits)

text \<open>Removal and insertion keep the lists well formed.\<close>

definition detach :: "litem \<Rightarrow> list_id \<Rightarrow> kernel \<Rightarrow> kernel" where
  "detach it l k = k\<lparr>lists := (lists k)(l := xl_remove it (lists k l)), container := (container k)(it := None)\<rparr>"

lemma list_remove_detach: "container k it = Some l \<Longrightarrow> list_remove it k = Some (detach it l k)"
  by (simp add: list_remove_def detach_def)

lemma detach_ok:
  assumes "lists_ok k" and "container k it = Some l"
  shows "lists_ok (detach it l k)"
proof -
  have d: "distinct (entries k m)" for m using assms(1) by (simp add: lists_ok_def)
  have c: "container k i = Some m \<longleftrightarrow> i \<in> set (entries k m)" for i m using assms(1) by (simp add: lists_ok_def)
  have "distinct (entries (detach it l k) m)" for m using d by (simp add: detach_def distinct_remove1)
  moreover have "container (detach it l k) i = Some m \<longleftrightarrow> i \<in> set (entries (detach it l k) m)" for i m
    using c [of i m] assms(2) c [of it m] by (auto simp: detach_def set_remove1_eq [OF d])
  ultimately show ?thesis unfolding lists_ok_def by blast
qed

lemma list_insert_end_ok:
  assumes "lists_ok k" and "container k it = None"
  shows "lists_ok (list_insert_end l it k)"
proof -
  have d: "distinct (entries k m)" and c: "container k i = Some m \<longleftrightarrow> i \<in> set (entries k m)" for i m
    using assms(1) by (simp_all add: lists_ok_def)
  have "it \<notin> set (entries k m)" for m using assms(2) c [of it m] by simp
  then show ?thesis
    using d c by (auto simp: lists_ok_def list_insert_end_def)
qed

lemma list_insert_ok:
  assumes "lists_ok k" and "container k it = None"
  shows "lists_ok (list_insert l it k)"
proof -
  have d: "distinct (entries k m)" and c: "container k i = Some m \<longleftrightarrow> i \<in> set (entries k m)" for i m
    using assms(1) by (simp_all add: lists_ok_def)
  have "it \<notin> set (entries k m)" for m using assms(2) c [of it m] by simp
  then show ?thesis
    using d c by (auto simp: lists_ok_def list_insert_def)
qed

text \<open>Fields outside the lists do not matter.\<close>

lemma kernel_ok_cong:
  "lists k' = lists k \<Longrightarrow> container k' = container k \<Longrightarrow> uxPriority k' = uxPriority k \<Longrightarrow>
   uxTopReadyPriority k' = uxTopReadyPriority k \<Longrightarrow>
   {pxDelayedTaskList k', pxOverflowDelayedTaskList k'} = {pxDelayedTaskList k, pxOverflowDelayedTaskList k} \<Longrightarrow>
   kernel_ok k' = kernel_ok k"
  by (simp add: kernel_ok_def lists_ok_def item_fits_cong [of k' k])

lemma kernel_ok_fields [simp]:
  "kernel_ok (k\<lparr>xYieldPending := b\<rparr>) = kernel_ok k"
  "kernel_ok (k\<lparr>pendsv := b\<rparr>) = kernel_ok k"
  "kernel_ok (k\<lparr>uxSchedulerSuspended := n\<rparr>) = kernel_ok k"
  "kernel_ok (k\<lparr>xTickCount := v\<rparr>) = kernel_ok k"
  "kernel_ok (k\<lparr>xPendedTicks := v\<rparr>) = kernel_ok k"
  "kernel_ok (k\<lparr>xNextTaskUnblockTime := v\<rparr>) = kernel_ok k"
  "kernel_ok (k\<lparr>uxMutexesHeld := f\<rparr>) = kernel_ok k"
  "kernel_ok (k\<lparr>item_value := g\<rparr>) = kernel_ok k"
  "kernel_ok (k\<lparr>pxCurrentTCB := t\<rparr>) = kernel_ok k"
  by (rule kernel_ok_cong; simp)+

lemma kernel_ok_lists: "kernel_ok k \<Longrightarrow> lists_ok k"
  by (simp add: kernel_ok_def)

lemma kernel_ok_fits: "kernel_ok k \<Longrightarrow> container k it = Some l \<Longrightarrow> item_fits k l it"
  by (simp add: kernel_ok_def)

lemma kernel_ok_detach:
  assumes "kernel_ok k" and "container k it = Some l"
  shows "kernel_ok (detach it l k)"
proof -
  have lk: "lists_ok (detach it l k)" using detach_ok assms by (simp add: kernel_ok_def)
  have "entries (detach it l k) (ReadyList p) \<noteq> [] \<Longrightarrow> entries k (ReadyList p) \<noteq> []" for p
    by (auto simp: detach_def split: if_splits)
  moreover have "item_fits (detach it l k) m i = item_fits k m i" for m i
    by (rule item_fits_cong) (simp add: detach_def)
  moreover have "container (detach it l k) i = Some m \<Longrightarrow> container k i = Some m" for i m
    by (simp add: detach_def split: if_splits)
  ultimately show ?thesis
    using assms(1) lk by (fastforce simp: kernel_ok_def detach_def)
qed

lemma kernel_ok_attach:
  assumes "kernel_ok k" and "container k it = None" and "item_fits k l it"
    and top: "\<And>p. l = ReadyList p \<Longrightarrow> p \<le> uxTopReadyPriority k"
    and k': "k' = list_insert_end l it k \<or> k' = list_insert l it k"
  shows "kernel_ok k'"
proof -
  have lk: "lists_ok k'"
    using k' list_insert_end_ok [OF kernel_ok_lists [OF assms(1)] assms(2)]
      list_insert_ok [OF kernel_ok_lists [OF assms(1)] assms(2)] by auto
  have c: "container k' = (container k)(it \<mapsto> l)" "uxPriority k' = uxPriority k"
    "uxTopReadyPriority k' = uxTopReadyPriority k" "pxDelayedTaskList k' = pxDelayedTaskList k"
    "pxOverflowDelayedTaskList k' = pxOverflowDelayedTaskList k"
    using k' by (auto simp: list_insert_end_def list_insert_def)
  have e: "m \<noteq> l \<Longrightarrow> entries k' m = entries k m" for m
    using k' by (auto simp: list_insert_end_def list_insert_def)
  have "p \<le> uxTopReadyPriority k'" if "entries k' (ReadyList p) \<noteq> []" for p
    using that assms(1) top [of p] e [of "ReadyList p"] c(3)
    by (cases "l = ReadyList p") (auto simp: kernel_ok_def)
  moreover have "item_fits k' m i" if "container k' i = Some m" for i m
    using that kernel_ok_fits [OF assms(1)] assms(3) c(1)
    by (auto simp: item_fits_cong [OF c(2)] split: if_splits)
  moreover have "{pxDelayedTaskList k', pxOverflowDelayedTaskList k'} = {DelayedTaskList1, DelayedTaskList2}"
    using assms(1) c(4,5) by (simp add: kernel_ok_def)
  ultimately show ?thesis
    using lk unfolding kernel_ok_def by blast
qed

lemma kernel_ok_raise_top: "kernel_ok k \<Longrightarrow> uxTopReadyPriority k \<le> p \<Longrightarrow> kernel_ok (k\<lparr>uxTopReadyPriority := p\<rparr>)"
  using item_fits_cong [of "k\<lparr>uxTopReadyPriority := p\<rparr>" k]
  by (auto simp: kernel_ok_def lists_ok_def intro: order_trans)

lemma kernel_ok_add_ready:
  assumes "kernel_ok k" and "container k (StateItem t) = None"
  shows "kernel_ok (prvAddTaskToReadyList t k)"
proof -
  define k1 where "k1 = (if uxPriority k t > uxTopReadyPriority k then k\<lparr>uxTopReadyPriority := uxPriority k t\<rparr> else k)"
  have k1: "kernel_ok k1" "container k1 (StateItem t) = None" "uxPriority k1 t = uxPriority k t"
    "uxPriority k t \<le> uxTopReadyPriority k1"
    using assms kernel_ok_raise_top [OF assms(1), of "uxPriority k t"] by (auto simp: k1_def)
  have "prvAddTaskToReadyList t k = list_insert_end (ReadyList (uxPriority k t)) (StateItem t) k1"
    by (simp add: prvAddTaskToReadyList_def k1_def Let_def)
  with k1 show ?thesis
    by (intro kernel_ok_attach [OF k1(1,2), of "ReadyList (uxPriority k t)"]) auto
qed

text \<open>The frame of the list operations.\<close>

lemma detach_fields [simp]:
  "uxPriority (detach it l k) = uxPriority k" "item_value (detach it l k) = item_value k"
  "pxCurrentTCB (detach it l k) = pxCurrentTCB k" "uxSchedulerSuspended (detach it l k) = uxSchedulerSuspended k"
  "pxDelayedTaskList (detach it l k) = pxDelayedTaskList k" "xTickCount (detach it l k) = xTickCount k"
  "pxOverflowDelayedTaskList (detach it l k) = pxOverflowDelayedTaskList k"
  "uxTopReadyPriority (detach it l k) = uxTopReadyPriority k"
  "container (detach it l k) = (container k)(it := None)"
  "xNextTaskUnblockTime (detach it l k) = xNextTaskUnblockTime k"
  "xYieldPending (detach it l k) = xYieldPending k" "xPendedTicks (detach it l k) = xPendedTicks k"
  "uxCurrentNumberOfTasks (detach it l k) = uxCurrentNumberOfTasks k"
  "uxMutexesHeld (detach it l k) = uxMutexesHeld k" "uxBasePriority (detach it l k) = uxBasePriority k"
  by (simp_all add: detach_def)

lemma entries_detach [simp]:
  "entries (detach it l k) m = (if m = l then remove1 it (entries k l) else entries k m)"
  by (simp add: detach_def)

lemma list_insert_end_fields [simp]:
  "uxPriority (list_insert_end l it k) = uxPriority k" "item_value (list_insert_end l it k) = item_value k"
  "pxCurrentTCB (list_insert_end l it k) = pxCurrentTCB k"
  "uxSchedulerSuspended (list_insert_end l it k) = uxSchedulerSuspended k"
  "pxDelayedTaskList (list_insert_end l it k) = pxDelayedTaskList k"
  "pxOverflowDelayedTaskList (list_insert_end l it k) = pxOverflowDelayedTaskList k"
  "xTickCount (list_insert_end l it k) = xTickCount k"
  "uxTopReadyPriority (list_insert_end l it k) = uxTopReadyPriority k"
  "xNextTaskUnblockTime (list_insert_end l it k) = xNextTaskUnblockTime k"
  "container (list_insert_end l it k) = (container k)(it \<mapsto> l)"
  "xYieldPending (list_insert_end l it k) = xYieldPending k" "xPendedTicks (list_insert_end l it k) = xPendedTicks k"
  "uxCurrentNumberOfTasks (list_insert_end l it k) = uxCurrentNumberOfTasks k"
  "uxMutexesHeld (list_insert_end l it k) = uxMutexesHeld k" "uxBasePriority (list_insert_end l it k) = uxBasePriority k"
  "m \<noteq> l \<Longrightarrow> entries (list_insert_end l it k) m = entries k m"
  by (simp_all add: list_insert_end_def)

lemma list_insert_fields [simp]:
  "uxPriority (list_insert l it k) = uxPriority k" "item_value (list_insert l it k) = item_value k"
  "pxCurrentTCB (list_insert l it k) = pxCurrentTCB k"
  "uxSchedulerSuspended (list_insert l it k) = uxSchedulerSuspended k"
  "pxDelayedTaskList (list_insert l it k) = pxDelayedTaskList k"
  "pxOverflowDelayedTaskList (list_insert l it k) = pxOverflowDelayedTaskList k"
  "xTickCount (list_insert l it k) = xTickCount k"
  "uxTopReadyPriority (list_insert l it k) = uxTopReadyPriority k"
  "xNextTaskUnblockTime (list_insert l it k) = xNextTaskUnblockTime k"
  "container (list_insert l it k) = (container k)(it \<mapsto> l)"
  "xYieldPending (list_insert l it k) = xYieldPending k" "xPendedTicks (list_insert l it k) = xPendedTicks k"
  "uxCurrentNumberOfTasks (list_insert l it k) = uxCurrentNumberOfTasks k"
  "uxMutexesHeld (list_insert l it k) = uxMutexesHeld k" "uxBasePriority (list_insert l it k) = uxBasePriority k"
  "m \<noteq> l \<Longrightarrow> entries (list_insert l it k) m = entries k m"
  by (simp_all add: list_insert_def)

lemma add_ready_fields [simp]:
  "uxPriority (prvAddTaskToReadyList t k) = uxPriority k" "item_value (prvAddTaskToReadyList t k) = item_value k"
  "pxCurrentTCB (prvAddTaskToReadyList t k) = pxCurrentTCB k"
  "uxSchedulerSuspended (prvAddTaskToReadyList t k) = uxSchedulerSuspended k"
  "pxDelayedTaskList (prvAddTaskToReadyList t k) = pxDelayedTaskList k"
  "pxOverflowDelayedTaskList (prvAddTaskToReadyList t k) = pxOverflowDelayedTaskList k"
  "xTickCount (prvAddTaskToReadyList t k) = xTickCount k"
  "xNextTaskUnblockTime (prvAddTaskToReadyList t k) = xNextTaskUnblockTime k"
  "container (prvAddTaskToReadyList t k) = (container k)(StateItem t \<mapsto> ReadyList (uxPriority k t))"
  "xYieldPending (prvAddTaskToReadyList t k) = xYieldPending k"
  "xPendedTicks (prvAddTaskToReadyList t k) = xPendedTicks k"
  "uxCurrentNumberOfTasks (prvAddTaskToReadyList t k) = uxCurrentNumberOfTasks k"
  "uxMutexesHeld (prvAddTaskToReadyList t k) = uxMutexesHeld k"
  "uxBasePriority (prvAddTaskToReadyList t k) = uxBasePriority k"
  "(\<And>p. m \<noteq> ReadyList p) \<Longrightarrow> entries (prvAddTaskToReadyList t k) m = entries k m"
  by (simp_all add: prvAddTaskToReadyList_def Let_def)

end
