(* ===== verification/Rtos_Queue.thy ===== *)
theory Rtos_Queue
  imports Rtos_Kernel
begin

text \<open>
  The queues of \<open>FreeRTOS-Kernel-main/queue.c\<close> (without queue sets): creation, the ring buffer,
  semaphores and mutexes, and the operations that never block. A queue is used together with the
  scheduler state of \<open>Rtos_Kernel\<close>, which holds its two lists of waiting tasks. A failing
  \<open>configASSERT\<close> and an access outside the storage area are \<open>None\<close>.
\<close>

section \<open>Data\<close>

text \<open>
  Positions in the storage area are offsets from \<open>pcHead\<close>. The union \<open>u\<close> holds what was last
  written to it.
\<close>

datatype queue_u = XQueue int int | XSemaphore "nat option" u32

datatype copy_position = queueSEND_TO_BACK | queueSEND_TO_FRONT | queueOVERWRITE

record Queue_t =
  storage :: "u8 list"
  pcWriteTo :: int
  u_data :: queue_u
  xTasksWaitingToSend :: list_id
  xTasksWaitingToReceive :: list_id
  uxMessagesWaiting :: u32
  uxLength :: u32
  uxItemSize :: u32
  cRxLock :: int
  cTxLock :: int
  queueQUEUE_IS_MUTEX :: bool

abbreviation queueUNLOCKED :: int where "queueUNLOCKED \<equiv> - 1"
abbreviation queueLOCKED_UNMODIFIED :: int where "queueLOCKED_UNMODIFIED \<equiv> 0"
abbreviation queueINT8_MAX :: int where "queueINT8_MAX \<equiv> 127"

section \<open>Reset and creation\<close>

text \<open>Waking the first waiter of a list, when there is one.\<close>

definition wake_first :: "list_id \<Rightarrow> kernel \<Rightarrow> (bool \<times> kernel) option" where
  "wake_first l k = (if list_is_empty l k then Some (False, k) else xTaskRemoveFromEventList l k)"

definition yield_if :: "bool \<Rightarrow> kernel \<Rightarrow> kernel" where
  "yield_if b k = (if b then portYIELD k else k)"

definition xQueueGenericReset :: "bool \<Rightarrow> Queue_t \<Rightarrow> kernel \<Rightarrow> (Queue_t \<times> kernel) option" where
  "xQueueGenericReset xNewQueue q k =
     (if uxLength q \<ge> 1 \<and> 0xFFFFFFFF div uxLength q \<ge> uxItemSize q then do {
        let q = q\<lparr>u_data := XQueue (int (unat (uxLength q * uxItemSize q))) (int (unat ((uxLength q - 1) * uxItemSize q))),
                  uxMessagesWaiting := 0, pcWriteTo := 0, cRxLock := queueUNLOCKED, cTxLock := queueUNLOCKED\<rparr>;
        if \<not> xNewQueue then do {
          (sw, k) \<leftarrow> wake_first (xTasksWaitingToSend q) k;
          Some (q, yield_if sw k)
        } else Some (q, k\<lparr>lists := (lists k)(xTasksWaitingToSend q := xl_empty, xTasksWaitingToReceive q := xl_empty)\<rparr>)
      } else None)"

text \<open>
  The memory of a new queue: its storage area holds the bytes \<open>mem\<close>, and its lists are named by
  \<open>snd_list\<close> and \<open>rcv_list\<close>.
\<close>

definition prvInitialiseNewQueue :: "u32 \<Rightarrow> u32 \<Rightarrow> u8 list \<Rightarrow> list_id \<Rightarrow> list_id \<Rightarrow> kernel \<Rightarrow> (Queue_t \<times> kernel) option" where
  "prvInitialiseNewQueue uxQueueLength uxSize mem snd_list rcv_list k =
     xQueueGenericReset True \<lparr>storage = mem, pcWriteTo = 0, u_data = XQueue 0 0, xTasksWaitingToSend = snd_list,
       xTasksWaitingToReceive = rcv_list, uxMessagesWaiting = 0, uxLength = uxQueueLength, uxItemSize = uxSize,
       cRxLock = queueUNLOCKED, cTxLock = queueUNLOCKED, queueQUEUE_IS_MUTEX = False\<rparr> k"

text \<open>The memory of the queue structure is given; that of the items is \<open>mem\<close>, if any.\<close>

definition xQueueGenericCreateStatic ::
  "u32 \<Rightarrow> u32 \<Rightarrow> u8 list option \<Rightarrow> list_id \<Rightarrow> list_id \<Rightarrow> kernel \<Rightarrow> (Queue_t \<times> kernel) option" where
  "xQueueGenericCreateStatic uxQueueLength uxSize mem snd_list rcv_list k =
     (if uxQueueLength > 0 \<and> \<not> (mem \<noteq> None \<and> uxSize = 0) \<and> \<not> (mem = None \<and> uxSize \<noteq> 0)
      then prvInitialiseNewQueue uxQueueLength uxSize (case mem of None \<Rightarrow> [] | Some m \<Rightarrow> m) snd_list rcv_list k
      else None)"

text \<open>
  \<open>malloc\<close> is what \<open>pvPortMalloc\<close> gives for a size, the contents of the block or nothing;
  \<open>head_size\<close> is \<open>sizeof(Queue_t)\<close>. The result is \<open>Some None\<close> for a null handle.
\<close>

definition xQueueGenericCreate ::
  "(u32 \<Rightarrow> u8 list option) \<Rightarrow> u32 \<Rightarrow> u32 \<Rightarrow> u32 \<Rightarrow> list_id \<Rightarrow> list_id \<Rightarrow> kernel \<Rightarrow> (Queue_t option \<times> kernel) option" where
  "xQueueGenericCreate malloc head_size uxQueueLength uxSize snd_list rcv_list k =
     (if uxQueueLength > 0 \<and> 0xFFFFFFFF div uxQueueLength \<ge> uxSize \<and> 0xFFFFFFFF - head_size \<ge> uxQueueLength * uxSize then
        (case malloc (head_size + uxQueueLength * uxSize) of
           None \<Rightarrow> Some (None, k)
         | Some mem \<Rightarrow> do {
             (q, k) \<leftarrow> prvInitialiseNewQueue uxQueueLength uxSize (drop (unat head_size) mem) snd_list rcv_list k;
             Some (Some q, k)
           })
      else None)"

definition xQueueCreateCountingSemaphore ::
  "(u32 \<Rightarrow> u8 list option) \<Rightarrow> u32 \<Rightarrow> u32 \<Rightarrow> u32 \<Rightarrow> list_id \<Rightarrow> list_id \<Rightarrow> kernel \<Rightarrow> (Queue_t option \<times> kernel) option" where
  "xQueueCreateCountingSemaphore malloc head_size uxMaxCount uxInitialCount snd_list rcv_list k =
     (if uxMaxCount \<noteq> 0 \<and> uxInitialCount \<le> uxMaxCount then do {
        (q, k) \<leftarrow> xQueueGenericCreate malloc head_size uxMaxCount 0 snd_list rcv_list k;
        Some (map_option (\<lambda>q. q\<lparr>uxMessagesWaiting := uxInitialCount\<rparr>) q, k)
      } else None)"

section \<open>The ring buffer\<close>

text \<open>The result is whether the caller should yield.\<close>

definition prvCopyDataToQueue :: "u8 list \<Rightarrow> copy_position \<Rightarrow> Queue_t \<Rightarrow> kernel \<Rightarrow> (bool \<times> Queue_t \<times> kernel) option" where
  "prvCopyDataToQueue item pos q k =
     (let n = uxMessagesWaiting q; S = unat (uxItemSize q) in
      if uxItemSize q = 0 then
        (if queueQUEUE_IS_MUTEX q then
           (case u_data q of
              XSemaphore holder calls \<Rightarrow> do {
                (r, k) \<leftarrow> xTaskPriorityDisinherit holder k;
                Some (r, q\<lparr>u_data := XSemaphore None calls, uxMessagesWaiting := n + 1\<rparr>, k)
              }
            | _ \<Rightarrow> None)
         else Some (False, q\<lparr>uxMessagesWaiting := n + 1\<rparr>, k))
      else
        (case u_data q of
           XQueue tail rd \<Rightarrow>
             (if pos = queueSEND_TO_BACK then do {
                bytes \<leftarrow> mem_load item 0 S;
                mem \<leftarrow> mem_store (storage q) (pcWriteTo q) bytes;
                let w = pcWriteTo q + int S;
                Some (False, q\<lparr>storage := mem, pcWriteTo := (if w \<ge> tail then 0 else w), uxMessagesWaiting := n + 1\<rparr>, k)
              } else do {
                bytes \<leftarrow> mem_load item 0 S;
                mem \<leftarrow> mem_store (storage q) rd bytes;
                let r = rd - int S;
                let n = (if pos = queueOVERWRITE \<and> n > 0 then n - 1 else n);
                Some (False, q\<lparr>storage := mem, u_data := XQueue tail (if r < 0 then tail - int S else r),
                               uxMessagesWaiting := n + 1\<rparr>, k)
              })
         | _ \<Rightarrow> None))"

text \<open>The bytes copied to the caller's buffer, none for a semaphore.\<close>

definition prvCopyDataFromQueue :: "Queue_t \<Rightarrow> (u8 list \<times> Queue_t) option" where
  "prvCopyDataFromQueue q =
     (if uxItemSize q \<noteq> 0 then
        (case u_data q of
           XQueue tail rd \<Rightarrow> do {
             let r = rd + int (unat (uxItemSize q));
             let r = (if r \<ge> tail then 0 else r);
             bytes \<leftarrow> mem_load (storage q) r (unat (uxItemSize q));
             Some (bytes, q\<lparr>u_data := XQueue tail r\<rparr>)
           }
         | _ \<Rightarrow> None)
      else Some ([], q))"

definition prvIsQueueEmpty :: "Queue_t \<Rightarrow> bool" where
  "prvIsQueueEmpty q \<longleftrightarrow> uxMessagesWaiting q = 0"

definition prvIsQueueFull :: "Queue_t \<Rightarrow> bool" where
  "prvIsQueueFull q \<longleftrightarrow> uxMessagesWaiting q = uxLength q"

definition uxQueueMessagesWaiting :: "Queue_t \<Rightarrow> u32" where
  "uxQueueMessagesWaiting q = uxMessagesWaiting q"

definition uxQueueSpacesAvailable :: "Queue_t \<Rightarrow> u32" where
  "uxQueueSpacesAvailable q = uxLength q - uxMessagesWaiting q"

section \<open>Locking\<close>

definition prvLockQueue :: "Queue_t \<Rightarrow> Queue_t" where
  "prvLockQueue q =
     (let q = (if cRxLock q = queueUNLOCKED then q\<lparr>cRxLock := queueLOCKED_UNMODIFIED\<rparr> else q)
      in if cTxLock q = queueUNLOCKED then q\<lparr>cTxLock := queueLOCKED_UNMODIFIED\<rparr> else q)"

definition prvIncrementQueueTxLock :: "Queue_t \<Rightarrow> kernel \<Rightarrow> Queue_t option" where
  "prvIncrementQueueTxLock q k =
     (if cTxLock q < int (uxCurrentNumberOfTasks k) then
        if cTxLock q = queueINT8_MAX then None else Some (q\<lparr>cTxLock := cTxLock q + 1\<rparr>)
      else Some q)"

definition prvIncrementQueueRxLock :: "Queue_t \<Rightarrow> kernel \<Rightarrow> Queue_t option" where
  "prvIncrementQueueRxLock q k =
     (if cRxLock q < int (uxCurrentNumberOfTasks k) then
        if cRxLock q = queueINT8_MAX then None else Some (q\<lparr>cRxLock := cRxLock q + 1\<rparr>)
      else Some q)"

text \<open>The loops of \<open>prvUnlockQueue\<close>, which wake one waiter per counted operation.\<close>

primrec wake_counted :: "list_id \<Rightarrow> nat \<Rightarrow> kernel \<Rightarrow> kernel option" where
  "wake_counted l 0 k = Some k"
| "wake_counted l (Suc n) k =
     (if list_is_empty l k then Some k
      else do {
        (sw, k) \<leftarrow> xTaskRemoveFromEventList l k;
        wake_counted l n (if sw then vTaskMissedYield k else k)
      })"

definition unlock_tx :: "Queue_t \<Rightarrow> kernel \<Rightarrow> (Queue_t \<times> kernel) option" where
  "unlock_tx q k = do {
     k \<leftarrow> wake_counted (xTasksWaitingToReceive q) (nat (cTxLock q)) k;
     Some (q\<lparr>cTxLock := queueUNLOCKED\<rparr>, k)
   }"

definition unlock_rx :: "Queue_t \<Rightarrow> kernel \<Rightarrow> (Queue_t \<times> kernel) option" where
  "unlock_rx q k = do {
     k \<leftarrow> wake_counted (xTasksWaitingToSend q) (nat (cRxLock q)) k;
     Some (q\<lparr>cRxLock := queueUNLOCKED\<rparr>, k)
   }"

definition prvUnlockQueue :: "Queue_t \<Rightarrow> kernel \<Rightarrow> (Queue_t \<times> kernel) option" where
  "prvUnlockQueue q k = do { (q, k) \<leftarrow> unlock_tx q k; unlock_rx q k }"

section \<open>Operations of interrupts\<close>

text \<open>Each returns whether it succeeded and whether a task of higher priority was woken.\<close>

definition xQueueGenericSendFromISR ::
  "u8 list \<Rightarrow> copy_position \<Rightarrow> Queue_t \<Rightarrow> kernel \<Rightarrow> (bool \<times> bool \<times> Queue_t \<times> kernel) option" where
  "xQueueGenericSendFromISR item pos q k =
     (if pos = queueOVERWRITE \<and> uxLength q \<noteq> 1 then None
      else if uxMessagesWaiting q < uxLength q \<or> pos = queueOVERWRITE then do {
        let lock = cTxLock q;
        (_, q, k) \<leftarrow> prvCopyDataToQueue item pos q k;
        if lock = queueUNLOCKED then do {
          (sw, k) \<leftarrow> wake_first (xTasksWaitingToReceive q) k;
          Some (True, sw, q, k)
        } else do {
          q \<leftarrow> prvIncrementQueueTxLock q k;
          Some (True, False, q, k)
        }
      } else Some (False, False, q, k))"

definition xQueueGiveFromISR :: "Queue_t \<Rightarrow> kernel \<Rightarrow> (bool \<times> bool \<times> Queue_t \<times> kernel) option" where
  "xQueueGiveFromISR q k =
     (if uxItemSize q \<noteq> 0 \<or> queueQUEUE_IS_MUTEX q \<and> \<not> (\<exists>calls. u_data q = XSemaphore None calls) then None
      else if uxMessagesWaiting q < uxLength q then do {
        let q = q\<lparr>uxMessagesWaiting := uxMessagesWaiting q + 1\<rparr>;
        if cTxLock q = queueUNLOCKED then do {
          (sw, k) \<leftarrow> wake_first (xTasksWaitingToReceive q) k;
          Some (True, sw, q, k)
        } else do {
          q \<leftarrow> prvIncrementQueueTxLock q k;
          Some (True, False, q, k)
        }
      } else Some (False, False, q, k))"

text \<open>The received bytes, or \<open>None\<close> when the queue is empty.\<close>

definition xQueueReceiveFromISR :: "Queue_t \<Rightarrow> kernel \<Rightarrow> (u8 list option \<times> bool \<times> Queue_t \<times> kernel) option" where
  "xQueueReceiveFromISR q k =
     (if uxMessagesWaiting q > 0 then do {
        let lock = cRxLock q;
        (bytes, q) \<leftarrow> prvCopyDataFromQueue q;
        let q = q\<lparr>uxMessagesWaiting := uxMessagesWaiting q - 1\<rparr>;
        if lock = queueUNLOCKED then do {
          (sw, k) \<leftarrow> wake_first (xTasksWaitingToSend q) k;
          Some (Some bytes, sw, q, k)
        } else do {
          q \<leftarrow> prvIncrementQueueRxLock q k;
          Some (Some bytes, False, q, k)
        }
      } else Some (None, False, q, k))"

definition xQueuePeekFromISR :: "Queue_t \<Rightarrow> (u8 list option \<times> Queue_t) option" where
  "xQueuePeekFromISR q =
     (if uxItemSize q = 0 then None
      else if uxMessagesWaiting q > 0 then do {
        let original = u_data q;
        (bytes, q) \<leftarrow> prvCopyDataFromQueue q;
        Some (Some bytes, q\<lparr>u_data := original\<rparr>)
      } else Some (None, q))"

end
