(* ===== verification/Mb_Port.thy ===== *)
theory Mb_Port
  imports Gd32_Dma Gd32_Usart Gd32_Gpio Gd32_Misc Rtos_Queue
begin

text \<open>
  \<open>Services/ModbusrtuSlvArm/src/mb_slv_port_gd32.c\<close>: the slave's serial line. Frames are received
  by a DMA channel into \<open>rx_buf\<close>, the end of a frame is an idle-line interrupt, and a reply is sent
  by another DMA channel, with the driver-enable pin of the bus transceiver high until the
  transmission-complete interrupt. What the hardware does to the registers and the receive
  buffer is not part of this theory.
\<close>

section \<open>Constants and state\<close>

abbreviation (input) MB_SLV_UART :: u32 where "MB_SLV_UART \<equiv> USART0"
abbreviation (input) MB_SLV_UART_IRQ :: nat where "MB_SLV_UART_IRQ \<equiv> 37"
abbreviation (input) MB_SLV_DMA :: u32 where "MB_SLV_DMA \<equiv> DMA0"
abbreviation (input) MB_SLV_DMA_RX_CH :: dma_channel_enum where "MB_SLV_DMA_RX_CH \<equiv> DMA_CH4"
abbreviation (input) MB_SLV_DMA_TX_CH :: dma_channel_enum where "MB_SLV_DMA_TX_CH \<equiv> DMA_CH3"
abbreviation (input) MB_SLV_TX_PORT :: u32 where "MB_SLV_TX_PORT \<equiv> GPIOA"
abbreviation (input) MB_SLV_TX_PIN :: u32 where "MB_SLV_TX_PIN \<equiv> BIT 9"
abbreviation (input) MB_SLV_RX_PORT :: u32 where "MB_SLV_RX_PORT \<equiv> GPIOA"
abbreviation (input) MB_SLV_RX_PIN :: u32 where "MB_SLV_RX_PIN \<equiv> BIT 10"
abbreviation (input) MB_SLV_DE_PORT :: u32 where "MB_SLV_DE_PORT \<equiv> GPIOA"
abbreviation (input) MB_SLV_DE_PIN :: u32 where "MB_SLV_DE_PIN \<equiv> BIT 8"
abbreviation RX_BUF_SIZE :: nat where "RX_BUF_SIZE \<equiv> 256"
abbreviation (input) DMA_PRIORITY_HIGH :: u32 where "DMA_PRIORITY_HIGH \<equiv> CHCTL_PRIO 2"
abbreviation (input) DMA_PERIPHERAL_WIDTH_8BIT :: u32 where "DMA_PERIPHERAL_WIDTH_8BIT \<equiv> CHCTL_PWIDTH 0"
abbreviation (input) DMA_MEMORY_WIDTH_8BIT :: u32 where "DMA_MEMORY_WIDTH_8BIT \<equiv> CHCTL_MWIDTH 0"

record mb_port =
  mm :: mmio
  rx_buf :: "u8 list"
  frame_len :: u16

section \<open>Operations\<close>

text \<open>\<open>rx_addr\<close> is the address of \<open>rx_buf\<close>.\<close>

definition port_clocks :: "mmio \<Rightarrow> mmio" where
  "port_clocks m =
     (let m = rcu_periph_clock_enable RCU_GPIOA m;
          m = rcu_periph_clock_enable RCU_AF m;
          m = rcu_periph_clock_enable RCU_USART0 m
      in rcu_periph_clock_enable RCU_DMA0 m)"

definition port_pins :: "mmio \<Rightarrow> mmio" where
  "port_pins m =
     (let m = gpio_init MB_SLV_TX_PORT GPIO_MODE_AF_PP GPIO_OSPEED_50MHZ MB_SLV_TX_PIN m;
          m = gpio_init MB_SLV_RX_PORT GPIO_MODE_IN_FLOATING GPIO_OSPEED_50MHZ MB_SLV_RX_PIN m;
          m = gpio_init MB_SLV_DE_PORT GPIO_MODE_OUT_PP GPIO_OSPEED_50MHZ MB_SLV_DE_PIN m
      in gpio_bit_reset MB_SLV_DE_PORT MB_SLV_DE_PIN m)"

definition port_uart :: "u32 \<Rightarrow> mmio \<Rightarrow> mmio option" where
  "port_uart baud m = do {
     m \<leftarrow> usart_baudrate_set MB_SLV_UART baud m;
     let m = usart_word_length_set MB_SLV_UART 0 m;
     let m = usart_stop_bit_set MB_SLV_UART 0 m;
     let m = usart_parity_config MB_SLV_UART 0 m;
     let m = usart_receive_config MB_SLV_UART (BIT 2) m;
     let m = usart_transmit_config MB_SLV_UART (BIT 3) m;
     let m = usart_dma_receive_config MB_SLV_UART (ucast (BIT 6)) m;
     let m = usart_dma_transmit_config MB_SLV_UART (ucast (BIT 7)) m;
     let m = usart_interrupt_enable MB_SLV_UART USART_INT_IDLE m;
     let m = usart_interrupt_enable MB_SLV_UART USART_INT_TC m;
     Some (usart_enable MB_SLV_UART m)
   }"

definition rx_params :: "u32 \<Rightarrow> dma_parameter_struct" where
  "rx_params rx_addr = dma_struct_para_init\<lparr>periph_addr := USART_DATA MB_SLV_UART,
     periph_width := DMA_PERIPHERAL_WIDTH_8BIT, memory_addr := rx_addr, memory_width := DMA_MEMORY_WIDTH_8BIT,
     number := of_nat RX_BUF_SIZE, priority := DMA_PRIORITY_HIGH, periph_inc := DMA_PERIPH_INCREASE_DISABLE,
     memory_inc := DMA_MEMORY_INCREASE_ENABLE, direction := DMA_PERIPHERAL_TO_MEMORY\<rparr>"

definition tx_params :: dma_parameter_struct where
  "tx_params = dma_struct_para_init\<lparr>periph_addr := USART_DATA MB_SLV_UART,
     periph_width := DMA_PERIPHERAL_WIDTH_8BIT, memory_addr := 0, memory_width := DMA_MEMORY_WIDTH_8BIT,
     number := 0, priority := DMA_PRIORITY_HIGH, periph_inc := DMA_PERIPH_INCREASE_DISABLE,
     memory_inc := DMA_MEMORY_INCREASE_ENABLE, direction := DMA_MEMORY_TO_PERIPHERAL\<rparr>"

definition port_dma :: "u32 \<Rightarrow> mmio \<Rightarrow> mmio option" where
  "port_dma rx_addr m = do {
     m \<leftarrow> dma_deinit MB_SLV_DMA MB_SLV_DMA_RX_CH m;
     m \<leftarrow> dma_init MB_SLV_DMA MB_SLV_DMA_RX_CH (rx_params rx_addr) m;
     m \<leftarrow> dma_circulation_enable MB_SLV_DMA MB_SLV_DMA_RX_CH m;
     m \<leftarrow> dma_channel_enable MB_SLV_DMA MB_SLV_DMA_RX_CH m;
     m \<leftarrow> dma_deinit MB_SLV_DMA MB_SLV_DMA_TX_CH m;
     m \<leftarrow> dma_init MB_SLV_DMA MB_SLV_DMA_TX_CH tx_params m;
     dma_circulation_disable MB_SLV_DMA MB_SLV_DMA_TX_CH m
   }"

definition mb_slv_port_init :: "u32 \<Rightarrow> u32 \<Rightarrow> mb_port \<Rightarrow> (int \<times> mb_port) option" where
  "mb_slv_port_init rx_addr baud p = do {
     let m = port_pins (port_clocks (mm p));
     m \<leftarrow> port_uart baud m;
     m \<leftarrow> port_dma rx_addr m;
     let m = nvic_irq_enable MB_SLV_UART_IRQ (configMAX_SYSCALL_INTERRUPT_PRIORITY + 1) 0 m;
     Some (0, p\<lparr>mm := m\<rparr>)
   }"

definition mb_slv_port_rx_start :: "mb_port \<Rightarrow> mb_port option" where
  "mb_slv_port_rx_start p = do {
     m \<leftarrow> dma_channel_disable MB_SLV_DMA MB_SLV_DMA_RX_CH (mm p);
     m \<leftarrow> dma_transfer_number_config MB_SLV_DMA MB_SLV_DMA_RX_CH (of_nat RX_BUF_SIZE) m;
     m \<leftarrow> dma_circulation_enable MB_SLV_DMA MB_SLV_DMA_RX_CH m;
     m \<leftarrow> dma_channel_enable MB_SLV_DMA MB_SLV_DMA_RX_CH m;
     Some (p\<lparr>mm := m\<rparr>)
   }"

definition mb_slv_port_tx_send :: "u32 \<Rightarrow> u16 \<Rightarrow> mb_port \<Rightarrow> mb_port option" where
  "mb_slv_port_tx_send buf len p = do {
     m \<leftarrow> dma_channel_disable MB_SLV_DMA MB_SLV_DMA_TX_CH (mm p);
     m \<leftarrow> dma_memory_address_config MB_SLV_DMA MB_SLV_DMA_TX_CH buf m;
     m \<leftarrow> dma_transfer_number_config MB_SLV_DMA MB_SLV_DMA_TX_CH (ucast len) m;
     let m = gpio_bit_set MB_SLV_DE_PORT MB_SLV_DE_PIN m;
     m \<leftarrow> dma_channel_enable MB_SLV_DMA MB_SLV_DMA_TX_CH m;
     Some (p\<lparr>mm := m\<rparr>)
   }"

definition mb_slv_port_get_frame_buf :: "mb_port \<Rightarrow> u8 list" where
  "mb_slv_port_get_frame_buf p = rx_buf p"

definition mb_slv_port_get_frame_len :: "mb_port \<Rightarrow> u16" where
  "mb_slv_port_get_frame_len p = frame_len p"

definition mb_slv_port_direction_set :: "u8 \<Rightarrow> mb_port \<Rightarrow> mb_port" where
  "mb_slv_port_direction_set tx p =
     (if tx \<noteq> 0 then p\<lparr>mm := gpio_bit_set MB_SLV_DE_PORT MB_SLV_DE_PIN (mm p)\<rparr>
      else p\<lparr>mm := gpio_bit_reset MB_SLV_DE_PORT MB_SLV_DE_PIN (mm p)\<rparr>)"

section \<open>The interrupt handler\<close>

text \<open>
  It works on the port, the semaphore \<open>q\<close> and the kernel. The status and data registers are read
  to clear the idle flag.
\<close>

definition idle_interrupt :: "mb_port \<Rightarrow> Queue_t \<Rightarrow> kernel \<Rightarrow> (mb_port \<times> Queue_t \<times> kernel) option" where
  "idle_interrupt p q k = do {
     let m = snd (rd (USART_STAT0 MB_SLV_UART) (mm p));
     let m = snd (rd (USART_DATA MB_SLV_UART) m);
     (cnt, m) \<leftarrow> dma_transfer_number_get MB_SLV_DMA MB_SLV_DMA_RX_CH m;
     let len = (of_nat RX_BUF_SIZE - ucast cnt :: u16);
     (q, k) \<leftarrow> (if len > 0 \<and> len < of_nat RX_BUF_SIZE then do {
         (_, hpw, q, k) \<leftarrow> xQueueGiveFromISR q k;
         Some (q, yield_if hpw k)
       } else Some (q, k));
     m \<leftarrow> dma_channel_disable MB_SLV_DMA MB_SLV_DMA_RX_CH m;
     Some (p\<lparr>mm := m, frame_len := len\<rparr>, q, k)
   }"

definition tc_interrupt :: "mb_port \<Rightarrow> mb_port option" where
  "tc_interrupt p = do {
     let m = usart_interrupt_flag_clear MB_SLV_UART USART_INT_FLAG_TC (mm p);
     m \<leftarrow> dma_channel_disable MB_SLV_DMA MB_SLV_DMA_TX_CH m;
     mb_slv_port_rx_start (p\<lparr>mm := gpio_bit_reset MB_SLV_DE_PORT MB_SLV_DE_PIN m\<rparr>)
   }"

definition USART0_IRQHandler :: "mb_port \<Rightarrow> Queue_t \<Rightarrow> kernel \<Rightarrow> (mb_port \<times> Queue_t \<times> kernel) option" where
  "USART0_IRQHandler p q k = do {
     let (flag, m) = usart_interrupt_flag_get MB_SLV_UART USART_INT_FLAG_IDLE (mm p);
     (p, q, k) \<leftarrow> (if flag \<noteq> RESET then idle_interrupt (p\<lparr>mm := m\<rparr>) q k else Some (p\<lparr>mm := m\<rparr>, q, k));
     let (flag, m) = usart_interrupt_flag_get MB_SLV_UART USART_INT_FLAG_TC (mm p);
     if flag \<noteq> RESET then do {
       p \<leftarrow> tc_interrupt (p\<lparr>mm := m\<rparr>);
       Some (p, q, k)
     } else Some (p\<lparr>mm := m\<rparr>, q, k)
   }"

section \<open>The registers of the port\<close>

text \<open>
  A view of the port: whether the channels run, the counts, the flags and enables of the two
  interrupts, and the level of the driver-enable pin.
\<close>

abbreviation (input) RX_CTL :: u32 where "RX_CTL \<equiv> DMA_CHCTL DMA0 DMA_CH4"
abbreviation (input) RX_CNT :: u32 where "RX_CNT \<equiv> DMA_CHCNT DMA0 DMA_CH4"
abbreviation (input) TX_CTL :: u32 where "TX_CTL \<equiv> DMA_CHCTL DMA0 DMA_CH3"
abbreviation (input) TX_CNT :: u32 where "TX_CNT \<equiv> DMA_CHCNT DMA0 DMA_CH3"
abbreviation (input) TX_ADDR :: u32 where "TX_ADDR \<equiv> DMA_CHMADDR DMA0 DMA_CH3"
abbreviation (input) STAT0 :: u32 where "STAT0 \<equiv> USART_STAT0 USART0"

definition receiving :: "mb_port \<Rightarrow> bool" where
  "receiving p \<longleftrightarrow> bit (regs (mm p) RX_CTL) 0"

definition sending :: "mb_port \<Rightarrow> bool" where
  "sending p \<longleftrightarrow> bit (regs (mm p) TX_CTL) 0"

definition idle_raised :: "mb_port \<Rightarrow> bool" where
  "idle_raised p \<longleftrightarrow> bit (regs (mm p) STAT0) 4 \<and> bit (regs (mm p) (USART_CTL0 USART0)) 4"

definition tc_raised :: "mb_port \<Rightarrow> bool" where
  "tc_raised p \<longleftrightarrow> bit (regs (mm p) STAT0) 6 \<and> bit (regs (mm p) (USART_CTL0 USART0)) 6"

definition driver_enabled :: "mb_port \<Rightarrow> bool" where
  "driver_enabled p \<longleftrightarrow> pin_level GPIOA 8 False (accesses (mm p))"

lemma dma0_channels [simp]: "dma_channel DMA0 4" "dma_channel DMA0 3"
  by (simp_all add: dma_channel_def)

lemma ucast16_count [simp]: "(ucast (n :: u16) :: u32) AND BITS 0 15 = ucast n"
  by (rule bit_word_eqI) (auto simp: bit_simps dest: bit_imp_le_length)

lemma count_256 [simp]: "(256 :: u32) AND BITS 0 15 = 256"
  using ucast16_count [of 256] by simp

lemma mm_update_inject [simp]: "p\<lparr>mm := m\<rparr> = p\<lparr>mm := m'\<rparr> \<longleftrightarrow> m = m'"
  by (cases p) auto

text \<open>The effect of the port's operations on the registers, and on the pin.\<close>

lemmas port_regs = dma_defs dma_reg_defs gpio_reg_defs gpio_bit_set_def gpio_bit_reset_def

lemma rx_start_effect:
  "\<exists>m. mb_slv_port_rx_start p = Some (p\<lparr>mm := m\<rparr>)
    \<and> regs m = (regs (mm p))(RX_CTL := (regs (mm p) RX_CTL AND NOT (BIT 0) OR BIT 5) OR BIT 0, RX_CNT := 256)
    \<and> pin_level GPIOA 8 l (accesses m) = pin_level GPIOA 8 l (accesses (mm p))"
  by (auto simp: mb_slv_port_rx_start_def port_regs intro!: ext)

lemma tx_send_effect:
  "\<exists>m. mb_slv_port_tx_send buf len p = Some (p\<lparr>mm := m\<rparr>)
    \<and> regs m = (regs (mm p))(TX_CTL := regs (mm p) TX_CTL AND NOT (BIT 0) OR BIT 0, TX_ADDR := buf, TX_CNT := ucast len,
         GPIO_BOP GPIOA := BIT 8)
    \<and> pin_level GPIOA 8 l (accesses m)"
  by (auto simp: mb_slv_port_tx_send_def port_regs intro!: ext)

lemma tc_effect:
  "\<exists>m. tc_interrupt p = Some (p\<lparr>mm := m\<rparr>)
    \<and> regs m = (regs (mm p))(STAT0 := NOT (BIT 6), TX_CTL := regs (mm p) TX_CTL AND NOT (BIT 0), GPIO_BC GPIOA := BIT 8,
         RX_CTL := (regs (mm p) RX_CTL AND NOT (BIT 0) OR BIT 5) OR BIT 0, RX_CNT := 256)
    \<and> \<not> pin_level GPIOA 8 l (accesses m)"
proof -
  have f: "usart_interrupt_flag_clear USART0 USART_INT_FLAG_TC m = wr STAT0 (NOT (BIT 6)) m" for m
    by (simp add: usart_interrupt_flag_clear_def regidx_bit2)
  show ?thesis
    by (auto simp: tc_interrupt_def mb_slv_port_rx_start_def f port_regs intro!: ext)
qed

lemma flag_raised:
  "fst (usart_interrupt_flag_get USART0 USART_INT_FLAG_IDLE (mm p)) \<noteq> RESET \<longleftrightarrow> idle_raised p"
  "fst (usart_interrupt_flag_get USART0 USART_INT_FLAG_TC (mm p)) \<noteq> RESET \<longleftrightarrow> tc_raised p"
  by (auto simp: usart_interrupt_flag_get_def case_prod_beta regidx_bit2 idle_raised_def tc_raised_def eq_commute [of 0])

lemma flag_get_effect:
  "regs (snd (usart_interrupt_flag_get u f m)) = regs m"
  "pin_level g n l (accesses (snd (usart_interrupt_flag_get u f m))) = pin_level g n l (accesses m)"
  by (simp_all add: usart_interrupt_flag_get_def case_prod_beta)

lemma idle_effect:
  defines "len p \<equiv> 256 - ucast (regs (mm p) RX_CNT) :: u16"
  shows "idle_interrupt p q k = do {
      (q, k) \<leftarrow> (if len p > 0 \<and> len p < 256 then do { (_, hpw, q, k) \<leftarrow> xQueueGiveFromISR q k; Some (q, yield_if hpw k) }
               else Some (q, k));
      Some (p\<lparr>mm := reg_clr RX_CTL (BIT 0) (snd (rd RX_CNT (snd (rd (USART_DATA USART0) (snd (rd STAT0 (mm p))))))),
              frame_len := len p\<rparr>, q, k)
    }"
  by (simp add: idle_interrupt_def len_def dma_transfer_number_get_def dma_channel_disable_def rd_def Let_def)

text \<open>The handler by what is raised. \<open>n\<close> bytes have come in when the count is \<open>256 - n\<close>.\<close>

definition received :: "nat \<Rightarrow> mb_port \<Rightarrow> bool" where
  "received n p \<longleftrightarrow> n \<le> RX_BUF_SIZE \<and> regs (mm p) RX_CNT = of_nat (RX_BUF_SIZE - n)"

lemma ucast_of_nat_u16 [simp]: "(ucast (of_nat n :: u32) :: u16) = of_nat n"
  by (rule bit_word_eqI) (simp add: bit_ucast_iff bit_of_nat_iff_bit bit_simps)

lemma received_len: "received n p \<Longrightarrow> (256 - ucast (regs (mm p) RX_CNT) :: u16) = of_nat n"
proof -
  assume r: "received n p"
  then have "(ucast (regs (mm p) RX_CNT) :: u16) = of_nat (256 - n)"
    unfolding received_def by (simp del: of_nat_diff)
  moreover have "(of_nat (256 - n) :: u16) = 256 - of_nat n"
    using r by (subst of_nat_diff) (simp_all add: received_def)
  ultimately show ?thesis by simp
qed

definition stopped :: "mb_port \<Rightarrow> mmio \<Rightarrow> bool" where
  "stopped p m \<longleftrightarrow> regs m = (regs (mm p))(RX_CTL := regs (mm p) RX_CTL AND NOT (BIT 0))
     \<and> (\<forall>l. pin_level GPIOA 8 l (accesses m) = pin_level GPIOA 8 l (accesses (mm p)))"

lemma idle_stops:
  "stopped p (reg_clr RX_CTL (BIT 0) (snd (rd RX_CNT (snd (rd (USART_DATA USART0) (snd (rd STAT0 (mm p))))))))"
  by (simp add: stopped_def port_regs)

lemma stopped_facts:
  assumes "stopped p m"
  shows "\<not> receiving (p\<lparr>mm := m, frame_len := n\<rparr>)" "sending (p\<lparr>mm := m, frame_len := n\<rparr>) = sending p"
    "idle_raised (p\<lparr>mm := m, frame_len := n\<rparr>) = idle_raised p" "tc_raised (p\<lparr>mm := m, frame_len := n\<rparr>) = tc_raised p"
    "received j (p\<lparr>mm := m, frame_len := n\<rparr>) = received j p"
    "driver_enabled (p\<lparr>mm := m, frame_len := n\<rparr>) = driver_enabled p"
  using assms by (simp_all add: stopped_def receiving_def sending_def idle_raised_def tc_raised_def received_def
      driver_enabled_def dma_reg_defs bit_simps)

lemma handler_neither:
  "\<not> tc_raised p \<Longrightarrow> fst (usart_interrupt_flag_get USART0 USART_INT_FLAG_TC (mm p)) = RESET"
  using flag_raised(2) [of p] by blast

lemma handler_idle:
  assumes "idle_raised p" and "\<not> tc_raised p" and "received n p"
    and "if 0 < n \<and> n < 256 then xQueueGiveFromISR q k = Some (b, hpw, q', k') else hpw = False \<and> q' = q \<and> k' = k"
  shows "\<exists>m. USART0_IRQHandler p q k = Some (p\<lparr>mm := m, frame_len := of_nat n\<rparr>, q', yield_if hpw k') \<and> stopped p m"
proof -
  let ?g = "usart_interrupt_flag_get USART0 USART_INT_FLAG_IDLE" and ?h = "usart_interrupt_flag_get USART0 USART_INT_FLAG_TC"
  define p1 where "p1 = p\<lparr>mm := snd (?g (mm p))\<rparr>"
  have p1: "regs (mm p1) = regs (mm p)" "pin_level GPIOA 8 l (accesses (mm p1)) = pin_level GPIOA 8 l (accesses (mm p))" for l
    by (simp_all add: p1_def flag_get_effect)
  define m where "m = reg_clr RX_CTL (BIT 0) (snd (rd RX_CNT (snd (rd (USART_DATA USART0) (snd (rd STAT0 (mm p1)))))))"
  let ?p2 = "p1\<lparr>mm := m, frame_len := of_nat n\<rparr>"
  have len: "(256 - ucast (regs (mm p1) RX_CNT) :: u16) = of_nat n"
    using received_len [OF assms(3)] p1(1) by simp
  have n: "0 < (of_nat n :: u16) \<and> (of_nat n :: u16) < 256 \<longleftrightarrow> 0 < n \<and> n < 256"
  proof -
    have "unat (of_nat n :: u16) = n" using assms(3) by (simp add: received_def unat_of_nat)
    then show ?thesis by (simp add: word_less_nat_alt)
  qed
  have "idle_interrupt p1 q k = Some (?p2, q', yield_if hpw k')"
    using assms(4) by (simp add: idle_effect len n m_def yield_if_def)
  moreover have "stopped p1 m" unfolding m_def by (rule idle_stops)
  then have s: "stopped p m" using p1 by (simp add: stopped_def)
  have "\<not> tc_raised ?p2" using stopped_facts(4) [OF s, of "of_nat n"] assms(2) by (simp add: p1_def)
  then have "fst (?h m) = RESET" using handler_neither [of ?p2] by simp
  moreover have "fst (?g (mm p)) \<noteq> RESET" using flag_raised(1) assms(1) by blast
  ultimately have "USART0_IRQHandler p q k = Some (p\<lparr>mm := snd (?h m), frame_len := of_nat n\<rparr>, q', yield_if hpw k')"
    by (simp add: USART0_IRQHandler_def case_prod_beta p1_def [symmetric] Let_def) (simp add: p1_def)
  moreover have "stopped p (snd (?h m))" using s by (simp add: stopped_def flag_get_effect)
  ultimately show ?thesis by blast
qed

lemma handler_tc:
  assumes "tc_raised p" and "\<not> idle_raised p"
  shows "\<exists>m. USART0_IRQHandler p q k = Some (p\<lparr>mm := m\<rparr>, q, k)
    \<and> regs m = (regs (mm p))(STAT0 := NOT (BIT 6), TX_CTL := regs (mm p) TX_CTL AND NOT (BIT 0), GPIO_BC GPIOA := BIT 8,
         RX_CTL := (regs (mm p) RX_CTL AND NOT (BIT 0) OR BIT 5) OR BIT 0, RX_CNT := 256)
    \<and> \<not> pin_level GPIOA 8 l (accesses m)"
proof -
  let ?g = "usart_interrupt_flag_get USART0 USART_INT_FLAG_IDLE" and ?h = "usart_interrupt_flag_get USART0 USART_INT_FLAG_TC"
  define p1 where "p1 = p\<lparr>mm := snd (?g (mm p))\<rparr>"
  define p2 where "p2 = p1\<lparr>mm := snd (?h (mm p1))\<rparr>"
  have r: "regs (mm p2) = regs (mm p)" by (simp add: p1_def p2_def flag_get_effect)
  have "fst (?g (mm p)) = RESET" using flag_raised(1) assms(2) by blast
  moreover have "tc_raised p1" using assms(1) by (simp add: tc_raised_def p1_def flag_get_effect)
  then have "fst (?h (mm p1)) \<noteq> RESET" using flag_raised(2) by blast
  ultimately have "USART0_IRQHandler p q k = do { p \<leftarrow> tc_interrupt p2; Some (p, q, k) }"
    by (simp add: USART0_IRQHandler_def case_prod_beta Let_def p2_def p1_def)
  moreover obtain m where "tc_interrupt p2 = Some (p2\<lparr>mm := m\<rparr>)"
    "regs m = (regs (mm p2))(STAT0 := NOT (BIT 6), TX_CTL := regs (mm p2) TX_CTL AND NOT (BIT 0), GPIO_BC GPIOA := BIT 8,
         RX_CTL := (regs (mm p2) RX_CTL AND NOT (BIT 0) OR BIT 5) OR BIT 0, RX_CNT := 256)"
    "\<not> pin_level GPIOA 8 l (accesses m)"
    using tc_effect [of p2] by blast
  ultimately show ?thesis unfolding r by (intro exI [of _ m]) (simp add: p2_def p1_def)
qed

end
