(* ===== verification/Mb_Crc.thy ===== *)
theory Mb_Crc
  imports Fw_Base
begin

text \<open>
  \<open>Services/ModbusrtuSlvArm/src/mb_slv_crc.c\<close>: the table-driven CRC-16 of Modbus RTU, the
  bit-serial reference it must agree with, and what the code detects.
\<close>

definition crc_table :: "u16 list" where
  "crc_table = [
    0x0000, 0xC0C1, 0xC181, 0x0140, 0xC301, 0x03C0, 0x0280, 0xC241,
    0xC601, 0x06C0, 0x0780, 0xC741, 0x0500, 0xC5C1, 0xC481, 0x0440,
    0xCC01, 0x0CC0, 0x0D80, 0xCD41, 0x0F00, 0xCFC1, 0xCE81, 0x0E40,
    0x0A00, 0xCAC1, 0xCB81, 0x0B40, 0xC901, 0x09C0, 0x0880, 0xC841,
    0xD801, 0x18C0, 0x1980, 0xD941, 0x1B00, 0xDBC1, 0xDA81, 0x1A40,
    0x1E00, 0xDEC1, 0xDF81, 0x1F40, 0xDD01, 0x1DC0, 0x1C80, 0xDC41,
    0x1400, 0xD4C1, 0xD581, 0x1540, 0xD701, 0x17C0, 0x1680, 0xD641,
    0xD201, 0x12C0, 0x1380, 0xD341, 0x1100, 0xD1C1, 0xD081, 0x1040,
    0xF001, 0x30C0, 0x3180, 0xF141, 0x3300, 0xF3C1, 0xF281, 0x3240,
    0x3600, 0xF6C1, 0xF781, 0x3740, 0xF501, 0x35C0, 0x3480, 0xF441,
    0x3C00, 0xFCC1, 0xFD81, 0x3D40, 0xFF01, 0x3FC0, 0x3E80, 0xFE41,
    0xFA01, 0x3AC0, 0x3B80, 0xFB41, 0x3900, 0xF9C1, 0xF881, 0x3840,
    0x2800, 0xE8C1, 0xE981, 0x2940, 0xEB01, 0x2BC0, 0x2A80, 0xEA41,
    0xEE01, 0x2EC0, 0x2F80, 0xEF41, 0x2D00, 0xEDC1, 0xEC81, 0x2C40,
    0xE401, 0x24C0, 0x2580, 0xE541, 0x2700, 0xE7C1, 0xE681, 0x2640,
    0x2200, 0xE2C1, 0xE381, 0x2340, 0xE101, 0x21C0, 0x2080, 0xE041,
    0xA001, 0x60C0, 0x6180, 0xA141, 0x6300, 0xA3C1, 0xA281, 0x6240,
    0x6600, 0xA6C1, 0xA781, 0x6740, 0xA501, 0x65C0, 0x6480, 0xA441,
    0x6C00, 0xACC1, 0xAD81, 0x6D40, 0xAF01, 0x6FC0, 0x6E80, 0xAE41,
    0xAA01, 0x6AC0, 0x6B80, 0xAB41, 0x6900, 0xA9C1, 0xA881, 0x6840,
    0x7800, 0xB8C1, 0xB981, 0x7940, 0xBB01, 0x7BC0, 0x7A80, 0xBA41,
    0xBE01, 0x7EC0, 0x7F80, 0xBF41, 0x7D00, 0xBDC1, 0xBC81, 0x7C40,
    0xB401, 0x74C0, 0x7580, 0xB541, 0x7700, 0xB7C1, 0xB681, 0x7640,
    0x7200, 0xB2C1, 0xB381, 0x7340, 0xB101, 0x71C0, 0x7080, 0xB041,
    0x5000, 0x90C1, 0x9181, 0x5140, 0x9301, 0x53C0, 0x5280, 0x9241,
    0x9601, 0x56C0, 0x5780, 0x9741, 0x5500, 0x95C1, 0x9481, 0x5440,
    0x9C01, 0x5CC0, 0x5D80, 0x9D41, 0x5F00, 0x9FC1, 0x9E81, 0x5E40,
    0x5A00, 0x9AC1, 0x9B81, 0x5B40, 0x9901, 0x59C0, 0x5880, 0x9841,
    0x8801, 0x48C0, 0x4980, 0x8941, 0x4B00, 0x8BC1, 0x8A81, 0x4A40,
    0x4E00, 0x8EC1, 0x8F81, 0x4F40, 0x8D01, 0x4DC0, 0x4C80, 0x8C41,
    0x4400, 0x84C1, 0x8581, 0x4540, 0x8701, 0x47C0, 0x4680, 0x8641,
    0x8201, 0x42C0, 0x4380, 0x8341, 0x4100, 0x81C1, 0x8081, 0x4040]"

text \<open>One round of \<open>while (len--)\<close>.\<close>

definition crc_step :: "u16 \<Rightarrow> u8 \<Rightarrow> u16" where
  "crc_step crc b = drop_bit 8 crc XOR crc_table ! unat ((crc XOR ucast b) AND 0xFF)"

text \<open>The loop reads \<open>len\<close> bytes from \<open>data\<close>; a read past the end of the array is a fault.\<close>

fun crc_loop :: "u16 \<Rightarrow> u8 list \<Rightarrow> nat \<Rightarrow> u16 option" where
  "crc_loop crc data 0 = Some crc"
| "crc_loop crc [] (Suc len) = None"
| "crc_loop crc (b # data) (Suc len) = crc_loop (crc_step crc b) data len"

definition mb_slv_crc16 :: "u8 list \<Rightarrow> u16 \<Rightarrow> u16 option" where
  "mb_slv_crc16 data len = crc_loop 0xFFFF data (unat len)"

text \<open>
  The reference: the reflected polynomial 0xA001 (Modbus over serial line, the CRC both ends of
  the bus compute), one bit at a time.
\<close>

definition crc_bit :: "u16 \<Rightarrow> u16" where
  "crc_bit c = (if bit c 0 then drop_bit 1 c XOR 0xA001 else drop_bit 1 c)"

definition crc_bits8 :: "u16 \<Rightarrow> u16" where
  "crc_bits8 c = crc_bit (crc_bit (crc_bit (crc_bit (crc_bit (crc_bit (crc_bit (crc_bit c)))))))"

fun crc_ref :: "u16 \<Rightarrow> u8 list \<Rightarrow> u16" where
  "crc_ref crc [] = crc"
| "crc_ref crc (b # bs) = crc_ref (crc_bits8 (crc XOR ucast b)) bs"

section \<open>The table is the polynomial\<close>

text \<open>Division by the polynomial is linear over XOR.\<close>

lemma crc_bit_xor: "crc_bit (a XOR b) = crc_bit a XOR crc_bit b"
  by (auto simp: crc_bit_def bit_xor_iff drop_bit_xor ac_simps)

lemma crc_bits8_xor: "crc_bits8 (a XOR b) = crc_bits8 a XOR crc_bits8 b"
  by (simp only: crc_bits8_def crc_bit_xor)

text \<open>
  So the table is determined by its entries at the powers of two: it can be built by doubling,
  the second half being the first with one more power of two in the index.
\<close>

lemma of_nat_pow_xor:
  assumes "i < 2 ^ k"
  shows "of_nat (2 ^ k + i) = (2 ^ k XOR of_nat i :: u16)"
proof -
  have "\<not> bit i k"
    using assms by (simp add: bit_iff_odd)
  then have "2 ^ k AND i = 0"
    by (intro bit_eqI) (auto simp: bit_simps)
  then have "2 ^ k + i = 2 ^ k XOR i"
    by (simp add: disjunctive_add_eq_or disjunctive_xor_eq_or)
  then show ?thesis
    by (simp only: of_nat_xor_eq of_nat_power of_nat_numeral)
qed

lemma crc_bits8_basis:
  "crc_bits8 0 = 0"
  "crc_bits8 1 = 0xC0C1" "crc_bits8 2 = 0xC181" "crc_bits8 4 = 0xC301" "crc_bits8 8 = 0xC601"
  "crc_bits8 16 = 0xCC01" "crc_bits8 32 = 0xD801" "crc_bits8 64 = 0xF001" "crc_bits8 128 = 0xA001"
  by (simp_all add: crc_bits8_def crc_bit_def)

definition doubles :: "nat \<Rightarrow> bool" where
  "doubles k \<longleftrightarrow> take (2 ^ k) (drop (2 ^ k) crc_table)
     = map (\<lambda>x. crc_bits8 (2 ^ k) XOR x) (take (2 ^ k) crc_table)"

lemma doubles_table: "k < 8 \<Longrightarrow> doubles k"
proof -
  have "doubles 0" "doubles 1" "doubles 2" "doubles 3" "doubles 4" "doubles 5" "doubles 6" "doubles 7"
    by (simp_all add: doubles_def crc_table_def crc_bits8_basis)
  moreover assume "k < 8"
  then have "k \<in> {0, 1, 2, 3, 4, 5, 6, 7}" by auto
  ultimately show "doubles k" by auto
qed

lemma crc_table_prefix:
  "k \<le> 8 \<Longrightarrow> take (2 ^ k) crc_table = map (\<lambda>i. crc_bits8 (of_nat i)) [0..<2 ^ k]"
proof (induction k)
  case 0
  show ?case by (simp add: crc_table_def crc_bits8_basis)
next
  case (Suc k)
  have "take (2 ^ Suc k) crc_table = take (2 ^ k) crc_table @ take (2 ^ k) (drop (2 ^ k) crc_table)"
    by (simp add: take_add [symmetric] mult_2)
  also have "\<dots> = map (\<lambda>i. crc_bits8 (of_nat i)) [0..<2 ^ k]
      @ map (\<lambda>i. crc_bits8 (of_nat (2 ^ k + i))) [0..<2 ^ k]"
    using Suc doubles_table [of k]
    by (auto simp: doubles_def of_nat_pow_xor crc_bits8_xor simp del: of_nat_add)
  also have "\<dots> = map (\<lambda>i. crc_bits8 (of_nat i)) [0..<2 ^ Suc k]"
    by (rule nth_equalityI) (auto simp: nth_append simp del: upt_Suc)
  finally show ?case .
qed

lemma crc_table_nth: "unat x < 256 \<Longrightarrow> crc_table ! unat x = crc_bits8 x"
proof -
  assume x: "unat x < 256"
  have "take 256 crc_table = map (\<lambda>i. crc_bits8 (of_nat i)) [0..<256]"
    using crc_table_prefix [of 8] by simp
  then have "take 256 crc_table ! unat x = map (\<lambda>i. crc_bits8 (of_nat i)) [0..<256] ! unat x"
    by (rule arg_cong)
  with x show ?thesis by simp
qed

section \<open>One table step is eight polynomial steps\<close>

lemma crc_bit_high: "\<not> bit c 0 \<Longrightarrow> crc_bit c = drop_bit 1 c"
  by (simp add: crc_bit_def)

lemma crc_bits8_shift:
  assumes "\<And>n. n < 8 \<Longrightarrow> \<not> bit c n"
  shows "crc_bits8 c = drop_bit 8 c"
  using assms by (simp add: crc_bits8_def crc_bit_high bit_drop_bit_eq numeral_eq_Suc)

text \<open>
  The low byte selects the table entry and the high byte only moves down: the two halves of
  the shifted register, XORed.
\<close>

lemma crc_step_eq: "crc_step crc b = crc_bits8 (crc XOR ucast b)"
proof -
  define x where "x = crc XOR ucast b"
  have split: "x = (x AND NOT 0xFF) XOR (x AND 0xFF)"
    by (rule bit_word_eqI) (auto simp: bit_simps)
  have "crc_bits8 (x AND NOT 0xFF) = drop_bit 8 (x AND NOT 0xFF)"
    by (rule crc_bits8_shift) (auto simp: bit_simps)
  also have "\<dots> = drop_bit 8 crc"
    by (rule bit_word_eqI) (auto simp: x_def bit_simps dest: bit_imp_le_length)
  finally have high: "crc_bits8 (x AND NOT 0xFF) = drop_bit 8 crc" .
  have "crc_table ! unat (x AND 0xFF) = crc_bits8 (x AND 0xFF)"
    by (rule crc_table_nth) simp
  with high show ?thesis
    unfolding crc_step_def x_def [symmetric] by (subst (2) split) (simp add: crc_bits8_xor)
qed

lemma crc_loop_ref:
  "len \<le> length data \<Longrightarrow> crc_loop crc data len = Some (crc_ref crc (take len data))"
  by (induction crc data len rule: crc_loop.induct) (auto simp: crc_step_eq)

lemma crc_loop_overrun: "length data < len \<Longrightarrow> crc_loop crc data len = None"
  by (induction crc data len rule: crc_loop.induct) auto

lemma mb_slv_crc16_ref:
  "unat len \<le> length data \<Longrightarrow> mb_slv_crc16 data len = Some (crc_ref 0xFFFF (take (unat len) data))"
  by (simp add: mb_slv_crc16_def crc_loop_ref)

lemma crc_ref_append [simp]: "crc_ref c (xs @ ys) = crc_ref (crc_ref c xs) ys"
  by (induction xs arbitrary: c) auto

section \<open>What the code word detects\<close>

lemma crc_bit_inj: "crc_bit a = crc_bit b \<Longrightarrow> a = b"
proof -
  assume eq: "crc_bit a = crc_bit b"
  have top: "bit (crc_bit c) 15 = bit c 0" for c
    by (auto simp: crc_bit_def bit_simps dest: bit_imp_le_length)
  have rest: "bit (crc_bit c XOR (if bit c 0 then 0xA001 else 0)) n = bit c (Suc n)" for c n
    by (auto simp: crc_bit_def bit_simps)
  have 0: "bit a 0 = bit b 0"
    using top [of a] top [of b] eq by simp
  show ?thesis
  proof (rule bit_word_eqI)
    fix n
    show "bit a n = bit b n"
      using 0 rest [of a "n - 1"] rest [of b "n - 1"] eq by (cases n) simp_all
  qed
qed

lemma crc_bits8_inject [simp]: "crc_bits8 a = crc_bits8 b \<longleftrightarrow> a = b"
  by (auto simp: crc_bits8_def dest!: crc_bit_inj)

lemma crc_ref_inject [simp]: "crc_ref c xs = crc_ref d xs \<longleftrightarrow> c = d"
  by (induction xs arbitrary: c d) auto

text \<open>No table entry but the first has an empty high byte.\<close>

lemma crc_table_low: "filter (\<lambda>x. x < 256) crc_table = [0]"
  by (simp add: crc_table_def)

lemma length_crc_table [simp]: "length crc_table = 256"
  by (simp add: crc_table_def)

lemma crc_bits8_low:
  assumes "crc_bits8 (ucast d) = ucast (e :: u8)"
  shows "d = (0 :: u8)"
proof -
  have t: "crc_table ! unat (ucast d :: u16) = ucast e"
    using assms crc_table_nth [of "ucast d"] by simp
  moreover have "(ucast e :: u16) < 256"
    by (simp add: word_less_nat_alt)
  ultimately have "ucast e \<in> set (filter (\<lambda>x. x < 256) crc_table)"
    by (auto simp: in_set_conv_nth intro!: exI [of _ "unat d"])
  then have "crc_bits8 (ucast d) = crc_bits8 0"
    using assms by (simp add: crc_table_low crc_bits8_basis)
  then have "ucast d = (ucast (0 :: u8) :: u16)"
    by simp
  then show ?thesis by (simp only: ucast_u8_inject)
qed

text \<open>Two messages that differ inside two adjacent bytes have different code words.\<close>

lemma crc_ref_two_bytes:
  "crc_ref c [x, y] = crc_ref c [x', y'] \<longleftrightarrow> x = x' \<and> y = y'"
proof
  assume "crc_ref c [x, y] = crc_ref c [x', y']"
  then have "crc_bits8 (c XOR ucast x) XOR ucast y = crc_bits8 (c XOR ucast x') XOR ucast y'"
    by simp
  then have "(crc_bits8 c XOR crc_bits8 (ucast x)) XOR ucast y
      = (crc_bits8 c XOR crc_bits8 (ucast x')) XOR ucast y'"
    by (simp only: crc_bits8_xor)
  then have "crc_bits8 (ucast x) XOR ucast y = crc_bits8 (ucast x') XOR ucast y'"
    by (simp only: xor.assoc xor_left_cancel)
  then have "crc_bits8 (ucast x XOR ucast x') = ucast y XOR ucast y'"
    unfolding crc_bits8_xor by (rule xor_transpose)
  then have "crc_bits8 (ucast (x XOR x')) = ucast (y XOR y')"
    by (simp only: unsigned_xor_eq)
  then have "x XOR x' = 0" by (rule crc_bits8_low)
  then have "x = x'" by simp
  with \<open>crc_ref c [x, y] = _\<close> show "x = x' \<and> y = y'" by simp
qed simp

lemma crc_ref_burst:
  "crc_ref c (pre @ [x, y] @ post) = crc_ref c (pre @ [x', y'] @ post) \<longleftrightarrow> x = x' \<and> y = y'"
  by (simp only: crc_ref_append crc_ref_inject crc_ref_two_bytes)

text \<open>The code word sent low byte first leaves the register at zero, and no other does.\<close>

lemma crc_ref_residue: "crc_ref c [lo8 c, hi8 c] = 0"
proof -
  have lo: "crc_bits8 (c XOR ucast (lo8 c)) = drop_bit 8 c"
  proof -
    have "crc_bits8 (c XOR ucast (lo8 c)) = drop_bit 8 (c XOR ucast (lo8 c))"
      by (rule crc_bits8_shift) (auto simp: bit_simps)
    also have "\<dots> = drop_bit 8 c"
      by (rule bit_word_eqI) (auto simp: bit_simps)
    finally show ?thesis .
  qed
  have "drop_bit 8 c XOR ucast (hi8 c) = 0"
    by (rule bit_word_eqI) (auto simp: bit_simps ac_simps dest: bit_imp_le_length)
  with lo show ?thesis by (simp add: crc_bits8_basis)
qed

lemma crc_ref_residue_iff: "crc_ref c [x, y] = 0 \<longleftrightarrow> x = lo8 c \<and> y = hi8 c"
  by (metis crc_ref_residue crc_ref_two_bytes)

section \<open>The interface the frame layer relies on\<close>

text \<open>
  A checksum whose code word, sent low byte first, brings the register back to zero, and which
  tells messages apart that differ inside two adjacent bytes.
\<close>

locale checksum =
  fixes sum :: "u8 list \<Rightarrow> u16"
  assumes seal_iff: "sum (d @ [x, y]) = 0 \<longleftrightarrow> x = lo8 (sum d) \<and> y = hi8 (sum d)"
    and burst: "sum (p @ [x, y] @ q) = sum (p @ [x', y'] @ q) \<longleftrightarrow> x = x' \<and> y = y'"
begin

lemma seal_zero: "sum (d @ [lo8 (sum d), hi8 (sum d)]) = 0"
  by (simp add: seal_iff)

lemma trailer_iff:
  assumes "2 \<le> length fr"
  shows "sum fr = 0 \<longleftrightarrow>
    be16 (fr ! (length fr - 1)) (fr ! (length fr - 2)) = sum (take (length fr - 2) fr)"
proof -
  let ?d = "take (length fr - 2) fr"
  have "drop (length fr - 2) fr = [fr ! (length fr - 2), fr ! (length fr - 1)]"
    using assms by (intro nth_equalityI) (auto simp: less_Suc_eq numeral_2_eq_2)
  then have "fr = ?d @ [fr ! (length fr - 2), fr ! (length fr - 1)]"
    by (metis append_take_drop_id)
  then have "sum fr = 0 \<longleftrightarrow>
      fr ! (length fr - 2) = lo8 (sum ?d) \<and> fr ! (length fr - 1) = hi8 (sum ?d)"
    by (metis seal_iff)
  then show ?thesis by (metis be16_hi8_lo8 hi8_be16 lo8_be16)
qed

lemma burst_breaks_seal:
  "sum (p @ [x, y] @ q) = 0 \<Longrightarrow> (x, y) \<noteq> (x', y') \<Longrightarrow> sum (p @ [x', y'] @ q) \<noteq> 0"
  using burst [of p x y q x' y'] by auto

end

interpretation crc: checksum "crc_ref 0xFFFF"
  by unfold_locales (simp_all only: crc_ref_append crc_ref_residue_iff crc_ref_inject crc_ref_two_bytes)

section \<open>Properties\<close>

text \<open>
  C7: the table-driven \<open>mb_slv_crc16\<close> computes the bit-serial CRC-16 of Modbus (reflected
  polynomial 0xA001, initial value 0xFFFF) of the first \<open>len\<close> bytes, for every input, and
  reads outside its array only when the length it is given exceeds the array.
\<close>
theorem mb_slv_crc16_is_reference:
  "mb_slv_crc16 data len
    = (if unat len \<le> length data then Some (crc_ref 0xFFFF (take (unat len) data)) else None)"
  by (simp add: mb_slv_crc16_ref) (simp add: mb_slv_crc16_def crc_loop_overrun)

end
