(* ===== verification/Mb_Data.thy ===== *)
theory Mb_Data
  imports Fw_Base
begin

text \<open>
  \<open>Services/ModbusrtuSlvArm/src/mb_slv_data.c\<close>: the holding registers, their range-checked
  block read and write, and the write callback. The statics \<open>hold_regs\<close> and
  \<open>write_cb\<close> are the state; a callback is a function pointer (a number, 0 being the null
  pointer) and its calls are recorded in order.
\<close>

section \<open>State and operations\<close>

definition HOLD_REG_COUNT :: nat where
  "HOLD_REG_COUNT = 100"

record mb_data =
  hold_regs :: "u16 list"
  write_cb :: nat
  cb_calls :: "(nat \<times> u16 \<times> u16) list"

definition mb_data_init :: "mb_data \<Rightarrow> (int \<times> mb_data) option" where
  "mb_data_init d = do {
     regs \<leftarrow> for_range 0 HOLD_REG_COUNT (\<lambda>i regs. arr_set regs i 0) (hold_regs d);
     Some (0, d\<lparr>hold_regs := regs\<rparr>)
   }"

definition mb_data_read :: "mb_data \<Rightarrow> u16 \<Rightarrow> u16 \<Rightarrow> u16 list \<Rightarrow> (int \<times> u16 list) option" where
  "mb_data_read d start_addr count out_buf =
     (if unat start_addr + unat count > HOLD_REG_COUNT then Some (-1, out_buf)
      else do {
        out \<leftarrow> for_range 0 (unat count) (\<lambda>i out. do {
          v \<leftarrow> arr_get (hold_regs d) (unat start_addr + i);
          arr_set out i v
        }) out_buf;
        Some (0, out)
      })"

definition mb_data_write :: "mb_data \<Rightarrow> u16 \<Rightarrow> u16 \<Rightarrow> u8 list \<Rightarrow> (int \<times> mb_data) option" where
  "mb_data_write d start_addr count data =
     (if unat start_addr + unat count > HOLD_REG_COUNT then Some (-1, d)
      else do {
        regs \<leftarrow> for_range 0 (unat count) (\<lambda>i regs. do {
          h \<leftarrow> arr_get data (i * 2);
          l \<leftarrow> arr_get data (i * 2 + 1);
          arr_set regs (unat start_addr + i) (be16 h l)
        }) (hold_regs d);
        let d = d\<lparr>hold_regs := regs\<rparr>;
        Some (0, if write_cb d \<noteq> 0
                 then d\<lparr>cb_calls := cb_calls d @ [(write_cb d, start_addr, count)]\<rparr> else d)
      })"

definition mb_data_set_write_callback :: "mb_data \<Rightarrow> nat \<Rightarrow> mb_data" where
  "mb_data_set_write_callback d cb = d\<lparr>write_cb := cb\<rparr>"

text \<open>The array keeps its length.\<close>

definition mb_data_ok :: "mb_data \<Rightarrow> bool" where
  "mb_data_ok d \<longleftrightarrow> length (hold_regs d) = HOLD_REG_COUNT"

section \<open>Closed forms of the loops\<close>

definition regs_of_bytes :: "nat \<Rightarrow> u8 list \<Rightarrow> u16 list" where
  "regs_of_bytes n data = map (\<lambda>i. be16 (data ! (i * 2)) (data ! (i * 2 + 1))) [0..<n]"

lemma length_regs_of_bytes [simp]: "length (regs_of_bytes n data) = n"
  by (simp add: regs_of_bytes_def)

lemma nth_regs_of_bytes [simp]:
  "i < n \<Longrightarrow> regs_of_bytes n data ! i = be16 (data ! (i * 2)) (data ! (i * 2 + 1))"
  by (simp add: regs_of_bytes_def)

lemma mb_data_init_eq:
  "mb_data_ok d \<Longrightarrow> mb_data_init d = Some (0, d\<lparr>hold_regs := replicate HOLD_REG_COUNT 0\<rparr>)"
  by (simp add: mb_data_init_def mb_data_ok_def for_range_fill [where s = 0 and g = "\<lambda>_. 0"]
      splice_def map_replicate_const)

lemma mb_data_read_reject:
  "HOLD_REG_COUNT < unat start + unat count \<Longrightarrow> mb_data_read d start count out = Some (-1, out)"
  by (simp add: mb_data_read_def)

lemma mb_data_read_eq:
  assumes "mb_data_ok d" and "unat start + unat count \<le> HOLD_REG_COUNT"
    and "unat count \<le> length out"
  shows "mb_data_read d start count out
    = Some (0, splice out 0 (take (unat count) (drop (unat start) (hold_regs d))))"
proof -
  let ?g = "\<lambda>i. hold_regs d ! (unat start + i)"
  have "for_range 0 (unat count)
      (\<lambda>i out. arr_get (hold_regs d) (unat start + i) \<bind> arr_set out i) out
    = Some (splice out 0 (map ?g [0..<unat count]))"
    by (rule for_range_fill) (use assms in \<open>auto simp: mb_data_ok_def\<close>)
  moreover have "map ?g [0..<unat count] = take (unat count) (drop (unat start) (hold_regs d))"
    by (rule nth_equalityI) (use assms in \<open>auto simp: mb_data_ok_def\<close>)
  ultimately show ?thesis
    using assms by (simp add: mb_data_read_def)
qed

lemma mb_data_write_reject:
  "HOLD_REG_COUNT < unat start + unat count \<Longrightarrow> mb_data_write d start count data = Some (-1, d)"
  by (simp add: mb_data_write_def)

definition cb_notify :: "u16 \<Rightarrow> u16 \<Rightarrow> mb_data \<Rightarrow> mb_data" where
  "cb_notify start count d =
     (if write_cb d \<noteq> 0 then d\<lparr>cb_calls := cb_calls d @ [(write_cb d, start, count)]\<rparr> else d)"

lemma hold_regs_cb_notify [simp]: "hold_regs (cb_notify s c d) = hold_regs d"
  by (simp add: cb_notify_def)

lemma mb_data_write_eq:
  assumes "mb_data_ok d" and "unat start + unat count \<le> HOLD_REG_COUNT"
    and "unat count * 2 \<le> length data"
  shows "mb_data_write d start count data
    = Some (0, cb_notify start count
        (d\<lparr>hold_regs := splice (hold_regs d) (unat start) (regs_of_bytes (unat count) data)\<rparr>))"
proof -
  have "for_range 0 (unat count)
      (\<lambda>i regs. arr_get data (i * 2) \<bind> (\<lambda>h. arr_get data (i * 2 + 1) \<bind>
        (\<lambda>l. arr_set regs (unat start + i) (be16 h l)))) (hold_regs d)
    = Some (splice (hold_regs d) (unat start)
        (map (\<lambda>i. be16 (data ! (i * 2)) (data ! (i * 2 + 1))) [0..<unat count]))"
    by (rule for_range_fill) (use assms in \<open>auto simp: mb_data_ok_def\<close>)
  then show ?thesis
    using assms by (simp add: mb_data_write_def cb_notify_def regs_of_bytes_def)
qed

lemmas mb_data_eqs = mb_data_read_reject mb_data_read_eq mb_data_write_reject mb_data_write_eq

lemma mb_data_write_ok:
  assumes "mb_data_ok d" and "unat count * 2 \<le> length data"
  shows "\<exists>r d'. mb_data_write d start count data = Some (r, d') \<and> mb_data_ok d' \<and> r \<in> {0, -1}"
proof (cases "unat start + unat count \<le> HOLD_REG_COUNT")
  case True
  with assms show ?thesis by (auto simp: mb_data_write_eq mb_data_ok_def)
next
  case False
  with assms show ?thesis by (simp add: mb_data_write_reject)
qed

end
