(* ===== verification/Mb_Frame.thy ===== *)
theory Mb_Frame
  imports Mb_Crc Mb_Data
begin

text \<open>
  \<open>Services/ModbusrtuSlvArm/src/mb_slv_frame.c\<close> and \<open>inc/mb_slv_frame.h\<close>: parsing
  of a received frame and construction of the four kinds of response.
\<close>

section \<open>Data\<close>

datatype mb_slv_func_code_t = MB_SLV_FC_NONE | MB_SLV_FC03 | MB_SLV_FC06 | MB_SLV_FC10

text \<open>
  The anonymous union of \<open>reg_count\<close> and \<open>reg_value\<close> is the one field
  \<open>reg_union\<close>. The pointer \<open>data\<close> is the bytes reachable through it, to the end of the
  array it points into.
\<close>

record mb_slv_frame_t =
  slave_addr :: u8
  raw_func_code :: u8
  func_code :: mb_slv_func_code_t
  start_addr :: u16
  reg_union :: u16
  byte_count :: u8
  fr_data :: "u8 list"

abbreviation reg_count :: "mb_slv_frame_t \<Rightarrow> u16" where
  "reg_count \<equiv> reg_union"

abbreviation reg_value :: "mb_slv_frame_t \<Rightarrow> u16" where
  "reg_value \<equiv> reg_union"

section \<open>Parsing\<close>

definition frame_get_u16_be :: "u8 list \<Rightarrow> nat \<Rightarrow> u16 option" where
  "frame_get_u16_be buf i = do {
     h \<leftarrow> arr_get buf i;
     l \<leftarrow> arr_get buf (i + 1);
     Some (be16 h l)
   }"

definition parse_fc03 :: "u8 list \<Rightarrow> u16 \<Rightarrow> mb_slv_frame_t \<Rightarrow> (int \<times> mb_slv_frame_t) option" where
  "parse_fc03 buf len fr =
     (if len < 8 then Some (-1, fr) else do {
        a \<leftarrow> frame_get_u16_be buf 2;
        n \<leftarrow> frame_get_u16_be buf 4;
        let fr = fr\<lparr>start_addr := a, reg_union := n\<rparr>;
        if reg_count fr = 0 \<or> 125 < reg_count fr then Some (-1, fr)
        else Some (0, fr\<lparr>func_code := MB_SLV_FC03\<rparr>)
      })"

definition parse_fc06 :: "u8 list \<Rightarrow> u16 \<Rightarrow> mb_slv_frame_t \<Rightarrow> (int \<times> mb_slv_frame_t) option" where
  "parse_fc06 buf len fr =
     (if len < 8 then Some (-1, fr) else do {
        a \<leftarrow> frame_get_u16_be buf 2;
        v \<leftarrow> frame_get_u16_be buf 4;
        Some (0, fr\<lparr>start_addr := a, reg_union := v, func_code := MB_SLV_FC06\<rparr>)
      })"

definition parse_fc10 :: "u8 list \<Rightarrow> u16 \<Rightarrow> mb_slv_frame_t \<Rightarrow> (int \<times> mb_slv_frame_t) option" where
  "parse_fc10 buf len fr =
     (if len < 9 then Some (-1, fr) else do {
        a \<leftarrow> frame_get_u16_be buf 2;
        n \<leftarrow> frame_get_u16_be buf 4;
        b \<leftarrow> arr_get buf 6;
        let fr = fr\<lparr>start_addr := a, reg_union := n, byte_count := b\<rparr>;
        if unat (byte_count fr) \<noteq> unat (reg_count fr) * 2 then Some (-1, fr)
        else if len \<noteq> 7 + ucast (byte_count fr) + 2 then Some (-1, fr)
        else Some (0, fr\<lparr>fr_data := drop 7 buf, func_code := MB_SLV_FC10\<rparr>)
      })"

definition mb_slv_parse_request :: "u8 list \<Rightarrow> u16 \<Rightarrow> mb_slv_frame_t \<Rightarrow> (int \<times> mb_slv_frame_t) option" where
  "mb_slv_parse_request buf len fr =
     (if len < 8 then Some (-1, fr) else do {
        h \<leftarrow> arr_get buf (unat len - 1);
        l \<leftarrow> arr_get buf (unat len - 2);
        let crc_recv = be16 h l;
        crc_calc \<leftarrow> mb_slv_crc16 buf (len - 2);
        if crc_calc \<noteq> crc_recv then Some (-1, fr) else do {
          a \<leftarrow> arr_get buf 0;
          fc \<leftarrow> arr_get buf 1;
          let fr = fr\<lparr>slave_addr := a, raw_func_code := fc\<rparr>;
          if fc = 0x03 then parse_fc03 buf len fr
          else if fc = 0x06 then parse_fc06 buf len fr
          else if fc = 0x10 then parse_fc10 buf len fr
          else Some (0, fr\<lparr>func_code := MB_SLV_FC_NONE\<rparr>)
        }
      })"

section \<open>Building responses\<close>

definition put_crc :: "u8 list \<Rightarrow> nat \<Rightarrow> (u8 list) option" where
  "put_crc tx n = do {
     crc \<leftarrow> mb_slv_crc16 tx (of_nat n);
     tx \<leftarrow> arr_set tx n (lo8 crc);
     arr_set tx (n + 1) (hi8 crc)
   }"

definition mb_slv_build_fc03_resp :: "mb_slv_frame_t \<Rightarrow> u16 list \<Rightarrow> u8 list \<Rightarrow> (u16 \<times> u8 list) option" where
  "mb_slv_build_fc03_resp fr regs tx = do {
     let reg_count = reg_count fr;
     tx \<leftarrow> arr_set tx 0 (slave_addr fr);
     tx \<leftarrow> arr_set tx 1 (raw_func_code fr);
     tx \<leftarrow> arr_set tx 2 (ucast (reg_count * 2));
     tx \<leftarrow> for_range 0 (unat reg_count) (\<lambda>i tx. do {
       r \<leftarrow> arr_get regs i;
       tx \<leftarrow> arr_set tx (3 + i * 2) (hi8 r);
       arr_set tx (3 + i * 2 + 1) (lo8 r)
     }) tx;
     tx \<leftarrow> put_crc tx (3 + unat reg_count * 2);
     Some (5 + reg_count * 2, tx)
   }"

definition mb_slv_build_fc06_resp :: "mb_slv_frame_t \<Rightarrow> u8 list \<Rightarrow> (u16 \<times> u8 list) option" where
  "mb_slv_build_fc06_resp fr tx = do {
     tx \<leftarrow> arr_set tx 0 (slave_addr fr);
     tx \<leftarrow> arr_set tx 1 (raw_func_code fr);
     tx \<leftarrow> arr_set tx 2 (hi8 (start_addr fr));
     tx \<leftarrow> arr_set tx 3 (lo8 (start_addr fr));
     tx \<leftarrow> arr_set tx 4 (hi8 (reg_value fr));
     tx \<leftarrow> arr_set tx 5 (lo8 (reg_value fr));
     tx \<leftarrow> put_crc tx 6;
     Some (8, tx)
   }"

definition mb_slv_build_fc10_resp :: "mb_slv_frame_t \<Rightarrow> u8 list \<Rightarrow> (u16 \<times> u8 list) option" where
  "mb_slv_build_fc10_resp fr tx = do {
     tx \<leftarrow> arr_set tx 0 (slave_addr fr);
     tx \<leftarrow> arr_set tx 1 (raw_func_code fr);
     tx \<leftarrow> arr_set tx 2 (hi8 (start_addr fr));
     tx \<leftarrow> arr_set tx 3 (lo8 (start_addr fr));
     tx \<leftarrow> arr_set tx 4 (hi8 (reg_count fr));
     tx \<leftarrow> arr_set tx 5 (lo8 (reg_count fr));
     tx \<leftarrow> put_crc tx 6;
     Some (8, tx)
   }"

definition mb_slv_build_exception :: "mb_slv_frame_t \<Rightarrow> u8 \<Rightarrow> u8 list \<Rightarrow> (u16 \<times> u8 list) option" where
  "mb_slv_build_exception fr ex_code tx = do {
     tx \<leftarrow> arr_set tx 0 (slave_addr fr);
     tx \<leftarrow> arr_set tx 1 (raw_func_code fr OR 0x80);
     tx \<leftarrow> arr_set tx 2 ex_code;
     tx \<leftarrow> put_crc tx 3;
     Some (5, tx)
   }"

section \<open>What the responses are\<close>

text \<open>A message with its code word, and the big-endian bytes of a register block.\<close>

definition sealed :: "u8 list \<Rightarrow> u8 list" where
  "sealed d = d @ [lo8 (crc_ref 0xFFFF d), hi8 (crc_ref 0xFFFF d)]"

definition bytes_of_regs :: "u16 list \<Rightarrow> u8 list" where
  "bytes_of_regs rs = concat (map (\<lambda>r. [hi8 r, lo8 r]) rs)"

lemma length_sealed [simp]: "length (sealed d) = length d + 2"
  by (simp add: sealed_def)

lemma crc_sealed [simp]: "crc_ref 0xFFFF (sealed d) = 0"
  unfolding sealed_def by (rule crc.seal_zero)

lemma bytes_of_regs_simps [simp]:
  "bytes_of_regs [] = []" "bytes_of_regs (r # rs) = hi8 r # lo8 r # bytes_of_regs rs"
  "bytes_of_regs (xs @ ys) = bytes_of_regs xs @ bytes_of_regs ys"
  by (simp_all add: bytes_of_regs_def)

lemma length_bytes_of_regs [simp]: "length (bytes_of_regs rs) = 2 * length rs"
  by (induction rs) auto

lemma regs_of_bytes_Suc:
  "regs_of_bytes (Suc n) (h # l # data) = be16 h l # regs_of_bytes n data"
  by (rule nth_equalityI) (auto simp: nth_Cons split: nat.splits)

lemma regs_of_bytes_of_regs [simp]:
  "regs_of_bytes (length rs) (bytes_of_regs rs @ rest) = rs"
  by (induction rs) (auto simp: regs_of_bytes_Suc, simp add: regs_of_bytes_def)

text \<open>\<open>message tx d\<close>: the array \<open>tx\<close> with \<open>d\<close> written at its start.\<close>

definition message :: "u8 list \<Rightarrow> u8 list \<Rightarrow> u8 list" where
  "message tx d = splice tx 0 d"

lemma length_message [simp]: "length d \<le> length tx \<Longrightarrow> length (message tx d) = length tx"
  by (simp add: message_def)

lemma take_message [simp]: "length d \<le> length tx \<Longrightarrow> take (length d) (message tx d) = d"
  by (simp add: message_def splice_def)

lemma arr_set_message:
  "length d < length tx \<Longrightarrow> n = length d \<Longrightarrow> arr_set (message tx d) n v = Some (message tx (d @ [v]))"
  using splice_update [of 0 d tx v] by (simp add: message_def)

lemma arr_set_start: "0 < length tx \<Longrightarrow> arr_set tx 0 v = Some (message tx [v])"
  using arr_set_message [of "[]" tx 0 v] by (simp add: message_def)

lemma message_Nil [simp]: "message tx [] = tx"
  by (simp add: message_def)

lemma put_crc_message:
  assumes "length d + 2 \<le> length tx" and "length d < 65536" and "n = length d"
  shows "put_crc (message tx d) n = Some (message tx (sealed d))"
proof -
  have "unat (of_nat n :: u16) = n"
    using assms by (simp add: unat_of_nat)
  then have "mb_slv_crc16 (message tx d) (of_nat n) = Some (crc_ref 0xFFFF d)"
    using assms by (simp add: mb_slv_crc16_ref)
  with assms show ?thesis
    by (simp add: put_crc_def arr_set_message sealed_def del: arr_set_Some)
qed

lemma build_exception_eq:
  "5 \<le> length tx \<Longrightarrow> mb_slv_build_exception fr ex tx
    = Some (5, message tx (sealed [slave_addr fr, raw_func_code fr OR 0x80, ex]))"
  by (simp add: mb_slv_build_exception_def arr_set_start
      arr_set_message put_crc_message del: arr_set_Some length_greater_0_conv)

lemma build_fc06_eq:
  "8 \<le> length tx \<Longrightarrow> mb_slv_build_fc06_resp fr tx
    = Some (8, message tx (sealed ([slave_addr fr, raw_func_code fr]
        @ bytes_of_regs [start_addr fr, reg_value fr])))"
  by (simp add: mb_slv_build_fc06_resp_def arr_set_start
      arr_set_message put_crc_message del: arr_set_Some length_greater_0_conv)

lemma build_fc10_eq:
  "8 \<le> length tx \<Longrightarrow> mb_slv_build_fc10_resp fr tx
    = Some (8, message tx (sealed ([slave_addr fr, raw_func_code fr]
        @ bytes_of_regs [start_addr fr, reg_count fr])))"
  by (simp add: mb_slv_build_fc10_resp_def arr_set_start
      arr_set_message put_crc_message del: arr_set_Some length_greater_0_conv)

lemma build_regs_loop:
  assumes "length d + 2 * n \<le> length tx" and "n \<le> length regs" and "length d = 3"
  shows "for_range 0 n (\<lambda>i tx. arr_get regs i \<bind> (\<lambda>r. arr_set tx (3 + i * 2) (hi8 r)
      \<bind> (\<lambda>tx. arr_set tx (3 + i * 2 + 1) (lo8 r)))) (message tx d)
    = Some (message tx (d @ bytes_of_regs (take n regs)))"
proof -
  have "\<exists>t. for_range 0 n (\<lambda>i tx. arr_get regs i \<bind> (\<lambda>r. arr_set tx (3 + i * 2) (hi8 r)
      \<bind> (\<lambda>tx. arr_set tx (3 + i * 2 + 1) (lo8 r)))) (message tx d) = Some t
    \<and> t = message tx (d @ bytes_of_regs (take n regs))"
    by (rule for_range_inv [where P = "\<lambda>i t. t = message tx (d @ bytes_of_regs (take i regs))"])
      (use assms in \<open>auto simp: arr_set_message take_Suc_conv_app_nth simp del: arr_set_Some\<close>)
  then show ?thesis by simp
qed

lemma build_fc03_eq:
  assumes n: "n = unat (reg_count fr)" "n \<le> length regs" and tx: "5 + 2 * n \<le> length tx" "n \<le> 125"
  shows "mb_slv_build_fc03_resp fr regs tx
    = Some (of_nat (5 + 2 * n), message tx (sealed ([slave_addr fr, raw_func_code fr, of_nat (2 * n)]
        @ bytes_of_regs (take n regs))))"
proof -
  have r: "reg_count fr * 2 = of_nat (2 * n)" "5 + of_nat (2 * n) = (of_nat (5 + 2 * n) :: u16)"
    using n(1) by simp_all
  have len: "length (bytes_of_regs (take n regs)) = 2 * n" using n(2) by simp
  show ?thesis
    using n(2) tx len unfolding mb_slv_build_fc03_resp_def Let_def r ucast_of_nat_u8 n(1) [symmetric]
    by (simp add: arr_set_start arr_set_message build_regs_loop [simplified] put_crc_message mult.commute
        del: arr_set_Some length_greater_0_conv of_nat_add of_nat_mult)
qed

section \<open>What parsing accepts\<close>

lemma len_minus_2: "8 \<le> len \<Longrightarrow> unat (len - 2 :: u16) = unat len - 2"
  by (subst unat_sub) (auto simp: word_le_nat_alt)

text \<open>The part of \<open>mb_slv_parse_request\<close> after the CRC test.\<close>

definition parse_fields :: "u8 list \<Rightarrow> u16 \<Rightarrow> mb_slv_frame_t \<Rightarrow> (int \<times> mb_slv_frame_t) option" where
  "parse_fields buf len fr =
     (let fr = fr\<lparr>slave_addr := buf ! 0, raw_func_code := buf ! 1\<rparr>; fc = buf ! 1 in
      if fc = 0x03 then parse_fc03 buf len fr
      else if fc = 0x06 then parse_fc06 buf len fr
      else if fc = 0x10 then parse_fc10 buf len fr
      else Some (0, fr\<lparr>func_code := MB_SLV_FC_NONE\<rparr>))"

lemma parse_short [simp]: "len < 8 \<Longrightarrow> mb_slv_parse_request buf len fr = Some (-1, fr)"
  by (simp add: mb_slv_parse_request_def)

lemma parse_unfold:
  assumes "8 \<le> len" and "unat len \<le> length buf"
  shows "mb_slv_parse_request buf len fr =
    (if crc_ref 0xFFFF (take (unat len) buf) = 0 then parse_fields buf len fr else Some (-1, fr))"
proof -
  have n: "8 \<le> unat len" using assms(1) by (simp add: word_le_nat_alt)
  have crc: "mb_slv_crc16 buf (len - 2) = Some (crc_ref 0xFFFF (take (unat len - 2) buf))"
    using assms n by (simp add: mb_slv_crc16_ref len_minus_2)
  have seal: "crc_ref 0xFFFF (take (unat len) buf) = 0 \<longleftrightarrow>
      crc_ref 0xFFFF (take (unat len - 2) buf) = be16 (buf ! (unat len - 1)) (buf ! (unat len - 2))"
    using crc.trailer_iff [of "take (unat len) buf"] assms n by (auto simp: min_def)
  have "\<not> len < 8" "0 < length buf" using assms n by auto
  with assms(2) n crc seal show ?thesis
    by (simp add: mb_slv_parse_request_def parse_fields_def Let_def)
qed

lemma frame_get_u16_be_eq:
  "i + 1 < length buf \<Longrightarrow> frame_get_u16_be buf i = Some (be16 (buf ! i) (buf ! (i + 1)))"
  by (simp add: frame_get_u16_be_def)

text \<open>Parsing never reads outside the receive array, and only ever returns 0 or -1.\<close>

lemma parse_total:
  assumes "unat len \<le> length buf"
  shows "\<exists>r fr'. mb_slv_parse_request buf len fr = Some (r, fr') \<and> r \<in> {0, -1}"
proof (cases "len < 8")
  case False
  then have len: "8 \<le> len" and n: "8 \<le> length buf"
    using assms by (auto simp: not_less word_le_nat_alt)
  have "\<exists>r fr'. parse_fields buf len fr = Some (r, fr') \<and> r \<in> {0, -1}"
    using n by (auto simp: parse_fields_def parse_fc03_def parse_fc06_def parse_fc10_def
        frame_get_u16_be_eq Let_def)
  with len assms show ?thesis by (simp add: parse_unfold)
qed simp

text \<open>What every accepted frame satisfies.\<close>

definition frame_ok :: "mb_slv_frame_t \<Rightarrow> bool" where
  "frame_ok fr \<longleftrightarrow>
     (case func_code fr of
        MB_SLV_FC03 \<Rightarrow> 0 < reg_count fr \<and> reg_count fr \<le> 125
      | MB_SLV_FC10 \<Rightarrow> unat (byte_count fr) = unat (reg_count fr) * 2
          \<and> unat (reg_count fr) * 2 + 2 \<le> length (fr_data fr)
      | _ \<Rightarrow> True)"

lemma unat_len_fc10 [simp]: "unat (9 + ucast (b :: u8) :: u16) = 9 + unat b"
  using less_trans [OF u8_less_256 [of b], of 65000] by (simp add: unat_word_ariths)

lemma parse_frame_ok:
  assumes "mb_slv_parse_request buf len fr = Some (0, fr')" and "unat len \<le> length buf"
  shows "frame_ok fr' \<and> slave_addr fr' = buf ! 0 \<and> raw_func_code fr' = buf ! 1"
proof -
  have len: "8 \<le> len" using assms(1) by (cases "len < 8") (auto simp: not_less)
  then have n: "8 \<le> length buf" using assms(2) by (simp add: word_le_nat_alt)
  have "parse_fields buf len fr = Some (0, fr')"
    using assms len by (simp add: parse_unfold split: if_splits)
  then show ?thesis
    using n assms(2)
    by (auto simp: parse_fields_def parse_fc03_def parse_fc06_def parse_fc10_def frame_get_u16_be_eq
        frame_ok_def Let_def word_gt_0 not_less split: if_splits)
qed

section \<open>Requests of a master\<close>

text \<open>The three requests the slave implements, as the Modbus master puts them on the wire.\<close>

datatype request =
    ReadHolding u8 u16 u16
  | WriteSingle u8 u16 u16
  | WriteMultiple u8 u16 "u16 list"

fun request_bytes :: "request \<Rightarrow> u8 list" where
  "request_bytes (ReadHolding a s n) = sealed ([a, 0x03] @ bytes_of_regs [s, n])"
| "request_bytes (WriteSingle a s v) = sealed ([a, 0x06] @ bytes_of_regs [s, v])"
| "request_bytes (WriteMultiple a s rs) =
     sealed ([a, 0x10] @ bytes_of_regs [s, of_nat (length rs)] @ [of_nat (2 * length rs)]
       @ bytes_of_regs rs)"

fun request_ok :: "request \<Rightarrow> bool" where
  "request_ok (ReadHolding a s n) \<longleftrightarrow> 0 < n \<and> n \<le> 125"
| "request_ok (WriteSingle a s v) \<longleftrightarrow> True"
| "request_ok (WriteMultiple a s rs) \<longleftrightarrow> length rs \<le> 123"

text \<open>What the parser leaves in the frame structure \<open>fr\<close> for a request followed by \<open>rest\<close>.\<close>

fun request_frame :: "request \<Rightarrow> u8 list \<Rightarrow> mb_slv_frame_t \<Rightarrow> mb_slv_frame_t" where
  "request_frame (ReadHolding a s n) rest fr =
     fr\<lparr>slave_addr := a, raw_func_code := 0x03, func_code := MB_SLV_FC03, start_addr := s, reg_union := n\<rparr>"
| "request_frame (WriteSingle a s v) rest fr =
     fr\<lparr>slave_addr := a, raw_func_code := 0x06, func_code := MB_SLV_FC06, start_addr := s, reg_union := v\<rparr>"
| "request_frame (WriteMultiple a s rs) rest fr =
     fr\<lparr>slave_addr := a, raw_func_code := 0x10, func_code := MB_SLV_FC10, start_addr := s,
        reg_union := of_nat (length rs), byte_count := of_nat (2 * length rs),
        fr_data := drop 7 (request_bytes (WriteMultiple a s rs)) @ rest\<rparr>"

lemma length_request_bytes: "request_ok rq \<Longrightarrow> 8 \<le> length (request_bytes rq) \<and> length (request_bytes rq) < 256"
  by (cases rq) auto

lemma crc_request_bytes: "crc_ref 0xFFFF (request_bytes rq) = 0"
  by (cases rq) (simp_all only: request_bytes.simps crc_sealed)

lemma parse_fields_request:
  assumes "request_ok rq"
  shows "parse_fields (request_bytes rq @ rest) (of_nat (length (request_bytes rq))) fr
    = Some (0, request_frame rq rest fr)"
proof (cases rq)
  case (WriteMultiple a s rs)
  then have "length rs \<le> 123" using assms by simp
  then have B: "unat (of_nat (2 * length rs) :: u8) = 2 * length rs"
    and N: "unat (of_nat (length rs) :: u16) = length rs"
    by (simp_all add: unat_of_nat del: of_nat_mult)
  obtain x y where rq: "request_bytes rq = [a, 0x10, hi8 s, lo8 s, hi8 (of_nat (length rs)),
      lo8 (of_nat (length rs)), of_nat (2 * length rs)] @ bytes_of_regs rs @ [x, y]"
    using WriteMultiple by (simp add: sealed_def)
  have "unat (of_nat (length (request_bytes rq)) :: u16) = unat (9 + ucast (of_nat (2 * length rs) :: u8) :: u16)"
    unfolding unat_len_fc10 B using \<open>length rs \<le> 123\<close> by (simp add: rq unat_of_nat del: of_nat_mult of_nat_add of_nat_Suc)
  then have len: "of_nat (length (request_bytes rq)) = (9 + ucast (of_nat (2 * length rs) :: u8) :: u16)"
    by (simp only: word_unat_eq_iff)
  have "\<not> (9 + ucast (of_nat (2 * length rs) :: u8) :: u16) < 9"
    by (simp only: word_less_nat_alt unat_len_fc10) simp
  with rq len WriteMultiple B N show ?thesis
    by (simp add: parse_fields_def parse_fc10_def frame_get_u16_be_def del: of_nat_mult request_bytes.simps)
qed (use assms in \<open>auto simp: parse_fields_def parse_fc03_def parse_fc06_def frame_get_u16_be_def sealed_def Let_def word_gt_0 not_less\<close>)

lemma parse_request_bytes:
  assumes "request_ok rq"
  shows "mb_slv_parse_request (request_bytes rq @ rest) (of_nat (length (request_bytes rq))) fr
    = Some (0, request_frame rq rest fr)"
proof -
  have n: "unat (of_nat (length (request_bytes rq)) :: u16) = length (request_bytes rq)"
    using length_request_bytes [OF assms] by (simp add: unat_of_nat)
  have "8 \<le> (of_nat (length (request_bytes rq)) :: u16)"
    using length_request_bytes [OF assms] by (simp add: word_le_nat_alt n)
  then show ?thesis
    using assms by (simp add: parse_unfold n crc_request_bytes parse_fields_request)
qed

section \<open>Properties\<close>

text \<open>
  C4: a request of the master, as it stands on the wire at the start of the receive array, is
  parsed to exactly the request it encodes: address, function code, start register, count or
  value, and the register bytes of a block write.
\<close>
theorem parse_of_request:
  assumes "request_ok rq"
  shows "mb_slv_parse_request (request_bytes rq @ rest) (of_nat (length (request_bytes rq))) fr
    = Some (0, request_frame rq rest fr)"
  using assms by (rule parse_request_bytes)

lemma parse_of_request_witness:
  "mb_slv_parse_request (request_bytes (WriteMultiple 8 5 [0x1234, 0x5678]) @ [0, 0])
      (of_nat (length (request_bytes (WriteMultiple 8 5 [0x1234, 0x5678]))))
      \<lparr>slave_addr = 0, raw_func_code = 0, func_code = MB_SLV_FC_NONE, start_addr = 0, reg_union = 0,
        byte_count = 0, fr_data = []\<rparr>
    = Some (0, request_frame (WriteMultiple 8 5 [0x1234, 0x5678]) [0, 0]
      \<lparr>slave_addr = 0, raw_func_code = 0, func_code = MB_SLV_FC_NONE, start_addr = 0, reg_union = 0,
        byte_count = 0, fr_data = []\<rparr>)"
  by (rule parse_of_request) simp

lemma parse_accepts_sealed:
  assumes "mb_slv_parse_request buf len fr = Some (0, fr')" and "unat len \<le> length buf"
  shows "crc_ref 0xFFFF (take (unat len) buf) = 0"
proof -
  have "8 \<le> len" using assms(1) by (cases "len < 8") (auto simp: not_less)
  with assms show ?thesis by (simp add: parse_unfold split: if_splits)
qed

text \<open>
  C6: a transmission error confined to two adjacent bytes of an accepted frame, wherever it
  falls (the code word included), makes the parser reject the frame and leave the frame
  structure as it was.
\<close>
theorem parse_rejects_burst_error:
  assumes "mb_slv_parse_request (p @ [x, y] @ q @ rest) len fr = Some (0, fr')"
    and "unat len = length p + 2 + length q" and "(x, y) \<noteq> (x', y')"
  shows "mb_slv_parse_request (p @ [x', y'] @ q @ rest) len fr = Some (-1, fr)"
proof -
  have "crc_ref 0xFFFF (p @ [x, y] @ q) = 0"
    using parse_accepts_sealed [OF assms(1)] assms(2) by simp
  then have "crc_ref 0xFFFF (p @ [x', y'] @ q) \<noteq> 0"
    using assms(3) by (rule crc.burst_breaks_seal)
  then show ?thesis
    using assms(2) by (cases "len < 8") (simp_all add: parse_unfold not_less)
qed

lemma parse_read_request_frame:
  "mb_slv_parse_request ([8, 3, 0] @ [0, 0] @ [2, 0xC4, 0x92] @ []) 8 fr
    = Some (0, fr\<lparr>slave_addr := 8, raw_func_code := 3, func_code := MB_SLV_FC03, start_addr := 0,
        reg_union := 2\<rparr>)"
proof -
  have "request_bytes (ReadHolding 8 0 2) = [8, 3, 0, 0, 0, 2, 0xC4, 0x92]"
    by (simp add: sealed_def hi8_def lo8_def crc_bits8_def crc_bit_def)
  then show ?thesis using parse_request_bytes [of "ReadHolding 8 0 2" "[]" fr] by simp
qed

lemma parse_rejects_burst_error_witness:
  "mb_slv_parse_request ([8, 3, 0] @ [1, 7] @ [2, 0xC4, 0x92] @ []) 8
      \<lparr>slave_addr = 0, raw_func_code = 0, func_code = MB_SLV_FC_NONE, start_addr = 0, reg_union = 0,
        byte_count = 0, fr_data = []\<rparr>
    = Some (-1, \<lparr>slave_addr = 0, raw_func_code = 0, func_code = MB_SLV_FC_NONE, start_addr = 0,
        reg_union = 0, byte_count = 0, fr_data = []\<rparr>)"
  by (rule parse_rejects_burst_error [OF parse_read_request_frame]) simp_all

text \<open>
  C8: parsing is memory-safe and total. For every content of a receive array that holds at least
  \<open>len\<close> bytes it returns 0 or -1; when it returns 0 the checksum held, the address and the raw
  function code are the first two bytes, a read asks for 1 to 125 registers, and the payload of
  a block write has two bytes per register inside the array.
\<close>
theorem parse_safe:
  assumes "unat len \<le> length buf"
  shows "\<exists>r fr'. mb_slv_parse_request buf len fr = Some (r, fr')
    \<and> (r = 0 \<and> frame_ok fr' \<and> slave_addr fr' = buf ! 0 \<and> raw_func_code fr' = buf ! 1
          \<and> crc_ref 0xFFFF (take (unat len) buf) = 0
       \<or> r = -1)"
proof -
  obtain r fr' where r: "mb_slv_parse_request buf len fr = Some (r, fr')" "r \<in> {0, -1}"
    using parse_total [OF assms] by blast
  show ?thesis
  proof (cases "r = 0")
    case True
    with r have p: "mb_slv_parse_request buf len fr = Some (0, fr')" by simp
    with parse_frame_ok [OF p assms] parse_accepts_sealed [OF p assms] show ?thesis by simp
  next
    case False
    with r show ?thesis by simp
  qed
qed

lemma parse_safe_witness:
  "\<exists>r fr'. mb_slv_parse_request (replicate 256 0) 8
      \<lparr>slave_addr = 0, raw_func_code = 0, func_code = MB_SLV_FC_NONE, start_addr = 0, reg_union = 0,
        byte_count = 0, fr_data = []\<rparr> = Some (r, fr')
    \<and> (r = 0 \<and> frame_ok fr' \<and> slave_addr fr' = replicate 256 0 ! 0
          \<and> raw_func_code fr' = replicate 256 0 ! 1
          \<and> crc_ref 0xFFFF (take (unat (8 :: u16)) (replicate 256 0)) = 0
       \<or> r = -1)"
  by (rule parse_safe) simp

end
