(* ===== verification/Mb_Func.thy ===== *)
theory Mb_Func
  imports Mb_Frame
begin

text \<open>
  \<open>Services/ModbusrtuSlvArm/src/mb_slv_func.c\<close>: execution of a parsed request on the
  holding registers, and the slave as the master sees it.
\<close>

section \<open>Dispatch\<close>

text \<open>
  \<open>(const uint8_t *)&frame->reg_value\<close>: the bytes of the value in memory. The target is
  little-endian, so the low byte comes first.
\<close>

definition reg_value_bytes :: "mb_slv_frame_t \<Rightarrow> u8 list" where
  "reg_value_bytes fr = [lo8 (reg_value fr), hi8 (reg_value fr)]"

text \<open>
  The local array \<open>regs\<close> is uninitialised in C: its contents are the argument \<open>regs0\<close>.
  The result is the return code, the register state, \<open>*tx_len\<close> and the transmit array.
\<close>

definition dispatch_exception ::
    "mb_slv_frame_t \<Rightarrow> u8 \<Rightarrow> mb_data \<Rightarrow> u8 list \<Rightarrow> (int \<times> mb_data \<times> u16 \<times> u8 list) option" where
  "dispatch_exception fr ex d tx = do {
     (n, tx) \<leftarrow> mb_slv_build_exception fr ex tx;
     Some (-1, d, n, tx)
   }"

definition mb_func_dispatch ::
    "u16 list \<Rightarrow> mb_slv_frame_t \<Rightarrow> mb_data \<Rightarrow> u8 list \<Rightarrow> (int \<times> mb_data \<times> u16 \<times> u8 list) option" where
  "mb_func_dispatch regs0 fr d tx =
     (case func_code fr of
        MB_SLV_FC03 \<Rightarrow>
          if reg_count fr = 0 \<or> 125 < reg_count fr then dispatch_exception fr 0x03 d tx
          else do {
            (r, regs) \<leftarrow> mb_data_read d (start_addr fr) (reg_count fr) regs0;
            if r \<noteq> 0 then dispatch_exception fr 0x02 d tx
            else do {
              (n, tx) \<leftarrow> mb_slv_build_fc03_resp fr regs tx;
              Some (0, d, n, tx)
            }
          }
      | MB_SLV_FC06 \<Rightarrow> do {
          (r, d) \<leftarrow> mb_data_write d (start_addr fr) 1 (reg_value_bytes fr);
          if r \<noteq> 0 then dispatch_exception fr 0x02 d tx
          else do {
            (n, tx) \<leftarrow> mb_slv_build_fc06_resp fr tx;
            Some (0, d, n, tx)
          }
        }
      | MB_SLV_FC10 \<Rightarrow>
          if reg_count fr = 0 \<or> 123 < reg_count fr then dispatch_exception fr 0x03 d tx
          else do {
            (r, d) \<leftarrow> mb_data_write d (start_addr fr) (reg_count fr) (fr_data fr);
            if r \<noteq> 0 then dispatch_exception fr 0x02 d tx
            else do {
              (n, tx) \<leftarrow> mb_slv_build_fc10_resp fr tx;
              Some (0, d, n, tx)
            }
          }
      | MB_SLV_FC_NONE \<Rightarrow> dispatch_exception fr 0x01 d tx)"

section \<open>Every branch\<close>

definition in_range :: "u16 \<Rightarrow> u16 \<Rightarrow> bool" where
  "in_range start count \<longleftrightarrow> unat start + unat count \<le> HOLD_REG_COUNT"

definition exception_reply :: "mb_slv_frame_t \<Rightarrow> u8 \<Rightarrow> u8 list" where
  "exception_reply fr ex = sealed [slave_addr fr, raw_func_code fr OR 0x80, ex]"

definition echo_reply :: "mb_slv_frame_t \<Rightarrow> u8 list" where
  "echo_reply fr = sealed ([slave_addr fr, raw_func_code fr] @ bytes_of_regs [start_addr fr, reg_union fr])"

definition read_reply :: "mb_slv_frame_t \<Rightarrow> mb_data \<Rightarrow> u8 list" where
  "read_reply fr d = sealed ([slave_addr fr, raw_func_code fr, of_nat (2 * unat (reg_count fr))]
     @ bytes_of_regs (take (unat (reg_count fr)) (drop (unat (start_addr fr)) (hold_regs d))))"

definition written :: "mb_data \<Rightarrow> u16 \<Rightarrow> u16 \<Rightarrow> u8 list \<Rightarrow> mb_data" where
  "written d start count data = cb_notify start count
     (d\<lparr>hold_regs := splice (hold_regs d) (unat start) (regs_of_bytes (unat count) data)\<rparr>)"

text \<open>What a request does: the return code, the new registers and the reply on the wire.\<close>

definition outcome :: "mb_slv_frame_t \<Rightarrow> mb_data \<Rightarrow> int \<times> mb_data \<times> u8 list" where
  "outcome fr d =
     (case func_code fr of
        MB_SLV_FC03 \<Rightarrow>
          if reg_count fr = 0 \<or> 125 < reg_count fr then (-1, d, exception_reply fr 3)
          else if \<not> in_range (start_addr fr) (reg_count fr) then (-1, d, exception_reply fr 2)
          else (0, d, read_reply fr d)
      | MB_SLV_FC06 \<Rightarrow>
          if \<not> in_range (start_addr fr) 1 then (-1, d, exception_reply fr 2)
          else (0, written d (start_addr fr) 1 (reg_value_bytes fr), echo_reply fr)
      | MB_SLV_FC10 \<Rightarrow>
          if reg_count fr = 0 \<or> 123 < reg_count fr then (-1, d, exception_reply fr 3)
          else if \<not> in_range (start_addr fr) (reg_count fr) then (-1, d, exception_reply fr 2)
          else (0, written d (start_addr fr) (reg_count fr) (fr_data fr), echo_reply fr)
      | MB_SLV_FC_NONE \<Rightarrow> (-1, d, exception_reply fr 1))"

lemma length_outcome:
  assumes "mb_data_ok d"
  shows "length (snd (snd (outcome fr d))) \<le> 255"
proof -
  have "reg_count fr \<le> 125 \<Longrightarrow> unat (reg_count fr) \<le> 125" by (simp add: word_le_nat_alt)
  then show ?thesis
    using assms by (auto simp: outcome_def exception_reply_def echo_reply_def read_reply_def
        in_range_def mb_data_ok_def not_less split: mb_slv_func_code_t.split)
qed

lemma dispatch_exception_eq:
  "5 \<le> length tx \<Longrightarrow> dispatch_exception fr ex d tx
    = Some (-1, d, 5, message tx (exception_reply fr ex))"
  by (simp add: dispatch_exception_def build_exception_eq exception_reply_def)

text \<open>
  The dispatcher computes \<open>outcome\<close>: no access leaves an array, whatever the local array held,
  and the reply with its code word stands at the start of the transmit array.
\<close>

lemma mb_func_dispatch_eq:
  assumes d: "mb_data_ok d" and fr: "frame_ok fr" and tx: "256 \<le> length tx" and regs0: "length regs0 = 125"
  shows "mb_func_dispatch regs0 fr d tx
    = (case outcome fr d of (r, d', reply) \<Rightarrow> Some (r, d', of_nat (length reply), message tx reply))"
proof (cases "func_code fr")
  case MB_SLV_FC_NONE
  with tx show ?thesis
    by (simp add: mb_func_dispatch_def outcome_def dispatch_exception_eq exception_reply_def)
next
  case MB_SLV_FC03
  then have n: "reg_count fr \<noteq> 0" "\<not> 125 < reg_count fr"
    using fr by (simp_all add: frame_ok_def not_less word_gt_0)
  then have n': "unat (reg_count fr) \<le> 125"
    by (simp add: not_less word_le_nat_alt)
  show ?thesis
  proof (cases "in_range (start_addr fr) (reg_count fr)")
    case True
    let ?rs = "take (unat (reg_count fr)) (drop (unat (start_addr fr)) (hold_regs d))"
    have len: "length ?rs = unat (reg_count fr)"
      using True d by (simp add: in_range_def mb_data_ok_def)
    then have "take (unat (reg_count fr)) (splice regs0 0 ?rs) = ?rs"
      by (simp add: splice_def)
    with True MB_SLV_FC03 n n' d tx regs0 len show ?thesis
      by (simp add: mb_func_dispatch_def outcome_def in_range_def mb_data_read_eq
          build_fc03_eq [OF refl] read_reply_def)
  next
    case False
    with MB_SLV_FC03 n d tx show ?thesis
      by (simp add: mb_func_dispatch_def outcome_def in_range_def mb_data_read_reject
          dispatch_exception_eq exception_reply_def)
  qed
next
  case MB_SLV_FC06
  with d tx show ?thesis
    by (simp add: mb_func_dispatch_def outcome_def in_range_def mb_data_write_reject mb_data_write_eq
        dispatch_exception_eq exception_reply_def build_fc06_eq echo_reply_def written_def
        reg_value_bytes_def)
next
  case MB_SLV_FC10
  then have "unat (reg_count fr) * 2 \<le> length (fr_data fr)"
    using fr by (simp add: frame_ok_def)
  with MB_SLV_FC10 d tx show ?thesis
    by (simp add: mb_func_dispatch_def outcome_def in_range_def mb_data_write_reject mb_data_write_eq
        dispatch_exception_eq exception_reply_def build_fc10_eq echo_reply_def written_def)
qed

lemma mb_data_ok_outcome: "mb_data_ok d \<Longrightarrow> mb_data_ok (fst (snd (outcome fr d)))"
  by (auto simp: outcome_def written_def mb_data_ok_def in_range_def split: mb_slv_func_code_t.split)

section \<open>Properties\<close>

text \<open>
  C3: dispatching a parsed request is memory-safe and does exactly what the abstract
  \<open>outcome\<close> says, on every branch: the return code, the holding registers afterwards, and
  the reply with its code word at the start of the transmit array, its length in
  \<open>*tx_len\<close>. It holds for every content of the uninitialised local array.
\<close>
theorem dispatch_refines_outcome:
  assumes "mb_data_ok d" and "frame_ok fr" and "256 \<le> length tx" and "length regs0 = 125"
  shows "mb_func_dispatch regs0 fr d tx
    = Some (fst (outcome fr d), fst (snd (outcome fr d)), of_nat (length (snd (snd (outcome fr d)))),
        message tx (snd (snd (outcome fr d))))"
  using mb_func_dispatch_eq [OF assms] by (simp add: case_prod_beta)

definition sample_data :: "mb_data" where
  "sample_data = \<lparr>hold_regs = replicate 100 7, write_cb = 1, cb_calls = []\<rparr>"

definition sample_frame :: mb_slv_frame_t where
  "sample_frame = \<lparr>slave_addr = 8, raw_func_code = 3, func_code = MB_SLV_FC03, start_addr = 98,
     reg_union = 2, byte_count = 0, fr_data = []\<rparr>"

lemma mb_data_ok_sample [simp]: "mb_data_ok sample_data"
  by (simp add: sample_data_def mb_data_ok_def HOLD_REG_COUNT_def)

lemma frame_ok_sample [simp]: "frame_ok sample_frame"
  by (simp add: sample_frame_def frame_ok_def)

lemma dispatch_refines_outcome_witness:
  "mb_func_dispatch (replicate 125 0) sample_frame sample_data (replicate 256 0)
    = Some (fst (outcome sample_frame sample_data), fst (snd (outcome sample_frame sample_data)),
        of_nat (length (snd (snd (outcome sample_frame sample_data)))),
        message (replicate 256 0) (snd (snd (outcome sample_frame sample_data))))"
  by (rule dispatch_refines_outcome) simp_all

text \<open>
  C5: what an FC10 request writes, an FC03 request for the same block reads back: the reply to
  the read carries the written values, high byte first, whatever the registers, the transmit
  array and the local array held before.
\<close>
theorem block_write_then_read:
  assumes d: "mb_data_ok d" and tx: "256 \<le> length tx" and regs: "length regs0 = 125" "length regs1 = 125"
    and rs: "0 < length rs" "length rs \<le> 123" "unat s + length rs \<le> HOLD_REG_COUNT"
  shows "do {
      (r, d1, n, tx1) \<leftarrow> mb_func_dispatch regs0 (request_frame (WriteMultiple a s rs) rest fr) d tx;
      (r', d2, n', tx2) \<leftarrow>
        mb_func_dispatch regs1 (request_frame (ReadHolding a s (of_nat (length rs))) rest fr) d1 tx1;
      Some (r, r', d2 = d1, take (unat n') tx2)
    } = Some (0, 0, True, sealed ([a, 0x03, of_nat (2 * length rs)] @ bytes_of_regs rs))"
proof -
  let ?w = "request_frame (WriteMultiple a s rs) rest fr"
  let ?r = "request_frame (ReadHolding a s (of_nat (length rs))) rest fr"
  let ?d1 = "written d s (of_nat (length rs)) (fr_data ?w)"
  have n: "unat (of_nat (length rs) :: u16) = length rs"
    using rs by (simp add: unat_of_nat)
  have b: "unat (of_nat (2 * length rs) :: u8) = 2 * length rs"
    using rs by (simp add: unat_of_nat del: of_nat_mult)
  have data: "take (2 * length rs) (fr_data ?w) = bytes_of_regs rs"
    by (simp add: sealed_def)
  have payload: "fr_data ?w = bytes_of_regs rs @ drop (2 * length rs) (fr_data ?w)"
    using data by (metis append_take_drop_id)
  have regs_eq: "regs_of_bytes (length rs) (fr_data ?w) = rs"
    by (subst payload) (rule regs_of_bytes_of_regs)
  have le: "\<not> 123 < (of_nat (length rs) :: u16)" "\<not> 125 < (of_nat (length rs) :: u16)"
    "of_nat (length rs) \<noteq> (0 :: u16)" "0 < (of_nat (length rs) :: u16)"
    using rs n by (auto simp: word_less_nat_alt word_unat_eq_iff)
  have okw: "frame_ok ?w"
    using b n by (simp add: frame_ok_def sealed_def del: of_nat_mult)
  have okr: "frame_ok ?r"
    using le by (simp add: frame_ok_def not_less)
  have ow: "outcome ?w d = (0, ?d1, echo_reply ?w)"
    using le rs n by (simp add: outcome_def in_range_def)
  have d1: "mb_data_ok ?d1"
    using mb_data_ok_outcome [OF d, of ?w] unfolding ow by simp
  have hr: "hold_regs ?d1 = splice (hold_regs d) (unat s) rs"
    using regs_eq n by (simp add: written_def del: request_frame.simps)
  have "take (length rs) (drop (unat s) (splice (hold_regs d) (unat s) rs)) = rs"
    using d rs by (simp add: splice_def mb_data_ok_def)
  then have reply: "read_reply ?r ?d1 = sealed ([a, 0x03, of_nat (2 * length rs)] @ bytes_of_regs rs)"
    using hr n by (simp add: read_reply_def)
  have or: "outcome ?r ?d1 = (0, ?d1, read_reply ?r ?d1)"
    using le rs n by (simp add: outcome_def in_range_def)
  have tx1: "256 \<le> length (message tx (echo_reply ?w))"
    using tx by (simp add: echo_reply_def)
  have len: "length (read_reply ?r ?d1) \<le> 255"
    using length_outcome [OF d1, of ?r] by (simp only: or snd_conv)
  then have "unat (of_nat (length (read_reply ?r ?d1)) :: u16) = length (read_reply ?r ?d1)"
    by (simp add: unat_of_nat)
  moreover have "take (length (read_reply ?r ?d1)) (message (message tx (echo_reply ?w)) (read_reply ?r ?d1))
      = read_reply ?r ?d1"
    using len tx1 by simp
  ultimately show ?thesis
    using mb_func_dispatch_eq [OF d okw tx regs(1)] mb_func_dispatch_eq [OF d1 okr tx1 regs(2)]
    by (simp only: ow or prod.case bind.bind_lunit reply simp_thms)
qed

lemma block_write_then_read_witness:
  "do {
      (r, d1, n, tx1) \<leftarrow> mb_func_dispatch (replicate 125 0)
        (request_frame (WriteMultiple 8 5 [0x1234, 0x5678]) [] sample_frame) sample_data (replicate 256 0);
      (r', d2, n', tx2) \<leftarrow> mb_func_dispatch (replicate 125 1)
        (request_frame (ReadHolding 8 5 (of_nat (length [0x1234 :: u16, 0x5678]))) [] sample_frame) d1 tx1;
      Some (r, r', d2 = d1, take (unat n') tx2)
    } = Some (0, 0, True, sealed ([8, 0x03, of_nat (2 * length [0x1234 :: u16, 0x5678])]
        @ bytes_of_regs [0x1234, 0x5678]))"
  by (rule block_write_then_read) (simp_all add: HOLD_REG_COUNT_def)

text \<open>
  A request that is answered with an exception changes nothing: the registers, the callback
  and its calls stay as they were, and the reply is the five-byte exception frame with the
  function code's top bit set and code 1, 2 or 3.
\<close>
theorem exception_changes_nothing:
  assumes "mb_data_ok d" and "frame_ok fr" and "256 \<le> length tx" and "length regs0 = 125"
    and "mb_func_dispatch regs0 fr d tx = Some (r, d', n, tx')" and "r \<noteq> 0"
  shows "r = -1 \<and> d' = d \<and> n = 5 \<and>
    (\<exists>ex \<in> {1, 2, 3}. take 5 tx' = sealed [slave_addr fr, raw_func_code fr OR 0x80, ex])"
proof -
  have five: "take 5 (message tx (exception_reply fr ex)) = exception_reply fr ex" for ex
  proof -
    have len: "length (exception_reply fr ex) = 5" by (simp add: exception_reply_def)
    show ?thesis
      using take_message [of "exception_reply fr ex" tx] assms(3) unfolding len by simp
  qed
  have "\<exists>ex \<in> {1, 2, 3}. outcome fr d = (-1, d, exception_reply fr ex)"
    using mb_func_dispatch_eq [OF assms(1-4)] assms(5,6)
    by (auto simp: outcome_def case_prod_beta split: mb_slv_func_code_t.splits if_splits)
  then obtain ex where ex: "ex \<in> {1, 2, 3}" "outcome fr d = (-1, d, exception_reply fr ex)" by blast
  then have "r = -1" "d' = d" "n = of_nat (length (exception_reply fr ex))"
      "tx' = message tx (exception_reply fr ex)"
    using mb_func_dispatch_eq [OF assms(1-4)] assms(5) by simp_all
  with ex(1) five [of ex] show ?thesis
    by (auto simp: exception_reply_def)
qed

lemma exception_changes_nothing_witness:
  "(-1 :: int) = -1 \<and> sample_data = sample_data \<and> (5 :: u16) = 5 \<and>
    (\<exists>ex \<in> {1, 2, 3}. take 5 (message (replicate 256 0)
        (exception_reply (sample_frame\<lparr>start_addr := 99\<rparr>) 2))
      = sealed [slave_addr (sample_frame\<lparr>start_addr := 99\<rparr>),
          raw_func_code (sample_frame\<lparr>start_addr := 99\<rparr>) OR 0x80, ex])"
proof (rule exception_changes_nothing)
  show "mb_func_dispatch (replicate 125 0) (sample_frame\<lparr>start_addr := 99\<rparr>) sample_data (replicate 256 0)
    = Some (-1, sample_data, 5, message (replicate 256 0)
        (exception_reply (sample_frame\<lparr>start_addr := 99\<rparr>) 2))"
    by (simp add: mb_func_dispatch_def sample_frame_def mb_data_read_reject HOLD_REG_COUNT_def
        dispatch_exception_eq)
qed (simp_all add: frame_ok_def sample_frame_def)

text \<open>
  C9: the single-register write stores the value with its two bytes exchanged. The handler hands
  the bytes of \<open>reg_value\<close> as they lie in memory (low byte first) to \<open>mb_data_write\<close>,
  which reads the high byte first; the reply nevertheless echoes the value that was asked for.
  Only a value whose two bytes are equal is stored as sent.
\<close>
theorem single_write_swaps_bytes:
  assumes d: "mb_data_ok d" and tx: "256 \<le> length tx" and regs: "length regs0 = 125"
    and s: "unat s < HOLD_REG_COUNT"
  shows "do {
      (r, d', n, tx') \<leftarrow> mb_func_dispatch regs0 (request_frame (WriteSingle a s v) rest fr) d tx;
      Some (r, hold_regs d', hold_regs d' ! unat s = v, take 8 tx')
    } = Some (0, (hold_regs d)[unat s := be16 (lo8 v) (hi8 v)], hi8 v = lo8 v,
        request_bytes (WriteSingle a s v))"
proof -
  let ?w = "request_frame (WriteSingle a s v) rest fr"
  let ?d1 = "written d s 1 (reg_value_bytes ?w)"
  have o: "outcome ?w d = (0, ?d1, echo_reply ?w)"
    using s by (simp add: outcome_def in_range_def)
  have e: "echo_reply ?w = request_bytes (WriteSingle a s v)"
    by (simp add: echo_reply_def)
  have r: "hold_regs ?d1 = (hold_regs d)[unat s := be16 (lo8 v) (hi8 v)]"
    using d s by (simp add: written_def reg_value_bytes_def splice_def mb_data_ok_def
        regs_of_bytes_def upd_conv_take_nth_drop)
  have "be16 (lo8 v) (hi8 v) = v \<longleftrightarrow> hi8 v = lo8 v"
    by (metis be16_hi8_lo8 be16_inject)
  then have same: "(hold_regs ?d1 ! unat s = v) = (hi8 v = lo8 v)"
    unfolding r using d s by (simp add: mb_data_ok_def)
  have len: "length (request_bytes (WriteSingle a s v)) = 8" by simp
  have "take 8 (message tx (request_bytes (WriteSingle a s v))) = request_bytes (WriteSingle a s v)"
    using take_message [of "request_bytes (WriteSingle a s v)" tx] tx unfolding len by simp
  moreover have "frame_ok ?w"
    by (simp add: frame_ok_def)
  ultimately show ?thesis
    using mb_func_dispatch_eq [OF d _ tx regs, of ?w] same
    by (simp add: o e r del: request_bytes.simps request_frame.simps)
qed

lemma single_write_swaps_bytes_witness:
  "do {
      (r, d', n, tx') \<leftarrow> mb_func_dispatch (replicate 125 0)
        (request_frame (WriteSingle 8 5 0x1234) [] sample_frame) sample_data (replicate 256 0);
      Some (r, hold_regs d', hold_regs d' ! unat (5 :: u16) = 0x1234, take 8 tx')
    } = Some (0, (hold_regs sample_data)[unat (5 :: u16) := be16 (lo8 0x1234) (hi8 0x1234)],
        hi8 0x1234 = lo8 0x1234, request_bytes (WriteSingle 8 5 0x1234))"
  by (rule single_write_swaps_bytes) (simp_all add: HOLD_REG_COUNT_def)

end
