(* ===== verification/Rtos_Queue_Task.thy ===== *)
theory Rtos_Queue_Task
  imports Rtos_Queue
begin

text \<open>
  The operations of \<open>queue.c\<close> that may block. Each loops over passes: a critical section that
  tries the operation, then, with the scheduler suspended and the queue locked, a check of the
  time-out and the placing of the task in an event list. A definition here is one pass, from the
  state of the local variables to a result or to the next pass; what happens between two passes
  (the task waits, others run) is not part of it. Interrupts are enabled between the atomic
  sections of a pass: \<open>env n\<close> is what they do at the \<open>n\<close>-th such point.
\<close>

section \<open>Interrupts\<close>

datatype isr_op = IsrSend "u8 list" | IsrGive | IsrReceive | IsrTick

definition isr_exec :: "isr_op \<Rightarrow> Queue_t \<Rightarrow> kernel \<Rightarrow> (Queue_t \<times> kernel) option" where
  "isr_exec i q k =
     (case i of
        IsrSend item \<Rightarrow> map_option (\<lambda>(_, sw, q, k). (q, yield_if sw k)) (xQueueGenericSendFromISR item queueSEND_TO_BACK q k)
      | IsrGive \<Rightarrow> map_option (\<lambda>(_, sw, q, k). (q, yield_if sw k)) (xQueueGiveFromISR q k)
      | IsrReceive \<Rightarrow> map_option (\<lambda>(_, sw, q, k). (q, yield_if sw k)) (xQueueReceiveFromISR q k)
      | IsrTick \<Rightarrow> map_option (\<lambda>(sw, k). (q, yield_if sw k)) (xTaskIncrementTick k))"

primrec isr_execs :: "isr_op list \<Rightarrow> Queue_t \<Rightarrow> kernel \<Rightarrow> (Queue_t \<times> kernel) option" where
  "isr_execs [] q k = Some (q, k)"
| "isr_execs (i # is) q k = do { (q, k) \<leftarrow> isr_exec i q k; isr_execs is q k }"

section \<open>Passes\<close>

datatype ('l, 'r) call = Call 'l | Ret 'r

text \<open>Local variables: \<open>xTimeOut\<close> once it is set (\<open>xEntryTimeSet\<close>), and \<open>xTicksToWait\<close>.\<close>

type_synonym waiting = "TimeOut_t option \<times> tick"

text \<open>The assertion every blocking call makes on entry.\<close>

definition call_allowed :: "tick \<Rightarrow> kernel \<Rightarrow> bool" where
  "call_allowed ticks k \<longleftrightarrow> \<not> (uxSchedulerSuspended k \<noteq> 0 \<and> ticks \<noteq> 0)"

definition entry_time :: "TimeOut_t option \<Rightarrow> kernel \<Rightarrow> TimeOut_t" where
  "entry_time tmo k = (case tmo of None \<Rightarrow> vTaskInternalSetTimeOutState k | Some to \<Rightarrow> to)"

text \<open>
  The second half of a pass, up to the resumption of the scheduler: it waits while \<open>blocked q\<close>, in
  the list \<open>l\<close>; \<open>before\<close> runs before the task is placed there, on the local variable
  \<open>xInheritanceOccurred\<close>. The result is whether the time is over, with the new local variables.
\<close>

definition wait_section ::
  "(nat \<Rightarrow> isr_op list) \<Rightarrow> (Queue_t \<Rightarrow> bool) \<Rightarrow> list_id \<Rightarrow>
   (bool \<Rightarrow> Queue_t \<Rightarrow> kernel \<Rightarrow> (bool \<times> kernel) option) \<Rightarrow> bool \<Rightarrow> TimeOut_t \<Rightarrow> tick \<Rightarrow> Queue_t \<Rightarrow> kernel \<Rightarrow> (bool \<times> bool \<times> TimeOut_t \<times> tick \<times> Queue_t \<times> kernel) option" where
  "wait_section env blocked l before inh to ticks q k = do {
     let k = vTaskSuspendAll k;
     (q, k) \<leftarrow> isr_execs (env 1) q k;
     let q = prvLockQueue q;
     (q, k) \<leftarrow> isr_execs (env 2) q k;
     let (over, to, ticks) = xTaskCheckForTimeOut to ticks k;
     (q, k) \<leftarrow> isr_execs (env 3) q k;
     (inh, placed, q, k) \<leftarrow> (if \<not> over \<and> blocked q then do {
         (q, k) \<leftarrow> isr_execs (env 4) q k;
         (inh, k) \<leftarrow> before inh q k;
         (q, k) \<leftarrow> isr_execs (env 5) q k;
         k \<leftarrow> vTaskPlaceOnEventList l ticks k;
         Some (inh, True, q, k)
       } else Some (inh, False, q, k));
     (q, k) \<leftarrow> isr_execs (env 6) q k;
     (q, k) \<leftarrow> unlock_tx q k;
     (q, k) \<leftarrow> isr_execs (env 7) q k;
     (q, k) \<leftarrow> unlock_rx q k;
     (q, k) \<leftarrow> isr_execs (env 8) q k;
     (yielded, k) \<leftarrow> xTaskResumeAll k;
     Some (over, inh, to, ticks, q, if placed \<and> \<not> yielded then portYIELD k else k)
   }"

definition no_inherit :: "bool \<Rightarrow> Queue_t \<Rightarrow> kernel \<Rightarrow> (bool \<times> kernel) option" where
  "no_inherit inh q k = Some (inh, k)"

section \<open>Sending\<close>

text \<open>The critical section: whether the item was queued.\<close>

definition send_section :: "u8 list \<Rightarrow> copy_position \<Rightarrow> Queue_t \<Rightarrow> kernel \<Rightarrow> (bool \<times> Queue_t \<times> kernel) option" where
  "send_section item pos q k =
     (if uxMessagesWaiting q < uxLength q \<or> pos = queueOVERWRITE then do {
        (y, q, k) \<leftarrow> prvCopyDataToQueue item pos q k;
        k \<leftarrow> (if \<not> list_is_empty (xTasksWaitingToReceive q) k then do {
                (sw, k) \<leftarrow> xTaskRemoveFromEventList (xTasksWaitingToReceive q) k;
                Some (yield_if sw k)
              } else Some (yield_if y k));
        Some (True, q, k)
      } else Some (False, q, k))"

definition xQueueGenericSend_entry :: "copy_position \<Rightarrow> tick \<Rightarrow> Queue_t \<Rightarrow> kernel \<Rightarrow> (waiting, bool) call option" where
  "xQueueGenericSend_entry pos ticks q k =
     (if pos = queueOVERWRITE \<and> uxLength q \<noteq> 1 \<or> \<not> call_allowed ticks k then None else Some (Call (None, ticks)))"

definition xQueueGenericSend ::
  "(nat \<Rightarrow> isr_op list) \<Rightarrow> u8 list \<Rightarrow> copy_position \<Rightarrow> waiting \<Rightarrow> Queue_t \<Rightarrow> kernel \<Rightarrow>
   ((waiting, bool) call \<times> Queue_t \<times> kernel) option" where
  "xQueueGenericSend env item pos w q k =
     (case w of (tmo, ticks) \<Rightarrow> do {
        (done, q, k) \<leftarrow> send_section item pos q k;
        if done then Some (Ret True, q, k)
        else if ticks = 0 then Some (Ret False, q, k)
        else do {
          let to = entry_time tmo k;
          (q, k) \<leftarrow> isr_execs (env 0) q k;
          (over, _, to, ticks, q, k) \<leftarrow> wait_section env prvIsQueueFull (xTasksWaitingToSend q) no_inherit False to ticks q k;
          Some (if over then Ret False else Call (Some to, ticks), q, k)
        }
      })"

section \<open>Receiving\<close>

definition receive_section :: "Queue_t \<Rightarrow> kernel \<Rightarrow> (u8 list option \<times> Queue_t \<times> kernel) option" where
  "receive_section q k =
     (if uxMessagesWaiting q > 0 then do {
        (bytes, q) \<leftarrow> prvCopyDataFromQueue q;
        let q = q\<lparr>uxMessagesWaiting := uxMessagesWaiting q - 1\<rparr>;
        (sw, k) \<leftarrow> wake_first (xTasksWaitingToSend q) k;
        Some (Some bytes, q, yield_if sw k)
      } else Some (None, q, k))"

text \<open>The end of a pass that found the time over: give up, unless something came in meanwhile.\<close>

definition when_over :: "bool \<Rightarrow> Queue_t \<Rightarrow> 'r \<Rightarrow> 'l \<Rightarrow> ('l, 'r) call" where
  "when_over over q r l = (if over \<and> prvIsQueueEmpty q then Ret r else Call l)"

definition xQueueReceive ::
  "(nat \<Rightarrow> isr_op list) \<Rightarrow> waiting \<Rightarrow> Queue_t \<Rightarrow> kernel \<Rightarrow> ((waiting, u8 list option) call \<times> Queue_t \<times> kernel) option" where
  "xQueueReceive env w q k =
     (case w of (tmo, ticks) \<Rightarrow> do {
        (r, q, k) \<leftarrow> receive_section q k;
        if r \<noteq> None then Some (Ret r, q, k)
        else if ticks = 0 then Some (Ret None, q, k)
        else do {
          let to = entry_time tmo k;
          (q, k) \<leftarrow> isr_execs (env 0) q k;
          (over, _, to, ticks, q, k) \<leftarrow> wait_section env prvIsQueueEmpty (xTasksWaitingToReceive q) no_inherit False to ticks q k;
          (q, k) \<leftarrow> isr_execs (env 9) q k;
          Some (when_over over q None (Some to, ticks), q, k)
        }
      })"

definition peek_section :: "Queue_t \<Rightarrow> kernel \<Rightarrow> (u8 list option \<times> Queue_t \<times> kernel) option" where
  "peek_section q k =
     (if uxMessagesWaiting q > 0 then do {
        (bytes, q') \<leftarrow> prvCopyDataFromQueue q;
        let q = q'\<lparr>u_data := u_data q\<rparr>;
        (sw, k) \<leftarrow> wake_first (xTasksWaitingToReceive q) k;
        Some (Some bytes, q, yield_if sw k)
      } else Some (None, q, k))"

definition xQueuePeek ::
  "(nat \<Rightarrow> isr_op list) \<Rightarrow> waiting \<Rightarrow> Queue_t \<Rightarrow> kernel \<Rightarrow> ((waiting, u8 list option) call \<times> Queue_t \<times> kernel) option" where
  "xQueuePeek env w q k =
     (case w of (tmo, ticks) \<Rightarrow> do {
        (r, q, k) \<leftarrow> peek_section q k;
        if r \<noteq> None then Some (Ret r, q, k)
        else if ticks = 0 then Some (Ret None, q, k)
        else do {
          let to = entry_time tmo k;
          (q, k) \<leftarrow> isr_execs (env 0) q k;
          (over, _, to, ticks, q, k) \<leftarrow> wait_section env prvIsQueueEmpty (xTasksWaitingToReceive q) no_inherit False to ticks q k;
          (q, k) \<leftarrow> isr_execs (env 9) q k;
          Some (when_over over q None (Some to, ticks), q, k)
        }
      })"

section \<open>Semaphores and mutexes\<close>

text \<open>Taking a mutex records its new holder.\<close>

definition take_section :: "Queue_t \<Rightarrow> kernel \<Rightarrow> (bool \<times> Queue_t \<times> kernel) option" where
  "take_section q k =
     (if uxMessagesWaiting q > 0 then do {
        let q = q\<lparr>uxMessagesWaiting := uxMessagesWaiting q - 1\<rparr>;
        (q, k) \<leftarrow> (if queueQUEUE_IS_MUTEX q then
                    (case u_data q of
                       XSemaphore _ calls \<Rightarrow>
                         (let (t, k) = pvTaskIncrementMutexHeldCount k in Some (q\<lparr>u_data := XSemaphore (Some t) calls\<rparr>, k))
                     | XQueue _ _ \<Rightarrow> None)
                  else Some (q, k));
        (sw, k) \<leftarrow> wake_first (xTasksWaitingToSend q) k;
        Some (True, q, yield_if sw k)
      } else Some (False, q, k))"

definition inherit_before :: "bool \<Rightarrow> Queue_t \<Rightarrow> kernel \<Rightarrow> (bool \<times> kernel) option" where
  "inherit_before inh q k =
     (if queueQUEUE_IS_MUTEX q then
        (case u_data q of XSemaphore holder _ \<Rightarrow> xTaskPriorityInherit holder k | XQueue _ _ \<Rightarrow> None)
      else Some (inh, k))"

definition prvGetHighestPriorityOfWaitToReceiveList :: "Queue_t \<Rightarrow> kernel \<Rightarrow> nat" where
  "prvGetHighestPriorityOfWaitToReceiveList q k =
     (case head_entry (xTasksWaitingToReceive q) k of
        None \<Rightarrow> 0
      | Some it \<Rightarrow> unat (of_nat configMAX_PRIORITIES - ucast (item_value k it) :: u32))"

definition disinherit_after_timeout :: "bool \<Rightarrow> Queue_t \<Rightarrow> kernel \<Rightarrow> kernel option" where
  "disinherit_after_timeout inh q k =
     (if inh then
        (case u_data q of
           XSemaphore holder _ \<Rightarrow> vTaskPriorityDisinheritAfterTimeout holder (prvGetHighestPriorityOfWaitToReceiveList q k) k
         | XQueue _ _ \<Rightarrow> None)
      else Some k)"

text \<open>One more local variable, \<open>xInheritanceOccurred\<close>.\<close>

definition xQueueSemaphoreTake ::
  "(nat \<Rightarrow> isr_op list) \<Rightarrow> waiting \<times> bool \<Rightarrow> Queue_t \<Rightarrow> kernel \<Rightarrow> ((waiting \<times> bool, bool) call \<times> Queue_t \<times> kernel) option" where
  "xQueueSemaphoreTake env w q k =
     (case w of ((tmo, ticks), inherited) \<Rightarrow>
        if uxItemSize q \<noteq> 0 then None
        else do {
          (done, q, k) \<leftarrow> take_section q k;
          if done then Some (Ret True, q, k)
          else if ticks = 0 then Some (Ret False, q, k)
          else do {
            let to = entry_time tmo k;
            (q, k) \<leftarrow> isr_execs (env 0) q k;
            (over, inherited, to, ticks, q, k) \<leftarrow>
              wait_section env prvIsQueueEmpty (xTasksWaitingToReceive q) inherit_before inherited to ticks q k;
            (q, k) \<leftarrow> isr_execs (env 9) q k;
            k \<leftarrow> (if over \<and> prvIsQueueEmpty q then disinherit_after_timeout inherited q k else Some k);
            Some (when_over over q False ((Some to, ticks), inherited), q, k)
          }
        })"

text \<open>A new mutex is a queue of one empty item, which is available.\<close>

definition prvInitialiseMutex :: "Queue_t \<Rightarrow> kernel \<Rightarrow> (Queue_t \<times> kernel) option" where
  "prvInitialiseMutex q k = do {
     (_, q, k) \<leftarrow> send_section [] queueSEND_TO_BACK
       (q\<lparr>u_data := XSemaphore None 0, queueQUEUE_IS_MUTEX := True\<rparr>) k;
     Some (q, k)
   }"

definition xQueueCreateMutex ::
  "(u32 \<Rightarrow> u8 list option) \<Rightarrow> u32 \<Rightarrow> list_id \<Rightarrow> list_id \<Rightarrow> kernel \<Rightarrow> (Queue_t option \<times> kernel) option" where
  "xQueueCreateMutex malloc head_size snd_list rcv_list k = do {
     (q, k) \<leftarrow> xQueueGenericCreate malloc head_size 1 0 snd_list rcv_list k;
     case q of None \<Rightarrow> Some (None, k)
     | Some q \<Rightarrow> do { (q, k) \<leftarrow> prvInitialiseMutex q k; Some (Some q, k) }
   }"

definition xQueueGetMutexHolder :: "Queue_t \<Rightarrow> nat option option" where
  "xQueueGetMutexHolder q =
     (if queueQUEUE_IS_MUTEX q then (case u_data q of XSemaphore holder _ \<Rightarrow> Some holder | XQueue _ _ \<Rightarrow> None)
      else Some None)"

definition xQueueGiveMutexRecursive :: "Queue_t \<Rightarrow> kernel \<Rightarrow> (bool \<times> Queue_t \<times> kernel) option" where
  "xQueueGiveMutexRecursive q k =
     (case u_data q of
        XQueue _ _ \<Rightarrow> None
      | XSemaphore holder calls \<Rightarrow>
          if holder = Some (pxCurrentTCB k) then
            let q = q\<lparr>u_data := XSemaphore holder (calls - 1)\<rparr>
            in if calls - 1 = 0 then do {
                 (_, q, k) \<leftarrow> send_section [] queueSEND_TO_BACK q k;
                 Some (True, q, k)
               } else Some (True, q, k)
          else Some (False, q, k))"

text \<open>Counting one more call; a count that wraps around to 0 fails the assertion.\<close>

definition count_call :: "Queue_t \<Rightarrow> Queue_t option" where
  "count_call q =
     (case u_data q of
        XQueue _ _ \<Rightarrow> None
      | XSemaphore holder calls \<Rightarrow> if calls + 1 = 0 then None else Some (q\<lparr>u_data := XSemaphore holder (calls + 1)\<rparr>))"

text \<open>One pass of the take it may begin with.\<close>

definition xQueueTakeMutexRecursive ::
  "(nat \<Rightarrow> isr_op list) \<Rightarrow> waiting \<times> bool \<Rightarrow> Queue_t \<Rightarrow> kernel \<Rightarrow> ((waiting \<times> bool, bool) call \<times> Queue_t \<times> kernel) option" where
  "xQueueTakeMutexRecursive env w q k =
     (case u_data q of
        XQueue _ _ \<Rightarrow> None
      | XSemaphore holder calls \<Rightarrow>
          if holder = Some (pxCurrentTCB k) then do {
            q \<leftarrow> count_call q;
            Some (Ret True, q, k)
          } else do {
            (c, q, k) \<leftarrow> xQueueSemaphoreTake env w q k;
            if c = Ret True then do { q \<leftarrow> count_call q; Some (c, q, k) } else Some (c, q, k)
          })"

end
