(* ===== verification/Rtos_Sched.thy ===== *)
theory Rtos_Sched
  imports Rtos_Kernel
begin

text \<open>
  Correctness of the scheduler model: the task that runs, the tasks a tick wakes, blocking and
  unblocking, suspension of the scheduler, time-outs and priority inheritance.
\<close>

section \<open>Invariants of blocked tasks\<close>

text \<open>A task that waits for an event, or was woken while the scheduler is suspended, is blocked.\<close>

definition waiting_ok :: "kernel \<Rightarrow> bool" where
  "waiting_ok k \<longleftrightarrow> (\<forall>t. container k (EventItem t) \<noteq> None \<longrightarrow>
     container k (StateItem t) \<in> Some ` {DelayedTaskList1, DelayedTaskList2, SuspendedTaskList})"

definition by_value :: "kernel \<Rightarrow> litem list \<Rightarrow> bool" where
  "by_value k xs \<longleftrightarrow> sorted (map (item_value k) xs)"

text \<open>
  Wake times: the current delayed list is sorted and in the future, the other one holds the times
  after the next wrap-around, and \<open>xNextTaskUnblockTime\<close> is not later than the first.
\<close>

definition delays_ok :: "kernel \<Rightarrow> bool" where
  "delays_ok k \<longleftrightarrow> by_value k (entries k (pxDelayedTaskList k)) \<and> by_value k (entries k (pxOverflowDelayedTaskList k))
     \<and> (\<forall>it \<in> set (entries k (pxDelayedTaskList k)). xTickCount k < item_value k it \<and> xNextTaskUnblockTime k \<le> item_value k it)"

text \<open>The fields no list operation touches.\<close>

definition statics where
  "statics k = (uxPriority k, uxBasePriority k, uxMutexesHeld k, item_value k, pxCurrentTCB k, pxDelayedTaskList k,
     pxOverflowDelayedTaskList k, xTickCount k, xPendedTicks k, uxSchedulerSuspended k, xNumOfOverflows k,
     uxCurrentNumberOfTasks k)"

lemma statics_detach [simp]: "statics (detach it l k) = statics k"
  by (simp add: statics_def detach_def)

lemma statics_insert_end [simp]: "statics (list_insert_end l it k) = statics k"
  by (simp add: statics_def list_insert_end_def)

lemma statics_add_ready [simp]: "statics (prvAddTaskToReadyList t k) = statics k"
  by (simp add: statics_def prvAddTaskToReadyList_def list_insert_end_def Let_def)

lemma statics_fields [simp]:
  "statics (k\<lparr>xYieldPending := b\<rparr>) = statics k" "statics (k\<lparr>xNextTaskUnblockTime := v\<rparr>) = statics k"
  "statics (k\<lparr>pendsv := b\<rparr>) = statics k"
  by (simp_all add: statics_def)

lemma statics_eqD:
  "statics k' = statics k \<Longrightarrow> uxPriority k' = uxPriority k \<and> item_value k' = item_value k
    \<and> pxCurrentTCB k' = pxCurrentTCB k \<and> pxDelayedTaskList k' = pxDelayedTaskList k
    \<and> pxOverflowDelayedTaskList k' = pxOverflowDelayedTaskList k \<and> xTickCount k' = xTickCount k
    \<and> xPendedTicks k' = xPendedTicks k \<and> uxSchedulerSuspended k' = uxSchedulerSuspended k
    \<and> xNumOfOverflows k' = xNumOfOverflows k \<and> uxCurrentNumberOfTasks k' = uxCurrentNumberOfTasks k
    \<and> uxBasePriority k' = uxBasePriority k \<and> uxMutexesHeld k' = uxMutexesHeld k"
  by (simp add: statics_def)

section \<open>Making a task ready\<close>

definition detach_if :: "litem \<Rightarrow> kernel \<Rightarrow> kernel" where
  "detach_if it k = (case container k it of None \<Rightarrow> k | Some l \<Rightarrow> detach it l k)"

lemma list_remove_detach_if: "container k it \<noteq> None \<Longrightarrow> list_remove it k = Some (detach_if it k)"
  by (auto simp: detach_if_def list_remove_detach)

lemma detach_if_guard:
  "(if container k it \<noteq> None then list_remove it k else Some k) = Some (detach_if it k)"
  by (auto simp: detach_if_def list_remove_detach)

lemma container_detach_if [simp]: "container (detach_if it k) = (container k)(it := None)"
  by (auto simp: detach_if_def split: option.splits)

lemma statics_detach_if [simp]: "statics (detach_if it k) = statics k"
  by (simp add: detach_if_def split: option.splits)

lemma kernel_ok_detach_if: "kernel_ok k \<Longrightarrow> kernel_ok (detach_if it k)"
  by (auto simp: detach_if_def kernel_ok_detach split: option.splits)

lemma entries_detach_if: "kernel_ok k \<Longrightarrow> entries (detach_if it k) m = remove1 it (entries k m)"
  using lists_ok_container [OF kernel_ok_lists, of k it m]
  by (auto simp: detach_if_def remove1_idem split: option.splits)

lemma fields_detach_if [simp]:
  "xYieldPending (detach_if it k) = xYieldPending k" "uxPriority (detach_if it k) = uxPriority k"
  "pxCurrentTCB (detach_if it k) = pxCurrentTCB k" "uxSchedulerSuspended (detach_if it k) = uxSchedulerSuspended k"
  "xNextTaskUnblockTime (detach_if it k) = xNextTaskUnblockTime k"
  by (simp_all add: detach_if_def split: option.splits)

text \<open>\<open>unblocked t k k'\<close>: from \<open>k\<close> to \<open>k'\<close> exactly the task \<open>t\<close> became ready.\<close>

definition unblocked :: "nat \<Rightarrow> kernel \<Rightarrow> kernel \<Rightarrow> bool" where
  "unblocked t k k' \<longleftrightarrow> kernel_ok k' \<and> statics k' = statics k \<and> xYieldPending k' = xYieldPending k
     \<and> container k' = (container k)(EventItem t := None, StateItem t \<mapsto> ReadyList (uxPriority k t))
     \<and> (\<forall>m. (\<forall>p. m \<noteq> ReadyList p) \<longrightarrow> entries k' m = remove1 (StateItem t) (remove1 (EventItem t) (entries k m)))"

lemma unblocked_add_ready:
  assumes "kernel_ok k"
    and "k1 = detach_if (EventItem t) (detach_if (StateItem t) k) \<or> k1 = detach_if (StateItem t) (detach_if (EventItem t) k)"
  shows "unblocked t k (prvAddTaskToReadyList t k1)"
proof -
  have k1: "kernel_ok k1" "statics k1 = statics k" "xYieldPending k1 = xYieldPending k"
    "container k1 = (container k)(EventItem t := None, StateItem t := None)"
    "entries k1 m = remove1 (StateItem t) (remove1 (EventItem t) (entries k m))" for m
    using assms by (auto simp: kernel_ok_detach_if entries_detach_if fun_upd_twist remove1_commute)
  have "kernel_ok (prvAddTaskToReadyList t k1)"
    using kernel_ok_add_ready [OF k1(1)] k1(4) by simp
  moreover have "uxPriority k1 = uxPriority k" using statics_eqD [OF k1(2)] by simp
  ultimately show ?thesis
    using k1(2-5) by (simp add: unblocked_def)
qed

lemma unblocked_waiting_ok: "unblocked t k k' \<Longrightarrow> waiting_ok k \<Longrightarrow> waiting_ok k'"
  by (auto simp: unblocked_def waiting_ok_def)

lemma head_entry_Cons: "head_entry l k = Some it \<longleftrightarrow> (\<exists>xs. entries k l = it # xs)"
  by (auto simp: head_entry_def split: list.splits)

lemma kernel_ok_delayed_items:
  assumes "kernel_ok k" and "it \<in> set (entries k l)" and "l \<in> {pxDelayedTaskList k, pxOverflowDelayedTaskList k}"
  shows "it = StateItem (owner it)" and "container k it = Some l"
proof -
  show c: "container k it = Some l"
    using assms lists_ok_container [OF kernel_ok_lists] by blast
  have "l \<in> {DelayedTaskList1, DelayedTaskList2}" using assms(1,3) by (auto simp: kernel_ok_def)
  with kernel_ok_fits [OF assms(1) c] show "it = StateItem (owner it)" by auto
qed

section \<open>The wake-up loop\<close>

definition due_items :: "tick \<Rightarrow> kernel \<Rightarrow> litem list" where
  "due_items now k = takeWhile (\<lambda>it. item_value k it \<le> now) (entries k (pxDelayedTaskList k))"

definition not_due :: "tick \<Rightarrow> kernel \<Rightarrow> litem list" where
  "not_due now k = dropWhile (\<lambda>it. item_value k it \<le> now) (entries k (pxDelayedTaskList k))"

text \<open>\<open>woken ts k k'\<close>: exactly the tasks \<open>ts\<close> became ready.\<close>

definition woken :: "nat set \<Rightarrow> kernel \<Rightarrow> kernel \<Rightarrow> bool" where
  "woken ts k k' \<longleftrightarrow> kernel_ok k' \<and> waiting_ok k' \<and> statics k' = statics k \<and> xYieldPending k' = xYieldPending k
     \<and> (\<forall>t. container k' (StateItem t) = (if t \<in> ts then Some (ReadyList (uxPriority k t)) else container k (StateItem t)))
     \<and> (\<forall>t. container k' (EventItem t) = (if t \<in> ts then None else container k (EventItem t)))
     \<and> (\<forall>m. (\<forall>p. m \<noteq> ReadyList p) \<longrightarrow> entries k' m = filter (\<lambda>it. owner it \<notin> ts) (entries k m))"

lemma woken_none: "kernel_ok k \<Longrightarrow> waiting_ok k \<Longrightarrow> woken {} k (k\<lparr>xNextTaskUnblockTime := v\<rparr>)"
  by (simp add: woken_def waiting_ok_def)

lemma remove_task: "distinct xs \<Longrightarrow>
    remove1 (StateItem t) (remove1 (EventItem t) xs) = filter (\<lambda>it. owner it \<noteq> t) xs"
proof -
  have "owner x \<noteq> t \<longleftrightarrow> x \<noteq> StateItem t \<and> x \<noteq> EventItem t" for x by (cases x) auto
  then show "distinct xs \<Longrightarrow> ?thesis"
    by (simp add: distinct_remove1_removeAll removeAll_filter_not_eq conj_commute eq_commute)
qed

lemma woken_step:
  assumes "kernel_ok k" and "waiting_ok k" and "unblocked t k k1" and "woken ts k1 k2"
  shows "woken (insert t ts) k k2"
proof -
  have d: "distinct (entries k m)" for m using assms(1) by (simp add: kernel_ok_def lists_ok_def)
  have u: "statics k1 = statics k" "xYieldPending k1 = xYieldPending k"
    "container k1 = (container k)(EventItem t := None, StateItem t \<mapsto> ReadyList (uxPriority k t))"
    "(\<forall>p. m \<noteq> ReadyList p) \<longrightarrow> entries k1 m = filter (\<lambda>it. owner it \<noteq> t) (entries k m)" for m
    using assms(3) by (simp_all add: unblocked_def remove_task [OF d])
  have "uxPriority k1 = uxPriority k" using statics_eqD [OF u(1)] by simp
  with assms(4) u show ?thesis
    by (auto simp: woken_def conj_commute)
qed

lemma wake_delayed_done:
  "due_items now k = [] \<Longrightarrow> kernel_ok k \<Longrightarrow>
   \<exists>v. wake_delayed now sw k = Some (sw, k\<lparr>xNextTaskUnblockTime := v\<rparr>) \<and> (\<forall>it \<in> set (take 1 (not_due now k)). v = item_value k it)
     \<and> not_due now k = entries k (pxDelayedTaskList k)"
proof (cases "entries k (pxDelayedTaskList k)")
  case Nil
  then show ?thesis
    by (intro exI [of _ portMAX_DELAY]) (simp add: wake_delayed.simps [of now sw k] head_entry_def not_due_def)
next
  case (Cons it xs)
  assume due: "due_items now k = []" and "kernel_ok k"
  then obtain t where "it = StateItem t" using kernel_ok_delayed_items(1) [of k it "pxDelayedTaskList k"] Cons by auto
  then have "wake_delayed now sw k = Some (sw, k\<lparr>xNextTaskUnblockTime := item_value k it\<rparr>)"
    using due Cons by (subst wake_delayed.simps) (auto simp: head_entry_def due_items_def Let_def not_le split: if_splits)
  then show ?thesis using due Cons by (auto simp: not_due_def due_items_def split: if_splits)
qed

lemma wake_delayed_step:
  assumes "entries k (pxDelayedTaskList k) = StateItem t # ys" and "item_value k (StateItem t) \<le> now"
    and "container k (StateItem t) \<noteq> None"
  shows "wake_delayed now sw k = wake_delayed now (sw \<or> uxPriority k (pxCurrentTCB k) < uxPriority k t)
    (prvAddTaskToReadyList t (detach_if (EventItem t) (detach_if (StateItem t) k)))"
  using assms by (subst wake_delayed.simps, simp only: detach_if_guard)
    (simp add: head_entry_def list_remove_detach_if not_less [symmetric])

lemma wake_delayed_woken:
  assumes "kernel_ok k" and "waiting_ok k"
  shows "\<exists>k'. wake_delayed now sw k
      = Some (sw \<or> (\<exists>it \<in> set (due_items now k). uxPriority k (pxCurrentTCB k) < uxPriority k (owner it)), k')
    \<and> woken (owner ` set (due_items now k)) k k'
    \<and> entries k' (pxDelayedTaskList k) = not_due now k
    \<and> (\<forall>it \<in> set (take 1 (not_due now k)). xNextTaskUnblockTime k' = item_value k it)"
  using assms
proof (induction "due_items now k" arbitrary: k sw)
  case Nil
  then obtain v where v: "wake_delayed now sw k = Some (sw, k\<lparr>xNextTaskUnblockTime := v\<rparr>)"
    "\<forall>it \<in> set (take 1 (not_due now k)). v = item_value k it" "not_due now k = entries k (pxDelayedTaskList k)"
    using wake_delayed_done [of now k sw] by metis
  with Nil show ?case by (simp add: woken_none flip: Nil(1))
next
  case (Cons it xs)
  obtain ys where ys: "entries k (pxDelayedTaskList k) = it # ys" and le: "item_value k it \<le> now"
    and xs: "xs = takeWhile (\<lambda>it. item_value k it \<le> now) ys"
    using Cons(2) by (cases "entries k (pxDelayedTaskList k)") (auto simp: due_items_def split: if_splits)
  define t where "t = owner it"
  have it: "it = StateItem t" "container k it = Some (pxDelayedTaskList k)"
    using kernel_ok_delayed_items [OF Cons(3), of it "pxDelayedTaskList k"] ys by (auto simp: t_def)
  define k1 where "k1 = prvAddTaskToReadyList t (detach_if (EventItem t) (detach_if (StateItem t) k))"
  have un: "unblocked t k k1" using unblocked_add_ready [OF Cons(3)] by (auto simp: k1_def)
  have ok1: "kernel_ok k1" "waiting_ok k1" "statics k1 = statics k"
    using un unblocked_waiting_ok [OF un Cons(4)] by (auto simp: unblocked_def)
  note st = statics_eqD [OF ok1(3)]
  have "distinct (it # ys)" using Cons(3) ys by (metis kernel_ok_def lists_ok_def)
  moreover have "(\<forall>p. pxDelayedTaskList k \<noteq> ReadyList p)" "EventItem t \<notin> set (it # ys)"
    using Cons(3) kernel_ok_delayed_items(1) [OF Cons(3), of "EventItem t" "pxDelayedTaskList k"] ys
    by (auto simp: kernel_ok_def)
  ultimately have e1: "entries k1 (pxDelayedTaskList k) = ys"
    using un ys it(1) by (simp add: unblocked_def remove1_idem)
  have xs1: "xs = due_items now k1" "not_due now k1 = not_due now k"
    using xs le ys e1 st by (simp_all add: due_items_def not_due_def)
  have step: "wake_delayed now sw k = wake_delayed now (sw \<or> uxPriority k (pxCurrentTCB k) < uxPriority k t) k1"
    unfolding k1_def by (rule wake_delayed_step) (use ys le it in auto)
  obtain k' where k': "wake_delayed now (sw \<or> uxPriority k (pxCurrentTCB k) < uxPriority k t) k1
      = Some ((sw \<or> uxPriority k (pxCurrentTCB k) < uxPriority k t)
          \<or> (\<exists>it \<in> set (due_items now k1). uxPriority k1 (pxCurrentTCB k1) < uxPriority k1 (owner it)), k')"
    "woken (owner ` set (due_items now k1)) k1 k'" "entries k' (pxDelayedTaskList k1) = not_due now k1"
    "\<forall>it \<in> set (take 1 (not_due now k1)). xNextTaskUnblockTime k' = item_value k1 it"
    using Cons(1) [OF xs1(1) ok1(1,2)] by blast
  have "woken (insert t (owner ` set (due_items now k1))) k k'"
    by (rule woken_step [OF Cons(3,4) un k'(2)])
  moreover have "due_items now k = it # due_items now k1" using Cons(2) xs1(1) by simp
  ultimately show ?case
    using step k' xs1(2) st by (auto simp: t_def)
qed

section \<open>Ticks\<close>

text \<open>
  \<open>time_ok T k\<close>: the kernel is at absolute time \<open>T\<close>, of which the 64-bit tick count is
  the remainder.
\<close>

definition time_ok :: "nat \<Rightarrow> kernel \<Rightarrow> bool" where
  "time_ok T k \<longleftrightarrow> unat (xTickCount k) = T mod 2 ^ 64 \<and> kernel_ok k \<and> waiting_ok k \<and> delays_ok k"

text \<open>When a blocked task is due, in absolute time; \<open>None\<close> for a task without a time-out.\<close>

definition due :: "nat \<Rightarrow> kernel \<Rightarrow> nat \<Rightarrow> nat option" where
  "due T k t =
     (if container k (StateItem t) = Some (pxDelayedTaskList k) then
        Some (T div 2 ^ 64 * 2 ^ 64 + unat (item_value k (StateItem t)))
      else if container k (StateItem t) = Some (pxOverflowDelayedTaskList k) then
        Some ((T div 2 ^ 64 + 1) * 2 ^ 64 + unat (item_value k (StateItem t)))
      else None)"

lemma tick_mod: "unat (v :: tick) = T mod 2 ^ 64 \<Longrightarrow> unat (v + 1) = Suc T mod 2 ^ 64"
  by (simp add: unat_word_ariths mod_Suc_eq)

lemma takeWhile_iff_sorted:
  "sorted (map f xs) \<Longrightarrow> x \<in> set (takeWhile (\<lambda>x. f x \<le> v) xs) \<longleftrightarrow> x \<in> set xs \<and> f x \<le> v"
proof (induction xs)
  case (Cons y ys)
  then show ?case by (auto dest: order_trans)
qed simp

lemma delayed_lists_distinct: "kernel_ok k \<Longrightarrow> pxDelayedTaskList k \<noteq> pxOverflowDelayedTaskList k"
  by (auto simp: kernel_ok_def doubleton_eq_iff)

lemma delayed_not_ready: "kernel_ok k \<Longrightarrow> pxDelayedTaskList k \<noteq> ReadyList p"
    "kernel_ok k \<Longrightarrow> pxOverflowDelayedTaskList k \<noteq> ReadyList p"
  by (auto simp: kernel_ok_def doubleton_eq_iff)

text \<open>
  The part of the tick after the wrap-around: \<open>k\<close> is at time \<open>T\<close>, but its delayed list may
  hold items that are due at \<open>T\<close>.
\<close>

definition almost_ok :: "nat \<Rightarrow> kernel \<Rightarrow> bool" where
  "almost_ok T k \<longleftrightarrow> unat (xTickCount k) = T mod 2 ^ 64 \<and> kernel_ok k \<and> waiting_ok k
     \<and> by_value k (entries k (pxDelayedTaskList k)) \<and> by_value k (entries k (pxOverflowDelayedTaskList k))
     \<and> (\<forall>it \<in> set (entries k (pxDelayedTaskList k)). xTickCount k \<le> item_value k it \<and> xNextTaskUnblockTime k \<le> item_value k it)"

definition due_at :: "nat \<Rightarrow> kernel \<Rightarrow> nat set" where
  "due_at T k = {t. due T k t = Some T}"

definition wake_phase :: "kernel \<Rightarrow> (bool \<times> kernel) option" where
  "wake_phase k = (if xNextTaskUnblockTime k \<le> xTickCount k then wake_delayed (xTickCount k) False k else Some (False, k))"

lemma due_at_items:
  assumes "almost_ok T k"
  shows "due_at T k = owner ` set (due_items (xTickCount k) k)"
proof -
  let ?d = "pxDelayedTaskList k"
  have ok: "kernel_ok k" and tm: "unat (xTickCount k) = T mod 2 ^ 64"
    and srt: "sorted (map (item_value k) (entries k ?d))"
    and ge: "it \<in> set (entries k ?d) \<Longrightarrow> xTickCount k \<le> item_value k it" for it
    using assms by (auto simp: almost_ok_def by_value_def)
  have c: "container k (StateItem t) = Some ?d \<longleftrightarrow> StateItem t \<in> set (entries k ?d)" for t
    using lists_ok_container [OF kernel_ok_lists [OF ok]] by simp
  have T: "T = T div 2 ^ 64 * 2 ^ 64 + unat (xTickCount k)" using tm by simp
  have "t \<in> due_at T k \<longleftrightarrow> StateItem t \<in> set (entries k ?d) \<and> item_value k (StateItem t) = xTickCount k" for t
  proof -
    have "T < (T div 2 ^ 64 + 1) * 2 ^ 64 + v" for v
      using tm by (subst T) (simp add: trans_less_add1)
    moreover have "T = T div 2 ^ 64 * 2 ^ 64 + unat (item_value k (StateItem t)) \<longleftrightarrow> item_value k (StateItem t) = xTickCount k"
      using T by (metis add_left_cancel word_unat_eq_iff)
    ultimately show ?thesis using c by (auto simp: due_at_def due_def)
  qed
  moreover have "it \<in> set (due_items (xTickCount k) k) \<longleftrightarrow> it \<in> set (entries k ?d) \<and> item_value k it = xTickCount k" for it
    unfolding due_items_def takeWhile_iff_sorted [OF srt] using ge by (auto intro: antisym)
  moreover have "it \<in> set (entries k ?d) \<Longrightarrow> it = StateItem (owner it)" for it
    using kernel_ok_delayed_items(1) [OF ok] by simp
  ultimately show ?thesis
    by (auto simp: image_iff)
qed

lemma woken_delays:
  assumes "almost_ok T k" and "woken ts k k'" and "entries k' (pxDelayedTaskList k) = not_due (xTickCount k) k"
    and "\<forall>it \<in> set (take 1 (not_due (xTickCount k) k)). xNextTaskUnblockTime k' = item_value k it"
  shows "time_ok T k'"
proof -
  let ?n = "not_due (xTickCount k) k"
  note st = statics_eqD [of k' k]
  have w: "kernel_ok k'" "waiting_ok k'" "statics k' = statics k"
    "(\<forall>p. m \<noteq> ReadyList p) \<longrightarrow> entries k' m = filter (\<lambda>it. owner it \<notin> ts) (entries k m)" for m
    using assms(2) by (auto simp: woken_def)
  have srt: "sorted (map (item_value k) (entries k (pxDelayedTaskList k)))"
    "sorted (map (item_value k) (entries k (pxOverflowDelayedTaskList k)))"
    and tm: "unat (xTickCount k) = T mod 2 ^ 64" and ok: "kernel_ok k"
    using assms(1) by (auto simp: almost_ok_def by_value_def)
  have n: "sorted (map (item_value k) ?n)"
    using srt(1) unfolding not_due_def by (simp add: sorted_wrt_map sorted_dropWhile sorted_wrt_dropWhile dropWhile_eq_drop sorted_wrt_drop drop_map)
  have "sorted (map (item_value k) (entries k' (pxOverflowDelayedTaskList k)))"
    using srt(2) w(4) delayed_not_ready [OF ok] by (simp add: sorted_filter)
  moreover have "xTickCount k < item_value k it" "xNextTaskUnblockTime k' \<le> item_value k it" if it: "it \<in> set ?n" for it
  proof -
    obtain x xs where xs: "?n = x # xs" using it by (cases ?n) auto
    then have "xTickCount k < item_value k x" unfolding not_due_def
      by (metis dropWhile_eq_Cons_conv not_le)
    moreover have "item_value k x \<le> item_value k it" using n it xs by auto
    moreover have "xNextTaskUnblockTime k' = item_value k x" using assms(4) xs by simp
    ultimately show "xTickCount k < item_value k it" "xNextTaskUnblockTime k' \<le> item_value k it" by auto
  qed
  ultimately show ?thesis
    using w(1-3) st tm n assms(3) by (simp add: time_ok_def delays_ok_def by_value_def)
qed

lemma wake_phase_woken:
  assumes "almost_ok T k"
  shows "\<exists>k'. wake_phase k = Some (\<exists>t \<in> due_at T k. uxPriority k (pxCurrentTCB k) < uxPriority k t, k')
    \<and> woken (due_at T k) k k' \<and> time_ok T k'"
proof (cases "xNextTaskUnblockTime k \<le> xTickCount k")
  case True
  obtain k' where k': "wake_delayed (xTickCount k) False k
      = Some (False \<or> (\<exists>it \<in> set (due_items (xTickCount k) k). uxPriority k (pxCurrentTCB k) < uxPriority k (owner it)), k')"
    "woken (owner ` set (due_items (xTickCount k) k)) k k'"
    "entries k' (pxDelayedTaskList k) = not_due (xTickCount k) k"
    "\<forall>it \<in> set (take 1 (not_due (xTickCount k) k)). xNextTaskUnblockTime k' = item_value k it"
    using wake_delayed_woken [of k "xTickCount k" False] assms unfolding almost_ok_def by blast
  then show ?thesis
    using True woken_delays [OF assms k'(2-4)] by (simp add: wake_phase_def due_at_items [OF assms])
next
  case False
  then have gt: "xTickCount k < item_value k it" if "it \<in> set (entries k (pxDelayedTaskList k))" for it
    using assms that by (auto simp: almost_ok_def not_le intro: less_le_trans)
  then have "due_items (xTickCount k) k = []"
    by (cases "entries k (pxDelayedTaskList k)") (auto simp: due_items_def not_le)
  then have none: "due_at T k = {}" by (simp add: due_at_items [OF assms])
  have "woken {} k k"
    using assms woken_none [of k "xNextTaskUnblockTime k"] by (simp add: almost_ok_def)
  moreover have "time_ok T k" using assms gt by (simp add: almost_ok_def time_ok_def delays_ok_def)
  ultimately show ?thesis using False none by (simp add: wake_phase_def)
qed

text \<open>The increment itself, with the exchange of the delayed lists.\<close>

definition advance :: "kernel \<Rightarrow> kernel option" where
  "advance k = (let k = k\<lparr>xTickCount := xTickCount k + 1\<rparr>
     in if xTickCount k = 0 then taskSWITCH_DELAYED_LISTS k else Some k)"

lemma increment_phases:
  "uxSchedulerSuspended k = 0 \<Longrightarrow> xTaskIncrementTick k = do {
     k \<leftarrow> advance k;
     (sw, k) \<leftarrow> wake_phase k;
     Some (sw \<or> xYieldPending k, k) }"
  by (cases "xTickCount k + 1 = 0")
    (auto simp: xTaskIncrementTick_def advance_def wake_phase_def taskSWITCH_DELAYED_LISTS_def Let_def
      prvResetNextTaskUnblockTime_def)

lemma kernel_ok_swap:
  "kernel_ok k \<Longrightarrow> kernel_ok (k\<lparr>pxDelayedTaskList := pxOverflowDelayedTaskList k,
     pxOverflowDelayedTaskList := pxDelayedTaskList k, xNumOfOverflows := n\<rparr>)"
  by (subst kernel_ok_cong [of _ k]) (simp_all add: insert_commute)

lemma next_tick_greater: "v + 1 \<noteq> 0 \<Longrightarrow> v < w \<Longrightarrow> v + 1 \<le> (w :: tick)"
  by (simp add: inc_le)

lemma div_Suc_wrap: "Suc T mod n \<noteq> 0 \<Longrightarrow> Suc T div n = T div n" "Suc T mod n = 0 \<Longrightarrow> Suc T div n = T div n + 1"
  by (simp_all add: div_Suc)

lemma advance_almost_ok:
  assumes "time_ok T k"
  shows "\<exists>k'. advance k = Some k' \<and> almost_ok (Suc T) k' \<and> container k' = container k \<and> item_value k' = item_value k
    \<and> uxPriority k' = uxPriority k \<and> pxCurrentTCB k' = pxCurrentTCB k \<and> xYieldPending k' = xYieldPending k
    \<and> uxSchedulerSuspended k' = uxSchedulerSuspended k \<and> due (Suc T) k' = due T k
    \<and> uxCurrentNumberOfTasks k' = uxCurrentNumberOfTasks k"
proof -
  have ok: "kernel_ok k" and wt: "waiting_ok k" and dl: "delays_ok k" and tm: "unat (xTickCount k) = T mod 2 ^ 64"
    using assms by (auto simp: time_ok_def)
  have tm': "unat (xTickCount k + 1) = Suc T mod 2 ^ 64" by (rule tick_mod [OF tm])
  show ?thesis
  proof (cases "xTickCount k + 1 = 0")
    case False
    then have "Suc T mod 2 ^ 64 \<noteq> 0" using tm' by (metis unat_eq_zero)
    then have "due (Suc T) (k\<lparr>xTickCount := xTickCount k + 1\<rparr>) = due T k"
      using div_Suc_wrap(1) by (simp add: due_def fun_eq_iff)
    moreover have "almost_ok (Suc T) (k\<lparr>xTickCount := xTickCount k + 1\<rparr>)"
      using ok wt dl tm' next_tick_greater [OF False] by (simp add: almost_ok_def delays_ok_def by_value_def waiting_ok_def)
    ultimately show ?thesis using False by (simp add: advance_def)
  next
    case True
    let ?k = "k\<lparr>xTickCount := 0, pxDelayedTaskList := pxOverflowDelayedTaskList k,
      pxOverflowDelayedTaskList := pxDelayedTaskList k, xNumOfOverflows := xNumOfOverflows k + 1\<rparr>"
    let ?k' = "prvResetNextTaskUnblockTime ?k"
    have "xTickCount k = - 1" using True by (metis add_eq_0_iff2)
    then have e: "entries k (pxDelayedTaskList k) = []"
      using dl by (cases "entries k (pxDelayedTaskList k)") (auto simp: delays_ok_def)
    have adv: "advance k = Some ?k'"
      using True e by (simp add: advance_def taskSWITCH_DELAYED_LISTS_def list_is_empty_def)
    have wrap: "Suc T mod 2 ^ 64 = 0" using tm' True by (metis unat_0)
    have d: "due (Suc T) ?k' = due T k"
      using e div_Suc_wrap(2) [OF wrap] lists_ok_container [OF kernel_ok_lists [OF ok], of _ "pxDelayedTaskList k"]
        delayed_lists_distinct [OF ok]
      by (auto simp: due_def fun_eq_iff prvResetNextTaskUnblockTime_def)
    have "by_value k (entries k (pxOverflowDelayedTaskList k))" using dl by (simp add: delays_ok_def)
    then have "xNextTaskUnblockTime ?k' \<le> item_value k it" if "it \<in> set (entries k (pxOverflowDelayedTaskList k))" for it
      using that by (cases "entries k (pxOverflowDelayedTaskList k)")
        (auto simp: prvResetNextTaskUnblockTime_def head_entry_def by_value_def)
    moreover have "kernel_ok ?k'"
      using kernel_ok_swap [of "k\<lparr>xTickCount := 0\<rparr>"] ok by (simp add: prvResetNextTaskUnblockTime_def)
    ultimately have "almost_ok (Suc T) ?k'"
      using wt dl wrap e by (simp add: almost_ok_def delays_ok_def by_value_def waiting_ok_def prvResetNextTaskUnblockTime_def)
    then show ?thesis using adv d by (simp add: prvResetNextTaskUnblockTime_def)
  qed
qed

lemma tick_effect:
  assumes "time_ok T k" and "uxSchedulerSuspended k = 0"
  defines "W \<equiv> {t. due T k t = Some (Suc T)}"
  shows "\<exists>sw k'. xTaskIncrementTick k = Some (sw, k') \<and> time_ok (Suc T) k'
    \<and> (sw \<longleftrightarrow> xYieldPending k \<or> (\<exists>t \<in> W. uxPriority k (pxCurrentTCB k) < uxPriority k t))
    \<and> (\<forall>t \<in> W. container k' (StateItem t) = Some (ReadyList (uxPriority k t)) \<and> container k' (EventItem t) = None)
    \<and> (\<forall>t. t \<notin> W \<longrightarrow> due (Suc T) k' t = due T k t \<and> container k' (EventItem t) = container k (EventItem t)
        \<and> container k' (StateItem t) = container k (StateItem t))
    \<and> uxSchedulerSuspended k' = 0 \<and> uxPriority k' = uxPriority k \<and> pxCurrentTCB k' = pxCurrentTCB k
    \<and> uxCurrentNumberOfTasks k' = uxCurrentNumberOfTasks k"
proof -
  obtain k1 where k1: "advance k = Some k1" "almost_ok (Suc T) k1" "container k1 = container k" "due (Suc T) k1 = due T k"
    "uxPriority k1 = uxPriority k" "pxCurrentTCB k1 = pxCurrentTCB k" "xYieldPending k1 = xYieldPending k"
    "uxSchedulerSuspended k1 = uxSchedulerSuspended k" "uxCurrentNumberOfTasks k1 = uxCurrentNumberOfTasks k"
    using advance_almost_ok [OF assms(1)] by blast
  have W: "due_at (Suc T) k1 = W" using k1(4) by (simp add: due_at_def W_def)
  obtain k2 where k2: "wake_phase k1 = Some (\<exists>t \<in> W. uxPriority k1 (pxCurrentTCB k1) < uxPriority k1 t, k2)"
    "woken W k1 k2" "time_ok (Suc T) k2"
    using wake_phase_woken [OF k1(2)] W by auto
  have c: "container k2 (StateItem t) = (if t \<in> W then Some (ReadyList (uxPriority k t)) else container k (StateItem t))"
    "container k2 (EventItem t) = (if t \<in> W then None else container k (EventItem t))" for t
    using k2(2) k1 by (auto simp: woken_def)
  have st: "statics k2 = statics k1" "xYieldPending k2 = xYieldPending k1" using k2(2) by (auto simp: woken_def)
  have "due (Suc T) k2 t = due T k t" if "t \<notin> W" for t
  proof -
    have "due (Suc T) k2 t = due (Suc T) k1 t"
      using that c(1) [of t] k1(3) statics_eqD [OF st(1)] by (simp add: due_def)
    then show ?thesis using k1(4) by simp
  qed
  moreover have "uxSchedulerSuspended k2 = 0" "uxPriority k2 = uxPriority k" "pxCurrentTCB k2 = pxCurrentTCB k"
    "uxCurrentNumberOfTasks k2 = uxCurrentNumberOfTasks k"
    using statics_eqD [OF st(1)] k1 assms(2) by simp_all
  ultimately show ?thesis
    using k1 k2 c st(2) by (auto simp: increment_phases [OF assms(2)])
qed

text \<open>
  A kernel for examples, at time 99: task 1 (priority 2) runs, the idle task 0 is ready and task 2
  (priority 1) waits in event list 7 until tick 100.
\<close>

definition sample_kernel :: kernel where
  "sample_kernel = \<lparr>
     lists = (\<lambda>_. xl_empty)(ReadyList 0 := \<lparr>xl_items = [StateItem 0], xl_idx = 0\<rparr>,
       ReadyList 2 := \<lparr>xl_items = [StateItem 1], xl_idx = 1\<rparr>,
       DelayedTaskList1 := \<lparr>xl_items = [StateItem 2], xl_idx = 0\<rparr>,
       EventList 7 := \<lparr>xl_items = [EventItem 2], xl_idx = 0\<rparr>),
     container = (\<lambda>_. None)(StateItem 0 \<mapsto> ReadyList 0, StateItem 1 \<mapsto> ReadyList 2,
       StateItem 2 \<mapsto> DelayedTaskList1, EventItem 2 \<mapsto> EventList 7),
     item_value = (\<lambda>_. 0)(StateItem 2 := 100, EventItem 2 := 4),
     uxPriority = (\<lambda>_. 0)(1 := 2, 2 := 1), uxBasePriority = (\<lambda>_. 0)(1 := 2, 2 := 1),
     uxMutexesHeld = (\<lambda>_. 0), pxCurrentTCB = 1, pxDelayedTaskList = DelayedTaskList1,
     pxOverflowDelayedTaskList = DelayedTaskList2, uxTopReadyPriority = 2, xTickCount = 99,
     xPendedTicks = 0, xNextTaskUnblockTime = 100, xYieldPending = False, uxSchedulerSuspended = 0,
     xNumOfOverflows = 0, uxCurrentNumberOfTasks = 3, pendsv = False\<rparr>"

lemma sample_kernel_ok: "kernel_ok sample_kernel"
proof -
  have "lists_ok sample_kernel"
    by (auto simp: lists_ok_def sample_kernel_def xl_empty_def)
  then show ?thesis
    by (auto simp: kernel_ok_def sample_kernel_def xl_empty_def split: if_splits)
qed

lemma sample_kernel_time: "time_ok 99 sample_kernel"
  using sample_kernel_ok
  by (auto simp: time_ok_def waiting_ok_def delays_ok_def by_value_def sample_kernel_def xl_empty_def split: if_splits)

lemma due_future:
  assumes "time_ok T k" and "due T k t = Some d"
  shows "T < d"
proof -
  have tm: "unat (xTickCount k) = T mod 2 ^ 64" and ok: "kernel_ok k" and dl: "delays_ok k"
    using assms(1) by (auto simp: time_ok_def)
  have T: "T = T div 2 ^ 64 * 2 ^ 64 + unat (xTickCount k)" using tm by simp
  show ?thesis
  proof (cases "container k (StateItem t) = Some (pxDelayedTaskList k)")
    case True
    then have "StateItem t \<in> set (entries k (pxDelayedTaskList k))" using lists_ok_container [OF kernel_ok_lists [OF ok]] by simp
    then have "unat (xTickCount k) < unat (item_value k (StateItem t))"
      using dl by (auto simp: delays_ok_def word_less_nat_alt)
    then show ?thesis using True assms(2) T by (auto simp: due_def)
  next
    case False
    then have "d = (T div 2 ^ 64 + 1) * 2 ^ 64 + unat (item_value k (StateItem t))"
      using assms(2) by (auto simp: due_def split: if_splits)
    then show ?thesis using T by (subst T) (simp add: trans_less_add1 tm)
  qed
qed

text \<open>
  C27: one tick takes the kernel from time \<open>T\<close> to \<open>T + 1\<close>, also when the 64-bit tick count wraps
  around: it always completes, wakes exactly the tasks due at \<open>T + 1\<close> (removing them from their
  event lists too), leaves the due time of every other task as it was, keeps all invariants, and
  asks for a context switch exactly when a woken task has a higher priority than the current one
  or a yield was pending.
\<close>
theorem tick_wakes_exactly_due_tasks:
  assumes "time_ok T k" and "uxSchedulerSuspended k = 0"
  defines "W \<equiv> {t. due T k t = Some (Suc T)}"
  shows "\<exists>sw k'. xTaskIncrementTick k = Some (sw, k') \<and> time_ok (Suc T) k'
    \<and> (sw \<longleftrightarrow> xYieldPending k \<or> (\<exists>t \<in> W. uxPriority k (pxCurrentTCB k) < uxPriority k t))
    \<and> (\<forall>t \<in> W. container k' (StateItem t) = Some (ReadyList (uxPriority k t)) \<and> container k' (EventItem t) = None)
    \<and> (\<forall>t. t \<notin> W \<longrightarrow> due (Suc T) k' t = due T k t \<and> container k' (EventItem t) = container k (EventItem t)
        \<and> container k' (StateItem t) = container k (StateItem t))"
  unfolding W_def using tick_effect [OF assms(1,2)] by blast

lemma tick_wakes_exactly_due_tasks_witness:
  "\<exists>k'. xTaskIncrementTick sample_kernel = Some (False, k') \<and> time_ok 100 k'
    \<and> container k' (StateItem 2) = Some (ReadyList 1) \<and> container k' (EventItem 2) = None
    \<and> container k' (StateItem 1) = Some (ReadyList 2)"
proof -
  have d: "due 99 sample_kernel t = (if t = 2 then Some 100 else None)" for t
    by (simp add: due_def sample_kernel_def)
  then have "{t. due 99 sample_kernel t = Some (Suc 99)} = {2}" by auto
  moreover have "uxSchedulerSuspended sample_kernel = 0" "\<not> xYieldPending sample_kernel"
    "uxPriority sample_kernel 2 = 1" "uxPriority sample_kernel (pxCurrentTCB sample_kernel) = 2"
    "container sample_kernel (StateItem 1) = Some (ReadyList 2)"
    by (simp_all add: sample_kernel_def)
  ultimately show ?thesis
    using tick_wakes_exactly_due_tasks [OF sample_kernel_time] by auto
qed

text \<open>Several ticks in a row, as \<open>xTaskResumeAll\<close> makes up for the pended ones.\<close>

lemma time_ok_yield [simp]: "time_ok T (k\<lparr>xYieldPending := b\<rparr>) = time_ok T k"
  by (simp add: time_ok_def waiting_ok_def delays_ok_def by_value_def)

lemma pended_ticks_effect:
  assumes "time_ok T k" and "uxSchedulerSuspended k = 0"
  shows "\<exists>k'. pended_ticks n k = Some k' \<and> time_ok (T + n) k' \<and> uxSchedulerSuspended k' = 0
    \<and> uxPriority k' = uxPriority k \<and> pxCurrentTCB k' = pxCurrentTCB k
    \<and> uxCurrentNumberOfTasks k' = uxCurrentNumberOfTasks k
    \<and> (\<forall>t. container k' (EventItem t) \<in> {None, container k (EventItem t)})
    \<and> (\<forall>t. case due T k t of None \<Rightarrow> container k' (StateItem t) = container k (StateItem t) \<and> due (T + n) k' t = None
            | Some d \<Rightarrow> if d \<le> T + n then container k' (StateItem t) = Some (ReadyList (uxPriority k t))
                     else due (T + n) k' t = Some d)"
  using assms
proof (induction n arbitrary: T k)
  case 0
  then show ?case using due_future [OF 0(1)] by (fastforce split: option.splits)
next
  case (Suc n)
  obtain sw k1 where k1: "xTaskIncrementTick k = Some (sw, k1)" "time_ok (Suc T) k1" "uxSchedulerSuspended k1 = 0"
    "uxPriority k1 = uxPriority k" "pxCurrentTCB k1 = pxCurrentTCB k"
    "uxCurrentNumberOfTasks k1 = uxCurrentNumberOfTasks k"
    "due T k t = Some (Suc T) \<Longrightarrow> container k1 (StateItem t) = Some (ReadyList (uxPriority k t)) \<and> container k1 (EventItem t) = None"
    "due T k t \<noteq> Some (Suc T) \<Longrightarrow> due (Suc T) k1 t = due T k t \<and> container k1 (StateItem t) = container k (StateItem t)
      \<and> container k1 (EventItem t) = container k (EventItem t)" for t
    using tick_effect [OF Suc(2,3)] by auto
  have ev: "container k1 (EventItem t) \<in> {None, container k (EventItem t)}" for t
    using k1(7,8) [of t] by (cases "due T k t = Some (Suc T)") auto
  let ?k = "if sw then k1\<lparr>xYieldPending := True\<rparr> else k1"
  have k: "time_ok (Suc T) ?k" "uxSchedulerSuspended ?k = 0" "uxPriority ?k = uxPriority k"
    "pxCurrentTCB ?k = pxCurrentTCB k" "container ?k = container k1" "due (Suc T) ?k = due (Suc T) k1"
    "uxCurrentNumberOfTasks ?k = uxCurrentNumberOfTasks k"
    using k1 by (simp_all add: due_def fun_eq_iff)
  obtain k' where k': "pended_ticks n ?k = Some k'" "time_ok (Suc T + n) k'" "uxSchedulerSuspended k' = 0"
    "uxPriority k' = uxPriority ?k" "pxCurrentTCB k' = pxCurrentTCB ?k"
    "uxCurrentNumberOfTasks k' = uxCurrentNumberOfTasks ?k"
    "container k' (EventItem t) \<in> {None, container ?k (EventItem t)}"
    "case due (Suc T) ?k t of None \<Rightarrow> container k' (StateItem t) = container ?k (StateItem t) \<and> due (Suc T + n) k' t = None
     | Some d \<Rightarrow> if d \<le> Suc T + n then container k' (StateItem t) = Some (ReadyList (uxPriority ?k t))
              else due (Suc T + n) k' t = Some d" for t
    using Suc(1) [OF k(1,2)] by blast
  have ready: "due (Suc T) k1 t = None" if "due T k t = Some (Suc T)" for t
    using k1(7) [OF that] k1(2) delayed_not_ready [of k1, symmetric] by (auto simp: due_def time_ok_def)
  have "case due T k t of None \<Rightarrow> container k' (StateItem t) = container k (StateItem t) \<and> due (T + Suc n) k' t = None
     | Some d \<Rightarrow> if d \<le> T + Suc n then container k' (StateItem t) = Some (ReadyList (uxPriority k t))
              else due (T + Suc n) k' t = Some d" for t
    using k'(8) [of t] k1(7,8) [of t] ready [of t] k(3,5,6)
    by (cases "due T k t = Some (Suc T)") (auto split: option.splits if_splits)
  moreover have "container k' (EventItem t) \<in> {None, container k (EventItem t)}" for t
    using k'(7) [of t] ev [of t] k(5) by auto
  ultimately show ?case using k1(1) k' k by simp
qed

section \<open>Blocking\<close>

lemma entries_insert [simp]: "entries (list_insert l it k) l = xl_items (xl_insert (item_value k) it (lists k l))"
  by (simp add: list_insert_def)

lemma sorted_xl_insert:
  assumes "sorted (map val (xl_items L))"
  shows "sorted (map val (xl_items (xl_insert val i L)))"
proof (cases "val i = portMAX_DELAY")
  case True
  then show ?thesis using assms by (simp add: xl_insert_def xl_split_def sorted_append)
next
  case False
  let ?P = "\<lambda>j. val j \<le> val i"
  have srt: "sorted (map val (takeWhile ?P (xl_items L)))" "sorted (map val (dropWhile ?P (xl_items L)))"
    using assms by (metis map_append sorted_append takeWhile_dropWhile_id)+
  have "x \<in> set (dropWhile ?P (xl_items L)) \<Longrightarrow> val i \<le> val x" for x
    using srt(2) by (cases "dropWhile ?P (xl_items L)") (auto simp: dropWhile_eq_Cons_conv not_le intro: order_trans less_imp_le)
  moreover have "x \<in> set (takeWhile ?P (xl_items L)) \<Longrightarrow> val x \<le> val i" for x by (auto dest: set_takeWhileD)
  ultimately show ?thesis
    using srt False by (auto simp: xl_insert_def xl_split_def sorted_append intro: order_trans)
qed

lemma set_item_value_fields [simp]:
  "lists (set_item_value it v k) = lists k" "container (set_item_value it v k) = container k"
  "uxPriority (set_item_value it v k) = uxPriority k" "pxCurrentTCB (set_item_value it v k) = pxCurrentTCB k"
  "item_value (set_item_value it v k) = (item_value k)(it := v)" "xTickCount (set_item_value it v k) = xTickCount k"
  "pxDelayedTaskList (set_item_value it v k) = pxDelayedTaskList k"
  "pxOverflowDelayedTaskList (set_item_value it v k) = pxOverflowDelayedTaskList k"
  "xNextTaskUnblockTime (set_item_value it v k) = xNextTaskUnblockTime k"
  "kernel_ok (set_item_value it v k) = kernel_ok k"
  by (simp_all add: set_item_value_def)

lemma by_value_other: "it \<notin> set xs \<Longrightarrow> by_value (set_item_value it v k) xs = by_value k xs"
proof -
  assume "it \<notin> set xs"
  then have "map ((item_value k)(it := v)) xs = map (item_value k) xs" by (intro map_cong) auto
  then show ?thesis by (simp only: by_value_def set_item_value_fields)
qed

lemma wake_time:
  fixes now ticks :: tick
  assumes "0 < ticks"
  shows "now + ticks < now \<Longrightarrow> unat now + unat ticks = 2 ^ 64 + unat (now + ticks)"
    and "\<not> now + ticks < now \<Longrightarrow> unat now + unat ticks = unat (now + ticks) \<and> now < now + ticks"
proof -
  have "unat v < 2 ^ 64" for v :: tick using unsigned_less [of v] by simp
  note bounds = this [of now] this [of ticks]
  have "0 < unat ticks" using assms by (simp add: word_less_nat_alt)
  then show "now + ticks < now \<Longrightarrow> unat now + unat ticks = 2 ^ 64 + unat (now + ticks)"
    "\<not> now + ticks < now \<Longrightarrow> unat now + unat ticks = unat (now + ticks) \<and> now < now + ticks"
    using bounds
    by (auto simp: word_less_nat_alt unat_plus_if' split: if_splits)
qed

text \<open>What holds just before the current task blocks: it may already be in an event list.\<close>

definition about_to_block :: "nat \<Rightarrow> kernel \<Rightarrow> bool" where
  "about_to_block T k \<longleftrightarrow> unat (xTickCount k) = T mod 2 ^ 64 \<and> kernel_ok k \<and> delays_ok k
     \<and> (\<exists>p. container k (StateItem (pxCurrentTCB k)) = Some (ReadyList p))
     \<and> (\<forall>t. t \<noteq> pxCurrentTCB k \<longrightarrow> container k (EventItem t) \<noteq> None \<longrightarrow>
          container k (StateItem t) \<in> Some ` {DelayedTaskList1, DelayedTaskList2, SuspendedTaskList})"

text \<open>Moving the state item of the current task to a list of blocked tasks.\<close>

lemma block_into:
  fixes T k
  defines "c \<equiv> StateItem (pxCurrentTCB k)"
  assumes "about_to_block T k" and "item_fits k l c" and "\<And>p. l \<noteq> ReadyList p"
    and "k1 = detach_if c k"
    and "k' = list_insert_end l c k1 \<or> k' = list_insert l c (set_item_value c w k1)"
  shows "kernel_ok k'"
    and "m \<noteq> l \<Longrightarrow> (\<forall>p. m \<noteq> ReadyList p) \<Longrightarrow> entries k' m = entries k m"
    and "c \<notin> set (entries k m) \<or> (\<exists>p. m = ReadyList p)"
    and "container k' = (container k)(c \<mapsto> l)"
proof -
  obtain p where p: "container k c = Some (ReadyList p)" and ok: "kernel_ok k"
    using assms(2) by (auto simp: about_to_block_def c_def)
  have k1: "kernel_ok k1" "container k1 c = None" "entries k1 n = remove1 c (entries k n)"
    "uxPriority k1 = uxPriority k" for n
    using ok by (simp_all add: assms(5) kernel_ok_detach_if entries_detach_if)
  have f: "item_fits k1 l c" "item_fits (set_item_value c w k1) l c"
    using assms(3) k1(4) item_fits_cong [of k1 k] item_fits_cong [of "set_item_value c w k1" k] by simp_all
  show "kernel_ok k'"
    using assms(6) kernel_ok_attach [OF k1(1,2) f(1), of k'] kernel_ok_attach [OF _ _ f(2), of k'] k1(1,2) assms(4)
    by auto
  show no: "c \<notin> set (entries k m) \<or> (\<exists>p. m = ReadyList p)" for m
    using p lists_ok_container [OF kernel_ok_lists [OF ok], of c m] by auto
  show "m \<noteq> l \<Longrightarrow> (\<forall>p. m \<noteq> ReadyList p) \<Longrightarrow> entries k' m = entries k m"
    using assms(6) k1(3) no [of m] by (auto simp: remove1_idem)
  show "container k' = (container k)(c \<mapsto> l)" using assms(5,6) by auto
qed

lemma due_cong:
  "container k' (StateItem t) = container k (StateItem t) \<Longrightarrow> item_value k' (StateItem t) = item_value k (StateItem t) \<Longrightarrow>
   pxDelayedTaskList k' = pxDelayedTaskList k \<Longrightarrow> pxOverflowDelayedTaskList k' = pxOverflowDelayedTaskList k \<Longrightarrow>
   due T k' t = due T k t"
  by (simp add: due_def)

text \<open>
  \<open>blocked_until\<close>: from \<open>k\<close> to \<open>k'\<close> exactly the current task became blocked, for
  \<open>ticks\<close> ticks or, with \<open>None\<close>, without a time-out.
\<close>

definition blocked_until :: "nat \<Rightarrow> nat option \<Rightarrow> kernel \<Rightarrow> kernel \<Rightarrow> bool" where
  "blocked_until T n k k' \<longleftrightarrow> time_ok T k' \<and> due T k' (pxCurrentTCB k) = map_option (\<lambda>n. T + n) n
     \<and> (n = None \<longrightarrow> container k' (StateItem (pxCurrentTCB k)) = Some SuspendedTaskList)
     \<and> (\<forall>t. t \<noteq> pxCurrentTCB k \<longrightarrow> container k' (StateItem t) = container k (StateItem t) \<and> due T k' t = due T k t)
     \<and> (\<forall>t. container k' (EventItem t) = container k (EventItem t))
     \<and> (\<forall>e. entries k' (EventList e) = entries k (EventList e))
     \<and> uxSchedulerSuspended k' = uxSchedulerSuspended k \<and> pxCurrentTCB k' = pxCurrentTCB k
     \<and> uxPriority k' = uxPriority k \<and> uxCurrentNumberOfTasks k' = uxCurrentNumberOfTasks k"

lemma delayed_list_kinds: "kernel_ok k \<Longrightarrow> l \<in> {pxDelayedTaskList k, pxOverflowDelayedTaskList k} \<Longrightarrow>
    l = DelayedTaskList1 \<or> l = DelayedTaskList2"
  by (auto simp: kernel_ok_def doubleton_eq_iff)

lemma state_item_fits: "l = DelayedTaskList1 \<or> l = DelayedTaskList2 \<or> l = SuspendedTaskList \<Longrightarrow> item_fits k l (StateItem t)"
  by auto

lemma time_ok_blocked:
  assumes "about_to_block T k" and "kernel_ok k'" and "container k' = (container k)(StateItem (pxCurrentTCB k) \<mapsto> l)"
    and "l = DelayedTaskList1 \<or> l = DelayedTaskList2 \<or> l = SuspendedTaskList" and "delays_ok k'"
    and "xTickCount k' = xTickCount k"
  shows "time_ok T k'"
  using assms by (auto simp: time_ok_def about_to_block_def waiting_ok_def)

lemma blocked_frame:
  assumes "about_to_block T k" and "item_fits k l (StateItem (pxCurrentTCB k))" and "\<And>p. l \<noteq> ReadyList p"
    and "k1 = detach_if (StateItem (pxCurrentTCB k)) k"
    and "k' = list_insert_end l (StateItem (pxCurrentTCB k)) k1
       \<or> k' = list_insert l (StateItem (pxCurrentTCB k)) (set_item_value (StateItem (pxCurrentTCB k)) w k1)"
  shows "uxPriority k' = uxPriority k" "pxCurrentTCB k' = pxCurrentTCB k" "pxDelayedTaskList k' = pxDelayedTaskList k"
    "pxOverflowDelayedTaskList k' = pxOverflowDelayedTaskList k" "xTickCount k' = xTickCount k"
    "uxSchedulerSuspended k' = uxSchedulerSuspended k" "xNextTaskUnblockTime k' = xNextTaskUnblockTime k"
    "t \<noteq> pxCurrentTCB k \<Longrightarrow> item_value k' (StateItem t) = item_value k (StateItem t)"
    "uxCurrentNumberOfTasks k' = uxCurrentNumberOfTasks k"
proof -
  have st: "statics k1 = statics k" "xNextTaskUnblockTime k1 = xNextTaskUnblockTime k"
    using assms(4) by (simp_all add: detach_if_def split: option.splits)
  note sts = statics_eqD [OF st(1)]
  from assms(5) sts st(2) show "uxPriority k' = uxPriority k" "pxCurrentTCB k' = pxCurrentTCB k"
    "pxDelayedTaskList k' = pxDelayedTaskList k"
    "pxOverflowDelayedTaskList k' = pxOverflowDelayedTaskList k" "xTickCount k' = xTickCount k"
    "xNextTaskUnblockTime k' = xNextTaskUnblockTime k"
    "t \<noteq> pxCurrentTCB k \<Longrightarrow> item_value k' (StateItem t) = item_value k (StateItem t)"
    by auto
  show "uxSchedulerSuspended k' = uxSchedulerSuspended k" "uxCurrentNumberOfTasks k' = uxCurrentNumberOfTasks k"
    using assms(5) sts by (auto simp: set_item_value_def)
qed

lemma block_forever:
  assumes "about_to_block T k" and "k1 = detach_if (StateItem (pxCurrentTCB k)) k"
    and k': "k' = list_insert_end SuspendedTaskList (StateItem (pxCurrentTCB k)) k1"
  shows "blocked_until T None k k'"
proof -
  let ?c = "StateItem (pxCurrentTCB k)"
  have ok: "kernel_ok k" and dl: "delays_ok k" using assms(1) by (auto simp: about_to_block_def)
  note b = block_into [OF assms(1) state_item_fits _ assms(2) disjI1 [OF k'], simplified]
  note fr = blocked_frame [OF assms(1) state_item_fits _ assms(2) disjI1 [OF k'], simplified]
  have iv: "item_value k' = item_value k"
    using assms(2) statics_eqD [of k1 k] by (simp add: k')
  have "delays_ok k'"
    using dl delayed_list_kinds [OF ok, of "pxDelayedTaskList k"]
      delayed_list_kinds [OF ok, of "pxOverflowDelayedTaskList k"] b(2) [of "pxDelayedTaskList k"]
      b(2) [of "pxOverflowDelayedTaskList k"] fr(3,4,5,7) iv
    by (auto simp: delays_ok_def by_value_def)
  then have "time_ok T k'"
    using time_ok_blocked [OF assms(1) b(1) b(4)] fr(5) by simp
  moreover have "due T k' t = due T k t" if "t \<noteq> pxCurrentTCB k" for t
    using that b(4) fr(3,4) iv by (intro due_cong) auto
  moreover have "due T k' (pxCurrentTCB k) = None"
    using b(4) fr(3,4) delayed_list_kinds [OF ok] by (auto simp: due_def)
  moreover have "entries k' (EventList e) = entries k (EventList e)" for e using b(2) by simp
  ultimately show ?thesis
    using b(4) fr(1,2,6,9) by (simp add: blocked_until_def)
qed

lemma block_timed_delays:
  fixes wake :: tick
  assumes "about_to_block T k" and "k1 = detach_if (StateItem (pxCurrentTCB k)) k"
    and k': "k' = list_insert l (StateItem (pxCurrentTCB k)) (set_item_value (StateItem (pxCurrentTCB k)) wake k1)"
    and l: "l = pxOverflowDelayedTaskList k \<or> l = pxDelayedTaskList k \<and> xTickCount k < wake"
  shows "delays_ok (if l = pxDelayedTaskList k \<and> wake < xNextTaskUnblockTime k then k'\<lparr>xNextTaskUnblockTime := wake\<rparr> else k')"
proof -
  let ?c = "StateItem (pxCurrentTCB k)" and ?d = "pxDelayedTaskList k" and ?o = "pxOverflowDelayedTaskList k"
  have ok: "kernel_ok k" and dl: "delays_ok k" using assms(1) by (auto simp: about_to_block_def)
  have kinds: "l = DelayedTaskList1 \<or> l = DelayedTaskList2 \<or> l = SuspendedTaskList"
    using l delayed_list_kinds [OF ok, of l] by auto
  have nr: "\<And>p. l \<noteq> ReadyList p" using kinds by auto
  note b = block_into [OF assms(1) state_item_fits [OF kinds] nr assms(2) disjI2 [OF k']]
  note fr = blocked_frame [OF assms(1) state_item_fits [OF kinds] nr assms(2) disjI2 [OF k']]
  have iv: "item_value k' = (item_value k)(?c := wake)" using assms(2) statics_eqD [of k1 k] by (simp add: k')
  have new: "?c \<notin> set (entries k m)" if "m = ?d \<or> m = ?o" for m
    using b(3) [of m] that delayed_not_ready [OF ok, symmetric] by auto
  have e1: "entries k1 l = entries k l"
    using new [of l] l by (auto simp: assms(2) entries_detach_if [OF ok] remove1_idem)
  have srt: "sorted (map (item_value k') (entries k m))" if "m = ?d \<or> m = ?o" for m
  proof -
    have "map (item_value k') (entries k m) = map (item_value k) (entries k m)"
      using new [OF that] by (intro map_cong) (auto simp: iv)
    moreover have "sorted (map (item_value k) (entries k m))" using dl that by (auto simp: delays_ok_def by_value_def)
    ultimately show ?thesis by (simp only:)
  qed
  have "item_value (set_item_value ?c wake k1) = item_value k'" by (simp add: k')
  then have L: "entries k' l = xl_items (xl_insert (item_value k') ?c (lists k1 l))" by (simp add: k')
  have srt': "sorted (map (item_value k') (entries k' m))" if "m = ?d \<or> m = ?o" for m
  proof (cases "m = l")
    case True
    then show ?thesis using srt [OF that] sorted_xl_insert [of "item_value k'" "lists k1 l" ?c] e1 by (simp add: L)
  next
    case False
    then show ?thesis using srt [OF that] b(2) [of m] that delayed_not_ready [OF ok] by auto
  qed
  have old: "xTickCount k < item_value k' it \<and> xNextTaskUnblockTime k \<le> item_value k' it" if "it \<in> set (entries k ?d)" for it
    using that dl new [of ?d] by (auto simp: delays_ok_def iv)
  have mem: "it \<in> set (entries k' ?d) \<longleftrightarrow> it \<in> set (entries k ?d) \<or> it = ?c \<and> l = ?d" for it
    using L e1 b(2) [of ?d] delayed_not_ready [OF ok] by (cases "l = ?d") auto
  have ic: "item_value k' ?c = wake" by (simp add: iv)
  have less: "l = ?d \<Longrightarrow> xTickCount k < wake" using l delayed_lists_distinct [OF ok] by auto
  show ?thesis
  proof (cases "l = ?d \<and> wake < xNextTaskUnblockTime k")
    case True
    then have "wake \<le> item_value k' it" if "it \<in> set (entries k ?d)" for it
      using old [OF that] by (meson less_imp_le less_le_trans)
    then show ?thesis
      using True srt' old mem ic less fr(3-5) by (auto simp: delays_ok_def by_value_def)
  next
    case False
    then show ?thesis
      using srt' old mem ic less fr(3-5,7) by (auto simp: delays_ok_def by_value_def not_less)
  qed
qed

lemma block_timed:
  fixes ticks :: tick
  assumes "about_to_block T k" and "k1 = detach_if (StateItem (pxCurrentTCB k)) k" and "0 < ticks"
    and wake: "wake = xTickCount k + ticks"
    and l: "l = (if wake < xTickCount k then pxOverflowDelayedTaskList k else pxDelayedTaskList k)"
    and k': "k' = list_insert l (StateItem (pxCurrentTCB k)) (set_item_value (StateItem (pxCurrentTCB k)) wake k1)"
    and k2: "k2 = (if \<not> wake < xTickCount k \<and> wake < xNextTaskUnblockTime k then k'\<lparr>xNextTaskUnblockTime := wake\<rparr> else k')"
  shows "blocked_until T (Some (unat ticks)) k k2"
proof -
  let ?c = "StateItem (pxCurrentTCB k)" and ?d = "pxDelayedTaskList k" and ?o = "pxOverflowDelayedTaskList k"
  have ok: "kernel_ok k" and tm: "unat (xTickCount k) = T mod 2 ^ 64" using assms(1) by (auto simp: about_to_block_def)
  have ne: "?o \<noteq> ?d" using delayed_lists_distinct [OF ok] by simp
  note wt = wake_time [OF assms(3), of "xTickCount k", folded wake]
  have kinds: "l = DelayedTaskList1 \<or> l = DelayedTaskList2 \<or> l = SuspendedTaskList"
    using l delayed_list_kinds [OF ok, of l] by auto
  have nr: "\<And>p. l \<noteq> ReadyList p" using kinds by auto
  note b = block_into [OF assms(1) state_item_fits [OF kinds] nr assms(2) disjI2 [OF k']]
  note fr = blocked_frame [OF assms(1) state_item_fits [OF kinds] nr assms(2) disjI2 [OF k']]
  have "l = ?o \<or> l = ?d \<and> xTickCount k < wake" using l wt(2) by auto
  from block_timed_delays [OF assms(1,2) k' this] have "delays_ok k2"
    using l ne by (simp add: k2 split: if_splits)
  moreover have "kernel_ok k2" using b(1) by (simp add: k2)
  ultimately have t2: "time_ok T k2"
    using time_ok_blocked [OF assms(1), of k2 l] b(4) fr(5) kinds by (simp add: k2)
  have dl: "pxDelayedTaskList k2 = ?d" "pxOverflowDelayedTaskList k2 = ?o" "container k2 = (container k)(?c \<mapsto> l)"
    "item_value k2 ?c = wake" "item_value k2 (StateItem t) = item_value k (StateItem t)" if "t \<noteq> pxCurrentTCB k" for t
    using that fr(3,4,8) b(4) by (auto simp: k2 k')
  have other: "due T k2 t = due T k t" if "t \<noteq> pxCurrentTCB k" for t
    using that dl [OF that] by (intro due_cong) auto
  have T: "T = T div 2 ^ 64 * 2 ^ 64 + unat (xTickCount k)" using tm by simp
  have "due T k2 (pxCurrentTCB k) = Some (T + unat ticks)"
  proof (cases "wake < xTickCount k")
    case True
    have "T + unat ticks = T div 2 ^ 64 * 2 ^ 64 + (unat (xTickCount k) + unat ticks)" using T by simp
    then show ?thesis using True wt(1) l ne fr(3,4) b(4) by (simp add: due_def k2 k')
  next
    case False
    have "T + unat ticks = T div 2 ^ 64 * 2 ^ 64 + (unat (xTickCount k) + unat ticks)" using T by simp
    then show ?thesis using False wt(2) l fr(3,4) b(4) by (simp add: due_def k2 k')
  qed
  moreover have "entries k2 (EventList e) = entries k (EventList e)" for e
    using b(2) [of "EventList e"] kinds by (auto simp: k2)
  ultimately show ?thesis
    using t2 other b(4) fr(1,2,6,9) by (simp add: blocked_until_def k2)
qed

lemma add_to_delayed_list:
  assumes "about_to_block T k" and "0 < ticks"
  shows "\<exists>k'. prvAddCurrentTaskToDelayedList ticks can k = Some k'
    \<and> blocked_until T (if ticks = portMAX_DELAY \<and> can then None else Some (unat ticks)) k k'"
proof -
  let ?c = "StateItem (pxCurrentTCB k)"
  define k1 where "k1 = detach_if ?c k"
  have "container k ?c \<noteq> None" using assms(1) by (auto simp: about_to_block_def)
  then have r: "list_remove ?c k = Some k1" by (simp add: list_remove_detach_if k1_def)
  have k1: "xTickCount k1 = xTickCount k" "pxDelayedTaskList k1 = pxDelayedTaskList k"
    "pxOverflowDelayedTaskList k1 = pxOverflowDelayedTaskList k" "xNextTaskUnblockTime k1 = xNextTaskUnblockTime k"
    using statics_eqD [of k1 k] by (simp_all add: k1_def detach_if_def split: option.splits)
  show ?thesis
  proof (cases "ticks = portMAX_DELAY \<and> can")
    case True
    then show ?thesis using block_forever [OF assms(1) k1_def refl] r
      by (simp add: prvAddCurrentTaskToDelayedList_def)
  next
    case False
    show ?thesis
      using block_timed [OF assms(1) k1_def assms(2) refl refl refl refl] False r k1
      by (auto simp: prvAddCurrentTaskToDelayedList_def Let_def)
  qed
qed

text \<open>
  A task that blocks for \<open>n\<close> ticks is woken by the \<open>n\<close>-th tick, no earlier and no later,
  whatever the tick count, in particular across its wrap-around: after fewer ticks it still is
  blocked with the same due time, after \<open>n\<close> ticks it is in the ready list of its priority. A
  time-out of \<open>portMAX_DELAY\<close> that may block indefinitely puts it among the suspended tasks, where
  no tick wakes it. Blocking and ticks never fail.
\<close>
theorem blocked_task_wakes_on_time:
  assumes "about_to_block T k" and "0 < ticks" and "uxSchedulerSuspended k = 0"
  shows "\<exists>k1 k2. prvAddCurrentTaskToDelayedList ticks canBlock k = Some k1 \<and> pended_ticks m k1 = Some k2
    \<and> container k2 (StateItem (pxCurrentTCB k)) =
       (if ticks = portMAX_DELAY \<and> canBlock then Some SuspendedTaskList
        else if unat ticks \<le> m then Some (ReadyList (uxPriority k (pxCurrentTCB k)))
        else container k2 (StateItem (pxCurrentTCB k)))
    \<and> due (T + m) k2 (pxCurrentTCB k) =
       (if ticks = portMAX_DELAY \<and> canBlock \<or> unat ticks \<le> m then None else Some (T + unat ticks))"
proof -
  obtain k1 where k1: "prvAddCurrentTaskToDelayedList ticks canBlock k = Some k1"
    "blocked_until T (if ticks = portMAX_DELAY \<and> canBlock then None else Some (unat ticks)) k k1"
    using add_to_delayed_list [OF assms(1,2)] by blast
  then have "time_ok T k1" "uxSchedulerSuspended k1 = 0" using assms(3) by (auto simp: blocked_until_def)
  from pended_ticks_effect [OF this, of m] obtain k2 where k2: "pended_ticks m k1 = Some k2" "time_ok (T + m) k2"
    "case due T k1 (pxCurrentTCB k) of None \<Rightarrow> container k2 (StateItem (pxCurrentTCB k)) = container k1 (StateItem (pxCurrentTCB k))
       \<and> due (T + m) k2 (pxCurrentTCB k) = None
     | Some d \<Rightarrow> if d \<le> T + m then container k2 (StateItem (pxCurrentTCB k)) = Some (ReadyList (uxPriority k1 (pxCurrentTCB k)))
              else due (T + m) k2 (pxCurrentTCB k) = Some d" by blast
  have "due (T + m) k2 (pxCurrentTCB k) = None"
    if "container k2 (StateItem (pxCurrentTCB k)) = Some (ReadyList p)" for p
    using that k2(2) delayed_not_ready [of k2, symmetric] by (auto simp: due_def time_ok_def)
  then show ?thesis
    using k1 k2 by (auto simp: blocked_until_def split: if_splits)
qed

lemma blocked_task_wakes_on_time_witness:
  "\<exists>k1 k2. prvAddCurrentTaskToDelayedList 5 True sample_kernel = Some k1 \<and> pended_ticks 5 k1 = Some k2
    \<and> container k2 (StateItem 1) = Some (ReadyList 2) \<and> due 104 k2 1 = None"
proof -
  have "pxCurrentTCB sample_kernel = 1" "uxPriority sample_kernel 1 = 2" "uxSchedulerSuspended sample_kernel = 0"
    by (simp_all add: sample_kernel_def)
  moreover have "about_to_block 99 sample_kernel"
    using sample_kernel_time by (auto simp: about_to_block_def time_ok_def waiting_ok_def sample_kernel_def)
  moreover have "(5 :: tick) \<noteq> portMAX_DELAY" by simp
  ultimately show ?thesis
    using blocked_task_wakes_on_time [of 99 sample_kernel 5 True 5] by simp
qed

end
