(* ===== verification/Rtos_Ring.thy ===== *)
theory Rtos_Ring
  imports Rtos_Queue Rtos_Sched
begin

text \<open>
  The ring buffer of a queue is a bounded first-in first-out list: the interface of such a queue,
  the representation of a list in the storage area, and the copy routines of \<open>queue.c\<close> as an
  implementation of the interface.
\<close>

section \<open>The interface\<close>

datatype 'a fifo_op = Put 'a | Get

locale fifo =
  fixes ok :: "'q \<Rightarrow> bool"
    and items :: "'q \<Rightarrow> 'a list"
    and cap :: "'q \<Rightarrow> nat"
    and fits :: "'q \<Rightarrow> 'a \<Rightarrow> bool"
    and put :: "'a \<Rightarrow> 'q \<Rightarrow> 'q option"
    and get :: "'q \<Rightarrow> ('a \<times> 'q) option"
  assumes put_item: "ok q \<Longrightarrow> fits q x \<Longrightarrow> length (items q) < cap q \<Longrightarrow>
      \<exists>q'. put x q = Some q' \<and> ok q' \<and> items q' = items q @ [x] \<and> cap q' = cap q \<and> fits q' = fits q"
    and get_item: "ok q \<Longrightarrow> items q \<noteq> [] \<Longrightarrow>
      \<exists>q'. get q = Some (hd (items q), q') \<and> ok q' \<and> items q' = tl (items q) \<and> cap q' = cap q \<and> fits q' = fits q"
begin

lemma put_all: "ok q \<Longrightarrow> list_all (fits q) xs \<Longrightarrow> length (items q) + length xs \<le> cap q \<Longrightarrow>
    \<exists>q'. fold (\<lambda>x s. Option.bind s (put x)) xs (Some q) = Some q' \<and> ok q' \<and> items q' = items q @ xs
      \<and> cap q' = cap q \<and> fits q' = fits q"
proof (induction xs arbitrary: q)
  case (Cons x xs)
  then obtain q1 where q1: "put x q = Some q1" "ok q1" "items q1 = items q @ [x]" "cap q1 = cap q" "fits q1 = fits q"
    using put_item [of q x] by auto
  have "\<exists>q'. fold (\<lambda>x s. Option.bind s (put x)) xs (Some q1) = Some q' \<and> ok q' \<and> items q' = items q1 @ xs
      \<and> cap q' = cap q1 \<and> fits q' = fits q1"
    by (rule Cons.IH) (use Cons.prems q1 in auto)
  then show ?case using q1 by auto
qed simp

lemma get_all: "ok q \<Longrightarrow> n = length (items q) \<Longrightarrow>
    \<exists>q'. fold (\<lambda>_ s. do { (ys, q) \<leftarrow> s; (y, q) \<leftarrow> get q; Some (ys @ [y], q) }) [0..<n] (Some (ys, q)) = Some (ys @ items q, q')
      \<and> ok q' \<and> items q' = []"
proof (induction n arbitrary: q ys)
  case (Suc n)
  then have ne: "items q \<noteq> []" by auto
  obtain q1 where q1: "get q = Some (hd (items q), q1)" "ok q1" "items q1 = tl (items q)"
    using get_item [OF Suc.prems(1) ne] by blast
  have "[0..<Suc n] = 0 # map Suc [0..<n]" by (simp add: map_Suc_upt upt_conv_Cons del: upt_Suc)
  moreover have "n = length (items q1)" using Suc.prems(2) q1(3) by simp
  ultimately show ?case
    using Suc.IH [OF q1(2), of "ys @ [hd (items q)]"] q1 ne by (simp add: fold_map comp_def del: upt_Suc)
qed simp

end

section \<open>The representation\<close>

text \<open>
  With slots of the item size, the oldest item is in the slot after \<open>pcReadFrom\<close> and the next
  free slot is as many slots further as there are items.
\<close>

definition queue_ok :: "Queue_t \<Rightarrow> bool" where
  "queue_ok q \<longleftrightarrow> (let L = unat (uxLength q); S = unat (uxItemSize q); n = unat (uxMessagesWaiting q) in
     0 < L \<and> L * S < 2 ^ 32 \<and> n \<le> L
     \<and> (S \<noteq> 0 \<longrightarrow> length (storage q) = L * S \<and> \<not> queueQUEUE_IS_MUTEX q
          \<and> (\<exists>rd < L. u_data q = XQueue (int (L * S)) (int (rd * S)) \<and> pcWriteTo q = int ((rd + 1 + n) mod L * S))))"

definition read_index :: "Queue_t \<Rightarrow> nat" where
  "read_index q = (case u_data q of XQueue tail rd \<Rightarrow> nat rd div unat (uxItemSize q) | _ \<Rightarrow> 0)"

definition queue_items :: "Queue_t \<Rightarrow> u8 list list" where
  "queue_items q = map (\<lambda>j. slot (unat (uxItemSize q)) (storage q) ((read_index q + 1 + j) mod unat (uxLength q)))
     [0..<unat (uxMessagesWaiting q)]"

lemma length_queue_items [simp]: "length (queue_items q) = unat (uxMessagesWaiting q)"
  by (simp add: queue_items_def)

definition data_queue :: "Queue_t \<Rightarrow> bool" where
  "data_queue q \<longleftrightarrow> queue_ok q \<and> uxItemSize q \<noteq> 0"

text \<open>The view of a well-formed queue with items.\<close>

lemma data_queueE:
  assumes "data_queue q"
  obtains L S n rd where "unat (uxLength q) = L" "unat (uxItemSize q) = S" "unat (uxMessagesWaiting q) = n"
    "0 < L" "0 < S" "L * S < 2 ^ 32" "n \<le> L" "length (storage q) = L * S" "rd < L"
    "u_data q = XQueue (int (L * S)) (int (rd * S))" "pcWriteTo q = int ((rd + 1 + n) mod L * S)"
    "read_index q = rd" "\<not> queueQUEUE_IS_MUTEX q"
    "queue_items q = map (\<lambda>j. slot S (storage q) ((rd + 1 + j) mod L)) [0..<n]"
proof -
  let ?L = "unat (uxLength q)" and ?S = "unat (uxItemSize q)" and ?n = "unat (uxMessagesWaiting q)"
  have S: "0 < ?S" using assms by (simp add: data_queue_def unat_gt_0)
  then obtain rd where rd: "rd < ?L" "u_data q = XQueue (int (?L * ?S)) (int (rd * ?S))"
    "pcWriteTo q = int ((rd + 1 + ?n) mod ?L * ?S)"
    using assms by (auto simp: data_queue_def queue_ok_def Let_def)
  have "nat (int (rd * ?S)) div ?S = rd" using S by (simp del: of_nat_mult)
  then have "read_index q = rd" using rd(2) by (simp add: read_index_def)
  moreover have "0 < ?L" "?L * ?S < 2 ^ 32" "?n \<le> ?L" "length (storage q) = ?L * ?S" "\<not> queueQUEUE_IS_MUTEX q"
    using assms S by (auto simp: data_queue_def queue_ok_def Let_def)
  ultimately show thesis
    using that [OF refl refl refl _ S, of rd] rd by (simp add: queue_items_def del: of_nat_mult)
qed

lemma next_slot:
  assumes "i < L" and "0 < S"
  shows "(if int (i * S) + int S \<ge> int (L * S) then 0 else int (i * S) + int S) = int ((i + 1) mod L * S)"
proof -
  have e: "int (i * S) + int S = int ((i + 1) * S)" by (simp add: algebra_simps)
  have "int (L * S) \<le> int ((i + 1) * S) \<longleftrightarrow> L \<le> i + 1"
    using assms(2) by (metis of_nat_le_iff mult_le_cancel2)
  then show ?thesis
    unfolding e using assms(1) by (cases "i + 1 = L") (auto simp del: of_nat_mult)
qed

lemma previous_slot:
  assumes "i < L" and "0 < S"
  shows "(if int (i * S) - int S < 0 then int (L * S) - int S else int (i * S) - int S) = int ((i + (L - 1)) mod L * S)"
proof (cases i)
  case 0
  have "int (L * S) - int S = int ((L - 1) * S)"
    using assms(1) by (simp add: algebra_simps of_nat_diff)
  with 0 assms show ?thesis by (simp del: of_nat_mult)
next
  case (Suc j)
  then have "(i + (L - 1)) mod L = j" using assms(1) by (metis add_Suc_shift add_diff_cancel_left' add_Suc_right diff_Suc_1
      le_add_diff_inverse2 less_imp_Suc_add mod_add_self2 mod_less Suc_lessD plus_1_eq_Suc)
  moreover have "int (i * S) - int S = int (j * S)" by (simp add: Suc)
  ultimately show ?thesis by (simp del: of_nat_mult)
qed

lemma unat_inc: "unat (n :: u32) < unat (m :: u32) \<Longrightarrow> unat (n + 1) = unat n + 1"
proof -
  assume "unat n < unat m"
  moreover have "unat m < 2 ^ LENGTH(32)" by (rule unsigned_less)
  ultimately have "unat n + 1 < 2 ^ LENGTH(32)" by linarith
  then show ?thesis by (simp add: unat_word_ariths)
qed

lemma unat_dec: "n \<noteq> 0 \<Longrightarrow> unat (n - 1) = unat (n :: u32) - 1"
  by (simp add: unat_sub word_le_nat_alt Suc_le_eq unat_gt_0)

section \<open>The copy routines\<close>

text \<open>What the copy routines leave alone.\<close>

definition same_queue :: "Queue_t \<Rightarrow> Queue_t \<Rightarrow> bool" where
  "same_queue q q' \<longleftrightarrow> uxLength q' = uxLength q \<and> uxItemSize q' = uxItemSize q \<and> cRxLock q' = cRxLock q
     \<and> cTxLock q' = cTxLock q \<and> xTasksWaitingToSend q' = xTasksWaitingToSend q
     \<and> xTasksWaitingToReceive q' = xTasksWaitingToReceive q \<and> queueQUEUE_IS_MUTEX q' = queueQUEUE_IS_MUTEX q"

lemma data_queueI:
  assumes "unat (uxLength q) = L" "unat (uxItemSize q) = S" "unat (uxMessagesWaiting q) = n" "0 < S"
    "L * S < 2 ^ 32" "n \<le> L" "length (storage q) = L * S" "rd < L" "\<not> queueQUEUE_IS_MUTEX q"
    "u_data q = XQueue (int (L * S)) (int (rd * S))" "pcWriteTo q = int ((rd + 1 + n) mod L * S)"
  shows "data_queue q" and "queue_items q = map (\<lambda>j. slot S (storage q) ((rd + 1 + j) mod L)) [0..<n]"
proof -
  show "data_queue q"
    using assms by (auto simp: data_queue_def queue_ok_def Let_def simp del: of_nat_mult)
  have "nat (int (rd * S)) div S = rd" using assms(4) by (simp del: of_nat_mult)
  then show "queue_items q = map (\<lambda>j. slot S (storage q) ((rd + 1 + j) mod L)) [0..<n]"
    using assms by (simp add: queue_items_def read_index_def del: of_nat_mult)
qed

lemma mod_add_neq: "j < n \<Longrightarrow> n < L \<Longrightarrow> (a + j) mod L \<noteq> (a + n) mod (L :: nat)"
proof
  assume lt: "j < n" "n < L" and "(a + j) mod L = (a + n) mod L"
  then have "(a + n) - (a + j) = (n - j)" "L dvd (a + n) - (a + j)"
    using mod_eq_dvd_iff_nat [of "a + j" "a + n" L] by auto
  then have "L dvd n - j" by simp
  then show False using lt by (auto dest: dvd_imp_le)
qed

lemma send_back:
  assumes "data_queue q" and "unat (uxMessagesWaiting q) < unat (uxLength q)" and "length item = unat (uxItemSize q)"
  shows "\<exists>q'. prvCopyDataToQueue item queueSEND_TO_BACK q k = Some (False, q', k) \<and> data_queue q'
    \<and> queue_items q' = queue_items q @ [item] \<and> same_queue q q' \<and> uxMessagesWaiting q' = uxMessagesWaiting q + 1"
proof -
  obtain L S n rd where q: "unat (uxLength q) = L" "unat (uxItemSize q) = S" "unat (uxMessagesWaiting q) = n"
    "0 < L" "0 < S" "L * S < 2 ^ 32" "n \<le> L" "length (storage q) = L * S" "rd < L"
    "u_data q = XQueue (int (L * S)) (int (rd * S))" "pcWriteTo q = int ((rd + 1 + n) mod L * S)"
    "\<not> queueQUEUE_IS_MUTEX q" "queue_items q = map (\<lambda>j. slot S (storage q) ((rd + 1 + j) mod L)) [0..<n]"
    using data_queueE [OF assms(1)] by metis
  define w where "w = (rd + 1 + n) mod L"
  define mem where "mem = splice (storage q) (w * S) item"
  let ?q = "q\<lparr>storage := mem, pcWriteTo := int ((w + 1) mod L * S), uxMessagesWaiting := uxMessagesWaiting q + 1\<rparr>"
  have w: "w < L" using q(4) by (simp add: w_def)
  have "mem_load item 0 S = Some item" using assms(3) q(2) by (simp add: mem_load_def)
  moreover have "mem_store (storage q) (int (w * S)) item = Some mem"
    using mem_store_slot [OF q(8) w] assms(3) q(2) by (simp add: mem_def)
  moreover have "uxItemSize q \<noteq> 0" using q(2,5) by auto
  ultimately have eq: "prvCopyDataToQueue item queueSEND_TO_BACK q k = Some (False, ?q, k)"
    using next_slot [OF w q(5)] q(2,10,11) [folded w_def] by (simp add: prvCopyDataToQueue_def Let_def del: of_nat_mult)
  have n: "unat (uxMessagesWaiting q + 1) = n + 1"
    using unat_inc [OF assms(2)] q(3) by simp
  have pos: "(w + 1) mod L = (rd + 1 + (n + 1)) mod L" by (simp add: w_def mod_Suc_eq)
  have lt: "n < L" using assms(2) q(1,3) by simp
  have len: "length mem = L * S"
    using w assms(3) q(2,8) slot_bound [OF w, of S] by (simp add: mem_def)
  have dq: "data_queue ?q" "queue_items ?q = map (\<lambda>j. slot S (storage ?q) ((rd + 1 + j) mod L)) [0..<n + 1]"
    by (rule data_queueI [where L = L and S = S and n = "n + 1" and rd = rd];
        use q n len lt pos in \<open>simp del: of_nat_mult\<close>)+
  have "slot S mem ((rd + 1 + j) mod L) = slot S (storage q) ((rd + 1 + j) mod L)" if "j < n" for j
    using slot_splice [OF q(8) w, of "(rd + 1 + j) mod L" item] mod_add_neq [OF that lt, of "rd + 1"] assms(3) q(2,4) by (simp add: mem_def w_def)
  moreover have "slot S mem w = item"
    using slot_splice [OF q(8) w w, of item] assms(3) q(2) by (simp add: mem_def)
  ultimately have "queue_items ?q = queue_items q @ [item]"
    unfolding dq(2) q(13) by (simp add: w_def)
  with eq dq(1) show ?thesis by (simp add: same_queue_def)
qed

lemma send_front:
  assumes "data_queue q" and "unat (uxMessagesWaiting q) < unat (uxLength q)" and "length item = unat (uxItemSize q)"
  shows "\<exists>q'. prvCopyDataToQueue item queueSEND_TO_FRONT q k = Some (False, q', k) \<and> data_queue q'
    \<and> queue_items q' = item # queue_items q \<and> same_queue q q' \<and> uxMessagesWaiting q' = uxMessagesWaiting q + 1"
proof -
  obtain L S n rd where q: "unat (uxLength q) = L" "unat (uxItemSize q) = S" "unat (uxMessagesWaiting q) = n"
    "0 < L" "0 < S" "L * S < 2 ^ 32" "n \<le> L" "length (storage q) = L * S" "rd < L"
    "u_data q = XQueue (int (L * S)) (int (rd * S))" "pcWriteTo q = int ((rd + 1 + n) mod L * S)"
    "\<not> queueQUEUE_IS_MUTEX q" "queue_items q = map (\<lambda>j. slot S (storage q) ((rd + 1 + j) mod L)) [0..<n]"
    using data_queueE [OF assms(1)] by metis
  define r where "r = (rd + (L - 1)) mod L"
  define mem where "mem = splice (storage q) (rd * S) item"
  let ?q = "q\<lparr>storage := mem, u_data := XQueue (int (L * S)) (int (r * S)), uxMessagesWaiting := uxMessagesWaiting q + 1\<rparr>"
  have "mem_load item 0 S = Some item" using assms(3) q(2) by (simp add: mem_load_def)
  moreover have "mem_store (storage q) (int (rd * S)) item = Some mem"
    using mem_store_slot [OF q(8) q(9)] assms(3) q(2) by (simp add: mem_def)
  moreover have "uxItemSize q \<noteq> 0" using q(2,5) by auto
  ultimately have eq: "prvCopyDataToQueue item queueSEND_TO_FRONT q k = Some (False, ?q, k)"
    using previous_slot [OF q(9) q(5)] q(2,10,11)
    by (simp add: prvCopyDataToQueue_def Let_def r_def del: of_nat_mult)
  have n: "unat (uxMessagesWaiting q + 1) = n + 1"
    using unat_inc [OF assms(2)] q(3) by simp
  have lt: "n < L" using assms(2) q(1,3) by simp
  have step: "(r + 1 + j) mod L = (rd + j) mod L" for j
  proof -
    have "(r + (1 + j)) mod L = (rd + (L - 1) + (1 + j)) mod L" unfolding r_def by (rule mod_add_left_eq)
    also have "rd + (L - 1) + (1 + j) = rd + j + L" using q(4) by simp
    finally show ?thesis by simp
  qed
  have len: "length mem = L * S"
    using q(8,9) assms(3) q(2) slot_bound [OF q(9), of S] by (simp add: mem_def)
  have pos: "(rd + 1 + n) mod L = (r + 1 + (n + 1)) mod L" using step [of "n + 1"] by simp
  have dq: "data_queue ?q" "queue_items ?q = map (\<lambda>j. slot S (storage ?q) ((r + 1 + j) mod L)) [0..<n + 1]"
    by (rule data_queueI [where L = L and S = S and n = "n + 1" and rd = r];
        use q n len lt pos in \<open>simp add: r_def del: of_nat_mult\<close>)+
  have "slot S mem ((rd + Suc j) mod L) = slot S (storage q) ((rd + 1 + j) mod L)" if "j < n" for j
    using slot_splice [OF q(8) q(9), of "(rd + Suc j) mod L" item] mod_add_neq [of 0 "Suc j" L rd] that lt assms(3) q(2,4,9)
    by (simp add: mem_def)
  moreover have "slot S mem rd = item"
    using slot_splice [OF q(8) q(9) q(9), of item] assms(3) q(2) by (simp add: mem_def)
  ultimately have "queue_items ?q = item # queue_items q"
    unfolding dq(2) q(13) step using q(9) by (simp add: upt_conv_Cons map_Suc_upt [symmetric] del: upt_Suc)
  with eq dq(1) show ?thesis by (simp add: same_queue_def)
qed

lemma receive_item:
  assumes "data_queue q" and "uxMessagesWaiting q \<noteq> 0"
  shows "\<exists>q'. prvCopyDataFromQueue q = Some (hd (queue_items q), q') \<and> uxMessagesWaiting q' = uxMessagesWaiting q
    \<and> same_queue q q' \<and> q'\<lparr>u_data := u_data q\<rparr> = q
    \<and> data_queue (q'\<lparr>uxMessagesWaiting := uxMessagesWaiting q - 1\<rparr>)
    \<and> queue_items (q'\<lparr>uxMessagesWaiting := uxMessagesWaiting q - 1\<rparr>) = tl (queue_items q)"
proof -
  obtain L S n rd where q: "unat (uxLength q) = L" "unat (uxItemSize q) = S" "unat (uxMessagesWaiting q) = n"
    "0 < L" "0 < S" "L * S < 2 ^ 32" "n \<le> L" "length (storage q) = L * S" "rd < L"
    "u_data q = XQueue (int (L * S)) (int (rd * S))" "pcWriteTo q = int ((rd + 1 + n) mod L * S)"
    "\<not> queueQUEUE_IS_MUTEX q" "queue_items q = map (\<lambda>j. slot S (storage q) ((rd + 1 + j) mod L)) [0..<n]"
    using data_queueE [OF assms(1)] by metis
  define r where "r = (rd + 1) mod L"
  have r: "r < L" using q(4) by (simp add: r_def)
  let ?q' = "q\<lparr>u_data := XQueue (int (L * S)) (int (r * S))\<rparr>"
  let ?q = "?q'\<lparr>uxMessagesWaiting := uxMessagesWaiting q - 1\<rparr>"
  have pos: "0 < n" using assms(2) q(3) by (auto simp: unat_gt_0)
  have n: "unat (uxMessagesWaiting q - 1) = n - 1" using unat_dec [OF assms(2)] q(3) by simp
  have "uxItemSize q \<noteq> 0" using q(2,5) by auto
  then have eq: "prvCopyDataFromQueue q = Some (slot S (storage q) r, ?q')"
    using next_slot [OF q(9) q(5)] q(2,10) mem_load_slot [OF q(8) r]
    by (simp add: prvCopyDataFromQueue_def Let_def r_def del: of_nat_mult)
  have step: "(r + 1 + j) mod L = (rd + 1 + Suc j) mod L" for j
    using mod_add_left_eq [of "rd + 1" L "1 + j"] by (simp add: r_def add.assoc)
  have dq: "data_queue ?q" "queue_items ?q = map (\<lambda>j. slot S (storage ?q) ((r + 1 + j) mod L)) [0..<n - 1]"
    by (rule data_queueI [where L = L and S = S and n = "n - 1" and rd = r];
        use q n r pos step [of "n - 1"] in \<open>simp del: of_nat_mult\<close>)+
  have u: "[0..<n] = 0 # map Suc [0..<n - 1]"
    using pos by (cases n) (simp_all add: map_Suc_upt upt_conv_Cons del: upt_Suc)
  have "queue_items q = slot S (storage q) r # queue_items ?q"
    unfolding dq(2) q(13) step u by (simp add: r_def comp_def)
  then show ?thesis using eq dq(1) by (simp add: same_queue_def)
qed

lemma overwrite_item:
  assumes "data_queue q" and "uxLength q = 1" and "length item = unat (uxItemSize q)"
  shows "\<exists>q'. prvCopyDataToQueue item queueOVERWRITE q k = Some (False, q', k) \<and> data_queue q'
    \<and> queue_items q' = [item] \<and> same_queue q q'"
proof -
  obtain L S n rd where q': "unat (uxLength q) = L" "unat (uxItemSize q) = S" "unat (uxMessagesWaiting q) = n"
    "0 < S" "L * S < 2 ^ 32" "n \<le> L" "length (storage q) = L * S" "rd < L"
    "u_data q = XQueue (int (L * S)) (int (rd * S))" "pcWriteTo q = int ((rd + 1 + n) mod L * S)"
    "\<not> queueQUEUE_IS_MUTEX q"
    using data_queueE [OF assms(1)] by metis
  moreover from this(1) have "L = 1" using assms(2) by simp
  ultimately have q: "unat (uxItemSize q) = S" "unat (uxMessagesWaiting q) = n"
    "0 < S" "S < 2 ^ 32" "n \<le> 1" "length (storage q) = S" "rd < 1"
    "u_data q = XQueue (int S) (int (rd * S))" "pcWriteTo q = 0" "\<not> queueQUEUE_IS_MUTEX q"
    by simp_all
  let ?q = "q\<lparr>storage := item, u_data := XQueue (int S) 0, uxMessagesWaiting := 1\<rparr>"
  have len: "length item = S" using assms(3) q(1) by simp
  have "uxMessagesWaiting q = 0 \<or> uxMessagesWaiting q = 1"
    using q(2,5) by (metis One_nat_def le_Suc_eq le_zero_eq unat_1 unat_eq_zero word_unat_eq_iff)
  moreover have "uxItemSize q \<noteq> 0" using q(1,3) by auto
  ultimately have "prvCopyDataToQueue item queueOVERWRITE q k = Some (False, ?q, k)"
    using q len by (auto simp: prvCopyDataToQueue_def Let_def mem_load_def mem_store_def splice_def)
  moreover have "data_queue ?q" "queue_items ?q = map (\<lambda>j. slot S (storage ?q) ((0 + 1 + j) mod 1)) [0..<1]"
    by (rule data_queueI [where L = 1 and S = S and n = 1 and rd = 0]; use q len assms(2) in simp)+
  ultimately show ?thesis
    using len assms(2) by (simp add: same_queue_def slot_def)
qed

section \<open>Queues and counting semaphores as bounded lists\<close>

text \<open>A semaphore is a queue of empty items.\<close>

definition value_queue :: "Queue_t \<Rightarrow> bool" where
  "value_queue q \<longleftrightarrow> queue_ok q \<and> \<not> queueQUEUE_IS_MUTEX q"

definition send_now :: "kernel \<Rightarrow> u8 list \<Rightarrow> Queue_t \<Rightarrow> Queue_t option" where
  "send_now k item q = map_option (\<lambda>(_, q', _). q') (prvCopyDataToQueue item queueSEND_TO_BACK q k)"

definition receive_now :: "Queue_t \<Rightarrow> (u8 list \<times> Queue_t) option" where
  "receive_now q = map_option (\<lambda>(b, q'). (b, q'\<lparr>uxMessagesWaiting := uxMessagesWaiting q' - 1\<rparr>)) (prvCopyDataFromQueue q)"

lemma data_value_queue: "data_queue q \<Longrightarrow> value_queue q"
  using data_queueE [of q] by (metis data_queue_def value_queue_def)

lemma semaphore_items: "uxItemSize q = 0 \<Longrightarrow> queue_items q = replicate (unat (uxMessagesWaiting q)) []"
  by (simp add: queue_items_def slot_def map_replicate_trivial)

lemma value_queue_cases:
  "value_queue q \<Longrightarrow> data_queue q \<or> uxItemSize q = 0"
  by (auto simp: value_queue_def data_queue_def)

lemma send_value:
  assumes "value_queue q" and "length item = unat (uxItemSize q)" and "length (queue_items q) < unat (uxLength q)"
  shows "\<exists>q'. prvCopyDataToQueue item queueSEND_TO_BACK q k = Some (False, q', k) \<and> value_queue q'
    \<and> queue_items q' = queue_items q @ [item] \<and> same_queue q q' \<and> uxMessagesWaiting q' = uxMessagesWaiting q + 1"
proof (cases "uxItemSize q = 0")
  case True
  let ?q = "q\<lparr>uxMessagesWaiting := uxMessagesWaiting q + 1\<rparr>"
  have n: "unat (uxMessagesWaiting q + 1) = unat (uxMessagesWaiting q) + 1"
    using assms(3) by (intro unat_inc) simp
  have "prvCopyDataToQueue item queueSEND_TO_BACK q k = Some (False, ?q, k)"
    using assms(1) True by (simp add: prvCopyDataToQueue_def value_queue_def)
  moreover have "value_queue ?q"
    using assms(1,3) True n by (simp add: value_queue_def queue_ok_def Let_def)
  moreover have "queue_items ?q = queue_items q @ [item]"
    using assms(2) True n by (simp add: semaphore_items replicate_append_same flip: replicate_Suc)
  ultimately show ?thesis by (simp add: same_queue_def)
next
  case False
  then have "data_queue q" using value_queue_cases [OF assms(1)] by simp
  then show ?thesis using send_back [of q item k] assms(2,3) data_value_queue by auto
qed

lemma receive_value:
  assumes "value_queue q" and "uxMessagesWaiting q \<noteq> 0"
  shows "\<exists>q'. prvCopyDataFromQueue q = Some (hd (queue_items q), q') \<and> uxMessagesWaiting q' = uxMessagesWaiting q
    \<and> same_queue q q' \<and> value_queue (q'\<lparr>uxMessagesWaiting := uxMessagesWaiting q - 1\<rparr>)
    \<and> queue_items (q'\<lparr>uxMessagesWaiting := uxMessagesWaiting q - 1\<rparr>) = tl (queue_items q)"
proof (cases "uxItemSize q = 0")
  case True
  obtain n where n: "unat (uxMessagesWaiting q) = Suc n" using assms(2) by (metis not0_implies_Suc unat_eq_zero)
  have n1: "unat (uxMessagesWaiting q - 1) = n" using unat_dec [OF assms(2)] n by simp
  have "prvCopyDataFromQueue q = Some ([], q)" using True by (simp add: prvCopyDataFromQueue_def)
  moreover have "value_queue (q\<lparr>uxMessagesWaiting := uxMessagesWaiting q - 1\<rparr>)"
    using assms(1) True n n1 by (simp add: value_queue_def queue_ok_def Let_def)
  ultimately show ?thesis
    using True n n1 by (simp add: semaphore_items same_queue_def)
next
  case False
  then have "data_queue q" using value_queue_cases [OF assms(1)] by simp
  from receive_item [OF this assms(2)] show ?thesis using data_value_queue by blast
qed

interpretation qfifo: fifo value_queue queue_items "\<lambda>q. unat (uxLength q)" "\<lambda>q x. length x = unat (uxItemSize q)"
    "send_now k" receive_now
  for k
proof unfold_locales
  fix q and x :: "u8 list"
  assume "value_queue q" "length x = unat (uxItemSize q)" "length (queue_items q) < unat (uxLength q)"
  from send_value [OF this, of k] show "\<exists>q'. send_now k x q = Some q' \<and> value_queue q' \<and> queue_items q' = queue_items q @ [x]
      \<and> unat (uxLength q') = unat (uxLength q) \<and> (\<lambda>x. length x = unat (uxItemSize q')) = (\<lambda>x. length x = unat (uxItemSize q))"
    by (auto simp: send_now_def same_queue_def)
next
  fix q
  assume "value_queue q" "queue_items q \<noteq> []"
  then have "uxMessagesWaiting q \<noteq> 0" by (auto simp: queue_items_def)
  from receive_value [OF \<open>value_queue q\<close> this] show "\<exists>q'. receive_now q = Some (hd (queue_items q), q') \<and> value_queue q'
      \<and> queue_items q' = tl (queue_items q)
      \<and> unat (uxLength q') = unat (uxLength q) \<and> (\<lambda>x. length x = unat (uxItemSize q')) = (\<lambda>x. length x = unat (uxItemSize q))"
    by (auto simp: receive_now_def same_queue_def)
qed

section \<open>A new queue\<close>

lemma new_queue:
  assumes "0 < len" and "unat len * unat sz < 2 ^ 32" and "length mem = unat len * unat sz"
  shows "\<exists>q k'. prvInitialiseNewQueue len sz mem snd_list rcv_list k = Some (q, k') \<and> value_queue q
    \<and> queue_items q = [] \<and> uxLength q = len \<and> uxItemSize q = sz"
proof -
  let ?L = "unat len" and ?S = "unat sz"
  have L: "0 < ?L" using assms(1) by (simp add: word_less_nat_alt)
  have le: "?S \<le> (2 ^ 32 - 1) div ?L"
    using assms(2) L by (simp add: less_eq_div_iff_mult_less_eq mult.commute)
  have m: "unat (len * sz) = ?L * ?S" using assms(2) by (simp add: unat_mult_lem [symmetric])
  have m1: "unat ((len - 1) * sz) = (?L - 1) * ?S"
  proof -
    have u: "unat (len - 1) = ?L - 1" by (rule unat_dec) (use assms(1) in auto)
    have "(?L - 1) * ?S \<le> ?L * ?S" by (rule mult_le_mono1) simp
    from le_less_trans [OF this assms(2)] have "unat (len - 1) * ?S < 2 ^ LENGTH(32)" using u by simp
    then show ?thesis using u by (metis unat_mult_lem)
  qed
  let ?q = "\<lparr>storage = mem, pcWriteTo = 0, u_data = XQueue (int (?L * ?S)) (int ((?L - 1) * ?S)), xTasksWaitingToSend = snd_list,
       xTasksWaitingToReceive = rcv_list, uxMessagesWaiting = 0, uxLength = len, uxItemSize = sz,
       cRxLock = queueUNLOCKED, cTxLock = queueUNLOCKED, queueQUEUE_IS_MUTEX = False\<rparr>"
  have "\<exists>k'. prvInitialiseNewQueue len sz mem snd_list rcv_list k = Some (?q, k')"
    using assms(1) le m m1
    by (auto simp: prvInitialiseNewQueue_def xQueueGenericReset_def Let_def word_le_nat_alt word_less_nat_alt unat_div
        Suc_le_eq simp del: of_nat_mult)
  moreover have "value_queue ?q"
    using L assms(2,3) by (auto simp: value_queue_def queue_ok_def Let_def simp del: of_nat_mult intro!: exI [of _ "?L - 1"])
  ultimately show ?thesis by (auto simp: queue_items_def)
qed

text \<open>
  A new queue of any length and item sz is a first-in first-out buffer: the items sent to
  it, as many as it has slots, are received in the order in which they were sent, byte for byte,
  although the slots are reused cyclically, and the queue is empty again.
\<close>
theorem new_queue_fifo:
  assumes "0 < len" and "unat len * unat sz < 2 ^ 32" and "length mem = unat len * unat sz"
    and "list_all (\<lambda>x. length x = unat sz) xs" and "length xs \<le> unat len"
  shows "\<exists>q k' q1 q2. prvInitialiseNewQueue len sz mem snd_list rcv_list k = Some (q, k')
    \<and> fold (\<lambda>x s. Option.bind s (send_now k x)) xs (Some q) = Some q1 \<and> queue_items q1 = xs
    \<and> fold (\<lambda>_ s. do { (ys, q) \<leftarrow> s; (y, q) \<leftarrow> receive_now q; Some (ys @ [y], q) }) [0..<length xs] (Some ([], q1)) = Some (xs, q2)
    \<and> value_queue q2 \<and> queue_items q2 = []"
proof -
  obtain q k' where q: "prvInitialiseNewQueue len sz mem snd_list rcv_list k = Some (q, k')" "value_queue q"
    "queue_items q = []" "uxLength q = len" "uxItemSize q = sz"
    using new_queue [OF assms(1-3)] by blast
  obtain q1 where q1: "fold (\<lambda>x s. Option.bind s (send_now k x)) xs (Some q) = Some q1" "value_queue q1" "queue_items q1 = xs"
    using qfifo.put_all [OF q(2), of xs k] q(3-5) assms(4,5) by auto
  show ?thesis
    using q(1) q1 qfifo.get_all [OF q1(2), of "length xs" "[]"] by auto
qed

lemma new_queue_fifo_witness:
  "\<exists>q k' q1 q2. prvInitialiseNewQueue 2 1 [0, 0] (EventList 8) (EventList 9) sample_kernel = Some (q, k')
    \<and> fold (\<lambda>x s. Option.bind s (send_now sample_kernel x)) [[7], [9]] (Some q) = Some q1 \<and> queue_items q1 = [[7], [9]]
    \<and> fold (\<lambda>_ s. do { (ys, q) \<leftarrow> s; (y, q) \<leftarrow> receive_now q; Some (ys @ [y], q) }) [0, 1] (Some ([], q1)) = Some ([[7], [9]], q2)
    \<and> value_queue q2 \<and> queue_items q2 = []"
  using new_queue_fifo [of 2 1 "[0, 0]" "[[7], [9]]" "EventList 8" "EventList 9" sample_kernel] by simp

end
