(* ===== verification/Rtos_Event.thy ===== *)
theory Rtos_Event
  imports Rtos_Sched
begin

text \<open>
  Correctness of the scheduler model, continued: context switches, waiting for and signalling
  events, time-outs, resuming the scheduler and priority inheritance.
\<close>

section \<open>Context switches\<close>

lemma top_ready_Some: "top_ready k n = Some p \<Longrightarrow> p \<le> n \<and> entries k (ReadyList p) \<noteq> []
    \<and> (\<forall>q. p < q \<longrightarrow> q \<le> n \<longrightarrow> entries k (ReadyList q) = [])"
proof (induction n)
  case 0
  then show ?case by (simp add: list_is_empty_def split: if_splits)
next
  case (Suc n)
  then show ?case by (auto simp: list_is_empty_def le_Suc_eq split: if_splits)
qed

lemma top_ready_total: "entries k (ReadyList q) \<noteq> [] \<Longrightarrow> q \<le> n \<Longrightarrow> top_ready k n \<noteq> None"
  by (induction n) (auto simp: list_is_empty_def le_Suc_eq)

lemma switch_effect:
  assumes "kernel_ok k" and "entries k (ReadyList q) \<noteq> []"
  shows "\<exists>p it L. top_ready k (uxTopReadyPriority k) = Some p \<and> xl_next (lists k (ReadyList p)) = Some (it, L)
    \<and> taskSELECT_HIGHEST_PRIORITY_TASK k
      = Some (k\<lparr>pxCurrentTCB := owner it, lists := (lists k)(ReadyList p := L), uxTopReadyPriority := p\<rparr>)
    \<and> it = StateItem (owner it) \<and> uxPriority k (owner it) = p \<and> xl_items L = entries k (ReadyList p)
    \<and> it \<in> set (entries k (ReadyList p)) \<and> (\<forall>r > p. entries k (ReadyList r) = [])"
proof -
  have "q \<le> uxTopReadyPriority k" using assms by (simp add: kernel_ok_def)
  then obtain p where p: "top_ready k (uxTopReadyPriority k) = Some p"
    using top_ready_total [of k q "uxTopReadyPriority k"] assms(2) by auto
  note tp = top_ready_Some [OF p]
  then obtain it L where n: "xl_next (lists k (ReadyList p)) = Some (it, L)"
    by (auto simp: xl_next_def Let_def)
  note nx = xl_items_next [OF n]
  have c: "container k it = Some (ReadyList p)"
    using lists_ok_container [OF kernel_ok_lists [OF assms(1)]] nx by blast
  then have "item_fits k (ReadyList p) it" by (rule kernel_ok_fits [OF assms(1)])
  then have "it = StateItem (owner it)" "uxPriority k (owner it) = p" by (cases it; simp)+
  moreover have "r > p \<Longrightarrow> entries k (ReadyList r) = []" for r
    using tp assms(1) unfolding kernel_ok_def by (meson linorder_not_le)
  ultimately show ?thesis
    using p n nx by (simp add: taskSELECT_HIGHEST_PRIORITY_TASK_def)
qed

lemma kernel_ok_switch:
  assumes "kernel_ok k" and "xl_items L = entries k (ReadyList p)" and "\<forall>r > p. entries k (ReadyList r) = []"
  shows "kernel_ok (k\<lparr>pxCurrentTCB := t, lists := (lists k)(ReadyList p := L), uxTopReadyPriority := p\<rparr>)" (is "kernel_ok ?k")
proof -
  have e: "entries ?k m = entries k m" for m using assms(2) by simp
  have "lists_ok ?k" using kernel_ok_lists [OF assms(1)] unfolding lists_ok_def e by simp
  moreover have "item_fits ?k m i = item_fits k m i" for m i by (rule item_fits_cong) simp
  moreover have "entries ?k (ReadyList r) \<noteq> [] \<longrightarrow> r \<le> uxTopReadyPriority ?k" for r
    unfolding e using assms(3) by (auto simp: not_le [symmetric])
  ultimately show ?thesis using assms(1) unfolding kernel_ok_def by simp
qed

text \<open>
  A context switch gives the processor to a task of the highest priority that is ready. It
  always finds one when some task is ready, and it changes no list (only the position in the ready
  list from which the next switch continues).
\<close>
theorem switch_runs_highest_priority:
  assumes "kernel_ok k" and "uxSchedulerSuspended k = 0" and "container k (StateItem t) = Some (ReadyList q)"
  shows "\<exists>k'. vTaskSwitchContext k = Some k' \<and> kernel_ok k' \<and> \<not> xYieldPending k'
    \<and> container k (StateItem (pxCurrentTCB k')) = Some (ReadyList (uxPriority k (pxCurrentTCB k')))
    \<and> (\<forall>u r. container k (StateItem u) = Some (ReadyList r) \<longrightarrow> uxPriority k u \<le> uxPriority k (pxCurrentTCB k'))
    \<and> (\<forall>l. entries k' l = entries k l) \<and> container k' = container k"
proof -
  let ?k = "k\<lparr>xYieldPending := False\<rparr>"
  have mem: "it \<in> set (entries k l) \<longleftrightarrow> container k it = Some l" for it l
    using lists_ok_container [OF kernel_ok_lists [OF assms(1)]] .
  then have "entries ?k (ReadyList q) \<noteq> []" using assms(3) by force
  from switch_effect [OF _ this] assms(1) obtain p it L where
    sel: "taskSELECT_HIGHEST_PRIORITY_TASK ?k
      = Some (?k\<lparr>pxCurrentTCB := owner it, lists := (lists ?k)(ReadyList p := L), uxTopReadyPriority := p\<rparr>)"
    and it: "it = StateItem (owner it)" "uxPriority ?k (owner it) = p" "xl_items L = entries ?k (ReadyList p)"
      "it \<in> set (entries ?k (ReadyList p))" "\<forall>r > p. entries ?k (ReadyList r) = []"
    by (metis kernel_ok_fields(1))
  have "kernel_ok (?k\<lparr>pxCurrentTCB := owner it, lists := (lists ?k)(ReadyList p := L), uxTopReadyPriority := p\<rparr>)"
    by (rule kernel_ok_switch [OF _ it(3,5)]) (use assms(1) in simp)
  moreover have "container k (StateItem (owner it)) = Some (ReadyList p)" using it(1,4) mem by auto
  moreover have "uxPriority k u \<le> p" if "container k (StateItem u) = Some (ReadyList r)" for u r
  proof -
    have "uxPriority k u = r" using kernel_ok_fits [OF assms(1) that] by simp
    moreover have "entries k (ReadyList r) \<noteq> []" using that mem by force
    ultimately show ?thesis using it(5) by (simp add: not_less [symmetric]) blast
  qed
  ultimately show ?thesis using sel it assms(2) by (auto simp: vTaskSwitchContext_def)
qed

lemma switch_runs_highest_priority_witness:
  "\<exists>k'. vTaskSwitchContext sample_kernel = Some k' \<and> kernel_ok k' \<and> pxCurrentTCB k' = 1"
proof -
  have c: "container sample_kernel (StateItem u) = (if u = 0 then Some (ReadyList 0) else if u = 1 then Some (ReadyList 2)
      else if u = 2 then Some DelayedTaskList1 else None)" for u
    by (simp add: sample_kernel_def)
  have p: "uxPriority sample_kernel u = (if u = 1 then 2 else if u = 2 then 1 else 0)" for u
    by (simp add: sample_kernel_def)
  have "uxSchedulerSuspended sample_kernel = 0" by (simp add: sample_kernel_def)
  from switch_runs_highest_priority [OF sample_kernel_ok this, of 1 2] obtain k' where
    k': "vTaskSwitchContext sample_kernel = Some k'" "kernel_ok k'"
    "container sample_kernel (StateItem (pxCurrentTCB k')) = Some (ReadyList (uxPriority sample_kernel (pxCurrentTCB k')))"
    "\<forall>u r. container sample_kernel (StateItem u) = Some (ReadyList r) \<longrightarrow>
       uxPriority sample_kernel u \<le> uxPriority sample_kernel (pxCurrentTCB k')"
    by (auto simp: c)
  have "uxPriority sample_kernel 1 \<le> uxPriority sample_kernel (pxCurrentTCB k')"
    using k'(4) c [of 1] by force
  then have "pxCurrentTCB k' = 1" by (auto simp: p split: if_splits)
  with k' show ?thesis by blast
qed

text \<open>Several switches in a row.\<close>

primrec switches :: "nat \<Rightarrow> kernel \<Rightarrow> kernel option" where
  "switches 0 k = Some k"
| "switches (Suc m) k = do { k \<leftarrow> vTaskSwitchContext k; switches m k }"

lemma switch_step:
  assumes "kernel_ok k" and "uxSchedulerSuspended k = 0" and "entries k (ReadyList p) \<noteq> []"
    and "\<forall>r > p. entries k (ReadyList r) = []" and "xl_idx (lists k (ReadyList p)) \<le> length (entries k (ReadyList p))"
  shows "\<exists>k'. vTaskSwitchContext k = Some k' \<and> kernel_ok k' \<and> uxSchedulerSuspended k' = 0
    \<and> (\<forall>l. entries k' l = entries k l)
    \<and> pxCurrentTCB k' = owner (entries k (ReadyList p) ! (xl_idx (lists k (ReadyList p)) mod length (entries k (ReadyList p))))
    \<and> xl_idx (lists k' (ReadyList p)) = Suc (xl_idx (lists k (ReadyList p)) mod length (entries k (ReadyList p)))"
proof -
  let ?k = "k\<lparr>xYieldPending := False\<rparr>" and ?L = "lists k (ReadyList p)"
  have ok: "kernel_ok ?k" "entries ?k (ReadyList p) \<noteq> []" using assms by simp_all
  obtain q it L where sel: "taskSELECT_HIGHEST_PRIORITY_TASK ?k
      = Some (?k\<lparr>pxCurrentTCB := owner it, lists := (lists ?k)(ReadyList q := L), uxTopReadyPriority := q\<rparr>)"
    and it: "xl_next (lists ?k (ReadyList q)) = Some (it, L)" "xl_items L = entries ?k (ReadyList q)"
      "it \<in> set (entries ?k (ReadyList q))" "\<forall>r > q. entries ?k (ReadyList r) = []"
    using switch_effect [OF ok] by blast
  have "q = p"
    using assms(3,4) it(3,4) by (cases q p rule: linorder_cases) auto
  moreover have "xl_next ?L = Some (xl_items ?L ! (xl_idx ?L mod length (xl_items ?L)),
      ?L\<lparr>xl_idx := Suc (xl_idx ?L mod length (xl_items ?L))\<rparr>)"
    using assms(3,5) by (cases "xl_idx ?L = length (xl_items ?L)") (auto simp: xl_next_def)
  ultimately have L: "it = xl_items ?L ! (xl_idx ?L mod length (xl_items ?L))"
    "L = ?L\<lparr>xl_idx := Suc (xl_idx ?L mod length (xl_items ?L))\<rparr>" and q: "q = p"
    using it(1) by auto
  have "kernel_ok (?k\<lparr>pxCurrentTCB := owner it, lists := (lists ?k)(ReadyList q := L), uxTopReadyPriority := q\<rparr>)"
    by (rule kernel_ok_switch [OF ok(1) it(2,4)])
  then show ?thesis
    using sel it(2) L assms(2) unfolding q by (simp add: vTaskSwitchContext_def)
qed

text \<open>
  Tasks of equal priority share the processor fairly: as long as nothing else changes, the
  \<open>m\<close>-th of successive context switches runs the ready tasks of the highest priority in
  turn, beginning after the one the list index stands on; so each of them runs once in every
  \<open>n\<close> switches, \<open>n\<close> being their number.
\<close>
theorem switches_round_robin:
  assumes "kernel_ok k" and "uxSchedulerSuspended k = 0" and "entries k (ReadyList p) \<noteq> []"
    and "\<forall>r > p. entries k (ReadyList r) = []" and "xl_idx (lists k (ReadyList p)) \<le> length (entries k (ReadyList p))"
  shows "\<exists>k'. switches (Suc m) k = Some k' \<and> kernel_ok k' \<and> (\<forall>l. entries k' l = entries k l)
    \<and> pxCurrentTCB k' = owner (entries k (ReadyList p) !
         ((xl_idx (lists k (ReadyList p)) + m) mod length (entries k (ReadyList p))))"
  using assms
proof (induction m arbitrary: k)
  case 0
  then show ?case using switch_step [OF 0] by auto
next
  case (Suc m)
  let ?n = "length (entries k (ReadyList p))" and ?i = "xl_idx (lists k (ReadyList p))"
  obtain k1 where k1: "vTaskSwitchContext k = Some k1" "kernel_ok k1" "uxSchedulerSuspended k1 = 0"
    "\<And>l. entries k1 l = entries k l" "xl_idx (lists k1 (ReadyList p)) = Suc (?i mod ?n)"
    using switch_step [OF Suc(2-6)] by blast
  have "0 < ?n" using Suc(4) by simp
  then have "xl_idx (lists k1 (ReadyList p)) \<le> length (entries k1 (ReadyList p))" by (simp add: k1 Suc_le_eq)
  moreover have "entries k1 (ReadyList p) \<noteq> []" "\<forall>r > p. entries k1 (ReadyList r) = []"
    using Suc(4,5) k1(4) by simp_all
  ultimately obtain k' where "switches (Suc m) k1 = Some k'" "kernel_ok k'" "\<forall>l. entries k' l = entries k1 l"
    "pxCurrentTCB k' = owner (entries k1 (ReadyList p) ! ((xl_idx (lists k1 (ReadyList p)) + m) mod length (entries k1 (ReadyList p))))"
    using Suc(1) [OF k1(2,3)] by blast
  moreover have "(Suc (?i mod ?n) + m) mod ?n = (?i + Suc m) mod ?n"
    by (metis add_Suc_shift mod_add_left_eq)
  ultimately show ?case using k1 by simp
qed

lemma switches_round_robin_witness:
  "\<exists>k'. switches 4 (list_insert_end (ReadyList 2) (StateItem 5) (sample_kernel\<lparr>uxPriority := (uxPriority sample_kernel)(5 := 2)\<rparr>)) = Some k'
     \<and> pxCurrentTCB k' = 1"
proof -
  define k0 where "k0 = sample_kernel\<lparr>uxPriority := (uxPriority sample_kernel)(5 := 2)\<rparr>"
  define k where "k = list_insert_end (ReadyList 2) (StateItem 5) k0"
  have "lists_ok k0" using sample_kernel_ok by (simp add: kernel_ok_def lists_ok_def k0_def)
  then have "kernel_ok k0"
    by (auto simp: kernel_ok_def k0_def sample_kernel_def xl_empty_def split: if_splits)
  then have ok: "kernel_ok k"
    by (rule kernel_ok_attach [where it = "StateItem 5" and l = "ReadyList 2"])
      (simp_all add: k_def k0_def sample_kernel_def)
  have L: "lists k (ReadyList 2) = \<lparr>xl_items = [StateItem 5, StateItem 1], xl_idx = 2\<rparr>"
    by (simp add: k_def k0_def list_insert_end_def sample_kernel_def xl_insert_end_def)
  moreover have "uxSchedulerSuspended k = 0" by (simp add: k_def k0_def sample_kernel_def)
  moreover have "\<forall>r > 2. entries k (ReadyList r) = []"
    by (simp add: k_def k0_def list_insert_end_def sample_kernel_def xl_empty_def)
  moreover have "5 mod Suc (Suc 0) = 1" by (simp flip: numeral_2_eq_2)
  ultimately have "\<exists>k'. switches (Suc 3) k = Some k' \<and> pxCurrentTCB k' = 1"
    using switches_round_robin [OF ok, of 2 3] by (auto simp del: switches.simps)
  then show ?thesis unfolding k_def [symmetric] k0_def [symmetric] by (simp del: switches.simps)
qed

section \<open>Waiting for an event\<close>

lemma about_to_block_place:
  assumes "about_to_block T k" and "container k (EventItem (pxCurrentTCB k)) = None"
  shows "about_to_block T (list_insert (EventList e) (EventItem (pxCurrentTCB k)) k)" (is "about_to_block T ?k")
proof -
  have ok: "kernel_ok k" and dl: "delays_ok k" using assms(1) by (auto simp: about_to_block_def)
  have "kernel_ok ?k"
    by (rule kernel_ok_attach [OF ok assms(2), where l = "EventList e"]) simp_all
  moreover have "delays_ok ?k"
    using dl delayed_list_kinds [OF ok, of "pxDelayedTaskList k"] delayed_list_kinds [OF ok, of "pxOverflowDelayedTaskList k"]
    by (auto simp: delays_ok_def by_value_def)
  ultimately show ?thesis using assms(1) by (auto simp: about_to_block_def)
qed

lemma time_ok_about_to_block:
  "time_ok T k \<Longrightarrow> container k (StateItem (pxCurrentTCB k)) = Some (ReadyList p) \<Longrightarrow> about_to_block T k"
  by (auto simp: time_ok_def about_to_block_def waiting_ok_def)

lemma place_effect:
  assumes "time_ok T k" and "container k (StateItem (pxCurrentTCB k)) = Some (ReadyList p)"
    and "container k (EventItem (pxCurrentTCB k)) = None" and "0 < ticks"
  shows "\<exists>k'. vTaskPlaceOnEventList (EventList e) ticks k = Some k'
    \<and> blocked_until T (if ticks = portMAX_DELAY then None else Some (unat ticks))
         (list_insert (EventList e) (EventItem (pxCurrentTCB k)) k) k'"
  using add_to_delayed_list [OF about_to_block_place [OF time_ok_about_to_block [OF assms(1,2)] assms(3)] assms(4),
    of True e]
  by (simp add: vTaskPlaceOnEventList_def)

lemma waiting_ok_yield [simp]: "waiting_ok (k\<lparr>xYieldPending := b\<rparr>) = waiting_ok k"
  by (simp add: waiting_ok_def)

lemma remove_from_event_list:
  assumes "kernel_ok k" and "waiting_ok k" and "entries k (EventList e) = it # ws"
  defines "t \<equiv> owner it"
  shows "\<exists>k'. xTaskRemoveFromEventList (EventList e) k = Some (uxPriority k (pxCurrentTCB k) < uxPriority k t, k')
    \<and> kernel_ok k' \<and> waiting_ok k' \<and> statics k' = statics k \<and> entries k' (EventList e) = ws
    \<and> xNextTaskUnblockTime k' = xNextTaskUnblockTime k
    \<and> xYieldPending k' = (xYieldPending k \<or> uxPriority k (pxCurrentTCB k) < uxPriority k t)
    \<and> container k' = (if uxSchedulerSuspended k = 0
        then (container k)(EventItem t := None, StateItem t \<mapsto> ReadyList (uxPriority k t))
        else (container k)(EventItem t \<mapsto> PendingReadyList))
    \<and> (\<forall>m. m \<noteq> EventList e \<longrightarrow> m \<noteq> PendingReadyList \<longrightarrow> (\<forall>p. m \<noteq> ReadyList p) \<longrightarrow>
        entries k' m = (if uxSchedulerSuspended k = 0 then remove1 (StateItem t) (entries k m) else entries k m))"
proof -
  have mem: "i \<in> set (entries k l) \<longleftrightarrow> container k i = Some l" for i l
    using lists_ok_container [OF kernel_ok_lists [OF assms(1)]] .
  have c: "container k it = Some (EventList e)" using mem assms(3) by force
  have it: "it = EventItem t" using kernel_ok_fits [OF assms(1) c] by (simp add: t_def)
  have dist: "distinct (entries k m)" for m using assms(1) by (simp add: kernel_ok_def lists_ok_def)
  have st: "container k (StateItem t) \<in> Some ` {DelayedTaskList1, DelayedTaskList2, SuspendedTaskList}"
    using assms(2) c it unfolding waiting_ok_def by (metis option.distinct(1))
  have head: "head_entry (EventList e) k = Some it" using assms(3) by (simp add: head_entry_def)
  define k1 where "k1 = detach_if (EventItem t) k"
  have k1: "kernel_ok k1" "statics k1 = statics k" "container k1 = (container k)(EventItem t := None)"
    "list_remove (EventItem t) k = Some k1" "entries k1 m = remove1 (EventItem t) (entries k m)"
    "xYieldPending k1 = xYieldPending k" "uxSchedulerSuspended k1 = uxSchedulerSuspended k" for m
    using assms(1) c it by (simp_all add: k1_def kernel_ok_detach_if entries_detach_if list_remove_detach_if)
  note sts = statics_eqD [OF k1(2)]
  have noE: "m \<noteq> EventList e \<Longrightarrow> EventItem t \<notin> set (entries k m)" for m using mem c it by simp
  show ?thesis
  proof (cases "uxSchedulerSuspended k = 0")
    case True
    define k2 where "k2 = prvAddTaskToReadyList t (detach_if (StateItem t) k1)"
    have un: "unblocked t k k2"
      using unblocked_add_ready [OF assms(1)] by (auto simp: k2_def k1_def)
    have rm: "list_remove (StateItem t) k1 = Some (detach_if (StateItem t) k1)"
      using st k1(3) by (intro list_remove_detach_if) auto
    have "StateItem t \<notin> set ws" using mem [of "StateItem t" "EventList e"] st assms(3) by auto
    then have "entries k2 (EventList e) = ws" using un it assms(3) by (simp add: unblocked_def remove1_idem)
    moreover have "uxPriority k2 = uxPriority k" "pxCurrentTCB k2 = pxCurrentTCB k"
      using un statics_eqD [of k2 k] by (auto simp: unblocked_def)
    moreover have "xNextTaskUnblockTime k2 = xNextTaskUnblockTime k" by (simp add: k2_def k1_def)
    ultimately show ?thesis
      using True un unblocked_waiting_ok [OF un assms(2)] head k1(4,7) rm noE
      by (auto simp: xTaskRemoveFromEventList_def unblocked_def remove1_idem simp flip: t_def k2_def)
  next
    case False
    define k2 where "k2 = list_insert_end PendingReadyList (EventItem t) k1"
    have "kernel_ok k2"
      by (rule kernel_ok_attach [OF k1(1), where l = PendingReadyList and it = "EventItem t"]) (simp_all add: k1(3) k2_def)
    moreover have "waiting_ok k2" using assms(2) st by (auto simp: waiting_ok_def k2_def k1(3))
    moreover have "entries k2 (EventList e) = ws" using k1(5) it assms(3) by (simp add: k2_def)
    moreover have "container k2 = (container k)(EventItem t \<mapsto> PendingReadyList)" by (simp add: k2_def k1(3))
    moreover have "m \<noteq> EventList e \<Longrightarrow> m \<noteq> PendingReadyList \<Longrightarrow> entries k2 m = entries k m" for m
      using noE k1(5) by (simp add: k2_def remove1_idem)
    moreover have "statics k2 = statics k" "xYieldPending k2 = xYieldPending k" using k1(2,6) by (simp_all add: k2_def)
    moreover from this(1) have "uxPriority k2 = uxPriority k" "pxCurrentTCB k2 = pxCurrentTCB k"
      using statics_eqD by auto
    moreover have "xNextTaskUnblockTime k2 = xNextTaskUnblockTime k" by (simp add: k2_def k1_def)
    ultimately show ?thesis
      using False head k1(4,7)
      by (auto simp: xTaskRemoveFromEventList_def simp flip: t_def k2_def)
  qed
qed

text \<open>The waiters of an event list stand in the order of their priorities, the highest first.\<close>

definition waiters_by_priority :: "nat \<Rightarrow> kernel \<Rightarrow> bool" where
  "waiters_by_priority e k \<longleftrightarrow> by_value k (entries k (EventList e))
     \<and> (\<forall>it \<in> set (entries k (EventList e)). uxPriority k (owner it) < configMAX_PRIORITIES
          \<and> item_value k it = of_nat configMAX_PRIORITIES - of_nat (uxPriority k (owner it)))"

lemma priority_value_le:
  fixes a b :: nat
  assumes "a < configMAX_PRIORITIES" and "b < configMAX_PRIORITIES"
    and "of_nat configMAX_PRIORITIES - of_nat a \<le> (of_nat configMAX_PRIORITIES - of_nat b :: tick)"
  shows "b \<le> a"
proof -
  have "unat (of_nat configMAX_PRIORITIES - of_nat n :: tick) = configMAX_PRIORITIES - n" if "n < configMAX_PRIORITIES" for n
    using that by (subst unat_sub) (simp_all add: configMAX_PRIORITIES_def word_le_nat_alt unat_of_nat)
  with assms show ?thesis by (simp add: word_le_nat_alt)
qed

text \<open>
  Signalling an event list with waiters takes its first waiter out and no other: the task
  becomes ready at once, with its time-out cancelled, or, while the scheduler is suspended, waits
  in the pending-ready list. The result is whether it has a higher priority than the current task,
  in which case a yield is recorded; when the waiters are ordered, no other waiter has a higher
  priority than the one woken.
\<close>
theorem event_wakes_first_waiter:
  assumes "kernel_ok k" and "waiting_ok k" and "entries k (EventList e) = EventItem t # ws"
  shows "\<exists>k'. xTaskRemoveFromEventList (EventList e) k = Some (uxPriority k (pxCurrentTCB k) < uxPriority k t, k')
    \<and> kernel_ok k' \<and> waiting_ok k' \<and> entries k' (EventList e) = ws
    \<and> xYieldPending k' = (xYieldPending k \<or> uxPriority k (pxCurrentTCB k) < uxPriority k t)
    \<and> container k' = (if uxSchedulerSuspended k = 0
        then (container k)(EventItem t := None, StateItem t \<mapsto> ReadyList (uxPriority k t))
        else (container k)(EventItem t \<mapsto> PendingReadyList))
    \<and> (waiters_by_priority e k \<longrightarrow> (\<forall>it \<in> set ws. uxPriority k (owner it) \<le> uxPriority k t))"
proof -
  have "uxPriority k (owner it) \<le> uxPriority k t" if "waiters_by_priority e k" "it \<in> set ws" for it
    using that assms(3) by (auto simp: waiters_by_priority_def by_value_def intro: priority_value_le)
  then show ?thesis
    using remove_from_event_list [OF assms] by auto
qed

lemma event_wakes_first_waiter_witness:
  "\<exists>k'. xTaskRemoveFromEventList (EventList 7) sample_kernel = Some (False, k') \<and> entries k' (EventList 7) = []
    \<and> container k' (StateItem 2) = Some (ReadyList 1)"
proof -
  have "waiting_ok sample_kernel" using sample_kernel_time by (simp add: time_ok_def)
  moreover have "entries sample_kernel (EventList 7) = EventItem 2 # []" "pxCurrentTCB sample_kernel = 1"
    "uxPriority sample_kernel 1 = 2" "uxPriority sample_kernel 2 = 1" "uxSchedulerSuspended sample_kernel = 0"
    by (simp_all add: sample_kernel_def)
  ultimately show ?thesis
    using event_wakes_first_waiter [OF sample_kernel_ok, of 7 2 "[]"] by auto
qed

text \<open>
  Waiting for an event and being signalled cancel out: a running task that waits in an empty
  event list for some ticks, and is signalled before they are over, is in the ready list of its
  priority again, in no event list, and no longer due; the kernel is well formed throughout.
\<close>
theorem wait_then_signal:
  assumes "time_ok T k" and "container k (StateItem (pxCurrentTCB k)) = Some (ReadyList p)"
    and "container k (EventItem (pxCurrentTCB k)) = None" and "0 < ticks" and "entries k (EventList e) = []"
    and "uxSchedulerSuspended k = 0"
  shows "\<exists>k1 k2 sw. vTaskPlaceOnEventList (EventList e) ticks k = Some k1
    \<and> entries k1 (EventList e) = [EventItem (pxCurrentTCB k)]
    \<and> due T k1 (pxCurrentTCB k) = (if ticks = portMAX_DELAY then None else Some (T + unat ticks))
    \<and> xTaskRemoveFromEventList (EventList e) k1 = Some (sw, k2) \<and> kernel_ok k2 \<and> waiting_ok k2
    \<and> entries k2 (EventList e) = [] \<and> container k2 = container k \<and> due T k2 (pxCurrentTCB k) = None"
proof -
  let ?t = "pxCurrentTCB k" and ?k = "list_insert (EventList e) (EventItem (pxCurrentTCB k)) k"
  obtain k1 where k1: "vTaskPlaceOnEventList (EventList e) ticks k = Some k1"
    "blocked_until T (if ticks = portMAX_DELAY then None else Some (unat ticks)) ?k k1"
    using place_effect [OF assms(1-4)] by blast
  have b: "time_ok T k1" "due T k1 ?t = (if ticks = portMAX_DELAY then None else Some (T + unat ticks))"
    "entries k1 (EventList e) = entries ?k (EventList e)" "uxSchedulerSuspended k1 = 0" "uxPriority k1 = uxPriority k"
    "\<And>t. t \<noteq> ?t \<Longrightarrow> container k1 (StateItem t) = container k (StateItem t)"
    "\<And>t. container k1 (EventItem t) = container ?k (EventItem t)"
    using k1(2) assms(6) by (auto simp: blocked_until_def)
  have e1: "entries k1 (EventList e) = [EventItem ?t]"
    using b(3) assms(5) by (simp add: xl_insert_def xl_split_def split: if_splits)
  obtain sw k2 where k2: "xTaskRemoveFromEventList (EventList e) k1 = Some (sw, k2)" "kernel_ok k2" "waiting_ok k2"
    "entries k2 (EventList e) = []" "container k2 = (container k1)(EventItem ?t := None, StateItem ?t \<mapsto> ReadyList (uxPriority k1 ?t))"
    using remove_from_event_list [of k1 e "EventItem ?t" "[]"] e1 b(1,4) by (auto simp: time_ok_def)
  have "item_fits k (ReadyList p) (StateItem ?t)"
    using assms(1) kernel_ok_fits [OF _ assms(2)] by (simp only: time_ok_def)
  then have p: "uxPriority k ?t = p" by simp
  have "container k2 it = container k it" for it
  proof (cases it)
    case (StateItem t)
    then show ?thesis using k2(5) b(5,6) assms(2) p by simp
  next
    case (EventItem t)
    then show ?thesis using k2(5) b(7) assms(3) by simp
  qed
  then have c: "container k2 = container k" by auto
  moreover have "due T k2 ?t = None"
    using c assms(2) delayed_not_ready [OF k2(2), symmetric] by (simp add: due_def)
  ultimately show ?thesis using k1(1) e1 b(2) k2 by blast
qed

lemma wait_then_signal_witness:
  "\<exists>k1 k2 sw. vTaskPlaceOnEventList (EventList 3) 10 sample_kernel = Some k1 \<and> due 99 k1 1 = Some 109
    \<and> xTaskRemoveFromEventList (EventList 3) k1 = Some (sw, k2) \<and> container k2 = container sample_kernel"
proof -
  have "container sample_kernel (StateItem (pxCurrentTCB sample_kernel)) = Some (ReadyList 2)"
    "container sample_kernel (EventItem (pxCurrentTCB sample_kernel)) = None"
    "entries sample_kernel (EventList 3) = []" "uxSchedulerSuspended sample_kernel = 0" "pxCurrentTCB sample_kernel = 1"
    by (simp_all add: sample_kernel_def xl_empty_def)
  moreover have "(10 :: tick) \<noteq> portMAX_DELAY" by simp
  ultimately show ?thesis
    using wait_then_signal [OF sample_kernel_time, of 2 10 3] by auto
qed

section \<open>Time-outs\<close>

text \<open>The count of wrap-arounds goes with the time.\<close>

definition clock_ok :: "nat \<Rightarrow> kernel \<Rightarrow> bool" where
  "clock_ok T k \<longleftrightarrow> xTickCount k = of_nat T \<and> xNumOfOverflows k = of_nat (T div 2 ^ 64)"

lemma elapsed_ticks:
  assumes "S \<le> T" and "T < S + 2 ^ 64"
  shows "unat (of_nat T - of_nat S :: tick) = T - S"
proof -
  have "of_nat T - of_nat S = (of_nat (T - S) :: tick)" using assms(1) by simp
  moreover have "unat (of_nat m :: tick) = m" if "m < 2 ^ 64" for m
    using that by (simp add: unat_of_nat)
  ultimately show ?thesis using assms by (metis less_diff_conv2 add.commute)
qed

text \<open>
  C36: the time-out test is exact across the wrap-around of the tick count. Set up at time
  \<open>S\<close> and asked at time \<open>T\<close>, less than a full period later, it reports that \<open>n\<close> ticks are
  over exactly when \<open>T - S \<ge> n\<close>; otherwise it restarts from \<open>T\<close> with \<open>n - (T - S)\<close> ticks
  left, so that no time is lost or gained. An indefinite wait never times out.
\<close>
theorem timeout_exact:
  assumes "clock_ok S k0" and "clock_ok T k" and "S \<le> T" and "T < S + 2 ^ 64"
  shows "xTaskCheckForTimeOut (vTaskInternalSetTimeOutState k0) n k =
    (if n = portMAX_DELAY then (False, vTaskInternalSetTimeOutState k0, n)
     else if unat n \<le> T - S then (True, vTaskInternalSetTimeOutState k0, 0)
     else (False, vTaskInternalSetTimeOutState k, n - of_nat (T - S)))"
proof -
  have el: "of_nat T - of_nat S = (of_nat (T - S) :: tick)" using assms(3) by simp
  have lt: "of_nat (T - S) < n \<longleftrightarrow> T - S < unat n"
    using elapsed_ticks [OF assms(3,4)] el by (simp add: word_less_nat_alt)
  have over: "unat n \<le> T - S"
    if "of_nat (T div 2 ^ 64) \<noteq> (of_nat (S div 2 ^ 64) :: u32)" "of_nat S \<le> (of_nat T :: tick)"
  proof -
    have "S mod 2 ^ 64 \<le> T mod 2 ^ 64" using that(2) by (simp add: word_le_nat_alt unat_of_nat)
    moreover have "S div 2 ^ 64 \<noteq> T div 2 ^ 64" using that(1) by auto
    moreover have "S div 2 ^ 64 \<le> T div 2 ^ 64" using assms(3) by (rule div_le_mono)
    ultimately have "S div 2 ^ 64 * 2 ^ 64 + 2 ^ 64 \<le> T div 2 ^ 64 * 2 ^ 64" "S mod 2 ^ 64 \<le> T mod 2 ^ 64" by auto
    then have "S div 2 ^ 64 * 2 ^ 64 + S mod 2 ^ 64 + 2 ^ 64 \<le> T div 2 ^ 64 * 2 ^ 64 + T mod 2 ^ 64" by linarith
    then have "S + 2 ^ 64 \<le> T" by (simp only: div_mult_mod_eq)
    with assms(4) show ?thesis by simp
  qed
  show ?thesis
    using assms(1,2) lt over el
    by (simp add: xTaskCheckForTimeOut_def vTaskInternalSetTimeOutState_def clock_ok_def Let_def not_less)
qed

lemma timeout_exact_witness:
  "xTaskCheckForTimeOut (vTaskInternalSetTimeOutState (sample_kernel\<lparr>xTickCount := - 1\<rparr>)) 10
      (sample_kernel\<lparr>xTickCount := 3, xNumOfOverflows := 1\<rparr>)
    = (False, vTaskInternalSetTimeOutState (sample_kernel\<lparr>xTickCount := 3, xNumOfOverflows := 1\<rparr>), 6)"
proof -
  have "clock_ok (2 ^ 64 - 1) (sample_kernel\<lparr>xTickCount := - 1\<rparr>)"
    "clock_ok (2 ^ 64 + 3) (sample_kernel\<lparr>xTickCount := 3, xNumOfOverflows := 1\<rparr>)"
    by (simp_all add: clock_ok_def sample_kernel_def)
  from timeout_exact [OF this] show ?thesis by simp
qed

section \<open>Resuming the scheduler\<close>

definition pending_tasks :: "kernel \<Rightarrow> nat set" where
  "pending_tasks k = owner ` set (entries k PendingReadyList)"

lemma pending_tasks_container: "kernel_ok k \<Longrightarrow> t \<in> pending_tasks k \<longleftrightarrow> container k (EventItem t) = Some PendingReadyList"
proof -
  assume ok: "kernel_ok k"
  have "it \<in> set (entries k PendingReadyList) \<Longrightarrow> it = EventItem (owner it)" for it
    using lists_ok_container [OF kernel_ok_lists [OF ok]] kernel_ok_fits [OF ok, of it PendingReadyList] by auto
  then show ?thesis
    using lists_ok_container [OF kernel_ok_lists [OF ok], of "EventItem t" PendingReadyList]
    by (auto simp: pending_tasks_def image_iff)
qed

lemma woken_yield: "woken ts (k\<lparr>xYieldPending := b\<rparr>) k' \<Longrightarrow> woken ts k (k'\<lparr>xYieldPending := xYieldPending k\<rparr>)"
  by (simp add: woken_def)

lemma move_pending_woken:
  assumes "kernel_ok k" and "waiting_ok k"
  shows "\<exists>k'. move_pending moved k = Some (moved \<or> entries k PendingReadyList \<noteq> [],
      k'\<lparr>xYieldPending := (xYieldPending k \<or> (\<exists>t \<in> pending_tasks k. uxPriority k (pxCurrentTCB k) < uxPriority k t))\<rparr>)
    \<and> woken (pending_tasks k) k k'"
  using assms
proof (induction "entries k PendingReadyList" arbitrary: k moved)
  case Nil
  then have "move_pending moved k = Some (moved, k)" by (simp add: move_pending.simps [of moved k] head_entry_def)
  moreover have "pending_tasks k = {}" using Nil(1) by (simp add: pending_tasks_def)
  moreover have "woken {} k k" using woken_none [OF Nil(2,3), of "xNextTaskUnblockTime k"] by simp
  ultimately show ?case using Nil(1) by (intro exI [of _ k]) simp
next
  case (Cons it ws)
  define t where "t = owner it"
  have pend: "entries k PendingReadyList = it # ws" using Cons(2) by simp
  have c: "container k it = Some PendingReadyList"
    using lists_ok_container [OF kernel_ok_lists [OF Cons(3)], of it PendingReadyList] pend by simp
  then have it: "it = EventItem t" using kernel_ok_fits [OF Cons(3), of it PendingReadyList] by (simp add: t_def)
  have st: "container k (StateItem t) \<in> Some ` {DelayedTaskList1, DelayedTaskList2, SuspendedTaskList}"
    using Cons(4) c it unfolding waiting_ok_def by (metis option.distinct(1))
  define k1 where "k1 = prvAddTaskToReadyList t (detach_if (StateItem t) (detach_if (EventItem t) k))"
  define k2 where "k2 = (if uxPriority k (pxCurrentTCB k) < uxPriority k t then k1\<lparr>xYieldPending := True\<rparr> else k1)"
  have un: "unblocked t k k1" using unblocked_add_ready [OF Cons(3)] by (auto simp: k1_def)
  have ok1: "kernel_ok k1" "waiting_ok k1" "statics k1 = statics k" "xYieldPending k1 = xYieldPending k"
    using un unblocked_waiting_ok [OF un Cons(4)] by (auto simp: unblocked_def)
  note sts = statics_eqD [OF ok1(3)]
  have "StateItem t \<notin> set (entries k PendingReadyList)"
    using lists_ok_container [OF kernel_ok_lists [OF Cons(3)], of "StateItem t" PendingReadyList] st by auto
  then have e1: "entries k1 PendingReadyList = ws" using un pend it by (simp add: unblocked_def remove1_idem)
  have "list_remove (EventItem t) k = Some (detach_if (EventItem t) k)"
    "list_remove (StateItem t) (detach_if (EventItem t) k) = Some (detach_if (StateItem t) (detach_if (EventItem t) k))"
    using c it st by (intro list_remove_detach_if; auto)+
  then have step: "move_pending moved k = move_pending True k2"
    using pend sts by (subst move_pending.simps) (simp add: head_entry_def k2_def flip: t_def k1_def)
  have y2: "k2 = k1\<lparr>xYieldPending := xYieldPending k \<or> uxPriority k (pxCurrentTCB k) < uxPriority k t\<rparr>"
    using ok1(4) by (auto simp: k2_def)
  have e2: "ws = entries k2 PendingReadyList" and ok2: "kernel_ok k2" "waiting_ok k2"
    using e1 ok1(1,2) by (simp_all add: y2)
  obtain k' where k': "move_pending True k2 = Some (True \<or> entries k2 PendingReadyList \<noteq> [],
      k'\<lparr>xYieldPending := (xYieldPending k2 \<or> (\<exists>t \<in> pending_tasks k2. uxPriority k2 (pxCurrentTCB k2) < uxPriority k2 t))\<rparr>)"
    "woken (pending_tasks k2) k2 k'"
    using Cons(1) [OF e2 ok2] by blast
  have pt: "pending_tasks k = insert t (pending_tasks k2)" using pend e2 by (simp add: pending_tasks_def t_def)
  have "woken (pending_tasks k2) k1 (k'\<lparr>xYieldPending := xYieldPending k1\<rparr>)"
    by (rule woken_yield) (use k'(2) y2 in simp)
  then have "woken (pending_tasks k) k (k'\<lparr>xYieldPending := xYieldPending k1\<rparr>)"
    unfolding pt by (rule woken_step [OF Cons(3,4) un])
  then show ?case
    using step k'(1) pend pt sts y2 by (intro exI [of _ "k'\<lparr>xYieldPending := xYieldPending k1\<rparr>"]) (simp add: disj_ac)
qed

lemma time_ok_reset:
  assumes "time_ok T k" and "woken ts k k'"
  shows "time_ok T (prvResetNextTaskUnblockTime k')" (is "time_ok T ?k")
proof -
  have w: "kernel_ok k'" "waiting_ok k'" "statics k' = statics k"
    "(\<forall>p. m \<noteq> ReadyList p) \<longrightarrow> entries k' m = filter (\<lambda>it. owner it \<notin> ts) (entries k m)" for m
    using assms(2) by (auto simp: woken_def)
  note sts = statics_eqD [OF w(3)]
  have ok: "kernel_ok k" and dl: "delays_ok k" using assms(1) by (auto simp: time_ok_def)
  have e: "entries k' m = filter (\<lambda>it. owner it \<notin> ts) (entries k m)"
    if "m = pxDelayedTaskList k \<or> m = pxOverflowDelayedTaskList k" for m
    using that w(4) [of m] delayed_not_ready [OF ok] by auto
  have srt: "by_value k' (entries k' m)" if "m = pxDelayedTaskList k \<or> m = pxOverflowDelayedTaskList k" for m
    using that dl e [OF that] sts by (auto simp: delays_ok_def by_value_def sorted_filter)
  have "xNextTaskUnblockTime ?k \<le> item_value k' it" if "it \<in> set (entries k' (pxDelayedTaskList k'))" for it
    using that srt [of "pxDelayedTaskList k"] sts
    by (cases "entries k' (pxDelayedTaskList k')")
      (auto simp: prvResetNextTaskUnblockTime_def head_entry_def by_value_def)
  then show ?thesis
    using w(1,2) assms(1) sts srt e dl
    by (auto simp: time_ok_def delays_ok_def by_value_def waiting_ok_def prvResetNextTaskUnblockTime_def)
qed

lemma resume_effect:
  assumes "time_ok T k" and "uxSchedulerSuspended k = 1" and "0 < uxCurrentNumberOfTasks k"
  shows "\<exists>y k'. xTaskResumeAll k = Some (y, k') \<and> uxSchedulerSuspended k' = 0 \<and> xPendedTicks k' = 0
    \<and> time_ok (T + unat (xPendedTicks k)) k' \<and> y = xYieldPending k' \<and> (y \<longrightarrow> pendsv k')
    \<and> (\<forall>t. container k (EventItem t) = Some PendingReadyList \<longrightarrow>
          container k' (StateItem t) = Some (ReadyList (uxPriority k t)))
    \<and> (\<forall>t d. container k (EventItem t) \<noteq> Some PendingReadyList \<longrightarrow> due T k t = Some d \<longrightarrow>
          (if d \<le> T + unat (xPendedTicks k) then container k' (StateItem t) = Some (ReadyList (uxPriority k t))
           else due (T + unat (xPendedTicks k)) k' t = Some d))
    \<and> (\<forall>t l. container k' (EventItem t) = Some l \<longrightarrow> container k (EventItem t) = Some l) \<and> pxCurrentTCB k' = pxCurrentTCB k
    \<and> uxCurrentNumberOfTasks k' = uxCurrentNumberOfTasks k \<and> uxPriority k' = uxPriority k
    \<and> (\<forall>t. container k (EventItem t) \<noteq> Some PendingReadyList \<longrightarrow> due T k t = None \<longrightarrow>
          container k' (StateItem t) = container k (StateItem t))"
proof -
  let ?k = "k\<lparr>uxSchedulerSuspended := 0\<rparr>"
  have t0: "time_ok T ?k" using assms(1) by (simp add: time_ok_def waiting_ok_def delays_ok_def by_value_def)
  then have ok: "kernel_ok ?k" "waiting_ok ?k" by (auto simp: time_ok_def)
  obtain k1 y1 where mv: "move_pending False ?k = Some (entries ?k PendingReadyList \<noteq> [], k1\<lparr>xYieldPending := y1\<rparr>)"
    and w1: "woken (pending_tasks ?k) ?k k1"
    using move_pending_woken [OF ok, of False] that by (simp only: simp_thms) blast
  define k2 where "k2 = (if entries ?k PendingReadyList \<noteq> [] then prvResetNextTaskUnblockTime (k1\<lparr>xYieldPending := y1\<rparr>)
    else k1\<lparr>xYieldPending := y1\<rparr>)"
  have "entries ?k PendingReadyList = [] \<Longrightarrow> move_pending False ?k = Some (False, ?k)"
    by (simp add: move_pending.simps [of False ?k] head_entry_def)
  then have "entries ?k PendingReadyList = [] \<Longrightarrow> k2 = ?k" using mv by (simp add: k2_def)
  moreover have "prvResetNextTaskUnblockTime (k1\<lparr>xYieldPending := y1\<rparr>)
      = (prvResetNextTaskUnblockTime k1)\<lparr>xYieldPending := y1\<rparr>"
    by (simp add: prvResetNextTaskUnblockTime_def head_entry_def split: list.split)
  ultimately have t2: "time_ok T k2" using t0 time_ok_reset [OF t0 w1] by (cases "entries ?k PendingReadyList = []") (auto simp: k2_def)
  have s2: "statics k2 = statics ?k" "container k2 = container k1"
    using w1 by (simp_all add: k2_def woken_def prvResetNextTaskUnblockTime_def)
  note sts = statics_eqD [OF s2(1)]
  have mem: "t \<in> pending_tasks ?k \<longleftrightarrow> container k (EventItem t) = Some PendingReadyList" for t
    using pending_tasks_container [OF ok(1)] by simp
  have c2: "container k2 (StateItem t) = (if container k (EventItem t) = Some PendingReadyList
      then Some (ReadyList (uxPriority k t)) else container k (StateItem t))" for t
    using w1 mem by (simp add: s2(2) woken_def)
  have d2: "due T k2 t = (if container k (EventItem t) = Some PendingReadyList then None else due T k t)" for t
  proof -
    have "ReadyList p \<noteq> pxDelayedTaskList k" "ReadyList p \<noteq> pxOverflowDelayedTaskList k" for p
      using delayed_not_ready [OF ok(1), of p] by auto
    then show ?thesis using c2 [of t] sts by (auto simp: due_def)
  qed
  have "uxSchedulerSuspended k2 = 0" using sts by simp
  from pended_ticks_effect [OF t2 this, of "unat (xPendedTicks k)"] obtain k3 where
    k3: "pended_ticks (unat (xPendedTicks k)) k2 = Some k3" "time_ok (T + unat (xPendedTicks k)) k3" "uxSchedulerSuspended k3 = 0"
    "pxCurrentTCB k3 = pxCurrentTCB k2" "uxPriority k3 = uxPriority k2" "uxCurrentNumberOfTasks k3 = uxCurrentNumberOfTasks k2"
    "container k3 (EventItem t) \<in> {None, container k2 (EventItem t)}"
    "case due T k2 t of None \<Rightarrow> container k3 (StateItem t) = container k2 (StateItem t) \<and> due (T + unat (xPendedTicks k)) k3 t = None
     | Some d \<Rightarrow> if d \<le> T + unat (xPendedTicks k) then container k3 (StateItem t) = Some (ReadyList (uxPriority k2 t))
              else due (T + unat (xPendedTicks k)) k3 t = Some d" for t by blast
  have fields: "time_ok T' (k\<lparr>xPendedTicks := 0\<rparr>) = time_ok T' k" "time_ok T' (portYIELD k) = time_ok T' k" for T' k
    by (simp_all add: time_ok_def waiting_ok_def delays_ok_def by_value_def portYIELD_def)
  have dues: "due T' (k\<lparr>xPendedTicks := 0\<rparr>) = due T' k" "due T' (portYIELD k) = due T' k" for T' k
    by (simp_all add: due_def fun_eq_iff portYIELD_def)
  define k4 where "k4 = (if xPendedTicks k > 0 then k3\<lparr>xPendedTicks := 0\<rparr> else k3)"
  have k4: "time_ok (T + unat (xPendedTicks k)) k4" "uxSchedulerSuspended k4 = 0" "container k4 = container k3"
    "due (T + unat (xPendedTicks k)) k4 = due (T + unat (xPendedTicks k)) k3" "xPendedTicks k4 = 0"
    "pxCurrentTCB k4 = pxCurrentTCB k" "uxPriority k4 = uxPriority k" "uxCurrentNumberOfTasks k4 = uxCurrentNumberOfTasks k"
    using k3 sts by (auto simp: k4_def fields dues word_gt_0)
  have z: "xPendedTicks k = 0 \<Longrightarrow> k3 = k2" using k3(1) by simp
  have res: "xTaskResumeAll k = Some (xYieldPending k4, if xYieldPending k4 then portYIELD k4 else k4)"
  proof (cases "entries k PendingReadyList = []")
    case True
    then have "move_pending False ?k = Some (False, k2)" using mv by (simp add: k2_def)
    then show ?thesis
      using k3(1) z sts assms(2,3) by (auto simp: xTaskResumeAll_def Let_def word_gt_0 k4_def)
  next
    case False
    then have "move_pending False ?k = Some (True, k1\<lparr>xYieldPending := y1\<rparr>)"
      "prvResetNextTaskUnblockTime (k1\<lparr>xYieldPending := y1\<rparr>) = k2" using mv by (simp_all add: k2_def)
    then show ?thesis
      using k3(1) z sts assms(2,3) by (auto simp: xTaskResumeAll_def Let_def word_gt_0 k4_def)
  qed
  have "container k3 (StateItem t) = Some (ReadyList (uxPriority k t))" if "container k (EventItem t) = Some PendingReadyList" for t
    using k3(8) [of t] d2 [of t] c2 [of t] that by simp
  moreover have "if d \<le> T + unat (xPendedTicks k) then container k3 (StateItem t) = Some (ReadyList (uxPriority k t))
      else due (T + unat (xPendedTicks k)) k3 t = Some d"
    if "container k (EventItem t) \<noteq> Some PendingReadyList" "due T k t = Some d" for t d
    using k3(8) [of t] d2 [of t] that sts by simp
  moreover have "container k3 (StateItem t) = container k (StateItem t)"
    if "container k (EventItem t) \<noteq> Some PendingReadyList" "due T k t = None" for t
    using k3(8) [of t] d2 [of t] c2 [of t] that by simp
  moreover have "container k (EventItem t) = Some l" if "container k3 (EventItem t) = Some l" for t l
    using k3(7) [of t] w1 s2(2) that by (auto simp: woken_def split: if_splits)
  ultimately show ?thesis
    using res k4 by (auto simp: fields dues) (simp_all add: portYIELD_def)
qed

text \<open>
  Resuming the scheduler catches up with everything that happened while it was suspended: all
  the tasks in the pending-ready list become ready, then all the ticks that were counted are
  processed, so that the kernel is at the time it would be at without the suspension and exactly
  the tasks due by then are awake. It terminates without a failed assertion, and asks for a context
  switch (returning that it did) when one is pending.
\<close>
theorem resume_catches_up:
  assumes "time_ok T k" and "uxSchedulerSuspended k = 1" and "0 < uxCurrentNumberOfTasks k"
  shows "\<exists>y k'. xTaskResumeAll k = Some (y, k') \<and> uxSchedulerSuspended k' = 0 \<and> xPendedTicks k' = 0
    \<and> time_ok (T + unat (xPendedTicks k)) k' \<and> y = xYieldPending k' \<and> (y \<longrightarrow> pendsv k')
    \<and> (\<forall>t. container k (EventItem t) = Some PendingReadyList \<longrightarrow>
          container k' (StateItem t) = Some (ReadyList (uxPriority k t)))
    \<and> (\<forall>t d. container k (EventItem t) \<noteq> Some PendingReadyList \<longrightarrow> due T k t = Some d \<longrightarrow>
          (if d \<le> T + unat (xPendedTicks k) then container k' (StateItem t) = Some (ReadyList (uxPriority k t))
           else due (T + unat (xPendedTicks k)) k' t = Some d))"
  using resume_effect [OF assms] by blast

lemma resume_catches_up_witness:
  "\<exists>y k'. xTaskResumeAll (sample_kernel\<lparr>uxSchedulerSuspended := 1, xPendedTicks := 1\<rparr>) = Some (y, k')
    \<and> time_ok 100 k' \<and> container k' (StateItem 2) = Some (ReadyList 1)"
proof -
  let ?k = "sample_kernel\<lparr>uxSchedulerSuspended := 1, xPendedTicks := 1\<rparr>"
  have "time_ok 99 ?k"
    using sample_kernel_time by (simp add: time_ok_def waiting_ok_def delays_ok_def by_value_def)
  moreover have "uxSchedulerSuspended ?k = 1" "0 < uxCurrentNumberOfTasks ?k" "unat (xPendedTicks ?k) = 1"
    "container ?k (EventItem 2) \<noteq> Some PendingReadyList" "due 99 ?k 2 = Some 100" "uxPriority ?k 2 = 1"
    by (simp_all add: sample_kernel_def due_def)
  ultimately show ?thesis
    using resume_catches_up [of 99 ?k] by fastforce
qed

section \<open>Priority inheritance\<close>

lemma kernel_ok_priority:
  assumes "kernel_ok k" and "\<And>p. container k (StateItem h) \<noteq> Some (ReadyList p)"
  shows "kernel_ok (k\<lparr>uxPriority := (uxPriority k)(h := p)\<rparr>)" (is "kernel_ok ?k")
proof -
  have "lists_ok ?k" using kernel_ok_lists [OF assms(1)] by (simp add: lists_ok_def)
  moreover have "item_fits ?k l it" if "container k it = Some l" for it l
    using kernel_ok_fits [OF assms(1) that] that assms(2)
    by (cases "(?k, l, it)" rule: item_fits.cases) auto
  ultimately show ?thesis using assms(1) unfolding kernel_ok_def by simp
qed

text \<open>Taking a ready task to the ready list of another priority.\<close>

lemma set_priority_value_fields [simp]:
  "kernel_ok (set_priority_value t p k) = kernel_ok k" "uxPriority (set_priority_value t p k) = uxPriority k"
  "container (set_priority_value t p k) = container k" "pxCurrentTCB (set_priority_value t p k) = pxCurrentTCB k"
  by (simp_all add: set_priority_value_def)

lemma more_fields [simp]:
  "uxBasePriority (set_priority_value t p k) = uxBasePriority k" "uxMutexesHeld (set_priority_value t p k) = uxMutexesHeld k"
  "uxBasePriority (detach_if it k) = uxBasePriority k" "uxMutexesHeld (detach_if it k) = uxMutexesHeld k"
  by (simp_all add: set_priority_value_def set_item_value_def detach_if_def split: option.splits)

lemma requeue_remove: "container k (StateItem h) = Some (ReadyList q) \<Longrightarrow>
    list_remove (StateItem h) k = Some (detach_if (StateItem h) k)"
  by (simp add: list_remove_detach_if)

lemma requeue_ok:
  assumes "kernel_ok k" and "g = id \<or> g = set_priority_value h v"
  shows "kernel_ok (prvAddTaskToReadyList h (g ((detach_if (StateItem h) k)\<lparr>uxPriority := (uxPriority k)(h := p)\<rparr>)))"
proof -
  let ?k = "(detach_if (StateItem h) k)\<lparr>uxPriority := (uxPriority k)(h := p)\<rparr>"
  have "kernel_ok ?k"
    using kernel_ok_priority [OF kernel_ok_detach_if [OF assms(1)], of "StateItem h" h p] by simp
  then show ?thesis
    using assms(2) by (intro kernel_ok_add_ready) auto
qed

lemma inherit_effect:
  assumes "kernel_ok k" and "container k (StateItem h) = Some (ReadyList (uxPriority k h))"
    and "uxPriority k h < uxPriority k (pxCurrentTCB k)"
  shows "\<exists>k'. xTaskPriorityInherit (Some h) k = Some (True, k') \<and> kernel_ok k'
    \<and> uxPriority k' = (uxPriority k)(h := uxPriority k (pxCurrentTCB k))
    \<and> container k' = (container k)(StateItem h \<mapsto> ReadyList (uxPriority k (pxCurrentTCB k)))
    \<and> pxCurrentTCB k' = pxCurrentTCB k \<and> uxBasePriority k' = uxBasePriority k \<and> uxMutexesHeld k' = uxMutexesHeld k"
proof -
  let ?cp = "uxPriority k (pxCurrentTCB k)"
  define k1 where "k1 = (if \<not> event_value_in_use h k then set_priority_value h ?cp k else k)"
  have k1: "kernel_ok k1" "container k1 = container k" "uxPriority k1 = uxPriority k" "pxCurrentTCB k1 = pxCurrentTCB k"
    "uxBasePriority k1 = uxBasePriority k" "uxMutexesHeld k1 = uxMutexesHeld k"
    using assms(1) by (simp_all add: k1_def)
  have c: "container k1 (StateItem h) = Some (ReadyList (uxPriority k h))" using assms(2) k1(2) by simp
  note rq = requeue_remove [OF c] requeue_ok [OF k1(1), of id h 0 ?cp]
  show ?thesis
    using assms(2,3) rq k1
    by (simp add: xTaskPriorityInherit_def Let_def flip: k1_def)
qed

text \<open>
  C37: priority inheritance is undone when it ends. A ready task \<open>h\<close> at its base priority that
  holds one mutex, for which a more urgent task asks, gets the priority of that task and moves to
  its ready list, so that it is not overtaken by tasks between the two; when \<open>h\<close> later gives the
  mutex back it returns to its own priority and ready list, and the kernel is as before, apart from
  the mutex count.
\<close>
theorem inherit_then_disinherit:
  assumes "kernel_ok k" and "container k (StateItem h) = Some (ReadyList (uxPriority k h))"
    and "uxPriority k h < uxPriority k (pxCurrentTCB k)" and "uxPriority k h = uxBasePriority k h" and "uxMutexesHeld k h = 1"
  shows "\<exists>k1 k2. xTaskPriorityInherit (Some h) k = Some (True, k1) \<and> kernel_ok k1
    \<and> uxPriority k1 = (uxPriority k)(h := uxPriority k (pxCurrentTCB k))
    \<and> container k1 = (container k)(StateItem h \<mapsto> ReadyList (uxPriority k (pxCurrentTCB k)))
    \<and> xTaskPriorityDisinherit (Some h) (k1\<lparr>pxCurrentTCB := h\<rparr>) = Some (True, k2) \<and> kernel_ok k2
    \<and> uxPriority k2 = uxPriority k \<and> container k2 = container k \<and> uxMutexesHeld k2 = (uxMutexesHeld k)(h := 0)"
proof -
  obtain k1 where k1: "xTaskPriorityInherit (Some h) k = Some (True, k1)" "kernel_ok k1"
    "uxPriority k1 = (uxPriority k)(h := uxPriority k (pxCurrentTCB k))"
    "container k1 = (container k)(StateItem h \<mapsto> ReadyList (uxPriority k (pxCurrentTCB k)))"
    "uxBasePriority k1 = uxBasePriority k" "uxMutexesHeld k1 = uxMutexesHeld k"
    using inherit_effect [OF assms(1-3)] by blast
  define k2 where "k2 = k1\<lparr>pxCurrentTCB := h, uxMutexesHeld := (uxMutexesHeld k)(h := 0)\<rparr>"
  have k2: "kernel_ok k2" "container k2 (StateItem h) = Some (ReadyList (uxPriority k (pxCurrentTCB k)))"
    using k1 by (simp_all add: k2_def)
  note rq = requeue_remove [OF k2(2)]
    requeue_ok [OF k2(1), of "set_priority_value h (uxBasePriority k h)" h "uxBasePriority k h" "uxBasePriority k h"]
  have "uxPriority k1 h \<noteq> uxBasePriority k h" using k1(3) assms(3,4) by simp
  then have "xTaskPriorityDisinherit (Some h) (k1\<lparr>pxCurrentTCB := h\<rparr>)
      = Some (True, prvAddTaskToReadyList h (set_priority_value h (uxBasePriority k h)
          ((detach_if (StateItem h) k2)\<lparr>uxPriority := (uxPriority k2)(h := uxBasePriority k h)\<rparr>)))"
    using k1 k2 rq(1) assms(5)
    by (simp add: xTaskPriorityDisinherit_def Let_def flip: k2_def) (simp add: k2_def)
  moreover have "(uxPriority k2)(h := uxBasePriority k h) = uxPriority k"
    using k1(3) assms(4) by (auto simp: k2_def)
  ultimately show ?thesis
    using k1 rq(2) assms(2,4) by (auto simp: k2_def)
qed

lemma inherit_then_disinherit_witness:
  "\<exists>k1 k2. xTaskPriorityInherit (Some 0) (sample_kernel\<lparr>uxMutexesHeld := (\<lambda>_. 0)(0 := 1)\<rparr>) = Some (True, k1)
    \<and> uxPriority k1 0 = 2 \<and> xTaskPriorityDisinherit (Some 0) (k1\<lparr>pxCurrentTCB := 0\<rparr>) = Some (True, k2)
    \<and> uxPriority k2 0 = 0 \<and> container k2 = container sample_kernel"
proof -
  let ?k = "sample_kernel\<lparr>uxMutexesHeld := (\<lambda>_. 0)(0 := 1)\<rparr>"
  have "kernel_ok ?k" using sample_kernel_ok by simp
  moreover have "container ?k (StateItem 0) = Some (ReadyList (uxPriority ?k 0))"
    "uxPriority ?k 0 < uxPriority ?k (pxCurrentTCB ?k)" "uxPriority ?k 0 = uxBasePriority ?k 0" "uxMutexesHeld ?k 0 = 1"
    by (simp_all add: sample_kernel_def)
  moreover have "uxPriority ?k (pxCurrentTCB ?k) = 2" "uxPriority ?k 0 = 0" by (simp_all add: sample_kernel_def)
  ultimately show ?thesis using inherit_then_disinherit [of ?k 0] by auto
qed

end
