(* ===== verification/Rtos_Queue_Safe.thy ===== *)
theory Rtos_Queue_Safe
  imports Rtos_Queue_Task Rtos_Ring Rtos_Event
begin

text \<open>
  Queues shared by tasks and interrupts: every operation of an interrupt succeeds and keeps the
  invariants of queue and scheduler, whatever the lock state; what interrupts put in and take out
  is a bounded first-in first-out list; and no wake-up is lost however interrupts interleave with a
  task that is about to block.
\<close>

section \<open>Waking a waiter\<close>

lemma by_value_statics: "statics k' = statics k \<Longrightarrow> by_value k' xs = by_value k xs"
  by (simp add: by_value_def statics_def)

lemma wake_first_effect:
  assumes "time_ok T k"
  shows "\<exists>sw k'. wake_first (EventList e) k = Some (sw, k') \<and> time_ok T k' \<and> statics k' = statics k
    \<and> entries k' (EventList e) = tl (entries k (EventList e))
    \<and> (\<forall>n. n \<noteq> e \<longrightarrow> entries k' (EventList n) = entries k (EventList n))
    \<and> (\<forall>t p. container k (StateItem t) = Some (ReadyList p) \<longrightarrow> container k' (StateItem t) = Some (ReadyList p))
    \<and> (\<forall>t. container k (EventItem t) = None \<longrightarrow> container k' (EventItem t) = None)
    \<and> (entries k (EventList e) \<noteq> [] \<longrightarrow> wake_first (EventList e) k = xTaskRemoveFromEventList (EventList e) k)"
proof (cases "entries k (EventList e)")
  case Nil
  then have "wake_first (EventList e) k = Some (False, k)" by (simp add: wake_first_def list_is_empty_def)
  then show ?thesis using assms Nil by (intro exI [of _ False] exI [of _ k]) simp
next
  case (Cons it ws)
  have ok: "kernel_ok k" "waiting_ok k" and dl: "delays_ok k" and tm: "unat (xTickCount k) = T mod 2 ^ 64"
    using assms by (auto simp: time_ok_def)
  define t where "t = owner it"
  obtain k' where k': "xTaskRemoveFromEventList (EventList e) k = Some (uxPriority k (pxCurrentTCB k) < uxPriority k t, k')"
    "kernel_ok k'" "waiting_ok k'" "statics k' = statics k" "entries k' (EventList e) = ws"
    "xNextTaskUnblockTime k' = xNextTaskUnblockTime k"
    "container k' = (if uxSchedulerSuspended k = 0
        then (container k)(EventItem t := None, StateItem t \<mapsto> ReadyList (uxPriority k t))
        else (container k)(EventItem t \<mapsto> PendingReadyList))"
    "\<And>m. m \<noteq> EventList e \<Longrightarrow> m \<noteq> PendingReadyList \<Longrightarrow> (\<And>p. m \<noteq> ReadyList p) \<Longrightarrow>
        entries k' m = (if uxSchedulerSuspended k = 0 then remove1 (StateItem t) (entries k m) else entries k m)"
    using remove_from_event_list [OF ok Cons] unfolding t_def by blast
  note sts = statics_eqD [OF k'(4)]
  have c: "container k it = Some (EventList e)" using lists_ok_container [OF kernel_ok_lists [OF ok(1)]] Cons by force
  have it: "it = EventItem t" using kernel_ok_fits [OF ok(1) c] by (simp add: t_def)
  have st: "container k (StateItem t) \<in> Some ` {DelayedTaskList1, DelayedTaskList2, SuspendedTaskList}"
    using ok(2) c it unfolding waiting_ok_def by (metis option.distinct(1))
  have d: "pxDelayedTaskList k \<noteq> EventList e" "pxDelayedTaskList k \<noteq> PendingReadyList"
    "pxOverflowDelayedTaskList k \<noteq> EventList e" "pxOverflowDelayedTaskList k \<noteq> PendingReadyList"
    using delayed_list_kinds [OF ok(1), of "pxDelayedTaskList k"] delayed_list_kinds [OF ok(1), of "pxOverflowDelayedTaskList k"]
    by auto
  have sub: "entries k' m = entries k m \<or> entries k' m = remove1 (StateItem t) (entries k m)"
    if "m = pxDelayedTaskList k \<or> m = pxOverflowDelayedTaskList k" for m
    using k'(8) [of m] that d delayed_not_ready [OF ok(1)] by auto
  have "by_value k' (entries k' m)" if "m = pxDelayedTaskList k \<or> m = pxOverflowDelayedTaskList k" for m
    using sub [OF that] that dl sts
    by (auto simp: delays_ok_def by_value_def sorted_map_remove1)
  moreover have "set (entries k' (pxDelayedTaskList k)) \<subseteq> set (entries k (pxDelayedTaskList k))"
    using sub [of "pxDelayedTaskList k"] set_remove1_subset by fastforce
  ultimately have "time_ok T k'"
    using k'(2,3,6) sts dl tm by (auto simp: time_ok_def delays_ok_def)
  moreover have "entries k' (EventList n) = entries k (EventList n)" if "n \<noteq> e" for n
  proof -
    have "StateItem t \<notin> set (entries k (EventList n))"
      using lists_ok_container [OF kernel_ok_lists [OF ok(1)], of "StateItem t" "EventList n"] st by auto
    then show ?thesis using k'(8) [of "EventList n"] that by (simp add: remove1_idem)
  qed
  moreover have "container k' (StateItem u) = Some (ReadyList p)" if "container k (StateItem u) = Some (ReadyList p)" for u p
  proof -
    have "u \<noteq> t" using that st by auto
    then show ?thesis using k'(7) that by simp
  qed
  moreover have "container k' (EventItem u) = None" if "container k (EventItem u) = None" for u
    using that k'(7) c it by auto
  moreover have "wake_first (EventList e) k = xTaskRemoveFromEventList (EventList e) k"
    using Cons by (simp add: wake_first_def list_is_empty_def)
  ultimately show ?thesis using k'(1,4,5) Cons by auto
qed

section \<open>Queue and scheduler together\<close>

text \<open>
  \<open>system_ok\<close>: queue \<open>q\<close>, with the waiters of events \<open>e\<close> (to receive) and \<open>f\<close> (to send),
  in a scheduler at time \<open>T\<close>, with \<open>c\<close> the current task. A lock counts at most to the number
  of tasks, which fits 8 bits.
\<close>

definition lock_ok :: "int \<Rightarrow> kernel \<Rightarrow> bool" where
  "lock_ok l k \<longleftrightarrow> - 1 \<le> l \<and> l \<le> int (uxCurrentNumberOfTasks k)"

definition system_ok :: "nat \<Rightarrow> nat \<Rightarrow> nat \<Rightarrow> nat \<Rightarrow> Queue_t \<Rightarrow> kernel \<Rightarrow> bool" where
  "system_ok c e f T q k \<longleftrightarrow> value_queue q \<and> time_ok T k \<and> xTasksWaitingToReceive q = EventList e
     \<and> xTasksWaitingToSend q = EventList f \<and> e \<noteq> f \<and> lock_ok (cTxLock q) k \<and> lock_ok (cRxLock q) k
     \<and> 0 < uxCurrentNumberOfTasks k \<and> uxCurrentNumberOfTasks k \<le> 127 \<and> pxCurrentTCB k = c"

definition isr_fits :: "Queue_t \<Rightarrow> isr_op \<Rightarrow> bool" where
  "isr_fits q i \<longleftrightarrow> (case i of IsrSend item \<Rightarrow> length item = unat (uxItemSize q) | IsrGive \<Rightarrow> uxItemSize q = 0 | _ \<Rightarrow> True)"

lemma isr_fits_same: "same_queue q q' \<Longrightarrow> isr_fits q' i = isr_fits q i"
  by (simp add: isr_fits_def same_queue_def split: isr_op.split)

lemma portYIELD_invariants [simp]:
  "time_ok T (portYIELD k) = time_ok T k" "entries (portYIELD k) l = entries k l"
  "container (portYIELD k) = container k" "statics (portYIELD k) = statics k"
  "uxCurrentNumberOfTasks (portYIELD k) = uxCurrentNumberOfTasks k" "pxCurrentTCB (portYIELD k) = pxCurrentTCB k"
  by (simp_all add: portYIELD_def time_ok_def waiting_ok_def delays_ok_def by_value_def statics_def)

lemma yield_if_invariants [simp]:
  "time_ok T (yield_if b k) = time_ok T k" "entries (yield_if b k) l = entries k l"
  "container (yield_if b k) = container k" "statics (yield_if b k) = statics k"
  "uxCurrentNumberOfTasks (yield_if b k) = uxCurrentNumberOfTasks k" "pxCurrentTCB (yield_if b k) = pxCurrentTCB k"
  by (simp_all add: yield_if_def)

text \<open>Counting one more operation on a locked queue.\<close>

lemma increment_tx:
  assumes "lock_ok (cTxLock q) k" and "uxCurrentNumberOfTasks k \<le> 127" and "cTxLock q \<noteq> - 1"
  shows "\<exists>l. prvIncrementQueueTxLock q k = Some (q\<lparr>cTxLock := l\<rparr>) \<and> lock_ok l k \<and> (0 < uxCurrentNumberOfTasks k \<longrightarrow> 1 \<le> l)
    \<and> cTxLock q \<le> l"
proof (cases "cTxLock q < int (uxCurrentNumberOfTasks k)")
  case True
  then show ?thesis using assms
    by (intro exI [of _ "cTxLock q + 1"]) (auto simp: prvIncrementQueueTxLock_def lock_ok_def)
next
  case False
  then show ?thesis using assms
    by (intro exI [of _ "cTxLock q"]) (auto simp: prvIncrementQueueTxLock_def lock_ok_def)
qed

lemma increment_rx:
  assumes "lock_ok (cRxLock q) k" and "uxCurrentNumberOfTasks k \<le> 127" and "cRxLock q \<noteq> - 1"
  shows "\<exists>l. prvIncrementQueueRxLock q k = Some (q\<lparr>cRxLock := l\<rparr>) \<and> lock_ok l k \<and> l \<noteq> - 1"
proof (cases "cRxLock q < int (uxCurrentNumberOfTasks k)")
  case True
  then show ?thesis using assms
    by (intro exI [of _ "cRxLock q + 1"]) (auto simp: prvIncrementQueueRxLock_def lock_ok_def)
next
  case False
  then show ?thesis using assms
    by (intro exI [of _ "cRxLock q"]) (auto simp: prvIncrementQueueRxLock_def lock_ok_def)
qed

lemma read_index_fields [simp]:
  "read_index (q\<lparr>cTxLock := l\<rparr>) = read_index q" "read_index (q\<lparr>cRxLock := l\<rparr>) = read_index q"
  "read_index (q\<lparr>uxMessagesWaiting := n\<rparr>) = read_index q"
  by (simp_all add: read_index_def split: queue_u.split)

lemma value_queue_locks [simp]:
  "value_queue (q\<lparr>cTxLock := l\<rparr>) = value_queue q" "value_queue (q\<lparr>cRxLock := l\<rparr>) = value_queue q"
  "queue_items (q\<lparr>cTxLock := l\<rparr>) = queue_items q" "queue_items (q\<lparr>cRxLock := l\<rparr>) = queue_items q"
  by (simp_all add: value_queue_def queue_ok_def queue_items_def Let_def)

section \<open>One operation of an interrupt\<close>

text \<open>
  \<open>no_lost c e q k\<close>: of the task \<open>c\<close>, the only one that waits to receive, it is not the case
  that it waits, the queue is not empty, and nobody is due to wake it (a locked queue that counts
  a send wakes it when it is unlocked).
\<close>

definition counted :: "Queue_t \<Rightarrow> bool" where
  "counted q \<longleftrightarrow> uxMessagesWaiting q = 0 \<or> 1 \<le> cTxLock q"

definition no_lost :: "nat \<Rightarrow> nat \<Rightarrow> Queue_t \<Rightarrow> kernel \<Rightarrow> bool" where
  "no_lost c e q k \<longleftrightarrow> set (entries k (EventList e)) \<subseteq> {EventItem c}
     \<and> (entries k (EventList e) \<noteq> [] \<longrightarrow> counted q)"

text \<open>What one step keeps, whoever makes it.\<close>

definition step_keeps :: "nat \<Rightarrow> nat \<Rightarrow> Queue_t \<Rightarrow> kernel \<Rightarrow> Queue_t \<Rightarrow> kernel \<Rightarrow> bool" where
  "step_keeps c e q k q' k' \<longleftrightarrow> uxLength q' = uxLength q \<and> uxItemSize q' = uxItemSize q
     \<and> (cTxLock q' = - 1 \<longleftrightarrow> cTxLock q = - 1) \<and> (cRxLock q' = - 1 \<longleftrightarrow> cRxLock q = - 1)
     \<and> uxSchedulerSuspended k' = uxSchedulerSuspended k \<and> (cTxLock q \<noteq> - 1 \<longrightarrow> counted q \<longrightarrow> counted q')
     \<and> (\<forall>t. container k (EventItem t) = None \<longrightarrow> container k' (EventItem t) = None)
     \<and> (\<forall>t p. container k (StateItem t) = Some (ReadyList p) \<longrightarrow> container k' (StateItem t) = Some (ReadyList p))
     \<and> (no_lost c e q k \<longrightarrow> no_lost c e q' k')"

lemma step_keeps_refl: "step_keeps c e q k q k"
  by (simp add: step_keeps_def)

lemma step_keeps_trans: "step_keeps c e q k q1 k1 \<Longrightarrow> step_keeps c e q1 k1 q2 k2 \<Longrightarrow> step_keeps c e q k q2 k2"
  by (simp add: step_keeps_def)

lemma no_lost_yield [simp]: "no_lost c e q (yield_if b k) = no_lost c e q k"
  by (simp add: no_lost_def)

lemma distinct_entries: "time_ok T k \<Longrightarrow> distinct (entries k l)"
  by (simp add: time_ok_def kernel_ok_def lists_ok_def)

lemma single_waiter: "distinct xs \<Longrightarrow> set xs \<subseteq> {x} \<Longrightarrow> tl xs = []"
  by (cases xs) (auto simp: subset_singleton_iff)

lemma system_ok_change:
  assumes "system_ok c e f T q k" and "value_queue q'" and "time_ok T k'" and "statics k' = statics k"
    and "xTasksWaitingToReceive q' = xTasksWaitingToReceive q" and "xTasksWaitingToSend q' = xTasksWaitingToSend q"
    and "lock_ok (cTxLock q') k" and "lock_ok (cRxLock q') k"
  shows "system_ok c e f T q' k'"
  using assms statics_eqD [OF assms(4)] by (simp add: system_ok_def lock_ok_def)

lemma isr_wake_receiver:
  assumes "system_ok c e f T q k" and "value_queue q1" and "same_queue q q1"
  shows "\<exists>sw q2 k2. (if cTxLock q = - 1 then do { (sw, k) \<leftarrow> wake_first (xTasksWaitingToReceive q1) k; Some (True, sw, q1, k) }
      else do { q \<leftarrow> prvIncrementQueueTxLock q1 k; Some (True, False, q, k) }) = Some (True, sw, q2, k2)
    \<and> system_ok c e f T q2 k2 \<and> queue_items q2 = queue_items q1 \<and> step_keeps c e q k q2 k2"
proof -
  note same = assms(3) [unfolded same_queue_def]
  note sys = assms(1) [unfolded system_ok_def]
  show ?thesis
  proof (cases "cTxLock q = - 1")
    case True
    obtain sw k2 where k2: "wake_first (EventList e) k = Some (sw, k2)" "time_ok T k2" "statics k2 = statics k"
      "entries k2 (EventList e) = tl (entries k (EventList e))"
      "\<forall>t p. container k (StateItem t) = Some (ReadyList p) \<longrightarrow> container k2 (StateItem t) = Some (ReadyList p)"
      "\<forall>t. container k (EventItem t) = None \<longrightarrow> container k2 (EventItem t) = None"
      using wake_first_effect [of T k e] sys by blast
    note sts = statics_eqD [OF k2(3)]
    have "no_lost c e q k \<longrightarrow> no_lost c e q1 k2"
      using single_waiter [OF distinct_entries, of T k "EventList e"] sys k2(4) by (auto simp: no_lost_def)
    then have "step_keeps c e q k q1 k2" using True k2 same sts by (simp add: step_keeps_def)
    moreover have "system_ok c e f T q1 k2"
      by (rule system_ok_change [OF assms(1,2) k2(2,3)]) (use sys same in simp_all)
    ultimately show ?thesis
      using True k2(1) sys same by (intro exI [of _ sw] exI [of _ q1] exI [of _ k2]) simp
  next
    case False
    have "lock_ok (cTxLock q1) k" "uxCurrentNumberOfTasks k \<le> 127" "cTxLock q1 \<noteq> - 1"
      using sys same False by auto
    from increment_tx [OF this] obtain l where l: "prvIncrementQueueTxLock q1 k = Some (q1\<lparr>cTxLock := l\<rparr>)" "lock_ok l k" "1 \<le> l"
      by (auto simp: sys)
    have "step_keeps c e q k (q1\<lparr>cTxLock := l\<rparr>) k" using l(3) False same by (simp add: step_keeps_def no_lost_def counted_def)
    moreover have "system_ok c e f T (q1\<lparr>cTxLock := l\<rparr>) k"
      by (rule system_ok_change [OF assms(1)]) (use sys same assms(2) l(2) in simp_all)
    moreover have "(if cTxLock q = - 1 then do { (sw, k) \<leftarrow> wake_first (xTasksWaitingToReceive q1) k; Some (True, sw, q1, k) }
      else do { q \<leftarrow> prvIncrementQueueTxLock q1 k; Some (True, False, q, k) }) = Some (True, False, q1\<lparr>cTxLock := l\<rparr>, k)"
      unfolding if_not_P [OF False] l(1) bind.bind_lunit ..
    moreover have "queue_items (q1\<lparr>cTxLock := l\<rparr>) = queue_items q1" by simp
    ultimately show ?thesis by blast
  qed
qed

lemma isr_wake_sender:
  assumes "system_ok c e f T q k" and "value_queue q1" and "same_queue q q1"
    and "counted q \<longrightarrow> counted q1"
  shows "\<exists>sw q2 k2. (if cRxLock q = - 1 then do { (sw, k) \<leftarrow> wake_first (xTasksWaitingToSend q1) k; Some (r, sw, q1, k) }
      else do { q \<leftarrow> prvIncrementQueueRxLock q1 k; Some (r, False, q, k) }) = Some (r, sw, q2, k2)
    \<and> system_ok c e f T q2 k2 \<and> queue_items q2 = queue_items q1 \<and> step_keeps c e q k q2 k2"
proof -
  note same = assms(3) [unfolded same_queue_def]
  note sys = assms(1) [unfolded system_ok_def]
  show ?thesis
  proof (cases "cRxLock q = - 1")
    case True
    obtain sw k2 where k2: "wake_first (EventList f) k = Some (sw, k2)" "time_ok T k2" "statics k2 = statics k"
      "\<forall>n. n \<noteq> f \<longrightarrow> entries k2 (EventList n) = entries k (EventList n)"
      "\<forall>t p. container k (StateItem t) = Some (ReadyList p) \<longrightarrow> container k2 (StateItem t) = Some (ReadyList p)"
      "\<forall>t. container k (EventItem t) = None \<longrightarrow> container k2 (EventItem t) = None"
      using wake_first_effect [of T k f] sys by blast
    note sts = statics_eqD [OF k2(3)]
    have "entries k2 (EventList e) = entries k (EventList e)" using k2(4) sys by auto
    then have "no_lost c e q k \<longrightarrow> no_lost c e q1 k2" using assms(4) by (simp add: no_lost_def)
    then have "step_keeps c e q k q1 k2" using assms(4) k2 same sts by (simp add: step_keeps_def)
    moreover have "system_ok c e f T q1 k2"
      by (rule system_ok_change [OF assms(1,2) k2(2,3)]) (use sys same in simp_all)
    ultimately show ?thesis
      using True k2(1) sys same by (intro exI [of _ sw] exI [of _ q1] exI [of _ k2]) simp
  next
    case False
    have "lock_ok (cRxLock q1) k" "uxCurrentNumberOfTasks k \<le> 127" "cRxLock q1 \<noteq> - 1"
      using sys same False by auto
    from increment_rx [OF this] obtain l where l: "prvIncrementQueueRxLock q1 k = Some (q1\<lparr>cRxLock := l\<rparr>)" "lock_ok l k"
      "l \<noteq> - 1" by blast
    have "step_keeps c e q k (q1\<lparr>cRxLock := l\<rparr>) k" using l(3) False same assms(4) by (auto simp: step_keeps_def no_lost_def counted_def)
    moreover have "system_ok c e f T (q1\<lparr>cRxLock := l\<rparr>) k"
      by (rule system_ok_change [OF assms(1)]) (use sys same assms(2) l(2) in simp_all)
    moreover have "(if cRxLock q = - 1 then do { (sw, k) \<leftarrow> wake_first (xTasksWaitingToSend q1) k; Some (r, sw, q1, k) }
      else do { q \<leftarrow> prvIncrementQueueRxLock q1 k; Some (r, False, q, k) }) = Some (r, False, q1\<lparr>cRxLock := l\<rparr>, k)"
      unfolding if_not_P [OF False] l(1) bind.bind_lunit ..
    moreover have "queue_items (q1\<lparr>cRxLock := l\<rparr>) = queue_items q1" by simp
    ultimately show ?thesis by blast
  qed
qed

section \<open>The effect of an interrupt\<close>

definition isr_items :: "nat \<Rightarrow> isr_op \<Rightarrow> u8 list list \<Rightarrow> u8 list list" where
  "isr_items n i xs =
     (case i of
        IsrSend x \<Rightarrow> if length xs < n then xs @ [x] else xs
      | IsrGive \<Rightarrow> if length xs < n then xs @ [[]] else xs
      | IsrReceive \<Rightarrow> tl xs
      | IsrTick \<Rightarrow> xs)"

definition isr_done :: "nat \<Rightarrow> nat \<Rightarrow> nat \<Rightarrow> nat \<Rightarrow> u8 list list \<Rightarrow> Queue_t \<Rightarrow> kernel \<Rightarrow> Queue_t \<Rightarrow> kernel \<Rightarrow> bool" where
  "isr_done c e f T xs q k q' k' \<longleftrightarrow> system_ok c e f T q' k' \<and> queue_items q' = xs \<and> step_keeps c e q k q' k'"

lemma system_ok_value: "system_ok c e f T q k \<Longrightarrow> value_queue q"
  by (simp add: system_ok_def)

lemma queue_bound: "value_queue q \<Longrightarrow> length (queue_items q) \<le> unat (uxLength q)"
  by (simp add: value_queue_def queue_ok_def Let_def)

lemma system_ok_yield [simp]: "system_ok c e f T q (yield_if b k) = system_ok c e f T q k"
  by (simp add: system_ok_def lock_ok_def)

lemma suspended_yield [simp]: "uxSchedulerSuspended (yield_if b k) = uxSchedulerSuspended k"
  by (simp add: yield_if_def portYIELD_def)

lemma isr_done_yield [simp]: "isr_done c e f T xs q k q' (yield_if b k') = isr_done c e f T xs q k q' k'"
  by (simp add: isr_done_def step_keeps_def)

lemma isr_done_nothing: "system_ok c e f T q k \<Longrightarrow> isr_done c e f T (queue_items q) q k q k"
  by (simp add: isr_done_def step_keeps_refl)

lemma isr_send_done:
  assumes "system_ok c e f T q k" and "length item = unat (uxItemSize q)"
  shows "\<exists>b sw q' k'. xQueueGenericSendFromISR item queueSEND_TO_BACK q k = Some (b, sw, q', k')
    \<and> isr_done c e f T (isr_items (unat (uxLength q)) (IsrSend item) (queue_items q)) q k q' k'
    \<and> (b \<longleftrightarrow> length (queue_items q) < unat (uxLength q))"
proof (cases "length (queue_items q) < unat (uxLength q)")
  case True
  obtain q1 where q1: "prvCopyDataToQueue item queueSEND_TO_BACK q k = Some (False, q1, k)" "value_queue q1"
    "queue_items q1 = queue_items q @ [item]" "same_queue q q1"
    using send_value [OF system_ok_value [OF assms(1)] assms(2) True, of k] by blast
  obtain sw q2 k2 where w: "(if cTxLock q = - 1
      then do { (sw, k) \<leftarrow> wake_first (xTasksWaitingToReceive q1) k; Some (True, sw, q1, k) }
      else do { q \<leftarrow> prvIncrementQueueTxLock q1 k; Some (True, False, q, k) }) = Some (True, sw, q2, k2)"
    "system_ok c e f T q2 k2" "queue_items q2 = queue_items q1" "step_keeps c e q k q2 k2"
    using isr_wake_receiver [OF assms(1) q1(2,4)] by blast
  have "uxMessagesWaiting q < uxLength q" using True by (simp add: word_less_nat_alt)
  then have "xQueueGenericSendFromISR item queueSEND_TO_BACK q k = Some (True, sw, q2, k2)"
    using w(1) by (simp add: xQueueGenericSendFromISR_def q1(1) Let_def)
  moreover have "isr_done c e f T (isr_items (unat (uxLength q)) (IsrSend item) (queue_items q)) q k q2 k2"
    using True w(2-4) q1(3) by (simp add: isr_done_def isr_items_def)
  ultimately show ?thesis using True by blast
next
  case False
  then have "xQueueGenericSendFromISR item queueSEND_TO_BACK q k = Some (False, False, q, k)"
    by (simp add: xQueueGenericSendFromISR_def word_less_nat_alt)
  then show ?thesis using False isr_done_nothing [OF assms(1)] by (auto simp: isr_items_def)
qed

lemma give_is_send:
  assumes "value_queue q" and "uxItemSize q = 0"
  shows "xQueueGiveFromISR q k = xQueueGenericSendFromISR [] queueSEND_TO_BACK q k"
  using assms by (simp add: xQueueGiveFromISR_def xQueueGenericSendFromISR_def prvCopyDataToQueue_def value_queue_def Let_def)

lemma isr_receive_done:
  assumes "system_ok c e f T q k"
  shows "\<exists>r sw q' k'. xQueueReceiveFromISR q k = Some (r, sw, q', k') \<and> isr_done c e f T (tl (queue_items q)) q k q' k'
    \<and> r = (if queue_items q = [] then None else Some (hd (queue_items q)))"
proof (cases "uxMessagesWaiting q = 0")
  case True
  then have e: "queue_items q = []" by (simp add: queue_items_def)
  have "xQueueReceiveFromISR q k = Some (None, False, q, k)" using True by (simp add: xQueueReceiveFromISR_def)
  then show ?thesis using e isr_done_nothing [OF assms] by auto
next
  case False
  then have ne: "queue_items q \<noteq> []" by (metis length_0_conv length_queue_items unat_eq_zero)
  obtain q0 where q0: "prvCopyDataFromQueue q = Some (hd (queue_items q), q0)" "uxMessagesWaiting q0 = uxMessagesWaiting q"
    "same_queue q q0" "value_queue (q0\<lparr>uxMessagesWaiting := uxMessagesWaiting q - 1\<rparr>)"
    "queue_items (q0\<lparr>uxMessagesWaiting := uxMessagesWaiting q - 1\<rparr>) = tl (queue_items q)"
    using receive_value [OF system_ok_value [OF assms] False] by blast
  let ?q = "q0\<lparr>uxMessagesWaiting := uxMessagesWaiting q - 1\<rparr>"
  have same: "same_queue q ?q" using q0(3) by (simp add: same_queue_def)
  have "counted q \<longrightarrow> counted ?q" using False same by (simp add: counted_def same_queue_def)
  from isr_wake_sender [OF assms q0(4) same this, of "Some (hd (queue_items q))"] obtain sw q2 k2 where
    w: "(if cRxLock q = - 1
      then do { (sw, k) \<leftarrow> wake_first (xTasksWaitingToSend ?q) k; Some (Some (hd (queue_items q)), sw, ?q, k) }
      else do { q' \<leftarrow> prvIncrementQueueRxLock ?q k; Some (Some (hd (queue_items q)), False, q', k) })
      = Some (Some (hd (queue_items q)), sw, q2, k2)"
    "system_ok c e f T q2 k2" "queue_items q2 = queue_items ?q" "step_keeps c e q k q2 k2"
    by blast
  have "0 < uxMessagesWaiting q" using False by (simp add: word_neq_0_conv)
  then have "xQueueReceiveFromISR q k = Some (Some (hd (queue_items q)), sw, q2, k2)"
    using w(1) by (simp only: xQueueReceiveFromISR_def q0(1,2) Let_def bind.bind_lunit if_True prod.case)
  moreover have "isr_done c e f T (tl (queue_items q)) q k q2 k2"
    using w(2-4) q0(5) by (simp add: isr_done_def)
  ultimately show ?thesis using ne by auto
qed

lemma event_entries_subset:
  assumes "time_ok T k" and "time_ok T' k'"
    and "\<And>t. container k' (EventItem t) = Some (EventList e) \<Longrightarrow> container k (EventItem t) = Some (EventList e)"
  shows "set (entries k' (EventList e)) \<subseteq> set (entries k (EventList e))"
proof
  fix it assume "it \<in> set (entries k' (EventList e))"
  have ok: "kernel_ok k" "kernel_ok k'" using assms(1,2) by (simp_all add: time_ok_def)
  have c: "container k' it = Some (EventList e)"
    using lists_ok_container [OF kernel_ok_lists [OF ok(2)]] \<open>it \<in> _\<close> by blast
  then obtain t where "it = EventItem t" using kernel_ok_fits [OF ok(2) c] by (cases it) auto
  then have "container k it = Some (EventList e)" using c assms(3) by simp
  then show "it \<in> set (entries k (EventList e))" using lists_ok_container [OF kernel_ok_lists [OF ok(1)]] by blast
qed

text \<open>A tick only takes tasks out of event lists, and pends while the scheduler is suspended.\<close>

lemma tick_done:
  assumes "system_ok c e f T q k"
  shows "\<exists>sw k' T'. xTaskIncrementTick k = Some (sw, k') \<and> T \<le> T' \<and> isr_done c e f T' (queue_items q) q k q k'"
proof (cases "uxSchedulerSuspended k = 0")
  case True
  note sys = assms [unfolded system_ok_def]
  have t: "time_ok T k" using sys by simp
  obtain sw k' where k': "xTaskIncrementTick k = Some (sw, k')" "time_ok (Suc T) k'"
    "\<forall>t. due T k t = Some (Suc T) \<longrightarrow> container k' (EventItem t) = None"
    "\<forall>t. due T k t \<noteq> Some (Suc T) \<longrightarrow> container k' (EventItem t) = container k (EventItem t)
        \<and> container k' (StateItem t) = container k (StateItem t)"
    "uxSchedulerSuspended k' = 0" "pxCurrentTCB k' = pxCurrentTCB k" "uxCurrentNumberOfTasks k' = uxCurrentNumberOfTasks k"
    using tick_effect [OF t True] by auto
  have ev: "container k' (EventItem t) = None \<or> container k' (EventItem t) = container k (EventItem t)" for t
    using k'(3,4) by blast
  have ok: "kernel_ok k" using t by (simp add: time_ok_def)
  have sub: "set (entries k' (EventList e)) \<subseteq> set (entries k (EventList e))"
    by (rule event_entries_subset [OF t k'(2)]) (use ev in \<open>metis option.distinct(1)\<close>)
  have "due T k t \<noteq> Some (Suc T)" if "container k (StateItem t) = Some (ReadyList p)" for t p
    using that delayed_not_ready [OF ok, symmetric] by (auto simp: due_def)
  then have "step_keeps c e q k q k'"
    using sub k'(4,5) True ev by (fastforce simp: step_keeps_def no_lost_def)
  moreover have "system_ok c e f (Suc T) q k'"
    using sys k'(2,6,7) by (simp add: system_ok_def lock_ok_def)
  ultimately show ?thesis using k'(1) by (auto simp: isr_done_def intro: exI [of _ "Suc T"])
next
  case False
  let ?k = "k\<lparr>xPendedTicks := xPendedTicks k + 1\<rparr>"
  have "time_ok T ?k = time_ok T k" by (simp add: time_ok_def waiting_ok_def delays_ok_def by_value_def)
  then have "isr_done c e f T (queue_items q) q k q ?k"
    using assms by (simp add: isr_done_def system_ok_def lock_ok_def step_keeps_def no_lost_def)
  then show ?thesis using False by (auto simp: xTaskIncrementTick_def)
qed

lemma isr_step:
  assumes "system_ok c e f T q k" and "isr_fits q i"
  shows "\<exists>q' k' T'. isr_exec i q k = Some (q', k') \<and> T \<le> T'
    \<and> isr_done c e f T' (isr_items (unat (uxLength q)) i (queue_items q)) q k q' k'"
proof (cases i)
  case (IsrSend item)
  then obtain b sw q' k' where "xQueueGenericSendFromISR item queueSEND_TO_BACK q k = Some (b, sw, q', k')"
    "isr_done c e f T (isr_items (unat (uxLength q)) i (queue_items q)) q k q' k'"
    using isr_send_done [OF assms(1), of item] assms(2) by (auto simp: isr_fits_def)
  then show ?thesis
    using IsrSend by (intro exI [of _ q'] exI [of _ "yield_if sw k'"] exI [of _ T]) (simp add: isr_exec_def)
next
  case IsrGive
  then have z: "uxItemSize q = 0" using assms(2) by (simp add: isr_fits_def)
  then obtain b sw q' k' where "xQueueGenericSendFromISR [] queueSEND_TO_BACK q k = Some (b, sw, q', k')"
    "isr_done c e f T (isr_items (unat (uxLength q)) (IsrSend []) (queue_items q)) q k q' k'"
    using isr_send_done [OF assms(1), of "[]"] by auto
  then show ?thesis
    using IsrGive give_is_send [OF system_ok_value [OF assms(1)] z]
    by (intro exI [of _ q'] exI [of _ "yield_if sw k'"] exI [of _ T]) (simp add: isr_exec_def isr_items_def)
next
  case IsrReceive
  obtain r sw q' k' where "xQueueReceiveFromISR q k = Some (r, sw, q', k')" "isr_done c e f T (tl (queue_items q)) q k q' k'"
    using isr_receive_done [OF assms(1)] by blast
  then show ?thesis
    using IsrReceive by (intro exI [of _ q'] exI [of _ "yield_if sw k'"] exI [of _ T]) (simp add: isr_exec_def isr_items_def)
next
  case IsrTick
  obtain sw k' T' where "xTaskIncrementTick k = Some (sw, k')" "T \<le> T'" "isr_done c e f T' (queue_items q) q k q k'"
    using tick_done [OF assms(1)] by blast
  then show ?thesis
    using IsrTick by (intro exI [of _ q] exI [of _ "yield_if sw k'"] exI [of _ T']) (simp add: isr_exec_def isr_items_def)
qed

lemma isr_steps:
  assumes "system_ok c e f T q k" and "list_all (isr_fits q) is"
  shows "\<exists>q' k' T'. isr_execs is q k = Some (q', k') \<and> T \<le> T'
    \<and> isr_done c e f T' (fold (isr_items (unat (uxLength q))) is (queue_items q)) q k q' k'"
  using assms
proof (induction "is" arbitrary: q k T)
  case Nil
  then show ?case using isr_done_nothing [of c e f T q k] by auto
next
  case (Cons i "is")
  then obtain q1 k1 T1 where s: "isr_exec i q k = Some (q1, k1)" "T \<le> T1"
    "isr_done c e f T1 (isr_items (unat (uxLength q)) i (queue_items q)) q k q1 k1"
    using isr_step [of c e f T q k i] by auto
  then have k: "system_ok c e f T1 q1 k1" "queue_items q1 = isr_items (unat (uxLength q)) i (queue_items q)"
    "step_keeps c e q k q1 k1" by (auto simp: isr_done_def)
  then have "isr_fits q1 = isr_fits q" "uxLength q1 = uxLength q"
    by (auto simp: step_keeps_def isr_fits_def fun_eq_iff split: isr_op.split)
  with Cons.IH [OF k(1)] Cons.prems(2) k(2) obtain q' k' T' where "isr_execs is q1 k1 = Some (q', k')" "T1 \<le> T'"
    "isr_done c e f T' (fold (isr_items (unat (uxLength q))) is (isr_items (unat (uxLength q)) i (queue_items q))) q1 k1 q' k'"
    by auto
  moreover from this(3) have "isr_done c e f T'
      (fold (isr_items (unat (uxLength q))) is (isr_items (unat (uxLength q)) i (queue_items q))) q k q' k'"
    using step_keeps_trans [OF k(3)] by (simp add: isr_done_def)
  ultimately show ?case using s(1,2) by (auto intro: exI [of _ T'])
qed

end
