(* ===== verification/Rtos_Queue_Wait.thy ===== *)
theory Rtos_Queue_Wait
  imports Rtos_Queue_Safe
begin

text \<open>
  A task that may block on a queue, with interrupts at every point where they are enabled: the
  sections of a pass keep the invariants of \<open>Rtos_Queue_Safe\<close>, no pass fails, and the task is
  never left waiting while the queue holds an item.
\<close>

section \<open>The sections of a pass\<close>

text \<open>What all steps keep of a running task \<open>c\<close>.\<close>

definition running :: "nat \<Rightarrow> kernel \<Rightarrow> bool" where
  "running c k \<longleftrightarrow> (\<exists>p. container k (StateItem c) = Some (ReadyList p)) \<and> container k (EventItem c) = None"

definition unlocked :: "Queue_t \<Rightarrow> bool" where
  "unlocked q \<longleftrightarrow> cTxLock q = - 1 \<and> cRxLock q = - 1"

definition all_fit :: "(nat \<Rightarrow> isr_op list) \<Rightarrow> Queue_t \<Rightarrow> bool" where
  "all_fit env q \<longleftrightarrow> (\<forall>n. list_all (isr_fits q) (env n))"

lemma all_fit_size: "uxItemSize q' = uxItemSize q \<Longrightarrow> all_fit env q' = all_fit env q"
  by (simp add: all_fit_def isr_fits_def list_all_iff split: isr_op.split)

lemma env_step:
  assumes "system_ok c e f T q k" and "all_fit env q"
  shows "\<exists>q' k' T'. isr_execs (env n) q k = Some (q', k') \<and> system_ok c e f T' q' k' \<and> step_keeps c e q k q' k'
    \<and> all_fit env q' \<and> queue_items q' = fold (isr_items (unat (uxLength q))) (env n) (queue_items q)
    \<and> T \<le> T'"
proof -
  obtain q' k' T' where "isr_execs (env n) q k = Some (q', k')" "T \<le> T'"
    "isr_done c e f T' (fold (isr_items (unat (uxLength q))) (env n) (queue_items q)) q k q' k'"
    using isr_steps [OF assms(1), of "env n"] assms(2) by (auto simp: all_fit_def)
  moreover from this(3) have "all_fit env q' = all_fit env q"
    by (intro all_fit_size) (simp add: isr_done_def step_keeps_def)
  ultimately show ?thesis using assms(2) by (auto simp: isr_done_def)
qed

lemma running_step: "step_keeps c e q k q' k' \<Longrightarrow> running c k \<Longrightarrow> running c k'"
  by (auto simp: step_keeps_def running_def)

lemma wake_counted_effect:
  "time_ok T k \<Longrightarrow> \<exists>k'. wake_counted (EventList e) n k = Some k' \<and> time_ok T k' \<and> statics k' = statics k
    \<and> entries k' (EventList e) = drop n (entries k (EventList e))
    \<and> (\<forall>m. m \<noteq> e \<longrightarrow> entries k' (EventList m) = entries k (EventList m))
    \<and> (running c k \<longrightarrow> running c k')"
proof (induction n arbitrary: k)
  case 0
  then show ?case by simp
next
  case (Suc n)
  show ?case
  proof (cases "entries k (EventList e) = []")
    case True
    then show ?thesis using Suc.prems by (simp add: list_is_empty_def)
  next
    case False
    obtain sw k1 where w: "wake_first (EventList e) k = Some (sw, k1)" "time_ok T k1" "statics k1 = statics k"
      "entries k1 (EventList e) = tl (entries k (EventList e))"
      "\<forall>m. m \<noteq> e \<longrightarrow> entries k1 (EventList m) = entries k (EventList m)"
      "\<forall>t p. container k (StateItem t) = Some (ReadyList p) \<longrightarrow> container k1 (StateItem t) = Some (ReadyList p)"
      "\<forall>t. container k (EventItem t) = None \<longrightarrow> container k1 (EventItem t) = None"
      "wake_first (EventList e) k = xTaskRemoveFromEventList (EventList e) k"
      using wake_first_effect [OF Suc.prems, of e] False by blast
    define k2 where "k2 = (if sw then vTaskMissedYield k1 else k1)"
    have k2: "time_ok T k2" "statics k2 = statics k1" "entries k2 l = entries k1 l" "container k2 = container k1" for l
      using w(2) by (simp_all add: k2_def vTaskMissedYield_def statics_def)
    obtain k' where k': "wake_counted (EventList e) n k2 = Some k'" "time_ok T k'" "statics k' = statics k2"
      "entries k' (EventList e) = drop n (entries k2 (EventList e))"
      "\<forall>m. m \<noteq> e \<longrightarrow> entries k' (EventList m) = entries k2 (EventList m)" "running c k2 \<longrightarrow> running c k'"
      using Suc.IH [OF k2(1)] by blast
    have "wake_counted (EventList e) (Suc n) k = Some k'"
      using False w(1,8) k'(1) by (simp add: list_is_empty_def k2_def)
    moreover have "running c k \<longrightarrow> running c k2" using w(6,7) k2(4) by (auto simp: running_def)
    ultimately show ?thesis using k' k2 w(3-5) by (simp add: drop_Suc)
  qed
qed

lemma lock_keeps:
  assumes "system_ok c e f T q k"
  shows "system_ok c e f T (prvLockQueue q) k" "cTxLock (prvLockQueue q) \<noteq> - 1" "cRxLock (prvLockQueue q) \<noteq> - 1"
    "uxItemSize (prvLockQueue q) = uxItemSize q" "uxMessagesWaiting (prvLockQueue q) = uxMessagesWaiting q"
    "queue_items (prvLockQueue q) = queue_items q" "uxLength (prvLockQueue q) = uxLength q"
  using assms by (auto simp: prvLockQueue_def system_ok_def lock_ok_def Let_def)

lemma unlock_tx_keeps:
  assumes "system_ok c e f T q k" and "no_lost c e q k" and "cTxLock q \<noteq> - 1" 
  shows "\<exists>k'. unlock_tx q k = Some (q\<lparr>cTxLock := - 1\<rparr>, k') \<and> system_ok c e f T (q\<lparr>cTxLock := - 1\<rparr>) k'
    \<and> no_lost c e (q\<lparr>cTxLock := - 1\<rparr>) k' \<and> uxSchedulerSuspended k' = uxSchedulerSuspended k"
proof -
  have t: "time_ok T k" using assms(1) by (simp add: system_ok_def)
  obtain k' where k': "wake_counted (EventList e) (nat (cTxLock q)) k = Some k'" "time_ok T k'" "statics k' = statics k"
    "entries k' (EventList e) = drop (nat (cTxLock q)) (entries k (EventList e))"
    using wake_counted_effect [OF t] by blast
  have "xTasksWaitingToReceive q = EventList e" using assms(1) by (simp add: system_ok_def)
  then have "unlock_tx q k = Some (q\<lparr>cTxLock := - 1\<rparr>, k')" using k'(1) by (simp add: unlock_tx_def)
  moreover have "system_ok c e f T (q\<lparr>cTxLock := - 1\<rparr>) k'"
    by (rule system_ok_change [OF assms(1) _ k'(2,3)]) (use assms(1) in \<open>simp_all add: system_ok_def lock_ok_def\<close>)
  moreover have "no_lost c e (q\<lparr>cTxLock := - 1\<rparr>) k'"
  proof (cases "1 \<le> cTxLock q")
    case True
    then obtain m where "nat (cTxLock q) = Suc m" by (cases "nat (cTxLock q)") simp_all
    have "tl (entries k (EventList e)) = []"
      by (rule single_waiter [OF distinct_entries [OF t]]) (use assms(2) in \<open>auto simp: no_lost_def\<close>)
    then have "entries k' (EventList e) = []"
      using k'(4) \<open>nat (cTxLock q) = Suc m\<close> by (simp add: drop_Suc)
    then show ?thesis by (simp add: no_lost_def)
  next
    case False
    then show ?thesis using k'(4) assms(2) set_drop_subset
      by (auto simp: no_lost_def counted_def)
  qed
  moreover have "uxSchedulerSuspended k' = uxSchedulerSuspended k" using statics_eqD [OF k'(3)] by simp
  ultimately show ?thesis by blast
qed

lemma unlock_rx_keeps:
  assumes "system_ok c e f T q k" and "no_lost c e q k"
  shows "\<exists>k'. unlock_rx q k = Some (q\<lparr>cRxLock := - 1\<rparr>, k') \<and> system_ok c e f T (q\<lparr>cRxLock := - 1\<rparr>) k'
    \<and> no_lost c e (q\<lparr>cRxLock := - 1\<rparr>) k' \<and> uxSchedulerSuspended k' = uxSchedulerSuspended k"
proof -
  have t: "time_ok T k" and ef: "e \<noteq> f" using assms(1) by (simp_all add: system_ok_def)
  obtain k' where k': "wake_counted (EventList f) (nat (cRxLock q)) k = Some k'" "time_ok T k'" "statics k' = statics k"
    "\<forall>m. m \<noteq> f \<longrightarrow> entries k' (EventList m) = entries k (EventList m)"
    using wake_counted_effect [OF t] by blast
  have "xTasksWaitingToSend q = EventList f" using assms(1) by (simp add: system_ok_def)
  then have "unlock_rx q k = Some (q\<lparr>cRxLock := - 1\<rparr>, k')" using k'(1) by (simp add: unlock_rx_def)
  moreover have "system_ok c e f T (q\<lparr>cRxLock := - 1\<rparr>) k'"
    by (rule system_ok_change [OF assms(1) _ k'(2,3)]) (use assms(1) in \<open>simp_all add: system_ok_def lock_ok_def\<close>)
  moreover have "no_lost c e (q\<lparr>cRxLock := - 1\<rparr>) k'"
    using assms(2) k'(4) ef by (simp add: no_lost_def counted_def)
  moreover have "uxSchedulerSuspended k' = uxSchedulerSuspended k" using statics_eqD [OF k'(3)] by simp
  ultimately show ?thesis by blast
qed

lemma place_keeps:
  assumes "system_ok c e f T q k" and "running c k" and "0 < ticks" and "entries k (EventList e) = []" and "counted q"
  shows "\<exists>k'. vTaskPlaceOnEventList (EventList e) ticks k = Some k' \<and> system_ok c e f T q k' \<and> no_lost c e q k'
    \<and> uxSchedulerSuspended k' = uxSchedulerSuspended k \<and> container k' (EventItem c) = Some (EventList e)"
proof -
  note sys = assms(1) [unfolded system_ok_def]
  have t: "time_ok T k" and cur: "pxCurrentTCB k = c" using sys by simp_all
  obtain p where r: "container k (StateItem (pxCurrentTCB k)) = Some (ReadyList p)" "container k (EventItem (pxCurrentTCB k)) = None"
    using assms(2) cur by (auto simp: running_def)
  let ?k = "list_insert (EventList e) (EventItem (pxCurrentTCB k)) k"
  obtain k1 where k1: "vTaskPlaceOnEventList (EventList e) ticks k = Some k1"
    "blocked_until T (if ticks = portMAX_DELAY then None else Some (unat ticks)) ?k k1"
    using place_effect [OF t r assms(3)] by blast
  have b: "time_ok T k1" "uxSchedulerSuspended k1 = uxSchedulerSuspended k" "pxCurrentTCB k1 = pxCurrentTCB k"
    "uxCurrentNumberOfTasks k1 = uxCurrentNumberOfTasks k" "entries k1 (EventList e) = entries ?k (EventList e)"
    "container k1 (EventItem c) = container ?k (EventItem c)"
    using k1(2) by (auto simp: blocked_until_def)
  have "entries k1 (EventList e) = [EventItem c]"
    using b(5) assms(4) cur by (simp add: xl_insert_def xl_split_def split: if_splits)
  then have "no_lost c e q k1" using assms(5) by (simp add: no_lost_def)
  moreover have "system_ok c e f T q k1" using sys b by (simp add: system_ok_def lock_ok_def)
  ultimately show ?thesis using k1(1) b(2,6) cur by auto
qed

lemma resume_keeps:
  assumes "system_ok c e f T q k" and "no_lost c e q k" and "uxSchedulerSuspended k = 1"
  shows "\<exists>y k' T'. xTaskResumeAll k = Some (y, k') \<and> system_ok c e f T' q k' \<and> no_lost c e q k'
    \<and> uxSchedulerSuspended k' = 0 \<and> T \<le> T'"
proof -
  note sys = assms(1) [unfolded system_ok_def]
  have t: "time_ok T k" and n: "0 < uxCurrentNumberOfTasks k" using sys by simp_all
  obtain y k' where k': "xTaskResumeAll k = Some (y, k')" "uxSchedulerSuspended k' = 0"
    "time_ok (T + unat (xPendedTicks k)) k'" "\<forall>t l. container k' (EventItem t) = Some l \<longrightarrow> container k (EventItem t) = Some l"
    "pxCurrentTCB k' = pxCurrentTCB k" "uxCurrentNumberOfTasks k' = uxCurrentNumberOfTasks k"
    using resume_effect [OF t assms(3) n] by blast
  have sub: "set (entries k' (EventList e)) \<subseteq> set (entries k (EventList e))"
    using event_entries_subset [OF t k'(3)] k'(4) by blast
  then have "no_lost c e q k'" using assms(2) by (fastforce simp: no_lost_def)
  moreover have "system_ok c e f (T + unat (xPendedTicks k)) q k'" using sys k'(3,5,6) by (simp add: system_ok_def lock_ok_def)
  ultimately show ?thesis using k'(1,2) le_add1 by blast
qed

section \<open>A pass\<close>

text \<open>The invariant at every point of a pass of task \<open>c\<close>, the only one that waits to receive.\<close>

definition shared :: "nat \<Rightarrow> nat \<Rightarrow> nat \<Rightarrow> (nat \<Rightarrow> isr_op list) \<Rightarrow> Queue_t \<Rightarrow> kernel \<Rightarrow> bool" where
  "shared c e f env q k \<longleftrightarrow> (\<exists>T. system_ok c e f T q k) \<and> all_fit env q \<and> no_lost c e q k"

lemma shared_step:
  assumes "shared c e f env q k"
  shows "\<exists>q' k'. isr_execs (env n) q k = Some (q', k') \<and> shared c e f env q' k' \<and> step_keeps c e q k q' k'
    \<and> queue_items q' = fold (isr_items (unat (uxLength q))) (env n) (queue_items q)"
proof -
  obtain T where "system_ok c e f T q k" "all_fit env q" using assms by (auto simp: shared_def)
  from env_step [OF this, of n] show ?thesis
    using assms by (auto simp: shared_def step_keeps_def)
qed

lemma shared_not_waiting: "shared c e f env q k \<Longrightarrow> running c k \<Longrightarrow> entries k (EventList e) = []"
proof -
  assume sh: "shared c e f env q k" and r: "running c k"
  then have "EventItem c \<notin> set (entries k (EventList e))"
    using lists_ok_container [OF kernel_ok_lists, of k "EventItem c" "EventList e"]
    by (auto simp: shared_def system_ok_def time_ok_def running_def)
  moreover have "set (entries k (EventList e)) \<subseteq> {EventItem c}" using sh by (simp add: shared_def no_lost_def)
  ultimately show ?thesis by (cases "entries k (EventList e)") auto
qed

lemma suspend_shared:
  "shared c e f env q k \<Longrightarrow> shared c e f env q (vTaskSuspendAll k)"
  "running c k \<Longrightarrow> running c (vTaskSuspendAll k)"
  "uxSchedulerSuspended (vTaskSuspendAll k) = uxSchedulerSuspended k + 1"
  by (auto simp: shared_def system_ok_def no_lost_def vTaskSuspendAll_def lock_ok_def time_ok_def waiting_ok_def
      delays_ok_def by_value_def running_def)

lemma lock_shared:
  assumes "shared c e f env q k" and "cTxLock q = - 1"
  shows "shared c e f env (prvLockQueue q) k"
proof -
  have "counted q \<Longrightarrow> counted (prvLockQueue q)"
    using assms(2) by (auto simp: counted_def prvLockQueue_def)
  then show ?thesis
    using assms lock_keeps(1,4) [of c e f _ q k] all_fit_size [of "prvLockQueue q" q env] by (auto simp: shared_def no_lost_def)
qed

text \<open>The end of a pass, which unlocks the queue and resumes the scheduler.\<close>

lemma end_of_pass:
  assumes "shared c e f env q k" and "cTxLock q \<noteq> - 1" and "uxSchedulerSuspended k = 1"
  shows "\<exists>q1 k1 q2 k2 q3 k3 q4 k4 q5 k5 y k6. isr_execs (env 6) q k = Some (q1, k1) \<and> unlock_tx q1 k1 = Some (q2, k2)
    \<and> isr_execs (env 7) q2 k2 = Some (q3, k3) \<and> unlock_rx q3 k3 = Some (q4, k4)
    \<and> isr_execs (env 8) q4 k4 = Some (q5, k5) \<and> xTaskResumeAll k5 = Some (y, k6)
    \<and> shared c e f env q5 k6 \<and> unlocked q5 \<and> uxSchedulerSuspended k6 = 0 \<and> uxLength q5 = uxLength q
    \<and> queue_items q5 = fold (isr_items (unat (uxLength q))) (env 6 @ env 7 @ env 8) (queue_items q)"
proof -
  obtain q1 k1 where 1: "isr_execs (env 6) q k = Some (q1, k1)" "shared c e f env q1 k1" "step_keeps c e q k q1 k1"
    "queue_items q1 = fold (isr_items (unat (uxLength q))) (env 6) (queue_items q)" using shared_step [OF assms(1)] by blast
  have tx: "cTxLock q1 \<noteq> - 1" and l1: "uxLength q1 = uxLength q" "uxSchedulerSuspended k1 = 1"
    using 1(3) assms(2,3) by (simp_all add: step_keeps_def)
  obtain T1 where "system_ok c e f T1 q1 k1" "no_lost c e q1 k1" using 1(2) by (auto simp: shared_def)
  from unlock_tx_keeps [OF this tx] obtain k2 where 2: "unlock_tx q1 k1 = Some (q1\<lparr>cTxLock := - 1\<rparr>, k2)"
    "system_ok c e f T1 (q1\<lparr>cTxLock := - 1\<rparr>) k2" "no_lost c e (q1\<lparr>cTxLock := - 1\<rparr>) k2"
    "uxSchedulerSuspended k2 = uxSchedulerSuspended k1" by blast
  let ?q2 = "q1\<lparr>cTxLock := - 1\<rparr>"
  have s2: "shared c e f env ?q2 k2"
    using 2 1(2) all_fit_size [of ?q2 q1 env] by (auto simp: shared_def)
  obtain q3 k3 where 3: "isr_execs (env 7) ?q2 k2 = Some (q3, k3)" "shared c e f env q3 k3" "step_keeps c e ?q2 k2 q3 k3"
    "queue_items q3 = fold (isr_items (unat (uxLength ?q2))) (env 7) (queue_items ?q2)" using shared_step [OF s2] by blast
  obtain T3 where "system_ok c e f T3 q3 k3" "no_lost c e q3 k3" using 3(2) by (auto simp: shared_def)
  from unlock_rx_keeps [OF this] obtain k4 where 4: "unlock_rx q3 k3 = Some (q3\<lparr>cRxLock := - 1\<rparr>, k4)"
    "system_ok c e f T3 (q3\<lparr>cRxLock := - 1\<rparr>) k4" "no_lost c e (q3\<lparr>cRxLock := - 1\<rparr>) k4"
    "uxSchedulerSuspended k4 = uxSchedulerSuspended k3" by blast
  let ?q4 = "q3\<lparr>cRxLock := - 1\<rparr>"
  have s4: "shared c e f env ?q4 k4"
    using 4 3(2) all_fit_size [of ?q4 q3 env] by (auto simp: shared_def)
  obtain q5 k5 where 5: "isr_execs (env 8) ?q4 k4 = Some (q5, k5)" "shared c e f env q5 k5" "step_keeps c e ?q4 k4 q5 k5"
    "queue_items q5 = fold (isr_items (unat (uxLength ?q4))) (env 8) (queue_items ?q4)" using shared_step [OF s4] by blast
  obtain T5 where t5: "system_ok c e f T5 q5 k5" "no_lost c e q5 k5" using 5(2) by (auto simp: shared_def)
  have "uxSchedulerSuspended k5 = 1" using l1 2(4) 3(3) 4(4) 5(3) by (simp add: step_keeps_def)
  from resume_keeps [OF t5 this] obtain y k6 T6 where 6: "xTaskResumeAll k5 = Some (y, k6)" "system_ok c e f T6 q5 k6"
    "no_lost c e q5 k6" "uxSchedulerSuspended k6 = 0" by blast
  have "shared c e f env q5 k6" using 5(2) 6(2,3) by (auto simp: shared_def)
  moreover have "unlocked q5" using 3(3) 5(3) by (simp add: unlocked_def step_keeps_def)
  moreover have l: "uxLength q3 = uxLength q" "uxLength q5 = uxLength q" using l1 3(3) 5(3) by (simp_all add: step_keeps_def)
  moreover have "queue_items q5 = fold (isr_items (unat (uxLength q))) (env 6 @ env 7 @ env 8) (queue_items q)"
    using 1(4) 3(4) 5(4) l l1 by simp
  ultimately show ?thesis using 1(1) 2(1) 3(1) 4(1) 5(1) 6(1,4) by blast
qed

lemma time_left:
  assumes "xTaskCheckForTimeOut to ticks k = (False, to', ticks')" and "0 < ticks"
  shows "0 < ticks'"
proof -
  have "0 < ticks - d" if "d < ticks" for d :: tick
    using that by (simp add: word_greater_zero_iff)
  then show ?thesis using assms by (auto simp: xTaskCheckForTimeOut_def Let_def split: if_splits)
qed

text \<open>The start of a pass, up to the decision to wait.\<close>

lemma start_of_pass:
  assumes "shared c e f env q k" and "unlocked q" and "uxSchedulerSuspended k = 0" and "running c k"
  shows "\<exists>q1 k1 q2 k2 q3 k3. isr_execs (env 1) q (vTaskSuspendAll k) = Some (q1, k1)
    \<and> isr_execs (env 2) (prvLockQueue q1) k1 = Some (q2, k2) \<and> isr_execs (env 3) q2 k2 = Some (q3, k3)
    \<and> shared c e f env q3 k3 \<and> cTxLock q3 \<noteq> - 1 \<and> uxSchedulerSuspended k3 = 1 \<and> running c k3 \<and> uxLength q3 = uxLength q
    \<and> queue_items q3 = fold (isr_items (unat (uxLength q))) (env 1 @ env 2 @ env 3) (queue_items q)"
proof -
  let ?k = "vTaskSuspendAll k"
  obtain q1 k1 where 1: "isr_execs (env 1) q ?k = Some (q1, k1)" "shared c e f env q1 k1" "step_keeps c e q ?k q1 k1"
    "queue_items q1 = fold (isr_items (unat (uxLength q))) (env 1) (queue_items q)"
    using shared_step [OF suspend_shared(1) [OF assms(1)]] by blast
  let ?q1 = "prvLockQueue q1"
  have tx: "cTxLock q1 = - 1" "uxLength q1 = uxLength q" using 1(3) assms(2) by (simp_all add: step_keeps_def unlocked_def)
  have s1: "shared c e f env ?q1 k1" by (rule lock_shared [OF 1(2) tx(1)])
  obtain T where "system_ok c e f T q1 k1" using 1(2) by (auto simp: shared_def)
  note l = lock_keeps [OF this]
  obtain q2 k2 where 2: "isr_execs (env 2) ?q1 k1 = Some (q2, k2)" "shared c e f env q2 k2" "step_keeps c e ?q1 k1 q2 k2"
    "queue_items q2 = fold (isr_items (unat (uxLength ?q1))) (env 2) (queue_items ?q1)" using shared_step [OF s1] by blast
  obtain q3 k3 where 3: "isr_execs (env 3) q2 k2 = Some (q3, k3)" "shared c e f env q3 k3" "step_keeps c e q2 k2 q3 k3"
    "queue_items q3 = fold (isr_items (unat (uxLength q2))) (env 3) (queue_items q2)" using shared_step [OF 2(2)] by blast
  have "running c k3"
    using running_step [OF 3(3)] running_step [OF 2(3)] running_step [OF 1(3)] suspend_shared(2) [OF assms(4)] by blast
  moreover have u: "uxLength q2 = uxLength q" "uxLength q3 = uxLength q" "cTxLock q3 \<noteq> - 1" "uxSchedulerSuspended k3 = 1"
    using 1(3) 2(3) 3(3) l(2,7) tx(2) suspend_shared(3) [of k] assms(3) by (simp_all add: step_keeps_def)
  moreover have "queue_items q3 = fold (isr_items (unat (uxLength q))) (env 1 @ env 2 @ env 3) (queue_items q)"
    using 1(4) 2(4) 3(4) u l(6,7) tx(2) by simp
  ultimately show ?thesis using 1(1) 2(1) 3(1,2) by blast
qed

text \<open>Placing the task, between the interrupts at the points 4 and 5.\<close>

lemma place_of_pass:
  assumes "shared c e f env q k" and "cTxLock q \<noteq> - 1" and "uxSchedulerSuspended k = 1" and "running c k"
    and "prvIsQueueEmpty q" and "0 < ticks"
  shows "\<exists>q1 k1 q2 k2 k3. isr_execs (env 4) q k = Some (q1, k1) \<and> isr_execs (env 5) q1 k1 = Some (q2, k2)
    \<and> vTaskPlaceOnEventList (EventList e) ticks k2 = Some k3
    \<and> shared c e f env q2 k3 \<and> cTxLock q2 \<noteq> - 1 \<and> uxSchedulerSuspended k3 = 1 \<and> uxLength q2 = uxLength q
    \<and> queue_items q2 = fold (isr_items (unat (uxLength q))) (env 4 @ env 5) (queue_items q)"
proof -
  obtain q1 k1 where 1: "isr_execs (env 4) q k = Some (q1, k1)" "shared c e f env q1 k1" "step_keeps c e q k q1 k1"
    "queue_items q1 = fold (isr_items (unat (uxLength q))) (env 4) (queue_items q)"
    using shared_step [OF assms(1)] by blast
  obtain q2 k2 where 2: "isr_execs (env 5) q1 k1 = Some (q2, k2)" "shared c e f env q2 k2" "step_keeps c e q1 k1 q2 k2"
    "queue_items q2 = fold (isr_items (unat (uxLength q1))) (env 5) (queue_items q1)" using shared_step [OF 1(2)] by blast
  have r: "running c k2" using running_step [OF 2(3)] running_step [OF 1(3)] assms(4) by blast
  have "counted q" using assms(5) by (simp add: counted_def prvIsQueueEmpty_def)
  then have cnt: "counted q2" using 1(3) 2(3) assms(2) by (simp add: step_keeps_def)
  obtain T where "system_ok c e f T q2 k2" using 2(2) by (auto simp: shared_def)
  from place_keeps [OF this r assms(6) shared_not_waiting [OF 2(2) r] cnt] obtain k3 where
    3: "vTaskPlaceOnEventList (EventList e) ticks k2 = Some k3" "system_ok c e f T q2 k3" "no_lost c e q2 k3"
    "uxSchedulerSuspended k3 = uxSchedulerSuspended k2" by blast
  have "shared c e f env q2 k3" using 2(2) 3(2,3) by (auto simp: shared_def)
  moreover have u: "uxLength q1 = uxLength q" "uxLength q2 = uxLength q" "cTxLock q2 \<noteq> - 1" "uxSchedulerSuspended k3 = 1"
    using 1(3) 2(3) 3(4) assms(2,3) by (simp_all add: step_keeps_def)
  moreover have "queue_items q2 = fold (isr_items (unat (uxLength q))) (env 4 @ env 5) (queue_items q)"
    using 1(4) 2(4) u by simp
  ultimately show ?thesis using 1(1) 2(1) 3(1) by blast
qed

text \<open>The interrupts of a pass that waits, and of one that does not.\<close>

abbreviation (input) waited :: "(nat \<Rightarrow> isr_op list) \<Rightarrow> isr_op list" where
  "waited env \<equiv> (env 1 @ env 2 @ env 3) @ (env 4 @ env 5) @ (env 6 @ env 7 @ env 8)"

abbreviation (input) went_on :: "(nat \<Rightarrow> isr_op list) \<Rightarrow> isr_op list" where
  "went_on env \<equiv> (env 1 @ env 2 @ env 3) @ (env 6 @ env 7 @ env 8)"

lemma shared_not_mutex: "shared c e f env q k \<Longrightarrow> \<not> queueQUEUE_IS_MUTEX q"
  by (auto simp: shared_def system_ok_def value_queue_def)

lemma wait_section_keeps:
  assumes "shared c e f env q k" and "unlocked q" and "uxSchedulerSuspended k = 0" and "running c k" and "0 < ticks"
    and before: "\<And>q k. \<not> queueQUEUE_IS_MUTEX q \<Longrightarrow> before inh q k = Some (inh, k)"
  shows "\<exists>over to' ticks' q' k'. wait_section env prvIsQueueEmpty (EventList e) before inh to ticks q k
      = Some (over, inh, to', ticks', q', k')
    \<and> shared c e f env q' k' \<and> unlocked q' \<and> uxSchedulerSuspended k' = 0 \<and> uxLength q' = uxLength q
    \<and> queue_items q' \<in> {fold (isr_items (unat (uxLength q))) (waited env) (queue_items q),
         fold (isr_items (unat (uxLength q))) (went_on env) (queue_items q)}"
proof -
  obtain q1 k1 q2 k2 q3 k3 where 1: "isr_execs (env 1) q (vTaskSuspendAll k) = Some (q1, k1)"
    "isr_execs (env 2) (prvLockQueue q1) k1 = Some (q2, k2)" "isr_execs (env 3) q2 k2 = Some (q3, k3)"
    and s3: "shared c e f env q3 k3" "cTxLock q3 \<noteq> - 1" "uxSchedulerSuspended k3 = 1" "running c k3" "uxLength q3 = uxLength q"
    and i3: "queue_items q3 = fold (isr_items (unat (uxLength q))) (env 1 @ env 2 @ env 3) (queue_items q)"
    using start_of_pass [OF assms(1-4)] by blast
  obtain over to' ticks' where chk: "xTaskCheckForTimeOut to ticks k2 = (over, to', ticks')" by (metis prod_cases3)
  have "\<exists>placed q4 k4. (if \<not> over \<and> prvIsQueueEmpty q3 then do {
         (q, k) \<leftarrow> isr_execs (env 4) q3 k3;
         (inh, k) \<leftarrow> before inh q k;
         (q, k) \<leftarrow> isr_execs (env 5) q k;
         k \<leftarrow> vTaskPlaceOnEventList (EventList e) ticks' k;
         Some (inh, True, q, k)
       } else Some (inh, False, q3, k3)) = Some (inh, placed, q4, k4)
    \<and> shared c e f env q4 k4 \<and> cTxLock q4 \<noteq> - 1 \<and> uxSchedulerSuspended k4 = 1 \<and> uxLength q4 = uxLength q
    \<and> queue_items q4 \<in> {fold (isr_items (unat (uxLength q))) (env 4 @ env 5) (queue_items q3), queue_items q3}"
  proof (cases "\<not> over \<and> prvIsQueueEmpty q3")
    case True
    then have "0 < ticks'" using time_left chk assms(5) by simp
    from place_of_pass [OF s3(1-4) _ this] True obtain q4 k4 q5 k5 k6 where p: "isr_execs (env 4) q3 k3 = Some (q4, k4)"
      "isr_execs (env 5) q4 k4 = Some (q5, k5)" "vTaskPlaceOnEventList (EventList e) ticks' k5 = Some k6"
      "shared c e f env q5 k6" "cTxLock q5 \<noteq> - 1" "uxSchedulerSuspended k6 = 1" "uxLength q5 = uxLength q3"
      "queue_items q5 = fold (isr_items (unat (uxLength q3))) (env 4 @ env 5) (queue_items q3)"
      by blast
    have "isr_execs (env 4) q3 k3 = Some (q4, k4)" using p(1) .
    then have nm: "\<not> queueQUEUE_IS_MUTEX q4" using shared_step [OF s3(1), of 4] shared_not_mutex by force
    have "(if \<not> over \<and> prvIsQueueEmpty q3 then do {
         (q, k) \<leftarrow> isr_execs (env 4) q3 k3;
         (inh, k) \<leftarrow> before inh q k;
         (q, k) \<leftarrow> isr_execs (env 5) q k;
         k \<leftarrow> vTaskPlaceOnEventList (EventList e) ticks' k;
         Some (inh, True, q, k)
       } else Some (inh, False, q3, k3)) = Some (inh, True, q5, k6)"
      unfolding if_P [OF True] by (simp add: p(1-3) before [OF nm])
    then show ?thesis using p(4-8) s3(5) by auto
  next
    case False
    have "(if \<not> over \<and> prvIsQueueEmpty q3 then do {
         (q, k) \<leftarrow> isr_execs (env 4) q3 k3;
         (inh, k) \<leftarrow> before inh q k;
         (q, k) \<leftarrow> isr_execs (env 5) q k;
         k \<leftarrow> vTaskPlaceOnEventList (EventList e) ticks' k;
         Some (inh, True, q, k)
       } else Some (inh, False, q3, k3)) = Some (inh, False, q3, k3)"
      unfolding if_not_P [OF False] ..
    then show ?thesis using s3 by auto
  qed
  then obtain placed q4 k4 where pl: "(if \<not> over \<and> prvIsQueueEmpty q3 then do {
         (q, k) \<leftarrow> isr_execs (env 4) q3 k3;
         (inh, k) \<leftarrow> before inh q k;
         (q, k) \<leftarrow> isr_execs (env 5) q k;
         k \<leftarrow> vTaskPlaceOnEventList (EventList e) ticks' k;
         Some (inh, True, q, k)
       } else Some (inh, False, q3, k3)) = Some (inh, placed, q4, k4)"
    and s4: "shared c e f env q4 k4" "cTxLock q4 \<noteq> - 1" "uxSchedulerSuspended k4 = 1" "uxLength q4 = uxLength q"
    and i4: "queue_items q4 \<in> {fold (isr_items (unat (uxLength q))) (env 4 @ env 5) (queue_items q3), queue_items q3}"
    by blast
  obtain q5 k5 q6 k6 q7 k7 q8 k8 q9 k9 y k10 where en: "isr_execs (env 6) q4 k4 = Some (q5, k5)" "unlock_tx q5 k5 = Some (q6, k6)"
    "isr_execs (env 7) q6 k6 = Some (q7, k7)" "unlock_rx q7 k7 = Some (q8, k8)"
    "isr_execs (env 8) q8 k8 = Some (q9, k9)" "xTaskResumeAll k9 = Some (y, k10)"
    "shared c e f env q9 k10" "unlocked q9" "uxSchedulerSuspended k10 = 0" "uxLength q9 = uxLength q4"
    "queue_items q9 = fold (isr_items (unat (uxLength q4))) (env 6 @ env 7 @ env 8) (queue_items q4)"
    using end_of_pass [OF s4(1-3)] by blast
  have "wait_section env prvIsQueueEmpty (EventList e) before inh to ticks q k
      = Some (over, inh, to', ticks', q9, yield_if (placed \<and> \<not> y) k10)"
    by (simp only: wait_section_def Let_def 1 chk pl en(1-6) bind.bind_lunit prod.case yield_if_def)
  moreover have "shared c e f env q9 (yield_if (placed \<and> \<not> y) k10)" using en(7) by (simp add: shared_def)
  moreover have "queue_items q9 \<in> {fold (isr_items (unat (uxLength q))) (waited env) (queue_items q),
         fold (isr_items (unat (uxLength q))) (went_on env) (queue_items q)}"
    using en(11) i3 i4 s4(4) by auto
  ultimately show ?thesis using en(8-10) s4(4) by fastforce
qed

lemma pass_keeps:
  assumes "shared c e f env q k" and "unlocked q" and "uxSchedulerSuspended k = 0" and "running c k" and "0 < ticks"
    and "\<And>q k. \<not> queueQUEUE_IS_MUTEX q \<Longrightarrow> before inh q k = Some (inh, k)"
  shows "\<exists>q1 k1 over to' ticks' q2 k2 q3 k3. isr_execs (env 0) q k = Some (q1, k1)
    \<and> wait_section env prvIsQueueEmpty (xTasksWaitingToReceive q1) before inh to ticks q1 k1 = Some (over, inh, to', ticks', q2, k2)
    \<and> isr_execs (env 9) q2 k2 = Some (q3, k3)
    \<and> shared c e f env q3 k3 \<and> unlocked q3 \<and> uxSchedulerSuspended k3 = 0
    \<and> queue_items q3 \<in> {fold (isr_items (unat (uxLength q))) (env 0 @ waited env @ env 9) (queue_items q),
         fold (isr_items (unat (uxLength q))) (env 0 @ went_on env @ env 9) (queue_items q)}"
proof -
  obtain q1 k1 where 1: "isr_execs (env 0) q k = Some (q1, k1)" "shared c e f env q1 k1" "step_keeps c e q k q1 k1"
    "queue_items q1 = fold (isr_items (unat (uxLength q))) (env 0) (queue_items q)" using shared_step [OF assms(1)] by blast
  have r: "unlocked q1" "uxSchedulerSuspended k1 = 0" "running c k1" "uxLength q1 = uxLength q"
    using 1(3) assms(2,3) running_step [OF 1(3) assms(4)] by (simp_all add: step_keeps_def unlocked_def)
  have l: "xTasksWaitingToReceive q1 = EventList e" using 1(2) by (auto simp: shared_def system_ok_def)
  obtain over to' ticks' q2 k2 where 2: "wait_section env prvIsQueueEmpty (EventList e) before inh to ticks q1 k1
      = Some (over, inh, to', ticks', q2, k2)"
    "shared c e f env q2 k2" "unlocked q2" "uxSchedulerSuspended k2 = 0" "uxLength q2 = uxLength q1"
    "queue_items q2 \<in> {fold (isr_items (unat (uxLength q1))) (waited env) (queue_items q1),
         fold (isr_items (unat (uxLength q1))) (went_on env) (queue_items q1)}"
    using wait_section_keeps [OF 1(2) r(1-3) assms(5), where before = before and inh = inh and to = to, OF assms(6)] by blast
  obtain q3 k3 where 3: "isr_execs (env 9) q2 k2 = Some (q3, k3)" "shared c e f env q3 k3" "step_keeps c e q2 k2 q3 k3"
    "queue_items q3 = fold (isr_items (unat (uxLength q2))) (env 9) (queue_items q2)" using shared_step [OF 2(2)] by blast
  have "unlocked q3" "uxSchedulerSuspended k3 = 0" using 3(3) 2(3,4) by (simp_all add: step_keeps_def unlocked_def)
  moreover have "queue_items q3 \<in> {fold (isr_items (unat (uxLength q))) (env 0 @ waited env @ env 9) (queue_items q),
         fold (isr_items (unat (uxLength q))) (env 0 @ went_on env @ env 9) (queue_items q)}"
    using 1(4) 2(5,6) 3(4) r(4) by auto
  moreover have "wait_section env prvIsQueueEmpty (xTasksWaitingToReceive q1) before inh to ticks q1 k1
      = Some (over, inh, to', ticks', q2, k2)" using 2(1) l by simp
  ultimately show ?thesis using 1(1) 3(1,2) by blast
qed

lemma shared_waiting_empty:
  assumes "shared c e f env q k" and "unlocked q" and "container k (EventItem c) = Some (EventList e)"
  shows "queue_items q = []"
proof -
  have "kernel_ok k" using assms(1) by (auto simp: shared_def system_ok_def time_ok_def)
  then have "EventItem c \<in> set (entries k (EventList e))"
    using lists_ok_container [OF kernel_ok_lists] assms(3) by blast
  then have "uxMessagesWaiting q = 0" using assms(1,2) by (auto simp: shared_def no_lost_def counted_def unlocked_def)
  then show ?thesis by (simp add: queue_items_def)
qed

lemma empty_items: "prvIsQueueEmpty q \<longleftrightarrow> queue_items q = []"
  by (metis length_0_conv length_queue_items prvIsQueueEmpty_def unat_eq_zero)

lemma receive_section_isr:
  "cRxLock q = - 1 \<Longrightarrow>
   receive_section q k = map_option (\<lambda>(r, sw, q, k). (r, q, yield_if sw k)) (xQueueReceiveFromISR q k)"
  by (auto simp: receive_section_def xQueueReceiveFromISR_def Let_def yield_if_def split: Option.bind_split)

section \<open>A sample queue\<close>

text \<open>Two slots of one byte, empty, for the kernel \<open>sample_kernel\<close>, whose task 1 runs.\<close>

definition sample_queue :: Queue_t where
  "sample_queue = \<lparr>storage = [0, 0], pcWriteTo = 0, u_data = XQueue 2 1, xTasksWaitingToSend = EventList 8,
     xTasksWaitingToReceive = EventList 9, uxMessagesWaiting = 0, uxLength = 2, uxItemSize = 1,
     cRxLock = - 1, cTxLock = - 1, queueQUEUE_IS_MUTEX = False\<rparr>"

definition sample_semaphore :: Queue_t where
  "sample_semaphore = sample_queue\<lparr>uxItemSize := 0\<rparr>"

lemma sample_system: "system_ok 1 9 8 99 sample_queue sample_kernel" "system_ok 1 9 8 99 sample_semaphore sample_kernel"
  using sample_kernel_time
  by (auto simp: system_ok_def sample_queue_def sample_semaphore_def value_queue_def queue_ok_def lock_ok_def
      sample_kernel_def)

lemma sample_state: "entries sample_kernel (EventList 9) = []" "running 1 sample_kernel"
  "unlocked sample_queue" "unlocked sample_semaphore" "uxSchedulerSuspended sample_kernel = 0"
  "queue_items sample_queue = []" "queue_items sample_semaphore = []" "uxMessagesWaiting sample_semaphore = 0"
  "uxItemSize sample_queue = 1" "uxItemSize sample_semaphore = 0" "uxLength sample_queue = 2" "uxLength sample_semaphore = 2"
  by (simp_all add: sample_kernel_def sample_queue_def sample_semaphore_def xl_empty_def running_def unlocked_def queue_items_def)

text \<open>
  C28: receiving never fails, loses or invents an item, and no wake-up is lost. Whatever interrupts
  do at every point of the pass where they are enabled (send, receive, tick), a task that receives
  from a queue of which it is the only receiver gets the oldest item if there is one; with no time
  to wait it returns; else the queue holds what the interrupts left there, in order, the queue is
  unlocked and the scheduler runs, and the task is not left in the event list, nor does it give up,
  while the queue holds an item. All invariants of queue and kernel are kept.
\<close>
theorem receive_loses_no_wakeup:
  assumes "system_ok c e f T q k" and "all_fit env q" and "entries k (EventList e) = []" and "running c k"
    and "unlocked q" and "uxSchedulerSuspended k = 0"
  shows "\<exists>r q' k'. xQueueReceive env (tmo, ticks) q k = Some (r, q', k') \<and> (\<exists>T'. system_ok c e f T' q' k')
    \<and> unlocked q' \<and> uxSchedulerSuspended k' = 0
    \<and> (if queue_items q \<noteq> [] then r = Ret (Some (hd (queue_items q))) \<and> queue_items q' = tl (queue_items q)
       else if ticks = 0 then r = Ret None \<and> queue_items q' = []
       else (r = Ret None \<or> r \<in> range Call) \<and> (r = Ret None \<longrightarrow> queue_items q' = [])
         \<and> (container k' (EventItem c) = Some (EventList e) \<longrightarrow> queue_items q' = [])
         \<and> queue_items q' \<in> {fold (isr_items (unat (uxLength q))) (env 0 @ waited env @ env 9) [],
             fold (isr_items (unat (uxLength q))) (env 0 @ went_on env @ env 9) []})"
proof -
  have sh: "shared c e f env q k" using assms(1-3) by (auto simp: shared_def no_lost_def)
  have rx: "cRxLock q = - 1" using assms(5) by (simp add: unlocked_def)
  show ?thesis
  proof (cases "queue_items q = [] \<and> ticks \<noteq> 0")
    case False
    obtain b sw q1 k1 where r: "xQueueReceiveFromISR q k = Some (b, sw, q1, k1)"
      "isr_done c e f T (tl (queue_items q)) q k q1 k1" "b = (if queue_items q = [] then None else Some (hd (queue_items q)))"
      using isr_receive_done [OF assms(1)] by blast
    have "xQueueReceive env (tmo, ticks) q k = Some (Ret b, q1, yield_if sw k1)"
      using receive_section_isr [OF rx] r(1,3) False by (auto simp: xQueueReceive_def)
    then show ?thesis
      using r(2,3) assms(5,6) False by (auto simp: isr_done_def step_keeps_def unlocked_def)
  next
    case True
    then have "receive_section q k = Some (None, q, k)"
      using empty_items [of q] by (simp add: receive_section_def prvIsQueueEmpty_def)
    moreover have "0 < ticks" using True by (simp add: word_neq_0_conv)
    from pass_keeps [OF sh assms(5,6,4) this, of no_inherit False "entry_time tmo k"] obtain q1 k1 over to' ticks' q2 k2 q3 k3 where
      p: "isr_execs (env 0) q k = Some (q1, k1)"
      "wait_section env prvIsQueueEmpty (xTasksWaitingToReceive q1) no_inherit False (entry_time tmo k) ticks q1 k1
         = Some (over, False, to', ticks', q2, k2)"
      "isr_execs (env 9) q2 k2 = Some (q3, k3)" "shared c e f env q3 k3" "unlocked q3" "uxSchedulerSuspended k3 = 0"
      "queue_items q3 \<in> {fold (isr_items (unat (uxLength q))) (env 0 @ waited env @ env 9) [],
         fold (isr_items (unat (uxLength q))) (env 0 @ went_on env @ env 9) []}"
      using True by (auto simp: no_inherit_def)
    ultimately have "xQueueReceive env (tmo, ticks) q k = Some (when_over over q3 None (Some to', ticks'), q3, k3)"
      using True by (simp add: xQueueReceive_def)
    moreover have "\<exists>T'. system_ok c e f T' q3 k3" using p(4) by (auto simp: shared_def)
    moreover have "container k3 (EventItem c) = Some (EventList e) \<longrightarrow> queue_items q3 = []"
      using shared_waiting_empty [OF p(4,5)] by blast
    ultimately show ?thesis using True p(5-7) by (auto simp: when_over_def empty_items)
  qed
qed

text \<open>An interrupt sends an item just after the task has seen the queue empty.\<close>

lemma receive_loses_no_wakeup_witness:
  "\<exists>r q' k'. xQueueReceive (\<lambda>n. if n = 3 then [IsrSend [7]] else []) (None, 5) sample_queue sample_kernel = Some (r, q', k')
    \<and> queue_items q' = [[7]] \<and> r \<in> range Call \<and> container k' (EventItem 1) \<noteq> Some (EventList 9)"
proof -
  let ?env = "\<lambda>n :: nat. if n = 3 then [IsrSend [7]] else []"
  have "all_fit ?env sample_queue" by (simp add: all_fit_def isr_fits_def sample_state)
  from receive_loses_no_wakeup [OF sample_system(1) this sample_state(1-3,5), of None 5] obtain r q' k' where
    "xQueueReceive ?env (None, 5) sample_queue sample_kernel = Some (r, q', k')" "r = Ret None \<or> r \<in> range Call"
    "r = Ret None \<longrightarrow> queue_items q' = []" "container k' (EventItem 1) = Some (EventList 9) \<longrightarrow> queue_items q' = []"
    "queue_items q' = [[7]]"
    by (auto simp: sample_state isr_items_def)
  then show ?thesis by (intro exI [of _ r] exI [of _ q'] exI [of _ k']) auto
qed

text \<open>Taking a semaphore is receiving an item without bytes.\<close>

lemma take_section_isr:
  "cRxLock q = - 1 \<Longrightarrow> value_queue q \<Longrightarrow> uxItemSize q = 0 \<Longrightarrow>
   take_section q k = map_option (\<lambda>(r, sw, q, k). (r \<noteq> None, q, yield_if sw k)) (xQueueReceiveFromISR q k)"
  by (auto simp: take_section_def xQueueReceiveFromISR_def prvCopyDataFromQueue_def value_queue_def Let_def yield_if_def
      split: Option.bind_split)

text \<open>
  Taking a binary or counting semaphore never fails and loses no wake-up. Whatever interrupts do
  at every point of the pass where they are enabled (give, take, tick), a task that takes a
  semaphore of which it is the only taker gets it when its count is not 0; with no time to wait it
  returns; else the count is what the interrupts made of it, and the task is not left in the event
  list, nor does it give up, while the count is not 0. All invariants are kept.
\<close>
theorem take_loses_no_wakeup:
  assumes "system_ok c e f T q k" and "all_fit env q" and "entries k (EventList e) = []" and "running c k"
    and "unlocked q" and "uxSchedulerSuspended k = 0" and "uxItemSize q = 0"
  shows "\<exists>r q' k'. xQueueSemaphoreTake env ((tmo, ticks), False) q k = Some (r, q', k') \<and> (\<exists>T'. system_ok c e f T' q' k')
    \<and> unlocked q' \<and> uxSchedulerSuspended k' = 0
    \<and> (if uxMessagesWaiting q \<noteq> 0 then r = Ret True \<and> uxMessagesWaiting q' = uxMessagesWaiting q - 1
       else if ticks = 0 then r = Ret False \<and> uxMessagesWaiting q' = 0
       else (r = Ret False \<or> r \<in> range (\<lambda>w. Call (w, False))) \<and> (r = Ret False \<longrightarrow> uxMessagesWaiting q' = 0)
         \<and> (container k' (EventItem c) = Some (EventList e) \<longrightarrow> uxMessagesWaiting q' = 0)
         \<and> queue_items q' \<in> {fold (isr_items (unat (uxLength q))) (env 0 @ waited env @ env 9) [],
             fold (isr_items (unat (uxLength q))) (env 0 @ went_on env @ env 9) []})"
proof -
  have sh: "shared c e f env q k" using assms(1-3) by (auto simp: shared_def no_lost_def)
  have rx: "cRxLock q = - 1" using assms(5) by (simp add: unlocked_def)
  have vq: "value_queue q" using assms(1) by (rule system_ok_value)
  have n0: "queue_items q' = [] \<longleftrightarrow> uxMessagesWaiting q' = 0" for q'
    using empty_items [of q'] by (simp add: prvIsQueueEmpty_def)
  show ?thesis
  proof (cases "uxMessagesWaiting q = 0 \<and> ticks \<noteq> 0")
    case False
    obtain b sw q1 k1 where r: "xQueueReceiveFromISR q k = Some (b, sw, q1, k1)"
      "isr_done c e f T (tl (queue_items q)) q k q1 k1" "b = (if queue_items q = [] then None else Some (hd (queue_items q)))"
      using isr_receive_done [OF assms(1)] by blast
    have "xQueueSemaphoreTake env ((tmo, ticks), False) q k = Some (Ret (b \<noteq> None), q1, yield_if sw k1)"
      using take_section_isr [OF rx vq assms(7)] r(1,3) False assms(7) n0 [of q] by (auto simp: xQueueSemaphoreTake_def)
    moreover have "unat (uxMessagesWaiting q1) = unat (uxMessagesWaiting q) - 1"
      using r(2) length_queue_items [of q1] by (auto simp: isr_done_def)
    then have "uxMessagesWaiting q1 = (if uxMessagesWaiting q = 0 then 0 else uxMessagesWaiting q - 1)"
      using unat_dec [of "uxMessagesWaiting q"] by (auto simp: word_unat_eq_iff)
    ultimately show ?thesis
      using r(2,3) assms(5,6) False n0 [of q] by (auto simp: isr_done_def step_keeps_def unlocked_def)
  next
    case True
    then have "take_section q k = Some (False, q, k)" by (simp add: take_section_def)
    moreover have "0 < ticks" using True by (simp add: word_neq_0_conv)
    from pass_keeps [OF sh assms(5,6,4) this, of inherit_before False "entry_time tmo k"] obtain q1 k1 over to' ticks' q2 k2 q3 k3 where
      p: "isr_execs (env 0) q k = Some (q1, k1)"
      "wait_section env prvIsQueueEmpty (xTasksWaitingToReceive q1) inherit_before False (entry_time tmo k) ticks q1 k1
         = Some (over, False, to', ticks', q2, k2)"
      "isr_execs (env 9) q2 k2 = Some (q3, k3)" "shared c e f env q3 k3" "unlocked q3" "uxSchedulerSuspended k3 = 0"
      "queue_items q3 \<in> {fold (isr_items (unat (uxLength q))) (env 0 @ waited env @ env 9) [],
         fold (isr_items (unat (uxLength q))) (env 0 @ went_on env @ env 9) []}"
      using True n0 [of q] by (auto simp: inherit_before_def)
    moreover have "disinherit_after_timeout False q3 k3 = Some k3" by (simp add: disinherit_after_timeout_def)
    ultimately have "xQueueSemaphoreTake env ((tmo, ticks), False) q k
        = Some (when_over over q3 False ((Some to', ticks'), False), q3, k3)"
      using True assms(7) by (simp add: xQueueSemaphoreTake_def)
    moreover have "\<exists>T'. system_ok c e f T' q3 k3" using p(4) by (auto simp: shared_def)
    moreover have "container k3 (EventItem c) = Some (EventList e) \<longrightarrow> uxMessagesWaiting q3 = 0"
      using shared_waiting_empty [OF p(4,5)] n0 by blast
    ultimately show ?thesis using True p(5-7) by (auto simp: when_over_def empty_items n0)
  qed
qed

lemma take_loses_no_wakeup_witness:
  "\<exists>r q' k'. xQueueSemaphoreTake (\<lambda>n. if n = 5 then [IsrGive, IsrTick] else []) ((None, 5), False) sample_semaphore sample_kernel
      = Some (r, q', k') \<and> queue_items q' \<in> {[[]], []} \<and> uxMessagesWaiting q' \<in> {0, 1}
    \<and> (if uxMessagesWaiting q' = 1 then container k' (EventItem 1) \<noteq> Some (EventList 9) else True)"
proof -
  let ?env = "\<lambda>n :: nat. if n = 5 then [IsrGive, IsrTick] else []"
  have fit: "all_fit ?env sample_semaphore" by (simp add: all_fit_def isr_fits_def sample_state)
  from take_loses_no_wakeup [OF sample_system(2) fit sample_state(1,2,4,5,10), of None 5] obtain r q' k' where
    w: "xQueueSemaphoreTake ?env ((None, 5), False) sample_semaphore sample_kernel = Some (r, q', k')"
    "container k' (EventItem 1) = Some (EventList 9) \<longrightarrow> uxMessagesWaiting q' = 0"
    "queue_items q' \<in> {[[]], []}"
    by (auto simp: sample_state isr_items_def)
  have "length (queue_items q') \<le> 1" using w(3) by (auto simp del: length_queue_items)
  then have "unat (uxMessagesWaiting q') \<le> 1" by simp
  then have "uxMessagesWaiting q' \<in> {0, 1}" by (auto simp: word_unat_eq_iff)
  then show ?thesis using w by (intro exI [of _ r] exI [of _ q'] exI [of _ k']) auto
qed

section \<open>Interrupts and a bounded list\<close>

text \<open>
  C29: whatever interrupts do to a queue, in whatever order and whether or not a task has locked it
  or suspended the scheduler, no operation fails, queue and kernel keep their invariants, and the
  items in the queue are those of a bounded first-in first-out list on which the same operations
  are carried out: sending to a full queue and receiving from an empty one change nothing.
\<close>
theorem interrupts_refine_bounded_list:
  assumes "system_ok c e f T q k" and "list_all (isr_fits q) is"
  shows "\<exists>q' k' T'. isr_execs is q k = Some (q', k') \<and> T \<le> T' \<and> system_ok c e f T' q' k'
    \<and> queue_items q' = fold (isr_items (unat (uxLength q))) is (queue_items q)"
  using isr_steps [OF assms] by (auto simp: isr_done_def)

lemma interrupts_refine_bounded_list_witness:
  "\<exists>q' k'. isr_execs [IsrSend [1], IsrSend [2], IsrTick, IsrSend [3], IsrReceive, IsrSend [4]] sample_queue sample_kernel
      = Some (q', k') \<and> queue_items q' = [[2], [4]]"
  using interrupts_refine_bounded_list [OF sample_system(1), of "[IsrSend [1], IsrSend [2], IsrTick, IsrSend [3], IsrReceive, IsrSend [4]]"]
  by (auto simp: isr_fits_def sample_state isr_items_def)

section \<open>From an interrupt to a waiting task\<close>

lemma send_wakes_receiver:
  assumes "system_ok d e f T q k" and "entries k (EventList e) = [EventItem c]" and "queue_items q = []"
    and "unlocked q" and "uxSchedulerSuspended k = 0" and "length item = unat (uxItemSize q)"
  shows "\<exists>q1 k1. xQueueGenericSendFromISR item queueSEND_TO_BACK q k
      = Some (True, uxPriority k (pxCurrentTCB k) < uxPriority k c, q1, k1)
    \<and> container k1 (StateItem c) = Some (ReadyList (uxPriority k c)) \<and> container k1 (EventItem c) = None
    \<and> entries k1 (EventList e) = [] \<and> queue_items q1 = [item] \<and> system_ok d e f T q1 k1 \<and> unlocked q1
    \<and> uxItemSize q1 = uxItemSize q \<and> uxSchedulerSuspended k1 = 0"
proof -
  have ok: "kernel_ok k" "waiting_ok k" "time_ok T k" and l: "xTasksWaitingToReceive q = EventList e"
    using assms(1) by (auto simp: system_ok_def time_ok_def)
  have tx: "cTxLock q = - 1" "cRxLock q = - 1" using assms(4) by (simp_all add: unlocked_def)
  have room: "length (queue_items q) < unat (uxLength q)"
    using system_ok_value [OF assms(1)] assms(3) by (simp add: value_queue_def queue_ok_def Let_def)
  obtain k1 where k1: "xTaskRemoveFromEventList (EventList e) k = Some (uxPriority k (pxCurrentTCB k) < uxPriority k c, k1)"
    "entries k1 (EventList e) = []"
    "container k1 = (container k)(EventItem c := None, StateItem c \<mapsto> ReadyList (uxPriority k c))"
    using remove_from_event_list [OF ok(1,2) assms(2)] assms(5) by auto
  obtain sw q1 k' where q1: "xQueueGenericSendFromISR item queueSEND_TO_BACK q k = Some (True, sw, q1, k')"
    "isr_done d e f T [item] q k q1 k'"
    using isr_send_done [OF assms(1,6)] room assms(3) by (auto simp: isr_items_def)
  obtain q0 where q0: "prvCopyDataToQueue item queueSEND_TO_BACK q k = Some (False, q0, k)" "same_queue q q0"
    using send_value [OF system_ok_value [OF assms(1)] assms(6) room, of k] by blast
  have "uxMessagesWaiting q < uxLength q" using room by (simp add: word_less_nat_alt)
  moreover have "wake_first (EventList e) k = xTaskRemoveFromEventList (EventList e) k"
    using assms(2) by (simp add: wake_first_def list_is_empty_def)
  ultimately have eq: "xQueueGenericSendFromISR item queueSEND_TO_BACK q k
      = Some (True, uxPriority k (pxCurrentTCB k) < uxPriority k c, q0, k1)"
    using q0 tx l k1(1) by (simp add: xQueueGenericSendFromISR_def Let_def same_queue_def)
  then have e: "q0 = q1" "k1 = k'" using q1(1) by auto
  then have s1: "system_ok d e f T q1 k1" "queue_items q1 = [item]" "cRxLock q1 = - 1"
    using q1(2) q0(2) tx by (auto simp: isr_done_def same_queue_def)
  have "unlocked q1" "uxItemSize q1 = uxItemSize q" "uxSchedulerSuspended k1 = 0"
    using q1(2) q0(2) tx e assms(4,5) by (auto simp: isr_done_def same_queue_def unlocked_def step_keeps_def)
  then show ?thesis using eq e k1(2,3) s1 by auto
qed

text \<open>
  A task that waits to receive is served by the next send: when an interrupt sends an item to
  the empty queue, the waiting task is ready at once, out of the event list, and the yield request is
  raised exactly if it has a higher priority than the running task; when it runs again, its receive
  returns that item and the queue is empty again.
\<close>
theorem waiting_receiver_is_served:
  assumes "system_ok d e f T q k" and "entries k (EventList e) = [EventItem c]" and "queue_items q = []"
    and "unlocked q" and "uxSchedulerSuspended k = 0" and "length item = unat (uxItemSize q)"
  shows "\<exists>q1 k1 q2 k2. xQueueGenericSendFromISR item queueSEND_TO_BACK q k
      = Some (True, uxPriority k (pxCurrentTCB k) < uxPriority k c, q1, k1)
    \<and> container k1 (StateItem c) = Some (ReadyList (uxPriority k c)) \<and> container k1 (EventItem c) = None
    \<and> entries k1 (EventList e) = [] \<and> queue_items q1 = [item]
    \<and> xQueueReceive env w q1 k1 = Some (Ret (Some item), q2, k2) \<and> queue_items q2 = [] \<and> system_ok d e f T q2 k2"
proof -
  obtain q1 k1 where 1: "xQueueGenericSendFromISR item queueSEND_TO_BACK q k
      = Some (True, uxPriority k (pxCurrentTCB k) < uxPriority k c, q1, k1)"
    "container k1 (StateItem c) = Some (ReadyList (uxPriority k c))" "container k1 (EventItem c) = None"
    "entries k1 (EventList e) = []" "queue_items q1 = [item]" "system_ok d e f T q1 k1" "unlocked q1"
    using send_wakes_receiver [OF assms] by blast
  then have rx: "cRxLock q1 = - 1" by (simp add: unlocked_def)
  obtain b sw2 q2 k2 where r: "xQueueReceiveFromISR q1 k1 = Some (b, sw2, q2, k2)"
    "isr_done d e f T [] q1 k1 q2 k2" "b = Some item"
    using isr_receive_done [OF 1(6)] 1(5) by auto
  have "xQueueReceive env w q1 k1 = Some (Ret (Some item), q2, yield_if sw2 k2)"
    using receive_section_isr [OF rx] r(1,3) by (cases w) (simp add: xQueueReceive_def)
  moreover have "queue_items q2 = []" "system_ok d e f T q2 (yield_if sw2 k2)" using r(2) by (simp_all add: isr_done_def)
  ultimately show ?thesis using 1(1-5) by blast
qed

lemma waiting_receiver_is_served_witness:
  "\<exists>q1 k1 q2 k2. xQueueGenericSendFromISR [5] queueSEND_TO_BACK (sample_queue\<lparr>xTasksWaitingToReceive := EventList 7\<rparr>) sample_kernel
      = Some (True, False, q1, k1)
    \<and> container k1 (StateItem 2) = Some (ReadyList 1)
    \<and> xQueueReceive (\<lambda>_. []) (None, 3) q1 k1 = Some (Ret (Some [5]), q2, k2) \<and> queue_items q2 = []"
proof -
  let ?q = "sample_queue\<lparr>xTasksWaitingToReceive := EventList 7\<rparr>"
  have "system_ok 1 7 8 99 ?q sample_kernel"
    using sample_kernel_time
    by (auto simp: system_ok_def sample_queue_def value_queue_def queue_ok_def lock_ok_def sample_kernel_def)
  moreover have "queue_items ?q = []" "unlocked ?q" "length [5 :: u8] = unat (uxItemSize ?q)"
    by (simp_all add: sample_queue_def queue_items_def unlocked_def)
  moreover have "entries sample_kernel (EventList 7) = [EventItem 2]" "uxPriority sample_kernel 2 = 1"
    "uxPriority sample_kernel (pxCurrentTCB sample_kernel) = 2"
    by (simp_all add: sample_kernel_def)
  ultimately show ?thesis
    using waiting_receiver_is_served [of 1 7 8 99 ?q sample_kernel 2 "[5]" "\<lambda>_. []" "(None, 3)"] sample_state(5) by auto
qed

end
