(* ===== verification/Mb_Slave.thy ===== *)
theory Mb_Slave
  imports Mb_Port Mb_Func Rtos_Queue_Wait
begin

text \<open>
  \<open>Services/ModbusrtuSlvArm/src/mb_slv.c\<close> and the slave's task in \<open>APP/main.c\<close>: the slave put
  together from the serial line, the frames, the registers and the semaphore by which the interrupt
  handler wakes the task. What the hardware does between the program's steps is a relation.
\<close>

section \<open>State and operations\<close>

record mb_slave =
  port :: mb_port
  s_slave_addr :: u8
  s_tx_buf :: "u8 list"
  data :: mb_data
  xSemaphore :: Queue_t

abbreviation (input) MB_SLV_ADDR :: u8 where "MB_SLV_ADDR \<equiv> 0x08"
abbreviation TX_BUF_SIZE :: nat where "TX_BUF_SIZE \<equiv> 256"

text \<open>The result of \<open>mb_data_init\<close> is not looked at.\<close>

definition mb_slave_init ::
  "u32 \<Rightarrow> list_id \<Rightarrow> list_id \<Rightarrow> u8 \<Rightarrow> u32 \<Rightarrow> mb_slave \<Rightarrow> kernel \<Rightarrow> (int \<times> mb_slave \<times> kernel) option" where
  "mb_slave_init rx_addr snd_list rcv_list addr baud s k = do {
     let s = s\<lparr>s_slave_addr := addr\<rparr>;
     (_, d) \<leftarrow> mb_data_init (data s);
     (q, k) \<leftarrow> xQueueGenericCreateStatic 1 0 None snd_list rcv_list k;
     let s = s\<lparr>data := d, xSemaphore := q\<rparr>;
     (r, p) \<leftarrow> mb_slv_port_init rx_addr baud (port s);
     let s = s\<lparr>port := p\<rparr>;
     if r \<noteq> 0 then Some (-1, s, k)
     else do {
       p \<leftarrow> mb_slv_port_rx_start (port s);
       Some (0, s\<lparr>port := p\<rparr>, k)
     }
   }"

text \<open>
  What a poll does with a frame. \<open>tx_addr\<close> is the address of \<open>s_tx_buf\<close>; \<open>fr\<close> and \<open>regs0\<close> are
  the contents of the uninitialised local variables.
\<close>

definition process_frame :: "u32 \<Rightarrow> u16 list \<Rightarrow> mb_slv_frame_t \<Rightarrow> mb_slave \<Rightarrow> mb_slave option" where
  "process_frame tx_addr regs0 fr s = do {
     let buf = mb_slv_port_get_frame_buf (port s);
     let len = mb_slv_port_get_frame_len (port s);
     a \<leftarrow> arr_get buf 0;
     if a \<noteq> s_slave_addr s then do {
       p \<leftarrow> mb_slv_port_rx_start (port s);
       Some (s\<lparr>port := p\<rparr>)
     } else do {
       (r, fr) \<leftarrow> mb_slv_parse_request buf len fr;
       if r \<noteq> 0 then do {
         p \<leftarrow> mb_slv_port_rx_start (port s);
         Some (s\<lparr>port := p\<rparr>)
       } else do {
         (_, d, tx_len, tx) \<leftarrow> mb_func_dispatch regs0 fr (data s) (s_tx_buf s);
         p \<leftarrow> mb_slv_port_tx_send tx_addr tx_len (port s);
         Some (s\<lparr>data := d, s_tx_buf := tx, port := p\<rparr>)
       }
     }
   }"

text \<open>One pass of a poll: it blocks in the pass of the semaphore's take, or returns.\<close>

definition mb_slave_poll ::
  "(nat \<Rightarrow> isr_op list) \<Rightarrow> u32 \<Rightarrow> u16 list \<Rightarrow> mb_slv_frame_t \<Rightarrow> waiting \<times> bool \<Rightarrow> mb_slave \<Rightarrow> kernel \<Rightarrow>
   ((waiting \<times> bool, unit) call \<times> mb_slave \<times> kernel) option" where
  "mb_slave_poll env tx_addr regs0 fr w s k = do {
     (c, q, k) \<leftarrow> xQueueSemaphoreTake env w (xSemaphore s) k;
     let s = s\<lparr>xSemaphore := q\<rparr>;
     case c of
       Call w \<Rightarrow> Some (Call w, s, k)
     | Ret taken \<Rightarrow>
         if taken then do {
           s \<leftarrow> process_frame tx_addr regs0 fr s;
           Some (Ret (), s, k)
         } else Some (Ret (), s, k)
   }"

text \<open>The task: initialisation, which must succeed, then polls with no time-out.\<close>

definition mb_slave_task_start ::
  "u32 \<Rightarrow> list_id \<Rightarrow> list_id \<Rightarrow> mb_slave \<Rightarrow> kernel \<Rightarrow> (mb_slave \<times> kernel) option" where
  "mb_slave_task_start rx_addr snd_list rcv_list s k = do {
     (r, s, k) \<leftarrow> mb_slave_init rx_addr snd_list rcv_list MB_SLV_ADDR 38400 s k;
     if r \<noteq> 0 then None else Some (s, k)
   }"

definition poll_start :: "waiting \<times> bool" where
  "poll_start = ((None, portMAX_DELAY), False)"

section \<open>Processing a frame\<close>

lemma process_request:
  assumes "rx_buf (port s) = request_bytes rq @ rest" and "frame_len (port s) = of_nat (length (request_bytes rq))"
    and "request_ok rq" and "hd (request_bytes rq) = s_slave_addr s"
    and "length (s_tx_buf s) = TX_BUF_SIZE" and "mb_data_ok (data s)" and "length regs0 = 125"
    and o': "outcome (request_frame rq rest fr) (data s) = (r0, d', reply)"
  shows "\<exists>m. process_frame tx_addr regs0 fr s
      = Some (s\<lparr>data := d', s_tx_buf := message (s_tx_buf s) reply, port := (port s)\<lparr>mm := m\<rparr>\<rparr>)
    \<and> mb_slv_port_tx_send tx_addr (of_nat (length reply)) (port s) = Some ((port s)\<lparr>mm := m\<rparr>)"
proof -
  let ?F = "request_frame rq rest fr"
  have ne: "request_bytes rq \<noteq> []" using length_request_bytes [OF assms(3)] by auto
  have a: "arr_get (rx_buf (port s)) 0 = Some (s_slave_addr s)"
    using ne assms(1,4) by (simp add: hd_conv_nth nth_append)
  have p: "mb_slv_parse_request (rx_buf (port s)) (frame_len (port s)) fr = Some (0, ?F)"
    using parse_request_bytes [OF assms(3)] assms(1,2) by simp
  have "unat (frame_len (port s)) \<le> length (rx_buf (port s))"
    using length_request_bytes [OF assms(3)] assms(1,2) by (simp add: unat_of_nat)
  then have fok: "frame_ok ?F" using parse_frame_ok [OF p] by simp
  have d: "mb_func_dispatch regs0 ?F (data s) (s_tx_buf s)
      = Some (r0, d', of_nat (length reply), message (s_tx_buf s) reply)"
    using mb_func_dispatch_eq [OF assms(6) fok _ assms(7), of "s_tx_buf s"] assms(5)
    by (simp add: o')
  obtain m where "mb_slv_port_tx_send tx_addr (of_nat (length reply)) (port s) = Some ((port s)\<lparr>mm := m\<rparr>)"
    using tx_send_effect by blast
  then show ?thesis
    using a p d by (simp add: process_frame_def mb_slv_port_get_frame_buf_def mb_slv_port_get_frame_len_def Let_def)
qed

section \<open>From a request on the line to the reply on the line\<close>

text \<open>The semaphore has been taken: the pass processes the frame.\<close>

lemma poll_takes:
  assumes "system_ok d e f T (xSemaphore s) k" and "queue_items (xSemaphore s) = [[]]" and "unlocked (xSemaphore s)"
    and "uxItemSize (xSemaphore s) = 0"
  shows "\<exists>q' k'. mb_slave_poll env tx_addr regs0 fr w s k
      = do { s \<leftarrow> process_frame tx_addr regs0 fr (s\<lparr>xSemaphore := q'\<rparr>); Some (Ret (), s, k') }
    \<and> queue_items q' = [] \<and> system_ok d e f T q' k'"
proof -
  have rx: "cRxLock (xSemaphore s) = - 1" using assms(3) by (simp add: unlocked_def)
  obtain b sw q' k' where r: "xQueueReceiveFromISR (xSemaphore s) k = Some (b, sw, q', k')"
    "isr_done d e f T [] (xSemaphore s) k q' k'" "b = Some []"
    using isr_receive_done [OF assms(1)] assms(2) by auto
  have "xQueueSemaphoreTake env w (xSemaphore s) k = Some (Ret True, q', yield_if sw k')"
    using take_section_isr [OF rx system_ok_value [OF assms(1)] assms(4)] r(1,3) assms(4)
    by (simp add: xQueueSemaphoreTake_def case_prod_beta)
  then have "mb_slave_poll env tx_addr regs0 fr w s k
      = do { s \<leftarrow> process_frame tx_addr regs0 fr (s\<lparr>xSemaphore := q'\<rparr>); Some (Ret (), s, yield_if sw k') }"
    by (simp add: mb_slave_poll_def)
  moreover have "queue_items q' = []" "system_ok d e f T q' (yield_if sw k')" using r(2) by (simp_all add: isr_done_def)
  ultimately show ?thesis by blast
qed

text \<open>
  C1: the slave answers. When a request for it, of any of the three kinds, stands in the receive
  buffer, as many bytes as it has were counted by the receive channel, and the line becomes idle
  while the slave's task waits for the semaphore, then the interrupt handler succeeds, stops
  reception and readies the task; and the task's next pass takes the semaphore, executes the
  request exactly as the abstract outcome says, and starts the transmission of exactly the
  bytes of the reply: transmit address, count and channel are set and the bus driver is on.
\<close>
theorem request_is_answered:
  assumes "idle_raised (port s)" and "\<not> tc_raised (port s)" and "rx_buf (port s) = request_bytes rq @ rest"
    and "received (length (request_bytes rq)) (port s)" and "request_ok rq" and "hd (request_bytes rq) = s_slave_addr s"
    and "length (s_tx_buf s) = TX_BUF_SIZE" and "mb_data_ok (data s)" and "length regs0 = 125"
    and "system_ok d e f T (xSemaphore s) k" and "entries k (EventList e) = [EventItem c]"
    and "queue_items (xSemaphore s) = []" and "unlocked (xSemaphore s)" and "uxSchedulerSuspended k = 0"
    and "uxItemSize (xSemaphore s) = 0"
    and o': "outcome (request_frame rq rest fr) (data s) = (r0, d', reply)"
  shows "\<exists>p1 q1 k1 s2 k2. USART0_IRQHandler (port s) (xSemaphore s) k = Some (p1, q1, k1)
    \<and> \<not> receiving p1 \<and> container k1 (StateItem c) = Some (ReadyList (uxPriority k c))
    \<and> mb_slave_poll env tx_addr regs0 fr w (s\<lparr>port := p1, xSemaphore := q1\<rparr>) k1 = Some (Ret (), s2, k2)
    \<and> data s2 = d' \<and> take (length reply) (s_tx_buf s2) = reply
    \<and> sending (port s2) \<and> regs (mm (port s2)) TX_ADDR = tx_addr
    \<and> regs (mm (port s2)) TX_CNT = of_nat (length reply) \<and> driver_enabled (port s2)
    \<and> queue_items (xSemaphore s2) = [] \<and> system_ok d e f T (xSemaphore s2) k2"
proof -
  let ?n = "length (request_bytes rq)"
  have n: "0 < ?n" "?n < 256" using length_request_bytes [OF assms(5)] by auto
  obtain q1 k' where g: "xQueueGenericSendFromISR [] queueSEND_TO_BACK (xSemaphore s) k
      = Some (True, uxPriority k (pxCurrentTCB k) < uxPriority k c, q1, k')"
    "container k' (StateItem c) = Some (ReadyList (uxPriority k c))" "queue_items q1 = [[]]"
    "system_ok d e f T q1 k'" "unlocked q1" "uxItemSize q1 = uxItemSize (xSemaphore s)"
    using send_wakes_receiver [OF assms(10-14), of "[]"] assms(15) by auto
  define y where "y = (uxPriority k (pxCurrentTCB k) < uxPriority k c)"
  have "xQueueGiveFromISR (xSemaphore s) k = Some (True, y, q1, k')"
    using g(1) give_is_send [OF system_ok_value [OF assms(10)] assms(15)] by (simp add: y_def)
  then obtain m where h: "USART0_IRQHandler (port s) (xSemaphore s) k
      = Some ((port s)\<lparr>mm := m, frame_len := of_nat ?n\<rparr>, q1, yield_if y k')" "stopped (port s) m"
    using handler_idle [OF assms(1,2,4), of "xSemaphore s" k True y q1 k'] n by auto
  let ?p1 = "(port s)\<lparr>mm := m, frame_len := of_nat ?n\<rparr>"
  let ?s1 = "s\<lparr>port := ?p1, xSemaphore := q1\<rparr>"
  have ok1: "system_ok d e f T (xSemaphore ?s1) (yield_if y k')" "queue_items (xSemaphore ?s1) = [[]]"
    "unlocked (xSemaphore ?s1)" "uxItemSize (xSemaphore ?s1) = 0"
    using g(3-6) assms(15) by simp_all
  obtain q2 k2 where poll: "mb_slave_poll env tx_addr regs0 fr w ?s1 (yield_if y k')
      = do { s \<leftarrow> process_frame tx_addr regs0 fr (?s1\<lparr>xSemaphore := q2\<rparr>); Some (Ret (), s, k2) }"
    "queue_items q2 = []" "system_ok d e f T q2 k2"
    using poll_takes [OF ok1, of env tx_addr regs0 fr w] by blast
  let ?s2 = "?s1\<lparr>xSemaphore := q2\<rparr>"
  obtain m2 where pr: "process_frame tx_addr regs0 fr ?s2
      = Some (?s2\<lparr>data := d', s_tx_buf := message (s_tx_buf s) reply, port := ?p1\<lparr>mm := m2\<rparr>\<rparr>)"
    "mb_slv_port_tx_send tx_addr (of_nat (length reply)) ?p1 = Some (?p1\<lparr>mm := m2\<rparr>)"
    using process_request [of ?s2 rq rest regs0 fr r0 d' reply tx_addr] assms(3,5-9) o' by auto
  have tx: "regs m2 = (regs m)(TX_CTL := regs m TX_CTL AND NOT (BIT 0) OR BIT 0, TX_ADDR := tx_addr,
      TX_CNT := ucast (of_nat (length reply) :: u16), GPIO_BOP GPIOA := BIT 8)"
    "pin_level GPIOA 8 False (accesses m2)"
    using tx_send_effect [of tx_addr "of_nat (length reply)" ?p1 False] pr(2) by auto
  have len: "length reply \<le> 255" using length_outcome [OF assms(8), of "request_frame rq rest fr"] o' by simp
  then have "ucast (of_nat (length reply) :: u16) = (of_nat (length reply) :: u32)"
    by (intro word_unat_eq_iff [THEN iffD2]) (simp add: unat_of_nat unsigned_ucast_eq take_bit_nat_eq_self_iff)
  moreover have "take (length reply) (message (s_tx_buf s) reply) = reply"
    using take_message [of "reply" "s_tx_buf s"] len assms(7) by simp
  ultimately show ?thesis
    using h g(2) poll pr(1) tx stopped_facts(1) [OF h(2)]
    by (simp add: sending_def driver_enabled_def port_regs bit_simps)
qed

definition sample_port :: mb_port where
  "sample_port = \<lparr>mm = \<lparr>regs = (\<lambda>_. 0)(STAT0 := BIT 4, USART_CTL0 USART0 := BIT 4 OR BIT 6, RX_CNT := 248, RX_CTL := BIT 0),
       accesses = []\<rparr>,
     rx_buf = request_bytes (ReadHolding 8 98 2) @ replicate 248 0, frame_len = 0\<rparr>"

definition sample_slave :: mb_slave where
  "sample_slave = \<lparr>port = sample_port, s_slave_addr = 8, s_tx_buf = replicate 256 0, data = sample_data,
     xSemaphore = sample_semaphore\<lparr>xTasksWaitingToReceive := EventList 7\<rparr>\<rparr>"

lemma sample_slave_simps [simp]: "port sample_slave = sample_port" "s_slave_addr sample_slave = 8"
  "s_tx_buf sample_slave = replicate 256 0" "data sample_slave = sample_data"
  "xSemaphore sample_slave = sample_semaphore\<lparr>xTasksWaitingToReceive := EventList 7\<rparr>"
  by (simp_all add: sample_slave_def)

lemma sample_waiting: "system_ok 1 7 8 99 (sample_semaphore\<lparr>xTasksWaitingToReceive := EventList 7\<rparr>) sample_kernel"
  "entries sample_kernel (EventList 7) = [EventItem 2]" "uxPriority sample_kernel 2 = 1"
  using sample_kernel_time
  by (auto simp: system_ok_def sample_queue_def sample_semaphore_def value_queue_def queue_ok_def lock_ok_def sample_kernel_def)

lemma request_is_answered_witness:
  "\<exists>p1 q1 k1 s2 k2. USART0_IRQHandler sample_port (xSemaphore sample_slave) sample_kernel = Some (p1, q1, k1)
    \<and> \<not> receiving p1 \<and> container k1 (StateItem 2) = Some (ReadyList 1)
    \<and> mb_slave_poll (\<lambda>_. []) 0x20000100 (replicate 125 0) sample_frame poll_start (sample_slave\<lparr>port := p1, xSemaphore := q1\<rparr>) k1
        = Some (Ret (), s2, k2)
    \<and> data s2 = sample_data \<and> take 9 (s_tx_buf s2) = sealed [8, 3, 4, 0, 7, 0, 7] \<and> sending (port s2)
    \<and> regs (mm (port s2)) TX_ADDR = 0x20000100 \<and> regs (mm (port s2)) TX_CNT = 9 \<and> driver_enabled (port s2)"
proof -
  let ?rq = "ReadHolding 8 98 2"
  have p: "idle_raised sample_port" "\<not> tc_raised sample_port"
    "rx_buf sample_port = request_bytes ?rq @ replicate 248 0" "received (length (request_bytes ?rq)) sample_port"
    "request_ok ?rq" "hd (request_bytes ?rq) = 8"
    by (simp_all add: sample_port_def idle_raised_def tc_raised_def received_def dma_reg_defs sealed_def bit_simps)
  have q: "queue_items (xSemaphore sample_slave) = []" "unlocked (xSemaphore sample_slave)"
    "uxSchedulerSuspended sample_kernel = 0" "uxItemSize (xSemaphore sample_slave) = 0"
    "mb_data_ok sample_data" "length (replicate 256 (0 :: u8)) = TX_BUF_SIZE" "length (replicate 125 (0 :: u16)) = 125"
    by (simp_all add: sample_state queue_items_def sample_semaphore_def sample_queue_def unlocked_def
        sample_data_def mb_data_ok_def HOLD_REG_COUNT_def)
  have two: "replicate 2 (7 :: u16) = [7, 7]" by (simp add: numeral_2_eq_2)
  have o': "outcome (request_frame ?rq (replicate 248 0) sample_frame) sample_data = (0, sample_data, sealed [8, 3, 4, 0, 7, 0, 7])"
    by (simp add: outcome_def in_range_def HOLD_REG_COUNT_def read_reply_def sample_data_def two hi8_def lo8_def)
  have len: "length (sealed [8, 3, 4, 0, 7, 0, 7]) = 9" by (simp add: sealed_def)
  have "\<exists>p1 q1 k1 s2 k2. USART0_IRQHandler sample_port (xSemaphore sample_slave) sample_kernel = Some (p1, q1, k1)
    \<and> \<not> receiving p1 \<and> container k1 (StateItem 2) = Some (ReadyList (uxPriority sample_kernel 2))
    \<and> mb_slave_poll (\<lambda>_. []) 0x20000100 (replicate 125 0) sample_frame poll_start (sample_slave\<lparr>port := p1, xSemaphore := q1\<rparr>) k1
        = Some (Ret (), s2, k2)
    \<and> data s2 = sample_data \<and> take (length (sealed [8, 3, 4, 0, 7, 0, 7])) (s_tx_buf s2) = sealed [8, 3, 4, 0, 7, 0, 7]
    \<and> sending (port s2) \<and> regs (mm (port s2)) TX_ADDR = 0x20000100
    \<and> regs (mm (port s2)) TX_CNT = of_nat (length (sealed [8, 3, 4, 0, 7, 0, 7])) \<and> driver_enabled (port s2)
    \<and> queue_items (xSemaphore s2) = [] \<and> system_ok 1 7 8 99 (xSemaphore s2) k2"
    by (rule request_is_answered [where s = sample_slave, unfolded sample_slave_simps(1-4), OF p(1-6) q(6,5,7) _ sample_waiting(2)
          q(1-4) o', folded sample_slave_simps(5)])
      (use sample_waiting(1) in simp)
  then show ?thesis unfolding len sample_waiting(3) of_nat_numeral by blast
qed

text \<open>
  C31: after the last bit of a reply the slave listens again: the transmission-complete interrupt
  stops the transmit channel, releases the bus, acknowledges the interrupt and restarts reception
  with the whole buffer, without touching semaphore or scheduler.
\<close>
theorem transmission_complete_rearms:
  assumes "tc_raised p" and "\<not> idle_raised p"
  shows "\<exists>m. USART0_IRQHandler p q k = Some (p\<lparr>mm := m\<rparr>, q, k) \<and> receiving (p\<lparr>mm := m\<rparr>) \<and> received 0 (p\<lparr>mm := m\<rparr>)
    \<and> \<not> sending (p\<lparr>mm := m\<rparr>) \<and> \<not> driver_enabled (p\<lparr>mm := m\<rparr>) \<and> \<not> tc_raised (p\<lparr>mm := m\<rparr>)"
proof -
  obtain m where "USART0_IRQHandler p q k = Some (p\<lparr>mm := m\<rparr>, q, k)"
    "regs m = (regs (mm p))(STAT0 := NOT (BIT 6), TX_CTL := regs (mm p) TX_CTL AND NOT (BIT 0), GPIO_BC GPIOA := BIT 8,
         RX_CTL := (regs (mm p) RX_CTL AND NOT (BIT 0) OR BIT 5) OR BIT 0, RX_CNT := 256)"
    "\<not> pin_level GPIOA 8 False (accesses m)"
    using handler_tc [OF assms] by blast
  then show ?thesis
    by (intro exI [of _ m])
      (simp add: receiving_def received_def sending_def driver_enabled_def tc_raised_def port_regs bit_simps)
qed

lemma transmission_complete_rearms_witness:
  "\<exists>m. USART0_IRQHandler (sample_port\<lparr>mm := \<lparr>regs = (\<lambda>_. 0)(STAT0 := BIT 6, USART_CTL0 USART0 := BIT 6, TX_CTL := BIT 0), accesses = []\<rparr>\<rparr>)
      sample_semaphore sample_kernel = Some (sample_port\<lparr>mm := m\<rparr>, sample_semaphore, sample_kernel)
    \<and> receiving (sample_port\<lparr>mm := m\<rparr>) \<and> \<not> sending (sample_port\<lparr>mm := m\<rparr>)"
proof -
  let ?p = "sample_port\<lparr>mm := \<lparr>regs = (\<lambda>_. 0)(STAT0 := BIT 6, USART_CTL0 USART0 := BIT 6, TX_CTL := BIT 0), accesses = []\<rparr>\<rparr>"
  have "tc_raised ?p" "\<not> idle_raised ?p" by (simp_all add: tc_raised_def idle_raised_def dma_reg_defs)
  from transmission_complete_rearms [OF this, of sample_semaphore sample_kernel] show ?thesis by auto
qed

section \<open>The slave and its environment\<close>

text \<open>
  What the hardware may do to the port between two steps of the program: it changes the status and
  data registers and counts transfers, but a channel that is not enabled transfers nothing, and
  transmission is not complete unless something is being sent or was just completed.
\<close>

definition hardware :: "mb_port \<Rightarrow> mb_port \<Rightarrow> bool" where
  "hardware p p' \<longleftrightarrow> (\<forall>a. a \<notin> {STAT0, USART_DATA USART0, RX_CNT, TX_CNT} \<longrightarrow> regs (mm p') a = regs (mm p) a)
     \<and> (\<not> receiving p \<longrightarrow> regs (mm p') RX_CNT = regs (mm p) RX_CNT \<and> rx_buf p' = rx_buf p)
     \<and> (bit (regs (mm p') STAT0) 6 \<longrightarrow> bit (regs (mm p) STAT0) 6 \<or> sending p)
     \<and> length (rx_buf p') = length (rx_buf p) \<and> frame_len p' = frame_len p"

text \<open>A step of the system; the polls are passes of the slave's task, with ticks at any point.\<close>

inductive slave_step :: "u32 \<Rightarrow> mb_slave \<times> kernel \<Rightarrow> mb_slave \<times> kernel \<Rightarrow> bool" for tx_addr where
  hw: "hardware (port s) p \<Longrightarrow> slave_step tx_addr (s, k) (s\<lparr>port := p\<rparr>, k)"
| irq: "idle_raised (port s) \<or> tc_raised (port s) \<Longrightarrow> USART0_IRQHandler (port s) (xSemaphore s) k = Some (p, q, k') \<Longrightarrow>
    slave_step tx_addr (s, k) (s\<lparr>port := p, xSemaphore := q\<rparr>, k')"
| tick: "xTaskIncrementTick k = Some (sw, k') \<Longrightarrow> slave_step tx_addr (s, k) (s, yield_if sw k')"
| switch: "vTaskSwitchContext k = Some k' \<Longrightarrow> slave_step tx_addr (s, k) (s, k')"
| poll: "\<forall>n. set (env n) \<subseteq> {IsrTick} \<Longrightarrow> mb_slave_poll env tx_addr regs0 fr w s k = Some (c, s', k') \<Longrightarrow>
    slave_step tx_addr (s, k) (s', k')"

definition deaf :: "mb_slave \<Rightarrow> bool" where
  "deaf s \<longleftrightarrow> \<not> receiving (port s) \<and> \<not> sending (port s) \<and> \<not> bit (regs (mm (port s)) STAT0) 6
     \<and> (received 0 (port s) \<or> received 256 (port s))
     \<and> uxMessagesWaiting (xSemaphore s) = 0 \<and> uxItemSize (xSemaphore s) = 0 \<and> \<not> queueQUEUE_IS_MUTEX (xSemaphore s)"

lemma ticks_keep_queue:
  "set is \<subseteq> {IsrTick} \<Longrightarrow> isr_execs is q k = Some x \<Longrightarrow> fst x = q"
  by (induction "is" arbitrary: k) (auto simp: isr_exec_def bind_eq_Some_conv split: prod.splits)

definition nothing_taken :: "Queue_t \<Rightarrow> Queue_t \<Rightarrow> bool" where
  "nothing_taken q q' \<longleftrightarrow> uxMessagesWaiting q' = uxMessagesWaiting q \<and> uxItemSize q' = uxItemSize q
     \<and> queueQUEUE_IS_MUTEX q' = queueQUEUE_IS_MUTEX q"

lemma nothing_taken_refl: "nothing_taken q q"
  by (simp add: nothing_taken_def)

lemma nothing_taken_trans: "nothing_taken q q1 \<Longrightarrow> nothing_taken q1 q2 \<Longrightarrow> nothing_taken q q2"
  by (simp add: nothing_taken_def)

lemma nothing_taken_lock: "nothing_taken q (prvLockQueue q)"
  by (simp add: nothing_taken_def prvLockQueue_def)

lemma unlock_fields:
  "unlock_tx q k = Some x \<Longrightarrow> nothing_taken q (fst x)" "unlock_rx q k = Some x \<Longrightarrow> nothing_taken q (fst x)"
  by (auto simp: unlock_tx_def unlock_rx_def bind_eq_Some_conv nothing_taken_def)

lemma place_queue:
  assumes "\<forall>n. set (env n) \<subseteq> {IsrTick}"
    and "(if b then do {
         (q, k) \<leftarrow> isr_execs (env 4) q k;
         (inh, k) \<leftarrow> before inh q k;
         (q, k) \<leftarrow> isr_execs (env 5) q k;
         k \<leftarrow> vTaskPlaceOnEventList l ticks k;
         Some (inh, True, q, k)
       } else Some (inh, False, q, k)) = Some y"
  shows "fst (snd (snd y)) = q"
proof (cases b)
  case True
  then show ?thesis
    using assms(2) ticks_keep_queue [OF assms(1) [rule_format]]
    by (simp add: case_prod_beta bind_eq_Some_conv) (metis fst_conv snd_conv)
qed (use assms(2) in auto)

lemma wait_section_queue:
  assumes "\<forall>n. set (env n) \<subseteq> {IsrTick}" and "wait_section env blocked l before inh to ticks q k = Some y"
  shows "nothing_taken q (fst (snd (snd (snd (snd y)))))"
proof -
  note keep = ticks_keep_queue [OF assms(1) [rule_format]]
  from assms(2) [unfolded wait_section_def Let_def case_prod_beta bind_eq_Some_conv]
  show ?thesis
    apply (elim exE conjE)
    apply (drule keep | drule unlock_fields | drule place_queue [OF assms(1), unfolded case_prod_beta])+
    apply (auto simp: nothing_taken_def nothing_taken_lock [unfolded nothing_taken_def])
    done
qed

lemma take_of_empty:
  assumes "uxMessagesWaiting q = 0" and "uxItemSize q = 0" and "\<not> queueQUEUE_IS_MUTEX q"
    and "\<forall>n. set (env n) \<subseteq> {IsrTick}" and "xQueueSemaphoreTake env w q k = Some (c, q', k')"
  shows "nothing_taken q q' \<and> c \<noteq> Ret True"
proof -
  obtain tmo ticks inh where w: "w = ((tmo, ticks), inh)" by (metis surj_pair)
  have n: "take_section q k = Some (False, q, k)" using assms(1) by (simp add: take_section_def)
  show ?thesis
  proof (cases "ticks = 0")
    case True
    then show ?thesis using assms(5) n assms(2) by (auto simp: xQueueSemaphoreTake_def w nothing_taken_refl)
  next
    case False
    from assms(5) obtain x0 x1 x2 k2 where x: "isr_execs (env 0) q k = Some x0"
      "wait_section env prvIsQueueEmpty (xTasksWaitingToReceive (fst x0)) inherit_before inh (entry_time tmo k) ticks (fst x0) (snd x0) = Some x1"
      "isr_execs (env 9) (fst (snd (snd (snd (snd x1))))) (snd (snd (snd (snd (snd x1))))) = Some x2"
      "q' = fst x2" "c = when_over (fst x1) (fst x2) False ((Some (fst (snd (snd x1))), fst (snd (snd (snd x1)))), fst (snd x1))"
      using False n assms(2)
      by (auto simp: xQueueSemaphoreTake_def w case_prod_beta bind_eq_Some_conv Let_def split: if_splits)
    have "nothing_taken q q'"
      using wait_section_queue [OF assms(4) x(2)] ticks_keep_queue [OF assms(4) [rule_format] x(1)]
        ticks_keep_queue [OF assms(4) [rule_format] x(3)] x(4) by simp
    then show ?thesis using x(5) by (simp add: when_over_def)
  qed
qed

lemma deaf_idle:
  assumes "idle_raised (port s)" and "\<not> bit (regs (mm (port s)) STAT0) 6" and "received 0 (port s) \<or> received 256 (port s)"
    and "\<not> sending (port s)" and "uxMessagesWaiting (xSemaphore s) = 0" and "uxItemSize (xSemaphore s) = 0"
    and "\<not> queueQUEUE_IS_MUTEX (xSemaphore s)"
  shows "\<exists>p. USART0_IRQHandler (port s) (xSemaphore s) k = Some (p, xSemaphore s, k) \<and> deaf (s\<lparr>port := p\<rparr>) \<and> rx_buf p = rx_buf (port s)"
proof -
  obtain n where n: "received n (port s)" "n = 0 \<or> n = 256" using assms(3) by blast
  have tc: "\<not> tc_raised (port s)" using assms(2) by (simp add: tc_raised_def)
  obtain m where m: "USART0_IRQHandler (port s) (xSemaphore s) k
      = Some ((port s)\<lparr>mm := m, frame_len := of_nat n\<rparr>, xSemaphore s, yield_if False k)" "stopped (port s) m"
    using handler_idle [OF assms(1) tc n(1), of "xSemaphore s" k _ False "xSemaphore s" k] n(2) by auto
  let ?p = "(port s)\<lparr>mm := m, frame_len := of_nat n\<rparr>"
  have "deaf (s\<lparr>port := ?p\<rparr>)"
    using stopped_facts [OF m(2)] m(2) n assms(2,4-7) by (auto simp: deaf_def stopped_def dma_reg_defs)
  then show ?thesis using m(1) by (simp add: yield_if_def)
qed

lemma deaf_step:
  assumes "slave_step A x y" and "deaf (fst x)"
  shows "deaf (fst y) \<and> data (fst y) = data (fst x) \<and> s_tx_buf (fst y) = s_tx_buf (fst x) \<and> rx_buf (port (fst y)) = rx_buf (port (fst x))"
  using assms
proof (induction rule: slave_step.induct)
  case (hw s p k)
  then show ?case by (auto simp: deaf_def hardware_def receiving_def sending_def received_def dma_reg_defs)
next
  case (irq s k p q k')
  then have "\<not> tc_raised (port s)" by (simp add: deaf_def tc_raised_def)
  then have "idle_raised (port s)" using irq by simp
  then obtain p' where "USART0_IRQHandler (port s) (xSemaphore s) k = Some (p', xSemaphore s, k)" "deaf (s\<lparr>port := p'\<rparr>)"
    "rx_buf p' = rx_buf (port s)"
    using deaf_idle [of s k] irq.prems by (auto simp: deaf_def)
  then show ?case using irq by simp
next
  case (poll env regs0 fr w s k c s' k')
  obtain c0 q0 k0 where t: "xQueueSemaphoreTake env w (xSemaphore s) k = Some (c0, q0, k0)"
    using poll(2) by (auto simp: mb_slave_poll_def bind_eq_Some_conv)
  have e: "nothing_taken (xSemaphore s) q0" "c0 \<noteq> Ret True"
    using take_of_empty [OF _ _ _ poll(1) t] poll.prems by (auto simp: deaf_def)
  then have "s' = s\<lparr>xSemaphore := q0\<rparr>"
    using poll(2) t by (auto simp: mb_slave_poll_def Let_def split: call.splits if_splits)
  then show ?case using poll.prems e(1) by (auto simp: deaf_def nothing_taken_def)
qed auto

lemma deaf_steps:
  "(slave_step A)\<^sup>*\<^sup>* x y \<Longrightarrow> deaf (fst x) \<Longrightarrow>
   deaf (fst y) \<and> data (fst y) = data (fst x) \<and> s_tx_buf (fst y) = s_tx_buf (fst x) \<and> rx_buf (port (fst y)) = rx_buf (port (fst x))"
  by (induction rule: rtranclp_induct) (auto dest: deaf_step)

text \<open>
  C2: an idle line without a frame silences the slave for good. When the idle interrupt finds that
  the receive channel counted no byte, or a full buffer, and nothing is being sent or waiting to be
  processed, it switches reception off without waking the task, and no later step, whatever the
  hardware, further interrupts, ticks, context switches and polls do, ever receives another byte,
  processes a request, or changes a register or the transmit buffer.
\<close>
theorem idle_without_frame_deafens:
  assumes "idle_raised (port s)" and "\<not> bit (regs (mm (port s)) STAT0) 6" and "received 0 (port s) \<or> received 256 (port s)"
    and "\<not> sending (port s)" and "uxMessagesWaiting (xSemaphore s) = 0" and "uxItemSize (xSemaphore s) = 0"
    and "\<not> queueQUEUE_IS_MUTEX (xSemaphore s)"
  shows "\<exists>p. USART0_IRQHandler (port s) (xSemaphore s) k = Some (p, xSemaphore s, k)
    \<and> (\<forall>s' k'. (slave_step A)\<^sup>*\<^sup>* (s\<lparr>port := p\<rparr>, k) (s', k') \<longrightarrow>
        \<not> receiving (port s') \<and> \<not> sending (port s') \<and> uxMessagesWaiting (xSemaphore s') = 0
        \<and> data s' = data s \<and> s_tx_buf s' = s_tx_buf s \<and> rx_buf (port s') = rx_buf (port s))"
proof -
  obtain p where p: "USART0_IRQHandler (port s) (xSemaphore s) k = Some (p, xSemaphore s, k)" "deaf (s\<lparr>port := p\<rparr>)"
    "rx_buf p = rx_buf (port s)"
    using deaf_idle [OF assms, of k] by blast
  have "\<not> receiving (port s') \<and> \<not> sending (port s') \<and> uxMessagesWaiting (xSemaphore s') = 0
        \<and> data s' = data s \<and> s_tx_buf s' = s_tx_buf s \<and> rx_buf (port s') = rx_buf (port s)"
    if "(slave_step A)\<^sup>*\<^sup>* (s\<lparr>port := p\<rparr>, k) (s', k')" for s' k'
    using deaf_steps [OF that] p(2,3) by (simp add: deaf_def)
  then show ?thesis using p(1) by blast
qed

definition silent_slave :: mb_slave where
  "silent_slave = sample_slave\<lparr>port := sample_port\<lparr>mm := \<lparr>regs = (\<lambda>_. 0)(STAT0 := BIT 4, USART_CTL0 USART0 := BIT 4 OR BIT 6,
     RX_CNT := 256, RX_CTL := BIT 0), accesses = []\<rparr>\<rparr>\<rparr>"

text \<open>The line is idle once more.\<close>

lemma idle_without_frame_deafens_witness:
  "\<exists>p. USART0_IRQHandler (port silent_slave) (xSemaphore silent_slave) sample_kernel = Some (p, xSemaphore silent_slave, sample_kernel)
    \<and> \<not> receiving (p\<lparr>mm := (mm p)\<lparr>regs := (regs (mm p))(STAT0 := BIT 4)\<rparr>\<rparr>)"
proof -
  have s: "idle_raised (port silent_slave)" "\<not> bit (regs (mm (port silent_slave)) STAT0) 6"
    "received 0 (port silent_slave) \<or> received 256 (port silent_slave)" "\<not> sending (port silent_slave)"
    "uxMessagesWaiting (xSemaphore silent_slave) = 0" "uxItemSize (xSemaphore silent_slave) = 0"
    "\<not> queueQUEUE_IS_MUTEX (xSemaphore silent_slave)"
    by (simp_all add: silent_slave_def idle_raised_def sending_def received_def dma_reg_defs sample_semaphore_def
        sample_queue_def bit_simps)
  obtain p where p: "USART0_IRQHandler (port silent_slave) (xSemaphore silent_slave) sample_kernel
      = Some (p, xSemaphore silent_slave, sample_kernel)"
    "\<forall>s' k'. (slave_step 0)\<^sup>*\<^sup>* (silent_slave\<lparr>port := p\<rparr>, sample_kernel) (s', k') \<longrightarrow>
        \<not> receiving (port s') \<and> \<not> sending (port s') \<and> uxMessagesWaiting (xSemaphore s') = 0
        \<and> data s' = data silent_slave \<and> s_tx_buf s' = s_tx_buf silent_slave \<and> rx_buf (port s') = rx_buf (port silent_slave)"
    using idle_without_frame_deafens [OF s, of sample_kernel 0] by blast
  let ?p = "p\<lparr>mm := (mm p)\<lparr>regs := (regs (mm p))(STAT0 := BIT 4)\<rparr>\<rparr>"
  have "hardware (port (silent_slave\<lparr>port := p\<rparr>)) ?p" by (auto simp: hardware_def dma_reg_defs)
  from slave_step.hw [OF this] have "(slave_step 0)\<^sup>*\<^sup>* (silent_slave\<lparr>port := p\<rparr>, sample_kernel) (silent_slave\<lparr>port := ?p\<rparr>, sample_kernel)"
    by (auto intro: r_into_rtranclp)
  then have "\<not> receiving (port (silent_slave\<lparr>port := ?p\<rparr>))" using p(2) by blast
  then show ?thesis using p(1) by auto
qed

end
