(* ===== verification/Mb_Init.thy ===== *)
theory Mb_Init
  imports Mb_Slave
begin

text \<open>
  Initialisation of the slave: from any state of the peripherals, it leaves the serial line
  listening, with the bus released, the registers cleared and the semaphore empty.
\<close>

section \<open>Reading one register\<close>

text \<open>Register reads and the driver-enable pin after one access, without the whole register file.\<close>

lemma regs_at:
  "regs (wr a v m) b = (if b = a then v else regs m b)"
  "regs (reg_or a v m) b = (if b = a then regs m a OR v else regs m b)"
  "regs (reg_clr a v m) b = (if b = a then regs m a AND NOT v else regs m b)"
  "regs (snd (rd a m)) b = regs m b"
  by simp_all

definition pin_reg :: "u32 \<Rightarrow> bool" where
  "pin_reg a \<longleftrightarrow> a = GPIO_BOP GPIOA \<or> a = GPIO_BC GPIOA"

abbreviation pin :: "mmio \<Rightarrow> bool" where
  "pin m \<equiv> pin_level GPIOA 8 False (accesses m)"

lemma pin_at:
  "\<not> pin_reg a \<Longrightarrow> pin (wr a v m) = pin m"
  "\<not> pin_reg a \<Longrightarrow> pin (reg_or a v m) = pin m"
  "\<not> pin_reg a \<Longrightarrow> pin (reg_clr a v m) = pin m"
  "pin (snd (rd a m)) = pin m"
  by (simp_all add: pin_reg_def)

lemmas step_simps = regs_at pin_at pin_reg_def

section \<open>The registers of the line\<close>

text \<open>The bits of a register that must be 1 and those that must be 0.\<close>

definition has_bits :: "u32 \<Rightarrow> nat list \<Rightarrow> nat list \<Rightarrow> bool" where
  "has_bits v ones zeros \<longleftrightarrow> list_all (bit v) ones \<and> list_all (\<lambda>n. \<not> bit v n) zeros"

lemma has_bits_simps [simp]:
  "has_bits v [] []" "has_bits v (n # ns) zs \<longleftrightarrow> bit v n \<and> has_bits v ns zs" "has_bits v [] (n # zs) \<longleftrightarrow> \<not> bit v n \<and> has_bits v [] zs"
  by (auto simp: has_bits_def)

text \<open>The clocks of port A, the alternate functions, USART0 and the DMA controller run.\<close>

definition clocks_run :: "mmio \<Rightarrow> bool" where
  "clocks_run m \<longleftrightarrow> has_bits (regs m (RCU + 0x18)) [0, 2, 14] [] \<and> has_bits (regs m (RCU + 0x14)) [0] []"

text \<open>
  PA8 and PA9 are push-pull outputs at 50 MHz, PA9 for its alternate function, and PA10 is a floating
  input: the low twelve bits of the mode register.
\<close>

definition pins_set_up :: "mmio \<Rightarrow> bool" where
  "pins_set_up m \<longleftrightarrow> has_bits (regs m (GPIO_CTL1 GPIOA)) [0, 1, 4, 5, 7, 10] [2, 3, 6, 8, 9, 11]"

text \<open>
  USART0 is enabled, with its receiver (bit 2), its transmitter (bit 3), the idle and
  transmission-complete interrupts (bits 4 and 6), words of 8 bits (12), no parity (9, 10), one stop
  bit, and requests to the DMA controller in both directions.
\<close>

definition uart_set_up :: "mmio \<Rightarrow> bool" where
  "uart_set_up m \<longleftrightarrow> has_bits (regs m (USART_CTL0 USART0)) [2, 3, 4, 6, 13] [9, 10, 12]
     \<and> has_bits (regs m (USART_CTL1 USART0)) [] [12, 13] \<and> has_bits (regs m (USART_CTL2 USART0)) [6, 7] []"

text \<open>
  The receive channel runs (bit 0), from the data register to memory (bit 4 clear), in circles (5),
  with rising memory addresses only (6, 7), by bytes (8 to 11), with high priority (12, 13) and no
  interrupts; the transmit channel is the same in the other direction, stopped and without circles.
\<close>

definition dma_set_up :: "u32 \<Rightarrow> mmio \<Rightarrow> bool" where
  "dma_set_up rx_addr m \<longleftrightarrow>
     has_bits (regs m RX_CTL) [0, 5, 7, 13] [1, 2, 3, 4, 6, 8, 9, 10, 11, 12, 14]
     \<and> regs m (DMA_CHPADDR DMA0 DMA_CH4) = USART_DATA USART0 \<and> regs m (DMA_CHMADDR DMA0 DMA_CH4) = rx_addr \<and> regs m RX_CNT = 256
     \<and> has_bits (regs m TX_CTL) [4, 7, 13] [0, 1, 2, 3, 5, 6, 8, 9, 10, 11, 12, 14]
     \<and> regs m (DMA_CHPADDR DMA0 DMA_CH3) = USART_DATA USART0"

text \<open>Interrupt 37 is bit 5 of the second enable register.\<close>

definition irq_enabled :: "mmio \<Rightarrow> bool" where
  "irq_enabled m \<longleftrightarrow> has_bits (regs m (NVIC_ISER 1)) [5] []"

definition line_set_up :: "u32 \<Rightarrow> mmio \<Rightarrow> bool" where
  "line_set_up rx_addr m \<longleftrightarrow> clocks_run m \<and> pins_set_up m \<and> uart_set_up m \<and> dma_set_up rx_addr m \<and> irq_enabled m"

section \<open>The parts of the initialisation\<close>

lemmas no_whole_file = regs_wr regs_reg_or regs_reg_clr accesses_wr accesses_reg_or accesses_reg_clr

lemma clocks_part: "clocks_run (port_clocks m)" "regs (port_clocks m) RCU_CFG0 = regs m RCU_CFG0" "regs (port_clocks m) RCU_CFG1 = regs m RCU_CFG1"
  by (simp_all add: clocks_run_def port_clocks_def rcu_periph_clock_enable_def RCU_REG_VAL_def RCU_BIT_POS_def RCU_REGIDX_BIT_def
      Let_def step_simps bit_simps del: no_whole_file)

lemma mode_bits:
  "gpio_temp_mode GPIO_MODE_AF_PP GPIO_OSPEED_50MHZ = 0xB" "gpio_temp_mode GPIO_MODE_IN_FLOATING GPIO_OSPEED_50MHZ = 4"
  "gpio_temp_mode GPIO_MODE_OUT_PP GPIO_OSPEED_50MHZ = 3"
  by (simp_all add: gpio_temp_mode_def Let_def)

lemma pins_part: "\<not> pin (port_pins m)" "pins_set_up (port_pins m)"
proof -
  show "\<not> pin (port_pins m)" by (simp add: port_pins_def gpio_bit_reset_def gpio_reg_defs Let_def)
  have g: "n < 32 \<Longrightarrow> bit (regs (gpio_init g mode GPIO_OSPEED_50MHZ p m) (GPIO_CTL1 g)) n
      = (if bit p (8 + n div 4) then bit (gpio_temp_mode mode GPIO_OSPEED_50MHZ) (n mod 4) else bit (regs m (GPIO_CTL1 g)) n)" for g mode p m n
    using gpio_init_sets_selected_pins [of GPIO_OSPEED_50MHZ n g mode p m] by simp
  show "pins_set_up (port_pins m)"
    by (simp add: pins_set_up_def port_pins_def gpio_bit_reset_def Let_def g mode_bits bit_simps)
qed

lemma gpio_init_frame:
  assumes "unat speed < 2 ^ 4" and "a \<noteq> GPIO_CTL0 g" "a \<noteq> GPIO_CTL1 g" "a \<noteq> GPIO_BC g" "a \<noteq> GPIO_BOP g" "a \<noteq> GPIOx_SPD g"
  shows "regs (gpio_init g mode speed p m) a = regs m a"
proof -
  have "regs (fold (gpio_pin_config g mode (gpio_temp_mode mode speed) p (GPIO_CTL0 g) 0) [0..<8] x) a = regs x a"
    "regs (fold (gpio_pin_config g mode (gpio_temp_mode mode speed) p (GPIO_CTL1 g) 8) [8..<16] x) a = regs x a" for x
    using pin_config_loop [OF _ temp_mode_4_bits [OF assms(1)], of "GPIO_CTL0 g" g 8 mode mode p 0 x]
      pin_config_loop [OF _ temp_mode_4_bits [OF assms(1)], of "GPIO_CTL1 g" g 8 mode mode p 8 x] assms(2-5) by auto
  then show ?thesis using assms(6) by (simp only: gpio_init_def Let_def) simp
qed

lemma pins_frame:
  assumes "a \<in> {RCU + 0x18, RCU + 0x14, RCU_CFG0, RCU_CFG1}"
  shows "regs (port_pins m) a = regs m a"
proof -
  have n: "a \<noteq> GPIO_CTL0 GPIOA" "a \<noteq> GPIO_CTL1 GPIOA" "a \<noteq> GPIO_BC GPIOA" "a \<noteq> GPIO_BOP GPIOA" "a \<noteq> GPIOx_SPD GPIOA"
    using assms by (auto simp: gpio_reg_defs)
  have "unat GPIO_OSPEED_50MHZ < 2 ^ 4" by simp
  note f = gpio_init_frame [OF this n]
  show ?thesis using n by (simp add: port_pins_def Let_def gpio_bit_reset_def f)
qed

lemma uart_part:
  assumes "baud \<noteq> 0"
  shows "\<exists>m0 m'. usart_baudrate_set USART0 baud m = Some m0 \<and> port_uart baud m = Some m' \<and> pin m' = pin m \<and> uart_set_up m'
    \<and> regs m' (USART_BAUD USART0) = regs m0 (USART_BAUD USART0)
    \<and> (\<forall>a \<in> {RCU + 0x18, RCU + 0x14, GPIO_CTL1 GPIOA}. regs m' a = regs m a)"
  using assms
  by (simp add: uart_set_up_def port_uart_def usart_baudrate_set_def usart_defs Let_def case_prod_beta step_simps gpio_reg_defs bit_simps regidx_bit
      del: no_whole_file)

lemma dma_part:
  "\<exists>m'. port_dma rx_addr m = Some m' \<and> pin m' = pin m \<and> dma_set_up rx_addr m'
    \<and> (\<forall>a \<in> {RCU + 0x18, RCU + 0x14, GPIO_CTL1 GPIOA, USART_CTL0 USART0, USART_CTL1 USART0, USART_CTL2 USART0, USART_BAUD USART0}.
        regs m' a = regs m a)"
  by (simp add: dma_set_up_def port_dma_def dma_deinit_def dma_init_def dma_defs Let_def case_prod_beta rx_params_def tx_params_def
      dma_struct_para_init_def step_simps dma_reg_defs gpio_reg_defs bit_simps CHCTL_PWIDTH_def CHCTL_MWIDTH_def CHCTL_PRIO_def
      del: no_whole_file)

lemma nvic_part:
  "pin (nvic_irq_enable 37 p q m) = pin m" "irq_enabled (nvic_irq_enable 37 p q m)"
  "a < 0xE0000000 \<Longrightarrow> regs (nvic_irq_enable 37 p q m) a = regs m a"
  by (auto simp: irq_enabled_def nvic_irq_enable_def NVIC_GetPriorityGrouping_def NVIC_SetPriority_def NVIC_EnableIRQ_def
      nvic_priority_group_set_def wr8_def Let_def case_prod_beta step_simps gpio_reg_defs dma_reg_defs simp del: no_whole_file)

lemma baud_clock:
  assumes "regs m RCU_CFG0 = regs m' RCU_CFG0" and "regs m RCU_CFG1 = regs m' RCU_CFG1"
    and "usart_baudrate_set USART0 baud m = Some m0"
  shows "\<exists>m1. usart_baudrate_set USART0 baud m' = Some m1 \<and> regs m1 (USART_BAUD USART0) = regs m0 (USART_BAUD USART0)"
proof -
  have "rcu_clock_freq_get CK_APB2 m = rcu_clock_freq_get CK_APB2 m'"
    unfolding rcu_clock_freq_get_def pll_ck_src_def pll_mf_def assms(1,2) by (rule refl)
  then show ?thesis using assms(3) by (auto simp: usart_baudrate_set_def Let_def split: if_splits)
qed

lemma port_init_effect:
  assumes "baud \<noteq> 0"
  shows "\<exists>m m0. mb_slv_port_init rx_addr baud p = Some (0, p\<lparr>mm := m\<rparr>) \<and> \<not> pin m \<and> line_set_up rx_addr m
    \<and> usart_baudrate_set USART0 baud (mm p) = Some m0 \<and> regs m (USART_BAUD USART0) = regs m0 (USART_BAUD USART0)"
proof -
  let ?c = "port_clocks (mm p)"
  let ?p = "port_pins ?c"
  obtain m1 b where m1: "port_uart baud ?p = Some m1" "pin m1 = pin ?p" "uart_set_up m1" "usart_baudrate_set USART0 baud ?p = Some b"
    "regs m1 (USART_BAUD USART0) = regs b (USART_BAUD USART0)"
    "\<forall>a \<in> {RCU + 0x18, RCU + 0x14, GPIO_CTL1 GPIOA}. regs m1 a = regs ?p a"
    using uart_part [OF assms, of ?p] by blast
  obtain m2 where m2: "port_dma rx_addr m1 = Some m2" "pin m2 = pin m1" "dma_set_up rx_addr m2"
    "\<forall>a \<in> {RCU + 0x18, RCU + 0x14, GPIO_CTL1 GPIOA, USART_CTL0 USART0, USART_CTL1 USART0, USART_CTL2 USART0, USART_BAUD USART0}.
      regs m2 a = regs m1 a"
    using dma_part [of rx_addr m1] by blast
  obtain m0 where m0: "usart_baudrate_set USART0 baud (mm p) = Some m0" "regs m0 (USART_BAUD USART0) = regs b (USART_BAUD USART0)"
    using baud_clock [OF _ _ m1(4), of "mm p"] pins_frame [of _ ?c] clocks_part(2,3) by auto
  let ?m = "nvic_irq_enable 37 (configMAX_SYSCALL_INTERRUPT_PRIORITY + 1) 0 m2"
  note keep = nvic_part(3)
  have "clocks_run ?m" using clocks_part(1) [of "mm p"] m1(6) m2(4) pins_frame [of _ ?c] by (simp add: clocks_run_def keep)
  moreover have "pins_set_up ?m" using pins_part(2) [of ?c] m1(6) m2(4) by (simp add: pins_set_up_def keep gpio_reg_defs)
  moreover have "uart_set_up ?m" using m1(3) m2(4) by (simp add: uart_set_up_def keep)
  moreover have "dma_set_up rx_addr ?m" using m2(3) by (simp add: dma_set_up_def keep dma_reg_defs)
  moreover have "regs ?m (USART_BAUD USART0) = regs m0 (USART_BAUD USART0)" using m0(2) m1(5) m2(4) by (simp add: keep)
  moreover have "\<not> pin ?m" using m1(2) m2(2) pins_part(1) nvic_part(1) by simp
  moreover have "mb_slv_port_init rx_addr baud p = Some (0, p\<lparr>mm := ?m\<rparr>)"
    using m1(1) m2(1) by (simp add: mb_slv_port_init_def Let_def)
  ultimately show ?thesis using m0(1) nvic_part(2) unfolding line_set_up_def by blast
qed

lemma line_set_up_rx_start:
  assumes "line_set_up rx_addr m" and "regs m2 = (regs m)(RX_CTL := (regs m RX_CTL AND NOT (BIT 0) OR BIT 5) OR BIT 0, RX_CNT := 256)"
  shows "line_set_up rx_addr m2" and "regs m2 (USART_BAUD USART0) = regs m (USART_BAUD USART0)"
  using assms(1)
  by (simp_all add: line_set_up_def clocks_run_def pins_set_up_def uart_set_up_def dma_set_up_def irq_enabled_def assms(2)
      dma_reg_defs gpio_reg_defs bit_simps)

text \<open>
  C30: initialisation succeeds from any state of the peripherals and of the slave's memory. It
  leaves the slave with its address, all registers zero and an empty unlocked semaphore; the
  clocks run, the pins have their modes and the bus is released; the serial port is enabled with its
  receiver, its transmitter, both its interrupts and both its requests to the DMA controller, at the baud
  rate \<open>usart_baudrate_set\<close> computes; the receive channel runs from the port's data register into
  the receive buffer with room for a whole frame, the transmit channel is set up in the other
  direction and stopped; and the interrupt controller passes the port's interrupt.
\<close>
theorem init_listens:
  assumes "length (hold_regs (data s)) = HOLD_REG_COUNT" and "baud \<noteq> 0"
  shows "\<exists>s' k' m0. mb_slave_init rx_addr snd_list rcv_list addr baud s k = Some (0, s', k')
    \<and> s_slave_addr s' = addr \<and> hold_regs (data s') = replicate HOLD_REG_COUNT 0 \<and> mb_data_ok (data s')
    \<and> value_queue (xSemaphore s') \<and> queue_items (xSemaphore s') = [] \<and> unlocked (xSemaphore s')
    \<and> line_set_up rx_addr (mm (port s')) \<and> receiving (port s') \<and> received 0 (port s')
    \<and> usart_baudrate_set USART0 baud (mm (port s)) = Some m0 \<and> regs (mm (port s')) (USART_BAUD USART0) = regs m0 (USART_BAUD USART0)
    \<and> \<not> sending (port s') \<and> \<not> driver_enabled (port s')"
proof -
  have d: "mb_data_init (data s) = Some (0, (data s)\<lparr>hold_regs := replicate HOLD_REG_COUNT 0\<rparr>)"
    using assms(1) mb_data_init_eq [of "data s"] by (simp add: mb_data_ok_def)
  obtain q k' where q: "prvInitialiseNewQueue 1 0 [] snd_list rcv_list k = Some (q, k')" "value_queue q" "queue_items q = []"
    using new_queue [of 1 0 "[]" snd_list rcv_list k] by auto
  have u: "unlocked q"
    using q(1) by (auto simp: prvInitialiseNewQueue_def xQueueGenericReset_def Let_def unlocked_def split: if_splits)
  obtain m m0 where m: "mb_slv_port_init rx_addr baud (port s) = Some (0, (port s)\<lparr>mm := m\<rparr>)" "\<not> pin m" "line_set_up rx_addr m"
    "usart_baudrate_set USART0 baud (mm (port s)) = Some m0" "regs m (USART_BAUD USART0) = regs m0 (USART_BAUD USART0)"
    using port_init_effect [OF assms(2)] by blast
  obtain m2 where m2: "mb_slv_port_rx_start ((port s)\<lparr>mm := m\<rparr>) = Some ((port s)\<lparr>mm := m2\<rparr>)"
    "regs m2 = (regs m)(RX_CTL := (regs m RX_CTL AND NOT (BIT 0) OR BIT 5) OR BIT 0, RX_CNT := 256)" "pin m2 = pin m"
    using rx_start_effect [of "(port s)\<lparr>mm := m\<rparr>" False] by auto
  note l = line_set_up_rx_start [OF m(3) m2(2)]
  have "bit (regs m2 RX_CTL) 0" "regs m2 RX_CNT = 256" "\<not> bit (regs m2 TX_CTL) 0"
    using l(1) by (simp_all add: line_set_up_def dma_set_up_def)
  then show ?thesis
    using q u m(1,2,4,5) m2(3) l
    by (simp add: mb_slave_init_def d xQueueGenericCreateStatic_def m2(1) mb_data_ok_def receiving_def received_def sending_def
        driver_enabled_def)
qed

lemma init_listens_witness:
  "\<exists>s' k'. mb_slave_init 0x20000000 (EventList 8) (EventList 9) MB_SLV_ADDR 38400 sample_slave sample_kernel = Some (0, s', k')
    \<and> s_slave_addr s' = 8 \<and> line_set_up 0x20000000 (mm (port s')) \<and> \<not> sending (port s') \<and> \<not> driver_enabled (port s')"
proof -
  have "length (hold_regs (data sample_slave)) = HOLD_REG_COUNT" by (simp add: sample_data_def HOLD_REG_COUNT_def)
  moreover have "(38400 :: u32) \<noteq> 0" by simp
  ultimately show ?thesis using init_listens [of sample_slave 38400] by blast
qed

end
