(* ===== verification/Reg_Bank.thy ===== *)
theory Reg_Bank
  imports Fw_Base
begin

text \<open>
  The contract of a bank of 16-bit registers behind a read and a write function: every access
  returns, a write changes the register it names when the bank has it, and nothing else. Clients
  get the effect of any sequence of writes from it. The Modbus holding registers and the DSP
  mirror both provide it.
\<close>

primrec puts :: "('s \<Rightarrow> u16 \<Rightarrow> u16 \<Rightarrow> 's option) \<Rightarrow> 's \<Rightarrow> (u16 \<times> u16) list \<Rightarrow> 's option" where
  "puts put s [] = Some s"
| "puts put s (w # ws) = do { s' \<leftarrow> put s (fst w) (snd w); puts put s' ws }"

text \<open>The last value a sequence of writes assigns to an address.\<close>

definition last_write :: "(u16 \<times> u16) list \<Rightarrow> u16 \<Rightarrow> u16 option" where
  "last_write ws a = map_of (rev ws) a"

lemma last_write_Nil [simp]: "last_write [] a = None"
  by (simp add: last_write_def)

lemma last_write_Cons:
  "last_write (w # ws) a = (case last_write ws a of Some v \<Rightarrow> Some v
     | None \<Rightarrow> if fst w = a then Some (snd w) else None)"
  by (cases w) (auto simp: last_write_def map_add_def split: option.split)

locale reg_bank =
  fixes ok :: "'s \<Rightarrow> bool"
    and mapped :: "u16 \<Rightarrow> bool"
    and get :: "'s \<Rightarrow> u16 \<Rightarrow> u16 option"
    and put :: "'s \<Rightarrow> u16 \<Rightarrow> u16 \<Rightarrow> 's option"
  assumes get_total: "ok s \<Longrightarrow> \<exists>v. get s a = Some v"
    and put_total: "ok s \<Longrightarrow> \<exists>s'. put s a v = Some s' \<and> ok s'"
    and get_put: "ok s \<Longrightarrow> put s a v = Some s' \<Longrightarrow>
      get s' b = (if b = a \<and> mapped a then Some v else get s b)"
begin

lemma puts_total: "ok s \<Longrightarrow> \<exists>s'. puts put s ws = Some s' \<and> ok s'"
proof (induction ws arbitrary: s)
  case (Cons w ws)
  obtain t where "put s (fst w) (snd w) = Some t" "ok t"
    using put_total Cons.prems by blast
  with Cons.IH show ?case by simp
qed simp

text \<open>Reading after any sequence of writes gives the last value written to that register.\<close>

lemma get_puts:
  "ok s \<Longrightarrow> puts put s ws = Some s' \<Longrightarrow>
   get s' b = (case last_write ws b of Some v \<Rightarrow> if mapped b then Some v else get s b | None \<Rightarrow> get s b)"
proof (induction ws arbitrary: s)
  case Nil
  then show ?case by simp
next
  case (Cons w ws)
  obtain t where t: "put s (fst w) (snd w) = Some t" "ok t"
    using put_total Cons.prems(1) by blast
  with Cons.prems(2) have "puts put t ws = Some s'" by simp
  from Cons.IH [OF t(2) this] get_put [OF Cons.prems(1) t(1)] show ?case
    by (auto simp: last_write_Cons split: option.split)
qed

lemma puts_unmapped:
  "ok s \<Longrightarrow> puts put s ws = Some s' \<Longrightarrow> \<not> mapped b \<Longrightarrow> get s' b = get s b"
  by (simp add: get_puts split: option.split)

end

end
