(* ===== verification/Dsp_Mirror.thy ===== *)
theory Dsp_Mirror
  imports Reg_Bank
begin

text \<open>
  \<open>Services/data/dsp_mirror.c\<close> and \<open>.h\<close>: the mirror of the DSP board's registers, a
  set of register segments at fixed addresses, read and written one register at a time.
\<close>

section \<open>The segments\<close>

text \<open>
  \<open>dsp_mirror_reg_t\<close> has one array per segment. The arrays are the elements of a list, and the
  pointer \<open>reg_data\<close> of a map entry is the position of its array in it.
\<close>

record dsp_mirror_reg_map_t =
  reg_addr :: u16
  map_count :: u16
  reg_data :: nat

type_synonym dsp_mirror_reg_t = "u16 list list"

definition dsp_board_reglens :: "nat list" where
  "dsp_board_reglens = [7, 30, 7, 8, 6, 12, 9, 9, 10, 32, 32, 32, 32, 32, 5, 48, 8, 16,
     255, 255, 255, 255, 255, 255]"

definition reg_map_entry :: "u16 \<Rightarrow> nat \<Rightarrow> dsp_mirror_reg_map_t" where
  "reg_map_entry a i = \<lparr>reg_addr = a, map_count = of_nat (dsp_board_reglens ! i), reg_data = i\<rparr>"

definition g_dsp_mirror_reg_map :: "dsp_mirror_reg_map_t list" where
  "g_dsp_mirror_reg_map = [
     reg_map_entry 0x3000 0, reg_map_entry 0x3080 1, reg_map_entry 0x3180 2, reg_map_entry 0x3200 3,
     reg_map_entry 0x3300 4, reg_map_entry 0x3500 5, reg_map_entry 0x3580 6, reg_map_entry 0x3680 7,
     reg_map_entry 0x3700 8, reg_map_entry 0x3900 9, reg_map_entry 0x3920 10, reg_map_entry 0x3940 11,
     reg_map_entry 0x3960 12, reg_map_entry 0x3980 13, reg_map_entry 0x3A00 14, reg_map_entry 0x4500 15,
     reg_map_entry 0x4580 16, reg_map_entry 0x4600 17, reg_map_entry 0x5000 18, reg_map_entry 0x5400 19,
     reg_map_entry 0x5800 20, reg_map_entry 0x5B00 21, reg_map_entry 0x6000 22, reg_map_entry 0x6400 23]"

section \<open>Read and write\<close>

definition seg_end :: "dsp_mirror_reg_map_t \<Rightarrow> u16" where
  "seg_end m = reg_addr m + map_count m"

definition in_seg :: "dsp_mirror_reg_map_t \<Rightarrow> u16 \<Rightarrow> bool" where
  "in_seg m a \<longleftrightarrow> reg_addr m \<le> a \<and> a < seg_end m"

text \<open>The loops over the table, which stop at the first segment that holds the address.\<close>

primrec read_loop :: "dsp_mirror_reg_map_t list \<Rightarrow> dsp_mirror_reg_t \<Rightarrow> u16 \<Rightarrow> u16 \<Rightarrow> u16 option" where
  "read_loop [] g a data = Some data"
| "read_loop (m # ms) g a data =
     (if in_seg m a then do {
        seg \<leftarrow> arr_get g (reg_data m);
        arr_get seg (unat (a - reg_addr m))
      } else read_loop ms g a data)"

definition dsp_mirror_read_reg :: "dsp_mirror_reg_t \<Rightarrow> u16 \<Rightarrow> u16 option" where
  "dsp_mirror_read_reg g a = read_loop g_dsp_mirror_reg_map g a 0xFFFF"

primrec write_loop :: "dsp_mirror_reg_map_t list \<Rightarrow> dsp_mirror_reg_t \<Rightarrow> u16 \<Rightarrow> u16 \<Rightarrow> dsp_mirror_reg_t option" where
  "write_loop [] g a v = Some g"
| "write_loop (m # ms) g a v =
     (if in_seg m a then do {
        seg \<leftarrow> arr_get g (reg_data m);
        seg' \<leftarrow> arr_set seg (unat (a - reg_addr m)) v;
        arr_set g (reg_data m) seg'
      } else write_loop ms g a v)"

definition dsp_mirror_write_reg :: "dsp_mirror_reg_t \<Rightarrow> u16 \<Rightarrow> u16 \<Rightarrow> dsp_mirror_reg_t option" where
  "dsp_mirror_write_reg g a v = write_loop g_dsp_mirror_reg_map g a v"

section \<open>Where a register lives\<close>

primrec locate :: "dsp_mirror_reg_map_t list \<Rightarrow> u16 \<Rightarrow> (nat \<times> nat) option" where
  "locate [] a = None"
| "locate (m # ms) a = (if in_seg m a then Some (reg_data m, unat (a - reg_addr m)) else locate ms a)"

definition dsp_mapped :: "u16 \<Rightarrow> bool" where
  "dsp_mapped a \<longleftrightarrow> locate g_dsp_mirror_reg_map a \<noteq> None"

definition dsp_ok :: "dsp_mirror_reg_t \<Rightarrow> bool" where
  "dsp_ok g \<longleftrightarrow> map length g = dsp_board_reglens"

lemma read_loop_locate:
  "read_loop ms g a v = (case locate ms a of None \<Rightarrow> Some v
     | Some (i, k) \<Rightarrow> arr_get g i \<bind> (\<lambda>seg. arr_get seg k))"
  by (induction ms) auto

lemma write_loop_locate:
  "write_loop ms g a v = (case locate ms a of None \<Rightarrow> Some g
     | Some (i, k) \<Rightarrow> arr_get g i \<bind> (\<lambda>seg. arr_set seg k v \<bind> arr_set g i))"
  by (induction ms) auto

text \<open>A table is sound when no segment wraps past 0xFFFF or leaves its array.\<close>

definition entry_ok :: "dsp_mirror_reg_map_t \<Rightarrow> bool" where
  "entry_ok m \<longleftrightarrow> reg_data m < length dsp_board_reglens
     \<and> unat (map_count m) = dsp_board_reglens ! reg_data m
     \<and> unat (reg_addr m) + unat (map_count m) < 65536"

lemma entry_offset:
  assumes "entry_ok m" and "in_seg m a"
  shows "unat (a - reg_addr m) < unat (map_count m)"
proof -
  have "unat (seg_end m) = unat (reg_addr m) + unat (map_count m)"
    using assms(1) by (simp add: seg_end_def entry_ok_def unat_word_ariths)
  with assms(2) show ?thesis
    by (auto simp: in_seg_def unat_sub word_le_nat_alt word_less_nat_alt)
qed

lemma locate_bounds:
  "\<forall>m \<in> set ms. entry_ok m \<Longrightarrow> locate ms a = Some (i, k) \<Longrightarrow>
   i < length dsp_board_reglens \<and> k < dsp_board_reglens ! i"
proof (induction ms)
  case (Cons m ms)
  then have m: "entry_ok m" by simp
  with Cons entry_offset [OF m, of a] show ?case
    by (cases "in_seg m a") (auto simp: entry_ok_def [of m])
qed simp

lemma locate_in_table: "locate ms a = Some (i, k) \<Longrightarrow> i \<in> reg_data ` set ms"
  by (induction ms) (auto split: if_splits)

text \<open>When every array belongs to one entry, two addresses never share a cell.\<close>

lemma locate_inject:
  "distinct (map reg_data ms) \<Longrightarrow> locate ms a = Some p \<Longrightarrow> locate ms b = Some p \<Longrightarrow> a = b"
proof (induction ms)
  case (Cons m ms)
  obtain i k where p: "p = (i, k)" by (cases p)
  have fresh: "locate ms c \<noteq> Some (reg_data m, k')" for c k'
    using Cons.prems(1) locate_in_table [of ms c "reg_data m" k'] by auto
  show ?case
  proof (cases "in_seg m a"; cases "in_seg m b")
    assume "in_seg m a" "in_seg m b"
    with Cons.prems have "unat (a - reg_addr m) = unat (b - reg_addr m)" by auto
    then have "a - reg_addr m = b - reg_addr m" by (simp only: word_unat_eq_iff)
    then show "a = b" by simp
  next
    assume "\<not> in_seg m a" "\<not> in_seg m b"
    with Cons show "a = b" by simp
  qed (use Cons.prems fresh p in auto)
qed simp

lemma map_entries_ok: "\<forall>m \<in> set g_dsp_mirror_reg_map. entry_ok m"
  by (simp add: g_dsp_mirror_reg_map_def reg_map_entry_def entry_ok_def dsp_board_reglens_def)

lemma map_distinct: "distinct (map reg_data g_dsp_mirror_reg_map)"
  by (simp add: g_dsp_mirror_reg_map_def reg_map_entry_def)

lemmas dsp_locate = locate_bounds [OF map_entries_ok] locate_inject [OF map_distinct]

lemma dsp_cell:
  assumes "dsp_ok g" and "locate g_dsp_mirror_reg_map a = Some (i, k)"
  shows "i < length g \<and> k < length (g ! i)"
proof -
  have lens: "map length g = dsp_board_reglens" using assms(1) by (simp add: dsp_ok_def)
  then have i: "i < length g" using dsp_locate(1) [OF assms(2)] by (metis length_map)
  moreover have "dsp_board_reglens ! i = length (g ! i)" using i lens by (metis nth_map)
  ultimately show ?thesis using dsp_locate(1) [OF assms(2)] by simp
qed

lemma dsp_read_total:
  assumes "dsp_ok g"
  shows "\<exists>v. dsp_mirror_read_reg g a = Some v"
proof (cases "locate g_dsp_mirror_reg_map a")
  case None
  then show ?thesis by (simp add: dsp_mirror_read_reg_def read_loop_locate)
next
  case (Some p)
  then obtain i k where p: "locate g_dsp_mirror_reg_map a = Some (i, k)" by (cases p) auto
  have "i < length g" "k < length (g ! i)"
    using dsp_cell [OF _ p] assms by auto
  with p show ?thesis by (simp add: dsp_mirror_read_reg_def read_loop_locate)
qed

lemma dsp_write_eq:
  assumes "dsp_ok g"
  shows "dsp_mirror_write_reg g a v = Some (case locate g_dsp_mirror_reg_map a of None \<Rightarrow> g
    | Some (i, k) \<Rightarrow> g[i := (g ! i)[k := v]])"
proof (cases "locate g_dsp_mirror_reg_map a")
  case (Some p)
  then obtain i k where p: "locate g_dsp_mirror_reg_map a = Some (i, k)" by (cases p) auto
  have "i < length g" "k < length (g ! i)"
    using dsp_cell [OF _ p] assms by auto
  with p show ?thesis by (simp add: dsp_mirror_write_reg_def write_loop_locate)
qed (simp add: dsp_mirror_write_reg_def write_loop_locate)

lemma dsp_write_ok:
  assumes "dsp_ok g"
  shows "\<exists>g'. dsp_mirror_write_reg g a v = Some g' \<and> dsp_ok g'"
proof -
  have "map length (g[i := (g ! i)[k := v]]) = map length g" for i k
    by (cases "i < length g") (auto simp: map_update list_update_same_conv list_update_beyond not_less)
  with assms show ?thesis
    by (auto simp: dsp_write_eq dsp_ok_def split: option.split)
qed

lemma dsp_read_write:
  assumes "dsp_ok g" and "dsp_mirror_write_reg g a v = Some g'"
  shows "dsp_mirror_read_reg g' b
    = (if b = a \<and> dsp_mapped a then Some v else dsp_mirror_read_reg g b)"
proof (cases "locate g_dsp_mirror_reg_map a")
  case None
  then show ?thesis using assms by (auto simp: dsp_write_eq dsp_mapped_def)
next
  case (Some p)
  then obtain i k where p: "locate g_dsp_mirror_reg_map a = Some (i, k)" by (cases p) auto
  have ik: "i < length g" "k < length (g ! i)"
    using dsp_cell [OF _ p] assms by auto
  have g': "g' = g[i := (g ! i)[k := v]]"
    using assms p by (simp add: dsp_write_eq)
  show ?thesis
  proof (cases "locate g_dsp_mirror_reg_map b")
    case None
    with p show ?thesis by (auto simp: dsp_mirror_read_reg_def read_loop_locate)
  next
    case (Some q)
    then obtain j l where q: "locate g_dsp_mirror_reg_map b = Some (j, l)" by (cases q) auto
    have "(j, l) = (i, k) \<longleftrightarrow> b = a"
      using dsp_locate(2) p q by force
    with ik p q show ?thesis
      by (auto simp: dsp_mirror_read_reg_def read_loop_locate g' dsp_mapped_def arr_get_def nth_list_update)
  qed
qed

interpretation dsp: reg_bank dsp_ok dsp_mapped dsp_mirror_read_reg dsp_mirror_write_reg
  by unfold_locales (fact dsp_read_total dsp_write_ok dsp_read_write)+

section \<open>Properties\<close>

text \<open>
  C40: after any sequence of register writes to the mirror (none of which leaves an array), a read
  returns the last value written to that address when a segment holds it; an address outside
  every segment always reads 0xFFFF, whatever was written to it. No two addresses share a cell.
\<close>
theorem dsp_mirror_reads_last_write:
  assumes "dsp_ok g"
  shows "\<exists>g'. puts dsp_mirror_write_reg g ws = Some g' \<and> dsp_ok g' \<and>
    dsp_mirror_read_reg g' b =
      (if \<not> dsp_mapped b then Some 0xFFFF
       else case last_write ws b of Some v \<Rightarrow> Some v | None \<Rightarrow> dsp_mirror_read_reg g b)"
proof -
  obtain g' where g': "puts dsp_mirror_write_reg g ws = Some g'" "dsp_ok g'"
    using dsp.puts_total [OF assms] by blast
  moreover have "\<not> dsp_mapped b \<Longrightarrow> dsp_mirror_read_reg g' b = Some 0xFFFF"
    by (simp add: dsp_mapped_def dsp_mirror_read_reg_def read_loop_locate split: option.split)
  ultimately show ?thesis
    using dsp.get_puts [OF assms g'(1), of b] by (auto split: option.split)
qed

definition dsp_zero :: dsp_mirror_reg_t where
  "dsp_zero = map (\<lambda>n. replicate n 0) dsp_board_reglens"

lemma dsp_mirror_reads_last_write_witness:
  "\<exists>g'. puts dsp_mirror_write_reg dsp_zero [(0x3000, 5), (0x1234, 6), (0x3000, 7)] = Some g' \<and> dsp_ok g' \<and>
    dsp_mirror_read_reg g' 0x3000 =
      (if \<not> dsp_mapped 0x3000 then Some 0xFFFF
       else case last_write [(0x3000, 5), (0x1234, 6), (0x3000, 7)] 0x3000 of Some v \<Rightarrow> Some v
            | None \<Rightarrow> dsp_mirror_read_reg dsp_zero 0x3000)"
  by (rule dsp_mirror_reads_last_write) (simp add: dsp_ok_def dsp_zero_def comp_def)

end
