(* ===== verification/Rtos_Heap.thy ===== *)
theory Rtos_Heap
  imports Rtos_Kernel
begin

text \<open>
  The allocator of the kernel, \<open>portable/MemMang/heap_4.c\<close> (without the heap protector): first fit
  on a list of free blocks in the order of their addresses, with neighbours merged on release.

  Addresses are natural numbers, sizes are 32-bit words. The header of a block is kept in the
  store \<open>link_at\<close> at the block's address, the bytes behind the headers in \<open>bytes\<close>: the application
  is taken to write to its own bytes only. An access outside the heap array fails its assertion
  and is \<open>None\<close>. The address of the array is a parameter.
\<close>

section \<open>Data\<close>

record BlockLink_t =
  pxNextFreeBlock :: nat
  xBlockSize :: u32

record heap_t =
  xStart :: BlockLink_t
  link_at :: "nat \<Rightarrow> BlockLink_t"
  bytes :: "nat \<Rightarrow> u8"
  pxEnd :: nat
  xFreeBytesRemaining :: u32
  xMinimumEverFreeBytesRemaining :: u32
  xNumberOfSuccessfulAllocations :: u32
  xNumberOfSuccessfulFrees :: u32

abbreviation (input) NULL :: nat where "NULL \<equiv> 0"
abbreviation (input) portBYTE_ALIGNMENT :: nat where "portBYTE_ALIGNMENT \<equiv> 8"
abbreviation (input) xHeapStructSize :: nat where "xHeapStructSize \<equiv> 8"
abbreviation heapMINIMUM_BLOCK_SIZE :: u32 where "heapMINIMUM_BLOCK_SIZE \<equiv> 16"
abbreviation configTOTAL_HEAP_SIZE :: nat where "configTOTAL_HEAP_SIZE \<equiv> 16384"

definition heapBLOCK_ALLOCATED_BITMASK :: u32 where "heapBLOCK_ALLOCATED_BITMASK = push_bit 31 1"

definition heapADD_WILL_OVERFLOW :: "u32 \<Rightarrow> u32 \<Rightarrow> bool" where
  "heapADD_WILL_OVERFLOW a b \<longleftrightarrow> a > 0xFFFFFFFF - b"

definition heapMULTIPLY_WILL_OVERFLOW :: "u32 \<Rightarrow> u32 \<Rightarrow> bool" where
  "heapMULTIPLY_WILL_OVERFLOW a b \<longleftrightarrow> a > 0 \<and> b > 0xFFFFFFFF div a"

definition heapBLOCK_SIZE_IS_VALID :: "u32 \<Rightarrow> bool" where
  "heapBLOCK_SIZE_IS_VALID n \<longleftrightarrow> n AND heapBLOCK_ALLOCATED_BITMASK = 0"

definition heapBLOCK_IS_ALLOCATED :: "BlockLink_t \<Rightarrow> bool" where
  "heapBLOCK_IS_ALLOCATED b \<longleftrightarrow> xBlockSize b AND heapBLOCK_ALLOCATED_BITMASK \<noteq> 0"

definition heapALLOCATE_BLOCK :: "BlockLink_t \<Rightarrow> BlockLink_t" where
  "heapALLOCATE_BLOCK b = b\<lparr>xBlockSize := xBlockSize b OR heapBLOCK_ALLOCATED_BITMASK\<rparr>"

definition heapFREE_BLOCK :: "BlockLink_t \<Rightarrow> BlockLink_t" where
  "heapFREE_BLOCK b = b\<lparr>xBlockSize := xBlockSize b AND NOT heapBLOCK_ALLOCATED_BITMASK\<rparr>"

definition heapVALIDATE_BLOCK_POINTER :: "nat \<Rightarrow> nat \<Rightarrow> bool" where
  "heapVALIDATE_BLOCK_POINTER ucHeap p \<longleftrightarrow> ucHeap \<le> p \<and> p \<le> ucHeap + (configTOTAL_HEAP_SIZE - 1)"

text \<open>A pointer to a header: to \<open>xStart\<close> or into the array.\<close>

datatype block_ptr = XStart | Block nat

fun link_of :: "heap_t \<Rightarrow> block_ptr \<Rightarrow> BlockLink_t" where
  "link_of h XStart = xStart h"
| "link_of h (Block a) = link_at h a"

fun set_link :: "block_ptr \<Rightarrow> BlockLink_t \<Rightarrow> heap_t \<Rightarrow> heap_t" where
  "set_link XStart b h = h\<lparr>xStart := b\<rparr>"
| "set_link (Block a) b h = h\<lparr>link_at := (link_at h)(a := b)\<rparr>"

definition set_link_next :: "block_ptr \<Rightarrow> nat \<Rightarrow> heap_t \<Rightarrow> heap_t" where
  "set_link_next p n h = set_link p ((link_of h p)\<lparr>pxNextFreeBlock := n\<rparr>) h"

definition set_link_size :: "block_ptr \<Rightarrow> u32 \<Rightarrow> heap_t \<Rightarrow> heap_t" where
  "set_link_size p n h = set_link p ((link_of h p)\<lparr>xBlockSize := n\<rparr>) h"

abbreviation next_of :: "heap_t \<Rightarrow> block_ptr \<Rightarrow> nat" where "next_of h p \<equiv> pxNextFreeBlock (link_of h p)"
abbreviation size_of :: "heap_t \<Rightarrow> block_ptr \<Rightarrow> u32" where "size_of h p \<equiv> xBlockSize (link_of h p)"

section \<open>Initialisation\<close>

definition align_up :: "nat \<Rightarrow> nat" where
  "align_up a = (if a mod portBYTE_ALIGNMENT \<noteq> 0 then (a + 7) div 8 * 8 else a)"

definition prvHeapInit :: "nat \<Rightarrow> heap_t \<Rightarrow> heap_t" where
  "prvHeapInit ucHeap h =
     (let uxStartAddress = align_up ucHeap;
          xTotalHeapSize = configTOTAL_HEAP_SIZE - (uxStartAddress - ucHeap);
          h = h\<lparr>xStart := \<lparr>pxNextFreeBlock = uxStartAddress, xBlockSize = 0\<rparr>\<rparr>;
          uxEndAddress = (uxStartAddress + xTotalHeapSize - xHeapStructSize) div 8 * 8;
          h = h\<lparr>pxEnd := uxEndAddress\<rparr>;
          h = set_link_size (Block uxEndAddress) 0 h;
          h = set_link_next (Block uxEndAddress) NULL h;
          n = of_nat (uxEndAddress - uxStartAddress);
          h = set_link_size (Block uxStartAddress) n h;
          h = set_link_next (Block uxStartAddress) uxEndAddress h
      in h\<lparr>xMinimumEverFreeBytesRemaining := n, xFreeBytesRemaining := n\<rparr>)"

section \<open>Allocation\<close>

text \<open>The wanted size with header and padding, 0 on overflow.\<close>

definition adjusted_size :: "u32 \<Rightarrow> u32" where
  "adjusted_size xWantedSize =
     (if xWantedSize > 0 then
        if \<not> heapADD_WILL_OVERFLOW xWantedSize 8 then
          let w = xWantedSize + 8
          in if w AND 7 \<noteq> 0 then
               let xAdditionalRequiredSize = 8 - (w AND 7)
               in if \<not> heapADD_WILL_OVERFLOW w xAdditionalRequiredSize then w + xAdditionalRequiredSize else 0
             else w
        else 0
      else xWantedSize)"

text \<open>The walk to the first block that is large enough: the block and its predecessor.\<close>

partial_function (option) find_fit :: "nat \<Rightarrow> u32 \<Rightarrow> heap_t \<Rightarrow> block_ptr \<Rightarrow> nat \<Rightarrow> (block_ptr \<times> nat) option" where
  "find_fit ucHeap w h prev b =
     (if \<not> heapVALIDATE_BLOCK_POINTER ucHeap b then None
      else if size_of h (Block b) < w \<and> next_of h (Block b) \<noteq> NULL then find_fit ucHeap w h (Block b) (next_of h (Block b))
      else Some (prev, b))"

definition take_block :: "nat \<Rightarrow> u32 \<Rightarrow> block_ptr \<Rightarrow> nat \<Rightarrow> heap_t \<Rightarrow> (nat \<times> heap_t) option" where
  "take_block ucHeap w prev b h =
     (let pv = next_of h prev + xHeapStructSize
      in if \<not> heapVALIDATE_BLOCK_POINTER ucHeap pv then None
         else let h = set_link_next prev (next_of h (Block b)) h
         in if size_of h (Block b) < w then None
         else do {
           h \<leftarrow> (if size_of h (Block b) - w > heapMINIMUM_BLOCK_SIZE then
                   let new = b + unat w
                   in if new mod portBYTE_ALIGNMENT \<noteq> 0 then None
                      else let h = set_link_size (Block new) (size_of h (Block b) - w) h;
                               h = set_link_size (Block b) w h;
                               h = set_link_next (Block new) (next_of h prev) h
                           in Some (set_link_next prev new h)
                 else Some h);
           let h = h\<lparr>xFreeBytesRemaining := xFreeBytesRemaining h - size_of h (Block b)\<rparr>;
           let h = (if xFreeBytesRemaining h < xMinimumEverFreeBytesRemaining h
                    then h\<lparr>xMinimumEverFreeBytesRemaining := xFreeBytesRemaining h\<rparr> else h);
           let h = set_link (Block b) (heapALLOCATE_BLOCK (link_of h (Block b))) h;
           let h = set_link_next (Block b) NULL h;
           Some (pv, h\<lparr>xNumberOfSuccessfulAllocations := xNumberOfSuccessfulAllocations h + 1\<rparr>)
         })"

text \<open>What runs with the scheduler suspended; the result is the pointer, or \<open>NULL\<close>.\<close>

definition malloc_section :: "nat \<Rightarrow> u32 \<Rightarrow> heap_t \<Rightarrow> (nat \<times> heap_t) option" where
  "malloc_section ucHeap w h =
     (let h = (if pxEnd h = NULL then prvHeapInit ucHeap h else h)
      in if heapBLOCK_SIZE_IS_VALID w \<and> w > 0 \<and> w \<le> xFreeBytesRemaining h then do {
           (prev, b) \<leftarrow> find_fit ucHeap w h XStart (pxNextFreeBlock (xStart h));
           if b \<noteq> pxEnd h then take_block ucHeap w prev b h else Some (NULL, h)
         } else Some (NULL, h))"

definition pvPortMalloc :: "nat \<Rightarrow> u32 \<Rightarrow> heap_t \<Rightarrow> kernel \<Rightarrow> (nat \<times> heap_t \<times> kernel) option" where
  "pvPortMalloc ucHeap xWantedSize h k = do {
     let w = adjusted_size xWantedSize;
     let k = vTaskSuspendAll k;
     (pv, h) \<leftarrow> malloc_section ucHeap w h;
     (_, k) \<leftarrow> xTaskResumeAll k;
     if pv mod portBYTE_ALIGNMENT \<noteq> 0 then None else Some (pv, h, k)
   }"

text \<open>\<open>memset\<close> to zero of \<open>n\<close> bytes.\<close>

definition clear_bytes :: "nat \<Rightarrow> nat \<Rightarrow> heap_t \<Rightarrow> heap_t" where
  "clear_bytes p n h = h\<lparr>bytes := (\<lambda>a. if p \<le> a \<and> a < p + n then 0 else bytes h a)\<rparr>"

definition pvPortCalloc :: "nat \<Rightarrow> u32 \<Rightarrow> u32 \<Rightarrow> heap_t \<Rightarrow> kernel \<Rightarrow> (nat \<times> heap_t \<times> kernel) option" where
  "pvPortCalloc ucHeap xNum xSize h k =
     (if \<not> heapMULTIPLY_WILL_OVERFLOW xNum xSize then do {
        (pv, h, k) \<leftarrow> pvPortMalloc ucHeap (xNum * xSize) h k;
        Some (pv, if pv \<noteq> NULL then clear_bytes pv (unat (xNum * xSize)) h else h, k)
      } else Some (NULL, h, k))"

section \<open>Release\<close>

text \<open>The walk to the last free block before \<open>b\<close>.\<close>

partial_function (option) insert_pos :: "heap_t \<Rightarrow> block_ptr \<Rightarrow> nat \<Rightarrow> block_ptr option" where
  "insert_pos h p b = (if next_of h p < b then insert_pos h (Block (next_of h p)) b else Some p)"

definition prvInsertBlockIntoFreeList :: "nat \<Rightarrow> nat \<Rightarrow> heap_t \<Rightarrow> heap_t option" where
  "prvInsertBlockIntoFreeList ucHeap b h = do {
     it \<leftarrow> insert_pos h XStart b;
     if (case it of XStart \<Rightarrow> False | Block a \<Rightarrow> \<not> heapVALIDATE_BLOCK_POINTER ucHeap a) then None
     else
       let (h, b) = (case it of
             XStart \<Rightarrow> (h, b)
           | Block a \<Rightarrow> if a + unat (size_of h it) = b then (set_link_size it (size_of h it + size_of h (Block b)) h, a) else (h, b));
           nxt = next_of h it;
           h = (if b + unat (size_of h (Block b)) = nxt then
                  if nxt \<noteq> pxEnd h then
                    let h = set_link_size (Block b) (size_of h (Block b) + size_of h (Block nxt)) h
                    in set_link_next (Block b) (next_of h (Block nxt)) h
                  else set_link_next (Block b) (pxEnd h) h
                else set_link_next (Block b) nxt h)
       in Some (if it \<noteq> Block b then set_link_next it b h else h)
   }"

definition free_section :: "nat \<Rightarrow> nat \<Rightarrow> heap_t \<Rightarrow> heap_t option" where
  "free_section ucHeap b h = do {
     let h = h\<lparr>xFreeBytesRemaining := xFreeBytesRemaining h + size_of h (Block b)\<rparr>;
     h \<leftarrow> prvInsertBlockIntoFreeList ucHeap b h;
     Some (h\<lparr>xNumberOfSuccessfulFrees := xNumberOfSuccessfulFrees h + 1\<rparr>)
   }"

definition vPortFree :: "nat \<Rightarrow> nat \<Rightarrow> heap_t \<Rightarrow> kernel \<Rightarrow> (heap_t \<times> kernel) option" where
  "vPortFree ucHeap pv h k =
     (if pv = NULL then Some (h, k)
      else let b = pv - xHeapStructSize
      in if pv < xHeapStructSize \<or> \<not> heapVALIDATE_BLOCK_POINTER ucHeap b \<or> \<not> heapBLOCK_IS_ALLOCATED (link_of h (Block b))
            \<or> next_of h (Block b) \<noteq> NULL then None
         else do {
           let h = set_link (Block b) (heapFREE_BLOCK (link_of h (Block b))) h;
           let h = (if size_of h (Block b) \<ge> of_nat xHeapStructSize
                    then clear_bytes (b + xHeapStructSize) (unat (size_of h (Block b)) - xHeapStructSize) h else h);
           let k = vTaskSuspendAll k;
           h \<leftarrow> free_section ucHeap b h;
           (_, k) \<leftarrow> xTaskResumeAll k;
           Some (h, k)
         })"

section \<open>Statistics\<close>

definition xPortGetFreeHeapSize :: "heap_t \<Rightarrow> u32" where
  "xPortGetFreeHeapSize h = xFreeBytesRemaining h"

definition xPortGetMinimumEverFreeHeapSize :: "heap_t \<Rightarrow> u32" where
  "xPortGetMinimumEverFreeHeapSize h = xMinimumEverFreeBytesRemaining h"

definition xPortResetHeapMinimumEverFreeHeapSize :: "heap_t \<Rightarrow> heap_t" where
  "xPortResetHeapMinimumEverFreeHeapSize h = h\<lparr>xMinimumEverFreeBytesRemaining := xFreeBytesRemaining h\<rparr>"

definition vPortHeapResetState :: "heap_t \<Rightarrow> heap_t" where
  "vPortHeapResetState h = h\<lparr>pxEnd := NULL, xFreeBytesRemaining := 0, xMinimumEverFreeBytesRemaining := 0,
     xNumberOfSuccessfulAllocations := 0, xNumberOfSuccessfulFrees := 0\<rparr>"

record HeapStats_t =
  xAvailableHeapSpaceInBytes :: u32
  xSizeOfLargestFreeBlockInBytes :: u32
  xSizeOfSmallestFreeBlockInBytes :: u32
  xNumberOfFreeBlocks :: u32
  st_MinimumEverFreeBytesRemaining :: u32
  st_NumberOfSuccessfulAllocations :: u32
  st_NumberOfSuccessfulFrees :: u32

partial_function (option) stats_walk :: "heap_t \<Rightarrow> nat \<Rightarrow> u32 \<Rightarrow> u32 \<Rightarrow> u32 \<Rightarrow> (u32 \<times> u32 \<times> u32) option" where
  "stats_walk h b blocks largest smallest =
     (if b \<noteq> pxEnd h then
        let n = size_of h (Block b)
        in stats_walk h (next_of h (Block b)) (blocks + 1) (if n > largest then n else largest) (if n < smallest then n else smallest)
      else Some (blocks, largest, smallest))"

definition vPortGetHeapStats :: "heap_t \<Rightarrow> kernel \<Rightarrow> (HeapStats_t \<times> kernel) option" where
  "vPortGetHeapStats h k = do {
     let k = vTaskSuspendAll k;
     (blocks, largest, smallest) \<leftarrow>
       (if pxNextFreeBlock (xStart h) \<noteq> NULL then stats_walk h (pxNextFreeBlock (xStart h)) 0 0 0xFFFFFFFF
        else Some (0, 0, 0xFFFFFFFF));
     (_, k) \<leftarrow> xTaskResumeAll k;
     Some (\<lparr>xAvailableHeapSpaceInBytes = xFreeBytesRemaining h, xSizeOfLargestFreeBlockInBytes = largest,
       xSizeOfSmallestFreeBlockInBytes = smallest, xNumberOfFreeBlocks = blocks,
       st_MinimumEverFreeBytesRemaining = xMinimumEverFreeBytesRemaining h,
       st_NumberOfSuccessfulAllocations = xNumberOfSuccessfulAllocations h,
       st_NumberOfSuccessfulFrees = xNumberOfSuccessfulFrees h\<rparr>, k)
   }"

end
