(* ===== verification/Rtos_Port.thy ===== *)
theory Rtos_Port
  imports Rtos_Sched Gd32_Misc
begin

text \<open>
  The port of the kernel to the Cortex-M4F (\<open>portable/GCC/ARM_CM4F\<close>): masking of interrupts by
  BASEPRI and nested critical sections, the start of the scheduler, the first stack frame of a task,
  and the saving and restoring of registers in the handlers of SVC and PendSV, translated from the
  assembly. Registers and the stack memory are words; what the processor does by itself on
  exception entry and return (the lower part of a frame) is not part of it. A write to an
  interrupt priority register keeps the implemented bits: \<open>impl\<close> is their mask.
\<close>

section \<open>Interrupt masking\<close>

record port_t =
  io :: mmio
  basepri :: u32
  uxCriticalNesting :: u32
  ucMaxSysCallPriority :: u8
  ulMaxPRIGROUPValue :: u32

text \<open>The configured priority \<open>maxpri\<close> is a parameter, which the last definitions instantiate.\<close>

definition vPortRaiseBASEPRI :: "u32 \<Rightarrow> port_t \<Rightarrow> port_t" where
  "vPortRaiseBASEPRI maxpri p = p\<lparr>basepri := maxpri\<rparr>"

definition ulPortRaiseBASEPRI :: "u32 \<Rightarrow> port_t \<Rightarrow> u32 \<times> port_t" where
  "ulPortRaiseBASEPRI maxpri p = (basepri p, p\<lparr>basepri := maxpri\<rparr>)"

definition vPortSetBASEPRI :: "u32 \<Rightarrow> port_t \<Rightarrow> port_t" where
  "vPortSetBASEPRI v p = p\<lparr>basepri := v\<rparr>"

abbreviation portNVIC_INT_CTRL_REG :: u32 where "portNVIC_INT_CTRL_REG \<equiv> 0xE000ED04"
abbreviation portVECTACTIVE_MASK :: u32 where "portVECTACTIVE_MASK \<equiv> 0xFF"

definition vPortEnterCritical :: "u32 \<Rightarrow> port_t \<Rightarrow> port_t option" where
  "vPortEnterCritical maxpri p =
     (let p = vPortRaiseBASEPRI maxpri p;
          p = p\<lparr>uxCriticalNesting := uxCriticalNesting p + 1\<rparr>
      in if uxCriticalNesting p = 1 then
           let (v, m) = rd portNVIC_INT_CTRL_REG (io p)
           in if v AND portVECTACTIVE_MASK \<noteq> 0 then None else Some (p\<lparr>io := m\<rparr>)
         else Some p)"

definition vPortExitCritical :: "port_t \<Rightarrow> port_t option" where
  "vPortExitCritical p =
     (if uxCriticalNesting p = 0 then None
      else let p = p\<lparr>uxCriticalNesting := uxCriticalNesting p - 1\<rparr>
        in Some (if uxCriticalNesting p = 0 then vPortSetBASEPRI 0 p else p))"

definition vPortEndScheduler :: "port_t \<Rightarrow> unit option" where
  "vPortEndScheduler p = (if uxCriticalNesting p = 1000 then Some () else None)"

text \<open>The check every \<open>FromISR\<close> function makes; \<open>ipsr\<close> is the number of the running exception.\<close>

definition vPortValidateInterruptPriority :: "nat \<Rightarrow> port_t \<Rightarrow> unit option" where
  "vPortValidateInterruptPriority ipsr p =
     (if ipsr \<ge> 16 \<and> rd8 0xE000E3F0 ipsr (io p) < ucMaxSysCallPriority p then None
      else if regs (io p) 0xE000ED0C AND 0x700 \<le> ulMaxPRIGROUPValue p then Some () else None)"

section \<open>Start of the scheduler\<close>

text \<open>The count of leading ones of the priority mask.\<close>

partial_function (option) implemented_bits :: "u8 \<Rightarrow> u32 \<Rightarrow> (u8 \<times> u32) option" where
  "implemented_bits v n =
     (if v AND 0x80 = 0x80 then implemented_bits (push_bit 1 v) (n + 1) else Some (v, n))"

definition vPortSetupTimerInterrupt :: "u32 \<Rightarrow> mmio \<Rightarrow> mmio" where
  "vPortSetupTimerInterrupt cycles_per_tick m =
     (let m = wr 0xE000E010 0 m;
          m = wr 0xE000E018 0 m;
          m = wr 0xE000E014 (cycles_per_tick - 1) m
      in wr 0xE000E010 (BIT 2 OR BIT 1 OR BIT 0) m)"

definition vPortEnableVFP :: "mmio \<Rightarrow> mmio" where
  "vPortEnableVFP m = reg_or 0xE000ED88 (push_bit 20 0xF) m"

text \<open>
  \<open>xPortStartScheduler\<close> up to the assembly that starts the first task and does not return:
  \<open>None\<close> is a failing assertion. \<open>vectors a n\<close> is entry \<open>n\<close> of the vector table at address \<open>a\<close>,
  \<open>svc\<close> and \<open>pnd\<close> the addresses of the kernel's handlers.
\<close>

definition check_handlers :: "(u32 \<Rightarrow> nat \<Rightarrow> u32) \<Rightarrow> u32 \<Rightarrow> u32 \<Rightarrow> mmio \<Rightarrow> mmio option" where
  "check_handlers vectors svc pnd m =
     (let (id, m) = rd 0xE000ED00 m in if id = 0x410FC271 then None else
      let (id, m) = rd 0xE000ED00 m in if id = 0x410FC270 then None else
      let (vtor, m) = rd 0xE000ED08 m in
        if vectors vtor 11 \<noteq> svc then None else if vectors vtor 14 \<noteq> pnd then None else Some m)"

definition check_priority_bits :: "u32 \<Rightarrow> u8 \<Rightarrow> port_t \<Rightarrow> port_t option" where
  "check_priority_bits maxpri impl p =
     (let ucOriginalPriority = rd8 0xE000E400 0 (io p);
          m = wr8 0xE000E400 0 (0xFF AND impl) (io p);
          ucMaxPriorityValue = rd8 0xE000E400 0 m;
          p = p\<lparr>io := m, ucMaxSysCallPriority := ucast maxpri AND ucMaxPriorityValue\<rparr>
      in if ucMaxSysCallPriority p = 0 then None
         else if maxpri AND NOT (ucast ucMaxPriorityValue) \<noteq> 0 then None
         else do {
           (_, n) \<leftarrow> implemented_bits ucMaxPriorityValue 0;
           grp \<leftarrow> (if n = 8 then if maxpri AND 1 \<noteq> 0 then None else Some 0 else Some (7 - n));
           let grp = push_bit 8 grp AND 0x700;
           Some (p\<lparr>ulMaxPRIGROUPValue := grp, io := wr8 0xE000E400 0 (ucOriginalPriority AND impl) (io p)\<rparr>)
         })"

definition port_start :: "u32 \<Rightarrow> u8 \<Rightarrow> (u32 \<Rightarrow> nat \<Rightarrow> u32) \<Rightarrow> u32 \<Rightarrow> u32 \<Rightarrow> port_t \<Rightarrow> port_t option" where
  "port_start maxpri impl vectors svc pnd p = do {
     m \<leftarrow> check_handlers vectors svc pnd (io p);
     p \<leftarrow> check_priority_bits maxpri impl (p\<lparr>io := m\<rparr>);
     let m = reg_or 0xE000ED20 (push_bit 16 255) (io p);
     let m = reg_or 0xE000ED20 (push_bit 24 255) m;
     let m = wr 0xE000ED1C 0 m;
     let m = vPortSetupTimerInterrupt (120000000 div 1000) m;
     let m = vPortEnableVFP m;
     let m = reg_or 0xE000EF34 (push_bit 30 3) m;
     Some (p\<lparr>io := m, uxCriticalNesting := 0\<rparr>)
   }"

definition xPortStartScheduler :: "u8 \<Rightarrow> (u32 \<Rightarrow> nat \<Rightarrow> u32) \<Rightarrow> u32 \<Rightarrow> u32 \<Rightarrow> port_t \<Rightarrow> port_t option" where
  "xPortStartScheduler = port_start (ucast configMAX_SYSCALL_INTERRUPT_PRIORITY)"

text \<open>The tick interrupt.\<close>

definition xPortSysTickHandler :: "u32 \<Rightarrow> port_t \<Rightarrow> kernel \<Rightarrow> (port_t \<times> kernel) option" where
  "xPortSysTickHandler maxpri p k = do {
     let p = vPortRaiseBASEPRI maxpri p;
     (sw, k) \<leftarrow> xTaskIncrementTick k;
     let (p, k) = (if sw then (p\<lparr>io := wr portNVIC_INT_CTRL_REG (BIT 28) (io p)\<rparr>, portYIELD k) else (p, k));
     Some (vPortSetBASEPRI 0 p, k)
   }"

section \<open>Stack frames and registers\<close>

text \<open>The frame of a new task; stack addresses count bytes, memory holds a word at each.\<close>

definition pxPortInitialiseStack :: "u32 \<Rightarrow> u32 \<Rightarrow> u32 \<Rightarrow> u32 \<Rightarrow> (u32 \<Rightarrow> u32) \<Rightarrow> u32 \<times> (u32 \<Rightarrow> u32)" where
  "pxPortInitialiseStack exit_error pxTopOfStack pxCode pvParameters mem =
     (let sp = pxTopOfStack - 4; mem = mem(sp := 0x01000000);
          sp = sp - 4; mem = mem(sp := pxCode AND 0xFFFFFFFE);
          sp = sp - 4; mem = mem(sp := exit_error);
          sp = sp - 20; mem = mem(sp := pvParameters);
          sp = sp - 4; mem = mem(sp := 0xFFFFFFFD)
      in (sp - 32, mem))"

text \<open>The registers the handlers save: \<open>core_reg n\<close> for r4 to r11 and r14, \<open>fpu_reg n\<close> for s16 to s31.\<close>

record cpu =
  core_reg :: "nat \<Rightarrow> u32"
  fpu_reg :: "nat \<Rightarrow> u32"
  psp :: u32
  memory :: "u32 \<Rightarrow> u32"
  top_of_stack :: "nat \<Rightarrow> u32"

definition core_registers :: "nat list" where "core_registers = [4..<12] @ [14]"
definition fpu_registers :: "nat list" where "fpu_registers = [16..<32]"

text \<open>\<open>stmdb a!, {ns}\<close> and \<open>ldmia a!, {ns}\<close>: the lowest register is at the lowest address.\<close>

primrec store_regs :: "(nat \<Rightarrow> u32) \<Rightarrow> nat list \<Rightarrow> u32 \<Rightarrow> (u32 \<Rightarrow> u32) \<Rightarrow> (u32 \<Rightarrow> u32)" where
  "store_regs f [] a mem = mem"
| "store_regs f (n # ns) a mem = store_regs f ns (a + 4) (mem(a := f n))"

primrec load_regs :: "nat list \<Rightarrow> u32 \<Rightarrow> (u32 \<Rightarrow> u32) \<Rightarrow> (nat \<Rightarrow> u32) \<Rightarrow> (nat \<Rightarrow> u32)" where
  "load_regs [] a mem f = f"
| "load_regs (n # ns) a mem f = load_regs ns (a + 4) mem (f(n := mem a))"

definition stmdb :: "(nat \<Rightarrow> u32) \<Rightarrow> nat list \<Rightarrow> u32 \<times> (u32 \<Rightarrow> u32) \<Rightarrow> u32 \<times> (u32 \<Rightarrow> u32)" where
  "stmdb f ns am = (let a = fst am - 4 * of_nat (length ns) in (a, store_regs f ns a (snd am)))"

text \<open>The first half of \<open>xPortPendSVHandler\<close>: the running task \<open>t\<close> is saved on its stack.\<close>

definition save_context :: "nat \<Rightarrow> cpu \<Rightarrow> cpu" where
  "save_context t c =
     (let am = (psp c, memory c);
          am = (if core_reg c 14 AND 0x10 = 0 then stmdb (fpu_reg c) fpu_registers am else am);
          (a, m) = stmdb (core_reg c) core_registers am
      in c\<lparr>memory := m, top_of_stack := (top_of_stack c)(t := a)\<rparr>)"

text \<open>The second half: the registers of the task \<open>t\<close> to run.\<close>

definition restore_context :: "nat \<Rightarrow> cpu \<Rightarrow> cpu" where
  "restore_context t c =
     (let a = top_of_stack c t;
          c = c\<lparr>core_reg := load_regs core_registers a (memory c) (core_reg c)\<rparr>;
          a = a + 36
      in if core_reg c 14 AND 0x10 = 0 then c\<lparr>fpu_reg := load_regs fpu_registers a (memory c) (fpu_reg c), psp := a + 64\<rparr>
         else c\<lparr>psp := a\<rparr>)"

definition vPortSVCHandler :: "kernel \<Rightarrow> port_t \<Rightarrow> cpu \<Rightarrow> cpu \<times> port_t" where
  "vPortSVCHandler k p c =
     (let a = top_of_stack c (pxCurrentTCB k)
      in (c\<lparr>core_reg := load_regs core_registers a (memory c) (core_reg c), psp := a + 36\<rparr>, p\<lparr>basepri := 0\<rparr>))"

definition pendsv_handler :: "u32 \<Rightarrow> kernel \<Rightarrow> port_t \<Rightarrow> cpu \<Rightarrow> (kernel \<times> port_t \<times> cpu) option" where
  "pendsv_handler maxpri k p c = do {
     let c = save_context (pxCurrentTCB k) c;
     let p = p\<lparr>basepri := maxpri\<rparr>;
     k \<leftarrow> xPortPendSVHandler k;
     let p = p\<lparr>basepri := 0\<rparr>;
     Some (k, p, restore_context (pxCurrentTCB k) c)
   }"

section \<open>Properties of the registers\<close>

lemma store_regs_above: "(\<And>i. i < length ns \<Longrightarrow> x \<noteq> a + 4 * of_nat i) \<Longrightarrow> store_regs f ns a m x = m x"
proof (induction ns arbitrary: a m)
  case (Cons n ns)
  have "x \<noteq> a" using Cons.prems [of 0] by simp
  moreover have "x \<noteq> a + 4 + 4 * of_nat i" if "i < length ns" for i
    using Cons.prems [of "Suc i"] that by (simp add: algebra_simps)
  ultimately show ?case by (simp add: Cons.IH)
qed simp

lemma word_offsets: "i < 2 ^ 30 \<Longrightarrow> j < 2 ^ 30 \<Longrightarrow> (4 * of_nat i :: u32) = 4 * of_nat j \<Longrightarrow> i = j"
proof -
  assume "i < 2 ^ 30" "j < 2 ^ 30" "(4 * of_nat i :: u32) = 4 * of_nat j"
  then have "unat (of_nat (4 * i) :: u32) = unat (of_nat (4 * j) :: u32)" "4 * i < 2 ^ 32" "4 * j < 2 ^ 32" by simp_all
  then show "i = j" by (simp add: unat_of_nat del: of_nat_mult)
qed

lemma load_stored:
  assumes "distinct ns" and "length ns < 2 ^ 30" and "\<And>i. i < length ns \<Longrightarrow> m' (a + 4 * of_nat i) = store_regs f ns a m (a + 4 * of_nat i)"
  shows "load_regs ns a m' g = (\<lambda>n. if n \<in> set ns then f n else g n)"
  using assms
proof (induction ns arbitrary: a m g)
  case (Cons n ns)
  have fresh: "a \<noteq> a + 4 + 4 * of_nat i" if "i < length ns" for i
  proof
    assume "a = a + 4 + 4 * of_nat i"
    then have "(4 * of_nat (Suc i) :: u32) = 4 * of_nat 0" by (simp add: algebra_simps)
    from word_offsets [OF _ _ this] that Cons.prems(2) show False by simp
  qed
  have "store_regs f ns (a + 4) (m(a := f n)) a = (m(a := f n)) a" by (rule store_regs_above) (use fresh in blast)
  then have "m' a = f n" using Cons.prems(3) [of 0] by simp
  moreover have "load_regs ns (a + 4) m' h = (\<lambda>k. if k \<in> set ns then f k else h k)" for h
    using Cons.prems(1,2) Cons.prems(3) [of "Suc i" for i] by (intro Cons.IH) (simp_all add: algebra_simps)
  ultimately show ?case using Cons.prems(1) by auto
qed simp

definition fpu_used :: "cpu \<Rightarrow> bool" where "fpu_used c \<longleftrightarrow> core_reg c 14 AND 0x10 = 0"

definition frame_words :: "cpu \<Rightarrow> nat" where "frame_words c = (if fpu_used c then 25 else 9)"

text \<open>The saved frame of a task is intact.\<close>

definition frame_kept :: "u32 \<Rightarrow> nat \<Rightarrow> (u32 \<Rightarrow> u32) \<Rightarrow> (u32 \<Rightarrow> u32) \<Rightarrow> bool" where
  "frame_kept a n m m' \<longleftrightarrow> (\<forall>i<n. m' (a + 4 * of_nat i) = m (a + 4 * of_nat i))"

lemma register_lists: "length core_registers = 9" "length fpu_registers = 16" "distinct core_registers" "distinct fpu_registers"
  "set core_registers = {4..11} \<union> {14}" "set fpu_registers = {16..31}"
  unfolding core_registers_def fpu_registers_def by (simp_all del: upt_rec_numeral) auto

lemma save_top: "top_of_stack (save_context t c) t = psp c - 4 * of_nat (frame_words c)"
  by (simp add: save_context_def stmdb_def Let_def frame_words_def fpu_used_def register_lists)

lemma save_other: "t' \<noteq> t \<Longrightarrow> top_of_stack (save_context t c) t' = top_of_stack c t'"
  by (simp add: save_context_def stmdb_def Let_def)

lemma save_memory_core:
  "\<exists>m. memory (save_context t c) = store_regs (core_reg c) core_registers (psp c - 4 * of_nat (frame_words c)) m
     \<and> (fpu_used c \<longrightarrow> m = store_regs (fpu_reg c) fpu_registers (psp c - 64) (memory c)) \<and> (\<not> fpu_used c \<longrightarrow> m = memory c)"
  by (simp add: save_context_def stmdb_def Let_def frame_words_def fpu_used_def register_lists)

lemma save_memory_fpu:
  assumes "fpu_used c" and "i < 16"
  shows "memory (save_context t c) (psp c - 64 + 4 * of_nat i)
    = store_regs (fpu_reg c) fpu_registers (psp c - 64) (memory c) (psp c - 64 + 4 * of_nat i)"
proof -
  have apart: "psp c - 64 + 4 * of_nat i \<noteq> psp c - 100 + 4 * of_nat j" if "j < 9" for j
  proof
    assume "psp c - 64 + 4 * of_nat i = psp c - 100 + 4 * of_nat j"
    then have "(36 + 4 * of_nat i :: u32) = 4 * of_nat j" by (simp add: algebra_simps)
    then have "(4 * of_nat (i + 9) :: u32) = 4 * of_nat j" by (simp add: algebra_simps)
    from word_offsets [OF _ _ this] assms(2) that show False by simp
  qed
  show ?thesis
    using save_memory_core [of t c] assms(1) apart
    by (auto simp: frame_words_def register_lists intro!: store_regs_above)
qed

lemma restore_saved:
  assumes top: "top_of_stack c' t = top_of_stack (save_context t c) t"
    and kept: "frame_kept (top_of_stack (save_context t c) t) (frame_words c) (memory (save_context t c)) (memory c')"
  shows "psp (restore_context t c') = psp c \<and> (\<forall>n\<in>{4..11} \<union> {14}. core_reg (restore_context t c') n = core_reg c n)
     \<and> (fpu_used c \<longrightarrow> (\<forall>n\<in>{16..31}. fpu_reg (restore_context t c') n = fpu_reg c n))"
proof -
  let ?a = "psp c - 4 * of_nat (frame_words c)"
  obtain m where m: "memory (save_context t c) = store_regs (core_reg c) core_registers ?a m" using save_memory_core by blast
  have a: "top_of_stack c' t = ?a" using top by (simp add: save_top)
  have 9: "9 \<le> frame_words c" by (simp add: frame_words_def)
  have core: "load_regs core_registers ?a (memory c') g = (\<lambda>n. if n \<in> set core_registers then core_reg c n else g n)" for g
    by (rule load_stored) (use kept 9 in \<open>auto simp: register_lists frame_kept_def save_top m\<close>)
  have r14: "load_regs core_registers ?a (memory c') g 14 = core_reg c 14" for g by (simp add: core register_lists)
  show ?thesis
  proof (cases "fpu_used c")
    case True
    have "memory c' (psp c - 64 + 4 * of_nat i) = store_regs (fpu_reg c) fpu_registers (psp c - 64) (memory c) (psp c - 64 + 4 * of_nat i)"
      if "i < 16" for i
    proof -
      have "?a + 4 * of_nat (i + 9) = psp c - 64 + 4 * of_nat i" using True by (simp add: frame_words_def algebra_simps)
      moreover have "i + 9 < frame_words c" using that True by (simp add: frame_words_def)
      then have "memory c' (?a + 4 * of_nat (i + 9)) = memory (save_context t c) (?a + 4 * of_nat (i + 9))"
        using kept unfolding frame_kept_def save_top by blast
      ultimately show ?thesis using save_memory_fpu [OF True that, of t] by (simp only:)
    qed
    then have fpu: "load_regs fpu_registers (psp c - 64) (memory c') g = (\<lambda>n. if n \<in> set fpu_registers then fpu_reg c n else g n)" for g
      by (intro load_stored) (simp_all add: register_lists)
    have "psp c - 100 + 36 = psp c - 64" by simp
    then show ?thesis using True r14 core fpu a
      by (simp add: restore_context_def Let_def fpu_used_def frame_words_def register_lists)
  next
    case False
    then show ?thesis using r14 core a
      by (simp add: restore_context_def Let_def fpu_used_def frame_words_def register_lists)
  qed
qed

lemma save_frame:
  assumes "\<And>j. j < frame_words c \<Longrightarrow> x \<noteq> psp c - 4 * of_nat (frame_words c) + 4 * of_nat j"
  shows "memory (save_context t c) x = memory c x"
proof -
  let ?a = "psp c - 4 * of_nat (frame_words c)"
  obtain m where m: "memory (save_context t c) = store_regs (core_reg c) core_registers ?a m"
    "fpu_used c \<longrightarrow> m = store_regs (fpu_reg c) fpu_registers (psp c - 64) (memory c)" "\<not> fpu_used c \<longrightarrow> m = memory c"
    using save_memory_core by blast
  have "memory (save_context t c) x = m x"
    unfolding m(1) by (rule store_regs_above) (use assms in \<open>simp add: register_lists frame_words_def split: if_splits\<close>)
  moreover have "m x = memory c x"
  proof (cases "fpu_used c")
    case True
    have "x \<noteq> psp c - 64 + 4 * of_nat i" if "i < 16" for i
    proof -
      have "?a + 4 * of_nat (i + 9) = psp c - 64 + 4 * of_nat i" using True by (simp add: frame_words_def algebra_simps)
      moreover have "i + 9 < frame_words c" using that True by (simp add: frame_words_def)
      then have "x \<noteq> ?a + 4 * of_nat (i + 9)" by (rule assms)
      ultimately show ?thesis by (simp only: simp_thms)
    qed
    then have "store_regs (fpu_reg c) fpu_registers (psp c - 64) (memory c) x = memory c x"
      by (intro store_regs_above) (simp add: register_lists)
    then show ?thesis using m(2) True by simp
  qed (use m(3) in simp)
  ultimately show ?thesis by simp
qed

lemma u8_eq: "(v :: u8) = w \<longleftrightarrow> (\<forall>n<8. bit v n = bit w n)"
  by (auto intro: bit_word_eqI)

lemma and_one_bit: "k < 8 \<Longrightarrow> (v :: u8) AND push_bit k 1 = push_bit k 1 \<longleftrightarrow> bit v k"
  by (subst u8_eq) (auto simp: bit_simps)

lemma implemented_step: "implemented_bits v n = (if bit v 7 then implemented_bits (push_bit 1 v) (n + 1) else Some (v, n))"
proof -
  have "v AND 0x80 = 0x80 \<longleftrightarrow> bit v 7" using and_one_bit [of 7 v] by (simp add: push_bit_eq_mult)
  then show ?thesis by (subst implemented_bits.simps) simp
qed

lemma implemented_pushed: "k < 8 \<Longrightarrow> implemented_bits (push_bit k v) n =
    (if bit v (7 - k) then implemented_bits (push_bit (Suc k) v) (n + 1) else Some (push_bit k v, n))"
  by (subst implemented_step) (simp add: bit_simps)

lemma pushed_out: "8 \<le> k \<Longrightarrow> push_bit k (v :: u8) = 0"
  by (subst u8_eq) (auto simp: bit_simps)

lemma all_ones: "(v :: u8) = 0xFF \<longleftrightarrow> (\<forall>k<8. bit v k)"
proof -
  have "(0xFF :: u8) = - 1" by simp
  then show ?thesis by (subst u8_eq) (simp add: bit_simps)
qed

lemma implemented_from:
  "k \<le> 8 \<Longrightarrow> \<exists>v' j. k \<le> j \<and> j \<le> 8 \<and> implemented_bits (push_bit k v) (of_nat k) = Some (v', of_nat j) \<and> (j = 8 \<longleftrightarrow> (\<forall>i\<ge>k. i < 8 \<longrightarrow> bit v (7 - i)))"
proof (induction rule: inc_induct)
  case base
  have "implemented_bits (push_bit 8 v) 8 = Some (0, 8)" unfolding pushed_out [OF order_refl] by (subst implemented_step) simp
  then show ?case by auto
next
  case (step k)
  show ?case
  proof (cases "bit v (7 - k)")
    case True
    from step.IH obtain v' j where j: "Suc k \<le> j" "j \<le> 8" "implemented_bits (push_bit (Suc k) v) (of_nat (Suc k)) = Some (v', of_nat j)"
      "j = 8 \<longleftrightarrow> (\<forall>i\<ge>Suc k. i < 8 \<longrightarrow> bit v (7 - i))" by blast
    have "(\<forall>i\<ge>Suc k. i < 8 \<longrightarrow> bit v (7 - i)) \<longleftrightarrow> (\<forall>i\<ge>k. i < 8 \<longrightarrow> bit v (7 - i))"
      using True by (metis Suc_leD le_antisym not_less_eq_eq)
    moreover have "implemented_bits (push_bit k v) (of_nat k) = Some (v', of_nat j)"
      using step(2) True j(3) by (simp add: implemented_pushed add.commute)
    ultimately show ?thesis using j by auto
  next
    case False
    then have "implemented_bits (push_bit k v) (of_nat k) = Some (push_bit k v, of_nat k)"
      using step(2) by (simp add: implemented_pushed)
    then show ?thesis using False step(2) by (intro exI [of _ "push_bit k v"] exI [of _ k]) auto
  qed
qed

lemma implemented_result: "\<exists>v' n. implemented_bits v 0 = Some (v', n) \<and> (n = 8 \<longleftrightarrow> v = 0xFF)"
proof -
  obtain v' j where j: "j \<le> 8" "implemented_bits v 0 = Some (v', of_nat j)" "j = 8 \<longleftrightarrow> (\<forall>i<8. bit v (7 - i))"
    using implemented_from [of 0 v] by auto
  have "(\<forall>i<8. bit v (7 - i)) \<longleftrightarrow> (\<forall>k<8. bit v k)"
  proof (intro iffI allI impI)
    fix k :: nat
    assume a: "\<forall>i<8. bit v (7 - i)" and k: "k < 8"
    have "7 - (7 - k) = k" using k by simp
    then show "bit v k" using spec [OF a, of "7 - k"] k by (simp only: split: if_splits)
  qed simp
  moreover have "(of_nat j :: u32) = 8 \<longleftrightarrow> j = 8"
    using j(1) by (simp add: word_unat_eq_iff unat_of_nat)
  ultimately show ?thesis using j all_ones [of v] by auto
qed

section \<open>Properties\<close>

definition handlers_ok :: "(u32 \<Rightarrow> nat \<Rightarrow> u32) \<Rightarrow> u32 \<Rightarrow> u32 \<Rightarrow> mmio \<Rightarrow> bool" where
  "handlers_ok vectors svc pnd m \<longleftrightarrow> regs m 0xE000ED00 \<notin> {0x410FC271, 0x410FC270}
     \<and> vectors (regs m 0xE000ED08) 11 = svc \<and> vectors (regs m 0xE000ED08) 14 = pnd"

lemma check_handlers_iff:
  "if handlers_ok vectors svc pnd m then \<exists>m'. check_handlers vectors svc pnd m = Some m' \<and> regs m' = regs m
   else check_handlers vectors svc pnd m = None"
  by (auto simp: handlers_ok_def check_handlers_def rd_def)

lemma check_priority_iff:
  "(\<exists>p'. check_priority_bits maxpri impl p = Some p') \<longleftrightarrow>
     ucast maxpri AND impl \<noteq> 0 \<and> maxpri AND NOT (ucast impl) = 0 \<and> \<not> (impl = 0xFF \<and> maxpri AND 1 \<noteq> 0)"
proof -
  have "(0xFF :: u8) = - 1" by simp
  then have and_impl: "(0xFF :: u8) AND impl = impl" by (simp only: and.left_neutral)
  obtain v n where n: "implemented_bits impl 0 = Some (v, n)" "n = 8 \<longleftrightarrow> impl = 0xFF" using implemented_result [of impl] by blast
  show ?thesis
    unfolding check_priority_bits_def Let_def and_impl rd8_wr8 n(1) by (auto simp: n(2))
qed

text \<open>C11: The start of the scheduler gets to the first task exactly when the processor and the vector
  table are right, the priority from which interrupts may call the kernel has a bit among those the
  processor implements, no other bit, and, with 8 implemented bits, is even. The configured priority
  is 0: the assertion fails, so \<open>xPortStartScheduler\<close> stops in its endless loop in every state, and
  no task ever runs; and a critical section of this configuration masks no interrupt.\<close>

theorem scheduler_cannot_start:
  "((\<exists>p'. port_start maxpri impl vectors svc pnd p = Some p') \<longleftrightarrow>
      handlers_ok vectors svc pnd (io p) \<and> ucast maxpri AND impl \<noteq> 0 \<and> maxpri AND NOT (ucast impl) = 0
      \<and> \<not> (impl = 0xFF \<and> maxpri AND 1 \<noteq> 0))
   \<and> xPortStartScheduler impl vectors svc pnd p = None
   \<and> basepri (vPortRaiseBASEPRI (ucast configMAX_SYSCALL_INTERRUPT_PRIORITY) p) = 0"
proof -
  have iff: "(\<exists>p'. port_start m impl vectors svc pnd p = Some p') \<longleftrightarrow>
      handlers_ok vectors svc pnd (io p) \<and> ucast m AND impl \<noteq> 0 \<and> m AND NOT (ucast impl) = 0
      \<and> \<not> (impl = 0xFF \<and> m AND 1 \<noteq> 0)" for m
  proof (cases "handlers_ok vectors svc pnd (io p)")
    case True
    then obtain m' where m': "check_handlers vectors svc pnd (io p) = Some m'" using check_handlers_iff [of vectors svc pnd "io p"] by auto
    have "(\<exists>p'. port_start m impl vectors svc pnd p = Some p') \<longleftrightarrow> (\<exists>q. check_priority_bits m impl (p\<lparr>io := m'\<rparr>) = Some q)"
      by (auto simp: port_start_def m' Let_def bind_eq_Some_conv)
    then show ?thesis using True check_priority_iff by simp
  next
    case False
    then show ?thesis using check_handlers_iff [of vectors svc pnd "io p"] by (simp add: port_start_def)
  qed
  have "xPortStartScheduler impl vectors svc pnd p = None"
    using iff [of 0] by (auto simp: xPortStartScheduler_def)
  then show ?thesis using iff by (simp add: vPortRaiseBASEPRI_def)
qed

text \<open>C26: A task that is switched out and in again gets its registers and its stack pointer back,
  whatever ran in between, as long as its stack frame was left alone and the task that runs
  last keeps to its own stack.\<close>

theorem context_switch_restores:
  assumes away: "pendsv_handler maxpri k p c = Some (k1, p1, c1)" and t: "t = pxCurrentTCB k"
    and kept: "top_of_stack c2 t = top_of_stack (save_context t c) t"
      "frame_kept (psp c - 4 * of_nat (frame_words c)) (frame_words c) (memory (save_context t c)) (memory c2)"
    and other: "pxCurrentTCB k2 \<noteq> t"
    and apart: "\<And>i j. i < frame_words c \<Longrightarrow> j < frame_words c2 \<Longrightarrow>
      psp c - 4 * of_nat (frame_words c) + 4 * of_nat i \<noteq> psp c2 - 4 * of_nat (frame_words c2) + 4 * of_nat j"
    and again: "pendsv_handler maxpri k2 p2 c2 = Some (k3, p3, c3)" and runs: "pxCurrentTCB k3 = t"
  shows "psp c3 = psp c \<and> (\<forall>n\<in>{4..11} \<union> {14}. core_reg c3 n = core_reg c n)
     \<and> (fpu_used c \<longrightarrow> (\<forall>n\<in>{16..31}. fpu_reg c3 n = fpu_reg c n)) \<and> basepri p3 = 0"
proof -
  let ?c = "save_context (pxCurrentTCB k2) c2"
  have c3: "c3 = restore_context t ?c" "basepri p3 = 0" using again runs by (auto simp: pendsv_handler_def Let_def bind_eq_Some_conv)
  have "top_of_stack ?c t = top_of_stack (save_context t c) t" using kept(1) save_other [of t "pxCurrentTCB k2" c2] other by simp
  moreover have "frame_kept (top_of_stack (save_context t c) t) (frame_words c) (memory (save_context t c)) (memory ?c)"
    unfolding frame_kept_def save_top
  proof (intro allI impI)
    fix i
    assume i: "i < frame_words c"
    have "memory ?c (psp c - 4 * of_nat (frame_words c) + 4 * of_nat i) = memory c2 (psp c - 4 * of_nat (frame_words c) + 4 * of_nat i)"
      by (rule save_frame) (use apart i in blast)
    then show "memory ?c (psp c - 4 * of_nat (frame_words c) + 4 * of_nat i)
        = memory (save_context t c) (psp c - 4 * of_nat (frame_words c) + 4 * of_nat i)"
      using kept(2) i by (simp add: frame_kept_def)
  qed
  ultimately show ?thesis using restore_saved c3 by metis
qed

definition sample_cpu :: cpu where
  "sample_cpu = \<lparr>core_reg = of_nat, fpu_reg = of_nat, psp = 1000, memory = (\<lambda>_. 0), top_of_stack = (\<lambda>t. 500)\<rparr>"

definition only_task_0 :: kernel where
  "only_task_0 = sample_kernel\<lparr>lists := (lists sample_kernel)(ReadyList 2 := xl_empty)\<rparr>"

lemma sample_switches:
  "\<exists>k1. xPortPendSVHandler (sample_kernel\<lparr>pxCurrentTCB := 0\<rparr>) = Some k1 \<and> pxCurrentTCB k1 = 1"
  "\<exists>k3. xPortPendSVHandler only_task_0 = Some k3 \<and> pxCurrentTCB k3 = 0"
  by (simp_all add: xPortPendSVHandler_def vTaskSwitchContext_def taskSELECT_HIGHEST_PRIORITY_TASK_def sample_kernel_def
      only_task_0_def list_is_empty_def xl_next_def xl_empty_def numeral_2_eq_2)

lemma context_switch_restores_witness:
  "\<forall>p. \<exists>k1 p1 c1 k3 p3 c3. pendsv_handler 0x50 (sample_kernel\<lparr>pxCurrentTCB := 0\<rparr>) p sample_cpu = Some (k1, p1, c1) \<and> pxCurrentTCB k1 = 1
     \<and> pendsv_handler 0x50 only_task_0 p1 ((save_context 0 sample_cpu)\<lparr>psp := 5000\<rparr>) = Some (k3, p3, c3) \<and> pxCurrentTCB k3 = 0
     \<and> psp c3 = 1000 \<and> core_reg c3 7 = 7"
proof
  fix p :: port_t
  let ?c2 = "(save_context 0 sample_cpu)\<lparr>psp := 5000\<rparr>"
  let ?k = "sample_kernel\<lparr>pxCurrentTCB := 0\<rparr>"
  obtain k1 k3 where k: "xPortPendSVHandler ?k = Some k1" "pxCurrentTCB k1 = 1" "xPortPendSVHandler only_task_0 = Some k3" "pxCurrentTCB k3 = 0"
    using sample_switches by blast
  obtain p1 c1 where a: "pendsv_handler 0x50 ?k p sample_cpu = Some (k1, p1, c1)" using k(1) by (simp add: pendsv_handler_def Let_def)
  obtain p3 c3 where b: "pendsv_handler 0x50 only_task_0 p1 ?c2 = Some (k3, p3, c3)" using k(3) by (simp add: pendsv_handler_def Let_def)
  have cur: "pxCurrentTCB ?k = 0" "pxCurrentTCB only_task_0 \<noteq> 0" by (simp_all add: only_task_0_def sample_kernel_def)
  have f: "frame_words sample_cpu = 25" "psp sample_cpu = 1000" by (simp_all add: sample_cpu_def frame_words_def fpu_used_def)
  have "core_reg ?c2 = of_nat" by (simp add: save_context_def Let_def sample_cpu_def stmdb_def)
  then have f2: "frame_words ?c2 = 25" by (simp add: frame_words_def fpu_used_def)
  have apart: "psp sample_cpu - 4 * of_nat (frame_words sample_cpu) + 4 * of_nat i \<noteq> psp ?c2 - 4 * of_nat (frame_words ?c2) + 4 * of_nat j"
    if "i < frame_words sample_cpu" "j < frame_words ?c2" for i j
  proof
    assume "psp sample_cpu - 4 * of_nat (frame_words sample_cpu) + 4 * of_nat i = psp ?c2 - 4 * of_nat (frame_words ?c2) + 4 * of_nat j"
    then have "(4 * of_nat (i + 225) :: u32) = 4 * of_nat (j + 1225)" by (simp add: f f2)
    from word_offsets [OF _ _ this] that show False by (simp add: f f2)
  qed
  have "psp c3 = psp sample_cpu \<and> (\<forall>n\<in>{4..11} \<union> {14}. core_reg c3 n = core_reg sample_cpu n)"
    using context_switch_restores [OF a refl, of ?c2 only_task_0 p1 k3 p3 c3] b k(4) apart cur
    by (simp add: frame_kept_def)
  then show "\<exists>k1 p1 c1 k3 p3 c3. pendsv_handler 0x50 ?k p sample_cpu = Some (k1, p1, c1) \<and> pxCurrentTCB k1 = 1
     \<and> pendsv_handler 0x50 only_task_0 p1 ?c2 = Some (k3, p3, c3) \<and> pxCurrentTCB k3 = 0 \<and> psp c3 = 1000 \<and> core_reg c3 7 = 7"
    using a b k f(2) by (intro exI conjI) (auto simp: sample_cpu_def)
qed

end
