(* ===== verification/Rtos_Task.thy ===== *)
theory Rtos_Task
  imports Rtos_Heap Rtos_Port
begin

text \<open>
  The life of a task in \<open>tasks.c\<close>: creation, deletion, suspension and resumption, priorities,
  periodic delays and notifications, over the scheduler of \<open>Rtos_Kernel\<close>, the allocator and the
  port. A task is named by the address of its control block. Of a control block the scheduler's
  record holds the list items and priorities, and \<open>task_state\<close> the rest, with the variables of
  \<open>tasks.c\<close> these functions use. The two critical sections of \<open>vTaskSuspend\<close> run without
  interference in between.
\<close>

section \<open>State\<close>

datatype notify_state = taskNOT_WAITING_NOTIFICATION | taskWAITING_NOTIFICATION | taskNOTIFICATION_RECEIVED

datatype allocated = tskDYNAMICALLY_ALLOCATED_STACK_AND_TCB | tskSTATICALLY_ALLOCATED_STACK_ONLY
  | tskSTATICALLY_ALLOCATED_STACK_AND_TCB

text \<open>\<open>pxCurrentTCB\<close> is \<open>NULL\<close> while \<open>no_current\<close> is set.\<close>

record task_state =
  kern :: kernel
  heap :: heap_t
  memory :: "u32 \<Rightarrow> u32"
  no_current :: bool
  xSchedulerRunning :: bool
  uxTaskNumber :: u32
  uxDeletedTasksWaitingCleanUp :: u32
  pxStack :: "nat \<Rightarrow> nat"
  pxTopOfStack :: "nat \<Rightarrow> u32"
  pcTaskName :: "nat \<Rightarrow> u8 list"
  ucStaticallyAllocated :: "nat \<Rightarrow> allocated"
  ucNotifyState :: "nat \<Rightarrow> notify_state"
  ulNotifiedValue :: "nat \<Rightarrow> u32"

abbreviation current :: "'a task_state_scheme \<Rightarrow> nat" where "current s \<equiv> pxCurrentTCB (kern s)"

definition on_kernel :: "(kernel \<Rightarrow> kernel option) \<Rightarrow> 'a task_state_scheme \<Rightarrow> 'a task_state_scheme option" where
  "on_kernel f s = map_option (\<lambda>k. s\<lparr>kern := k\<rparr>) (f (kern s))"

definition prvGetTCBFromHandle :: "nat option \<Rightarrow> 'a task_state_scheme \<Rightarrow> nat option" where
  "prvGetTCBFromHandle h s = (case h of None \<Rightarrow> if no_current s then None else Some (current s) | Some t \<Rightarrow> Some t)"

text \<open>The preemption macros; they read the current task.\<close>

definition taskYIELD_ANY_CORE_IF_USING_PREEMPTION :: "nat \<Rightarrow> 'a task_state_scheme \<Rightarrow> 'a task_state_scheme option" where
  "taskYIELD_ANY_CORE_IF_USING_PREEMPTION t s =
     (if no_current s then None
      else Some (if uxPriority (kern s) (current s) < uxPriority (kern s) t then s\<lparr>kern := portYIELD (kern s)\<rparr> else s))"

text \<open>Remove the item if it is in a list.\<close>

definition remove_if_listed :: "litem \<Rightarrow> kernel \<Rightarrow> kernel option" where
  "remove_if_listed it k = (if container k it \<noteq> None then list_remove it k else Some k)"

section \<open>Creation\<close>

text \<open>\<open>sizeof(TCB_t)\<close> in this configuration.\<close>

abbreviation (input) sizeof_TCB :: u32 where "sizeof_TCB \<equiv> 96"

definition prvInitialiseTaskLists :: "kernel \<Rightarrow> kernel" where
  "prvInitialiseTaskLists k =
     k\<lparr>lists := (\<lambda>l. case l of EventList n \<Rightarrow> lists k l | ReadyList p \<Rightarrow> if p < configMAX_PRIORITIES then xl_empty else lists k l
        | _ \<Rightarrow> xl_empty),
       pxDelayedTaskList := DelayedTaskList1, pxOverflowDelayedTaskList := DelayedTaskList2\<rparr>"

text \<open>The name is copied up to its end or to the length of the field; its last byte is 0.\<close>

fun copy_name :: "nat \<Rightarrow> u8 list \<Rightarrow> u8 list \<Rightarrow> u8 list" where
  "copy_name 0 src dst = []"
| "copy_name (Suc n) [] dst = take (Suc n) dst"
| "copy_name (Suc n) (c # src) dst = c # (if c = 0 then take n (tl dst) else copy_name n src (tl dst))"

abbreviation (input) configMAX_TASK_NAME_LEN :: nat where "configMAX_TASK_NAME_LEN \<equiv> 16"

definition prvInitialiseNewTask :: "u32 \<Rightarrow> u32 \<Rightarrow> u8 list \<Rightarrow> u32 \<Rightarrow> u32 \<Rightarrow> nat \<Rightarrow> nat \<Rightarrow> 'a task_state_scheme \<Rightarrow> 'a task_state_scheme option" where
  "prvInitialiseNewTask exit_error pxTaskCode pcName uxStackDepth pvParameters uxPrio t s =
     (let top = (of_nat (pxStack s t) + 4 * (uxStackDepth - 1)) AND NOT 7;
          s = s\<lparr>pcTaskName := (pcTaskName s)(t := (copy_name configMAX_TASK_NAME_LEN pcName (pcTaskName s t))[configMAX_TASK_NAME_LEN - 1 := 0])\<rparr>
      in if uxPrio \<ge> configMAX_PRIORITIES then None
         else let k = kern s;
                  k = k\<lparr>uxPriority := (uxPriority k)(t := uxPrio), uxBasePriority := (uxBasePriority k)(t := uxPrio),
                        container := (container k)(StateItem t := None, EventItem t := None),
                        item_value := (item_value k)(EventItem t := of_nat configMAX_PRIORITIES - of_nat uxPrio)\<rparr>;
                  (sp, m) = pxPortInitialiseStack exit_error top pxTaskCode pvParameters (memory s);
                  s = s\<lparr>kern := k, memory := m, pxTopOfStack := (pxTopOfStack s)(t := sp)\<rparr>
              in if (top - sp) div 4 < uxStackDepth then Some s else None)"

text \<open>\<open>memset\<close> of a control block to 0.\<close>

definition clear_TCB :: "nat \<Rightarrow> 'a task_state_scheme \<Rightarrow> 'a task_state_scheme" where
  "clear_TCB t s =
     (let k = kern s;
          k = k\<lparr>item_value := (item_value k)(StateItem t := 0, EventItem t := 0), container := (container k)(StateItem t := None, EventItem t := None),
                uxPriority := (uxPriority k)(t := 0), uxBasePriority := (uxBasePriority k)(t := 0), uxMutexesHeld := (uxMutexesHeld k)(t := 0)\<rparr>
      in s\<lparr>kern := k, pxStack := (pxStack s)(t := 0), pxTopOfStack := (pxTopOfStack s)(t := 0),
           pcTaskName := (pcTaskName s)(t := replicate configMAX_TASK_NAME_LEN 0),
           ucStaticallyAllocated := (ucStaticallyAllocated s)(t := tskDYNAMICALLY_ALLOCATED_STACK_AND_TCB),
           ucNotifyState := (ucNotifyState s)(t := taskNOT_WAITING_NOTIFICATION), ulNotifiedValue := (ulNotifiedValue s)(t := 0)\<rparr>)"

definition prvAddNewTaskToReadyList :: "nat \<Rightarrow> 'a task_state_scheme \<Rightarrow> 'a task_state_scheme option" where
  "prvAddNewTaskToReadyList t s =
     (let s = s\<lparr>kern := (kern s)\<lparr>uxCurrentNumberOfTasks := uxCurrentNumberOfTasks (kern s) + 1\<rparr>\<rparr>;
          s = (if no_current s then
                 let s = s\<lparr>kern := (kern s)\<lparr>pxCurrentTCB := t\<rparr>, no_current := False\<rparr>
                 in if uxCurrentNumberOfTasks (kern s) = 1 then s\<lparr>kern := prvInitialiseTaskLists (kern s)\<rparr> else s
               else if \<not> xSchedulerRunning s then
                 if uxPriority (kern s) (current s) \<le> uxPriority (kern s) t then s\<lparr>kern := (kern s)\<lparr>pxCurrentTCB := t\<rparr>\<rparr> else s
               else s);
          s = s\<lparr>uxTaskNumber := uxTaskNumber s + 1\<rparr>;
          s = s\<lparr>kern := prvAddTaskToReadyList t (kern s)\<rparr>
      in if xSchedulerRunning s then taskYIELD_ANY_CORE_IF_USING_PREEMPTION t s else Some s)"

definition prvCreateStaticTask ::
  "u32 \<Rightarrow> u32 \<Rightarrow> u8 list \<Rightarrow> u32 \<Rightarrow> u32 \<Rightarrow> nat \<Rightarrow> nat \<Rightarrow> nat \<Rightarrow> 'a task_state_scheme \<Rightarrow> (nat \<times> 'a task_state_scheme) option" where
  "prvCreateStaticTask exit_error pxTaskCode pcName uxStackDepth pvParameters uxPrio puxStackBuffer pxTaskBuffer s =
     (if puxStackBuffer = NULL \<or> pxTaskBuffer = NULL then None
      else do {
        let s = clear_TCB pxTaskBuffer s;
        let s = s\<lparr>pxStack := (pxStack s)(pxTaskBuffer := puxStackBuffer),
          ucStaticallyAllocated := (ucStaticallyAllocated s)(pxTaskBuffer := tskSTATICALLY_ALLOCATED_STACK_AND_TCB)\<rparr>;
        s \<leftarrow> prvInitialiseNewTask exit_error pxTaskCode pcName uxStackDepth pvParameters uxPrio pxTaskBuffer s;
        Some (pxTaskBuffer, s)
      })"

definition xTaskCreateStatic ::
  "u32 \<Rightarrow> u32 \<Rightarrow> u8 list \<Rightarrow> u32 \<Rightarrow> u32 \<Rightarrow> nat \<Rightarrow> nat \<Rightarrow> nat \<Rightarrow> 'a task_state_scheme \<Rightarrow> (nat \<times> 'a task_state_scheme) option" where
  "xTaskCreateStatic exit_error pxTaskCode pcName uxStackDepth pvParameters uxPrio puxStackBuffer pxTaskBuffer s = do {
     (t, s) \<leftarrow> prvCreateStaticTask exit_error pxTaskCode pcName uxStackDepth pvParameters uxPrio puxStackBuffer pxTaskBuffer s;
     s \<leftarrow> prvAddNewTaskToReadyList t s;
     Some (t, s)
   }"

definition task_malloc :: "nat \<Rightarrow> u32 \<Rightarrow> 'a task_state_scheme \<Rightarrow> (nat \<times> 'a task_state_scheme) option" where
  "task_malloc ucHeap n s = map_option (\<lambda>(p, h, k). (p, s\<lparr>heap := h, kern := k\<rparr>)) (pvPortMalloc ucHeap n (heap s) (kern s))"

definition task_free :: "nat \<Rightarrow> nat \<Rightarrow> 'a task_state_scheme \<Rightarrow> 'a task_state_scheme option" where
  "task_free ucHeap p s = map_option (\<lambda>(h, k). s\<lparr>heap := h, kern := k\<rparr>) (vPortFree ucHeap p (heap s) (kern s))"

text \<open>The new control block, or \<open>NULL\<close>.\<close>

definition prvCreateTask ::
  "nat \<Rightarrow> u32 \<Rightarrow> u32 \<Rightarrow> u8 list \<Rightarrow> u32 \<Rightarrow> u32 \<Rightarrow> nat \<Rightarrow> 'a task_state_scheme \<Rightarrow> (nat \<times> 'a task_state_scheme) option" where
  "prvCreateTask ucHeap exit_error pxTaskCode pcName uxStackDepth pvParameters uxPrio s = do {
     (stack, s) \<leftarrow> task_malloc ucHeap (uxStackDepth * 4) s;
     if stack = NULL then Some (NULL, s)
     else do {
       (t, s) \<leftarrow> task_malloc ucHeap sizeof_TCB s;
       if t = NULL then do {
         s \<leftarrow> task_free ucHeap stack s;
         Some (NULL, s)
       }
       else do {
         let s = clear_TCB t s;
         let s = s\<lparr>pxStack := (pxStack s)(t := stack)\<rparr>;
         let s = s\<lparr>ucStaticallyAllocated := (ucStaticallyAllocated s)(t := tskDYNAMICALLY_ALLOCATED_STACK_AND_TCB)\<rparr>;
         s \<leftarrow> prvInitialiseNewTask exit_error pxTaskCode pcName uxStackDepth pvParameters uxPrio t s;
         Some (t, s)
       }
     }
   }"

text \<open>\<open>pdPASS\<close> is the new task, \<open>errCOULD_NOT_ALLOCATE_REQUIRED_MEMORY\<close> no task.\<close>

definition xTaskCreate ::
  "nat \<Rightarrow> u32 \<Rightarrow> u32 \<Rightarrow> u8 list \<Rightarrow> u32 \<Rightarrow> u32 \<Rightarrow> nat \<Rightarrow> 'a task_state_scheme \<Rightarrow> (nat option \<times> 'a task_state_scheme) option" where
  "xTaskCreate ucHeap exit_error pxTaskCode pcName uxStackDepth pvParameters uxPrio s = do {
     (t, s) \<leftarrow> prvCreateTask ucHeap exit_error pxTaskCode pcName uxStackDepth pvParameters uxPrio s;
     if t \<noteq> NULL then do {
       s \<leftarrow> prvAddNewTaskToReadyList t s;
       Some (Some t, s)
     } else Some (None, s)
   }"

end
