(* ===== verification/Rtos_Life.thy ===== *)
theory Rtos_Life
  imports Rtos_Task
begin

text \<open>
  Deletion, suspension, resumption, priorities and periodic delays of tasks in \<open>tasks.c\<close>, over the
  state of \<open>Rtos_Task\<close>. A function that switches the context returns before the switch: the
  pending context-switch interrupt is part of the state. The \<open>FromISR\<close> functions are modelled for
  interrupts whose priority passes \<open>vPortValidateInterruptPriority\<close>.
\<close>

section \<open>Handles\<close>

text \<open>The handle \<open>NULL\<close> is the current task, if there is one; the function's assertion needs a task.\<close>

definition is_current :: "nat \<Rightarrow> 'a task_state_scheme \<Rightarrow> bool" where
  "is_current t s \<longleftrightarrow> \<not> no_current s \<and> t = current s"

definition uxTaskPriorityGet :: "nat option \<Rightarrow> 'a task_state_scheme \<Rightarrow> nat option" where
  "uxTaskPriorityGet h s = map_option (uxPriority (kern s)) (prvGetTCBFromHandle h s)"

definition uxTaskPriorityGetFromISR :: "nat option \<Rightarrow> 'a task_state_scheme \<Rightarrow> nat option" where
  "uxTaskPriorityGetFromISR h s = map_option (uxPriority (kern s)) (prvGetTCBFromHandle h s)"

definition uxTaskBasePriorityGet :: "nat option \<Rightarrow> 'a task_state_scheme \<Rightarrow> nat option" where
  "uxTaskBasePriorityGet h s = map_option (uxBasePriority (kern s)) (prvGetTCBFromHandle h s)"

definition uxTaskBasePriorityGetFromISR :: "nat option \<Rightarrow> 'a task_state_scheme \<Rightarrow> nat option" where
  "uxTaskBasePriorityGetFromISR h s = map_option (uxBasePriority (kern s)) (prvGetTCBFromHandle h s)"

section \<open>Deletion\<close>

definition prvDeleteTCB :: "nat \<Rightarrow> nat \<Rightarrow> 'a task_state_scheme \<Rightarrow> 'a task_state_scheme option" where
  "prvDeleteTCB ucHeap t s =
     (case ucStaticallyAllocated s t of
        tskDYNAMICALLY_ALLOCATED_STACK_AND_TCB \<Rightarrow> do {
          s \<leftarrow> task_free ucHeap (pxStack s t) s;
          task_free ucHeap t s
        }
      | tskSTATICALLY_ALLOCATED_STACK_ONLY \<Rightarrow> task_free ucHeap t s
      | tskSTATICALLY_ALLOCATED_STACK_AND_TCB \<Rightarrow> Some s)"

text \<open>The critical section of \<open>vTaskDelete\<close>; the flag is \<open>xDeleteTCBInIdleTask\<close>.\<close>

definition delete_section :: "nat \<Rightarrow> 'a task_state_scheme \<Rightarrow> (bool \<times> 'a task_state_scheme) option" where
  "delete_section t s = do {
     k \<leftarrow> list_remove (StateItem t) (kern s);
     k \<leftarrow> remove_if_listed (EventItem t) k;
     let s = s\<lparr>kern := k, uxTaskNumber := uxTaskNumber s + 1\<rparr>;
     if xSchedulerRunning s \<and> is_current t s then
       Some (True, s\<lparr>kern := list_insert_end TasksWaitingTermination (StateItem t) (kern s),
                     uxDeletedTasksWaitingCleanUp := uxDeletedTasksWaitingCleanUp s + 1\<rparr>)
     else
       Some (False, s\<lparr>kern := prvResetNextTaskUnblockTime
         ((kern s)\<lparr>uxCurrentNumberOfTasks := uxCurrentNumberOfTasks (kern s) - 1\<rparr>)\<rparr>)
   }"

definition vTaskDelete :: "nat \<Rightarrow> nat option \<Rightarrow> 'a task_state_scheme \<Rightarrow> 'a task_state_scheme option" where
  "vTaskDelete ucHeap h s = do {
     t \<leftarrow> prvGetTCBFromHandle h s;
     (in_idle, s) \<leftarrow> delete_section t s;
     s \<leftarrow> (if \<not> in_idle then prvDeleteTCB ucHeap t s else Some s);
     if xSchedulerRunning s \<and> is_current t s then
       if uxSchedulerSuspended (kern s) \<noteq> 0 then None else Some (s\<lparr>kern := portYIELD (kern s)\<rparr>)
     else Some s
   }"

text \<open>The idle task's loop over the tasks that deleted themselves.\<close>

definition reap_section :: "'a task_state_scheme \<Rightarrow> (nat \<times> 'a task_state_scheme) option" where
  "reap_section s = do {
     it \<leftarrow> head_entry TasksWaitingTermination (kern s);
     let t = owner it;
     k \<leftarrow> list_remove (StateItem t) (kern s);
     Some (t, s\<lparr>kern := k\<lparr>uxCurrentNumberOfTasks := uxCurrentNumberOfTasks k - 1\<rparr>,
                uxDeletedTasksWaitingCleanUp := uxDeletedTasksWaitingCleanUp s - 1\<rparr>)
   }"

partial_function (option) prvCheckTasksWaitingTermination :: "nat \<Rightarrow> 'a task_state_scheme \<Rightarrow> 'a task_state_scheme option" where
  "prvCheckTasksWaitingTermination ucHeap s =
     (if uxDeletedTasksWaitingCleanUp s > 0 then do {
        (t, s) \<leftarrow> reap_section s;
        s \<leftarrow> prvDeleteTCB ucHeap t s;
        prvCheckTasksWaitingTermination ucHeap s
      }
      else Some s)"

section \<open>Suspension\<close>

text \<open>The first critical section of \<open>vTaskSuspend\<close>.\<close>

definition suspend_section :: "nat \<Rightarrow> 'a task_state_scheme \<Rightarrow> 'a task_state_scheme option" where
  "suspend_section t s = do {
     k \<leftarrow> list_remove (StateItem t) (kern s);
     k \<leftarrow> remove_if_listed (EventItem t) k;
     let k = list_insert_end SuspendedTaskList (StateItem t) k;
     Some (s\<lparr>kern := k, ucNotifyState := (ucNotifyState s)(t :=
       (if ucNotifyState s t = taskWAITING_NOTIFICATION then taskNOT_WAITING_NOTIFICATION else ucNotifyState s t))\<rparr>)
   }"

definition vTaskSuspend :: "nat option \<Rightarrow> 'a task_state_scheme \<Rightarrow> 'a task_state_scheme option" where
  "vTaskSuspend h s = do {
     t \<leftarrow> prvGetTCBFromHandle h s;
     s \<leftarrow> suspend_section t s;
     let s = (if xSchedulerRunning s then s\<lparr>kern := prvResetNextTaskUnblockTime (kern s)\<rparr> else s);
     if is_current t s then
       if xSchedulerRunning s then
         (if uxSchedulerSuspended (kern s) \<noteq> 0 then None else Some (s\<lparr>kern := portYIELD (kern s)\<rparr>))
       else if length (entries (kern s) SuspendedTaskList) = uxCurrentNumberOfTasks (kern s) then
         Some (s\<lparr>no_current := True\<rparr>)
       else on_kernel vTaskSwitchContext s
     else Some s
   }"

definition prvTaskIsTaskSuspended :: "nat \<Rightarrow> 'a task_state_scheme \<Rightarrow> bool" where
  "prvTaskIsTaskSuspended t s =
     (if container (kern s) (StateItem t) = Some SuspendedTaskList then
        if container (kern s) (EventItem t) \<noteq> Some PendingReadyList then
          if container (kern s) (EventItem t) = None then ucNotifyState s t \<noteq> taskWAITING_NOTIFICATION else False
        else False
      else False)"

definition vTaskResume :: "nat option \<Rightarrow> 'a task_state_scheme \<Rightarrow> 'a task_state_scheme option" where
  "vTaskResume h s = do {
     t \<leftarrow> h;
     if \<not> is_current t s \<and> prvTaskIsTaskSuspended t s then do {
       k \<leftarrow> list_remove (StateItem t) (kern s);
       taskYIELD_ANY_CORE_IF_USING_PREEMPTION t (s\<lparr>kern := prvAddTaskToReadyList t k\<rparr>)
     }
     else Some s
   }"

definition xTaskResumeFromISR :: "nat option \<Rightarrow> 'a task_state_scheme \<Rightarrow> (bool \<times> 'a task_state_scheme) option" where
  "xTaskResumeFromISR h s = do {
     t \<leftarrow> h;
     if prvTaskIsTaskSuspended t s then
       if uxSchedulerSuspended (kern s) = 0 then
         if no_current s then None
         else do {
           let preempt = uxPriority (kern s) t > uxPriority (kern s) (current s);
           let k = (if preempt then (kern s)\<lparr>xYieldPending := True\<rparr> else kern s);
           k \<leftarrow> list_remove (StateItem t) k;
           Some (preempt, s\<lparr>kern := prvAddTaskToReadyList t k\<rparr>)
         }
       else Some (False, s\<lparr>kern := list_insert_end PendingReadyList (EventItem t) (kern s)\<rparr>)
     else Some (False, s)
   }"

section \<open>Priorities\<close>

text \<open>The new priorities, the key of the event item and the ready list.\<close>

definition change_priority :: "nat \<Rightarrow> nat \<Rightarrow> kernel \<Rightarrow> kernel option" where
  "change_priority t new k =
     (let onEntry = uxPriority k t;
          k = (if uxBasePriority k t = onEntry \<or> new > onEntry then k\<lparr>uxPriority := (uxPriority k)(t := new)\<rparr> else k);
          k = k\<lparr>uxBasePriority := (uxBasePriority k)(t := new)\<rparr>;
          k = (if \<not> event_value_in_use t k then set_priority_value t new k else k)
      in if container k (StateItem t) = Some (ReadyList onEntry) then do {
           k \<leftarrow> list_remove (StateItem t) k;
           Some (prvAddTaskToReadyList t k)
         } else Some k)"

definition vTaskPrioritySet :: "nat option \<Rightarrow> nat \<Rightarrow> 'a task_state_scheme \<Rightarrow> 'a task_state_scheme option" where
  "vTaskPrioritySet h new s =
     (if new \<ge> configMAX_PRIORITIES then None
      else do {
        t \<leftarrow> prvGetTCBFromHandle h s;
        let base = uxBasePriority (kern s) t;
        if base = new then Some s
        else if new > base \<and> \<not> is_current t s \<and> no_current s then None
        else do {
          let yield = (if new > base then \<not> is_current t s \<and> new > uxPriority (kern s) (current s) else is_current t s);
          k \<leftarrow> change_priority t new (kern s);
          Some (s\<lparr>kern := (if yield then portYIELD k else k)\<rparr>)
        }
      })"

section \<open>Periodic delays\<close>

text \<open>Whether to delay, from the previous wake time, the increment and the tick count.\<close>

definition should_delay :: "tick \<Rightarrow> tick \<Rightarrow> tick \<Rightarrow> bool" where
  "should_delay previous increment now =
     (let wake = previous + increment
      in if now < previous then wake < previous \<and> wake > now
         else wake < previous \<or> wake > now)"

text \<open>The result and the updated \<open>*pxPreviousWakeTime\<close>.\<close>

definition xTaskDelayUntil :: "tick \<Rightarrow> tick \<Rightarrow> kernel \<Rightarrow> (bool \<times> tick \<times> kernel) option" where
  "xTaskDelayUntil previous increment k =
     (if increment = 0 then None
      else do {
        let k = vTaskSuspendAll k;
        let now = xTickCount k;
        if uxSchedulerSuspended k \<noteq> 1 then None
        else do {
          let wake = previous + increment;
          let delay = should_delay previous increment now;
          k \<leftarrow> (if delay then prvAddCurrentTaskToDelayedList (wake - now) False k else Some k);
          (yielded, k) \<leftarrow> xTaskResumeAll k;
          Some (delay, wake, if yielded then k else portYIELD k)
        }
      })"

definition xTaskCatchUpTicks :: "tick \<Rightarrow> kernel \<Rightarrow> (bool \<times> kernel) option" where
  "xTaskCatchUpTicks n k =
     (if uxSchedulerSuspended k \<noteq> 0 then None
      else let k = vTaskSuspendAll k in xTaskResumeAll (k\<lparr>xPendedTicks := xPendedTicks k + n\<rparr>))"

section \<open>The scheduler as a whole\<close>

definition xTaskGetTickCount :: "kernel \<Rightarrow> tick" where
  "xTaskGetTickCount k = xTickCount k"

definition xTaskGetTickCountFromISR :: "kernel \<Rightarrow> tick" where
  "xTaskGetTickCountFromISR k = xTickCount k"

definition uxTaskGetNumberOfTasks :: "kernel \<Rightarrow> nat" where
  "uxTaskGetNumberOfTasks k = uxCurrentNumberOfTasks k"

definition xTaskGetCurrentTaskHandle :: "'a task_state_scheme \<Rightarrow> nat option" where
  "xTaskGetCurrentTaskHandle s = (if no_current s then None else Some (current s))"

datatype scheduler_state = taskSCHEDULER_SUSPENDED | taskSCHEDULER_NOT_STARTED | taskSCHEDULER_RUNNING

definition xTaskGetSchedulerState :: "'a task_state_scheme \<Rightarrow> scheduler_state" where
  "xTaskGetSchedulerState s =
     (if \<not> xSchedulerRunning s then taskSCHEDULER_NOT_STARTED
      else if uxSchedulerSuspended (kern s) = 0 then taskSCHEDULER_RUNNING else taskSCHEDULER_SUSPENDED)"

definition pcTaskGetName :: "nat option \<Rightarrow> 'a task_state_scheme \<Rightarrow> u8 list option" where
  "pcTaskGetName h s = map_option (pcTaskName s) (prvGetTCBFromHandle h s)"

section \<open>Unordered event lists\<close>

abbreviation (input) taskEVENT_LIST_ITEM_VALUE_IN_USE :: tick where
  "taskEVENT_LIST_ITEM_VALUE_IN_USE \<equiv> 0x8000000000000000"

definition vTaskPlaceOnUnorderedEventList :: "list_id \<Rightarrow> tick \<Rightarrow> tick \<Rightarrow> kernel \<Rightarrow> kernel option" where
  "vTaskPlaceOnUnorderedEventList l v ticks k =
     (if uxSchedulerSuspended k = 0 then None
      else let it = EventItem (pxCurrentTCB k);
               k = set_item_value it (v OR taskEVENT_LIST_ITEM_VALUE_IN_USE) k
        in prvAddCurrentTaskToDelayedList ticks True (list_insert_end l it k))"

definition vTaskRemoveFromUnorderedEventList :: "litem \<Rightarrow> tick \<Rightarrow> kernel \<Rightarrow> kernel option" where
  "vTaskRemoveFromUnorderedEventList it v k =
     (if uxSchedulerSuspended k = 0 then None
      else do {
        let k = set_item_value it (v OR taskEVENT_LIST_ITEM_VALUE_IN_USE) k;
        let t = owner it;
        k \<leftarrow> list_remove it k;
        k \<leftarrow> list_remove (StateItem t) k;
        let k = prvAddTaskToReadyList t k;
        Some (if uxPriority k t > uxPriority k (pxCurrentTCB k) then k\<lparr>xYieldPending := True\<rparr> else k)
      })"

definition uxTaskResetEventItemValue :: "kernel \<Rightarrow> tick \<times> kernel" where
  "uxTaskResetEventItemValue k =
     (let t = pxCurrentTCB k in (item_value k (EventItem t), set_priority_value t (uxPriority k t) k))"

end
