(* ===== verification/Rtos_Group.thy ===== *)
theory Rtos_Group
  imports Rtos_Life
begin

text \<open>
  The event groups of \<open>FreeRTOS-Kernel-main/event_groups.c\<close>. The bits of a group are a tick-sized
  word whose top byte is not for bits: in the event item of a waiting task it holds the control
  bits of the wait. A section that runs with the scheduler suspended is atomic, as no
  interrupt touches a group. A wait is two such sections, with \<open>env\<close> in between: what other
  code does until the task is scheduled again (point 0), and between its last two critical
  sections (point 1).
\<close>

record EventGroup_t =
  uxEventBits :: tick
  xTasksWaitingForBits :: list_id
  group_is_static :: bool

abbreviation (input) eventCLEAR_EVENTS_ON_EXIT_BIT :: tick where "eventCLEAR_EVENTS_ON_EXIT_BIT \<equiv> 0x0100000000000000"
abbreviation (input) eventUNBLOCKED_DUE_TO_BIT_SET :: tick where "eventUNBLOCKED_DUE_TO_BIT_SET \<equiv> 0x0200000000000000"
abbreviation (input) eventWAIT_FOR_ALL_BITS :: tick where "eventWAIT_FOR_ALL_BITS \<equiv> 0x0400000000000000"
abbreviation (input) eventEVENT_BITS_CONTROL_BYTES :: tick where "eventEVENT_BITS_CONTROL_BYTES \<equiv> 0xFF00000000000000"

text \<open>\<open>sizeof(EventGroup_t)\<close>.\<close>

abbreviation (input) sizeof_EventGroup :: u32 where "sizeof_EventGroup \<equiv> 40"

section \<open>Creation\<close>

definition new_group :: "bool \<Rightarrow> list_id \<Rightarrow> kernel \<Rightarrow> EventGroup_t \<times> kernel" where
  "new_group static l k =
     (\<lparr>uxEventBits = 0, xTasksWaitingForBits = l, group_is_static = static\<rparr>, k\<lparr>lists := (lists k)(l := xl_empty)\<rparr>)"

definition xEventGroupCreateStatic :: "nat \<Rightarrow> list_id \<Rightarrow> kernel \<Rightarrow> (EventGroup_t \<times> kernel) option" where
  "xEventGroupCreateStatic pxEventGroupBuffer l k =
     (if pxEventGroupBuffer = NULL then None else Some (new_group True l k))"

text \<open>The address and the group, if there was memory; the list of waiting tasks is named after the address.\<close>

definition xEventGroupCreate :: "nat \<Rightarrow> task_state \<Rightarrow> ((nat \<times> EventGroup_t) option \<times> task_state) option" where
  "xEventGroupCreate ucHeap s = do {
     (a, s) \<leftarrow> task_malloc ucHeap sizeof_EventGroup s;
     if a = NULL then Some (None, s)
     else let (g, k) = new_group False (EventList a) (kern s) in Some (Some (a, g), s\<lparr>kern := k\<rparr>)
   }"

definition xEventGroupGetStaticBuffer :: "nat \<Rightarrow> EventGroup_t \<Rightarrow> nat option" where
  "xEventGroupGetStaticBuffer a g = (if group_is_static g then Some a else None)"

section \<open>Setting and clearing bits\<close>

definition prvTestWaitCondition :: "tick \<Rightarrow> tick \<Rightarrow> bool \<Rightarrow> bool" where
  "prvTestWaitCondition bits waited all =
     (if \<not> all then bits AND waited \<noteq> 0 else bits AND waited = waited)"

text \<open>Whether the wait whose event item has the value \<open>v\<close> ends with the bits \<open>bits\<close>.\<close>

definition bits_match :: "tick \<Rightarrow> tick \<Rightarrow> bool" where
  "bits_match v bits =
     (let control = v AND eventEVENT_BITS_CONTROL_BYTES; waited = v AND NOT eventEVENT_BITS_CONTROL_BYTES
      in if control AND eventWAIT_FOR_ALL_BITS = 0 then waited AND bits \<noteq> 0 else waited AND bits = waited)"

text \<open>What such a wait clears.\<close>

definition bits_cleared :: "tick \<Rightarrow> tick" where
  "bits_cleared v = (if (v AND eventEVENT_BITS_CONTROL_BYTES) AND eventCLEAR_EVENTS_ON_EXIT_BIT \<noteq> 0
     then v AND NOT eventEVENT_BITS_CONTROL_BYTES else 0)"

text \<open>
  The walk over the waiting tasks, which reads the next item before it may remove one. The
  first result is \<open>uxBitsToClear\<close>.
\<close>

fun wake_matching :: "litem list \<Rightarrow> tick \<Rightarrow> tick \<Rightarrow> kernel \<Rightarrow> (tick \<times> kernel) option" where
  "wake_matching [] bits clear k = Some (clear, k)"
| "wake_matching (it # its) bits clear k =
     (let v = item_value k it in
      if bits_match v bits then do {
        k \<leftarrow> vTaskRemoveFromUnorderedEventList it (bits OR eventUNBLOCKED_DUE_TO_BIT_SET) k;
        wake_matching its bits (clear OR bits_cleared v) k
      } else wake_matching its bits clear k)"

definition xEventGroupSetBits :: "tick \<Rightarrow> EventGroup_t \<Rightarrow> kernel \<Rightarrow> (tick \<times> EventGroup_t \<times> kernel) option" where
  "xEventGroupSetBits uxBitsToSet g k =
     (if uxBitsToSet AND eventEVENT_BITS_CONTROL_BYTES \<noteq> 0 then None
      else do {
        let k = vTaskSuspendAll k;
        let g = g\<lparr>uxEventBits := uxEventBits g OR uxBitsToSet\<rparr>;
        (clear, k) \<leftarrow> wake_matching (entries k (xTasksWaitingForBits g)) (uxEventBits g) 0 k;
        let g = g\<lparr>uxEventBits := uxEventBits g AND NOT clear\<rparr>;
        (_, k) \<leftarrow> xTaskResumeAll k;
        Some (uxEventBits g, g, k)
      })"

definition xEventGroupClearBits :: "tick \<Rightarrow> EventGroup_t \<Rightarrow> (tick \<times> EventGroup_t) option" where
  "xEventGroupClearBits uxBitsToClear g =
     (if uxBitsToClear AND eventEVENT_BITS_CONTROL_BYTES \<noteq> 0 then None
      else Some (uxEventBits g, g\<lparr>uxEventBits := uxEventBits g AND NOT uxBitsToClear\<rparr>))"

definition xEventGroupGetBitsFromISR :: "EventGroup_t \<Rightarrow> tick" where
  "xEventGroupGetBitsFromISR g = uxEventBits g"

definition vEventGroupSetBitsCallback :: "u32 \<Rightarrow> EventGroup_t \<Rightarrow> kernel \<Rightarrow> (EventGroup_t \<times> kernel) option" where
  "vEventGroupSetBitsCallback ulBitsToSet g k = map_option snd (xEventGroupSetBits (ucast ulBitsToSet) g k)"

definition vEventGroupClearBitsCallback :: "u32 \<Rightarrow> EventGroup_t \<Rightarrow> EventGroup_t option" where
  "vEventGroupClearBitsCallback ulBitsToClear g = map_option snd (xEventGroupClearBits (ucast ulBitsToClear) g)"

section \<open>Waiting\<close>

definition clear_group_bits :: "tick \<Rightarrow> EventGroup_t \<Rightarrow> EventGroup_t" where
  "clear_group_bits bits g = g\<lparr>uxEventBits := uxEventBits g AND NOT bits\<rparr>"

text \<open>The first section of a wait: the result so far and whether the task blocks.\<close>

definition wait_bits_section ::
  "tick \<Rightarrow> bool \<Rightarrow> bool \<Rightarrow> tick \<Rightarrow> EventGroup_t \<Rightarrow> kernel \<Rightarrow> (tick \<times> bool \<times> EventGroup_t \<times> kernel) option" where
  "wait_bits_section waited clear all ticks g k =
     (let bits = uxEventBits g in
      if prvTestWaitCondition bits waited all then
        Some (bits, False, if clear then clear_group_bits waited g else g, k)
      else if ticks = 0 then Some (bits, False, g, k)
      else do {
        let control = (if clear then eventCLEAR_EVENTS_ON_EXIT_BIT else 0) OR (if all then eventWAIT_FOR_ALL_BITS else 0);
        k \<leftarrow> vTaskPlaceOnUnorderedEventList (xTasksWaitingForBits g) (waited OR control) ticks k;
        Some (0, True, g, k)
      })"

text \<open>The end of a wait: the task blocked, and was scheduled again.\<close>

definition wait_bits_finish ::
  "(EventGroup_t \<Rightarrow> tick \<times> EventGroup_t) \<Rightarrow> (EventGroup_t \<times> task_state \<Rightarrow> (EventGroup_t \<times> task_state) option) \<Rightarrow>
   EventGroup_t \<Rightarrow> task_state \<Rightarrow> (tick \<times> EventGroup_t \<times> task_state) option" where
  "wait_bits_finish timeout env g s = do {
     let (v, k) = uxTaskResetEventItemValue (kern s);
     let s = s\<lparr>kern := k\<rparr>;
     (v, g, s) \<leftarrow> (if v AND eventUNBLOCKED_DUE_TO_BIT_SET = 0 then do {
         (g, s) \<leftarrow> env (g, s);
         let (v, g) = timeout g;
         Some (v, g, s)
       } else Some (v, g, s));
     Some (v AND NOT eventEVENT_BITS_CONTROL_BYTES, g, s)
   }"

definition wait_bits_call ::
  "tick \<Rightarrow> tick \<Rightarrow> (EventGroup_t \<Rightarrow> kernel \<Rightarrow> (tick \<times> bool \<times> EventGroup_t \<times> kernel) option) \<Rightarrow>
   (EventGroup_t \<Rightarrow> tick \<times> EventGroup_t) \<Rightarrow> (nat \<Rightarrow> EventGroup_t \<times> task_state \<Rightarrow> (EventGroup_t \<times> task_state) option) \<Rightarrow>
   EventGroup_t \<Rightarrow> task_state \<Rightarrow> (tick \<times> EventGroup_t \<times> task_state) option" where
  "wait_bits_call waited ticks first_section timeout env g s =
     (if waited AND eventEVENT_BITS_CONTROL_BYTES \<noteq> 0 \<or> waited = 0
         \<or> (xTaskGetSchedulerState s = taskSCHEDULER_SUSPENDED \<and> ticks \<noteq> 0) then None
      else do {
        (v, block, g, k) \<leftarrow> first_section g (vTaskSuspendAll (kern s));
        (yielded, k) \<leftarrow> xTaskResumeAll k;
        if block then do {
          (g, s) \<leftarrow> env 0 (g, s\<lparr>kern := (if yielded then k else portYIELD k)\<rparr>);
          wait_bits_finish timeout (env 1) g s
        } else Some (v, g, s\<lparr>kern := k\<rparr>)
      })"

text \<open>The critical section after a time-out.\<close>

definition wait_bits_timeout :: "tick \<Rightarrow> bool \<Rightarrow> bool \<Rightarrow> EventGroup_t \<Rightarrow> tick \<times> EventGroup_t" where
  "wait_bits_timeout waited clear all g =
     (uxEventBits g, if prvTestWaitCondition (uxEventBits g) waited all \<and> clear then clear_group_bits waited g else g)"

definition xEventGroupWaitBits ::
  "tick \<Rightarrow> bool \<Rightarrow> bool \<Rightarrow> tick \<Rightarrow> (nat \<Rightarrow> EventGroup_t \<times> task_state \<Rightarrow> (EventGroup_t \<times> task_state) option) \<Rightarrow>
   EventGroup_t \<Rightarrow> task_state \<Rightarrow> (tick \<times> EventGroup_t \<times> task_state) option" where
  "xEventGroupWaitBits waited clear all ticks env g s =
     wait_bits_call waited ticks (wait_bits_section waited clear all ticks) (wait_bits_timeout waited clear all) env g s"

definition sync_section :: "tick \<Rightarrow> tick \<Rightarrow> tick \<Rightarrow> EventGroup_t \<Rightarrow> kernel \<Rightarrow> (tick \<times> bool \<times> EventGroup_t \<times> kernel) option" where
  "sync_section uxBitsToSet waited ticks g k = do {
     let original = uxEventBits g;
     (_, g, k) \<leftarrow> xEventGroupSetBits uxBitsToSet g k;
     if (original OR uxBitsToSet) AND waited = waited then
       Some (original OR uxBitsToSet, False, clear_group_bits waited g, k)
     else if ticks \<noteq> 0 then do {
       k \<leftarrow> vTaskPlaceOnUnorderedEventList (xTasksWaitingForBits g)
         (waited OR eventCLEAR_EVENTS_ON_EXIT_BIT OR eventWAIT_FOR_ALL_BITS) ticks k;
       Some (0, True, g, k)
     }
     else Some (uxEventBits g, False, g, k)
   }"

definition sync_timeout :: "tick \<Rightarrow> EventGroup_t \<Rightarrow> tick \<times> EventGroup_t" where
  "sync_timeout waited g =
     (uxEventBits g, if uxEventBits g AND waited = waited then clear_group_bits waited g else g)"

definition xEventGroupSync ::
  "tick \<Rightarrow> tick \<Rightarrow> tick \<Rightarrow> (nat \<Rightarrow> EventGroup_t \<times> task_state \<Rightarrow> (EventGroup_t \<times> task_state) option) \<Rightarrow>
   EventGroup_t \<Rightarrow> task_state \<Rightarrow> (tick \<times> EventGroup_t \<times> task_state) option" where
  "xEventGroupSync uxBitsToSet waited ticks env g s =
     wait_bits_call waited ticks (sync_section uxBitsToSet waited ticks) (sync_timeout waited) env g s"

section \<open>Deletion\<close>

text \<open>The loop that wakes every waiting task; the assertion is that the list has a first item.\<close>

partial_function (option) wake_all :: "list_id \<Rightarrow> kernel \<Rightarrow> kernel option" where
  "wake_all l k =
     (if length (entries k l) > 0 then do {
        it \<leftarrow> head_entry l k;
        k \<leftarrow> vTaskRemoveFromUnorderedEventList it eventUNBLOCKED_DUE_TO_BIT_SET k;
        wake_all l k
      } else Some k)"

definition vEventGroupDelete :: "nat \<Rightarrow> nat \<Rightarrow> EventGroup_t \<Rightarrow> task_state \<Rightarrow> task_state option" where
  "vEventGroupDelete ucHeap a g s = do {
     k \<leftarrow> wake_all (xTasksWaitingForBits g) (vTaskSuspendAll (kern s));
     (_, k) \<leftarrow> xTaskResumeAll k;
     let s = s\<lparr>kern := k\<rparr>;
     if \<not> group_is_static g then task_free ucHeap a s else Some s
   }"

end
