(* ===== verification/Rtos_Notify.thy ===== *)
theory Rtos_Notify
  imports Rtos_Life
begin

text \<open>
  Direct-to-task notifications of \<open>tasks.c\<close>. A waiting function is a sequence of atomic sections;
  \<open>env n\<close> is what other code does at its \<open>n\<close>-th point: interrupts at the points 0 to 2, and at
  point 3, after the yield, whatever runs until the task is scheduled again.
\<close>

abbreviation (input) configTASK_NOTIFICATION_ARRAY_ENTRIES :: nat where "configTASK_NOTIFICATION_ARRAY_ENTRIES \<equiv> 1"

datatype eNotifyAction = eNoAction | eSetBits | eIncrement | eSetValueWithOverwrite | eSetValueWithoutOverwrite

section \<open>Sending\<close>

text \<open>The switch over the action: the result of the function and the new value.\<close>

fun notify_value :: "eNotifyAction \<Rightarrow> notify_state \<Rightarrow> u32 \<Rightarrow> u32 \<Rightarrow> bool \<times> u32" where
  "notify_value eSetBits st v old = (True, old OR v)"
| "notify_value eIncrement st v old = (True, old + 1)"
| "notify_value eSetValueWithOverwrite st v old = (True, v)"
| "notify_value eSetValueWithoutOverwrite st v old = (if st \<noteq> taskNOTIFICATION_RECEIVED then (True, v) else (False, old))"
| "notify_value eNoAction st v old = (True, old)"

definition set_notified :: "nat \<Rightarrow> notify_state \<Rightarrow> u32 \<Rightarrow> 'a task_state_scheme \<Rightarrow> 'a task_state_scheme" where
  "set_notified t st v s = s\<lparr>ucNotifyState := (ucNotifyState s)(t := st), ulNotifiedValue := (ulNotifiedValue s)(t := v)\<rparr>"

text \<open>The result, \<open>*pulPreviousNotificationValue\<close> and the new state.\<close>

definition xTaskGenericNotify ::
  "nat option \<Rightarrow> nat \<Rightarrow> u32 \<Rightarrow> eNotifyAction \<Rightarrow> 'a task_state_scheme \<Rightarrow> (bool \<times> u32 \<times> 'a task_state_scheme) option" where
  "xTaskGenericNotify h idx v action s =
     (if idx \<ge> configTASK_NOTIFICATION_ARRAY_ENTRIES then None
      else do {
        t \<leftarrow> h;
        let previous = ulNotifiedValue s t;
        let original = ucNotifyState s t;
        let (ok, new) = notify_value action original v previous;
        let s = set_notified t taskNOTIFICATION_RECEIVED new s;
        s \<leftarrow> (if original = taskWAITING_NOTIFICATION then do {
                k \<leftarrow> list_remove (StateItem t) (kern s);
                let k = prvAddTaskToReadyList t k;
                if container k (EventItem t) \<noteq> None then None
                else taskYIELD_ANY_CORE_IF_USING_PREEMPTION t (s\<lparr>kern := k\<rparr>)
              } else Some s);
        Some (ok, previous, s)
      })"

text \<open>Wake the waiting task from an interrupt; the flag is \<open>*pxHigherPriorityTaskWoken\<close>.\<close>

definition notify_wake_from_ISR :: "nat \<Rightarrow> 'a task_state_scheme \<Rightarrow> (bool \<times> 'a task_state_scheme) option" where
  "notify_wake_from_ISR t s =
     (if container (kern s) (EventItem t) \<noteq> None then None
      else do {
        k \<leftarrow> (if uxSchedulerSuspended (kern s) = 0 then do {
                k \<leftarrow> list_remove (StateItem t) (kern s);
                Some (prvAddTaskToReadyList t k)
              } else Some (list_insert_end PendingReadyList (EventItem t) (kern s)));
        if no_current s then None
        else if uxPriority k t > uxPriority k (pxCurrentTCB k) then
          Some (True, s\<lparr>kern := k\<lparr>xYieldPending := True\<rparr>\<rparr>)
        else Some (False, s\<lparr>kern := k\<rparr>)
      })"

definition xTaskGenericNotifyFromISR ::
  "nat option \<Rightarrow> nat \<Rightarrow> u32 \<Rightarrow> eNotifyAction \<Rightarrow> 'a task_state_scheme \<Rightarrow> (bool \<times> u32 \<times> bool \<times> 'a task_state_scheme) option" where
  "xTaskGenericNotifyFromISR h idx v action s = do {
     t \<leftarrow> h;
     if idx \<ge> configTASK_NOTIFICATION_ARRAY_ENTRIES then None
     else do {
       let previous = ulNotifiedValue s t;
       let original = ucNotifyState s t;
       let (ok, new) = notify_value action original v previous;
       let s = set_notified t taskNOTIFICATION_RECEIVED new s;
       (woken, s) \<leftarrow> (if original = taskWAITING_NOTIFICATION then notify_wake_from_ISR t s else Some (False, s));
       Some (ok, previous, woken, s)
     }
   }"

definition vTaskGenericNotifyGiveFromISR :: "nat option \<Rightarrow> nat \<Rightarrow> 'a task_state_scheme \<Rightarrow> (bool \<times> 'a task_state_scheme) option" where
  "vTaskGenericNotifyGiveFromISR h idx s = do {
     t \<leftarrow> h;
     if idx \<ge> configTASK_NOTIFICATION_ARRAY_ENTRIES then None
     else do {
       let original = ucNotifyState s t;
       let s = set_notified t taskNOTIFICATION_RECEIVED (ulNotifiedValue s t + 1) s;
       if original = taskWAITING_NOTIFICATION then notify_wake_from_ISR t s else Some (False, s)
     }
   }"

section \<open>Waiting\<close>

text \<open>The part both waiting functions share: block while \<open>waits\<close> holds, after \<open>prepare\<close>.\<close>

definition notify_block ::
  "('a task_state_scheme \<Rightarrow> bool) \<Rightarrow> ('a task_state_scheme \<Rightarrow> 'a task_state_scheme) \<Rightarrow> tick \<Rightarrow> (nat \<Rightarrow> 'a task_state_scheme \<Rightarrow> 'a task_state_scheme option) \<Rightarrow>
   'a task_state_scheme \<Rightarrow> 'a task_state_scheme option" where
  "notify_block waits prepare ticks env s =
     (if waits s \<and> ticks > 0 then do {
        s \<leftarrow> env 0 s;
        let s = s\<lparr>kern := vTaskSuspendAll (kern s)\<rparr>;
        s \<leftarrow> env 1 s;
        let block = waits s;
        let s = (if block then let s = prepare s
                   in s\<lparr>ucNotifyState := (ucNotifyState s)(current s := taskWAITING_NOTIFICATION)\<rparr>
                 else s);
        s \<leftarrow> env 2 s;
        s \<leftarrow> (if block then on_kernel (prvAddCurrentTaskToDelayedList ticks True) s else Some s);
        (yielded, k) \<leftarrow> xTaskResumeAll (kern s);
        env 3 (s\<lparr>kern := (if block \<and> \<not> yielded then portYIELD k else k)\<rparr>)
      }
      else Some s)"

text \<open>The last critical section of \<open>ulTaskGenericNotifyTake\<close>.\<close>

definition take_finish :: "bool \<Rightarrow> 'a task_state_scheme \<Rightarrow> u32 \<times> 'a task_state_scheme" where
  "take_finish clear s =
     (let t = current s; v = ulNotifiedValue s t
      in (v, set_notified t taskNOT_WAITING_NOTIFICATION (if v \<noteq> 0 then if clear then 0 else v - 1 else v) s))"

definition ulTaskGenericNotifyTake ::
  "nat \<Rightarrow> bool \<Rightarrow> tick \<Rightarrow> (nat \<Rightarrow> 'a task_state_scheme \<Rightarrow> 'a task_state_scheme option) \<Rightarrow> 'a task_state_scheme \<Rightarrow> (u32 \<times> 'a task_state_scheme) option" where
  "ulTaskGenericNotifyTake idx clear ticks env s =
     (if idx \<ge> configTASK_NOTIFICATION_ARRAY_ENTRIES then None
      else do {
        s \<leftarrow> notify_block (\<lambda>s. ulNotifiedValue s (current s) = 0) (\<lambda>s. s) ticks env s;
        Some (take_finish clear s)
      })"

text \<open>The last critical section of \<open>xTaskGenericNotifyWait\<close>: the result and \<open>*pulNotificationValue\<close>.\<close>

definition wait_finish :: "u32 \<Rightarrow> 'a task_state_scheme \<Rightarrow> bool \<times> u32 \<times> 'a task_state_scheme" where
  "wait_finish clear_exit s =
     (let t = current s; v = ulNotifiedValue s t; received = (ucNotifyState s t = taskNOTIFICATION_RECEIVED)
      in (received, v, set_notified t taskNOT_WAITING_NOTIFICATION (if received then v AND NOT clear_exit else v) s))"

definition clear_bits :: "u32 \<Rightarrow> 'a task_state_scheme \<Rightarrow> 'a task_state_scheme" where
  "clear_bits bits s = s\<lparr>ulNotifiedValue := (ulNotifiedValue s)(current s := ulNotifiedValue s (current s) AND NOT bits)\<rparr>"

definition xTaskGenericNotifyWait ::
  "nat \<Rightarrow> u32 \<Rightarrow> u32 \<Rightarrow> tick \<Rightarrow> (nat \<Rightarrow> 'a task_state_scheme \<Rightarrow> 'a task_state_scheme option) \<Rightarrow> 'a task_state_scheme \<Rightarrow> (bool \<times> u32 \<times> 'a task_state_scheme) option" where
  "xTaskGenericNotifyWait idx clear_entry clear_exit ticks env s =
     (if idx \<ge> configTASK_NOTIFICATION_ARRAY_ENTRIES then None
      else do {
        s \<leftarrow> notify_block (\<lambda>s. ucNotifyState s (current s) \<noteq> taskNOTIFICATION_RECEIVED) (clear_bits clear_entry) ticks env s;
        Some (wait_finish clear_exit s)
      })"

section \<open>Clearing\<close>

definition xTaskGenericNotifyStateClear :: "nat option \<Rightarrow> nat \<Rightarrow> 'a task_state_scheme \<Rightarrow> (bool \<times> 'a task_state_scheme) option" where
  "xTaskGenericNotifyStateClear h idx s =
     (if idx \<ge> configTASK_NOTIFICATION_ARRAY_ENTRIES then None
      else do {
        t \<leftarrow> prvGetTCBFromHandle h s;
        Some (if ucNotifyState s t = taskNOTIFICATION_RECEIVED
              then (True, s\<lparr>ucNotifyState := (ucNotifyState s)(t := taskNOT_WAITING_NOTIFICATION)\<rparr>)
              else (False, s))
      })"

definition ulTaskGenericNotifyValueClear :: "nat option \<Rightarrow> nat \<Rightarrow> u32 \<Rightarrow> 'a task_state_scheme \<Rightarrow> (u32 \<times> 'a task_state_scheme) option" where
  "ulTaskGenericNotifyValueClear h idx bits s =
     (if idx \<ge> configTASK_NOTIFICATION_ARRAY_ENTRIES then None
      else do {
        t \<leftarrow> prvGetTCBFromHandle h s;
        Some (ulNotifiedValue s t, s\<lparr>ulNotifiedValue := (ulNotifiedValue s)(t := ulNotifiedValue s t AND NOT bits)\<rparr>)
      })"

end
