(* ===== verification/Rtos_Heap_Layout.thy ===== *)
theory Rtos_Heap_Layout
  imports Rtos_Heap
begin

text \<open>
  Correctness of the allocator. The heap is viewed as a sequence of segments (size, in use); the
  headers in the store lay this sequence out between the start address and \<open>pxEnd\<close>, with the free
  segments linked in the order of their addresses. On this view allocation is first fit with
  splitting (\<open>alloc_first\<close>) and release marks a segment free and merges neighbours (\<open>merge\<close>).
\<close>

type_synonym segs = "(nat \<times> bool) list"

section \<open>Sequences of segments\<close>

definition span :: "segs \<Rightarrow> nat" where "span ss = sum_list (map fst ss)"

definition free_total :: "segs \<Rightarrow> nat" where
  "free_total ss = sum_list (map fst (filter (\<lambda>s. \<not> snd s) ss))"

definition sized :: "segs \<Rightarrow> bool" where "sized ss \<longleftrightarrow> (\<forall>s\<in>set ss. 8 dvd fst s \<and> 16 \<le> fst s)"

definition coalesced :: "segs \<Rightarrow> bool" where "coalesced = successively (\<lambda>s t. snd s \<or> snd t)"

text \<open>The first free segment from an address on, or the given address after the last one.\<close>

fun first_of :: "nat \<Rightarrow> nat \<Rightarrow> segs \<Rightarrow> nat" where
  "first_of q a [] = q"
| "first_of q a ((n, u) # ss) = (if u then first_of q (a + n) ss else a)"

fun last_free :: "block_ptr \<Rightarrow> nat \<Rightarrow> segs \<Rightarrow> block_ptr" where
  "last_free p a [] = p"
| "last_free p a ((n, u) # ss) = last_free (if u then p else Block a) (a + n) ss"

fun alloc_first :: "nat \<Rightarrow> segs \<Rightarrow> (nat \<times> segs) option" where
  "alloc_first m [] = None"
| "alloc_first m ((n, u) # ss) =
     (if \<not> u \<and> m \<le> n then Some (0, (if 16 < n - m then [(m, True), (n - m, False)] else [(n, True)]) @ ss)
      else map_option (\<lambda>(off, ss). (n + off, (n, u) # ss)) (alloc_first m ss))"

fun merge :: "segs \<Rightarrow> segs" where
  "merge ((n, False) # (m, False) # ss) = merge ((n + m, False) # ss)"
| "merge (s # ss) = s # merge ss"
| "merge [] = []"

definition absorb :: "nat \<Rightarrow> segs \<Rightarrow> nat \<times> segs" where
  "absorb n ss = (case ss of (m, False) # ss' \<Rightarrow> (n + m, ss') | _ \<Rightarrow> (n, ss))"

lemma span_simps [simp]:
  "span [] = 0" "span (s # ss) = fst s + span ss" "span (xs @ ys) = span xs + span ys"
  by (simp_all add: span_def)

lemma free_total_simps [simp]:
  "free_total [] = 0" "free_total (s # ss) = (if snd s then 0 else fst s) + free_total ss"
  "free_total (xs @ ys) = free_total xs + free_total ys"
  by (simp_all add: free_total_def)

lemma sized_simps [simp]:
  "sized []" "sized (s # ss) \<longleftrightarrow> 8 dvd fst s \<and> 16 \<le> fst s \<and> sized ss" "sized (xs @ ys) \<longleftrightarrow> sized xs \<and> sized ys"
  by (auto simp: sized_def)

lemma coalesced_simps [simp]:
  "coalesced []" "coalesced [s]" "coalesced (s # t # ss) \<longleftrightarrow> (snd s \<or> snd t) \<and> coalesced (t # ss)"
  "coalesced (xs @ ys) \<longleftrightarrow> coalesced xs \<and> coalesced ys \<and> (xs \<noteq> [] \<longrightarrow> ys \<noteq> [] \<longrightarrow> snd (last xs) \<or> snd (hd ys))"
  by (auto simp: coalesced_def successively_append_iff)

lemma coalesced_Cons: "coalesced (s # ss) \<longleftrightarrow> coalesced ss \<and> (ss \<noteq> [] \<longrightarrow> snd s \<or> snd (hd ss))"
  by (cases ss) auto

lemma free_total_le_span: "free_total ss \<le> span ss"
  by (induction ss) auto

lemma span_dvd: "sized ss \<Longrightarrow> 8 dvd span ss"
  by (induction ss) auto

lemma first_of_append [simp]: "first_of q a (xs @ ys) = first_of (first_of q (a + span xs) ys) a xs"
  by (induction xs arbitrary: a) (auto simp: add.assoc)

lemma last_free_append [simp]: "last_free p a (xs @ ys) = last_free (last_free p a xs) (a + span xs) ys"
  by (induction xs arbitrary: p a) (auto simp: add.assoc)

lemma first_of_ge: "a + span ss \<le> q \<Longrightarrow> a \<le> first_of q a ss"
proof (induction ss arbitrary: a)
  case (Cons s ss)
  from Cons.IH [of "a + fst s"] Cons.prems show ?case by (cases s) (auto simp: add.assoc)
qed simp

lemma first_of_le: "a + span ss \<le> q \<Longrightarrow> first_of q a ss \<le> q"
  by (induction ss arbitrary: a) (auto simp: add.assoc)

lemma alloc_first_None: "alloc_first m ss = None \<longleftrightarrow> (\<forall>s\<in>set ss. snd s \<or> fst s < m)"
proof (induction ss)
  case (Cons s ss)
  obtain n u where s: "s = (n, u)" by (cases s)
  have "alloc_first m (s # ss) = None \<longleftrightarrow> (u \<or> n < m) \<and> alloc_first m ss = None" by (simp add: s not_le)
  then show ?case using Cons.IH by (simp add: s)
qed simp

lemma alloc_first_Some:
  "alloc_first m ss = Some (off, ss') \<Longrightarrow> \<exists>pre n post. ss = pre @ (n, False) # post \<and> m \<le> n \<and> off = span pre
     \<and> (\<forall>s\<in>set pre. snd s \<or> fst s < m)
     \<and> ss' = pre @ (if 16 < n - m then [(m, True), (n - m, False)] else [(n, True)]) @ post"
proof (induction ss arbitrary: off ss')
  case (Cons s ss)
  obtain n u where s: "s = (n, u)" by (cases s)
  show ?case
  proof (cases "\<not> u \<and> m \<le> n")
    case True
    then show ?thesis using Cons.prems by (intro exI [of _ "[]"] exI [of _ n] exI [of _ ss]) (simp add: s)
  next
    case False
    then obtain o1 s1 where 1: "alloc_first m ss = Some (o1, s1)" "off = n + o1" "ss' = (n, u) # s1"
      using Cons.prems by (auto simp: s split: if_splits)
    obtain pre k post where "ss = pre @ (k, False) # post" "m \<le> k" "o1 = span pre" "\<forall>s\<in>set pre. snd s \<or> fst s < m"
      "s1 = pre @ (if 16 < k - m then [(m, True), (k - m, False)] else [(k, True)]) @ post"
      using Cons.IH [OF 1(1)] by blast
    then show ?thesis using False 1
      by (intro exI [of _ "(n, u) # pre"] exI [of _ k] exI [of _ post]) (auto simp: s)
  qed
qed simp

lemma merge_coalesced: "coalesced ss \<Longrightarrow> merge ss = ss"
  by (induction ss rule: merge.induct) (auto simp: coalesced_Cons)

lemma merge_keeps [simp]:
  "span (merge ss) = span ss" "free_total (merge ss) = free_total ss" "sized ss \<Longrightarrow> sized (merge ss)"
  by (induction ss rule: merge.induct) auto

lemma merge_first: "ss \<noteq> [] \<Longrightarrow> merge ss \<noteq> [] \<and> snd (hd (merge ss)) = snd (hd ss)"
  by (induction ss rule: merge.induct) auto

lemma coalesced_merge [simp]: "coalesced (merge ss)"
proof (induction ss rule: merge.induct, goal_cases)
  case (2 v ss)
  then show ?case by (simp add: coalesced_Cons)
next
  case (4 v u ss)
  then show ?case using merge_first [of "(u, True) # ss"] by (simp add: coalesced_Cons)
qed simp_all

lemma merge_block: "coalesced post \<Longrightarrow> merge ((n, False) # post) = (fst (absorb n post), False) # snd (absorb n post)"
proof (induction "(n, False) # post" arbitrary: n post rule: merge.induct)
  case (1 n m ss)
  then have "merge ((n + m, False) # ss) = (fst (absorb (n + m) ss), False) # snd (absorb (n + m) ss)"
    by (simp add: coalesced_Cons)
  moreover have "absorb (n + m) ss = (n + m, ss)" "merge ss = ss"
    using 1 by (auto simp: absorb_def coalesced_Cons merge_coalesced split: list.split)
  ultimately show ?case by (simp add: absorb_def)
qed (auto simp: absorb_def coalesced_Cons merge_coalesced)

lemma absorb_add: "absorb (m + n) ss = (m + fst (absorb n ss), snd (absorb n ss))"
  by (auto simp: absorb_def split: list.split prod.split bool.split)

lemma merge_freed:
  "coalesced (pre @ (n, True) # post) \<Longrightarrow> merge (pre @ (n, False) # post) =
     (if pre \<noteq> [] \<and> \<not> snd (last pre)
      then butlast pre @ (fst (last pre) + fst (absorb n post), False) # snd (absorb n post)
      else pre @ (fst (absorb n post), False) # snd (absorb n post))"
proof (induction pre rule: induct_list012)
  case 1
  then show ?case using merge_block [of post n] by (simp add: coalesced_Cons)
next
  case (2 s)
  obtain m u where s: "s = (m, u)" by (cases s)
  show ?case using 2 merge_block [of post n] merge_block [of post "m + n"]
    by (cases u) (simp_all add: s coalesced_Cons absorb_add)
next
  case (3 s t ss)
  have "snd s \<or> snd t" using 3(3) by simp
  then have "merge (s # (t # ss) @ (n, False) # post) = s # merge ((t # ss) @ (n, False) # post)"
    by (cases s; cases t; cases "snd s"; cases "snd t") auto
  then show ?case using 3 by simp
qed

section \<open>The layout of the segments in memory\<close>

definition header :: "bool \<Rightarrow> nat \<Rightarrow> nat \<Rightarrow> BlockLink_t" where
  "header u q n = (if u then \<lparr>pxNextFreeBlock = NULL, xBlockSize = of_nat n OR heapBLOCK_ALLOCATED_BITMASK\<rparr>
                   else \<lparr>pxNextFreeBlock = q, xBlockSize = of_nat n\<rparr>)"

text \<open>The headers of the segments from \<open>a\<close> on; \<open>q\<close> is the first free block behind them.\<close>

fun laid_out :: "(nat \<Rightarrow> BlockLink_t) \<Rightarrow> nat \<Rightarrow> nat \<Rightarrow> segs \<Rightarrow> bool" where
  "laid_out l q a [] \<longleftrightarrow> True"
| "laid_out l q a ((n, u) # ss) \<longleftrightarrow> l a = header u (first_of q (a + n) ss) n \<and> laid_out l q (a + n) ss"

definition chain :: "heap_t \<Rightarrow> block_ptr \<Rightarrow> nat \<Rightarrow> nat \<Rightarrow> segs \<Rightarrow> bool" where
  "chain h p q a ss \<longleftrightarrow> next_of h p = first_of q a ss \<and> laid_out (link_at h) q a ss"

fun before :: "block_ptr \<Rightarrow> nat \<Rightarrow> bool" where
  "before XStart a \<longleftrightarrow> True"
| "before (Block b) a \<longleftrightarrow> b < a"

lemma laid_out_append [simp]:
  "laid_out l q a (xs @ ys) \<longleftrightarrow> laid_out l (first_of q (a + span xs) ys) a xs \<and> laid_out l q (a + span xs) ys"
  by (induction xs arbitrary: a) (auto simp: add.assoc)

lemma laid_out_cong: "(\<And>x. a \<le> x \<Longrightarrow> x < a + span ss \<Longrightarrow> l x = l' x) \<Longrightarrow> sized ss \<Longrightarrow> laid_out l q a ss = laid_out l' q a ss"
proof (induction ss arbitrary: a)
  case (Cons s ss)
  obtain n u where s: "s = (n, u)" by (cases s)
  have "laid_out l q (a + n) ss = laid_out l' q (a + n) ss"
    by (rule Cons.IH) (use Cons.prems in \<open>auto simp: s\<close>)
  moreover have "l a = l' a" using Cons.prems by (simp add: s)
  ultimately show ?case by (simp add: s)
qed simp

lemma laid_out_transfer: "laid_out l q a ss \<Longrightarrow> sized ss \<Longrightarrow> (\<And>x. a \<le> x \<Longrightarrow> l' x = l x) \<Longrightarrow> laid_out l' q a ss"
  using laid_out_cong [of a ss l l' q] by simp

lemma laid_out_upd [simp]:
  "sized ss \<Longrightarrow> b < a \<or> a + span ss \<le> b \<Longrightarrow> laid_out (l(b := v)) q a ss = laid_out l q a ss"
  by (rule laid_out_cong) auto

lemma link_of_set [simp]:
  "link_of (set_link p v h) p' = (if p = p' then v else link_of h p')"
  "link_of (set_link_next p n h) p' = (if p = p' then (link_of h p)\<lparr>pxNextFreeBlock := n\<rparr> else link_of h p')"
  "link_of (set_link_size p m h) p' = (if p = p' then (link_of h p)\<lparr>xBlockSize := m\<rparr> else link_of h p')"
  by (cases p; cases p'; simp add: set_link_next_def set_link_size_def; fail)+

lemma link_at_set [simp]:
  "link_at (set_link (Block a) v h) = (link_at h)(a := v)"
  "link_at (set_link_next (Block a) n h) = (link_at h)(a := (link_at h a)\<lparr>pxNextFreeBlock := n\<rparr>)"
  "link_at (set_link_size (Block a) m h) = (link_at h)(a := (link_at h a)\<lparr>xBlockSize := m\<rparr>)"
  "link_at (set_link XStart v h) = link_at h" "link_at (set_link_next XStart n h) = link_at h"
  "link_at (set_link_size XStart m h) = link_at h"
  by (simp_all add: set_link_next_def set_link_size_def)

lemma xStart_set [simp]:
  "xStart (set_link (Block a) v h) = xStart h" "xStart (set_link_next (Block a) n h) = xStart h"
  "xStart (set_link_size (Block a) m h) = xStart h"
  by (simp_all add: set_link_next_def set_link_size_def)

lemma fields_set [simp]:
  "pxEnd (set_link p v h) = pxEnd h" "pxEnd (set_link_next p n h) = pxEnd h" "pxEnd (set_link_size p m h) = pxEnd h"
  "bytes (set_link p v h) = bytes h" "bytes (set_link_next p n h) = bytes h" "bytes (set_link_size p m h) = bytes h"
  "xFreeBytesRemaining (set_link p v h) = xFreeBytesRemaining h"
  "xFreeBytesRemaining (set_link_next p n h) = xFreeBytesRemaining h"
  "xFreeBytesRemaining (set_link_size p m h) = xFreeBytesRemaining h"
  "xMinimumEverFreeBytesRemaining (set_link p v h) = xMinimumEverFreeBytesRemaining h"
  "xMinimumEverFreeBytesRemaining (set_link_next p n h) = xMinimumEverFreeBytesRemaining h"
  "xMinimumEverFreeBytesRemaining (set_link_size p m h) = xMinimumEverFreeBytesRemaining h"
  "xNumberOfSuccessfulAllocations (set_link p v h) = xNumberOfSuccessfulAllocations h"
  "xNumberOfSuccessfulAllocations (set_link_next p n h) = xNumberOfSuccessfulAllocations h"
  "xNumberOfSuccessfulAllocations (set_link_size p m h) = xNumberOfSuccessfulAllocations h"
  "xNumberOfSuccessfulFrees (set_link p v h) = xNumberOfSuccessfulFrees h"
  "xNumberOfSuccessfulFrees (set_link_next p n h) = xNumberOfSuccessfulFrees h"
  "xNumberOfSuccessfulFrees (set_link_size p m h) = xNumberOfSuccessfulFrees h"
  by (cases p; simp add: set_link_next_def set_link_size_def; fail)+

declare set_link.simps [simp del]

lemma last_free_cases:
  "last_free p a ss = p \<or> (\<exists>b. last_free p a ss = Block b \<and> a \<le> b \<and> b < a + span ss)" if "sized ss"
  using that
proof (induction ss arbitrary: p a)
  case (Cons s ss)
  obtain n u where s: "s = (n, u)" by (cases s)
  from Cons.IH [of "if u then p else Block a" "a + n"] Cons.prems show ?case by (auto simp: s)
qed simp

lemma before_last_free: "sized ss \<Longrightarrow> before p a \<Longrightarrow> before (last_free p a ss) (a + span ss)"
  using last_free_cases [of ss p a] by (cases p) auto

text \<open>Changing the link of the last free block changes what follows the segments, and nothing else.\<close>

lemma relink:
  "chain h p q a ss \<Longrightarrow> before p a \<Longrightarrow> sized ss \<Longrightarrow> chain (set_link_next (last_free p a ss) q' h) p q' a ss"
proof (induction ss arbitrary: p a)
  case Nil
  then show ?case by (simp add: chain_def)
next
  case (Cons s ss)
  obtain n u where s: "s = (n, u)" by (cases s)
  let ?p = "if u then p else Block a"
  let ?h = "set_link_next (last_free ?p (a + n) ss) q' h"
  have pos: "0 < n" and sz: "sized ss" using Cons.prems(3) by (auto simp: s)
  have ne: "p \<noteq> Block a" using Cons.prems(2) by auto
  have "before ?p (a + n)" using Cons.prems(2) pos by (cases p) auto
  moreover have "chain h ?p q (a + n) ss" using Cons.prems by (simp add: chain_def s header_def)
  ultimately have c: "chain ?h ?p q' (a + n) ss" using sz by (intro Cons.IH)
  show ?case
  proof (cases u)
    case True
    have "last_free p (a + n) ss \<noteq> Block a" using last_free_cases [OF sz, of p "a + n"] pos ne by auto
    then have "link_of ?h (Block a) = link_of h (Block a)" using True by (simp del: link_of.simps)
    then show ?thesis using c Cons.prems(1) True by (simp add: chain_def s header_def)
  next
    case False
    have "last_free (Block a) (a + n) ss \<noteq> p" using last_free_cases [OF sz, of "Block a" "a + n"] Cons.prems(2) pos by auto
    then have "next_of ?h p = a" using False Cons.prems(1) by (simp add: chain_def s)
    moreover have "size_of ?h (Block a) = of_nat n" using Cons.prems(1) False
      by (simp del: link_of.simps) (simp add: chain_def s header_def)
    then have "link_at ?h a = header False (first_of q' (a + n) ss) n"
      using c False by (simp add: chain_def header_def)
    ultimately show ?thesis using c False by (simp add: chain_def s)
  qed
qed

section \<open>Sizes as words\<close>

lemma unat_size [simp]: "n < 2 ^ 31 \<Longrightarrow> unat (of_nat n :: u32) = n"
  by (simp add: unat_of_nat)

lemma bit31: "bit w 31 \<longleftrightarrow> \<not> unat (w :: u32) < 2 ^ 31"
proof -
  have "bit w 31 \<longleftrightarrow> bit (unat w) 31" by (simp add: bit_unsigned_iff)
  also have "\<dots> \<longleftrightarrow> odd (unat w div 2 ^ 31)" by (rule bit_iff_odd)
  also have "\<dots> \<longleftrightarrow> \<not> unat w < 2 ^ 31"
  proof -
    have "unat w < 2 ^ LENGTH(32)" by (rule unsigned_less)
    then have "unat w div 2 ^ 31 < 2" by simp
    moreover have "odd x \<longleftrightarrow> x \<noteq> 0" if "x < 2" for x :: nat using that by (auto simp: less_2_cases_iff)
    ultimately have "odd (unat w div 2 ^ 31) \<longleftrightarrow> unat w div 2 ^ 31 \<noteq> 0" by blast
    then show ?thesis by (simp add: div_eq_0_iff)
  qed
  finally show ?thesis .
qed

lemma size_valid: "heapBLOCK_SIZE_IS_VALID w \<longleftrightarrow> unat w < 2 ^ 31"
proof -
  have "w AND heapBLOCK_ALLOCATED_BITMASK = 0 \<longleftrightarrow> \<not> bit w 31"
    unfolding heapBLOCK_ALLOCATED_BITMASK_def push_bit_eq_mult mult_1 and_exp_eq_0_iff_not_bit by simp
  then show ?thesis unfolding heapBLOCK_SIZE_IS_VALID_def bit31 by blast
qed

lemma size_and_mask: "n < 2 ^ 31 \<Longrightarrow> (of_nat n :: u32) AND heapBLOCK_ALLOCATED_BITMASK = 0"
  using size_valid [of "of_nat n"] by (simp add: heapBLOCK_SIZE_IS_VALID_def)

lemma allocated_header: "heapBLOCK_IS_ALLOCATED (header True q n)"
proof -
  have "bit ((of_nat n OR heapBLOCK_ALLOCATED_BITMASK) AND heapBLOCK_ALLOCATED_BITMASK :: u32) 31"
    by (simp add: heapBLOCK_ALLOCATED_BITMASK_def bit_simps)
  then show ?thesis by (auto simp: heapBLOCK_IS_ALLOCATED_def header_def)
qed

lemma free_header: "n < 2 ^ 31 \<Longrightarrow> heapFREE_BLOCK (header True q n) = \<lparr>pxNextFreeBlock = NULL, xBlockSize = of_nat n\<rparr>"
proof -
  assume n: "n < 2 ^ 31"
  have "(of_nat n OR heapBLOCK_ALLOCATED_BITMASK) AND NOT heapBLOCK_ALLOCATED_BITMASK = (of_nat n :: u32)"
    using size_and_mask [OF n] by (auto simp: bit_eq_iff bit_simps)
  then show ?thesis by (simp add: heapFREE_BLOCK_def header_def)
qed

section \<open>The walks of the code\<close>

lemma find_fit_walks:
  assumes "chain h p e a ss" and "sized ss" and "e = a + span ss" and "link_at h e = \<lparr>pxNextFreeBlock = NULL, xBlockSize = 0\<rparr>"
    and "ucHeap \<le> a" and "e < ucHeap + configTOTAL_HEAP_SIZE" and "0 < a" and "0 < w"
  shows "find_fit ucHeap w h p (next_of h p) =
     Some (case alloc_first (unat w) ss of None \<Rightarrow> (last_free p a ss, e)
           | Some (off, _) \<Rightarrow> (last_free p a (takeWhile (\<lambda>s. snd s \<or> fst s < unat w) ss), a + off))"
  using assms
proof (induction ss arbitrary: p a)
  case Nil
  then show ?case by (subst find_fit.simps) (simp add: chain_def heapVALIDATE_BLOCK_POINTER_def)
next
  case (Cons s ss)
  obtain n u where s: "s = (n, u)" by (cases s)
  let ?p = "if u then p else Block a"
  have pos: "0 < n" using Cons.prems by (simp add: s)
  have "span ss + n < configTOTAL_HEAP_SIZE" using Cons.prems by (simp add: s)
  then have n: "unat (of_nat n :: u32) = n" by simp
  have c: "chain h ?p e (a + n) ss" using Cons.prems(1) by (simp add: chain_def s header_def)
  have IH: "find_fit ucHeap w h ?p (next_of h ?p) =
     Some (case alloc_first (unat w) ss of None \<Rightarrow> (last_free ?p (a + n) ss, e)
           | Some (off, _) \<Rightarrow> (last_free ?p (a + n) (takeWhile (\<lambda>s. snd s \<or> fst s < unat w) ss), a + n + off))"
    by (rule Cons.IH [OF c]) (use Cons.prems in \<open>auto simp: s\<close>)
  show ?case
  proof (cases u)
    case True
    then show ?thesis using IH by (simp add: s add.assoc split: option.split)
  next
    case False
    have nx: "next_of h p = a" and l: "link_at h a = \<lparr>pxNextFreeBlock = first_of e (a + n) ss, xBlockSize = of_nat n\<rparr>"
      using Cons.prems(1) False by (simp_all add: chain_def s header_def)
    have "a + n \<le> first_of e (a + n) ss" using Cons.prems(3) by (intro first_of_ge) (simp add: s)
    then have nz: "first_of e (a + n) ss \<noteq> 0" using pos by linarith
    have v: "heapVALIDATE_BLOCK_POINTER ucHeap a" using Cons.prems by (simp add: heapVALIDATE_BLOCK_POINTER_def)
    have lt: "(of_nat n :: u32) < w \<longleftrightarrow> n < unat w" using n by (simp add: word_less_nat_alt)
    show ?thesis
    proof (cases "n < unat w")
      case True
      then show ?thesis using IH False nx l v nz lt
        by (subst find_fit.simps) (simp add: s add.assoc split: option.split)
    next
      case fit: False
      then show ?thesis using False nx l v nz lt by (subst find_fit.simps) (simp add: s)
    qed
  qed
qed

lemma insert_pos_walks:
  "chain h p q a pre \<Longrightarrow> sized pre \<Longrightarrow> a + span pre \<le> q \<Longrightarrow> insert_pos h p (a + span pre) = Some (last_free p a pre)"
proof (induction pre arbitrary: p a)
  case Nil
  then show ?case by (simp add: chain_def insert_pos.simps)
next
  case (Cons s ss)
  obtain n u where s: "s = (n, u)" by (cases s)
  let ?p = "if u then p else Block a"
  have c: "chain h ?p q (a + n) ss" using Cons.prems(1) by (simp add: chain_def s header_def)
  have IH: "insert_pos h ?p (a + n + span ss) = Some (last_free ?p (a + n) ss)"
    by (rule Cons.IH [OF c]) (use Cons.prems in \<open>auto simp: s\<close>)
  show ?case
  proof (cases u)
    case False
    have "next_of h p = a" using Cons.prems(1) False by (simp add: chain_def s)
    then show ?thesis using IH False Cons.prems(2) by (subst insert_pos.simps) (simp add: s add.assoc)
  qed (use IH in \<open>simp add: s add.assoc\<close>)
qed

section \<open>The invariant\<close>

definition heap_ok :: "nat \<Rightarrow> heap_t \<Rightarrow> segs \<Rightarrow> bool" where
  "heap_ok ucHeap h ss \<longleftrightarrow> chain h XStart (pxEnd h) (align_up ucHeap) ss \<and> sized ss \<and> coalesced ss
     \<and> pxEnd h = align_up ucHeap + span ss \<and> pxEnd h + xHeapStructSize \<le> ucHeap + configTOTAL_HEAP_SIZE
     \<and> link_at h (pxEnd h) = \<lparr>pxNextFreeBlock = NULL, xBlockSize = 0\<rparr>
     \<and> xFreeBytesRemaining h = of_nat (free_total ss) \<and> xMinimumEverFreeBytesRemaining h \<le> xFreeBytesRemaining h"

lemma heap_okD:
  assumes "heap_ok ucHeap h ss"
  shows "chain h XStart (pxEnd h) (align_up ucHeap) ss" "sized ss" "coalesced ss" "pxEnd h = align_up ucHeap + span ss"
    "pxEnd h + 8 \<le> ucHeap + configTOTAL_HEAP_SIZE" "link_at h (pxEnd h) = \<lparr>pxNextFreeBlock = NULL, xBlockSize = 0\<rparr>"
    "xFreeBytesRemaining h = of_nat (free_total ss)"
  using assms unfolding heap_ok_def by blast+

lemma chain_append:
  "chain h p q a (xs @ ys) \<longleftrightarrow> chain h p (first_of q (a + span xs) ys) a xs \<and> laid_out (link_at h) q (a + span xs) ys"
  by (auto simp: chain_def)

lemma chain_upd [simp]:
  assumes "sized ss" "before p a" "a + span ss \<le> c"
  shows "chain (set_link (Block c) v h) p q a ss = chain h p q a ss"
    "chain (set_link_next (Block c) n h) p q a ss = chain h p q a ss"
    "chain (set_link_size (Block c) m h) p q a ss = chain h p q a ss"
proof -
  have "p \<noteq> Block c" using assms by (cases p) auto
  moreover from this have "next_of (h\<lparr>link_at := (link_at h)(c := x)\<rparr>) p = next_of h p" for x by (cases p) auto
  ultimately show "chain (set_link (Block c) v h) p q a ss = chain h p q a ss"
    "chain (set_link_next (Block c) n h) p q a ss = chain h p q a ss"
    "chain (set_link_size (Block c) m h) p q a ss = chain h p q a ss"
    using assms by (simp_all add: chain_def)
qed

lemma chain_fields [simp]:
  "chain (h\<lparr>xFreeBytesRemaining := x\<rparr>) p q a ss = chain h p q a ss"
  "chain (h\<lparr>xMinimumEverFreeBytesRemaining := x\<rparr>) p q a ss = chain h p q a ss"
  "chain (h\<lparr>xNumberOfSuccessfulAllocations := x\<rparr>) p q a ss = chain h p q a ss"
  "chain (h\<lparr>xNumberOfSuccessfulFrees := x\<rparr>) p q a ss = chain h p q a ss"
  "chain (h\<lparr>bytes := y\<rparr>) p q a ss = chain h p q a ss"
  by (cases p; simp add: chain_def; fail)+

lemma link_of_fields [simp]:
  "link_of (h\<lparr>xFreeBytesRemaining := x\<rparr>) p = link_of h p"
  "link_of (h\<lparr>xMinimumEverFreeBytesRemaining := x\<rparr>) p = link_of h p"
  "link_of (h\<lparr>xNumberOfSuccessfulAllocations := x\<rparr>) p = link_of h p"
  "link_of (h\<lparr>xNumberOfSuccessfulFrees := x\<rparr>) p = link_of h p"
  "link_of (h\<lparr>bytes := y\<rparr>) p = link_of h p"
  by (cases p; simp; fail)+

lemma heap_ok_fields [simp]:
  "heap_ok ucHeap (h\<lparr>xNumberOfSuccessfulFrees := x\<rparr>) ss = heap_ok ucHeap h ss"
  "heap_ok ucHeap (h\<lparr>bytes := y\<rparr>) ss = heap_ok ucHeap h ss"
  by (simp_all add: heap_ok_def)

lemma last_free_next: "chain h p q a ss \<Longrightarrow> next_of h (last_free p a ss) = q"
proof (induction ss arbitrary: p a)
  case (Cons s ss)
  obtain n u where s: "s = (n, u)" by (cases s)
  have "chain h (if u then p else Block a) q (a + n) ss" using Cons.prems by (simp add: chain_def s header_def)
  from Cons.IH [OF this] show ?case by (simp add: s)
qed (simp add: chain_def)

lemma align_up_bounds: "ucHeap \<le> align_up ucHeap" "align_up ucHeap \<le> ucHeap + 7" "8 dvd align_up ucHeap"
  by (auto simp: align_up_def)

text \<open>Unlinking a free block from the list, and putting the rest of a split block in its place.\<close>

lemma set_link_next_later: "before p b \<Longrightarrow> b \<le> x \<Longrightarrow> link_at (set_link_next p n h) x = link_at h x"
  using link_of_set(2) [of p n h "Block x"] by (cases p) auto

lemma unlink:
  assumes c: "chain h XStart b a pre" and sz: "sized pre" and b: "b = a + span pre"
    and l: "link_at h b = \<lparr>pxNextFreeBlock = nx, xBlockSize = of_nat n\<rparr>" and p: "p = last_free XStart a pre"
    and g: "g = set_link_next p nx h"
  shows "chain g XStart nx a pre" "link_at g b = \<lparr>pxNextFreeBlock = nx, xBlockSize = of_nat n\<rparr>"
    "\<And>x. b < x \<Longrightarrow> link_at g x = link_at h x" "next_of g p = nx"
proof -
  have pb: "before p b" using before_last_free [OF sz, of XStart a] p b by simp
  show c1: "chain g XStart nx a pre" using relink [OF c _ sz, of nx] by (simp add: g p)
  show "link_at g b = \<lparr>pxNextFreeBlock = nx, xBlockSize = of_nat n\<rparr>" "\<And>x. b < x \<Longrightarrow> link_at g x = link_at h x"
    using set_link_next_later [OF pb] l by (simp_all add: g)
  show "next_of g p = nx" using last_free_next [OF c1] by (simp add: p)
qed

lemma split_block:
  assumes c: "chain g XStart nx a pre" and sz: "sized pre" and b: "b = a + span pre" and m: "0 < m"
    and l: "pxNextFreeBlock (link_at g b) = nx" and p: "p = last_free XStart a pre"
    and s1: "s1 = set_link_size (Block b) w (set_link_size (Block (b + m)) v g)"
    and s2: "s2 = set_link_next p (b + m) (set_link_next (Block (b + m)) (next_of s1 p) s1)"
  shows "chain s2 XStart (b + m) a pre" "link_at s2 b = \<lparr>pxNextFreeBlock = nx, xBlockSize = w\<rparr>"
    "link_at s2 (b + m) = \<lparr>pxNextFreeBlock = nx, xBlockSize = v\<rparr>"
    "\<And>x. b < x \<Longrightarrow> x \<noteq> b + m \<Longrightarrow> link_at s2 x = link_at g x"
proof -
  have pb: "before p b" using before_last_free [OF sz, of XStart a] p b by simp
  have c1: "chain s1 XStart nx a pre" using c sz b by (simp add: s1)
  then have pn: "next_of s1 p = nx" using last_free_next p by blast
  have "chain (set_link_next (Block (b + m)) nx s1) XStart nx a pre" using c1 sz b by simp
  from relink [OF this _ sz, of "b + m"] show "chain s2 XStart (b + m) a pre" by (simp add: s2 pn flip: p)
  show "link_at s2 b = \<lparr>pxNextFreeBlock = nx, xBlockSize = w\<rparr>"
    "link_at s2 (b + m) = \<lparr>pxNextFreeBlock = nx, xBlockSize = v\<rparr>"
    "\<And>x. b < x \<Longrightarrow> x \<noteq> b + m \<Longrightarrow> link_at s2 x = link_at g x"
    using set_link_next_later [OF pb] l m by (simp_all add: s2 pn) (simp_all add: s1)
qed

section \<open>Allocation\<close>

text \<open>The bookkeeping of an allocation once the block has been unlinked.\<close>

definition book_alloc :: "nat \<Rightarrow> heap_t \<Rightarrow> heap_t" where
  "book_alloc b h =
     (let h = h\<lparr>xFreeBytesRemaining := xFreeBytesRemaining h - size_of h (Block b)\<rparr>;
          h = (if xFreeBytesRemaining h < xMinimumEverFreeBytesRemaining h
               then h\<lparr>xMinimumEverFreeBytesRemaining := xFreeBytesRemaining h\<rparr> else h);
          h = set_link (Block b) (heapALLOCATE_BLOCK (link_of h (Block b))) h;
          h = set_link_next (Block b) NULL h
      in h\<lparr>xNumberOfSuccessfulAllocations := xNumberOfSuccessfulAllocations h + 1\<rparr>)"

lemma take_block_book:
  "take_block ucHeap w prev b h =
     (let pv = next_of h prev + xHeapStructSize; h1 = set_link_next prev (next_of h (Block b)) h; n = size_of h1 (Block b)
      in if \<not> heapVALIDATE_BLOCK_POINTER ucHeap pv \<or> n < w then None
         else if n - w > heapMINIMUM_BLOCK_SIZE then
           if (b + unat w) mod portBYTE_ALIGNMENT \<noteq> 0 then None
           else let h2 = set_link_size (Block b) w (set_link_size (Block (b + unat w)) (n - w) h1)
                in Some (pv, book_alloc b (set_link_next prev (b + unat w) (set_link_next (Block (b + unat w)) (next_of h2 prev) h2)))
         else Some (pv, book_alloc b h1))"
  unfolding take_block_def Let_def book_alloc_def by (simp split: if_splits del: link_of.simps)

lemma book_alloc_effect:
  assumes "link_at h b = \<lparr>pxNextFreeBlock = nx, xBlockSize = of_nat m\<rparr>"
  shows "xStart (book_alloc b h) = xStart h" "link_at (book_alloc b h) = (link_at h)(b := header True 0 m)"
    "pxEnd (book_alloc b h) = pxEnd h" "bytes (book_alloc b h) = bytes h"
    "xFreeBytesRemaining (book_alloc b h) = xFreeBytesRemaining h - of_nat m"
    "xMinimumEverFreeBytesRemaining (book_alloc b h) \<le> xFreeBytesRemaining (book_alloc b h)"
  using assms by (simp_all add: book_alloc_def header_def heapALLOCATE_BLOCK_def Let_def not_less)

lemma book_alloc_chain:
  "link_at h b = \<lparr>pxNextFreeBlock = nx, xBlockSize = of_nat m\<rparr> \<Longrightarrow> sized pre \<Longrightarrow> a + span pre \<le> b
     \<Longrightarrow> chain h XStart q a pre \<Longrightarrow> chain (book_alloc b h) XStart q a pre"
  by (simp add: chain_def book_alloc_effect)

lemma take_block_lays:
  assumes ok: "heap_ok ucHeap h (pre @ (n, False) # post)" and m: "unat w \<le> n" "8 dvd unat w" "16 \<le> unat w"
    and b: "b = align_up ucHeap + span pre"
  shows "\<exists>h'. take_block ucHeap w (last_free XStart (align_up ucHeap) pre) b h = Some (b + xHeapStructSize, h') \<and> bytes h' = bytes h
     \<and> heap_ok ucHeap h' (pre @ (if 16 < n - unat w then [(unat w, True), (n - unat w, False)] else [(n, True)]) @ post)"
proof -
  let ?a = "align_up ucHeap" and ?e = "pxEnd h"
  let ?p = "last_free XStart ?a pre"
  define m where "m = unat w"
  define nx where "nx = first_of ?e (b + n) post"
  have sz: "sized pre" "sized post" "8 dvd n" "16 \<le> n" using ok by (simp_all add: heap_ok_def)
  have ch: "chain h XStart ?e ?a (pre @ (n, False) # post)"
    and le: "link_at h ?e = \<lparr>pxNextFreeBlock = NULL, xBlockSize = 0\<rparr>" using heap_okD [OF ok] by blast+
  have e: "?e = b + n + span post" using heap_okD(4) [OF ok] b by simp
  have c: "chain h XStart b ?a pre" and lb: "link_at h b = \<lparr>pxNextFreeBlock = nx, xBlockSize = of_nat n\<rparr>"
    and lp: "laid_out (link_at h) ?e (b + n) post"
    using ch unfolding chain_append by (simp_all add: header_def nx_def b)
  have eb: "?e + 8 \<le> ucHeap + configTOTAL_HEAP_SIZE" using ok by (simp add: heap_ok_def)
  have bound: "n + span post + span pre < configTOTAL_HEAP_SIZE" using e eb b align_up_bounds(1) [of ucHeap] by linarith
  have free: "xFreeBytesRemaining h = of_nat (free_total pre + n + free_total post)"
    using ok by (simp add: heap_ok_def add.assoc)
  have v: "heapVALIDATE_BLOCK_POINTER ucHeap (b + 8)"
    using e eb b sz(4) align_up_bounds(1) [of ucHeap] by (simp add: heapVALIDATE_BLOCK_POINTER_def)
  have nb: "next_of h ?p = b" by (rule last_free_next [OF c])
  have wn: "of_nat m = w" "unat (of_nat n :: u32) = n" using bound by (simp_all add: m_def)
  have co: "coalesced (pre @ (n, False) # post)" by (rule heap_okD(3) [OF ok])
  show ?thesis
  proof (cases "16 < n - m")
    case False
    let ?h = "set_link_next ?p nx h"
    note l1 = unlink [OF c sz(1) b lb refl refl]
    note be = book_alloc_effect [OF l1(2)]
    let ?h' = "book_alloc b ?h"
    have hi: "link_at ?h' x = link_at h x" if "b < x" for x using that l1(3) by (simp add: be)
    have "chain ?h' XStart nx ?a pre" using book_alloc_chain [OF l1(2) sz(1) _ l1(1)] b by simp
    moreover have "laid_out (link_at ?h') ?e (b + n) post"
      by (rule laid_out_transfer [OF lp sz(2)]) (use sz(4) hi in simp)
    then have "laid_out (link_at ?h') ?e b ((n, True) # post)" using be(2) by (simp add: header_def)
    ultimately have "chain ?h' XStart ?e ?a (pre @ [(n, True)] @ post)"
      unfolding chain_append b [symmetric] by (simp add: nx_def)
    moreover have "link_at ?h' ?e = \<lparr>pxNextFreeBlock = NULL, xBlockSize = 0\<rparr>" using le hi e sz(4) by simp
    moreover have "xFreeBytesRemaining ?h' = of_nat (free_total (pre @ [(n, True)] @ post))" by (simp add: be free)
    ultimately have "heap_ok ucHeap ?h' (pre @ [(n, True)] @ post)"
      unfolding heap_ok_def using sz e b eb be(3,6) co by (simp add: coalesced_Cons)
    moreover have "take_block ucHeap w ?p b h = Some (b + 8, ?h')"
      using m wn False v nb lb l1(2) by (simp add: take_block_book word_less_nat_alt unat_sub_if_size flip: m_def)
    ultimately show ?thesis using False be by (simp add: m_def)
  next
    case True
    let ?h = "set_link_next ?p nx h"
    note l1 = unlink [OF c sz(1) b lb refl refl]
    define s1 where "s1 = set_link_size (Block b) w (set_link_size (Block (b + m)) (of_nat n - w) ?h)"
    define s2 where "s2 = set_link_next ?p (b + m) (set_link_next (Block (b + m)) (next_of s1 ?p) s1)"
    have m0: "0 < m" "8 dvd m" "16 \<le> m" using m by (simp_all add: m_def)
    have "pxNextFreeBlock (link_at ?h b) = nx" using l1(2) by simp
    note l2 = split_block [OF l1(1) sz(1) b m0(1) this refl s1_def s2_def]
    have rest: "of_nat n - w = (of_nat (n - m) :: u32)" using m wn by (simp add: m_def of_nat_diff)
    have l2b: "link_at s2 b = \<lparr>pxNextFreeBlock = nx, xBlockSize = of_nat m\<rparr>" using l2(2) wn by simp
    note be = book_alloc_effect [OF l2b]
    have s2f: "xFreeBytesRemaining s2 = xFreeBytesRemaining h" "pxEnd s2 = pxEnd h" "bytes s2 = bytes h"
      by (simp_all add: s2_def s1_def)
    let ?h' = "book_alloc b s2" and ?mid = "[(m, True), (n - m, False)]"
    have hi: "link_at ?h' x = link_at h x" if "b < x" "x \<noteq> b + m" for x using that l2(4) l1(3) by (simp add: be)
    have "chain ?h' XStart (b + m) ?a pre" using book_alloc_chain [OF l2b sz(1) _ l2(1)] b by simp
    moreover have "laid_out (link_at ?h') ?e (b + n) post"
      by (rule laid_out_transfer [OF lp sz(2)]) (use sz(4) True hi in simp)
    then have "laid_out (link_at ?h') ?e b (?mid @ post)"
      using be(2) l2(3) True m0 rest by (simp add: header_def nx_def)
    ultimately have "chain ?h' XStart ?e ?a (pre @ ?mid @ post)"
      unfolding chain_append b [symmetric] by simp
    moreover have "link_at ?h' ?e = \<lparr>pxNextFreeBlock = NULL, xBlockSize = 0\<rparr>" using le hi e sz(4) True by simp
    moreover have "xFreeBytesRemaining ?h' = of_nat (free_total (pre @ ?mid @ post))"
      using True by (simp add: be(5) s2f free of_nat_diff)
    moreover have "8 dvd n - m" using sz(3) m0(2) by (rule dvd_diff_nat)
    ultimately have ok': "heap_ok ucHeap ?h' (pre @ ?mid @ post)"
      unfolding heap_ok_def using sz e b eb be(3,6) co True m0 by (simp add: coalesced_Cons s2f)
    have "(b + m) mod 8 = 0" using m0(2) b span_dvd [OF sz(1)] align_up_bounds(3) [of ucHeap] by (simp add: mod_eq_0_iff_dvd)
    moreover have "unat (of_nat n - w) = n - m" unfolding rest by (rule unat_size) (use bound in simp)
    ultimately have "take_block ucHeap w ?p b h = Some (b + 8, ?h')"
      using m wn True v nb lb l1(2) unfolding take_block_book Let_def s2_def s1_def
      by (simp add: word_less_nat_alt flip: m_def)
    then show ?thesis using ok' True be(4) s2f by (simp add: m_def)
  qed
qed

text \<open>The size of the block for a request: with the header, and rounded up.\<close>

definition rounded :: "nat \<Rightarrow> nat" where "rounded n = (n + 15) div 8 * 8"

definition first_fit :: "nat \<Rightarrow> segs \<Rightarrow> (nat \<times> segs) option" where
  "first_fit n ss = (if n = 0 then None else alloc_first (rounded n) ss)"

lemma rounded_pos: "0 < rounded n" "0 < n \<Longrightarrow> 16 \<le> rounded n" "8 dvd rounded n"
  by (auto simp: rounded_def)

lemma low_bits: "unat (w AND 7 :: u32) = unat w mod 8"
proof -
  have "w AND 7 = take_bit 3 w" by (simp add: take_bit_eq_mask mask_eq_exp_minus_1)
  then show ?thesis by (simp add: take_bit_eq_mod unat_mod)
qed

lemma add_overflow: "heapADD_WILL_OVERFLOW a b \<longleftrightarrow> 2 ^ 32 \<le> unat a + unat b"
proof -
  have "unat b < 2 ^ LENGTH(32)" "unat a < 2 ^ LENGTH(32)" by (rule unsigned_less)+
  moreover have "unat (0xFFFFFFFF - b) = 0xFFFFFFFF - unat b" using unat_sub [of b "0xFFFFFFFF"] calculation
    by (simp add: word_le_nat_alt)
  ultimately show ?thesis by (auto simp: heapADD_WILL_OVERFLOW_def word_less_nat_alt)
qed

lemma add_no_overflow: "\<not> heapADD_WILL_OVERFLOW a b \<Longrightarrow> unat (a + b) = unat a + unat b"
  by (simp add: add_overflow unat_word_ariths)

lemma adjusted_size_eq: "unat (adjusted_size x) = (if unat x = 0 \<or> 2 ^ 32 \<le> rounded (unat x) then 0 else rounded (unat x))"
proof (cases "x = 0 \<or> heapADD_WILL_OVERFLOW x 8")
  case True
  then show ?thesis by (auto simp: adjusted_size_def add_overflow rounded_def word_greater_zero_iff)
next
  case False
  define w where "w = x + 8"
  have x: "0 < x" "unat x \<noteq> 0" using False by (simp_all add: word_greater_zero_iff unat_eq_0)
  have w: "unat w = unat x + 8" "unat w < 2 ^ 32" using False add_no_overflow [of x 8] by (auto simp: w_def add_overflow)
  have z: "w AND 7 = 0 \<longleftrightarrow> unat w mod 8 = 0" using low_bits [of w] by (metis unat_eq_0)
  have "w AND 7 \<le> 8" using low_bits [of w] by (simp add: word_le_nat_alt)
  then have p: "unat (8 - (w AND 7)) = 8 - unat w mod 8" by (simp add: unat_sub low_bits)
  have r: "rounded (unat x) = (unat w + 7) div 8 * 8" by (simp add: rounded_def w)
  show ?thesis
  proof (cases "unat w mod 8 = 0")
    case True
    then have "rounded (unat x) = unat w" unfolding r by presburger
    then show ?thesis using False True z x w by (simp add: adjusted_size_def flip: w_def)
  next
    case pad: False
    then have "rounded (unat x) = unat w + (8 - unat w mod 8)" unfolding r by presburger
    then have "unat (if \<not> heapADD_WILL_OVERFLOW w (8 - (w AND 7)) then w + (8 - (w AND 7)) else 0)
        = (if 2 ^ 32 \<le> rounded (unat x) then 0 else rounded (unat x))"
      using add_no_overflow [of w "8 - (w AND 7)"] by (simp add: add_overflow p)
    then show ?thesis using False pad z x unfolding adjusted_size_def Let_def w_def [symmetric] by simp
  qed
qed

lemma free_size_le: "(n, False) \<in> set ss \<Longrightarrow> n \<le> free_total ss"
  by (induction ss) auto

lemma heap_ok_span: "heap_ok ucHeap h ss \<Longrightarrow> span ss + 8 \<le> configTOTAL_HEAP_SIZE"
  using heap_okD(4,5) [of ucHeap h ss] align_up_bounds(1) [of ucHeap] by linarith

lemma malloc_section_fits:
  assumes ok: "heap_ok ucHeap h ss" and pos: "0 < ucHeap"
  shows "case first_fit (unat x) ss of None \<Rightarrow> malloc_section ucHeap (adjusted_size x) h = Some (NULL, h)
     | Some (off, ss') \<Rightarrow> \<exists>h'. malloc_section ucHeap (adjusted_size x) h = Some (align_up ucHeap + off + xHeapStructSize, h')
         \<and> heap_ok ucHeap h' ss' \<and> bytes h' = bytes h"
proof -
  let ?w = "adjusted_size x" and ?a = "align_up ucHeap"
  have sp: "span ss + 8 \<le> configTOTAL_HEAP_SIZE" by (rule heap_ok_span [OF ok])
  have ini: "pxEnd h \<noteq> NULL" using heap_okD(4) [OF ok] align_up_bounds(1) [of ucHeap] pos by simp
  have ft: "unat (xFreeBytesRemaining h) = free_total ss"
    using heap_okD(7) [OF ok] free_total_le_span [of ss] sp by simp
  have big: "alloc_first m ss = None" if "free_total ss < m" for m
  proof -
    have "u \<or> n < m" if "(n, u) \<in> set ss" for n u
      using that \<open>free_total ss < m\<close> free_size_le [of n ss] by (cases u) (simp_all del: free_total_simps)
    then have "snd s \<or> fst s < m" if "s \<in> set ss" for s using that by (metis prod.collapse)
    then show ?thesis by (simp add: alloc_first_None)
  qed
  show ?thesis
  proof (cases "heapBLOCK_SIZE_IS_VALID ?w \<and> ?w > 0 \<and> ?w \<le> xFreeBytesRemaining h")
    case False
    then have "unat x = 0 \<or> free_total ss < rounded (unat x)"
      using adjusted_size_eq [of x] free_total_le_span [of ss] sp rounded_pos [of "unat x"]
      by (auto simp: size_valid word_le_nat_alt word_greater_zero_iff ft unat_eq_0 split: if_splits)
    then have "first_fit (unat x) ss = None" using big by (auto simp: first_fit_def)
    then show ?thesis using False ini by (auto simp: malloc_section_def)
  next
    case True
    then have "unat ?w \<noteq> 0" by (simp add: word_greater_zero_iff unat_eq_0)
    then have w: "unat ?w = rounded (unat x)" "unat x \<noteq> 0" using adjusted_size_eq [of x] by (auto split: if_splits)
    have w16: "16 \<le> unat ?w" "8 dvd unat ?w" using w rounded_pos(2,3) by simp_all
    have walk: "find_fit ucHeap ?w h XStart (next_of h XStart) =
      Some (case alloc_first (unat ?w) ss of None \<Rightarrow> (last_free XStart ?a ss, pxEnd h)
           | Some (off, _) \<Rightarrow> (last_free XStart ?a (takeWhile (\<lambda>s. snd s \<or> fst s < unat ?w) ss), ?a + off))"
      by (rule find_fit_walks [OF heap_okD(1,2,4,6) [OF ok]])
        (use heap_okD(5) [OF ok] align_up_bounds(1) [of ucHeap] pos True in auto)
    show ?thesis
    proof (cases "alloc_first (unat ?w) ss")
      case None
      then show ?thesis using True walk ini w by (simp add: malloc_section_def first_fit_def)
    next
      case (Some r)
      obtain off ss' where r: "r = (off, ss')" by (cases r)
      obtain pre n post where f: "ss = pre @ (n, False) # post" "unat ?w \<le> n" "off = span pre"
        "\<forall>s\<in>set pre. snd s \<or> fst s < unat ?w"
        "ss' = pre @ (if 16 < n - unat ?w then [(unat ?w, True), (n - unat ?w, False)] else [(n, True)]) @ post"
        using alloc_first_Some [OF Some [unfolded r]] by blast
      have tw: "takeWhile (\<lambda>s. snd s \<or> fst s < unat ?w) ss = pre"
        unfolding f(1) using f(2,4) by (simp add: takeWhile_append2)
      have off: "?a + off \<noteq> pxEnd h" using heap_okD(2,4) [OF ok] f(1,3) by simp
      obtain h' where "take_block ucHeap ?w (last_free XStart ?a pre) (?a + off) h = Some (?a + off + 8, h')"
        "bytes h' = bytes h" "heap_ok ucHeap h' ss'"
        using take_block_lays [OF ok [unfolded f(1)] f(2) w16(2,1) refl] unfolding f(3,5) by blast
      then show ?thesis using True walk ini w Some off
        by (simp add: malloc_section_def first_fit_def r tw [unfolded w(1)])
    qed
  qed
qed

section \<open>Release\<close>

definition merge_next :: "nat \<Rightarrow> nat \<Rightarrow> heap_t \<Rightarrow> heap_t" where
  "merge_next b nxt h =
     (if b + unat (size_of h (Block b)) = nxt then
        if nxt \<noteq> pxEnd h then
          let h = set_link_size (Block b) (size_of h (Block b) + size_of h (Block nxt)) h
          in set_link_next (Block b) (next_of h (Block nxt)) h
        else set_link_next (Block b) (pxEnd h) h
      else set_link_next (Block b) nxt h)"

lemma insert_unfold:
  "prvInsertBlockIntoFreeList ucHeap b h = do {
     it \<leftarrow> insert_pos h XStart b;
     case it of
       XStart \<Rightarrow> Some (set_link_next it b (merge_next b (next_of h it) h))
     | Block a \<Rightarrow>
         if \<not> heapVALIDATE_BLOCK_POINTER ucHeap a then None
         else if a + unat (size_of h it) = b
           then Some (merge_next a (next_of h it) (set_link_size it (size_of h it + size_of h (Block b)) h))
         else Some (if a \<noteq> b then set_link_next it b (merge_next b (next_of h it) h) else merge_next b (next_of h it) h)
   }"
  unfolding prvInsertBlockIntoFreeList_def merge_next_def Let_def
  by (cases "insert_pos h XStart b") (auto split: block_ptr.split)

lemma link_eta:
  "xBlockSize r = z \<Longrightarrow> r\<lparr>pxNextFreeBlock := q\<rparr> = \<lparr>pxNextFreeBlock = q, xBlockSize = z\<rparr>"
  "r\<lparr>pxNextFreeBlock := q, xBlockSize := z\<rparr> = \<lparr>pxNextFreeBlock = q, xBlockSize = z\<rparr>"
  by simp_all

lemma merge_next_absorbs:
  assumes lb: "xBlockSize (link_at h b) = of_nat n" and lp: "laid_out (link_at h) e (b + n) post"
    and e: "e = b + n + span post" "e = pxEnd h" and sz: "sized post" "0 < n" and bd: "n + span post < 2 ^ 31"
  shows "merge_next b (first_of e (b + n) post) h =
    h\<lparr>link_at := (link_at h)(b := header False (first_of e (b + fst (absorb n post)) (snd (absorb n post))) (fst (absorb n post)))\<rparr>"
  (is "?l = ?r")
proof -
  have n: "unat (of_nat n :: u32) = n" using bd by simp
  show ?thesis
  proof (cases post)
    case Nil
    then show ?thesis using lb n e by (simp add: merge_next_def absorb_def set_link_next_def set_link.simps header_def link_eta)
  next
    case (Cons s ss)
    obtain m u where s: "s = (m, u)" by (cases s)
    have m: "0 < m" "sized ss" using sz by (simp_all add: Cons s)
    show ?thesis
    proof (cases u)
      case True
      have "first_of e (b + n + m) ss \<ge> b + n + m" using e by (intro first_of_ge) (simp add: Cons s)
      then show ?thesis using lb n m True
        by (simp add: merge_next_def absorb_def Cons s set_link_next_def set_link.simps header_def link_eta)
    next
      case False
      have "link_at h (b + n) = \<lparr>pxNextFreeBlock = first_of e (b + n + m) ss, xBlockSize = of_nat m\<rparr>"
        using lp False by (simp add: Cons s header_def)
      then show ?thesis using lb n m sz e False
        by (simp add: merge_next_def absorb_def Cons s set_link_next_def set_link_size_def set_link.simps header_def link_eta add.assoc)
    qed
  qed
qed

lemma last_free_fits:
  "laid_out l q a ss \<Longrightarrow> sized ss \<Longrightarrow> span ss < 2 ^ 31 \<Longrightarrow>
     last_free p a ss = p \<or> (\<exists>i. last_free p a ss = Block i \<and> a \<le> i \<and> i < a + span ss \<and> i + unat (xBlockSize (l i)) \<le> a + span ss)"
proof (induction ss arbitrary: p a)
  case (Cons s ss)
  obtain n u where s: "s = (n, u)" by (cases s)
  have sz: "unat (of_nat n :: u32) = n" "0 < n" using Cons.prems by (simp_all add: s)
  have "laid_out l q (a + n) ss" "sized ss" "span ss < 2 ^ 31" using Cons.prems by (auto simp: s)
  from Cons.IH [OF this, of "if u then p else Block a"] show ?case
    using Cons.prems(1) sz by (auto simp: s header_def add.assoc split: if_splits)
qed simp

lemma absorb_laid:
  "laid_out l e (b + n) post \<Longrightarrow> laid_out l e (b + fst (absorb n post)) (snd (absorb n post))"
  "fst (absorb n post) + span (snd (absorb n post)) = n + span post" "n \<le> fst (absorb n post)"
  "sized post \<Longrightarrow> 8 dvd n \<Longrightarrow> 8 dvd fst (absorb n post) \<and> sized (snd (absorb n post))"
  "fst (absorb n post) + free_total (snd (absorb n post)) = n + free_total post"
  by (auto simp: absorb_def add.assoc split: list.split prod.split bool.split)

lemma insert_merges:
  assumes c: "chain h XStart (first_of e (b + n) post) a pre" and lb: "xBlockSize (link_at h b) = of_nat n"
    and lp: "laid_out (link_at h) e (b + n) post" and b: "b = a + span pre" and e: "e = b + n + span post" "e = pxEnd h"
    and sz: "sized pre" "sized post" "0 < n" "8 dvd n" and co: "coalesced (pre @ (n, True) # post)"
    and bd: "ucHeap \<le> a" "e < ucHeap + configTOTAL_HEAP_SIZE"
  shows "\<exists>x l. prvInsertBlockIntoFreeList ucHeap b h = Some (h\<lparr>xStart := x, link_at := l\<rparr>)
     \<and> chain (h\<lparr>xStart := x, link_at := l\<rparr>) XStart e a (merge (pre @ (n, False) # post)) \<and> l e = link_at h e"
proof -
  let ?p = "last_free XStart a pre" and ?q = "first_of e (b + n) post"
  let ?k = "fst (absorb n post)" and ?post = "snd (absorb n post)"
  let ?h1 = "h\<lparr>link_at := (link_at h)(b := header False (first_of e (b + ?k) ?post) ?k)\<rparr>"
  have sp: "sized ?post" using absorb_laid(4) [of post n] sz by simp
  have s1: "n + span post < 2 ^ 31" using e b bd by simp
  have small: "span pre + n + span post < 2 ^ 31" using e b bd by simp
  have "b \<le> ?q" using e(1) first_of_ge [of "b + n" post e] by linarith
  then have it: "insert_pos h XStart b = Some ?p" using insert_pos_walks [OF c sz(1)] b by simp
  have nx: "next_of h ?p = ?q" by (rule last_free_next [OF c])
  show ?thesis
  proof (cases "pre \<noteq> [] \<and> \<not> snd (last pre)")
    case True
    then obtain pre1 m where pre: "pre = pre1 @ [(m, False)]" by (metis append_butlast_last_id prod.collapse)
    let ?i = "a + span pre1"
    let ?g = "set_link_size (Block ?i) (of_nat m + of_nat n) h"
    let ?h = "h\<lparr>link_at := (link_at h)(?i := header False (first_of e (b + ?k) ?post) (m + ?k))\<rparr>"
    have c1: "chain h XStart ?i a pre1" and li: "link_at h ?i = \<lparr>pxNextFreeBlock = ?q, xBlockSize = of_nat m\<rparr>"
      using c by (simp_all add: pre chain_append header_def)
    have ib: "?i + m = b" "0 < m" "sized pre1" using b sz(1) by (simp_all add: pre)
    have vi: "heapVALIDATE_BLOCK_POINTER ucHeap ?i" using bd e b by (simp add: heapVALIDATE_BLOCK_POINTER_def pre)
    have m: "unat (of_nat m :: u32) = m" using small by (simp add: pre)
    have "prvInsertBlockIntoFreeList ucHeap b h = Some (merge_next ?i ?q ?g)"
      using it vi li lb m ib by (simp add: insert_unfold pre)
    also have "merge_next ?i ?q ?g = ?h"
    proof -
      have "laid_out (link_at ?g) e (?i + (m + n)) post"
        by (rule laid_out_transfer [of "link_at h"]) (use lp ib sz in \<open>simp_all add: add.assoc [symmetric]\<close>)
      moreover have "xBlockSize (link_at ?g ?i) = of_nat (m + n)" by simp
      ultimately have "merge_next ?i (first_of e (?i + (m + n)) post) ?g =
        ?g\<lparr>link_at := (link_at ?g)(?i := header False (first_of e (?i + fst (absorb (m + n) post)) (snd (absorb (m + n) post)))
          (fst (absorb (m + n) post)))\<rparr>"
        by (intro merge_next_absorbs) (use e ib sz small in \<open>auto simp: pre\<close>)
      then show ?thesis by (simp add: absorb_add set_link_size_def set_link.simps add.assoc [symmetric] ib)
    qed
    finally have run: "prvInsertBlockIntoFreeList ucHeap b h = Some ?h" .
    have "chain ?h XStart (first_of e ?i ((m + ?k, False) # ?post)) a pre1" using c1 ib by (simp add: chain_def)
    moreover have "laid_out (link_at ?h) e (b + ?k) ?post"
      by (rule laid_out_transfer [OF absorb_laid(1) [OF lp] sp]) (use ib in auto)
    then have "laid_out (link_at ?h) e ?i ((m + ?k, False) # ?post)" by (simp add: add.assoc [symmetric] ib)
    ultimately have "chain ?h XStart e a (pre1 @ (m + ?k, False) # ?post)" unfolding chain_append by blast
    moreover have "link_at ?h e = link_at h e" using e ib sz(3) by simp
    moreover have "?h = h\<lparr>xStart := xStart h, link_at := link_at ?h\<rparr>" by simp
    moreover have "merge (pre @ (n, False) # post) = pre1 @ (m + ?k, False) # ?post"
      unfolding merge_freed [OF co] by (simp add: pre)
    ultimately show ?thesis using run by metis
  next
    case False
    have gap: "?p = XStart \<or> (\<exists>i. ?p = Block i \<and> a \<le> i \<and> i < b \<and> i + unat (xBlockSize (link_at h i)) < b)"
    proof (cases "pre = []")
      case nonempty: False
      then obtain pre1 m where pre: "pre = pre1 @ [(m, True)]" using False by (metis append_butlast_last_id prod.collapse)
      then show ?thesis using last_free_fits [of "link_at h" ?q a pre1 XStart] c sz small b
        by (auto simp: chain_def)
    qed simp
    have "prvInsertBlockIntoFreeList ucHeap b h = Some (set_link_next ?p b (merge_next b (next_of h ?p) h))"
      using gap
    proof (elim disjE exE conjE)
      fix i
      assume "?p = Block i" "a \<le> i" "i < b" "i + unat (xBlockSize (link_at h i)) < b"
      moreover from this have "heapVALIDATE_BLOCK_POINTER ucHeap i" using bd e by (simp add: heapVALIDATE_BLOCK_POINTER_def)
      ultimately show ?thesis using it by (simp add: insert_unfold)
    qed (use it in \<open>simp add: insert_unfold\<close>)
    then have run: "prvInsertBlockIntoFreeList ucHeap b h = Some (set_link_next ?p b ?h1)"
      unfolding nx by (simp only: merge_next_absorbs [OF lb lp e sz(2,3) s1])
    have "chain ?h1 XStart ?q a pre" using c sz(1) b by (simp add: chain_def)
    from relink [OF this _ sz(1), of b] have c1: "chain (set_link_next ?p b ?h1) XStart b a pre" by simp
    have pb: "before ?p b" using before_last_free [OF sz(1), of XStart a] b by simp
    note later = set_link_next_later [OF pb, of _ b ?h1]
    have "laid_out (link_at (set_link_next ?p b ?h1)) e (b + ?k) ?post"
      by (rule laid_out_transfer [OF absorb_laid(1) [OF lp]]) (use later absorb_laid(3) [of n post] sz(3) sp in auto)
    then have "laid_out (link_at (set_link_next ?p b ?h1)) e b ((?k, False) # ?post)" using later [of b] by simp
    then have "chain (set_link_next ?p b ?h1) XStart e a (pre @ (?k, False) # ?post)"
      using c1 unfolding chain_append b [symmetric] by simp
    moreover have "link_at (set_link_next ?p b ?h1) e = link_at h e" using later [of e] e sz(3) by simp
    moreover have "set_link_next ?p b ?h1 =
        h\<lparr>xStart := xStart (set_link_next ?p b ?h1), link_at := link_at (set_link_next ?p b ?h1)\<rparr>"
      by (cases ?p) (simp_all add: set_link_next_def set_link.simps)
    moreover have "merge (pre @ (n, False) # post) = pre @ (?k, False) # ?post"
      unfolding merge_freed [OF co] using False by auto
    ultimately show ?thesis using run by metis
  qed
qed

text \<open>A segment in use, by its offset.\<close>

fun used_at :: "nat \<Rightarrow> segs \<Rightarrow> bool" where
  "used_at off [] \<longleftrightarrow> False"
| "used_at off ((n, u) # ss) \<longleftrightarrow> (if off = 0 then u else n \<le> off \<and> used_at (off - n) ss)"

fun release :: "nat \<Rightarrow> segs \<Rightarrow> segs" where
  "release off [] = []"
| "release off ((n, u) # ss) = (if off = 0 then (n, False) # ss else (n, u) # release (off - n) ss)"

fun size_at :: "nat \<Rightarrow> segs \<Rightarrow> nat" where
  "size_at off [] = 0"
| "size_at off ((n, u) # ss) = (if off = 0 then n else if n \<le> off then size_at (off - n) ss else 0)"

lemma used_at_split:
  "used_at off ss \<Longrightarrow> \<exists>pre n post. ss = pre @ (n, True) # post \<and> off = span pre \<and> size_at off ss = n
     \<and> (sized ss \<longrightarrow> release off ss = pre @ (n, False) # post)"
proof (induction ss arbitrary: off)
  case (Cons s ss)
  obtain n u where s: "s = (n, u)" by (cases s)
  show ?case
  proof (cases "off = 0")
    case True
    then show ?thesis using Cons.prems by (intro exI [of _ "[]"]) (simp add: s)
  next
    case False
    then have "used_at (off - n) ss" "n \<le> off" using Cons.prems by (simp_all add: s)
    with Cons.IH obtain pre k post where "ss = pre @ (k, True) # post" "off - n = span pre" "size_at (off - n) ss = k"
      "sized ss \<longrightarrow> release (off - n) ss = pre @ (k, False) # post" by blast
    then show ?thesis using False \<open>n \<le> off\<close>
      by (intro exI [of _ "(n, u) # pre"] exI [of _ k] exI [of _ post]) (auto simp: s)
  qed
qed simp

text \<open>Freeing a block, from the clearing of its mark on.\<close>

lemma free_section_merges:
  assumes ok: "heap_ok ucHeap h ss" and u: "used_at off ss" and b: "b = align_up ucHeap + off"
  shows "\<exists>h'. free_section ucHeap b (set_link (Block b) (heapFREE_BLOCK (link_of h (Block b))) h) = Some h'
     \<and> heap_ok ucHeap h' (merge (release off ss)) \<and> bytes h' = bytes h"
proof -
  let ?a = "align_up ucHeap" and ?e = "pxEnd h"
  obtain pre n post where ss: "ss = pre @ (n, True) # post" "off = span pre"
    and rel: "release off ss = pre @ (n, False) # post" using used_at_split [OF u] heap_okD(2) [OF ok] by blast
  have sz: "sized pre" "sized post" "0 < n" "8 dvd n" using heap_okD(2) [OF ok] by (auto simp: ss)
  have e: "?e = b + n + span post" using heap_okD(4) [OF ok] b by (simp add: ss)
  have bd: "?a + span pre = b" "?e + 8 \<le> ucHeap + configTOTAL_HEAP_SIZE" using heap_okD(5) [OF ok] b ss by simp_all
  have sp: "span pre + n + span post + 8 \<le> configTOTAL_HEAP_SIZE" using heap_ok_span [OF ok] by (simp add: ss)
  have ch: "chain h XStart ?e ?a (pre @ (n, True) # post)" using heap_okD(1) [OF ok] by (simp add: ss)
  then have c: "chain h XStart (first_of ?e (b + n) post) ?a pre"
    and lb: "link_at h b = header True 0 n" and lp: "laid_out (link_at h) ?e (b + n) post"
    unfolding chain_append bd(1) by (simp_all add: header_def)
  have n: "n < 2 ^ 31" using sp by simp
  let ?g0 = "set_link (Block b) (heapFREE_BLOCK (link_of h (Block b))) h"
  define g where "g = ?g0\<lparr>xFreeBytesRemaining := xFreeBytesRemaining ?g0 + size_of ?g0 (Block b)\<rparr>"
  have g: "link_at g = (link_at h)(b := \<lparr>pxNextFreeBlock = NULL, xBlockSize = of_nat n\<rparr>)" "pxEnd g = ?e" "xStart g = xStart h"
    "xFreeBytesRemaining g = xFreeBytesRemaining h + of_nat n" "bytes g = bytes h"
    "xMinimumEverFreeBytesRemaining g = xMinimumEverFreeBytesRemaining h"
    using lb by (simp_all add: g_def free_header [OF n])
  have "chain g XStart (first_of ?e (b + n) post) ?a pre" using c sz(1) bd(1) by (simp add: chain_def g)
  moreover have "laid_out (link_at g) ?e (b + n) post" using lp sz by (simp add: g)
  moreover have "xBlockSize (link_at g b) = of_nat n" by (simp add: g)
  moreover have "?e = pxEnd g" "ucHeap \<le> ?a" "?e < ucHeap + configTOTAL_HEAP_SIZE" "coalesced (pre @ (n, True) # post)"
    using g(2) align_up_bounds(1) [of ucHeap] bd(2) heap_okD(3) [OF ok, unfolded ss(1)] by simp_all
  ultimately obtain x l where run: "prvInsertBlockIntoFreeList ucHeap b g = Some (g\<lparr>xStart := x, link_at := l\<rparr>)"
    and c': "chain (g\<lparr>xStart := x, link_at := l\<rparr>) XStart ?e ?a (merge (pre @ (n, False) # post))" and le: "l ?e = link_at g ?e"
    using insert_merges [OF _ _ _ bd(1) [symmetric] e _ sz] by blast
  have "xFreeBytesRemaining g = of_nat (free_total pre + n + free_total post)"
    using heap_okD(7) [OF ok] by (simp add: g ss)
  moreover have "xMinimumEverFreeBytesRemaining g \<le> xFreeBytesRemaining g"
  proof -
    have "free_total pre + n + free_total post < configTOTAL_HEAP_SIZE"
      using sp free_total_le_span [of pre] free_total_le_span [of post] by linarith
    then have "unat (xFreeBytesRemaining h) = free_total pre + free_total post"
      "unat (xFreeBytesRemaining g) = free_total pre + n + free_total post"
      using heap_okD(7) [OF ok] calculation unat_size [of "free_total pre + free_total post"]
        unat_size [of "free_total pre + n + free_total post"] by (simp_all add: ss)
    moreover have "xMinimumEverFreeBytesRemaining h \<le> xFreeBytesRemaining h" using ok unfolding heap_ok_def by blast
    ultimately show ?thesis by (simp add: g word_le_nat_alt)
  qed
  moreover have "sized (merge (pre @ (n, False) # post))" using heap_okD(2) [OF ok] by (simp add: ss)
  ultimately have "heap_ok ucHeap (g\<lparr>xStart := x, link_at := l\<rparr>) (merge (release off ss))"
    using c' le e bd heap_okD(6) [OF ok] sz(3) unfolding heap_ok_def rel
    by (simp add: g add.assoc)
  then have "heap_ok ucHeap (g\<lparr>xStart := x, link_at := l, xNumberOfSuccessfulFrees := xNumberOfSuccessfulFrees g + 1\<rparr>) (merge (release off ss))"
    by simp
  moreover have "free_section ucHeap b ?g0 = Some (g\<lparr>xStart := x, link_at := l, xNumberOfSuccessfulFrees := xNumberOfSuccessfulFrees g + 1\<rparr>)"
    using run by (simp add: free_section_def g_def)
  ultimately show ?thesis by (simp add: g)
qed

section \<open>Initialisation and statistics\<close>

definition heap_size :: "nat \<Rightarrow> nat" where
  "heap_size ucHeap = (ucHeap + configTOTAL_HEAP_SIZE - xHeapStructSize) div 8 * 8 - align_up ucHeap"

lemma prvHeapInit_lays: "heap_ok ucHeap (prvHeapInit ucHeap h) [(heap_size ucHeap, False)] \<and> bytes (prvHeapInit ucHeap h) = bytes h"
proof -
  let ?a = "align_up ucHeap" and ?n = "heap_size ucHeap"
  define e where "e = (ucHeap + configTOTAL_HEAP_SIZE - xHeapStructSize) div 8 * 8"
  have a: "ucHeap \<le> ?a" "?a \<le> ucHeap + 7" "8 dvd ?a" by (rule align_up_bounds)+
  have e': "(?a + (configTOTAL_HEAP_SIZE - (?a - ucHeap)) - xHeapStructSize) div 8 * 8 = e" using a by (simp add: e_def)
  have bd: "e + 8 \<le> ucHeap + configTOTAL_HEAP_SIZE" "?a + 16 \<le> e" "8 dvd e" using a unfolding e_def by auto
  have ne: "?n = e - ?a" by (simp only: heap_size_def e_def)
  have n: "8 dvd ?n" "16 \<le> ?n" "?a + ?n = e" using a bd ne by (auto intro: dvd_diff_nat)
  let ?h = "prvHeapInit ucHeap h"
  have f: "pxEnd ?h = e" "xStart ?h = \<lparr>pxNextFreeBlock = ?a, xBlockSize = 0\<rparr>" "bytes ?h = bytes h"
    "link_at ?h ?a = \<lparr>pxNextFreeBlock = e, xBlockSize = of_nat ?n\<rparr>"
    "link_at ?h e = \<lparr>pxNextFreeBlock = NULL, xBlockSize = 0\<rparr>"
    "xFreeBytesRemaining ?h = of_nat ?n" "xMinimumEverFreeBytesRemaining ?h = of_nat ?n"
    using bd(2) unfolding prvHeapInit_def Let_def e' ne by (simp_all add: link_eta)
  have "chain ?h XStart e ?a [(?n, False)]" using n(3) by (simp add: chain_def f header_def)
  then show ?thesis unfolding heap_ok_def using n bd(1) by (simp add: f)
qed

definition frees :: "segs \<Rightarrow> nat list" where "frees ss = map fst (filter (\<lambda>s. \<not> snd s) ss)"

lemma stats_walk_counts:
  assumes "chain h p (pxEnd h) a ss" and "sized ss" and "pxEnd h = a + span ss" and "span ss < 2 ^ 31" and "l < 2 ^ 31" and "s < 2 ^ 32"
  shows "stats_walk h (next_of h p) (of_nat k) (of_nat l) (of_nat s) =
     Some (of_nat (k + length (frees ss)), of_nat (foldl max l (frees ss)), of_nat (foldl min s (frees ss)))"
  using assms
proof (induction ss arbitrary: p a k l s)
  case Nil
  then show ?case by (subst stats_walk.simps) (simp add: chain_def frees_def)
next
  case (Cons t ss)
  obtain n u where t: "t = (n, u)" by (cases t)
  have c: "chain h (if u then p else Block a) (pxEnd h) (a + n) ss" using Cons.prems(1) by (simp add: chain_def t header_def)
  show ?case
  proof (cases u)
    case True
    then show ?thesis using Cons.IH [of p "a + n"] c Cons.prems by (simp add: t frees_def add.assoc)
  next
    case False
    have n: "n < 2 ^ 31" "0 < n" using Cons.prems by (simp_all add: t)
    have nx: "next_of h p = a" and sz: "size_of h (Block a) = of_nat n"
      using Cons.prems(1) False by (simp_all add: chain_def t header_def)
    have cmp: "(of_nat l :: u32) < of_nat n \<longleftrightarrow> l < n" "(of_nat n :: u32) < of_nat s \<longleftrightarrow> n < s"
      using n Cons.prems(5,6) by (simp_all add: word_less_nat_alt unat_of_nat)
    have "stats_walk h (next_of h (Block a)) (of_nat (k + 1)) (of_nat (max l n)) (of_nat (min s n)) =
       Some (of_nat (k + 1 + length (frees ss)), of_nat (foldl max (max l n) (frees ss)), of_nat (foldl min (min s n) (frees ss)))"
      using c False n Cons.prems by (intro Cons.IH) (simp_all add: t)
    moreover have "of_nat (max l n) = (if of_nat n > (of_nat l :: u32) then of_nat n else (of_nat l :: u32))"
      "of_nat (min s n) = (if of_nat n < (of_nat s :: u32) then of_nat n else (of_nat s :: u32))"
      unfolding cmp by (simp_all add: max_def min_def)
    ultimately show ?thesis using nx sz n False Cons.prems(3)
      by (subst stats_walk.simps) (simp add: t frees_def Let_def add.commute)
  qed
qed

end
