(* ===== verification/Rtos_Heap_Safe.thy ===== *)
theory Rtos_Heap_Safe
  imports Rtos_Heap_Layout Rtos_Event
begin

text \<open>
  The allocator as the application sees it: allocation refines first fit on the sequence of
  segments, release merges, all walks over the free list end, and blocks in use never overlap,
  whatever the order of the operations (rule induction on \<open>heap_step\<close>).
\<close>

text \<open>A heap is laid out, or not initialised yet.\<close>

definition heap_state :: "nat \<Rightarrow> heap_t \<Rightarrow> segs \<Rightarrow> bool" where
  "heap_state ucHeap h ss \<longleftrightarrow> (if pxEnd h = NULL then ss = [(heap_size ucHeap, False)] else heap_ok ucHeap h ss)"

text \<open>The scheduler's state in which a task calls the allocator.\<close>

definition calm :: "nat \<Rightarrow> kernel \<Rightarrow> bool" where
  "calm T k \<longleftrightarrow> time_ok T k \<and> uxSchedulerSuspended k = 0 \<and> 0 < uxCurrentNumberOfTasks k"

lemma resume_calm: "calm T k \<Longrightarrow> \<exists>y k'. xTaskResumeAll (vTaskSuspendAll k) = Some (y, k') \<and> calm (T + unat (xPendedTicks k)) k'"
proof -
  assume c: "calm T k"
  then have "time_ok T (vTaskSuspendAll k)" "uxSchedulerSuspended (vTaskSuspendAll k) = 1"
    "0 < uxCurrentNumberOfTasks (vTaskSuspendAll k)" "xPendedTicks (vTaskSuspendAll k) = xPendedTicks k"
    by (simp_all add: calm_def vTaskSuspendAll_def time_ok_def waiting_ok_def delays_ok_def by_value_def)
  from resume_effect [OF this(1-3)] this(4) show ?thesis
    using c by (auto simp: calm_def vTaskSuspendAll_def)
qed

lemma malloc_section_from_state:
  assumes "heap_state ucHeap h ss" and "0 < ucHeap"
  shows "\<exists>h0. heap_ok ucHeap h0 ss \<and> bytes h0 = bytes h \<and> malloc_section ucHeap w h = malloc_section ucHeap w h0"
proof (cases "pxEnd h = NULL")
  case True
  let ?h = "prvHeapInit ucHeap h"
  have ok: "heap_ok ucHeap ?h ss" "bytes ?h = bytes h"
    using assms True prvHeapInit_lays [of ucHeap h] by (simp_all add: heap_state_def)
  then have "pxEnd ?h \<noteq> NULL" using heap_okD(4) [OF ok(1)] align_up_bounds(1) [of ucHeap] assms(2) by simp
  then have "malloc_section ucHeap w h = malloc_section ucHeap w ?h" using True by (simp add: malloc_section_def)
  then show ?thesis using ok by blast
qed (use assms in \<open>auto simp: heap_state_def\<close>)

lemma alloc_first_aligned: "alloc_first m ss = Some (off, ss') \<Longrightarrow> sized ss \<Longrightarrow> 8 dvd off"
  using alloc_first_Some [of m ss off ss'] span_dvd by auto

lemma malloc_effect:
  assumes st: "heap_state ucHeap h ss" and pos: "0 < ucHeap" and k: "calm T k"
  shows "\<exists>h' k'. pvPortMalloc ucHeap n h k = Some (case first_fit (unat n) ss of None \<Rightarrow> NULL | Some (off, _) \<Rightarrow>
         align_up ucHeap + off + xHeapStructSize, h', k')
     \<and> heap_ok ucHeap h' (case first_fit (unat n) ss of None \<Rightarrow> ss | Some (_, ss') \<Rightarrow> ss')
     \<and> bytes h' = bytes h \<and> calm (T + unat (xPendedTicks k)) k'"
proof -
  let ?a = "align_up ucHeap"
  obtain h0 where ok: "heap_ok ucHeap h0 ss" and b: "bytes h0 = bytes h"
    and sec: "malloc_section ucHeap (adjusted_size n) h = malloc_section ucHeap (adjusted_size n) h0"
    using malloc_section_from_state [OF st pos] by blast
  obtain y k' where k': "xTaskResumeAll (vTaskSuspendAll k) = Some (y, k')" "calm (T + unat (xPendedTicks k)) k'"
    using resume_calm [OF k] by blast
  note fits = malloc_section_fits [OF ok pos, of n]
  show ?thesis
  proof (cases "first_fit (unat n) ss")
    case None
    then show ?thesis using fits k' ok b by (simp add: pvPortMalloc_def Let_def sec)
  next
    case (Some r)
    obtain off ss' where r: "r = (off, ss')" by (cases r)
    have "8 dvd off" using Some r heap_okD(2) [OF ok] alloc_first_aligned by (auto simp: first_fit_def split: if_splits)
    then have "8 dvd ?a + off + 8" using align_up_bounds(3) [of ucHeap] by auto
    then have "(?a + off + 8) mod 8 = 0" by simp
    moreover obtain h' where "malloc_section ucHeap (adjusted_size n) h0 = Some (?a + off + 8, h')" "heap_ok ucHeap h' ss'"
      "bytes h' = bytes h0" using fits unfolding Some r by auto
    ultimately show ?thesis using k' b Some r by (simp add: pvPortMalloc_def Let_def sec)
  qed
qed

lemma free_effect:
  assumes ok: "heap_ok ucHeap h ss" and k: "calm T k" and u: "used_at off ss"
  shows "\<exists>h' k'. vPortFree ucHeap (align_up ucHeap + off + xHeapStructSize) h k = Some (h', k')
     \<and> heap_ok ucHeap h' (merge (release off ss)) \<and> calm (T + unat (xPendedTicks k)) k'
     \<and> bytes h' = (\<lambda>x. if align_up ucHeap + off + xHeapStructSize \<le> x \<and> x < align_up ucHeap + off + size_at off ss then 0 else bytes h x)"
proof -
  let ?b = "align_up ucHeap + off"
  obtain pre n post where ss: "ss = pre @ (n, True) # post" "off = span pre" "size_at off ss = n" using used_at_split [OF u] by blast
  have sp: "span pre + n + span post + 8 \<le> configTOTAL_HEAP_SIZE" using heap_ok_span [OF ok] by (simp add: ss(1))
  have n: "n < 2 ^ 31" "16 \<le> n" using sp heap_okD(2) [OF ok] by (simp_all add: ss(1))
  have lb: "link_at h ?b = header True 0 n"
    using heap_okD(1) [OF ok] unfolding ss(1) chain_append ss(2) by (simp add: header_def)
  let ?g = "set_link (Block ?b) (heapFREE_BLOCK (link_of h (Block ?b))) h"
  let ?c = "h\<lparr>bytes := bytes (clear_bytes (?b + 8) (n - 8) h)\<rparr>"
  have v: "heapVALIDATE_BLOCK_POINTER ucHeap ?b"
    using heap_okD(4,5) [OF ok] align_up_bounds(1) [of ucHeap] by (simp add: heapVALIDATE_BLOCK_POINTER_def ss(1,2))
  have nn: "pxNextFreeBlock (link_at h ?b) = 0" by (simp add: lb header_def)
  have al: "heapBLOCK_IS_ALLOCATED (link_at h ?b)" unfolding lb by (rule allocated_header)
  have fb: "heapFREE_BLOCK (link_at h ?b) = \<lparr>pxNextFreeBlock = NULL, xBlockSize = of_nat n\<rparr>"
    unfolding lb by (rule free_header [OF n(1)])
  obtain y k' where k': "xTaskResumeAll (vTaskSuspendAll k) = Some (y, k')" "calm (T + unat (xPendedTicks k)) k'"
    using resume_calm [OF k] by blast
  have okc: "heap_ok ucHeap ?c ss" using ok by simp
  obtain h' where h': "free_section ucHeap ?b (set_link (Block ?b) (heapFREE_BLOCK (link_of ?c (Block ?b))) ?c) = Some h'"
    "heap_ok ucHeap h' (merge (release off ss))" "bytes h' = bytes ?c"
    using free_section_merges [OF okc u refl] by blast
  have cl: "clear_bytes (?b + 8) (n - 8) ?g = set_link (Block ?b) (heapFREE_BLOCK (link_of ?c (Block ?b))) ?c"
    by (simp add: clear_bytes_def set_link.simps cong: if_cong)
  have "vPortFree ucHeap (?b + 8) h k = Some (h', k')"
    using v al nn n k'(1) h'(1) cl by (simp add: vPortFree_def Let_def fb word_le_nat_alt)
  then show ?thesis using h'(2,3) k'(2) n by (auto simp: ss(3) clear_bytes_def fun_eq_iff)
qed

section \<open>Blocks in use do not overlap\<close>

lemma used_at_cases:
  "used_at off (pre @ ss) \<Longrightarrow> sized pre \<Longrightarrow> (off < span pre \<and> used_at off pre) \<or> (span pre \<le> off \<and> used_at (off - span pre) ss)"
proof (induction pre arbitrary: off)
  case (Cons s pre)
  then show ?case by (cases s) (fastforce split: if_splits)
qed simp

lemma used_at_append:
  "sized pre \<Longrightarrow> off < span pre \<Longrightarrow> used_at off (pre @ ss) = used_at off pre \<and> size_at off (pre @ ss) = size_at off pre"
  "sized pre \<Longrightarrow> span pre \<le> off \<Longrightarrow> used_at off (pre @ ss) = used_at (off - span pre) ss \<and> size_at off (pre @ ss) = size_at (off - span pre) ss"
proof (induction pre arbitrary: off)
  case (Cons s pre)
  {
    case 1
    then show ?case using Cons.IH(1) [of "off - fst s"] by (cases s) auto
  next
    case 2
    then show ?case using Cons.IH(2) [of "off - fst s"] by (cases s) auto
  }
qed simp_all

lemma used_at_merge:
  "sized ss \<Longrightarrow> used_at off (merge ss) = used_at off ss \<and> (used_at off ss \<longrightarrow> size_at off (merge ss) = size_at off ss)"
proof (induction ss arbitrary: off rule: merge.induct, goal_cases)
  case (1 n m ss off)
  have "sized ((n + m, False) # ss)" using 1(2) by simp
  from 1(1) [OF this, of off] show ?case using 1(2) by auto
next
  case (2 v ss off)
  then show ?case using 2(1) [of "off - v"] by auto
next
  case (4 s v ss off)
  have "sized ((v, True) # ss)" using 4(2) by simp
  from 4(1) [OF this, of "off - fst s"] show ?case by (cases s) auto
qed auto

lemma used_at_release:
  "sized ss \<Longrightarrow> used_at off ss \<Longrightarrow> used_at o' ss \<Longrightarrow> o' \<noteq> off \<Longrightarrow>
     used_at o' (release off ss) \<and> size_at o' (release off ss) = size_at o' ss"
proof (induction ss arbitrary: off o')
  case (Cons s ss)
  then show ?case using Cons.IH [of "off - fst s" "o' - fst s"] by (cases s) (auto split: if_splits)
qed simp

lemma used_at_disjoint:
  "used_at off ss \<Longrightarrow> used_at o' ss \<Longrightarrow> off < o' \<Longrightarrow> sized ss \<Longrightarrow> off + size_at off ss \<le> o'"
proof (induction ss arbitrary: off o')
  case (Cons s ss)
  obtain n u where s: "s = (n, u)" by (cases s)
  show ?case
  proof (cases "off = 0")
    case False
    then have "n \<le> off" "used_at (off - n) ss" "used_at (o' - n) ss" "sized ss" using Cons.prems by (auto simp: s)
    moreover from this have "off - n < o' - n" using Cons.prems(3) by linarith
    ultimately have "off - n + size_at (off - n) ss \<le> o' - n" by (intro Cons.IH)
    then show ?thesis using \<open>n \<le> off\<close> Cons.prems(3) False by (simp add: s)
  qed (use Cons.prems in \<open>auto simp: s\<close>)
qed simp

lemma used_at_inside: "used_at off ss \<Longrightarrow> off + size_at off ss \<le> span ss \<and> (sized ss \<longrightarrow> 8 dvd off)"
  using used_at_split [of off ss] span_dvd by fastforce

lemma used_at_alloc:
  assumes "alloc_first m ss = Some (off, ss')" and "sized ss" and "0 < m"
  shows "used_at off ss'" "m \<le> size_at off ss'" "\<not> used_at off ss"
    "used_at o' ss \<Longrightarrow> used_at o' ss' \<and> size_at o' ss' = size_at o' ss"
proof -
  obtain pre n post where f: "ss = pre @ (n, False) # post" "m \<le> n" "off = span pre"
    "ss' = pre @ (if 16 < n - m then [(m, True), (n - m, False)] else [(n, True)]) @ post"
    using alloc_first_Some [OF assms(1)] by blast
  have sz: "sized pre" using assms(2) by (simp add: f(1))
  note up = used_at_append(2) [OF sz, of off] and lo = used_at_append(1) [OF sz]
  show "used_at off ss'" "m \<le> size_at off ss'" "\<not> used_at off ss" using up f(2) by (simp_all add: f(1,3,4))
  show "used_at o' ss' \<and> size_at o' ss' = size_at o' ss" if u: "used_at o' ss"
  proof (cases "o' < span pre")
    case True
    then show ?thesis using u lo by (simp add: f(1,4))
  next
    case False
    then show ?thesis using u used_at_append(2) [OF sz, of o'] assms(3) f(2)
      by (auto simp: f(1,4) split: if_splits)
  qed
qed

section \<open>The application's operations in any order\<close>

text \<open>The heap, and the blocks the application owns with the sizes it asked for.\<close>

type_synonym heap_use = "heap_t \<times> (nat \<rightharpoonup> nat)"

inductive heap_step :: "nat \<Rightarrow> heap_use \<Rightarrow> heap_use \<Rightarrow> bool" for ucHeap where
  malloc: "calm T k \<Longrightarrow> pvPortMalloc ucHeap n h k = Some (pv, h', k') \<Longrightarrow>
    heap_step ucHeap (h, A) (h', if pv = NULL then A else A(pv \<mapsto> unat n))"
| calloc: "calm T k \<Longrightarrow> pvPortCalloc ucHeap n m h k = Some (pv, h', k') \<Longrightarrow>
    heap_step ucHeap (h, A) (h', if pv = NULL then A else A(pv \<mapsto> unat n * unat m))"
| free: "calm T k \<Longrightarrow> A p = Some n \<Longrightarrow> vPortFree ucHeap p h k = Some (h', k') \<Longrightarrow>
    heap_step ucHeap (h, A) (h', A(p := None))"

definition owned :: "nat \<Rightarrow> segs \<Rightarrow> (nat \<rightharpoonup> nat) \<Rightarrow> bool" where
  "owned ucHeap ss A \<longleftrightarrow> (\<forall>p n. A p = Some n \<longrightarrow>
     (\<exists>off. p = align_up ucHeap + off + xHeapStructSize \<and> used_at off ss \<and> n + xHeapStructSize \<le> size_at off ss))"

lemma heap_state_sized: "heap_state ucHeap h ss \<Longrightarrow> sized ss"
proof -
  assume st: "heap_state ucHeap h ss"
  show ?thesis
  proof (cases "pxEnd h = NULL")
    case True
    then have "ss = [(heap_size ucHeap, False)]" using st by (simp add: heap_state_def)
    moreover have "heap_ok ucHeap (prvHeapInit ucHeap h) [(heap_size ucHeap, False)]" using prvHeapInit_lays by blast
    ultimately show ?thesis using heap_okD(2) by blast
  qed (use st heap_okD(2) in \<open>auto simp: heap_state_def\<close>)
qed

lemma heap_ok_state: "heap_ok ucHeap h ss \<Longrightarrow> 0 < ucHeap \<Longrightarrow> heap_state ucHeap h ss"
  using heap_okD(4) [of ucHeap h ss] align_up_bounds(1) [of ucHeap] by (simp add: heap_state_def)

lemma rounded_ge: "n + 8 \<le> rounded n"
  unfolding rounded_def by presburger

lemma malloc_owned:
  assumes st: "heap_state ucHeap h ss" and pos: "0 < ucHeap" and o: "owned ucHeap ss A" and k: "calm T k"
    and run: "pvPortMalloc ucHeap n h k = Some (pv, h', k')"
  shows "\<exists>ss'. heap_state ucHeap h' ss' \<and> owned ucHeap ss' (if pv = NULL then A else A(pv \<mapsto> unat n))"
proof (cases "first_fit (unat n) ss")
  case None
  then have "heap_ok ucHeap h' ss" "pv = NULL" using malloc_effect [OF st pos k, of n] run by auto
  then show ?thesis using o heap_ok_state [OF _ pos] by auto
next
  case (Some r)
  obtain off ss' where r: "r = (off, ss')" by (cases r)
  have h': "heap_ok ucHeap h' ss'" and pv: "pv = align_up ucHeap + off + 8"
    using malloc_effect [OF st pos k, of n] run Some r by auto
  have "alloc_first (rounded (unat n)) ss = Some (off, ss')" using Some r by (simp add: first_fit_def split: if_splits)
  note ua = used_at_alloc [OF this heap_state_sized [OF st] rounded_pos(1)]
  have "owned ucHeap ss' (A(pv \<mapsto> unat n))"
    unfolding owned_def
  proof (intro allI impI)
    fix p m
    assume A: "(A(pv \<mapsto> unat n)) p = Some m"
    show "\<exists>off. p = align_up ucHeap + off + 8 \<and> used_at off ss' \<and> m + 8 \<le> size_at off ss'"
    proof (cases "p = pv")
      case True
      then show ?thesis using A pv ua(1,2) rounded_ge [of "unat n"] by auto
    next
      case False
      then show ?thesis using A o ua(4) unfolding owned_def by (metis fun_upd_other)
    qed
  qed
  then show ?thesis using heap_ok_state [OF h' pos] pv by auto
qed

lemma free_owned:
  assumes st: "heap_state ucHeap h ss" and o: "owned ucHeap ss A" and k: "calm T k" and p: "A p = Some n" and pos: "0 < ucHeap"
  shows "\<exists>h' k' ss'. vPortFree ucHeap p h k = Some (h', k') \<and> heap_state ucHeap h' ss' \<and> owned ucHeap ss' (A(p := None))"
proof -
  obtain off where off: "p = align_up ucHeap + off + 8" "used_at off ss" using o p unfolding owned_def by blast
  then have ok: "heap_ok ucHeap h ss" using st by (auto simp: heap_state_def split: if_splits)
  have sz: "sized ss" by (rule heap_okD(2) [OF ok])
  obtain pre n post where "ss = pre @ (n, True) # post" "release off ss = pre @ (n, False) # post"
    using used_at_split [OF off(2)] sz by blast
  then have szr: "sized (release off ss)" using sz by simp
  have "owned ucHeap (merge (release off ss)) (A(p := None))"
    unfolding owned_def
  proof (intro allI impI)
    fix q m
    assume q: "(A(p := None)) q = Some m"
    then obtain o' where "q = align_up ucHeap + o' + 8" "used_at o' ss" "m + 8 \<le> size_at o' ss"
      using o unfolding owned_def by (auto split: if_splits)
    moreover from this have "o' \<noteq> off" using q off by auto
    ultimately show "\<exists>off'. q = align_up ucHeap + off' + 8 \<and> used_at off' (merge (release off ss)) \<and> m + 8 \<le> size_at off' (merge (release off ss))"
      using used_at_release [OF sz off(2)] used_at_merge [OF szr] by auto
  qed
  then show ?thesis using free_effect [OF ok k off(2)] heap_ok_state [OF _ pos] unfolding off(1) by blast
qed

lemma no_multiply_overflow: "\<not> heapMULTIPLY_WILL_OVERFLOW a b \<Longrightarrow> unat (a * b) = unat a * unat b"
proof -
  assume no: "\<not> heapMULTIPLY_WILL_OVERFLOW a b"
  have "unat a * unat b < 2 ^ 32"
  proof (cases "a = 0")
    case False
    then have "unat b \<le> 0xFFFFFFFF div unat a"
      using no by (auto simp: heapMULTIPLY_WILL_OVERFLOW_def word_greater_zero_iff word_less_nat_alt unat_div not_less unat_eq_0)
    then have "unat a * unat b \<le> unat a * (0xFFFFFFFF div unat a)" by (rule mult_le_mono2)
    also have "\<dots> \<le> 0xFFFFFFFF" by (rule times_div_less_eq_dividend)
    finally show ?thesis by simp
  qed simp
  then show ?thesis by (simp add: unat_word_ariths)
qed

lemma clear_bytes_state [simp]: "heap_state ucHeap (clear_bytes p n h) ss = heap_state ucHeap h ss"
  by (simp add: heap_state_def clear_bytes_def)

lemma heap_step_keeps:
  assumes "heap_step ucHeap s s'" and "0 < ucHeap" and "\<exists>ss. heap_state ucHeap (fst s) ss \<and> owned ucHeap ss (snd s)"
  shows "\<exists>ss. heap_state ucHeap (fst s') ss \<and> owned ucHeap ss (snd s')"
  using assms
proof (induction rule: heap_step.induct)
  case (malloc T k n h pv h' k' A)
  then show ?case using malloc_owned [of ucHeap h _ A T k n pv h' k'] by auto
next
  case (calloc T k n m h pv h' k' A)
  show ?case
  proof (cases "heapMULTIPLY_WILL_OVERFLOW n m")
    case True
    then show ?thesis using calloc by (simp add: pvPortCalloc_def)
  next
    case False
    then obtain g where "pvPortMalloc ucHeap (n * m) h k = Some (pv, g, k')" "h' = (if pv \<noteq> NULL then clear_bytes pv (unat (n * m)) g else g)"
      using calloc(2) by (auto simp: pvPortCalloc_def bind_eq_Some_conv)
    note run = this
    obtain ss where "heap_state ucHeap h ss" "owned ucHeap ss A" using calloc(4) by auto
    from malloc_owned [OF this(1) calloc(3) this(2) calloc(1) run(1)] obtain ss' where
      "heap_state ucHeap g ss'" "owned ucHeap ss' (if pv = NULL then A else A(pv \<mapsto> unat n * unat m))"
      unfolding no_multiply_overflow [OF False] by blast
    then show ?thesis unfolding run(2) fst_conv snd_conv by (intro exI [of _ ss'] conjI) simp_all
  qed
next
  case (free T k A p n h h' k')
  obtain ss where "heap_state ucHeap h ss" "owned ucHeap ss A" using free(5) by auto
  from free_owned [OF this free(1,2,4)] free(3) obtain ss' where
    "heap_state ucHeap h' ss'" "owned ucHeap ss' (A(p := None))" by auto
  then show ?case unfolding fst_conv snd_conv by blast
qed

lemma reachable_heap:
  assumes "(heap_step ucHeap)\<^sup>*\<^sup>* (h0, Map.empty) s" and "pxEnd h0 = NULL" and "0 < ucHeap"
  shows "\<exists>ss. heap_state ucHeap (fst s) ss \<and> owned ucHeap ss (snd s)"
  using assms(1)
proof (induction rule: rtranclp_induct)
  case base
  show ?case using assms(2) by (simp add: heap_state_def owned_def)
next
  case (step s s')
  then show ?case using heap_step_keeps assms(3) by blast
qed

lemma owned_block:
  assumes st: "heap_state ucHeap h ss" and o: "owned ucHeap ss A" and A: "A p = Some n"
  shows "8 dvd p \<and> ucHeap \<le> p \<and> p + n \<le> ucHeap + configTOTAL_HEAP_SIZE"
    and "A q = Some m \<Longrightarrow> p < q \<Longrightarrow> p + n + 8 \<le> q"
proof -
  obtain off where off: "p = align_up ucHeap + off + 8" "used_at off ss" "n + 8 \<le> size_at off ss"
    using o A unfolding owned_def by blast
  then have ok: "heap_ok ucHeap h ss" using st by (auto simp: heap_state_def split: if_splits)
  note in1 = used_at_inside [OF off(2)]
  show "8 dvd p \<and> ucHeap \<le> p \<and> p + n \<le> ucHeap + configTOTAL_HEAP_SIZE"
    using in1 heap_okD(2,4,5) [OF ok] off align_up_bounds(1,3) [of ucHeap] by auto
  show "p + n + 8 \<le> q" if q: "A q = Some m" "p < q"
  proof -
    obtain o' where o': "q = align_up ucHeap + o' + 8" "used_at o' ss" using o q(1) unfolding owned_def by blast
    then have "off + size_at off ss \<le> o'" using used_at_disjoint [OF off(2) o'(2) _ heap_okD(2) [OF ok]] q(2) off(1) by simp
    then show ?thesis using o' off by linarith
  qed
qed

section \<open>Properties\<close>

text \<open>C32: Whatever the application allocates and frees, in any order and starting with the
  uninitialised heap, the heap stays well formed, no assertion fails, and the blocks in use are
  aligned, lie in the heap array and do not overlap, not even with the headers.\<close>

theorem heap_stays_well_formed:
  assumes "(heap_step ucHeap)\<^sup>*\<^sup>* (h0, Map.empty) (h, A)" and "pxEnd h0 = NULL" and "0 < ucHeap" and "calm T k"
  shows "(\<exists>ss. heap_state ucHeap h ss) \<and> (\<forall>n. \<exists>r. pvPortMalloc ucHeap n h k = Some r)
     \<and> (\<forall>p m. A p = Some m \<longrightarrow> 8 dvd p \<and> ucHeap \<le> p \<and> p + m \<le> ucHeap + configTOTAL_HEAP_SIZE
          \<and> (\<exists>r. vPortFree ucHeap p h k = Some r))
     \<and> (\<forall>p m q m'. A p = Some m \<longrightarrow> A q = Some m' \<longrightarrow> p < q \<longrightarrow> p + m + xHeapStructSize \<le> q)"
proof -
  obtain ss where st: "heap_state ucHeap h ss" "owned ucHeap ss A" using reachable_heap [OF assms(1-3)] by auto
  have "\<exists>r. pvPortMalloc ucHeap n h k = Some r" for n using malloc_effect [OF st(1) assms(3,4), of n] by blast
  moreover have "\<exists>r. vPortFree ucHeap p h k = Some r" if "A p = Some m" for p m
    using free_owned [OF st assms(4) that assms(3)] by blast
  ultimately show ?thesis using st(1) owned_block [OF st] by blast
qed

text \<open>C33: \<open>pvPortMalloc\<close> is first fit on the sequence of segments: it returns the first free segment
  that holds the request with its header, rounded up to 8 bytes, splits it when the rest is larger
  than 16 bytes, and returns \<open>NULL\<close> without change when there is none; the bytes of the heap keep their values.\<close>

theorem malloc_is_first_fit:
  assumes "heap_state ucHeap h ss" and "0 < ucHeap" and "calm T k"
  shows "\<exists>h' k'. pvPortMalloc ucHeap n h k = Some (case first_fit (unat n) ss of None \<Rightarrow> NULL | Some (off, _) \<Rightarrow>
         align_up ucHeap + off + xHeapStructSize, h', k')
     \<and> heap_ok ucHeap h' (case first_fit (unat n) ss of None \<Rightarrow> ss | Some (_, ss') \<Rightarrow> ss')
     \<and> bytes h' = bytes h \<and> calm (T + unat (xPendedTicks k)) k'"
  by (rule malloc_effect [OF assms])

text \<open>C34: \<open>vPortFree\<close> of a block in use marks its segment free, merges it with free neighbours on both
  sides, and clears its bytes and no others.\<close>

theorem free_merges_neighbours:
  assumes "heap_ok ucHeap h ss" and "calm T k" and "used_at off ss"
  shows "\<exists>h' k'. vPortFree ucHeap (align_up ucHeap + off + xHeapStructSize) h k = Some (h', k')
     \<and> heap_ok ucHeap h' (merge (release off ss)) \<and> calm (T + unat (xPendedTicks k)) k'
     \<and> bytes h' = (\<lambda>x. if align_up ucHeap + off + xHeapStructSize \<le> x \<and> x < align_up ucHeap + off + size_at off ss then 0 else bytes h x)"
  by (rule free_effect [OF assms])

text \<open>C35: The three walks over the free list end: the search for a block, the search for the place of
  a freed block, and the statistics, which count the free blocks and find their largest and smallest sizes.\<close>

theorem free_list_walks_end:
  assumes "heap_ok ucHeap h ss" and "0 < ucHeap"
  shows "(\<forall>w>0. \<exists>r. find_fit ucHeap w h XStart (pxNextFreeBlock (xStart h)) = Some r)
    \<and> (\<forall>off. used_at off ss \<longrightarrow> (\<exists>r. insert_pos h XStart (align_up ucHeap + off) = Some r))
    \<and> stats_walk h (pxNextFreeBlock (xStart h)) 0 0 0xFFFFFFFF =
      Some (of_nat (length (frees ss)), of_nat (foldl max 0 (frees ss)), of_nat (foldl min 0xFFFFFFFF (frees ss)))"
proof -
  note D = heap_okD [OF assms(1)]
  have sp: "span ss < 2 ^ 31" using heap_ok_span [OF assms(1)] by simp
  have "\<exists>r. find_fit ucHeap w h XStart (pxNextFreeBlock (xStart h)) = Some r" if "0 < w" for w
    using find_fit_walks [OF D(1,2,4,6), of ucHeap w] D(5) align_up_bounds(1) [of ucHeap] assms(2) that by simp
  moreover have "stats_walk h (pxNextFreeBlock (xStart h)) 0 0 0xFFFFFFFF =
      Some (of_nat (length (frees ss)), of_nat (foldl max 0 (frees ss)), of_nat (foldl min 0xFFFFFFFF (frees ss)))"
    using stats_walk_counts [OF D(1,2,4) sp, of 0 "0xFFFFFFFF" 0] by simp
  moreover have "\<exists>r. insert_pos h XStart (align_up ucHeap + off) = Some r" if u: "used_at off ss" for off
  proof -
    obtain pre n post where ss: "ss = pre @ (n, True) # post" "off = span pre" using used_at_split [OF u] by blast
    let ?b = "align_up ucHeap + span pre"
    have "chain h XStart (first_of (pxEnd h) (?b + n) post) (align_up ucHeap) pre" "sized pre"
      using D(1,2) unfolding ss chain_append by simp_all
    moreover have "?b \<le> first_of (pxEnd h) (?b + n) post"
      using first_of_ge [of "?b + n" post "pxEnd h"] D(4) by (simp add: ss)
    ultimately show ?thesis using insert_pos_walks unfolding ss(2) by blast
  qed
  ultimately show ?thesis by blast
qed

section \<open>Concrete instances\<close>

abbreviation (input) ram :: nat where "ram \<equiv> 0x20000000"

definition sample_heap :: heap_t where
  "sample_heap = \<lparr>xStart = \<lparr>pxNextFreeBlock = NULL, xBlockSize = 0\<rparr>, link_at = (\<lambda>_. \<lparr>pxNextFreeBlock = NULL, xBlockSize = 0\<rparr>),
     bytes = (\<lambda>_. 0), pxEnd = NULL, xFreeBytesRemaining = 0, xMinimumEverFreeBytesRemaining = 0,
     xNumberOfSuccessfulAllocations = 0, xNumberOfSuccessfulFrees = 0\<rparr>"

lemma sample_calm: "calm 99 sample_kernel"
  using sample_kernel_time by (simp add: calm_def sample_kernel_def)

lemma sample_heap_state: "heap_state ram sample_heap [(16376, False)]"
  by (simp add: heap_state_def sample_heap_def heap_size_def align_up_def)

lemma sample_fit: "first_fit (unat (100 :: u32)) [(16376, False)] = Some (0, [(112, True), (16264, False)])"
  by (simp add: first_fit_def rounded_def)

lemma sample_malloc: "\<exists>h' k'. pvPortMalloc ram 100 sample_heap sample_kernel = Some (ram + 8, h', k')
    \<and> heap_ok ram h' [(112, True), (16264, False)]"
  using malloc_effect [OF sample_heap_state _ sample_calm, of 100] unfolding sample_fit by (auto simp: align_up_def)

lemma malloc_is_first_fit_witness:
  "\<exists>h' k'. pvPortMalloc ram 100 sample_heap sample_kernel = Some (ram + 8, h', k')
    \<and> heap_ok ram h' [(112, True), (16264, False)] \<and> bytes h' = bytes sample_heap"
  using malloc_is_first_fit [OF sample_heap_state _ sample_calm, of 100] unfolding sample_fit by (auto simp: align_up_def)

lemma free_merges_neighbours_witness:
  "\<exists>h h' k'. heap_ok ram h [(112, True), (16264, False)] \<and> vPortFree ram (ram + 8) h sample_kernel = Some (h', k')
    \<and> heap_ok ram h' [(16376, False)]"
proof -
  obtain h where ok: "heap_ok ram h [(112, True), (16264, False)]" using sample_malloc by blast
  from free_merges_neighbours [OF ok sample_calm, of 0] show ?thesis using ok by (auto simp: align_up_def)
qed

lemma free_list_walks_end_witness:
  "stats_walk (prvHeapInit ram sample_heap) ram 0 0 0xFFFFFFFF = Some (1, 16376, 16376)"
proof -
  have ok: "heap_ok ram (prvHeapInit ram sample_heap) [(16376, False)]"
    using prvHeapInit_lays [of ram sample_heap] by (simp add: heap_size_def align_up_def)
  have "pxNextFreeBlock (xStart (prvHeapInit ram sample_heap)) = ram"
    using heap_okD(1) [OF ok] by (simp add: chain_def align_up_def)
  with free_list_walks_end [OF ok] show ?thesis by (simp add: frees_def)
qed

lemma heap_stays_well_formed_witness:
  "\<exists>h A. heap_step ram (sample_heap, Map.empty) (h, A) \<and> A (ram + 8) = Some 100 \<and> (\<exists>r. vPortFree ram (ram + 8) h sample_kernel = Some r)"
proof -
  obtain h k where h: "pvPortMalloc ram 100 sample_heap sample_kernel = Some (ram + 8, h, k)" using sample_malloc by blast
  let ?A = "[ram + 8 \<mapsto> 100 :: nat]"
  have st: "heap_step ram (sample_heap, Map.empty) (h, ?A)"
    using heap_step.malloc [OF sample_calm h, of Map.empty] by simp
  then have "(heap_step ram)\<^sup>*\<^sup>* (sample_heap, Map.empty) (h, ?A)" by blast
  from heap_stays_well_formed [OF this _ _ sample_calm] have "\<exists>r. vPortFree ram (ram + 8) h sample_kernel = Some r"
    by (simp add: sample_heap_def)
  then show ?thesis using st by (intro exI [of _ h] exI [of _ ?A]) simp
qed

end
