(* ===== verification/Rtos_Life_Safe.thy ===== *)
theory Rtos_Life_Safe
  imports Rtos_Notify Rtos_Event Rtos_Heap_Safe
begin

text \<open>
  Correctness of suspension, resumption, priority changes, periodic delays and deletion: each keeps
  the invariants of the scheduler and moves exactly the task it is about.
\<close>

section \<open>Removing and readying a task keeps time\<close>

lemma time_okD:
  assumes "time_ok T k"
  shows "kernel_ok k" "waiting_ok k" "delays_ok k" "unat (xTickCount k) = T mod 2 ^ 64"
  using assms by (simp_all add: time_ok_def)

lemma delayed_state_items:
  assumes "kernel_ok k" and "m = pxDelayedTaskList k \<or> m = pxOverflowDelayedTaskList k" and "it \<in> set (entries k m)"
  shows "\<exists>t. it = StateItem t"
  using kernel_ok_delayed_items(1) [OF assms(1,3)] assms(2) by auto

text \<open>Only removals from the delayed lists, and no new wake times.\<close>

lemma time_ok_frame:
  assumes "time_ok T k" and "kernel_ok k'" and "waiting_ok k'"
    and "pxDelayedTaskList k' = pxDelayedTaskList k" and "pxOverflowDelayedTaskList k' = pxOverflowDelayedTaskList k"
    and "xTickCount k' = xTickCount k" and "xNextTaskUnblockTime k' = xNextTaskUnblockTime k"
    and v: "\<And>t. container k (StateItem t) \<noteq> None \<Longrightarrow> item_value k' (StateItem t) = item_value k (StateItem t)"
    and e: "\<And>m. m = pxDelayedTaskList k \<or> m = pxOverflowDelayedTaskList k \<Longrightarrow> entries k' m = remove1 a (remove1 b (entries k m))"
  shows "time_ok T k'"
proof -
  have d: "delays_ok k" and ok: "kernel_ok k" by (rule time_okD [OF assms(1)])+
  have sub: "set (entries k' m) \<subseteq> set (entries k m)" if "m = pxDelayedTaskList k \<or> m = pxOverflowDelayedTaskList k" for m
    using e [OF that] by (auto dest!: set_remove1_subset [THEN subsetD])
  have v': "item_value k' it = item_value k it" if "m = pxDelayedTaskList k \<or> m = pxOverflowDelayedTaskList k" "it \<in> set (entries k m)" for m it
    using delayed_state_items [OF ok that] v that(2) lists_ok_container [OF kernel_ok_lists [OF ok], of it m] by auto
  have "by_value k' (entries k' m)" if m: "m = pxDelayedTaskList k \<or> m = pxOverflowDelayedTaskList k" for m
  proof -
    have "by_value k (entries k' m)" using m d e [OF m] by (auto simp: delays_ok_def by_value_def sorted_map_remove1)
    moreover have "map (item_value k') (entries k' m) = map (item_value k) (entries k' m)"
      using v' [OF m] sub [OF m] by (intro map_cong) auto
    ultimately show ?thesis by (simp only: by_value_def)
  qed
  moreover have "\<forall>it \<in> set (entries k' (pxDelayedTaskList k)). xTickCount k < item_value k' it \<and> xNextTaskUnblockTime k \<le> item_value k' it"
    using d sub [of "pxDelayedTaskList k"] v' [of "pxDelayedTaskList k"] by (auto simp: delays_ok_def)
  ultimately have "delays_ok k'"
    using assms(4-7) by (auto simp: delays_ok_def)
  then show ?thesis
    using assms(1-3,6) by (simp add: time_ok_def)
qed

lemma time_ok_shrink:
  assumes "time_ok T k" and "kernel_ok k'" and "waiting_ok k'" and "statics k' = statics k"
    and "xNextTaskUnblockTime k' = xNextTaskUnblockTime k"
    and "\<And>m. m = pxDelayedTaskList k \<or> m = pxOverflowDelayedTaskList k \<Longrightarrow> entries k' m = remove1 a (remove1 b (entries k m))"
  shows "time_ok T k'"
  by (rule time_ok_frame [OF assms(1-3) _ _ _ _ _ assms(6)]) (use assms(5) statics_eqD [OF assms(4)] in simp_all)

lemma time_ok_reset_self: "time_ok T k \<Longrightarrow> time_ok T (prvResetNextTaskUnblockTime k)"
  using time_ok_reset [OF _ woken_none [of k "xNextTaskUnblockTime k"]] by (simp add: time_ok_def)

lemma reset_fields [simp]:
  "container (prvResetNextTaskUnblockTime k) = container k" "uxPriority (prvResetNextTaskUnblockTime k) = uxPriority k"
  "pxCurrentTCB (prvResetNextTaskUnblockTime k) = pxCurrentTCB k" "lists (prvResetNextTaskUnblockTime k) = lists k"
  "uxSchedulerSuspended (prvResetNextTaskUnblockTime k) = uxSchedulerSuspended k"
  "item_value (prvResetNextTaskUnblockTime k) = item_value k" "statics (prvResetNextTaskUnblockTime k) = statics k"
  "pendsv (prvResetNextTaskUnblockTime k) = pendsv k" "uxBasePriority (prvResetNextTaskUnblockTime k) = uxBasePriority k"
  by (simp_all add: prvResetNextTaskUnblockTime_def statics_def)

lemma due_reset [simp]: "due T (prvResetNextTaskUnblockTime k) = due T k"
  by (rule ext, rule due_cong) (simp_all add: prvResetNextTaskUnblockTime_def)

lemma due_pend [simp]: "due T (portYIELD k) = due T k"
  by (rule ext, rule due_cong) (simp_all add: portYIELD_def)

lemma yield_fields [simp]:
  "container (portYIELD k) = container k" "uxPriority (portYIELD k) = uxPriority k" "pendsv (portYIELD k)"
  "pxCurrentTCB (portYIELD k) = pxCurrentTCB k" "uxSchedulerSuspended (portYIELD k) = uxSchedulerSuspended k"
  "kernel_ok (portYIELD k) = kernel_ok k" "uxBasePriority (portYIELD k) = uxBasePriority k"
  by (simp_all add: portYIELD_def)

lemma time_ok_pend [simp]: "time_ok T (portYIELD k) = time_ok T k"
  by (simp add: time_ok_def waiting_ok_def delays_ok_def by_value_def portYIELD_def)

lemma detach_if_more [simp]:
  "xPendedTicks (detach_if it k) = xPendedTicks k" "pendsv (detach_if it k) = pendsv k"
  "uxCurrentNumberOfTasks (detach_if it k) = uxCurrentNumberOfTasks k"
  by (simp_all add: detach_if_def detach_def split: option.splits)

lemma unblocked_time_ok:
  assumes "time_ok T k" and "unblocked t k k'" and "xNextTaskUnblockTime k' = xNextTaskUnblockTime k"
  shows "time_ok T k'"
proof (rule time_ok_shrink [OF assms(1) _ _ _ assms(3)])
  show "kernel_ok k'" "statics k' = statics k" using assms(2) by (simp_all add: unblocked_def)
  show "waiting_ok k'" using unblocked_waiting_ok [OF assms(2)] time_okD [OF assms(1)] by blast
  fix m assume "m = pxDelayedTaskList k \<or> m = pxOverflowDelayedTaskList k"
  then have "\<forall>p. m \<noteq> ReadyList p" using delayed_not_ready [OF time_okD(1) [OF assms(1)]] by metis
  then show "entries k' m = remove1 (StateItem t) (remove1 (EventItem t) (entries k m))"
    using assms(2) by (simp add: unblocked_def)
qed

section \<open>Suspension and resumption\<close>

lemma remove_if_listed_effect [simp]: "remove_if_listed it k = Some (detach_if it k)"
  unfolding remove_if_listed_def by (rule detach_if_guard)

lemma pendsv_insert_end [simp]: "pendsv (list_insert_end l it k) = pendsv k"
  by (simp add: list_insert_end_def)

text \<open>The task goes to a list of tasks that do not wait for an event.\<close>

definition moved_to :: "list_id \<Rightarrow> nat \<Rightarrow> kernel \<Rightarrow> kernel" where
  "moved_to l t k = list_insert_end l (StateItem t) (detach_if (EventItem t) (detach_if (StateItem t) k))"

abbreviation to_suspended :: "nat \<Rightarrow> kernel \<Rightarrow> kernel" where "to_suspended \<equiv> moved_to SuspendedTaskList"

lemma container_moved_to [simp]: "container (moved_to l t k) = (container k)(EventItem t := None, StateItem t \<mapsto> l)"
  by (auto simp: moved_to_def fun_upd_twist)

lemma moved_to_fields [simp]:
  "statics (moved_to l t k) = statics k" "uxPriority (moved_to l t k) = uxPriority k" "pxCurrentTCB (moved_to l t k) = pxCurrentTCB k"
  "xNextTaskUnblockTime (moved_to l t k) = xNextTaskUnblockTime k" "xYieldPending (moved_to l t k) = xYieldPending k"
  "uxBasePriority (moved_to l t k) = uxBasePriority k" "uxSchedulerSuspended (moved_to l t k) = uxSchedulerSuspended k"
  "uxCurrentNumberOfTasks (moved_to l t k) = uxCurrentNumberOfTasks k" "pendsv (moved_to l t k) = pendsv k"
  by (simp_all add: moved_to_def)

lemma time_ok_moved_to:
  assumes "time_ok T k" and "l = SuspendedTaskList \<or> l = TasksWaitingTermination"
  shows "time_ok T (moved_to l t k)"
proof (rule time_ok_shrink [OF assms(1)])
  let ?k = "detach_if (EventItem t) (detach_if (StateItem t) k)"
  have ok: "kernel_ok ?k" by (simp add: time_okD [OF assms(1)] kernel_ok_detach_if)
  show "kernel_ok (moved_to l t k)"
    unfolding moved_to_def by (rule kernel_ok_attach [OF ok, of "StateItem t" l]) (use assms(2) in auto)
  show "waiting_ok (moved_to l t k)"
    using time_okD(2) [OF assms(1)] by (auto simp: waiting_ok_def)
  fix m assume "m = pxDelayedTaskList k \<or> m = pxOverflowDelayedTaskList k"
  then have "m \<noteq> l" using time_okD(1) [OF assms(1)] assms(2) by (auto simp: kernel_ok_def doubleton_eq_iff)
  then show "entries (moved_to l t k) m = remove1 (EventItem t) (remove1 (StateItem t) (entries k m))"
    using time_okD(1) [OF assms(1)] by (simp add: moved_to_def entries_detach_if kernel_ok_detach_if)
qed simp_all

lemma ticks_not_due:
  assumes "time_ok T k" and "uxSchedulerSuspended k = 0" and "due T k t = None"
  shows "\<exists>k'. pended_ticks m k = Some k' \<and> time_ok (T + m) k' \<and> container k' (StateItem t) = container k (StateItem t)
    \<and> container k' (EventItem t) \<in> {None, container k (EventItem t)} \<and> uxPriority k' = uxPriority k
    \<and> pxCurrentTCB k' = pxCurrentTCB k \<and> uxSchedulerSuspended k' = 0"
proof -
  obtain k' where "pended_ticks m k = Some k'" "time_ok (T + m) k'" "uxSchedulerSuspended k' = 0" "uxPriority k' = uxPriority k"
    "pxCurrentTCB k' = pxCurrentTCB k" "container k' (EventItem t) \<in> {None, container k (EventItem t)}"
    "case due T k t of None \<Rightarrow> container k' (StateItem t) = container k (StateItem t) \<and> due (T + m) k' t = None
     | Some d \<Rightarrow> if d \<le> T + m then container k' (StateItem t) = Some (ReadyList (uxPriority k t)) else due (T + m) k' t = Some d"
    using pended_ticks_effect [OF assms(1,2), of m] by blast
  then show ?thesis using assms(3) by auto
qed

lemma suspend_effect:
  assumes "container (kern s) (StateItem t) \<noteq> None"
  shows "suspend_section t s = Some (s\<lparr>kern := to_suspended t (kern s), ucNotifyState := (ucNotifyState s)(t :=
    (if ucNotifyState s t = taskWAITING_NOTIFICATION then taskNOT_WAITING_NOTIFICATION else ucNotifyState s t))\<rparr>)"
  using assms
  by (simp add: suspend_section_def moved_to_def list_remove_detach_if)

lemma due_to_suspended:
  "kernel_ok k \<Longrightarrow> due T (to_suspended t k) u = (if u = t then None else due T k u)"
  using statics_eqD [of "to_suspended t k" k]
  by (auto simp: due_def kernel_ok_def doubleton_eq_iff)

lemma resume_ready:
  assumes "time_ok T k" and "container k (EventItem t) = None"
  shows "time_ok T (prvAddTaskToReadyList t (detach_if (StateItem t) k))"
proof -
  have "detach_if (EventItem t) k = k" using assms(2) by (simp add: detach_if_def)
  then have "unblocked t k (prvAddTaskToReadyList t (detach_if (StateItem t) k))"
    using unblocked_add_ready [OF time_okD(1) [OF assms(1)], of "detach_if (StateItem t) k" t] by simp
  then show ?thesis
    using unblocked_time_ok [OF assms(1)] by (simp add: detach_if_def detach_def split: option.splits)
qed

lemma resume_state:
  assumes "time_ok T (kern s)" and "\<not> no_current s" and "t \<noteq> current s"
    and "container (kern s) (StateItem t) = Some SuspendedTaskList" and "container (kern s) (EventItem t) = None"
    and "ucNotifyState s t \<noteq> taskWAITING_NOTIFICATION"
  shows "\<exists>k. vTaskResume (Some t) s = Some (s\<lparr>kern := k\<rparr>) \<and> time_ok T k
    \<and> container k = (container (kern s))(StateItem t \<mapsto> ReadyList (uxPriority (kern s) t))
    \<and> (uxPriority (kern s) (current s) < uxPriority (kern s) t \<longrightarrow> pendsv k)"
proof -
  define k where "k = prvAddTaskToReadyList t (detach_if (StateItem t) (kern s))"
  have k: "time_ok T k" "container k = (container (kern s))(StateItem t \<mapsto> ReadyList (uxPriority (kern s) t))"
    "uxPriority k = uxPriority (kern s)" "pxCurrentTCB k = current s"
    using resume_ready [OF assms(1), of t] assms(4,5) by (simp_all add: k_def)
  have "vTaskResume (Some t) s = taskYIELD_ANY_CORE_IF_USING_PREEMPTION t (s\<lparr>kern := k\<rparr>)"
    using assms(2-6) by (simp add: vTaskResume_def is_current_def prvTaskIsTaskSuspended_def list_remove_detach_if k_def)
  then show ?thesis
    using k assms(2)
    by (intro exI [of _ "if uxPriority (kern s) (current s) < uxPriority (kern s) t then portYIELD k else k"])
      (simp add: taskYIELD_ANY_CORE_IF_USING_PREEMPTION_def)
qed

text \<open>
  C23: a suspended task stays suspended until it is resumed. Suspending any other task than the
  current one, ready or blocked with a time-out, on an event or for a notification, takes it to the
  suspended list and out of the event list and changes no other task; no number of ticks makes it
  ready; resuming it then puts it in the ready list of its priority and asks for a context
  switch if it is more urgent than the current task. The invariants of lists and time hold
  throughout.
\<close>
theorem suspended_until_resumed:
  assumes "time_ok T (kern s)" and "uxSchedulerSuspended (kern s) = 0" and "\<not> no_current s" and "t \<noteq> current s"
    and "container (kern s) (StateItem t) \<noteq> None"
  shows "\<exists>s1 k2 k3. vTaskSuspend (Some t) s = Some s1
    \<and> container (kern s1) = (container (kern s))(EventItem t := None, StateItem t \<mapsto> SuspendedTaskList)
    \<and> (\<forall>u. u \<noteq> t \<longrightarrow> due T (kern s1) u = due T (kern s) u)
    \<and> pended_ticks m (kern s1) = Some k2 \<and> time_ok (T + m) k2 \<and> container k2 (StateItem t) = Some SuspendedTaskList
    \<and> vTaskResume (Some t) (s1\<lparr>kern := k2\<rparr>) = Some (s1\<lparr>kern := k3\<rparr>) \<and> time_ok (T + m) k3
    \<and> container k3 = (container k2)(StateItem t \<mapsto> ReadyList (uxPriority (kern s) t))
    \<and> (uxPriority (kern s) (current s) < uxPriority (kern s) t \<longrightarrow> pendsv k3)"
proof -
  define n where "n = (ucNotifyState s)(t :=
    (if ucNotifyState s t = taskWAITING_NOTIFICATION then taskNOT_WAITING_NOTIFICATION else ucNotifyState s t))"
  have n: "n t \<noteq> taskWAITING_NOTIFICATION" by (simp add: n_def)
  define k1 where "k1 = (if xSchedulerRunning s then prvResetNextTaskUnblockTime (to_suspended t (kern s))
    else to_suspended t (kern s))"
  define s1 where "s1 = s\<lparr>kern := k1, ucNotifyState := n\<rparr>"
  have st: "statics k1 = statics (kern s)" by (simp add: k1_def)
  have t1: "time_ok T k1" and c1: "container k1 = (container (kern s))(EventItem t := None, StateItem t \<mapsto> SuspendedTaskList)"
    using time_ok_moved_to [OF assms(1), of SuspendedTaskList t] time_ok_reset_self by (simp_all add: k1_def)
  have d1: "due T k1 u = (if u = t then None else due T (kern s) u)" for u
    using due_to_suspended [OF time_okD(1) [OF assms(1)], of T t u] by (cases "u = t") (simp_all add: k1_def)
  have sus: "vTaskSuspend (Some t) s = Some s1"
    using suspend_effect [OF assms(5)] assms(3,4)
    by (auto simp: vTaskSuspend_def prvGetTCBFromHandle_def is_current_def s1_def k1_def n_def)
  note sts = statics_eqD [OF st]
  have sus0: "uxSchedulerSuspended k1 = 0" using sts assms(2) by simp
  obtain k2 where k2: "pended_ticks m k1 = Some k2" "time_ok (T + m) k2" "container k2 (StateItem t) = container k1 (StateItem t)"
    "container k2 (EventItem t) \<in> {None, container k1 (EventItem t)}" "uxPriority k2 = uxPriority k1" "pxCurrentTCB k2 = pxCurrentTCB k1"
    using ticks_not_due [OF t1 sus0, of t m] d1 [of t] by auto
  obtain k3 where k3: "vTaskResume (Some t) (s1\<lparr>kern := k2\<rparr>) = Some ((s1\<lparr>kern := k2\<rparr>)\<lparr>kern := k3\<rparr>)" "time_ok (T + m) k3"
    "container k3 = (container k2)(StateItem t \<mapsto> ReadyList (uxPriority k2 t))"
    "uxPriority k2 (pxCurrentTCB k2) < uxPriority k2 t \<longrightarrow> pendsv k3"
    using resume_state [of "T + m" "s1\<lparr>kern := k2\<rparr>" t] k2 c1 n assms(3,4) sts by (auto simp: s1_def)
  show ?thesis
    using sus c1 d1 k2 k3 sts by (intro exI [of _ s1] exI [of _ k2] exI [of _ k3]) (simp add: s1_def)
qed


definition sample_tasks :: task_state where
  "sample_tasks = \<lparr>kern = sample_kernel, heap = sample_heap, memory = (\<lambda>_. 0), no_current = False, xSchedulerRunning = True,
     uxTaskNumber = 3, uxDeletedTasksWaitingCleanUp = 0, pxStack = (\<lambda>_. 0), pxTopOfStack = (\<lambda>_. 0),
     pcTaskName = (\<lambda>_. replicate 16 0), ucStaticallyAllocated = (\<lambda>_. tskSTATICALLY_ALLOCATED_STACK_AND_TCB),
     ucNotifyState = (\<lambda>_. taskNOT_WAITING_NOTIFICATION), ulNotifiedValue = (\<lambda>_. 0)\<rparr>"

lemma sample_tasks_fields [simp]:
  "kern sample_tasks = sample_kernel" "no_current sample_tasks = False" "xSchedulerRunning sample_tasks"
  "pxCurrentTCB sample_kernel = 1" "uxSchedulerSuspended sample_kernel = 0" "xTickCount sample_kernel = 99"
  by (simp_all add: sample_tasks_def sample_kernel_def)

lemma suspended_until_resumed_witness:
  "\<exists>s1 k2 k3. vTaskSuspend (Some 2) sample_tasks = Some s1 \<and> container (kern s1) (EventItem 2) = None
    \<and> pended_ticks 5 (kern s1) = Some k2 \<and> container k2 (StateItem 2) = Some SuspendedTaskList
    \<and> vTaskResume (Some 2) (s1\<lparr>kern := k2\<rparr>) = Some (s1\<lparr>kern := k3\<rparr>) \<and> container k3 (StateItem 2) = Some (ReadyList 1)"
proof -
  have "container sample_kernel (StateItem 2) \<noteq> None" and p: "uxPriority sample_kernel 2 = 1"
    by (simp_all add: sample_kernel_def)
  then obtain s1 k2 k3 where "vTaskSuspend (Some 2) sample_tasks = Some s1"
    "container (kern s1) = (container sample_kernel)(EventItem 2 := None, StateItem 2 \<mapsto> SuspendedTaskList)"
    "pended_ticks 5 (kern s1) = Some k2" "container k2 (StateItem 2) = Some SuspendedTaskList"
    "vTaskResume (Some 2) (s1\<lparr>kern := k2\<rparr>) = Some (s1\<lparr>kern := k3\<rparr>)"
    "container k3 = (container k2)(StateItem 2 \<mapsto> ReadyList 1)"
    using suspended_until_resumed [of 99 sample_tasks 2 5] sample_kernel_time by auto
  then show ?thesis
    by (intro exI [of _ s1] exI [of _ k2] exI [of _ k3]) simp
qed


section \<open>Priorities\<close>

lemma set_priority_value_more [simp]:
  "pxDelayedTaskList (set_priority_value t p k) = pxDelayedTaskList k" "lists (set_priority_value t p k) = lists k"
  "pxOverflowDelayedTaskList (set_priority_value t p k) = pxOverflowDelayedTaskList k"
  "xTickCount (set_priority_value t p k) = xTickCount k" "xNextTaskUnblockTime (set_priority_value t p k) = xNextTaskUnblockTime k"
  "item_value (set_priority_value t p k) (StateItem u) = item_value k (StateItem u)"
  "uxTopReadyPriority (set_priority_value t p k) = uxTopReadyPriority k" "pendsv (set_priority_value t p k) = pendsv k"
  "uxSchedulerSuspended (set_priority_value t p k) = uxSchedulerSuspended k"
  "xYieldPending (set_priority_value t p k) = xYieldPending k"
  "uxCurrentNumberOfTasks (set_priority_value t p k) = uxCurrentNumberOfTasks k" "xPendedTicks (set_priority_value t p k) = xPendedTicks k"
  by (simp_all add: set_priority_value_def set_item_value_def)

text \<open>A new priority for a task, and its move to the ready list of it.\<close>

definition new_priority :: "nat \<Rightarrow> nat \<Rightarrow> kernel \<Rightarrow> nat" where
  "new_priority t new k = (if uxBasePriority k t = uxPriority k t \<or> new > uxPriority k t then new else uxPriority k t)"

definition reprioritised :: "nat \<Rightarrow> nat \<Rightarrow> kernel \<Rightarrow> kernel" where
  "reprioritised t new k =
     (let k1 = k\<lparr>uxPriority := (uxPriority k)(t := new_priority t new k), uxBasePriority := (uxBasePriority k)(t := new)\<rparr>;
          k2 = (if \<not> event_value_in_use t k1 then set_priority_value t new k1 else k1)
      in if container k (StateItem t) = Some (ReadyList (uxPriority k t)) then prvAddTaskToReadyList t (detach_if (StateItem t) k2) else k2)"

lemma reprioritised_fields [simp]:
  "uxPriority (reprioritised t new k) = (uxPriority k)(t := new_priority t new k)"
  "uxBasePriority (reprioritised t new k) = (uxBasePriority k)(t := new)"
  "pxCurrentTCB (reprioritised t new k) = pxCurrentTCB k" "uxSchedulerSuspended (reprioritised t new k) = uxSchedulerSuspended k"
  "xYieldPending (reprioritised t new k) = xYieldPending k" "uxCurrentNumberOfTasks (reprioritised t new k) = uxCurrentNumberOfTasks k"
  "xPendedTicks (reprioritised t new k) = xPendedTicks k"
  "container (reprioritised t new k) = (if container k (StateItem t) = Some (ReadyList (uxPriority k t))
     then (container k)(StateItem t \<mapsto> ReadyList (new_priority t new k)) else container k)"
  by (auto simp: reprioritised_def Let_def)

lemma time_ok_reprioritised:
  assumes "time_ok T k"
  shows "time_ok T (reprioritised t new k)"
proof -
  define p where "p = new_priority t new k"
  define k1 where "k1 = k\<lparr>uxPriority := (uxPriority k)(t := p), uxBasePriority := (uxBasePriority k)(t := new)\<rparr>"
  define k2 where "k2 = (if \<not> event_value_in_use t k1 then set_priority_value t new k1 else k1)"
  have r: "reprioritised t new k = (if container k (StateItem t) = Some (ReadyList (uxPriority k t))
    then prvAddTaskToReadyList t (detach_if (StateItem t) k2) else k2)"
    by (simp add: reprioritised_def k2_def k1_def p_def Let_def)
  have ok: "kernel_ok k" and w: "waiting_ok k" by (rule time_okD [OF assms])+
  note f = time_ok_frame [OF assms, where a = "StateItem t" and b = "StateItem t"]
  have k2: "lists k2 = lists k" "container k2 = container k" "uxPriority k2 = (uxPriority k)(t := p)"
    "uxTopReadyPriority k2 = uxTopReadyPriority k" "pxDelayedTaskList k2 = pxDelayedTaskList k"
    "pxOverflowDelayedTaskList k2 = pxOverflowDelayedTaskList k" "xTickCount k2 = xTickCount k"
    "xNextTaskUnblockTime k2 = xNextTaskUnblockTime k" "item_value k2 (StateItem u) = item_value k (StateItem u)" for u
    by (simp_all add: k2_def k1_def)
  have nomem: "remove1 (StateItem t) (entries k m) = entries k m" if "container k (StateItem t) \<noteq> Some m" for m
    using that lists_ok_container [OF kernel_ok_lists [OF ok]] by (simp add: remove1_idem)
  show ?thesis
  proof (cases "container k (StateItem t) = Some (ReadyList (uxPriority k t))")
    case True
    let ?k = "detach_if (StateItem t) k2"
    let ?l = "(detach_if (StateItem t) k)\<lparr>uxPriority := (uxPriority k)(t := p)\<rparr>"
    have "kernel_ok ?l = kernel_ok ?k"
      by (rule kernel_ok_cong) (use k2 True in \<open>simp_all add: detach_if_def detach_def\<close>)
    moreover have "kernel_ok ?l"
      using kernel_ok_priority [OF kernel_ok_detach_if [OF ok], of "StateItem t" t p] by simp
    ultimately have 1: "kernel_ok (prvAddTaskToReadyList t ?k)" by (intro kernel_ok_add_ready) auto
    have "time_ok T (prvAddTaskToReadyList t ?k)"
    proof (rule f [OF 1])
      show "waiting_ok (prvAddTaskToReadyList t ?k)"
        using w True k2 by (auto simp: waiting_ok_def)
      fix m assume "m = pxDelayedTaskList k \<or> m = pxOverflowDelayedTaskList k"
      then have m: "\<And>p. m \<noteq> ReadyList p" using delayed_not_ready [OF ok] by metis
      then have "remove1 (StateItem t) (entries k m) = entries k m" using nomem True by (metis option.inject)
      then show "entries (prvAddTaskToReadyList t ?k) m = remove1 (StateItem t) (remove1 (StateItem t) (entries k m))"
        using True k2 m by (simp add: detach_if_def)
    qed (use k2 statics_eqD [OF statics_detach_if [of "StateItem t" k2]] in \<open>simp_all\<close>)
    then show ?thesis using True r by simp
  next
    case False
    then have no: "container k (StateItem t) \<noteq> Some (ReadyList q)" for q
      using kernel_ok_fits [OF ok, of "StateItem t" "ReadyList q"] by auto
    have "kernel_ok k2 = kernel_ok (k\<lparr>uxPriority := (uxPriority k)(t := p)\<rparr>)"
      by (rule kernel_ok_cong) (simp_all add: k2)
    then have 1: "kernel_ok k2" using kernel_ok_priority [OF ok no] by simp
    have "time_ok T k2"
    proof (rule time_ok_frame [OF assms 1, where a = "EventItem t" and b = "EventItem t"])
      show "waiting_ok k2" using w by (simp add: waiting_ok_def k2)
      fix m assume m: "m = pxDelayedTaskList k \<or> m = pxOverflowDelayedTaskList k"
      then have "EventItem t \<notin> set (entries k m)" using delayed_state_items [OF ok] by blast
      then show "entries k2 m = remove1 (EventItem t) (remove1 (EventItem t) (entries k m))"
        by (simp add: k2 remove1_idem)
    qed (simp_all add: k2)
    then show ?thesis using False r by simp
  qed
qed

lemma change_priority_effect: "change_priority t new k = Some (reprioritised t new k)"
  by (cases "uxBasePriority k t = uxPriority k t \<or> new > uxPriority k t")
    (simp_all add: change_priority_def reprioritised_def new_priority_def Let_def list_remove_detach_if)

lemma priority_set_effect:
  assumes "prvGetTCBFromHandle h s = Some t" and "\<not> no_current s" and "new < configMAX_PRIORITIES"
  shows "vTaskPrioritySet h new s = Some (s\<lparr>kern :=
    (if uxBasePriority (kern s) t = new then kern s
     else if (if uxBasePriority (kern s) t < new then t \<noteq> current s \<and> uxPriority (kern s) (current s) < new else t = current s)
     then portYIELD (reprioritised t new (kern s)) else reprioritised t new (kern s))\<rparr>)"
  using assms by (simp add: vTaskPrioritySet_def change_priority_effect is_current_def Let_def)


section \<open>Periodic delays\<close>

lemma should_delay_iff: "should_delay p i n \<longleftrightarrow> n - p < i"
proof -
  have "unat p < 2 ^ LENGTH(64)" "unat i < 2 ^ LENGTH(64)" "unat n < 2 ^ LENGTH(64)" by (rule unsigned_less)+
  then show ?thesis
    by (auto simp: should_delay_def Let_def word_less_nat_alt unat_sub_if' unat_plus_if' split: if_splits)
qed

lemma wake_after: "(p + i) - n = i - (n - p)" for p i n :: tick
  by simp

lemma elapsed_since:
  assumes "unat p = P mod 2 ^ 64" and "unat n = T mod 2 ^ 64" and "P \<le> T" and "T < P + 2 ^ 64"
  shows "unat (n - p :: tick) = T - P"
proof -
  have "n = of_nat T" "p = of_nat P" using assms(1,2) by (simp_all add: word_unat_eq_iff unat_of_nat)
  then have "n - p = of_nat (T - P)" using assms(3) by simp
  then show ?thesis using assms(3,4) by (simp add: unat_of_nat del: of_nat_diff)
qed

lemma time_ok_suspended [simp]: "time_ok T (k\<lparr>uxSchedulerSuspended := n\<rparr>) = time_ok T k"
  by (simp add: time_ok_def waiting_ok_def delays_ok_def by_value_def)

lemma suspend_all_fields [simp]:
  "time_ok T (vTaskSuspendAll k) = time_ok T k" "xTickCount (vTaskSuspendAll k) = xTickCount k"
  "pxCurrentTCB (vTaskSuspendAll k) = pxCurrentTCB k" "container (vTaskSuspendAll k) = container k"
  "uxSchedulerSuspended (vTaskSuspendAll k) = uxSchedulerSuspended k + 1" "uxPriority (vTaskSuspendAll k) = uxPriority k"
  "xPendedTicks (vTaskSuspendAll k) = xPendedTicks k" "uxCurrentNumberOfTasks (vTaskSuspendAll k) = uxCurrentNumberOfTasks k"
  by (simp_all add: vTaskSuspendAll_def)

text \<open>The current task blocks and the scheduler resumes.\<close>

definition current_ready :: "kernel \<Rightarrow> bool" where
  "current_ready k \<longleftrightarrow> container k (StateItem (pxCurrentTCB k)) = Some (ReadyList (uxPriority k (pxCurrentTCB k)))"

lemma time_ok_about: "time_ok T k \<Longrightarrow> current_ready k \<Longrightarrow> about_to_block T (vTaskSuspendAll k)"
  by (simp add: time_ok_def about_to_block_def current_ready_def waiting_ok_def delays_ok_def by_value_def vTaskSuspendAll_def)

lemma pended_kept:
  "prvAddCurrentTaskToDelayedList ticks can k = Some k' \<Longrightarrow> xPendedTicks k' = xPendedTicks k"
  by (auto simp: prvAddCurrentTaskToDelayedList_def list_remove_def Let_def set_item_value_def bind_eq_Some_conv split: if_splits)

lemma block_and_resume:
  assumes "time_ok T k" and "current_ready k" and "uxSchedulerSuspended k = 0" and "0 < uxCurrentNumberOfTasks k"
    and "0 < ticks" and "ticks \<noteq> portMAX_DELAY \<or> \<not> can"
  shows "\<exists>k1 y k2. prvAddCurrentTaskToDelayedList ticks can (vTaskSuspendAll k) = Some k1 \<and> xTaskResumeAll k1 = Some (y, k2)
    \<and> time_ok (T + unat (xPendedTicks k)) k2 \<and> (y \<longrightarrow> pendsv k2) \<and> uxSchedulerSuspended k2 = 0 \<and> pxCurrentTCB k2 = pxCurrentTCB k
    \<and> (if unat ticks \<le> unat (xPendedTicks k) then container k2 (StateItem (pxCurrentTCB k)) = Some (ReadyList (uxPriority k (pxCurrentTCB k)))
       else due (T + unat (xPendedTicks k)) k2 (pxCurrentTCB k) = Some (T + unat ticks))"
proof -
  let ?k = "vTaskSuspendAll k"
  obtain k1 where k1: "prvAddCurrentTaskToDelayedList ticks can ?k = Some k1" "blocked_until T (Some (unat ticks)) ?k k1"
    using add_to_delayed_list [OF time_ok_about [OF assms(1,2)] assms(5), of can] assms(6) by auto
  have b: "time_ok T k1" "due T k1 (pxCurrentTCB k) = Some (T + unat ticks)" "uxSchedulerSuspended k1 = 1"
    "pxCurrentTCB k1 = pxCurrentTCB k" "uxPriority k1 = uxPriority k" "0 < uxCurrentNumberOfTasks k1"
    "container k1 (EventItem (pxCurrentTCB k)) = container k (EventItem (pxCurrentTCB k))" "xPendedTicks k1 = xPendedTicks k"
    using k1(2) assms(3,4) pended_kept [OF k1(1)] by (simp_all add: blocked_until_def)
  have "container k (EventItem (pxCurrentTCB k)) = None"
    using assms(2) time_okD(2) [OF assms(1)] by (auto simp: waiting_ok_def current_ready_def)
  then have "container k1 (EventItem (pxCurrentTCB k)) \<noteq> Some PendingReadyList" using b by simp
  then obtain y k2 where "xTaskResumeAll k1 = Some (y, k2)" "uxSchedulerSuspended k2 = 0" "time_ok (T + unat (xPendedTicks k1)) k2"
    "y \<longrightarrow> pendsv k2" "pxCurrentTCB k2 = pxCurrentTCB k1"
    "if T + unat ticks \<le> T + unat (xPendedTicks k1) then container k2 (StateItem (pxCurrentTCB k)) = Some (ReadyList (uxPriority k1 (pxCurrentTCB k)))
     else due (T + unat (xPendedTicks k1)) k2 (pxCurrentTCB k) = Some (T + unat ticks)"
    using resume_effect [OF b(1,3,6)] b(2) by blast
  then show ?thesis
    using k1(1) b by (intro exI [of _ k1] exI [of _ y] exI [of _ k2]) (simp cong: if_cong)
qed

text \<open>
  C24: a periodic task does not drift. When \<open>xTaskDelayUntil\<close> is called with the previous wake time
  \<open>P\<close>, at a time \<open>T\<close> less than one wrap-around of the tick count later, it delays the task
  exactly if \<open>P\<close> plus the increment is still to come, and then the task is due at that very
  time, however late the call was; the wake time it stores is the same in every case. It never
  fails, also across the wrap-around, and always asks for a context switch.
\<close>
theorem delay_until_does_not_drift:
  assumes "time_ok T k" and "current_ready k" and "uxSchedulerSuspended k = 0" and "0 < uxCurrentNumberOfTasks k"
    and "unat previous = P mod 2 ^ 64" and "P \<le> T" and "T < P + 2 ^ 64" and "0 < increment"
  shows "\<exists>k'. xTaskDelayUntil previous increment k = Some (T < P + unat increment, previous + increment, k') \<and> pendsv k'
    \<and> time_ok (T + unat (xPendedTicks k)) k' \<and> unat (previous + increment) = (P + unat increment) mod 2 ^ 64
    \<and> (T < P + unat increment \<longrightarrow>
         (if P + unat increment \<le> T + unat (xPendedTicks k)
          then container k' (StateItem (pxCurrentTCB k)) = Some (ReadyList (uxPriority k (pxCurrentTCB k)))
          else due (T + unat (xPendedTicks k)) k' (pxCurrentTCB k) = Some (P + unat increment)))"
proof -
  let ?now = "xTickCount k" and ?n = "unat (xPendedTicks k)"
  have tk: "unat ?now = T mod 2 ^ 64" by (rule time_okD [OF assms(1)])
  have el: "unat (?now - previous) = T - P" by (rule elapsed_since [OF assms(5) tk assms(6,7)])
  have sd: "should_delay previous increment ?now \<longleftrightarrow> T < P + unat increment"
    using el assms(6) by (auto simp: should_delay_iff word_less_nat_alt)
  have wk: "unat (previous + increment) = (P + unat increment) mod 2 ^ 64"
    using assms(5) by (simp add: unat_word_ariths mod_simps)
  show ?thesis
  proof (cases "T < P + unat increment")
    case True
    have w: "unat (previous + increment - ?now) = P + unat increment - T"
      using sd True el assms(6) unfolding wake_after by (auto simp: should_delay_iff unat_sub_if' word_less_nat_alt)
    then have "0 < previous + increment - ?now" using True by (simp add: word_less_nat_alt)
    from block_and_resume [OF assms(1-4) this, of False] obtain k1 y k2 where
      "prvAddCurrentTaskToDelayedList (previous + increment - ?now) False (vTaskSuspendAll k) = Some k1"
      "xTaskResumeAll k1 = Some (y, k2)" "time_ok (T + ?n) k2" "y \<longrightarrow> pendsv k2"
      "if P + unat increment - T \<le> ?n then container k2 (StateItem (pxCurrentTCB k)) = Some (ReadyList (uxPriority k (pxCurrentTCB k)))
       else due (T + ?n) k2 (pxCurrentTCB k) = Some (T + (P + unat increment - T))"
      unfolding w by blast
    then show ?thesis
      using True assms(3,8) sd wk
      by (intro exI [of _ "if y then k2 else portYIELD k2"]) (auto simp: xTaskDelayUntil_def Let_def split: if_splits)
  next
    case False
    have t: "time_ok T (vTaskSuspendAll k)" "uxSchedulerSuspended (vTaskSuspendAll k) = 1"
      "0 < uxCurrentNumberOfTasks (vTaskSuspendAll k)" using assms(1,3,4) by simp_all
    from resume_effect [OF this] obtain y k2 where "xTaskResumeAll (vTaskSuspendAll k) = Some (y, k2)"
      "time_ok (T + ?n) k2" "y \<longrightarrow> pendsv k2" by auto
    then show ?thesis
      using False assms(3,8) sd wk
      by (intro exI [of _ "if y then k2 else portYIELD k2"]) (auto simp: xTaskDelayUntil_def Let_def split: if_splits)
  qed
qed

lemma delay_until_does_not_drift_witness:
  "\<exists>k'. xTaskDelayUntil 95 10 sample_kernel = Some (True, 105, k') \<and> due 99 k' 1 = Some 105"
proof -
  have "current_ready sample_kernel" "0 < uxCurrentNumberOfTasks sample_kernel" "xPendedTicks sample_kernel = 0"
    by (simp_all add: sample_kernel_def current_ready_def)
  then show ?thesis
    using delay_until_does_not_drift [of 99 sample_kernel 95 95 10] sample_kernel_time by fastforce
qed

end
