(* ===== verification/Rtos_Notify_Safe.thy ===== *)
theory Rtos_Notify_Safe
  imports Rtos_Life_Safe
begin

text \<open>
  Correctness of notifications: an interrupt that notifies a task at any point of its wait, before
  or after the task has gone to sleep, ends the wait, whether it finds the scheduler running or
  suspended. The locale \<open>notifier\<close> has what the interrupt does besides as a parameter.
\<close>

section \<open>Waiting\<close>

lemma set_notified_fields [simp]:
  "kern (set_notified t st v s) = kern s" "no_current (set_notified t st v s) = no_current s"
  "ucNotifyState (set_notified t st v s) = (ucNotifyState s)(t := st)"
  "ulNotifiedValue (set_notified t st v s) = (ulNotifiedValue s)(t := v)"
  "xSchedulerRunning (set_notified t st v s) = xSchedulerRunning s"
  by (simp_all add: set_notified_def)

lemma current_ready_kernel:
  assumes "time_ok T k" and "current_ready k"
  shows "container k (EventItem (pxCurrentTCB k)) = None" and "due T k (pxCurrentTCB k) = None"
  using time_okD(1,2) [OF assms(1)] assms(2) delayed_not_ready [of k, symmetric]
  by (auto simp: waiting_ok_def current_ready_def due_def)

text \<open>Resuming with nothing pending for the current task leaves it ready.\<close>

lemma resume_current:
  assumes "time_ok T k" and "current_ready k" and "uxSchedulerSuspended k = 0" and "0 < uxCurrentNumberOfTasks k"
  shows "\<exists>y k'. xTaskResumeAll (vTaskSuspendAll k) = Some (y, k') \<and> time_ok (T + unat (xPendedTicks k)) k' \<and> current_ready k'
    \<and> pxCurrentTCB k' = pxCurrentTCB k \<and> uxPriority k' = uxPriority k \<and> uxSchedulerSuspended k' = 0"
proof -
  let ?k = "vTaskSuspendAll k"
  have "time_ok T ?k" "uxSchedulerSuspended ?k = 1" "0 < uxCurrentNumberOfTasks ?k" using assms(1,3,4) by simp_all
  note r = resume_effect [OF this]
  have "container ?k (EventItem (pxCurrentTCB k)) \<noteq> Some PendingReadyList" "due T ?k (pxCurrentTCB k) = None"
    using current_ready_kernel [OF assms(1,2)] due_cong [of ?k "pxCurrentTCB k" k T] by (simp_all add: vTaskSuspendAll_def)
  then obtain y k' where "xTaskResumeAll ?k = Some (y, k')" "time_ok (T + unat (xPendedTicks ?k)) k'" "uxSchedulerSuspended k' = 0"
    "container k' (StateItem (pxCurrentTCB k)) = container ?k (StateItem (pxCurrentTCB k))" "pxCurrentTCB k' = pxCurrentTCB ?k"
    "uxPriority k' = uxPriority ?k" using r by blast
  then show ?thesis using assms(2) by (intro exI [of _ y] exI [of _ k']) (simp add: current_ready_def)
qed

lemma about_pending:
  assumes "time_ok T k" and "current_ready k"
  shows "about_to_block T (list_insert_end PendingReadyList (EventItem (pxCurrentTCB k)) k)" (is "about_to_block T ?k")
proof -
  let ?c = "EventItem (pxCurrentTCB k)"
  have ok: "kernel_ok k" and w: "waiting_ok k" and d: "delays_ok k" by (rule time_okD [OF assms(1)])+
  have "kernel_ok ?k"
    by (rule kernel_ok_attach [OF ok, of ?c PendingReadyList]) (use current_ready_kernel [OF assms] in auto)
  moreover have "pxDelayedTaskList k \<noteq> PendingReadyList" "pxOverflowDelayedTaskList k \<noteq> PendingReadyList"
    using delayed_list_kinds [OF ok, of PendingReadyList] by auto
  then have "delays_ok ?k"
    using d by (simp add: delays_ok_def by_value_def)
  ultimately show ?thesis
    using w assms(2) time_okD(4) [OF assms(1)] by (auto simp: about_to_block_def waiting_ok_def current_ready_def)
qed

section \<open>The task that runs\<close>

definition runs_task :: "nat \<Rightarrow> kernel \<Rightarrow> bool" where
  "runs_task c k \<longleftrightarrow> (\<exists>T. time_ok T k) \<and> current_ready k \<and> uxSchedulerSuspended k = 0
     \<and> 0 < uxCurrentNumberOfTasks k \<and> pxCurrentTCB k = c"

lemma running_yield [simp]: "runs_task c (portYIELD k) = runs_task c k"
  by (simp add: runs_task_def current_ready_def) (simp add: portYIELD_def)

lemma running_resume:
  assumes "runs_task c k"
  shows "\<exists>y k'. xTaskResumeAll (vTaskSuspendAll k) = Some (y, k') \<and> runs_task c k'"
proof -
  obtain T where T: "time_ok T k" using assms by (auto simp: runs_task_def)
  let ?k = "vTaskSuspendAll k"
  have s: "time_ok T ?k" "uxSchedulerSuspended ?k = 1" "0 < uxCurrentNumberOfTasks ?k" using T assms by (simp_all add: runs_task_def)
  obtain y k' where "xTaskResumeAll ?k = Some (y, k')" "uxCurrentNumberOfTasks k' = uxCurrentNumberOfTasks ?k"
    using resume_effect [OF s] by blast
  moreover obtain y2 k2 where "xTaskResumeAll ?k = Some (y2, k2)" "time_ok (T + unat (xPendedTicks k)) k2" "current_ready k2"
    "pxCurrentTCB k2 = pxCurrentTCB k" "uxSchedulerSuspended k2 = 0"
    using resume_current [OF T] assms unfolding runs_task_def by metis
  ultimately show ?thesis using assms by (auto simp: runs_task_def)
qed

text \<open>Blocking when an interrupt has already put the task into the pending list.\<close>

lemma running_pended:
  assumes "runs_task c k" and "0 < ticks"
  shows "\<exists>k1 y k2. prvAddCurrentTaskToDelayedList ticks True (list_insert_end PendingReadyList (EventItem c) (vTaskSuspendAll k)) = Some k1
    \<and> xTaskResumeAll k1 = Some (y, k2) \<and> runs_task c k2"
proof -
  obtain T where T: "time_ok T k" using assms by (auto simp: runs_task_def)
  let ?p = "list_insert_end PendingReadyList (EventItem c) (vTaskSuspendAll k)"
  have r: "time_ok T (vTaskSuspendAll k)" "current_ready (vTaskSuspendAll k)" "pxCurrentTCB (vTaskSuspendAll k) = c"
    using T assms by (auto simp: runs_task_def current_ready_def)
  obtain k1 n where k1: "prvAddCurrentTaskToDelayedList ticks True ?p = Some k1" "blocked_until T n ?p k1"
    using add_to_delayed_list [OF about_pending [OF r(1,2), unfolded r(3)] assms(2)] by blast
  have b: "time_ok T k1" "uxSchedulerSuspended k1 = 1" "0 < uxCurrentNumberOfTasks k1" "pxCurrentTCB k1 = c"
    "container k1 (EventItem c) = Some PendingReadyList"
    using k1(2) assms(1) by (simp_all add: blocked_until_def runs_task_def)
  obtain y k2 where k2: "xTaskResumeAll k1 = Some (y, k2)" "uxSchedulerSuspended k2 = 0" "time_ok (T + unat (xPendedTicks k1)) k2"
    "container k2 (StateItem c) = Some (ReadyList (uxPriority k1 c))" "pxCurrentTCB k2 = pxCurrentTCB k1" "uxPriority k2 = uxPriority k1"
    "uxCurrentNumberOfTasks k2 = uxCurrentNumberOfTasks k1"
    using resume_effect [OF b(1-3)] b(5) by blast
  then have "runs_task c k2" using b by (auto simp: runs_task_def current_ready_def)
  then show ?thesis using k1(1) k2(1) by blast
qed

section \<open>The task that sleeps\<close>

text \<open>A task off the ready lists, in no event list.\<close>

definition sleeping :: "nat \<Rightarrow> kernel \<Rightarrow> bool" where
  "sleeping c k \<longleftrightarrow> (\<exists>T. time_ok T k) \<and> container k (StateItem c) \<in> Some ` {DelayedTaskList1, DelayedTaskList2, SuspendedTaskList}
     \<and> container k (EventItem c) = None \<and> 0 < uxCurrentNumberOfTasks k"

text \<open>
  A task that was made ready: it is in its ready list or, as long as the scheduler is suspended, in
  the list of those that will be, and a switch is to follow if it is more urgent than the current task.
\<close>

definition roused :: "nat \<Rightarrow> kernel \<Rightarrow> bool" where
  "roused c k \<longleftrightarrow> (\<exists>T. time_ok T k) \<and> 0 < uxCurrentNumberOfTasks k
     \<and> (if uxSchedulerSuspended k = 0 then container k (StateItem c) = Some (ReadyList (uxPriority k c))
        else container k (EventItem c) = Some PendingReadyList)
     \<and> (uxPriority k (pxCurrentTCB k) < uxPriority k c \<longrightarrow> xYieldPending k)"

lemma runs_task_roused: "runs_task c k \<Longrightarrow> roused c k"
  by (auto simp: runs_task_def roused_def current_ready_def)

lemma sleeping_yield [simp]: "sleeping c (portYIELD k) = sleeping c k"
  by (simp add: sleeping_def) (simp add: portYIELD_def)

lemma sleeping_more [simp]: "sleeping c (k\<lparr>pxCurrentTCB := t\<rparr>) = sleeping c k" "sleeping c (k\<lparr>xYieldPending := b\<rparr>) = sleeping c k"
  by (simp_all add: sleeping_def time_ok_def waiting_ok_def delays_ok_def by_value_def)

text \<open>Blocking with nothing pending: the task sleeps.\<close>

lemma running_sleeps:
  assumes "runs_task c k" and "0 < ticks" and "xPendedTicks k = 0"
  shows "\<exists>k1 y k2. prvAddCurrentTaskToDelayedList ticks True (vTaskSuspendAll k) = Some k1 \<and> xTaskResumeAll k1 = Some (y, k2) \<and> sleeping c k2"
proof -
  obtain T where T: "time_ok T k" "current_ready k" "pxCurrentTCB k = c" using assms(1) by (auto simp: runs_task_def)
  let ?k = "vTaskSuspendAll k" and ?n = "if ticks = portMAX_DELAY \<and> True then None else Some (unat ticks)"
  have c: "pxCurrentTCB ?k = c" using T(3) by (simp add: vTaskSuspendAll_def)
  obtain k1 where k1: "prvAddCurrentTaskToDelayedList ticks True ?k = Some k1" "blocked_until T ?n ?k k1"
    using add_to_delayed_list [OF time_ok_about [OF T(1,2)] assms(2)] by blast
  have b: "time_ok T k1" "uxSchedulerSuspended k1 = 1" "0 < uxCurrentNumberOfTasks k1" "due T k1 c = map_option (\<lambda>n. T + n) ?n"
    "?n = None \<longrightarrow> container k1 (StateItem c) = Some SuspendedTaskList" "container k1 (EventItem c) = None"
    using k1(2) assms(1) c current_ready_kernel(1) [OF T(1,2)] T(3) by (simp_all add: blocked_until_def runs_task_def vTaskSuspendAll_def)
  have p: "xPendedTicks k1 = 0" using pended_kept [OF k1(1)] assms(3) by (simp add: vTaskSuspendAll_def)
  have np: "container k1 (EventItem c) \<noteq> Some PendingReadyList" using b(6) by simp
  obtain y k2 where k2: "xTaskResumeAll k1 = Some (y, k2)" "time_ok T k2" "uxCurrentNumberOfTasks k2 = uxCurrentNumberOfTasks k1"
    "\<forall>t d. container k1 (EventItem t) \<noteq> Some PendingReadyList \<longrightarrow> due T k1 t = Some d \<longrightarrow>
      (if d \<le> T then container k2 (StateItem t) = Some (ReadyList (uxPriority k1 t)) else due T k2 t = Some d)"
    "\<forall>t l. container k2 (EventItem t) = Some l \<longrightarrow> container k1 (EventItem t) = Some l"
    "\<forall>t. container k1 (EventItem t) \<noteq> Some PendingReadyList \<longrightarrow> due T k1 t = None \<longrightarrow> container k2 (StateItem t) = container k1 (StateItem t)"
    using resume_effect [OF b(1-3), unfolded p unsigned_0 add_0_right] by blast
  have "container k2 (EventItem c) = None" using k2(5) b(6) by (cases "container k2 (EventItem c)") auto
  moreover have "container k2 (StateItem c) \<in> Some ` {DelayedTaskList1, DelayedTaskList2, SuspendedTaskList}"
  proof (cases ?n)
    case None
    then show ?thesis using k2(6) np b(4,5) by auto
  next
    case (Some n)
    then have n: "n = unat ticks" by (simp split: if_splits)
    have "0 < unat ticks" using assms(2) by (simp add: word_gt_0 unat_gt_0)
    then have "due T k2 c = Some (T + n)" using k2(4) np b(4) Some n by auto
    then show ?thesis using delayed_list_kinds [OF time_okD(1) [OF k2(2)]] by (auto simp: due_def split: if_splits)
  qed
  ultimately have "sleeping c k2" using k2(2,3) b(3) by (auto simp: sleeping_def)
  then show ?thesis using k1(1) k2(1) by blast
qed

text \<open>The interrupt finds it asleep, with the scheduler running or suspended.\<close>

lemma wake_sleeping:
  assumes "sleeping c (kern s)" and "\<not> no_current s"
  shows "\<exists>w k. notify_wake_from_ISR c s = Some (w, s\<lparr>kern := k\<rparr>) \<and> roused c k"
proof -
  let ?k = "kern s"
  obtain T where T: "time_ok T ?k" using assms(1) by (auto simp: sleeping_def)
  have e: "container ?k (EventItem c) = None" and st: "container ?k (StateItem c) \<noteq> None" using assms(1) by (auto simp: sleeping_def)
  show ?thesis
  proof (cases "uxSchedulerSuspended ?k = 0")
    case True
    let ?r = "prvAddTaskToReadyList c (detach_if (StateItem c) ?k)"
    have "time_ok T ?r" by (rule resume_ready [OF T e])
    moreover have "uxCurrentNumberOfTasks ?r = uxCurrentNumberOfTasks ?k"
      by (simp add: prvAddTaskToReadyList_def Let_def list_insert_end_def)
    ultimately have "roused c (if uxPriority ?k (pxCurrentTCB ?k) < uxPriority ?k c then ?r\<lparr>xYieldPending := True\<rparr> else ?r)"
      using True assms(1) by (auto simp: roused_def sleeping_def)
    then show ?thesis using True e st assms(2) by (auto simp: notify_wake_from_ISR_def list_remove_detach_if)
  next
    case False
    let ?p = "list_insert_end PendingReadyList (EventItem c) ?k"
    have ok: "kernel_ok ?k" and w: "waiting_ok ?k" and d: "delays_ok ?k" by (rule time_okD [OF T])+
    have "kernel_ok ?p" by (rule kernel_ok_attach [OF ok e, of PendingReadyList]) simp_all
    moreover have "waiting_ok ?p" using w assms(1) by (auto simp: waiting_ok_def sleeping_def)
    moreover have "pxDelayedTaskList ?k \<noteq> PendingReadyList" "pxOverflowDelayedTaskList ?k \<noteq> PendingReadyList"
      using delayed_list_kinds [OF ok, of PendingReadyList] by auto
    then have "delays_ok ?p" using d by (simp add: delays_ok_def by_value_def)
    ultimately have "time_ok T ?p" using time_okD(4) [OF T] by (simp add: time_ok_def)
    moreover have "uxCurrentNumberOfTasks ?p = uxCurrentNumberOfTasks ?k" by (simp add: list_insert_end_def)
    ultimately have "roused c (if uxPriority ?k (pxCurrentTCB ?k) < uxPriority ?k c then ?p\<lparr>xYieldPending := True\<rparr> else ?p)"
      using False assms(1) by (auto simp: roused_def sleeping_def)
    then show ?thesis using False e assms(2) by (auto simp: notify_wake_from_ISR_def)
  qed
qed

section \<open>An interrupt during a wait\<close>

text \<open>
  What happens at the points of a wait: the interrupt \<open>irq\<close> at point \<open>j\<close>. Point 3 is the time in which the
  task does not run; if the interrupt comes then, \<open>earlier\<close> and \<open>later\<close> are what runs before and after
  it, else all that runs is \<open>later\<close>.
\<close>

definition interrupt_at ::
  "nat \<Rightarrow> ('s \<Rightarrow> 's option) \<Rightarrow> ('s \<Rightarrow> 's option) \<Rightarrow> ('s \<Rightarrow> 's option) \<Rightarrow> nat \<Rightarrow> 's \<Rightarrow> 's option" where
  "interrupt_at j irq earlier later n =
     (if n = 3 then (if j = 3 then (\<lambda>s. do { s \<leftarrow> earlier s; s \<leftarrow> irq s; later s }) else later)
      else if n = j then irq else Some)"

definition asleep :: "nat \<Rightarrow> 'a task_state_scheme \<Rightarrow> bool" where
  "asleep c s \<longleftrightarrow> sleeping c (kern s) \<and> ucNotifyState s c = taskWAITING_NOTIFICATION \<and> \<not> no_current s"

definition notified :: "nat \<Rightarrow> 'a task_state_scheme \<Rightarrow> bool" where
  "notified c s \<longleftrightarrow> roused c (kern s) \<and> ucNotifyState s c = taskNOTIFICATION_RECEIVED"

lemma wake_other_fields:
  assumes "kern s' = kern s" and "no_current s' = no_current s"
  shows "notify_wake_from_ISR c s' = map_option (\<lambda>(w, x). (w, s'\<lparr>kern := kern x\<rparr>)) (notify_wake_from_ISR c s)"
  using assms by (cases "notify_wake_from_ISR c s") (auto simp: notify_wake_from_ISR_def bind_eq_Some_conv bind_eq_None_conv split: if_splits)

text \<open>
  Task \<open>c\<close> waits as long as \<open>waits\<close> holds. The interrupt notifies it, and changes the part \<open>obs\<close> of the
  state, which the scheduler does not touch, by \<open>R\<close>.
\<close>

locale notifier =
  fixes c :: nat and waits :: "'a task_state_scheme \<Rightarrow> bool" and irq :: "'a task_state_scheme \<Rightarrow> 'a task_state_scheme option"
    and ok :: "'a task_state_scheme \<Rightarrow> bool" and obs :: "'a task_state_scheme \<Rightarrow> 'b" and R :: "'b \<Rightarrow> 'b \<Rightarrow> bool"
  assumes irq: "ok s \<Longrightarrow> \<exists>s'. R (obs s) (obs s') \<and> kern s' = kern s \<and> ucNotifyState s' c = taskNOTIFICATION_RECEIVED
      \<and> (\<forall>k. pxCurrentTCB k = c \<longrightarrow> \<not> waits (s'\<lparr>kern := k\<rparr>))
      \<and> irq s = (if ucNotifyState s c = taskWAITING_NOTIFICATION
          then map_option (\<lambda>(w, x). s'\<lparr>kern := kern x\<rparr>) (notify_wake_from_ISR c s) else Some s')"
    and obs_kern: "obs (s\<lparr>kern := k\<rparr>) = obs s" and obs_state: "obs (s\<lparr>ucNotifyState := f\<rparr>) = obs s"
    and ok_obs: "ok s \<Longrightarrow> obs s' = obs s \<Longrightarrow> \<not> no_current s' \<Longrightarrow> ok s'" and ok_current: "ok s \<Longrightarrow> \<not> no_current s"
    and waits_kern: "pxCurrentTCB k = pxCurrentTCB (kern s) \<Longrightarrow> waits (s\<lparr>kern := k\<rparr>) = waits s"
begin

lemma ok_frame: "ok s \<Longrightarrow> ok (s\<lparr>kern := k\<rparr>)" "ok s \<Longrightarrow> ok (s\<lparr>ucNotifyState := f\<rparr>)"
  using ok_obs [of s "s\<lparr>kern := k\<rparr>"] ok_obs [of s "s\<lparr>ucNotifyState := f\<rparr>"] by (simp_all add: obs_kern obs_state ok_current)

lemma wait_unfold:
  "waits s \<Longrightarrow> 0 < ticks \<Longrightarrow> notify_block waits (\<lambda>s. s) ticks env s = do {
        s \<leftarrow> env 0 s;
        let s = s\<lparr>kern := vTaskSuspendAll (kern s)\<rparr>;
        s \<leftarrow> env 1 s;
        let block = waits s;
        let s = (if block then s\<lparr>ucNotifyState := (ucNotifyState s)(current s := taskWAITING_NOTIFICATION)\<rparr> else s);
        s \<leftarrow> env 2 s;
        s \<leftarrow> (if block then on_kernel (prvAddCurrentTaskToDelayedList ticks True) s else Some s);
        (yielded, k) \<leftarrow> xTaskResumeAll (kern s);
        env 3 (s\<lparr>kern := (if block \<and> \<not> yielded then portYIELD k else k)\<rparr>)
      }"
  by (simp add: notify_block_def Let_def cong: if_cong)

lemma not_yet_waiting:
  assumes "ok s" and "runs_task c (kern s)" and "ucNotifyState s c \<noteq> taskWAITING_NOTIFICATION" and "waits s" and "0 < ticks" and "j < 2"
  shows "\<exists>s3. notify_block waits (\<lambda>s. s) ticks (interrupt_at j irq earlier later) s = later s3
    \<and> runs_task c (kern s3) \<and> ucNotifyState s3 c = taskNOTIFICATION_RECEIVED \<and> R (obs s) (obs s3)"
proof -
  let ?s = "if j = 0 then s else s\<lparr>kern := vTaskSuspendAll (kern s)\<rparr>"
  have c: "pxCurrentTCB (kern s) = c" "pxCurrentTCB (vTaskSuspendAll (kern s)) = c" using assms(2) by (simp_all add: runs_task_def)
  obtain y k where k: "xTaskResumeAll (vTaskSuspendAll (kern s)) = Some (y, k)" "runs_task c k" using running_resume [OF assms(2)] by blast
  have "ok ?s" "obs ?s = obs s" "ucNotifyState ?s = ucNotifyState s" using ok_frame(1) [OF assms(1)] assms(1) obs_kern by simp_all
  then obtain s' where s': "R (obs s) (obs s')" "kern s' = kern ?s" "ucNotifyState s' c = taskNOTIFICATION_RECEIVED"
    "\<forall>k. pxCurrentTCB k = c \<longrightarrow> \<not> waits (s'\<lparr>kern := k\<rparr>)" "irq ?s = Some s'"
    using irq [of ?s] assms(3) by auto
  then have w: "\<not> waits (s'\<lparr>kern := vTaskSuspendAll (kern s)\<rparr>)" "\<not> waits s'"
    using c waits_kern [of "kern s'" s'] spec [OF s'(4), of "kern s'"] by auto
  have "j = 0 \<or> j = 1" using assms(6) by auto
  then have "notify_block waits (\<lambda>s. s) ticks (interrupt_at j irq earlier later) s = later (s'\<lparr>kern := k\<rparr>)"
    unfolding wait_unfold [OF assms(4,5)] using k(1) s'(2,5) w by (auto simp: interrupt_at_def Let_def)
  then show ?thesis using k(2) s'(1,3) by (intro exI [of _ "s'\<lparr>kern := k\<rparr>"]) (simp add: obs_kern)
qed

lemma while_waiting:
  assumes "ok s" and "runs_task c (kern s)" and "waits s" and "0 < ticks"
  shows "\<exists>s3. notify_block waits (\<lambda>s. s) ticks (interrupt_at 2 irq earlier later) s = later s3
    \<and> runs_task c (kern s3) \<and> ucNotifyState s3 c = taskNOTIFICATION_RECEIVED \<and> R (obs s) (obs s3)"
proof -
  obtain T where T: "time_ok T (kern s)" "current_ready (kern s)" "uxSchedulerSuspended (kern s) = 0" "pxCurrentTCB (kern s) = c"
    using assms(2) by (auto simp: runs_task_def)
  let ?k = "vTaskSuspendAll (kern s)"
  have c: "pxCurrentTCB ?k = c" using T(4) by simp
  let ?s = "s\<lparr>kern := ?k, ucNotifyState := (ucNotifyState s)(c := taskWAITING_NOTIFICATION)\<rparr>"
  let ?p = "list_insert_end PendingReadyList (EventItem c) ?k"
  obtain k1 y k2 where k: "prvAddCurrentTaskToDelayedList ticks True ?p = Some k1" "xTaskResumeAll k1 = Some (y, k2)" "runs_task c k2"
    using running_pended [OF assms(2,4)] by blast
  have "ok ?s" "obs ?s = obs s" using ok_frame [OF assms(1)] ok_frame(2) [OF ok_frame(1) [OF assms(1)]] obs_kern obs_state by simp_all
  moreover have e: "container ?k (EventItem c) = None" using current_ready_kernel(1) [OF T(1,2)] T(4) by (simp add: vTaskSuspendAll_def)
  then have "notify_wake_from_ISR c ?s = Some (False, ?s\<lparr>kern := ?p\<rparr>)"
    using T(3) c ok_current [OF assms(1)] by (simp add: notify_wake_from_ISR_def)
  ultimately obtain s' where s': "R (obs s) (obs s')" "ucNotifyState s' c = taskNOTIFICATION_RECEIVED" "irq ?s = Some (s'\<lparr>kern := ?p\<rparr>)"
    using irq [of ?s] by auto
  have "notify_block waits (\<lambda>s. s) ticks (interrupt_at 2 irq earlier later) s = later (s'\<lparr>kern := if y then k2 else portYIELD k2\<rparr>)"
    unfolding wait_unfold [OF assms(3,4)] using k(1,2) s'(3) assms(3) waits_kern [of ?k s] c T(4)
    by (auto simp: interrupt_at_def Let_def on_kernel_def)
  then show ?thesis
    using k(3) s'(1,2) by (intro exI [of _ "s'\<lparr>kern := if y then k2 else portYIELD k2\<rparr>"]) (simp add: obs_kern)
qed

lemma while_asleep:
  assumes "ok s" and "runs_task c (kern s)" and "waits s" and "0 < ticks" and "xPendedTicks (kern s) = 0"
    and earlier: "\<And>x. asleep c x \<Longrightarrow> \<exists>y. earlier x = Some y \<and> asleep c y \<and> obs y = obs x"
  shows "\<exists>s3. notify_block waits (\<lambda>s. s) ticks (interrupt_at 3 irq earlier later) s = later s3
    \<and> notified c s3 \<and> R (obs s) (obs s3)"
proof -
  let ?k = "vTaskSuspendAll (kern s)"
  have c: "pxCurrentTCB (kern s) = c" "pxCurrentTCB ?k = c" using assms(2) by (simp_all add: runs_task_def)
  obtain k1 y k2 where k: "prvAddCurrentTaskToDelayedList ticks True ?k = Some k1" "xTaskResumeAll k1 = Some (y, k2)" "sleeping c k2"
    using running_sleeps [OF assms(2,4,5)] by blast
  let ?k2 = "if y then k2 else portYIELD k2"
  let ?s = "s\<lparr>ucNotifyState := (ucNotifyState s)(c := taskWAITING_NOTIFICATION), kern := ?k2\<rparr>"
  have "asleep c ?s" using k(3) ok_current [OF assms(1)] by (simp add: asleep_def)
  then obtain x where x: "earlier ?s = Some x" "asleep c x" "obs x = obs s" using earlier [of ?s] obs_kern obs_state by auto
  obtain w kx where w: "notify_wake_from_ISR c x = Some (w, x\<lparr>kern := kx\<rparr>)" "roused c kx"
    using wake_sleeping [of c x] x(2) by (auto simp: asleep_def)
  have "ok x" using ok_obs [OF assms(1) x(3)] x(2) by (simp add: asleep_def)
  then obtain s' where s': "R (obs s) (obs s')" "ucNotifyState s' c = taskNOTIFICATION_RECEIVED" "irq x = Some (s'\<lparr>kern := kx\<rparr>)"
    using irq [of x] x(2,3) w(1) by (auto simp: asleep_def)
  have "notify_block waits (\<lambda>s. s) ticks (interrupt_at 3 irq earlier later) s = later (s'\<lparr>kern := kx\<rparr>)"
    unfolding wait_unfold [OF assms(3,4)] using k(1,2) x(1) s'(3) assms(3) waits_kern [of ?k s] c
    by (auto simp: interrupt_at_def Let_def on_kernel_def)
  then show ?thesis using w(2) s'(1,2) by (intro exI [of _ "s'\<lparr>kern := kx\<rparr>"]) (simp add: obs_kern notified_def)
qed

text \<open>At any point: what runs after the interrupt starts with the task made ready.\<close>

lemma wait_ends:
  assumes "ok s" and "runs_task c (kern s)" and "ucNotifyState s c \<noteq> taskWAITING_NOTIFICATION" and "waits s" and "0 < ticks" and "j \<le> 3"
    and "j = 3 \<Longrightarrow> xPendedTicks (kern s) = 0"
    and "\<And>x. j = 3 \<Longrightarrow> asleep c x \<Longrightarrow> \<exists>y. earlier x = Some y \<and> asleep c y \<and> obs y = obs x"
  shows "\<exists>s3. notify_block waits (\<lambda>s. s) ticks (interrupt_at j irq earlier later) s = later s3
    \<and> notified c s3 \<and> (j < 3 \<longrightarrow> runs_task c (kern s3)) \<and> R (obs s) (obs s3)"
proof -
  consider "j < 2" | "j = 2" | "j = 3" using assms(6) by linarith
  then show ?thesis
  proof cases
    case 1
    then show ?thesis using not_yet_waiting [OF assms(1-5), of j earlier later] by (auto simp: notified_def runs_task_roused)
  next
    case 2
    then show ?thesis using while_waiting [OF assms(1,2,4,5), of earlier later] by (auto simp: notified_def runs_task_roused)
  next
    case 3
    then show ?thesis using while_asleep [OF assms(1,2,4,5), of earlier later] assms(7,8) by auto
  qed
qed

end

section \<open>Waiting for a count\<close>

definition give :: "nat \<Rightarrow> 'a task_state_scheme \<Rightarrow> 'a task_state_scheme option" where
  "give c s = map_option snd (vTaskGenericNotifyGiveFromISR (Some c) 0 s)"

interpretation taking: notifier c "\<lambda>s. ulNotifiedValue s (current s) = 0" "give c" "\<lambda>s. ulNotifiedValue s c = 0 \<and> \<not> no_current s"
    "\<lambda>s. ulNotifiedValue s c" "\<lambda>v v'. v' = v + 1" for c
proof (unfold_locales, goal_cases)
  case (1 s)
  let ?s = "set_notified c taskNOTIFICATION_RECEIVED (ulNotifiedValue s c + 1) s"
  have "notify_wake_from_ISR c ?s = map_option (\<lambda>(w, x). (w, ?s\<lparr>kern := kern x\<rparr>)) (notify_wake_from_ISR c s)"
    by (rule wake_other_fields) simp_all
  then show ?case using 1
    by (intro exI [of _ ?s]) (simp add: give_def vTaskGenericNotifyGiveFromISR_def Let_def option.map_comp o_def split_def)
qed simp_all

text \<open>
  C14: no notification is lost. When an interrupt notifies task \<open>c\<close> at any point of its
  \<open>ulTaskGenericNotifyTake\<close> (before the task announces that it waits, while it is still in its ready
  list with the scheduler suspended, or when it has gone to sleep, \<open>j = 3\<close>), what runs after that starts with
  \<open>c\<close> made ready: in its ready list or, if the interrupt found the scheduler suspended, in the list of
  tasks to be readied, and with a switch pending if it is more urgent. If that
  gives \<open>c\<close> the processor again, the call returns 1 and leaves no notification behind. While \<open>c\<close> sleeps, what runs
  before the interrupt (\<open>earlier\<close>) may do anything that leaves it asleep with its count.
\<close>
theorem notification_is_not_lost:
  assumes "runs_task c (kern s)" and "\<not> no_current s" and "ucNotifyState s c \<noteq> taskWAITING_NOTIFICATION"
    and "ulNotifiedValue s c = 0" and "0 < ticks" and "j \<le> 3" and "j = 3 \<Longrightarrow> xPendedTicks (kern s) = 0"
    and "\<And>x. j = 3 \<Longrightarrow> asleep c x \<Longrightarrow> \<exists>y. earlier x = Some y \<and> asleep c y \<and> ulNotifiedValue y c = ulNotifiedValue x c"
    and "\<And>x. notified c x \<Longrightarrow> \<exists>y. later x = Some y \<and> current y = c \<and> ulNotifiedValue y c = ulNotifiedValue x c"
  shows "\<exists>s'. ulTaskGenericNotifyTake 0 clear ticks (interrupt_at j (give c) earlier later) s = Some (1, s')
    \<and> current s' = c \<and> ulNotifiedValue s' c = 0 \<and> ucNotifyState s' c = taskNOT_WAITING_NOTIFICATION"
proof -
  have c: "current s = c" using assms(1) by (simp add: runs_task_def)
  have "ulNotifiedValue s (current s) = 0" "ulNotifiedValue s c = 0 \<and> \<not> no_current s" using assms(2,4) c by simp_all
  then obtain s3 where s3: "notify_block (\<lambda>s. ulNotifiedValue s (current s) = 0) (\<lambda>s. s) ticks (interrupt_at j (give c) earlier later) s = later s3"
    "notified c s3" "ulNotifiedValue s3 c = 1"
    using taking.wait_ends [OF _ assms(1,3) _ assms(5-8), of later] assms(4) by auto
  obtain y where y: "later s3 = Some y" "current y = c" "ulNotifiedValue y c = 1" using assms(9) [OF s3(2)] s3(3) by auto
  show ?thesis using s3(1) y by (simp add: ulTaskGenericNotifyTake_def take_finish_def Let_def)
qed

text \<open>
  A switch to another task while a task sleeps; and the way back: the scheduler resumes, if it was suspended,
  and the processor goes to a task that is ready.
\<close>

definition run_task :: "nat \<Rightarrow> 'a task_state_scheme \<Rightarrow> 'a task_state_scheme option" where
  "run_task t s = Some (s\<lparr>kern := (kern s)\<lparr>pxCurrentTCB := t\<rparr>\<rparr>)"

definition run_again :: "nat \<Rightarrow> 'a task_state_scheme \<Rightarrow> 'a task_state_scheme option" where
  "run_again c s = do {
     k \<leftarrow> (if uxSchedulerSuspended (kern s) = 0 then Some (kern s) else map_option snd (xTaskResumeAll ((kern s)\<lparr>uxSchedulerSuspended := 1\<rparr>)));
     if container k (StateItem c) = Some (ReadyList (uxPriority k c)) then run_task c (s\<lparr>kern := k\<rparr>) else None
   }"

lemma run_other: "asleep c s \<Longrightarrow> \<exists>k. run_task t s = Some (s\<lparr>kern := k\<rparr>) \<and> asleep c (s\<lparr>kern := k\<rparr>)"
  by (auto simp: run_task_def asleep_def)

lemma runs_taskI:
  assumes "time_ok T k" and "container k (StateItem c) = Some (ReadyList (uxPriority k c))" and "uxSchedulerSuspended k = 0"
    and "0 < uxCurrentNumberOfTasks k"
  shows "runs_task c (k\<lparr>pxCurrentTCB := c\<rparr>)"
  using assms by (auto simp: runs_task_def current_ready_def time_ok_def waiting_ok_def delays_ok_def by_value_def)

lemma run_again_runs:
  assumes "roused c (kern s)"
  shows "\<exists>k. run_again c s = Some (s\<lparr>kern := k\<rparr>) \<and> runs_task c k"
proof -
  obtain T where T: "time_ok T (kern s)" "0 < uxCurrentNumberOfTasks (kern s)" using assms by (auto simp: roused_def)
  show ?thesis
  proof (cases "uxSchedulerSuspended (kern s) = 0")
    case True
    then show ?thesis using assms runs_taskI [OF T(1) _ True T(2), of c] by (auto simp: run_again_def run_task_def roused_def)
  next
    case False
    let ?k = "(kern s)\<lparr>uxSchedulerSuspended := 1\<rparr>"
    have t: "time_ok T ?k" "uxSchedulerSuspended ?k = 1" "0 < uxCurrentNumberOfTasks ?k"
      using T by (simp_all add: time_ok_def waiting_ok_def delays_ok_def by_value_def)
    have p: "container ?k (EventItem c) = Some PendingReadyList" using assms False by (simp add: roused_def)
    obtain y k' where k': "xTaskResumeAll ?k = Some (y, k')" "uxSchedulerSuspended k' = 0" "time_ok (T + unat (xPendedTicks ?k)) k'"
      "container k' (StateItem c) = Some (ReadyList (uxPriority ?k c))" "uxCurrentNumberOfTasks k' = uxCurrentNumberOfTasks ?k"
      "uxPriority k' = uxPriority ?k" using resume_effect [OF t] p by blast
    have "runs_task c (k'\<lparr>pxCurrentTCB := c\<rparr>)" by (rule runs_taskI [OF k'(3)]) (use k' t(3) in simp_all)
    then show ?thesis using False k'(1,4,6)
      by (intro exI [of _ "k'\<lparr>pxCurrentTCB := c\<rparr>"]) (simp add: run_again_def run_task_def)
  qed
qed

lemma sample_running: "runs_task 1 sample_kernel"
  using sample_kernel_time by (auto simp: runs_task_def) (simp_all add: sample_kernel_def current_ready_def)

lemma notification_is_not_lost_witness:
  "\<exists>s'. ulTaskGenericNotifyTake 0 True 10 (interrupt_at 3 (give 1) (run_task 2) (run_again 1)) sample_tasks = Some (1, s')
    \<and> ulNotifiedValue s' 1 = 0"
proof -
  have "kern sample_tasks = sample_kernel" "ucNotifyState sample_tasks 1 = taskNOT_WAITING_NOTIFICATION" "\<not> no_current sample_tasks"
    "ulNotifiedValue sample_tasks 1 = 0" "xPendedTicks sample_kernel = 0"
    by (simp_all add: sample_kernel_def sample_tasks_def)
  moreover have "\<exists>y. run_task 2 x = Some y \<and> asleep 1 y \<and> ulNotifiedValue y 1 = ulNotifiedValue x 1"
    if "asleep 1 x" for x :: task_state using run_other [OF that, of 2] by auto
  moreover have "\<exists>y. run_again 1 x = Some y \<and> current y = 1 \<and> ulNotifiedValue y 1 = ulNotifiedValue x 1"
    if "notified 1 x" for x :: task_state using run_again_runs [of 1 x] that by (auto simp: notified_def runs_task_def)
  ultimately show ?thesis
    using notification_is_not_lost [of 1 sample_tasks 10 3 "run_task 2" "run_again 1" True] sample_running by auto
qed

end
