(* ===== verification/Rtos_Life_Inv.thy ===== *)
theory Rtos_Life_Inv
  imports Rtos_Notify_Safe
begin

text \<open>
  The system of tasks, ticks, interrupts and context switches as a step relation over the
  functions of \<open>tasks.c\<close>, and its invariant: after every step the running task is one of the most
  urgent ready tasks, or a context switch is pending; the scheduler's lists and times are
  consistent; the number of tasks is right; a task that waits for a notification can be woken.
\<close>

section \<open>Fields the scheduler's loops leave alone\<close>

definition quiet :: "kernel \<Rightarrow> kernel \<Rightarrow> bool" where
  "quiet k k' \<longleftrightarrow> uxBasePriority k' = uxBasePriority k \<and> uxPriority k' = uxPriority k \<and> (pendsv k \<longrightarrow> pendsv k')
     \<and> (\<forall>t. item_value k' (EventItem t) = item_value k (EventItem t))"

lemma quiet_refl [simp]: "quiet k k"
  by (simp add: quiet_def)

lemma quiet_trans: "quiet k k1 \<Longrightarrow> quiet k1 k2 \<Longrightarrow> quiet k k2"
  by (simp add: quiet_def)

lemma quiet_list_remove: "list_remove it k = Some k' \<Longrightarrow> quiet k k'"
  by (auto simp: list_remove_def quiet_def bind_eq_Some_conv)

lemma quiet_fields [simp]:
  "quiet k (k'\<lparr>xYieldPending := b\<rparr>) = quiet k k'" "quiet k (k'\<lparr>xNextTaskUnblockTime := v\<rparr>) = quiet k k'"
  "quiet k (k'\<lparr>xPendedTicks := v\<rparr>) = quiet k k'" "quiet k (k'\<lparr>uxSchedulerSuspended := n\<rparr>) = quiet k k'"
  "quiet k (k'\<lparr>xTickCount := v\<rparr>) = quiet k k'"
  "quiet k (prvAddTaskToReadyList t k') = quiet k k'" "quiet k (prvResetNextTaskUnblockTime k') = quiet k k'"
  "quiet k (list_insert_end l it k') = quiet k k'" "quiet k (list_insert l it k') = quiet k k'"
  "quiet k (set_item_value (StateItem t) v k') = quiet k k'" "quiet k k' \<Longrightarrow> quiet k (portYIELD k')"
  by (simp_all add: quiet_def prvAddTaskToReadyList_def list_insert_end_def list_insert_def prvResetNextTaskUnblockTime_def
      set_item_value_def portYIELD_def Let_def)

lemma quiet_fields_left [simp]:
  "quiet (k\<lparr>xTickCount := v\<rparr>) k' = quiet k k'" "quiet (k\<lparr>xYieldPending := b\<rparr>) k' = quiet k k'"
  "quiet (k\<lparr>uxSchedulerSuspended := n\<rparr>) k' = quiet k k'" "quiet (prvAddTaskToReadyList t k) k' = quiet k k'"
  "quiet (list_insert_end l it k) k' = quiet k k'" "quiet (vTaskSuspendAll k) k' = quiet k k'"
  by (simp_all add: quiet_def prvAddTaskToReadyList_def list_insert_end_def vTaskSuspendAll_def Let_def)

lemma quiet_wake_delayed:
  assumes "wake_delayed now sw k = Some r"
  shows "quiet k (snd r)"
proof (rule wake_delayed.raw_induct [where P = "\<lambda>now sw k r. quiet k (snd r)", OF _ assms], goal_cases)
  case (1 rec now sw k r)
  note rec = 1(1) and res = 1(2)
  show ?case
  proof (cases "head_entry (pxDelayedTaskList k) k")
    case None
    then show ?thesis using res by auto
  next
    case (Some it)
    show ?thesis
    proof (cases "now < item_value k (StateItem (owner it))")
      case True
      then show ?thesis using res Some by (auto simp: Let_def)
    next
      case False
      then obtain k1 k2 where k1: "list_remove (StateItem (owner it)) k = Some k1"
        and k2: "(if container k1 (EventItem (owner it)) \<noteq> None then list_remove (EventItem (owner it)) k1 else Some k1) = Some k2"
        and r: "rec now (sw \<or> uxPriority (prvAddTaskToReadyList (owner it) k2) (owner it)
          > uxPriority (prvAddTaskToReadyList (owner it) k2) (pxCurrentTCB (prvAddTaskToReadyList (owner it) k2)))
          (prvAddTaskToReadyList (owner it) k2) = Some r"
        using res Some by (auto simp: Let_def bind_eq_Some_conv simp del: add_ready_fields)
      have "quiet k k1" "quiet k1 k2"
        using quiet_list_remove [OF k1] k2 quiet_list_remove [of "EventItem (owner it)" k1 k2] by (auto split: if_splits)
      moreover have "quiet k2 (snd r)" using rec [OF r] by simp
      ultimately show ?thesis by (blast intro: quiet_trans)
    qed
  qed
qed

lemma quiet_tick: "xTaskIncrementTick k = Some (sw, k') \<Longrightarrow> quiet k k'"
  by (auto simp: xTaskIncrementTick_def Let_def bind_eq_Some_conv taskSWITCH_DELAYED_LISTS_def split: if_splits
      dest!: quiet_wake_delayed) (simp_all add: quiet_def prvResetNextTaskUnblockTime_def)

lemma quiet_pended: "pended_ticks n k = Some k' \<Longrightarrow> quiet k k'"
proof (induction n arbitrary: k)
  case (Suc n)
  then obtain sw k1 where k1: "xTaskIncrementTick k = Some (sw, k1)" "pended_ticks n (if sw then k1\<lparr>xYieldPending := True\<rparr> else k1) = Some k'"
    by (auto simp: bind_eq_Some_conv)
  from Suc.IH [OF k1(2)] quiet_tick [OF k1(1)] show ?case by (auto intro: quiet_trans split: if_splits)
qed simp

lemma quiet_move_pending:
  assumes "move_pending moved k = Some r"
  shows "quiet k (snd r)"
proof (rule move_pending.raw_induct [where P = "\<lambda>moved k r. quiet k (snd r)", OF _ assms], goal_cases)
  case (1 rec moved k r)
  note rec = 1(1) and res = 1(2)
  show ?case
  proof (cases "head_entry PendingReadyList k")
    case None
    then show ?thesis using res by auto
  next
    case (Some it)
    let ?a = "\<lambda>k. prvAddTaskToReadyList (owner it) k"
    let ?y = "\<lambda>k. if uxPriority k (owner it) > uxPriority k (pxCurrentTCB k) then k\<lparr>xYieldPending := True\<rparr> else k"
    obtain k1 k2 where k: "list_remove (EventItem (owner it)) k = Some k1" "list_remove (StateItem (owner it)) k1 = Some k2"
      and r: "rec True (?y (?a k2)) = Some r"
      using res Some by (auto simp: Let_def bind_eq_Some_conv simp del: add_ready_fields)
    have "quiet k2 (snd r)" using rec [OF r] by (auto split: if_splits)
    then show ?thesis using k quiet_list_remove by (blast intro: quiet_trans)
  qed
qed

lemma quiet_resume:
  assumes "xTaskResumeAll k = Some (y, k')"
  shows "quiet k k'"
proof (cases "uxSchedulerSuspended k = 1 \<and> uxCurrentNumberOfTasks k > 0")
  case True
  let ?r = "\<lambda>moved k. if moved then prvResetNextTaskUnblockTime k else k"
  let ?t = "\<lambda>k. if xPendedTicks k > 0 then do { k \<leftarrow> pended_ticks (unat (xPendedTicks k)) k; Some (k\<lparr>xPendedTicks := 0\<rparr>) } else Some k"
  obtain moved k1 where k1: "move_pending False (k\<lparr>uxSchedulerSuspended := 0\<rparr>) = Some (moved, k1)"
    using assms True by (cases "move_pending False (k\<lparr>uxSchedulerSuspended := 0\<rparr>)") (auto simp: xTaskResumeAll_def Let_def)
  then have "?t (?r moved k1) \<bind> (\<lambda>k. if xYieldPending k then Some (True, portYIELD k) else Some (False, k)) = Some (y, k')"
    using assms True by (simp add: xTaskResumeAll_def Let_def)
  then obtain k2 where k2: "?t (?r moved k1) = Some k2" and k': "k' = (if xYieldPending k2 then portYIELD k2 else k2)"
    unfolding bind_eq_Some_conv by (elim exE conjE) (simp split: if_splits)
  have "quiet k (?r moved k1)" using quiet_move_pending [OF k1] by auto
  moreover have "quiet (?r moved k1) k2"
    using k2 quiet_pended by (auto simp: bind_eq_Some_conv split: if_splits)
  moreover have "quiet k2 k'" using k' by simp
  ultimately show ?thesis by (blast intro: quiet_trans)
next
  case False
  then show ?thesis using assms by (auto simp: xTaskResumeAll_def Let_def split: if_splits)
qed

section \<open>The invariant\<close>

text \<open>The tasks that exist have their state item in a list.\<close>

definition live :: "kernel \<Rightarrow> nat set" where
  "live k = {t. container k (StateItem t) \<noteq> None}"

definition most_urgent :: "kernel \<Rightarrow> bool" where
  "most_urgent k \<longleftrightarrow> (\<forall>t p. container k (StateItem t) = Some (ReadyList p) \<longrightarrow> uxPriority k t \<le> uxPriority k (pxCurrentTCB k))"

definition switch_ok :: "kernel \<Rightarrow> bool" where
  "switch_ok k \<longleftrightarrow> pendsv k \<or> (current_ready k \<and> (xYieldPending k \<or> most_urgent k))"

definition kern_inv :: "kernel \<Rightarrow> bool" where
  "kern_inv k \<longleftrightarrow> (\<exists>T. time_ok T k) \<and> switch_ok k \<and> (\<forall>t. uxBasePriority k t \<le> uxPriority k t) \<and> uxSchedulerSuspended k = 0
     \<and> finite (live k) \<and> uxCurrentNumberOfTasks k = card (live k) \<and> pxCurrentTCB k \<in> live k"

definition notify_ok :: "task_state \<Rightarrow> bool" where
  "notify_ok s \<longleftrightarrow> (\<forall>t. ucNotifyState s t = taskWAITING_NOTIFICATION \<longrightarrow> container (kern s) (EventItem t) = None)"

definition sys_ok :: "task_state \<Rightarrow> bool" where
  "sys_ok s \<longleftrightarrow> kern_inv (kern s) \<and> notify_ok s \<and> \<not> no_current s \<and> xSchedulerRunning s"

lemma switch_ok_pend [simp]: "switch_ok (portYIELD k)"
  by (simp add: switch_ok_def)

lemma live_pend [simp]: "live (portYIELD k) = live k" "uxCurrentNumberOfTasks (portYIELD k) = uxCurrentNumberOfTasks k"
  "live (k\<lparr>xYieldPending := b\<rparr>) = live k"
  by (simp_all add: live_def portYIELD_def)

lemma kern_invI:
  assumes "time_ok T k" and "switch_ok k" and "\<And>t. uxBasePriority k t \<le> uxPriority k t" and "uxSchedulerSuspended k = 0"
    and "finite (live k)" and "uxCurrentNumberOfTasks k = card (live k)" and "pxCurrentTCB k \<in> live k"
  shows "kern_inv k"
  using assms unfolding kern_inv_def by blast

lemma kern_invD:
  assumes "kern_inv k"
  shows "switch_ok k" "uxBasePriority k t \<le> uxPriority k t" "uxSchedulerSuspended k = 0"
    "finite (live k)" "uxCurrentNumberOfTasks k = card (live k)" "pxCurrentTCB k \<in> live k" "0 < uxCurrentNumberOfTasks k"
  using assms by (auto simp: kern_inv_def card_gt_0_iff)

text \<open>A task becomes ready, by a task or by an interrupt.\<close>

definition readied :: "nat \<Rightarrow> kernel \<Rightarrow> kernel" where
  "readied t k = prvAddTaskToReadyList t (detach_if (StateItem t) k)"

lemma readied_fields [simp]:
  "container (readied t k) = (container k)(StateItem t \<mapsto> ReadyList (uxPriority k t))" "uxPriority (readied t k) = uxPriority k"
  "pxCurrentTCB (readied t k) = pxCurrentTCB k" "uxBasePriority (readied t k) = uxBasePriority k"
  "xYieldPending (readied t k) = xYieldPending k" "uxSchedulerSuspended (readied t k) = uxSchedulerSuspended k"
  "pendsv (readied t k) = pendsv k" "uxCurrentNumberOfTasks (readied t k) = uxCurrentNumberOfTasks k"
  by (simp_all add: readied_def prvAddTaskToReadyList_def Let_def list_insert_end_def)

lemma kern_inv_readied:
  assumes "kern_inv k" and "t \<in> live k" and "container k (EventItem t) = None"
    and "k' = (if uxPriority k (pxCurrentTCB k) < uxPriority k t then portYIELD (readied t k) else readied t k)
      \<or> k' = (if uxPriority k (pxCurrentTCB k) < uxPriority k t then (readied t k)\<lparr>xYieldPending := True\<rparr> else readied t k)"
  shows "kern_inv k'"
proof -
  obtain T where T: "time_ok T k" using assms(1) by (auto simp: kern_inv_def)
  have t1: "time_ok T (readied t k)"
    unfolding readied_def by (rule resume_ready [OF T assms(3)])
  have lv: "live (readied t k) = live k" using assms(2) by (auto simp: live_def)
  have cr: "current_ready k \<Longrightarrow> current_ready (readied t k)" by (simp add: current_ready_def)
  have mu: "most_urgent k \<Longrightarrow> \<not> uxPriority k (pxCurrentTCB k) < uxPriority k t \<Longrightarrow> most_urgent (readied t k)"
    by (auto simp: most_urgent_def)
  note i = kern_invD [OF assms(1)]
  have yp: "current_ready ((readied t k)\<lparr>xYieldPending := True\<rparr>) = current_ready (readied t k)"
    by (simp add: current_ready_def)
  have sw: "switch_ok k'"
  proof (cases "uxPriority k (pxCurrentTCB k) < uxPriority k t")
    case True
    then show ?thesis using assms(4) i(1) cr yp by (auto simp: switch_ok_def)
  next
    case False
    then show ?thesis using assms(4) i(1) cr mu by (auto simp: switch_ok_def)
  qed
  have "k' = readied t k \<or> k' = portYIELD (readied t k) \<or> k' = (readied t k)\<lparr>xYieldPending := True\<rparr>"
    using assms(4) by (simp split: if_splits)
  then have "time_ok T k' \<and> live k' = live k \<and> pxCurrentTCB k' = pxCurrentTCB k \<and> uxCurrentNumberOfTasks k' = uxCurrentNumberOfTasks k
    \<and> uxSchedulerSuspended k' = 0 \<and> uxPriority k' = uxPriority k \<and> uxBasePriority k' = uxBasePriority k"
    using t1 lv i(3) by (elim disjE) simp_all
  then show ?thesis using i sw by (intro kern_invI [of T]) simp_all
qed

lemma kern_inv_moved:
  assumes "kern_inv k" and "t \<in> live k" and "l = SuspendedTaskList \<or> l = TasksWaitingTermination"
    and "k1 = moved_to l t k \<or> k1 = prvResetNextTaskUnblockTime (moved_to l t k)"
  shows "kern_inv (if t = pxCurrentTCB k then portYIELD k1 else k1)"
proof -
  obtain T where T: "time_ok T k" using assms(1) by (auto simp: kern_inv_def)
  have t1: "time_ok T k1" using time_ok_moved_to [OF T assms(3)] time_ok_reset_self assms(4) by auto
  have f: "container k1 = (container k)(EventItem t := None, StateItem t \<mapsto> l) \<and> pendsv k1 = pendsv k \<and> xYieldPending k1 = xYieldPending k
    \<and> uxPriority k1 = uxPriority k \<and> pxCurrentTCB k1 = pxCurrentTCB k \<and> uxBasePriority k1 = uxBasePriority k
    \<and> uxSchedulerSuspended k1 = uxSchedulerSuspended k \<and> uxCurrentNumberOfTasks k1 = uxCurrentNumberOfTasks k"
    using assms(4) by (elim disjE) (simp_all add: prvResetNextTaskUnblockTime_def)
  have lv: "live k1 = live k" using f assms(2) by (auto simp: live_def)
  have "t \<noteq> pxCurrentTCB k \<Longrightarrow> switch_ok k1"
    using kern_invD(1) [OF assms(1)] f assms(3) by (auto simp: switch_ok_def current_ready_def most_urgent_def)
  then show ?thesis
    using t1 f lv kern_invD [OF assms(1)] by (intro kern_invI [of T]) auto
qed

lemma kern_inv_reprioritised:
  assumes "kern_inv k" and "uxBasePriority k t \<noteq> new"
    and "k' = (if (if uxBasePriority k t < new then t \<noteq> pxCurrentTCB k \<and> uxPriority k (pxCurrentTCB k) < new else t = pxCurrentTCB k)
     then portYIELD (reprioritised t new k) else reprioritised t new k)"
  shows "kern_inv k'"
proof -
  obtain T where T: "time_ok T k" using assms(1) by (auto simp: kern_inv_def)
  let ?r = "reprioritised t new k"
  note i = kern_invD [OF assms(1)]
  have ok: "kernel_ok k" using time_okD [OF T] by blast
  have rdy: "container k (StateItem u) = Some (ReadyList p) \<Longrightarrow> p = uxPriority k u" for u p
    using kernel_ok_fits [OF ok] by fastforce
  have lv: "live ?r = live k" by (auto simp: live_def)
  have base: "uxBasePriority ?r u \<le> uxPriority ?r u" for u
    using i(2) [of u] i(2) [of t] by (auto simp: new_priority_def)
  have cr: "current_ready k \<Longrightarrow> current_ready ?r" by (auto simp: current_ready_def)
  have "switch_ok k'"
  proof (cases "if uxBasePriority k t < new then t \<noteq> pxCurrentTCB k \<and> uxPriority k (pxCurrentTCB k) < new else t = pxCurrentTCB k")
    case False
    have "most_urgent ?r" if mu: "most_urgent k"
      unfolding most_urgent_def
    proof (intro allI impI)
      fix u p assume "container ?r (StateItem u) = Some (ReadyList p)"
      then have "\<exists>q. container k (StateItem u) = Some (ReadyList q)" by (auto split: if_splits)
      then have "uxPriority k u \<le> uxPriority k (pxCurrentTCB k)" using mu by (auto simp: most_urgent_def)
      then show "uxPriority ?r u \<le> uxPriority ?r (pxCurrentTCB ?r)"
        using False i(2) [of t] assms(2) by (cases "u = t"; cases "t = pxCurrentTCB k") (auto simp: new_priority_def split: if_splits)
    qed
    moreover have "pendsv ?r = pendsv k" by (simp add: reprioritised_def readied_def Let_def flip: readied_def)
    ultimately show ?thesis using False i(1) cr assms(3) by (auto simp: switch_ok_def)
  qed (simp add: assms(3))
  then show ?thesis
    using time_ok_reprioritised [OF T, of t new] base lv i assms(3)
    by (intro kern_invI [of T]) (auto split: if_splits)
qed


section \<open>Ticks and context switches\<close>

lemma kern_inv_tick:
  assumes "kern_inv k" and "xTaskIncrementTick k = Some (sw, k1)"
  shows "kern_inv (if sw then portYIELD k1 else k1)" and "container k1 (EventItem t) \<in> {None, container k (EventItem t)}"
proof -
  obtain T where T: "time_ok T k" using assms(1) by (auto simp: kern_inv_def)
  note i = kern_invD [OF assms(1)]
  define W where "W = {t. due T k t = Some (Suc T)}"
  have e: "time_ok (Suc T) k1" "sw \<longleftrightarrow> xYieldPending k \<or> (\<exists>t \<in> W. uxPriority k (pxCurrentTCB k) < uxPriority k t)"
    "t \<in> W \<Longrightarrow> container k1 (StateItem t) = Some (ReadyList (uxPriority k t))" "t \<in> W \<Longrightarrow> container k1 (EventItem t) = None"
    "t \<notin> W \<Longrightarrow> container k1 (EventItem t) = container k (EventItem t)" "t \<notin> W \<Longrightarrow> container k1 (StateItem t) = container k (StateItem t)"
    "uxSchedulerSuspended k1 = 0" "uxPriority k1 = uxPriority k" "pxCurrentTCB k1 = pxCurrentTCB k"
    "uxCurrentNumberOfTasks k1 = uxCurrentNumberOfTasks k" for t
    using tick_effect [OF T i(3)] assms(2) unfolding W_def by auto
  have q: "uxBasePriority k1 = uxBasePriority k" "pendsv k \<Longrightarrow> pendsv k1" using quiet_tick [OF assms(2)] by (auto simp: quiet_def)
  show "container k1 (EventItem t) \<in> {None, container k (EventItem t)}" using e(4,5) by (cases "t \<in> W") auto
  have "t \<in> W \<Longrightarrow> container k (StateItem t) \<noteq> None" for t by (auto simp: W_def due_def split: if_splits)
  then have "container k1 (StateItem t) = None \<longleftrightarrow> container k (StateItem t) = None" for t using e(3,6) by (cases "t \<in> W") auto
  then have lv: "live k1 = live k" by (simp add: live_def)
  have cr: "current_ready k1" if "current_ready k"
    using that current_ready_kernel(2) [OF T that] e(6) [of "pxCurrentTCB k"] e(8,9) by (simp add: current_ready_def W_def)
  have mu: "most_urgent k1" if "most_urgent k" "\<not> sw"
    unfolding most_urgent_def
  proof (intro allI impI)
    fix t p assume "container k1 (StateItem t) = Some (ReadyList p)"
    then show "uxPriority k1 t \<le> uxPriority k1 (pxCurrentTCB k1)"
      using that e(2,6) e(8,9) by (cases "t \<in> W") (auto simp: most_urgent_def)
  qed
  have "switch_ok (if sw then portYIELD k1 else k1)"
    using i(1) cr mu e(2) q(2) by (auto simp: switch_ok_def)
  then show "kern_inv (if sw then portYIELD k1 else k1)"
    using e(1,7-10) q i lv by (intro kern_invI [of "Suc T"]) auto
qed

text \<open>The context switch.\<close>

lemma kern_inv_switch:
  assumes "kern_inv k" and "xPortPendSVHandler k = Some k'"
  shows "kern_inv k'" and "container k' = container k" and "\<not> pendsv k'"
proof -
  obtain T where T: "time_ok T k" using assms(1) by (auto simp: kern_inv_def)
  note i = kern_invD [OF assms(1)]
  let ?k = "k\<lparr>pendsv := False, xYieldPending := False\<rparr>"
  have ok: "kernel_ok ?k" and w: "waiting_ok k" and d: "delays_ok k" using time_okD [OF T] by simp_all
  have sel: "taskSELECT_HIGHEST_PRIORITY_TASK ?k = Some k'"
    using assms(2) i(3) by (simp add: xPortPendSVHandler_def vTaskSwitchContext_def)
  then obtain q where "top_ready ?k (uxTopReadyPriority ?k) = Some q" by (auto simp: taskSELECT_HIGHEST_PRIORITY_TASK_def bind_eq_Some_conv)
  then have "entries ?k (ReadyList q) \<noteq> []" using top_ready_Some by blast
  from switch_effect [OF ok this] sel obtain p it L where
    k': "k' = ?k\<lparr>pxCurrentTCB := owner it, lists := (lists k)(ReadyList p := L), uxTopReadyPriority := p\<rparr>"
    and it: "it = StateItem (owner it)" "uxPriority k (owner it) = p" "xl_items L = entries k (ReadyList p)"
      "it \<in> set (entries k (ReadyList p))" "\<forall>r > p. entries k (ReadyList r) = []"
    by (auto simp: taskSELECT_HIGHEST_PRIORITY_TASK_def)
  have c: "container k it = Some (ReadyList p)"
    using lists_ok_container [OF kernel_ok_lists [OF time_okD(1) [OF T]]] it(4) by blast
  have e: "entries k' m = entries k m" for m using it(3) by (simp add: k')
  have "kernel_ok k'" unfolding k' using kernel_ok_switch [OF ok, of L p] it(3,5) by simp
  then have tk: "time_ok T k'"
    using w d time_okD(4) [OF T] e by (simp add: time_ok_def waiting_ok_def delays_ok_def by_value_def k')
  have "uxPriority k u \<le> p" if "container k (StateItem u) = Some (ReadyList r)" for u r
  proof -
    have "uxPriority k u = r" using kernel_ok_fits [OF time_okD(1) [OF T] that] by simp
    moreover have "entries k (ReadyList r) \<noteq> []"
      using that lists_ok_container [OF kernel_ok_lists [OF time_okD(1) [OF T]], of "StateItem u" "ReadyList r"] by auto
    ultimately show ?thesis using it(5) by (simp add: not_less [symmetric]) blast
  qed
  then have "switch_ok k'" using c it(1,2) by (auto simp: switch_ok_def current_ready_def most_urgent_def k')
  moreover have "live k' = live k" by (simp add: live_def k')
  moreover have "owner it \<in> live k" using c it(1) by (auto simp: live_def)
  ultimately show "kern_inv k'" using tk i by (intro kern_invI [of T]) (simp_all add: k')
  show "container k' = container k" "\<not> pendsv k'" by (simp_all add: k')
qed


section \<open>Blocking\<close>

lemma due_live: "due T k t = Some d \<Longrightarrow> t \<in> live k"
  by (auto simp: due_def live_def split: if_splits)

lemma resume_live:
  assumes "time_ok T k" and "uxSchedulerSuspended k = 1" and "0 < uxCurrentNumberOfTasks k" and "xTaskResumeAll k = Some (y, k')"
  shows "live k' = live k" and "container k' (EventItem t) \<in> {None, container k (EventItem t)}"
    and "time_ok (T + unat (xPendedTicks k)) k'" and "uxSchedulerSuspended k' = 0" and "y \<longrightarrow> pendsv k'"
    and "pxCurrentTCB k' = pxCurrentTCB k" and "uxCurrentNumberOfTasks k' = uxCurrentNumberOfTasks k" and "uxPriority k' = uxPriority k"
proof -
  let ?n = "unat (xPendedTicks k)"
  have e: "uxSchedulerSuspended k' = 0" "time_ok (T + ?n) k'" "y \<longrightarrow> pendsv k'"
    "container k (EventItem u) = Some PendingReadyList \<Longrightarrow> container k' (StateItem u) = Some (ReadyList (uxPriority k u))"
    "container k (EventItem u) \<noteq> Some PendingReadyList \<Longrightarrow> due T k u = Some d \<Longrightarrow>
       (if d \<le> T + ?n then container k' (StateItem u) = Some (ReadyList (uxPriority k u)) else due (T + ?n) k' u = Some d)"
    "container k' (EventItem u) = Some l \<Longrightarrow> container k (EventItem u) = Some l"
    "pxCurrentTCB k' = pxCurrentTCB k" "uxCurrentNumberOfTasks k' = uxCurrentNumberOfTasks k" "uxPriority k' = uxPriority k"
    "container k (EventItem u) \<noteq> Some PendingReadyList \<Longrightarrow> due T k u = None \<Longrightarrow> container k' (StateItem u) = container k (StateItem u)" for u d l
    using resume_effect [OF assms(1-3)] assms(4) by auto
  show "container k' (EventItem t) \<in> {None, container k (EventItem t)}" using e(6) by (cases "container k' (EventItem t)") auto
  have w: "waiting_ok k" using time_okD [OF assms(1)] by blast
  have "u \<in> live k' \<longleftrightarrow> u \<in> live k" for u
  proof (cases "container k (EventItem u) = Some PendingReadyList")
    case True
    then show ?thesis using e(4) w by (auto simp: live_def waiting_ok_def)
  next
    case False
    then show ?thesis
    proof (cases "due T k u")
      case None
      then show ?thesis using e(10) [OF False] by (simp add: live_def)
    next
      case (Some d)
      have "u \<in> live k'"
        using e(5) [OF False Some] due_live [of "T + ?n" k' u d] by (cases "d \<le> T + ?n") (auto simp: live_def)
      then show ?thesis using due_live [OF Some] by simp
    qed
  qed
  then show "live k' = live k" by blast
qed (use resume_effect [OF assms(1-3)] assms(4) in auto)

text \<open>Resuming the scheduler, followed by the yield of the caller.\<close>

lemma kern_inv_resume:
  assumes "time_ok T k" and "uxSchedulerSuspended k = 1" and "\<And>t. uxBasePriority k t \<le> uxPriority k t"
    and "finite (live k)" and "uxCurrentNumberOfTasks k = card (live k)" and "pxCurrentTCB k \<in> live k"
    and "xTaskResumeAll k = Some (y, k')"
  shows "kern_inv (if y then k' else portYIELD k')" and "container k' (EventItem t) \<in> {None, container k (EventItem t)}"
proof -
  have n: "0 < uxCurrentNumberOfTasks k" using assms(4-6) by (auto simp: card_gt_0_iff)
  note e = resume_live [OF assms(1,2) n assms(7)]
  show "container k' (EventItem t) \<in> {None, container k (EventItem t)}" by (rule e(2))
  have "uxBasePriority k' = uxBasePriority k" using quiet_resume [OF assms(7)] by (simp add: quiet_def)
  moreover have "switch_ok k'" if y using e(5) that by (simp add: switch_ok_def)
  ultimately show "kern_inv (if y then k' else portYIELD k')"
    using e assms(3-6) by (intro kern_invI [of "T + unat (xPendedTicks k)"]) auto
qed

lemma quiet_block: "prvAddCurrentTaskToDelayedList ticks can k = Some k' \<Longrightarrow> quiet k k'"
  by (auto simp: prvAddCurrentTaskToDelayedList_def Let_def bind_eq_Some_conv split: if_splits dest!: quiet_list_remove)

lemma suspend_all_more [simp]: "live (vTaskSuspendAll k) = live k" "uxBasePriority (vTaskSuspendAll k) = uxBasePriority k"
  by (simp_all add: live_def vTaskSuspendAll_def)

lemma not_pending_ready: "kern_inv k \<Longrightarrow> \<not> pendsv k \<Longrightarrow> current_ready k"
  by (simp add: kern_inv_def switch_ok_def)

lemma kern_inv_block:
  assumes "kern_inv k" and "\<not> pendsv k" and "0 < ticks"
    and "prvAddCurrentTaskToDelayedList ticks can (vTaskSuspendAll k) = Some k1" and "xTaskResumeAll k1 = Some (y, k2)"
  shows "kern_inv (if y then k2 else portYIELD k2)" and "container k2 (EventItem t) \<in> {None, container k (EventItem t)}"
proof -
  obtain T where T: "time_ok T k" using assms(1) by (auto simp: kern_inv_def)
  note i = kern_invD [OF assms(1)]
  have cr: "current_ready k" by (rule not_pending_ready [OF assms(1,2)])
  obtain n where "blocked_until T n (vTaskSuspendAll k) k1"
    using add_to_delayed_list [OF time_ok_about [OF T cr] assms(3), of can] assms(4) by auto
  then have b: "time_ok T k1" "due T k1 (pxCurrentTCB k) = map_option (\<lambda>n. T + n) n"
    "n = None \<longrightarrow> container k1 (StateItem (pxCurrentTCB k)) = Some SuspendedTaskList"
    "u \<noteq> pxCurrentTCB k \<Longrightarrow> container k1 (StateItem u) = container k (StateItem u)"
    "container k1 (EventItem u) = container k (EventItem u)" "uxSchedulerSuspended k1 = 1" "pxCurrentTCB k1 = pxCurrentTCB k"
    "uxPriority k1 = uxPriority k" "uxCurrentNumberOfTasks k1 = uxCurrentNumberOfTasks k" for u
    using i(3) by (auto simp: blocked_until_def)
  have "pxCurrentTCB k \<in> live k1" using b(2,3) due_live [of T k1] by (cases n) (auto simp: live_def)
  then have "u \<in> live k1 \<longleftrightarrow> u \<in> live k" for u
    using b(4) i(6) by (cases "u = pxCurrentTCB k") (auto simp: live_def)
  then have lv: "live k1 = live k" by blast
  have bp: "uxBasePriority k1 = uxBasePriority k" using quiet_block [OF assms(4)] by (simp add: quiet_def)
  note r = kern_inv_resume [OF b(1,6) _ _ _ _ assms(5)]
  show "kern_inv (if y then k2 else portYIELD k2)" using r(1) i b lv bp by simp
  show "container k2 (EventItem t) \<in> {None, container k (EventItem t)}" using r(2) i b lv bp by simp
qed

text \<open>Suspending and resuming the scheduler without blocking.\<close>

lemma kern_inv_resume_only:
  assumes "kern_inv k" and "xTaskResumeAll (vTaskSuspendAll k) = Some (y, k2)"
  shows "kern_inv (if y then k2 else portYIELD k2)" and "container k2 (EventItem t) \<in> {None, container k (EventItem t)}"
proof -
  obtain T where T: "time_ok T k" using assms(1) by (auto simp: kern_inv_def)
  note i = kern_invD [OF assms(1)]
  have s: "time_ok T (vTaskSuspendAll k)" "uxSchedulerSuspended (vTaskSuspendAll k) = 1" using T i(3) by simp_all
  note r = kern_inv_resume [OF s _ _ _ _ assms(2)]
  show "kern_inv (if y then k2 else portYIELD k2)" using r(1) i by simp
  show "container k2 (EventItem t) \<in> {None, container k (EventItem t)}" using r(2) i by simp
qed

lemma kern_inv_delay_until:
  assumes "kern_inv k" and "\<not> pendsv k" and "xTaskDelayUntil previous increment k = Some (d, w, k')"
  shows "kern_inv k'" and "container k' (EventItem t) \<in> {None, container k (EventItem t)}"
proof -
  let ?ticks = "previous + increment - xTickCount k"
  have inc: "increment \<noteq> 0" using assms(3) by (auto simp: xTaskDelayUntil_def)
  obtain k1 y k2 where k1: "(if should_delay previous increment (xTickCount k)
      then prvAddCurrentTaskToDelayedList ?ticks False (vTaskSuspendAll k) else Some (vTaskSuspendAll k)) = Some k1"
    and k2: "xTaskResumeAll k1 = Some (y, k2)" "k' = (if y then k2 else portYIELD k2)"
    using assms(3) inc by (auto simp: xTaskDelayUntil_def Let_def bind_eq_Some_conv split: if_splits)
  have "kern_inv k' \<and> container k' (EventItem t) \<in> {None, container k (EventItem t)}"
  proof (cases "should_delay previous increment (xTickCount k)")
    case True
    then have "0 < ?ticks" using inc unfolding wake_after should_delay_iff by (auto simp: word_less_nat_alt unat_sub_if' split: if_splits)
    note b = kern_inv_block [OF assms(1,2) this]
    show ?thesis using True k1 k2 b(1) [of False k1 y k2] b(2) [of False k1 y k2 t] by auto
  next
    case False
    then show ?thesis using kern_inv_resume_only [OF assms(1)] k1 k2 by auto
  qed
  then show "kern_inv k'" "container k' (EventItem t) \<in> {None, container k (EventItem t)}" by auto
qed

lemma kern_inv_delay:
  assumes "kern_inv k" and "\<not> pendsv k" and "vTaskDelay ticks k = Some k'"
  shows "kern_inv k'" and "container k' (EventItem t) \<in> {None, container k (EventItem t)}"
proof -
  have "kern_inv k' \<and> container k' (EventItem t) \<in> {None, container k (EventItem t)}"
  proof (cases "ticks > 0")
    case True
    then obtain k1 y k2 where "prvAddCurrentTaskToDelayedList ticks False (vTaskSuspendAll k) = Some k1"
      "xTaskResumeAll k1 = Some (y, k2)" "k' = (if y then k2 else portYIELD k2)"
      using assms(3) by (auto simp: vTaskDelay_def Let_def bind_eq_Some_conv split: if_splits)
    then show ?thesis using kern_inv_block [OF assms(1,2) True] by auto
  next
    case False
    then have "k' = portYIELD k" using assms(3) by (simp add: vTaskDelay_def)
    then show ?thesis using assms(1) by (auto simp: kern_inv_def)
  qed
  then show "kern_inv k'" "container k' (EventItem t) \<in> {None, container k (EventItem t)}" by auto
qed


section \<open>Deletion and creation\<close>

lemma number_fields [simp]:
  "time_ok T (k\<lparr>uxCurrentNumberOfTasks := n\<rparr>) = time_ok T k" "live (k\<lparr>uxCurrentNumberOfTasks := n\<rparr>) = live k"
  "current_ready (k\<lparr>uxCurrentNumberOfTasks := n\<rparr>) = current_ready k" "most_urgent (k\<lparr>uxCurrentNumberOfTasks := n\<rparr>) = most_urgent k"
  "kernel_ok (k\<lparr>uxCurrentNumberOfTasks := n\<rparr>) = kernel_ok k"
proof -
  show k: "kernel_ok (k\<lparr>uxCurrentNumberOfTasks := n\<rparr>) = kernel_ok k" by (rule kernel_ok_cong) simp_all
  show "time_ok T (k\<lparr>uxCurrentNumberOfTasks := n\<rparr>) = time_ok T k"
    by (simp add: time_ok_def k waiting_ok_def delays_ok_def by_value_def)
qed (simp_all add: live_def current_ready_def most_urgent_def)

text \<open>A task other than the current one leaves all lists.\<close>

definition unlisted :: "nat \<Rightarrow> kernel \<Rightarrow> kernel" where
  "unlisted t k = (let k = detach_if (EventItem t) (detach_if (StateItem t) k)
     in k\<lparr>uxCurrentNumberOfTasks := uxCurrentNumberOfTasks k - 1\<rparr>)"

lemma unlisted_fields [simp]:
  "container (unlisted t k) = (container k)(EventItem t := None, StateItem t := None)" "uxPriority (unlisted t k) = uxPriority k"
  "pxCurrentTCB (unlisted t k) = pxCurrentTCB k" "uxBasePriority (unlisted t k) = uxBasePriority k" "pendsv (unlisted t k) = pendsv k"
  "xYieldPending (unlisted t k) = xYieldPending k" "uxSchedulerSuspended (unlisted t k) = uxSchedulerSuspended k"
  "uxCurrentNumberOfTasks (unlisted t k) = uxCurrentNumberOfTasks k - 1"
  by (auto simp: unlisted_def Let_def fun_upd_twist)

lemma time_ok_unlisted:
  assumes "time_ok T k"
  shows "time_ok T (unlisted t k)"
proof -
  let ?k = "detach_if (EventItem t) (detach_if (StateItem t) k)"
  have ok: "kernel_ok k" by (rule time_okD [OF assms])
  have "time_ok T ?k"
  proof (rule time_ok_shrink [OF assms])
    show "waiting_ok ?k" using time_okD(2) [OF assms] by (auto simp: waiting_ok_def)
    show "entries ?k m = remove1 (EventItem t) (remove1 (StateItem t) (entries k m))" for m
      using ok by (simp add: entries_detach_if kernel_ok_detach_if)
  qed (simp_all add: ok kernel_ok_detach_if)
  then show ?thesis by (simp add: unlisted_def Let_def)
qed

lemma kern_inv_unlisted:
  assumes "kern_inv k" and "t \<in> live k" and "t \<noteq> pxCurrentTCB k" and "k' = unlisted t k \<or> k' = prvResetNextTaskUnblockTime (unlisted t k)"
  shows "kern_inv k'"
proof -
  obtain T where T: "time_ok T k" using assms(1) by (auto simp: kern_inv_def)
  note i = kern_invD [OF assms(1)]
  have "live (unlisted t k) = live k - {t}" using assms(2) by (auto simp: live_def)
  moreover have "live (prvResetNextTaskUnblockTime (unlisted t k)) = live (unlisted t k)" by (simp add: live_def)
  ultimately have lv: "live k' = live k - {t}" using assms(4) by auto
  have f: "uxPriority k' = uxPriority k" "pxCurrentTCB k' = pxCurrentTCB k" "uxBasePriority k' = uxBasePriority k"
    "pendsv k' = pendsv k" "xYieldPending k' = xYieldPending k" "uxSchedulerSuspended k' = uxSchedulerSuspended k"
    "uxCurrentNumberOfTasks k' = uxCurrentNumberOfTasks k - 1" "container k' = (container k)(EventItem t := None, StateItem t := None)"
    using assms(4) by (auto simp: prvResetNextTaskUnblockTime_def)
  have "time_ok T k'" using assms(4) time_ok_unlisted [OF T, of t] time_ok_reset_self by auto
  moreover have "switch_ok k'"
    using i(1) f assms(3) by (auto simp: switch_ok_def current_ready_def most_urgent_def)
  moreover have "card (live k') = card (live k) - 1" using lv assms(2) i(4) by simp
  ultimately show ?thesis using lv f i assms(3) by (intro kern_invI [of T]) auto
qed

text \<open>A new task: its fields are set before it becomes ready.\<close>

lemma time_ok_created:
  assumes "time_ok T k" and "container k (StateItem t) = None" and "container k (EventItem t) = None"
    and "lists k0 = lists k" and "container k0 = container k" and "uxPriority k0 = (uxPriority k)(t := p)"
    and "pxDelayedTaskList k0 = pxDelayedTaskList k" and "pxOverflowDelayedTaskList k0 = pxOverflowDelayedTaskList k"
    and "xTickCount k0 = xTickCount k" and "xNextTaskUnblockTime k0 = xNextTaskUnblockTime k"
    and "uxTopReadyPriority k0 = uxTopReadyPriority k"
    and v: "\<And>u. u \<noteq> t \<Longrightarrow> item_value k0 (StateItem u) = item_value k (StateItem u)"
  shows "prvAddTaskToReadyList t k0 = readied t k0" and "time_ok T (readied t k0)"
proof -
  have ok: "kernel_ok k" by (rule time_okD [OF assms(1)])
  have "kernel_ok k0 = kernel_ok (k\<lparr>uxPriority := (uxPriority k)(t := p)\<rparr>)"
    by (rule kernel_ok_cong) (use assms in simp_all)
  then have ok0: "kernel_ok k0" using kernel_ok_priority [OF ok, of t p] assms(2) by simp
  have t0: "time_ok T k0"
  proof (rule time_ok_frame [OF assms(1) ok0, where a = "StateItem t" and b = "StateItem t"])
    show "waiting_ok k0" using time_okD(2) [OF assms(1)] assms(5) by (simp add: waiting_ok_def)
    show "item_value k0 (StateItem u) = item_value k (StateItem u)" if "container k (StateItem u) \<noteq> None" for u
      using v that assms(2) by (cases "u = t") auto
    show "entries k0 m = remove1 (StateItem t) (remove1 (StateItem t) (entries k m))" for m
      using lists_ok_container [OF kernel_ok_lists [OF ok], of "StateItem t" m] assms(2,4) by (simp add: remove1_idem)
  qed (use assms in simp_all)
  have "detach_if (StateItem t) k0 = k0" using assms(2,5) by (simp add: detach_if_def)
  then show "prvAddTaskToReadyList t k0 = readied t k0" by (simp add: readied_def)
  show "time_ok T (readied t k0)" unfolding readied_def by (rule resume_ready [OF t0]) (simp add: assms(3,5))
qed

lemma kern_inv_created:
  assumes "kern_inv k" and "container k (StateItem t) = None" and "container k (EventItem t) = None"
    and "lists k0 = lists k" and "container k0 = container k" and "uxPriority k0 = (uxPriority k)(t := p)"
    and "pxDelayedTaskList k0 = pxDelayedTaskList k" and "pxOverflowDelayedTaskList k0 = pxOverflowDelayedTaskList k"
    and "xTickCount k0 = xTickCount k" and "xNextTaskUnblockTime k0 = xNextTaskUnblockTime k"
    and "uxTopReadyPriority k0 = uxTopReadyPriority k"
    and v: "\<And>u. u \<noteq> t \<Longrightarrow> item_value k0 (StateItem u) = item_value k (StateItem u)"
    and "uxBasePriority k0 = (uxBasePriority k)(t := p)" and "pxCurrentTCB k0 = pxCurrentTCB k"
    and "pendsv k0 = pendsv k" and "xYieldPending k0 = xYieldPending k"
    and "uxSchedulerSuspended k0 = uxSchedulerSuspended k" and "uxCurrentNumberOfTasks k0 = uxCurrentNumberOfTasks k + 1"
  shows "kern_inv (if uxPriority k0 (pxCurrentTCB k0) < p then portYIELD (prvAddTaskToReadyList t k0) else prvAddTaskToReadyList t k0)"
proof -
  obtain T where T: "time_ok T k" using assms(1) by (auto simp: kern_inv_def)
  note i = kern_invD [OF assms(1)]
  have cur: "pxCurrentTCB k \<noteq> t" using i(6) assms(2) by (auto simp: live_def)
  have t: "prvAddTaskToReadyList t k0 = readied t k0" "time_ok T (readied t k0)"
    by (rule time_ok_created [OF T assms(2-11)], erule v)+
  have "live (readied t k0) = insert t (live k)" using assms(5) by (auto simp: live_def)
  moreover have "t \<notin> live k" using assms(2) by (simp add: live_def)
  ultimately have lv: "live (readied t k0) = insert t (live k)" "card (live (readied t k0)) = card (live k) + 1"
    using i(4) by simp_all
  have "switch_ok (readied t k0)" if "\<not> uxPriority k0 (pxCurrentTCB k0) < p"
    using i(1) that cur assms by (auto simp: switch_ok_def current_ready_def most_urgent_def)
  then show ?thesis
    unfolding t(1) using t(2) lv i assms by (intro kern_invI [of T]) auto
qed

section \<open>The operations keep the invariant\<close>

lemma sys_okI: "kern_inv (kern s) \<Longrightarrow> notify_ok s \<Longrightarrow> \<not> no_current s \<Longrightarrow> xSchedulerRunning s \<Longrightarrow> sys_ok s"
  by (simp add: sys_ok_def)

lemma sys_okD:
  assumes "sys_ok s"
  shows "kern_inv (kern s)" "notify_ok s" "\<not> no_current s" "xSchedulerRunning s" "uxSchedulerSuspended (kern s) = 0"
  using assms by (auto simp: sys_ok_def kern_inv_def)

lemma notify_ok_mono:
  assumes "notify_ok s" and "\<And>t. ucNotifyState s' t = taskWAITING_NOTIFICATION \<Longrightarrow> ucNotifyState s t = taskWAITING_NOTIFICATION"
    and "\<And>t. container (kern s') (EventItem t) \<in> {None, container (kern s) (EventItem t)}"
  shows "notify_ok s'"
  using assms by (fastforce simp: notify_ok_def)

lemma list_removeD: "list_remove it k = Some k' \<Longrightarrow> container k it \<noteq> None \<and> k' = detach_if it k"
  by (auto simp: list_remove_def detach_if_def detach_def bind_eq_Some_conv)

lemma list_remove_live: "list_remove (StateItem t) k = Some k' \<Longrightarrow> t \<in> live k \<and> k' = detach_if (StateItem t) k"
  using list_removeD by (auto simp: live_def)

lemma suspend_result:
  assumes "sys_ok s" and "vTaskSuspend h s = Some s'" and "prvGetTCBFromHandle h s = Some t"
  defines "k1 \<equiv> prvResetNextTaskUnblockTime (to_suspended t (kern s))"
  shows "t \<in> live (kern s)"
    and "s' = s\<lparr>kern := (if t = current s then portYIELD k1 else k1), ucNotifyState := (ucNotifyState s)(t :=
      (if ucNotifyState s t = taskWAITING_NOTIFICATION then taskNOT_WAITING_NOTIFICATION else ucNotifyState s t))\<rparr>"
proof -
  note i = sys_okD [OF assms(1)]
  show lv: "t \<in> live (kern s)"
    using assms(2,3) by (auto simp: vTaskSuspend_def suspend_section_def bind_eq_Some_conv dest!: list_remove_live)
  have "uxSchedulerSuspended k1 = 0" "pxCurrentTCB k1 = current s" using i(5) by (simp_all add: k1_def)
  then show "s' = s\<lparr>kern := (if t = current s then portYIELD k1 else k1), ucNotifyState := (ucNotifyState s)(t :=
      (if ucNotifyState s t = taskWAITING_NOTIFICATION then taskNOT_WAITING_NOTIFICATION else ucNotifyState s t))\<rparr>"
    using assms(2,3) i(3,4) suspend_effect [of s t] lv
    by (auto simp: vTaskSuspend_def is_current_def live_def k1_def)
qed

lemma sys_ok_suspend:
  assumes "sys_ok s" and "vTaskSuspend h s = Some s'"
  shows "sys_ok s'"
proof -
  note i = sys_okD [OF assms(1)]
  obtain t where t: "prvGetTCBFromHandle h s = Some t" using assms(2) by (auto simp: vTaskSuspend_def bind_eq_Some_conv)
  define k1 where "k1 = prvResetNextTaskUnblockTime (to_suspended t (kern s))"
  note s' = suspend_result [OF assms t, folded k1_def]
  show ?thesis
  proof (rule sys_okI)
    show "kern_inv (kern s')" using kern_inv_moved [OF i(1) s'(1), of SuspendedTaskList k1] by (simp add: s'(2) k1_def)
    show "notify_ok s'" by (rule notify_ok_mono [OF i(2)]) (auto simp: s'(2) k1_def split: if_splits)
  qed (use i s'(2) in simp_all)
qed

lemma yield_any:
  "\<not> no_current s \<Longrightarrow> taskYIELD_ANY_CORE_IF_USING_PREEMPTION t (s\<lparr>kern := readied t (kern s)\<rparr>) = Some (s\<lparr>kern :=
    (if uxPriority (kern s) (current s) < uxPriority (kern s) t then portYIELD (readied t (kern s)) else readied t (kern s))\<rparr>)"
  by (simp add: taskYIELD_ANY_CORE_IF_USING_PREEMPTION_def)

lemma sys_ok_readied:
  assumes "sys_ok s" and "t \<in> live (kern s)" and "container (kern s) (EventItem t) = None"
    and "k = (if uxPriority (kern s) (current s) < uxPriority (kern s) t then portYIELD (readied t (kern s)) else readied t (kern s))
      \<or> k = (if uxPriority (kern s) (current s) < uxPriority (kern s) t then (readied t (kern s))\<lparr>xYieldPending := True\<rparr> else readied t (kern s))"
    and "\<And>u. n u = taskWAITING_NOTIFICATION \<Longrightarrow> ucNotifyState s u = taskWAITING_NOTIFICATION"
  shows "sys_ok (s\<lparr>kern := k, ucNotifyState := n, ulNotifiedValue := v\<rparr>)"
proof (rule sys_okI)
  note i = sys_okD [OF assms(1)]
  show "kern_inv (kern (s\<lparr>kern := k, ucNotifyState := n, ulNotifiedValue := v\<rparr>))" using kern_inv_readied [OF i(1) assms(2,3,4)] by simp
  show "notify_ok (s\<lparr>kern := k, ucNotifyState := n, ulNotifiedValue := v\<rparr>)"
    by (rule notify_ok_mono [OF i(2)]) (use assms(4,5) in \<open>auto split: if_splits\<close>)
qed (use sys_okD [OF assms(1)] in simp_all)

lemma sys_ok_notified:
  assumes "sys_ok s" and "t \<in> live (kern s)" and "container (kern s) (EventItem t) = None"
    and "k = (if uxPriority (kern s) (current s) < uxPriority (kern s) t then portYIELD (readied t (kern s)) else readied t (kern s))
      \<or> k = (if uxPriority (kern s) (current s) < uxPriority (kern s) t then (readied t (kern s))\<lparr>xYieldPending := True\<rparr> else readied t (kern s))"
  shows "sys_ok ((set_notified t taskNOTIFICATION_RECEIVED v s)\<lparr>kern := k\<rparr>)"
proof -
  have eq: "(set_notified t taskNOTIFICATION_RECEIVED v s)\<lparr>kern := k\<rparr> = s\<lparr>kern := k,
      ucNotifyState := (ucNotifyState s)(t := taskNOTIFICATION_RECEIVED), ulNotifiedValue := (ulNotifiedValue s)(t := v)\<rparr>"
    by (cases s) (simp add: set_notified_def)
  show ?thesis
    unfolding eq by (rule sys_ok_readied [OF assms]) (auto split: if_splits)
qed

lemma sys_ok_resume:
  assumes "sys_ok s" and "vTaskResume h s = Some s'"
  shows "sys_ok s'"
proof (cases "s' = s")
  case False
  note i = sys_okD [OF assms(1)]
  obtain t where t: "h = Some t" "prvTaskIsTaskSuspended t s" "\<not> is_current t s"
    using assms(2) False by (auto simp: vTaskResume_def bind_eq_Some_conv split: if_splits)
  then have c: "t \<in> live (kern s)" "container (kern s) (EventItem t) = None"
    by (auto simp: prvTaskIsTaskSuspended_def live_def split: if_splits)
  have "vTaskResume h s = taskYIELD_ANY_CORE_IF_USING_PREEMPTION t (s\<lparr>kern := readied t (kern s)\<rparr>)"
    using t c(1) by (simp add: vTaskResume_def list_remove_detach_if live_def readied_def)
  then have "s' = s\<lparr>kern := (if uxPriority (kern s) (current s) < uxPriority (kern s) t then portYIELD (readied t (kern s)) else readied t (kern s))\<rparr>"
    using assms(2) yield_any [OF i(3)] by simp
  then show ?thesis
    using sys_ok_readied [OF assms(1) c, of _ "ucNotifyState s" "ulNotifiedValue s"] by simp
qed (use assms in simp)


lemma sys_ok_resume_isr:
  assumes "sys_ok s" and "xTaskResumeFromISR h s = Some (w, s')"
  shows "sys_ok s'"
proof (cases "s' = s")
  case False
  note i = sys_okD [OF assms(1)]
  obtain t where t: "h = Some t" "prvTaskIsTaskSuspended t s"
    using assms(2) False by (auto simp: xTaskResumeFromISR_def bind_eq_Some_conv split: if_splits)
  then have c: "t \<in> live (kern s)" "container (kern s) (EventItem t) = None"
    by (auto simp: prvTaskIsTaskSuspended_def live_def split: if_splits)
  have y: "prvAddTaskToReadyList t (detach_if (StateItem t) (k\<lparr>xYieldPending := True\<rparr>)) = (readied t k)\<lparr>xYieldPending := True\<rparr>" for k
    by (simp add: readied_def prvAddTaskToReadyList_def list_insert_end_def detach_if_def detach_def Let_def split: option.split)
  have "s' = s\<lparr>kern := (if uxPriority (kern s) (current s) < uxPriority (kern s) t then (readied t (kern s))\<lparr>xYieldPending := True\<rparr> else readied t (kern s))\<rparr>"
    using assms(2) t c(1) i(3,5) by (auto simp: xTaskResumeFromISR_def list_remove_detach_if live_def y Let_def) (simp add: readied_def)
  then show ?thesis
    using sys_ok_readied [OF assms(1) c, of _ "ucNotifyState s" "ulNotifiedValue s"] by simp
qed (use assms in simp)

lemma sys_ok_priority:
  assumes "sys_ok s" and "vTaskPrioritySet h new s = Some s'"
  shows "sys_ok s'"
proof -
  note i = sys_okD [OF assms(1)]
  have new: "new < configMAX_PRIORITIES" using assms(2) by (auto simp: vTaskPrioritySet_def not_le split: if_splits)
  then obtain t where t: "prvGetTCBFromHandle h s = Some t" using assms(2) by (auto simp: vTaskPrioritySet_def bind_eq_Some_conv)
  show ?thesis
  proof (cases "uxBasePriority (kern s) t = new")
    case True
    then show ?thesis using priority_set_effect [OF t i(3) new] assms by simp
  next
    case False
    define k where "k = (if (if uxBasePriority (kern s) t < new then t \<noteq> current s \<and> uxPriority (kern s) (current s) < new else t = current s)
     then portYIELD (reprioritised t new (kern s)) else reprioritised t new (kern s))"
    have s': "s' = s\<lparr>kern := k\<rparr>" using priority_set_effect [OF t i(3) new] assms(2) False by (simp add: k_def)
    show ?thesis
    proof (rule sys_okI)
      show "kern_inv (kern s')" using kern_inv_reprioritised [OF i(1) False k_def] by (simp add: s')
      show "notify_ok s'" by (rule notify_ok_mono [OF i(2)]) (auto simp: s' k_def)
    qed (use i s' in simp_all)
  qed
qed

lemma sys_ok_kernel:
  assumes "sys_ok s" and "kern_inv k" and "\<And>t. container k (EventItem t) \<in> {None, container (kern s) (EventItem t)}"
  shows "sys_ok (s\<lparr>kern := k\<rparr>)"
proof (rule sys_okI)
  show "notify_ok (s\<lparr>kern := k\<rparr>)" by (rule notify_ok_mono [OF sys_okD(2) [OF assms(1)]]) (use assms(3) in simp_all)
qed (use sys_okD [OF assms(1)] assms(2) in simp_all)

lemma sys_ok_state:
  assumes "sys_ok s" and "\<And>u. n u = taskWAITING_NOTIFICATION \<Longrightarrow> ucNotifyState s u = taskWAITING_NOTIFICATION"
  shows "sys_ok (s\<lparr>ucNotifyState := n, ulNotifiedValue := v\<rparr>)"
proof (rule sys_okI)
  show "notify_ok (s\<lparr>ucNotifyState := n, ulNotifiedValue := v\<rparr>)"
    by (rule notify_ok_mono [OF sys_okD(2) [OF assms(1)]]) (use assms(2) in simp_all)
qed (use sys_okD [OF assms(1)] in simp_all)

lemma sys_ok_set_notified: "sys_ok s \<Longrightarrow> st \<noteq> taskWAITING_NOTIFICATION \<Longrightarrow> sys_ok (set_notified t st v s)"
  unfolding set_notified_def by (rule sys_ok_state) (auto split: if_splits)

text \<open>The receiver of a notification becomes ready if it waits for one.\<close>

lemma sys_ok_notify:
  assumes "sys_ok s" and "xTaskGenericNotify h idx v a s = Some (r, p, s')"
  shows "sys_ok s'"
proof -
  note i = sys_okD [OF assms(1)]
  obtain t where t: "h = Some t" using assms(2) by (auto simp: xTaskGenericNotify_def bind_eq_Some_conv split: if_splits)
  obtain ok new where n: "notify_value a (ucNotifyState s t) v (ulNotifiedValue s t) = (ok, new)" by fastforce
  let ?s = "set_notified t taskNOTIFICATION_RECEIVED new s"
  show ?thesis
  proof (cases "ucNotifyState s t = taskWAITING_NOTIFICATION")
    case True
    have e: "container (kern s) (EventItem t) = None" using i(2) True by (simp add: notify_ok_def)
    have lv: "t \<in> live (kern s)"
      using assms(2) t n True by (auto simp: xTaskGenericNotify_def bind_eq_Some_conv split: if_splits dest: list_remove_live)
    have "Some s' = taskYIELD_ANY_CORE_IF_USING_PREEMPTION t (?s\<lparr>kern := readied t (kern ?s)\<rparr>)"
      using assms(2) t n True e lv
      by (auto simp: xTaskGenericNotify_def list_remove_detach_if live_def bind_eq_Some_conv readied_def split: if_splits)
    then have "s' = ?s\<lparr>kern := (if uxPriority (kern s) (current s) < uxPriority (kern s) t then portYIELD (readied t (kern s)) else readied t (kern s))\<rparr>"
      using yield_any [of ?s t] i(3) by simp
    then show ?thesis
      using sys_ok_notified [OF assms(1) lv e, of _ new] by metis
  next
    case False
    then have "s' = ?s" using assms(2) t n by (simp add: xTaskGenericNotify_def split: if_splits)
    then show ?thesis using sys_ok_set_notified [OF assms(1), of taskNOTIFICATION_RECEIVED t new] by simp
  qed
qed

lemma wake_from_ISR_effect:
  assumes "sys_ok s" and "ucNotifyState s t = taskWAITING_NOTIFICATION"
    and "notify_wake_from_ISR t (set_notified t taskNOTIFICATION_RECEIVED new s) = Some (w, s')"
  shows "sys_ok s'"
proof -
  note i = sys_okD [OF assms(1)]
  have e: "container (kern s) (EventItem t) = None" using i(2) assms(2) by (simp add: notify_ok_def)
  have lv: "t \<in> live (kern s)"
    using assms(3) e i(5) by (auto simp: notify_wake_from_ISR_def bind_eq_Some_conv split: if_splits dest: list_remove_live)
  define k where "k = (if uxPriority (kern s) (current s) < uxPriority (kern s) t then (readied t (kern s))\<lparr>xYieldPending := True\<rparr> else readied t (kern s))"
  have "s' = (set_notified t taskNOTIFICATION_RECEIVED new s)\<lparr>kern := k\<rparr>"
    using assms(3) e lv i(3,5)
    by (auto simp: notify_wake_from_ISR_def list_remove_detach_if live_def k_def readied_def [symmetric] split: if_splits)
  then show ?thesis
    using sys_ok_notified [OF assms(1) lv e, of k new] by (simp only: k_def simp_thms)
qed

lemma sys_ok_notify_isr:
  assumes "sys_ok s" and "xTaskGenericNotifyFromISR h idx v a s = Some (r, p, w, s')"
  shows "sys_ok s'"
proof -
  obtain t where t: "h = Some t" using assms(2) by (auto simp: xTaskGenericNotifyFromISR_def bind_eq_Some_conv)
  obtain ok new where n: "notify_value a (ucNotifyState s t) v (ulNotifiedValue s t) = (ok, new)" by fastforce
  show ?thesis
  proof (cases "ucNotifyState s t = taskWAITING_NOTIFICATION")
    case True
    then show ?thesis
      using assms(2) t n wake_from_ISR_effect [OF assms(1) True, of new w s']
      by (auto simp: xTaskGenericNotifyFromISR_def bind_eq_Some_conv split: if_splits)
  next
    case False
    then have "s' = set_notified t taskNOTIFICATION_RECEIVED new s" using assms(2) t n by (simp add: xTaskGenericNotifyFromISR_def split: if_splits)
    then show ?thesis using sys_ok_set_notified [OF assms(1), of taskNOTIFICATION_RECEIVED t new] by simp
  qed
qed

lemma sys_ok_give_isr:
  assumes "sys_ok s" and "vTaskGenericNotifyGiveFromISR h idx s = Some (w, s')"
  shows "sys_ok s'"
proof -
  obtain t where t: "h = Some t" using assms(2) by (auto simp: vTaskGenericNotifyGiveFromISR_def bind_eq_Some_conv)
  show ?thesis
  proof (cases "ucNotifyState s t = taskWAITING_NOTIFICATION")
    case True
    then show ?thesis
      using assms(2) t wake_from_ISR_effect [OF assms(1) True, of _ w s']
      by (auto simp: vTaskGenericNotifyGiveFromISR_def split: if_splits)
  next
    case False
    then have "s' = set_notified t taskNOTIFICATION_RECEIVED (ulNotifiedValue s t + 1) s"
      using assms(2) t by (simp add: vTaskGenericNotifyGiveFromISR_def split: if_splits)
    then show ?thesis using sys_ok_set_notified [OF assms(1), of taskNOTIFICATION_RECEIVED t "ulNotifiedValue s t + 1"] by simp
  qed
qed


text \<open>The blocking part of a wait, without interrupts inside it, and the end of a wait.\<close>

lemma notify_block_effect:
  assumes "notify_block waits prepare ticks (\<lambda>_. Some) s = Some s'" and "waits s \<and> ticks > 0"
    and w: "waits (s\<lparr>kern := vTaskSuspendAll (kern s)\<rparr>) = waits s"
    and p: "\<And>s. kern (prepare s) = kern s \<and> ucNotifyState (prepare s) = ucNotifyState s \<and> no_current (prepare s) = no_current s
      \<and> xSchedulerRunning (prepare s) = xSchedulerRunning s"
  obtains k1 y k2 where "prvAddCurrentTaskToDelayedList ticks True (vTaskSuspendAll (kern s)) = Some k1" "xTaskResumeAll k1 = Some (y, k2)"
    "s' = (prepare (s\<lparr>kern := vTaskSuspendAll (kern s)\<rparr>))\<lparr>ucNotifyState := (ucNotifyState s)(current s := taskWAITING_NOTIFICATION),
      kern := (if y then k2 else portYIELD k2)\<rparr>"
  using assms by (auto simp: notify_block_def Let_def on_kernel_def bind_eq_Some_conv map_option_case split: option.splits if_splits)

lemma sys_ok_block:
  assumes "sys_ok s" and "\<not> pendsv (kern s)" and "notify_block waits prepare ticks (\<lambda>_. Some) s = Some s'"
    and w: "waits (s\<lparr>kern := vTaskSuspendAll (kern s)\<rparr>) = waits s"
    and p: "\<And>s. kern (prepare s) = kern s \<and> ucNotifyState (prepare s) = ucNotifyState s \<and> no_current (prepare s) = no_current s
      \<and> xSchedulerRunning (prepare s) = xSchedulerRunning s"
  shows "sys_ok s'"
proof (cases "waits s \<and> ticks > 0")
  case True
  note i = sys_okD [OF assms(1)]
  let ?s0 = "s\<lparr>kern := vTaskSuspendAll (kern s)\<rparr>"
  let ?s1 = "(prepare ?s0)\<lparr>ucNotifyState := (ucNotifyState s)(current s := taskWAITING_NOTIFICATION)\<rparr>"
  obtain k1 y k2 where k: "prvAddCurrentTaskToDelayedList ticks True (vTaskSuspendAll (kern s)) = Some k1" "xTaskResumeAll k1 = Some (y, k2)"
    and s': "s' = ?s1\<lparr>kern := (if y then k2 else portYIELD k2)\<rparr>"
    using notify_block_effect [OF assms(3) True w p] by blast
  note b = kern_inv_block [OF i(1) assms(2) _ k]
  have "kern_inv (kern s')" using b(1) True s' by simp
  moreover have "container (kern s) (EventItem (current s)) = None"
    using not_pending_ready [OF i(1) assms(2)] i(1) current_ready_kernel(1) by (auto simp: kern_inv_def)
  then have "notify_ok s'"
    using b(2) True i(2) by (fastforce simp: notify_ok_def s')
  ultimately show ?thesis using i p by (intro sys_okI) (simp_all add: s')
next
  case False
  then have "s' = s" using assms(3) by (auto simp: notify_block_def)
  then show ?thesis using assms(1) by simp
qed

definition created :: "nat \<Rightarrow> nat \<Rightarrow> kernel \<Rightarrow> kernel" where
  "created t prio k = k\<lparr>item_value := (item_value k)(StateItem t := 0, EventItem t := of_nat configMAX_PRIORITIES - of_nat prio),
    container := (container k)(StateItem t := None, EventItem t := None), uxPriority := (uxPriority k)(t := prio),
    uxBasePriority := (uxBasePriority k)(t := prio), uxMutexesHeld := (uxMutexesHeld k)(t := 0),
    uxCurrentNumberOfTasks := uxCurrentNumberOfTasks k + 1\<rparr>"

lemma create_result:
  assumes "sys_ok s" and "container (kern s) (StateItem t) = None" and "container (kern s) (EventItem t) = None"
    and "xTaskCreateStatic e code nm depth par prio stack t s = Some (t', s')"
  defines "k \<equiv> prvAddTaskToReadyList t (created t prio (kern s))"
  shows "kern s' = (if uxPriority (kern s) (current s) < prio then portYIELD k else k)"
    and "no_current s' = False" and "xSchedulerRunning s'" and "ucNotifyState s' = (ucNotifyState s)(t := taskNOT_WAITING_NOTIFICATION)"
    and "current s \<noteq> t"
proof -
  note i = sys_okD [OF assms(1)]
  let ?k = "created t prio (kern s)"
  show nc: "current s \<noteq> t" using kern_invD(6) [OF i(1)] assms(2) by (auto simp: live_def)
  obtain s1 where s1: "prvCreateStaticTask e code nm depth par prio stack t s = Some (t, s1)" "prvAddNewTaskToReadyList t s1 = Some s'"
    using assms(4) by (auto simp: xTaskCreateStatic_def prvCreateStaticTask_def bind_eq_Some_conv Let_def split: if_splits)
  have f: "no_current s1 = no_current s" "xSchedulerRunning s1 = xSchedulerRunning s"
    "ucNotifyState s1 = (ucNotifyState s)(t := taskNOT_WAITING_NOTIFICATION)" "(kern s1)\<lparr>uxCurrentNumberOfTasks := uxCurrentNumberOfTasks (kern s) + 1\<rparr> = ?k"
    "uxCurrentNumberOfTasks (kern s1) = uxCurrentNumberOfTasks (kern s)" "uxPriority (kern s1) = (uxPriority (kern s))(t := prio)"
    "pxCurrentTCB (kern s1) = current s"
    using s1(1) by (auto simp: created_def prvCreateStaticTask_def prvInitialiseNewTask_def clear_TCB_def Let_def bind_eq_Some_conv fun_upd_twist
        split: if_splits prod.splits)
  have "kern s' = (if uxPriority (kern s) (current s) < prio then portYIELD k else k) \<and> no_current s' = False \<and> xSchedulerRunning s'
    \<and> ucNotifyState s' = ucNotifyState s1"
    using s1(2) f i(3,4) nc
    by (cases "uxPriority (kern s) (current s) < prio";
        auto simp: prvAddNewTaskToReadyList_def taskYIELD_ANY_CORE_IF_USING_PREEMPTION_def Let_def k_def)+
  then show "kern s' = (if uxPriority (kern s) (current s) < prio then portYIELD k else k)" "no_current s' = False" "xSchedulerRunning s'"
    "ucNotifyState s' = (ucNotifyState s)(t := taskNOT_WAITING_NOTIFICATION)" using f(3) by simp_all
qed

lemma sys_ok_create:
  assumes "sys_ok s" and "container (kern s) (StateItem t) = None" and "container (kern s) (EventItem t) = None"
    and "xTaskCreateStatic e code nm depth par prio stack t s = Some (t', s')"
  shows "sys_ok s'"
proof -
  note i = sys_okD [OF assms(1)]
  let ?k = "created t prio (kern s)"
  have c: "container ?k = container (kern s)" using assms(2,3) by (auto simp: created_def)
  define k where "k = (if uxPriority ?k (pxCurrentTCB ?k) < prio then portYIELD (prvAddTaskToReadyList t ?k) else prvAddTaskToReadyList t ?k)"
  note r = create_result [OF assms]
  have s': "kern s' = k" using r(1,5) by (simp add: k_def created_def)
  have "kern_inv k"
    unfolding k_def by (rule kern_inv_created [OF i(1) assms(2,3) _ c]) (simp_all add: created_def)
  moreover have "container k (EventItem u) \<in> {None, container (kern s) (EventItem u)}" for u by (auto simp: k_def c)
  then have "notify_ok s'"
    by (intro notify_ok_mono [OF i(2)]) (auto simp: s' r(4) split: if_splits)
  ultimately show ?thesis using r s' by (intro sys_okI) simp_all
qed

lemma delete_result:
  assumes "sys_ok s" and "vTaskDelete ucHeap h s = Some s'" and "prvGetTCBFromHandle h s = Some t"
    and "ucStaticallyAllocated s t = tskSTATICALLY_ALLOCATED_STACK_AND_TCB"
  shows "t \<in> live (kern s)"
    and "kern s' = (if t = current s then portYIELD (moved_to TasksWaitingTermination t (kern s)) else prvResetNextTaskUnblockTime (unlisted t (kern s)))"
    and "no_current s' = False" and "xSchedulerRunning s'" and "ucNotifyState s' = ucNotifyState s"
proof -
  note i = sys_okD [OF assms(1)]
  show lv: "t \<in> live (kern s)"
    using assms(2,3) by (auto simp: vTaskDelete_def delete_section_def bind_eq_Some_conv dest: list_remove_live)
  have "kern s' = (if t = current s then portYIELD (moved_to TasksWaitingTermination t (kern s)) else prvResetNextTaskUnblockTime (unlisted t (kern s)))
    \<and> no_current s' = False \<and> xSchedulerRunning s' \<and> ucNotifyState s' = ucNotifyState s"
    using assms(2-4) lv i(3,4,5)
    by (cases "t = current s"; auto simp: vTaskDelete_def delete_section_def prvDeleteTCB_def is_current_def live_def
        moved_to_def unlisted_def list_remove_detach_if Let_def)+
  then show "kern s' = (if t = current s then portYIELD (moved_to TasksWaitingTermination t (kern s)) else prvResetNextTaskUnblockTime (unlisted t (kern s)))"
    "no_current s' = False" "xSchedulerRunning s'" "ucNotifyState s' = ucNotifyState s" by blast+
qed

lemma sys_ok_delete:
  assumes "sys_ok s" and "vTaskDelete ucHeap h s = Some s'" and "prvGetTCBFromHandle h s = Some t"
    and "ucStaticallyAllocated s t = tskSTATICALLY_ALLOCATED_STACK_AND_TCB"
  shows "sys_ok s'"
proof -
  note i = sys_okD [OF assms(1)]
  define k where "k = (if t = current s then portYIELD (moved_to TasksWaitingTermination t (kern s)) else prvResetNextTaskUnblockTime (unlisted t (kern s)))"
  note s' = delete_result [OF assms, folded k_def]
  have "kern_inv k"
    using kern_inv_moved [OF i(1) s'(1), of TasksWaitingTermination "moved_to TasksWaitingTermination t (kern s)"] kern_inv_unlisted [OF i(1) s'(1)]
    by (cases "t = current s") (simp_all add: k_def)
  moreover have "container k (EventItem u) \<in> {None, container (kern s) (EventItem u)}" for u by (auto simp: k_def)
  then have "notify_ok s'" by (intro notify_ok_mono [OF i(2)]) (auto simp: s')
  ultimately show ?thesis using s' by (intro sys_okI) simp_all
qed

lemma sys_ok_reap:
  assumes "sys_ok s" and "\<not> pendsv (kern s)" and "reap_section s = Some (t, s1)" and "prvDeleteTCB ucHeap t s1 = Some s'"
    and "ucStaticallyAllocated s t = tskSTATICALLY_ALLOCATED_STACK_AND_TCB"
  shows "sys_ok s'"
proof -
  note i = sys_okD [OF assms(1)]
  have ok: "kernel_ok (kern s)" and w: "waiting_ok (kern s)" using i(1) by (auto simp: kern_inv_def time_ok_def)
  obtain it where it: "head_entry TasksWaitingTermination (kern s) = Some it" "t = owner it"
    using assms(3) by (auto simp: reap_section_def bind_eq_Some_conv Let_def)
  have "container (kern s) it = Some TasksWaitingTermination" using head_entry_container [OF kernel_ok_lists [OF ok] it(1)] .
  moreover from kernel_ok_fits [OF ok this] have "it = StateItem t" using it(2) by simp
  ultimately have c: "container (kern s) (StateItem t) = Some TasksWaitingTermination" by simp
  have lv: "t \<in> live (kern s)" using c by (simp add: live_def)
  have nc: "t \<noteq> current s" using not_pending_ready [OF i(1) assms(2)] c by (auto simp: current_ready_def)
  have e: "container (kern s) (EventItem t) = None" using w c by (auto simp: waiting_ok_def)
  then have d: "detach_if (EventItem t) (detach_if (StateItem t) (kern s)) = detach_if (StateItem t) (kern s)"
    by (subst detach_if_def) simp
  have "kern s1 = (detach_if (StateItem t) (kern s))\<lparr>uxCurrentNumberOfTasks := uxCurrentNumberOfTasks (kern s) - 1\<rparr>"
    using assms(3) it c by (auto simp: reap_section_def bind_eq_Some_conv list_remove_detach_if Let_def)
  then have "kern s1 = unlisted t (kern s)" unfolding unlisted_def d Let_def by simp
  moreover have "no_current s1 = no_current s" "xSchedulerRunning s1 = xSchedulerRunning s"
    "ucNotifyState s1 = ucNotifyState s" "ucStaticallyAllocated s1 = ucStaticallyAllocated s"
    using assms(3) it c by (auto simp: reap_section_def bind_eq_Some_conv list_remove_detach_if Let_def)
  ultimately have s1: "kern s1 = unlisted t (kern s)" "no_current s1 = no_current s" "xSchedulerRunning s1 = xSchedulerRunning s"
    "ucNotifyState s1 = ucNotifyState s" "ucStaticallyAllocated s1 = ucStaticallyAllocated s" by simp_all
  have "s' = s1" using assms(4,5) s1(5) by (simp add: prvDeleteTCB_def)
  moreover have "kern_inv (unlisted t (kern s))" using kern_inv_unlisted [OF i(1) lv nc] by blast
  moreover have "notify_ok s1" by (intro notify_ok_mono [OF i(2)]) (auto simp: s1)
  ultimately show ?thesis using s1 i by (intro sys_okI) simp_all
qed


section \<open>The system\<close>

text \<open>
  A task runs only while no context switch is pending, which would be taken at once; interrupts
  occur at any time. Tasks are created on and deleted from static memory, and what a new task's
  control block is used for is not listed yet; a wait is modelled by its blocking part and its
  last part, between which the task does not run.
\<close>

inductive task_step :: "task_state \<Rightarrow> task_state \<Rightarrow> bool" where
  suspend: "\<not> pendsv (kern s) \<Longrightarrow> vTaskSuspend h s = Some s' \<Longrightarrow> task_step s s'"
| resume: "\<not> pendsv (kern s) \<Longrightarrow> vTaskResume h s = Some s' \<Longrightarrow> task_step s s'"
| priority: "\<not> pendsv (kern s) \<Longrightarrow> vTaskPrioritySet h new s = Some s' \<Longrightarrow> task_step s s'"
| delay: "\<not> pendsv (kern s) \<Longrightarrow> vTaskDelay ticks (kern s) = Some k \<Longrightarrow> task_step s (s\<lparr>kern := k\<rparr>)"
| delay_until: "\<not> pendsv (kern s) \<Longrightarrow> xTaskDelayUntil prev inc (kern s) = Some (d, w, k) \<Longrightarrow> task_step s (s\<lparr>kern := k\<rparr>)"
| notify: "\<not> pendsv (kern s) \<Longrightarrow> xTaskGenericNotify h idx v a s = Some (ok, p, s') \<Longrightarrow> task_step s s'"
| take_block: "\<not> pendsv (kern s) \<Longrightarrow>
    notify_block (\<lambda>s. ulNotifiedValue s (current s) = 0) (\<lambda>s. s) ticks (\<lambda>_. Some) s = Some s' \<Longrightarrow> task_step s s'"
| wait_block: "\<not> pendsv (kern s) \<Longrightarrow>
    notify_block (\<lambda>s. ucNotifyState s (current s) \<noteq> taskNOTIFICATION_RECEIVED) (clear_bits bits) ticks (\<lambda>_. Some) s = Some s' \<Longrightarrow>
    task_step s s'"
| take_end: "\<not> pendsv (kern s) \<Longrightarrow> task_step s (snd (take_finish clear s))"
| wait_end: "\<not> pendsv (kern s) \<Longrightarrow> task_step s (snd (snd (wait_finish bits s)))"
| state_clear: "\<not> pendsv (kern s) \<Longrightarrow> xTaskGenericNotifyStateClear h idx s = Some (ok, s') \<Longrightarrow> task_step s s'"
| value_clear: "\<not> pendsv (kern s) \<Longrightarrow> ulTaskGenericNotifyValueClear h idx bits s = Some (v, s') \<Longrightarrow> task_step s s'"
| create: "\<not> pendsv (kern s) \<Longrightarrow> container (kern s) (StateItem t) = None \<Longrightarrow> container (kern s) (EventItem t) = None \<Longrightarrow>
    xTaskCreateStatic e code nm depth par prio stack t s = Some (t', s') \<Longrightarrow> task_step s s'"
| delete: "\<not> pendsv (kern s) \<Longrightarrow> prvGetTCBFromHandle h s = Some t \<Longrightarrow>
    ucStaticallyAllocated s t = tskSTATICALLY_ALLOCATED_STACK_AND_TCB \<Longrightarrow> vTaskDelete ucHeap h s = Some s' \<Longrightarrow> task_step s s'"
| reap: "\<not> pendsv (kern s) \<Longrightarrow> reap_section s = Some (t, s1) \<Longrightarrow>
    ucStaticallyAllocated s t = tskSTATICALLY_ALLOCATED_STACK_AND_TCB \<Longrightarrow> prvDeleteTCB ucHeap t s1 = Some s' \<Longrightarrow> task_step s s'"
| resume_isr: "xTaskResumeFromISR h s = Some (w, s') \<Longrightarrow> task_step s s'"
| notify_isr: "xTaskGenericNotifyFromISR h idx v a s = Some (ok, p, w, s') \<Longrightarrow> task_step s s'"
| give_isr: "vTaskGenericNotifyGiveFromISR h idx s = Some (w, s') \<Longrightarrow> task_step s s'"
| tick: "xPortSysTickHandler maxpri port (kern s) = Some (port', k) \<Longrightarrow> task_step s (s\<lparr>kern := k\<rparr>)"
| switch: "pendsv (kern s) \<Longrightarrow> xPortPendSVHandler (kern s) = Some k \<Longrightarrow> task_step s (s\<lparr>kern := k\<rparr>)"

lemma sys_ok_tick:
  assumes "sys_ok s" and "xPortSysTickHandler maxpri port (kern s) = Some (port', k)"
  shows "sys_ok (s\<lparr>kern := k\<rparr>)"
proof -
  obtain sw k1 where t: "xTaskIncrementTick (kern s) = Some (sw, k1)"
    using assms(2) by (cases "xTaskIncrementTick (kern s)") (auto simp: xPortSysTickHandler_def)
  then have "k = (if sw then portYIELD k1 else k1)"
    using assms(2) by (simp add: xPortSysTickHandler_def Let_def split: if_splits)
  then show ?thesis
    using sys_ok_kernel [OF assms(1), of k] kern_inv_tick [OF sys_okD(1) [OF assms(1)], of sw k1] t by (simp split: if_splits)
qed

lemma sys_ok_step: "task_step s s' \<Longrightarrow> sys_ok s \<Longrightarrow> sys_ok s'"
proof (induction rule: task_step.induct)
  case (delay s ticks k)
  then show ?case using kern_inv_delay [OF sys_okD(1)] sys_ok_kernel by blast
next
  case (delay_until s prev inc d w k)
  note i = kern_inv_delay_until [OF sys_okD(1) [OF delay_until(3)] delay_until(1,2)]
  show ?case by (rule sys_ok_kernel [OF delay_until(3) i])
next
  case (take_block s ticks s')
  then show ?case by (intro sys_ok_block [OF take_block(3,1,2)]) auto
next
  case (wait_block s bits ticks s')
  then show ?case by (intro sys_ok_block [OF wait_block(3,1,2)]) (auto simp: clear_bits_def)
next
  case (take_end s clear)
  then show ?case by (auto simp: take_finish_def Let_def intro: sys_ok_set_notified)
next
  case (wait_end s bits)
  then show ?case by (auto simp: wait_finish_def Let_def intro: sys_ok_set_notified)
next
  case (state_clear s h idx ok s')
  then show ?case
    by (auto simp: xTaskGenericNotifyStateClear_def bind_eq_Some_conv split: if_splits
        intro!: sys_ok_state [of s _ "ulNotifiedValue s", simplified])
next
  case (value_clear s h idx bits v s')
  then show ?case
    using sys_ok_state [of s "ucNotifyState s"] by (auto simp: ulTaskGenericNotifyValueClear_def bind_eq_Some_conv split: if_splits)
next
  case (switch s k)
  then show ?case using kern_inv_switch [OF sys_okD(1)] by (intro sys_ok_kernel) auto
qed (blast intro: sys_ok_suspend sys_ok_resume sys_ok_priority sys_ok_notify sys_ok_create sys_ok_delete sys_ok_reap
    sys_ok_resume_isr sys_ok_notify_isr sys_ok_give_isr sys_ok_tick)+

text \<open>
  C10: the scheduler is preemptive by priority. From a consistent state, under any sequence of
  suspensions, resumptions, priority changes, delays, notifications, creations and deletions of
  tasks, of ticks, interrupts and context switches, whenever a task runs and no switch is pending or
  noted for the next tick, it is ready and no ready task has a higher priority; the lists and wake
  times are consistent, the number of tasks is the number of control blocks in a list, and a
  task that waits for a notification is in no event list, so that the assertion of its sender holds.
\<close>
theorem most_urgent_task_runs:
  assumes "task_step\<^sup>*\<^sup>* s s'" and "sys_ok s"
  shows "(\<not> pendsv (kern s') \<longrightarrow> current_ready (kern s'))
    \<and> (\<not> pendsv (kern s') \<and> \<not> xYieldPending (kern s') \<longrightarrow> most_urgent (kern s'))
    \<and> (\<exists>T. time_ok T (kern s')) \<and> uxCurrentNumberOfTasks (kern s') = card {t. container (kern s') (StateItem t) \<noteq> None}
    \<and> notify_ok s'"
proof -
  have "sys_ok s'" using assms by (induction rule: rtranclp_induct) (auto intro: sys_ok_step)
  then show ?thesis by (auto simp: sys_ok_def kern_inv_def switch_ok_def live_def)
qed

lemma sample_sys_ok: "sys_ok sample_tasks"
proof -
  have lv: "live sample_kernel = {0, 1, 2}" by (auto simp: live_def sample_kernel_def split: if_splits)
  have c: "current_ready sample_kernel" by (simp add: current_ready_def sample_kernel_def)
  have "most_urgent sample_kernel" by (auto simp: most_urgent_def sample_kernel_def split: if_splits)
  with c have "switch_ok sample_kernel" by (simp add: switch_ok_def)
  then have "kern_inv sample_kernel"
    using sample_kernel_time lv by (intro kern_invI [of 99]) (auto simp: sample_kernel_def)
  moreover have "notify_ok sample_tasks" by (simp add: notify_ok_def sample_tasks_def)
  ultimately show ?thesis by (simp add: sys_ok_def)
qed

lemma most_urgent_task_runs_witness:
  "\<exists>s'. task_step\<^sup>*\<^sup>* sample_tasks s' \<and> s' \<noteq> sample_tasks \<and> (\<exists>T. time_ok T (kern s')) \<and> notify_ok s'"
proof -
  have "vTaskDelay 0 sample_kernel = Some (portYIELD sample_kernel)" by (simp add: vTaskDelay_def)
  then have "task_step sample_tasks (sample_tasks\<lparr>kern := portYIELD sample_kernel\<rparr>)"
    using task_step.delay [of sample_tasks 0 "portYIELD sample_kernel"] by (simp add: sample_kernel_def)
  then have r: "task_step\<^sup>*\<^sup>* sample_tasks (sample_tasks\<lparr>kern := portYIELD sample_kernel\<rparr>)" by blast
  have "kern (sample_tasks\<lparr>kern := portYIELD sample_kernel\<rparr>) \<noteq> kern sample_tasks"
    by (simp add: portYIELD_def sample_kernel_def)
  then have "sample_tasks\<lparr>kern := portYIELD sample_kernel\<rparr> \<noteq> sample_tasks" by metis
  then show ?thesis using most_urgent_task_runs [OF r sample_sys_ok] r by blast
qed

end
