(* ===== verification/Rtos_Life_Heap.thy ===== *)
theory Rtos_Life_Heap
  imports Rtos_Life_Inv
begin

text \<open>
  Tasks and the allocator: a creation that finds no memory leaves the heap as it was, and
  deleting a task gives back exactly what its creation took.
\<close>

section \<open>A layout is determined by its blocks in use\<close>

definition blocks :: "segs \<Rightarrow> nat \<rightharpoonup> nat" where
  "blocks ss off = (if used_at off ss then Some (size_at off ss) else None)"

lemma blocks_Cons: "blocks ((n, u) # ss) off =
    (if off = 0 then if u then Some n else None else if n \<le> off then blocks ss (off - n) else None)"
  by (simp add: blocks_def)

lemma blocks_tail: "0 < n \<Longrightarrow> blocks ((n, u) # ss) (n + off) = blocks ss off"
  by (simp add: blocks_Cons)

lemma blocks_Nil [simp]: "blocks [] off = None"
  by (simp add: blocks_def)

lemma free_head_unique:
  assumes "sized ((n, False) # xs)" and "sized ((m, False) # ys)" and "coalesced ((n, False) # xs)" and "n < m"
    and "span ((n, False) # xs) = span ((m, False) # ys)"
  shows "blocks ((n, False) # xs) \<noteq> blocks ((m, False) # ys)"
proof -
  have "xs \<noteq> []" using assms(4,5) by auto
  then obtain k xs' where "xs = (k, True) # xs'" using assms(3) by (cases xs) (auto simp: coalesced_Cons)
  then have "blocks ((n, False) # xs) n = Some k" using assms(1) by (simp add: blocks_Cons)
  moreover have "blocks ((m, False) # ys) n = None" using assms(1,4) by (auto simp: blocks_Cons)
  ultimately show ?thesis by (metis option.discI)
qed

lemma layout_unique:
  "sized xs \<Longrightarrow> sized ys \<Longrightarrow> coalesced xs \<Longrightarrow> coalesced ys \<Longrightarrow> span xs = span ys \<Longrightarrow> blocks xs = blocks ys \<Longrightarrow> xs = ys"
proof (induction xs arbitrary: ys)
  case Nil
  then show ?case by (cases ys) auto
next
  case (Cons x xs)
  obtain n u where x: "x = (n, u)" by (cases x)
  obtain m v ys' where ys: "ys = (m, v) # ys'" using Cons.prems(1,5) x by (cases ys) auto
  have pos: "0 < n" "0 < m" using Cons.prems(1,2) by (auto simp: x ys)
  have "blocks (x # xs) 0 = blocks ys 0" using Cons.prems(6) by simp
  then have uv: "u = v" "u \<Longrightarrow> n = m" by (auto simp: x ys blocks_Cons split: if_splits)
  have "n = m"
  proof (cases u)
    case False
    then show ?thesis
      using free_head_unique [of n xs m ys'] free_head_unique [of m ys' n xs] Cons.prems uv(1)
      by (metis linorder_neqE_nat x ys)
  qed (rule uv(2))
  moreover have "blocks xs = blocks ys'"
  proof
    fix off
    have "blocks (x # xs) (n + off) = blocks ys (n + off)" using Cons.prems(6) by simp
    then show "blocks xs off = blocks ys' off" using blocks_tail [OF pos(1)] \<open>n = m\<close> by (simp add: x ys)
  qed
  then have "xs = ys'" using Cons.prems \<open>n = m\<close> by (intro Cons.IH) (simp_all add: x ys coalesced_Cons)
  ultimately show ?case using uv(1) by (simp add: x ys)
qed

lemma blocks_merge: "sized ss \<Longrightarrow> blocks (merge ss) = blocks ss"
  using used_at_merge by (auto simp: blocks_def fun_eq_iff)

lemma released:
  "sized ss \<Longrightarrow> used_at off ss \<Longrightarrow> blocks (release off ss) = (blocks ss)(off := None) \<and> sized (release off ss) \<and> span (release off ss) = span ss"
proof (induction ss arbitrary: off)
  case (Cons s ss)
  obtain n u where s: "s = (n, u)" by (cases s)
  show ?case
  proof (cases "off = 0")
    case True
    then show ?thesis using Cons.prems by (auto simp: s blocks_Cons fun_eq_iff)
  next
    case False
    then have "n \<le> off" "used_at (off - n) ss" "sized ss" using Cons.prems by (auto simp: s)
    with Cons.IH have "blocks (release (off - n) ss) = (blocks ss)(off - n := None)" "sized (release (off - n) ss)"
      "span (release (off - n) ss) = span ss" by auto
    then show ?thesis using False \<open>n \<le> off\<close> Cons.prems(1) by (auto simp: s blocks_Cons fun_eq_iff)
  qed
qed simp

lemma allocated:
  "sized ss \<Longrightarrow> alloc_first m ss = Some (off, ss') \<Longrightarrow> 0 < m \<Longrightarrow>
   (blocks ss')(off := None) = blocks ss \<and> blocks ss off = None \<and> used_at off ss' \<and> span ss' = span ss"
proof (induction ss arbitrary: off ss')
  case (Cons s ss)
  obtain n u where s: "s = (n, u)" by (cases s)
  show ?case
  proof (cases "\<not> u \<and> m \<le> n")
    case True
    then show ?thesis using Cons.prems by (auto simp: s blocks_Cons fun_eq_iff)
  next
    case False
    then obtain o1 s1 where r: "alloc_first m ss = Some (o1, s1)" "off = n + o1" "ss' = (n, u) # s1"
      using Cons.prems by (auto simp: s)
    have sz: "sized ss" "0 < n" using Cons.prems(1) by (auto simp: s)
    from Cons.IH [OF sz(1) r(1) Cons.prems(3)]
    have "(blocks s1)(o1 := None) = blocks ss" "blocks ss o1 = None" "used_at o1 s1" "span s1 = span ss" by blast+
    moreover from this(1) have "off' \<noteq> o1 \<Longrightarrow> blocks s1 off' = blocks ss off'" for off' by (metis fun_upd_other)
    ultimately show ?thesis using sz(2) by (auto simp: r(2,3) s blocks_Cons fun_eq_iff)
  qed
qed simp


section \<open>Creation and deletion\<close>

text \<open>Two allocations and the releases of both, in the order of \<open>prvDeleteTCB\<close>.\<close>

lemma first_fit_alloc: "first_fit n ss = Some (off, ss') \<Longrightarrow> alloc_first (rounded n) ss = Some (off, ss')"
  by (simp add: first_fit_def split: if_splits)

lemma release_allocated:
  assumes "heap_ok ucHeap h ss'" and "sized ss" and "coalesced ss" and "first_fit n ss = Some (off, ss')"
  shows "merge (release off ss') = ss"
proof -
  note a = allocated [OF assms(2) first_fit_alloc [OF assms(4)] rounded_pos(1)]
  note r = released [OF heap_okD(2) [OF assms(1)], of off]
  have sz: "sized (release off ss')" using a r by blast
  have "blocks (merge (release off ss')) = blocks ss" using a r blocks_merge [OF sz] by metis
  moreover have "span (merge (release off ss')) = span ss" using a r by simp
  ultimately show ?thesis using assms(2,3) sz by (intro layout_unique) simp_all
qed

lemma release_both:
  assumes "sized ss" and "coalesced ss" and "first_fit n ss = Some (o1, s1)" and "sized s1" and "first_fit m s1 = Some (o2, s2)" and "sized s2"
  shows "used_at o1 s2" and "used_at o2 (merge (release o1 s2))" and "merge (release o2 (merge (release o1 s2))) = ss"
proof -
  note a1 = allocated [OF assms(1) first_fit_alloc [OF assms(3)] rounded_pos(1)]
  note a2 = allocated [OF assms(4) first_fit_alloc [OF assms(5)] rounded_pos(1)]
  have u1: "used_at o1 s1" and u2: "used_at o2 s2" using a1 a2 by blast+
  have ne: "o1 \<noteq> o2" using a2 u1 by (auto simp: blocks_def)
  have b2: "(blocks s2)(o2 := None) = blocks s1" using a2 by blast
  have "blocks s2 o1 = blocks s1 o1" using ne b2 by (metis fun_upd_other)
  then show u: "used_at o1 s2" using u1 by (simp add: blocks_def split: if_splits)
  let ?r = "merge (release o1 s2)"
  have r1: "blocks ?r = (blocks s2)(o1 := None)" "sized ?r" "span ?r = span s2"
    using released [OF assms(6) u] blocks_merge [of "release o1 s2"] by simp_all
  have "blocks ?r o2 = blocks s2 o2" using r1(1) ne by simp
  then show v: "used_at o2 ?r" using u2 by (simp add: blocks_def split: if_splits)
  let ?q = "merge (release o2 ?r)"
  have r2: "blocks ?q = (blocks ?r)(o2 := None)" "sized ?q" "span ?q = span ?r"
    using released [OF r1(2) v] blocks_merge [of "release o2 ?r"] by simp_all
  have "blocks ?q = (blocks s1)(o1 := None)" using r1(1) r2(1) b2 ne by (metis fun_upd_twist)
  then have "blocks ?q = blocks ss" using a1 by simp
  moreover have "span ?q = span ss" using r2(3) r1(3) a1 a2 by simp
  ultimately show "?q = ss" using assms(1,2) r2(2) by (intro layout_unique) simp_all
qed


lemma heap_state_coalesced: "heap_state ucHeap h ss \<Longrightarrow> coalesced ss"
  using heap_okD(3) by (auto simp: heap_state_def split: if_splits)

text \<open>What the allocator does to the scheduler.\<close>

definition same_tasks :: "kernel \<Rightarrow> kernel \<Rightarrow> bool" where
  "same_tasks k k' \<longleftrightarrow> live k' = live k \<and> pxCurrentTCB k' = pxCurrentTCB k
     \<and> (\<forall>t. container k (EventItem t) = None \<longrightarrow> container k' (EventItem t) = None)"

lemma same_tasks_trans: "same_tasks k k1 \<Longrightarrow> same_tasks k1 k2 \<Longrightarrow> same_tasks k k2"
  by (simp add: same_tasks_def)

lemma resume_same_tasks:
  assumes "calm T k" and "xTaskResumeAll (vTaskSuspendAll k) = Some (y, k')"
  shows "same_tasks k k'"
proof -
  have "time_ok T (vTaskSuspendAll k)" "uxSchedulerSuspended (vTaskSuspendAll k) = 1" "0 < uxCurrentNumberOfTasks (vTaskSuspendAll k)"
    using assms(1) by (simp_all add: calm_def)
  note r = resume_live [OF this assms(2)]
  show ?thesis using r(1,2,6) by (fastforce simp: same_tasks_def)
qed

lemma task_malloc_effect:
  assumes "heap_state ucHeap (heap s) ss" and "0 < ucHeap" and "calm T (kern s)"
  shows "\<exists>h k T'. task_malloc ucHeap n s = Some (case first_fit (unat n) ss of None \<Rightarrow> NULL | Some (off, _) \<Rightarrow> align_up ucHeap + off + 8,
      s\<lparr>heap := h, kern := k\<rparr>)
    \<and> heap_ok ucHeap h (case first_fit (unat n) ss of None \<Rightarrow> ss | Some (_, ss') \<Rightarrow> ss') \<and> calm T' k \<and> same_tasks (kern s) k"
proof -
  obtain h k where m: "pvPortMalloc ucHeap n (heap s) (kern s) = Some (case first_fit (unat n) ss of None \<Rightarrow> NULL | Some (off, _) \<Rightarrow>
      align_up ucHeap + off + 8, h, k)"
    "heap_ok ucHeap h (case first_fit (unat n) ss of None \<Rightarrow> ss | Some (_, ss') \<Rightarrow> ss')" "calm (T + unat (xPendedTicks (kern s))) k"
    using malloc_effect [OF assms] by blast
  obtain y where "xTaskResumeAll (vTaskSuspendAll (kern s)) = Some (y, k)"
    using m(1) by (auto simp: pvPortMalloc_def Let_def bind_eq_Some_conv split: if_splits)
  then show ?thesis using m resume_same_tasks [OF assms(3)] by (auto simp: task_malloc_def)
qed

lemma task_free_effect:
  assumes "heap_ok ucHeap (heap s) ss" and "calm T (kern s)" and "used_at off ss"
  shows "\<exists>h k T'. task_free ucHeap (align_up ucHeap + off + 8) s = Some (s\<lparr>heap := h, kern := k\<rparr>)
    \<and> heap_ok ucHeap h (merge (release off ss)) \<and> calm T' k \<and> same_tasks (kern s) k"
proof -
  obtain h k where m: "vPortFree ucHeap (align_up ucHeap + off + 8) (heap s) (kern s) = Some (h, k)"
    "heap_ok ucHeap h (merge (release off ss))" "calm (T + unat (xPendedTicks (kern s))) k"
    using free_effect [OF assms] by blast
  obtain y where "xTaskResumeAll (vTaskSuspendAll (kern s)) = Some (y, k)"
    using m(1) by (auto simp: vPortFree_def Let_def bind_eq_Some_conv split: if_splits)
  then show ?thesis using m resume_same_tasks [OF assms(2)] by (auto simp: task_free_def)
qed


text \<open>
  A task that cannot be created leaks nothing. When the heap has no room for the stack, or
  has room for the stack but then none for the control block, \<open>xTaskCreate\<close> returns no task, the
  layout of the heap is the one before the call, and nothing else of the tasks' state changed.
\<close>
theorem failed_creation_leaks_nothing:
  assumes "heap_state ucHeap (heap s) ss" and "0 < ucHeap" and "calm T (kern s)"
    and "case first_fit (unat (depth * 4)) ss of None \<Rightarrow> True | Some (_, s1) \<Rightarrow> first_fit 96 s1 = None"
  shows "\<exists>h k T'. xTaskCreate ucHeap e code nm depth par prio s = Some (None, s\<lparr>heap := h, kern := k\<rparr>)
    \<and> heap_ok ucHeap h ss \<and> calm T' k"
proof -
  obtain h1 k1 T1 where m1: "task_malloc ucHeap (depth * 4) s = Some (case first_fit (unat (depth * 4)) ss of None \<Rightarrow> NULL
      | Some (off, _) \<Rightarrow> align_up ucHeap + off + 8, s\<lparr>heap := h1, kern := k1\<rparr>)"
    "heap_ok ucHeap h1 (case first_fit (unat (depth * 4)) ss of None \<Rightarrow> ss | Some (_, ss') \<Rightarrow> ss')" "calm T1 k1"
    using task_malloc_effect [OF assms(1-3)] by blast
  show ?thesis
  proof (cases "first_fit (unat (depth * 4)) ss")
    case None
    then show ?thesis using m1 by (simp add: xTaskCreate_def prvCreateTask_def) blast
  next
    case (Some r)
    obtain o1 s1 where r: "r = (o1, s1)" by (cases r)
    have f1: "first_fit (unat (depth * 4)) ss = Some (o1, s1)" and f2: "first_fit (unat (96 :: u32)) s1 = None"
      using assms(4) Some r by simp_all
    have ok1: "heap_ok ucHeap h1 s1" using m1(2) f1 by simp
    let ?s = "s\<lparr>heap := h1, kern := k1\<rparr>"
    have st1: "heap_state ucHeap (heap ?s) s1" "calm T1 (kern ?s)" using heap_ok_state [OF ok1 assms(2)] m1(3) by simp_all
    obtain h2 k2 T2 where m2: "task_malloc ucHeap 96 ?s = Some (NULL, ?s\<lparr>heap := h2, kern := k2\<rparr>)" "heap_ok ucHeap h2 s1" "calm T2 k2"
      using task_malloc_effect [OF st1(1) assms(2) st1(2), of 96] unfolding f2 by auto
    let ?t = "?s\<lparr>heap := h2, kern := k2\<rparr>"
    have t: "heap_ok ucHeap (heap ?t) s1" "calm T2 (kern ?t)" using m2 by simp_all
    have "used_at o1 s1" using allocated [OF heap_state_sized [OF assms(1)] first_fit_alloc [OF f1] rounded_pos(1)] by blast
    from task_free_effect [OF t this] obtain h3 k3 T3 where m3: "task_free ucHeap (align_up ucHeap + o1 + 8) ?t = Some (?t\<lparr>heap := h3, kern := k3\<rparr>)"
      "heap_ok ucHeap h3 (merge (release o1 s1))" "calm T3 k3" by blast
    have "merge (release o1 s1) = ss"
      by (rule release_allocated [OF ok1 heap_state_sized [OF assms(1)] heap_state_coalesced [OF assms(1)] f1])
    then show ?thesis using m1(1) m2(1) m3 f1
      by (intro exI [of _ h3] exI [of _ k3] exI [of _ T3]) (simp add: xTaskCreate_def prvCreateTask_def)
  qed
qed

lemma sample_tasks_calm: "calm 99 (kern sample_tasks)" "heap_state ram (heap sample_tasks) [(16376, False)]"
  using sample_calm sample_heap_state by (simp_all add: sample_tasks_def)

lemma failed_creation_leaks_nothing_witness:
  "\<exists>h k T'. xTaskCreate ram 0 0x08000101 [0x6D] 4083 0 1 sample_tasks = Some (None, sample_tasks\<lparr>heap := h, kern := k\<rparr>)
    \<and> heap_ok ram h [(16376, False)] \<and> calm T' k"
  by (rule failed_creation_leaks_nothing [OF sample_tasks_calm(2) _ sample_tasks_calm(1)])
    (simp_all add: first_fit_def rounded_def)

section \<open>Deletion\<close>

lemma initialise_fields:
  "prvInitialiseNewTask e code nm depth par prio t s = Some s' \<Longrightarrow> heap s' = heap s \<and> pxStack s' = pxStack s
    \<and> ucStaticallyAllocated s' = ucStaticallyAllocated s \<and> no_current s' = no_current s \<and> xSchedulerRunning s' = xSchedulerRunning s
    \<and> kern s' = (kern s)\<lparr>uxPriority := (uxPriority (kern s))(t := prio), uxBasePriority := (uxBasePriority (kern s))(t := prio),
        container := (container (kern s))(StateItem t := None, EventItem t := None),
        item_value := (item_value (kern s))(EventItem t := of_nat configMAX_PRIORITIES - of_nat prio)\<rparr>"
  by (auto simp: prvInitialiseNewTask_def Let_def split: if_splits prod.splits)

lemma add_new_fields:
  "prvAddNewTaskToReadyList t s = Some s' \<Longrightarrow> \<not> no_current s \<Longrightarrow> xSchedulerRunning s \<Longrightarrow>
    heap s' = heap s \<and> pxStack s' = pxStack s \<and> ucStaticallyAllocated s' = ucStaticallyAllocated s \<and> \<not> no_current s' \<and> xSchedulerRunning s'
    \<and> (let k = prvAddTaskToReadyList t ((kern s)\<lparr>uxCurrentNumberOfTasks := uxCurrentNumberOfTasks (kern s) + 1\<rparr>)
       in kern s' = k \<or> kern s' = portYIELD k)"
  by (auto simp: prvAddNewTaskToReadyList_def taskYIELD_ANY_CORE_IF_USING_PREEMPTION_def Let_def split: if_splits)

text \<open>The kernel after a creation, from the one after the allocations.\<close>

lemma created_kernel:
  assumes "calm T k" and "container k (StateItem t) = None" and "container k (EventItem t) = None"
    and "kern s = k" and "prvInitialiseNewTask e code nm depth par prio t (clear_TCB t s\<lparr>pxStack := p, ucStaticallyAllocated := a\<rparr>) = Some s1"
    and "prvAddNewTaskToReadyList t s1 = Some s'" and "\<not> no_current s" and "xSchedulerRunning s"
  shows "calm T (kern s')" and "container (kern s') = (container k)(StateItem t \<mapsto> ReadyList prio)"
    and "pxCurrentTCB (kern s') = pxCurrentTCB k" and "heap s' = heap s" and "pxStack s' = p" and "ucStaticallyAllocated s' = a"
    and "\<not> no_current s'" and "xSchedulerRunning s'" and "1 < uxCurrentNumberOfTasks (kern s')"
proof -
  note i = initialise_fields [OF assms(5)]
  have c: "(container k)(StateItem t := None, EventItem t := None) = container k" using assms(2,3) by auto
  have n: "\<not> no_current s1" "xSchedulerRunning s1" using i assms(7,8) by (simp_all add: clear_TCB_def Let_def)
  note a = add_new_fields [OF assms(6) n]
  let ?k0 = "(kern s1)\<lparr>uxCurrentNumberOfTasks := uxCurrentNumberOfTasks (kern s1) + 1\<rparr>"
  have k0: "lists ?k0 = lists k" "container ?k0 = container k" "uxPriority ?k0 = (uxPriority k)(t := prio)"
    "pxDelayedTaskList ?k0 = pxDelayedTaskList k" "pxOverflowDelayedTaskList ?k0 = pxOverflowDelayedTaskList k"
    "xTickCount ?k0 = xTickCount k" "xNextTaskUnblockTime ?k0 = xNextTaskUnblockTime k" "uxTopReadyPriority ?k0 = uxTopReadyPriority k"
    "u \<noteq> t \<Longrightarrow> item_value ?k0 (StateItem u) = item_value k (StateItem u)" for u
    using i assms(4) by (simp_all add: clear_TCB_def Let_def c)
  have t: "time_ok T k" and cm: "uxSchedulerSuspended k = 0" using assms(1) by (simp_all add: calm_def)
  have r: "prvAddTaskToReadyList t ?k0 = readied t ?k0" "time_ok T (readied t ?k0)"
    by (rule time_ok_created [OF t assms(2,3) k0(1-8)], erule k0(9))+
  then have ks: "kern s' = readied t ?k0 \<or> kern s' = portYIELD (readied t ?k0)" using a by (simp add: Let_def)
  have f: "uxSchedulerSuspended ?k0 = 0" "pxCurrentTCB ?k0 = pxCurrentTCB k" "0 < uxCurrentNumberOfTasks ?k0"
    using i assms(4) cm by (simp_all add: clear_TCB_def Let_def)
  show "calm T (kern s')" using ks r(2) f by (elim disjE) (simp_all add: calm_def)
  show "container (kern s') = (container k)(StateItem t \<mapsto> ReadyList prio)" using ks k0(2,3) by (elim disjE) simp_all
  show "pxCurrentTCB (kern s') = pxCurrentTCB k" using ks f by (elim disjE) simp_all
  have "1 < uxCurrentNumberOfTasks ?k0" using i assms(1,4) by (simp add: clear_TCB_def Let_def calm_def)
  then show "1 < uxCurrentNumberOfTasks (kern s')" using ks by (elim disjE) simp_all
  show "heap s' = heap s" "pxStack s' = p" "ucStaticallyAllocated s' = a" "\<not> no_current s'" "xSchedulerRunning s'"
    using a i by (simp_all add: clear_TCB_def Let_def)
qed

lemma creation_effect:
  assumes "heap_state ucHeap (heap s) ss" and "0 < ucHeap" and "calm T (kern s)" and "\<not> no_current s" and "xSchedulerRunning s"
    and "xTaskCreate ucHeap e code nm depth par prio s = Some (Some t, s')"
    and "container (kern s) (StateItem t) = None" and "container (kern s) (EventItem t) = None"
  shows "\<exists>o1 s1 o2 s2 T'. first_fit (unat (depth * 4)) ss = Some (o1, s1) \<and> first_fit 96 s1 = Some (o2, s2) \<and> sized s1
    \<and> t = align_up ucHeap + o2 + 8 \<and> pxStack s' t = align_up ucHeap + o1 + 8 \<and> heap_ok ucHeap (heap s') s2
    \<and> ucStaticallyAllocated s' t = tskDYNAMICALLY_ALLOCATED_STACK_AND_TCB
    \<and> calm T' (kern s') \<and> container (kern s') (StateItem t) = Some (ReadyList prio) \<and> container (kern s') (EventItem t) = None
    \<and> pxCurrentTCB (kern s') = pxCurrentTCB (kern s) \<and> \<not> no_current s' \<and> xSchedulerRunning s'
    \<and> 1 < uxCurrentNumberOfTasks (kern s')"
proof -
  obtain h1 k1 T1 where m1: "task_malloc ucHeap (depth * 4) s = Some (case first_fit (unat (depth * 4)) ss of None \<Rightarrow> NULL
      | Some (off, _) \<Rightarrow> align_up ucHeap + off + 8, s\<lparr>heap := h1, kern := k1\<rparr>)"
    "heap_ok ucHeap h1 (case first_fit (unat (depth * 4)) ss of None \<Rightarrow> ss | Some (_, ss') \<Rightarrow> ss')" "calm T1 k1" "same_tasks (kern s) k1"
    using task_malloc_effect [OF assms(1-3)] by blast
  obtain o1 s1 where f1: "first_fit (unat (depth * 4)) ss = Some (o1, s1)"
    using assms(6) m1(1) by (cases "first_fit (unat (depth * 4)) ss") (auto simp: xTaskCreate_def prvCreateTask_def)
  let ?s = "s\<lparr>heap := h1, kern := k1\<rparr>" and ?p1 = "align_up ucHeap + o1 + 8"
  have ok1: "heap_ok ucHeap (heap ?s) s1" "calm T1 (kern ?s)" using m1 f1 by simp_all
  obtain h2 k2 T2 where m2: "task_malloc ucHeap 96 ?s = Some (case first_fit (unat (96 :: u32)) s1 of None \<Rightarrow> NULL
      | Some (off, _) \<Rightarrow> align_up ucHeap + off + 8, ?s\<lparr>heap := h2, kern := k2\<rparr>)"
    "heap_ok ucHeap h2 (case first_fit (unat (96 :: u32)) s1 of None \<Rightarrow> s1 | Some (_, ss') \<Rightarrow> ss')" "calm T2 k2" "same_tasks (kern ?s) k2"
    using task_malloc_effect [OF heap_ok_state [OF ok1(1) assms(2)] assms(2) ok1(2)] by blast
  let ?t = "?s\<lparr>heap := h2, kern := k2\<rparr>"
  have c1: "xTaskCreate ucHeap e code nm depth par prio s = do {
      (t, s) \<leftarrow> do {
        (t, s) \<leftarrow> task_malloc ucHeap 96 ?s;
        if t = NULL then do { s \<leftarrow> task_free ucHeap ?p1 s; Some (NULL, s) }
        else do {
          s \<leftarrow> prvInitialiseNewTask e code nm depth par prio t (clear_TCB t s\<lparr>pxStack := (pxStack (clear_TCB t s))(t := ?p1),
            ucStaticallyAllocated := (ucStaticallyAllocated (clear_TCB t s))(t := tskDYNAMICALLY_ALLOCATED_STACK_AND_TCB)\<rparr>);
          Some (t, s) }
      };
      if t \<noteq> NULL then do { s \<leftarrow> prvAddNewTaskToReadyList t s; Some (Some t, s) } else Some (None, s) }"
    using m1(1) f1 by (simp add: xTaskCreate_def prvCreateTask_def Let_def cong: if_cong)
  obtain o2 s2 where f2: "first_fit (unat (96 :: u32)) s1 = Some (o2, s2)"
    using assms(6) m2(1) unfolding c1 by (cases "first_fit (unat (96 :: u32)) s1") (auto simp: bind_eq_Some_conv)
  let ?p2 = "align_up ucHeap + o2 + 8"
  obtain s3 where s3: "prvInitialiseNewTask e code nm depth par prio t (clear_TCB t ?t\<lparr>pxStack := (pxStack (clear_TCB t ?t))(t := ?p1),
        ucStaticallyAllocated := (ucStaticallyAllocated (clear_TCB t ?t))(t := tskDYNAMICALLY_ALLOCATED_STACK_AND_TCB)\<rparr>) = Some s3"
    "prvAddNewTaskToReadyList t s3 = Some s'" "t = ?p2"
    using assms(6) m2(1) f2 unfolding c1 by (auto simp: bind_eq_Some_conv)
  have st: "same_tasks (kern s) k2" using same_tasks_trans [OF m1(4)] m2(4) by simp
  have "t \<notin> live k2" using st assms(7) by (simp add: same_tasks_def) (simp add: live_def)
  then have new: "container k2 (StateItem t) = None" "container k2 (EventItem t) = None"
    using st assms(8) by (simp_all add: same_tasks_def live_def)
  note c = created_kernel [OF m2(3) new _ s3(1,2)]
  have "kern ?t = k2" "\<not> no_current ?t" "xSchedulerRunning ?t" using assms(4,5) by simp_all
  note c = c [OF this]
  show ?thesis
    using c f1 f2 s3(3) m2(2) new st heap_okD(2) [OF ok1(1)]
    by (intro exI [of _ o1] exI [of _ s1] exI [of _ o2] exI [of _ s2] exI [of _ T2]) (simp add: same_tasks_def)
qed


text \<open>
  C25: deleting a task gives back what its creation took. A task that \<open>xTaskCreate\<close> made, with
  its control block at an address that was in no list, can be deleted by another task
  without a failed assertion, is in no list then, and the layout of the heap is again exactly
  the one before the creation: stack and control block are freed, and merged with their neighbours.
\<close>
theorem deletion_undoes_creation:
  assumes "heap_state ucHeap (heap s) ss" and "0 < ucHeap" and "calm T (kern s)" and "\<not> no_current s" and "xSchedulerRunning s"
    and "xTaskCreate ucHeap e code nm depth par prio s = Some (Some t, s')"
    and "container (kern s) (StateItem t) = None" and "container (kern s) (EventItem t) = None" and "t \<noteq> current s"
  shows "\<exists>s2 T2. vTaskDelete ucHeap (Some t) s' = Some s2 \<and> heap_ok ucHeap (heap s2) ss \<and> calm T2 (kern s2)
    \<and> container (kern s2) (StateItem t) = None \<and> container (kern s2) (EventItem t) = None"
proof -
  obtain o1 s1 o2 s2 T' where c: "first_fit (unat (depth * 4)) ss = Some (o1, s1)" "first_fit 96 s1 = Some (o2, s2)" "sized s1"
    "t = align_up ucHeap + o2 + 8" "pxStack s' t = align_up ucHeap + o1 + 8" "heap_ok ucHeap (heap s') s2"
    "ucStaticallyAllocated s' t = tskDYNAMICALLY_ALLOCATED_STACK_AND_TCB" "calm T' (kern s')"
    "container (kern s') (StateItem t) = Some (ReadyList prio)" "container (kern s') (EventItem t) = None"
    "current s' = current s" "\<not> no_current s'" "xSchedulerRunning s'" "1 < uxCurrentNumberOfTasks (kern s')"
    using creation_effect [OF assms(1-8)] by blast
  note both = release_both [OF heap_state_sized [OF assms(1)] heap_state_coalesced [OF assms(1)] c(1,3,2) heap_okD(2) [OF c(6)]]
  define k where "k = prvResetNextTaskUnblockTime (unlisted t (kern s'))"
  let ?s = "s'\<lparr>kern := k, uxTaskNumber := uxTaskNumber s' + 1\<rparr>"
  have d: "delete_section t s' = Some (False, ?s)"
    using c(9-13) assms(9) by (simp add: delete_section_def list_remove_detach_if is_current_def k_def unlisted_def Let_def)
  have kc: "calm T' (kern ?s)"
    using c(8,14) time_ok_reset_self [OF time_ok_unlisted, of T' "kern s'" t]
    by (simp add: calm_def k_def) (simp add: prvResetNextTaskUnblockTime_def)
  have h0: "heap_ok ucHeap (heap ?s) s2" using c(6) by simp
  obtain h1 k1 T1 where f1: "task_free ucHeap (align_up ucHeap + o1 + 8) ?s = Some (?s\<lparr>heap := h1, kern := k1\<rparr>)"
    "heap_ok ucHeap h1 (merge (release o1 s2))" "calm T1 k1" "same_tasks (kern ?s) k1"
    using task_free_effect [OF h0 kc both(1)] by blast
  let ?t = "?s\<lparr>heap := h1, kern := k1\<rparr>"
  have t: "heap_ok ucHeap (heap ?t) (merge (release o1 s2))" "calm T1 (kern ?t)" using f1 by simp_all
  obtain h2 k2 T2 where f2: "task_free ucHeap (align_up ucHeap + o2 + 8) ?t = Some (?t\<lparr>heap := h2, kern := k2\<rparr>)"
    "heap_ok ucHeap h2 (merge (release o2 (merge (release o1 s2))))" "calm T2 k2" "same_tasks (kern ?t) k2"
    using task_free_effect [OF t both(2)] by blast
  let ?u = "?t\<lparr>heap := h2, kern := k2\<rparr>"
  have st: "same_tasks k k2" using same_tasks_trans [of k k1 k2] f1(4) f2(4) by simp
  have cur: "pxCurrentTCB k2 = current s" using st c(11) by (simp add: same_tasks_def k_def)
  have "vTaskDelete ucHeap (Some t) s' = Some ?u"
    using d f1(1) f2(1) c(4,5,7,12,13) cur assms(9)
    by (simp add: vTaskDelete_def prvGetTCBFromHandle_def prvDeleteTCB_def is_current_def)
  moreover have "t \<notin> live k2" using st by (simp add: same_tasks_def) (simp add: live_def k_def)
  moreover have "container k2 (EventItem t) = None" using st by (simp add: same_tasks_def k_def)
  ultimately show ?thesis
    using f2(2,3) both(3) by (intro exI [of _ ?u] exI [of _ T2]) (simp add: live_def)
qed


lemma initialise_succeeds:
  assumes "prio < configMAX_PRIORITIES" and "pxStack s t = ram + 8" and "depth = 100"
  shows "\<exists>s'. prvInitialiseNewTask e code nm depth par prio t s = Some s'"
  using assms by (simp add: prvInitialiseNewTask_def Let_def pxPortInitialiseStack_def split: prod.split)

lemma sample_creation: "\<exists>s'. xTaskCreate ram 0 0x08000101 [0x6D] 100 0 1 sample_tasks = Some (Some (ram + 416), s')"
proof -
  have f1: "first_fit (unat (100 * 4 :: u32)) [(16376, False)] = Some (0, [(408, True), (15968, False)])"
    and f2: "first_fit (unat (96 :: u32)) [(408, True), (15968, False)] = Some (408, [(408, True), (104, True), (15864, False)])"
    by (simp_all add: first_fit_def rounded_def)
  have al: "align_up ram = ram" by (simp add: align_up_def)
  have pos: "0 < ram" by simp
  obtain h1 k1 T1 where m1: "task_malloc ram (100 * 4) sample_tasks = Some (ram + 8, sample_tasks\<lparr>heap := h1, kern := k1\<rparr>)"
    "heap_ok ram h1 [(408, True), (15968, False)]" "calm T1 k1"
    using task_malloc_effect [OF sample_tasks_calm(2) pos sample_tasks_calm(1), of "100 * 4"] unfolding f1 al by auto
  let ?s = "sample_tasks\<lparr>heap := h1, kern := k1\<rparr>"
  have s: "heap_ok ram (heap ?s) [(408, True), (15968, False)]" "calm T1 (kern ?s)" using m1 by simp_all
  obtain h2 k2 where m2: "task_malloc ram 96 ?s = Some (ram + 416, ?s\<lparr>heap := h2, kern := k2\<rparr>)"
    using task_malloc_effect [OF heap_ok_state [OF s(1) pos] pos s(2), of 96] unfolding f2 al by auto
  let ?t = "clear_TCB (ram + 416) (?s\<lparr>heap := h2, kern := k2\<rparr>)"
  let ?u = "?t\<lparr>pxStack := (pxStack ?t)(ram + 416 := ram + 8),
    ucStaticallyAllocated := (ucStaticallyAllocated ?t)(ram + 416 := tskDYNAMICALLY_ALLOCATED_STACK_AND_TCB)\<rparr>"
  obtain s3 where s3: "prvInitialiseNewTask 0 0x08000101 [0x6D] 100 0 1 (ram + 416) ?u = Some s3"
    using initialise_succeeds [of 1 ?u "ram + 416" 100 0 "0x08000101" "[0x6D]" 0] by (auto simp: configMAX_PRIORITIES_def)
  then have "\<not> no_current s3" using initialise_fields [OF s3] by (simp add: clear_TCB_def Let_def)
  then have "\<exists>s'. prvAddNewTaskToReadyList (ram + 416) s3 = Some s'"
    by (simp add: prvAddNewTaskToReadyList_def taskYIELD_ANY_CORE_IF_USING_PREEMPTION_def Let_def)
  then show ?thesis using m1(1) m2 s3 by (auto simp: xTaskCreate_def prvCreateTask_def Let_def)
qed

lemma deletion_undoes_creation_witness:
  "\<exists>s' s2. xTaskCreate ram 0 0x08000101 [0x6D] 100 0 1 sample_tasks = Some (Some (ram + 416), s')
    \<and> vTaskDelete ram (Some (ram + 416)) s' = Some s2 \<and> heap_ok ram (heap s2) [(16376, False)]"
proof -
  obtain s' where s': "xTaskCreate ram 0 0x08000101 [0x6D] 100 0 1 sample_tasks = Some (Some (ram + 416), s')"
    using sample_creation by blast
  have "container sample_kernel (StateItem (ram + 416)) = None" "container sample_kernel (EventItem (ram + 416)) = None"
    by (simp_all add: sample_kernel_def)
  then show ?thesis
    using deletion_undoes_creation [OF sample_tasks_calm(2) _ sample_tasks_calm(1) _ _ s'] s' by auto
qed

end
