(* ===== verification/Rtos_Group_Safe.thy ===== *)
theory Rtos_Group_Safe
  imports Rtos_Group Rtos_Life_Heap
begin

text \<open>
  Correctness of event groups: setting bits wakes exactly the tasks whose wait is over and clears
  what they asked to clear; no task is left waiting for bits that are set; and a task that waits
  gets the bits that ended its wait.
\<close>

section \<open>Waking tasks\<close>

text \<open>Event items of the tasks \<open>ts\<close> with a new value.\<close>

definition new_values :: "nat set \<Rightarrow> tick \<Rightarrow> (litem \<Rightarrow> tick) \<Rightarrow> litem \<Rightarrow> tick" where
  "new_values ts v f it = (case it of EventItem t \<Rightarrow> if t \<in> ts then v else f it | StateItem _ \<Rightarrow> f it)"

lemma new_values_simps [simp]:
  "new_values ts v f (StateItem t) = f (StateItem t)" "new_values ts v f (EventItem t) = (if t \<in> ts then v else f (EventItem t))"
  "new_values {} v f = f" "new_values ts v (new_values {t} v f) = new_values (insert t ts) v f"
  by (auto simp: new_values_def fun_eq_iff split: litem.splits)

lemma new_values_single: "new_values {t} v f = f(EventItem t := v)"
  by (auto simp: new_values_def fun_eq_iff split: litem.splits)

definition retag :: "nat set \<Rightarrow> tick \<Rightarrow> kernel \<Rightarrow> kernel" where
  "retag ts v k = k\<lparr>item_value := new_values ts v (item_value k)\<rparr>"

lemma retag_fields [simp]:
  "lists (retag ts v k) = lists k" "container (retag ts v k) = container k" "uxPriority (retag ts v k) = uxPriority k"
  "pxCurrentTCB (retag ts v k) = pxCurrentTCB k" "uxSchedulerSuspended (retag ts v k) = uxSchedulerSuspended k"
  "item_value (retag ts v k) (StateItem t) = item_value k (StateItem t)"
  "item_value (retag ts v k) (EventItem t) = (if t \<in> ts then v else item_value k (EventItem t))"
  "pxDelayedTaskList (retag ts v k) = pxDelayedTaskList k" "pxOverflowDelayedTaskList (retag ts v k) = pxOverflowDelayedTaskList k"
  "xTickCount (retag ts v k) = xTickCount k" "xNextTaskUnblockTime (retag ts v k) = xNextTaskUnblockTime k"
  "xYieldPending (retag ts v k) = xYieldPending k" "kernel_ok (retag ts v k) = kernel_ok k" "waiting_ok (retag ts v k) = waiting_ok k"
  "xPendedTicks (retag ts v k) = xPendedTicks k" "uxCurrentNumberOfTasks (retag ts v k) = uxCurrentNumberOfTasks k"
  by (simp_all add: retag_def waiting_ok_def)

lemma retag_yield: "retag ts v (k\<lparr>xYieldPending := b\<rparr>) = (retag ts v k)\<lparr>xYieldPending := b\<rparr>"
  by (cases k) (simp add: retag_def)

lemma retag_empty [simp]: "retag {} v k = k"
  by (simp add: retag_def)

lemma retag_single: "set_item_value (EventItem t) v k = retag {t} v k"
  by (simp add: retag_def set_item_value_def new_values_single)

text \<open>One removal, from the list of a group.\<close>

definition freed :: "nat \<Rightarrow> tick \<Rightarrow> kernel \<Rightarrow> kernel" where
  "freed t v k = prvAddTaskToReadyList t (detach_if (StateItem t) (detach_if (EventItem t) (retag {t} v k)))"

lemma freed_unblocked: "kernel_ok k \<Longrightarrow> unblocked t (retag {t} v k) (freed t v k)"
  unfolding freed_def by (rule unblocked_add_ready) simp_all

lemma freed_more: "xNextTaskUnblockTime (freed t v k) = xNextTaskUnblockTime k" "pendsv (freed t v k) = pendsv k"
  "uxBasePriority (freed t v k) = uxBasePriority k" "uxPriority (freed t v k) = uxPriority k" "pxCurrentTCB (freed t v k) = pxCurrentTCB k"
  by (simp_all add: freed_def prvAddTaskToReadyList_def list_insert_end_def Let_def) (simp_all add: retag_def)

lemma remove_unordered:
  assumes "uxSchedulerSuspended k \<noteq> 0" and "container k (EventItem t) \<noteq> None" and "container k (StateItem t) \<noteq> None"
  shows "vTaskRemoveFromUnorderedEventList (EventItem t) v k =
    Some (let w = v OR taskEVENT_LIST_ITEM_VALUE_IN_USE; k' = freed t w k
      in if uxPriority k t > uxPriority k (pxCurrentTCB k) then k'\<lparr>xYieldPending := True\<rparr> else k')"
  using assms
  by (simp add: vTaskRemoveFromUnorderedEventList_def retag_single list_remove_detach_if freed_def Let_def)

text \<open>The relation of \<open>woken\<close>, with the new values of the event items.\<close>

definition woken_with :: "nat set \<Rightarrow> tick \<Rightarrow> kernel \<Rightarrow> kernel \<Rightarrow> bool" where
  "woken_with ts v k k' \<longleftrightarrow> woken ts (retag ts v k) (k'\<lparr>xYieldPending := xYieldPending k\<rparr>)
     \<and> xYieldPending k' = (xYieldPending k \<or> (\<exists>t \<in> ts. uxPriority k (pxCurrentTCB k) < uxPriority k t))
     \<and> xNextTaskUnblockTime k' = xNextTaskUnblockTime k \<and> pendsv k' = pendsv k \<and> uxBasePriority k' = uxBasePriority k"

lemma woken_with_empty: "kernel_ok k \<Longrightarrow> waiting_ok k \<Longrightarrow> woken_with {} v k k"
  by (simp add: woken_with_def woken_def)

lemma unblocked_retag:
  assumes "unblocked t (retag {t} v k) k1"
  shows "unblocked t (retag (insert t ts) v k) (retag ts v k1)"
proof -
  have u: "kernel_ok k1" "statics k1 = statics (retag {t} v k)" "xYieldPending k1 = xYieldPending k"
    "container k1 = (container k)(EventItem t := None, StateItem t \<mapsto> ReadyList (uxPriority k t))"
    "(\<forall>p. m \<noteq> ReadyList p) \<longrightarrow> entries k1 m = remove1 (StateItem t) (remove1 (EventItem t) (entries k m))" for m
    using assms by (simp_all add: unblocked_def)
  have "item_value (retag ts v k1) = item_value (retag (insert t ts) v k)"
    using u(2) by (simp add: statics_def retag_def)
  then have "statics (retag ts v k1) = statics (retag (insert t ts) v k)"
    using u(2) by (simp add: statics_def) (simp add: retag_def)
  with u show ?thesis by (simp add: unblocked_def)
qed

lemma woken_with_step:
  assumes "kernel_ok k" and "waiting_ok k"
    and "k1 = (let k' = freed t v k in if uxPriority k t > uxPriority k (pxCurrentTCB k) then k'\<lparr>xYieldPending := True\<rparr> else k')"
    and "woken_with ts v k1 k2"
  shows "woken_with (insert t ts) v k k2"
proof -
  let ?f = "freed t v k"
  have f: "unblocked t (retag {t} v k) ?f" by (rule freed_unblocked [OF assms(1)])
  have fy: "xYieldPending ?f = xYieldPending k" using f by (simp add: unblocked_def)
  have k1: "k1 = ?f\<lparr>xYieldPending := (xYieldPending k \<or> uxPriority k (pxCurrentTCB k) < uxPriority k t)\<rparr>"
    using assms(3) fy by (auto simp: Let_def)
  have w: "woken ts (retag ts v k1) (k2\<lparr>xYieldPending := xYieldPending k1\<rparr>)"
    "xYieldPending k2 = (xYieldPending k1 \<or> (\<exists>t \<in> ts. uxPriority k1 (pxCurrentTCB k1) < uxPriority k1 t))"
    "xNextTaskUnblockTime k2 = xNextTaskUnblockTime k1" "pendsv k2 = pendsv k1" "uxBasePriority k2 = uxBasePriority k1"
    using assms(4) by (auto simp: woken_with_def)
  have rt: "retag ts v k1 = (retag ts v ?f)\<lparr>xYieldPending := xYieldPending k1\<rparr>" by (simp add: k1 retag_yield)
  have "woken ts (retag ts v ?f) (k2\<lparr>xYieldPending := xYieldPending k1\<rparr>\<lparr>xYieldPending := xYieldPending (retag ts v ?f)\<rparr>)"
    by (rule woken_yield) (use w(1) rt in simp)
  then have "woken ts (retag ts v ?f) (k2\<lparr>xYieldPending := xYieldPending k\<rparr>)" by (simp add: fy)
  then have "woken (insert t ts) (retag (insert t ts) v k) (k2\<lparr>xYieldPending := xYieldPending k\<rparr>)"
    by (intro woken_step [OF _ _ unblocked_retag [OF f]]) (simp_all add: assms(1,2))
  then show ?thesis
    using w(2-5) by (auto simp: woken_with_def k1 freed_more)
qed

text \<open>The walk: which items match, and what they clear.\<close>

definition matching :: "kernel \<Rightarrow> tick \<Rightarrow> litem list \<Rightarrow> litem list" where
  "matching k bits its = filter (\<lambda>it. bits_match (item_value k it) bits) its"

definition cleared_by :: "kernel \<Rightarrow> litem list \<Rightarrow> tick" where
  "cleared_by k its = foldr (\<lambda>it c. bits_cleared (item_value k it) OR c) its 0"

lemma cleared_by_cong: "(\<And>it. it \<in> set its \<Longrightarrow> item_value k' it = item_value k it) \<Longrightarrow> cleared_by k' its = cleared_by k its"
  unfolding cleared_by_def by (rule foldr_cong) auto

text \<open>The value a woken task finds in its event item.\<close>

definition wake_value :: "tick \<Rightarrow> tick" where
  "wake_value bits = (bits OR eventUNBLOCKED_DUE_TO_BIT_SET) OR taskEVENT_LIST_ITEM_VALUE_IN_USE"

lemma wake_matching_effect:
  assumes "kernel_ok k" and "waiting_ok k" and "uxSchedulerSuspended k \<noteq> 0" and "distinct its"
    and "\<And>it. it \<in> set its \<Longrightarrow> container k it = Some (EventList e)"
  shows "\<exists>k'. wake_matching its bits c k = Some (c OR cleared_by k (matching k bits its), k')
    \<and> woken_with (owner ` set (matching k bits its)) (wake_value bits) k k'"
  using assms
proof (induction its arbitrary: k c)
  case Nil
  then show ?case by (simp add: matching_def cleared_by_def woken_with_empty)
next
  case (Cons it its)
  let ?v = "wake_value bits"
  show ?case
  proof (cases "bits_match (item_value k it) bits")
    case False
    then show ?thesis using Cons.IH [of k c] Cons.prems by (simp add: matching_def Let_def)
  next
    case True
    have ev: "i \<in> set (it # its) \<Longrightarrow> i = EventItem (owner i)" for i
      using kernel_ok_fits [OF Cons.prems(1) Cons.prems(5)] by auto
    obtain t where t: "it = EventItem t" using ev [of it] by auto
    define k1 where "k1 = (let k' = freed t ?v k in if uxPriority k t > uxPriority k (pxCurrentTCB k) then k'\<lparr>xYieldPending := True\<rparr> else k')"
    have u: "unblocked t (retag {t} ?v k) (freed t ?v k)" by (rule freed_unblocked [OF Cons.prems(1)])
    have st: "container k (StateItem t) \<noteq> None"
      using Cons.prems(2) Cons.prems(5) [of it] t by (auto simp: waiting_ok_def)
    have rem: "vTaskRemoveFromUnorderedEventList it (bits OR eventUNBLOCKED_DUE_TO_BIT_SET) k = Some k1"
      unfolding t k1_def using remove_unordered [OF Cons.prems(3) _ st] Cons.prems(5) [of it] t by (simp add: Let_def wake_value_def del: word_bw_assocs)
    have f1: "kernel_ok (freed t ?v k)" "waiting_ok (freed t ?v k)" "statics (freed t ?v k) = statics (retag {t} ?v k)"
      "container (freed t ?v k) = (container k)(EventItem t := None, StateItem t \<mapsto> ReadyList (uxPriority k t))"
      using u unblocked_waiting_ok [OF u] Cons.prems(2) by (auto simp: unblocked_def)
    have i1: "item_value (freed t ?v k) = item_value (retag {t} ?v k)" "uxSchedulerSuspended (freed t ?v k) = uxSchedulerSuspended k"
      using statics_eqD [OF f1(3)] by simp_all
    have f: "kernel_ok k1" "waiting_ok k1" "item_value k1 = item_value (retag {t} ?v k)"
      "container k1 = (container k)(EventItem t := None, StateItem t \<mapsto> ReadyList (uxPriority k t))"
      "uxSchedulerSuspended k1 = uxSchedulerSuspended k"
      using f1 i1 by (simp_all add: k1_def Let_def)
    have t_out: "EventItem t \<notin> set its" using Cons.prems(4) t by simp
    have iv: "item_value k1 i = item_value k i" if "i \<in> set its" for i
    proof -
      have "i \<noteq> EventItem t" using that t_out by auto
      then show ?thesis unfolding f(3) by (cases i) auto
    qed
    have m: "matching k1 bits its = matching k bits its"
      unfolding matching_def by (rule filter_cong [OF refl]) (simp add: iv)
    have cl: "cleared_by k1 (matching k bits its) = cleared_by k (matching k bits its)"
      by (rule cleared_by_cong) (auto simp: matching_def iv)
    have "container k1 i = Some (EventList e)" if "i \<in> set its" for i
      using Cons.prems(5) [of i] that t_out ev [of i] by (auto simp: f(4))
    then obtain k' where k': "wake_matching its bits (c OR bits_cleared (item_value k it)) k1
        = Some ((c OR bits_cleared (item_value k it)) OR cleared_by k (matching k bits its), k')"
      "woken_with (owner ` set (matching k bits its)) ?v k1 k'"
      using Cons.IH [OF f(1,2), of "c OR bits_cleared (item_value k it)"] Cons.prems(3,4) f(5) m cl by auto
    have "woken_with (insert t (owner ` set (matching k bits its))) ?v k k'"
      by (rule woken_with_step [OF Cons.prems(1,2) k1_def k'(2)])
    then show ?thesis
      using k'(1) True rem by (intro exI [of _ k']) (simp add: matching_def cleared_by_def Let_def t or.assoc)
  qed
qed

section \<open>Setting bits\<close>

lemma time_ok_retag [simp]: "time_ok T (retag ts v k) = time_ok T k"
proof -
  have d: "delays_ok (retag ts v k) = delays_ok k" if "kernel_ok k"
  proof -
    have "map (item_value (retag ts v k)) (entries k m) = map (item_value k) (entries k m)"
      if m: "m = pxDelayedTaskList k \<or> m = pxOverflowDelayedTaskList k" for m
    proof (rule map_cong [OF refl])
      fix it assume "it \<in> set (entries k m)"
      then obtain t where "it = StateItem t" using delayed_state_items [OF \<open>kernel_ok k\<close> m] by blast
      then show "item_value (retag ts v k) it = item_value k it" by simp
    qed
    note maps = this [OF disjI1 [OF refl]] this [OF disjI2 [OF refl]]
    have "item_value (retag ts v k) it = item_value k it" if "it \<in> set (entries k (pxDelayedTaskList k))" for it
      using delayed_state_items [OF \<open>kernel_ok k\<close> _ that] by auto
    then show ?thesis unfolding delays_ok_def by_value_def retag_fields maps by simp
  qed
  show ?thesis by (cases "kernel_ok k") (simp_all add: time_ok_def d)
qed

lemma woken_time_ok:
  assumes "time_ok T k" and "woken ts k k'" and "xNextTaskUnblockTime k' = xNextTaskUnblockTime k"
  shows "time_ok T k'"
proof -
  have w: "kernel_ok k'" "waiting_ok k'" "statics k' = statics k"
    "(\<forall>p. m \<noteq> ReadyList p) \<longrightarrow> entries k' m = filter (\<lambda>it. owner it \<notin> ts) (entries k m)" for m
    using assms(2) by (auto simp: woken_def)
  note sts = statics_eqD [OF w(3)]
  have ok: "kernel_ok k" and dl: "delays_ok k" using assms(1) by (auto simp: time_ok_def)
  have e: "entries k' m = filter (\<lambda>it. owner it \<notin> ts) (entries k m)"
    if "m = pxDelayedTaskList k \<or> m = pxOverflowDelayedTaskList k" for m
    using w(4) delayed_not_ready [OF ok] that by metis
  have "delays_ok k'"
    using dl e [of "pxDelayedTaskList k"] e [of "pxOverflowDelayedTaskList k"] sts assms(3)
    by (auto simp: delays_ok_def by_value_def sorted_filter)
  then show ?thesis using assms(1) w(1,2) sts by (simp add: time_ok_def)
qed

lemma woken_with_time_ok:
  assumes "time_ok T k" and "woken_with ts v k k'"
  shows "time_ok T k'"
  using woken_time_ok [of T "retag ts v k" ts "k'\<lparr>xYieldPending := xYieldPending k\<rparr>"] assms by (simp add: woken_with_def)

lemma woken_withD:
  assumes "woken_with ts v k k'"
  shows "container k' (StateItem t) = (if t \<in> ts then Some (ReadyList (uxPriority k t)) else container k (StateItem t))"
    and "container k' (EventItem t) = (if t \<in> ts then None else container k (EventItem t))"
    and "(\<And>p. m \<noteq> ReadyList p) \<Longrightarrow> entries k' m = filter (\<lambda>it. owner it \<notin> ts) (entries k m)"
    and "item_value k' (EventItem t) = (if t \<in> ts then v else item_value k (EventItem t))"
    and "item_value k' (StateItem t) = item_value k (StateItem t)"
    and "uxPriority k' = uxPriority k" and "pxCurrentTCB k' = pxCurrentTCB k" and "uxSchedulerSuspended k' = uxSchedulerSuspended k"
    and "xPendedTicks k' = xPendedTicks k" and "uxCurrentNumberOfTasks k' = uxCurrentNumberOfTasks k"
    and "pxDelayedTaskList k' = pxDelayedTaskList k" and "pxOverflowDelayedTaskList k' = pxOverflowDelayedTaskList k"
    and "xYieldPending k' = (xYieldPending k \<or> (\<exists>t \<in> ts. uxPriority k (pxCurrentTCB k) < uxPriority k t))"
    and "pendsv k' = pendsv k" and "uxBasePriority k' = uxBasePriority k"
proof -
  have st: "statics (k'\<lparr>xYieldPending := xYieldPending k\<rparr>) = statics (retag ts v k)"
    using assms by (simp add: woken_with_def woken_def)
  then have "item_value k' = item_value (retag ts v k)" by (simp add: statics_def)
  then show "item_value k' (EventItem t) = (if t \<in> ts then v else item_value k (EventItem t))"
    "item_value k' (StateItem t) = item_value k (StateItem t)" by simp_all
  show "uxPriority k' = uxPriority k" "pxCurrentTCB k' = pxCurrentTCB k" "uxSchedulerSuspended k' = uxSchedulerSuspended k"
    "xPendedTicks k' = xPendedTicks k" "uxCurrentNumberOfTasks k' = uxCurrentNumberOfTasks k"
    "pxDelayedTaskList k' = pxDelayedTaskList k" "pxOverflowDelayedTaskList k' = pxOverflowDelayedTaskList k"
    using st by (simp_all add: statics_def)
qed (use assms in \<open>simp_all add: woken_with_def woken_def\<close>)

text \<open>Resuming the scheduler when nothing was pended.\<close>

lemma resume_quietly:
  assumes "uxSchedulerSuspended k = 1" and "entries k PendingReadyList = []" and "xPendedTicks k = 0"
  shows "xTaskResumeAll k = Some (if 0 < uxCurrentNumberOfTasks k \<and> xYieldPending k then (True, portYIELD (k\<lparr>uxSchedulerSuspended := 0\<rparr>))
    else (False, k\<lparr>uxSchedulerSuspended := 0\<rparr>))"
  using assms by (simp add: xTaskResumeAll_def move_pending.simps [of False] head_entry_def Let_def)

lemma group_waiters:
  assumes "kernel_ok k"
  shows "distinct (entries k (EventList e))"
    and "it \<in> set (entries k (EventList e)) \<Longrightarrow> container k it = Some (EventList e) \<and> it = EventItem (owner it)"
  using assms lists_ok_container [OF kernel_ok_lists [OF assms], of it "EventList e"] kernel_ok_fits [OF assms, of it "EventList e"]
  by (auto simp: kernel_ok_def lists_ok_def)

text \<open>What \<open>xEventGroupSetBits\<close> does before it resumes the scheduler.\<close>

lemma set_bits_walk:
  assumes "time_ok T k" and "xTasksWaitingForBits g = EventList e" and "b AND eventEVENT_BITS_CONTROL_BYTES = 0"
  defines "bits \<equiv> uxEventBits g OR b"
  defines "M \<equiv> matching k bits (entries k (EventList e))"
  shows "\<exists>k1. woken_with (owner ` set M) (wake_value bits) (vTaskSuspendAll k) k1 \<and> time_ok T k1
    \<and> xEventGroupSetBits b g k = map_option (\<lambda>(_, k'). (bits AND NOT (cleared_by k M), g\<lparr>uxEventBits := bits AND NOT (cleared_by k M)\<rparr>, k'))
         (xTaskResumeAll k1)"
proof -
  let ?k = "vTaskSuspendAll k"
  have T: "time_ok T ?k" using assms(1) by simp
  note ok = time_okD(1,2) [OF T]
  have en: "lists ?k = lists k" "item_value ?k = item_value k" by (simp_all add: vTaskSuspendAll_def)
  have M: "matching ?k bits (entries k (EventList e)) = M" "cleared_by ?k M = cleared_by k M"
    by (simp_all add: M_def matching_def cleared_by_def en)
  have c: "container ?k it = Some (EventList e)" if "it \<in> set (entries k (EventList e))" for it
    using group_waiters(2) [OF ok(1), of it e] that unfolding en by simp
  obtain k1 where k1: "wake_matching (entries k (EventList e)) bits 0 ?k = Some (cleared_by k M, k1)"
    "woken_with (owner ` set M) (wake_value bits) ?k k1"
    using wake_matching_effect [OF ok _ _ c, of "entries k (EventList e)" bits 0] group_waiters(1) [OF ok(1), of e] M en
    by (auto simp: vTaskSuspendAll_def)
  then show ?thesis
    using woken_with_time_ok [OF T k1(2)] assms(2,3) en
    by (intro exI [of _ k1]) (simp add: xEventGroupSetBits_def Let_def bits_def map_conv_bind_option o_def split_def)
qed

text \<open>The whole function, in terms of the tests of the code.\<close>

lemma set_bits_effect:
  assumes "time_ok T k" and "uxSchedulerSuspended k = 0" and "0 < uxCurrentNumberOfTasks k"
    and "entries k PendingReadyList = []" and "xPendedTicks k = 0"
    and "xTasksWaitingForBits g = EventList e" and "b AND eventEVENT_BITS_CONTROL_BYTES = 0"
  defines "bits \<equiv> uxEventBits g OR b"
  defines "M \<equiv> matching k bits (entries k (EventList e))"
  shows "\<exists>k'. xEventGroupSetBits b g k = Some (bits AND NOT (cleared_by k M), g\<lparr>uxEventBits := bits AND NOT (cleared_by k M)\<rparr>, k')
    \<and> time_ok T k' \<and> uxSchedulerSuspended k' = 0
    \<and> entries k' (EventList e) = filter (\<lambda>it. \<not> bits_match (item_value k it) bits) (entries k (EventList e))
    \<and> (\<forall>t. EventItem t \<in> set M \<longrightarrow> container k' (StateItem t) = Some (ReadyList (uxPriority k t)) \<and> container k' (EventItem t) = None
          \<and> item_value k' (EventItem t) = wake_value bits \<and> (uxPriority k (pxCurrentTCB k) < uxPriority k t \<longrightarrow> pendsv k'))
    \<and> (\<forall>t. EventItem t \<notin> set M \<longrightarrow> container k' (StateItem t) = container k (StateItem t) \<and> due T k' t = due T k t
          \<and> container k' (EventItem t) = container k (EventItem t) \<and> item_value k' (EventItem t) = item_value k (EventItem t))"
proof -
  let ?ts = "owner ` set M"
  obtain k1 where k1: "woken_with ?ts (wake_value bits) (vTaskSuspendAll k) k1" "time_ok T k1"
    "xEventGroupSetBits b g k = map_option (\<lambda>(_, k'). (bits AND NOT (cleared_by k M), g\<lparr>uxEventBits := bits AND NOT (cleared_by k M)\<rparr>, k'))
         (xTaskResumeAll k1)"
    using set_bits_walk [OF assms(1,6,7)] unfolding bits_def [symmetric] M_def [symmetric] by blast
  have s: "lists (vTaskSuspendAll k) = lists k" "item_value (vTaskSuspendAll k) = item_value k" "xPendedTicks (vTaskSuspendAll k) = xPendedTicks k"
    "uxCurrentNumberOfTasks (vTaskSuspendAll k) = uxCurrentNumberOfTasks k" "uxSchedulerSuspended (vTaskSuspendAll k) = 1"
    "pxDelayedTaskList (vTaskSuspendAll k) = pxDelayedTaskList k" "pxOverflowDelayedTaskList (vTaskSuspendAll k) = pxOverflowDelayedTaskList k"
    using assms(2) by (simp_all add: vTaskSuspendAll_def)
  note w = woken_withD [OF k1(1), unfolded s]
  have M: "it \<in> set M \<Longrightarrow> it = EventItem (owner it)" for it
    using group_waiters(2) [OF time_okD(1) [OF assms(1)], of it e] by (auto simp: M_def matching_def)
  then have mem: "t \<in> ?ts \<longleftrightarrow> EventItem t \<in> set M" for t by force
  define k' where "k' = (if xYieldPending k1 then portYIELD (k1\<lparr>uxSchedulerSuspended := 0\<rparr>) else k1\<lparr>uxSchedulerSuspended := 0\<rparr>)"
  have "entries k1 PendingReadyList = []" using w(3) [of PendingReadyList] assms(4) by simp
  then have r: "xTaskResumeAll k1 = Some (xYieldPending k1, k')"
    using resume_quietly [of k1] w assms(3,5) by (simp add: k'_def)
  have f: "lists k' = lists k1" "container k' = container k1" "item_value k' = item_value k1" "uxSchedulerSuspended k' = 0"
    "pxDelayedTaskList k' = pxDelayedTaskList k1" "pxOverflowDelayedTaskList k' = pxOverflowDelayedTaskList k1"
    "xYieldPending k1 \<Longrightarrow> pendsv k'" by (simp_all add: k'_def portYIELD_def)
  have "owner it \<notin> ?ts \<longleftrightarrow> \<not> bits_match (item_value k it) bits" if "it \<in> set (entries k (EventList e))" for it
    using that group_waiters(2) [OF time_okD(1) [OF assms(1)] that] mem [of "owner it"] by (auto simp: M_def matching_def)
  then have en: "entries k1 (EventList e) = filter (\<lambda>it. \<not> bits_match (item_value k it) bits) (entries k (EventList e))"
    using w(3) [of "EventList e"] by (simp cong: filter_cong)
  have un: "due T k' t = due T k t" if "EventItem t \<notin> set M" for t
    by (rule due_cong) (use that f w mem [of t] in simp_all)
  have "time_ok T k'" using k1(2) by (simp add: k'_def)
  moreover have "uxPriority k (pxCurrentTCB k) < uxPriority k t \<Longrightarrow> EventItem t \<in> set M \<Longrightarrow> pendsv k'" for t
    using f(7) w(13) mem [of t] by (auto simp: vTaskSuspendAll_def)
  ultimately show ?thesis
    using k1(3) r f(1-4) en un w(1,2,4) mem by (intro exI [of _ k']) simp
qed

section \<open>Requests\<close>

text \<open>What a task waits for: bits, whether they are to be cleared, and whether it needs all of them.\<close>

record wait_request =
  wanted :: tick
  clears :: bool
  needs_all :: bool

text \<open>The value \<open>xEventGroupWaitBits\<close> and \<open>xEventGroupSync\<close> leave in the event item of a waiting task.\<close>

definition request_value :: "wait_request \<Rightarrow> tick" where
  "request_value r = (wanted r OR ((if clears r then eventCLEAR_EVENTS_ON_EXIT_BIT else 0) OR (if needs_all r then eventWAIT_FOR_ALL_BITS else 0)))
     OR taskEVENT_LIST_ITEM_VALUE_IN_USE"

text \<open>Bit by bit: all the wanted bits are set, or one of them is.\<close>

definition satisfied :: "tick \<Rightarrow> wait_request \<Rightarrow> bool" where
  "satisfied bits r = (if needs_all r then (\<forall>n < 64. bit (wanted r) n \<longrightarrow> bit bits n) else (\<exists>n < 64. bit (wanted r) n \<and> bit bits n))"

text \<open>The waiting tasks whose requests hold with the bits \<open>bits\<close>.\<close>

definition satisfied_tasks :: "tick \<Rightarrow> (nat \<Rightarrow> wait_request) \<Rightarrow> litem list \<Rightarrow> nat set" where
  "satisfied_tasks bits req its = {t. EventItem t \<in> set its \<and> satisfied bits (req t)}"

lemma waited_bits:
  fixes w :: tick
  assumes "w AND eventEVENT_BITS_CONTROL_BYTES = 0"
  shows "w AND NOT eventEVENT_BITS_CONTROL_BYTES = w" and "w AND eventWAIT_FOR_ALL_BITS = 0"
proof -
  have "w = (w AND eventEVENT_BITS_CONTROL_BYTES) OR (w AND NOT eventEVENT_BITS_CONTROL_BYTES)"
    by (simp only: bit.conj_disj_distrib [symmetric] bit.disj_cancel_right and.right_neutral)
  then show "w AND NOT eventEVENT_BITS_CONTROL_BYTES = w" using assms by (simp only: or.left_neutral)
  have "w AND eventWAIT_FOR_ALL_BITS = (w AND eventEVENT_BITS_CONTROL_BYTES) AND eventWAIT_FOR_ALL_BITS" by (simp add: and.assoc)
  then show "w AND eventWAIT_FOR_ALL_BITS = 0" using assms by simp
qed

lemma bits_match_tag:
  assumes "w AND eventEVENT_BITS_CONTROL_BYTES = 0"
  shows "bits_match ((w OR ((if clear then eventCLEAR_EVENTS_ON_EXIT_BIT else 0) OR (if all then eventWAIT_FOR_ALL_BITS else 0)))
    OR taskEVENT_LIST_ITEM_VALUE_IN_USE) b \<longleftrightarrow> prvTestWaitCondition b w all"
  using waited_bits [OF assms]
  by (cases clear; cases all; simp add: bits_match_def prvTestWaitCondition_def Let_def bit.conj_disj_distrib2 and.assoc and.commute [of b])

lemma satisfied_iff: "satisfied bits r \<longleftrightarrow> prvTestWaitCondition bits (wanted r) (needs_all r)"
proof -
  have all: "(\<forall>n < 64. bit (wanted r) n \<longrightarrow> bit bits n) \<longleftrightarrow> bits AND wanted r = wanted r"
  proof
    assume "\<forall>n < 64. bit (wanted r) n \<longrightarrow> bit bits n"
    then show "bits AND wanted r = wanted r" by (intro bit_word_eqI) (auto simp: bit_and_iff)
  next
    assume b: "bits AND wanted r = wanted r"
    have "bit (wanted r) n \<longleftrightarrow> bit bits n \<and> bit (wanted r) n" for n by (subst b [symmetric]) (rule bit_and_iff)
    then show "\<forall>n < 64. bit (wanted r) n \<longrightarrow> bit bits n" by blast
  qed
  have "bits AND wanted r = 0 \<longleftrightarrow> (\<forall>n < 64. \<not> (bit (wanted r) n \<and> bit bits n))"
    by (auto simp: bit_eq_iff bit_and_iff dest: bit_imp_le_length)
  then show ?thesis using all by (auto simp: satisfied_def prvTestWaitCondition_def)
qed

lemma request_matches:
  "wanted r AND eventEVENT_BITS_CONTROL_BYTES = 0 \<Longrightarrow> bits_match (request_value r) bits \<longleftrightarrow> satisfied bits r"
  unfolding request_value_def satisfied_iff by (rule bits_match_tag)

lemma tag_fields:
  fixes w x :: tick
  assumes "w AND eventEVENT_BITS_CONTROL_BYTES = 0" and "x AND eventEVENT_BITS_CONTROL_BYTES = x"
  shows "(w OR x) AND eventEVENT_BITS_CONTROL_BYTES = x" and "(w OR x) AND NOT eventEVENT_BITS_CONTROL_BYTES = w"
proof -
  show "(w OR x) AND eventEVENT_BITS_CONTROL_BYTES = x" by (simp only: bit.conj_disj_distrib2 assms or.left_neutral)
  have "x AND NOT eventEVENT_BITS_CONTROL_BYTES = (x AND eventEVENT_BITS_CONTROL_BYTES) AND NOT eventEVENT_BITS_CONTROL_BYTES"
    unfolding assms(2) by (rule refl)
  also have "\<dots> = 0" by (simp only: and.assoc bit.conj_cancel_right bit.conj_zero_right)
  finally show "(w OR x) AND NOT eventEVENT_BITS_CONTROL_BYTES = w"
    by (simp only: bit.conj_disj_distrib2 waited_bits(1) [OF assms(1)] or.right_neutral)
qed

lemma request_clears:
  assumes "wanted r AND eventEVENT_BITS_CONTROL_BYTES = 0"
  shows "bits_cleared (request_value r) = (if clears r then wanted r else 0)"
proof -
  define x where "x = ((if clears r then eventCLEAR_EVENTS_ON_EXIT_BIT else 0) OR (if needs_all r then eventWAIT_FOR_ALL_BITS else 0))
    OR taskEVENT_LIST_ITEM_VALUE_IN_USE"
  have x: "x AND eventEVENT_BITS_CONTROL_BYTES = x" "x AND eventCLEAR_EVENTS_ON_EXIT_BIT \<noteq> 0 \<longleftrightarrow> clears r"
    by (simp_all add: x_def)
  have "request_value r = wanted r OR x" by (simp only: request_value_def x_def or.assoc)
  then show ?thesis unfolding bits_cleared_def by (simp only: tag_fields [OF assms x(1)] x(2))
qed

text \<open>A task that blocks leaves its request in its event item.\<close>

lemma delayed_keeps_event_value:
  "prvAddCurrentTaskToDelayedList ticks b k = Some k' \<Longrightarrow> item_value k' (EventItem t) = item_value k (EventItem t)"
  by (auto simp: prvAddCurrentTaskToDelayedList_def Let_def bind_eq_Some_conv list_remove_def split: if_splits)

lemma request_stored:
  assumes "wait_bits_section waited clear all ticks g k = Some (v, True, g', k')"
  shows "item_value k' (EventItem (pxCurrentTCB k)) = request_value \<lparr>wanted = waited, clears = clear, needs_all = all\<rparr>"
proof -
  obtain tag where tag: "tag = (if clear then eventCLEAR_EVENTS_ON_EXIT_BIT else 0) OR (if all then eventWAIT_FOR_ALL_BITS else 0)" by simp
  have "vTaskPlaceOnUnorderedEventList (xTasksWaitingForBits g) (waited OR tag) ticks k = Some k'"
    using assms unfolding wait_bits_section_def Let_def tag [symmetric] by (auto simp: bind_eq_Some_conv split: if_splits)
  then have "item_value k' (EventItem (pxCurrentTCB k)) = (waited OR tag) OR taskEVENT_LIST_ITEM_VALUE_IN_USE"
    by (auto simp: vTaskPlaceOnUnorderedEventList_def Let_def dest!: delayed_keeps_event_value split: if_splits)
  then show ?thesis by (simp only: request_value_def wait_request.simps tag)
qed

lemma bit_cleared_by:
  "bit (cleared_by k its) n \<longleftrightarrow> (\<exists>it \<in> set its. bit (bits_cleared (item_value k it)) n)"
  by (induction its) (auto simp: cleared_by_def bit_or_iff)

text \<open>
  C13: setting bits of an event group wakes exactly the waiting tasks whose request is then satisfied:
  all the bits the task wants are set, if it needs all, or one of them is, if it does not.
  Each of them is ready and finds in its event item the bits as they were then; the others stay in the list, in order,
  with their requests and wake times. A bit is set afterwards if it was set, or is one of those
  given, and no woken task that wants it asked for its bits to be cleared; all woken tasks have seen it
  before. A woken task that is more urgent than the caller makes it yield.
\<close>
theorem set_bits_wakes_exactly_matching:
  assumes "time_ok T k" and "uxSchedulerSuspended k = 0" and "0 < uxCurrentNumberOfTasks k"
    and "entries k PendingReadyList = []" and "xPendedTicks k = 0"
    and "xTasksWaitingForBits g = EventList e" and "b AND eventEVENT_BITS_CONTROL_BYTES = 0"
    and "\<And>t. EventItem t \<in> set (entries k (EventList e)) \<Longrightarrow>
      item_value k (EventItem t) = request_value (req t) \<and> wanted (req t) AND eventEVENT_BITS_CONTROL_BYTES = 0"
  defines "bits \<equiv> uxEventBits g OR b"
  defines "W \<equiv> satisfied_tasks bits req (entries k (EventList e))"
  shows "\<exists>v k'. xEventGroupSetBits b g k = Some (v, g\<lparr>uxEventBits := v\<rparr>, k') \<and> time_ok T k' \<and> uxSchedulerSuspended k' = 0
    \<and> (\<forall>n < 64. bit v n \<longleftrightarrow> (bit (uxEventBits g) n \<or> bit b n) \<and> \<not> (\<exists>t \<in> W. clears (req t) \<and> bit (wanted (req t)) n))
    \<and> entries k' (EventList e) = filter (\<lambda>it. \<not> satisfied bits (req (owner it))) (entries k (EventList e))
    \<and> (\<forall>t \<in> W. container k' (StateItem t) = Some (ReadyList (uxPriority k t)) \<and> container k' (EventItem t) = None
          \<and> item_value k' (EventItem t) = (bits OR eventUNBLOCKED_DUE_TO_BIT_SET) OR taskEVENT_LIST_ITEM_VALUE_IN_USE
          \<and> (uxPriority k (pxCurrentTCB k) < uxPriority k t \<longrightarrow> pendsv k'))
    \<and> (\<forall>t. t \<notin> W \<longrightarrow> container k' (StateItem t) = container k (StateItem t) \<and> due T k' t = due T k t
          \<and> container k' (EventItem t) = container k (EventItem t) \<and> item_value k' (EventItem t) = item_value k (EventItem t))"
proof -
  let ?its = "entries k (EventList e)"
  let ?M = "matching k bits ?its"
  let ?v = "bits AND NOT (cleared_by k ?M)"
  have it: "it = EventItem (owner it)" if "it \<in> set ?its" for it
    using group_waiters(2) [OF time_okD(1) [OF assms(1)] that] by simp
  have req: "bits_match (item_value k it) bits = satisfied bits (req (owner it))" if "it \<in> set ?its" for it
    using it [OF that] assms(8) [of "owner it"] that request_matches [of "req (owner it)" bits] by simp
  have W: "EventItem t \<in> set ?M \<longleftrightarrow> t \<in> W" for t
    using req [of "EventItem t"] by (auto simp: matching_def W_def satisfied_tasks_def)
  have "bit (cleared_by k ?M) n \<longleftrightarrow> (\<exists>t \<in> W. clears (req t) \<and> bit (wanted (req t)) n)" for n
  proof -
    have "bits_cleared (item_value k (EventItem t)) = (if clears (req t) then wanted (req t) else 0)" if "t \<in> W" for t
      using that assms(8) [of t] request_clears [of "req t"] by (simp add: W_def satisfied_tasks_def)
    moreover have "it \<in> set ?M \<Longrightarrow> it = EventItem (owner it)" for it using it by (simp add: matching_def)
    ultimately show ?thesis unfolding bit_cleared_by using W by (metis (full_types) bit_0_eq bot_apply bot_bool_def)
  qed
  then have "\<forall>n < 64. bit ?v n \<longleftrightarrow> (bit (uxEventBits g) n \<or> bit b n) \<and> \<not> (\<exists>t \<in> W. clears (req t) \<and> bit (wanted (req t)) n)"
    by (simp add: bits_def bit_simps)
  moreover have "filter (\<lambda>it. \<not> bits_match (item_value k it) bits) ?its = filter (\<lambda>it. \<not> satisfied bits (req (owner it))) ?its"
    by (rule filter_cong) (simp_all add: req)
  ultimately show ?thesis
    using set_bits_effect [OF assms(1-7)] unfolding bits_def [symmetric] W wake_value_def by auto
qed

definition group_kernel :: kernel where
  "group_kernel = retag {2} 0x8500000000000005 sample_kernel"

definition sample_group :: EventGroup_t where
  "sample_group = \<lparr>uxEventBits = 1, xTasksWaitingForBits = EventList 7, group_is_static = True\<rparr>"

lemma group_kernel_facts: "time_ok 99 group_kernel" "entries group_kernel (EventList 7) = [EventItem 2]"
  "item_value group_kernel (EventItem 2) = 0x8500000000000005" "uxSchedulerSuspended group_kernel = 0" "0 < uxCurrentNumberOfTasks group_kernel"
  "entries group_kernel PendingReadyList = []" "xPendedTicks group_kernel = 0" "uxPriority group_kernel 2 = 1"
  using sample_kernel_time by (simp_all add: group_kernel_def) (simp_all add: sample_kernel_def xl_empty_def)

lemma set_bits_wakes_exactly_matching_witness:
  "\<exists>v k'. xEventGroupSetBits 6 sample_group group_kernel = Some (v, sample_group\<lparr>uxEventBits := v\<rparr>, k')
     \<and> container k' (StateItem 2) = Some (ReadyList 1) \<and> item_value k' (EventItem 2) = 0x8200000000000007
     \<and> \<not> bit v 0 \<and> bit v 1 \<and> \<not> bit v 2"
proof -
  define r where "r = \<lparr>wanted = 5, clears = True, needs_all = True\<rparr>"
  have g: "xTasksWaitingForBits sample_group = EventList 7" "uxEventBits sample_group = 1" by (simp_all add: sample_group_def)
  have v: "request_value r = 0x8500000000000005" "wanted r AND eventEVENT_BITS_CONTROL_BYTES = 0" "clears r" "wanted r = 5"
    by (simp_all add: r_def request_value_def)
  have "satisfied 7 r" by (simp add: satisfied_iff prvTestWaitCondition_def r_def)
  then have w: "satisfied_tasks 7 (\<lambda>_. r) [EventItem 2] = {2}" by (auto simp: satisfied_tasks_def)
  have r: "item_value group_kernel (EventItem t) = request_value r \<and> wanted r AND eventEVENT_BITS_CONTROL_BYTES = 0"
    if "EventItem t \<in> set (entries group_kernel (EventList 7))" for t using that v(1,2) by (simp add: group_kernel_facts)
  have b: "(6 :: tick) AND eventEVENT_BITS_CONTROL_BYTES = 0" "uxEventBits sample_group OR 6 = 7" by (simp_all add: sample_group_def)
  obtain x k' where x: "xEventGroupSetBits 6 sample_group group_kernel = Some (x, sample_group\<lparr>uxEventBits := x\<rparr>, k')"
    "\<forall>n < 64. bit x n \<longleftrightarrow> (bit (1 :: tick) n \<or> bit (6 :: tick) n) \<and> \<not> bit (5 :: tick) n"
    "container k' (StateItem 2) = Some (ReadyList 1)" "item_value k' (EventItem 2) = 0x8200000000000007"
    using set_bits_wakes_exactly_matching [OF group_kernel_facts(1,4-7) g(1) b(1), of "\<lambda>_. r", OF r] unfolding b(2) g(2) v(4)
    by (auto simp: group_kernel_facts v(3) w)
  then have "\<not> bit x 0 \<and> bit x 1 \<and> \<not> bit x 2" by simp
  then show ?thesis using x by blast
qed

end
