(* ===== verification/Rtos_Group_Inv.thy ===== *)
theory Rtos_Group_Inv
  imports Rtos_Group_Safe
begin

text \<open>
  What the functions of \<open>tasks.c\<close>, the tick and the context switch do to the event items: none puts
  one in a list, and none changes a value that is in use.
\<close>

section \<open>Event items outside the event group functions\<close>

definition ev_kept :: "kernel \<Rightarrow> kernel \<Rightarrow> bool" where
  "ev_kept k k' \<longleftrightarrow> (\<forall>t l. container k' (EventItem t) = Some l \<longrightarrow> container k (EventItem t) = Some l
       \<and> (event_value_in_use t k \<longrightarrow> item_value k' (EventItem t) = item_value k (EventItem t)))
     \<and> (xPendedTicks k = 0 \<longrightarrow> xPendedTicks k' = 0)"

lemma ev_kept_refl [simp]: "ev_kept k k"
  by (simp add: ev_kept_def)

lemma item_value_detach_if [simp]: "item_value (detach_if it k) = item_value k"
  by (simp add: detach_if_def split: option.splits)

lemma ev_keptD:
  assumes "ev_kept k k'"
  shows "container k' (EventItem t) = Some l \<Longrightarrow> container k (EventItem t) = Some l"
    and "container k' (EventItem t) = Some l \<Longrightarrow> event_value_in_use t k \<Longrightarrow> item_value k' (EventItem t) = item_value k (EventItem t)"
    and "xPendedTicks k = 0 \<Longrightarrow> xPendedTicks k' = 0"
  using assms unfolding ev_kept_def by blast+

lemma ev_keptI:
  assumes "\<And>t l. container k' (EventItem t) = Some l \<Longrightarrow> container k (EventItem t) = Some l"
    and "\<And>t l. container k' (EventItem t) = Some l \<Longrightarrow> event_value_in_use t k \<Longrightarrow> item_value k' (EventItem t) = item_value k (EventItem t)"
    and "xPendedTicks k = 0 \<Longrightarrow> xPendedTicks k' = 0"
  shows "ev_kept k k'"
  using assms unfolding ev_kept_def by blast

lemma ev_kept_trans:
  assumes "ev_kept k k1" and "ev_kept k1 k2"
  shows "ev_kept k k2"
proof (rule ev_keptI)
  fix t l assume c: "container k2 (EventItem t) = Some l"
  note c1 = ev_keptD(1) [OF assms(2) c]
  show "container k (EventItem t) = Some l" by (rule ev_keptD(1) [OF assms(1) c1])
  assume u: "event_value_in_use t k"
  note v = ev_keptD(2) [OF assms(1) c1 u]
  then have "event_value_in_use t k1" using u by (simp add: event_value_in_use_def)
  then show "item_value k2 (EventItem t) = item_value k (EventItem t)" using ev_keptD(2) [OF assms(2) c] v by simp
qed (use assms ev_keptD(3) in blast)

lemma ev_kept_fields [simp]:
  "ev_kept k (k'\<lparr>xYieldPending := b\<rparr>) = ev_kept k k'" "ev_kept k (portYIELD k') = ev_kept k k'"
  "ev_kept k (prvResetNextTaskUnblockTime k') = ev_kept k k'" "ev_kept k (k'\<lparr>uxCurrentNumberOfTasks := n\<rparr>) = ev_kept k k'"
  "ev_kept k (prvAddTaskToReadyList t k') = ev_kept k k'" "ev_kept k (list_insert_end l (StateItem t) k') = ev_kept k k'"
  "ev_kept k (readied t k') = ev_kept k k'" "ev_kept k (detach_if (StateItem t) k') = ev_kept k k'"
  by (simp_all add: ev_kept_def prvResetNextTaskUnblockTime_def portYIELD_def readied_def)

lemma ev_kept_detach [intro]: "ev_kept k k' \<Longrightarrow> ev_kept k (detach_if it k')"
  by (auto simp: ev_kept_def)

lemma statics_pended: "statics k' = statics k \<Longrightarrow> xPendedTicks k' = xPendedTicks k"
  by (simp add: statics_def)

lemma tick_pended:
  assumes "time_ok T k" and "uxSchedulerSuspended k = 0" and "xTaskIncrementTick k = Some (sw, k')"
  shows "xPendedTicks k' = xPendedTicks k"
proof -
  obtain k1 where k1: "advance k = Some k1" "almost_ok (Suc T) k1" using advance_almost_ok [OF assms(1)] by blast
  then have p: "xPendedTicks k1 = xPendedTicks k"
    by (auto simp: advance_def Let_def taskSWITCH_DELAYED_LISTS_def prvResetNextTaskUnblockTime_def split: if_splits)
  obtain b where b: "wake_phase k1 = Some (b, k')"
    using assms(3) k1(1) by (auto simp: increment_phases [OF assms(2)] bind_eq_Some_conv)
  then have "statics k' = statics k1" using wake_phase_woken [OF k1(2)] by (auto simp: woken_def)
  then show ?thesis using p statics_pended by metis
qed

lemma ev_kept_quiet:
  assumes "quiet k k'" and "\<And>t. container k' (EventItem t) \<in> {None, container k (EventItem t)}" and "xPendedTicks k' = 0 \<or> xPendedTicks k' = xPendedTicks k"
  shows "ev_kept k k'"
proof (rule ev_keptI)
  fix t l assume c: "container k' (EventItem t) = Some l"
  then show "container k (EventItem t) = Some l" using assms(2) [of t] by auto
qed (use assms(1,3) in \<open>auto simp: quiet_def\<close>)

lemma ev_kept_tick:
  assumes "kern_inv k" and "xTaskIncrementTick k = Some (sw, k')"
  shows "ev_kept k k'"
proof -
  obtain T where "time_ok T k" using assms(1) by (auto simp: kern_inv_def)
  with assms show ?thesis
    by (intro ev_kept_quiet kern_inv_tick(2) [OF assms] quiet_tick [OF assms(2)] disjI2 tick_pended [of T k sw k'] kern_invD(3))
qed

lemma resume_pended:
  assumes "time_ok T k" and "uxSchedulerSuspended k = 1" and "0 < uxCurrentNumberOfTasks k" and "xTaskResumeAll k = Some (y, k')"
  shows "xPendedTicks k' = 0"
  using resume_effect [OF assms(1-3)] assms(4) by auto

text \<open>Blocking and resuming.\<close>

lemma ev_kept_block:
  assumes "kern_inv k" and "\<not> pendsv k" and "0 < ticks"
    and "prvAddCurrentTaskToDelayedList ticks can (vTaskSuspendAll k) = Some k1" and "xTaskResumeAll k1 = Some (y, k2)"
  shows "ev_kept k (if y then k2 else portYIELD k2)"
proof -
  obtain T where T: "time_ok T k" using assms(1) by (auto simp: kern_inv_def)
  have cr: "current_ready k" by (rule not_pending_ready [OF assms(1,2)])
  have s: "time_ok T (vTaskSuspendAll k)" using T by simp
  have "about_to_block T (vTaskSuspendAll k)"
    by (rule time_ok_about_to_block [OF s]) (use cr in \<open>simp add: current_ready_def\<close>)
  from add_to_delayed_list [OF this assms(3), of can] have b: "time_ok T k1" "uxSchedulerSuspended k1 = 1" "uxCurrentNumberOfTasks k1 = uxCurrentNumberOfTasks k"
    using assms(4) kern_invD(3) [OF assms(1)] by (auto simp: blocked_until_def)
  have "ev_kept k k2"
  proof (rule ev_kept_quiet [OF _ kern_inv_block(2) [OF assms] disjI1])
    show "quiet k k2" using quiet_block [OF assms(4)] quiet_resume [OF assms(5)] by (auto intro: quiet_trans)
    show "xPendedTicks k2 = 0" by (rule resume_pended [OF b(1,2) _ assms(5)]) (use b(3) kern_invD(7) [OF assms(1)] in simp)
  qed
  then show ?thesis by simp
qed

lemma ev_kept_resume_only:
  assumes "kern_inv k" and "xTaskResumeAll (vTaskSuspendAll k) = Some (y, k2)"
  shows "ev_kept k (if y then k2 else portYIELD k2)"
proof -
  obtain T where T: "time_ok T k" using assms(1) by (auto simp: kern_inv_def)
  have "ev_kept k k2"
  proof (rule ev_kept_quiet [OF _ kern_inv_resume_only(2) [OF assms] disjI1])
    show "quiet k k2" using quiet_resume [OF assms(2)] by simp
    show "xPendedTicks k2 = 0"
      by (rule resume_pended [OF _ _ _ assms(2), of T]) (use T kern_invD [OF assms(1)] in simp_all)
  qed
  then show ?thesis by simp
qed

lemma ev_kept_delay:
  assumes "kern_inv k" and "\<not> pendsv k" and "vTaskDelay ticks k = Some k'"
  shows "ev_kept k k'"
proof (cases "ticks > 0")
  case True
  then obtain k1 y k2 where "prvAddCurrentTaskToDelayedList ticks False (vTaskSuspendAll k) = Some k1"
    "xTaskResumeAll k1 = Some (y, k2)" "k' = (if y then k2 else portYIELD k2)"
    using assms(3) by (auto simp: vTaskDelay_def Let_def bind_eq_Some_conv split: if_splits)
  then show ?thesis using ev_kept_block [OF assms(1,2) True] by blast
qed (use assms(3) in \<open>auto simp: vTaskDelay_def\<close>)

lemma ev_kept_delay_until:
  assumes "kern_inv k" and "\<not> pendsv k" and "xTaskDelayUntil previous increment k = Some (d, w, k')"
  shows "ev_kept k k'"
proof -
  let ?ticks = "previous + increment - xTickCount k"
  have inc: "increment \<noteq> 0" using assms(3) by (auto simp: xTaskDelayUntil_def)
  obtain k1 y k2 where k1: "(if should_delay previous increment (xTickCount k)
      then prvAddCurrentTaskToDelayedList ?ticks False (vTaskSuspendAll k) else Some (vTaskSuspendAll k)) = Some k1"
    and k2: "xTaskResumeAll k1 = Some (y, k2)" "k' = (if y then k2 else portYIELD k2)"
    using assms(3) by (auto simp: xTaskDelayUntil_def Let_def bind_eq_Some_conv split: if_splits)
  show ?thesis
  proof (cases "should_delay previous increment (xTickCount k)")
    case True
    then have "0 < ?ticks" unfolding wake_after should_delay_iff by (simp add: word_gt_0)
    from ev_kept_block [OF assms(1,2) this _ k2(1)] show ?thesis using k1 k2(2) True by simp
  next
    case False
    then show ?thesis using ev_kept_resume_only [OF assms(1)] k1 k2 by auto
  qed
qed

lemma ev_kept_notify_block:
  assumes "sys_ok s" and "\<not> pendsv (kern s)" and "notify_block waits prepare ticks (\<lambda>_. Some) s = Some s'"
    and w: "waits (s\<lparr>kern := vTaskSuspendAll (kern s)\<rparr>) = waits s"
    and p: "\<And>s. kern (prepare s) = kern s \<and> ucNotifyState (prepare s) = ucNotifyState s \<and> no_current (prepare s) = no_current s
      \<and> xSchedulerRunning (prepare s) = xSchedulerRunning s"
  shows "ev_kept (kern s) (kern s')"
proof (cases "waits s \<and> ticks > 0")
  case True
  obtain k1 y k2 where k: "prvAddCurrentTaskToDelayedList ticks True (vTaskSuspendAll (kern s)) = Some k1" "xTaskResumeAll k1 = Some (y, k2)"
    and s': "kern s' = (if y then k2 else portYIELD k2)"
    by (rule notify_block_effect [OF assms(3) True w p]) simp
  from ev_kept_block [OF sys_okD(1) [OF assms(1)] assms(2) _ k] True show ?thesis by (simp add: s')
next
  case False
  then show ?thesis using assms(3) by (auto simp: notify_block_def)
qed

text \<open>Operations without loops.\<close>

lemma ev_kept_reprioritised: "ev_kept k (reprioritised t new k)"
proof (rule ev_keptI)
  fix u l
  show "event_value_in_use u k \<Longrightarrow> item_value (reprioritised t new k) (EventItem u) = item_value k (EventItem u)"
    by (auto simp: reprioritised_def Let_def event_value_in_use_def set_priority_value_def)
qed (auto split: if_splits)

lemma ev_kept_to_ready: "list_remove (StateItem t) k = Some k1 \<Longrightarrow> ev_kept k (prvAddTaskToReadyList t k1)"
  by (auto dest: list_removeD)

lemma ev_kept_yield_any: "taskYIELD_ANY_CORE_IF_USING_PREEMPTION t s = Some s' \<Longrightarrow> ev_kept k (kern s') = ev_kept k (kern s)"
  by (auto simp: taskYIELD_ANY_CORE_IF_USING_PREEMPTION_def split: if_splits)

lemma kern_set_notified [simp]: "kern (set_notified t st v s) = kern s"
  by (simp add: set_notified_def)

lemma ev_kept_wake_from_ISR:
  assumes "notify_wake_from_ISR t s = Some (w, s')" and "uxSchedulerSuspended (kern s) = 0"
  shows "ev_kept (kern s) (kern s')"
  using assms by (auto simp: notify_wake_from_ISR_def bind_eq_Some_conv Let_def split: if_splits dest!: list_removeD)

lemma ev_kept_moved_to: "ev_kept k (moved_to l t k)" "ev_kept k (unlisted t k)"
  unfolding moved_to_def unlisted_def Let_def ev_kept_fields by (intro ev_kept_detach ev_kept_refl)+

lemma ev_kept_suspend:
  assumes "sys_ok s" and "vTaskSuspend h s = Some s'"
  shows "ev_kept (kern s) (kern s')"
proof -
  obtain t where t: "prvGetTCBFromHandle h s = Some t" using assms(2) by (auto simp: vTaskSuspend_def bind_eq_Some_conv)
  show ?thesis by (subst suspend_result(2) [OF assms t]) (simp add: ev_kept_moved_to)
qed

lemma ev_kept_delete:
  assumes "sys_ok s" and "vTaskDelete ucHeap h s = Some s'" and "prvGetTCBFromHandle h s = Some t"
    and "ucStaticallyAllocated s t = tskSTATICALLY_ALLOCATED_STACK_AND_TCB"
  shows "ev_kept (kern s) (kern s')"
  unfolding delete_result(2) [OF assms] by (simp add: ev_kept_moved_to)

lemma ev_kept_switch:
  assumes "xPortPendSVHandler k = Some k'"
  shows "ev_kept k k'"
  using assms
  by (auto simp: xPortPendSVHandler_def vTaskSwitchContext_def taskSELECT_HIGHEST_PRIORITY_TASK_def bind_eq_Some_conv ev_kept_def split: if_splits)

lemma ev_kept_create:
  assumes "sys_ok s" and "container (kern s) (StateItem t) = None" and "container (kern s) (EventItem t) = None"
    and "xTaskCreateStatic e code nm depth par prio stack t s = Some (t', s')"
  shows "ev_kept (kern s) (kern s')"
proof -
  have "ev_kept (kern s) (created t prio (kern s))"
    by (rule ev_keptI) (use assms(3) in \<open>auto simp: created_def split: if_splits\<close>)
  then show ?thesis unfolding create_result(1) [OF assms] by simp
qed

lemma ev_kept_notify:
  assumes "xTaskGenericNotify h idx v a s = Some (ok, p, s')"
  shows "ev_kept (kern s) (kern s')"
proof -
  obtain t where t: "h = Some t" using assms by (auto simp: xTaskGenericNotify_def bind_eq_Some_conv split: if_splits)
  show ?thesis
  proof (cases "ucNotifyState s t = taskWAITING_NOTIFICATION")
    case True
    then obtain k s1 where "list_remove (StateItem t) (kern s) = Some k"
      "taskYIELD_ANY_CORE_IF_USING_PREEMPTION t s1 = Some s'" "kern s1 = prvAddTaskToReadyList t k"
      using assms t by (force simp: xTaskGenericNotify_def bind_eq_Some_conv Let_def split: if_splits prod.splits)
    then show ?thesis using ev_kept_yield_any ev_kept_to_ready by metis
  next
    case False
    then have "kern s' = kern s" using assms t by (auto simp: xTaskGenericNotify_def Let_def split: if_splits prod.splits)
    then show ?thesis by simp
  qed
qed

lemma ev_kept_notify_isr:
  assumes "xTaskGenericNotifyFromISR h idx v a s = Some (ok, p, w, s')" and "uxSchedulerSuspended (kern s) = 0"
  shows "ev_kept (kern s) (kern s')"
proof -
  obtain t where t: "h = Some t" using assms(1) by (auto simp: xTaskGenericNotifyFromISR_def bind_eq_Some_conv)
  obtain ok' new where n: "notify_value a (ucNotifyState s t) v (ulNotifiedValue s t) = (ok', new)" by fastforce
  let ?s = "set_notified t taskNOTIFICATION_RECEIVED new s"
  have "notify_wake_from_ISR t ?s = Some (w, s') \<or> s' = ?s"
    using assms(1) t n by (cases "ucNotifyState s t = taskWAITING_NOTIFICATION")
      (auto simp: xTaskGenericNotifyFromISR_def bind_eq_Some_conv Let_def split: if_splits)
  then show ?thesis using ev_kept_wake_from_ISR [of t ?s w s'] assms(2) by auto
qed

lemma ev_kept_give_isr:
  assumes "vTaskGenericNotifyGiveFromISR h idx s = Some (w, s')" and "uxSchedulerSuspended (kern s) = 0"
  shows "ev_kept (kern s) (kern s')"
proof -
  obtain t where t: "h = Some t" using assms(1) by (auto simp: vTaskGenericNotifyGiveFromISR_def bind_eq_Some_conv)
  let ?s = "set_notified t taskNOTIFICATION_RECEIVED (ulNotifiedValue s t + 1) s"
  have "notify_wake_from_ISR t ?s = Some (w, s') \<or> s' = ?s"
    using assms(1) t by (cases "ucNotifyState s t = taskWAITING_NOTIFICATION")
      (auto simp: vTaskGenericNotifyGiveFromISR_def Let_def split: if_splits)
  then show ?thesis using ev_kept_wake_from_ISR [of t ?s w s'] assms(2) by auto
qed

lemma ev_kept_resume:
  assumes "vTaskResume h s = Some s'"
  shows "ev_kept (kern s) (kern s')"
proof -
  have "s' = s \<or> (\<exists>t k s1. list_remove (StateItem t) (kern s) = Some k \<and> kern s1 = prvAddTaskToReadyList t k
    \<and> taskYIELD_ANY_CORE_IF_USING_PREEMPTION t s1 = Some s')"
    using assms by (fastforce simp: vTaskResume_def bind_eq_Some_conv split: if_splits)
  then show ?thesis using ev_kept_yield_any ev_kept_to_ready by (metis ev_kept_refl)
qed

lemma ev_kept_resume_isr:
  assumes "xTaskResumeFromISR h s = Some (w, s')" and "uxSchedulerSuspended (kern s) = 0"
  shows "ev_kept (kern s) (kern s')"
proof -
  have "s' = s \<or> (\<exists>t b k. list_remove (StateItem t) (if b then (kern s)\<lparr>xYieldPending := True\<rparr> else kern s) = Some k \<and> kern s' = prvAddTaskToReadyList t k)"
    using assms by (fastforce simp: xTaskResumeFromISR_def bind_eq_Some_conv Let_def split: if_splits)
  then show ?thesis
  proof (elim disjE exE conjE)
    fix t b k assume "list_remove (StateItem t) (if b then (kern s)\<lparr>xYieldPending := True\<rparr> else kern s) = Some k" "kern s' = prvAddTaskToReadyList t k"
    then have "ev_kept (if b then (kern s)\<lparr>xYieldPending := True\<rparr> else kern s) (kern s')" using ev_kept_to_ready by metis
    moreover have "ev_kept (kern s) (if b then (kern s)\<lparr>xYieldPending := True\<rparr> else kern s)" by simp
    ultimately show ?thesis by (rule ev_kept_trans [rotated])
  qed simp
qed

lemma ev_kept_reap:
  assumes "reap_section s = Some (t, s1)" and "prvDeleteTCB ucHeap t s1 = Some s'"
    and "ucStaticallyAllocated s t = tskSTATICALLY_ALLOCATED_STACK_AND_TCB"
  shows "ev_kept (kern s) (kern s')"
proof -
  obtain k where k: "list_remove (StateItem t) (kern s) = Some k" "kern s1 = k\<lparr>uxCurrentNumberOfTasks := uxCurrentNumberOfTasks k - 1\<rparr>"
    "ucStaticallyAllocated s1 = ucStaticallyAllocated s"
    using assms(1) by (auto simp: reap_section_def bind_eq_Some_conv Let_def)
  then have "s' = s1" using assms(2,3) by (simp add: prvDeleteTCB_def)
  then show ?thesis using k(1,2) list_removeD [OF k(1)] by simp
qed

lemma ev_kept_priority:
  assumes "sys_ok s" and "vTaskPrioritySet h new s = Some s'"
  shows "ev_kept (kern s) (kern s')"
proof -
  have new: "new < configMAX_PRIORITIES" using assms(2) by (auto simp: vTaskPrioritySet_def not_le split: if_splits)
  then obtain t where t: "prvGetTCBFromHandle h s = Some t" using assms(2) by (auto simp: vTaskPrioritySet_def bind_eq_Some_conv)
  show ?thesis using priority_set_effect [OF t sys_okD(3) [OF assms(1)] new] assms(2) by (auto simp: ev_kept_reprioritised)
qed

lemma ev_kept_step: "task_step s s' \<Longrightarrow> sys_ok s \<Longrightarrow> ev_kept (kern s) (kern s')"
proof (induction rule: task_step.induct)
  case (delay s ticks k)
  then show ?case using ev_kept_delay [OF sys_okD(1)] by simp
next
  case (delay_until s prev inc d w k)
  then show ?case using ev_kept_delay_until [OF sys_okD(1)] by simp
next
  case (take_block s ticks s')
  then show ?case by (intro ev_kept_notify_block [OF take_block(3,1,2)]) auto
next
  case (wait_block s bits ticks s')
  then show ?case by (intro ev_kept_notify_block [OF wait_block(3,1,2)]) (auto simp: clear_bits_def)
next
  case (take_end s clear)
  then show ?case by (simp add: take_finish_def Let_def)
next
  case (wait_end s bits)
  then show ?case by (simp add: wait_finish_def Let_def)
next
  case (state_clear s h idx ok s')
  then show ?case by (auto simp: xTaskGenericNotifyStateClear_def bind_eq_Some_conv split: if_splits)
next
  case (value_clear s h idx bits v s')
  then show ?case by (auto simp: ulTaskGenericNotifyValueClear_def bind_eq_Some_conv split: if_splits)
next
  case (tick maxpri port s port' k)
  then obtain sw k1 where "xTaskIncrementTick (kern s) = Some (sw, k1)" "k = (if sw then portYIELD k1 else k1)"
    by (cases "xTaskIncrementTick (kern s)") (auto simp: xPortSysTickHandler_def Let_def split: if_splits)
  then show ?case using ev_kept_tick [OF sys_okD(1) [OF tick(2)]] by simp
next
  case (switch s k)
  then show ?case using ev_kept_switch by simp
qed (blast intro: ev_kept_suspend ev_kept_resume ev_kept_priority ev_kept_notify ev_kept_create ev_kept_delete ev_kept_reap
    ev_kept_resume_isr ev_kept_notify_isr ev_kept_give_isr sys_okD(5))+

end
