(* ===== verification/Rtos_Group_Sys.thy ===== *)
theory Rtos_Group_Sys
  imports Rtos_Group_Inv
begin

text \<open>
  An event group in the system of tasks and interrupts: the invariant that no task waits for bits
  that are set.
\<close>

section \<open>The scheduler suspended by a running task\<close>

definition susp_inv :: "nat \<Rightarrow> kernel \<Rightarrow> bool" where
  "susp_inv n k \<longleftrightarrow> (\<exists>T. time_ok T k) \<and> current_ready k \<and> (xYieldPending k \<or> most_urgent k)
     \<and> (\<forall>t. uxBasePriority k t \<le> uxPriority k t) \<and> uxSchedulerSuspended k = n
     \<and> finite (live k) \<and> uxCurrentNumberOfTasks k = card (live k) \<and> pxCurrentTCB k \<in> live k
     \<and> xPendedTicks k = 0 \<and> entries k PendingReadyList = []"

definition pend_free :: "kernel \<Rightarrow> bool" where
  "pend_free k \<longleftrightarrow> xPendedTicks k = 0 \<and> (\<forall>t. container k (EventItem t) \<noteq> Some PendingReadyList)"

lemma pending_empty: "kernel_ok k \<Longrightarrow> entries k PendingReadyList = [] \<longleftrightarrow> (\<forall>t. container k (EventItem t) \<noteq> Some PendingReadyList)"
proof -
  assume ok: "kernel_ok k"
  have "it \<in> set (entries k PendingReadyList) \<longleftrightarrow> container k it = Some PendingReadyList" for it
    by (rule lists_ok_container [OF kernel_ok_lists [OF ok]])
  moreover have "container k it = Some PendingReadyList \<Longrightarrow> it = EventItem (owner it)" for it
    using kernel_ok_fits [OF ok, of it PendingReadyList] by simp
  ultimately show ?thesis by (metis list.set_intros(1) list.set(1) empty_iff neq_Nil_conv)
qed

lemma suspend_all_keeps [simp]: "current_ready (vTaskSuspendAll k) = current_ready k" "most_urgent (vTaskSuspendAll k) = most_urgent k"
  "xYieldPending (vTaskSuspendAll k) = xYieldPending k" "lists (vTaskSuspendAll k) = lists k" "item_value (vTaskSuspendAll k) = item_value k"
  "pendsv (vTaskSuspendAll k) = pendsv k"
  by (simp_all add: current_ready_def most_urgent_def vTaskSuspendAll_def)

lemma susp_inv_start:
  assumes "kern_inv k" and "\<not> pendsv k" and "pend_free k"
  shows "susp_inv 1 (vTaskSuspendAll k)"
proof -
  obtain T where T: "time_ok T k" using assms(1) by (auto simp: kern_inv_def)
  then have "entries k PendingReadyList = []" using assms(3) pending_empty [of k] by (simp add: time_ok_def pend_free_def)
  then show ?thesis
    using T kern_invD [OF assms(1)] assms(2,3) by (auto simp: susp_inv_def switch_ok_def pend_free_def)
qed

lemma susp_inv_nest: "susp_inv n k \<Longrightarrow> susp_inv (Suc n) (vTaskSuspendAll k)"
  by (auto simp: susp_inv_def)

lemma susp_inv_unnest:
  assumes "susp_inv (Suc (Suc n)) k"
  shows "xTaskResumeAll k = Some (False, k\<lparr>uxSchedulerSuspended := Suc n\<rparr>)" and "susp_inv (Suc n) (k\<lparr>uxSchedulerSuspended := Suc n\<rparr>)"
  using assms by (simp_all add: xTaskResumeAll_def susp_inv_def current_ready_def most_urgent_def live_def)

lemma susp_inv_woken:
  assumes "susp_inv n k" and "woken_with ts v k k1" and "ts \<subseteq> live k"
  shows "susp_inv n k1"
proof -
  obtain T where T: "time_ok T k" using assms(1) by (auto simp: susp_inv_def)
  note w = woken_withD [OF assms(2)]
  have "entries k1 PendingReadyList = []" using w(3) [of PendingReadyList] assms(1) by (simp add: susp_inv_def)
  moreover have "live k1 = live k" using w(1) assms(3) by (auto simp: live_def)
  moreover have "current_ready k1" using assms(1) w(1,2,6,7) by (auto simp: susp_inv_def current_ready_def)
  moreover have "most_urgent k1" if "\<not> xYieldPending k1"
  proof -
    from that have y: "\<not> xYieldPending k" "\<And>t. t \<in> ts \<Longrightarrow> uxPriority k t \<le> uxPriority k (pxCurrentTCB k)" using w(13) by (auto simp: not_less)
    then have "most_urgent k" using assms(1) by (simp add: susp_inv_def)
    then show "most_urgent k1" using y(2) w(1,6,7) by (auto simp: most_urgent_def split: if_splits)
  qed
  ultimately show ?thesis
    using assms(1) woken_with_time_ok [OF T assms(2)] w(6-10,15) by (auto simp: susp_inv_def)
qed

lemma susp_inv_resume:
  assumes "susp_inv 1 k" and "xTaskResumeAll k = Some (y, k')"
  shows "kern_inv k'" and "container k' = container k" and "item_value k' = item_value k" and "pend_free k'"
proof -
  obtain T where T: "time_ok T k" using assms(1) by (auto simp: susp_inv_def)
  let ?k = "k\<lparr>uxSchedulerSuspended := 0\<rparr>"
  have k': "k' = (if xYieldPending k then portYIELD ?k else ?k)"
    using resume_quietly [of k] assms by (auto simp: susp_inv_def card_gt_0_iff split: if_splits)
  show c: "container k' = container k" "item_value k' = item_value k" by (simp_all add: k' portYIELD_def)
  have lv: "live k' = live k" using c(1) by (simp add: live_def)
  have "switch_ok k'"
    using assms(1) by (auto simp: k' susp_inv_def switch_ok_def current_ready_def most_urgent_def)
  then show "kern_inv k'"
    using assms(1) T lv by (intro kern_invI [of T]) (auto simp: k' susp_inv_def)
  have "\<forall>t. container k (EventItem t) \<noteq> Some PendingReadyList"
    using pending_empty [OF time_okD(1) [OF T]] assms(1) by (simp add: susp_inv_def)
  then show "pend_free k'" using assms(1) c by (simp add: pend_free_def k' susp_inv_def portYIELD_def)
qed

text \<open>The running task blocks in the list of a group.\<close>

lemma susp_inv_place:
  assumes "susp_inv 1 k" and "0 < ticks" and "vTaskPlaceOnUnorderedEventList (EventList e) v ticks k = Some k1"
    and "xTaskResumeAll k1 = Some (y, k2)"
  defines "c \<equiv> pxCurrentTCB k"
  shows "kern_inv (if y then k2 else portYIELD k2)" and "pend_free k2"
    and "container k2 (EventItem t) = Some l \<Longrightarrow> (if t = c then l = EventList e \<and> item_value k2 (EventItem t) = v OR taskEVENT_LIST_ITEM_VALUE_IN_USE
      else container k (EventItem t) = Some l \<and> item_value k2 (EventItem t) = item_value k (EventItem t))"
proof -
  obtain T where T: "time_ok T k" using assms(1) by (auto simp: susp_inv_def)
  have i: "current_ready k" "uxBasePriority k t \<le> uxPriority k t" "uxSchedulerSuspended k = 1" "finite (live k)"
    "uxCurrentNumberOfTasks k = card (live k)" "c \<in> live k" "xPendedTicks k = 0" "entries k PendingReadyList = []" for t
    using assms(1) by (auto simp: susp_inv_def c_def)
  let ?w = "v OR taskEVENT_LIST_ITEM_VALUE_IN_USE"
  let ?r = "retag {c} ?w k"
  let ?k = "list_insert_end (EventList e) (EventItem c) ?r"
  have Tr: "time_ok T ?r" using T by simp
  have cont: "container k (EventItem c) = None" and cst: "container k (StateItem c) = Some (ReadyList (uxPriority k c))"
    using i(1) time_okD(2) [OF T] by (auto simp: current_ready_def waiting_ok_def c_def)
  have okk: "kernel_ok ?k" by (rule kernel_ok_attach [of ?r "EventItem c" "EventList e"]) (use time_okD(1) [OF Tr] cont in simp_all)
  have ab: "about_to_block T ?k"
    unfolding about_to_block_def
  proof (intro conjI)
    show "unat (xTickCount ?k) = T mod 2 ^ 64" using time_okD(4) [OF T] by simp
    show "delays_ok ?k"
      using time_okD(3) [OF Tr] delayed_list_kinds [OF time_okD(1) [OF T], of "pxDelayedTaskList k"]
        delayed_list_kinds [OF time_okD(1) [OF T], of "pxOverflowDelayedTaskList k"]
      by (auto simp: delays_ok_def by_value_def)
    show "\<exists>p. container ?k (StateItem (pxCurrentTCB ?k)) = Some (ReadyList p)" using cst by (simp add: c_def)
    show "\<forall>t. t \<noteq> pxCurrentTCB ?k \<longrightarrow> container ?k (EventItem t) \<noteq> None \<longrightarrow>
          container ?k (StateItem t) \<in> Some ` {DelayedTaskList1, DelayedTaskList2, SuspendedTaskList}"
      using time_okD(2) [OF T] by (simp add: waiting_ok_def c_def)
  qed (rule okk)
  have pl: "prvAddCurrentTaskToDelayedList ticks True ?k = Some k1"
    using assms(3) i(3) by (simp add: vTaskPlaceOnUnorderedEventList_def retag_single c_def Let_def)
  obtain n where b: "blocked_until T n ?k k1" using add_to_delayed_list [OF ab assms(2), of True] pl by auto
  have b': "time_ok T k1" "due T k1 c = map_option (\<lambda>n. T + n) n" "n = None \<longrightarrow> container k1 (StateItem c) = Some SuspendedTaskList"
    "u \<noteq> c \<Longrightarrow> container k1 (StateItem u) = container k (StateItem u)"
    "container k1 (EventItem u) = (if u = c then Some (EventList e) else container k (EventItem u))" "uxSchedulerSuspended k1 = 1"
    "pxCurrentTCB k1 = c" "uxPriority k1 = uxPriority k" "uxCurrentNumberOfTasks k1 = uxCurrentNumberOfTasks k" for u
    using b i(3) by (auto simp: blocked_until_def c_def)
  have "c \<in> live k1" using b'(2,3) due_live [of T k1] by (cases n) (auto simp: live_def)
  then have "u \<in> live k1 \<longleftrightarrow> u \<in> live k" for u using b'(4) i(6) by (cases "u = c") (auto simp: live_def)
  then have lv: "live k1 = live k" by blast
  have bp: "uxBasePriority k1 = uxBasePriority k" using quiet_block [OF pl] by (simp add: quiet_def) (simp add: retag_def)
  note r = kern_inv_resume [OF b'(1,6) _ _ _ _ assms(4)]
  show "kern_inv (if y then k2 else portYIELD k2)" using r(1) i b' lv bp by simp
  have e2: "container k2 (EventItem u) \<in> {None, container k1 (EventItem u)}" for u using r(2) i b' lv bp by simp
  have "0 < uxCurrentNumberOfTasks k1" using i(4-6) b'(9) by (auto simp: card_gt_0_iff)
  then have "xPendedTicks k2 = 0" by (rule resume_pended [OF b'(1,6) _ assms(4)])
  moreover have np: "container k (EventItem u) \<noteq> Some PendingReadyList" for u
    using pending_empty [OF time_okD(1) [OF T]] i(8) by simp
  ultimately show "pend_free k2" using e2 b'(5) by (auto simp: pend_free_def) (metis list_id.distinct option.inject option.simps(3))
  have "quiet ?k k2" using quiet_block [OF pl] quiet_resume [OF assms(4)] by (rule quiet_trans)
  then have v: "item_value k2 (EventItem u) = (if u = c then ?w else item_value k (EventItem u))" for u by (simp add: quiet_def)
  show "container k2 (EventItem t) = Some l \<Longrightarrow> (if t = c then l = EventList e \<and> item_value k2 (EventItem t) = ?w
      else container k (EventItem t) = Some l \<and> item_value k2 (EventItem t) = item_value k (EventItem t))"
    using e2 [of t] b'(5) [of t] v [of t] by (auto split: if_splits)
qed

section \<open>Bits\<close>

lemma and_cover:
  fixes w b c :: tick
  shows "w AND b = 0 \<Longrightarrow> w AND (b AND c) = 0" and "w AND (b AND c) = w \<Longrightarrow> w AND b = w"
proof -
  show "w AND b = 0 \<Longrightarrow> w AND (b AND c) = 0" by (simp only: and.assoc [symmetric] bit.conj_zero_left)
  assume w: "w AND (b AND c) = w"
  have "(w AND (b AND c)) AND b = w AND (b AND c)" by (rule bit_eqI) (auto simp: bit_and_iff)
  then show "w AND b = w" unfolding w .
qed

lemma if_and_cover:
  fixes w b c :: tick
  assumes "if P then w AND (b AND c) \<noteq> 0 else w AND (b AND c) = w"
  shows "if P then w AND b \<noteq> 0 else w AND b = w"
proof (cases P)
  case True
  with assms have "w AND (b AND c) \<noteq> 0" by (simp only: if_True not_False_eq_True)
  then have "w AND b \<noteq> 0" using and_cover(1) by blast
  with True show ?thesis by (simp only: if_True not_False_eq_True)
next
  case False
  with assms have "w AND (b AND c) = w" by (simp only: if_False)
  from and_cover(2) [OF this] show ?thesis using False by (simp only: if_False)
qed

lemma bits_match_antitone: "bits_match v (b AND c) \<Longrightarrow> bits_match v b"
  unfolding bits_match_def Let_def by (rule if_and_cover)

section \<open>The group in the system\<close>

definition group_ok :: "nat \<Rightarrow> EventGroup_t \<Rightarrow> task_state \<Rightarrow> bool" where
  "group_ok e g s \<longleftrightarrow> sys_ok s \<and> pend_free (kern s) \<and> xTasksWaitingForBits g = EventList e
     \<and> (\<forall>t. container (kern s) (EventItem t) = Some (EventList e) \<longrightarrow>
          event_value_in_use t (kern s) \<and> \<not> bits_match (item_value (kern s) (EventItem t)) (uxEventBits g))"

text \<open>
  Whatever the step relation of tasks allows, and the group's functions, of which a wait is the part
  up to the yield and, once the task runs again, its last sections. A task that starts a
  wait does not also wait for a notification.
\<close>

inductive group_step :: "EventGroup_t \<times> task_state \<Rightarrow> EventGroup_t \<times> task_state \<Rightarrow> bool" where
  task: "task_step s s' \<Longrightarrow> group_step (g, s) (g, s')"
| set_bits: "\<not> pendsv (kern s) \<Longrightarrow> xEventGroupSetBits b g (kern s) = Some (v, g', k) \<Longrightarrow> group_step (g, s) (g', s\<lparr>kern := k\<rparr>)"
| clear_bits: "\<not> pendsv (kern s) \<Longrightarrow> xEventGroupClearBits b g = Some (v, g') \<Longrightarrow> group_step (g, s) (g', s)"
| wait: "\<not> pendsv (kern s) \<Longrightarrow> ucNotifyState s (current s) \<noteq> taskWAITING_NOTIFICATION \<Longrightarrow>
    waited AND eventEVENT_BITS_CONTROL_BYTES = 0 \<Longrightarrow>
    wait_bits_section waited clear all ticks g (vTaskSuspendAll (kern s)) = Some (v, block, g', k1) \<Longrightarrow> xTaskResumeAll k1 = Some (y, k2) \<Longrightarrow>
    group_step (g, s) (g', s\<lparr>kern := (if block \<and> \<not> y then portYIELD k2 else k2)\<rparr>)"
| sync: "\<not> pendsv (kern s) \<Longrightarrow> ucNotifyState s (current s) \<noteq> taskWAITING_NOTIFICATION \<Longrightarrow>
    waited AND eventEVENT_BITS_CONTROL_BYTES = 0 \<Longrightarrow>
    sync_section b waited ticks g (vTaskSuspendAll (kern s)) = Some (v, block, g', k1) \<Longrightarrow> xTaskResumeAll k1 = Some (y, k2) \<Longrightarrow>
    group_step (g, s) (g', s\<lparr>kern := (if block \<and> \<not> y then portYIELD k2 else k2)\<rparr>)"
| reset_value: "\<not> pendsv (kern s) \<Longrightarrow> group_step (g, s) (g, s\<lparr>kern := snd (uxTaskResetEventItemValue (kern s))\<rparr>)"
| wait_timeout: "\<not> pendsv (kern s) \<Longrightarrow> group_step (g, s) (snd (wait_bits_timeout waited clear all g), s)"
| sync_timeout: "\<not> pendsv (kern s) \<Longrightarrow> group_step (g, s) (snd (sync_timeout waited g), s)"

lemma group_okD:
  assumes "group_ok e g s"
  shows "sys_ok s" "pend_free (kern s)" "xTasksWaitingForBits g = EventList e"
    and "container (kern s) (EventItem t) = Some (EventList e) \<Longrightarrow> event_value_in_use t (kern s)"
    and "container (kern s) (EventItem t) = Some (EventList e) \<Longrightarrow> \<not> bits_match (item_value (kern s) (EventItem t)) (uxEventBits g)"
  using assms by (auto simp: group_ok_def)

text \<open>Fewer bits, and a kernel with no new waiting task.\<close>

lemma group_ok_fewer:
  assumes "group_ok e g s" and "sys_ok s'" and "pend_free (kern s')" and "xTasksWaitingForBits g' = EventList e"
    and "uxEventBits g' = uxEventBits g AND c"
    and "\<And>t. container (kern s') (EventItem t) = Some (EventList e) \<Longrightarrow> container (kern s) (EventItem t) = Some (EventList e)
      \<and> item_value (kern s') (EventItem t) = item_value (kern s) (EventItem t)"
  shows "group_ok e g' s'"
  unfolding group_ok_def
proof (intro conjI allI impI)
  fix t assume "container (kern s') (EventItem t) = Some (EventList e)"
  then have k: "container (kern s) (EventItem t) = Some (EventList e)" "item_value (kern s') (EventItem t) = item_value (kern s) (EventItem t)"
    using assms(6) by blast+
  show "event_value_in_use t (kern s')" using group_okD(4) [OF assms(1) k(1)] k(2) by (simp add: event_value_in_use_def)
  show "\<not> bits_match (item_value (kern s') (EventItem t)) (uxEventBits g')"
    using group_okD(5) [OF assms(1) k(1)] bits_match_antitone unfolding k(2) assms(5) by blast
qed (use assms in simp_all)

lemma group_ok_task:
  assumes "group_ok e g s" and "task_step s s'"
  shows "group_ok e g s'"
proof (rule group_ok_fewer [OF assms(1)])
  note kept = ev_kept_step [OF assms(2) group_okD(1) [OF assms(1)]]
  show "sys_ok s'" by (rule sys_ok_step [OF assms(2) group_okD(1) [OF assms(1)]])
  show "pend_free (kern s')" using group_okD(2) [OF assms(1)] ev_keptD(1,3) [OF kept] by (auto simp: pend_free_def)
  fix t assume c: "container (kern s') (EventItem t) = Some (EventList e)"
  note c1 = ev_keptD(1) [OF kept c]
  show "container (kern s) (EventItem t) = Some (EventList e) \<and> item_value (kern s') (EventItem t) = item_value (kern s) (EventItem t)"
    using c1 ev_keptD(2) [OF kept c] group_okD(4) [OF assms(1) c1] by blast
next
  show "uxEventBits g = uxEventBits g AND - 1" by simp
qed (rule group_okD(3) [OF assms(1)])

text \<open>A group while a running task has suspended the scheduler.\<close>

definition group_susp :: "nat \<Rightarrow> EventGroup_t \<Rightarrow> nat \<Rightarrow> kernel \<Rightarrow> bool" where
  "group_susp e g n k \<longleftrightarrow> susp_inv n k \<and> xTasksWaitingForBits g = EventList e
     \<and> (\<forall>t. container k (EventItem t) = Some (EventList e) \<longrightarrow>
          event_value_in_use t k \<and> \<not> bits_match (item_value k (EventItem t)) (uxEventBits g))"

lemma group_susp_start:
  assumes "group_ok e g s" and "\<not> pendsv (kern s)"
  shows "group_susp e g 1 (vTaskSuspendAll (kern s))"
  using susp_inv_start [OF sys_okD(1) [OF group_okD(1) [OF assms(1)]] assms(2) group_okD(2) [OF assms(1)]] assms(1)
  by (simp add: group_susp_def group_ok_def event_value_in_use_def)

lemma group_susp_fewer: "group_susp e g n k \<Longrightarrow> uxEventBits g' = uxEventBits g AND c \<Longrightarrow>
    xTasksWaitingForBits g' = xTasksWaitingForBits g \<Longrightarrow> group_susp e g' n k"
  using bits_match_antitone unfolding group_susp_def by metis

text \<open>Setting bits, in a section of its own or within one.\<close>

lemma group_susp_set_bits:
  assumes "group_susp e g n (vTaskSuspendAll k)" and "xEventGroupSetBits b g k = Some (v, g', k')"
  obtains k1 y c where "group_susp e g' n k1" "xTaskResumeAll k1 = Some (y, k')" "uxEventBits g' = (uxEventBits g OR b) AND c"
    and "\<And>t. container k1 (EventItem t) \<in> {None, container k (EventItem t)}" "pxCurrentTCB k1 = pxCurrentTCB k"
proof -
  have g: "susp_inv n (vTaskSuspendAll k)" "xTasksWaitingForBits g = EventList e" using assms(1) by (auto simp: group_susp_def)
  obtain T where T: "time_ok T k" using g(1) by (auto simp: susp_inv_def)
  let ?B = "uxEventBits g OR b"
  let ?M = "matching k ?B (entries k (EventList e))" and ?L = "entries k (EventList e)"
  have "b AND eventEVENT_BITS_CONTROL_BYTES = 0" using assms(2) by (auto simp: xEventGroupSetBits_def split: if_splits)
  from set_bits_walk [OF T g(2) this] obtain k1 where k1: "woken_with (owner ` set ?M) (wake_value ?B) (vTaskSuspendAll k) k1"
    "xEventGroupSetBits b g k = map_option (\<lambda>(_, k'). (?B AND NOT (cleared_by k ?M), g\<lparr>uxEventBits := ?B AND NOT (cleared_by k ?M)\<rparr>, k')) (xTaskResumeAll k1)"
    by blast
  then obtain y where y: "xTaskResumeAll k1 = Some (y, k')" "g' = g\<lparr>uxEventBits := ?B AND NOT (cleared_by k ?M)\<rparr>"
    using assms(2) unfolding k1(2) by (auto simp: map_option_case split: option.splits)
  note wd = woken_withD [OF k1(1)]
  have w: "it \<in> set ?L \<Longrightarrow> container k it = Some (EventList e) \<and> it = EventItem (owner it)" for it
    by (rule group_waiters(2) [OF time_okD(1) [OF T]])
  have sub: "owner ` set ?M \<subseteq> live (vTaskSuspendAll k)"
  proof
    fix t assume "t \<in> owner ` set ?M"
    then obtain it where it: "t = owner it" "it \<in> set ?L" by (auto simp: matching_def)
    have "container k (EventItem t) = Some (EventList e)" using w [OF it(2)] it(1) by metis
    then show "t \<in> live (vTaskSuspendAll k)" using time_okD(2) [OF T] by (auto simp: live_def waiting_ok_def)
  qed
  have left: "event_value_in_use t k1 \<and> \<not> bits_match (item_value k1 (EventItem t)) ?B" if c: "container k1 (EventItem t) = Some (EventList e)" for t
  proof -
    have t: "t \<notin> owner ` set ?M" "container k (EventItem t) = Some (EventList e)" "item_value k1 (EventItem t) = item_value k (EventItem t)"
      using c wd(2,4) [of t] by (auto split: if_splits)
    have "event_value_in_use t k" using assms(1) t(2) by (simp add: group_susp_def event_value_in_use_def)
    moreover have "EventItem t \<in> set ?L" using t(2) lists_ok_container [OF kernel_ok_lists [OF time_okD(1) [OF T]]] by blast
    then have "\<not> bits_match (item_value k (EventItem t)) ?B" using t(1) by (force simp: matching_def)
    ultimately show ?thesis using t(3) by (simp add: event_value_in_use_def)
  qed
  have "group_susp e g' n k1"
    unfolding group_susp_def
  proof (intro conjI allI impI)
    show "susp_inv n k1" by (rule susp_inv_woken [OF g(1) k1(1) sub])
    show "xTasksWaitingForBits g' = EventList e" using g(2) y(2) by simp
    fix t assume "container k1 (EventItem t) = Some (EventList e)"
    note l = left [OF this]
    show "event_value_in_use t k1" using l by blast
    show "\<not> bits_match (item_value k1 (EventItem t)) (uxEventBits g')" using l bits_match_antitone unfolding y(2) by auto
  qed
  moreover have "container k1 (EventItem t) \<in> {None, container k (EventItem t)}" for t using wd(2) [of t] by simp
  moreover have "pxCurrentTCB k1 = pxCurrentTCB k" using wd(7) by simp
  ultimately show ?thesis using that y by simp
qed

text \<open>The scheduler resumes, with or without the task blocked in the group's list.\<close>

lemma group_ok_resumed:
  assumes "sys_ok s" and "group_susp e g 1 k" and "xTaskResumeAll k = Some (y, k2)"
    and "\<And>t. container k (EventItem t) \<in> {None, container (kern s) (EventItem t)}"
  shows "group_ok e g (s\<lparr>kern := k2\<rparr>)"
proof -
  have g: "susp_inv 1 k" using assms(2) by (simp add: group_susp_def)
  note r = susp_inv_resume [OF g assms(3)]
  have "sys_ok (s\<lparr>kern := k2\<rparr>)" by (rule sys_ok_kernel [OF assms(1) r(1)]) (use assms(4) r(2) in simp)
  then show ?thesis using assms(2) r by (simp add: group_ok_def group_susp_def event_value_in_use_def)
qed

lemma group_ok_blocked:
  assumes "sys_ok s" and "group_susp e g 1 k" and "0 < ticks"
    and "vTaskPlaceOnUnorderedEventList (EventList e) v ticks k = Some k1" and "xTaskResumeAll k1 = Some (y, k2)"
    and "\<And>t. container k (EventItem t) \<in> {None, container (kern s) (EventItem t)}" and "pxCurrentTCB k = current s"
    and "ucNotifyState s (current s) \<noteq> taskWAITING_NOTIFICATION"
    and "\<not> bits_match (v OR taskEVENT_LIST_ITEM_VALUE_IN_USE) (uxEventBits g)"
  shows "group_ok e g (s\<lparr>kern := (if \<not> y then portYIELD k2 else k2)\<rparr>)"
proof -
  have g: "susp_inv 1 k" using assms(2) by (simp add: group_susp_def)
  let ?k = "if y then k2 else portYIELD k2"
  note p = susp_inv_place [OF g assms(3-5)]
  have f: "container ?k = container k2" "item_value ?k = item_value k2" "xPendedTicks ?k = xPendedTicks k2" by (simp_all add: portYIELD_def)
  have inuse: "(v OR taskEVENT_LIST_ITEM_VALUE_IN_USE) AND 0x8000000000000000 \<noteq> 0"
    by (simp add: bit.conj_disj_distrib2 or_eq_0_iff)
  have "sys_ok (s\<lparr>kern := ?k\<rparr>)"
  proof (rule sys_okI)
    show "kern_inv (kern (s\<lparr>kern := ?k\<rparr>))" using p(1) by simp
    show "notify_ok (s\<lparr>kern := ?k\<rparr>)"
      unfolding notify_ok_def
    proof (intro allI impI)
      fix t assume "ucNotifyState (s\<lparr>kern := ?k\<rparr>) t = taskWAITING_NOTIFICATION"
      then have t: "t \<noteq> current s" "container (kern s) (EventItem t) = None"
        using assms(8) sys_okD(2) [OF assms(1)] by (auto simp: notify_ok_def)
      then show "container (kern (s\<lparr>kern := ?k\<rparr>)) (EventItem t) = None"
        using p(3) [of t] assms(6) [of t] assms(7) by (cases "container k2 (EventItem t)") (auto simp: f)
    qed
  qed (use sys_okD [OF assms(1)] in simp_all)
  moreover have "event_value_in_use t ?k \<and> \<not> bits_match (item_value ?k (EventItem t)) (uxEventBits g)"
    if c: "container ?k (EventItem t) = Some (EventList e)" for t
    using p(3) [of t "EventList e"] c assms(2,9) inuse unfolding f
    by (cases "t = pxCurrentTCB k") (simp_all add: group_susp_def event_value_in_use_def f(2))
  moreover have "pend_free ?k" using p(2) by (simp add: pend_free_def portYIELD_def)
  moreover have "xTasksWaitingForBits g = EventList e" using assms(2) by (simp add: group_susp_def)
  ultimately have "group_ok e g (s\<lparr>kern := ?k\<rparr>)" by (simp add: group_ok_def split del: if_split)
  then show ?thesis by (cases y) simp_all
qed

text \<open>The steps.\<close>

lemma group_ok_set_bits:
  assumes "group_ok e g s" and "\<not> pendsv (kern s)" and "xEventGroupSetBits b g (kern s) = Some (v, g', k)"
  shows "group_ok e g' (s\<lparr>kern := k\<rparr>)"
proof -
  obtain k1 y c where "group_susp e g' 1 k1" "xTaskResumeAll k1 = Some (y, k)"
    "\<And>t. container k1 (EventItem t) \<in> {None, container (kern s) (EventItem t)}"
    using group_susp_set_bits [OF group_susp_start [OF assms(1,2)] assms(3)] by metis
  then show ?thesis by (rule group_ok_resumed [OF group_okD(1) [OF assms(1)]])
qed

lemma group_ok_wait:
  assumes "group_ok e g s" and "\<not> pendsv (kern s)" and "ucNotifyState s (current s) \<noteq> taskWAITING_NOTIFICATION"
    and "waited AND eventEVENT_BITS_CONTROL_BYTES = 0"
    and "wait_bits_section waited clear all ticks g (vTaskSuspendAll (kern s)) = Some (v, block, g', k1)" and "xTaskResumeAll k1 = Some (y, k2)"
  shows "group_ok e g' (s\<lparr>kern := (if block \<and> \<not> y then portYIELD k2 else k2)\<rparr>)"
proof -
  let ?k = "vTaskSuspendAll (kern s)"
  note st = group_susp_start [OF assms(1,2)] and i = group_okD(1,3) [OF assms(1)]
  consider (met) "prvTestWaitCondition (uxEventBits g) waited all" | (poll) "\<not> prvTestWaitCondition (uxEventBits g) waited all" "ticks = 0"
    | (block) "\<not> prvTestWaitCondition (uxEventBits g) waited all" "ticks \<noteq> 0" by blast
  then show ?thesis
  proof cases
    case met
    then have r: "\<not> block" "k1 = ?k" "g' = (if clear then clear_group_bits waited g else g)"
      using assms(5) by (auto simp: wait_bits_section_def Let_def)
    have "group_susp e g' 1 ?k"
      by (rule group_susp_fewer [OF st, of _ "if clear then NOT waited else - 1"]) (simp_all add: r(3) clear_group_bits_def)
    from group_ok_resumed [OF i(1) this, of y k2] assms(6) r show ?thesis by simp
  next
    case poll
    then have r: "\<not> block" "k1 = ?k" "g' = g" using assms(5) by (auto simp: wait_bits_section_def Let_def)
    from group_ok_resumed [OF i(1) st, of y k2] assms(6) r show ?thesis by simp
  next
    case block
    let ?w = "waited OR ((if clear then eventCLEAR_EVENTS_ON_EXIT_BIT else 0) OR (if all then eventWAIT_FOR_ALL_BITS else 0))"
    have r: "block" "g' = g" "vTaskPlaceOnUnorderedEventList (EventList e) ?w ticks ?k = Some k1"
      using assms(5) block i(2) by (auto simp: wait_bits_section_def Let_def bind_eq_Some_conv split del: if_split)
    have "group_ok e g (s\<lparr>kern := (if \<not> y then portYIELD k2 else k2)\<rparr>)"
      by (rule group_ok_blocked [OF i(1) st _ r(3) assms(6) _ _ assms(3)])
        (use block bits_match_tag [OF assms(4)] in \<open>simp_all add: word_gt_0\<close>)
    then show ?thesis using r(1,2) by simp
  qed
qed

lemma group_ok_sync:
  assumes "group_ok e g s" and "\<not> pendsv (kern s)" and "ucNotifyState s (current s) \<noteq> taskWAITING_NOTIFICATION"
    and "waited AND eventEVENT_BITS_CONTROL_BYTES = 0"
    and "sync_section b waited ticks g (vTaskSuspendAll (kern s)) = Some (v, block, g', k1)" and "xTaskResumeAll k1 = Some (y, k2)"
  shows "group_ok e g' (s\<lparr>kern := (if block \<and> \<not> y then portYIELD k2 else k2)\<rparr>)"
proof -
  let ?k = "vTaskSuspendAll (kern s)"
  note st = group_susp_start [OF assms(1,2)] and i = group_okD(1,3) [OF assms(1)]
  have st2: "group_susp e g (Suc 1) (vTaskSuspendAll ?k)"
    using st susp_inv_nest [of 1 ?k] by (simp add: group_susp_def event_value_in_use_def)
  obtain v1 g1 k0 where sb: "xEventGroupSetBits b g ?k = Some (v1, g1, k0)"
    using assms(5) by (auto simp: sync_section_def Let_def bind_eq_Some_conv)
  obtain kb y0 c where kb: "group_susp e g1 (Suc 1) kb" "xTaskResumeAll kb = Some (y0, k0)" "uxEventBits g1 = (uxEventBits g OR b) AND c"
    "\<And>t. container kb (EventItem t) \<in> {None, container (kern s) (EventItem t)}" "pxCurrentTCB kb = current s"
    using group_susp_set_bits [OF st2 sb] by (metis suspend_all_fields(3,4))
  have "k0 = kb\<lparr>uxSchedulerSuspended := 1\<rparr>" and s1: "susp_inv 1 (kb\<lparr>uxSchedulerSuspended := 1\<rparr>)"
    using susp_inv_unnest [of 0 kb] kb(1,2) by (simp_all add: group_susp_def)
  then have k0: "group_susp e g1 1 k0" "\<And>t. container k0 (EventItem t) \<in> {None, container (kern s) (EventItem t)}" "pxCurrentTCB k0 = current s"
    using kb by (simp_all add: group_susp_def event_value_in_use_def)
  consider (met) "(uxEventBits g OR b) AND waited = waited" | (poll) "(uxEventBits g OR b) AND waited \<noteq> waited" "ticks = 0"
    | (block) "(uxEventBits g OR b) AND waited \<noteq> waited" "ticks \<noteq> 0" by blast
  then show ?thesis
  proof cases
    case met
    then have r: "\<not> block" "k1 = k0" "g' = clear_group_bits waited g1" using assms(5) sb by (auto simp: sync_section_def Let_def)
    have "group_susp e g' 1 k0" by (rule group_susp_fewer [OF k0(1), of _ "NOT waited"]) (simp_all add: r(3) clear_group_bits_def)
    from group_ok_resumed [OF i(1) this, of y k2] assms(6) r k0(2) show ?thesis by simp
  next
    case poll
    then have r: "\<not> block" "k1 = k0" "g' = g1" using assms(5) sb by (auto simp: sync_section_def Let_def)
    from group_ok_resumed [OF i(1) k0(1), of y k2] assms(6) r k0(2) show ?thesis by simp
  next
    case block
    let ?w = "waited OR (eventCLEAR_EVENTS_ON_EXIT_BIT OR eventWAIT_FOR_ALL_BITS)"
    have r: "block" "g' = g1" "vTaskPlaceOnUnorderedEventList (EventList e) ?w ticks k0 = Some k1"
      using assms(5) block sb kb(1) by (auto simp: sync_section_def Let_def bind_eq_Some_conv or.assoc group_susp_def)
    have "\<not> prvTestWaitCondition (uxEventBits g1) waited True"
      using block(1) and_cover(2) [of waited "uxEventBits g OR b" c] by (auto simp: prvTestWaitCondition_def kb(3) and.commute)
    then have "\<not> bits_match (?w OR taskEVENT_LIST_ITEM_VALUE_IN_USE) (uxEventBits g1)"
      using bits_match_tag [OF assms(4), of True True] by simp
    then have "group_ok e g1 (s\<lparr>kern := (if \<not> y then portYIELD k2 else k2)\<rparr>)"
      by (intro group_ok_blocked [OF i(1) k0(1) _ r(3) assms(6) k0(2,3) assms(3)]) (use block in \<open>simp_all add: word_gt_0\<close>)
    then show ?thesis using r(1,2) by simp
  qed
qed

lemma kern_inv_retag: "kern_inv k \<Longrightarrow> kern_inv (retag ts v k)"
  by (simp add: kern_inv_def switch_ok_def current_ready_def most_urgent_def live_def) (simp add: retag_def)

lemma group_ok_reset_value:
  assumes "group_ok e g s" and "\<not> pendsv (kern s)"
  shows "group_ok e g (s\<lparr>kern := snd (uxTaskResetEventItemValue (kern s))\<rparr>)"
proof -
  let ?v = "of_nat configMAX_PRIORITIES - of_nat (uxPriority (kern s) (current s)) :: tick"
  have k: "snd (uxTaskResetEventItemValue (kern s)) = retag {current s} ?v (kern s)"
    by (simp add: uxTaskResetEventItemValue_def set_priority_value_def retag_single Let_def)
  note i = group_okD(1) [OF assms(1)]
  have c: "container (kern s) (EventItem (current s)) = None"
    using not_pending_ready [OF sys_okD(1) [OF i] assms(2)] sys_okD(1) [OF i]
    by (auto simp: kern_inv_def time_ok_def waiting_ok_def current_ready_def)
  show ?thesis
  proof (rule group_ok_fewer [OF assms(1)])
    show "sys_ok (s\<lparr>kern := snd (uxTaskResetEventItemValue (kern s))\<rparr>)"
      unfolding k by (rule sys_ok_kernel [OF i kern_inv_retag [OF sys_okD(1) [OF i]]]) simp
    show "pend_free (kern (s\<lparr>kern := snd (uxTaskResetEventItemValue (kern s))\<rparr>))"
      using group_okD(2) [OF assms(1)] by (simp add: k pend_free_def)
    show "uxEventBits g = uxEventBits g AND - 1" by simp
    fix t assume "container (kern (s\<lparr>kern := snd (uxTaskResetEventItemValue (kern s))\<rparr>)) (EventItem t) = Some (EventList e)"
    then show "container (kern s) (EventItem t) = Some (EventList e)
      \<and> item_value (kern (s\<lparr>kern := snd (uxTaskResetEventItemValue (kern s))\<rparr>)) (EventItem t) = item_value (kern s) (EventItem t)"
      using c by (auto simp: k)
  qed (rule group_okD(3) [OF assms(1)])
qed

lemma group_ok_cleared:
  assumes "group_ok e g s" and "g' = clear_group_bits c g \<or> g' = g"
  shows "group_ok e g' s"
proof (rule group_ok_fewer [OF assms(1)])
  show "uxEventBits g' = uxEventBits g AND (if g' = g then - 1 else NOT c)" using assms(2) by (auto simp: clear_group_bits_def)
  show "xTasksWaitingForBits g' = EventList e" using assms(2) group_okD(3) [OF assms(1)] by (auto simp: clear_group_bits_def)
qed (use group_okD [OF assms(1)] in simp_all)

lemma group_ok_step:
  assumes "group_step (g, s) (g', s')" and "group_ok e g s"
  shows "group_ok e g' s'"
  using assms
proof cases
  case (clear_bits b v)
  then have "g' = clear_group_bits b g" by (auto simp: xEventGroupClearBits_def clear_group_bits_def split: if_splits)
  then show ?thesis using group_ok_cleared [OF assms(2)] clear_bits by blast
next
  case (wait_timeout waited clear all)
  then show ?thesis using group_ok_cleared [OF assms(2)] by (auto simp: wait_bits_timeout_def)
next
  case (sync_timeout waited)
  then show ?thesis using group_ok_cleared [OF assms(2)] by (auto simp: sync_timeout_def)
qed (use assms(2) in \<open>blast intro: group_ok_task group_ok_set_bits group_ok_wait group_ok_sync group_ok_reset_value\<close>)+

text \<open>
  C12: no task is left waiting for bits that are set. In a system with an event group, under
  any sequence of waits, rendezvous, settings and clearings of bits, time-outs, ticks, interrupts,
  context switches and operations on tasks, priority changes of waiting tasks included, whenever a
  task is in the group's list, its event item still holds the condition of its wait, marked as
  in use, and the condition is not met by the bits. The scheduler's invariant holds throughout.
\<close>
theorem no_satisfied_task_waits:
  assumes "group_step\<^sup>*\<^sup>* (g, s) (g', s')" and "group_ok e g s"
  shows "sys_ok s' \<and> (\<forall>t. container (kern s') (EventItem t) = Some (EventList e) \<longrightarrow>
    event_value_in_use t (kern s') \<and> \<not> bits_match (item_value (kern s') (EventItem t)) (uxEventBits g'))"
proof -
  have "group_ok e g' s'"
    using assms by (induction rule: rtranclp_induct2) (auto intro: group_ok_step)
  then show ?thesis by (simp add: group_ok_def)
qed

lemma sample_group_ok: "group_ok 7 sample_group (sample_tasks\<lparr>kern := group_kernel\<rparr>)"
proof -
  have "sys_ok (sample_tasks\<lparr>kern := group_kernel\<rparr>)"
    using sys_ok_kernel [OF sample_sys_ok, of group_kernel] kern_inv_retag [OF sys_okD(1) [OF sample_sys_ok]]
    by (simp add: group_kernel_def)
  moreover have "container group_kernel (EventItem t) = (if t = 2 then Some (EventList 7) else None)" for t
    by (simp add: group_kernel_def) (simp add: sample_kernel_def)
  ultimately show ?thesis
    by (simp add: group_ok_def pend_free_def group_kernel_facts sample_group_def event_value_in_use_def bits_match_def Let_def)
qed

lemma no_satisfied_task_waits_witness:
  "\<exists>g' s'. group_step\<^sup>*\<^sup>* (sample_group, sample_tasks\<lparr>kern := group_kernel\<rparr>) (g', s') \<and> uxEventBits g' = 9 \<and> sys_ok s'
     \<and> container (kern s') (EventItem 2) = Some (EventList 7)"
proof -
  let ?g = "sample_group\<lparr>uxEventBits := 9\<rparr>" and ?s = "sample_tasks\<lparr>kern := group_kernel\<rparr>"
  let ?k = "(vTaskSuspendAll group_kernel)\<lparr>uxSchedulerSuspended := 0\<rparr>"
  have r: "xTaskResumeAll (vTaskSuspendAll group_kernel) = Some (False, ?k)"
    using resume_quietly [of "vTaskSuspendAll group_kernel"] group_kernel_facts by simp (simp add: group_kernel_def sample_kernel_def)
  have "xEventGroupSetBits 8 sample_group group_kernel = Some (9, ?g, ?k)"
    using r by (simp add: xEventGroupSetBits_def sample_group_def group_kernel_facts bits_match_def Let_def)
  moreover have "\<not> pendsv (kern ?s)" by (simp add: group_kernel_def) (simp add: retag_def sample_kernel_def)
  ultimately have "group_step (sample_group, ?s) (?g, ?s\<lparr>kern := ?k\<rparr>)" using group_step.set_bits [of ?s 8 sample_group 9 ?g ?k] by simp
  then have st: "group_step\<^sup>*\<^sup>* (sample_group, ?s) (?g, ?s\<lparr>kern := ?k\<rparr>)" by blast
  have "sys_ok (?s\<lparr>kern := ?k\<rparr>)" using no_satisfied_task_waits [OF st sample_group_ok] by blast
  moreover have "container ?k (EventItem 2) = Some (EventList 7)" by (simp add: group_kernel_def) (simp add: sample_kernel_def)
  ultimately show ?thesis using st by (intro exI [of _ ?g] exI [of _ "?s\<lparr>kern := ?k\<rparr>"]) simp
qed

end
