(* ===== verification/Rtos_Stream.thy ===== *)
theory Rtos_Stream
  imports Rtos_Notify
begin

text \<open>
  The stream, batching and message buffers of \<open>FreeRTOS-Kernel-main/stream_buffer.c\<close>. A buffer is
  a ring of bytes for one writer and one reader, of which one may be an interrupt; neither
  takes a lock. The state is the one of the tasks, extended by the buffer. \<open>env n\<close> is what other
  code does at the \<open>n\<close>-th point of an operation, where a point is any place where the other side
  could see or make a difference: the indices are read once and written last.
\<close>

section \<open>Data\<close>

text \<open>\<open>sb_bytes\<close> is the storage area, which \<open>pucBuffer\<close> points to.\<close>

record StreamBuffer_t =
  xTail :: u32
  xHead :: u32
  xLength :: u32
  xTriggerLevelBytes :: u32
  xTaskWaitingToReceive :: "nat option"
  xTaskWaitingToSend :: "nat option"
  pucBuffer :: nat
  ucFlags :: u8
  uxNotificationIndex :: nat
  sb_bytes :: "u8 list"

record sb_state = task_state +
  sbuf :: StreamBuffer_t

datatype stream_buffer_type = sbTYPE_STREAM_BUFFER | sbTYPE_MESSAGE_BUFFER | sbTYPE_STREAM_BATCHING_BUFFER

abbreviation (input) sbFLAGS_IS_MESSAGE_BUFFER :: u8 where "sbFLAGS_IS_MESSAGE_BUFFER \<equiv> 1"
abbreviation (input) sbFLAGS_IS_STATICALLY_ALLOCATED :: u8 where "sbFLAGS_IS_STATICALLY_ALLOCATED \<equiv> 2"
abbreviation (input) sbFLAGS_IS_BATCHING_BUFFER :: u8 where "sbFLAGS_IS_BATCHING_BUFFER \<equiv> 4"
abbreviation (input) sbBYTES_TO_STORE_MESSAGE_LENGTH :: u32 where "sbBYTES_TO_STORE_MESSAGE_LENGTH \<equiv> 4"

text \<open>\<open>sizeof(StreamBuffer_t)\<close>.\<close>

abbreviation (input) sizeof_StreamBuffer :: u32 where "sizeof_StreamBuffer \<equiv> 36"

definition is_message_buffer :: "StreamBuffer_t \<Rightarrow> bool" where
  "is_message_buffer b \<longleftrightarrow> ucFlags b AND sbFLAGS_IS_MESSAGE_BUFFER \<noteq> 0"

definition is_batching_buffer :: "StreamBuffer_t \<Rightarrow> bool" where
  "is_batching_buffer b \<longleftrightarrow> ucFlags b AND sbFLAGS_IS_BATCHING_BUFFER \<noteq> 0"

definition upd_sbuf :: "(StreamBuffer_t \<Rightarrow> StreamBuffer_t) \<Rightarrow> 'a sb_state_scheme \<Rightarrow> 'a sb_state_scheme" where
  "upd_sbuf f s = s\<lparr>sbuf := f (sbuf s)\<rparr>"

section \<open>Creation, deletion and reset\<close>

definition prvInitialiseNewStreamBuffer :: "nat \<Rightarrow> u32 \<Rightarrow> u32 \<Rightarrow> u8 \<Rightarrow> StreamBuffer_t" where
  "prvInitialiseNewStreamBuffer storage size_bytes trigger flags =
     \<lparr>xTail = 0, xHead = 0, xLength = size_bytes, xTriggerLevelBytes = trigger, xTaskWaitingToReceive = None,
      xTaskWaitingToSend = None, pucBuffer = storage, ucFlags = flags, uxNotificationIndex = 0,
      sb_bytes = replicate (unat size_bytes) 0x55\<rparr>"

definition create_flags :: "stream_buffer_type \<Rightarrow> u32 \<Rightarrow> u8 option" where
  "create_flags ty size_bytes = (case ty of
       sbTYPE_MESSAGE_BUFFER \<Rightarrow> if size_bytes > sbBYTES_TO_STORE_MESSAGE_LENGTH then Some sbFLAGS_IS_MESSAGE_BUFFER else None
     | sbTYPE_STREAM_BATCHING_BUFFER \<Rightarrow> if size_bytes > 0 then Some sbFLAGS_IS_BATCHING_BUFFER else None
     | sbTYPE_STREAM_BUFFER \<Rightarrow> if size_bytes > 0 then Some 0 else None)"

definition xStreamBufferGenericCreate ::
  "nat \<Rightarrow> u32 \<Rightarrow> u32 \<Rightarrow> stream_buffer_type \<Rightarrow> task_state \<Rightarrow> ((nat \<times> StreamBuffer_t) option \<times> task_state) option" where
  "xStreamBufferGenericCreate ucHeap size_bytes trigger ty s = do {
     flags \<leftarrow> create_flags ty size_bytes;
     if trigger > size_bytes then None
     else do {
       let trigger = (if trigger = 0 then 1 else trigger);
       (a, s) \<leftarrow> (if size_bytes < size_bytes + 1 + sizeof_StreamBuffer
                 then task_malloc ucHeap (size_bytes + 1 + sizeof_StreamBuffer) s else Some (NULL, s));
       Some (if a = NULL then None
             else Some (a, prvInitialiseNewStreamBuffer (a + unat sizeof_StreamBuffer) (size_bytes + 1) trigger flags), s)
     }
   }"

text \<open>In a static stream buffer the size is not checked.\<close>

definition create_static_flags :: "stream_buffer_type \<Rightarrow> u32 \<Rightarrow> u8 option" where
  "create_static_flags ty size_bytes = (case ty of
       sbTYPE_MESSAGE_BUFFER \<Rightarrow> if size_bytes > sbBYTES_TO_STORE_MESSAGE_LENGTH
         then Some (sbFLAGS_IS_MESSAGE_BUFFER OR sbFLAGS_IS_STATICALLY_ALLOCATED) else None
     | sbTYPE_STREAM_BATCHING_BUFFER \<Rightarrow> if size_bytes > 0
         then Some (sbFLAGS_IS_BATCHING_BUFFER OR sbFLAGS_IS_STATICALLY_ALLOCATED) else None
     | sbTYPE_STREAM_BUFFER \<Rightarrow> Some sbFLAGS_IS_STATICALLY_ALLOCATED)"

definition xStreamBufferGenericCreateStatic ::
  "u32 \<Rightarrow> u32 \<Rightarrow> stream_buffer_type \<Rightarrow> nat \<Rightarrow> nat \<Rightarrow> (nat \<times> StreamBuffer_t) option" where
  "xStreamBufferGenericCreateStatic size_bytes trigger ty pucStreamBufferStorageArea pxStaticStreamBuffer =
     (if pucStreamBufferStorageArea = NULL \<or> pxStaticStreamBuffer = NULL \<or> trigger > size_bytes then None
      else do {
        let trigger = (if trigger = 0 then 1 else trigger);
        flags \<leftarrow> create_static_flags ty size_bytes;
        let b = prvInitialiseNewStreamBuffer pucStreamBufferStorageArea size_bytes trigger flags;
        Some (pxStaticStreamBuffer, b\<lparr>ucFlags := ucFlags b OR sbFLAGS_IS_STATICALLY_ALLOCATED\<rparr>)
      })"

text \<open>The addresses of the storage area and of the buffer at \<open>a\<close>.\<close>

definition xStreamBufferGetStaticBuffers :: "nat \<Rightarrow> StreamBuffer_t \<Rightarrow> (nat \<times> nat) option" where
  "xStreamBufferGetStaticBuffers a b =
     (if ucFlags b AND sbFLAGS_IS_STATICALLY_ALLOCATED \<noteq> 0 then Some (pucBuffer b, a) else None)"

definition vStreamBufferDelete :: "nat \<Rightarrow> nat \<Rightarrow> StreamBuffer_t \<Rightarrow> task_state \<Rightarrow> (StreamBuffer_t \<times> task_state) option" where
  "vStreamBufferDelete ucHeap a b s =
     (if ucFlags b AND sbFLAGS_IS_STATICALLY_ALLOCATED = 0 then map_option (Pair b) (task_free ucHeap a s)
      else Some (\<lparr>xTail = 0, xHead = 0, xLength = 0, xTriggerLevelBytes = 0, xTaskWaitingToReceive = None,
        xTaskWaitingToSend = None, pucBuffer = NULL, ucFlags = 0, uxNotificationIndex = 0, sb_bytes = []\<rparr>, s))"

definition xStreamBufferReset :: "StreamBuffer_t \<Rightarrow> bool \<times> StreamBuffer_t" where
  "xStreamBufferReset b =
     (if xTaskWaitingToReceive b = None \<and> xTaskWaitingToSend b = None
      then (True, prvInitialiseNewStreamBuffer (pucBuffer b) (xLength b) (xTriggerLevelBytes b) (ucFlags b))
      else (False, b))"

definition xStreamBufferResetFromISR :: "StreamBuffer_t \<Rightarrow> bool \<times> StreamBuffer_t" where
  "xStreamBufferResetFromISR b =
     (if xTaskWaitingToReceive b = None \<and> xTaskWaitingToSend b = None
      then (True, prvInitialiseNewStreamBuffer (pucBuffer b) (xLength b) (xTriggerLevelBytes b) (ucFlags b))
      else (False, b))"

definition xStreamBufferSetTriggerLevel :: "u32 \<Rightarrow> StreamBuffer_t \<Rightarrow> bool \<times> StreamBuffer_t" where
  "xStreamBufferSetTriggerLevel level b =
     (let level = (if level = 0 then 1 else level)
      in if level < xLength b then (True, b\<lparr>xTriggerLevelBytes := level\<rparr>) else (False, b))"

definition uxStreamBufferGetStreamBufferNotificationIndex :: "StreamBuffer_t \<Rightarrow> nat" where
  "uxStreamBufferGetStreamBufferNotificationIndex b = uxNotificationIndex b"

definition vStreamBufferSetStreamBufferNotificationIndex :: "nat \<Rightarrow> StreamBuffer_t \<Rightarrow> StreamBuffer_t option" where
  "vStreamBufferSetStreamBufferNotificationIndex idx b =
     (if xTaskWaitingToReceive b \<noteq> None \<or> xTaskWaitingToSend b \<noteq> None \<or> idx \<ge> configTASK_NOTIFICATION_ARRAY_ENTRIES then None
      else Some (b\<lparr>uxNotificationIndex := idx\<rparr>))"

section \<open>The ring\<close>

text \<open>The new head and the buffer; \<open>xHead\<close> itself is left to the caller.\<close>

definition prvWriteBytesToBuffer :: "u8 list \<Rightarrow> u32 \<Rightarrow> u32 \<Rightarrow> StreamBuffer_t \<Rightarrow> (u32 \<times> StreamBuffer_t) option" where
  "prvWriteBytesToBuffer data cnt head b =
     (let first = min (xLength b - head) cnt
      in if cnt = 0 \<or> \<not> head + first \<le> xLength b then None
         else do {
           src \<leftarrow> mem_load data 0 (unat first);
           st \<leftarrow> mem_store (sb_bytes b) (int (unat head)) src;
           st \<leftarrow> (if cnt > first then
                   if \<not> cnt - first \<le> xLength b then None
                   else do {
                     src \<leftarrow> mem_load data (int (unat first)) (unat (cnt - first));
                     mem_store st 0 src
                   }
                 else Some st);
           let head = head + cnt;
           Some (if head \<ge> xLength b then head - xLength b else head, b\<lparr>sb_bytes := st\<rparr>)
         })"

text \<open>The memory at \<open>pucData\<close> and the new tail.\<close>

definition prvReadBytesFromBuffer :: "u8 list \<Rightarrow> u32 \<Rightarrow> u32 \<Rightarrow> StreamBuffer_t \<Rightarrow> (u8 list \<times> u32) option" where
  "prvReadBytesFromBuffer pucData cnt tail b =
     (let first = min (xLength b - tail) cnt
      in if cnt = 0 \<or> \<not> first \<le> cnt \<or> \<not> tail + first \<le> xLength b then None
         else do {
           src \<leftarrow> mem_load (sb_bytes b) (int (unat tail)) (unat first);
           dst \<leftarrow> mem_store pucData 0 src;
           dst \<leftarrow> (if cnt > first then do {
                     src \<leftarrow> mem_load (sb_bytes b) 0 (unat (cnt - first));
                     mem_store dst (int (unat first)) src
                   }
                  else Some dst);
           let tail = tail + cnt;
           Some (dst, if tail \<ge> xLength b then tail - xLength b else tail)
         })"

definition prvBytesInBuffer :: "StreamBuffer_t \<Rightarrow> u32" where
  "prvBytesInBuffer b =
     (let n = xLength b + xHead b - xTail b in if n \<ge> xLength b then n - xLength b else n)"

definition xStreamBufferBytesAvailable :: "StreamBuffer_t \<Rightarrow> u32" where
  "xStreamBufferBytesAvailable b = prvBytesInBuffer b"

text \<open>The loop that reads the tail until it has not changed meanwhile.\<close>

partial_function (option) spaces_loop ::
  "(nat \<Rightarrow> 'a sb_state_scheme \<Rightarrow> 'a sb_state_scheme option) \<Rightarrow> nat \<Rightarrow> 'a sb_state_scheme \<Rightarrow> (u32 \<times> 'a sb_state_scheme) option" where
  "spaces_loop env i s = do {
     let original = xTail (sbuf s);
     s \<leftarrow> env (3 * i) s;
     let space = xLength (sbuf s) + xTail (sbuf s);
     s \<leftarrow> env (3 * i + 1) s;
     let space = space - xHead (sbuf s);
     s \<leftarrow> env (3 * i + 2) s;
     if original \<noteq> xTail (sbuf s) then spaces_loop env (i + 1) s else Some (space, s)
   }"

definition xStreamBufferSpacesAvailable ::
  "(nat \<Rightarrow> 'a sb_state_scheme \<Rightarrow> 'a sb_state_scheme option) \<Rightarrow> 'a sb_state_scheme \<Rightarrow> (u32 \<times> 'a sb_state_scheme) option" where
  "xStreamBufferSpacesAvailable env s = do {
     (space, s) \<leftarrow> spaces_loop env 0 s;
     let space = space - 1;
     Some (if space \<ge> xLength (sbuf s) then space - xLength (sbuf s) else space, s)
   }"

definition xStreamBufferIsEmpty :: "StreamBuffer_t \<Rightarrow> bool" where
  "xStreamBufferIsEmpty b \<longleftrightarrow> xHead b = xTail b"

definition xStreamBufferIsFull ::
  "(nat \<Rightarrow> 'a sb_state_scheme \<Rightarrow> 'a sb_state_scheme option) \<Rightarrow> 'a sb_state_scheme \<Rightarrow> (bool \<times> 'a sb_state_scheme) option" where
  "xStreamBufferIsFull env s = do {
     let need = (if is_message_buffer (sbuf s) then sbBYTES_TO_STORE_MESSAGE_LENGTH else 0);
     (space, s) \<leftarrow> xStreamBufferSpacesAvailable env s;
     Some (space \<le> need, s)
   }"

section \<open>Messages\<close>

text \<open>A length as it lies in memory.\<close>

definition length_bytes :: "u32 \<Rightarrow> u8 list" where
  "length_bytes n = [ucast n, ucast (drop_bit 8 n), ucast (drop_bit 16 n), ucast (drop_bit 24 n)]"

definition length_word :: "u8 list \<Rightarrow> u32" where
  "length_word bs = ucast (bs ! 0) OR push_bit 8 (ucast (bs ! 1)) OR push_bit 16 (ucast (bs ! 2)) OR push_bit 24 (ucast (bs ! 3))"

definition prvWriteMessageToBuffer ::
  "u8 list \<Rightarrow> u32 \<Rightarrow> u32 \<Rightarrow> u32 \<Rightarrow> (nat \<Rightarrow> 'a sb_state_scheme \<Rightarrow> 'a sb_state_scheme option) \<Rightarrow> 'a sb_state_scheme \<Rightarrow>
   (u32 \<times> 'a sb_state_scheme) option" where
  "prvWriteMessageToBuffer data len space required env s = do {
     let head = xHead (sbuf s);
     (head, len, s) \<leftarrow> (if is_message_buffer (sbuf s) then
          if space \<ge> required then do {
            (head, b) \<leftarrow> prvWriteBytesToBuffer (length_bytes len) sbBYTES_TO_STORE_MESSAGE_LENGTH head (sbuf s);
            Some (head, len, s\<lparr>sbuf := b\<rparr>)
          } else Some (head, 0, s)
        else Some (head, min len space, s));
     if len \<noteq> 0 then do {
       s \<leftarrow> env 0 s;
       (head, b) \<leftarrow> prvWriteBytesToBuffer data len head (sbuf s);
       s \<leftarrow> env 1 (s\<lparr>sbuf := b\<rparr>);
       Some (len, upd_sbuf (xHead_update (\<lambda>_. head)) s)
     } else Some (len, s)
   }"

text \<open>The number of bytes read and the memory at \<open>pvRxData\<close>. The local length is overwritten.\<close>

definition prvReadMessageFromBuffer ::
  "u8 list \<Rightarrow> u32 \<Rightarrow> u32 \<Rightarrow> (nat \<Rightarrow> 'a sb_state_scheme \<Rightarrow> 'a sb_state_scheme option) \<Rightarrow> 'a sb_state_scheme \<Rightarrow>
   (u32 \<times> u8 list \<times> 'a sb_state_scheme) option" where
  "prvReadMessageFromBuffer pvRxData xBufferLengthBytes available env s = do {
     let tail = xTail (sbuf s);
     (next_length, available, tail) \<leftarrow> (if is_message_buffer (sbuf s) then do {
          (tmp, tail) \<leftarrow> prvReadBytesFromBuffer (replicate 4 0) sbBYTES_TO_STORE_MESSAGE_LENGTH tail (sbuf s);
          let n = length_word tmp;
          Some (if n > xBufferLengthBytes then 0 else n, available - sbBYTES_TO_STORE_MESSAGE_LENGTH, tail)
        } else Some (xBufferLengthBytes, available, tail));
     let cnt = min next_length available;
     if cnt \<noteq> 0 then do {
       s \<leftarrow> env 0 s;
       (dst, tail) \<leftarrow> prvReadBytesFromBuffer pvRxData cnt tail (sbuf s);
       s \<leftarrow> env 1 s;
       Some (cnt, dst, upd_sbuf (xTail_update (\<lambda>_. tail)) s)
     } else Some (cnt, pvRxData, s)
   }"

definition xStreamBufferNextMessageLengthBytes :: "StreamBuffer_t \<Rightarrow> u32 option" where
  "xStreamBufferNextMessageLengthBytes b =
     (if is_message_buffer b then
        let available = prvBytesInBuffer b
        in if available > sbBYTES_TO_STORE_MESSAGE_LENGTH then do {
             (tmp, _) \<leftarrow> prvReadBytesFromBuffer (replicate 4 0) sbBYTES_TO_STORE_MESSAGE_LENGTH (xTail b) b;
             Some (length_word tmp)
           } else if available = 0 then Some 0 else None
      else Some 0)"

section \<open>Waking the other side\<close>

text \<open>The handle of the waiting task, which is taken out of the buffer.\<close>

definition sbSEND_COMPLETED :: "'a sb_state_scheme \<Rightarrow> 'a sb_state_scheme option" where
  "sbSEND_COMPLETED s = do {
     let s = s\<lparr>kern := vTaskSuspendAll (kern s)\<rparr>;
     s \<leftarrow> (case xTaskWaitingToReceive (sbuf s) of None \<Rightarrow> Some s
           | Some t \<Rightarrow> do {
               (_, _, s) \<leftarrow> xTaskGenericNotify (Some t) (uxNotificationIndex (sbuf s)) 0 eNoAction s;
               Some (upd_sbuf (xTaskWaitingToReceive_update (\<lambda>_. None)) s)
             });
     (_, k) \<leftarrow> xTaskResumeAll (kern s);
     Some (s\<lparr>kern := k\<rparr>)
   }"

definition sbRECEIVE_COMPLETED :: "'a sb_state_scheme \<Rightarrow> 'a sb_state_scheme option" where
  "sbRECEIVE_COMPLETED s = do {
     let s = s\<lparr>kern := vTaskSuspendAll (kern s)\<rparr>;
     s \<leftarrow> (case xTaskWaitingToSend (sbuf s) of None \<Rightarrow> Some s
           | Some t \<Rightarrow> do {
               (_, _, s) \<leftarrow> xTaskGenericNotify (Some t) (uxNotificationIndex (sbuf s)) 0 eNoAction s;
               Some (upd_sbuf (xTaskWaitingToSend_update (\<lambda>_. None)) s)
             });
     (_, k) \<leftarrow> xTaskResumeAll (kern s);
     Some (s\<lparr>kern := k\<rparr>)
   }"

text \<open>From an interrupt: whether a task waited, whether a more urgent one was woken, and the state.\<close>

definition xStreamBufferSendCompletedFromISR :: "'a sb_state_scheme \<Rightarrow> (bool \<times> bool \<times> 'a sb_state_scheme) option" where
  "xStreamBufferSendCompletedFromISR s =
     (case xTaskWaitingToReceive (sbuf s) of None \<Rightarrow> Some (False, False, s)
      | Some t \<Rightarrow> do {
          (_, _, woken, s) \<leftarrow> xTaskGenericNotifyFromISR (Some t) (uxNotificationIndex (sbuf s)) 0 eNoAction s;
          Some (True, woken, upd_sbuf (xTaskWaitingToReceive_update (\<lambda>_. None)) s)
        })"

definition xStreamBufferReceiveCompletedFromISR :: "'a sb_state_scheme \<Rightarrow> (bool \<times> bool \<times> 'a sb_state_scheme) option" where
  "xStreamBufferReceiveCompletedFromISR s =
     (case xTaskWaitingToSend (sbuf s) of None \<Rightarrow> Some (False, False, s)
      | Some t \<Rightarrow> do {
          (_, _, woken, s) \<leftarrow> xTaskGenericNotifyFromISR (Some t) (uxNotificationIndex (sbuf s)) 0 eNoAction s;
          Some (True, woken, upd_sbuf (xTaskWaitingToSend_update (\<lambda>_. None)) s)
        })"

definition sbSEND_COMPLETE_FROM_ISR :: "'a sb_state_scheme \<Rightarrow> (bool \<times> 'a sb_state_scheme) option" where
  "sbSEND_COMPLETE_FROM_ISR s = map_option snd (xStreamBufferSendCompletedFromISR s)"

definition sbRECEIVE_COMPLETED_FROM_ISR :: "'a sb_state_scheme \<Rightarrow> (bool \<times> 'a sb_state_scheme) option" where
  "sbRECEIVE_COMPLETED_FROM_ISR s = map_option snd (xStreamBufferReceiveCompletedFromISR s)"

section \<open>Sending\<close>

text \<open>
  The loop of a sender that waits for space: the last space it saw. In the \<open>i\<close>-th pass \<open>wenv i\<close> is the
  environment of the wait.
\<close>

partial_function (option) send_wait ::
  "u32 \<Rightarrow> TimeOut_t \<Rightarrow> tick \<Rightarrow> (nat \<Rightarrow> nat \<Rightarrow> 'a sb_state_scheme \<Rightarrow> 'a sb_state_scheme option) \<Rightarrow> nat \<Rightarrow>
   'a sb_state_scheme \<Rightarrow> (u32 \<times> 'a sb_state_scheme) option" where
  "send_wait required timeout ticks wenv i s = do {
     (space, s) \<leftarrow> xStreamBufferSpacesAvailable (\<lambda>_. Some) s;
     if space < required then do {
       (_, s) \<leftarrow> xTaskGenericNotifyStateClear None (uxNotificationIndex (sbuf s)) s;
       if xTaskWaitingToSend (sbuf s) \<noteq> None then None
       else do {
         let s = upd_sbuf (xTaskWaitingToSend_update (\<lambda>_. xTaskGetCurrentTaskHandle s)) s;
         (_, _, s) \<leftarrow> xTaskGenericNotifyWait (uxNotificationIndex (sbuf s)) 0 0 ticks (wenv i) s;
         s \<leftarrow> wenv i 4 (upd_sbuf (xTaskWaitingToSend_update (\<lambda>_. None)) s);
         let (expired, timeout, ticks) = xTaskCheckForTimeOut timeout ticks (kern s);
         if expired then Some (space, s) else send_wait required timeout ticks wenv (i + 1) s
       }
     } else Some (space, s)
   }"

definition xStreamBufferSend ::
  "u8 list \<Rightarrow> u32 \<Rightarrow> tick \<Rightarrow> (nat \<Rightarrow> nat \<Rightarrow> 'a sb_state_scheme \<Rightarrow> 'a sb_state_scheme option) \<Rightarrow>
   (nat \<Rightarrow> 'a sb_state_scheme \<Rightarrow> 'a sb_state_scheme option) \<Rightarrow> (nat \<Rightarrow> 'a sb_state_scheme \<Rightarrow> 'a sb_state_scheme option) \<Rightarrow>
   'a sb_state_scheme \<Rightarrow> (u32 \<times> 'a sb_state_scheme) option" where
  "xStreamBufferSend data len ticks wenv senv env s = do {
     let max_space = xLength (sbuf s) - 1;
     (required, ticks) \<leftarrow> (if is_message_buffer (sbuf s) then
          let required = len + sbBYTES_TO_STORE_MESSAGE_LENGTH
          in if \<not> required > len then None else Some (required, if required > max_space then 0 else ticks)
        else Some (min len max_space, ticks));
     (space, s) \<leftarrow> (if ticks \<noteq> 0 then send_wait required (vTaskInternalSetTimeOutState (kern s)) ticks wenv 0 s else Some (0, s));
     (space, s) \<leftarrow> (if space = 0 then xStreamBufferSpacesAvailable senv s else Some (space, s));
     (n, s) \<leftarrow> prvWriteMessageToBuffer data len space required env s;
     s \<leftarrow> env 2 s;
     s \<leftarrow> (if n > 0 \<and> prvBytesInBuffer (sbuf s) \<ge> xTriggerLevelBytes (sbuf s) then sbSEND_COMPLETED s else Some s);
     Some (n, s)
   }"

text \<open>The number of bytes sent, \<open>*pxHigherPriorityTaskWoken\<close> and the state.\<close>

definition xStreamBufferSendFromISR ::
  "u8 list \<Rightarrow> u32 \<Rightarrow> 'a sb_state_scheme \<Rightarrow> (u32 \<times> bool \<times> 'a sb_state_scheme) option" where
  "xStreamBufferSendFromISR data len s = do {
     required \<leftarrow> (if is_message_buffer (sbuf s) then
          let required = len + sbBYTES_TO_STORE_MESSAGE_LENGTH in if \<not> required > len then None else Some required
        else Some len);
     (space, s) \<leftarrow> xStreamBufferSpacesAvailable (\<lambda>_. Some) s;
     (n, s) \<leftarrow> prvWriteMessageToBuffer data len space required (\<lambda>_. Some) s;
     (woken, s) \<leftarrow> (if n > 0 \<and> prvBytesInBuffer (sbuf s) \<ge> xTriggerLevelBytes (sbuf s) then sbSEND_COMPLETE_FROM_ISR s
                   else Some (False, s));
     Some (n, woken, s)
   }"

section \<open>Receiving\<close>

definition bytes_needed :: "StreamBuffer_t \<Rightarrow> u32" where
  "bytes_needed b = (if is_message_buffer b then sbBYTES_TO_STORE_MESSAGE_LENGTH
     else if is_batching_buffer b then xTriggerLevelBytes b else 0)"

text \<open>The critical section of a receiver that may block.\<close>

definition sb_receive_section :: "u32 \<Rightarrow> 'a sb_state_scheme \<Rightarrow> (u32 \<times> 'a sb_state_scheme) option" where
  "sb_receive_section need s = do {
     let available = prvBytesInBuffer (sbuf s);
     if available \<le> need then do {
       (_, s) \<leftarrow> xTaskGenericNotifyStateClear None (uxNotificationIndex (sbuf s)) s;
       if xTaskWaitingToReceive (sbuf s) \<noteq> None then None
       else Some (available, upd_sbuf (xTaskWaitingToReceive_update (\<lambda>_. xTaskGetCurrentTaskHandle s)) s)
     } else Some (available, s)
   }"

definition xStreamBufferReceive ::
  "u8 list \<Rightarrow> u32 \<Rightarrow> tick \<Rightarrow> (nat \<Rightarrow> 'a sb_state_scheme \<Rightarrow> 'a sb_state_scheme option) \<Rightarrow>
   (nat \<Rightarrow> 'a sb_state_scheme \<Rightarrow> 'a sb_state_scheme option) \<Rightarrow> 'a sb_state_scheme \<Rightarrow> (u32 \<times> u8 list \<times> 'a sb_state_scheme) option" where
  "xStreamBufferReceive pvRxData xBufferLengthBytes ticks wenv env s = do {
     let need = bytes_needed (sbuf s);
     (available, s) \<leftarrow> (if ticks \<noteq> 0 then do {
          (available, s) \<leftarrow> sb_receive_section need s;
          if available \<le> need then do {
            (_, _, s) \<leftarrow> xTaskGenericNotifyWait (uxNotificationIndex (sbuf s)) 0 0 ticks wenv s;
            s \<leftarrow> wenv 4 (upd_sbuf (xTaskWaitingToReceive_update (\<lambda>_. None)) s);
            Some (prvBytesInBuffer (sbuf s), s)
          } else Some (available, s)
        } else Some (prvBytesInBuffer (sbuf s), s));
     if available > need then do {
       (n, dst, s) \<leftarrow> prvReadMessageFromBuffer pvRxData xBufferLengthBytes available env s;
       s \<leftarrow> env 2 s;
       s \<leftarrow> (if n \<noteq> 0 then sbRECEIVE_COMPLETED s else Some s);
       Some (n, dst, s)
     } else Some (0, pvRxData, s)
   }"

definition xStreamBufferReceiveFromISR ::
  "u8 list \<Rightarrow> u32 \<Rightarrow> 'a sb_state_scheme \<Rightarrow> (u32 \<times> u8 list \<times> bool \<times> 'a sb_state_scheme) option" where
  "xStreamBufferReceiveFromISR pvRxData xBufferLengthBytes s = do {
     let need = (if is_message_buffer (sbuf s) then sbBYTES_TO_STORE_MESSAGE_LENGTH else 0);
     let available = prvBytesInBuffer (sbuf s);
     if available > need then do {
       (n, dst, s) \<leftarrow> prvReadMessageFromBuffer pvRxData xBufferLengthBytes available (\<lambda>_. Some) s;
       (woken, s) \<leftarrow> (if n \<noteq> 0 then sbRECEIVE_COMPLETED_FROM_ISR s else Some (False, s));
       Some (n, dst, woken, s)
     } else Some (0, pvRxData, False, s)
   }"

end
