(* ===== verification/Rtos_Stream_Ring.thy ===== *)
theory Rtos_Stream_Ring
  imports Rtos_Stream
begin

text \<open>
  The ring of a stream buffer holds a list of bytes: reading and writing bytes across the end of the
  storage area, the number of bytes and the free space.
\<close>

section \<open>Rings\<close>

definition ring :: "'a list \<Rightarrow> nat \<Rightarrow> nat \<Rightarrow> 'a list" where
  "ring st t n = map (\<lambda>j. st ! ((t + j) mod length st)) [0..<n]"

lemma length_ring [simp]: "length (ring st t n) = n"
  by (simp add: ring_def)

lemma nth_ring [simp]: "j < n \<Longrightarrow> ring st t n ! j = st ! ((t + j) mod length st)"
  by (simp add: ring_def)

lemma ring_0 [simp]: "ring st t 0 = []"
  by (simp add: ring_def)

lemma mod_step: "n \<le> i \<Longrightarrow> ((t + n) mod L + (i - n)) mod L = (t + i) mod (L :: nat)"
  by (simp only: mod_add_left_eq) simp

lemma mod_back: "n \<le> L \<Longrightarrow> ((t + n) mod L + (L - n + j)) mod L = (t + j) mod (L :: nat)"
proof -
  assume "n \<le> L"
  then have "t + n + (L - n + j) = t + j + L" by simp
  then show ?thesis by (simp only: mod_add_left_eq mod_add_self2)
qed

lemma ring_append: "ring st t (n + m) = ring st t n @ ring st ((t + n) mod length st) m"
proof (rule nth_equalityI)
  fix i assume i: "i < length (ring st t (n + m))"
  show "ring st t (n + m) ! i = (ring st t n @ ring st ((t + n) mod length st) m) ! i"
  proof (cases "i < n")
    case True
    then show ?thesis by (simp add: nth_append)
  next
    case False
    then have "((t + n) mod length st + (i - n)) mod length st = (t + i) mod length st" by (intro mod_step) simp
    then show ?thesis using i False by (simp add: nth_append del: mod_add_left_eq)
  qed
qed simp

lemma drop_ring: "n \<le> m \<Longrightarrow> drop n (ring st t m) = ring st ((t + n) mod length st) (m - n)"
  using ring_append [of st t n "m - n"] by simp

lemma take_ring: "n \<le> m \<Longrightarrow> take n (ring st t m) = ring st t n"
  using ring_append [of st t n "m - n"] by simp

lemma mod_once: "t < L \<Longrightarrow> j \<le> L \<Longrightarrow> (t + j) mod L = (if t + j < L then t + j else t + j - (L :: nat))"
  by (simp add: le_mod_geq)

text \<open>\<open>st'\<close> is \<open>st\<close> with \<open>data\<close> written over it from \<open>h\<close> on, around the end.\<close>

definition ring_write :: "'a list \<Rightarrow> nat \<Rightarrow> 'a list \<Rightarrow> 'a list \<Rightarrow> bool" where
  "ring_write st h data st' \<longleftrightarrow> length st' = length st
     \<and> (\<forall>j < length st. st' ! ((h + j) mod length st) = (if j < length data then data ! j else st ! ((h + j) mod length st)))"

lemma ring_write_read:
  assumes "ring_write st h data st'" and "length data \<le> length st"
  shows "ring st' h (length data) = data"
  using assms by (intro nth_equalityI) (auto simp: ring_write_def)

lemma ring_write_other:
  assumes "ring_write st h data st'" and "h = (t + n) mod length st" and "t < length st" and "n + length data \<le> length st"
  shows "ring st' t n = ring st t n"
proof (rule nth_equalityI)
  let ?L = "length st"
  fix j assume "j < length (ring st' t n)"
  then have j: "j < n" by simp
  let ?i = "?L - n + j"
  have p: "(h + ?i) mod ?L = (t + j) mod ?L" unfolding assms(2) by (rule mod_back) (use assms(4) in simp)
  have "?i < ?L" "\<not> ?i < length data" using assms(4) j by linarith+
  then have "st' ! ((h + ?i) mod ?L) = st ! ((h + ?i) mod ?L)" using assms(1) by (simp add: ring_write_def)
  then show "ring st' t n ! j = ring st t n ! j" using j p assms(1) by (simp add: ring_write_def)
qed simp

lemma ring_write_append:
  assumes "ring_write st h data st'" and "h = (t + n) mod length st" and "t < length st" and "n + length data \<le> length st"
  shows "ring st' t (n + length data) = ring st t n @ data"
  using ring_write_other [OF assms] ring_write_read [OF assms(1)] assms
  by (simp add: ring_append) (simp add: ring_write_def)

lemma ring_write_twice:
  assumes "ring_write st h xs st1" and "ring_write st1 ((h + length xs) mod length st) ys st2"
    and "length xs + length ys \<le> length st" and "h < length st"
  shows "ring_write st h (xs @ ys) st2"
  unfolding ring_write_def
proof (intro conjI allI impI)
  let ?L = "length st" and ?h = "(h + length xs) mod length st"
  have l: "length st1 = ?L" "length st2 = ?L" using assms(1,2) by (simp_all add: ring_write_def)
  have w2: "st2 ! ((?h + i) mod ?L) = (if i < length ys then ys ! i else st1 ! ((?h + i) mod ?L))" if "i < ?L" for i
    using assms(2) that unfolding ring_write_def l by blast
  show "length st2 = ?L" by (rule l(2))
  fix j assume j: "j < ?L"
  show "st2 ! ((h + j) mod ?L) = (if j < length (xs @ ys) then (xs @ ys) ! j else st ! ((h + j) mod ?L))"
  proof (cases "j < length xs")
    case True
    let ?i = "?L - length xs + j"
    have p: "(?h + ?i) mod ?L = (h + j) mod ?L" by (rule mod_back) (use assms(3) in simp)
    have "?i < ?L" "\<not> ?i < length ys" using assms(3) True by linarith+
    then have "st2 ! ((h + j) mod ?L) = st1 ! ((h + j) mod ?L)" using w2 [of ?i] unfolding p by (simp only: if_False)
    then show ?thesis using assms(1) j True by (simp add: ring_write_def nth_append)
  next
    case False
    let ?i = "j - length xs"
    have p: "(?h + ?i) mod ?L = (h + j) mod ?L" by (rule mod_step) (use False in simp)
    have "?i < ?L" using j by simp
    then have "st2 ! ((h + j) mod ?L) = (if ?i < length ys then ys ! ?i else st1 ! ((h + j) mod ?L))"
      using w2 [of ?i] unfolding p by blast
    moreover have "?i < length ys \<longleftrightarrow> j < length (xs @ ys)" using False by auto
    ultimately show ?thesis using assms(1) j False by (simp add: ring_write_def nth_append)
  qed
qed

text \<open>The two copies of the code.\<close>

lemma ring_write_split:
  assumes "h < length st" and "n \<le> length data" and "n \<le> length st" and "f = min (length st - h) n"
  shows "ring_write st h (take n data) (splice (splice st h (take f data)) 0 (take (n - f) (drop f data)))"
  unfolding ring_write_def
proof (intro conjI allI impI)
  let ?A = "take f data" and ?B = "take (n - f) (drop f data)"
  have f: "f \<le> n" "h + f \<le> length st" "n - f \<le> h" "f < n \<Longrightarrow> h + f = length st" using assms by auto
  have l: "length ?A = f" "length ?B = n - f" using assms(2) f by auto
  have l1: "length (splice st h ?A) = length st" using l f by simp
  show "length (splice (splice st h ?A) 0 ?B) = length st" using l l1 f assms(3) by simp
  fix j assume j: "j < length st"
  let ?i = "(h + j) mod length st"
  have i: "?i < length st" using j by (intro mod_less_divisor) linarith
  have eq: "splice (splice st h ?A) 0 ?B ! ?i = (if ?i < n - f then ?B ! ?i else if h \<le> ?i \<and> ?i < h + f then ?A ! (?i - h) else st ! ?i)"
    using i l l1 f assms(3) by (simp add: nth_splice)
  show "splice (splice st h ?A) 0 ?B ! ?i = (if j < length (take n data) then take n data ! j else st ! ?i)"
  proof (cases "h + j < length st")
    case True
    then show ?thesis unfolding eq using f assms(2) by auto
  next
    case False
    have i2: "?i = h + j - length st" using False assms(1) j by (simp add: mod_once)
    have a: "?i < n - f \<longleftrightarrow> j < n" using False f j assms unfolding i2 by linarith
    have b: "\<not> (h \<le> ?i)" using False j assms(1) unfolding i2 by linarith
    have c: "?B ! ?i = data ! j" if jn: "j < n"
    proof -
      have i: "?i < n - f" using a jn by blast
      then have "f + ?i = j" using False f(4) unfolding i2 by linarith
      moreover have "?B ! ?i = data ! (f + ?i)" using i assms(2) f(1) by simp
      ultimately show ?thesis by simp
    qed
    show ?thesis unfolding eq using a b c assms(2) by simp
  qed
qed

lemma ring_read_split:
  assumes "t < length st" and "n \<le> length st" and "f = min (length st - t) n"
  shows "take f (drop t st) @ take (n - f) st = ring st t n"
proof (rule nth_equalityI)
  show "length (take f (drop t st) @ take (n - f) st) = length (ring st t n)" using assms by auto
  fix j assume "j < length (take f (drop t st) @ take (n - f) st)"
  then have "j < n" using assms by (auto split: if_splits)
  then show "(take f (drop t st) @ take (n - f) st) ! j = ring st t n ! j"
    using assms by (auto simp: nth_append mod_once min_def add.commute)
qed

section \<open>The buffer\<close>

text \<open>
  The size bounds the sums of two indices, which the code computes before it reduces them; no
  storage area of the target is as large as half the address space.
\<close>

definition sb_ok :: "StreamBuffer_t \<Rightarrow> bool" where
  "sb_ok b \<longleftrightarrow> unat (xLength b) < 2 ^ 31 \<and> length (sb_bytes b) = unat (xLength b)
     \<and> unat (xHead b) < unat (xLength b) \<and> unat (xTail b) < unat (xLength b)"

definition used :: "StreamBuffer_t \<Rightarrow> nat" where
  "used b = (unat (xLength b) + unat (xHead b) - unat (xTail b)) mod unat (xLength b)"

definition contents :: "StreamBuffer_t \<Rightarrow> u8 list" where
  "contents b = ring (sb_bytes b) (unat (xTail b)) (used b)"

definition capacity :: "StreamBuffer_t \<Rightarrow> nat" where
  "capacity b = unat (xLength b) - 1"

lemma length_contents [simp]: "length (contents b) = used b"
  by (simp add: contents_def)

lemma sb_okD:
  assumes "sb_ok b"
  shows "unat (xLength b) < 2 ^ 31" "length (sb_bytes b) = unat (xLength b)" "unat (xHead b) < unat (xLength b)"
    "unat (xTail b) < unat (xLength b)" "used b \<le> capacity b" "capacity b < unat (xLength b)" "0 < unat (xLength b)"
    "(unat (xTail b) + used b) mod unat (xLength b) = unat (xHead b)"
proof -
  let ?L = "unat (xLength b)" and ?H = "unat (xHead b)" and ?T = "unat (xTail b)"
  show b: "?L < 2 ^ 31" "length (sb_bytes b) = ?L" "?H < ?L" "?T < ?L" using assms by (simp_all add: sb_ok_def)
  then show "0 < ?L" by linarith
  then have "used b < ?L" unfolding used_def by (intro mod_less_divisor) linarith
  then show "used b \<le> capacity b" "capacity b < ?L" by (simp_all add: capacity_def)
  have "(?T + used b) mod ?L = (?T + (?L + ?H - ?T)) mod ?L" by (simp only: used_def mod_add_right_eq)
  also have "?T + (?L + ?H - ?T) = ?H + ?L" using b(4) by simp
  finally show "(?T + used b) mod ?L = ?H" using b(3) by simp
qed

lemma small_words:
  fixes a b :: u32
  assumes "unat a < 2 ^ 31" and "unat b < 2 ^ 31"
  shows "unat (a + b) = unat a + unat b"
proof -
  have "unat a + unat b < 2 ^ LENGTH(32)" using assms by simp
  then show ?thesis by (simp add: unat_word_ariths)
qed

lemma unat_minus: "b \<le> a \<Longrightarrow> unat (a - b) = unat a - unat (b :: u32)"
  by (rule unat_sub)

lemma unat_min: "unat (min a b) = min (unat a) (unat (b :: u32))"
  by (simp add: min_def word_le_nat_alt)

text \<open>An index advanced by at most the length, and reduced.\<close>

lemma advance:
  fixes h n L :: u32
  assumes "unat L < 2 ^ 31" and "unat h < unat L" and "unat n \<le> unat L"
  shows "unat (if h + n \<ge> L then h + n - L else h + n) = (unat h + unat n) mod unat L"
proof -
  have s: "unat (h + n) = unat h + unat n" by (rule small_words) (use assms in linarith)+
  show ?thesis using assms(2,3) s by (auto simp: mod_once word_le_nat_alt unat_minus)
qed

lemma mem_load_nat: "mem_load xs (int a) n = (if a + n \<le> length xs then Some (take n (drop a xs)) else None)"
  by (simp add: mem_load_def)

lemma mem_store_nat: "mem_store xs (int a) ys = (if a + length ys \<le> length xs then Some (splice xs a ys) else None)"
  by (simp add: mem_store_def)

lemma mem_0: "mem_load xs 0 n = (if n \<le> length xs then Some (take n xs) else None)"
  "mem_store xs 0 ys = (if length ys \<le> length xs then Some (splice xs 0 ys) else None)"
  by (simp_all add: mem_load_def mem_store_def)

lemma first_part:
  fixes L h n :: u32
  assumes "unat L < 2 ^ 31" and "unat h < unat L"
  shows "unat (min (L - h) n) = min (unat L - unat h) (unat n)" and "h + min (L - h) n \<le> L"
    and "min (L - h) n < n \<Longrightarrow> unat (n - min (L - h) n) = unat n - min (unat L - unat h) (unat n)"
proof -
  have d: "unat (L - h) = unat L - unat h" using assms(2) by (simp add: unat_minus word_le_nat_alt)
  show f: "unat (min (L - h) n) = min (unat L - unat h) (unat n)" by (simp only: unat_min d)
  have "unat (h + min (L - h) n) = unat h + unat (min (L - h) n)" by (rule small_words) (use assms f in linarith)+
  then show "h + min (L - h) n \<le> L" using assms(2) unfolding word_le_nat_alt f by linarith
  assume "min (L - h) n < n"
  then show "unat (n - min (L - h) n) = unat n - min (unat L - unat h) (unat n)"
    by (simp only: unat_minus [OF less_imp_le] f)
qed

lemma splice_two: "length A = f \<Longrightarrow> length B = n - f \<Longrightarrow> f \<le> n \<Longrightarrow> n \<le> length dst \<Longrightarrow>
    splice (splice dst 0 A) f B = (A @ B) @ drop n dst"
  by (simp add: splice_def)

lemma write_bytes:
  assumes "unat (xLength b) < 2 ^ 31" and "length (sb_bytes b) = unat (xLength b)" and "unat h < unat (xLength b)"
    and "0 < n" and "unat n \<le> length data" and "unat n < unat (xLength b)"
  obtains h' st' where "prvWriteBytesToBuffer data n h b = Some (h', b\<lparr>sb_bytes := st'\<rparr>)"
    "unat h' = (unat h + unat n) mod unat (xLength b)" "ring_write (sb_bytes b) (unat h) (take (unat n) data) st'"
proof -
  let ?L = "unat (xLength b)" and ?h = "unat h" and ?n = "unat n"
  define f where "f = min (?L - ?h) ?n"
  let ?w = "min (xLength b - h) n" and ?f = f
  let ?st = "splice (splice (sb_bytes b) ?h (take ?f data)) 0 (take (?n - ?f) (drop ?f data))"
  note fp = first_part [OF assms(1,3), of n, folded f_def]
  have f: "f \<le> ?n" "?h + f \<le> ?L" using assms(3) unfolding f_def by linarith+
  have w: "?w < n \<longleftrightarrow> ?f < ?n" by (simp only: word_less_nat_alt fp(1))
  have n0: "n \<noteq> 0" using assms(4) by auto
  have le: "n - ?w \<le> xLength b" if "?w < n"
    using fp(3) [OF that] assms(6) unfolding word_le_nat_alt by linarith
  have c: "\<not> (n = 0 \<or> \<not> h + ?w \<le> xLength b)" "?f \<le> length data" "?h + length (take ?f data) \<le> length (sb_bytes b)"
    using n0 fp(2) assms(2,5) f by simp_all
  have "prvWriteBytesToBuffer data n h b = Some (if h + n \<ge> xLength b then h + n - xLength b else h + n, b\<lparr>sb_bytes := ?st\<rparr>)"
  proof (cases "?w < n")
    case True
    have l: "length (splice (sb_bytes b) ?h (take ?f data)) = ?L" using c(3) assms(2) by simp
    have d: "?f + (?n - ?f) \<le> length data" "length (take (?n - ?f) (drop ?f data)) \<le> length (splice (sb_bytes b) ?h (take ?f data))"
      using assms(5,6) f(1) unfolding l by simp_all
    show ?thesis
      unfolding prvWriteBytesToBuffer_def Let_def mem_load_nat mem_store_nat mem_0 fp(1) fp(3) [OF True]
      by (simp only: c d True le [OF True] if_True if_False bind.bind_lunit not_True_eq_False simp_thms)
  next
    case False
    then have "?n - ?f = 0" using w by simp
    then have e: "?st = splice (sb_bytes b) ?h (take ?f data)" by (simp only: take_0 splice_Nil)
    show ?thesis
      unfolding e prvWriteBytesToBuffer_def Let_def mem_load_nat mem_store_nat mem_0 fp(1)
      by (simp only: c False if_True if_False bind.bind_lunit)
  qed
  moreover have "ring_write (sb_bytes b) ?h (take ?n data) ?st" by (rule ring_write_split) (use assms(2,3,5,6) f_def in simp_all)
  ultimately show thesis using that advance [OF assms(1,3), of n] assms(6) by simp
qed

lemma read_bytes:
  assumes "unat (xLength b) < 2 ^ 31" and "length (sb_bytes b) = unat (xLength b)" and "unat t < unat (xLength b)"
    and "0 < n" and "unat n \<le> length dst" and "unat n < unat (xLength b)"
  obtains t' where "prvReadBytesFromBuffer dst n t b = Some (ring (sb_bytes b) (unat t) (unat n) @ drop (unat n) dst, t')"
    "unat t' = (unat t + unat n) mod unat (xLength b)"
proof -
  let ?L = "unat (xLength b)" and ?t = "unat t" and ?n = "unat n"
  define f where "f = min (?L - ?t) ?n"
  let ?w = "min (xLength b - t) n" and ?f = f
  note fp = first_part [OF assms(1,3), of n, folded f_def]
  have f: "f \<le> ?n" "?t + f \<le> ?L" using assms(3) unfolding f_def by linarith+
  have w: "?w < n \<longleftrightarrow> ?f < ?n" by (simp only: word_less_nat_alt fp(1))
  have n0: "n \<noteq> 0" using assms(4) by auto
  have r: "take ?f (drop ?t (sb_bytes b)) @ take (?n - ?f) (sb_bytes b) = ring (sb_bytes b) ?t ?n"
    by (rule ring_read_split) (use assms(2,3,6) f_def in simp_all)
  let ?A = "take ?f (drop ?t (sb_bytes b))" and ?B = "take (?n - ?f) (sb_bytes b)"
  have lA: "length ?A = ?f" "length ?B = ?n - ?f" using assms(2,6) f by simp_all
  have d: "splice (splice dst 0 ?A) ?f ?B = ring (sb_bytes b) ?t ?n @ drop ?n dst"
    unfolding r [symmetric] by (rule splice_two [OF lA f(1) assms(5)])
  have d2: "splice dst 0 ?A = ring (sb_bytes b) ?t ?n @ drop ?n dst" if "?f = ?n"
    using d lA(2) that by (metis diff_self_eq_0 length_0_conv splice_Nil)
  have c: "\<not> (n = 0 \<or> \<not> ?w \<le> n \<or> \<not> t + ?w \<le> xLength b)" "?t + ?f \<le> length (sb_bytes b)" "length ?A \<le> length dst"
    using n0 fp(2) assms(2,5) f lA(1) by simp_all
  have "prvReadBytesFromBuffer dst n t b = Some (ring (sb_bytes b) ?t ?n @ drop ?n dst, if t + n \<ge> xLength b then t + n - xLength b else t + n)"
  proof (cases "?w < n")
    case True
    have l: "length (splice dst 0 ?A) = length dst" using c(3) by simp
    have e: "?n - ?f \<le> length (sb_bytes b)" "?f + length ?B \<le> length (splice dst 0 ?A)" using assms(2,5,6) f unfolding l lA by simp_all
    show ?thesis
      unfolding d [symmetric] prvReadBytesFromBuffer_def Let_def mem_load_nat mem_store_nat mem_0 fp(1) fp(3) [OF True]
      by (simp only: c e True if_True if_False bind.bind_lunit)
  next
    case False
    then have e: "?f = ?n" using w f(1) by simp
    show ?thesis
      unfolding d2 [OF e, symmetric] prvReadBytesFromBuffer_def Let_def mem_load_nat mem_store_nat mem_0 fp(1)
      by (simp only: c False if_True if_False bind.bind_lunit)
  qed
  then show thesis using that advance [OF assms(1,3), of n] assms(6) by simp
qed

text \<open>The number of bytes and the free space.\<close>

lemma reduced:
  fixes L x :: u32
  assumes "unat x < 2 * unat L"
  shows "unat (if x \<ge> L then x - L else x) = unat x mod unat L"
  using assms by (auto simp: word_le_nat_alt unat_minus le_mod_geq)

lemma bytes_in_buffer:
  assumes "sb_ok b"
  shows "unat (prvBytesInBuffer b) = used b"
proof -
  note o = sb_okD [OF assms]
  have s: "unat (xLength b + xHead b) = unat (xLength b) + unat (xHead b)" by (rule small_words) (use o in linarith)+
  have "xTail b \<le> xLength b + xHead b" using o(3,4) s by (simp add: word_le_nat_alt)
  then have u: "unat (xLength b + xHead b - xTail b) = unat (xLength b) + unat (xHead b) - unat (xTail b)"
    by (simp add: unat_minus s)
  show ?thesis unfolding prvBytesInBuffer_def Let_def used_def u [symmetric] by (rule reduced) (use u o(3) in linarith)
qed

definition space :: "u32 \<Rightarrow> u32 \<Rightarrow> u32 \<Rightarrow> u32" where
  "space L h t = (if L + t - h - 1 \<ge> L then L + t - h - 1 - L else L + t - h - 1)"

lemma space_left:
  assumes "sb_ok b"
  shows "unat (space (xLength b) (xHead b) (xTail b)) = capacity b - used b"
proof -
  note o = sb_okD [OF assms]
  let ?L = "unat (xLength b)" and ?H = "unat (xHead b)" and ?T = "unat (xTail b)"
  have s: "unat (xLength b + xTail b) = ?L + ?T" by (rule small_words) (use o in linarith)+
  have "xHead b \<le> xLength b + xTail b" using o(3,4) s by (simp add: word_le_nat_alt)
  then have u: "unat (xLength b + xTail b - xHead b) = ?L + ?T - ?H" by (simp add: unat_minus s)
  then have "1 \<le> xLength b + xTail b - xHead b" using o(3) by (simp add: word_le_nat_alt)
  then have v: "unat (xLength b + xTail b - xHead b - 1) = ?L + ?T - ?H - 1" by (simp add: unat_minus u)
  have "unat (space (xLength b) (xHead b) (xTail b)) = (?L + ?T - ?H - 1) mod ?L"
    unfolding space_def v [symmetric] by (rule reduced) (use v o(4) in linarith)
  also have "\<dots> = ?L - 1 - (?L + ?H - ?T) mod ?L"
    using o(3,4) by (cases "?T \<le> ?H") (auto simp: le_mod_geq)
  finally show ?thesis by (simp add: capacity_def used_def)
qed

end
