(* ===== verification/Rtos_Stream_Safe.thy ===== *)
theory Rtos_Stream_Safe
  imports Rtos_Stream_Ring Rtos_Notify_Safe
begin

text \<open>
  A task writes to a stream or message buffer while an interrupt reads from it, at any point between
  the task's accesses: nothing is lost, repeated or reordered, and the loop that reads the free
  space ends. What the interrupt receives is recorded in an extension of the state.
\<close>

section \<open>Moving the indices\<close>

lemma used_unique:
  assumes "sb_ok b" and "m < unat (xLength b)" and "(unat (xTail b) + m) mod unat (xLength b) = unat (xHead b)"
  shows "used b = m"
proof -
  note o = sb_okD [OF assms(1)]
  have "(unat (xTail b) + used b) mod unat (xLength b) = (unat (xTail b) + m) mod unat (xLength b)" using o(8) assms(3) by simp
  then show ?thesis using o(4,5,6) assms(2) by (simp add: mod_once split: if_splits)
qed

lemma set_tail:
  assumes "sb_ok b" and "n \<le> used b" and "unat t = (unat (xTail b) + n) mod unat (xLength b)"
  shows "sb_ok (b\<lparr>xTail := t\<rparr>)" and "contents (b\<lparr>xTail := t\<rparr>) = drop n (contents b)" and "used (b\<lparr>xTail := t\<rparr>) = used b - n"
proof -
  note o = sb_okD [OF assms(1)]
  show ok: "sb_ok (b\<lparr>xTail := t\<rparr>)" using assms(1,3) o(7) by (simp add: sb_ok_def)
  have "((unat (xTail b) + n) mod unat (xLength b) + (used b - n)) mod unat (xLength b) = unat (xHead b)"
    using mod_step [OF assms(2)] o(8) by simp
  then show u: "used (b\<lparr>xTail := t\<rparr>) = used b - n"
    using used_unique [OF ok, of "used b - n"] assms(3) o(5,6) by simp
  show "contents (b\<lparr>xTail := t\<rparr>) = drop n (contents b)"
    unfolding contents_def drop_ring [OF assms(2)] u using assms(3) o(2) by simp
qed

lemma write_free:
  assumes "sb_ok b" and "ring_write (sb_bytes b) (unat (xHead b)) data st" and "used b + length data \<le> capacity b"
  shows "sb_ok (b\<lparr>sb_bytes := st\<rparr>)" and "contents (b\<lparr>sb_bytes := st\<rparr>) = contents b" and "used (b\<lparr>sb_bytes := st\<rparr>) = used b"
    and "ring st (unat (xHead b)) (length data) = data"
proof -
  note o = sb_okD [OF assms(1)]
  have l: "length st = length (sb_bytes b)" using assms(2) by (simp add: ring_write_def)
  show "sb_ok (b\<lparr>sb_bytes := st\<rparr>)" using assms(1) l by (simp add: sb_ok_def)
  show u: "used (b\<lparr>sb_bytes := st\<rparr>) = used b" by (simp add: used_def)
  have "ring st (unat (xTail b)) (used b) = ring (sb_bytes b) (unat (xTail b)) (used b)"
    by (rule ring_write_other [OF assms(2)]) (use o assms(3) in simp_all)
  then show "contents (b\<lparr>sb_bytes := st\<rparr>) = contents b" using u by (simp add: contents_def)
  show "ring st (unat (xHead b)) (length data) = data" by (rule ring_write_read [OF assms(2)]) (use o assms(3) in simp)
qed

lemma set_head:
  assumes "sb_ok b" and "used b + n \<le> capacity b" and "unat h = (unat (xHead b) + n) mod unat (xLength b)"
  shows "sb_ok (b\<lparr>xHead := h\<rparr>)" and "contents (b\<lparr>xHead := h\<rparr>) = contents b @ ring (sb_bytes b) (unat (xHead b)) n"
    and "used (b\<lparr>xHead := h\<rparr>) = used b + n"
proof -
  note o = sb_okD [OF assms(1)]
  show ok: "sb_ok (b\<lparr>xHead := h\<rparr>)" using assms(1,3) o(7) by (simp add: sb_ok_def)
  have "(unat (xTail b) + (used b + n)) mod unat (xLength b) = ((unat (xTail b) + used b) mod unat (xLength b) + n) mod unat (xLength b)"
    by (simp only: mod_add_left_eq add.assoc)
  then have "(unat (xTail b) + (used b + n)) mod unat (xLength b) = unat h" using o(8) assms(3) by simp
  then show u: "used (b\<lparr>xHead := h\<rparr>) = used b + n"
    using used_unique [OF ok, of "used b + n"] assms(2) o(6) by simp
  show "contents (b\<lparr>xHead := h\<rparr>) = contents b @ ring (sb_bytes b) (unat (xHead b)) n"
    unfolding contents_def u using ring_append [of "sb_bytes b" "unat (xTail b)" "used b" n] o(2,8) by simp
qed

section \<open>What is in the buffer\<close>

text \<open>What a successful call puts into the buffer for the bytes \<open>m\<close>.\<close>

definition wire :: "bool \<Rightarrow> u8 list \<Rightarrow> u8 list" where
  "wire msg m = (if msg then length_bytes (of_nat (length m)) @ m else m)"

abbreviation wires :: "bool \<Rightarrow> u8 list list \<Rightarrow> u8 list" where
  "wires msg ms \<equiv> concat (map (wire msg) ms)"

text \<open>A message buffer holds whole messages.\<close>

definition sb_inv :: "StreamBuffer_t \<Rightarrow> bool" where
  "sb_inv b \<longleftrightarrow> sb_ok b \<and> (is_message_buffer b \<longrightarrow> (\<exists>ms. contents b = wires True ms \<and> (\<forall>m \<in> set ms. m \<noteq> [])))"

lemma of_nat_unat_word: "of_nat (unat (w :: u32)) = w"
  by simp

lemma unat_of_nat32: "n < 2 ^ LENGTH(32) \<Longrightarrow> unat (of_nat n :: u32) = n"
  by (simp add: unsigned_of_nat take_bit_nat_eq_self)

lemma unat_small: "n < 2 ^ 31 \<Longrightarrow> unat (of_nat n :: u32) = n"
  by (rule unat_of_nat32) simp

lemma length_length_bytes [simp]: "length (length_bytes n) = 4"
  by (simp add: length_bytes_def)

lemma length_round_trip: "length_word (length_bytes n @ m) = n"
proof (rule bit_word_eqI)
  fix i assume "i < LENGTH(32)"
  then have "i < 8 \<or> 8 \<le> i \<and> i < 16 \<or> 16 \<le> i \<and> i < 24 \<or> 24 \<le> i \<and> i < 32" by auto
  then show "bit (length_word (length_bytes n @ m)) i = bit n i"
    by (auto simp: length_word_def length_bytes_def bit_simps)
qed

lemma length_word_bytes: "length_word (length_bytes n) = n"
  by (rule length_round_trip [of n "[]", unfolded append_Nil2])

lemma is_message_simps [simp]:
  "is_message_buffer (b\<lparr>xTail := t\<rparr>) = is_message_buffer b" "is_message_buffer (b\<lparr>xHead := h\<rparr>) = is_message_buffer b"
  "is_message_buffer (b\<lparr>sb_bytes := st\<rparr>) = is_message_buffer b"
  "capacity (b\<lparr>xTail := t\<rparr>) = capacity b" "capacity (b\<lparr>xHead := h\<rparr>) = capacity b" "capacity (b\<lparr>sb_bytes := st\<rparr>) = capacity b"
  by (simp_all add: is_message_buffer_def capacity_def)

lemma upd_sbuf_simps [simp]:
  "sbuf (upd_sbuf f s) = f (sbuf s)" "kern (upd_sbuf f s) = kern s" "sb_state.more (upd_sbuf f s) = sb_state.more s"
  by (simp_all add: upd_sbuf_def)

section \<open>Receiving from an interrupt\<close>

text \<open>
  Reading takes a prefix off the contents: in a stream as many bytes as there are and fit, in a message
  buffer the first message if it fits.
\<close>

lemma read_stream:
  assumes "sb_ok (sbuf s)" and "\<not> is_message_buffer (sbuf s)" and "unat len \<le> length dst"
  defines "n \<equiv> min (unat len) (used (sbuf s))"
  shows "\<exists>t. prvReadMessageFromBuffer dst len (prvBytesInBuffer (sbuf s)) (\<lambda>_. Some) s
      = Some (of_nat n, take n (contents (sbuf s)) @ drop n dst, s\<lparr>sbuf := (sbuf s)\<lparr>xTail := t\<rparr>\<rparr>)
    \<and> unat t = (unat (xTail (sbuf s)) + n) mod unat (xLength (sbuf s))"
proof -
  let ?b = "sbuf s"
  note o = sb_okD [OF assms(1)]
  have "unat (min len (prvBytesInBuffer ?b)) = n" by (simp only: unat_min bytes_in_buffer [OF assms(1)] n_def)
  then have m: "min len (prvBytesInBuffer ?b) = of_nat n" using of_nat_unat_word by metis
  have "n < 2 ^ 31" using o(1,5,6) unfolding n_def by linarith
  then have un: "unat (of_nat n :: u32) = n" by (rule unat_small)
  show ?thesis
  proof (cases "n = 0")
    case True
    have "upd_sbuf (xTail_update (\<lambda>_. xTail ?b)) s = s" by (simp add: upd_sbuf_def)
    then show ?thesis using m True assms(2) o(4) by (intro exI [of _ "xTail ?b"]) (simp add: prvReadMessageFromBuffer_def upd_sbuf_def)
  next
    case False
    then have "(of_nat n :: u32) \<noteq> 0" "0 < (of_nat n :: u32)" using un by (auto simp: word_less_nat_alt)
    moreover have "unat (of_nat n :: u32) \<le> length dst" "unat (of_nat n :: u32) < unat (xLength ?b)" using un assms(3) o(5,6) n_def by auto
    ultimately obtain t where "prvReadBytesFromBuffer dst (of_nat n) (xTail ?b) ?b = Some (ring (sb_bytes ?b) (unat (xTail ?b)) n @ drop n dst, t)"
      "unat t = (unat (xTail ?b) + n) mod unat (xLength ?b)"
      using read_bytes [of ?b "xTail ?b" "of_nat n" dst] o(1-4) unfolding un by blast
    moreover have "ring (sb_bytes ?b) (unat (xTail ?b)) n = take n (contents ?b)"
      unfolding contents_def by (rule take_ring [symmetric]) (simp add: n_def)
    ultimately show ?thesis
      using m False assms(2) \<open>of_nat n \<noteq> (0 :: u32)\<close>
      by (intro exI [of _ t]) (simp add: prvReadMessageFromBuffer_def upd_sbuf_def)
  qed
qed

lemma wires_Cons: "wires True (m # ms) = length_bytes (of_nat (length m)) @ m @ wires True ms"
  by (simp add: wire_def)

lemma read_message:
  assumes "sb_ok (sbuf s)" and "is_message_buffer (sbuf s)" and "contents (sbuf s) = wires True (m # ms)" and "m \<noteq> []"
    and "unat len \<le> length dst"
  shows "\<exists>t. prvReadMessageFromBuffer dst len (prvBytesInBuffer (sbuf s)) (\<lambda>_. Some) s =
      (if length m \<le> unat len then Some (of_nat (length m), m @ drop (length m) dst, s\<lparr>sbuf := (sbuf s)\<lparr>xTail := t\<rparr>\<rparr>) else Some (0, dst, s))
    \<and> unat t = (unat (xTail (sbuf s)) + (4 + length m)) mod unat (xLength (sbuf s))"
    and "4 + length m \<le> used (sbuf s)"
proof -
  let ?b = "sbuf s"
  let ?L = "unat (xLength ?b)" and ?T = "unat (xTail ?b)" and ?n = "length m"
  note o = sb_okD [OF assms(1)]
  have u: "used ?b = 4 + ?n + length (wires True ms)"
    using arg_cong [OF assms(3), of length] by (simp only: length_contents wires_Cons length_append length_length_bytes)
  then show u': "4 + ?n \<le> used ?b" by simp
  have n: "0 < ?n" "?n < 2 ^ 31" using assms(4) u' o(1,5,6) by (simp, linarith)
  have un: "unat (of_nat ?n :: u32) = ?n" by (rule unat_small [OF n(2)])
  have four: "unat (4 :: u32) = 4" by simp
  have "?L > 4" using u' o(5,6) by linarith
  then obtain t4 where t4: "prvReadBytesFromBuffer (replicate 4 0) 4 (xTail ?b) ?b = Some (ring (sb_bytes ?b) ?T 4 @ drop 4 (replicate 4 0), t4)"
    "unat t4 = (?T + 4) mod ?L"
    using read_bytes [of ?b "xTail ?b" 4 "replicate 4 0"] o(1-4) unfolding four by (auto simp: word_less_nat_alt)
  have "ring (sb_bytes ?b) ?T 4 = take 4 (contents ?b)" unfolding contents_def by (rule take_ring [symmetric]) (use u' in simp)
  then have "ring (sb_bytes ?b) ?T 4 @ drop 4 (replicate 4 0) = length_bytes (of_nat ?n)"
    unfolding assms(3) wires_Cons by simp
  note tmp = t4(1) [unfolded this]
  have av: "unat (prvBytesInBuffer ?b - 4) = used ?b - 4"
    using u' by (simp add: unat_minus word_le_nat_alt bytes_in_buffer [OF assms(1)])
  have "of_nat ?n \<le> prvBytesInBuffer ?b - 4" unfolding word_le_nat_alt un av using u' by linarith
  then have mn: "min (of_nat ?n) (prvBytesInBuffer ?b - 4) = of_nat ?n" by (rule min_absorb1)
  have nn: "(of_nat ?n :: u32) \<noteq> 0" "0 < (of_nat ?n :: u32)" using un n(1) by (auto simp: word_less_nat_alt)
  have fits: "len < of_nat ?n \<longleftrightarrow> \<not> ?n \<le> unat len" using un by (simp add: word_less_nat_alt not_le)
  obtain t where t: "unat t = (?T + (4 + ?n)) mod ?L" "?n \<le> unat len \<Longrightarrow> prvReadBytesFromBuffer dst (of_nat ?n) t4 ?b = Some (m @ drop ?n dst, t)"
  proof (cases "?n \<le> unat len")
    case True
    have "unat t4 < ?L" using t4(2) o(7) by simp
    then obtain t where t: "prvReadBytesFromBuffer dst (of_nat ?n) t4 ?b = Some (ring (sb_bytes ?b) (unat t4) ?n @ drop ?n dst, t)"
      "unat t = (unat t4 + ?n) mod ?L"
      using read_bytes [of ?b t4 "of_nat ?n" dst] o(1,2) nn(2) True assms(5) u' o(5,6) unfolding un by auto
    have "ring (sb_bytes ?b) ?T (4 + ?n) = take (4 + ?n) (contents ?b)" unfolding contents_def by (rule take_ring [symmetric]) (use u' in simp)
    then have "ring (sb_bytes ?b) ?T 4 @ ring (sb_bytes ?b) (unat t4) ?n = length_bytes (of_nat ?n) @ m"
      unfolding assms(3) wires_Cons ring_append t4(2) o(2) by simp
    then have "ring (sb_bytes ?b) (unat t4) ?n = m" by simp
    then show thesis using that [of t] t t4(2) by (simp add: mod_add_left_eq add.assoc)
  next
    case False
    have "(?T + (4 + ?n)) mod ?L < 2 ^ 31" by (rule less_trans [OF mod_less_divisor [OF o(7)] o(1)])
    then show thesis using that [of "of_nat ((?T + (4 + ?n)) mod ?L)"] False unat_small by blast
  qed
  show "\<exists>t. prvReadMessageFromBuffer dst len (prvBytesInBuffer (sbuf s)) (\<lambda>_. Some) s =
      (if ?n \<le> unat len then Some (of_nat ?n, m @ drop ?n dst, s\<lparr>sbuf := ?b\<lparr>xTail := t\<rparr>\<rparr>) else Some (0, dst, s))
    \<and> unat t = (?T + (4 + ?n)) mod ?L"
    using t tmp fits mn nn(1) assms(2)
    by (intro exI [of _ t]) (simp add: prvReadMessageFromBuffer_def length_word_bytes upd_sbuf_def Let_def)
qed

text \<open>The state with the log of what an interrupt received, one entry for each call that returned bytes.\<close>

record logged_state = sb_state +
  received :: "u8 list list"

definition isr_receive :: "u32 \<Rightarrow> logged_state \<Rightarrow> logged_state option" where
  "isr_receive len s = do {
     (n, dst, woken, s) \<leftarrow> xStreamBufferReceiveFromISR (replicate (unat len) 0) len s;
     Some (if n = 0 then s else s\<lparr>received := received s @ [take (unat n) dst]\<rparr>)
   }"

primrec isr_receives :: "u32 list \<Rightarrow> logged_state \<Rightarrow> logged_state option" where
  "isr_receives [] s = Some s"
| "isr_receives (len # lens) s = do { s \<leftarrow> isr_receive len s; isr_receives lens s }"

text \<open>The reader takes whole entries off the contents and changes nothing else.\<close>

definition reads :: "logged_state \<Rightarrow> logged_state \<Rightarrow> bool" where
  "reads s s' \<longleftrightarrow> (\<exists>t rs. s' = s\<lparr>sbuf := (sbuf s)\<lparr>xTail := t\<rparr>, received := received s @ rs\<rparr> \<and> sb_inv (sbuf s')
     \<and> contents (sbuf s) = wires (is_message_buffer (sbuf s)) rs @ contents (sbuf s'))"

definition reader_ready :: "logged_state \<Rightarrow> bool" where
  "reader_ready s \<longleftrightarrow> sb_inv (sbuf s) \<and> xTaskWaitingToSend (sbuf s) = None"

lemma reads_refl: "reader_ready s \<Longrightarrow> reads s s"
  unfolding reads_def reader_ready_def by (intro exI [of _ "xTail (sbuf s)"] exI [of _ "[]"]) simp

lemma reads_trans:
  assumes "reads s s1" and "reads s1 s2"
  shows "reads s s2"
proof -
  obtain t rs where 1: "s1 = s\<lparr>sbuf := (sbuf s)\<lparr>xTail := t\<rparr>, received := received s @ rs\<rparr>"
    "contents (sbuf s) = wires (is_message_buffer (sbuf s)) rs @ contents (sbuf s1)" using assms(1) by (auto simp: reads_def)
  obtain t2 rs2 where 2: "s2 = s1\<lparr>sbuf := (sbuf s1)\<lparr>xTail := t2\<rparr>, received := received s1 @ rs2\<rparr>" "sb_inv (sbuf s2)"
    "contents (sbuf s1) = wires (is_message_buffer (sbuf s1)) rs2 @ contents (sbuf s2)" using assms(2) by (auto simp: reads_def)
  have "s2 = s\<lparr>sbuf := (sbuf s)\<lparr>xTail := t2\<rparr>, received := received s @ (rs @ rs2)\<rparr>"
    using 1(1) 2(1) by simp
  moreover have "contents (sbuf s) = wires (is_message_buffer (sbuf s)) (rs @ rs2) @ contents (sbuf s2)"
    using 1 2(3) by simp
  ultimately show ?thesis using 2(2) unfolding reads_def by blast
qed

lemma readsD:
  assumes "reads s s'"
  shows "sb_inv (sbuf s')" and "xHead (sbuf s') = xHead (sbuf s)" and "xLength (sbuf s') = xLength (sbuf s)"
    and "sb_bytes (sbuf s') = sb_bytes (sbuf s)" and "capacity (sbuf s') = capacity (sbuf s)"
    and "is_message_buffer (sbuf s') = is_message_buffer (sbuf s)" and "kern s' = kern s"
    and "used (sbuf s') \<le> used (sbuf s)" and "xTaskWaitingToSend (sbuf s') = xTaskWaitingToSend (sbuf s)"
    and "xTaskWaitingToReceive (sbuf s') = xTaskWaitingToReceive (sbuf s)"
    and "xTriggerLevelBytes (sbuf s') = xTriggerLevelBytes (sbuf s)"
    and "wires (is_message_buffer (sbuf s')) (received s') @ contents (sbuf s')
       = wires (is_message_buffer (sbuf s)) (received s) @ contents (sbuf s)"
proof -
  obtain t rs where 1: "s' = s\<lparr>sbuf := (sbuf s)\<lparr>xTail := t\<rparr>, received := received s @ rs\<rparr>" "sb_inv (sbuf s')"
    "contents (sbuf s) = wires (is_message_buffer (sbuf s)) rs @ contents (sbuf s')" using assms by (auto simp: reads_def)
  show "used (sbuf s') \<le> used (sbuf s)" using arg_cong [OF 1(3), of length] by simp
  show "sb_inv (sbuf s')" by (rule 1(2))
qed (use assms in \<open>auto simp: reads_def\<close>)

lemma reader_ready_reads: "reads s s' \<Longrightarrow> reader_ready s \<Longrightarrow> reader_ready s'"
  using readsD(1,9) by (simp add: reader_ready_def)

text \<open>What a reception of up to \<open>len\<close> bytes takes off the buffer.\<close>

definition freed :: "nat \<Rightarrow> StreamBuffer_t \<Rightarrow> nat" where
  "freed len b = (if is_message_buffer b then
       if contents b \<noteq> [] \<and> unat (length_word (contents b)) \<le> len then 4 + unat (length_word (contents b)) else 0
     else min len (used b))"

text \<open>
  What a reception from an interrupt does: it moves the tail, logs what it got and, if it got something,
  notifies a task that waits for room.
\<close>

definition received_as :: "u32 \<Rightarrow> logged_state \<Rightarrow> u32 \<Rightarrow> u8 list list \<Rightarrow> bool" where
  "received_as len s t rs \<longleftrightarrow> sb_inv ((sbuf s)\<lparr>xTail := t\<rparr>)
     \<and> contents (sbuf s) = wires (is_message_buffer (sbuf s)) rs @ contents ((sbuf s)\<lparr>xTail := t\<rparr>)
     \<and> used ((sbuf s)\<lparr>xTail := t\<rparr>) + freed (unat len) (sbuf s) = used (sbuf s)
     \<and> isr_receive len s = (if rs = [] then Some s
         else map_option (\<lambda>(_, x). x\<lparr>received := received x @ rs\<rparr>) (sbRECEIVE_COMPLETED_FROM_ISR (s\<lparr>sbuf := (sbuf s)\<lparr>xTail := t\<rparr>\<rparr>)))"

lemma received_nothing:
  assumes "sb_inv (sbuf s)" and "freed (unat len) (sbuf s) = 0" and "isr_receive len s = Some s"
  shows "received_as len s (xTail (sbuf s)) []"
  using assms by (simp add: received_as_def)

lemma isr_receive_shape:
  assumes inv: "sb_inv (sbuf s)"
  shows "\<exists>t rs. received_as len s t rs"
proof -
  let ?b = "sbuf s" and ?dst = "replicate (unat len) (0 :: u8)"
  have ok: "sb_ok ?b" using inv by (simp add: sb_inv_def)
  note o = sb_okD [OF ok]
  show ?thesis
  proof (cases "is_message_buffer ?b")
    case False
    define n where "n = min (unat len) (used ?b)"
    obtain t where t: "prvReadMessageFromBuffer ?dst len (prvBytesInBuffer ?b) (\<lambda>_. Some) s
        = Some (of_nat n, take n (contents ?b) @ drop n ?dst, s\<lparr>sbuf := ?b\<lparr>xTail := t\<rparr>\<rparr>)"
      "unat t = (unat (xTail ?b) + n) mod unat (xLength ?b)"
      using read_stream [OF ok False, of len ?dst] unfolding n_def by auto
    have nu: "n \<le> used ?b" "n \<le> unat len" by (simp_all add: n_def)
    have un: "unat (of_nat n :: u32) = n" by (rule unat_small) (use nu o(1,5,6) in linarith)
    have n0: "(of_nat n :: u32) = 0 \<longleftrightarrow> n = 0" unfolding unat_eq_zero [symmetric] un ..
    have fr: "freed (unat len) ?b = n" using False by (simp add: freed_def n_def)
    note tl = set_tail [OF ok _ t(2)]
    have "sb_inv (?b\<lparr>xTail := t\<rparr>)" using tl(1) [OF nu(1)] False by (simp add: sb_inv_def)
    moreover have "contents ?b = wires False [take n (contents ?b)] @ contents (?b\<lparr>xTail := t\<rparr>)" using tl(2) [OF nu(1)] by (simp add: wire_def)
    moreover have "used (?b\<lparr>xTail := t\<rparr>) + n = used ?b" using tl(3) nu(1) by simp
    ultimately have r: "received_as len s t [take n (contents ?b)]" if "isr_receive len s =
        map_option (\<lambda>(_, x). x\<lparr>received := received x @ [take n (contents ?b)]\<rparr>) (sbRECEIVE_COMPLETED_FROM_ISR (s\<lparr>sbuf := ?b\<lparr>xTail := t\<rparr>\<rparr>))"
      using that False by (simp add: received_as_def fr)
    show ?thesis
    proof (cases "n = 0")
      case True
      have "isr_receive len s = Some s"
      proof (cases "prvBytesInBuffer ?b > 0")
        case True
        have "unat t = unat (xTail ?b)" using t(2) o(4) \<open>n = 0\<close> by simp
        then have "t = xTail ?b" by (simp only: word_unat_eq_iff)
        then have "s\<lparr>sbuf := ?b\<lparr>xTail := t\<rparr>\<rparr> = s" by simp
        then show ?thesis using t(1) True False \<open>n = 0\<close> by (simp add: isr_receive_def xStreamBufferReceiveFromISR_def Let_def)
      qed (use False in \<open>simp add: isr_receive_def xStreamBufferReceiveFromISR_def Let_def\<close>)
      then show ?thesis using received_nothing [OF inv] fr True by auto
    next
      case n: False
      have "0 < unat (prvBytesInBuffer ?b)" unfolding bytes_in_buffer [OF ok] using n nu by linarith
      then have "prvBytesInBuffer ?b > 0" by (simp add: word_less_nat_alt)
      then show ?thesis using r t(1) n n0 un nu o(2) False
        by (intro exI [of _ t] exI [of _ "[take n (contents ?b)]"] r)
          (simp add: isr_receive_def xStreamBufferReceiveFromISR_def Let_def map_conv_bind_option o_def split_def)
    qed
  next
    case True
    then obtain ms where ms: "contents ?b = wires True ms" "\<forall>m \<in> set ms. m \<noteq> []" using inv by (auto simp: sb_inv_def)
    have gt: "4 < prvBytesInBuffer ?b \<longleftrightarrow> 4 < used ?b" by (simp add: word_less_nat_alt bytes_in_buffer [OF ok])
    show ?thesis
    proof (cases ms)
      case Nil
      then have c: "contents ?b = []" using ms(1) by simp
      then have "used ?b = 0" using length_contents [of ?b] by simp
      then have "isr_receive len s = Some s" using True gt by (simp add: isr_receive_def xStreamBufferReceiveFromISR_def Let_def)
      then show ?thesis using received_nothing [OF inv] c True by (auto simp: freed_def)
    next
      case (Cons m ms')
      have m: "m \<noteq> []" "\<forall>m \<in> set ms'. m \<noteq> []" using ms(2) Cons by auto
      note rd = read_message [OF ok True _ m(1), of ms' len ?dst, unfolded length_replicate, OF ms(1) [unfolded Cons] order_refl]
      obtain t where t: "prvReadMessageFromBuffer ?dst len (prvBytesInBuffer ?b) (\<lambda>_. Some) s =
          (if length m \<le> unat len then Some (of_nat (length m), m @ drop (length m) ?dst, s\<lparr>sbuf := ?b\<lparr>xTail := t\<rparr>\<rparr>) else Some (0, ?dst, s))"
        "unat t = (unat (xTail ?b) + (4 + length m)) mod unat (xLength ?b)" using rd(1) by blast
      have u: "4 < used ?b" using rd(2) m(1) by (cases m) auto
      note tl = set_tail [OF ok rd(2) t(2)]
      have un: "unat (of_nat (length m) :: u32) = length m" by (rule unat_small) (use rd(2) o(1,5,6) in linarith)
      have "contents ?b \<noteq> []" using u by (metis length_contents list.size(3) not_less_zero)
      moreover have "length_word (contents ?b) = of_nat (length m)" unfolding ms(1) Cons wires_Cons by (rule length_round_trip)
      ultimately have fr: "freed (unat len) ?b = (if length m \<le> unat len then 4 + length m else 0)"
        using True un by (simp add: freed_def)
      show ?thesis
      proof (cases "length m \<le> unat len")
        case fits: True
        have c: "contents (?b\<lparr>xTail := t\<rparr>) = wires True ms'" unfolding tl(2) ms(1) Cons wires_Cons by simp
        have "sb_inv (?b\<lparr>xTail := t\<rparr>)" using tl(1) c m(2) unfolding sb_inv_def by blast
        moreover have "used (?b\<lparr>xTail := t\<rparr>) + freed (unat len) ?b = used ?b" using tl(3) rd(2) fr fits by simp
        moreover have "(of_nat (length m) :: u32) \<noteq> 0" using m(1) un by (metis length_0_conv unat_0)
        then have "isr_receive len s = map_option (\<lambda>(_, x). x\<lparr>received := received x @ [m]\<rparr>)
            (sbRECEIVE_COMPLETED_FROM_ISR (s\<lparr>sbuf := ?b\<lparr>xTail := t\<rparr>\<rparr>))"
          using t(1) un fits True gt u
          by (simp add: isr_receive_def xStreamBufferReceiveFromISR_def Let_def map_conv_bind_option o_def split_def)
        ultimately have "received_as len s t [m]" using True c ms(1) Cons by (simp add: received_as_def)
        then show ?thesis by blast
      next
        case False
        then have "isr_receive len s = Some s" using t(1) True gt u by (simp add: isr_receive_def xStreamBufferReceiveFromISR_def Let_def)
        then show ?thesis using received_nothing [OF inv] fr False by auto
      qed
    qed
  qed
qed

text \<open>If no task waits for room, an interrupt that receives is a reader.\<close>

lemma isr_receive_reads:
  assumes "reader_ready s"
  shows "\<exists>s'. isr_receive len s = Some s' \<and> reads s s'"
proof -
  have inv: "sb_inv (sbuf s)" and w: "xTaskWaitingToSend (sbuf s) = None" using assms by (auto simp: reader_ready_def)
  obtain t rs where r: "received_as len s t rs" using isr_receive_shape [OF inv] by blast
  show ?thesis
  proof (cases "rs = []")
    case True
    then show ?thesis using r reads_refl [OF assms] by (intro exI [of _ s]) (simp add: received_as_def)
  next
    case False
    then show ?thesis using r w unfolding received_as_def reads_def
      by (simp add: sbRECEIVE_COMPLETED_FROM_ISR_def xStreamBufferReceiveCompletedFromISR_def)
        (intro exI [of _ t] exI [of _ rs], simp)
  qed
qed

end
