(* ===== verification/Rtos_Stream_Send.thy ===== *)
theory Rtos_Stream_Send
  imports Rtos_Stream_Safe
begin

text \<open>
  Sending while an interrupt receives: an environment that only reads, as a locale, and the send
  function under it, at once or after a wait for room that a reception ends.
\<close>

section \<open>An environment that reads\<close>

lemma same_tail:
  assumes "sb_ok b" and "sb_ok b'" and "xLength b' = xLength b" and "xHead b' = xHead b" and "used b' = used b"
  shows "xTail b' = xTail b"
proof -
  note o = sb_okD [OF assms(1)] and o' = sb_okD [OF assms(2)]
  have "(unat (xTail b') + used b) mod unat (xLength b) = (unat (xTail b) + used b) mod unat (xLength b)"
    using o(8) o'(8) assms(3-5) by simp
  then have "unat (xTail b') = unat (xTail b)" using o(4,5,6) o'(4) assms(3) by (simp add: mod_once split: if_splits)
  then show ?thesis by (simp only: word_unat_eq_iff)
qed

lemma used_by_tail: "xLength b' = xLength b \<Longrightarrow> xHead b' = xHead b \<Longrightarrow> xTail b' = xTail b \<Longrightarrow> used b' = used b"
  by (simp add: used_def)

lemma reader_readyD:
  assumes "reader_ready s"
  shows "sb_inv (sbuf s)" and "sb_ok (sbuf s)" and "xTaskWaitingToSend (sbuf s) = None"
  using assms by (auto simp: reader_ready_def sb_inv_def)

definition history :: "logged_state \<Rightarrow> u8 list" where
  "history s = wires (is_message_buffer (sbuf s)) (received s) @ contents (sbuf s)"

lemma history_reads: "reads s s' \<Longrightarrow> history s' = history s"
  using readsD(12) by (simp add: history_def)

locale reader =
  fixes env :: "nat \<Rightarrow> logged_state \<Rightarrow> logged_state option"
  assumes env_reads: "reader_ready s \<Longrightarrow> \<exists>s'. env n s = Some s' \<and> reads s s'"
begin

text \<open>Every round of the loop that was disturbed saw at least one byte go, so the loop ends.\<close>

lemma spaces_loop_ends:
  "reader_ready s \<Longrightarrow> \<exists>x s'. spaces_loop env i s = Some (x, s') \<and> reads s s'
     \<and> x = xLength (sbuf s') + xTail (sbuf s') - xHead (sbuf s')"
proof (induction "used (sbuf s)" arbitrary: i s rule: less_induct)
  case less
  obtain s1 where s1: "env (3 * i) s = Some s1" "reads s s1" using env_reads [OF less.prems] by blast
  have r1: "reader_ready s1" by (rule reader_ready_reads [OF s1(2) less.prems])
  obtain s2 where s2: "env (3 * i + 1) s1 = Some s2" "reads s1 s2" using env_reads [OF r1] by blast
  have r2: "reader_ready s2" by (rule reader_ready_reads [OF s2(2) r1])
  obtain s3 where s3: "env (3 * i + 2) s2 = Some s3" "reads s2 s3" using env_reads [OF r2] by blast
  have r3: "reader_ready s3" by (rule reader_ready_reads [OF s3(2) r2])
  have rd: "reads s1 s3" "reads s s3" using reads_trans [OF s2(2) s3(2)] reads_trans [OF s1(2)] by blast+
  let ?x = "xLength (sbuf s1) + xTail (sbuf s1) - xHead (sbuf s2)"
  have step: "spaces_loop env i s = (if xTail (sbuf s) \<noteq> xTail (sbuf s3) then spaces_loop env (i + 1) s3 else Some (?x, s3))"
    by (subst spaces_loop.simps) (simp add: s1(1) s2(1) [simplified] s3(1) [simplified])
  note d = readsD [OF rd(2)]
  show ?case
  proof (cases "xTail (sbuf s) = xTail (sbuf s3)")
    case True
    have "used (sbuf s3) = used (sbuf s)" by (rule used_by_tail) (use d True in simp_all)
    then have "used (sbuf s1) = used (sbuf s3)" using readsD(8) [OF s1(2)] readsD(8) [OF rd(1)] by linarith
    then have "xTail (sbuf s1) = xTail (sbuf s3)"
      by (intro same_tail [OF reader_readyD(2) [OF r3] reader_readyD(2) [OF r1]]) (simp_all add: readsD(2,3) [OF rd(1)])
    then have "?x = xLength (sbuf s3) + xTail (sbuf s3) - xHead (sbuf s3)"
      using readsD(2,3) [OF rd(1)] readsD(2) [OF s3(2)] by simp
    then show ?thesis using step True rd(2) by simp
  next
    case False
    have "used (sbuf s3) \<noteq> used (sbuf s)"
      using same_tail [OF reader_readyD(2) [OF r3] reader_readyD(2) [OF less.prems]] d(2,3) False by metis
    then have "used (sbuf s3) < used (sbuf s)" using d(8) by linarith
    then obtain x s' where x: "spaces_loop env (i + 1) s3 = Some (x, s')" "reads s3 s'"
      "x = xLength (sbuf s') + xTail (sbuf s') - xHead (sbuf s')" using less.hyps [OF _ r3] by blast
    then show ?thesis using step False reads_trans [OF rd(2) x(2)] by simp
  qed
qed

lemma spaces_available:
  assumes "reader_ready s"
  shows "\<exists>x s'. xStreamBufferSpacesAvailable env s = Some (x, s') \<and> reads s s' \<and> unat x = capacity (sbuf s') - used (sbuf s')"
proof -
  obtain x s' where x: "spaces_loop env 0 s = Some (x, s')" "reads s s'" "x = xLength (sbuf s') + xTail (sbuf s') - xHead (sbuf s')"
    using spaces_loop_ends [OF assms] by blast
  have ok: "sb_ok (sbuf s')" by (rule reader_readyD(2) [OF reader_ready_reads [OF x(2) assms]])
  show ?thesis
    using x(1,2) space_left [OF ok] unfolding x(3) space_def
    by (simp add: xStreamBufferSpacesAvailable_def Let_def)
qed

text \<open>The last step of a write: what lies behind the head becomes part of the contents.\<close>

lemma commit:
  assumes "reader_ready s" and "ring (sb_bytes (sbuf s)) (unat (xHead (sbuf s))) n = w" and "used (sbuf s) + n \<le> capacity (sbuf s)"
    and "unat h = (unat (xHead (sbuf s)) + n) mod unat (xLength (sbuf s))" and "w = wire (is_message_buffer (sbuf s)) m" and "m \<noteq> []"
  shows "\<exists>s1. env k s = Some s1 \<and> reads s s1 \<and> reader_ready (upd_sbuf (xHead_update (\<lambda>_. h)) s1)
    \<and> history (upd_sbuf (xHead_update (\<lambda>_. h)) s1) = history s @ w"
proof -
  obtain s1 where s1: "env k s = Some s1" "reads s s1" using env_reads [OF assms(1)] by blast
  have r1: "reader_ready s1" by (rule reader_ready_reads [OF s1(2) assms(1)])
  note d = readsD [OF s1(2)]
  have u: "used (sbuf s1) + n \<le> capacity (sbuf s1)" using assms(3) d(5,8) by simp
  have h: "unat h = (unat (xHead (sbuf s1)) + n) mod unat (xLength (sbuf s1))" using assms(4) d(2,3) by simp
  note sh = set_head [OF reader_readyD(2) [OF r1] u h]
  have c: "contents ((sbuf s1)\<lparr>xHead := h\<rparr>) = contents (sbuf s1) @ w" using sh(2) assms(2) d(2,4) by simp
  have "sb_inv ((sbuf s1)\<lparr>xHead := h\<rparr>)"
    unfolding sb_inv_def
  proof (intro conjI impI)
    assume "is_message_buffer ((sbuf s1)\<lparr>xHead := h\<rparr>)"
    then have msg: "is_message_buffer (sbuf s1)" by simp
    then obtain ms where "contents (sbuf s1) = wires True ms" "\<forall>m \<in> set ms. m \<noteq> []"
      using reader_readyD(1) [OF r1] by (auto simp: sb_inv_def)
    then show "\<exists>ms. contents ((sbuf s1)\<lparr>xHead := h\<rparr>) = wires True ms \<and> (\<forall>m \<in> set ms. m \<noteq> [])"
      using c assms(5,6) d(6) msg by (intro exI [of _ "ms @ [m]"]) auto
  qed (rule sh(1))
  then have "reader_ready (upd_sbuf (xHead_update (\<lambda>_. h)) s1)" using reader_readyD(3) [OF r1] by (simp add: reader_ready_def)
  moreover have "history (upd_sbuf (xHead_update (\<lambda>_. h)) s1) = history s1 @ w"
    using c by (simp add: history_def) (simp add: upd_sbuf_def)
  ultimately show ?thesis using s1 history_reads [OF s1(2)] by auto
qed

end

text \<open>The copy of the data: another byte range behind the head than the contents.\<close>

lemma put_bytes:
  assumes "reader_ready s" and "ring_write (sb_bytes (sbuf s)) (unat (xHead (sbuf s))) w st" and "used (sbuf s) + length w \<le> capacity (sbuf s)"
  shows "reader_ready (s\<lparr>sbuf := (sbuf s)\<lparr>sb_bytes := st\<rparr>\<rparr>)" and "history (s\<lparr>sbuf := (sbuf s)\<lparr>sb_bytes := st\<rparr>\<rparr>) = history s"
    and "ring st (unat (xHead (sbuf s))) (length w) = w" and "used ((sbuf s)\<lparr>sb_bytes := st\<rparr>) = used (sbuf s)"
proof -
  note w = write_free [OF reader_readyD(2) [OF assms(1)] assms(2,3)]
  show "reader_ready (s\<lparr>sbuf := (sbuf s)\<lparr>sb_bytes := st\<rparr>\<rparr>)"
    using w(1,2) reader_readyD(1,3) [OF assms(1)] by (simp add: reader_ready_def sb_inv_def)
  show "history (s\<lparr>sbuf := (sbuf s)\<lparr>sb_bytes := st\<rparr>\<rparr>) = history s" using w(2) by (simp add: history_def)
qed (use write_free [OF reader_readyD(2) [OF assms(1)] assms(2,3)] in simp_all)

text \<open>What the writer leaves alone.\<close>

definition steady :: "logged_state \<Rightarrow> logged_state \<Rightarrow> bool" where
  "steady s s' \<longleftrightarrow> kern s' = kern s \<and> xTaskWaitingToReceive (sbuf s') = xTaskWaitingToReceive (sbuf s)
     \<and> is_message_buffer (sbuf s') = is_message_buffer (sbuf s) \<and> capacity (sbuf s') = capacity (sbuf s)"

lemma steady_trans: "steady s s1 \<Longrightarrow> steady s1 s2 \<Longrightarrow> steady s s2"
  by (simp add: steady_def)

lemma steady_reads: "reads s s' \<Longrightarrow> steady s s'"
  using readsD(5-7,10) by (simp add: steady_def)

lemma steady_upd [simp]: "steady s (upd_sbuf (xHead_update (\<lambda>_. h)) s)" "steady s (s\<lparr>sbuf := (sbuf s)\<lparr>sb_bytes := st\<rparr>\<rparr>)"
  by (simp_all add: steady_def is_message_buffer_def capacity_def)

definition sent :: "logged_state \<Rightarrow> u8 list \<Rightarrow> u32 \<Rightarrow> logged_state \<Rightarrow> bool" where
  "sent s data n s' \<longleftrightarrow> reader_ready s' \<and> steady s s'
     \<and> history s' = history s @ (if n = 0 then [] else wire (is_message_buffer (sbuf s)) (take (unat n) data))"

lemma sent_nothing: "reader_ready s' \<Longrightarrow> steady s s' \<Longrightarrow> history s' = history s \<Longrightarrow> sent s data 0 s'"
  by (simp add: sent_def)

context reader
begin

lemma write_stream:
  assumes "reader_ready s" and "\<not> is_message_buffer (sbuf s)" and "unat len \<le> length data" and "unat x \<le> capacity (sbuf s) - used (sbuf s)"
  shows "\<exists>s'. prvWriteMessageToBuffer data len x required env s = Some (min len x, s') \<and> sent s data (min len x) s'"
proof (cases "min len x = 0")
  case True
  then show ?thesis using assms(1,2) by (intro exI [of _ s]) (simp add: prvWriteMessageToBuffer_def sent_def steady_def)
next
  case False
  let ?n = "min len x"
  have n: "unat ?n \<le> length data" "unat ?n \<le> capacity (sbuf s) - used (sbuf s)" using assms(3,4) by (simp_all add: unat_min)
  obtain s1 where s1: "env 0 s = Some s1" "reads s s1" using env_reads [OF assms(1)] by blast
  have r1: "reader_ready s1" by (rule reader_ready_reads [OF s1(2) assms(1)])
  note d = readsD [OF s1(2)] and o = sb_okD [OF reader_readyD(2) [OF r1]]
  have "0 < ?n" using False unfolding word_neq_0_conv .
  moreover have "unat ?n < unat (xLength (sbuf s1))" using n(2) d(5) o(6) by linarith
  ultimately obtain h st where w: "prvWriteBytesToBuffer data ?n (xHead (sbuf s1)) (sbuf s1) = Some (h, (sbuf s1)\<lparr>sb_bytes := st\<rparr>)"
    "unat h = (unat (xHead (sbuf s1)) + unat ?n) mod unat (xLength (sbuf s1))"
    "ring_write (sb_bytes (sbuf s1)) (unat (xHead (sbuf s1))) (take (unat ?n) data) st"
    using write_bytes [of "sbuf s1" "xHead (sbuf s1)" ?n data] o(1-3) n(1) by blast
  let ?s = "s1\<lparr>sbuf := (sbuf s1)\<lparr>sb_bytes := st\<rparr>\<rparr>" and ?w = "take (unat ?n) data"
  have l: "length ?w = unat ?n" using n(1) by simp
  have room: "used (sbuf s1) + length ?w \<le> capacity (sbuf s1)"
    using n(2) d(5,8) sb_okD(5) [OF reader_readyD(2) [OF assms(1)]] unfolding l by linarith
  note p = put_bytes [OF r1 w(3) room]
  have "?w \<noteq> []" using False l by (metis length_0_conv unat_eq_zero)
  then obtain s2 where s2: "env 1 ?s = Some s2" "reads ?s s2" "reader_ready (upd_sbuf (xHead_update (\<lambda>_. h)) s2)"
    "history (upd_sbuf (xHead_update (\<lambda>_. h)) s2) = history ?s @ ?w"
    using commit [OF p(1), of "unat ?n" ?w h ?w 1] p(3,4) room w(2) assms(2) d(6) l by (auto simp: wire_def)
  have "prvWriteMessageToBuffer data len x required env s = Some (?n, upd_sbuf (xHead_update (\<lambda>_. h)) s2)"
    using assms(2) False s1(1) s2(1) w(1) d(2) by (simp add: prvWriteMessageToBuffer_def)
  moreover have "steady s (upd_sbuf (xHead_update (\<lambda>_. h)) s2)"
    by (rule steady_trans [OF steady_trans [OF steady_trans [OF steady_reads [OF s1(2)] steady_upd(2)] steady_reads [OF s2(2)]] steady_upd(1)])
  ultimately show ?thesis
    using s2(3,4) p(2) history_reads [OF s1(2)] False assms(2) by (simp add: sent_def wire_def)
qed

lemma write_message:
  assumes "reader_ready s" and "is_message_buffer (sbuf s)" and "unat len \<le> length data" and "unat x \<le> capacity (sbuf s) - used (sbuf s)"
    and "unat required = unat len + 4"
  shows "\<exists>s'. prvWriteMessageToBuffer data len x required env s = Some (if x \<ge> required then len else 0, s')
    \<and> sent s data (if x \<ge> required then len else 0) s'"
proof (cases "x \<ge> required")
  case False
  then show ?thesis using assms(1,2) by (intro exI [of _ s]) (simp add: prvWriteMessageToBuffer_def sent_def steady_def)
next
  case True
  let ?b = "sbuf s"
  note o = sb_okD [OF reader_readyD(2) [OF assms(1)]]
  have need: "used ?b + (4 + unat len) \<le> capacity ?b" using True assms(4,5) o(5) by (simp add: word_le_nat_alt)
  have four: "unat (4 :: u32) = 4" "(0 :: u32) < 4" by simp_all
  have "unat (4 :: u32) < unat (xLength ?b)" unfolding four using need o(6) by linarith
  then obtain h4 st4 where w4: "prvWriteBytesToBuffer (length_bytes len) 4 (xHead ?b) ?b = Some (h4, ?b\<lparr>sb_bytes := st4\<rparr>)"
    "unat h4 = (unat (xHead ?b) + 4) mod unat (xLength ?b)" "ring_write (sb_bytes ?b) (unat (xHead ?b)) (length_bytes len) st4"
    using write_bytes [of ?b "xHead ?b" 4 "length_bytes len"] o(1-3) four unfolding four(1) by auto
  let ?s4 = "s\<lparr>sbuf := ?b\<lparr>sb_bytes := st4\<rparr>\<rparr>"
  note p4 = put_bytes [OF assms(1) w4(3)]
  have p4: "reader_ready ?s4" "history ?s4 = history s" using p4 need by simp_all
  show ?thesis
  proof (cases "len = 0")
    case True
    then have "prvWriteMessageToBuffer data len x required env s = Some (0, ?s4)"
      using \<open>x \<ge> required\<close> assms(2) w4(1) by (simp add: prvWriteMessageToBuffer_def)
    then show ?thesis using True p4 by (intro exI [of _ ?s4]) (simp add: sent_nothing)
  next
    case len: False
    obtain s1 where s1: "env 0 ?s4 = Some s1" "reads ?s4 s1" using env_reads [OF p4(1)] by blast
    have r1: "reader_ready s1" by (rule reader_ready_reads [OF s1(2) p4(1)])
    note d = readsD [OF s1(2)] and o1 = sb_okD [OF reader_readyD(2) [OF r1]]
    have "unat h4 < unat (xLength (sbuf s1))" using w4(2) d(3) o(7) by simp
    moreover have "unat len < unat (xLength (sbuf s1))" using need d(3) o(6) by simp
    ultimately obtain h st where w: "prvWriteBytesToBuffer data len h4 (sbuf s1) = Some (h, (sbuf s1)\<lparr>sb_bytes := st\<rparr>)"
      "unat h = (unat h4 + unat len) mod unat (xLength (sbuf s1))" "ring_write (sb_bytes (sbuf s1)) (unat h4) (take (unat len) data) st"
      using write_bytes [of "sbuf s1" h4 len data] o1(1,2) len assms(3) by (auto simp: word_gt_0)
    let ?m = "take (unat len) data"
    let ?w = "length_bytes len @ ?m"
    have l: "length ?w = 4 + unat len" using assms(3) by simp
    have wr: "wire True ?m = ?w" using assms(3) by (simp add: wire_def min_absorb2)
    txt \<open>The two copies are one copy into the buffer as it was before them.\<close>
    define b0 where "b0 = (sbuf s1)\<lparr>sb_bytes := sb_bytes ?b\<rparr>"
    have b1: "sbuf s1 = b0\<lparr>sb_bytes := st4\<rparr>" using d(4) by (simp add: b0_def)
    have L0: "length (sb_bytes ?b) = unat (xLength (sbuf s1))" using o(2) d(3) by simp
    have ok0: "sb_ok b0" using reader_readyD(2) [OF r1] L0 o1(2) by (simp add: sb_ok_def b0_def)
    have f0: "xHead b0 = xHead ?b" "used b0 = used (sbuf s1)" "capacity b0 = capacity ?b" "sb_bytes b0 = sb_bytes ?b"
      using d(2,5) by (simp_all add: b0_def used_def capacity_def)
    have "ring_write (sb_bytes ?b) (unat (xHead ?b)) ?w st"
    proof (rule ring_write_twice [OF w4(3)])
      have "sb_bytes (sbuf s1) = st4" "unat h4 = (unat (xHead ?b) + length (length_bytes len)) mod length (sb_bytes ?b)"
        using d(4) w4(2) o(2) by simp_all
      then show "ring_write st4 ((unat (xHead ?b) + length (length_bytes len)) mod length (sb_bytes ?b)) ?m st" using w(3) by simp
      show "length (length_bytes len) + length ?m \<le> length (sb_bytes ?b)" using need o(2,6) assms(3) by simp
      show "unat (xHead ?b) < length (sb_bytes ?b)" using o(2,3) by simp
    qed
    then have rw: "ring_write (sb_bytes b0) (unat (xHead b0)) ?w st" using f0 by simp
    have used1: "used (sbuf s1) \<le> used ?b" using d(8) by (simp add: used_def)
    have room: "used b0 + length ?w \<le> capacity b0" using need used1 f0(2,3) unfolding l by linarith
    note f = write_free [OF ok0 rw room]
    have c0: "contents (sbuf s1) = contents b0"
    proof -
      have rw4: "ring_write (sb_bytes b0) (unat (xHead b0)) (length_bytes len) st4" using w4(3) f0 by simp
      have "used b0 + length (length_bytes len) \<le> capacity b0" using room by simp
      then show ?thesis unfolding b1 by (rule write_free(2) [OF ok0 rw4])
    qed
    let ?s = "s1\<lparr>sbuf := (sbuf s1)\<lparr>sb_bytes := st\<rparr>\<rparr>"
    have bs: "(sbuf s1)\<lparr>sb_bytes := st\<rparr> = b0\<lparr>sb_bytes := st\<rparr>" by (simp add: b0_def)
    have c: "contents ((sbuf s1)\<lparr>sb_bytes := st\<rparr>) = contents (sbuf s1)" unfolding bs c0 by (rule f(2))
    have r2: "reader_ready ?s"
      using f(1) c reader_readyD(1,3) [OF r1] unfolding bs [symmetric] by (simp add: reader_ready_def sb_inv_def)
    have h2: "history ?s = history s1" using c by (simp add: history_def)
    have head: "xHead (sbuf ?s) = xHead ?b" "xLength (sbuf ?s) = xLength ?b" using d(2,3) by simp_all
    have hh: "unat h = (unat (xHead (sbuf ?s)) + (4 + unat len)) mod unat (xLength (sbuf ?s))"
      unfolding w(2) w4(2) head using d(3) by (simp add: mod_add_left_eq add.assoc)
    have rg: "ring (sb_bytes (sbuf ?s)) (unat (xHead (sbuf ?s))) (4 + unat len) = ?w"
      using f(4) f0(1) l head by simp
    have rm: "used (sbuf ?s) + (4 + unat len) \<le> capacity (sbuf ?s)"
      using need used1 d(5) by (simp add: used_def)
    have msg: "is_message_buffer (sbuf ?s)" using assms(2) d(6) by simp
    have m: "?m \<noteq> []" using len assms(3) by (metis length_0_conv length_take min_absorb2 unat_eq_zero)
    obtain s2 where s2: "env 1 ?s = Some s2" "reads ?s s2" "reader_ready (upd_sbuf (xHead_update (\<lambda>_. h)) s2)"
      "history (upd_sbuf (xHead_update (\<lambda>_. h)) s2) = history ?s @ ?w"
      using commit [OF r2 rg rm hh _ m, of 1] msg wr by auto
    have "prvWriteMessageToBuffer data len x required env s = Some (len, upd_sbuf (xHead_update (\<lambda>_. h)) s2)"
      using assms(2) \<open>x \<ge> required\<close> len s1(1) s2(1) w(1) w4(1) by (simp add: prvWriteMessageToBuffer_def)
    moreover have "steady s (upd_sbuf (xHead_update (\<lambda>_. h)) s2)"
      by (rule steady_trans [OF steady_trans [OF steady_trans [OF steady_trans [OF steady_upd(2) steady_reads [OF s1(2)]] steady_upd(2)] steady_reads [OF s2(2)]] steady_upd(1)])
    ultimately show ?thesis
      using s2(3,4) h2 p4(2) history_reads [OF s1(2)] len \<open>x \<ge> required\<close> assms(2) wr by (simp add: sent_def)
  qed
qed

end

section \<open>An interrupt as the environment\<close>

text \<open>At each point any number of interrupts, each with a receive buffer of a size of its own.\<close>

definition isr_env :: "(nat \<Rightarrow> u32 list) \<Rightarrow> nat \<Rightarrow> logged_state \<Rightarrow> logged_state option" where
  "isr_env script n = isr_receives (script n)"

lemma isr_receives_reads: "reader_ready s \<Longrightarrow> \<exists>s'. isr_receives lens s = Some s' \<and> reads s s'"
proof (induction lens arbitrary: s)
  case (Cons len lens)
  obtain s1 where s1: "isr_receive len s = Some s1" "reads s s1" using isr_receive_reads [OF Cons.prems] by blast
  obtain s2 where "isr_receives lens s1 = Some s2" "reads s1 s2" using Cons.IH [OF reader_ready_reads [OF s1(2) Cons.prems]] by blast
  then show ?case using s1 reads_trans [OF s1(2)] by auto
qed (simp add: reads_refl)

interpretation isr: reader "isr_env script" for script
  by unfold_locales (simp add: isr_env_def isr_receives_reads)

lemma no_receiver_waits:
  assumes "xTaskWaitingToReceive (sbuf s) = None" and "xTaskResumeAll (vTaskSuspendAll (kern s)) = Some (y, k)"
  shows "sbSEND_COMPLETED s = Some (s\<lparr>kern := k\<rparr>)"
  using assms by (simp add: sbSEND_COMPLETED_def)

lemma history_kern [simp]: "history (s\<lparr>kern := k\<rparr>) = history s"
  by (simp add: history_def)

section \<open>Waiting for room\<close>

text \<open>In a critical section there are no interrupts.\<close>

interpretation atomic: reader "\<lambda>_. Some"
  by unfold_locales (simp add: reads_refl)

lemma spaces_at_once:
  assumes "reader_ready s"
  shows "\<exists>x. xStreamBufferSpacesAvailable (\<lambda>_. Some) s = Some (x, s) \<and> unat x = capacity (sbuf s) - used (sbuf s)"
proof -
  have "spaces_loop (\<lambda>_. Some) 0 s = Some (xLength (sbuf s) + xTail (sbuf s) - xHead (sbuf s), s)"
    by (subst spaces_loop.simps) simp
  then show ?thesis using atomic.spaces_available [OF assms] by (auto simp: xStreamBufferSpacesAvailable_def Let_def)
qed

text \<open>A sender that is registered at a buffer from which a reception of up to \<open>rlen\<close> bytes takes something.\<close>

definition waits_for_room :: "nat \<Rightarrow> u32 \<Rightarrow> logged_state \<Rightarrow> bool" where
  "waits_for_room c rlen s \<longleftrightarrow> sb_inv (sbuf s) \<and> xTaskWaitingToSend (sbuf s) = Some c \<and> uxNotificationIndex (sbuf s) = 0
     \<and> \<not> no_current s \<and> 0 < freed (unat rlen) (sbuf s)"

text \<open>The buffer and the log after it.\<close>

definition drained :: "u32 \<Rightarrow> StreamBuffer_t \<times> u8 list list \<Rightarrow> StreamBuffer_t \<times> u8 list list \<Rightarrow> bool" where
  "drained rlen = (\<lambda>(b, r) (b', r'). \<exists>t rs. b' = b\<lparr>xTail := t, xTaskWaitingToSend := None\<rparr> \<and> r' = r @ rs \<and> sb_inv (b\<lparr>xTail := t\<rparr>)
     \<and> contents b = wires (is_message_buffer b) rs @ contents (b\<lparr>xTail := t\<rparr>) \<and> used (b\<lparr>xTail := t\<rparr>) + freed (unat rlen) b = used b)"

lemma waiting_to_send_fields [simp]:
  "sb_inv (b\<lparr>xTaskWaitingToSend := r\<rparr>) = sb_inv b" "contents (b\<lparr>xTaskWaitingToSend := r\<rparr>) = contents b"
  "used (b\<lparr>xTaskWaitingToSend := r\<rparr>) = used b" "capacity (b\<lparr>xTaskWaitingToSend := r\<rparr>) = capacity b"
  "is_message_buffer (b\<lparr>xTaskWaitingToSend := r\<rparr>) = is_message_buffer b" "freed n (b\<lparr>xTaskWaitingToSend := r\<rparr>) = freed n b"
  by (simp_all add: sb_inv_def sb_ok_def contents_def used_def capacity_def is_message_buffer_def freed_def)

lemma notified_more [simp]: "sbuf (set_notified c st v x) = sbuf x" "received (set_notified c st v x) = received x"
  by (simp_all add: set_notified_def)

lemma received_upd [simp]: "received (upd_sbuf f s) = received s" "no_current (upd_sbuf f s) = no_current s"
  "ucNotifyState (upd_sbuf f s) = ucNotifyState s"
  by (simp_all add: upd_sbuf_def)

lemma waits_for_room_irq:
  assumes "waits_for_room c rlen s"
  shows "\<exists>s'. drained rlen (sbuf s, received s) (sbuf s', received s') \<and> kern s' = kern s \<and> ucNotifyState s' c = taskNOTIFICATION_RECEIVED
    \<and> isr_receive rlen s = (if ucNotifyState s c = taskWAITING_NOTIFICATION
         then map_option (\<lambda>(w, x). s'\<lparr>kern := kern x\<rparr>) (notify_wake_from_ISR c s) else Some s')"
proof -
  have w: "sb_inv (sbuf s)" "xTaskWaitingToSend (sbuf s) = Some c" "uxNotificationIndex (sbuf s) = 0" "0 < freed (unat rlen) (sbuf s)"
    using assms by (simp_all add: waits_for_room_def)
  obtain t rs where r: "received_as rlen s t rs" using isr_receive_shape [OF w(1)] by blast
  then have rs: "rs \<noteq> []" using w(4) length_contents [of "sbuf s"] length_contents [of "(sbuf s)\<lparr>xTail := t\<rparr>"] by (auto simp: received_as_def)
  let ?b = "(sbuf s)\<lparr>xTail := t\<rparr>"
  let ?s = "set_notified c taskNOTIFICATION_RECEIVED (ulNotifiedValue s c) (s\<lparr>sbuf := ?b\<rparr>)"
  let ?s' = "(upd_sbuf (xTaskWaitingToSend_update (\<lambda>_. None)) ?s)\<lparr>received := received s @ rs\<rparr>"
  have "notify_wake_from_ISR c ?s = map_option (\<lambda>(w, x). (w, ?s\<lparr>kern := kern x\<rparr>)) (notify_wake_from_ISR c s)"
    by (rule wake_other_fields) simp_all
  moreover have "drained rlen (sbuf s, received s) (sbuf ?s', received ?s')"
    unfolding drained_def prod.case
    by (rule exI [of _ t], rule exI [of _ rs]) (use r in \<open>simp add: received_as_def upd_sbuf_def\<close>)
  ultimately show ?thesis using r rs w(2,3)
    by (intro exI [of _ ?s'] conjI; cases "notify_wake_from_ISR c s")
      (simp_all add: received_as_def sbRECEIVE_COMPLETED_FROM_ISR_def xStreamBufferReceiveCompletedFromISR_def xTaskGenericNotifyFromISR_def
        upd_sbuf_def option.map_comp o_def split_def Let_def)
qed

interpretation draining: notifier c "\<lambda>s. ucNotifyState s (current s) \<noteq> taskNOTIFICATION_RECEIVED" "isr_receive rlen" "waits_for_room c rlen"
    "\<lambda>s. (sbuf s, received s)" "drained rlen" for c rlen
proof (unfold_locales, goal_cases)
  case (1 s)
  then show ?case using waits_for_room_irq [OF 1] by auto
qed (auto simp: waits_for_room_def)

lemma clear_no_bits: "clear_bits 0 = (\<lambda>s. s)"
  by (rule ext) (simp add: clear_bits_def)

text \<open>Before a task waits it clears an old notification.\<close>

lemma clear_state:
  assumes "current s = c" and "\<not> no_current s" and "ucNotifyState s c \<noteq> taskWAITING_NOTIFICATION"
  shows "\<exists>r. xTaskGenericNotifyStateClear None 0 s = Some (r, s\<lparr>ucNotifyState := (ucNotifyState s)(c := taskNOT_WAITING_NOTIFICATION)\<rparr>)"
proof -
  have "(ucNotifyState s)(c := taskNOT_WAITING_NOTIFICATION) = ucNotifyState s" if "ucNotifyState s c \<noteq> taskNOTIFICATION_RECEIVED"
    using that assms(3) by (cases "ucNotifyState s c") auto
  then show ?thesis using assms by (auto simp: xTaskGenericNotifyStateClear_def prvGetTCBFromHandle_def)
qed

text \<open>The room a call needs before it writes, and whether it waits for it.\<close>

definition send_needs :: "u32 \<Rightarrow> StreamBuffer_t \<Rightarrow> u32" where
  "send_needs len b = (if is_message_buffer b then len + sbBYTES_TO_STORE_MESSAGE_LENGTH else min len (xLength b - 1))"

definition must_wait :: "tick \<Rightarrow> u32 \<Rightarrow> StreamBuffer_t \<Rightarrow> bool" where
  "must_wait ticks len b \<longleftrightarrow> ticks \<noteq> 0 \<and> send_needs len b \<le> xLength b - 1 \<and> capacity b - used b < unat (send_needs len b)"

text \<open>The scheduler and who runs may change in a wait, the rest is as after a reception.\<close>

definition room_got :: "nat \<Rightarrow> logged_state \<Rightarrow> logged_state \<Rightarrow> bool" where
  "room_got c s s' \<longleftrightarrow> reader_ready s' \<and> history s' = history s \<and> runs_task c (kern s')
     \<and> is_message_buffer (sbuf s') = is_message_buffer (sbuf s) \<and> capacity (sbuf s') = capacity (sbuf s) \<and> used (sbuf s') \<le> used (sbuf s)
     \<and> xTaskWaitingToReceive (sbuf s') = xTaskWaitingToReceive (sbuf s)"

lemma reads_room: "reads s s' \<Longrightarrow> reader_ready s \<Longrightarrow> runs_task c (kern s) \<Longrightarrow> room_got c s s'"
  using readsD(5,6,7,8,10) reader_ready_reads history_reads by (simp add: room_got_def)

lemma blocked_sender_gets_room:
  assumes ready: "reader_ready s" and run: "runs_task c (kern s)" and "uxNotificationIndex (sbuf s) = 0" and "\<not> no_current s"
    and "ucNotifyState s c \<noteq> taskWAITING_NOTIFICATION" and "0 < ticks"
    and full: "capacity (sbuf s) - used (sbuf s) < unat required"
    and room: "unat required \<le> capacity (sbuf s) - used (sbuf s) + freed (unat rlen) (sbuf s)"
    and env: "wenv 0 = interrupt_at j (isr_receive rlen) earlier later" and "j \<le> 3" and "j = 3 \<Longrightarrow> xPendedTicks (kern s) = 0"
    and earlier: "\<And>x. j = 3 \<Longrightarrow> asleep c x \<Longrightarrow> \<exists>y. earlier x = Some y \<and> asleep c y \<and> sbuf y = sbuf x \<and> received y = received x"
    and later: "\<And>x. notified c x \<Longrightarrow> (j < 3 \<Longrightarrow> runs_task c (kern x)) \<Longrightarrow> \<exists>y. later x = Some y \<and> runs_task c (kern y)
      \<and> sbuf y = sbuf x \<and> received y = received x \<and> \<not> fst (xTaskCheckForTimeOut timeout ticks (kern y))"
  shows "\<exists>x s'. send_wait required timeout ticks wenv 0 s = Some (x, s') \<and> room_got c s s'
    \<and> unat x = capacity (sbuf s') - used (sbuf s') \<and> required \<le> x"
proof -
  have c: "current s = c" using run by (simp add: runs_task_def)
  have inv: "sb_inv (sbuf s)" and ok: "sb_ok (sbuf s)" using reader_readyD [OF ready] by simp_all
  obtain x0 where x0: "xStreamBufferSpacesAvailable (\<lambda>_. Some) s = Some (x0, s)" "unat x0 = capacity (sbuf s) - used (sbuf s)"
    using spaces_at_once [OF ready] by blast
  let ?s0 = "s\<lparr>ucNotifyState := (ucNotifyState s)(c := taskNOT_WAITING_NOTIFICATION)\<rparr>"
  obtain r0 where clr: "xTaskGenericNotifyStateClear None 0 s = Some (r0, ?s0)" using clear_state [OF c assms(4,5)] by blast
  let ?s1 = "upd_sbuf (xTaskWaitingToSend_update (\<lambda>_. Some c)) ?s0"
  have reg: "xTaskGetCurrentTaskHandle ?s0 = Some c" using c assms(4) by (simp add: xTaskGetCurrentTaskHandle_def)
  have w1: "waits_for_room c rlen ?s1" using inv assms(3,4) full room by (simp add: waits_for_room_def)
  have r1: "runs_task c (kern ?s1)" and st: "ucNotifyState ?s1 c \<noteq> taskWAITING_NOTIFICATION" "ucNotifyState ?s1 (current ?s1) \<noteq> taskNOTIFICATION_RECEIVED"
    using run c by simp_all
  obtain s3 where s3: "notify_block (\<lambda>s. ucNotifyState s (current s) \<noteq> taskNOTIFICATION_RECEIVED) (\<lambda>s. s) ticks (wenv 0) ?s1 = later s3"
    "notified c s3" "j < 3 \<longrightarrow> runs_task c (kern s3)" "drained rlen (sbuf ?s1, received ?s1) (sbuf s3, received s3)"
    using draining.wait_ends [OF w1 r1 st assms(6,10), of earlier later] assms(11) earlier unfolding env by auto
  obtain y where y: "later s3 = Some y" "runs_task c (kern y)" "sbuf y = sbuf s3" "received y = received s3"
    "\<not> fst (xTaskCheckForTimeOut timeout ticks (kern y))" using later [OF s3(2)] s3(3) by blast
  obtain r v w where wf: "wait_finish 0 y = (r, v, w)" by (cases "wait_finish 0 y")
  then have w: "w = snd (snd (wait_finish 0 y))" by simp
  have wk: "sbuf w = sbuf y" "kern w = kern y" "received w = received y" unfolding w by (simp_all add: wait_finish_def Let_def)
  let ?s4 = "upd_sbuf (xTaskWaitingToSend_update (\<lambda>_. None)) w"
  obtain t rs where d: "sbuf s3 = (sbuf s)\<lparr>xTail := t, xTaskWaitingToSend := None\<rparr>" "received s3 = received s @ rs" "sb_inv ((sbuf s)\<lparr>xTail := t\<rparr>)"
    "contents (sbuf s) = wires (is_message_buffer (sbuf s)) rs @ contents ((sbuf s)\<lparr>xTail := t\<rparr>)"
    "used ((sbuf s)\<lparr>xTail := t\<rparr>) + freed (unat rlen) (sbuf s) = used (sbuf s)"
  proof -
    have e: "(b\<lparr>xTaskWaitingToSend := Some c\<rparr>)\<lparr>xTail := t\<rparr> = (b\<lparr>xTail := t\<rparr>)\<lparr>xTaskWaitingToSend := Some c\<rparr>" for b :: StreamBuffer_t and t by simp
    show thesis using s3(4) that unfolding drained_def by (auto simp: e simp del: StreamBuffer_t.update_convs)
  qed
  have b4: "sbuf ?s4 = (sbuf s)\<lparr>xTail := t, xTaskWaitingToSend := None\<rparr>" using wk(1) y(3) d(1) by simp
  have u4: "used (sbuf ?s4) + freed (unat rlen) (sbuf s) = used (sbuf s)" using d(5) unfolding b4 by simp
  have ready4: "reader_ready ?s4" using d(3) unfolding reader_ready_def b4 by simp
  have got: "room_got c s ?s4"
    using ready4 y(2,4) wk d(2,4) u4 unfolding room_got_def history_def b4 by simp
  obtain x where x: "xStreamBufferSpacesAvailable (\<lambda>_. Some) ?s4 = Some (x, ?s4)" "unat x = capacity (sbuf ?s4) - used (sbuf ?s4)"
    using spaces_at_once [OF ready4] by blast
  have "required \<le> x" using x(2) room u4 sb_okD(5) [OF ok] got unfolding word_le_nat_alt room_got_def by simp
  moreover have "x0 < required" using x0(2) full by (simp add: word_less_nat_alt)
  moreover have "xTaskGenericNotifyWait 0 0 0 ticks (wenv 0) ?s1 = Some (r, v, w)"
    using s3(1) y(1) wf by (simp add: xTaskGenericNotifyWait_def clear_no_bits)
  moreover have "wenv 0 4 = Some" using env assms(10) by (auto simp: interrupt_at_def)
  moreover obtain to tk where "xTaskCheckForTimeOut timeout ticks (kern y) = (False, to, tk)"
    using y(5) by (cases "xTaskCheckForTimeOut timeout ticks (kern y)") auto
  ultimately have "send_wait required timeout ticks wenv 0 s = send_wait required to tk wenv 1 ?s4"
    using x0(1) clr reg assms(3) reader_readyD(3) [OF ready] wk(2) by (subst send_wait.simps) (simp add: Let_def)
  also have "\<dots> = Some (x, ?s4)" using x(1) leD [OF \<open>required \<le> x\<close>] by (subst send_wait.simps) simp
  finally have "send_wait required timeout ticks wenv 0 s = Some (x, ?s4)" .
  then show ?thesis using got x(2) \<open>required \<le> x\<close> by blast
qed

section \<open>Sending\<close>

lemma bind_once:
  assumes "A = Some (r, t)" and "do { (a, s) \<leftarrow> P r t; Q a s } = Some (b, s1)" and "R r b s1 = z"
  shows "do { (r, t) \<leftarrow> A; (a, s) \<leftarrow> P r t; (b, s) \<leftarrow> Q a s; R r b s } = z"
  using assms by (cases "P r t") auto

text \<open>What is left of the call once it knows the space.\<close>

lemma write_lossless:
  assumes "reader_ready s" and "xTaskWaitingToReceive (sbuf s) = None" and "runs_task c (kern s)" and "unat len \<le> length data"
    and "unat len + 4 < 2 ^ 31" and "unat x \<le> capacity (sbuf s) - used (sbuf s)"
    and need: "is_message_buffer (sbuf s) \<Longrightarrow> required = len + 4"
  defines "msg \<equiv> is_message_buffer (sbuf s)"
  defines "n \<equiv> (if msg then if x \<ge> required then len else 0 else min len x)"
  shows "\<exists>s'. do { (n, s) \<leftarrow> prvWriteMessageToBuffer data len x required (isr_env script) s;
       s \<leftarrow> isr_env script 2 s;
       s \<leftarrow> (if n > 0 \<and> prvBytesInBuffer (sbuf s) \<ge> xTriggerLevelBytes (sbuf s) then sbSEND_COMPLETED s else Some s);
       Some (n, s) } = Some (n, s')
    \<and> history s' = history s @ (if n = 0 then [] else wire msg (take (unat n) data)) \<and> sb_inv (sbuf s')
    \<and> is_message_buffer (sbuf s') = msg \<and> runs_task c (kern s')"
proof -
  have l4: "unat (len + 4) = unat len + 4" using small_words [of len 4] assms(5) by simp
  have "\<exists>s2. prvWriteMessageToBuffer data len x required (isr_env script) s = Some (n, s2) \<and> sent s data n s2"
  proof (cases msg)
    case True
    then show ?thesis
      using isr.write_message [OF assms(1) _ assms(4,6), of required] l4 need unfolding n_def msg_def by simp
  next
    case False
    then show ?thesis using isr.write_stream [OF assms(1) _ assms(4,6)] unfolding n_def msg_def by simp
  qed
  then obtain s2 where s2: "prvWriteMessageToBuffer data len x required (isr_env script) s = Some (n, s2)" "sent s data n s2" by blast
  obtain s3 where s3: "isr_env script 2 s2 = Some s3" "reads s2 s3" using isr.env_reads s2(2) unfolding sent_def by blast
  have r3: "reader_ready s3" using reader_ready_reads [OF s3(2)] s2(2) by (simp add: sent_def)
  have st: "steady s s3" using steady_trans steady_reads [OF s3(2)] s2(2) unfolding sent_def by blast
  have hist: "history s3 = history s @ (if n = 0 then [] else wire msg (take (unat n) data))"
    using history_reads [OF s3(2)] s2(2) by (simp add: sent_def msg_def)
  obtain y k where k: "xTaskResumeAll (vTaskSuspendAll (kern s)) = Some (y, k)" "runs_task c k" using running_resume [OF assms(3)] by blast
  have "sbSEND_COMPLETED s3 = Some (s3\<lparr>kern := k\<rparr>)"
    by (rule no_receiver_waits) (use st assms(2) k(1) in \<open>simp_all add: steady_def\<close>)
  then show ?thesis using s2(1) s3(1) r3 st hist k(2) assms(3)
    by (intro exI [of _ "if n > 0 \<and> prvBytesInBuffer (sbuf s3) \<ge> xTriggerLevelBytes (sbuf s3) then s3\<lparr>kern := k\<rparr> else s3"])
      (auto simp: reader_ready_def steady_def msg_def)
qed

text \<open>The space the call goes on with.\<close>

lemma no_wait_space:
  assumes "reader_ready s" and "runs_task c (kern s)" and "ticks \<noteq> 0 \<longrightarrow> unat required \<le> capacity (sbuf s) - used (sbuf s)"
  shows "\<exists>x s1. do { (space, s) \<leftarrow> (if ticks \<noteq> 0 then send_wait required timeout ticks wenv 0 s else Some (0, s));
      if space = 0 then xStreamBufferSpacesAvailable (isr_env script) s else Some (space, s) } = Some (x, s1)
    \<and> room_got c s s1 \<and> unat x = capacity (sbuf s1) - used (sbuf s1)"
proof -
  obtain x0 where x0: "xStreamBufferSpacesAvailable (\<lambda>_. Some) s = Some (x0, s)" "unat x0 = capacity (sbuf s) - used (sbuf s)"
    using spaces_at_once [OF assms(1)] by blast
  obtain x s1 where x: "xStreamBufferSpacesAvailable (isr_env script) s = Some (x, s1)" "reads s s1"
    "unat x = capacity (sbuf s1) - used (sbuf s1)" using isr.spaces_available [OF assms(1)] by blast
  have "send_wait required timeout ticks wenv 0 s = Some (x0, s)" if "ticks \<noteq> 0"
    using x0 assms(3) that by (subst send_wait.simps) (simp add: word_less_nat_alt)
  moreover have "room_got c s s" "room_got c s s1" using reads_room [OF _ assms(1,2)] reads_refl [OF assms(1)] x(2) by blast+
  ultimately show ?thesis using x x0(2) by (cases "ticks = 0 \<or> x0 = 0") auto
qed

text \<open>
  C20: a task sends while an interrupt receives, with any number of receptions of any size between
  any two of the task's accesses to the buffer. As the interrupt is the one reader, no task waits to
  receive. The call ends, and no byte is lost, repeated or
  reordered: what the interrupt has received, followed by what is in the buffer, is what
  it was before, followed by what the call put in: in a stream, as many bytes as the call
  returns, which are all if there was room; in a message buffer the length and the message as a
  whole or nothing. That holds for every block time if the call finds the room it needs, and for a call that
  may not block. And it holds for a call that blocks on a full buffer, when an interrupt at
  any point \<open>j\<close> of the wait (before the task has announced that it waits, while it is still in its ready list, or while
  it sleeps, \<open>j = 3\<close>) receives enough to make the room: it
  wakes the task, and if that gets the processor before its time is over, the call puts in
  all it can ever put in at once.
\<close>
theorem send_is_lossless_under_interrupts:
  assumes "reader_ready s" and "xTaskWaitingToReceive (sbuf s) = None" and "unat len \<le> length data"
    and "unat len + 4 < 2 ^ 31" and "runs_task c (kern s)"
    and blocks: "must_wait ticks len (sbuf s) \<Longrightarrow> uxNotificationIndex (sbuf s) = 0 \<and> \<not> no_current s \<and> ucNotifyState s c \<noteq> taskWAITING_NOTIFICATION"
    and irq: "must_wait ticks len (sbuf s) \<Longrightarrow> wenv 0 = interrupt_at j (isr_receive rlen) earlier later \<and> j \<le> 3 \<and> (j = 3 \<longrightarrow> xPendedTicks (kern s) = 0)
      \<and> unat (send_needs len (sbuf s)) \<le> capacity (sbuf s) - used (sbuf s) + freed (unat rlen) (sbuf s)"
    and earlier: "\<And>x. j = 3 \<Longrightarrow> asleep c x \<Longrightarrow> \<exists>y. earlier x = Some y \<and> asleep c y \<and> sbuf y = sbuf x \<and> received y = received x"
    and later: "\<And>x. must_wait ticks len (sbuf s) \<Longrightarrow> notified c x \<Longrightarrow> (j < 3 \<Longrightarrow> runs_task c (kern x)) \<Longrightarrow> \<exists>y. later x = Some y \<and> runs_task c (kern y)
      \<and> sbuf y = sbuf x \<and> received y = received x \<and> \<not> fst (xTaskCheckForTimeOut (vTaskInternalSetTimeOutState (kern s)) ticks (kern y))"
  defines "msg \<equiv> is_message_buffer (sbuf s)"
  defines "free \<equiv> capacity (sbuf s) - used (sbuf s)"
  shows "\<exists>n s'. xStreamBufferSend data len ticks wenv (isr_env script1) (isr_env script2) s = Some (n, s')
    \<and> wires msg (received s') @ contents (sbuf s')
        = wires msg (received s) @ contents (sbuf s) @ (if n = 0 then [] else wire msg (take (unat n) data))
    \<and> sb_inv (sbuf s') \<and> n \<le> len \<and> (msg \<longrightarrow> n = 0 \<or> n = len)
    \<and> (length (wire msg (take (unat len) data)) \<le> free \<longrightarrow> n = len) \<and> (\<not> msg \<longrightarrow> min (unat len) free \<le> unat n)
    \<and> (must_wait ticks len (sbuf s) \<longrightarrow> unat n = (if msg then unat len else min (unat len) (capacity (sbuf s)))) \<and> runs_task c (kern s')"
proof -
  let ?b = "sbuf s" and ?need = "send_needs len (sbuf s)" and ?to = "vTaskInternalSetTimeOutState (kern s)"
  define tk where "tk = (if ?need \<le> xLength ?b - 1 then ticks else 0)"
  note o = sb_okD [OF reader_readyD(2) [OF assms(1)]]
  have l4: "unat (len + 4) = unat len + 4" using small_words [of len 4] assms(4) by simp
  then have gt: "len < len + 4" by (simp add: word_less_nat_alt)
  have w: "must_wait ticks len ?b \<longleftrightarrow> tk \<noteq> 0 \<and> free < unat ?need" by (auto simp: must_wait_def tk_def free_def)
  have space: "\<exists>x s1. do { (space, s) \<leftarrow> (if tk \<noteq> 0 then send_wait ?need ?to tk wenv 0 s else Some (0, s));
      if space = 0 then xStreamBufferSpacesAvailable (isr_env script1) s else Some (space, s) } = Some (x, s1)
    \<and> room_got c s s1 \<and> unat x = capacity (sbuf s1) - used (sbuf s1) \<and> (must_wait ticks len ?b \<longrightarrow> ?need \<le> x)"
  proof (cases "must_wait ticks len ?b")
    case True
    then have t: "tk = ticks" "0 < ticks" "ticks \<noteq> 0" "free < unat ?need" by (auto simp: must_wait_def tk_def free_def word_gt_0)
    note i = irq [OF True] and bl = blocks [OF True]
    obtain x s1 where "send_wait ?need ?to ticks wenv 0 s = Some (x, s1)" "room_got c s s1" "unat x = capacity (sbuf s1) - used (sbuf s1)" "?need \<le> x"
      using blocked_sender_gets_room [OF assms(1,5) _ _ _ t(2) t(4) [unfolded free_def] _ _ _ _ earlier later [OF True], of rlen wenv] i bl by blast
    moreover have "x \<noteq> 0" using calculation(4) t(4) by (auto simp: word_le_nat_alt)
    ultimately show ?thesis using t by (intro exI [of _ x] exI [of _ s1]) simp
  next
    case False
    then have "tk \<noteq> 0 \<longrightarrow> unat ?need \<le> capacity ?b - used ?b" using w unfolding free_def by linarith
    then show ?thesis using no_wait_space [OF assms(1,5), of tk ?need ?to wenv script1] False by simp
  qed
  then obtain x s1 where x: "do { (space, s) \<leftarrow> (if tk \<noteq> 0 then send_wait ?need ?to tk wenv 0 s else Some (0, s));
      if space = 0 then xStreamBufferSpacesAvailable (isr_env script1) s else Some (space, s) } = Some (x, s1)"
    "room_got c s s1" "unat x = capacity (sbuf s1) - used (sbuf s1)" "must_wait ticks len ?b \<longrightarrow> ?need \<le> x" by blast
  have g: "reader_ready s1" "history s1 = history s" "runs_task c (kern s1)" "is_message_buffer (sbuf s1) = msg"
    "xTaskWaitingToReceive (sbuf s1) = None" "free \<le> unat x" "unat x \<le> capacity ?b"
    using x(2,3) assms(2) unfolding room_got_def msg_def free_def by auto
  define n where "n = (if msg then if x \<ge> ?need then len else 0 else min len x)"
  obtain s' where s': "do { (n, s) \<leftarrow> prvWriteMessageToBuffer data len x ?need (isr_env script2) s1;
       s \<leftarrow> isr_env script2 2 s;
       s \<leftarrow> (if n > 0 \<and> prvBytesInBuffer (sbuf s) \<ge> xTriggerLevelBytes (sbuf s) then sbSEND_COMPLETED s else Some s);
       Some (n, s) } = Some (n, s')"
    "history s' = history s1 @ (if n = 0 then [] else wire msg (take (unat n) data))" "sb_inv (sbuf s')"
    "is_message_buffer (sbuf s') = msg" "runs_task c (kern s')"
    using write_lossless [OF g(1,5,3) assms(3,4) eq_refl [OF x(3)], of ?need script2] g(4) unfolding n_def msg_def
    by (auto simp: send_needs_def)
  have "(if is_message_buffer ?b then let required = len + sbBYTES_TO_STORE_MESSAGE_LENGTH
       in if \<not> required > len then None else Some (required, if required > xLength ?b - 1 then 0 else ticks)
     else Some (min len (xLength ?b - 1), ticks)) = Some (?need, tk)"
    using gt by (auto simp: send_needs_def tk_def not_le Let_def)
  then have "xStreamBufferSend data len ticks wenv (isr_env script1) (isr_env script2) s = Some (n, s')"
    using x(1) s'(1) unfolding xStreamBufferSend_def Let_def by (rule bind_once)
  moreover have "wires msg (received s') @ contents (sbuf s')
        = wires msg (received s) @ contents (sbuf s) @ (if n = 0 then [] else wire msg (take (unat n) data))"
    using s'(2,4) g(2) by (simp add: history_def msg_def)
  moreover have "n \<le> len" "msg \<longrightarrow> n = 0 \<or> n = len" by (auto simp: n_def)
  moreover have "length (wire msg (take (unat len) data)) \<le> free \<longrightarrow> n = len"
    using g(6) assms(3) l4 by (auto simp: wire_def n_def send_needs_def msg_def word_le_nat_alt min_def)
  moreover have "\<not> msg \<longrightarrow> min (unat len) free \<le> unat n" using g(6) by (simp add: n_def unat_min min.coboundedI2)
  moreover have "must_wait ticks len ?b \<longrightarrow> unat n = (if msg then unat len else min (unat len) (capacity ?b))"
    using x(4) g(7) o(5,6) by (auto simp: n_def send_needs_def msg_def word_le_nat_alt unat_min capacity_def unat_minus)
  ultimately show ?thesis using s'(3,5) by (intro exI [of _ n] exI [of _ s'] conjI)
qed

definition sample_buffer :: StreamBuffer_t where
  "sample_buffer = \<lparr>xTail = 9, xHead = 2, xLength = 12, xTriggerLevelBytes = 1, xTaskWaitingToReceive = None,
     xTaskWaitingToSend = None, pucBuffer = 0x20000000, ucFlags = 1, uxNotificationIndex = 0,
     sb_bytes = [0, 0xAA, 0, 0, 0, 0, 0, 0, 0, 1, 0, 0]\<rparr>"

definition sample_logged :: "StreamBuffer_t \<Rightarrow> logged_state" where
  "sample_logged b = task_state.extend sample_tasks \<lparr>sbuf = b, received = []\<rparr>"

lemma sample_logged_fields [simp]:
  "sbuf (sample_logged b) = b" "received (sample_logged b) = []" "kern (sample_logged b) = sample_kernel"
  "no_current (sample_logged b) = False" "ucNotifyState (sample_logged b) = (\<lambda>_. taskNOT_WAITING_NOTIFICATION)"
  "ulNotifiedValue (sample_logged b) = (\<lambda>_. 0)"
  by (simp_all add: sample_logged_def sample_tasks_def task_state.defs)

lemma sample_buffer_facts:
  "is_message_buffer sample_buffer" "capacity sample_buffer = 11" "used sample_buffer = 5" "contents sample_buffer = [1, 0, 0, 0, 0xAA]"
  "sb_inv sample_buffer"
proof -
  show 1: "is_message_buffer sample_buffer" "capacity sample_buffer = 11" "used sample_buffer = 5"
    by (simp_all add: sample_buffer_def is_message_buffer_def capacity_def used_def)
  have "[0..<5] = [0, 1, 2, 3, 4 :: nat]" by (simp add: upt_rec)
  then show 2: "contents sample_buffer = [1, 0, 0, 0, 0xAA]"
    by (simp add: contents_def 1(3) ring_def) (simp add: sample_buffer_def)
  have "wires True [[0xAA]] = [1, 0, 0, 0, 0xAA]" by (simp add: wire_def length_bytes_def)
  then show "sb_inv sample_buffer" unfolding sb_inv_def using 2
    by (intro conjI impI exI [of _ "[[0xAA]]"]) (simp_all add: sb_ok_def sample_buffer_def)
qed

text \<open>A message of four bytes does not fit until the one that is in the buffer has been received.\<close>

lemma sample_room:
  "reader_ready (sample_logged sample_buffer)" "uxNotificationIndex sample_buffer = 0" "xTaskWaitingToReceive sample_buffer = None"
  "freed 10 sample_buffer = 5" "send_needs 4 sample_buffer = 8"
proof -
  show "reader_ready (sample_logged sample_buffer)" using sample_buffer_facts(5) by (simp add: reader_ready_def) (simp add: sample_buffer_def)
  have "length_word [1, 0, 0, 0, 0xAA] = 1" using length_round_trip [of 1 "[0xAA]"] by (simp add: length_bytes_def)
  then show "freed 10 sample_buffer = 5" by (simp add: freed_def sample_buffer_facts)
qed (simp_all add: sample_buffer_def send_needs_def is_message_buffer_def)

lemma sample_wait:
  "asleep 1 x \<Longrightarrow> \<exists>y. run_task 2 x = Some y \<and> asleep 1 y \<and> sbuf y = sbuf x \<and> received y = received x"
  "notified 1 x \<Longrightarrow> \<exists>y. run_again 1 x = Some y \<and> runs_task 1 (kern y) \<and> sbuf y = sbuf x \<and> received y = received x" for x :: logged_state
  using run_other [of 1 x 2] run_again_runs [of 1 x] by (auto simp: notified_def)

lemma sample_no_pended: "xPendedTicks sample_kernel = 0"
  by (simp add: sample_kernel_def)

lemma send_is_lossless_under_interrupts_witness:
  "\<exists>s'. xStreamBufferSend [7, 8, 9, 10] 4 portMAX_DELAY (\<lambda>_. interrupt_at 3 (isr_receive 10) (run_task 2) (run_again 1))
      (isr_env (\<lambda>_. [])) (isr_env (\<lambda>n. if n = 0 then [10] else [])) (sample_logged sample_buffer) = Some (4, s')
    \<and> wires True (received s') @ contents (sbuf s') = [1, 0, 0, 0, 0xAA, 4, 0, 0, 0, 7, 8, 9, 10]"
proof -
  have never: "\<not> fst (xTaskCheckForTimeOut to portMAX_DELAY k)" for to k by (simp add: xTaskCheckForTimeOut_def Let_def)
  have w: "must_wait portMAX_DELAY 4 sample_buffer"
    by (simp add: must_wait_def sample_buffer_facts sample_room) (simp add: sample_buffer_def)
  obtain n s' where s': "xStreamBufferSend [7, 8, 9, 10] 4 portMAX_DELAY (\<lambda>_. interrupt_at 3 (isr_receive 10) (run_task 2) (run_again 1))
      (isr_env (\<lambda>_. [])) (isr_env (\<lambda>n. if n = 0 then [10] else [])) (sample_logged sample_buffer) = Some (n, s')"
    "wires True (received s') @ contents (sbuf s') = [1, 0, 0, 0, 0xAA] @ (if n = 0 then [] else wire True (take (unat n) [7, 8, 9, 10]))"
    "unat n = 4"
    using send_is_lossless_under_interrupts [of "sample_logged sample_buffer" 4 "[7, 8, 9, 10]" 1 portMAX_DELAY
        "\<lambda>_. interrupt_at 3 (isr_receive 10) (run_task 2) (run_again 1)" 3 10 "run_task 2" "run_again 1" "\<lambda>_. []" "\<lambda>n. if n = 0 then [10] else []"]
      sample_room sample_running sample_wait sample_no_pended never w by (auto simp: sample_buffer_facts)
  have "n = 4" using s'(3) by (simp add: word_unat_eq_iff)
  moreover have "wire True [7, 8, 9, 10] = [4, 0, 0, 0, 7, 8, 9, 10]" by (simp add: wire_def length_bytes_def)
  ultimately show ?thesis using s' by auto
qed

end
