(* ===== verification/Rtos_Stream_Wait.thy ===== *)
theory Rtos_Stream_Wait
  imports Rtos_Stream_Send
begin

text \<open>
  A task that waits for bytes while an interrupt sends them, at any point of the wait: the task is
  woken and gets the bytes. And the batching buffer, where a task is woken for bytes that it then
  does not take.
\<close>

section \<open>An interrupt that sends\<close>

definition isr_send :: "u8 list \<Rightarrow> logged_state \<Rightarrow> logged_state option" where
  "isr_send data s = map_option (\<lambda>(_, _, s). s) (xStreamBufferSendFromISR data (of_nat (length data)) s)"

text \<open>A buffer with the bytes \<open>data\<close>, of a task that waits for them or no longer does.\<close>

definition stream_ready :: "logged_state \<Rightarrow> bool" where
  "stream_ready s \<longleftrightarrow> reader_ready s \<and> \<not> is_message_buffer (sbuf s) \<and> uxNotificationIndex (sbuf s) = 0"

lemma write_stream_keeps:
  assumes "prvWriteMessageToBuffer data len x required (\<lambda>_. Some) s = Some (n, s')" and "\<not> is_message_buffer (sbuf s)"
  shows "\<exists>h st. s' = s\<lparr>sbuf := (sbuf s)\<lparr>sb_bytes := st, xHead := h\<rparr>\<rparr>"
proof (cases "min len x = 0")
  case True
  then have "s' = s\<lparr>sbuf := (sbuf s)\<lparr>sb_bytes := sb_bytes (sbuf s), xHead := xHead (sbuf s)\<rparr>\<rparr>"
    using assms by (simp add: prvWriteMessageToBuffer_def)
  then show ?thesis by blast
next
  case False
  then obtain h b where b: "prvWriteBytesToBuffer data (min len x) (xHead (sbuf s)) (sbuf s) = Some (h, b)"
    "s' = upd_sbuf (xHead_update (\<lambda>_. h)) (s\<lparr>sbuf := b\<rparr>)"
    using assms by (auto simp: prvWriteMessageToBuffer_def bind_eq_Some_conv)
  then obtain st where "b = (sbuf s)\<lparr>sb_bytes := st\<rparr>"
    by (auto simp: prvWriteBytesToBuffer_def Let_def bind_eq_Some_conv split: if_splits)
  then have "s' = s\<lparr>sbuf := (sbuf s)\<lparr>sb_bytes := st, xHead := h\<rparr>\<rparr>" using b(2) by (simp add: upd_sbuf_def)
  then show ?thesis by blast
qed

definition arrived :: "u8 list \<Rightarrow> StreamBuffer_t \<Rightarrow> StreamBuffer_t \<Rightarrow> bool" where
  "arrived data b b' \<longleftrightarrow> (\<exists>h st. b' = b\<lparr>sb_bytes := st, xHead := h\<rparr>) \<and> sb_ok b' \<and> contents b' = contents b @ data"

lemma arrivedD:
  assumes "arrived data b b'"
  shows "sb_ok b'" and "contents b' = contents b @ data" and "used b' = used b + length data"
    and "xTaskWaitingToReceive b' = xTaskWaitingToReceive b" and "xTaskWaitingToSend b' = xTaskWaitingToSend b"
    and "is_message_buffer b' = is_message_buffer b" and "is_batching_buffer b' = is_batching_buffer b"
    and "uxNotificationIndex b' = uxNotificationIndex b" and "xTriggerLevelBytes b' = xTriggerLevelBytes b" and "capacity b' = capacity b"
proof -
  show "contents b' = contents b @ data" using assms by (simp add: arrived_def)
  then show "used b' = used b + length data" by (metis length_append length_contents)
qed (use assms in \<open>auto simp: arrived_def is_message_buffer_def is_batching_buffer_def capacity_def\<close>)

lemma isr_send_arrives:
  assumes "stream_ready s" and "xTaskWaitingToReceive (sbuf s) = Some c" and "data \<noteq> []"
    and "used (sbuf s) + length data \<le> capacity (sbuf s)" and "unat (xTriggerLevelBytes (sbuf s)) \<le> used (sbuf s) + length data"
  shows "\<exists>b. arrived data (sbuf s) b \<and> isr_send data s =
    map_option (\<lambda>(_, _, _, s). upd_sbuf (xTaskWaitingToReceive_update (\<lambda>_. None)) s)
      (xTaskGenericNotifyFromISR (Some c) 0 0 eNoAction (s\<lparr>sbuf := b\<rparr>))"
proof -
  let ?n = "of_nat (length data) :: u32"
  have rr: "reader_ready s" and nm: "\<not> is_message_buffer (sbuf s)" using assms(1) by (simp_all add: stream_ready_def)
  note o = sb_okD [OF reader_readyD(2) [OF rr]]
  have un: "unat ?n = length data" by (rule unat_small) (use assms(4) o(1,6) in linarith)
  obtain x s1 where x: "xStreamBufferSpacesAvailable (\<lambda>_. Some) s = Some (x, s1)" "reads s s1" "unat x = capacity (sbuf s1) - used (sbuf s1)"
    using atomic.spaces_available [OF rr] by blast
  have "spaces_loop (\<lambda>_. Some) 0 s = Some (xLength (sbuf s) + xTail (sbuf s) - xHead (sbuf s), s)"
    by (subst spaces_loop.simps) simp
  then have s1: "s1 = s" using x(1) by (simp add: xStreamBufferSpacesAvailable_def Let_def)
  have fits: "length data \<le> unat x" using x(3) assms(4) s1 by simp
  have mn: "min ?n x = ?n" using fits un by (simp add: min_def word_le_nat_alt)
  obtain s2 where s2: "prvWriteMessageToBuffer data ?n x ?n (\<lambda>_. Some) s = Some (?n, s2)" "sent s data ?n s2"
    using atomic.write_stream [OF rr nm, of ?n data x ?n] x(3) s1 un mn by auto
  obtain h st where k: "s2 = s\<lparr>sbuf := (sbuf s)\<lparr>sb_bytes := st, xHead := h\<rparr>\<rparr>"
    using write_stream_keeps [OF s2(1) nm] by blast
  have n0: "?n \<noteq> 0" "0 < ?n" using un assms(3) unat_eq_zero [of ?n] by (auto simp: word_gt_0)
  have "history s2 = history s @ data" using s2(2) n0(1) un nm by (simp add: sent_def wire_def)
  then have c: "contents (sbuf s2) = contents (sbuf s) @ data" using nm k by (simp add: history_def is_message_buffer_def)
  have a: "arrived data (sbuf s) (sbuf s2)"
    using c k reader_readyD(2) [of s2] s2(2) unfolding arrived_def sent_def by auto
  note d = arrivedD [OF a]
  have trig: "xTriggerLevelBytes (sbuf s2) \<le> prvBytesInBuffer (sbuf s2)"
    using assms(5) d(3,9) bytes_in_buffer [OF d(1)] by (simp add: word_le_nat_alt)
  have idx: "uxNotificationIndex (sbuf s2) = 0" using d(8) assms(1) by (simp add: stream_ready_def)
  have "isr_send data s = map_option (\<lambda>(_, _, _, s). upd_sbuf (xTaskWaitingToReceive_update (\<lambda>_. None)) s)
      (xTaskGenericNotifyFromISR (Some c) 0 0 eNoAction s2)"
    using x(1) s1 s2(1) nm trig n0(2) d(4) assms(2) idx
    by (simp add: isr_send_def xStreamBufferSendFromISR_def sbSEND_COMPLETE_FROM_ISR_def xStreamBufferSendCompletedFromISR_def
        map_conv_bind_option o_def split_def)
  then show ?thesis using a k by auto
qed

section \<open>Waiting for bytes\<close>

text \<open>After its critical section the receiver is registered and not notified.\<close>

definition registered :: "nat \<Rightarrow> u8 list \<Rightarrow> logged_state \<Rightarrow> bool" where
  "registered c data s \<longleftrightarrow> stream_ready s \<and> xTaskWaitingToReceive (sbuf s) = Some c \<and> \<not> no_current s \<and> contents (sbuf s) = []
     \<and> data \<noteq> [] \<and> length data \<le> capacity (sbuf s) \<and> unat (xTriggerLevelBytes (sbuf s)) \<le> length data"

lemma registered_arrives:
  assumes "registered c data s"
  obtains b where "arrived data (sbuf s) b" "isr_send data s = map_option (\<lambda>(_, _, _, s). upd_sbuf (xTaskWaitingToReceive_update (\<lambda>_. None)) s)
      (xTaskGenericNotifyFromISR (Some c) 0 0 eNoAction (s\<lparr>sbuf := b\<rparr>))"
proof -
  have "used (sbuf s) = 0" using assms length_contents [of "sbuf s"] by (simp add: registered_def)
  then show thesis using isr_send_arrives [of s c data] assms that unfolding registered_def by auto
qed

lemma registered_irq:
  assumes "registered c data s"
  shows "\<exists>s'. (\<exists>b. arrived data (sbuf s) b \<and> sbuf s' = b\<lparr>xTaskWaitingToReceive := None\<rparr>) \<and> kern s' = kern s
    \<and> ucNotifyState s' c = taskNOTIFICATION_RECEIVED
    \<and> isr_send data s = (if ucNotifyState s c = taskWAITING_NOTIFICATION
         then map_option (\<lambda>(w, x). s'\<lparr>kern := kern x\<rparr>) (notify_wake_from_ISR c s) else Some s')"
proof -
  obtain b where b: "arrived data (sbuf s) b" "isr_send data s = map_option (\<lambda>(_, _, _, s). upd_sbuf (xTaskWaitingToReceive_update (\<lambda>_. None)) s)
      (xTaskGenericNotifyFromISR (Some c) 0 0 eNoAction (s\<lparr>sbuf := b\<rparr>))" by (rule registered_arrives [OF assms])
  let ?s = "set_notified c taskNOTIFICATION_RECEIVED (ulNotifiedValue s c) (s\<lparr>sbuf := b\<rparr>)"
  have "notify_wake_from_ISR c ?s = map_option (\<lambda>(w, x). (w, ?s\<lparr>kern := kern x\<rparr>)) (notify_wake_from_ISR c s)"
    by (rule wake_other_fields) simp_all
  moreover have "sbuf (set_notified c st v x) = sbuf x" for st v x by (simp add: set_notified_def)
  moreover have "sbuf (upd_sbuf (xTaskWaitingToReceive_update (\<lambda>_. None)) ?s) = b\<lparr>xTaskWaitingToReceive := None\<rparr>"
    by simp
  ultimately show ?thesis using b
    by (intro exI [of _ "upd_sbuf (xTaskWaitingToReceive_update (\<lambda>_. None)) ?s"] conjI exI [of _ b]; cases "notify_wake_from_ISR c s")
      (simp_all add: xTaskGenericNotifyFromISR_def upd_sbuf_def option.map_comp o_def split_def Let_def)
qed

interpretation receiving: notifier c "\<lambda>s. ucNotifyState s (current s) \<noteq> taskNOTIFICATION_RECEIVED" "isr_send data" "registered c data" sbuf
    "\<lambda>b b'. \<exists>b1. arrived data b b1 \<and> b' = b1\<lparr>xTaskWaitingToReceive := None\<rparr>" for c data
proof (unfold_locales, goal_cases)
  case (1 s)
  then show ?case using registered_irq [OF 1] by auto
qed (auto simp: registered_def stream_ready_def reader_ready_def)

lemma waiting_fields [simp]:
  "sb_ok (b\<lparr>xTaskWaitingToReceive := r\<rparr>) = sb_ok b" "contents (b\<lparr>xTaskWaitingToReceive := r\<rparr>) = contents b"
  "used (b\<lparr>xTaskWaitingToReceive := r\<rparr>) = used b" "capacity (b\<lparr>xTaskWaitingToReceive := r\<rparr>) = capacity b"
  "is_message_buffer (b\<lparr>xTaskWaitingToReceive := r\<rparr>) = is_message_buffer b"
  "is_batching_buffer (b\<lparr>xTaskWaitingToReceive := r\<rparr>) = is_batching_buffer b"
  "prvBytesInBuffer (b\<lparr>xTaskWaitingToReceive := r\<rparr>) = prvBytesInBuffer b"
  by (simp_all add: sb_ok_def contents_def used_def capacity_def is_message_buffer_def is_batching_buffer_def prvBytesInBuffer_def Let_def)

lemma empty_buffer: "sb_ok b \<Longrightarrow> contents b = [] \<Longrightarrow> prvBytesInBuffer b = 0"
  using bytes_in_buffer [of b] length_contents [of b] by (simp add: unat_eq_zero)

lemma register:
  assumes "stream_ready s" and "xTaskWaitingToReceive (sbuf s) = None" and "\<not> no_current s" and "contents (sbuf s) = []"
    and "runs_task c (kern s)" and "ucNotifyState s c \<noteq> taskWAITING_NOTIFICATION"
    and "data \<noteq> []" and "length data \<le> capacity (sbuf s)" and "unat (xTriggerLevelBytes (sbuf s)) \<le> length data"
  shows "\<exists>s1. sb_receive_section need s = Some (0, s1) \<and> registered c data s1 \<and> kern s1 = kern s
    \<and> ucNotifyState s1 c = taskNOT_WAITING_NOTIFICATION"
proof -
  have ok: "sb_ok (sbuf s)" using assms(1) reader_readyD(2) by (auto simp: stream_ready_def)
  have c: "current s = c" using assms(5) by (simp add: runs_task_def)
  define s0 where "s0 = s\<lparr>ucNotifyState := (ucNotifyState s)(c := taskNOT_WAITING_NOTIFICATION)\<rparr>"
  let ?s1 = "upd_sbuf (xTaskWaitingToReceive_update (\<lambda>_. Some c)) s0"
  obtain r where clr: "xTaskGenericNotifyStateClear None 0 s = Some (r, s0)" using clear_state [OF c assms(3,6)] by (auto simp: s0_def)
  have "xTaskGetCurrentTaskHandle s0 = Some c" using assms(3) c by (simp add: xTaskGetCurrentTaskHandle_def s0_def)
  then have "sb_receive_section need s = Some (0, ?s1)"
    using empty_buffer [OF ok assms(4)] clr assms(1,2) by (simp add: sb_receive_section_def stream_ready_def Let_def) (simp add: s0_def)
  moreover have "registered c data ?s1"
    using assms by (simp add: registered_def stream_ready_def reader_ready_def sb_inv_def s0_def upd_sbuf_def)
  ultimately show ?thesis by (intro exI [of _ ?s1]) (simp add: s0_def upd_sbuf_def)
qed

text \<open>The state in which the call goes on after the wait.\<close>

lemma wait_returns:
  assumes "stream_ready s" and "xTaskWaitingToReceive (sbuf s) = None" and "\<not> no_current s" and "contents (sbuf s) = []"
    and "runs_task c (kern s)" and "ucNotifyState s c \<noteq> taskWAITING_NOTIFICATION"
    and "data \<noteq> []" and "length data \<le> capacity (sbuf s)" and "unat (xTriggerLevelBytes (sbuf s)) \<le> length data"
    and "0 < ticks" and "j \<le> 3" and "j = 3 \<Longrightarrow> xPendedTicks (kern s) = 0"
    and "\<And>x. j = 3 \<Longrightarrow> asleep c x \<Longrightarrow> \<exists>y. earlier x = Some y \<and> asleep c y \<and> sbuf y = sbuf x"
    and "\<And>x. notified c x \<Longrightarrow> (j < 3 \<Longrightarrow> runs_task c (kern x)) \<Longrightarrow> \<exists>y. later x = Some y \<and> runs_task c (kern y) \<and> sbuf y = sbuf x"
  shows "\<exists>s4. stream_ready s4 \<and> xTaskWaitingToReceive (sbuf s4) = None \<and> contents (sbuf s4) = data \<and> runs_task c (kern s4)
    \<and> xStreamBufferReceive dst n ticks (interrupt_at j (isr_send data) earlier later) (\<lambda>_. Some) s =
        (if bytes_needed (sbuf s) < prvBytesInBuffer (sbuf s4) then do {
           (n, dst, s) \<leftarrow> prvReadMessageFromBuffer dst n (prvBytesInBuffer (sbuf s4)) (\<lambda>_. Some) s4;
           s \<leftarrow> (if n \<noteq> 0 then sbRECEIVE_COMPLETED s else Some s);
           Some (n, dst, s)
         } else Some (0, dst, s4))"
proof -
  let ?need = "bytes_needed (sbuf s)"
  obtain s1 where s1: "sb_receive_section ?need s = Some (0, s1)" "registered c data s1" "kern s1 = kern s"
    "ucNotifyState s1 c = taskNOT_WAITING_NOTIFICATION" using register [OF assms(1-9)] by blast
  let ?env = "interrupt_at j (isr_send data) earlier later"
  let ?W = "\<lambda>s. ucNotifyState s (current s) \<noteq> taskNOTIFICATION_RECEIVED"
  have r1: "runs_task c (kern s1)" using assms(5) s1(3) by simp
  have st: "ucNotifyState s1 c \<noteq> taskWAITING_NOTIFICATION" "?W s1" using s1(4) r1 by (simp_all add: runs_task_def)
  have p: "j = 3 \<Longrightarrow> xPendedTicks (kern s1) = 0" using assms(12) s1(3) by simp
  obtain s3 where s3: "notify_block ?W (\<lambda>s. s) ticks ?env s1 = later s3" "notified c s3" "j < 3 \<longrightarrow> runs_task c (kern s3)"
    "\<exists>b1. arrived data (sbuf s1) b1 \<and> sbuf s3 = b1\<lparr>xTaskWaitingToReceive := None\<rparr>"
    using receiving.wait_ends [OF s1(2) r1 st assms(10,11) p assms(13), of later] by blast
  obtain b where b: "arrived data (sbuf s1) b" "sbuf s3 = b\<lparr>xTaskWaitingToReceive := None\<rparr>" using s3(4) by blast
  obtain y where y: "later s3 = Some y" "runs_task c (kern y)" "sbuf y = sbuf s3" using assms(14) [OF s3(2)] s3(3) by blast
  obtain r v w where wf: "wait_finish 0 y = (r, v, w)" by (cases "wait_finish 0 y")
  then have w: "w = snd (snd (wait_finish 0 y))" by simp
  have wk: "sbuf w = sbuf y" "kern w = kern y" unfolding w by (simp_all add: wait_finish_def Let_def)
  let ?s4 = "upd_sbuf (xTaskWaitingToReceive_update (\<lambda>_. None)) w"
  have reg: "stream_ready s1" "contents (sbuf s1) = []" using s1(2) by (simp_all add: registered_def)
  note d = arrivedD [OF b(1)]
  have b4: "sbuf ?s4 = b\<lparr>xTaskWaitingToReceive := None\<rparr>" using wk y(3) b(2) by simp
  have "stream_ready ?s4"
    using reg(1) d b4 by (simp add: stream_ready_def reader_ready_def sb_inv_def)
  moreover have "contents (sbuf ?s4) = data" using b4 d(2) reg(2) by simp
  moreover have "runs_task c (kern ?s4)" using y(2) wk by simp
  moreover have "xTaskGenericNotifyWait 0 0 0 ticks ?env s1 = Some (r, v, w)"
    using s3(1) y(1) wf by (simp add: xTaskGenericNotifyWait_def clear_no_bits)
  moreover have "?env 4 = Some" "uxNotificationIndex (sbuf s1) = 0" using assms(11) reg(1) by (auto simp: interrupt_at_def stream_ready_def)
  moreover have "xTaskWaitingToReceive (sbuf ?s4) = None" by simp
  ultimately show ?thesis using s1(1) assms(10)
    by (intro exI [of _ ?s4]) (simp add: xStreamBufferReceive_def Let_def word_neq_0_conv [symmetric])
qed

text \<open>
  C21: a task that waits at an empty stream buffer is woken by an interrupt that sends at least as
  many bytes as the trigger level, at any point of the wait: before it has announced that
  it waits, while it is still on its ready list, or when it has gone to sleep (\<open>j = 3\<close>); an old notification does not disturb it.
  What runs after the interrupt (\<open>later\<close>) starts with the task made ready, and if it leaves the buffer alone and
  gives the task the processor, the call returns exactly these bytes.
\<close>
theorem blocked_receiver_gets_bytes:
  assumes "stream_ready s" and "xTaskWaitingToReceive (sbuf s) = None" and "\<not> no_current s" and "contents (sbuf s) = []"
    and "runs_task c (kern s)" and "ucNotifyState s c \<noteq> taskWAITING_NOTIFICATION"
    and "data \<noteq> []" and "length data \<le> capacity (sbuf s)" and "unat (xTriggerLevelBytes (sbuf s)) \<le> length data"
    and "0 < ticks" and "j \<le> 3" and "j = 3 \<Longrightarrow> xPendedTicks (kern s) = 0"
    and "\<And>x. j = 3 \<Longrightarrow> asleep c x \<Longrightarrow> \<exists>y. earlier x = Some y \<and> asleep c y \<and> sbuf y = sbuf x"
    and "\<And>x. notified c x \<Longrightarrow> (j < 3 \<Longrightarrow> runs_task c (kern x)) \<Longrightarrow> \<exists>y. later x = Some y \<and> runs_task c (kern y) \<and> sbuf y = sbuf x"
    and "\<not> is_batching_buffer (sbuf s)" and "length data \<le> unat n" and "unat n \<le> length dst"
  shows "\<exists>s'. xStreamBufferReceive dst n ticks (interrupt_at j (isr_send data) earlier later) (\<lambda>_. Some) s
      = Some (of_nat (length data), data @ drop (length data) dst, s')
    \<and> contents (sbuf s') = [] \<and> runs_task c (kern s')"
proof -
  obtain s4 where s4: "stream_ready s4" "contents (sbuf s4) = data" "runs_task c (kern s4)"
    "xStreamBufferReceive dst n ticks (interrupt_at j (isr_send data) earlier later) (\<lambda>_. Some) s =
        (if bytes_needed (sbuf s) < prvBytesInBuffer (sbuf s4) then do {
           (n, dst, s) \<leftarrow> prvReadMessageFromBuffer dst n (prvBytesInBuffer (sbuf s4)) (\<lambda>_. Some) s4;
           s \<leftarrow> (if n \<noteq> 0 then sbRECEIVE_COMPLETED s else Some s);
           Some (n, dst, s)
         } else Some (0, dst, s4))"
    using wait_returns [OF assms(1-14), where dst = dst and n = n] by blast
  have ok: "sb_ok (sbuf s4)" and nm: "\<not> is_message_buffer (sbuf s4)" and ws: "xTaskWaitingToSend (sbuf s4) = None"
    using s4(1) reader_readyD by (auto simp: stream_ready_def)
  have u: "used (sbuf s4) = length data" using s4(2) length_contents [of "sbuf s4"] by simp
  have m: "min (unat n) (used (sbuf s4)) = length data" using u assms(16) by simp
  obtain t where t: "prvReadMessageFromBuffer dst n (prvBytesInBuffer (sbuf s4)) (\<lambda>_. Some) s4
      = Some (of_nat (length data), data @ drop (length data) dst, s4\<lparr>sbuf := (sbuf s4)\<lparr>xTail := t\<rparr>\<rparr>)"
    "unat t = (unat (xTail (sbuf s4)) + length data) mod unat (xLength (sbuf s4))"
    using read_stream [OF ok nm assms(17)] unfolding m s4(2) by auto
  let ?s5 = "s4\<lparr>sbuf := (sbuf s4)\<lparr>xTail := t\<rparr>\<rparr>"
  obtain z k where k: "xTaskResumeAll (vTaskSuspendAll (kern s4)) = Some (z, k)" "runs_task c k" using running_resume [OF s4(3)] by blast
  have rc: "sbRECEIVE_COMPLETED ?s5 = Some (?s5\<lparr>kern := k\<rparr>)" using ws k(1) by (simp add: sbRECEIVE_COMPLETED_def)
  have un: "unat (of_nat (length data) :: u32) = length data"
    by (rule unat_small) (use u sb_okD(1,5,6) [OF ok] in linarith)
  have n0: "(of_nat (length data) :: u32) \<noteq> 0" using un assms(7) unat_eq_zero [of "of_nat (length data) :: u32"] by simp
  have av: "bytes_needed (sbuf s) < prvBytesInBuffer (sbuf s4)"
    using bytes_in_buffer [OF ok] u assms(1,7,15) by (simp add: word_less_nat_alt bytes_needed_def stream_ready_def)
  have "xStreamBufferReceive dst n ticks (interrupt_at j (isr_send data) earlier later) (\<lambda>_. Some) s
      = Some (of_nat (length data), data @ drop (length data) dst, ?s5\<lparr>kern := k\<rparr>)"
    unfolding s4(4) using av t(1) rc n0 by simp
  moreover have "contents (sbuf (?s5\<lparr>kern := k\<rparr>)) = []" using set_tail(2) [OF ok _ t(2)] u s4(2) by simp
  ultimately show ?thesis using k(2) by (intro exI [of _ "?s5\<lparr>kern := k\<rparr>"]) simp
qed

text \<open>
  C22: in a batching buffer a task is woken for nothing. When an interrupt sends exactly as many bytes
  as the trigger level, the waiting task is woken, as by any send that reaches the level, but the
  call returns without a byte before its time is over: it takes bytes only when there are more
  than the trigger level, and it does not wait again.
\<close>
theorem batching_wakes_for_nothing:
  assumes "stream_ready s" and "xTaskWaitingToReceive (sbuf s) = None" and "\<not> no_current s" and "contents (sbuf s) = []"
    and "runs_task c (kern s)" and "ucNotifyState s c \<noteq> taskWAITING_NOTIFICATION"
    and "data \<noteq> []" and "length data \<le> capacity (sbuf s)" and "unat (xTriggerLevelBytes (sbuf s)) = length data"
    and "0 < ticks" and "j \<le> 3" and "j = 3 \<Longrightarrow> xPendedTicks (kern s) = 0"
    and "\<And>x. j = 3 \<Longrightarrow> asleep c x \<Longrightarrow> \<exists>y. earlier x = Some y \<and> asleep c y \<and> sbuf y = sbuf x"
    and "\<And>x. notified c x \<Longrightarrow> (j < 3 \<Longrightarrow> runs_task c (kern x)) \<Longrightarrow> \<exists>y. later x = Some y \<and> runs_task c (kern y) \<and> sbuf y = sbuf x"
    and "is_batching_buffer (sbuf s)"
  shows "\<exists>s'. xStreamBufferReceive dst n ticks (interrupt_at j (isr_send data) earlier later) (\<lambda>_. Some) s = Some (0, dst, s')
    \<and> contents (sbuf s') = data \<and> xTaskWaitingToReceive (sbuf s') = None \<and> runs_task c (kern s')"
proof -
  obtain s4 where s4: "stream_ready s4" "contents (sbuf s4) = data" "runs_task c (kern s4)" "xTaskWaitingToReceive (sbuf s4) = None"
    "xStreamBufferReceive dst n ticks (interrupt_at j (isr_send data) earlier later) (\<lambda>_. Some) s =
        (if bytes_needed (sbuf s) < prvBytesInBuffer (sbuf s4) then do {
           (n, dst, s) \<leftarrow> prvReadMessageFromBuffer dst n (prvBytesInBuffer (sbuf s4)) (\<lambda>_. Some) s4;
           s \<leftarrow> (if n \<noteq> 0 then sbRECEIVE_COMPLETED s else Some s);
           Some (n, dst, s)
         } else Some (0, dst, s4))"
    using wait_returns [OF assms(1-8) _ assms(10-14), where dst = dst and n = n] assms(9) by auto
  have ok: "sb_ok (sbuf s4)" using s4(1) reader_readyD by (auto simp: stream_ready_def)
  have "unat (prvBytesInBuffer (sbuf s4)) = unat (bytes_needed (sbuf s))"
    using bytes_in_buffer [OF ok] s4(2) length_contents [of "sbuf s4"] assms(1,9,15) by (simp add: bytes_needed_def stream_ready_def)
  then have "\<not> bytes_needed (sbuf s) < prvBytesInBuffer (sbuf s4)" by (simp add: word_less_nat_alt)
  then show ?thesis using s4 by (intro exI [of _ s4]) simp
qed

definition sample_stream :: "u8 \<Rightarrow> u32 \<Rightarrow> StreamBuffer_t" where
  "sample_stream flags trigger = \<lparr>xTail = 6, xHead = 6, xLength = 8, xTriggerLevelBytes = trigger, xTaskWaitingToReceive = None,
     xTaskWaitingToSend = None, pucBuffer = 0x20000000, ucFlags = flags, uxNotificationIndex = 0, sb_bytes = replicate 8 0x55\<rparr>"

lemma sample_stream_facts:
  assumes "flags = 0 \<or> flags = 4"
  shows "stream_ready (sample_logged (sample_stream flags t))" and "contents (sample_stream flags t) = []"
    and "capacity (sample_stream flags t) = 7" and "is_batching_buffer (sample_stream flags t) \<longleftrightarrow> flags = 4"
    and "xTaskWaitingToReceive (sample_stream flags t) = None" and "xTriggerLevelBytes (sample_stream flags t) = t"
proof -
  show c: "contents (sample_stream flags t) = []" by (simp add: contents_def used_def sample_stream_def)
  show "stream_ready (sample_logged (sample_stream flags t))"
    using assms c by (auto simp: stream_ready_def reader_ready_def sb_inv_def sb_ok_def sample_stream_def is_message_buffer_def)
  show "is_batching_buffer (sample_stream flags t) \<longleftrightarrow> flags = 4" using assms by (auto simp: is_batching_buffer_def sample_stream_def)
qed (simp_all add: capacity_def sample_stream_def)

lemma sample_wait_buffer:
  "asleep 1 x \<Longrightarrow> \<exists>y. run_task 2 x = Some y \<and> asleep 1 y \<and> sbuf y = sbuf x"
  "notified 1 x \<Longrightarrow> \<exists>y. run_again 1 x = Some y \<and> runs_task 1 (kern y) \<and> sbuf y = sbuf x" for x :: logged_state
  using sample_wait [of x] by auto

lemma blocked_receiver_gets_bytes_witness:
  "\<exists>s'. xStreamBufferReceive [0, 0, 0, 0] 4 10 (interrupt_at 3 (isr_send [7, 8, 9]) (run_task 2) (run_again 1)) (\<lambda>_. Some)
      (sample_logged (sample_stream 0 2)) = Some (3, [7, 8, 9, 0], s')"
  using blocked_receiver_gets_bytes [of "sample_logged (sample_stream 0 2)" 1 "[7, 8, 9]" 10 3 "run_task 2" "run_again 1" 4 "[0, 0, 0, 0]"]
    sample_stream_facts [of 0 2] sample_running sample_wait_buffer sample_no_pended by auto

lemma batching_wakes_for_nothing_witness:
  "\<exists>s'. xStreamBufferReceive [0, 0, 0, 0] 4 10 (interrupt_at 3 (isr_send [7, 8, 9]) (run_task 2) (run_again 1)) (\<lambda>_. Some)
      (sample_logged (sample_stream 4 3)) = Some (0, [0, 0, 0, 0], s') \<and> contents (sbuf s') = [7, 8, 9]"
  using batching_wakes_for_nothing [of "sample_logged (sample_stream 4 3)" 1 "[7, 8, 9]" 10 3 "run_task 2" "run_again 1" "[0, 0, 0, 0]" 4]
    sample_stream_facts [of 4 3] sample_running sample_wait_buffer sample_no_pended by auto

end
