(* ===== verification/Rtos_Queue_More.thy ===== *)
theory Rtos_Queue_More
  imports Rtos_Queue_Wait Rtos_Life
begin

text \<open>
  The rest of \<open>queue.c\<close>: queues in static memory, deletion, the queries, and the wait the timer
  task uses, which is entered with the scheduler suspended. A waiting timer task misses no
  message of an interrupt.
\<close>

section \<open>Static memory and deletion\<close>

text \<open>
  The fields of \<open>Queue_t\<close> that only matter for its memory: its address, that of its storage
  area (\<open>pcHead\<close>) and \<open>ucStaticallyAllocated\<close>.
\<close>

record queue_memory =
  queue_address :: nat
  pcHead :: nat
  queue_is_static :: bool

definition xQueueGenericGetStaticBuffers :: "queue_memory \<Rightarrow> (nat \<times> nat) option" where
  "xQueueGenericGetStaticBuffers m = (if queue_is_static m then Some (pcHead m, queue_address m) else None)"

definition vQueueDelete :: "nat \<Rightarrow> queue_memory \<Rightarrow> 'a task_state_scheme \<Rightarrow> 'a task_state_scheme option" where
  "vQueueDelete ucHeap m s = (if \<not> queue_is_static m then task_free ucHeap (queue_address m) s else Some s)"

definition xQueueCreateMutexStatic :: "list_id \<Rightarrow> list_id \<Rightarrow> kernel \<Rightarrow> (Queue_t \<times> kernel) option" where
  "xQueueCreateMutexStatic snd_list rcv_list k = do {
     (q, k) \<leftarrow> xQueueGenericCreateStatic 1 0 None snd_list rcv_list k;
     prvInitialiseMutex q k
   }"

definition xQueueCreateCountingSemaphoreStatic :: "u32 \<Rightarrow> u32 \<Rightarrow> list_id \<Rightarrow> list_id \<Rightarrow> kernel \<Rightarrow> (Queue_t \<times> kernel) option" where
  "xQueueCreateCountingSemaphoreStatic uxMaxCount uxInitialCount snd_list rcv_list k =
     (if uxMaxCount \<noteq> 0 \<and> uxInitialCount \<le> uxMaxCount then do {
        (q, k) \<leftarrow> xQueueGenericCreateStatic uxMaxCount 0 None snd_list rcv_list k;
        Some (q\<lparr>uxMessagesWaiting := uxInitialCount\<rparr>, k)
      } else None)"

section \<open>Queries\<close>

definition xQueueGetMutexHolderFromISR :: "Queue_t \<Rightarrow> nat option option" where
  "xQueueGetMutexHolderFromISR q =
     (if queueQUEUE_IS_MUTEX q then (case u_data q of XSemaphore holder _ \<Rightarrow> Some holder | XQueue _ _ \<Rightarrow> None)
      else Some None)"

definition uxQueueMessagesWaitingFromISR :: "Queue_t \<Rightarrow> u32" where
  "uxQueueMessagesWaitingFromISR q = uxMessagesWaiting q"

definition uxQueueGetQueueItemSize :: "Queue_t \<Rightarrow> u32" where
  "uxQueueGetQueueItemSize q = uxItemSize q"

definition uxQueueGetQueueLength :: "Queue_t \<Rightarrow> u32" where
  "uxQueueGetQueueLength q = uxLength q"

definition xQueueIsQueueEmptyFromISR :: "Queue_t \<Rightarrow> bool" where
  "xQueueIsQueueEmptyFromISR q \<longleftrightarrow> uxMessagesWaiting q = 0"

definition xQueueIsQueueFullFromISR :: "Queue_t \<Rightarrow> bool" where
  "xQueueIsQueueFullFromISR q \<longleftrightarrow> uxMessagesWaiting q = uxLength q"

section \<open>The wait of the timer task\<close>

definition vTaskPlaceOnEventListRestricted :: "list_id \<Rightarrow> tick \<Rightarrow> bool \<Rightarrow> kernel \<Rightarrow> kernel option" where
  "vTaskPlaceOnEventListRestricted l ticks xWaitIndefinitely k =
     (let k = list_insert_end l (EventItem (pxCurrentTCB k)) k
      in prvAddCurrentTaskToDelayedList (if xWaitIndefinitely then portMAX_DELAY else ticks) xWaitIndefinitely k)"

text \<open>\<open>env n\<close> are the interrupts at the \<open>n\<close>-th point, as in \<open>wait_section\<close>.\<close>

definition vQueueWaitForMessageRestricted ::
  "(nat \<Rightarrow> isr_op list) \<Rightarrow> tick \<Rightarrow> bool \<Rightarrow> Queue_t \<Rightarrow> kernel \<Rightarrow> (Queue_t \<times> kernel) option" where
  "vQueueWaitForMessageRestricted env ticks xWaitIndefinitely q k = do {
     let q = prvLockQueue q;
     (q, k) \<leftarrow> isr_execs (env 2) q k;
     (q, k) \<leftarrow> (if uxMessagesWaiting q = 0 then do {
         (q, k) \<leftarrow> isr_execs (env 4) q k;
         k \<leftarrow> vTaskPlaceOnEventListRestricted (xTasksWaitingToReceive q) ticks xWaitIndefinitely k;
         Some (q, k)
       } else Some (q, k));
     (q, k) \<leftarrow> isr_execs (env 6) q k;
     (q, k) \<leftarrow> unlock_tx q k;
     (q, k) \<leftarrow> isr_execs (env 7) q k;
     unlock_rx q k
   }"

text \<open>What is left of a pass of the timer task: it resumes the scheduler.\<close>

definition restricted_wait ::
  "(nat \<Rightarrow> isr_op list) \<Rightarrow> tick \<Rightarrow> bool \<Rightarrow> Queue_t \<Rightarrow> kernel \<Rightarrow> (bool \<times> Queue_t \<times> kernel) option" where
  "restricted_wait env ticks xWaitIndefinitely q k = do {
     (q, k) \<leftarrow> vQueueWaitForMessageRestricted env ticks xWaitIndefinitely q k;
     (q, k) \<leftarrow> isr_execs (env 8) q k;
     (yielded, k) \<leftarrow> xTaskResumeAll k;
     Some (yielded, q, k)
   }"

lemma about_to_block_place_end:
  assumes "about_to_block T k" and "container k (EventItem (pxCurrentTCB k)) = None"
  shows "about_to_block T (list_insert_end (EventList e) (EventItem (pxCurrentTCB k)) k)" (is "about_to_block T ?k")
proof -
  have ok: "kernel_ok k" and dl: "delays_ok k" using assms(1) by (auto simp: about_to_block_def)
  have "kernel_ok ?k"
    by (rule kernel_ok_attach [OF ok assms(2), where l = "EventList e"]) simp_all
  moreover have "delays_ok ?k"
    using dl delayed_list_kinds [OF ok, of "pxDelayedTaskList k"] delayed_list_kinds [OF ok, of "pxOverflowDelayedTaskList k"]
    by (auto simp: delays_ok_def by_value_def list_insert_end_def)
  ultimately show ?thesis using assms(1) by (auto simp: about_to_block_def list_insert_end_def)
qed

lemma place_restricted_effect:
  assumes "time_ok T k" and "container k (StateItem (pxCurrentTCB k)) = Some (ReadyList p)"
    and "container k (EventItem (pxCurrentTCB k)) = None" and "0 < ticks \<or> forever"
  shows "\<exists>k'. vTaskPlaceOnEventListRestricted (EventList e) ticks forever k = Some k'
    \<and> blocked_until T (if forever then None else Some (unat ticks))
         (list_insert_end (EventList e) (EventItem (pxCurrentTCB k)) k) k'"
proof -
  have "0 < (if forever then portMAX_DELAY else ticks)" using assms(4) by (auto simp: word_gt_0)
  from add_to_delayed_list [OF about_to_block_place_end [OF time_ok_about_to_block [OF assms(1,2)] assms(3)] this,
    of forever e]
  show ?thesis by (cases forever) (simp_all add: vTaskPlaceOnEventListRestricted_def)
qed

lemma place_restricted_keeps:
  assumes "system_ok c e f T q k" and "running c k" and "0 < ticks \<or> forever" and "entries k (EventList e) = []" and "counted q"
  shows "\<exists>k'. vTaskPlaceOnEventListRestricted (EventList e) ticks forever k = Some k' \<and> system_ok c e f T q k' \<and> no_lost c e q k'
    \<and> uxSchedulerSuspended k' = uxSchedulerSuspended k"
proof -
  note sys = assms(1) [unfolded system_ok_def]
  have t: "time_ok T k" and cur: "pxCurrentTCB k = c" using sys by simp_all
  obtain p where r: "container k (StateItem (pxCurrentTCB k)) = Some (ReadyList p)" "container k (EventItem (pxCurrentTCB k)) = None"
    using assms(2) cur by (auto simp: running_def)
  let ?k = "list_insert_end (EventList e) (EventItem (pxCurrentTCB k)) k"
  obtain k1 where k1: "vTaskPlaceOnEventListRestricted (EventList e) ticks forever k = Some k1"
    "blocked_until T (if forever then None else Some (unat ticks)) ?k k1"
    using place_restricted_effect [OF t r assms(3)] by blast
  have b: "time_ok T k1" "uxSchedulerSuspended k1 = uxSchedulerSuspended k" "pxCurrentTCB k1 = pxCurrentTCB k"
    "uxCurrentNumberOfTasks k1 = uxCurrentNumberOfTasks k" "entries k1 (EventList e) = entries ?k (EventList e)"
    using k1(2) by (auto simp: blocked_until_def list_insert_end_def)
  have "entries k1 (EventList e) = [EventItem c]"
    using b(5) assms(4) cur by (simp add: list_insert_end_def xl_insert_end_def)
  then have "no_lost c e q k1" using assms(5) by (simp add: no_lost_def)
  moreover have "system_ok c e f T q k1" using sys b by (simp add: system_ok_def lock_ok_def)
  ultimately show ?thesis using k1(1) b(2) by blast
qed

lemma restricted_wait_shared:
  assumes "shared c e f env q k" and "unlocked q" and "uxSchedulerSuspended k = 1" and "running c k"
    and "0 < ticks \<or> forever"
  shows "\<exists>y q' k'. restricted_wait env ticks forever q k = Some (y, q', k') \<and> shared c e f env q' k' \<and> unlocked q'
    \<and> uxSchedulerSuspended k' = 0"
proof -
  let ?q = "prvLockQueue q"
  have tx: "cTxLock q = - 1" using assms(2) by (simp add: unlocked_def)
  have s0: "shared c e f env ?q k" by (rule lock_shared [OF assms(1) tx])
  obtain T0 where "system_ok c e f T0 q k" using assms(1) by (auto simp: shared_def)
  note l = lock_keeps [OF this]
  obtain q1 k1 where 1: "isr_execs (env 2) ?q k = Some (q1, k1)" "shared c e f env q1 k1" "step_keeps c e ?q k q1 k1"
    using shared_step [OF s0] by blast
  have u1: "cTxLock q1 \<noteq> - 1" "uxSchedulerSuspended k1 = 1" "running c k1"
    using 1(3) l(2) assms(3) running_step [OF 1(3) assms(4)] by (simp_all add: step_keeps_def)
  have "\<exists>q3 k3. (if uxMessagesWaiting q1 = 0 then do {
         (q, k) \<leftarrow> isr_execs (env 4) q1 k1;
         k \<leftarrow> vTaskPlaceOnEventListRestricted (xTasksWaitingToReceive q) ticks forever k;
         Some (q, k)
       } else Some (q1, k1)) = Some (q3, k3) \<and> shared c e f env q3 k3 \<and> cTxLock q3 \<noteq> - 1 \<and> uxSchedulerSuspended k3 = 1"
  proof (cases "uxMessagesWaiting q1 = 0")
    case True
    obtain q2 k2 where 2: "isr_execs (env 4) q1 k1 = Some (q2, k2)" "shared c e f env q2 k2" "step_keeps c e q1 k1 q2 k2"
      using shared_step [OF 1(2)] by blast
    have r: "running c k2" by (rule running_step [OF 2(3) u1(3)])
    have cnt: "counted q2" using True 2(3) u1(1) by (simp add: step_keeps_def counted_def)
    obtain T where T: "system_ok c e f T q2 k2" using 2(2) by (auto simp: shared_def)
    from place_restricted_keeps [OF T r assms(5) shared_not_waiting [OF 2(2) r] cnt] obtain k3 where
      3: "vTaskPlaceOnEventListRestricted (EventList e) ticks forever k2 = Some k3" "system_ok c e f T q2 k3"
      "no_lost c e q2 k3" "uxSchedulerSuspended k3 = uxSchedulerSuspended k2" by blast
    have "shared c e f env q2 k3" using 2(2) 3(2,3) by (auto simp: shared_def)
    moreover have "xTasksWaitingToReceive q2 = EventList e" using T by (simp add: system_ok_def)
    ultimately show ?thesis using True 2(1,3) 3(1,4) u1 by (simp add: step_keeps_def)
  next
    case False
    then show ?thesis using 1(2) u1 by simp
  qed
  then obtain q3 k3 where 3: "(if uxMessagesWaiting q1 = 0 then do {
         (q, k) \<leftarrow> isr_execs (env 4) q1 k1;
         k \<leftarrow> vTaskPlaceOnEventListRestricted (xTasksWaitingToReceive q) ticks forever k;
         Some (q, k)
       } else Some (q1, k1)) = Some (q3, k3)" "shared c e f env q3 k3" "cTxLock q3 \<noteq> - 1" "uxSchedulerSuspended k3 = 1" by blast
  from end_of_pass [OF 3(2-4)] obtain q4 k4 q5 k5 q6 k6 q7 k7 q8 k8 y k9 where
    4: "isr_execs (env 6) q3 k3 = Some (q4, k4)" "unlock_tx q4 k4 = Some (q5, k5)"
    "isr_execs (env 7) q5 k5 = Some (q6, k6)" "unlock_rx q6 k6 = Some (q7, k7)"
    "isr_execs (env 8) q7 k7 = Some (q8, k8)" "xTaskResumeAll k8 = Some (y, k9)"
    "shared c e f env q8 k9" "unlocked q8" "uxSchedulerSuspended k9 = 0" by blast
  have "vQueueWaitForMessageRestricted env ticks forever q k = Some (q7, k7)"
    unfolding vQueueWaitForMessageRestricted_def Let_def 1(1) bind.bind_lunit prod.case 3(1) 4(1,2,3,4) ..
  then have "restricted_wait env ticks forever q k = Some (y, q8, k9)"
    unfolding restricted_wait_def by (simp add: 4(5,6))
  then show ?thesis using 4(7-9) by blast
qed

end
