(* ===== verification/Rtos_Timer.thy ===== *)
theory Rtos_Timer
  imports Rtos_Queue_More
begin

text \<open>
  The software timers of \<open>FreeRTOS-Kernel-main/timers.c\<close>: the timer (daemon) task with its two
  lists of active timers, the commands it receives through its queue, and the functions of the
  interface. A timer is named by its address. Ticks are 64 bits wide, and the lists swap their
  roles when the tick count overflows.

  A callback is application code. \<open>cb f t\<close> is what a call of the function at address \<open>f\<close> with
  timer \<open>t\<close> does to the state, interrupts during the call included; \<open>None\<close> is a fault.
\<close>

section \<open>State\<close>

record Timer_t =
  pcTimerName :: u32
  xTimerPeriodInTicks :: tick
  pvTimerID :: u32
  pxCallbackFunction :: u32
  ucStatus :: u8

datatype timer_list = xActiveTimerList1 | xActiveTimerList2

text \<open>
  The list item of a timer: the list that contains it and its value, the time it expires. The
  owner of an item is its timer.
\<close>

record timer_state = task_state +
  timers :: "nat \<Rightarrow> Timer_t"
  timer_lists :: "timer_list \<Rightarrow> nat xlist"
  timer_container :: "nat \<Rightarrow> timer_list option"
  timer_value :: "nat \<Rightarrow> tick"
  pxCurrentTimerList :: timer_list
  pxOverflowTimerList :: timer_list
  xTimerQueue :: "Queue_t option"
  xTimerTaskHandle :: "nat option"
  xLastTime :: tick

type_synonym 'a callbacks = "u32 \<Rightarrow> nat \<Rightarrow> 'a timer_state_scheme \<Rightarrow> 'a timer_state_scheme option"

abbreviation (input) tmrSTATUS_IS_ACTIVE :: u8 where "tmrSTATUS_IS_ACTIVE \<equiv> 1"
abbreviation (input) tmrSTATUS_IS_STATICALLY_ALLOCATED :: u8 where "tmrSTATUS_IS_STATICALLY_ALLOCATED \<equiv> 2"
abbreviation (input) tmrSTATUS_IS_AUTORELOAD :: u8 where "tmrSTATUS_IS_AUTORELOAD \<equiv> 4"
abbreviation (input) tmrMAX_TIME_BEFORE_OVERFLOW :: tick where "tmrMAX_TIME_BEFORE_OVERFLOW \<equiv> - 1"

definition upd_timer :: "nat \<Rightarrow> (Timer_t \<Rightarrow> Timer_t) \<Rightarrow> 'a timer_state_scheme \<Rightarrow> 'a timer_state_scheme" where
  "upd_timer t f s = s\<lparr>timers := (timers s)(t := f (timers s t))\<rparr>"

definition is_autoreload :: "Timer_t \<Rightarrow> bool" where
  "is_autoreload x \<longleftrightarrow> ucStatus x AND tmrSTATUS_IS_AUTORELOAD \<noteq> 0"

definition set_status :: "u8 \<Rightarrow> Timer_t \<Rightarrow> Timer_t" where
  "set_status b x = x\<lparr>ucStatus := ucStatus x OR b\<rparr>"

definition clear_status :: "u8 \<Rightarrow> Timer_t \<Rightarrow> Timer_t" where
  "clear_status b x = x\<lparr>ucStatus := ucStatus x AND NOT b\<rparr>"

section \<open>The lists of active timers\<close>

definition timer_entries :: "'a timer_state_scheme \<Rightarrow> timer_list \<Rightarrow> nat list" where
  "timer_entries s l = xl_items (timer_lists s l)"

definition timer_remove :: "nat \<Rightarrow> 'a timer_state_scheme \<Rightarrow> 'a timer_state_scheme option" where
  "timer_remove t s = do {
     l \<leftarrow> timer_container s t;
     Some (s\<lparr>timer_lists := (timer_lists s)(l := xl_remove t (timer_lists s l)), timer_container := (timer_container s)(t := None)\<rparr>)
   }"

definition timer_insert :: "timer_list \<Rightarrow> nat \<Rightarrow> 'a timer_state_scheme \<Rightarrow> 'a timer_state_scheme" where
  "timer_insert l t s =
     s\<lparr>timer_lists := (timer_lists s)(l := xl_insert (timer_value s) t (timer_lists s l)), timer_container := (timer_container s)(t \<mapsto> l)\<rparr>"

text \<open>The owner of the head entry; the marker of an empty list has none.\<close>

definition timer_head :: "timer_list \<Rightarrow> 'a timer_state_scheme \<Rightarrow> nat option" where
  "timer_head l s = (case timer_entries s l of [] \<Rightarrow> None | t # _ \<Rightarrow> Some t)"

text \<open>The result is whether the timer expired already.\<close>

definition prvInsertTimerInActiveList :: "nat \<Rightarrow> tick \<Rightarrow> tick \<Rightarrow> tick \<Rightarrow> 'a timer_state_scheme \<Rightarrow> bool \<times> 'a timer_state_scheme" where
  "prvInsertTimerInActiveList t xNextExpiryTime xTimeNow xCommandTime s =
     (let s = s\<lparr>timer_value := (timer_value s)(t := xNextExpiryTime)\<rparr>
      in if xNextExpiryTime \<le> xTimeNow then
           if xTimeNow - xCommandTime \<ge> xTimerPeriodInTicks (timers s t) then (True, s)
           else (False, timer_insert (pxOverflowTimerList s) t s)
         else if xTimeNow < xCommandTime \<and> xNextExpiryTime \<ge> xCommandTime then (True, s)
         else (False, timer_insert (pxCurrentTimerList s) t s))"

section \<open>Expiry\<close>

definition run_callback :: "'a callbacks \<Rightarrow> nat \<Rightarrow> 'a timer_state_scheme \<Rightarrow> 'a timer_state_scheme option" where
  "run_callback cb t s = cb (pxCallbackFunction (timers s t)) t s"

text \<open>The loop over the periods that passed.\<close>

partial_function (option) prvReloadTimer ::
  "'a callbacks \<Rightarrow> nat \<Rightarrow> tick \<Rightarrow> tick \<Rightarrow> 'a timer_state_scheme \<Rightarrow> 'a timer_state_scheme option" where
  "prvReloadTimer cb t xExpiredTime xTimeNow s =
     (let (passed, s) = prvInsertTimerInActiveList t (xExpiredTime + xTimerPeriodInTicks (timers s t)) xTimeNow xExpiredTime s
      in if passed then do {
           let xExpiredTime = xExpiredTime + xTimerPeriodInTicks (timers s t);
           s \<leftarrow> run_callback cb t s;
           prvReloadTimer cb t xExpiredTime xTimeNow s
         } else Some s)"

definition prvProcessExpiredTimer :: "'a callbacks \<Rightarrow> tick \<Rightarrow> tick \<Rightarrow> 'a timer_state_scheme \<Rightarrow> 'a timer_state_scheme option" where
  "prvProcessExpiredTimer cb xNextExpireTime xTimeNow s = do {
     t \<leftarrow> timer_head (pxCurrentTimerList s) s;
     s \<leftarrow> timer_remove t s;
     s \<leftarrow> (if is_autoreload (timers s t) then prvReloadTimer cb t xNextExpireTime xTimeNow s
           else Some (upd_timer t (clear_status tmrSTATUS_IS_ACTIVE) s));
     run_callback cb t s
   }"

text \<open>The loop of \<open>prvSwitchTimerLists\<close>, which processes all timers of the list that is over.\<close>

partial_function (option) expire_all :: "'a callbacks \<Rightarrow> 'a timer_state_scheme \<Rightarrow> 'a timer_state_scheme option" where
  "expire_all cb s =
     (case timer_head (pxCurrentTimerList s) s of
        None \<Rightarrow> Some s
      | Some t \<Rightarrow> do {
          s \<leftarrow> prvProcessExpiredTimer cb (timer_value s t) tmrMAX_TIME_BEFORE_OVERFLOW s;
          expire_all cb s
        })"

definition prvSwitchTimerLists :: "'a callbacks \<Rightarrow> 'a timer_state_scheme \<Rightarrow> 'a timer_state_scheme option" where
  "prvSwitchTimerLists cb s = do {
     s \<leftarrow> expire_all cb s;
     Some (s\<lparr>pxCurrentTimerList := pxOverflowTimerList s, pxOverflowTimerList := pxCurrentTimerList s\<rparr>)
   }"

text \<open>The time, and whether the lists were switched.\<close>

definition prvSampleTimeNow :: "'a callbacks \<Rightarrow> 'a timer_state_scheme \<Rightarrow> (tick \<times> bool \<times> 'a timer_state_scheme) option" where
  "prvSampleTimeNow cb s =
     (let xTimeNow = xTaskGetTickCount (kern s)
      in if xTimeNow < xLastTime s then do {
           s \<leftarrow> prvSwitchTimerLists cb s;
           Some (xTimeNow, True, s\<lparr>xLastTime := xTimeNow\<rparr>)
         } else Some (xTimeNow, False, s\<lparr>xLastTime := xTimeNow\<rparr>))"

text \<open>The time of the next expiry, and whether the list was empty.\<close>

definition prvGetNextExpireTime :: "'a timer_state_scheme \<Rightarrow> tick \<times> bool" where
  "prvGetNextExpireTime s =
     (case timer_head (pxCurrentTimerList s) s of None \<Rightarrow> (0, True) | Some t \<Rightarrow> (timer_value s t, False))"

section \<open>The daemon waits or processes a timer\<close>

text \<open>The interrupts \<open>is\<close>, which may send to the queue of the timers.\<close>

definition timer_isrs :: "isr_op list \<Rightarrow> 'a timer_state_scheme \<Rightarrow> 'a timer_state_scheme option" where
  "timer_isrs is s = do {
     q \<leftarrow> xTimerQueue s;
     (q, k) \<leftarrow> isr_execs is q (kern s);
     Some (s\<lparr>xTimerQueue := Some q, kern := k\<rparr>)
   }"

definition timer_resume :: "'a timer_state_scheme \<Rightarrow> (bool \<times> 'a timer_state_scheme) option" where
  "timer_resume s = map_option (\<lambda>(yielded, k). (yielded, s\<lparr>kern := k\<rparr>)) (xTaskResumeAll (kern s))"

definition prvProcessTimerOrBlockTask ::
  "'a callbacks \<Rightarrow> (nat \<Rightarrow> isr_op list) \<Rightarrow> tick \<Rightarrow> bool \<Rightarrow> 'a timer_state_scheme \<Rightarrow> 'a timer_state_scheme option" where
  "prvProcessTimerOrBlockTask cb env xNextExpireTime xListWasEmpty s = do {
     let s = s\<lparr>kern := vTaskSuspendAll (kern s)\<rparr>;
     s \<leftarrow> timer_isrs (env 0) s;
     (xTimeNow, switched, s) \<leftarrow> prvSampleTimeNow cb s;
     s \<leftarrow> timer_isrs (env 1) s;
     if \<not> switched then
       if \<not> xListWasEmpty \<and> xNextExpireTime \<le> xTimeNow then do {
         (_, s) \<leftarrow> timer_resume s;
         prvProcessExpiredTimer cb xNextExpireTime xTimeNow s
       } else do {
         let xListWasEmpty = (if xListWasEmpty then timer_entries s (pxOverflowTimerList s) = [] else xListWasEmpty);
         q \<leftarrow> xTimerQueue s;
         (yielded, q, k) \<leftarrow> restricted_wait env (xNextExpireTime - xTimeNow) xListWasEmpty q (kern s);
         Some (s\<lparr>xTimerQueue := Some q, kern := if \<not> yielded then portYIELD k else k\<rparr>)
       }
     else do {
       (_, s) \<leftarrow> timer_resume s;
       Some s
     }
   }"

section \<open>Commands\<close>

text \<open>A \<open>DaemonTaskMessage_t\<close> takes 24 bytes; \<open>pad\<close> are those the compiler leaves unused.\<close>

record DaemonTaskMessage_t =
  xMessageID :: u32
  xMessageValue :: tick
  pxTimer :: u32

definition le_bytes :: "'a::len word \<Rightarrow> u8 list" where
  "le_bytes w = map (\<lambda>i. ucast (drop_bit (8 * i) w)) [0..<LENGTH('a) div 8]"

definition le_word :: "u8 list \<Rightarrow> 'a::len word" where
  "le_word bs = foldr (\<lambda>b w. push_bit 8 w OR ucast b) bs 0"

definition message_bytes :: "u8 list \<Rightarrow> DaemonTaskMessage_t \<Rightarrow> u8 list" where
  "message_bytes pad m = le_bytes (xMessageID m) @ take 4 pad @ le_bytes (xMessageValue m) @ le_bytes (pxTimer m) @ drop 4 pad"

definition bytes_message :: "u8 list \<Rightarrow> DaemonTaskMessage_t" where
  "bytes_message bs = \<lparr>xMessageID = le_word (take 4 bs), xMessageValue = le_word (take 8 (drop 8 bs)), pxTimer = le_word (take 4 (drop 16 bs))\<rparr>"

abbreviation (input) tmrFIRST_FROM_ISR_COMMAND :: u32 where "tmrFIRST_FROM_ISR_COMMAND \<equiv> 6"

datatype timer_command = tmrCOMMAND_START_DONT_TRACE | tmrCOMMAND_START | tmrCOMMAND_RESET | tmrCOMMAND_STOP
  | tmrCOMMAND_CHANGE_PERIOD | tmrCOMMAND_DELETE | tmrCOMMAND_START_FROM_ISR | tmrCOMMAND_RESET_FROM_ISR
  | tmrCOMMAND_STOP_FROM_ISR | tmrCOMMAND_CHANGE_PERIOD_FROM_ISR

fun command_id :: "timer_command \<Rightarrow> u32" where
  "command_id tmrCOMMAND_START_DONT_TRACE = 0"
| "command_id tmrCOMMAND_START = 1"
| "command_id tmrCOMMAND_RESET = 2"
| "command_id tmrCOMMAND_STOP = 3"
| "command_id tmrCOMMAND_CHANGE_PERIOD = 4"
| "command_id tmrCOMMAND_DELETE = 5"
| "command_id tmrCOMMAND_START_FROM_ISR = 6"
| "command_id tmrCOMMAND_RESET_FROM_ISR = 7"
| "command_id tmrCOMMAND_STOP_FROM_ISR = 8"
| "command_id tmrCOMMAND_CHANGE_PERIOD_FROM_ISR = 9"

text \<open>
  The cases of the switch on the message, for timer \<open>t\<close> at time \<open>now\<close>. A period of 0 fails the
  assertion after the assignment.
\<close>

definition start_timer :: "'a callbacks \<Rightarrow> nat \<Rightarrow> tick \<Rightarrow> tick \<Rightarrow> 'a timer_state_scheme \<Rightarrow> 'a timer_state_scheme option" where
  "start_timer cb t xValue xTimeNow s =
     (let s = upd_timer t (set_status tmrSTATUS_IS_ACTIVE) s;
          next = xValue + xTimerPeriodInTicks (timers s t);
          (passed, s) = prvInsertTimerInActiveList t next xTimeNow xValue s
      in if passed then do {
           s \<leftarrow> (if is_autoreload (timers s t)
                 then prvReloadTimer cb t (xValue + xTimerPeriodInTicks (timers s t)) xTimeNow s
                 else Some (upd_timer t (clear_status tmrSTATUS_IS_ACTIVE) s));
           run_callback cb t s
         } else Some s)"

definition stop_timer :: "nat \<Rightarrow> 'a timer_state_scheme \<Rightarrow> 'a timer_state_scheme" where
  "stop_timer t s = upd_timer t (clear_status tmrSTATUS_IS_ACTIVE) s"

definition change_timer_period :: "nat \<Rightarrow> tick \<Rightarrow> tick \<Rightarrow> 'a timer_state_scheme \<Rightarrow> 'a timer_state_scheme option" where
  "change_timer_period t xValue xTimeNow s =
     (let s = upd_timer t (set_status tmrSTATUS_IS_ACTIVE) s;
          s = upd_timer t (\<lambda>x. x\<lparr>xTimerPeriodInTicks := xValue\<rparr>) s
      in if xTimerPeriodInTicks (timers s t) > 0
         then Some (snd (prvInsertTimerInActiveList t (xTimeNow + xTimerPeriodInTicks (timers s t)) xTimeNow xTimeNow s))
         else None)"

definition delete_timer :: "nat \<Rightarrow> nat \<Rightarrow> 'a timer_state_scheme \<Rightarrow> 'a timer_state_scheme option" where
  "delete_timer ucHeap t s =
     (if ucStatus (timers s t) AND tmrSTATUS_IS_STATICALLY_ALLOCATED = 0 then task_free ucHeap t s
      else Some (upd_timer t (clear_status tmrSTATUS_IS_ACTIVE) s))"

text \<open>One message; negative ones are not used in this configuration.\<close>

definition process_command :: "'a callbacks \<Rightarrow> nat \<Rightarrow> DaemonTaskMessage_t \<Rightarrow> 'a timer_state_scheme \<Rightarrow> 'a timer_state_scheme option" where
  "process_command cb ucHeap m s =
     (let id = xMessageID m; t = unat (pxTimer m)
      in if 0 \<le> sint id \<and> t \<noteq> NULL then do {
           s \<leftarrow> (if timer_container s t \<noteq> None then timer_remove t s else Some s);
           (xTimeNow, _, s) \<leftarrow> prvSampleTimeNow cb s;
           if id = 1 \<or> id = 6 \<or> id = 2 \<or> id = 7 then start_timer cb t (xMessageValue m) xTimeNow s
           else if id = 3 \<or> id = 8 then Some (stop_timer t s)
           else if id = 4 \<or> id = 9 then change_timer_period t (xMessageValue m) xTimeNow s
           else if id = 5 then delete_timer ucHeap t s
           else Some s
         } else Some s)"

text \<open>The loop that empties the queue; \<open>env n\<close> are the interrupts around the \<open>n\<close>-th receive.\<close>

partial_function (option) prvProcessReceivedCommands ::
  "'a callbacks \<Rightarrow> nat \<Rightarrow> (nat \<Rightarrow> isr_op list) \<Rightarrow> nat \<Rightarrow> 'a timer_state_scheme \<Rightarrow> 'a timer_state_scheme option" where
  "prvProcessReceivedCommands cb ucHeap env n s = do {
     s \<leftarrow> timer_isrs (env (2 * n)) s;
     q \<leftarrow> xTimerQueue s;
     (r, q, k) \<leftarrow> receive_section q (kern s);
     let s = s\<lparr>xTimerQueue := Some q, kern := k\<rparr>;
     case r of
       None \<Rightarrow> Some s
     | Some bs \<Rightarrow> do {
         s \<leftarrow> timer_isrs (env (2 * n + 1)) s;
         s \<leftarrow> process_command cb ucHeap (bytes_message bs) s;
         prvProcessReceivedCommands cb ucHeap env (Suc n) s
       }
   }"

end
