(* ===== verification/Rtos_Timer_Api.thy ===== *)
theory Rtos_Timer_Api
  imports Rtos_Timer
begin

text \<open>
  The interface of the software timers: creation, the commands sent to the timer task, queries;
  and the start and end of the scheduler, which create and delete the idle and timer tasks.
\<close>

section \<open>Creation\<close>

abbreviation (input) configTIMER_QUEUE_LENGTH :: u32 where "configTIMER_QUEUE_LENGTH \<equiv> 10"
abbreviation (input) sizeof_DaemonTaskMessage :: u32 where "sizeof_DaemonTaskMessage \<equiv> 24"
abbreviation (input) sizeof_Timer :: u32 where "sizeof_Timer \<equiv> 56"

text \<open>The two event lists of the static queue are \<open>snd_list\<close> and \<open>rcv_list\<close>.\<close>

definition prvCheckForValidListAndQueue :: "list_id \<Rightarrow> list_id \<Rightarrow> 'a timer_state_scheme \<Rightarrow> 'a timer_state_scheme option" where
  "prvCheckForValidListAndQueue snd_list rcv_list s =
     (if xTimerQueue s = None then do {
        let s = s\<lparr>timer_lists := (\<lambda>_. xl_empty), pxCurrentTimerList := xActiveTimerList1, pxOverflowTimerList := xActiveTimerList2\<rparr>;
        (q, k) \<leftarrow> xQueueGenericCreateStatic configTIMER_QUEUE_LENGTH sizeof_DaemonTaskMessage
          (Some (replicate (unat (configTIMER_QUEUE_LENGTH * sizeof_DaemonTaskMessage)) 0)) snd_list rcv_list (kern s);
        Some (s\<lparr>xTimerQueue := Some q, kern := k\<rparr>)
      } else Some s)"

definition prvInitialiseNewTimer ::
  "list_id \<Rightarrow> list_id \<Rightarrow> u32 \<Rightarrow> tick \<Rightarrow> bool \<Rightarrow> u32 \<Rightarrow> u32 \<Rightarrow> nat \<Rightarrow> 'a timer_state_scheme \<Rightarrow> 'a timer_state_scheme option" where
  "prvInitialiseNewTimer snd_list rcv_list pcName period xAutoReload timerID callback t s =
     (if period > 0 then do {
        s \<leftarrow> prvCheckForValidListAndQueue snd_list rcv_list s;
        let s = upd_timer t (\<lambda>x. x\<lparr>pcTimerName := pcName, xTimerPeriodInTicks := period, pvTimerID := timerID, pxCallbackFunction := callback\<rparr>) s;
        let s = s\<lparr>timer_container := (timer_container s)(t := None)\<rparr>;
        Some (if xAutoReload then upd_timer t (set_status tmrSTATUS_IS_AUTORELOAD) s else s)
      } else None)"

text \<open>The new timer, or \<open>NULL\<close>.\<close>

definition xTimerCreate ::
  "nat \<Rightarrow> list_id \<Rightarrow> list_id \<Rightarrow> u32 \<Rightarrow> tick \<Rightarrow> bool \<Rightarrow> u32 \<Rightarrow> u32 \<Rightarrow> 'a timer_state_scheme \<Rightarrow> (nat \<times> 'a timer_state_scheme) option" where
  "xTimerCreate ucHeap snd_list rcv_list pcName period xAutoReload timerID callback s = do {
     (t, s) \<leftarrow> task_malloc ucHeap sizeof_Timer s;
     if t \<noteq> NULL then do {
       let s = upd_timer t (\<lambda>x. x\<lparr>ucStatus := 0\<rparr>) s;
       s \<leftarrow> prvInitialiseNewTimer snd_list rcv_list pcName period xAutoReload timerID callback t s;
       Some (t, s)
     } else Some (t, s)
   }"

definition xTimerCreateStatic ::
  "list_id \<Rightarrow> list_id \<Rightarrow> u32 \<Rightarrow> tick \<Rightarrow> bool \<Rightarrow> u32 \<Rightarrow> u32 \<Rightarrow> nat \<Rightarrow> 'a timer_state_scheme \<Rightarrow> (nat \<times> 'a timer_state_scheme) option" where
  "xTimerCreateStatic snd_list rcv_list pcName period xAutoReload timerID callback t s =
     (if t = NULL then None
      else do {
        let s = upd_timer t (\<lambda>x. x\<lparr>ucStatus := tmrSTATUS_IS_STATICALLY_ALLOCATED\<rparr>) s;
        s \<leftarrow> prvInitialiseNewTimer snd_list rcv_list pcName period xAutoReload timerID callback t s;
        Some (t, s)
      })"

section \<open>The timer task\<close>

text \<open>Addresses of the static memory of a task: its control block and its stack.\<close>

abbreviation (input) configMINIMAL_STACK_SIZE :: u32 where "configMINIMAL_STACK_SIZE \<equiv> 128"
abbreviation (input) configTIMER_TASK_STACK_DEPTH :: u32 where "configTIMER_TASK_STACK_DEPTH \<equiv> 128"
abbreviation (input) configTIMER_TASK_PRIORITY :: nat where "configTIMER_TASK_PRIORITY \<equiv> 4"

definition vApplicationGetTimerTaskMemory :: "nat \<Rightarrow> nat \<Rightarrow> nat \<times> nat \<times> u32" where
  "vApplicationGetTimerTaskMemory xTimerTaskTCB uxTimerTaskStack = (xTimerTaskTCB, uxTimerTaskStack, configTIMER_TASK_STACK_DEPTH)"

definition configTIMER_SERVICE_TASK_NAME :: "u8 list" where
  "configTIMER_SERVICE_TASK_NAME = [0x54, 0x6D, 0x72, 0x20, 0x53, 0x76, 0x63]"

text \<open>\<open>exit_error\<close> and \<open>code\<close> are the addresses of \<open>prvTaskExitError\<close> and of \<open>prvTimerTask\<close>.\<close>

definition xTimerCreateTimerTask ::
  "u32 \<Rightarrow> u32 \<Rightarrow> list_id \<Rightarrow> list_id \<Rightarrow> nat \<Rightarrow> nat \<Rightarrow> 'a timer_state_scheme \<Rightarrow> 'a timer_state_scheme option" where
  "xTimerCreateTimerTask exit_error code snd_list rcv_list tcb stack s = do {
     s \<leftarrow> prvCheckForValidListAndQueue snd_list rcv_list s;
     _ \<leftarrow> xTimerQueue s;
     let (tcb, stack, depth) = vApplicationGetTimerTaskMemory tcb stack;
     (t, s) \<leftarrow> xTaskCreateStatic exit_error code configTIMER_SERVICE_TASK_NAME depth 0 configTIMER_TASK_PRIORITY stack tcb s;
     let s = s\<lparr>xTimerTaskHandle := Some t\<rparr>;
     if t = NULL then None else Some s
   }"

section \<open>Commands from tasks and interrupts\<close>

definition command_message :: "nat \<Rightarrow> u32 \<Rightarrow> tick \<Rightarrow> DaemonTaskMessage_t" where
  "command_message t xCommandID xOptionalValue = \<lparr>xMessageID = xCommandID, xMessageValue = xOptionalValue, pxTimer = of_nat t\<rparr>"

text \<open>
  A command may wait for room in the queue: \<open>xTimerGenericCommandFromTask\<close> is the part before the
  first pass of \<open>xQueueGenericSend\<close>, and \<open>xTimerGenericCommandFromTask_pass\<close> one pass.
\<close>

definition xTimerGenericCommandFromTask ::
  "nat option \<Rightarrow> u32 \<Rightarrow> tick \<Rightarrow> 'a timer_state_scheme \<Rightarrow> (waiting, bool) call option" where
  "xTimerGenericCommandFromTask xTimer xCommandID xTicksToWait s =
     (case (xTimerQueue s, xTimer) of
        (Some q, Some t) \<Rightarrow>
          if sint xCommandID \<ge> sint tmrFIRST_FROM_ISR_COMMAND then None
          else xQueueGenericSend_entry queueSEND_TO_BACK
                 (if xTaskGetSchedulerState s = taskSCHEDULER_RUNNING then xTicksToWait else 0) q (kern s)
      | _ \<Rightarrow> Some (Ret False))"

definition xTimerGenericCommandFromTask_pass ::
  "(nat \<Rightarrow> isr_op list) \<Rightarrow> u8 list \<Rightarrow> nat \<Rightarrow> u32 \<Rightarrow> tick \<Rightarrow> waiting \<Rightarrow> 'a timer_state_scheme \<Rightarrow>
   ((waiting, bool) call \<times> 'a timer_state_scheme) option" where
  "xTimerGenericCommandFromTask_pass env pad t xCommandID xOptionalValue w s = do {
     q \<leftarrow> xTimerQueue s;
     (r, q, k) \<leftarrow> xQueueGenericSend env (message_bytes pad (command_message t xCommandID xOptionalValue)) queueSEND_TO_BACK w q (kern s);
     Some (r, s\<lparr>xTimerQueue := Some q, kern := k\<rparr>)
   }"

text \<open>Whether the command was sent, and whether a task of higher priority was woken.\<close>

definition xTimerGenericCommandFromISR ::
  "u8 list \<Rightarrow> nat option \<Rightarrow> u32 \<Rightarrow> tick \<Rightarrow> 'a timer_state_scheme \<Rightarrow> (bool \<times> bool \<times> 'a timer_state_scheme) option" where
  "xTimerGenericCommandFromISR pad xTimer xCommandID xOptionalValue s =
     (case (xTimerQueue s, xTimer) of
        (Some q, Some t) \<Rightarrow>
          if sint xCommandID < sint tmrFIRST_FROM_ISR_COMMAND then None
          else map_option (\<lambda>(ok, woken, q, k). (ok, woken, s\<lparr>xTimerQueue := Some q, kern := k\<rparr>))
            (xQueueGenericSendFromISR (message_bytes pad (command_message t xCommandID xOptionalValue)) queueSEND_TO_BACK q (kern s))
      | _ \<Rightarrow> Some (False, False, s))"

section \<open>Queries and settings\<close>

text \<open>A null handle fails the assertion.\<close>

definition xTimerGetTimerDaemonTaskHandle :: "'a timer_state_scheme \<Rightarrow> nat option" where
  "xTimerGetTimerDaemonTaskHandle s = xTimerTaskHandle s"

definition xTimerGetPeriod :: "nat option \<Rightarrow> 'a timer_state_scheme \<Rightarrow> tick option" where
  "xTimerGetPeriod h s = map_option (\<lambda>t. xTimerPeriodInTicks (timers s t)) h"

definition vTimerSetReloadMode :: "nat option \<Rightarrow> bool \<Rightarrow> 'a timer_state_scheme \<Rightarrow> 'a timer_state_scheme option" where
  "vTimerSetReloadMode h xAutoReload s =
     map_option (\<lambda>t. upd_timer t (if xAutoReload then set_status tmrSTATUS_IS_AUTORELOAD else clear_status tmrSTATUS_IS_AUTORELOAD) s) h"

definition xTimerGetReloadMode :: "nat option \<Rightarrow> 'a timer_state_scheme \<Rightarrow> bool option" where
  "xTimerGetReloadMode h s = map_option (\<lambda>t. \<not> (ucStatus (timers s t) AND tmrSTATUS_IS_AUTORELOAD = 0)) h"

definition uxTimerGetReloadMode :: "nat option \<Rightarrow> 'a timer_state_scheme \<Rightarrow> u32 option" where
  "uxTimerGetReloadMode h s = map_option of_bool (xTimerGetReloadMode h s)"

definition xTimerGetExpiryTime :: "nat option \<Rightarrow> 'a timer_state_scheme \<Rightarrow> tick option" where
  "xTimerGetExpiryTime h s = map_option (timer_value s) h"

definition xTimerGetStaticBuffer :: "nat \<Rightarrow> 'a timer_state_scheme \<Rightarrow> nat option" where
  "xTimerGetStaticBuffer t s = (if ucStatus (timers s t) AND tmrSTATUS_IS_STATICALLY_ALLOCATED \<noteq> 0 then Some t else None)"

definition pcTimerGetName :: "nat option \<Rightarrow> 'a timer_state_scheme \<Rightarrow> u32 option" where
  "pcTimerGetName h s = map_option (\<lambda>t. pcTimerName (timers s t)) h"

definition xTimerIsTimerActive :: "nat option \<Rightarrow> 'a timer_state_scheme \<Rightarrow> bool option" where
  "xTimerIsTimerActive h s = map_option (\<lambda>t. \<not> (ucStatus (timers s t) AND tmrSTATUS_IS_ACTIVE = 0)) h"

definition pvTimerGetTimerID :: "nat option \<Rightarrow> 'a timer_state_scheme \<Rightarrow> u32 option" where
  "pvTimerGetTimerID h s = map_option (\<lambda>t. pvTimerID (timers s t)) h"

definition vTimerSetTimerID :: "nat option \<Rightarrow> u32 \<Rightarrow> 'a timer_state_scheme \<Rightarrow> 'a timer_state_scheme option" where
  "vTimerSetTimerID h pvNewID s = map_option (\<lambda>t. upd_timer t (\<lambda>x. x\<lparr>pvTimerID := pvNewID\<rparr>) s) h"

definition vTimerResetState :: "'a timer_state_scheme \<Rightarrow> 'a timer_state_scheme" where
  "vTimerResetState s = s\<lparr>xTimerQueue := None, xTimerTaskHandle := None\<rparr>"

section \<open>Start and end of the scheduler\<close>

record system_state = timer_state +
  xIdleTaskHandle :: "nat option"

definition vApplicationGetIdleTaskMemory :: "nat \<Rightarrow> nat \<Rightarrow> nat \<times> nat \<times> u32" where
  "vApplicationGetIdleTaskMemory xIdleTaskTCB uxIdleTaskStack = (xIdleTaskTCB, uxIdleTaskStack, configMINIMAL_STACK_SIZE)"

definition configIDLE_TASK_NAME :: "u8 list" where
  "configIDLE_TASK_NAME = [0x49, 0x44, 0x4C, 0x45, 0]"

text \<open>The loop over the name; \<open>i\<close> is \<open>xIdleTaskNameIndex\<close>. The result is its last value and the buffer.\<close>

fun idle_name :: "nat \<Rightarrow> nat \<Rightarrow> u8 list \<Rightarrow> nat \<times> u8 list" where
  "idle_name 0 i name = (i, name)"
| "idle_name (Suc n) i name =
     (let name = name[i := configIDLE_TASK_NAME ! i]
      in if name ! i = 0 then (i, name) else idle_name n (Suc i) name)"

definition prvCreateIdleTasks :: "u32 \<Rightarrow> u32 \<Rightarrow> nat \<Rightarrow> nat \<Rightarrow> 'a system_state_scheme \<Rightarrow> (bool \<times> 'a system_state_scheme) option" where
  "prvCreateIdleTasks exit_error idle_code tcb stack s =
     (let (i, name) = idle_name (configMAX_TASK_NAME_LEN - 1) 0 (replicate configMAX_TASK_NAME_LEN 0);
          name = name[i := 0];
          (tcb, stack, depth) = vApplicationGetIdleTaskMemory tcb stack
      in do {
        (t, s) \<leftarrow> xTaskCreateStatic exit_error idle_code name depth 0 0 stack tcb s;
        Some (t \<noteq> NULL, s\<lparr>xIdleTaskHandle := (if t = NULL then None else Some t)\<rparr>)
      })"

text \<open>
  The static memory of the idle and of the timer task, and the addresses of their code; the
  arguments of \<open>port_start\<close> are those of \<open>Rtos_Port\<close>. The start does not return in C; the result
  is the state in which the first task runs.
\<close>

record boot =
  task_exit_error :: u32
  idle_task_code :: u32
  idle_tcb :: nat
  idle_stack :: nat
  timer_task_code :: u32
  timer_tcb :: nat
  timer_stack :: nat
  timer_snd_list :: list_id
  timer_rcv_list :: list_id

definition vTaskStartScheduler ::
  "u32 \<Rightarrow> u8 \<Rightarrow> (u32 \<Rightarrow> nat \<Rightarrow> u32) \<Rightarrow> u32 \<Rightarrow> u32 \<Rightarrow> boot \<Rightarrow> port_t \<Rightarrow> 'a system_state_scheme \<Rightarrow> (port_t \<times> 'a system_state_scheme) option" where
  "vTaskStartScheduler maxpri impl vectors svc pnd b p s = do {
     (ok, s) \<leftarrow> prvCreateIdleTasks (task_exit_error b) (idle_task_code b) (idle_tcb b) (idle_stack b) s;
     s \<leftarrow> (if ok then xTimerCreateTimerTask (task_exit_error b) (timer_task_code b) (timer_snd_list b) (timer_rcv_list b)
              (timer_tcb b) (timer_stack b) s else Some s);
     if ok then do {
       let p = vPortRaiseBASEPRI maxpri p;
       let s = s\<lparr>kern := (kern s)\<lparr>xNextTaskUnblockTime := portMAX_DELAY, xTickCount := 0\<rparr>, xSchedulerRunning := True\<rparr>;
       p \<leftarrow> port_start maxpri impl vectors svc pnd p;
       Some (p, s)
     } else Some (p, s)
   }"

definition vTaskEndScheduler :: "nat \<Rightarrow> u32 \<Rightarrow> port_t \<Rightarrow> 'a system_state_scheme \<Rightarrow> (port_t \<times> 'a system_state_scheme) option" where
  "vTaskEndScheduler ucHeap maxpri p s = do {
     daemon \<leftarrow> xTimerGetTimerDaemonTaskHandle s;
     s \<leftarrow> vTaskDelete ucHeap (Some daemon) s;
     s \<leftarrow> vTaskDelete ucHeap (xIdleTaskHandle s) s;
     s \<leftarrow> prvCheckTasksWaitingTermination ucHeap s;
     let p = vPortRaiseBASEPRI maxpri p;
     let s = s\<lparr>xSchedulerRunning := False\<rparr>;
     _ \<leftarrow> vPortEndScheduler p;
     Some (p, s)
   }"

end
