(* ===== verification/Rtos_Timer_Exact.thy ===== *)
theory Rtos_Timer_Exact
  imports Rtos_Timer_Api
begin

text \<open>
  Software timers on an absolute time axis: the 64-bit ticks of the code are natural numbers
  modulo an epoch. A timer is inserted exactly when it has not expired, in the list of the epoch
  it expires in; a reload catches up with every period that passed; the switch of the lists at an
  overflow leaves no timer behind.
\<close>

section \<open>Ticks on an absolute time axis\<close>

definition epoch :: nat where "epoch = 2 ^ 64"

lemma epoch_pos [simp]: "0 < epoch" "epoch \<noteq> 0"
  by (simp_all add: epoch_def)

lemma unat_tick: "unat (of_nat n :: tick) = n mod epoch"
  by (simp add: unat_of_nat epoch_def)

lemma unat_tick_less: "unat (w :: tick) < epoch"
  using unsigned_less [of w] by (simp add: epoch_def)

lemma of_nat_tick: "of_nat (unat w) = (w :: tick)"
  by simp

lemma epoch_cases:
  assumes "C \<le> N" and "N < C + W" and "0 < (W::nat)"
  shows "N div W = C div W \<or> N div W = Suc (C div W)"
proof -
  have "C div W \<le> N div W" using assms(1) by (rule div_le_mono)
  moreover have "N div W \<le> (C + W) div W" using assms(2) by (intro div_le_mono) simp
  moreover have "(C + W) div W = Suc (C div W)" using assms(3) by (simp add: div_add_self2)
  ultimately show ?thesis by linarith
qed

lemma same_epoch_less:
  fixes W :: nat
  assumes "A div W = B div W"
  shows "A \<le> B \<longleftrightarrow> A mod W \<le> B mod W"
proof -
  have "A = B div W * W + A mod W" "B = B div W * W + B mod W" using assms div_mult_mod_eq by metis+
  then show ?thesis by linarith
qed

lemma next_epoch_less: "A div W < B div W \<Longrightarrow> A < (B::nat)"
  by (meson div_le_mono leD leI)

lemma wrap_distance:
  assumes "C \<le> N" and "N < C + W" and "N div W = Suc (C div W)"
  shows "N mod W < C mod (W::nat)"
proof -
  have "N = C div W * W + W + N mod W" using assms(3) div_mult_mod_eq [of N W] by simp
  moreover have "C = C div W * W + C mod W" by simp
  ultimately show ?thesis using assms(2) by linarith
qed

text \<open>The comparisons of \<open>prvInsertTimerInActiveList\<close> decide whether \<open>C + P\<close> is past at \<open>N\<close>.\<close>

lemma epoch_arith:
  fixes W :: nat
  assumes "C \<le> N" and "N < C + W" and "0 < P" and "P < W"
  shows "(C + P) mod W \<le> N mod W \<Longrightarrow> N < C + P \<Longrightarrow> (C + P) div W = Suc (N div W)"
    and "N mod W < (C + P) mod W \<Longrightarrow> (N mod W < C mod W \<and> C mod W \<le> (C + P) mod W) = (C + P \<le> N)"
    and "N mod W < (C + P) mod W \<Longrightarrow> N < C + P \<Longrightarrow> (C + P) div W = N div W"
proof -
  let ?E = "C + P"
  have W: "0 < W" using assms(4) by simp
  have cN: "N div W = C div W \<or> N div W = Suc (C div W)" by (rule epoch_cases [OF assms(1,2) W])
  have cE: "?E div W = C div W \<or> ?E div W = Suc (C div W)" by (rule epoch_cases) (use assms in simp_all)
  have sE: "?E div W = C div W \<Longrightarrow> C mod W \<le> ?E mod W" using same_epoch_less [of C W ?E] by simp
  have wE: "?E div W = Suc (C div W) \<Longrightarrow> ?E mod W < C mod W" by (rule wrap_distance) (use assms in simp_all)
  have wN: "N div W = Suc (C div W) \<Longrightarrow> N mod W < C mod W" by (rule wrap_distance [OF assms(1,2)])
  have sN: "N div W = C div W \<Longrightarrow> C mod W \<le> N mod W" using same_epoch_less [of C W N] assms(1) by simp
  have E_le: "?E div W \<le> N div W \<or> ?E div W = Suc (N div W)" using cN cE by auto
  show "?E mod W \<le> N mod W \<Longrightarrow> N < ?E \<Longrightarrow> ?E div W = Suc (N div W)"
  proof -
    assume a: "?E mod W \<le> N mod W" "N < ?E"
    show ?thesis
    proof (rule ccontr)
      assume "?E div W \<noteq> Suc (N div W)"
      then have "?E div W \<le> N div W" using E_le by simp
      then show False
        using a same_epoch_less [of ?E W N] next_epoch_less [of ?E W N] by (cases "?E div W = N div W") auto
    qed
  qed
  show "(N mod W < C mod W \<and> C mod W \<le> ?E mod W) = (?E \<le> N)" if a: "N mod W < ?E mod W"
  proof
    assume b: "N mod W < C mod W \<and> C mod W \<le> ?E mod W"
    then have "N div W = Suc (C div W)" "?E div W = C div W" using cN cE sN wE by auto
    then show "?E \<le> N" using next_epoch_less [of ?E W N] by simp
  next
    assume "?E \<le> N"
    then have "?E div W \<noteq> N div W" using a same_epoch_less [of ?E W N] by auto
    moreover have "?E div W \<le> N div W" using \<open>?E \<le> N\<close> by (rule div_le_mono)
    ultimately show "N mod W < C mod W \<and> C mod W \<le> ?E mod W" using cN cE wN sE by auto
  qed
  show "?E div W = N div W" if a: "N mod W < ?E mod W" "N < ?E"
  proof (rule ccontr)
    assume n: "?E div W \<noteq> N div W"
    have "N div W \<le> ?E div W" using a(2) by (intro div_le_mono) simp
    then have "N div W = C div W" "?E div W = Suc (C div W)" using n cN cE by auto
    then show False using sN wE a(1) by simp
  qed
qed

lemma timer_elapsed_ticks:
  assumes "C \<le> N" and "N < C + epoch"
  shows "unat (of_nat N - of_nat C :: tick) = N - C"
proof -
  have "(of_nat N - of_nat C :: tick) = of_nat (N - C)" using assms(1) by (simp add: of_nat_diff)
  moreover have "N - C < epoch" using assms by linarith
  ultimately show ?thesis by (simp only: unat_tick mod_less)
qed

section \<open>Insertion\<close>

text \<open>The absolute expiry time of a listed timer, when the lists are those of time \<open>L\<close>.\<close>

definition expires_at :: "nat \<Rightarrow> 'a timer_state_scheme \<Rightarrow> nat \<Rightarrow> nat" where
  "expires_at L s t =
     (L div epoch + (if timer_container s t = Some (pxOverflowTimerList s) then 1 else 0)) * epoch + unat (timer_value s t)"

definition period_of :: "'a timer_state_scheme \<Rightarrow> nat \<Rightarrow> nat" where
  "period_of s t = unat (xTimerPeriodInTicks (timers s t))"

definition set_expiry :: "nat \<Rightarrow> nat \<Rightarrow> 'a timer_state_scheme \<Rightarrow> 'a timer_state_scheme" where
  "set_expiry t E s = s\<lparr>timer_value := (timer_value s)(t := of_nat E)\<rparr>"

text \<open>The list of the epoch of \<open>E\<close>, seen from time \<open>N\<close>.\<close>

definition list_for :: "nat \<Rightarrow> nat \<Rightarrow> 'a timer_state_scheme \<Rightarrow> timer_list" where
  "list_for N E s = (if E div epoch = N div epoch then pxCurrentTimerList s else pxOverflowTimerList s)"

lemma insert_timer:
  assumes "C \<le> N" and "N < C + epoch" and "0 < period_of s t"
  defines "E \<equiv> C + period_of s t"
  shows "prvInsertTimerInActiveList t (of_nat C + xTimerPeriodInTicks (timers s t)) (of_nat N) (of_nat C) s
    = (if E \<le> N then (True, set_expiry t E s) else (False, timer_insert (list_for N E s) t (set_expiry t E s)))"
    and "N < E \<Longrightarrow> E div epoch = N div epoch \<or> E div epoch = Suc (N div epoch)"
proof -
  let ?P = "period_of s t"
  have P: "0 < ?P" "?P < epoch" using assms(3) unat_tick_less by (simp_all add: period_of_def)
  have v: "of_nat C + xTimerPeriodInTicks (timers s t) = (of_nat E :: tick)"
    by (simp add: E_def period_of_def)
  note ar = epoch_arith [OF assms(1,2) P, folded E_def]
  have le: "((of_nat E :: tick) \<le> of_nat N) = (E mod epoch \<le> N mod epoch)"
    "((of_nat N :: tick) < of_nat C) = (N mod epoch < C mod epoch)"
    "((of_nat C :: tick) \<le> of_nat E) = (C mod epoch \<le> E mod epoch)"
    by (simp_all only: word_le_nat_alt word_less_nat_alt unat_tick)
  have el: "(xTimerPeriodInTicks (timers s t) \<le> of_nat N - of_nat C) = (E \<le> N)"
    unfolding word_le_nat_alt timer_elapsed_ticks [OF assms(1,2)] using assms(1) by (auto simp: E_def period_of_def)
  show ep: "N < E \<Longrightarrow> E div epoch = N div epoch \<or> E div epoch = Suc (N div epoch)"
    using ar(1,3) by (cases "E mod epoch \<le> N mod epoch") auto
  show "prvInsertTimerInActiveList t (of_nat C + xTimerPeriodInTicks (timers s t)) (of_nat N) (of_nat C) s
    = (if E \<le> N then (True, set_expiry t E s) else (False, timer_insert (list_for N E s) t (set_expiry t E s)))"
  proof (cases "E mod epoch \<le> N mod epoch")
    case True
    then show ?thesis using ar(1)
      by (auto simp: prvInsertTimerInActiveList_def v le el set_expiry_def list_for_def)
  next
    case False
    then show ?thesis using ar(2,3)
      by (auto simp: prvInsertTimerInActiveList_def v le el set_expiry_def list_for_def)
  qed
qed

end
