(* ===== verification/Rtos_Timer_Inv.thy ===== *)
theory Rtos_Timer_Inv
  imports Rtos_Timer_Exact
begin

text \<open>
  What the timers promise, as a map from timers to the absolute times they expire at, with a
  count of the callbacks made: the operations of the timer task on this view, for callbacks that
  leave the lists alone, as a locale; interpreted on callbacks that count expiries in the timer's
  identifier.
\<close>

section \<open>What callbacks leave alone\<close>

definition frame :: "'a timer_state_scheme \<Rightarrow> (timer_list \<Rightarrow> nat xlist) \<times> (nat \<Rightarrow> timer_list option) \<times> (nat \<Rightarrow> tick) \<times>
    timer_list \<times> timer_list \<times> tick \<times> (nat \<Rightarrow> tick) \<times> (nat \<Rightarrow> u8)" where
  "frame s = (timer_lists s, timer_container s, timer_value s, pxCurrentTimerList s, pxOverflowTimerList s, xLastTime s,
     \<lambda>t. xTimerPeriodInTicks (timers s t), \<lambda>t. ucStatus (timers s t))"

lemma frame_eqD:
  assumes "frame s' = frame s"
  shows "timer_lists s' = timer_lists s" "timer_container s' = timer_container s" "timer_value s' = timer_value s"
    "pxCurrentTimerList s' = pxCurrentTimerList s" "pxOverflowTimerList s' = pxOverflowTimerList s" "xLastTime s' = xLastTime s"
    "xTimerPeriodInTicks (timers s' t) = xTimerPeriodInTicks (timers s t)" "ucStatus (timers s' t) = ucStatus (timers s t)"
    "is_autoreload (timers s' t) = is_autoreload (timers s t)" "period_of s' t = period_of s t"
    "timer_entries s' l = timer_entries s l"
  using assms by (auto simp: frame_def fun_eq_iff is_autoreload_def period_of_def timer_entries_def)

lemma frame_timer_insert: "frame s' = frame s \<Longrightarrow> frame (timer_insert l t s') = frame (timer_insert l t s)"
  by (simp add: frame_def timer_insert_def)

lemma frame_set_expiry: "frame s' = frame s \<Longrightarrow> frame (set_expiry t E s') = frame (set_expiry t E s)"
  by (simp add: frame_def set_expiry_def)

lemma set_expiry_twice [simp]: "set_expiry t E (set_expiry t F s) = set_expiry t E s"
  by (simp add: set_expiry_def)

lemma set_expiry_fields [simp]:
  "period_of (set_expiry t E s) u = period_of s u" "timers (set_expiry t E s) = timers s"
  "pxCurrentTimerList (set_expiry t E s) = pxCurrentTimerList s" "pxOverflowTimerList (set_expiry t E s) = pxOverflowTimerList s"
  "timer_container (set_expiry t E s) = timer_container s" "timer_entries (set_expiry t E s) l = timer_entries s l"
  "list_for N F (set_expiry t E s) = list_for N F s" "timer_lists (set_expiry t E s) = timer_lists s"
  "timer_value (set_expiry t E s) = (timer_value s)(t := of_nat E)" "xLastTime (set_expiry t E s) = xLastTime s"
  by (simp_all add: set_expiry_def period_of_def timer_entries_def list_for_def)

section \<open>The invariant of the lists\<close>

definition timers_ok :: "'a timer_state_scheme \<Rightarrow> bool" where
  "timers_ok s \<longleftrightarrow> pxCurrentTimerList s \<noteq> pxOverflowTimerList s
     \<and> (\<forall>l. distinct (timer_entries s l) \<and> sorted (map (timer_value s) (timer_entries s l)))
     \<and> (\<forall>t l. timer_container s t = Some l \<longleftrightarrow> t \<in> set (timer_entries s l))
     \<and> (\<forall>t. timer_container s t \<noteq> None \<longrightarrow> 0 < period_of s t)"

lemma timers_ok_frame: "frame s' = frame s \<Longrightarrow> timers_ok s' = timers_ok s"
  using frame_eqD [of s' s] by (simp add: timers_ok_def)

lemma timers_okD:
  assumes "timers_ok s"
  shows "pxCurrentTimerList s \<noteq> pxOverflowTimerList s" "distinct (timer_entries s l)"
    "sorted (map (timer_value s) (timer_entries s l))" "t \<in> set (timer_entries s l) \<longleftrightarrow> timer_container s t = Some l"
    "timer_container s t \<noteq> None \<Longrightarrow> 0 < period_of s t"
    "timer_container s t = None \<or> timer_container s t = Some (pxCurrentTimerList s) \<or> timer_container s t = Some (pxOverflowTimerList s)"
proof -
  show ne: "pxCurrentTimerList s \<noteq> pxOverflowTimerList s" and "distinct (timer_entries s l)"
    and "sorted (map (timer_value s) (timer_entries s l))" and "t \<in> set (timer_entries s l) \<longleftrightarrow> timer_container s t = Some l"
    and "timer_container s t \<noteq> None \<Longrightarrow> 0 < period_of s t"
    using assms unfolding timers_ok_def by blast+
  show "timer_container s t = None \<or> timer_container s t = Some (pxCurrentTimerList s) \<or> timer_container s t = Some (pxOverflowTimerList s)"
  proof (cases "timer_container s t")
    case (Some m)
    then show ?thesis using ne by (cases m; cases "pxCurrentTimerList s"; cases "pxOverflowTimerList s") simp_all
  qed simp
qed

definition unlist :: "nat \<Rightarrow> timer_list \<Rightarrow> 'a timer_state_scheme \<Rightarrow> 'a timer_state_scheme" where
  "unlist t l s = s\<lparr>timer_lists := (timer_lists s)(l := xl_remove t (timer_lists s l)), timer_container := (timer_container s)(t := None)\<rparr>"

lemma timer_remove_unlist: "timer_container s t = Some l \<Longrightarrow> timer_remove t s = Some (unlist t l s)"
  by (simp add: timer_remove_def unlist_def)

lemma unlist_fields [simp]:
  "timers (unlist t l s) = timers s" "period_of (unlist t l s) u = period_of s u" "pxCurrentTimerList (unlist t l s) = pxCurrentTimerList s"
  "pxOverflowTimerList (unlist t l s) = pxOverflowTimerList s" "timer_value (unlist t l s) = timer_value s"
  "timer_container (unlist t l s) = (timer_container s)(t := None)" "xLastTime (unlist t l s) = xLastTime s"
  "timer_entries (unlist t l s) m = (if m = l then remove1 t (timer_entries s m) else timer_entries s m)"
  "list_for N E (unlist t l s) = list_for N E s"
  by (simp_all add: unlist_def period_of_def timer_entries_def list_for_def)

lemma sorted_map_remove1: "sorted (map f xs) \<Longrightarrow> sorted (map f (remove1 x xs))"
  by (induction xs) (auto dest: notin_set_remove1)

lemma unlist_ok:
  assumes "timers_ok s" and "timer_container s t = Some l"
  shows "timers_ok (unlist t l s)"
proof -
  note ok = timers_okD [OF assms(1)]
  have "timer_container (unlist t l s) u = Some m \<longleftrightarrow> u \<in> set (timer_entries (unlist t l s) m)" for u m
    using ok(2,4) assms(2) by (auto simp: set_remove1_eq)
  moreover have "distinct (timer_entries (unlist t l s) m) \<and> sorted (map (timer_value (unlist t l s)) (timer_entries (unlist t l s) m))" for m
    using ok(2,3) by (simp add: distinct_remove1 sorted_map_remove1)
  moreover have "timer_container (unlist t l s) u \<noteq> None \<longrightarrow> 0 < period_of (unlist t l s) u" for u
    using ok(5) [of u] by (simp split: if_splits)
  ultimately show ?thesis using ok(1) unfolding timers_ok_def by simp
qed

lemma timer_insert_fields [simp]:
  "timers (timer_insert l t s) = timers s" "period_of (timer_insert l t s) u = period_of s u"
  "pxCurrentTimerList (timer_insert l t s) = pxCurrentTimerList s" "pxOverflowTimerList (timer_insert l t s) = pxOverflowTimerList s"
  "timer_value (timer_insert l t s) = timer_value s" "xLastTime (timer_insert l t s) = xLastTime s"
  "timer_container (timer_insert l t s) = (timer_container s)(t \<mapsto> l)"
  by (simp_all add: timer_insert_def period_of_def)

lemma timer_insert_ok:
  assumes "timers_ok s" and "timer_container s t = None" and "0 < period_of s t"
  shows "timers_ok (timer_insert l t (set_expiry t E s))"
proof -
  let ?s = "timer_insert l t (set_expiry t E s)"
  note ok = timers_okD [OF assms(1)]
  have out: "t \<notin> set (timer_entries s m)" for m using ok(4) assms(2) by simp
  have val: "map (timer_value ?s) (timer_entries s m) = map (timer_value s) (timer_entries s m)" for m
    using out by (intro map_cong) auto
  have ent: "timer_entries ?s m = (if m = l then xl_items (xl_insert (timer_value ?s) t (timer_lists s l)) else timer_entries s m)" for m
    by (simp add: timer_insert_def timer_entries_def)
  have srt: "sorted (map (timer_value ?s) (xl_items (xl_insert (timer_value ?s) t (timer_lists s l))))"
    by (rule sorted_xl_insert) (metis ok(3) [of l] val [of l] timer_entries_def)
  have old: "sorted (map (timer_value ?s) (timer_entries s m))" for m using ok(3) [of m] val [of m] by metis
  have dst: "distinct (xl_items (xl_insert (timer_value ?s) t (timer_lists s l)))"
    by (rule distinct_insert) (use ok(2) [of l] out [of l] in \<open>simp_all add: timer_entries_def\<close>)
  have st: "set (xl_items (xl_insert (timer_value ?s) t (timer_lists s l))) = insert t (set (timer_entries s l))"
    by (simp add: timer_entries_def)
  have "timer_container ?s u = Some m \<longleftrightarrow> u \<in> set (timer_entries ?s m)" for u m
    using ok(4) [of u m] out [of m] st by (cases "m = l") (auto simp: ent)
  moreover have "distinct (timer_entries ?s m) \<and> sorted (map (timer_value ?s) (timer_entries ?s m))" for m
    using ok(2) [of m] old [of m] srt dst unfolding ent by (cases "m = l") simp_all
  moreover have "timer_container ?s u \<noteq> None \<longrightarrow> 0 < period_of ?s u" for u
    using ok(5) [of u] assms(3) by simp
  ultimately show ?thesis using ok(1) unfolding timers_ok_def by simp
qed

section \<open>The absolute view\<close>

definition armed :: "nat \<Rightarrow> 'a timer_state_scheme \<Rightarrow> nat \<Rightarrow> nat option" where
  "armed L s t = (if timer_container s t = None then None else Some (expires_at L s t))"

lemma armed_frame: "frame s' = frame s \<Longrightarrow> armed L s' = armed L s"
  using frame_eqD(1-6) [of s' s] by (simp add: armed_def expires_at_def fun_eq_iff)

lemma armed_epoch: "L' div epoch = L div epoch \<Longrightarrow> armed L' s = armed L s"
  by (simp add: armed_def expires_at_def fun_eq_iff)

lemma armed_unlist: "timer_container s t = Some l \<Longrightarrow> armed L (unlist t l s) = (armed L s)(t := None)"
  by (auto simp: armed_def expires_at_def fun_eq_iff)

lemma tick_split: "E div epoch = e \<Longrightarrow> e * epoch + unat (of_nat E :: tick) = E"
  by (auto simp: unat_tick)

lemma armed_insert:
  assumes "timers_ok s" and "N div epoch = L div epoch" and "E div epoch = N div epoch \<or> E div epoch = Suc (N div epoch)"
  shows "armed L (timer_insert (list_for N E s) t (set_expiry t E s)) = (armed L s)(t \<mapsto> E)"
proof -
  let ?s = "timer_insert (list_for N E s) t (set_expiry t E s)"
  note ne = timers_okD(1) [OF assms(1)]
  have "armed L ?s t = Some E"
  proof (cases "E div epoch = N div epoch")
    case True
    then have "E div epoch = L div epoch" using assms(2) by simp
    then show ?thesis using ne True tick_split [of E] by (simp add: armed_def expires_at_def list_for_def)
  next
    case False
    then have "E div epoch = L div epoch + 1" using assms(2,3) by simp
    then show ?thesis using False tick_split [of E "L div epoch + 1"] by (simp add: armed_def expires_at_def list_for_def)
  qed
  moreover have "armed L ?s u = armed L s u" if "u \<noteq> t" for u
    using that by (simp add: armed_def expires_at_def)
  ultimately show ?thesis by (auto simp: fun_eq_iff)
qed

text \<open>
  The specification: what becomes of a timer and of its number of callbacks up to time \<open>N\<close>. An
  auto-reload timer makes one callback per period, any other one in all.
\<close>

fun after :: "bool \<Rightarrow> nat \<Rightarrow> nat \<Rightarrow> nat option \<times> u32 \<Rightarrow> nat option \<times> u32" where
  "after auto P N (None, k) = (None, k)"
| "after auto P N (Some E, k) =
     (if E \<le> N then
        if auto then (Some (E + ((N - E) div P + 1) * P), k + of_nat ((N - E) div P + 1)) else (None, k + 1)
      else (Some E, k))"

lemma after_later: "E > N \<Longrightarrow> after auto P N (Some E, k) = (Some E, k)"
  by simp

lemma after_next: "E \<le> N \<Longrightarrow> 0 < P \<Longrightarrow> (N::nat) < E + ((N - E) div P + 1) * P \<and> E + (N - E) div P * P \<le> N"
proof -
  assume a: "E \<le> N" "0 < P"
  have "N - E = (N - E) div P * P + (N - E) mod P" by simp
  moreover have "(N - E) mod P < P" using a(2) by simp
  ultimately have "N - E < (N - E) div P * P + P" "(N - E) div P * P \<le> N - E" by linarith+
  moreover have "((N - E) div P + 1) * P = (N - E) div P * P + P" by simp
  ultimately show ?thesis using a(1) by linarith
qed

text \<open>Processing up to \<open>M\<close> and then up to \<open>N\<close> is processing up to \<open>N\<close>.\<close>

lemma after_after:
  assumes "M \<le> N" and "0 < P"
  shows "after auto P N (after auto P M x) = after auto P N x"
proof (cases x)
  case (Pair a k)
  show ?thesis
  proof (cases a)
    case None
    then show ?thesis by (simp add: Pair)
  next
    case (Some E)
    show ?thesis
    proof (cases "auto \<and> E \<le> M")
      case True
      define j where "j = (M - E) div P + 1"
      have aM: "after auto P M x = (Some (E + j * P), k + of_nat j)" using True by (simp add: Pair Some j_def)
      have E1: "E + j * P > M" "E + (j - 1) * P \<le> M" using after_next [of E M P] True assms(2) by (simp_all add: j_def)
      show ?thesis
      proof (cases "E + j * P \<le> N")
        case True
        have d: "N - E = (N - (E + j * P)) + j * P" using True by simp
        have "(N - E) div P = (N - (E + j * P)) div P + j"
          unfolding d by (subst div_mult_self1) (use assms(2) in simp_all)
        moreover define r where "r = (N - (E + j * P)) div P"
        ultimately have "after auto P N x = (Some (E + (r + j + 1) * P), k + of_nat (r + j + 1))"
          using \<open>auto \<and> E \<le> M\<close> assms(1) by (simp add: Pair Some)
        moreover have "after auto P N (Some (E + j * P), k + of_nat j) = (Some (E + j * P + (r + 1) * P), k + of_nat j + of_nat (r + 1))"
          using True \<open>auto \<and> E \<le> M\<close> by (simp add: r_def)
        ultimately show ?thesis unfolding aM by (simp add: algebra_simps)
      next
        case False
        have "(N - E) div P = j - 1"
        proof (rule div_nat_eqI)
          show "P * (j - 1) \<le> N - E" using E1(2) assms(1) by (simp add: algebra_simps)
          have j: "Suc (j - 1) = j" by (simp add: j_def)
          show "N - E < P * Suc (j - 1)" unfolding j mult.commute [of P] using False \<open>auto \<and> E \<le> M\<close> assms(1) by linarith
        qed
        then have "(N - E) div P + 1 = j" by (simp add: j_def)
        then have "after auto P N x = (Some (E + j * P), k + of_nat j)"
          using \<open>auto \<and> E \<le> M\<close> assms(1) by (simp only: Pair Some after.simps) simp
        then show ?thesis unfolding aM using False by simp
      qed
    next
      case False
      then show ?thesis using assms(1) by (cases "E \<le> M") (auto simp: Pair Some)
    qed
  qed
qed

end
