(* ===== verification/Rtos_Timer_Fire.thy ===== *)
theory Rtos_Timer_Fire
  imports Rtos_Timer_Inv
begin

text \<open>
  Expiry on the absolute view, for callbacks that always return, leave the lists alone and are
  counted: the contract is a locale, with the operations of the timer task proved inside it.
\<close>

section \<open>The end of an epoch\<close>

definition last_of_epoch :: "nat \<Rightarrow> nat" where
  "last_of_epoch L = L div epoch * epoch + (epoch - 1)"

lemma last_of_epoch_div [simp]: "last_of_epoch L div epoch = L div epoch"
  by (simp add: last_of_epoch_def)

lemma of_nat_last_of_epoch: "of_nat (last_of_epoch L) = tmrMAX_TIME_BEFORE_OVERFLOW"
proof -
  have "unat (of_nat (last_of_epoch L) :: tick) = epoch - 1" by (simp only: unat_tick last_of_epoch_def) simp
  moreover have "unat tmrMAX_TIME_BEFORE_OVERFLOW = epoch - 1" by (simp add: unsigned_minus_1_eq_mask mask_eq_exp_minus_1 epoch_def)
  ultimately show ?thesis by (simp only: word_unat_eq_iff)
qed

lemma expires_in_epoch:
  assumes "timers_ok s" and "timer_container s t = Some (pxCurrentTimerList s)"
  shows "expires_at L s t \<le> last_of_epoch L"
  using timers_okD(1) [OF assms(1)] unat_tick_less [of "timer_value s t"] assms(2)
  by (simp add: expires_at_def last_of_epoch_def)

lemma expires_after_epoch:
  assumes "timers_ok s" and "timer_container s t = Some (pxOverflowTimerList s)"
  shows "last_of_epoch L < expires_at L s t"
proof -
  have "epoch - 1 < epoch + unat (timer_value s t)" using epoch_pos(1) by linarith
  then show ?thesis using assms(2) by (simp add: expires_at_def last_of_epoch_def)
qed

section \<open>Callbacks as a contract\<close>

definition arrangement :: "'a timer_state_scheme \<Rightarrow> timer_list \<times> timer_list \<times> tick \<times> (nat \<Rightarrow> bool) \<times> (nat \<Rightarrow> nat)" where
  "arrangement s = (pxCurrentTimerList s, pxOverflowTimerList s, xLastTime s, \<lambda>t. is_autoreload (timers s t), period_of s)"

lemma arrangement_frame: "frame s' = frame s \<Longrightarrow> arrangement s' = arrangement s"
  using frame_eqD(4,5,6,9,10) [of s' s] by (simp add: arrangement_def fun_eq_iff)

lemma arrangement_eqD:
  assumes "arrangement s' = arrangement s"
  shows "pxCurrentTimerList s' = pxCurrentTimerList s" "pxOverflowTimerList s' = pxOverflowTimerList s" "xLastTime s' = xLastTime s"
    "is_autoreload (timers s' t) = is_autoreload (timers s t)" "period_of s' = period_of s"
  using assms by (auto simp: arrangement_def fun_eq_iff)

lemma arrangement_fields [simp]:
  "arrangement (set_expiry t E s) = arrangement s" "arrangement (timer_insert l t s) = arrangement s" "arrangement (unlist t l s) = arrangement s"
  by (simp_all add: arrangement_def fun_eq_iff)

text \<open>The active flag is no part of the arrangement.\<close>

lemma upd_active:
  assumes "f = set_status tmrSTATUS_IS_ACTIVE \<or> f = clear_status tmrSTATUS_IS_ACTIVE"
  shows "timers_ok (upd_timer t f s) = timers_ok s" "armed L (upd_timer t f s) = armed L s"
    "arrangement (upd_timer t f s) = arrangement s" "timer_container (upd_timer t f s) = timer_container s"
    "list_for N E (upd_timer t f s) = list_for N E s"
proof -
  have "is_autoreload (f x) = is_autoreload x" "xTimerPeriodInTicks (f x) = xTimerPeriodInTicks x" for x
    using assms by (auto simp: is_autoreload_def clear_status_def set_status_def and.assoc bit.conj_disj_distrib2)
  then show "timers_ok (upd_timer t f s) = timers_ok s" "armed L (upd_timer t f s) = armed L s"
    "arrangement (upd_timer t f s) = arrangement s" "timer_container (upd_timer t f s) = timer_container s"
    "list_for N E (upd_timer t f s) = list_for N E s"
    by (auto simp: timers_ok_def upd_timer_def timer_entries_def period_of_def armed_def expires_at_def arrangement_def
        fun_eq_iff list_for_def)
qed

text \<open>\<open>tally s t\<close> counts the callbacks of timer \<open>t\<close>; only callbacks change it.\<close>

locale timer_callbacks =
  fixes cb :: "u32 \<Rightarrow> nat \<Rightarrow> 'a timer_state_scheme \<Rightarrow> 'a timer_state_scheme option"
    and tally :: "'a timer_state_scheme \<Rightarrow> nat \<Rightarrow> u32"
  assumes runs: "\<exists>s'. cb f t s = Some s' \<and> frame s' = frame s \<and> tally s' = (tally s)(t := tally s t + 1)"
    and tally_lists: "tally (s\<lparr>timer_lists := x1\<rparr>) = tally s"
    and tally_container: "tally (s\<lparr>timer_container := x2\<rparr>) = tally s"
    and tally_value: "tally (s\<lparr>timer_value := x3\<rparr>) = tally s"
    and tally_current: "tally (s\<lparr>pxCurrentTimerList := x4\<rparr>) = tally s"
    and tally_overflow: "tally (s\<lparr>pxOverflowTimerList := x4\<rparr>) = tally s"
    and tally_last: "tally (s\<lparr>xLastTime := x5\<rparr>) = tally s"
    and tally_kern: "tally (s\<lparr>kern := x6\<rparr>) = tally s"
    and tally_heap: "tally (s\<lparr>heap := x8\<rparr>) = tally s"
    and tally_queue: "tally (s\<lparr>xTimerQueue := x7\<rparr>) = tally s"
    and tally_status: "tally (upd_timer t (\<lambda>x. x\<lparr>ucStatus := b x\<rparr>) s) = tally s"
    and tally_period: "tally (upd_timer t (\<lambda>x. x\<lparr>xTimerPeriodInTicks := p\<rparr>) s) = tally s"
begin

lemmas tally_fields = tally_lists tally_container tally_value tally_current tally_overflow tally_last tally_kern tally_heap tally_queue

lemma tally_ops [simp]:
  "tally (set_expiry t E s) = tally s" "tally (timer_insert l t s) = tally s" "tally (unlist t l s) = tally s"
  "tally (upd_timer t (clear_status b) s) = tally s" "tally (upd_timer t (set_status b) s) = tally s"
  using tally_status [of t "\<lambda>x. ucStatus x AND NOT b" s] tally_status [of t "\<lambda>x. ucStatus x OR b" s]
  by (simp_all add: set_expiry_def timer_insert_def unlist_def tally_fields clear_status_def [abs_def] set_status_def [abs_def])

lemma run_callback_effect:
  "\<exists>s'. run_callback cb t s = Some s' \<and> frame s' = frame s \<and> tally s' = (tally s)(t := tally s t + 1)"
  using runs by (simp add: run_callback_def)

section \<open>Reloading\<close>

lemma reload:
  assumes "E \<le> N" and "N < E + epoch" and "0 < period_of s t"
    and "n = (N - E) div period_of s t" and "E' = E + (n + 1) * period_of s t"
  shows "\<exists>s'. prvReloadTimer cb t (of_nat E) (of_nat N) s = Some s' \<and> tally s' = (tally s)(t := tally s t + of_nat n)
    \<and> frame s' = frame (timer_insert (list_for N E' s) t (set_expiry t E' s))"
  using assms
proof (induction "N - E" arbitrary: E s n E' rule: less_induct)
  case less
  let ?P = "period_of s t"
  note ins = insert_timer(1) [OF less.prems(1-3)]
  have v: "of_nat E + xTimerPeriodInTicks (timers s t) = (of_nat (E + ?P) :: tick)" by (simp add: period_of_def)
  show ?case
  proof (cases "E + ?P \<le> N")
    case False
    then have n: "n = 0" using less.prems(1,3) by (simp add: less.prems(4))
    then have E': "E' = E + ?P" by (simp add: less.prems(5))
    have "prvReloadTimer cb t (of_nat E) (of_nat N) s = Some (timer_insert (list_for N E' s) t (set_expiry t E' s))"
      by (subst prvReloadTimer.simps) (use False in \<open>simp add: ins E'\<close>)
    then show ?thesis by (simp add: n)
  next
    case True
    let ?s = "set_expiry t (E + ?P) s"
    obtain s1 where s1: "run_callback cb t ?s = Some s1" "frame s1 = frame ?s" "tally s1 = (tally s)(t := tally s t + 1)"
      using run_callback_effect [of t ?s] by auto
    have p: "period_of s1 t = ?P" using frame_eqD(10) [OF s1(2), of t] by simp
    have st: "prvReloadTimer cb t (of_nat E) (of_nat N) s = prvReloadTimer cb t (of_nat (E + ?P)) (of_nat N) s1"
      by (subst prvReloadTimer.simps) (use True in \<open>simp add: ins [unfolded v] s1(1) v del: of_nat_add\<close>)
    have m: "N - (E + ?P) < N - E" "N < E + ?P + epoch" "0 < period_of s1 t" using True less.prems p by simp_all
    from less.hyps [OF m(1) True m(2,3)] obtain s2 where s2:
      "prvReloadTimer cb t (of_nat (E + ?P)) (of_nat N) s1 = Some s2"
      "tally s2 = (tally s1)(t := tally s1 t + of_nat ((N - (E + ?P)) div ?P))"
      "frame s2 = frame (timer_insert (list_for N (E + ?P + ((N - (E + ?P)) div ?P + 1) * ?P) s1) t
         (set_expiry t (E + ?P + ((N - (E + ?P)) div ?P + 1) * ?P) s1))"
      unfolding p by blast
    have d: "N - E = N - (E + ?P) + 1 * ?P" using True by simp
    have n: "n = (N - (E + ?P)) div ?P + 1"
      unfolding less.prems(4) d by (subst div_mult_self1) (use less.prems(3) in simp_all)
    have E': "E + ?P + ((N - (E + ?P)) div ?P + 1) * ?P = E'"
      unfolding less.prems(5) n by (simp add: algebra_simps)
    have fr: "frame (set_expiry t E' s1) = frame (set_expiry t E' s)" using frame_set_expiry [OF s1(2), of t E'] by simp
    have l: "list_for N E' s1 = list_for N E' s" using frame_eqD(4,5) [OF s1(2)] by (simp add: list_for_def)
    have "frame s2 = frame (timer_insert (list_for N E' s) t (set_expiry t E' s))"
      using s2(3) frame_timer_insert [OF fr] by (simp only: E' l)
    moreover have "tally s2 = (tally s)(t := tally s t + of_nat n)" by (simp add: s2(2) s1(3) n add.assoc)
    ultimately show ?thesis using st s2(1) by simp
  qed
qed

section \<open>One timer\<close>

text \<open>What the specification asks for timer \<open>t\<close> up to time \<open>N\<close>.\<close>

definition due_view :: "nat \<Rightarrow> nat \<Rightarrow> 'a timer_state_scheme \<Rightarrow> nat \<Rightarrow> nat option \<times> u32" where
  "due_view L N s t = after (is_autoreload (timers s t)) (period_of s t) N (armed L s t, tally s t)"

text \<open>Reloading a timer that is in no list, and the last callback.\<close>

lemma reload_and_call:
  assumes "timers_ok s" and "timer_container s t = None" and "0 < period_of s t" and "E \<le> N" and "N < E + epoch"
    and "N div epoch = L div epoch"
  defines "n \<equiv> (N - E) div period_of s t"
  shows "\<exists>s1 s2. prvReloadTimer cb t (of_nat E) (of_nat N) s = Some s1 \<and> run_callback cb t s1 = Some s2
    \<and> timers_ok s2 \<and> arrangement s2 = arrangement s \<and> armed L s2 = (armed L s)(t \<mapsto> E + (n + 1) * period_of s t)
    \<and> tally s2 = (tally s)(t := tally s t + of_nat (n + 1)) \<and> (\<forall>u. u \<noteq> t \<longrightarrow> timer_container s2 u = timer_container s u)"
proof -
  let ?P = "period_of s t" and ?E' = "E + (n + 1) * period_of s t"
  obtain s1 where s1: "prvReloadTimer cb t (of_nat E) (of_nat N) s = Some s1" "tally s1 = (tally s)(t := tally s t + of_nat n)"
    "frame s1 = frame (timer_insert (list_for N ?E' s) t (set_expiry t ?E' s))"
    using reload [OF assms(4,5,3), of n ?E'] by (auto simp: n_def)
  obtain s2 where s2: "run_callback cb t s1 = Some s2" "frame s2 = frame s1" "tally s2 = (tally s1)(t := tally s1 t + 1)"
    using run_callback_effect [of t s1] by blast
  have fr: "frame s2 = frame (timer_insert (list_for N ?E' s) t (set_expiry t ?E' s))" using s2(2) s1(3) by simp
  have ep: "?E' div epoch = N div epoch \<or> ?E' div epoch = Suc (N div epoch)"
  proof -
    have m: "E + n * ?P \<le> N" "N < ?E'" using after_next [OF assms(4,3)] by (simp_all add: n_def)
    have e: "?E' = (E + n * ?P) + ?P" by (simp add: algebra_simps)
    have g: "E \<le> E + n * ?P" by simp
    show ?thesis unfolding e
      by (rule insert_timer(2)) (use m [unfolded e] g assms(3,5) in \<open>linarith+\<close>)
  qed
  have "timers_ok s2" unfolding timers_ok_frame [OF fr] by (rule timer_insert_ok [OF assms(1,2,3)])
  moreover have "armed L s2 = (armed L s)(t \<mapsto> ?E')"
    unfolding armed_frame [OF fr] by (rule armed_insert [OF assms(1,6) ep])
  moreover have "tally s2 = (tally s)(t := tally s t + of_nat (n + 1))" by (simp add: s1(2) s2(3) ac_simps)
  moreover have "arrangement s2 = arrangement s" using arrangement_frame [OF fr] by simp
  moreover have "timer_container s2 u = timer_container s u" if "u \<noteq> t" for u using frame_eqD(2) [OF fr] that by simp
  ultimately show ?thesis using s1(1) s2(1) by blast
qed

lemma stop_and_call:
  assumes "timers_ok s"
  shows "\<exists>s'. run_callback cb t (upd_timer t (clear_status tmrSTATUS_IS_ACTIVE) s) = Some s' \<and> timers_ok s' \<and> arrangement s' = arrangement s
    \<and> armed L s' = armed L s \<and> tally s' = (tally s)(t := tally s t + 1) \<and> timer_container s' = timer_container s"
proof -
  let ?s = "upd_timer t (clear_status tmrSTATUS_IS_ACTIVE) s"
  obtain s' where s': "run_callback cb t ?s = Some s'" "frame s' = frame ?s" "tally s' = (tally ?s)(t := tally ?s t + 1)"
    using run_callback_effect [of t ?s] by blast
  have f: "clear_status tmrSTATUS_IS_ACTIVE = set_status tmrSTATUS_IS_ACTIVE \<or> clear_status tmrSTATUS_IS_ACTIVE = clear_status tmrSTATUS_IS_ACTIVE"
    by simp
  show ?thesis
    using s' timers_ok_frame [OF s'(2)] armed_frame [OF s'(2), of L] arrangement_frame [OF s'(2)] frame_eqD(2) [OF s'(2)]
      upd_active [OF f, where t = t and s = s] assms by simp
qed

lemma process_expired:
  assumes "timers_ok s" and "timer_head (pxCurrentTimerList s) s = Some t" and "N div epoch = L div epoch" and "expires_at L s t \<le> N"
  shows "\<exists>s'. prvProcessExpiredTimer cb (timer_value s t) (of_nat N) s = Some s' \<and> timers_ok s' \<and> arrangement s' = arrangement s
    \<and> (armed L s' t, tally s' t) = due_view L N s t
    \<and> (\<forall>u. u \<noteq> t \<longrightarrow> armed L s' u = armed L s u \<and> tally s' u = tally s u \<and> timer_container s' u = timer_container s u)"
proof -
  let ?c = "pxCurrentTimerList s" and ?E = "expires_at L s t" and ?P = "period_of s t"
  note ok = timers_okD [OF assms(1)]
  have ct: "timer_container s t = Some ?c"
    using assms(2) ok(4) [of t ?c] by (auto simp: timer_head_def split: list.splits)
  define s1 where "s1 = unlist t ?c s"
  have r: "timer_remove t s = Some s1" by (simp add: timer_remove_unlist [OF ct] s1_def)
  have ok1: "timers_ok s1" unfolding s1_def by (rule unlist_ok [OF assms(1) ct])
  have P: "0 < ?P" using ok(5) [of t] ct by simp
  have E: "?E div epoch = L div epoch" "of_nat ?E = timer_value s t" "armed L s t = Some ?E"
    using ct ok(1) unat_tick_less [of "timer_value s t"] unat_tick [of ?E]
    by (simp_all add: expires_at_def armed_def word_unat_eq_iff)
  have a1: "armed L s1 = (armed L s)(t := None)" by (simp add: s1_def armed_unlist [OF ct])
  have c1: "timer_container s1 = (timer_container s)(t := None)" "timers s1 = timers s" "tally s1 = tally s" "period_of s1 = period_of s"
    "arrangement s1 = arrangement s" by (simp_all add: s1_def fun_eq_iff)
  show ?thesis
  proof (cases "is_autoreload (timers s t)")
    case True
    have less: "N < ?E + epoch"
    proof -
      have "N = L div epoch * epoch + N mod epoch" using assms(3) div_mult_mod_eq [of N epoch] by metis
      moreover have "?E = L div epoch * epoch + ?E mod epoch" using E(1) div_mult_mod_eq [of ?E epoch] by metis
      moreover have "N mod epoch < epoch" by simp
      ultimately show ?thesis by linarith
    qed
    have "timer_container s1 t = None" "0 < period_of s1 t" using c1(1,4) P by simp_all
    from reload_and_call [OF ok1 this assms(4) less assms(3)] show ?thesis
      using r True E(2,3) assms(2,4) a1 c1 by (auto simp: prvProcessExpiredTimer_def due_view_def)
  next
    case False
    from stop_and_call [OF ok1, of t L] show ?thesis
      using r False E(3) assms(2,4) a1 c1 by (auto simp: prvProcessExpiredTimer_def due_view_def)
  qed
qed

section \<open>The switch of the lists\<close>

lemma due_view_due_view:
  assumes "timers_ok s" and "M \<le> N" and "(armed L s' u, tally s' u) = due_view L M s u"
    and "arrangement s' = arrangement s"
  shows "due_view L N s' u = due_view L N s u"
proof (cases "timer_container s u = None")
  case True
  then show ?thesis using assms(3) by (simp add: due_view_def armed_def)
next
  case False
  have "0 < period_of s u" by (rule timers_okD(5) [OF assms(1) False])
  then show ?thesis
    using after_after [OF assms(2)] assms(3) arrangement_eqD(4,5) [OF assms(4)] unfolding due_view_def by simp
qed

lemma expire_all:
  "timers_ok s \<Longrightarrow> \<exists>s'. expire_all cb s = Some s' \<and> timers_ok s' \<and> arrangement s' = arrangement s
    \<and> timer_entries s' (pxCurrentTimerList s) = [] \<and> (\<forall>u. (armed L s' u, tally s' u) = due_view L (last_of_epoch L) s u)"
proof (induction "card (set (timer_entries s (pxCurrentTimerList s)))" arbitrary: s rule: less_induct)
  case less
  let ?c = "pxCurrentTimerList s" and ?M = "last_of_epoch L"
  note ok = timers_okD [OF less.prems]
  show ?case
  proof (cases "timer_head ?c s")
    case None
    then have e: "timer_entries s ?c = []" by (simp add: timer_head_def split: list.splits)
    have "due_view L ?M s u = (armed L s u, tally s u)" for u
    proof (cases "timer_container s u = None")
      case False
      then have "timer_container s u = Some (pxOverflowTimerList s)" using ok(6) [of u] ok(4) [of u ?c] e by auto
      from expires_after_epoch [OF less.prems this, of L] show ?thesis by (simp add: due_view_def armed_def False)
    qed (simp add: due_view_def armed_def)
    then show ?thesis using None e less.prems by (subst expire_all.simps) simp
  next
    case (Some t)
    have ct: "timer_container s t = Some ?c"
      using Some ok(4) [of t ?c] by (auto simp: timer_head_def split: list.splits)
    obtain s1 where s1: "prvProcessExpiredTimer cb (timer_value s t) (of_nat ?M) s = Some s1" "timers_ok s1" "arrangement s1 = arrangement s"
      "(armed L s1 t, tally s1 t) = due_view L ?M s t"
      "\<forall>u. u \<noteq> t \<longrightarrow> armed L s1 u = armed L s u \<and> tally s1 u = tally s u \<and> timer_container s1 u = timer_container s u"
      using process_expired [OF less.prems Some, of ?M L] expires_in_epoch [OF less.prems ct, of L] by auto
    note ok1 = timers_okD [OF s1(2)] and se = arrangement_eqD [OF s1(3)]
    have out: "timer_container s1 t \<noteq> Some ?c"
    proof
      assume c: "timer_container s1 t = Some ?c"
      then have "armed L s1 t = Some (expires_at L s1 t)" "expires_at L s1 t \<le> ?M"
        using expires_in_epoch [OF s1(2), of t L] se(1) by (simp_all add: armed_def)
      moreover have "after (is_autoreload (timers s t)) (period_of s t) ?M (armed L s t, tally s t) = (Some x, k) \<Longrightarrow> ?M < x" for x k
        using after_next [of _ ?M "period_of s t"] ok(5) [of t] ct by (cases "armed L s t") (auto split: if_splits)
      ultimately show False using s1(4) unfolding due_view_def by (metis leD)
    qed
    have "set (timer_entries s1 ?c) \<subset> set (timer_entries s ?c)"
    proof
      show "set (timer_entries s1 ?c) \<subseteq> set (timer_entries s ?c)"
      proof
        fix u
        assume "u \<in> set (timer_entries s1 ?c)"
        then have "timer_container s1 u = Some ?c" using ok1(4) by simp
        then show "u \<in> set (timer_entries s ?c)" using out s1(5) ok(4) [of u ?c] by (cases "u = t") auto
      qed
      show "set (timer_entries s1 ?c) \<noteq> set (timer_entries s ?c)" using ct out ok(4) [of t ?c] ok1(4) [of t ?c] by blast
    qed
    then have m: "card (set (timer_entries s1 (pxCurrentTimerList s1))) < card (set (timer_entries s ?c))"
      unfolding se(1) by (intro psubset_card_mono) simp_all
    from less.hyps [OF m s1(2)] obtain s2 where s2: "expire_all cb s1 = Some s2" "timers_ok s2" "arrangement s2 = arrangement s1"
      "timer_entries s2 ?c = []" "\<forall>u. (armed L s2 u, tally s2 u) = due_view L ?M s1 u"
      unfolding se(1) by blast
    have "due_view L ?M s1 u = due_view L ?M s u" for u
    proof (cases "u = t")
      case True
      then show ?thesis using due_view_due_view [OF less.prems order_refl, of L s1 t ?M] s1(3,4) by simp
    next
      case False
      then show ?thesis using s1(5) se(4,5) by (simp add: due_view_def)
    qed
    then have "(armed L s2 u, tally s2 u) = due_view L ?M s u" for u using s2(5) by metis
    moreover have "expire_all cb s = Some s2"
      by (subst expire_all.simps) (simp add: Some s1(1) [unfolded of_nat_last_of_epoch] s2(1))
    ultimately show ?thesis using s2(2,3,4) s1(3) by auto
  qed
qed

section \<open>Sampling the time\<close>

lemma sample_time:
  assumes "timers_ok s" and "xLastTime s = of_nat L" and "xTickCount (kern s) = of_nat N" and "L \<le> N" and "N < L + epoch"
  shows "\<exists>s'. prvSampleTimeNow cb s = Some (of_nat N, N div epoch \<noteq> L div epoch, s') \<and> timers_ok s' \<and> xLastTime s' = of_nat N
    \<and> (\<forall>u. is_autoreload (timers s' u) = is_autoreload (timers s u)) \<and> period_of s' = period_of s
    \<and> (\<forall>u. (armed N s' u, tally s' u) = (if N div epoch = L div epoch then (armed L s u, tally s u) else due_view L (last_of_epoch L) s u))
    \<and> (N div epoch = L div epoch \<longrightarrow> s' = s\<lparr>xLastTime := of_nat N\<rparr>)"
proof -
  have cs: "N div epoch = L div epoch \<or> N div epoch = Suc (L div epoch)" by (rule epoch_cases [OF assms(4,5)]) simp
  have lt: "((of_nat N :: tick) < of_nat L) = (N div epoch \<noteq> L div epoch)"
  proof -
    have "N mod epoch < L mod epoch \<longleftrightarrow> N div epoch \<noteq> L div epoch"
      using cs wrap_distance [OF assms(4,5)] same_epoch_less [of L epoch N] assms(4) by auto
    then show ?thesis by (simp only: word_less_nat_alt unat_tick)
  qed
  show ?thesis
  proof (cases "N div epoch = L div epoch")
    case True
    let ?s = "s\<lparr>xLastTime := of_nat N\<rparr>"
    have "timers_ok ?s" using assms(1) by (simp add: timers_ok_def timer_entries_def period_of_def)
    moreover have "armed N ?s u = armed L s u" for u using True by (simp add: armed_def expires_at_def)
    ultimately show ?thesis
      using True lt assms(2,3) by (simp add: prvSampleTimeNow_def xTaskGetTickCount_def tally_last period_of_def fun_eq_iff Let_def)
  next
    case False
    obtain s1 where s1: "expire_all cb s = Some s1" "timers_ok s1" "arrangement s1 = arrangement s"
      "timer_entries s1 (pxCurrentTimerList s) = []" "\<forall>u. (armed L s1 u, tally s1 u) = due_view L (last_of_epoch L) s u"
      using expire_all [OF assms(1), of L] by blast
    note ok1 = timers_okD [OF s1(2)] and se = arrangement_eqD [OF s1(3)]
    let ?s = "s1\<lparr>pxCurrentTimerList := pxOverflowTimerList s1, pxOverflowTimerList := pxCurrentTimerList s1, xLastTime := of_nat N\<rparr>"
    have none: "timer_container s1 u \<noteq> Some (pxCurrentTimerList s1)" for u
      using s1(4) ok1(4) [of u "pxCurrentTimerList s1"] se(1) by simp
    have "timers_ok ?s"
      using s1(2) unfolding timers_ok_def by (auto simp: timer_entries_def period_of_def)
    moreover have "armed N ?s u = armed L s1 u" for u
      using ok1(6) [of u] none [of u] ok1(1) cs False by (auto simp: armed_def expires_at_def)
    moreover have "prvSampleTimeNow cb s = Some (of_nat N, True, ?s)"
      using False lt assms(2,3) s1(1) by (simp add: prvSampleTimeNow_def xTaskGetTickCount_def prvSwitchTimerLists_def Let_def)
    moreover have "period_of ?s = period_of s" using se(5) by (simp add: period_of_def fun_eq_iff)
    moreover have "tally ?s = tally s1" by (simp add: tally_fields)
    ultimately show ?thesis
      using False s1(5) se(4) by (intro exI [of _ ?s]) (simp add: fun_eq_iff)
  qed
qed

end

end
