(* ===== verification/Rtos_Timer_Cmd.thy ===== *)
theory Rtos_Timer_Cmd
  imports Rtos_Timer_Fire
begin

text \<open>
  The commands of the timer task on the absolute view: whatever the delay between a command and
  its processing, a started timer is where it would be had it been processed at once.
\<close>

lemma set_expiry_free:
  assumes "timers_ok s" and "timer_container s t = None"
  shows "timers_ok (set_expiry t E s)" and "armed L (set_expiry t E s) = armed L s"
proof -
  note ok = timers_okD [OF assms(1)]
  have "t \<notin> set (timer_entries s l)" for l using ok(4) assms(2) by simp
  then have "map ((timer_value s)(t := of_nat E)) (timer_entries s l) = map (timer_value s) (timer_entries s l)" for l
    by (intro map_cong) auto
  then have srt: "sorted (map ((timer_value s)(t := of_nat E)) (timer_entries s l))" for l using ok(3) [of l] by metis
  show "timers_ok (set_expiry t E s)" using assms(1) srt unfolding timers_ok_def by simp
  show "armed L (set_expiry t E s) = armed L s" using assms(2) by (auto simp: armed_def expires_at_def fun_eq_iff)
qed

lemma upd_free:
  assumes "timers_ok s" and "timer_container s t = None"
  shows "timers_ok (upd_timer t f s)"
proof -
  note ok = timers_okD [OF assms(1)]
  let ?s = "upd_timer t f s"
  have e: "timer_container ?s = timer_container s" "timer_entries ?s l = timer_entries s l" "timer_value ?s = timer_value s"
    "pxCurrentTimerList ?s = pxCurrentTimerList s" "pxOverflowTimerList ?s = pxOverflowTimerList s" for l
    by (simp_all add: upd_timer_def timer_entries_def)
  have "timer_container s u \<noteq> None \<longrightarrow> 0 < period_of ?s u" for u
    using ok(5) [of u] assms(2) by (cases "u = t") (auto simp: upd_timer_def period_of_def)
  then show ?thesis using assms(1) unfolding timers_ok_def e by blast
qed

lemma unlist_kern [simp]: "kern (unlist t l s) = kern s"
  by (simp add: unlist_def)

text \<open>What commands and samples keep: the modes and periods of all timers.\<close>

definition modes :: "'a timer_state_scheme \<Rightarrow> (nat \<Rightarrow> bool) \<times> (nat \<Rightarrow> nat)" where
  "modes s = (\<lambda>t. is_autoreload (timers s t), period_of s)"

lemma modes_arrangement: "arrangement s' = arrangement s \<Longrightarrow> modes s' = modes s"
  by (simp add: arrangement_def modes_def)

lemma modesD:
  assumes "modes s' = modes s"
  shows "is_autoreload (timers s' t) = is_autoreload (timers s t)" "period_of s' t = period_of s t"
  using assms by (auto simp: modes_def fun_eq_iff)

text \<open>
  The specification of a command with value \<open>V\<close> at time \<open>N\<close>: the expiry time of its timer and its
  number of callbacks, from \<open>k\<close> before. A start counts from the time \<open>V\<close> the command was sent.
\<close>

definition starts :: "u32 \<Rightarrow> bool" where
  "starts c \<longleftrightarrow> c = 1 \<or> c = 6 \<or> c = 2 \<or> c = 7"

definition changes :: "u32 \<Rightarrow> bool" where
  "changes c \<longleftrightarrow> c = 4 \<or> c = 9"

definition command_spec :: "u32 \<Rightarrow> bool \<Rightarrow> nat \<Rightarrow> nat \<Rightarrow> nat \<Rightarrow> u32 \<Rightarrow> nat option \<times> u32" where
  "command_spec c auto P V N k =
     (if starts c then after auto P N (Some (V + P), k)
      else if changes c then (Some (N + V), k)
      else (None, k))"

text \<open>
  What the interface sends: a start carries its time, which is not in the future and less than an
  epoch ago, for a timer with a period.
\<close>

definition command_sane :: "nat \<Rightarrow> DaemonTaskMessage_t \<Rightarrow> 'a timer_state_scheme \<Rightarrow> nat \<Rightarrow> bool" where
  "command_sane N m s V \<longleftrightarrow> 0 \<le> sint (xMessageID m) \<and> pxTimer m \<noteq> 0 \<and> xMessageValue m = of_nat V \<and> V < N + epoch
     \<and> (starts (xMessageID m) \<longrightarrow> V \<le> N \<and> N < V + epoch \<and> 0 < period_of s (unat (pxTimer m)))
     \<and> (changes (xMessageID m) \<longrightarrow> V < epoch)"

context timer_callbacks
begin

text \<open>The view of timer \<open>u\<close> once the time \<open>N\<close> is sampled.\<close>

definition sampled :: "nat \<Rightarrow> nat \<Rightarrow> 'a timer_state_scheme \<Rightarrow> nat \<Rightarrow> nat option \<times> u32" where
  "sampled L N s u = (if N div epoch = L div epoch then (armed L s u, tally s u) else due_view L (last_of_epoch L) s u)"

lemma command_prefix:
  assumes "timers_ok s" and "xLastTime s = of_nat L" and "xTickCount (kern s) = of_nat N" and "L \<le> N" and "N < L + epoch"
  shows "\<exists>s0 s1 sw. (if timer_container s t \<noteq> None then timer_remove t s else Some s) = Some s0
    \<and> prvSampleTimeNow cb s0 = Some (of_nat N, sw, s1) \<and> timers_ok s1 \<and> xLastTime s1 = of_nat N
    \<and> modes s1 = modes s \<and> timer_container s1 t = None \<and> tally s1 t = tally s t
    \<and> (\<forall>u. u \<noteq> t \<longrightarrow> (armed N s1 u, tally s1 u) = sampled L N s u)"
proof -
  obtain s0 where s0: "(if timer_container s t \<noteq> None then timer_remove t s else Some s) = Some s0" "timers_ok s0"
    "xLastTime s0 = xLastTime s" "kern s0 = kern s" "armed L s0 = (armed L s)(t := None)" "tally s0 = tally s" "arrangement s0 = arrangement s"
  proof (cases "timer_container s t")
    case None
    then have "(armed L s)(t := None) = armed L s" by (auto simp: armed_def fun_eq_iff)
    then show thesis using that [of s] None assms(1) by simp
  next
    case (Some l)
    then show thesis
      using that [of "unlist t l s"] unlist_ok [OF assms(1) Some] armed_unlist [OF Some] by (simp add: timer_remove_unlist)
  qed
  obtain s1 where s1: "prvSampleTimeNow cb s0 = Some (of_nat N, N div epoch \<noteq> L div epoch, s1)" "timers_ok s1" "xLastTime s1 = of_nat N"
    "\<forall>u. is_autoreload (timers s1 u) = is_autoreload (timers s0 u)" "period_of s1 = period_of s0"
    "\<forall>u. (armed N s1 u, tally s1 u) = (if N div epoch = L div epoch then (armed L s0 u, tally s0 u) else due_view L (last_of_epoch L) s0 u)"
    using sample_time [OF s0(2), of L N] s0(3,4) assms(2-5) by auto
  have t: "armed N s1 t = None" "tally s1 t = tally s t"
    using s1(6) [rule_format, of t] s0(5,6) by (simp_all add: due_view_def split: if_splits)
  have "timer_container s1 t = None" using t(1) by (simp add: armed_def split: if_splits)
  moreover have "(armed N s1 u, tally s1 u) = sampled L N s u" if "u \<noteq> t" for u
    using s1(6) [rule_format, of u] s0(5,6) that arrangement_eqD(4,5) [OF s0(7)] by (simp add: sampled_def due_view_def)
  moreover have "modes s1 = modes s" using s1(4,5) modes_arrangement [OF s0(7)] by (simp add: modes_def)
  ultimately show ?thesis using s0(1) s1(1-3) t(2) by blast
qed

lemma start_timer_exact:
  assumes "timers_ok s" and "timer_container s t = None" and "0 < period_of s t" and "C \<le> N" and "N < C + epoch"
  shows "\<exists>s'. start_timer cb t (of_nat C) (of_nat N) s = Some s' \<and> timers_ok s' \<and> arrangement s' = arrangement s
    \<and> (armed N s' t, tally s' t) = after (is_autoreload (timers s t)) (period_of s t) N (Some (C + period_of s t), tally s t)
    \<and> (\<forall>u. u \<noteq> t \<longrightarrow> armed N s' u = armed N s u \<and> tally s' u = tally s u)"
proof -
  let ?f = "set_status tmrSTATUS_IS_ACTIVE"
  let ?s = "upd_timer t ?f s" and ?P = "period_of s t" and ?E = "C + period_of s t"
  have f: "?f = set_status tmrSTATUS_IS_ACTIVE \<or> ?f = clear_status tmrSTATUS_IS_ACTIVE" by simp
  note ua = upd_active [OF f, where t = t and s = s]
  have ok: "timers_ok ?s" "timer_container ?s t = None" using ua(1,4) assms(1,2) by simp_all
  have pa: "period_of ?s t = ?P" "is_autoreload (timers ?s t) = is_autoreload (timers s t)"
    using arrangement_eqD(4,5) [OF ua(3)] by simp_all
  have P: "0 < period_of ?s t" using pa assms(3) by simp
  note ins = insert_timer [OF assms(4,5) P, unfolded pa(1)]
  have v: "of_nat C + xTimerPeriodInTicks (timers ?s t) = (of_nat ?E :: tick)"
    unfolding pa(1) [symmetric] by (simp add: period_of_def)
  show ?thesis
  proof (cases "?E \<le> N")
    case False
    let ?s1 = "timer_insert (list_for N ?E ?s) t (set_expiry t ?E ?s)"
    have ep: "?E div epoch = N div epoch \<or> ?E div epoch = Suc (N div epoch)" using ins(2) False by simp
    have "start_timer cb t (of_nat C) (of_nat N) s = Some ?s1"
      using False by (simp add: start_timer_def Let_def ins(1))
    moreover have "timers_ok ?s1" by (rule timer_insert_ok [OF ok P])
    moreover have "armed N ?s1 = (armed N s)(t \<mapsto> ?E)" using armed_insert [OF ok(1) refl ep] ua(2) by simp
    moreover have "tally ?s1 = tally s" by simp
    moreover have "arrangement ?s1 = arrangement s" using ua(3) by simp
    ultimately show ?thesis using False by auto
  next
    case True
    let ?s1 = "set_expiry t ?E ?s"
    have ok1: "timers_ok ?s1" "armed N ?s1 = armed N s" "timer_container ?s1 t = None" "arrangement ?s1 = arrangement s"
      "period_of ?s1 t = ?P" "tally ?s1 = tally s" "is_autoreload (timers ?s1 t) = is_autoreload (timers s t)"
      using set_expiry_free [OF ok] ua(2,3) ok(2) pa by simp_all
    show ?thesis
    proof (cases "is_autoreload (timers s t)")
      case auto: True
      have N: "N < ?E + epoch" using assms(5) by simp
      have "0 < period_of ?s1 t" using ok1(5) assms(3) by simp
      from reload_and_call [OF ok1(1,3) this True N refl, unfolded ok1] obtain s1 s2 where
        s2: "prvReloadTimer cb t (of_nat ?E) (of_nat N) ?s1 = Some s1" "run_callback cb t s1 = Some s2" "timers_ok s2"
        "arrangement s2 = arrangement s" "armed N s2 = (armed N s)(t \<mapsto> ?E + ((N - ?E) div ?P + 1) * ?P)"
        "tally s2 = (tally s)(t := tally s t + of_nat ((N - ?E) div ?P + 1))" by blast
      have "start_timer cb t (of_nat C) (of_nat N) s = Some s2"
        unfolding start_timer_def Let_def using True auto s2(1,2) pa(2) by (simp add: ins(1) [unfolded v] v del: of_nat_add)
      then show ?thesis using s2(3-6) True auto by (intro exI [of _ s2]) simp
    next
      case False
      from stop_and_call [OF ok1(1), of t N, unfolded ok1] obtain s2 where
        s2: "run_callback cb t (upd_timer t (clear_status tmrSTATUS_IS_ACTIVE) ?s1) = Some s2" "timers_ok s2"
        "arrangement s2 = arrangement s" "armed N s2 = armed N s" "tally s2 = (tally s)(t := tally s t + 1)" by blast
      have "armed N s t = None" using assms(2) by (simp add: armed_def)
      moreover have "start_timer cb t (of_nat C) (of_nat N) s = Some s2"
        unfolding start_timer_def Let_def using True False s2(1) pa(2) by (simp add: ins(1) [unfolded v] v del: of_nat_add)
      ultimately show ?thesis using s2(2-5) True False by (intro exI [of _ s2]) simp
    qed
  qed
qed

lemma change_period_exact:
  assumes "timers_ok s" and "timer_container s t = None" and "0 < V" and "V < epoch"
  shows "\<exists>s'. change_timer_period t (of_nat V) (of_nat N) s = Some s' \<and> timers_ok s' \<and> xLastTime s' = xLastTime s
    \<and> armed N s' t = Some (N + V) \<and> tally s' = tally s
    \<and> (\<forall>u. u \<noteq> t \<longrightarrow> armed N s' u = armed N s u \<and> is_autoreload (timers s' u) = is_autoreload (timers s u) \<and> period_of s' u = period_of s u)"
proof -
  let ?f = "set_status tmrSTATUS_IS_ACTIVE"
  let ?s = "upd_timer t ?f s"
  let ?s1 = "upd_timer t (\<lambda>x. x\<lparr>xTimerPeriodInTicks := of_nat V\<rparr>) ?s"
  have f: "?f = set_status tmrSTATUS_IS_ACTIVE \<or> ?f = clear_status tmrSTATUS_IS_ACTIVE" by simp
  note ua = upd_active [OF f, where t = t and s = s]
  have p: "period_of ?s1 t = V" "period_of ?s1 u = (if u = t then V else period_of ?s u)" for u
    using assms(4) by (simp_all add: period_of_def upd_timer_def unat_tick)
  have ok: "timers_ok ?s1" by (rule upd_free) (use ua(1,4) assms(1,2) in simp_all)
  have o: "timer_container ?s1 t = None" "armed N ?s1 = armed N s" "tally ?s1 = tally s" "xLastTime ?s1 = xLastTime s"
    using ua(2,4) assms(2) by (simp_all add: tally_period, simp_all add: upd_timer_def armed_def expires_at_def fun_eq_iff)
  have au: "is_autoreload (timers ?s1 u) = is_autoreload (timers s u)" "u \<noteq> t \<Longrightarrow> period_of ?s1 u = period_of s u" for u
  proof -
    have "is_autoreload (timers ?s1 u) = is_autoreload (timers ?s u)" by (simp add: upd_timer_def is_autoreload_def)
    then show "is_autoreload (timers ?s1 u) = is_autoreload (timers s u)" using arrangement_eqD(4) [OF ua(3)] by metis
    show "period_of ?s1 u = period_of s u" if "u \<noteq> t" using that p(2) [of u] arrangement_eqD(5) [OF ua(3)] by metis
  qed
  have P: "0 < period_of ?s1 t" using p(1) assms(3) by simp
  have le: "N \<le> N" "N < N + epoch" by simp_all
  note ins = insert_timer [OF le P, unfolded p(1)]
  let ?s2 = "timer_insert (list_for N (N + V) ?s1) t (set_expiry t (N + V) ?s1)"
  have ep: "(N + V) div epoch = N div epoch \<or> (N + V) div epoch = Suc (N div epoch)" using ins(2) assms(3) by simp
  have "xTimerPeriodInTicks (timers ?s1 t) > 0" using P by (simp add: period_of_def word_gt_0 unat_gt_0)
  then have "change_timer_period t (of_nat V) (of_nat N) s = Some ?s2"
    using ins(1) assms(3) by (simp add: change_timer_period_def Let_def)
  moreover have "timers_ok ?s2" by (rule timer_insert_ok [OF ok o(1) P])
  moreover have "armed N ?s2 = (armed N s)(t \<mapsto> N + V)" using armed_insert [OF ok refl ep] o(2) by simp
  ultimately show ?thesis using o(3,4) au by auto
qed

lemma task_free_frame:
  assumes "task_free ucHeap t s = Some s'"
  shows "frame s' = frame s" "tally s' = tally s"
proof -
  obtain h k where "s' = s\<lparr>heap := h, kern := k\<rparr>" using assms by (auto simp: task_free_def)
  then show "frame s' = frame s" "tally s' = tally s" by (simp_all add: frame_def tally_fields)
qed

lemma command_effect:
  assumes "timers_ok s" and "xLastTime s = of_nat L" and "xTickCount (kern s) = of_nat N" and "L \<le> N" and "N < L + epoch"
    and "command_sane N m s V" and "process_command cb ucHeap m s = Some s'"
  defines "t \<equiv> unat (pxTimer m)"
  shows "timers_ok s'" and "xLastTime s' = of_nat N"
    and "(armed N s' t, tally s' t) = command_spec (xMessageID m) (is_autoreload (timers s t)) (period_of s t) V N (tally s t)"
    and "u \<noteq> t \<Longrightarrow> (armed N s' u, tally s' u) = sampled L N s u"
    and "u \<noteq> t \<Longrightarrow> is_autoreload (timers s' u) = is_autoreload (timers s u) \<and> period_of s' u = period_of s u"
proof -
  obtain s0 s1 sw where s1: "(if timer_container s t \<noteq> None then timer_remove t s else Some s) = Some s0"
    "prvSampleTimeNow cb s0 = Some (of_nat N, sw, s1)" "timers_ok s1" "xLastTime s1 = of_nat N" "modes s1 = modes s"
    "timer_container s1 t = None" "tally s1 t = tally s t" "\<forall>u. u \<noteq> t \<longrightarrow> (armed N s1 u, tally s1 u) = sampled L N s u"
    using command_prefix [OF assms(1-5), of t] by blast
  let ?id = "xMessageID m"
  have t: "t \<noteq> 0" "0 \<le> sint ?id" using assms(6) by (simp_all add: command_sane_def t_def unat_eq_zero)
  have n1: "armed N s1 t = None" using s1(6) by (simp add: armed_def)
  have pc: "process_command cb ucHeap m s =
     (if starts ?id then start_timer cb t (of_nat V) (of_nat N) s1
      else if ?id = 3 \<or> ?id = 8 then Some (stop_timer t s1)
      else if changes ?id then change_timer_period t (of_nat V) (of_nat N) s1
      else if ?id = 5 then delete_timer ucHeap t s1
      else Some s1)"
    using t assms(6) s1(1,2) unfolding process_command_def starts_def changes_def command_sane_def t_def by simp
  have pm: "period_of s1 t = period_of s t" "is_autoreload (timers s1 t) = is_autoreload (timers s t)"
    using modesD [OF s1(5)] by simp_all
  let ?g = "timers_ok s' \<and> xLastTime s' = of_nat N
    \<and> (armed N s' t, tally s' t) = command_spec ?id (is_autoreload (timers s t)) (period_of s t) V N (tally s t)
    \<and> (\<forall>u. u \<noteq> t \<longrightarrow> (armed N s' u, tally s' u) = sampled L N s u
         \<and> is_autoreload (timers s' u) = is_autoreload (timers s u) \<and> period_of s' u = period_of s u)"
  have quiet: ?g if "timers_ok s'" "xLastTime s' = xLastTime s1" "armed N s' = armed N s1" "tally s' = tally s1" "modes s' = modes s1"
    "\<not> starts ?id" "\<not> changes ?id"
    using that s1(4,7,8) n1 modesD [OF that(5)] modesD [OF s1(5)] by (simp add: command_spec_def)
  have stopped: "timers_ok (stop_timer t s1)" "xLastTime (stop_timer t s1) = xLastTime s1" "armed N (stop_timer t s1) = armed N s1"
    "tally (stop_timer t s1) = tally s1" "modes (stop_timer t s1) = modes s1"
    using upd_active [of "clear_status tmrSTATUS_IS_ACTIVE", where t = t and s = s1] s1(3) modes_arrangement
    by (simp_all add: stop_timer_def, simp_all add: upd_timer_def)
  have ?g
  proof (cases "starts ?id")
    case True
    then have c: "0 < period_of s1 t" "V \<le> N" "N < V + epoch" using assms(6) pm(1) by (simp_all add: command_sane_def t_def)
    from start_timer_exact [OF s1(3,6) c] obtain s2 where s2: "start_timer cb t (of_nat V) (of_nat N) s1 = Some s2" "timers_ok s2"
      "arrangement s2 = arrangement s1"
      "(armed N s2 t, tally s2 t) = after (is_autoreload (timers s1 t)) (period_of s1 t) N (Some (V + period_of s1 t), tally s1 t)"
      "\<forall>u. u \<noteq> t \<longrightarrow> armed N s2 u = armed N s1 u \<and> tally s2 u = tally s1 u" by blast
    have "s' = s2" using assms(7) pc True s2(1) by simp
    then show ?thesis
      using s2(2-5) True s1(4,7,8) pm arrangement_eqD(3,4,5) [OF s2(3)] modesD [OF s1(5)] by (simp add: command_spec_def)
  next
    case ns: False
    show ?thesis
    proof (cases "changes ?id")
      case True
      then have nid: "?id \<noteq> 3" "?id \<noteq> 8" by (auto simp: changes_def)
      have V: "V < epoch" using assms(6) True by (simp add: command_sane_def)
      have "0 < V"
      proof (rule ccontr)
        assume "\<not> 0 < V"
        then show False using assms(7) pc ns True nid by (simp add: change_timer_period_def Let_def upd_timer_def)
      qed
      from change_period_exact [OF s1(3,6) this V] obtain s2 where s2: "change_timer_period t (of_nat V) (of_nat N) s1 = Some s2"
        "timers_ok s2" "xLastTime s2 = xLastTime s1" "armed N s2 t = Some (N + V)" "tally s2 = tally s1"
        "\<forall>u. u \<noteq> t \<longrightarrow> armed N s2 u = armed N s1 u \<and> is_autoreload (timers s2 u) = is_autoreload (timers s1 u) \<and> period_of s2 u = period_of s1 u"
        by blast
      have "s' = s2" using assms(7) pc ns True nid s2(1) by simp
      then show ?thesis
        using s2(2-6) ns True s1(4,7,8) modesD [OF s1(5)] by (simp add: command_spec_def)
    next
      case nc: False
      consider "?id = 3 \<or> ?id = 8" | "?id = 5" | "?id \<notin> {3, 8, 5}" by auto
      then show ?thesis
      proof cases
        case 1
        then have "s' = stop_timer t s1" using assms(7) pc ns nc by auto
        then show ?thesis using quiet stopped ns nc by simp
      next
        case 2
        then have d: "delete_timer ucHeap t s1 = Some s'" using assms(7) pc ns nc by simp
        show ?thesis
        proof (cases "ucStatus (timers s1 t) AND tmrSTATUS_IS_STATICALLY_ALLOCATED = 0")
          case True
          then have fr: "task_free ucHeap t s1 = Some s'" using d by (simp add: delete_timer_def)
          note ff = task_free_frame [OF fr]
          have "modes s' = modes s1" using arrangement_frame [OF ff(1)] modes_arrangement by blast
          then show ?thesis
            using quiet ff(2) timers_ok_frame [OF ff(1)] armed_frame [OF ff(1)] frame_eqD(6) [OF ff(1)] s1(3) ns nc by simp
        next
          case False
          then have "s' = stop_timer t s1" using d by (simp add: delete_timer_def stop_timer_def)
          then show ?thesis using quiet stopped ns nc by simp
        qed
      next
        case 3
        then have "s' = s1" using assms(7) pc ns nc by simp
        then show ?thesis using quiet s1(3) ns nc by simp
      qed
    qed
  qed
  then show "timers_ok s'" and "xLastTime s' = of_nat N"
    and "(armed N s' t, tally s' t) = command_spec ?id (is_autoreload (timers s t)) (period_of s t) V N (tally s t)"
    and "u \<noteq> t \<Longrightarrow> (armed N s' u, tally s' u) = sampled L N s u"
    and "u \<noteq> t \<Longrightarrow> is_autoreload (timers s' u) = is_autoreload (timers s u) \<and> period_of s' u = period_of s u" by blast+
qed

text \<open>A command returns, unless it asks for the period 0 or its timer's memory cannot be freed.\<close>

lemma command_returns:
  assumes "timers_ok s" and "xLastTime s = of_nat L" and "xTickCount (kern s) = of_nat N" and "L \<le> N" and "N < L + epoch"
    and "command_sane N m s V" and "changes (xMessageID m) \<Longrightarrow> 0 < V" and "xMessageID m \<noteq> 5"
  shows "\<exists>s'. process_command cb ucHeap m s = Some s'"
proof -
  let ?t = "unat (pxTimer m)"
  obtain s0 s1 sw where s1: "(if timer_container s ?t \<noteq> None then timer_remove ?t s else Some s) = Some s0"
    "prvSampleTimeNow cb s0 = Some (of_nat N, sw, s1)" "timers_ok s1" "modes s1 = modes s" "timer_container s1 ?t = None"
    using command_prefix [OF assms(1-5), of ?t] by blast
  have st: "starts (xMessageID m) \<Longrightarrow> \<exists>s'. start_timer cb ?t (of_nat V) (of_nat N) s1 = Some s'"
    using start_timer_exact [OF s1(3,5), of V N] assms(6) modesD(2) [OF s1(4)] by (auto simp: command_sane_def)
  have ch: "changes (xMessageID m) \<Longrightarrow> \<exists>s'. change_timer_period ?t (of_nat V) (of_nat N) s1 = Some s'"
    using change_period_exact [OF s1(3,5), of V N] assms(6,7) by (auto simp: command_sane_def)
  have v: "xMessageValue m = of_nat V" using assms(6) by (simp add: command_sane_def)
  show ?thesis
    using st ch s1(1,2) assms(8) by (simp add: process_command_def Let_def v starts_def changes_def)
qed

text \<open>A delete command leaves a statically allocated timer in place, inactive, and frees any other one.\<close>

lemma command_deletes:
  assumes "timers_ok s" and "xLastTime s = of_nat L" and "xTickCount (kern s) = of_nat N" and "L \<le> N" and "N < L + epoch"
    and "N div epoch = L div epoch" and "xMessageID m = 5" and "t = unat (pxTimer m)" and "t \<noteq> 0"
  shows "if ucStatus (timers s t) AND tmrSTATUS_IS_STATICALLY_ALLOCATED \<noteq> 0
    then \<exists>s'. process_command cb ucHeap m s = Some s' \<and> heap s' = heap s \<and> ucStatus (timers s' t) AND tmrSTATUS_IS_ACTIVE = 0
    else map_option heap (process_command cb ucHeap m s) = map_option heap (task_free ucHeap t s)"
proof -
  obtain s0 where s0: "(if timer_container s t \<noteq> None then timer_remove t s else Some s) = Some s0"
    "timers_ok s0" "xLastTime s0 = xLastTime s" "kern s0 = kern s" "heap s0 = heap s" "timers s0 = timers s"
  proof (cases "timer_container s t")
    case (Some l)
    then show thesis using that [of "unlist t l s"] unlist_ok [OF assms(1) Some] by (simp add: timer_remove_unlist) (simp add: unlist_def)
  qed (use that [of s] assms(1) in simp)
  have "\<exists>sw. prvSampleTimeNow cb s0 = Some (of_nat N, sw, s0\<lparr>xLastTime := of_nat N\<rparr>)"
    using sample_time [OF s0(2), of L N] s0(3,4) assms(2-6) by auto
  then have "process_command cb ucHeap m s = delete_timer ucHeap t (s0\<lparr>xLastTime := of_nat N\<rparr>)"
    using s0(1) assms(7-9) by (auto simp: process_command_def Let_def)
  moreover have "(x AND NOT 1) AND 1 = (0 :: u8)" for x by (rule bit_word_eqI) (auto simp: bit_simps)
  ultimately show ?thesis using s0(4-6)
    by (auto simp: delete_timer_def task_free_def upd_timer_def clear_status_def option.map_comp o_def split_def)
qed

end

end
