(* ===== verification/Rtos_Timer_Run.thy ===== *)
theory Rtos_Timer_Run
  imports Rtos_Timer_Cmd
begin

text \<open>
  Runs of the timer task, with other tasks, interrupts and commands for other timers in between:
  whenever the task goes to sleep, each timer it left alone is exactly where its schedule says,
  with exactly as many callbacks.
\<close>

section \<open>Interrupts while the scheduler is suspended\<close>

definition paused :: "kernel \<Rightarrow> kernel \<Rightarrow> bool" where
  "paused k k' \<longleftrightarrow> xTickCount k' = xTickCount k \<and> uxSchedulerSuspended k' = uxSchedulerSuspended k"

lemma paused_refl [simp]: "paused k k"
  by (simp add: paused_def)

lemma paused_trans: "paused k k1 \<Longrightarrow> paused k1 k2 \<Longrightarrow> paused k k2"
  by (simp add: paused_def)

lemma paused_fields [simp]:
  "xTickCount (list_insert_end l it k) = xTickCount k" "xTickCount (prvAddTaskToReadyList t k) = xTickCount k"
  "xTickCount (yield_if b k) = xTickCount k" "xTickCount (set_priority_value t p k) = xTickCount k"
  "uxSchedulerSuspended (list_insert_end l it k) = uxSchedulerSuspended k"
  "uxSchedulerSuspended (prvAddTaskToReadyList t k) = uxSchedulerSuspended k"
  "uxSchedulerSuspended (yield_if b k) = uxSchedulerSuspended k"
  "uxSchedulerSuspended (set_priority_value t p k) = uxSchedulerSuspended k"
  by (simp_all add: list_insert_end_def prvAddTaskToReadyList_def yield_if_def portYIELD_def set_priority_value_def
      set_item_value_def Let_def)

lemma paused_list_remove: "list_remove it k = Some k' \<Longrightarrow> paused k k'"
  by (auto simp: paused_def list_remove_def bind_eq_Some_conv)

lemma paused_remove_from_event_list:
  assumes "xTaskRemoveFromEventList l k = Some (sw, k')"
  shows "paused k k'"
proof -
  obtain it k1 where it: "head_entry l k = Some it" "list_remove (EventItem (owner it)) k = Some k1"
    using assms by (auto simp: xTaskRemoveFromEventList_def bind_eq_Some_conv Let_def)
  note k1 = paused_list_remove [OF it(2)]
  show ?thesis
  proof (cases "uxSchedulerSuspended k1 = 0")
    case True
    then obtain k2 where k2: "list_remove (StateItem (owner it)) k1 = Some k2"
      using assms it by (auto simp: xTaskRemoveFromEventList_def Let_def bind_eq_Some_conv)
    with assms it True have "k' = prvAddTaskToReadyList (owner it) k2 \<or> k' = (prvAddTaskToReadyList (owner it) k2)\<lparr>xYieldPending := True\<rparr>"
      by (auto simp: xTaskRemoveFromEventList_def Let_def split: if_splits)
    then show ?thesis using k1 paused_list_remove [OF k2] by (auto simp: paused_def)
  next
    case False
    with assms it show ?thesis using k1 by (auto simp: xTaskRemoveFromEventList_def Let_def paused_def split: if_splits)
  qed
qed

lemma paused_wake_first: "wake_first l k = Some (sw, k') \<Longrightarrow> paused k k'"
  using paused_remove_from_event_list by (auto simp: wake_first_def split: if_splits)

lemma paused_disinherit:
  assumes "xTaskPriorityDisinherit h k = Some (r, k')"
  shows "paused k k'"
proof (cases h)
  case None
  then show ?thesis using assms by (simp add: xTaskPriorityDisinherit_def)
next
  case (Some t)
  let ?k = "k\<lparr>uxMutexesHeld := (uxMutexesHeld k)(t := uxMutexesHeld k t - 1)\<rparr>"
  have ok: "\<not> (t \<noteq> pxCurrentTCB k \<or> uxMutexesHeld k t = 0)"
    using assms Some by (auto simp: xTaskPriorityDisinherit_def split: if_splits)
  show ?thesis
  proof (cases "uxPriority k t \<noteq> uxBasePriority k t \<and> uxMutexesHeld k t = 1")
    case True
    then obtain k1 where k1: "list_remove (StateItem t) ?k = Some k1"
      using assms Some ok by (auto simp: xTaskPriorityDisinherit_def Let_def bind_eq_Some_conv)
    then show ?thesis
      using assms Some ok True paused_list_remove [OF k1] by (auto simp: xTaskPriorityDisinherit_def Let_def paused_def)
  next
    case False
    then show ?thesis using assms Some ok by (auto simp: xTaskPriorityDisinherit_def Let_def paused_def split: if_splits)
  qed
qed

lemma paused_copy: "prvCopyDataToQueue item pos q k = Some (y, q', k') \<Longrightarrow> paused k k'"
  by (auto simp: prvCopyDataToQueue_def Let_def bind_eq_Some_conv split: if_splits queue_u.splits dest: paused_disinherit)

lemma paused_isr_exec:
  assumes "isr_exec i q k = Some (q', k')" and "uxSchedulerSuspended k \<noteq> 0"
  shows "paused k k'"
proof (cases i)
  case (IsrSend item)
  then obtain r sw k1 where k1: "xQueueGenericSendFromISR item queueSEND_TO_BACK q k = Some (r, sw, q', k1)" "k' = yield_if sw k1"
    using assms by (auto simp: isr_exec_def)
  then have "paused k k1"
    by (auto simp: xQueueGenericSendFromISR_def Let_def bind_eq_Some_conv split: if_splits
        dest!: paused_copy paused_wake_first intro: paused_trans)
  then show ?thesis using k1(2) by (simp add: paused_def)
next
  case IsrGive
  then obtain r sw k1 where k1: "xQueueGiveFromISR q k = Some (r, sw, q', k1)" "k' = yield_if sw k1"
    using assms by (auto simp: isr_exec_def)
  then have "paused k k1"
    by (auto simp: xQueueGiveFromISR_def Let_def bind_eq_Some_conv split: if_splits
        dest!: paused_wake_first intro: paused_trans)
  then show ?thesis using k1(2) by (simp add: paused_def)
next
  case IsrReceive
  then obtain r sw k1 where k1: "xQueueReceiveFromISR q k = Some (r, sw, q', k1)" "k' = yield_if sw k1"
    using assms by (auto simp: isr_exec_def)
  then have "paused k k1"
    by (auto simp: xQueueReceiveFromISR_def Let_def bind_eq_Some_conv split: if_splits
        dest!: paused_wake_first intro: paused_trans)
  then show ?thesis using k1(2) by (simp add: paused_def)
next
  case IsrTick
  then show ?thesis using assms by (auto simp: isr_exec_def xTaskIncrementTick_def paused_def yield_if_def)
qed

lemma paused_isr_execs:
  "isr_execs is q k = Some (q', k') \<Longrightarrow> uxSchedulerSuspended k \<noteq> 0 \<Longrightarrow> paused k k'"
proof (induction "is" arbitrary: q k)
  case (Cons i "is")
  then obtain q1 k1 where k1: "isr_exec i q k = Some (q1, k1)" "isr_execs is q1 k1 = Some (q', k')"
    by (auto simp: bind_eq_Some_conv)
  have "paused k k1" by (rule paused_isr_exec [OF k1(1) Cons.prems(2)])
  moreover from this have "paused k1 k'" using Cons.IH [OF k1(2)] Cons.prems(2) by (simp add: paused_def)
  ultimately show ?case by (rule paused_trans)
qed simp

section \<open>A pass of the timer task\<close>

text \<open>From view \<open>x\<close> at time \<open>L\<close> to view \<open>y\<close> at \<open>L'\<close>: processed up to some time in between, or not at all.\<close>

definition progress :: "bool \<Rightarrow> nat \<Rightarrow> nat \<Rightarrow> nat \<Rightarrow> nat option \<times> u32 \<Rightarrow> nat option \<times> u32 \<Rightarrow> bool" where
  "progress auto P L L' x y \<longleftrightarrow> y = x \<or> (\<exists>M. L \<le> M \<and> M \<le> L' \<and> y = after auto P M x)"

lemma progress_refl [simp]: "progress auto P L L' x x"
  by (simp add: progress_def)

lemma progress_trans:
  assumes "progress auto P L L1 x y" and "progress auto P L1 L2 y z" and "L \<le> L1" and "L1 \<le> L2" and "fst x = None \<or> 0 < P"
  shows "progress auto P L L2 x z"
proof (cases "fst x = None")
  case True
  then have "after auto P M x = x" for M by (cases x) simp
  then show ?thesis using assms(1,2) by (auto simp: progress_def)
next
  case False
  then have P: "0 < P" using assms(5) by auto
  consider "y = x" | "z = y" | M M' where "L \<le> M" "M \<le> L1" "y = after auto P M x" "L1 \<le> M'" "M' \<le> L2" "z = after auto P M' y"
    using assms(1,2) unfolding progress_def by blast
  then show ?thesis
  proof cases
    case 1
    then show ?thesis using assms(2) le_trans [OF assms(3)] unfolding progress_def by blast
  next
    case 2
    then show ?thesis using assms(1) le_trans [OF _ assms(4)] unfolding progress_def by blast
  next
    case (3 M M')
    have "z = after auto P M' x" using 3 after_after [OF _ P, of M M' auto x] by simp
    moreover have "L \<le> M'" using 3(1,2,4) by simp
    ultimately show ?thesis using 3(5) unfolding progress_def by blast
  qed
qed

text \<open>Once the timer is not due, all that happened is what the specification says.\<close>

lemma progress_settled:
  assumes "progress auto P L N x y" and "fst x = None \<or> 0 < P" and "\<And>E. fst y = Some E \<Longrightarrow> N < E"
  shows "y = after auto P N x"
proof -
  have y: "after auto P N y = y" using assms(3) by (cases y; cases "fst y") auto
  show ?thesis
  proof (cases "y = x")
    case False
    then obtain M where M: "M \<le> N" "y = after auto P M x" using assms(1) by (auto simp: progress_def)
    show ?thesis
    proof (cases "fst x = None")
      case True
      then show ?thesis using M(2) by (cases x) simp
    next
      case False
      then show ?thesis using after_after [OF M(1), of P auto x] assms(2) M(2) y by auto
    qed
  qed (use y in simp)
qed

lemma frame_kern_queue [simp]:
  "frame (s\<lparr>kern := k\<rparr>) = frame s" "frame (s\<lparr>xTimerQueue := q\<rparr>) = frame s" "frame (s\<lparr>xTimerQueue := q, kern := k\<rparr>) = frame s"
  by (simp_all add: frame_def)

lemma isrs_frame:
  assumes "timer_isrs is s = Some s'"
  shows "frame s' = frame s" "uxSchedulerSuspended (kern s) \<noteq> 0 \<Longrightarrow> paused (kern s) (kern s')"
    "\<exists>q k. s' = s\<lparr>xTimerQueue := q, kern := k\<rparr>"
  using assms paused_isr_execs by (auto simp: timer_isrs_def bind_eq_Some_conv)

lemma resume_frame:
  assumes "timer_resume s = Some (y, s')"
  shows "\<exists>k. s' = s\<lparr>kern := k\<rparr>"
  using assms by (auto simp: timer_resume_def)

lemma head_frame: "frame s' = frame s \<Longrightarrow> timer_head l s' = timer_head l s"
  using frame_eqD(11) [of s' s] by (simp add: timer_head_def)

lemma next_time_due:
  assumes "timers_ok s" and "timer_head (pxCurrentTimerList s) s = Some t"
  shows "timer_container s t = Some (pxCurrentTimerList s)" "(timer_value s t \<le> of_nat N) = (expires_at N s t \<le> N)"
proof -
  note ok = timers_okD [OF assms(1)]
  show c: "timer_container s t = Some (pxCurrentTimerList s)"
    using assms(2) ok(4) [of t "pxCurrentTimerList s"] by (auto simp: timer_head_def split: list.splits)
  have "expires_at N s t = N div epoch * epoch + unat (timer_value s t)" using c ok(1) by (simp add: expires_at_def)
  moreover have "N = N div epoch * epoch + N mod epoch" by simp
  ultimately have "(expires_at N s t \<le> N) = (unat (timer_value s t) \<le> N mod epoch)" by linarith
  then show "(timer_value s t \<le> of_nat N) = (expires_at N s t \<le> N)" by (simp only: word_le_nat_alt unat_tick)
qed

text \<open>The state of a run: \<open>L\<close> is the time of the last sample and \<open>N\<close> the time.\<close>

definition run_ok :: "nat \<Rightarrow> nat \<Rightarrow> 'a timer_state_scheme \<Rightarrow> bool" where
  "run_ok L N s \<longleftrightarrow> timers_ok s \<and> xLastTime s = of_nat L \<and> xTickCount (kern s) = of_nat N \<and> L \<le> N \<and> N < L + epoch"

context timer_callbacks
begin

lemma tally_kern_queue [simp]:
  "tally (s\<lparr>kern := k\<rparr>) = tally s" "tally (s\<lparr>xTimerQueue := q\<rparr>) = tally s" "tally (s\<lparr>xTimerQueue := q, kern := k\<rparr>) = tally s"
  by (simp_all add: tally_fields)

lemma isrs_tally: "timer_isrs is s = Some s' \<Longrightarrow> tally s' = tally s"
  by (auto dest!: isrs_frame(3))

lemma last_of_epoch_between: "L \<le> N \<Longrightarrow> N div epoch \<noteq> L div epoch \<Longrightarrow> L \<le> last_of_epoch L \<and> last_of_epoch L \<le> N"
proof -
  assume a: "L \<le> N" "N div epoch \<noteq> L div epoch"
  have "L div epoch < N div epoch" using a div_le_mono [OF a(1), of epoch] by simp
  then have "last_of_epoch L < N" using next_epoch_less [of "last_of_epoch L" epoch N] by simp
  moreover have "L = L div epoch * epoch + L mod epoch" "L mod epoch < epoch" by simp_all
  ultimately show ?thesis unfolding last_of_epoch_def by linarith
qed

lemma pass_effect:
  assumes "run_ok L N s" and "prvProcessTimerOrBlockTask cb env (fst (prvGetNextExpireTime s)) (snd (prvGetNextExpireTime s)) s = Some s'"
  shows "timers_ok s' \<and> xLastTime s' = of_nat N \<and> modes s' = modes s
    \<and> (\<forall>u. progress (is_autoreload (timers s u)) (period_of s u) L N (armed L s u, tally s u) (armed N s' u, tally s' u))"
proof -
  obtain nx empty where ne: "prvGetNextExpireTime s = (nx, empty)" by (metis surj_pair)
  define sa where "sa = s\<lparr>kern := vTaskSuspendAll (kern s)\<rparr>"
  obtain sb sc sd now sw where s: "timer_isrs (env 0) sa = Some sb" "prvSampleTimeNow cb sb = Some (now, sw, sc)"
    "timer_isrs (env 1) sc = Some sd"
    using assms(2) by (auto simp: prvProcessTimerOrBlockTask_def Let_def bind_eq_Some_conv sa_def)
  have rest: "(if \<not> sw then
       if \<not> empty \<and> nx \<le> now then do {
         (_, s) \<leftarrow> timer_resume sd;
         prvProcessExpiredTimer cb nx now s
       } else do {
         let xListWasEmpty = (if empty then timer_entries sd (pxOverflowTimerList sd) = [] else empty);
         q \<leftarrow> xTimerQueue sd;
         (yielded, q, k) \<leftarrow> restricted_wait env (nx - now) xListWasEmpty q (kern sd);
         Some (sd\<lparr>xTimerQueue := Some q, kern := if \<not> yielded then portYIELD k else k\<rparr>)
       }
     else do {
       (_, s) \<leftarrow> timer_resume sd;
       Some s
     }) = Some s'"
    using assms(2) s by (simp add: prvProcessTimerOrBlockTask_def ne sa_def)
  have ok: "timers_ok s" "xLastTime s = of_nat L" "xTickCount (kern s) = of_nat N" "L \<le> N" "N < L + epoch"
    using assms(1) by (simp_all add: run_ok_def)
  have fa: "frame sa = frame s" "tally sa = tally s" "xTickCount (kern sa) = of_nat N" "uxSchedulerSuspended (kern sa) \<noteq> 0"
    using ok(3) by (simp_all add: sa_def vTaskSuspendAll_def)
  have fb: "frame sb = frame s" "tally sb = tally s" "xTickCount (kern sb) = of_nat N"
    using isrs_frame(1,2) [OF s(1)] isrs_tally [OF s(1)] fa by (simp_all add: paused_def)
  have okb: "timers_ok sb" "xLastTime sb = of_nat L" "armed L sb = armed L s" "arrangement sb = arrangement s"
    using timers_ok_frame [OF fb(1)] frame_eqD(6) [OF fb(1)] armed_frame [OF fb(1)] arrangement_frame [OF fb(1)] ok(1,2) by simp_all
  note mb = arrangement_eqD(4,5) [OF okb(4)]
  have sc: "now = of_nat N" "sw = (N div epoch \<noteq> L div epoch)" "timers_ok sc" "xLastTime sc = of_nat N" "modes sc = modes s"
    "\<And>u. (armed N sc u, tally sc u) = (if N div epoch = L div epoch then (armed L s u, tally s u) else due_view L (last_of_epoch L) s u)"
    "N div epoch = L div epoch \<Longrightarrow> sc = sb\<lparr>xLastTime := of_nat N\<rparr>"
    using sample_time [OF okb(1,2) fb(3) ok(4,5)] s(2) mb by (auto simp: okb(3) fb(2) due_view_def modes_def fun_eq_iff)
  have fd: "frame sd = frame sc" "tally sd = tally sc" using isrs_frame(1) [OF s(3)] isrs_tally [OF s(3)] by simp_all
  have okd: "timers_ok sd" "xLastTime sd = of_nat N" "modes sd = modes s" "armed N sd = armed N sc"
    using timers_ok_frame [OF fd(1)] frame_eqD(6) [OF fd(1)] armed_frame [OF fd(1)] arrangement_frame [OF fd(1)] sc(3-5)
      modes_arrangement [of sd sc] by simp_all
  have pg: "progress (is_autoreload (timers s u)) (period_of s u) L N (armed L s u, tally s u) (armed N sd u, tally sd u)" for u
  proof (cases "N div epoch = L div epoch")
    case True
    then show ?thesis using sc(6) [of u] okd(4) fd(2) by simp
  next
    case False
    then show ?thesis using sc(6) [of u] okd(4) fd(2) last_of_epoch_between [OF ok(4) False]
      unfolding progress_def due_view_def by (intro disjI2 exI [of _ "last_of_epoch L"]) simp
  qed
  have done_if: ?thesis if "frame s' = frame sd" "tally s' = tally sd"
    using that okd pg timers_ok_frame [OF that(1)] frame_eqD(6) [OF that(1)] armed_frame [OF that(1)]
      arrangement_frame [OF that(1)] modes_arrangement [of s' sd] by simp
  show ?thesis
  proof (cases sw)
    case True
    then obtain y where "timer_resume sd = Some (y, s')" using rest by (auto simp: bind_eq_Some_conv)
    from resume_frame [OF this] show ?thesis by (intro done_if) auto
  next
    case nsw: False
    show ?thesis
    proof (cases "\<not> empty \<and> nx \<le> now")
      case False
      then obtain q k where "s' = sd\<lparr>xTimerQueue := q, kern := k\<rparr>"
        using rest nsw by (auto simp: Let_def bind_eq_Some_conv split: if_splits)
      then show ?thesis by (intro done_if) auto
    next
      case True
      then obtain y se where se: "timer_resume sd = Some (y, se)" "prvProcessExpiredTimer cb nx now se = Some s'"
        using rest nsw by (auto simp: bind_eq_Some_conv)
      obtain k where k: "se = sd\<lparr>kern := k\<rparr>" using resume_frame [OF se(1)] by blast
      have fe: "frame se = frame sd" "tally se = tally sd" by (simp_all add: k)
      have oke: "timers_ok se" "armed N se = armed N sd" "arrangement se = arrangement sd"
        using timers_ok_frame [OF fe(1)] armed_frame [OF fe(1)] arrangement_frame [OF fe(1)] okd(1) by simp_all
      have ep: "N div epoch = L div epoch" using nsw sc(2) by simp
      have same: "timer_lists se = timer_lists s" "timer_value se = timer_value s" "pxCurrentTimerList se = pxCurrentTimerList s"
        using frame_eqD(1,3,4) [OF fe(1)] frame_eqD(1,3,4) [OF fd(1)] sc(7) [OF ep] frame_eqD(1,3,4) [OF fb(1)] by simp_all
      obtain t where t: "timer_head (pxCurrentTimerList s) s = Some t" "nx = timer_value s t"
        using ne True by (auto simp: prvGetNextExpireTime_def split: option.splits)
      have he: "timer_head (pxCurrentTimerList se) se = Some t"
        using t(1) same by (simp add: timer_head_def timer_entries_def)
      note nt = next_time_due [OF oke(1) he]
      have "expires_at N se t \<le> N" using nt(2) [of N] True t(2) same(2) sc(1) by simp
      from process_expired [OF oke(1) he refl this] obtain sf where sf:
        "prvProcessExpiredTimer cb (timer_value se t) (of_nat N) se = Some sf" "timers_ok sf" "arrangement sf = arrangement se"
        "(armed N sf t, tally sf t) = due_view N N se t"
        "\<forall>u. u \<noteq> t \<longrightarrow> armed N sf u = armed N se u \<and> tally sf u = tally se u" by blast
      have "s' = sf" using se(2) sf(1) t(2) same(2) sc(1) by simp
      moreover have "modes sf = modes s" using modes_arrangement [OF sf(3)] modes_arrangement [OF oke(3)] okd(3) by simp
      moreover have "xLastTime sf = of_nat N" using arrangement_eqD(3) [OF sf(3)] arrangement_eqD(3) [OF oke(3)] okd(2) by simp
      moreover have "progress (is_autoreload (timers s u)) (period_of s u) L N (armed L s u, tally s u) (armed N sf u, tally sf u)" for u
      proof (cases "u = t")
        case True
        have "(armed N se t, tally se t) = (armed L s t, tally s t)" using sc(6) [of t] ep okd(4) oke(2) fd(2) fe(2) by simp
        moreover have "modes se = modes s" using modes_arrangement [OF oke(3)] okd(3) by simp
        ultimately have "(armed N sf t, tally sf t) = after (is_autoreload (timers s t)) (period_of s t) N (armed L s t, tally s t)"
          using sf(4) modesD [of se s t] by (simp add: due_view_def)
        then show ?thesis using True ok(4) unfolding progress_def by blast
      next
        case False
        then show ?thesis using pg [of u] sf(5) oke(2) fe(2) by simp
      qed
      ultimately show ?thesis using sf(2) by simp
    qed
  qed
qed

end

section \<open>Runs\<close>

text \<open>
  Steps of a run, seen by a timer \<open>u\<close>: other tasks and interrupts, which let time pass; passes
  of the timer task; and commands for other timers. The ghost times \<open>L\<close> and \<open>N\<close> are those of
  \<open>run_ok\<close>; the timer task samples the time at least once an epoch.
\<close>

inductive daemon_step ::
  "'a callbacks \<Rightarrow> ('a timer_state_scheme \<Rightarrow> nat \<Rightarrow> u32) \<Rightarrow> nat \<Rightarrow> nat \<Rightarrow>
   nat \<times> nat \<times> 'a timer_state_scheme \<Rightarrow> nat \<times> nat \<times> 'a timer_state_scheme \<Rightarrow> bool" for cb tally ucHeap u where
  others: "frame s' = frame s \<Longrightarrow> tally s' = tally s \<Longrightarrow> N \<le> N' \<Longrightarrow> N' < L + epoch \<Longrightarrow> xTickCount (kern s') = of_nat N'
    \<Longrightarrow> daemon_step cb tally ucHeap u (L, N, s) (L, N', s')"
| pass: "prvProcessTimerOrBlockTask cb env (fst (prvGetNextExpireTime s)) (snd (prvGetNextExpireTime s)) s = Some s'
    \<Longrightarrow> N \<le> N' \<Longrightarrow> N' < N + epoch \<Longrightarrow> xTickCount (kern s') = of_nat N'
    \<Longrightarrow> daemon_step cb tally ucHeap u (L, N, s) (N, N', s')"
| command: "command_sane N m s V \<Longrightarrow> unat (pxTimer m) \<noteq> u \<Longrightarrow> process_command cb ucHeap m s = Some s'
    \<Longrightarrow> N \<le> N' \<Longrightarrow> N' < N + epoch \<Longrightarrow> xTickCount (kern s') = of_nat N'
    \<Longrightarrow> daemon_step cb tally ucHeap u (L, N, s) (N, N', s')"

inductive_cases daemon_stepE: "daemon_step cb tally ucHeap u (L, N, s) (L', N', s')"

text \<open>The condition under which \<open>prvProcessTimerOrBlockTask\<close> waits for the next message or expiry.\<close>

definition timer_task_waits :: "'a timer_state_scheme \<Rightarrow> bool" where
  "timer_task_waits s \<longleftrightarrow>
     (let (xNextExpireTime, xListWasEmpty) = prvGetNextExpireTime s; xTimeNow = xTaskGetTickCount (kern s)
      in \<not> xTimeNow < xLastTime s \<and> \<not> (\<not> xListWasEmpty \<and> xNextExpireTime \<le> xTimeNow))"

lemma waits_not_due:
  assumes "run_ok L N s" and "timer_task_waits s" and "armed L s u = Some E"
  shows "N < E" and "armed N s u = armed L s u"
proof -
  have ok: "timers_ok s" "xLastTime s = of_nat L" "xTickCount (kern s) = of_nat N" "L \<le> N" "N < L + epoch"
    using assms(1) by (simp_all add: run_ok_def)
  note iv = timers_okD [OF ok(1)]
  have ep: "N div epoch = L div epoch"
  proof (rule ccontr)
    assume n: "N div epoch \<noteq> L div epoch"
    then have "N mod epoch < L mod epoch"
      using epoch_cases [OF ok(4,5)] wrap_distance [OF ok(4,5)] by auto
    then have "xTickCount (kern s) < xLastTime s" using ok(2,3) by (simp only: word_less_nat_alt unat_tick)
    then show False using assms(2) by (simp add: timer_task_waits_def xTaskGetTickCount_def case_prod_beta Let_def)
  qed
  show a: "armed N s u = armed L s u" by (simp add: armed_epoch [OF ep])
  show "N < E"
  proof (cases "timer_container s u = Some (pxCurrentTimerList s)")
    case True
    then have u: "u \<in> set (timer_entries s (pxCurrentTimerList s))" using iv(4) by simp
    then obtain t ts where e: "timer_entries s (pxCurrentTimerList s) = t # ts" by (cases "timer_entries s (pxCurrentTimerList s)") auto
    then have h: "timer_head (pxCurrentTimerList s) s = Some t" by (simp add: timer_head_def)
    then have "\<not> timer_value s t \<le> of_nat N"
      using assms(2) ok(3) by (simp add: timer_task_waits_def prvGetNextExpireTime_def xTaskGetTickCount_def Let_def)
    then have t: "N < expires_at N s t" using next_time_due(2) [OF ok(1) h, of N] by simp
    have "timer_value s t \<le> timer_value s u" using iv(3) [of "pxCurrentTimerList s"] u by (auto simp: e)
    then have "expires_at N s t \<le> expires_at N s u"
      using next_time_due(1) [OF ok(1) h] True iv(1) by (simp add: expires_at_def word_le_nat_alt)
    then show ?thesis using t assms(3) a by (simp add: armed_def split: if_splits)
  next
    case False
    then have "timer_container s u = Some (pxOverflowTimerList s)" using iv(6) [of u] assms(3) by (auto simp: armed_def)
    then have "Suc (N div epoch) * epoch \<le> E" using assms(3) a by (auto simp: armed_def expires_at_def)
    moreover have "N < Suc (N div epoch) * epoch"
    proof -
      have "N = N div epoch * epoch + N mod epoch" "N mod epoch < epoch" by simp_all
      then show ?thesis by (metis add.commute mult_Suc nat_add_left_cancel_less)
    qed
    ultimately show ?thesis by linarith
  qed
qed

context timer_callbacks
begin

text \<open>What a run keeps: the invariant, the mode of \<open>u\<close>, and that \<open>u\<close> is on its schedule.\<close>

definition on_schedule :: "nat \<Rightarrow> nat \<times> nat \<times> 'a timer_state_scheme \<Rightarrow> nat \<times> nat \<times> 'a timer_state_scheme \<Rightarrow> bool" where
  "on_schedule u = (\<lambda>(L0, N0, s0) (L, N, s). run_ok L N s \<and> L0 \<le> L
     \<and> is_autoreload (timers s u) = is_autoreload (timers s0 u) \<and> period_of s u = period_of s0 u
     \<and> progress (is_autoreload (timers s0 u)) (period_of s0 u) L0 L (armed L0 s0 u, tally s0 u) (armed L s u, tally s u))"

lemma listed_period: "timers_ok s \<Longrightarrow> fst (armed L s u, tally s u) = None \<or> 0 < period_of s u"
  using timers_okD(5) [of s u] by (cases "timer_container s u = None") (simp_all add: armed_def)

lemma sampled_progress:
  assumes "L \<le> N" and "y = sampled L N s u"
  shows "progress (is_autoreload (timers s u)) (period_of s u) L N (armed L s u, tally s u) y"
proof (cases "N div epoch = L div epoch")
  case True
  then show ?thesis using assms(2) by (simp add: sampled_def)
next
  case False
  then show ?thesis using assms(2) last_of_epoch_between [OF assms(1) False]
    unfolding progress_def sampled_def due_view_def by (intro disjI2 exI [of _ "last_of_epoch L"]) simp
qed

lemma step_on_schedule:
  assumes "run_ok L N s" and "daemon_step cb tally ucHeap u (L, N, s) (L', N', s')"
  shows "run_ok L' N' s' \<and> L \<le> L' \<and> is_autoreload (timers s' u) = is_autoreload (timers s u) \<and> period_of s' u = period_of s u
    \<and> progress (is_autoreload (timers s u)) (period_of s u) L L' (armed L s u, tally s u) (armed L' s' u, tally s' u)"
proof -
  have ok: "timers_ok s" "xLastTime s = of_nat L" "xTickCount (kern s) = of_nat N" "L \<le> N" "N < L + epoch"
    using assms(1) by (simp_all add: run_ok_def)
  from assms(2) consider
    (others) "L' = L" "frame s' = frame s" "tally s' = tally s" "N \<le> N'" "N' < L + epoch" "xTickCount (kern s') = of_nat N'"
  | (pass) env where "L' = N" "prvProcessTimerOrBlockTask cb env (fst (prvGetNextExpireTime s)) (snd (prvGetNextExpireTime s)) s = Some s'"
      "N \<le> N'" "N' < N + epoch" "xTickCount (kern s') = of_nat N'"
  | (command) m V where "L' = N" "command_sane N m s V" "unat (pxTimer m) \<noteq> u" "process_command cb ucHeap m s = Some s'"
      "N \<le> N'" "N' < N + epoch" "xTickCount (kern s') = of_nat N'"
    by (rule daemon_stepE) blast+
  then show ?thesis
  proof cases
    case others
    then show ?thesis
      using ok timers_ok_frame [OF others(2)] frame_eqD(6,9,10) [OF others(2)] armed_frame [OF others(2)]
      by (simp add: run_ok_def)
  next
    case pass
    then show ?thesis
      using pass_effect [OF assms(1) pass(2)] ok(4) modesD [of s' s u] by (auto simp: run_ok_def)
  next
    case command
    note eff = command_effect [OF ok command(2,4)]
    have "u \<noteq> unat (pxTimer m)" using command(3) by simp
    then show ?thesis
      using eff(1,2) eff(4,5) [of u] sampled_progress [OF ok(4), of "(armed N s' u, tally s' u)" s u] command ok(4)
      by (auto simp: run_ok_def)
  qed
qed

lemma run_on_schedule:
  assumes "(daemon_step cb tally ucHeap u)\<^sup>*\<^sup>* (L0, N0, s0) (L, N, s)" and "run_ok L0 N0 s0"
  shows "on_schedule u (L0, N0, s0) (L, N, s)"
  using assms(1)
proof (induction "(L, N, s)" arbitrary: L N s rule: rtranclp_induct)
  case base
  then show ?case using assms(2) by (simp add: on_schedule_def)
next
  case (step y)
  obtain L1 N1 s1 where y: "y = (L1, N1, s1)" by (metis surj_pair)
  have a: "on_schedule u (L0, N0, s0) (L1, N1, s1)" by (rule step.hyps(3) [OF y])
  then have ok: "run_ok L1 N1 s1" and m: "is_autoreload (timers s1 u) = is_autoreload (timers s0 u)" "period_of s1 u = period_of s0 u"
    and l: "L0 \<le> L1"
    and p: "progress (is_autoreload (timers s0 u)) (period_of s0 u) L0 L1 (armed L0 s0 u, tally s0 u) (armed L1 s1 u, tally s1 u)"
    by (simp_all add: on_schedule_def)
  from step_on_schedule [OF ok step.hyps(2) [unfolded y]]
  have b: "run_ok L N s" "L1 \<le> L" "is_autoreload (timers s u) = is_autoreload (timers s1 u)" "period_of s u = period_of s1 u"
    "progress (is_autoreload (timers s0 u)) (period_of s0 u) L1 L (armed L1 s1 u, tally s1 u) (armed L s u, tally s u)"
    using m by simp_all
  have "timers_ok s0" using assms(2) by (simp add: run_ok_def)
  from progress_trans [OF p b(5) l b(2) listed_period [OF this]] show ?case
    using b m l by (simp add: on_schedule_def)
qed

lemma run_settled:
  assumes "(daemon_step cb tally ucHeap u)\<^sup>*\<^sup>* (L0, N0, s0) (L, N, s)" and "run_ok L0 N0 s0" and "timer_task_waits s"
  shows "(armed N s u, tally s u)
    = after (is_autoreload (timers s0 u)) (period_of s0 u) N (armed L0 s0 u, tally s0 u)"
proof -
  have r: "run_ok L N s" "L \<le> N"
    "progress (is_autoreload (timers s0 u)) (period_of s0 u) L0 L (armed L0 s0 u, tally s0 u) (armed L s u, tally s u)"
    using run_on_schedule [OF assms(1,2)] by (simp_all add: on_schedule_def run_ok_def)
  have ok: "timers_ok s0" "timers_ok s" using assms(2) r(1) by (simp_all add: run_ok_def)
  have p: "progress (is_autoreload (timers s0 u)) (period_of s0 u) L0 N (armed L0 s0 u, tally s0 u) (armed L s u, tally s u)"
    using r(3) le_trans [OF _ r(2)] unfolding progress_def by blast
  have "armed N s u = armed L s u"
  proof (cases "armed L s u")
    case None
    then show ?thesis by (simp add: armed_def split: if_splits)
  next
    case (Some E)
    then show ?thesis by (rule waits_not_due(2) [OF r(1) assms(3)])
  qed
  then show ?thesis
    using progress_settled [OF p listed_period [OF ok(1)]] waits_not_due(1) [OF r(1) assms(3)] by simp
qed

end

end
