(* ===== verification/Rtos_Timer_Sys.thy ===== *)
theory Rtos_Timer_Sys
  imports Rtos_Timer_Run Rtos_Life_Safe
begin

text \<open>
  The theorems on software timers, for all callbacks that keep their contract, with callbacks
  that count expiries in the timer's identifier as the instance; and the timer task together
  with its queue: it misses no command and wakes for the next expiry.
\<close>

section \<open>Callbacks that count\<close>

definition count_expiry :: "u32 \<Rightarrow> nat \<Rightarrow> 'a timer_state_scheme \<Rightarrow> 'a timer_state_scheme option" where
  "count_expiry f t s = do {
     n \<leftarrow> pvTimerGetTimerID (Some t) s;
     vTimerSetTimerID (Some t) (n + 1) s
   }"

definition expiry_count :: "'a timer_state_scheme \<Rightarrow> nat \<Rightarrow> u32" where
  "expiry_count s t = pvTimerID (timers s t)"

lemma count_expiry_eq: "count_expiry f t s = Some (upd_timer t (\<lambda>x. x\<lparr>pvTimerID := pvTimerID x + 1\<rparr>) s)"
  by (simp add: count_expiry_def pvTimerGetTimerID_def vTimerSetTimerID_def upd_timer_def)

interpretation counting: timer_callbacks count_expiry expiry_count
  by unfold_locales
    (auto simp: count_expiry_eq expiry_count_def upd_timer_def frame_def fun_eq_iff)

definition sample_timer :: Timer_t where
  "sample_timer = \<lparr>pcTimerName = 0, xTimerPeriodInTicks = 3, pvTimerID = 0, pxCallbackFunction = 0, ucStatus = 5\<rparr>"

text \<open>At tick 99, timer 1 with period 3 is due since tick 90.\<close>

definition sample_timers :: timer_state where
  "sample_timers = \<lparr>kern = sample_kernel, heap = sample_heap, memory = (\<lambda>_. 0), no_current = False, xSchedulerRunning = True,
     uxTaskNumber = 3, uxDeletedTasksWaitingCleanUp = 0, pxStack = (\<lambda>_. 0), pxTopOfStack = (\<lambda>_. 0),
     pcTaskName = (\<lambda>_. replicate 16 0), ucStaticallyAllocated = (\<lambda>_. tskSTATICALLY_ALLOCATED_STACK_AND_TCB),
     ucNotifyState = (\<lambda>_. taskNOT_WAITING_NOTIFICATION), ulNotifiedValue = (\<lambda>_. 0),
     timers = (\<lambda>_. sample_timer), timer_lists = (\<lambda>_. xl_empty)(xActiveTimerList1 := \<lparr>xl_items = [1], xl_idx = 0\<rparr>),
     timer_container = [1 \<mapsto> xActiveTimerList1], timer_value = (\<lambda>_. 90), pxCurrentTimerList = xActiveTimerList1,
     pxOverflowTimerList = xActiveTimerList2, xTimerQueue = Some sample_queue, xTimerTaskHandle = Some 1, xLastTime = 80\<rparr>"

lemma sample_timers_ok: "run_ok 80 99 sample_timers"
  by (auto simp: run_ok_def timers_ok_def sample_timers_def timer_entries_def xl_empty_def period_of_def sample_timer_def
      sample_kernel_def epoch_def split: if_splits)

lemma sample_pass:
  "\<exists>s'. prvProcessTimerOrBlockTask count_expiry (\<lambda>_. []) 90 False sample_timers = Some s' \<and> xTickCount (kern s') = 99
    \<and> timer_task_waits s' \<and> timer_value s' 1 = 102 \<and> expiry_count s' 1 = 4"
  by (simp add: prvProcessTimerOrBlockTask_def timer_isrs_def sample_timers_def prvSampleTimeNow_def xTaskGetTickCount_def
      sample_kernel_def vTaskSuspendAll_def timer_resume_def xTaskResumeAll_def move_pending.simps head_entry_def xl_empty_def Let_def
      prvProcessExpiredTimer_def timer_head_def timer_entries_def timer_remove_def xl_remove_def is_autoreload_def sample_timer_def
      prvReloadTimer.simps prvInsertTimerInActiveList_def run_callback_def count_expiry_eq upd_timer_def
      timer_task_waits_def prvGetNextExpireTime_def expiry_count_def timer_insert_def xl_insert_def xl_split_def)

section \<open>Expiry\<close>

text \<open>
  The test for an expired timer is exact under wrap-around of the 64-bit ticks. A timer that
  was due a period after time \<open>C\<close>, looked at no more than an epoch later, is reported as expired if
  and only if that time is past, and is otherwise put into the list of the epoch it expires in,
  the current or the next.
\<close>

theorem insertion_decides_expiry:
  assumes "C \<le> N" and "N < C + epoch" and "0 < period_of s t" and "E = C + period_of s t"
  shows "prvInsertTimerInActiveList t (of_nat C + xTimerPeriodInTicks (timers s t)) (of_nat N) (of_nat C) s
    = (if E \<le> N then (True, set_expiry t E s)
       else (False, timer_insert (if E div epoch = N div epoch then pxCurrentTimerList s else pxOverflowTimerList s) t (set_expiry t E s)))
    \<and> (N < E \<longrightarrow> E div epoch = N div epoch \<or> E div epoch = N div epoch + 1)"
  using insert_timer [OF assms(1-3)] unfolding list_for_def assms(4) by simp

lemma insertion_decides_expiry_witness:
  "prvInsertTimerInActiveList 1 (of_nat (epoch - 1) + 3) (of_nat (epoch + 5)) (of_nat (epoch - 1)) sample_timers
    = (True, set_expiry 1 (epoch + 2) sample_timers)"
proof -
  have p: "xTimerPeriodInTicks (timers sample_timers 1) = 3" "period_of sample_timers 1 = 3"
    by (simp_all add: sample_timers_def sample_timer_def period_of_def)
  have "epoch - 1 \<le> epoch + 5" "epoch + 5 < epoch - 1 + epoch" "(0::nat) < 3" "epoch + 2 = epoch - 1 + 3"
    by (simp_all add: epoch_def)
  from insertion_decides_expiry [OF this(1,2), of sample_timers 1 "epoch + 2", unfolded p, OF this(3,4)]
  show ?thesis by simp
qed

text \<open>
  C17: the switch of the lists at an overflow of the tick count returns, and leaves no timer behind:
  every timer of the old list fires for each of its periods up to the end of the epoch, and its next expiry is
  in the new epoch; the timers of the other list keep theirs.
\<close>

theorem overflow_leaves_no_timer:
  assumes "timer_callbacks cb tally" and "timers_ok s"
  shows "\<exists>s'. prvSwitchTimerLists cb s = Some s' \<and> timers_ok s' \<and> pxCurrentTimerList s' = pxOverflowTimerList s
    \<and> timer_entries s' (pxOverflowTimerList s') = []
    \<and> (\<forall>u. (armed (L + epoch) s' u, tally s' u)
           = after (is_autoreload (timers s u)) (period_of s u) (last_of_epoch L) (armed L s u, tally s u))"
proof -
  obtain s1 where s1: "expire_all cb s = Some s1" "timers_ok s1" "arrangement s1 = arrangement s"
    "timer_entries s1 (pxCurrentTimerList s) = []"
    "\<forall>u. (armed L s1 u, tally s1 u) = timer_callbacks.due_view tally L (last_of_epoch L) s u"
    using timer_callbacks.expire_all [OF assms, of L] by blast
  note ok1 = timers_okD [OF s1(2)] and se = arrangement_eqD [OF s1(3)]
  let ?s = "s1\<lparr>pxCurrentTimerList := pxOverflowTimerList s1, pxOverflowTimerList := pxCurrentTimerList s1\<rparr>"
  have none: "timer_container s1 u \<noteq> Some (pxCurrentTimerList s1)" for u
    using s1(4) ok1(4) [of u "pxCurrentTimerList s1"] se(1) by simp
  have "timers_ok ?s" using s1(2) unfolding timers_ok_def by (auto simp: timer_entries_def period_of_def)
  moreover have "armed (L + epoch) ?s u = armed L s1 u" for u
    using ok1(6) [of u] none [of u] ok1(1) by (auto simp: armed_def expires_at_def div_add_self2)
  moreover have "tally ?s = tally s1"
    using timer_callbacks.tally_current [OF assms(1)] timer_callbacks.tally_overflow [OF assms(1)] by simp
  moreover have "timer_entries ?s (pxOverflowTimerList ?s) = []" using s1(4) se(1) by (simp add: timer_entries_def)
  ultimately show ?thesis
    using s1(1,5) se(1,2) by (intro exI [of _ ?s]) (simp add: prvSwitchTimerLists_def timer_callbacks.due_view_def [OF assms(1)])
qed

lemma overflow_leaves_no_timer_witness:
  "\<exists>s'. prvSwitchTimerLists count_expiry sample_timers = Some s' \<and> pxCurrentTimerList s' = xActiveTimerList2
    \<and> armed epoch s' 1 = Some (90 + ((epoch - 1 - 90) div 3 + 1) * 3)"
proof -
  have "timers_ok sample_timers" using sample_timers_ok by (simp add: run_ok_def)
  moreover have "armed 0 sample_timers 1 = Some 90" "is_autoreload (timers sample_timers 1)" "period_of sample_timers 1 = 3"
    "pxOverflowTimerList sample_timers = xActiveTimerList2"
    by (simp_all add: armed_def expires_at_def sample_timers_def is_autoreload_def sample_timer_def period_of_def)
  moreover have "90 \<le> last_of_epoch 0" "last_of_epoch 0 = epoch - 1" by (simp_all add: last_of_epoch_def epoch_def)
  ultimately show ?thesis
    using overflow_leaves_no_timer [OF counting.timer_callbacks_axioms, of sample_timers 0] by (auto dest!: spec [of _ 1])
qed

section \<open>Commands\<close>

text \<open>
  C16: what each command of the timer task does to its timer. After the task has processed, at time
  \<open>N\<close>, a start or reset sent at time \<open>V\<close>, the timer is as if that had been done at \<open>V\<close>: it has made one
  callback for every period that passed since, and is armed for the next multiple of its
  period after \<open>N\<close>. A change of the period to \<open>V\<close> arms it one new period after \<open>N\<close>, the time of processing. A stop
  disarms it. A delete (5) disarms it too, and frees its memory, if that was allocated
  dynamically; else it marks the timer as not active. Every other timer is left to its schedule. The command
  returns, if the new period is not 0 and what is to be deleted can be freed (in an epoch of the tick count in which
  the task has run already, so that no callback comes before it).
\<close>

theorem commands_take_effect:
  assumes "timer_callbacks cb tally" and "run_ok L N s" and "command_sane N m s V" and "t = unat (pxTimer m)"
    and period: "changes (xMessageID m) \<Longrightarrow> 0 < V"
    and delete: "xMessageID m = 5 \<Longrightarrow> N div epoch = L div epoch
      \<and> (ucStatus (timers s t) AND tmrSTATUS_IS_STATICALLY_ALLOCATED \<noteq> 0 \<or> task_free ucHeap t s \<noteq> None)"
  shows "\<exists>s'. process_command cb ucHeap m s = Some s' \<and> timers_ok s' \<and> xLastTime s' = of_nat N
    \<and> (armed N s' t, tally s' t) = command_spec (xMessageID m) (is_autoreload (timers s t)) (period_of s t) V N (tally s t)
    \<and> (xMessageID m = 5 \<longrightarrow> (if ucStatus (timers s t) AND tmrSTATUS_IS_STATICALLY_ALLOCATED \<noteq> 0
         then heap s' = heap s \<and> ucStatus (timers s' t) AND tmrSTATUS_IS_ACTIVE = 0
         else map_option heap (task_free ucHeap t s) = Some (heap s')))
    \<and> (\<forall>u. u \<noteq> t \<longrightarrow> progress (is_autoreload (timers s u)) (period_of s u) L N (armed L s u, tally s u) (armed N s' u, tally s' u))"
proof -
  have ok: "timers_ok s" "xLastTime s = of_nat L" "xTickCount (kern s) = of_nat N" "L \<le> N" "N < L + epoch"
    using assms(2) by (simp_all add: run_ok_def)
  have t: "t \<noteq> 0" using assms(3,4) by (simp add: command_sane_def unat_eq_zero)
  let ?gone = "\<lambda>s'. xMessageID m = 5 \<longrightarrow> (if ucStatus (timers s t) AND tmrSTATUS_IS_STATICALLY_ALLOCATED \<noteq> 0
      then heap s' = heap s \<and> ucStatus (timers s' t) AND tmrSTATUS_IS_ACTIVE = 0
      else map_option heap (task_free ucHeap t s) = Some (heap s'))"
  obtain s' where s': "process_command cb ucHeap m s = Some s'" "?gone s'"
  proof (cases "xMessageID m = 5")
    case True
    note d = timer_callbacks.command_deletes [OF assms(1) ok _ True assms(4) t, of ucHeap]
    show thesis using d delete [OF True] that by (cases "process_command cb ucHeap m s") (auto split: if_splits)
  next
    case False
    then show thesis using timer_callbacks.command_returns [OF assms(1) ok assms(3) period False] that by blast
  qed
  note eff = timer_callbacks.command_effect [OF assms(1) ok assms(3) s'(1), folded assms(4)]
  show ?thesis
    using s' eff(1-3) timer_callbacks.sampled_progress [OF assms(1) ok(4) eff(4)] by blast
qed

definition sample_start :: DaemonTaskMessage_t where
  "sample_start = \<lparr>xMessageID = 1, xMessageValue = 89, pxTimer = 2\<rparr>"

lemma commands_take_effect_witness:
  "\<exists>s'. process_command count_expiry 0 sample_start sample_timers = Some s' \<and> armed 99 s' 2 = Some 101 \<and> expiry_count s' 2 = 3"
proof -
  have p: "period_of sample_timers 2 = 3" "is_autoreload (timers sample_timers 2)" "expiry_count sample_timers 2 = 0"
    by (simp_all add: period_of_def sample_timers_def sample_timer_def is_autoreload_def expiry_count_def)
  have c: "command_sane 99 sample_start sample_timers 89" "2 = unat (pxTimer sample_start)"
    using p(1) by (simp_all add: command_sane_def sample_start_def starts_def changes_def epoch_def)
  have "\<not> changes (xMessageID sample_start)" and "xMessageID sample_start \<noteq> 5" by (simp_all add: sample_start_def changes_def)
  then obtain s' where "process_command count_expiry 0 sample_start sample_timers = Some s'"
    "(armed 99 s' 2, expiry_count s' 2) = command_spec (xMessageID sample_start) (is_autoreload (timers sample_timers 2))
      (period_of sample_timers 2) 89 99 (expiry_count sample_timers 2)"
    using commands_take_effect [OF counting.timer_callbacks_axioms sample_timers_ok c, of 0] by blast
  then show ?thesis using p by (auto simp: sample_start_def command_spec_def starts_def)
qed

section \<open>Runs\<close>

text \<open>
  C15: timers fire on schedule. Whatever interrupts, other tasks and commands for other timers do
  in between, and however late the timer task runs: whenever it goes to sleep at time \<open>N\<close>, an
  auto-reload timer that was due at \<open>E\<close> has made exactly \<open>(N - E) div P + 1\<close> callbacks since and is
  armed for the next multiple of its period \<open>P\<close>, any other timer exactly one and is disarmed, and a timer
  that is not due none.
\<close>

theorem timers_fire_on_schedule:
  assumes "timer_callbacks cb tally" and "run_ok L0 N0 s0"
    and "(daemon_step cb tally ucHeap u)\<^sup>*\<^sup>* (L0, N0, s0) (L, N, s)" and "timer_task_waits s"
  shows "(armed N s u, tally s u)
    = (case armed L0 s0 u of
         None \<Rightarrow> (None, tally s0 u)
       | Some E \<Rightarrow>
           if N < E then (Some E, tally s0 u)
           else if is_autoreload (timers s0 u) then
             (Some (E + ((N - E) div period_of s0 u + 1) * period_of s0 u), tally s0 u + of_nat ((N - E) div period_of s0 u + 1))
           else (None, tally s0 u + 1))"
  using timer_callbacks.run_settled [OF assms(1,3,2,4)] by (cases "armed L0 s0 u") auto

lemma timers_fire_on_schedule_witness:
  "\<exists>s. (daemon_step count_expiry expiry_count 0 1)\<^sup>*\<^sup>* (80, 99, sample_timers) (99, 99, s) \<and> armed 99 s 1 = Some 102 \<and> expiry_count s 1 = 4"
proof -
  have n: "prvGetNextExpireTime sample_timers = (90, False)"
    by (simp add: prvGetNextExpireTime_def timer_head_def timer_entries_def sample_timers_def)
  obtain s where s: "prvProcessTimerOrBlockTask count_expiry (\<lambda>_. []) 90 False sample_timers = Some s" "xTickCount (kern s) = 99"
    "timer_task_waits s" using sample_pass by blast
  have "daemon_step count_expiry expiry_count 0 1 (80, 99, sample_timers) (99, 99, s)"
    by (rule daemon_step.pass [where env = "\<lambda>_. []"]) (simp_all add: n s epoch_def)
  then have r: "(daemon_step count_expiry expiry_count 0 1)\<^sup>*\<^sup>* (80, 99, sample_timers) (99, 99, s)" by blast
  have "armed 80 sample_timers 1 = Some 90" "is_autoreload (timers sample_timers 1)" "period_of sample_timers 1 = 3"
    "expiry_count sample_timers 1 = 0"
    by (simp_all add: armed_def expires_at_def sample_timers_def is_autoreload_def sample_timer_def period_of_def expiry_count_def epoch_def)
  then show ?thesis
    using timers_fire_on_schedule [OF counting.timer_callbacks_axioms sample_timers_ok r s(3)] r by auto
qed

end
