(* ===== verification/Rtos_Timer_Wait.thy ===== *)
theory Rtos_Timer_Wait
  imports Rtos_Timer_Sys
begin

text \<open>
  The timer task asleep: with interrupts at every point of its pass it never sleeps on a message,
  and it sleeps until exactly the next expiry, the overflow of the tick count, or a message.
\<close>

section \<open>A pass that waits\<close>

text \<open>The start of such a pass, up to the wait.\<close>

lemma sample_unswitched:
  assumes "\<not> xTickCount (kern s) < xLastTime s"
  shows "prvSampleTimeNow cb s = Some (xTickCount (kern s), False, s\<lparr>xLastTime := xTickCount (kern s)\<rparr>)"
  using assms by (simp add: prvSampleTimeNow_def xTaskGetTickCount_def Let_def)

lemma waiting_pass:
  assumes "timer_task_waits s" and "xTimerQueue s = Some q"
    and "isr_execs (env 0) q (vTaskSuspendAll (kern s)) = Some (q1, k1)" and "xTickCount k1 = xTickCount (kern s)"
    and "isr_execs (env 1) q1 k1 = Some (q2, k2)"
    and "restricted_wait env (fst (prvGetNextExpireTime s) - xTickCount (kern s))
      (snd (prvGetNextExpireTime s) \<and> timer_entries s (pxOverflowTimerList s) = []) q2 k2 = Some (y, q3, k3)"
  shows "prvProcessTimerOrBlockTask cb env (fst (prvGetNextExpireTime s)) (snd (prvGetNextExpireTime s)) s
    = Some (s\<lparr>xLastTime := xTickCount (kern s), xTimerQueue := Some q3, kern := if \<not> y then portYIELD k3 else k3\<rparr>)"
proof -
  obtain nx empty where ne: "prvGetNextExpireTime s = (nx, empty)" by (metis surj_pair)
  have w: "\<not> xTickCount (kern s) < xLastTime s" "\<not> (\<not> empty \<and> nx \<le> xTickCount (kern s))"
    using assms(1) by (simp_all add: timer_task_waits_def ne xTaskGetTickCount_def Let_def)
  let ?s = "s\<lparr>xTimerQueue := Some q1, kern := k1\<rparr>"
  have i0: "timer_isrs (env 0) (s\<lparr>kern := vTaskSuspendAll (kern s)\<rparr>) = Some ?s"
    using assms(2,3) by (simp add: timer_isrs_def)
  have sm: "prvSampleTimeNow cb ?s = Some (xTickCount (kern s), False, ?s\<lparr>xLastTime := xTickCount (kern s)\<rparr>)"
    using sample_unswitched [of ?s cb] w(1) assms(4) by simp
  have i1: "timer_isrs (env 1) (?s\<lparr>xLastTime := xTickCount (kern s)\<rparr>)
    = Some (s\<lparr>xTimerQueue := Some q2, kern := k2, xLastTime := xTickCount (kern s)\<rparr>)"
    using assms(5) by (simp add: timer_isrs_def)
  have e: "timer_entries (s\<lparr>xTimerQueue := Some q2, kern := k2, xLastTime := xTickCount (kern s)\<rparr>) l = timer_entries s l" for l
    by (simp add: timer_entries_def)
  show ?thesis
    unfolding ne prvProcessTimerOrBlockTask_def Let_def fst_conv snd_conv i0 bind.bind_lunit sm prod.case i1
    using w(2) assms(6) by (cases empty; cases y) (simp_all add: e ne)
qed

lemma shared_yield: "shared c e f env q (portYIELD k) = shared c e f env q k"
  by (simp add: shared_def system_ok_def no_lost_def lock_ok_def)

text \<open>The waiting time is positive, or there is none.\<close>

lemma wait_positive:
  assumes "timer_task_waits s" and "xTickCount (kern s) \<noteq> 0 \<or> timer_entries s (pxOverflowTimerList s) = []"
  shows "0 < fst (prvGetNextExpireTime s) - xTickCount (kern s) \<or> snd (prvGetNextExpireTime s) \<and> timer_entries s (pxOverflowTimerList s) = []"
proof (cases "snd (prvGetNextExpireTime s)")
  case True
  then have "fst (prvGetNextExpireTime s) = 0" by (simp add: prvGetNextExpireTime_def split: option.splits)
  then show ?thesis using True assms(2) by (auto simp: word_gt_0)
next
  case False
  then have "xTickCount (kern s) < fst (prvGetNextExpireTime s)"
    using assms(1) by (auto simp: timer_task_waits_def xTaskGetTickCount_def case_prod_beta Let_def)
  then show ?thesis by (auto simp: word_gt_0)
qed

text \<open>
  C18: the timer task misses no command. Interrupts may send commands at any point of a pass that
  finds no timer due, even between the check of the queue and the placing of the task; the pass
  returns, and the task is not left waiting while the queue holds a message.
\<close>

theorem timer_task_misses_no_command:
  assumes "timer_task_waits s" and "xTimerQueue s = Some q" and "shared c e f env q (kern s)" and "unlocked q"
    and "running c (kern s)" and "uxSchedulerSuspended (kern s) = 0"
    and "xTickCount (kern s) \<noteq> 0 \<or> timer_entries s (pxOverflowTimerList s) = []"
  shows "\<exists>s' q'. prvProcessTimerOrBlockTask cb env (fst (prvGetNextExpireTime s)) (snd (prvGetNextExpireTime s)) s = Some s'
    \<and> xTimerQueue s' = Some q' \<and> shared c e f env q' (kern s') \<and> uxSchedulerSuspended (kern s') = 0
    \<and> (uxMessagesWaiting q' \<noteq> 0 \<longrightarrow> entries (kern s') (EventList e) = [])"
proof -
  let ?k = "vTaskSuspendAll (kern s)"
  obtain q1 k1 where 1: "isr_execs (env 0) q ?k = Some (q1, k1)" "shared c e f env q1 k1" "step_keeps c e q ?k q1 k1"
    using shared_step [OF suspend_shared(1) [OF assms(3)]] by blast
  have "paused ?k k1" by (rule paused_isr_execs [OF 1(1)]) (simp add: vTaskSuspendAll_def)
  then have t1: "xTickCount k1 = xTickCount (kern s)" by (simp add: paused_def vTaskSuspendAll_def)
  obtain q2 k2 where 2: "isr_execs (env 1) q1 k1 = Some (q2, k2)" "shared c e f env q2 k2" "step_keeps c e q1 k1 q2 k2"
    using shared_step [OF 1(2)] by blast
  have u: "unlocked q2" "uxSchedulerSuspended k2 = 1" "running c k2"
    using 1(3) 2(3) assms(4,6) suspend_shared(3) [of "kern s"]
      running_step [OF 2(3) running_step [OF 1(3) suspend_shared(2) [OF assms(5)]]]
    by (simp_all add: step_keeps_def unlocked_def)
  from restricted_wait_shared [OF 2(2) u wait_positive [OF assms(1,7)]] obtain y q3 k3 where
    3: "restricted_wait env (fst (prvGetNextExpireTime s) - xTickCount (kern s))
      (snd (prvGetNextExpireTime s) \<and> timer_entries s (pxOverflowTimerList s) = []) q2 k2 = Some (y, q3, k3)"
    "shared c e f env q3 k3" "unlocked q3" "uxSchedulerSuspended k3 = 0" by blast
  note p = waiting_pass [OF assms(1,2) 1(1) t1 2(1) 3(1), of cb]
  let ?k3 = "if \<not> y then portYIELD k3 else k3"
  have sh: "shared c e f env q3 ?k3" using 3(2) shared_yield by simp
  then have "uxMessagesWaiting q3 \<noteq> 0 \<Longrightarrow> entries ?k3 (EventList e) = []"
    using 3(3) by (auto simp: shared_def no_lost_def counted_def unlocked_def)
  moreover have "uxSchedulerSuspended ?k3 = 0" using 3(4) by (simp add: portYIELD_def)
  ultimately show ?thesis using p sh by auto
qed

text \<open>The state \<open>sample_timers\<close> after its expired timer has been processed, one tick before the next expiry.\<close>

definition waiting_timers :: timer_state where
  "waiting_timers = sample_timers\<lparr>timer_value := (\<lambda>_. 102), xLastTime := 99\<rparr>"

lemma waiting_timers_state:
  "timer_task_waits waiting_timers" "xTimerQueue waiting_timers = Some sample_queue" "kern waiting_timers = sample_kernel"
  "timer_entries waiting_timers xActiveTimerList2 = []" "pxOverflowTimerList waiting_timers = xActiveTimerList2"
  "prvGetNextExpireTime waiting_timers = (102, False)"
  by (simp_all add: waiting_timers_def sample_timers_def timer_task_waits_def prvGetNextExpireTime_def timer_head_def
      timer_entries_def xTaskGetTickCount_def sample_kernel_def xl_empty_def Let_def)

definition one_command :: "nat \<Rightarrow> isr_op list" where
  "one_command n = (if n = 4 then [IsrSend [7], IsrTick] else [])"

lemma sample_shared: "shared 1 9 8 one_command sample_queue sample_kernel"
  using sample_system(1) sample_state(1)
  by (auto simp: shared_def all_fit_def one_command_def isr_fits_def sample_queue_def no_lost_def)

lemma timer_task_misses_no_command_witness:
  "\<exists>s' q'. prvProcessTimerOrBlockTask count_expiry one_command 102 False waiting_timers = Some s' \<and> xTimerQueue s' = Some q'
    \<and> (uxMessagesWaiting q' \<noteq> 0 \<longrightarrow> entries (kern s') (EventList 9) = [])"
  using timer_task_misses_no_command [of waiting_timers sample_queue 1 9 8 one_command count_expiry] sample_shared sample_state(2,3,5)
  by (auto simp: waiting_timers_state)

section \<open>Waking for the next expiry\<close>

text \<open>When the timer task has to run next: at the first expiry of the current list, or at the overflow.\<close>

definition next_wake :: "nat \<Rightarrow> 'a timer_state_scheme \<Rightarrow> nat option" where
  "next_wake N s =
     (case timer_head (pxCurrentTimerList s) s of
        Some t \<Rightarrow> Some (expires_at N s t)
      | None \<Rightarrow> if timer_entries s (pxOverflowTimerList s) = [] then None else Some (last_of_epoch N + 1))"

lemma unat_tick_minus: "0 < n \<Longrightarrow> n < epoch \<Longrightarrow> unat (- of_nat n :: tick) = epoch - n"
proof -
  assume n: "0 < n" "n < epoch"
  have "(of_nat epoch :: tick) = 0" by (simp only: word_unat_eq_iff unat_tick) simp
  then have "(- of_nat n :: tick) = of_nat (epoch - n)" using n(2) by (simp add: of_nat_diff)
  then show ?thesis using n by (simp only: unat_tick) simp
qed

lemma wait_ticks:
  assumes "run_ok L N s" and "timer_task_waits s"
  shows "(case next_wake N s of
      None \<Rightarrow> snd (prvGetNextExpireTime s) \<and> timer_entries s (pxOverflowTimerList s) = []
    | Some D \<Rightarrow> \<not> (snd (prvGetNextExpireTime s) \<and> timer_entries s (pxOverflowTimerList s) = [])
        \<and> (N mod epoch \<noteq> 0 \<or> \<not> snd (prvGetNextExpireTime s) \<longrightarrow>
            N < D \<and> unat (fst (prvGetNextExpireTime s) - xTickCount (kern s)) = D - N))"
proof -
  have ok: "timers_ok s" "xTickCount (kern s) = of_nat N" using assms(1) by (simp_all add: run_ok_def)
  have N: "N = N div epoch * epoch + N mod epoch" "N mod epoch < epoch" by simp_all
  show ?thesis
  proof (cases "timer_head (pxCurrentTimerList s) s")
    case None
    then have g: "prvGetNextExpireTime s = (0, True)" by (simp add: prvGetNextExpireTime_def)
    have "unat (0 - of_nat N :: tick) = last_of_epoch N + 1 - N" "N < last_of_epoch N + 1" if "N mod epoch \<noteq> 0"
    proof -
      have "(of_nat N :: tick) = of_nat (N mod epoch)" by (simp only: word_unat_eq_iff unat_tick mod_mod_trivial)
      then have "unat (0 - of_nat N :: tick) = epoch - N mod epoch" using unat_tick_minus [of "N mod epoch"] that by simp
      then show "unat (0 - of_nat N :: tick) = last_of_epoch N + 1 - N" "N < last_of_epoch N + 1"
        using N unfolding last_of_epoch_def by linarith+
    qed
    then show ?thesis using None g ok(2) by (simp add: next_wake_def)
  next
    case (Some t)
    have g: "prvGetNextExpireTime s = (timer_value s t, False)" by (simp add: prvGetNextExpireTime_def Some)
    note nt = next_time_due [OF ok(1) Some]
    have less: "\<not> timer_value s t \<le> of_nat N"
      using assms(2) ok(2) by (simp add: timer_task_waits_def g xTaskGetTickCount_def Let_def)
    have D: "expires_at N s t = N div epoch * epoch + unat (timer_value s t)"
      using nt(1) timers_okD(1) [OF ok(1)] by (simp add: expires_at_def)
    have "unat (timer_value s t - of_nat N) = unat (timer_value s t) - N mod epoch"
      using less by (simp add: unat_sub unat_tick [symmetric] del: unat_of_nat)
    then have "unat (timer_value s t - of_nat N) = expires_at N s t - N" using D N by linarith
    then show ?thesis using Some g ok(2) less nt(2) [of N] by (simp add: next_wake_def)
  qed
qed

text \<open>The wait on an empty queue, with no interrupts.\<close>

lemma quiet_wait:
  assumes "system_ok c e f T q k" and "unlocked q" and "running c k" and "uxMessagesWaiting q = 0" and "uxSchedulerSuspended k = 1"
    and "xPendedTicks k = 0" and "0 < ticks \<or> forever"
  shows "\<exists>y q' k'. restricted_wait (\<lambda>_. []) ticks forever q k = Some (y, q', k') \<and> time_ok T k' \<and> uxSchedulerSuspended k' = 0
    \<and> uxPriority k' = uxPriority k
    \<and> (if forever then container k' (StateItem c) = Some SuspendedTaskList \<and> due T k' c = None else due T k' c = Some (T + unat ticks))"
proof -
  note sys = assms(1) [unfolded system_ok_def]
  have t: "time_ok T k" and cur: "pxCurrentTCB k = c" and rcv: "xTasksWaitingToReceive q = EventList e" using sys by simp_all
  obtain p where r: "container k (StateItem (pxCurrentTCB k)) = Some (ReadyList p)" "container k (EventItem (pxCurrentTCB k)) = None"
    using assms(3) cur by (auto simp: running_def)
  let ?k = "list_insert_end (EventList e) (EventItem (pxCurrentTCB k)) k"
  obtain k1 where k1: "vTaskPlaceOnEventListRestricted (EventList e) ticks forever k = Some k1"
    "blocked_until T (if forever then None else Some (unat ticks)) ?k k1"
    using place_restricted_effect [OF t r assms(7)] by blast
  have b: "time_ok T k1" "uxSchedulerSuspended k1 = 1" "0 < uxCurrentNumberOfTasks k1" "container k1 (EventItem c) = Some (EventList e)"
    "uxPriority k1 = uxPriority k"
    "due T k1 c = (if forever then None else Some (T + unat ticks))" "forever \<Longrightarrow> container k1 (StateItem c) = Some SuspendedTaskList"
    using k1(2) sys assms(5) cur by (auto simp: blocked_until_def list_insert_end_def)
  have pend: "xPendedTicks k1 = 0"
    using k1(1) assms(6) by (auto simp: vTaskPlaceOnEventListRestricted_def list_insert_end_def dest!: pended_kept)
  let ?q = "prvLockQueue q"
  have lk: "uxMessagesWaiting ?q = 0" "xTasksWaitingToReceive ?q = EventList e" "cTxLock ?q = 0" "cRxLock ?q = 0"
    using assms(2,4) rcv by (simp_all add: prvLockQueue_def unlocked_def Let_def)
  have "unlock_tx ?q k1 = Some (?q\<lparr>cTxLock := - 1\<rparr>, k1)" "unlock_rx (?q\<lparr>cTxLock := - 1\<rparr>) k1 = Some (?q\<lparr>cTxLock := - 1, cRxLock := - 1\<rparr>, k1)"
    using lk by (simp_all add: unlock_tx_def unlock_rx_def)
  then have w: "vQueueWaitForMessageRestricted (\<lambda>_. []) ticks forever q k = Some (?q\<lparr>cTxLock := - 1, cRxLock := - 1\<rparr>, k1)"
    using lk k1(1) by (simp add: vQueueWaitForMessageRestricted_def Let_def)
  obtain y k2 where k2: "xTaskResumeAll k1 = Some (y, k2)" "uxSchedulerSuspended k2 = 0" "time_ok T k2" "uxPriority k2 = uxPriority k1"
    "\<forall>t d. container k1 (EventItem t) \<noteq> Some PendingReadyList \<longrightarrow> due T k1 t = Some d \<longrightarrow>
      (if d \<le> T then container k2 (StateItem t) = Some (ReadyList (uxPriority k1 t)) else due T k2 t = Some d)"
    "\<forall>t. container k1 (EventItem t) \<noteq> Some PendingReadyList \<longrightarrow> due T k1 t = None \<longrightarrow> container k2 (StateItem t) = container k1 (StateItem t)"
    using resume_effect [OF b(1,2,3), unfolded pend unsigned_0 add_0_right] by (blast intro: that)
  have "restricted_wait (\<lambda>_. []) ticks forever q k = Some (y, ?q\<lparr>cTxLock := - 1, cRxLock := - 1\<rparr>, k2)"
    using w k2(1) by (simp add: restricted_wait_def)
  moreover have "if forever then container k2 (StateItem c) = Some SuspendedTaskList \<and> due T k2 c = None else due T k2 c = Some (T + unat ticks)"
  proof (cases forever)
    case True
    then have s: "container k2 (StateItem c) = Some SuspendedTaskList" using k2(6) b(4,6,7) by simp
    moreover have "due T k2 c = None"
      using s delayed_list_kinds [of k2] k2(3) by (auto simp: due_def time_ok_def)
    ultimately show ?thesis using True by simp
  next
    case False
    then have "0 < unat ticks" using assms(7) by (simp add: word_gt_0 unat_gt_0)
    then show ?thesis using False k2(5) b(4,6) by auto
  qed
  ultimately show ?thesis using k2(2-4) b(5) by auto
qed

text \<open>
  C19: the timer task wakes exactly when it has to. When no timer is due and no message waits, a pass puts the
  task to sleep; with no message it stays asleep until the tick of the next expiry in the
  current list, or of the overflow when only the other list has timers, and is ready from that tick on. With
  no timer at all it sleeps until a message comes.
\<close>

theorem timer_task_wakes_on_time:
  assumes "run_ok L N s" and "timer_task_waits s" and "xTimerQueue s = Some q" and "system_ok c e f N q (kern s)" and "unlocked q"
    and "running c (kern s)" and "uxMessagesWaiting q = 0" and "uxSchedulerSuspended (kern s) = 0" and "xPendedTicks (kern s) = 0"
    and "N mod epoch \<noteq> 0 \<or> timer_entries s (pxOverflowTimerList s) = []"
  shows "\<exists>s'. prvProcessTimerOrBlockTask cb (\<lambda>_. []) (fst (prvGetNextExpireTime s)) (snd (prvGetNextExpireTime s)) s = Some s'
    \<and> (\<forall>n. \<exists>k'. pended_ticks n (kern s') = Some k' \<and>
         (case next_wake N s of
            None \<Rightarrow> container k' (StateItem c) = Some SuspendedTaskList
          | Some D \<Rightarrow> if D \<le> N + n then container k' (StateItem c) = Some (ReadyList (uxPriority (kern s) c))
                      else due (N + n) k' c = Some D))"
proof -
  let ?k = "vTaskSuspendAll (kern s)"
  let ?ticks = "fst (prvGetNextExpireTime s) - xTickCount (kern s)"
  let ?forever = "snd (prvGetNextExpireTime s) \<and> timer_entries s (pxOverflowTimerList s) = []"
  have tick: "xTickCount (kern s) = of_nat N" using assms(1) by (simp add: run_ok_def)
  have nz: "xTickCount (kern s) \<noteq> 0 \<or> timer_entries s (pxOverflowTimerList s) = []"
    using assms(10) tick unat_tick [of N] by (metis unat_eq_zero)
  have sy: "system_ok c e f N q ?k" "running c ?k" "uxSchedulerSuspended ?k = 1" "xPendedTicks ?k = 0" "xTickCount ?k = xTickCount (kern s)"
    "uxPriority ?k = uxPriority (kern s)"
    using assms(4,6,8,9) by (auto simp: system_ok_def lock_ok_def vTaskSuspendAll_def time_ok_def waiting_ok_def delays_ok_def
        by_value_def running_def)
  obtain y q3 k3 where w: "restricted_wait (\<lambda>_. []) ?ticks ?forever q ?k = Some (y, q3, k3)" "time_ok N k3" "uxSchedulerSuspended k3 = 0"
    "uxPriority k3 = uxPriority ?k"
    "if ?forever then container k3 (StateItem c) = Some SuspendedTaskList \<and> due N k3 c = None else due N k3 c = Some (N + unat ?ticks)"
    using quiet_wait [OF sy(1) assms(5) sy(2) assms(7) sy(3,4) wait_positive [OF assms(2) nz]] by blast
  let ?k3 = "if \<not> y then portYIELD k3 else k3"
  have p: "prvProcessTimerOrBlockTask cb (\<lambda>_. []) (fst (prvGetNextExpireTime s)) (snd (prvGetNextExpireTime s)) s
    = Some (s\<lparr>xLastTime := xTickCount (kern s), xTimerQueue := Some q3, kern := ?k3\<rparr>)"
    using waiting_pass [OF assms(2,3), of "\<lambda>_. []" q ?k q ?k y q3 k3] w(1) sy(5) by simp
  have k3: "time_ok N ?k3" "uxSchedulerSuspended ?k3 = 0" "uxPriority ?k3 = uxPriority (kern s)" "due N ?k3 = due N k3" "container ?k3 = container k3"
    using w(2-4) sy(6) by (simp_all add: portYIELD_def [of k3] due_def fun_eq_iff time_ok_def waiting_ok_def delays_ok_def by_value_def)
  have wt: "case next_wake N s of None \<Rightarrow> ?forever | Some D \<Rightarrow> \<not> ?forever \<and> N < D \<and> unat ?ticks = D - N"
    using wait_ticks [OF assms(1,2)] assms(10) by (auto simp: next_wake_def split: option.splits if_splits)
  have "\<exists>k'. pended_ticks n ?k3 = Some k' \<and>
         (case next_wake N s of
            None \<Rightarrow> container k' (StateItem c) = Some SuspendedTaskList
          | Some D \<Rightarrow> if D \<le> N + n then container k' (StateItem c) = Some (ReadyList (uxPriority (kern s) c))
                      else due (N + n) k' c = Some D)" for n
  proof -
    obtain k' where k': "pended_ticks n ?k3 = Some k'"
      "case due N ?k3 c of None \<Rightarrow> container k' (StateItem c) = container ?k3 (StateItem c) \<and> due (N + n) k' c = None
       | Some d \<Rightarrow> if d \<le> N + n then container k' (StateItem c) = Some (ReadyList (uxPriority ?k3 c)) else due (N + n) k' c = Some d"
      using pended_ticks_effect [OF k3(1,2), of n] by blast
    show ?thesis
    proof (cases "next_wake N s")
      case None
      then have "?forever" using wt by simp
      then show ?thesis using None k' w(5) k3(4,5) by (intro exI [of _ k']) (simp split: if_splits)
    next
      case (Some D)
      then have "\<not> ?forever" "N + unat ?ticks = D" using wt by simp_all
      then have "due N ?k3 c = Some D" using w(5) k3(4) by (simp only: if_False)
      then show ?thesis using Some k' k3(3) by (intro exI [of _ k']) simp
    qed
  qed
  then show ?thesis using p by (intro exI) (auto split del: if_split)
qed

lemma timer_task_wakes_on_time_witness:
  "\<exists>s' k'. prvProcessTimerOrBlockTask count_expiry (\<lambda>_. []) 102 False waiting_timers = Some s' \<and> pended_ticks 3 (kern s') = Some k'
    \<and> container k' (StateItem 1) = Some (ReadyList 2)"
proof -
  have r: "run_ok 99 99 waiting_timers"
    using sample_timers_ok
    by (auto simp: run_ok_def timers_ok_def waiting_timers_def sample_timers_def timer_entries_def period_of_def epoch_def xl_empty_def)
  have "next_wake 99 waiting_timers = Some 102" "uxPriority sample_kernel 1 = 2" "xPendedTicks sample_kernel = 0" "uxMessagesWaiting sample_queue = 0"
    by (simp_all add: next_wake_def waiting_timers_def sample_timers_def timer_head_def timer_entries_def expires_at_def epoch_def
        sample_kernel_def sample_queue_def)
  then obtain s' where s': "prvProcessTimerOrBlockTask count_expiry (\<lambda>_. []) 102 False waiting_timers = Some s'"
    "\<forall>n. \<exists>k'. pended_ticks n (kern s') = Some k' \<and>
      (if 102 \<le> 99 + n then container k' (StateItem 1) = Some (ReadyList 2) else due (99 + n) k' 1 = Some 102)"
    using timer_task_wakes_on_time [OF r waiting_timers_state(1,2), of 1 9 8 count_expiry] sample_system(1) sample_state(2,3,5)
    by (auto simp: waiting_timers_state cong: if_cong)
  then show ?thesis using spec [OF s'(2), of 3] by auto
qed

end
