(* ===== verification/Spec2Isabelle.thy ===== *)
theory Spec2Isabelle
  imports Mb_Init Dsp_Mirror Rtos_Group_Sys Rtos_Stream_Wait Rtos_Timer_Wait
begin

text \<open>
  A verification development for the firmware of a Modbus RTU slave on a GD32F303 microcontroller
  (a 32-bit little-endian Cortex-M4): the slave application, the mirror of the DSP's registers, the
  peripheral drivers they use, and the part of the FreeRTOS kernel they run on.

  \<^bold>\<open>The program.\<close> \<open>APP/main.c\<close> creates one task, which initialises the slave and polls it
  (\<open>Services/ModbusrtuSlvArm/src/mb_slv.c\<close>). A frame comes in over USART0 by DMA; the idle-line
  interrupt (\<open>mb_slv_port_gd32.c\<close>) gives a binary semaphore; the task takes it, parses the
  frame (\<open>mb_slv_frame.c\<close>, with the checksum of \<open>mb_slv_crc.c\<close>), executes it
  (\<open>mb_slv_func.c\<close>) on the holding registers (\<open>mb_slv_data.c\<close>) and sends the reply by DMA; the
  transmission-complete interrupt starts reception again. \<open>Services/data/dsp_mirror.c\<close> maps a second
  register space. Below are the GD32 standard peripheral library and the FreeRTOS kernel
  (\<open>FreeRTOS-Kernel-main\<close>: \<open>list.c\<close>, \<open>tasks.c\<close>, \<open>queue.c\<close>, \<open>timers.c\<close>, \<open>event_groups.c\<close>,
  \<open>stream_buffer.c\<close>) in the configuration of
  \<open>APP/FreeRTOSConfig.h\<close>: preemption without time slicing, 5 priorities, 64-bit ticks, mutexes with
  priority inheritance, no queue sets.

  \<^bold>\<open>Conventions.\<close> Machine integers are words of their width. C arrays are lists with checked
  access; undefined behaviour, a failing \<open>configASSERT\<close> and an endless error loop are \<open>None\<close>, so
  memory safety and the absence of failed assertions are part of every theorem that says the
  result is \<open>Some\<close>. State is passed explicitly. Uninitialised local variables and addresses given
  by the linker are parameters. Loops over linked structures are partial functions in the option
  monad, whose results are proved to exist; counted loops are \<open>for_range\<close>.

  \<^bold>\<open>The theories.\<close>
  \<^item> \<open>Fw_Base\<close>: words, checked arrays, the counted loop and its invariant rule, memory blocks.
  \<^item> \<open>Mb_Crc\<close>: the table-driven checksum equals the bit-serial definition (locale of a linear
    checksum, interpreted on it); corruption of two adjacent bytes is detected.
  \<^item> \<open>Reg_Bank\<close>, \<open>Mb_Data\<close>: holding registers, as a register bank.
  \<^item> \<open>Mb_Frame\<close>: parsing and building of frames; parsing recovers the request from its bytes, is
    memory-safe and rejects corrupted frames.
  \<^item> \<open>Mb_Func\<close>: request execution refines the abstract \<open>outcome\<close> of a request.
  \<^item> \<open>Mb_Port\<close>: the serial line: initialisation, reception, transmission, and the interrupt handler.
  \<^item> \<open>Mb_Slave\<close>: the slave as a whole: from the interrupt to the programmed reply, and the system of
    slave, interrupts, ticks, context switches and hardware as a step relation, on which
    safety is by rule induction.
  \<^item> \<open>Mb_Init\<close>: initialisation establishes the listening state: clocks, pins, serial port, both DMA channels and
    the interrupt controller (\<open>line_set_up\<close>), with reception running.
  \<^item> \<open>Dsp_Mirror\<close>: the mirror registers, as a register bank.
  \<^item> \<open>Gd32_Mmio\<close>, \<open>Gd32_Dma\<close>, \<open>Gd32_Rcu\<close>, \<open>Gd32_Usart\<close>, \<open>Gd32_Gpio\<close>, \<open>Gd32_Misc\<close>: drivers over a
    register store with a log of the accesses; each function's effect on the registers.
  \<^item> \<open>Rtos_List\<close>, \<open>Rtos_Xlist\<close>: the doubly linked lists of \<open>list.c\<close> on a store, and their refinement
    to sequences with an index, which the scheduler's model uses.
  \<^item> \<open>Rtos_Kernel\<close>: the scheduler's operations; \<open>Rtos_Sched\<close>: its invariants (\<open>kernel_ok\<close>: every
    item is in the list it names, in order; \<open>time_ok\<close>: the delayed lists and the wake-up time agree
    with the absolute time, across the wrap-around of the tick count), the tick and blocking;
    \<open>Rtos_Event\<close>: context switches, event lists, suspension and priority inheritance.
  \<^item> \<open>Rtos_Queue\<close>, \<open>Rtos_Queue_Task\<close>: the operations of \<open>queue.c\<close>; \<open>Rtos_Ring\<close>: the ring buffer
    implements the interface \<open>fifo\<close>; \<open>Rtos_Queue_Safe\<close>: interrupts keep the invariants of queue and
    scheduler, locked or not; \<open>Rtos_Queue_Wait\<close>: a blocking operation with interrupts between any
    two of its atomic sections.
  \<^item> \<open>Rtos_Heap\<close>: the allocator \<open>heap_4.c\<close>; \<open>Rtos_Heap_Layout\<close>: its free list and block headers lay out
    a sequence of segments; \<open>Rtos_Heap_Safe\<close>: allocation refines first fit on that sequence,
    release merges neighbours, and under any sequence of operations blocks in use do not overlap.
  \<^item> \<open>Rtos_Port\<close>: the port to the Cortex-M4F (\<open>portable/GCC/ARM_CM4F\<close>): interrupt masking, the start of
    the scheduler, stack frames, and the saving and restoring of registers, from the assembly.
  \<^item> \<open>Rtos_Task\<close>, \<open>Rtos_Life\<close>, \<open>Rtos_Notify\<close>: the life of a task in \<open>tasks.c\<close>: creation, deletion,
    suspension, priorities, periodic delays and notifications, over scheduler, allocator and port.
    \<open>Rtos_Life_Safe\<close>: suspension and periodic delays; \<open>Rtos_Notify_Safe\<close>: no notification is lost,
    whether the interrupt comes before the task announces its wait, before it sleeps or while it sleeps (locale \<open>notifier\<close>,
    interpreted on notifications here, on senders and receivers of stream buffers below);
    \<open>Rtos_Life_Inv\<close>: all these operations, ticks, interrupts and context switches as a step relation
    whose invariant says that the running task is one of the most urgent ones; \<open>Rtos_Life_Heap\<close>:
    what creation takes from the heap, deletion gives back.
  \<^item> \<open>Rtos_Group\<close>: the event groups of \<open>event_groups.c\<close>; \<open>Rtos_Group_Safe\<close>: setting bits wakes exactly
    the tasks whose request (\<open>wait_request\<close>: the bits wanted, all or one of them, to be cleared or not) is satisfied; \<open>Rtos_Group_Inv\<close>, \<open>Rtos_Group_Sys\<close>: the step relation of tasks
    with an event group, in which no task is left waiting for bits that are set.
  \<^item> \<open>Rtos_Stream\<close>: the stream, batching and message buffers of \<open>stream_buffer.c\<close>; \<open>Rtos_Stream_Ring\<close>: their
    storage as a ring; \<open>Rtos_Stream_Safe\<close>: what an interrupt that receives does, with a log of it;
    \<open>Rtos_Stream_Send\<close>: a task that sends with such interrupts between any two accesses (locale
    \<open>reader\<close>), at once or after a wait that one of them ends by making room; \<open>Rtos_Stream_Wait\<close>: a task that waits for what an interrupt
    sends. A buffer has one reader and one writer, as \<open>stream_buffer.h\<close> demands; a wait that times out is not covered.
  \<^item> \<open>Rtos_Queue_More\<close>: the rest of \<open>queue.c\<close>, with the wait the timer task uses, which loses no wake-up.
  \<^item> \<open>Rtos_Timer\<close>, \<open>Rtos_Timer_Api\<close>: the software timers of \<open>timers.c\<close>, and the start and end of the
    scheduler, which create and delete the idle and timer tasks. \<open>Rtos_Timer_Exact\<close>: the tests on
    64-bit times against absolute times; \<open>Rtos_Timer_Inv\<close>: when a timer is armed, and what a timer that is
    served late owes; \<open>Rtos_Timer_Fire\<close>, \<open>Rtos_Timer_Cmd\<close>: expiry and commands, for all callbacks
    that keep the contract of the locale \<open>timer_callbacks\<close>; \<open>Rtos_Timer_Run\<close>, \<open>Rtos_Timer_Sys\<close>: the timer task
    among ticks, interrupts and other tasks as a step relation, in which timers fire on
    schedule; \<open>Rtos_Timer_Wait\<close>: its sleep ends on time and misses no command.

  \<^bold>\<open>How the code's concurrency is modelled.\<close> An operation of a task on a queue is a sequence of
  atomic sections (critical sections, or code that runs with the scheduler suspended and the queue
  locked) between which any sequence of interrupts may occur; \<open>env n\<close> is the one at the \<open>n\<close>-th point.
  \<open>vTaskPlaceOnEventList\<close> is atomic because the locked queue keeps interrupts off the event lists.
  A blocking function of \<open>queue.c\<close> is one pass of its loop: what other tasks do between two passes
  is not part of it. The hardware (registers that change, bytes that arrive) is either a hypothesis
  on the register contents or the relation \<open>hardware\<close>. A wait for a notification is such a sequence
  too, which goes on after its yield: at point 3 the task sleeps, and what runs then, and gives it
  the processor again, is a parameter. The \<open>FromISR\<close> functions are modelled for interrupts whose
  priority passes \<open>vPortValidateInterruptPriority\<close>.

  The configuration masks interrupts below priority 0, which the hardware reads as masking none, and
  the start of the scheduler asserts that it is not 0: \<open>scheduler_cannot_start\<close>. Atomic sections are
  as they are with a priority other than 0; the theorems on tasks and queues are about a program
  with that one constant corrected.

  \<^bold>\<open>Not modelled.\<close> From \<open>tasks.c\<close>: the idle task's loop, statistics, task tags and the MPU variants;
  from \<open>queue.c\<close>: the registry, co-routines and queue sets (not configured); from \<open>timers.c\<close>: pended
  function calls (not configured); co-routines (not configured); from the port: \<open>prvTaskExitError\<close>, the
  jump to the first task and tickless idling (not
  configured); \<open>main\<close>; the other drivers of the peripheral library; \<open>BSP\<close> and the Ethernet glue,
  which are not part of the built program; lwIP, other ports of the kernel and the CMSIS headers,
  which are third-party code the build does not use.
\<close>

end
